(* ===== verification/KR_Prelude.thy ===== *)
theory KR_Prelude
  imports Complex_Main "HOL-Library.Word" "HOL-Library.Monad_Syntax"
begin

text \<open>
  Shared vocabulary of the development.

  \<^item> The C integer types the sources use, as words of their width; an \<open>int\<close> that the code only
    counts with is a HOL \<open>int\<close> and every operation on it that could leave the 32-bit range goes
    through \<open>chk_int\<close>.
  \<^item> Undefined behaviour (a read outside an array, a dereference of NULL or of a freed block, a
    signed overflow, a failed \<open>assert\<close>, a loop that never ends) is the value \<^term>\<open>None\<close>, and
    \<open>do\<close>-notation in the option monad propagates it. A theorem that an operation returns
    \<^term>\<open>Some\<close> therefore says that it terminates and that none of these happen.
  \<^item> C strings are \<open>string\<close>s without the terminating NUL.
\<close>

named_theorems kr_simps \<open>unfolding rules shared by the component proofs\<close>

type_synonym u8 = "8 word"
type_synonym u16 = "16 word"
type_synonym u32 = "32 word"
type_synonym u64 = "64 word"
type_synonym i32 = "32 word"
type_synonym i64 = "64 word"

section \<open>The option monad as partiality\<close>

definition assert_c :: "bool \<Rightarrow> unit option" where
  "assert_c b = (if b then Some () else None)"

lemma assert_c_True [simp]: "assert_c True = Some ()"
  by (simp add: assert_c_def)

lemma assert_c_bind_Some [simp]:
  "(assert_c b \<bind> f = Some y) \<longleftrightarrow> b \<and> f () = Some y"
  by (simp add: assert_c_def)

definition chk_int :: "int \<Rightarrow> int option" where
  "chk_int x = (if - (2 ^ 31) \<le> x \<and> x < 2 ^ 31 then Some x else None)"

lemma chk_int_eq_Some: "chk_int x = Some y \<longleftrightarrow> y = x \<and> - (2 ^ 31) \<le> x \<and> x < 2 ^ 31"
  by (auto simp: chk_int_def)

lemma chk_int_ok [simp]: "- (2 ^ 31) \<le> x \<Longrightarrow> x < 2 ^ 31 \<Longrightarrow> chk_int x = Some x"
  by (simp add: chk_int_def)

text \<open>A C array read: outside the array there is no value.\<close>

definition nth_opt :: "'a list \<Rightarrow> nat \<Rightarrow> 'a option" where
  "nth_opt xs i = (if i < length xs then Some (xs ! i) else None)"

lemma nth_opt_eq_Some: "nth_opt xs i = Some x \<longleftrightarrow> i < length xs \<and> x = xs ! i"
  by (auto simp: nth_opt_def)

lemma nth_opt_nth [simp]: "i < length xs \<Longrightarrow> nth_opt xs i = Some (xs ! i)"
  by (simp add: nth_opt_def)

text \<open>A C array write.\<close>

definition upd_opt :: "'a list \<Rightarrow> nat \<Rightarrow> 'a \<Rightarrow> 'a list option" where
  "upd_opt xs i x = (if i < length xs then Some (xs[i := x]) else None)"

lemma upd_opt_eq_Some: "upd_opt xs i x = Some ys \<longleftrightarrow> i < length xs \<and> ys = xs[i := x]"
  by (auto simp: upd_opt_def)

lemma upd_opt_ok [simp]: "i < length xs \<Longrightarrow> upd_opt xs i x = Some (xs[i := x])"
  by (simp add: upd_opt_def)

lemmas partial_Some = bind_eq_Some_conv chk_int_eq_Some nth_opt_eq_Some upd_opt_eq_Some

text \<open>C division of \<open>int\<close>s truncates towards zero.\<close>

definition tdiv :: "int \<Rightarrow> int \<Rightarrow> int" where
  "tdiv a b = sgn a * sgn b * (\<bar>a\<bar> div \<bar>b\<bar>)"

definition tmod :: "int \<Rightarrow> int \<Rightarrow> int" where
  "tmod a b = a - tdiv a b * b"

lemma tdiv_nonneg: "0 \<le> a \<Longrightarrow> 0 < b \<Longrightarrow> tdiv a b = a div b"
  by (cases "a = 0") (simp_all add: tdiv_def sgn_if)

lemma tmod_nonneg: "0 \<le> a \<Longrightarrow> 0 < b \<Longrightarrow> tmod a b = a mod b"
  by (simp add: tmod_def tdiv_nonneg minus_div_mult_eq_mod)

section \<open>Lists\<close>

lemma filter_update_eq_length:
  "i < length xs \<Longrightarrow>
   int (length (filter P (xs[i := x]))) =
     int (length (filter P xs)) - (if P (xs ! i) then 1 else 0) + (if P x then 1 else 0)"
proof (induction xs arbitrary: i)
  case Nil
  then show ?case by simp
next
  case (Cons a xs)
  show ?case
  proof (cases i)
    case 0
    then show ?thesis by simp
  next
    case (Suc j)
    with Cons.prems have "j < length xs" by simp
    from Cons.IH [OF this] Suc show ?thesis by (simp split: if_splits)
  qed
qed

lemma length_filter_less_imp_ex:
  "length (filter P xs) < length xs \<Longrightarrow> \<exists>i < length xs. \<not> P (xs ! i)"
  by (metis filter_id_conv in_set_conv_nth less_irrefl)

end
