(* ===== verification/KR_Double.thy ===== *)
theory KR_Double
  imports KR_Prelude "HOL-Library.Log_Nat"
begin

text \<open>
  The C type \<open>double\<close> (\<open>kr_double\<close> of \<open>krutils/kr_types.h\<close>): IEEE 754 binary64 with rounding to
  nearest, ties to even. A finite non-zero number and the positive zero are the rational they stand
  for; the negative zero, the infinities and the NaNs (all of them one value, since no C operator of
  the sources distinguishes them) are values of their own. Every operation rounds the exact rational
  result, so it is executable.
\<close>

section \<open>Values and rounding\<close>

datatype kr_double = Fin rat | NegZero | Inf bool | NaN

text \<open>\<open>Inf True\<close> is minus infinity.\<close>

definition exp2 :: "int \<Rightarrow> rat" where
  "exp2 e = (if 0 \<le> e then 2 ^ nat e else 1 / 2 ^ nat (- e))"

text \<open>The exponent of the leading binary digit of a non-zero rational.\<close>

definition lead_exp :: "rat \<Rightarrow> int" where
  "lead_exp q = (let (a, b) = quotient_of \<bar>q\<bar>; e = bitlen a - bitlen b
                 in if exp2 e \<le> \<bar>q\<bar> then e else e - 1)"

definition round_even :: "rat \<Rightarrow> int" where
  "round_even q = (let f = \<lfloor>q\<rfloor>; r = q - of_int f
                   in if r < 1 / 2 then f else if r > 1 / 2 then f + 1
                      else if even f then f else f + 1)"

text \<open>
  Rounding to 53 significant bits, with the fixed quantum \<open>2 ^ (-1074)\<close> of the subnormal range; a
  result that reaches \<open>2 ^ 1024\<close> overflows to an infinity, one that rounds to zero keeps its sign.
\<close>

definition round_double :: "rat \<Rightarrow> kr_double" where
  "round_double q =
     (if q = 0 then Fin 0
      else let e = max (- 1074) (lead_exp q - 52);
               m = round_even (q / exp2 e);
               v = of_int m * exp2 e
           in if \<bar>v\<bar> \<ge> 2 ^ 1024 then Inf (q < 0)
              else if m = 0 then (if q < 0 then NegZero else Fin 0)
              else Fin v)"

section \<open>Operations\<close>

text \<open>The rational a finite double stands for, and the sign bit.\<close>

fun fin_val :: "kr_double \<Rightarrow> rat option" where
  "fin_val (Fin q) = Some q"
| "fin_val NegZero = Some 0"
| "fin_val _ = None"

fun d_sign :: "kr_double \<Rightarrow> bool" where
  "d_sign (Fin q) = (q < 0)"
| "d_sign NegZero = True"
| "d_sign (Inf s) = s"
| "d_sign NaN = False"

definition zero_signed :: "bool \<Rightarrow> kr_double" where
  "zero_signed s = (if s then NegZero else Fin 0)"

fun d_neg :: "kr_double \<Rightarrow> kr_double" where
  "d_neg (Fin q) = (if q = 0 then NegZero else Fin (- q))"
| "d_neg NegZero = Fin 0"
| "d_neg (Inf s) = Inf (\<not> s)"
| "d_neg NaN = NaN"

fun d_add :: "kr_double \<Rightarrow> kr_double \<Rightarrow> kr_double" where
  "d_add NaN _ = NaN"
| "d_add _ NaN = NaN"
| "d_add (Inf s) (Inf t) = (if s = t then Inf s else NaN)"
| "d_add (Inf s) _ = Inf s"
| "d_add _ (Inf t) = Inf t"
| "d_add NegZero y = y"
| "d_add x NegZero = x"
| "d_add (Fin p) (Fin q) = round_double (p + q)"

definition d_sub :: "kr_double \<Rightarrow> kr_double \<Rightarrow> kr_double" where
  "d_sub x y = d_add x (d_neg y)"

definition d_mul :: "kr_double \<Rightarrow> kr_double \<Rightarrow> kr_double" where
  "d_mul x y =
     (let s = (d_sign x \<noteq> d_sign y) in
      case (fin_val x, fin_val y) of
        (Some p, Some q) \<Rightarrow> if p * q = 0 then zero_signed s else round_double (p * q)
      | (Some p, None) \<Rightarrow> if y = NaN \<or> p = 0 then NaN else Inf s
      | (None, Some q) \<Rightarrow> if x = NaN \<or> q = 0 then NaN else Inf s
      | (None, None) \<Rightarrow> if x = NaN \<or> y = NaN then NaN else Inf s)"

definition d_div :: "kr_double \<Rightarrow> kr_double \<Rightarrow> kr_double" where
  "d_div x y =
     (let s = (d_sign x \<noteq> d_sign y) in
      case (fin_val x, fin_val y) of
        (Some p, Some q) \<Rightarrow>
          if q = 0 then (if p = 0 then NaN else Inf s)
          else if p = 0 then zero_signed s else round_double (p / q)
      | (Some p, None) \<Rightarrow> if y = NaN then NaN else zero_signed s
      | (None, Some q) \<Rightarrow> if x = NaN then NaN else Inf s
      | (None, None) \<Rightarrow> NaN)"

text \<open>The comparisons: every one with a NaN is false, except \<open>!=\<close>.\<close>

fun d_lt :: "kr_double \<Rightarrow> kr_double \<Rightarrow> bool" where
  "d_lt NaN _ = False"
| "d_lt _ NaN = False"
| "d_lt (Inf s) (Inf t) = (s \<and> \<not> t)"
| "d_lt (Inf s) _ = s"
| "d_lt _ (Inf t) = (\<not> t)"
| "d_lt x y = (the (fin_val x) < the (fin_val y))"

definition d_eq :: "kr_double \<Rightarrow> kr_double \<Rightarrow> bool" where
  "d_eq x y = (case (fin_val x, fin_val y) of
       (Some p, Some q) \<Rightarrow> p = q
     | (None, None) \<Rightarrow> x = y \<and> x \<noteq> NaN
     | _ \<Rightarrow> False)"

definition d_le :: "kr_double \<Rightarrow> kr_double \<Rightarrow> bool" where
  "d_le x y \<longleftrightarrow> d_lt x y \<or> d_eq x y"

section \<open>Conversions\<close>

definition d_of_int :: "int \<Rightarrow> kr_double" where
  "d_of_int n = round_double (of_int n)"

text \<open>Truncation towards zero of a finite double.\<close>

definition q_trunc :: "rat \<Rightarrow> int" where
  "q_trunc q = (if q < 0 then - \<lfloor>- q\<rfloor> else \<lfloor>q\<rfloor>)"

text \<open>A conversion to an integer type is undefined when the truncated value does not fit.\<close>

definition d_to_int :: "int \<Rightarrow> int \<Rightarrow> kr_double \<Rightarrow> int option" where
  "d_to_int lo hi d = (case fin_val d of
       None \<Rightarrow> None
     | Some q \<Rightarrow> if lo \<le> q_trunc q \<and> q_trunc q \<le> hi then Some (q_trunc q) else None)"

definition d_to_i32 :: "kr_double \<Rightarrow> int option" where
  "d_to_i32 = d_to_int (- (2 ^ 31)) (2 ^ 31 - 1)"

definition d_to_i64 :: "kr_double \<Rightarrow> int option" where
  "d_to_i64 = d_to_int (- (2 ^ 63)) (2 ^ 63 - 1)"

section \<open>Small integers are exact\<close>

lemma round_even_of_int [simp]: "round_even (of_int m) = m"
  by (simp add: round_even_def)

lemma exp2_pos [simp]: "0 < exp2 e"
  by (simp add: exp2_def)

lemma exp2_minus: "exp2 e * exp2 (- e) = 1"
  by (simp add: exp2_def)

lemma lead_exp_of_int:
  assumes "\<bar>n\<bar> < 2 ^ k"
  shows "lead_exp (of_int n) < int k"
proof (cases "n = 0")
  case True
  then show ?thesis by (simp add: lead_exp_def Let_def bitlen_def floorlog_def exp2_def)
next
  case False
  have "bitlen \<bar>n\<bar> \<le> int k"
    using False assms bitlen_le_iff_power [of "\<bar>n\<bar>" k] by (simp add: bitlen_le_iff_power)
  moreover have "bitlen (1 :: int) = 1" by (simp add: bitlen_def floorlog_def)
  moreover have "quotient_of \<bar>rat_of_int n\<bar> = (\<bar>n\<bar>, 1)" by (metis of_int_abs quotient_of_int Rat.of_int_def)
  ultimately show ?thesis by (auto simp: lead_exp_def Let_def)
qed

lemma d_of_int_exact:
  assumes "\<bar>n\<bar> < 2 ^ 53"
  shows "d_of_int n = Fin (of_int n)"
proof (cases "n = 0")
  case True
  then show ?thesis by (simp add: d_of_int_def round_double_def)
next
  case False
  let ?e = "max (- 1074) (lead_exp (of_int n) - 52)"
  have e: "?e \<le> 0" "- 1074 \<le> ?e" using lead_exp_of_int [OF assms] by auto
  let ?m = "n * 2 ^ nat (- ?e)"
  have dv: "of_int n / exp2 ?e = rat_of_int ?m"
    using e(1) by (cases "?e = 0") (auto simp: exp2_def field_simps)
  have bck: "rat_of_int ?m * exp2 ?e = of_int n"
    using dv by (metis exp2_pos less_irrefl nonzero_eq_divide_eq)
  have small: "\<bar>rat_of_int n\<bar> < 2 ^ 1024"
  proof -
    have "rat_of_int \<bar>n\<bar> < of_int (2 ^ 53)" using assms by (simp only: of_int_less_iff)
    also have "rat_of_int (2 ^ 53) \<le> 2 ^ 1024" by simp
    finally show ?thesis by simp
  qed
  have "?m \<noteq> 0" using False by simp
  then show ?thesis
    using False small bck unfolding d_of_int_def round_double_def Let_def dv
    by (simp only: round_even_of_int bck of_int_eq_0_iff if_False) (simp add: not_le)
qed

text \<open>Comparing two \<open>kr_int\<close>s after the promotion to \<open>double\<close> is comparing the integers.\<close>

lemma d_cmp_small_int:
  assumes "\<bar>a\<bar> < 2 ^ 53" and "\<bar>b\<bar> < 2 ^ 53"
  shows "d_lt (d_of_int a) (d_of_int b) \<longleftrightarrow> a < b" and "d_eq (d_of_int a) (d_of_int b) \<longleftrightarrow> a = b"
    and "d_le (d_of_int a) (d_of_int b) \<longleftrightarrow> a \<le> b"
  using assms by (auto simp: d_of_int_exact d_eq_def d_le_def)

lemma d_eq_sym: "d_eq x y \<Longrightarrow> d_eq y x"
  by (auto simp: d_eq_def split: option.splits)

lemma d_eq_trans: "d_eq x y \<Longrightarrow> d_eq y z \<Longrightarrow> d_eq x z"
  by (auto simp: d_eq_def split: option.splits)

lemma d_eq_refl_iff: "d_eq x x \<longleftrightarrow> x \<noteq> NaN"
  by (cases x) (auto simp: d_eq_def)

lemma d_lt_irrefl [simp]: "\<not> d_lt x x"
  by (cases x) auto

lemma d_lt_trichotomy: "x \<noteq> NaN \<Longrightarrow> y \<noteq> NaN \<Longrightarrow> d_lt x y \<or> d_eq x y \<or> d_lt y x"
  by (cases x; cases y) (auto simp: d_eq_def)

lemma q_trunc_of_int [simp]: "q_trunc (of_int n) = n"
  by (auto simp: q_trunc_def simp flip: of_int_minus)

lemma d_to_i32_of_int: "- (2 ^ 31) \<le> n \<Longrightarrow> n < 2 ^ 31 \<Longrightarrow> d_to_i32 (d_of_int n) = Some n"
proof -
  assume n: "- (2 ^ 31) \<le> n" "n < 2 ^ 31"
  then have "d_of_int n = Fin (of_int n)" by (intro d_of_int_exact) simp
  with n show ?thesis by (simp add: d_to_i32_def d_to_int_def)
qed

end
