(* ===== verification/KR_CLib.thy ===== *)
theory KR_CLib
  imports KR_Double
begin

text \<open>
  What the sources use of the C library on strings. A C string is the list of its bytes without the
  terminating NUL, so no character of a well-formed string is \<^term>\<open>CHR 0x00\<close>; \<open>char\<close> is signed,
  as on the platforms the build files name. The functions are those of the C locale.
\<close>

section \<open>Characters\<close>

definition uchar :: "char \<Rightarrow> nat" where
  "uchar c = of_char c"

definition schar :: "char \<Rightarrow> int" where
  "schar c = (let n = int (uchar c) in if n < 128 then n else n - 256)"

definition c_isspace :: "char \<Rightarrow> bool" where
  "c_isspace c \<longleftrightarrow> uchar c \<in> {9, 10, 11, 12, 13, 32}"

definition c_isdigit :: "char \<Rightarrow> bool" where
  "c_isdigit c \<longleftrightarrow> 48 \<le> uchar c \<and> uchar c \<le> 57"

definition digit_val :: "char \<Rightarrow> nat" where
  "digit_val c = uchar c - 48"

text \<open>
  \<open>toupper\<close> and \<open>tolower\<close> take an \<open>int\<close> that is an \<open>unsigned char\<close> or \<open>EOF\<close> (\<open>-1\<close>); any other
  argument is undefined. The result is converted back to \<open>char\<close>.
\<close>

definition c_toupper :: "int \<Rightarrow> int option" where
  "c_toupper n = (if n < - 1 \<or> n > 255 then None
                  else Some (if 97 \<le> n \<and> n \<le> 122 then n - 32 else n))"

definition c_tolower :: "int \<Rightarrow> int option" where
  "c_tolower n = (if n < - 1 \<or> n > 255 then None
                  else Some (if 65 \<le> n \<and> n \<le> 90 then n + 32 else n))"

definition char_of_int :: "int \<Rightarrow> char" where
  "char_of_int n = char_of (nat (n mod 256))"

section \<open>Comparison\<close>

fun c_strcmp :: "string \<Rightarrow> string \<Rightarrow> int" where
  "c_strcmp [] [] = 0"
| "c_strcmp [] (b # bs) = - int (uchar b)"
| "c_strcmp (a # as) [] = int (uchar a)"
| "c_strcmp (a # as) (b # bs) =
     (if a \<noteq> b then int (uchar a) - int (uchar b) else if a = CHR 0x00 then 0 else c_strcmp as bs)"

text \<open>The C string at the start of a byte buffer, up to the first NUL.\<close>

definition cstr_of :: "string \<Rightarrow> string" where
  "cstr_of buf = takeWhile (\<lambda>c. c \<noteq> CHR 0x00) buf"

definition c_string :: "string \<Rightarrow> bool" where
  "c_string s \<longleftrightarrow> (\<forall>c \<in> set s. c \<noteq> CHR 0x00)"

section \<open>Numbers\<close>

definition digits_val :: "nat \<Rightarrow> nat list \<Rightarrow> nat" where
  "digits_val b ds = foldl (\<lambda>n d. b * n + d) 0 ds"

text \<open>The optional sign after leading white space.\<close>

definition split_sign :: "string \<Rightarrow> bool \<times> string" where
  "split_sign s = (case dropWhile c_isspace s of
       [] \<Rightarrow> (False, [])
     | c # cs \<Rightarrow> if c = CHR ''-'' then (True, cs) else if c = CHR ''+'' then (False, cs)
                 else (False, c # cs))"

definition c_strtol :: "string \<Rightarrow> int" where
  "c_strtol s = (let (neg, r) = split_sign s;
                     n = int (digits_val 10 (map digit_val (takeWhile c_isdigit r)))
                 in if neg then - n else n)"

definition c_atoi :: "string \<Rightarrow> int option" where
  "c_atoi s = chk_int (c_strtol s)"

definition c_atol :: "string \<Rightarrow> int option" where
  "c_atol s = (let n = c_strtol s in if - (2 ^ 63) \<le> n \<and> n < 2 ^ 63 then Some n else None)"

definition is_hex_digit :: "char \<Rightarrow> bool" where
  "is_hex_digit c \<longleftrightarrow> c_isdigit c \<or> (65 \<le> uchar c \<and> uchar c \<le> 70) \<or> (97 \<le> uchar c \<and> uchar c \<le> 102)"

definition hex_val :: "char \<Rightarrow> nat" where
  "hex_val c = (if c_isdigit c then digit_val c else if uchar c \<le> 70 then uchar c - 55 else uchar c - 87)"

definition lower :: "string \<Rightarrow> string" where
  "lower s = map (\<lambda>c. if 65 \<le> uchar c \<and> uchar c \<le> 90 then char_of (uchar c + 32) else c) s"

text \<open>
  The subject sequence of \<open>strtod\<close> after the sign: digits with an optional point in the base \<open>b\<close>,
  then an exponent of the base \<open>eb\<close> after the letter \<open>ec\<close>.
\<close>

definition scan_exp :: "char \<Rightarrow> string \<Rightarrow> int" where
  "scan_exp ec s = (case s of
       [] \<Rightarrow> 0
     | c # cs \<Rightarrow> if lower [c] = [ec] then
           (case cs of
              [] \<Rightarrow> 0
            | d # ds \<Rightarrow>
                let (neg, r) = (if d = CHR ''-'' then (True, ds) else if d = CHR ''+'' then (False, ds)
                                else (False, cs));
                    n = int (digits_val 10 (map digit_val (takeWhile c_isdigit r)))
                in if neg then - n else n)
         else 0)"

definition scan_float :: "(char \<Rightarrow> bool) \<Rightarrow> (char \<Rightarrow> nat) \<Rightarrow> nat \<Rightarrow> nat \<Rightarrow> char \<Rightarrow> string \<Rightarrow> rat option" where
  "scan_float isd dv b eb ec s =
     (let ip = takeWhile isd s; r = dropWhile isd s;
          (fp, r') = (case r of c # cs \<Rightarrow> if c = CHR ''.'' then (takeWhile isd cs, dropWhile isd cs) else ([], r)
                              | [] \<Rightarrow> ([], r))
      in if ip = [] \<and> fp = [] then None
         else let e = scan_exp ec r';
                  m = rat_of_nat (digits_val b (map dv (ip @ fp))) / rat_of_nat b ^ length fp
              in Some (if 0 \<le> e then m * rat_of_nat eb ^ nat e else m / rat_of_nat eb ^ nat (- e)))"

definition c_atof :: "string \<Rightarrow> kr_double" where
  "c_atof s =
     (let (neg, r) = split_sign s;
          hx = (if lower (take 2 r) = ''0x''
                then scan_float is_hex_digit hex_val 16 2 (CHR ''p'') (drop 2 r) else None);
          sg = (\<lambda>d. if neg then d_neg d else d)
      in if lower (take 3 r) = ''inf'' then Inf neg
         else if lower (take 3 r) = ''nan'' then NaN
         else case hx of Some q \<Rightarrow> sg (round_double q)
         | None \<Rightarrow> (case scan_float c_isdigit digit_val 10 10 (CHR ''e'') r of
                     Some q \<Rightarrow> sg (round_double q)
                   | None \<Rightarrow> Fin 0))"

text \<open>\<open>%d\<close>, and \<open>%0wu\<close>.\<close>

fun dec_digits :: "nat \<Rightarrow> string" where
  "dec_digits n = (if n < 10 then [char_of (48 + n)] else dec_digits (n div 10) @ [char_of (48 + n mod 10)])"

declare dec_digits.simps [simp del]

definition fmt_int :: "int \<Rightarrow> string" where
  "fmt_int x = (if x < 0 then CHR ''-'' # dec_digits (nat (- x)) else dec_digits (nat x))"

definition pad0 :: "nat \<Rightarrow> nat \<Rightarrow> string" where
  "pad0 w n = replicate (w - length (dec_digits n)) (CHR ''0'') @ dec_digits n"

lemma dec_digit: "n < 10 \<Longrightarrow> c_isdigit (char_of (48 + n)) \<and> digit_val (char_of (48 + n)) = n"
  by (simp add: c_isdigit_def digit_val_def uchar_def)

lemma dec_digits_val: "digits_val 10 (map digit_val (dec_digits n)) = n"
proof (induction n rule: dec_digits.induct)
  case (1 n)
  then show ?case
    by (subst dec_digits.simps) (simp add: digits_val_def dec_digit [THEN conjunct2])
qed

lemma dec_digits_isdigit: "c \<in> set (dec_digits n) \<Longrightarrow> c_isdigit c"
proof (induction n rule: dec_digits.induct)
  case (1 n)
  then show ?case
    by (subst (asm) (2) dec_digits.simps) (auto simp: dec_digit [THEN conjunct1] split: if_splits)
qed

lemma dec_digits_not_Nil [simp]: "dec_digits n \<noteq> []"
  by (subst dec_digits.simps) simp

section \<open>Tokens\<close>

text \<open>\<open>strtok_r\<close> called until it returns NULL: the maximal runs without the delimiter.\<close>

lemma token_rest_shorter:
  assumes "dropWhile (\<lambda>c. c = d) s \<noteq> []"
  shows "length (dropWhile (\<lambda>c. c \<noteq> d) (dropWhile (\<lambda>c. c = d) s)) < length s"
proof -
  let ?r = "dropWhile (\<lambda>c. c = d) s"
  from assms obtain c cs where c: "?r = c # cs" by (meson neq_Nil_conv)
  then have "c \<noteq> d" by (simp add: dropWhile_eq_Cons_conv)
  then have "length (dropWhile (\<lambda>c. c \<noteq> d) (c # cs)) \<le> length cs" by (simp add: length_dropWhile_le)
  also have "\<dots> < length ?r" unfolding c by simp
  also have "length ?r \<le> length s" by (rule length_dropWhile_le)
  finally show ?thesis unfolding c .
qed

function c_tokens :: "char \<Rightarrow> string \<Rightarrow> string list" where
  "c_tokens d s =
     (let r = dropWhile (\<lambda>c. c = d) s
      in if r = [] then []
         else takeWhile (\<lambda>c. c \<noteq> d) r # c_tokens d (dropWhile (\<lambda>c. c \<noteq> d) r))"
  by pat_completeness auto
termination
  by (relation "measure (length \<circ> snd)")
     (simp, simp only: in_measure comp_apply snd_conv, erule token_rest_shorter)

declare c_tokens.simps [simp del]

lemma c_tokens_unfold:
  "dropWhile (\<lambda>c. c = d) s = [] \<Longrightarrow> c_tokens d s = []"
  "dropWhile (\<lambda>c. c = d) s = c # cs \<Longrightarrow>
     c_tokens d s = takeWhile (\<lambda>c. c \<noteq> d) (c # cs) # c_tokens d (dropWhile (\<lambda>c. c \<noteq> d) (c # cs))"
  by (subst c_tokens.simps, simp only: Let_def if_True simp_thms,
      subst c_tokens.simps, simp only: Let_def if_False list.distinct)

lemma uchar_eq_iff [simp]: "uchar a = uchar b \<longleftrightarrow> a = b"
  by (simp add: uchar_def)

lemma uchar_0_iff [simp]: "uchar a = 0 \<longleftrightarrow> a = CHR 0x00"
  using uchar_eq_iff [of a "CHR 0x00"] by (simp add: uchar_def)

lemma uchar_less: "uchar c < 256"
  unfolding uchar_def by (metis nat_of_char_less_256)

lemma c_string_Cons [simp]: "c_string (c # s) \<longleftrightarrow> c \<noteq> CHR 0x00 \<and> c_string s"
  by (auto simp: c_string_def)

lemma c_string_Nil [simp]: "c_string []"
  by (simp add: c_string_def)

lemma cstr_of_id: "c_string s \<Longrightarrow> cstr_of s = s"
  by (simp add: cstr_of_def c_string_def takeWhile_eq_all_conv)

lemma c_strcmp_0_cstr: "c_strcmp s t = 0 \<longleftrightarrow> cstr_of s = cstr_of t"
  by (induction s t rule: c_strcmp.induct) (auto simp: cstr_of_def)

lemma c_strcmp_0_iff: "c_string s \<Longrightarrow> c_string t \<Longrightarrow> c_strcmp s t = 0 \<longleftrightarrow> s = t"
  by (simp add: c_strcmp_0_cstr cstr_of_id)

lemma c_strcmp_refl [simp]: "c_strcmp s s = 0"
  by (induction s) auto

text \<open>The tokens are non-empty, free of the delimiter, and joined they give back the text.\<close>

lemma c_tokens_sound: "t \<in> set (c_tokens d s) \<Longrightarrow> t \<noteq> [] \<and> d \<notin> set t"
proof (induction d s rule: c_tokens.induct)
  case (1 d s)
  show ?case
  proof (cases "dropWhile (\<lambda>c. c = d) s")
    case Nil
    with 1(2) show ?thesis by (simp add: c_tokens_unfold(1))
  next
    case (Cons c cs)
    then have c: "c \<noteq> d" by (simp add: dropWhile_eq_Cons_conv)
    have nd: "d \<notin> set (takeWhile (\<lambda>c. c \<noteq> d) (c # cs))" by (auto dest: set_takeWhileD)
    from 1(2) have "t = takeWhile (\<lambda>c. c \<noteq> d) (c # cs) \<or>
        t \<in> set (c_tokens d (dropWhile (\<lambda>c. c \<noteq> d) (c # cs)))"
      unfolding c_tokens_unfold(2) [OF Cons] by simp
    with 1(1) [OF Cons [symmetric]] c nd show ?thesis by auto
  qed
qed

lemma c_tokens_concat: "concat (c_tokens d s) = filter (\<lambda>c. c \<noteq> d) s"
proof (induction d s rule: c_tokens.induct)
  case (1 d s)
  have fr: "filter (\<lambda>c. c \<noteq> d) s = filter (\<lambda>c. c \<noteq> d) (dropWhile (\<lambda>c. c = d) s)" for s
    by (induction s) auto
  have sp: "filter (\<lambda>c. c \<noteq> d) r =
      takeWhile (\<lambda>c. c \<noteq> d) r @ filter (\<lambda>c. c \<noteq> d) (dropWhile (\<lambda>c. c \<noteq> d) r)" for r
    by (induction r) auto
  show ?case
  proof (cases "dropWhile (\<lambda>c. c = d) s")
    case Nil
    with fr [of s] show ?thesis by (simp add: c_tokens_unfold(1))
  next
    case (Cons c cs)
    with fr [of s] sp [of "c # cs"] 1 [OF Cons [symmetric]] show ?thesis
      by (simp add: c_tokens_unfold(2) [OF Cons])
  qed
qed

end
