(* ===== verification/KR_String.thy ===== *)
theory KR_String
  imports KR_CLib
begin

unbundle bit_operations_syntax

text \<open>
  \<open>krutils/kr_string.c\<close>: the string hash, the character-class tests, trimming, case conversion
  with two-byte characters skipped, and the expansion of \<open>${VAR}\<close>.
\<close>

section \<open>Hash and equality\<close>

primrec string_hash_loop :: "u32 \<Rightarrow> string \<Rightarrow> u32" where
  "string_hash_loop h [] = h"
| "string_hash_loop h (c # cs) =
     (if c = CHR 0x00 then h else string_hash_loop (push_bit 5 h + h + word_of_int (schar c)) cs)"

definition kr_string_hash :: "string \<Rightarrow> u32" where
  "kr_string_hash s = string_hash_loop 5381 s"

definition kr_string_compare :: "string \<Rightarrow> string \<Rightarrow> int" where
  "kr_string_compare s1 s2 = c_strcmp s1 s2"

definition kr_string_equal :: "string \<Rightarrow> string \<Rightarrow> bool" where
  "kr_string_equal s1 s2 = (kr_string_compare s1 s2 = 0)"

section \<open>Character classes\<close>

primrec kr_string_isnumeric :: "string \<Rightarrow> bool" where
  "kr_string_isnumeric [] = True"
| "kr_string_isnumeric (c # cs) =
     (if schar c < 48 \<or> schar c > 57 then False else kr_string_isnumeric cs)"

primrec kr_string_isdecimal :: "string \<Rightarrow> bool" where
  "kr_string_isdecimal [] = True"
| "kr_string_isdecimal (c # cs) =
     (if (schar c < 48 \<or> schar c > 57) \<and> c \<noteq> CHR ''.'' \<and> c \<noteq> CHR ''-'' \<and> c \<noteq> CHR ''+'' then False
      else kr_string_isdecimal cs)"

primrec kr_string_isalphabet :: "string \<Rightarrow> bool" where
  "kr_string_isalphabet [] = True"
| "kr_string_isalphabet (c # cs) =
     (if schar c < 65 \<or> (schar c > 90 \<and> schar c < 97) \<or> schar c > 122 then False
      else kr_string_isalphabet cs)"

section \<open>Trimming\<close>

text \<open>\<open>rtrim\<close> walks back from the end, writing a NUL over each white space character.\<close>

fun rtrim_loop :: "nat \<Rightarrow> string \<Rightarrow> string" where
  "rtrim_loop 0 s = s"
| "rtrim_loop (Suc l) s = (if c_isspace (s ! l) then rtrim_loop l (take l s) else s)"

definition kr_string_rtrim :: "string \<Rightarrow> string" where
  "kr_string_rtrim s = rtrim_loop (length s) s"

text \<open>
  \<open>ltrim\<close> moves the rest of the string down with \<open>strcpy\<close>, whose source and destination may not
  overlap: they do unless more characters (with the NUL) are skipped than are copied.
\<close>

definition kr_string_ltrim :: "string \<Rightarrow> string option" where
  "kr_string_ltrim s =
     (let p = dropWhile c_isspace s; skipped = length s - length p
      in if skipped = 0 then Some s
         else if length p + 1 \<le> skipped then Some p else None)"

definition kr_string_alltrim :: "string \<Rightarrow> string option" where
  "kr_string_alltrim s = kr_string_ltrim (kr_string_rtrim s)"

section \<open>Case conversion\<close>

definition lead_byte :: "char \<Rightarrow> bool" where
  "lead_byte c \<longleftrightarrow> 0x81 \<le> uchar c \<and> uchar c \<le> 0xfe"

fun kr_string_toupper :: "string \<Rightarrow> string option" where
  "kr_string_toupper [] = Some []"
| "kr_string_toupper (c # cs) =
     (if lead_byte c then
        (case cs of [] \<Rightarrow> Some [c]
         | d # ds \<Rightarrow> map_option (\<lambda>r. c # d # r) (kr_string_toupper ds))
      else do {
        n \<leftarrow> c_toupper (schar c);
        r \<leftarrow> kr_string_toupper cs;
        Some (char_of_int n # r)
      })"

fun kr_string_tolower :: "string \<Rightarrow> string option" where
  "kr_string_tolower [] = Some []"
| "kr_string_tolower (c # cs) =
     (if lead_byte c then
        (case cs of [] \<Rightarrow> Some [c]
         | d # ds \<Rightarrow> map_option (\<lambda>r. c # d # r) (kr_string_tolower ds))
      else do {
        n \<leftarrow> c_tolower (schar c);
        r \<leftarrow> kr_string_tolower cs;
        Some (char_of_int n # r)
      })"

section \<open>Environment expansion\<close>

text \<open>
  The name is collected in \<open>caEnv\<close> through the pointer \<open>pEnv\<close>, which is set once before the loop;
  \<open>caOutput\<close> has 1024 bytes and is read back as a C string, so its last byte must stay NUL.
  Reading past the end of the input (an unclosed brace) and writing past either buffer is undefined.
\<close>

primrec dupenv_name :: "string \<Rightarrow> string \<Rightarrow> nat \<Rightarrow> (string \<times> nat \<times> string) option" where
  "dupenv_name [] caEnv pEnv = None"
| "dupenv_name (c # cs) caEnv pEnv =
     (if c = CHR ''}'' then Some (caEnv, pEnv, cs)
      else do {
        caEnv' \<leftarrow> upd_opt caEnv pEnv c;
        dupenv_name cs caEnv' (pEnv + 1)
      })"

lemma dupenv_name_shorter: "dupenv_name cs e p = Some (e', p', r) \<Longrightarrow> length r < length cs"
  by (induction cs arbitrary: e p) (auto simp: partial_Some less_SucI split: if_splits)

function dupenv_loop ::
  "(string \<Rightarrow> string option) \<Rightarrow> string \<Rightarrow> nat \<Rightarrow> string \<Rightarrow> string option" where
  "dupenv_loop getenv [] pEnv out = (if length out < 1024 then Some out else None)"
| "dupenv_loop getenv (c # cs) pEnv out =
     (if c = CHR ''$'' then
        (case (case cs of
                 [] \<Rightarrow> Some (replicate 100 (CHR 0x00), pEnv, cs)
               | b # bs \<Rightarrow>
                   if b = CHR ''{'' then dupenv_name bs (replicate 100 (CHR 0x00)) pEnv
                   else Some (replicate 100 (CHR 0x00), pEnv, cs)) of
           None \<Rightarrow> None
         | Some (caEnv, pEnv', rest) \<Rightarrow>
             dupenv_loop getenv rest pEnv'
               (out @ (case getenv (cstr_of caEnv) of Some v \<Rightarrow> v | None \<Rightarrow> [])))
      else dupenv_loop getenv cs pEnv (out @ [c]))"
  by pat_completeness auto
termination
  by (relation "measure (\<lambda>(g, s, p, o'). length s)")
     (auto split: list.splits if_splits dest!: dupenv_name_shorter)

definition kr_string_dupenv :: "(string \<Rightarrow> string option) \<Rightarrow> string option \<Rightarrow> string option option" where
  "kr_string_dupenv getenv s =
     (case s of None \<Rightarrow> Some None | Some t \<Rightarrow> map_option Some (dupenv_loop getenv t 0 []))"

section \<open>Properties\<close>

lemma string_hash_loop_append:
  "c_string s \<Longrightarrow> string_hash_loop h (s @ t) = string_hash_loop (string_hash_loop h s) t"
  by (induction s arbitrary: h) simp_all

text \<open>The hash as the polynomial in 33 it is meant to be, modulo \<open>2 ^ 32\<close>.\<close>

lemma string_hash_loop_closed:
  "c_string s \<Longrightarrow> string_hash_loop h s =
     33 ^ length s * h + (\<Sum>i < length s. word_of_int (schar (s ! i)) * 33 ^ (length s - Suc i))"
proof (induction s rule: rev_induct)
  case Nil
  then show ?case by simp
next
  case (snoc c s)
  then have s: "c_string s" "c \<noteq> CHR 0x00" by (auto simp: c_string_def)
  have p: "push_bit 5 w + w = 33 * w" for w :: u32 by (simp add: push_bit_eq_mult algebra_simps)
  have "(\<Sum>i < length s. word_of_int (schar ((s @ [c]) ! i)) * (33 :: u32) ^ (length s - i)) =
      33 * (\<Sum>i < length s. word_of_int (schar (s ! i)) * 33 ^ (length s - Suc i))"
    unfolding sum_distrib_left
    by (rule sum.cong) (auto simp: nth_append Suc_diff_Suc mult.left_commute simp flip: power_Suc)
  then show ?case
    by (simp add: string_hash_loop_append s snoc.IH p distrib_left mult.assoc mult.left_commute [of _ 33])
qed

lemma string_hash_loop_cstr: "string_hash_loop h (cstr_of s) = string_hash_loop h s"
  by (induction s arbitrary: h) (simp_all add: cstr_of_def)

lemma kr_string_hash_equal: "kr_string_equal s t \<Longrightarrow> kr_string_hash s = kr_string_hash t"
  using string_hash_loop_cstr [of _ s] string_hash_loop_cstr [of _ t]
  by (simp add: kr_string_equal_def kr_string_compare_def c_strcmp_0_cstr kr_string_hash_def)

lemma kr_string_equal_sym: "kr_string_equal s t \<Longrightarrow> kr_string_equal t s"
  by (simp add: kr_string_equal_def kr_string_compare_def c_strcmp_0_cstr)

lemma kr_string_equal_trans: "kr_string_equal s t \<Longrightarrow> kr_string_equal t u \<Longrightarrow> kr_string_equal s u"
  by (simp add: kr_string_equal_def kr_string_compare_def c_strcmp_0_cstr)

lemma kr_string_equal_iff: "c_string s \<Longrightarrow> c_string t \<Longrightarrow> kr_string_equal s t \<longleftrightarrow> s = t"
  by (simp add: kr_string_equal_def kr_string_compare_def c_strcmp_0_iff)

lemma kr_string_isnumeric_iff: "kr_string_isnumeric s \<longleftrightarrow> (\<forall>c \<in> set s. c_isdigit c)"
proof -
  have "\<not> (schar c < 48 \<or> schar c > 57) \<longleftrightarrow> c_isdigit c" for c
    using uchar_less [of c] by (auto simp: schar_def c_isdigit_def Let_def)
  then show ?thesis by (induction s) (auto split: if_splits)
qed

lemma rtrim_loop_eq: "l = length s \<Longrightarrow> rtrim_loop l s = rev (dropWhile c_isspace (rev s))"
proof (induction l arbitrary: s)
  case 0
  then show ?case by simp
next
  case (Suc l)
  then obtain t c where s: "s = t @ [c]" by (metis Zero_not_Suc list.size(3) rev_exhaust)
  with Suc show ?case by (simp add: nth_append)
qed

lemma kr_string_rtrim_eq: "kr_string_rtrim s = rev (dropWhile c_isspace (rev s))"
  by (simp add: kr_string_rtrim_def rtrim_loop_eq)

lemma kr_string_toupper_length:
  "kr_string_toupper s = Some t \<Longrightarrow> length t = length s"
  by (induction s arbitrary: t rule: kr_string_toupper.induct)
     (auto simp: partial_Some split: if_splits list.splits)

text \<open>A plain text (no \<open>$\<close>) is copied.\<close>

lemma dupenv_loop_plain:
  "CHR ''$'' \<notin> set s \<Longrightarrow> dupenv_loop g (s @ r) p out = dupenv_loop g r p (out @ s)"
  by (induction s arbitrary: out) auto

end
