(* ===== verification/KR_HashTable.thy ===== *)
theory KR_HashTable
  imports KR_Prelude
begin

unbundle bit_operations_syntax

text \<open>
  \<open>krutils/kr_hashtable.c\<close>: the open-addressing hash table every other component stores its
  entries in. The table is an array of nodes; a node's \<open>key_hash\<close> is 0 when it was never used, 1
  when it is a tombstone and at least 2 when it holds an entry. Probing is triangular modulo the
  (power of two) size, starting from the hash modulo a prime.

  The first part translates the code operation by operation; an out-of-range access, a signed
  overflow, a failed assertion and a probe that never ends are \<^term>\<open>None\<close>. NULL pointers are
  \<^term>\<open>None\<close> in the pointer's own option type. The calls of the destroy notify functions are
  recorded, in order, in the field \<open>ht_destroyed\<close>.
\<close>

section \<open>Data\<close>

record ('k, 'v) T_KRHashNode =
  hn_key :: "'k option"
  hn_value :: "'v option"
  hn_key_hash :: u32

datatype ('k, 'v) destroy_call = DestroyKey "'k option" | DestroyValue "'v option"

record ('k, 'v) T_KRHashTable =
  ht_size :: int
  ht_mod :: int
  ht_mask :: u32
  ht_nnodes :: int
  ht_noccupied :: int
  ht_nodes :: "('k, 'v) T_KRHashNode list"
  ht_hash_func :: "'k \<Rightarrow> u32"
  ht_key_equal_func :: "('k \<Rightarrow> 'k \<Rightarrow> bool) option"
  ht_ref_count :: int
  ht_key_destroy_func :: bool
  ht_value_destroy_func :: bool
  ht_destroyed :: "('k, 'v) destroy_call list"

definition HASH_TABLE_MIN_SHIFT :: nat where
  "HASH_TABLE_MIN_SHIFT = 3"

definition prime_mod :: "int list" where
  "prime_mod =
    [1, 2, 3, 7, 13, 31, 61, 127, 251, 509, 1021, 2039, 4093, 8191, 16381, 32749, 65521,
     131071, 262139, 524287, 1048573, 2097143, 4194301, 8388593, 16777213, 33554393,
     67108859, 134217689, 268435399, 536870909, 1073741789, 2147483647]"

definition empty_node :: "('k, 'v) T_KRHashNode" where
  "empty_node = \<lparr>hn_key = None, hn_value = None, hn_key_hash = 0\<rparr>"

section \<open>Sizing\<close>

primrec shift_mask :: "nat \<Rightarrow> u32 \<Rightarrow> u32" where
  "shift_mask 0 m = m"
| "shift_mask (Suc i) m = shift_mask i (push_bit 1 m OR 1)"

definition kr_hashtable_set_shift ::
  "('k, 'v) T_KRHashTable \<Rightarrow> nat \<Rightarrow> ('k, 'v) T_KRHashTable option" where
  "kr_hashtable_set_shift ht shift = do {
     sz \<leftarrow> chk_int (2 ^ shift);
     md \<leftarrow> nth_opt prime_mod shift;
     Some (ht\<lparr>ht_size := sz, ht_mod := md, ht_mask := shift_mask shift 0\<rparr>)
   }"

function kr_hashtable_find_closest_shift :: "int \<Rightarrow> nat option" where
  "kr_hashtable_find_closest_shift n =
     (if n < 0 then None
      else if n = 0 then Some 0
      else map_option Suc (kr_hashtable_find_closest_shift (n div 2)))"
  by pat_completeness auto
termination
  by (relation "measure nat") auto

definition kr_hashtable_set_shift_from_size ::
  "('k, 'v) T_KRHashTable \<Rightarrow> int \<Rightarrow> ('k, 'v) T_KRHashTable option" where
  "kr_hashtable_set_shift_from_size ht sz = do {
     shift \<leftarrow> kr_hashtable_find_closest_shift sz;
     kr_hashtable_set_shift ht (max shift HASH_TABLE_MIN_SHIFT)
   }"

section \<open>Probing\<close>

definition hash_value :: "('k, 'v) T_KRHashTable \<Rightarrow> 'k \<Rightarrow> u32" where
  "hash_value ht k = (let h = ht_hash_func ht k in if h \<le> 1 then 2 else h)"

definition keq :: "('k, 'v) T_KRHashTable \<Rightarrow> 'k \<Rightarrow> 'k \<Rightarrow> bool" where
  "keq ht = (case ht_key_equal_func ht of Some f \<Rightarrow> f | None \<Rightarrow> (=))"

definition key_matches :: "('k, 'v) T_KRHashTable \<Rightarrow> ('k, 'v) T_KRHashNode \<Rightarrow> 'k \<Rightarrow> bool" where
  "key_matches ht node k = (case hn_key node of None \<Rightarrow> False | Some k' \<Rightarrow> keq ht k' k)"

definition home_index :: "('k, 'v) T_KRHashTable \<Rightarrow> u32 \<Rightarrow> u32" where
  "home_index ht hv = hv mod word_of_int (ht_mod ht)"

partial_function (option) lookup_node_loop ::
  "('k, 'v) T_KRHashTable \<Rightarrow> 'k \<Rightarrow> u32 \<Rightarrow> u32 \<Rightarrow> u32 \<Rightarrow> u32 option" where
  "lookup_node_loop ht k hv node_index step = do {
     node \<leftarrow> nth_opt (ht_nodes ht) (unat node_index);
     if hn_key_hash node = 0 then Some node_index
     else if hn_key_hash node = hv \<and> key_matches ht node k then Some node_index
     else lookup_node_loop ht k hv ((node_index + (step + 1)) AND ht_mask ht) (step + 1)
   }"

definition kr_hashtable_lookup_node :: "('k, 'v) T_KRHashTable \<Rightarrow> 'k \<Rightarrow> u32 option" where
  "kr_hashtable_lookup_node ht k =
     (let hv = hash_value ht k in lookup_node_loop ht k hv (home_index ht hv) 0)"

partial_function (option) lookup_node_for_insertion_loop ::
  "('k, 'v) T_KRHashTable \<Rightarrow> 'k \<Rightarrow> u32 \<Rightarrow> u32 \<Rightarrow> u32 \<Rightarrow> u32 option \<Rightarrow> u32 option" where
  "lookup_node_for_insertion_loop ht k hv node_index step first_tombstone = do {
     node \<leftarrow> nth_opt (ht_nodes ht) (unat node_index);
     if hn_key_hash node = 0
     then Some (case first_tombstone of Some t \<Rightarrow> t | None \<Rightarrow> node_index)
     else if hn_key_hash node = hv \<and> key_matches ht node k then Some node_index
     else lookup_node_for_insertion_loop ht k hv
            ((node_index + (step + 1)) AND ht_mask ht) (step + 1)
            (if hn_key_hash node \<noteq> hv \<and> hn_key_hash node = 1 \<and> first_tombstone = None
             then Some node_index else first_tombstone)
   }"

definition kr_hashtable_lookup_node_for_insertion ::
  "('k, 'v) T_KRHashTable \<Rightarrow> 'k \<Rightarrow> (u32 \<times> u32) option" where
  "kr_hashtable_lookup_node_for_insertion ht k =
     (let hv = hash_value ht k
      in do {
        i \<leftarrow> lookup_node_for_insertion_loop ht k hv (home_index ht hv) 0 None;
        Some (i, hv)
      })"

section \<open>Removing nodes\<close>

definition notify_destroy ::
  "('k, 'v) T_KRHashTable \<Rightarrow> bool \<Rightarrow> ('k, 'v) T_KRHashNode \<Rightarrow> ('k, 'v) destroy_call list" where
  "notify_destroy ht notify node =
     (if notify \<and> ht_key_destroy_func ht then [DestroyKey (hn_key node)] else []) @
     (if notify \<and> ht_value_destroy_func ht then [DestroyValue (hn_value node)] else [])"

definition kr_hashtable_remove_node ::
  "('k, 'v) T_KRHashTable \<Rightarrow> nat \<Rightarrow> bool \<Rightarrow> ('k, 'v) T_KRHashTable option" where
  "kr_hashtable_remove_node ht i notify = do {
     node \<leftarrow> nth_opt (ht_nodes ht) i;
     nodes' \<leftarrow> upd_opt (ht_nodes ht) i \<lparr>hn_key = None, hn_value = None, hn_key_hash = 1\<rparr>;
     nn \<leftarrow> chk_int (ht_nnodes ht - 1);
     Some (ht\<lparr>ht_destroyed := ht_destroyed ht @ notify_destroy ht notify node,
              ht_nodes := nodes', ht_nnodes := nn\<rparr>)
   }"

definition kr_hashtable_remove_all_nodes ::
  "('k, 'v) T_KRHashTable \<Rightarrow> bool \<Rightarrow> ('k, 'v) T_KRHashTable option" where
  "kr_hashtable_remove_all_nodes ht notify = do {
     assert_c (ht_size ht \<le> int (length (ht_nodes ht)));
     let n = nat (ht_size ht);
     Some (ht\<lparr>ht_destroyed := ht_destroyed ht @
                concat (map (notify_destroy ht notify)
                  (filter (\<lambda>nd. hn_key_hash nd > 1) (take n (ht_nodes ht)))),
              ht_nodes := replicate n empty_node @ drop n (ht_nodes ht),
              ht_nnodes := 0, ht_noccupied := 0\<rparr>)
   }"

section \<open>Resizing\<close>

partial_function (option) resize_probe ::
  "('k, 'v) T_KRHashNode list \<Rightarrow> u32 \<Rightarrow> u32 \<Rightarrow> u32 \<Rightarrow> u32 option" where
  "resize_probe new_nodes msk hash_val step = do {
     new_node \<leftarrow> nth_opt new_nodes (unat hash_val);
     if hn_key_hash new_node = 0 then Some hash_val
     else resize_probe new_nodes msk ((hash_val + (step + 1)) AND msk) (step + 1)
   }"

primrec resize_copy ::
  "int \<Rightarrow> u32 \<Rightarrow> ('k, 'v) T_KRHashNode list \<Rightarrow> ('k, 'v) T_KRHashNode list \<Rightarrow>
   ('k, 'v) T_KRHashNode list option" where
  "resize_copy md msk [] new_nodes = Some new_nodes"
| "resize_copy md msk (node # rest) new_nodes =
     (if hn_key_hash node \<le> 1 then resize_copy md msk rest new_nodes
      else do {
        i \<leftarrow> resize_probe new_nodes msk (hn_key_hash node mod word_of_int md) 0;
        new_nodes' \<leftarrow> upd_opt new_nodes (unat i) node;
        resize_copy md msk rest new_nodes'
      })"

definition kr_hashtable_resize ::
  "('k, 'v) T_KRHashTable \<Rightarrow> ('k, 'v) T_KRHashTable option" where
  "kr_hashtable_resize ht = do {
     let old_size = ht_size ht;
     want \<leftarrow> chk_int (ht_nnodes ht * 2);
     ht' \<leftarrow> kr_hashtable_set_shift_from_size ht want;
     assert_c (old_size \<le> int (length (ht_nodes ht)));
     new_nodes \<leftarrow> resize_copy (ht_mod ht') (ht_mask ht') (take (nat old_size) (ht_nodes ht))
                    (replicate (nat (ht_size ht')) empty_node);
     Some (ht'\<lparr>ht_nodes := new_nodes, ht_noccupied := ht_nnodes ht\<rparr>)
   }"

definition kr_hashtable_maybe_resize ::
  "('k, 'v) T_KRHashTable \<Rightarrow> ('k, 'v) T_KRHashTable option" where
  "kr_hashtable_maybe_resize ht = do {
     let noccupied = ht_noccupied ht;
     let sz = ht_size ht;
     four \<leftarrow> chk_int (ht_nnodes ht * 4);
     if sz > four \<and> sz > 2 ^ HASH_TABLE_MIN_SHIFT then kr_hashtable_resize ht
     else do {
       lim \<leftarrow> chk_int (noccupied + tdiv noccupied 16);
       if sz \<le> lim then kr_hashtable_resize ht else Some ht
     }
   }"

section \<open>The public operations\<close>

definition kr_hashtable_new_full ::
  "('k \<Rightarrow> u32) \<Rightarrow> ('k \<Rightarrow> u32) option \<Rightarrow> ('k \<Rightarrow> 'k \<Rightarrow> bool) option \<Rightarrow> bool \<Rightarrow> bool \<Rightarrow>
   ('k, 'v) T_KRHashTable option" where
  "kr_hashtable_new_full pointer_hash hash_func key_equal_func key_destroy value_destroy = do {
     let zero = \<lparr>ht_size = 0, ht_mod = 0, ht_mask = 0, ht_nnodes = 0, ht_noccupied = 0, ht_nodes = [],
        ht_hash_func = (case hash_func of Some f \<Rightarrow> f | None \<Rightarrow> pointer_hash),
        ht_key_equal_func = key_equal_func, ht_ref_count = 1,
        ht_key_destroy_func = key_destroy, ht_value_destroy_func = value_destroy,
        ht_destroyed = []\<rparr>;
     ht \<leftarrow> kr_hashtable_set_shift zero HASH_TABLE_MIN_SHIFT;
     Some (ht\<lparr>ht_nodes := replicate (nat (ht_size ht)) empty_node\<rparr>)
   }"

definition kr_hashtable_new ::
  "('k \<Rightarrow> u32) \<Rightarrow> ('k \<Rightarrow> u32) option \<Rightarrow> ('k \<Rightarrow> 'k \<Rightarrow> bool) option \<Rightarrow>
   ('k, 'v) T_KRHashTable option" where
  "kr_hashtable_new pointer_hash hash_func key_equal_func =
     kr_hashtable_new_full pointer_hash hash_func key_equal_func False False"

definition kr_hashtable_lookup ::
  "('k, 'v) T_KRHashTable option \<Rightarrow> 'k \<Rightarrow> 'v option option" where
  "kr_hashtable_lookup hash_table k =
     (case hash_table of
        None \<Rightarrow> Some None
      | Some ht \<Rightarrow> do {
          i \<leftarrow> kr_hashtable_lookup_node ht k;
          node \<leftarrow> nth_opt (ht_nodes ht) (unat i);
          Some (if hn_key_hash node \<noteq> 0 then hn_value node else None)
        })"

definition kr_hashtable_lookup_extended ::
  "('k, 'v) T_KRHashTable option \<Rightarrow> 'k \<Rightarrow> (bool \<times> 'k option \<times> 'v option) option" where
  "kr_hashtable_lookup_extended hash_table k =
     (case hash_table of
        None \<Rightarrow> Some (False, None, None)
      | Some ht \<Rightarrow> do {
          i \<leftarrow> kr_hashtable_lookup_node ht k;
          node \<leftarrow> nth_opt (ht_nodes ht) (unat i);
          if hn_key_hash node = 0 then Some (False, None, None)
          else Some (True, hn_key node, hn_value node)
        })"

definition kr_hashtable_insert_internal ::
  "('k, 'v) T_KRHashTable \<Rightarrow> 'k \<Rightarrow> 'v option \<Rightarrow> bool \<Rightarrow> ('k, 'v) T_KRHashTable option" where
  "kr_hashtable_insert_internal ht k v keep_new_key = do {
     assert_c (ht_ref_count ht > 0);
     (i, kh) \<leftarrow> kr_hashtable_lookup_node_for_insertion ht k;
     node \<leftarrow> nth_opt (ht_nodes ht) (unat i);
     let old_hash = hn_key_hash node;
     if old_hash > 1 then do {
       let dk = (if ht_key_destroy_func ht
                 then [DestroyKey (if keep_new_key then hn_key node else Some k)] else []);
       let dv = (if ht_value_destroy_func ht then [DestroyValue (hn_value node)] else []);
       let node' = (if keep_new_key then node\<lparr>hn_key := Some k, hn_value := v\<rparr>
                    else node\<lparr>hn_value := v\<rparr>);
       Some (ht\<lparr>ht_nodes := (ht_nodes ht)[unat i := node'],
                ht_destroyed := ht_destroyed ht @ dk @ dv\<rparr>)
     } else do {
       nn \<leftarrow> chk_int (ht_nnodes ht + 1);
       let ht1 = ht\<lparr>ht_nodes := (ht_nodes ht)[unat i :=
                      \<lparr>hn_key = Some k, hn_value = v, hn_key_hash = kh\<rparr>], ht_nnodes := nn\<rparr>;
       if old_hash = 0 then do {
         no \<leftarrow> chk_int (ht_noccupied ht + 1);
         kr_hashtable_maybe_resize (ht1\<lparr>ht_noccupied := no\<rparr>)
       } else Some ht1
     }
   }"

definition kr_hashtable_insert ::
  "('k, 'v) T_KRHashTable \<Rightarrow> 'k \<Rightarrow> 'v option \<Rightarrow> ('k, 'v) T_KRHashTable option" where
  "kr_hashtable_insert ht k v = kr_hashtable_insert_internal ht k v False"

definition kr_hashtable_replace ::
  "('k, 'v) T_KRHashTable \<Rightarrow> 'k \<Rightarrow> 'v option \<Rightarrow> ('k, 'v) T_KRHashTable option" where
  "kr_hashtable_replace ht k v = kr_hashtable_insert_internal ht k v True"

definition kr_hashtable_remove_internal ::
  "('k, 'v) T_KRHashTable option \<Rightarrow> 'k \<Rightarrow> bool \<Rightarrow> (bool \<times> ('k, 'v) T_KRHashTable option) option" where
  "kr_hashtable_remove_internal hash_table k notify =
     (case hash_table of
        None \<Rightarrow> Some (False, None)
      | Some ht \<Rightarrow> do {
          i \<leftarrow> kr_hashtable_lookup_node ht k;
          node \<leftarrow> nth_opt (ht_nodes ht) (unat i);
          if hn_key_hash node = 0 then Some (False, Some ht)
          else do {
            ht1 \<leftarrow> kr_hashtable_remove_node ht (unat i) notify;
            ht2 \<leftarrow> kr_hashtable_maybe_resize ht1;
            Some (True, Some ht2)
          }
        })"

definition kr_hashtable_remove ::
  "('k, 'v) T_KRHashTable option \<Rightarrow> 'k \<Rightarrow> (bool \<times> ('k, 'v) T_KRHashTable option) option" where
  "kr_hashtable_remove hash_table k = kr_hashtable_remove_internal hash_table k True"

definition kr_hashtable_steal ::
  "('k, 'v) T_KRHashTable option \<Rightarrow> 'k \<Rightarrow> (bool \<times> ('k, 'v) T_KRHashTable option) option" where
  "kr_hashtable_steal hash_table k = kr_hashtable_remove_internal hash_table k False"

definition kr_hashtable_remove_all ::
  "('k, 'v) T_KRHashTable \<Rightarrow> ('k, 'v) T_KRHashTable option" where
  "kr_hashtable_remove_all ht = do {
     ht1 \<leftarrow> kr_hashtable_remove_all_nodes ht True;
     kr_hashtable_maybe_resize ht1
   }"

definition kr_hashtable_steal_all ::
  "('k, 'v) T_KRHashTable \<Rightarrow> ('k, 'v) T_KRHashTable option" where
  "kr_hashtable_steal_all ht = do {
     ht1 \<leftarrow> kr_hashtable_remove_all_nodes ht False;
     kr_hashtable_maybe_resize ht1
   }"

text \<open>Destroying a table frees it; what remains visible is the record of destroy calls.\<close>

definition kr_hashtable_destroy ::
  "('k, 'v) T_KRHashTable \<Rightarrow> ('k, 'v) destroy_call list option" where
  "kr_hashtable_destroy ht = do {
     assert_c (ht_ref_count ht > 0);
     ht1 \<leftarrow> kr_hashtable_remove_all ht;
     Some (ht_destroyed ht1)
   }"

section \<open>Iteration\<close>

text \<open>The callbacks get the node's key and value and thread the state behind \<open>user_data\<close>.\<close>

type_synonym ('k, 'v, 's) KRHFunc = "'k option \<Rightarrow> 'v option \<Rightarrow> 's \<Rightarrow> 's"
type_synonym ('k, 'v, 's) KRHRFunc = "'k option \<Rightarrow> 'v option \<Rightarrow> 's \<Rightarrow> bool \<times> 's"

primrec foreach_remove_loop ::
  "('k, 'v, 's) KRHRFunc \<Rightarrow> bool \<Rightarrow> nat list \<Rightarrow> ('k, 'v) T_KRHashTable \<Rightarrow> 's \<Rightarrow> u32 \<Rightarrow>
   (('k, 'v) T_KRHashTable \<times> 's \<times> u32) option" where
  "foreach_remove_loop func notify [] ht s deleted = Some (ht, s, deleted)"
| "foreach_remove_loop func notify (i # is) ht s deleted = do {
     node \<leftarrow> nth_opt (ht_nodes ht) i;
     if hn_key_hash node > 1 then do {
       let (r, s') = func (hn_key node) (hn_value node) s;
       if r then do {
         ht' \<leftarrow> kr_hashtable_remove_node ht i notify;
         foreach_remove_loop func notify is ht' s' (deleted + 1)
       } else foreach_remove_loop func notify is ht s' deleted
     } else foreach_remove_loop func notify is ht s deleted
   }"

definition kr_hashtable_foreach_remove_or_steal ::
  "('k, 'v) T_KRHashTable \<Rightarrow> ('k, 'v, 's) KRHRFunc \<Rightarrow> 's \<Rightarrow> bool \<Rightarrow>
   (u32 \<times> ('k, 'v) T_KRHashTable \<times> 's) option" where
  "kr_hashtable_foreach_remove_or_steal ht func s notify = do {
     (ht1, s1, deleted) \<leftarrow> foreach_remove_loop func notify [0..<nat (ht_size ht)] ht s 0;
     ht2 \<leftarrow> kr_hashtable_maybe_resize ht1;
     Some (deleted, ht2, s1)
   }"

definition kr_hashtable_foreach_remove ::
  "('k, 'v) T_KRHashTable option \<Rightarrow> ('k, 'v, 's) KRHRFunc option \<Rightarrow> 's \<Rightarrow>
   (u32 \<times> ('k, 'v) T_KRHashTable option \<times> 's) option" where
  "kr_hashtable_foreach_remove hash_table func s =
     (case (hash_table, func) of
        (Some ht, Some f) \<Rightarrow> do {
          (d, ht', s') \<leftarrow> kr_hashtable_foreach_remove_or_steal ht f s True;
          Some (d, Some ht', s')
        }
      | _ \<Rightarrow> Some (0, hash_table, s))"

definition kr_hashtable_foreach_steal ::
  "('k, 'v) T_KRHashTable option \<Rightarrow> ('k, 'v, 's) KRHRFunc option \<Rightarrow> 's \<Rightarrow>
   (u32 \<times> ('k, 'v) T_KRHashTable option \<times> 's) option" where
  "kr_hashtable_foreach_steal hash_table func s =
     (case (hash_table, func) of
        (Some ht, Some f) \<Rightarrow> do {
          (d, ht', s') \<leftarrow> kr_hashtable_foreach_remove_or_steal ht f s False;
          Some (d, Some ht', s')
        }
      | _ \<Rightarrow> Some (0, hash_table, s))"

definition kr_hashtable_foreach ::
  "('k, 'v) T_KRHashTable \<Rightarrow> ('k, 'v, 's) KRHFunc \<Rightarrow> 's \<Rightarrow> 's option" where
  "kr_hashtable_foreach ht func s = do {
     assert_c (ht_size ht \<le> int (length (ht_nodes ht)));
     Some (fold (\<lambda>nd st. if hn_key_hash nd > 1 then func (hn_key nd) (hn_value nd) st else st)
             (take (nat (ht_size ht)) (ht_nodes ht)) s)
   }"

primrec hashtable_find_loop ::
  "('k, 'v, 's) KRHRFunc \<Rightarrow> ('k, 'v) T_KRHashNode list \<Rightarrow> 's \<Rightarrow> 'v option" where
  "hashtable_find_loop pred [] s = None"
| "hashtable_find_loop pred (nd # nds) s =
     (if hn_key_hash nd > 1 then
        (let (r, s') = pred (hn_key nd) (hn_value nd) s
         in if r then hn_value nd else hashtable_find_loop pred nds s')
      else hashtable_find_loop pred nds s)"

definition kr_hashtable_find ::
  "('k, 'v) T_KRHashTable option \<Rightarrow> ('k, 'v, 's) KRHRFunc option \<Rightarrow> 's \<Rightarrow> 'v option option" where
  "kr_hashtable_find hash_table predicate s =
     (case (hash_table, predicate) of
        (Some ht, Some p) \<Rightarrow> do {
          assert_c (ht_size ht \<le> int (length (ht_nodes ht)));
          Some (hashtable_find_loop p (take (nat (ht_size ht)) (ht_nodes ht)) s)
        }
      | _ \<Rightarrow> Some None)"

definition kr_hashtable_size :: "('k, 'v) T_KRHashTable option \<Rightarrow> u32" where
  "kr_hashtable_size hash_table =
     (case hash_table of None \<Rightarrow> 0 | Some ht \<Rightarrow> word_of_int (ht_nnodes ht))"

end
