(* ===== verification/KR_Probing.thy ===== *)
theory KR_Probing
  imports KR_Prelude
begin

unbundle bit_operations_syntax

text \<open>
  The arithmetic of triangular probing, independent of the table: the \<open>j\<close>-th slot visited from
  \<open>h\<close> in a table of \<open>2 ^ n\<close> slots is \<open>h + j (j + 1) / 2\<close> modulo \<open>2 ^ n\<close>, and the first
  \<open>2 ^ n\<close> probes visit every slot exactly once.
\<close>

definition tri :: "nat \<Rightarrow> nat" where
  "tri j = j * (j + 1) div 2"

definition probe :: "nat \<Rightarrow> nat \<Rightarrow> nat \<Rightarrow> nat" where
  "probe n h j = (h + tri j) mod 2 ^ n"

lemma tri_double: "2 * tri j = j * (j + 1)"
  by (simp add: tri_def)

lemma tri_Suc: "tri (Suc j) = tri j + Suc j"
  using tri_double [of j] tri_double [of "Suc j"] by simp

lemma probe_less [simp]: "probe n h j < 2 ^ n"
  by (simp add: probe_def)

lemma probe_0: "h < 2 ^ n \<Longrightarrow> probe n h 0 = h"
  by (simp add: probe_def tri_def)

lemma probe_Suc: "probe n h (Suc j) = (probe n h j + Suc j) mod 2 ^ n"
  unfolding probe_def tri_Suc by (metis add.assoc mod_add_left_eq)

lemma tri_diff:
  assumes "i \<le> j"
  shows "2 * (tri j - tri i) = (j - i) * (i + j + 1)"
proof -
  obtain d where j: "j = i + d" using assms le_Suc_ex by blast
  have "2 * tri j = 2 * tri i + d * (i + j + 1)"
    unfolding tri_double by (simp add: j algebra_simps)
  then have "2 * tri j - 2 * tri i = d * (i + j + 1)" by simp
  then show ?thesis using j by (simp add: diff_mult_distrib2)
qed

lemma tri_mono: "i \<le> j \<Longrightarrow> tri i \<le> tri j"
  unfolding tri_def by (intro div_le_mono mult_le_mono add_mono order_refl)

lemma tri_not_congruent:
  assumes "i < j" and "j < 2 ^ n"
  shows "tri i mod 2 ^ n \<noteq> tri j mod 2 ^ n"
proof
  assume "tri i mod 2 ^ n = tri j mod 2 ^ n"
  then have "2 ^ n dvd tri j - tri i"
    using assms(1) by (metis less_imp_le mod_eq_dvd_iff_nat tri_mono)
  then have d: "2 ^ Suc n dvd (j - i) * (i + j + 1)"
    using tri_diff [of i j] assms(1) by (metis less_imp_le mult_dvd_mono dvd_refl power_Suc)
  have odd_one: "odd (j - i) \<or> odd (i + j + 1)"
    using assms(1) by presburger
  then show False
  proof
    assume "odd (j - i)"
    then have "coprime (2 ^ Suc n) (j - i)" by simp
    with d have "2 ^ Suc n dvd i + j + 1"
      by (simp only: coprime_dvd_mult_right_iff)
    then have "2 ^ Suc n \<le> i + j + 1" by (simp only: dvd_imp_le)
    with assms show False by simp
  next
    assume "odd (i + j + 1)"
    then have "coprime (2 ^ Suc n) (i + j + 1)" by simp
    with d have "2 ^ Suc n dvd j - i"
      by (simp only: coprime_dvd_mult_left_iff)
    then have "2 ^ Suc n \<le> j - i" using assms(1) by (simp add: dvd_imp_le)
    with assms show False by simp
  qed
qed

lemma mod_add_left_cancel:
  fixes a b h m :: nat
  assumes "(h + a) mod m = (h + b) mod m"
  shows "a mod m = b mod m"
proof -
  have "(int h + int a) mod int m = (int h + int b) mod int m"
    using assms by (metis of_nat_add zmod_int)
  then have "int a mod int m = int b mod int m"
    by (simp add: mod_eq_dvd_iff)
  then show ?thesis by (metis nat_int zmod_int)
qed

lemma inj_probe: "inj_on (probe n h) {..<2 ^ n}"
proof (rule inj_onI)
  fix i j assume ij: "i \<in> {..<2 ^ n}" "j \<in> {..<2 ^ n}" and eq: "probe n h i = probe n h j"
  from eq have "tri i mod 2 ^ n = tri j mod 2 ^ n"
    unfolding probe_def by (rule mod_add_left_cancel)
  with ij show "i = j"
    using tri_not_congruent [of i j n] tri_not_congruent [of j i n]
    by (cases i j rule: linorder_cases) auto
qed

lemma probe_surj: "probe n h ` {..<2 ^ n} = {..<2 ^ n}"
  by (rule endo_inj_surj) (auto simp: inj_probe)

lemma probe_reaches:
  assumes "i < 2 ^ n"
  obtains j where "j < 2 ^ n" and "probe n h j = i"
proof -
  have "i \<in> probe n h ` {..<2 ^ n}"
    using assms by (simp only: probe_surj lessThan_iff)
  then show thesis using that by auto
qed

section \<open>The probe sequence in machine words\<close>

lemma unat_and_mask32: "unat ((w :: u32) AND mask n) = unat w mod 2 ^ n"
proof -
  have "unat (w AND mask n) = unat (take_bit n w)" by (simp only: take_bit_eq_mask)
  also have "\<dots> = take_bit n (unat w)" by (simp only: unsigned_take_bit_eq)
  finally show ?thesis by (simp only: take_bit_eq_mod)
qed

lemma probe_step_word:
  fixes idx step :: u32
  assumes "unat idx = probe n h j" and "step = of_nat j" and "n \<le> 30" and "j < 2 ^ n"
  shows "unat ((idx + (step + 1)) AND mask n) = probe n h (Suc j)"
proof -
  have n30: "(2 :: nat) ^ n \<le> 2 ^ 30" using assms(3) by (intro power_increasing) auto
  have idx: "unat idx < 2 ^ n" using assms(1) by simp
  have "unat (step + 1) = Suc j"
    using assms(2,4) n30 by (simp add: unat_word_ariths unat_of_nat)
  then have "unat (idx + (step + 1)) = unat idx + Suc j"
    using idx assms(4) n30 by (simp add: unat_word_ariths)
  then show ?thesis
    using assms(1) by (simp add: unat_and_mask32 probe_Suc)
qed

end
