(* ===== verification/KR_HashTable_Map.thy ===== *)
theory KR_HashTable_Map
  imports KR_HashTable KR_Probing
begin

unbundle bit_operations_syntax

text \<open>
  The hash table of \<open>KR_HashTable\<close> implements a finite map. \<open>ht_ok\<close> is the table's invariant,
  \<open>ht_map\<close> the map it stands for (defined by a linear scan of the node array), and every
  operation that the table's clients call is shown to return, to keep \<open>ht_ok\<close> and to change
  \<open>ht_map\<close> as documented. Keys are compared with the table's own equality, which has to be a
  partial equivalence that the hash respects (locale \<open>hash_key\<close>); it need not be reflexive, so
  that the equality of doubles qualifies.
\<close>

section \<open>The map a node array stands for\<close>

definition live_node :: "('k, 'v) T_KRHashNode \<Rightarrow> bool" where
  "live_node nd \<longleftrightarrow> hn_key_hash nd > 1"

definition node_has :: "('k \<Rightarrow> 'k \<Rightarrow> bool) \<Rightarrow> 'k \<Rightarrow> ('k, 'v) T_KRHashNode \<Rightarrow> bool" where
  "node_has eq x nd \<longleftrightarrow>
     live_node nd \<and> (case hn_key nd of None \<Rightarrow> False | Some k \<Rightarrow> eq k x)"

definition nodes_map ::
  "('k \<Rightarrow> 'k \<Rightarrow> bool) \<Rightarrow> ('k, 'v) T_KRHashNode list \<Rightarrow> 'k \<Rightarrow> 'v option option" where
  "nodes_map eq ns x = map_option hn_value (find (node_has eq x) ns)"

definition ht_map :: "('k, 'v) T_KRHashTable \<Rightarrow> 'k \<Rightarrow> 'v option option" where
  "ht_map ht = nodes_map (keq ht) (ht_nodes ht)"

text \<open>The value of a lookup: NULL both for an absent key and for a stored NULL.\<close>

definition null_if_absent :: "'v option option \<Rightarrow> 'v option" where
  "null_if_absent r = (case r of None \<Rightarrow> None | Some v \<Rightarrow> v)"

definition uniq_keys :: "('k \<Rightarrow> 'k \<Rightarrow> bool) \<Rightarrow> ('k, 'v) T_KRHashNode list \<Rightarrow> bool" where
  "uniq_keys eq ns \<longleftrightarrow>
     (\<forall>i < length ns. \<forall>j < length ns. \<forall>k k'.
        live_node (ns ! i) \<longrightarrow> live_node (ns ! j) \<longrightarrow>
        hn_key (ns ! i) = Some k \<longrightarrow> hn_key (ns ! j) = Some k' \<longrightarrow> eq k k' \<longrightarrow> i = j)"

lemma uniq_keysD:
  "uniq_keys eq ns \<Longrightarrow> i < length ns \<Longrightarrow> j < length ns \<Longrightarrow> live_node (ns ! i) \<Longrightarrow>
   live_node (ns ! j) \<Longrightarrow> hn_key (ns ! i) = Some k \<Longrightarrow> hn_key (ns ! j) = Some k' \<Longrightarrow> eq k k' \<Longrightarrow>
   i = j"
  unfolding uniq_keys_def by blast

lemma node_hasE:
  assumes "node_has eq x nd"
  obtains k where "live_node nd" and "hn_key nd = Some k" and "eq k x"
  using assms by (auto simp: node_has_def split: option.splits)

lemma nodes_map_None_iff: "nodes_map eq ns x = None \<longleftrightarrow> (\<forall>nd \<in> set ns. \<not> node_has eq x nd)"
  by (auto simp: nodes_map_def find_None_iff)

lemma nodes_map_SomeE:
  assumes "nodes_map eq ns x = Some v"
  obtains i where "i < length ns" and "node_has eq x (ns ! i)" and "v = hn_value (ns ! i)"
  using assms by (auto simp: nodes_map_def find_Some_iff)

section \<open>The invariant\<close>

definition used :: "('k, 'v) T_KRHashNode list \<Rightarrow> nat \<Rightarrow> bool" where
  "used ns i \<longleftrightarrow> hn_key_hash (ns ! i) \<noteq> 0"

definition reach :: "('k, 'v) T_KRHashNode list \<Rightarrow> nat \<Rightarrow> nat \<Rightarrow> nat \<Rightarrow> bool" where
  "reach ns n h i \<longleftrightarrow> (\<exists>j < 2 ^ n. probe n h j = i \<and> (\<forall>j' < j. used ns (probe n h j')))"

definition norm_hash :: "u32 \<Rightarrow> u32" where
  "norm_hash h = (if h \<le> 1 then 2 else h)"

definition home :: "nat \<Rightarrow> u32 \<Rightarrow> nat" where
  "home n hv = unat hv mod nat (prime_mod ! n)"

definition nodes_ok ::
  "('k \<Rightarrow> u32) \<Rightarrow> ('k \<Rightarrow> 'k \<Rightarrow> bool) \<Rightarrow> nat \<Rightarrow> ('k, 'v) T_KRHashNode list \<Rightarrow> bool" where
  "nodes_ok hf eq n ns \<longleftrightarrow>
     length ns = 2 ^ n \<and> uniq_keys eq ns \<and>
     (\<forall>i < 2 ^ n. live_node (ns ! i) \<longrightarrow>
        (\<exists>k. hn_key (ns ! i) = Some k \<and> hn_key_hash (ns ! i) = norm_hash (hf k) \<and>
             reach ns n (home n (norm_hash (hf k))) i))"

definition n_live :: "('k, 'v) T_KRHashNode list \<Rightarrow> nat" where
  "n_live ns = length (filter live_node ns)"

definition n_used :: "('k, 'v) T_KRHashNode list \<Rightarrow> nat" where
  "n_used ns = length (filter (\<lambda>nd. hn_key_hash nd \<noteq> 0) ns)"

text \<open>
  \<open>ht_pre\<close> is the invariant in the middle of an insertion, before \<open>maybe_resize\<close> has run: the
  table may be full.
\<close>

definition ht_pre :: "('k, 'v) T_KRHashTable \<Rightarrow> bool" where
  "ht_pre ht \<longleftrightarrow>
     (\<exists>n. 3 \<le> n \<and> n \<le> 30 \<and> ht_size ht = 2 ^ n \<and> ht_mod ht = prime_mod ! n \<and> ht_mask ht = mask n \<and>
          nodes_ok (ht_hash_func ht) (keq ht) n (ht_nodes ht)) \<and>
     ht_nnodes ht = int (n_live (ht_nodes ht)) \<and>
     ht_noccupied ht = int (n_used (ht_nodes ht)) \<and> ht_ref_count ht > 0"

definition ht_ok :: "('k, 'v) T_KRHashTable \<Rightarrow> bool" where
  "ht_ok ht \<longleftrightarrow> ht_pre ht \<and> ht_noccupied ht < ht_size ht"

text \<open>The part of a table that no operation changes.\<close>

definition same_funcs :: "('k, 'v) T_KRHashTable \<Rightarrow> ('k, 'v) T_KRHashTable \<Rightarrow> bool" where
  "same_funcs ht ht' \<longleftrightarrow>
     ht_hash_func ht' = ht_hash_func ht \<and> ht_key_equal_func ht' = ht_key_equal_func ht \<and>
     ht_key_destroy_func ht' = ht_key_destroy_func ht \<and>
     ht_value_destroy_func ht' = ht_value_destroy_func ht \<and> ht_ref_count ht' = ht_ref_count ht"

lemma same_funcs_refl [simp]: "same_funcs ht ht"
  by (simp add: same_funcs_def)

lemma same_funcs_trans: "same_funcs a b \<Longrightarrow> same_funcs b c \<Longrightarrow> same_funcs a c"
  by (simp add: same_funcs_def)

lemma same_funcs_keq: "same_funcs a b \<Longrightarrow> keq b = keq a"
  by (simp add: same_funcs_def keq_def)

section \<open>Sizes, masks and primes\<close>

lemma shift_mask_mask: "shift_mask i (mask j) = mask (i + j)"
proof (induction i arbitrary: j)
  case 0
  then show ?case by simp
next
  case (Suc i)
  have "push_bit 1 (mask j :: u32) OR 1 = mask (Suc j)"
    by (simp add: mask_Suc_double push_bit_eq_mult or.commute mult.commute)
  with Suc show ?case by simp
qed

lemma shift_mask_0: "shift_mask i 0 = mask i"
  using shift_mask_mask [of i 0] by simp

lemma prime_mod_bounds:
  assumes "n < 32"
  shows "0 < prime_mod ! n" and "prime_mod ! n \<le> 2 ^ n"
proof -
  have "\<forall>m \<in> set [0..<32]. 0 < prime_mod ! m \<and> prime_mod ! m \<le> 2 ^ m"
    by (simp add: prime_mod_def upt_rec)
  with assms show "0 < prime_mod ! n" and "prime_mod ! n \<le> 2 ^ n" by simp_all
qed

lemma length_prime_mod: "length prime_mod = 32"
  by (simp add: prime_mod_def)

lemma home_less: "n < 32 \<Longrightarrow> home n hv < 2 ^ n"
proof -
  assume n: "n < 32"
  have "home n hv < nat (prime_mod ! n)"
    using prime_mod_bounds(1) [OF n] by (simp add: home_def)
  also have "\<dots> \<le> nat (2 ^ n)" using prime_mod_bounds(2) [OF n] by (rule nat_mono)
  finally show ?thesis by (simp add: nat_power_eq)
qed

lemma unat_home_index:
  assumes "n \<le> 30"
  shows "unat ((hv :: u32) mod word_of_int (prime_mod ! n)) = home n hv"
proof -
  have n: "n < 32" using assms by simp
  have "(2 :: int) ^ n \<le> 2 ^ 30" using assms by (intro power_increasing) auto
  then have "prime_mod ! n < 2 ^ 32" using prime_mod_bounds(2) [OF n] by simp
  then have "unat (word_of_int (prime_mod ! n) :: u32) = nat (prime_mod ! n)"
    using prime_mod_bounds(1) [OF n] by (simp add: unsigned_of_int take_bit_int_eq_self)
  then show ?thesis by (simp add: unat_mod home_def)
qed

declare kr_hashtable_find_closest_shift.simps [simp del]

lemma find_closest_shift_spec:
  "0 \<le> n \<Longrightarrow> \<exists>s. kr_hashtable_find_closest_shift n = Some s \<and> n < 2 ^ s \<and> (0 < n \<longrightarrow> 2 ^ s \<le> 2 * n)"
proof (induction n rule: kr_hashtable_find_closest_shift.induct)
  case (1 n)
  show ?case
  proof (cases "n = 0")
    case True
    then show ?thesis by (simp add: kr_hashtable_find_closest_shift.simps)
  next
    case False
    with 1 obtain s where s: "kr_hashtable_find_closest_shift (n div 2) = Some s"
        "n div 2 < 2 ^ s" "0 < n div 2 \<longrightarrow> 2 ^ s \<le> 2 * (n div 2)"
      by auto
    have eq: "kr_hashtable_find_closest_shift n = Some (Suc s)"
      using False 1 s(1) by (simp add: kr_hashtable_find_closest_shift.simps [of n])
    have up: "n < 2 ^ Suc s" using s(2) by simp
    have lo: "2 ^ Suc s \<le> 2 * n"
    proof (cases "n div 2 = 0")
      case True
      then have "n = 1" using False 1 by presburger
      with s(1) show ?thesis by (simp add: kr_hashtable_find_closest_shift.simps)
    next
      case False
      with 1 have "0 < n div 2" by simp
      with s(3) have "2 ^ s \<le> 2 * (n div 2)" by simp
      then show ?thesis by simp
    qed
    from eq up lo show ?thesis by blast
  qed
qed

lemma shift_le_30:
  assumes "0 \<le> w" and "w < 2 ^ 30" and "(0 < w \<longrightarrow> (2 :: int) ^ s \<le> 2 * w)"
    and "kr_hashtable_find_closest_shift w = Some s"
  shows "s \<le> 30"
proof (cases "w = 0")
  case True
  with assms(4) show ?thesis by (simp add: kr_hashtable_find_closest_shift.simps)
next
  case False
  with assms have "(2 :: int) ^ s < 2 ^ 31" by simp
  then have "s < 31" by (simp only: power_strict_increasing_iff one_less_numeral_iff semiring_norm)
  then show ?thesis by simp
qed

section \<open>Probing finds the key or an empty slot\<close>

definition hit :: "('k, 'v) T_KRHashTable \<Rightarrow> 'k \<Rightarrow> u32 \<Rightarrow> nat \<Rightarrow> bool" where
  "hit ht k hv i \<longleftrightarrow>
     hn_key_hash (ht_nodes ht ! i) = hv \<and> key_matches ht (ht_nodes ht ! i) k"

lemma lookup_node_loop_spec:
  assumes "length (ht_nodes ht) = 2 ^ n" and "ht_mask ht = mask n" and "n \<le> 30"
    and "J < 2 ^ n" and "\<not> used (ht_nodes ht) (probe n h J)"
  shows "j \<le> J \<Longrightarrow> unat idx = probe n h j \<Longrightarrow> step = of_nat j \<Longrightarrow>
    \<exists>j'. j \<le> j' \<and> j' \<le> J \<and>
      (\<exists>r. lookup_node_loop ht k hv idx step = Some r \<and> unat r = probe n h j') \<and>
      (\<forall>i. j \<le> i \<and> i < j' \<longrightarrow> used (ht_nodes ht) (probe n h i) \<and> \<not> hit ht k hv (probe n h i)) \<and>
      (\<not> used (ht_nodes ht) (probe n h j') \<or> hit ht k hv (probe n h j'))"
proof (induction "J - j" arbitrary: j idx step)
  case 0
  then have jJ: "j = J" by simp
  with 0 assms have "lookup_node_loop ht k hv idx step = Some idx"
    by (subst lookup_node_loop.simps) (simp add: nth_opt_nth used_def)
  with 0 jJ assms(5) show ?case by (intro exI [of _ J]) auto
next
  case (Suc d)
  let ?stop = "\<not> used (ht_nodes ht) (probe n h j) \<or> hit ht k hv (probe n h j)"
  have nth: "nth_opt (ht_nodes ht) (unat idx) = Some (ht_nodes ht ! probe n h j)"
    using Suc.prems(2) assms(1) by simp
  show ?case
  proof (cases ?stop)
    case True
    then have "lookup_node_loop ht k hv idx step = Some idx"
      by (subst lookup_node_loop.simps) (auto simp: nth used_def hit_def)
    with Suc.prems True show ?thesis by (intro exI [of _ j]) auto
  next
    case False
    let ?idx = "(idx + (step + 1)) AND ht_mask ht"
    have jn: "j < 2 ^ n" using Suc.prems(1) assms(4) by simp
    have idx': "unat ?idx = probe n h (Suc j)"
      using probe_step_word [OF Suc.prems(2,3) assms(3) jn] assms(2) by simp
    have loop: "lookup_node_loop ht k hv idx step = lookup_node_loop ht k hv ?idx (step + 1)"
      using False by (subst lookup_node_loop.simps) (auto simp: nth used_def hit_def)
    have "d = J - Suc j" and "Suc j \<le> J" and "step + 1 = of_nat (Suc j)"
      using Suc.hyps(2) Suc.prems(3) by auto
    from Suc.hyps(1) [OF this(1,2) idx' this(3)] obtain j' where j': "Suc j \<le> j'" "j' \<le> J"
      "\<exists>r. lookup_node_loop ht k hv ?idx (step + 1) = Some r \<and> unat r = probe n h j'"
      "\<forall>i. Suc j \<le> i \<and> i < j' \<longrightarrow> used (ht_nodes ht) (probe n h i) \<and> \<not> hit ht k hv (probe n h i)"
      "\<not> used (ht_nodes ht) (probe n h j') \<or> hit ht k hv (probe n h j')"
      by blast
    have "\<forall>i. j \<le> i \<and> i < j' \<longrightarrow> used (ht_nodes ht) (probe n h i) \<and> \<not> hit ht k hv (probe n h i)"
      using j'(4) False by (metis Suc_leI le_neq_implies_less)
    with j' loop show ?thesis by (intro exI [of _ j']) auto
  qed
qed

text \<open>
  The insertion probe stops at the same place; it returns that slot, or a tombstone it passed
  when the key is not there.
\<close>

lemma insertion_loop_spec:
  assumes "length (ht_nodes ht) = 2 ^ n" and "ht_mask ht = mask n" and "n \<le> 30"
    and "J < 2 ^ n" and "\<not> used (ht_nodes ht) (probe n h J)"
  shows "j \<le> J \<Longrightarrow> unat idx = probe n h j \<Longrightarrow> step = of_nat j \<Longrightarrow>
    (\<forall>t. tomb = Some t \<longrightarrow> (\<exists>i < j. unat t = probe n h i \<and> hn_key_hash (ht_nodes ht ! unat t) = 1)) \<Longrightarrow>
    \<exists>j' r. j \<le> j' \<and> j' \<le> J \<and>
      lookup_node_for_insertion_loop ht k hv idx step tomb = Some r \<and>
      (\<forall>i. j \<le> i \<and> i < j' \<longrightarrow> used (ht_nodes ht) (probe n h i) \<and> \<not> hit ht k hv (probe n h i)) \<and>
      (used (ht_nodes ht) (probe n h j') \<and> hit ht k hv (probe n h j') \<and> unat r = probe n h j' \<or>
       \<not> used (ht_nodes ht) (probe n h j') \<and>
         (unat r = probe n h j' \<or>
          (\<exists>i < j'. unat r = probe n h i \<and> hn_key_hash (ht_nodes ht ! unat r) = 1)))"
proof (induction "J - j" arbitrary: j idx step tomb)
  case 0
  then have jJ: "j = J" by simp
  with 0 assms have "lookup_node_for_insertion_loop ht k hv idx step tomb =
      Some (case tomb of Some t \<Rightarrow> t | None \<Rightarrow> idx)"
    by (subst lookup_node_for_insertion_loop.simps) (simp add: nth_opt_nth used_def)
  with 0 jJ assms(5) show ?case
    by (intro exI [of _ J] exI [of _ "case tomb of Some t \<Rightarrow> t | None \<Rightarrow> idx"])
       (auto split: option.splits)
next
  case (Suc d)
  have nth: "nth_opt (ht_nodes ht) (unat idx) = Some (ht_nodes ht ! probe n h j)"
    using Suc.prems(2) assms(1) by simp
  consider (empty) "\<not> used (ht_nodes ht) (probe n h j)"
    | (found) "used (ht_nodes ht) (probe n h j)" "hit ht k hv (probe n h j)"
    | (go) "used (ht_nodes ht) (probe n h j)" "\<not> hit ht k hv (probe n h j)" by blast
  then show ?case
  proof cases
    case empty
    then have "lookup_node_for_insertion_loop ht k hv idx step tomb =
        Some (case tomb of Some t \<Rightarrow> t | None \<Rightarrow> idx)"
      by (subst lookup_node_for_insertion_loop.simps) (simp add: nth used_def)
    with Suc.prems empty show ?thesis
      by (intro exI [of _ j] exI [of _ "case tomb of Some t \<Rightarrow> t | None \<Rightarrow> idx"])
         (auto split: option.splits)
  next
    case found
    then have "lookup_node_for_insertion_loop ht k hv idx step tomb = Some idx"
      by (subst lookup_node_for_insertion_loop.simps) (simp add: nth used_def hit_def)
    with Suc.prems found show ?thesis by (intro exI [of _ j] exI [of _ idx]) auto
  next
    case go
    let ?idx = "(idx + (step + 1)) AND ht_mask ht"
    let ?nd = "ht_nodes ht ! probe n h j"
    let ?tomb = "if hn_key_hash ?nd \<noteq> hv \<and> hn_key_hash ?nd = 1 \<and> tomb = None
                 then Some idx else tomb"
    have jn: "j < 2 ^ n" using Suc.prems(1) assms(4) by simp
    have idx': "unat ?idx = probe n h (Suc j)"
      using probe_step_word [OF Suc.prems(2,3) assms(3) jn] assms(2) by simp
    have loop: "lookup_node_for_insertion_loop ht k hv idx step tomb =
        lookup_node_for_insertion_loop ht k hv ?idx (step + 1) ?tomb"
      using go by (subst lookup_node_for_insertion_loop.simps) (auto simp: nth used_def hit_def)
    have d: "d = J - Suc j" "Suc j \<le> J" "step + 1 = of_nat (Suc j)"
      using Suc.hyps(2) Suc.prems(3) by auto
    have "\<forall>t. ?tomb = Some t \<longrightarrow>
        (\<exists>i < Suc j. unat t = probe n h i \<and> hn_key_hash (ht_nodes ht ! unat t) = 1)"
      using Suc.prems(2,4) by (auto split: if_splits intro: less_SucI)
    from Suc.hyps(1) [OF d(1,2) idx' d(3) this] obtain j' r where j': "Suc j \<le> j'" "j' \<le> J"
      "lookup_node_for_insertion_loop ht k hv ?idx (step + 1) ?tomb = Some r"
      "\<forall>i. Suc j \<le> i \<and> i < j' \<longrightarrow> used (ht_nodes ht) (probe n h i) \<and> \<not> hit ht k hv (probe n h i)"
      "used (ht_nodes ht) (probe n h j') \<and> hit ht k hv (probe n h j') \<and> unat r = probe n h j' \<or>
       \<not> used (ht_nodes ht) (probe n h j') \<and>
         (unat r = probe n h j' \<or>
          (\<exists>i < j'. unat r = probe n h i \<and> hn_key_hash (ht_nodes ht ! unat r) = 1))"
      by blast
    have "\<forall>i. j \<le> i \<and> i < j' \<longrightarrow> used (ht_nodes ht) (probe n h i) \<and> \<not> hit ht k hv (probe n h i)"
      using j'(4) go by (metis Suc_leI le_neq_implies_less)
    with j'(1-3,5) loop show ?thesis by (intro exI [of _ j'] exI [of _ r]) auto
  qed
qed

section \<open>Keys\<close>

text \<open>What a client's hash and equality functions have to satisfy.\<close>

locale hash_key =
  fixes hash :: "'k \<Rightarrow> u32"
    and eq :: "'k \<Rightarrow> 'k \<Rightarrow> bool"
  assumes eq_sym: "eq a b \<Longrightarrow> eq b a"
    and eq_trans: "eq a b \<Longrightarrow> eq b c \<Longrightarrow> eq a c"
    and eq_hash: "eq a b \<Longrightarrow> hash a = hash b"
begin

lemma nodes_map_unique:
  assumes "uniq_keys eq ns" and "i < length ns" and "node_has eq x (ns ! i)"
  shows "nodes_map eq ns x = Some (hn_value (ns ! i))"
proof -
  obtain i' where i': "i' < length ns" "node_has eq x (ns ! i')"
      "nodes_map eq ns x = Some (hn_value (ns ! i'))"
  proof (cases "nodes_map eq ns x")
    case None
    with assms(2,3) show ?thesis by (auto simp: nodes_map_None_iff)
  next
    case (Some v)
    then show ?thesis by (elim nodes_map_SomeE) (use Some that in auto)
  qed
  from i'(2) obtain k' where k': "live_node (ns ! i')" "hn_key (ns ! i') = Some k'" "eq k' x"
    by (rule node_hasE)
  from assms(3) obtain k where k: "live_node (ns ! i)" "hn_key (ns ! i) = Some k" "eq k x"
    by (rule node_hasE)
  have "eq k' k" using k'(3) k(3) eq_sym eq_trans by blast
  with assms(1,2) i'(1) k' k have "i' = i" unfolding uniq_keys_def by blast
  with i'(3) show ?thesis by simp
qed

lemma live_reach:
  assumes "nodes_ok hash eq n ns" and "i < 2 ^ n" and "node_has eq x (ns ! i)"
  shows "hn_key_hash (ns ! i) = norm_hash (hash x)"
    and "reach ns n (home n (norm_hash (hash x))) i"
proof -
  from assms(3) obtain k where k: "live_node (ns ! i)" "hn_key (ns ! i) = Some k" "eq k x"
    by (rule node_hasE)
  from eq_hash [OF k(3)] have "hash k = hash x" .
  with assms(1,2) k show "hn_key_hash (ns ! i) = norm_hash (hash x)"
    and "reach ns n (home n (norm_hash (hash x))) i"
    by (auto simp: nodes_ok_def)
qed

text \<open>A search that stopped at an empty slot without a hit has not missed the key.\<close>

lemma no_hit_absent:
  assumes ok: "nodes_ok hash eq n ns" and j': "\<not> used ns (probe n h j')"
    and h: "h = home n (norm_hash (hash x))"
    and nohit: "\<And>i. i < j' \<Longrightarrow> \<not> node_has eq x (ns ! probe n h i)"
  shows "nodes_map eq ns x = None"
  unfolding nodes_map_None_iff
proof (intro ballI notI)
  fix nd assume "nd \<in> set ns" and has: "node_has eq x nd"
  then obtain i where i: "i < 2 ^ n" "ns ! i = nd"
    using ok by (auto simp: in_set_conv_nth nodes_ok_def)
  from live_reach(2) [OF ok i(1)] i(2) has h obtain j where j: "j < 2 ^ n" "probe n h j = i"
      "\<forall>m < j. used ns (probe n h m)"
    by (auto simp: reach_def)
  have "\<not> j < j'" using nohit [of j] j(2) i(2) has by auto
  moreover have "j \<noteq> j'"
  proof
    assume "j = j'"
    with j(2) j' i(2) have "hn_key_hash nd = 0" by (simp add: used_def)
    with has show False by (auto simp: node_has_def live_node_def)
  qed
  ultimately have "j' < j" by simp
  with j(3) j' show False by blast
qed

end

lemma hash_value_norm: "hash_value ht k = norm_hash (ht_hash_func ht k)"
  by (simp add: hash_value_def norm_hash_def)

lemma norm_hash_gt1: "norm_hash h > 1"
  by (simp add: norm_hash_def not_le)

lemma hit_iff:
  assumes "hv > 1"
  shows "hit ht k hv i \<longleftrightarrow> hn_key_hash (ht_nodes ht ! i) = hv \<and> node_has (keq ht) k (ht_nodes ht ! i)"
  using assms by (auto simp: hit_def key_matches_def node_has_def live_node_def split: option.splits)

lemma free_slot:
  assumes "n_used ns < 2 ^ n" and "length ns = 2 ^ n"
  obtains J where "J < 2 ^ n" and "\<not> used ns (probe n h J)"
proof -
  from assms obtain i where i: "i < 2 ^ n" "\<not> used ns i"
    using length_filter_less_imp_ex [of "\<lambda>nd. hn_key_hash nd \<noteq> 0" ns]
    by (auto simp: n_used_def used_def)
  from probe_reaches [OF i(1)] obtain J where "J < 2 ^ n" "probe n h J = i" by blast
  with i(2) that show thesis by blast
qed

lemma home_index_eq:
  assumes "n \<le> 30" and "ht_mod ht = prime_mod ! n"
  shows "unat (home_index ht hv) = probe n (home n hv) 0"
  using assms by (simp add: home_index_def unat_home_index probe_0 home_less)

section \<open>Looking up\<close>

context hash_key
begin

lemma lookup_node_correct:
  assumes ok: "ht_ok ht" and hf: "ht_hash_func ht = hash" and kq: "keq ht = eq"
  shows "\<exists>r. kr_hashtable_lookup_node ht x = Some r \<and> unat r < length (ht_nodes ht) \<and>
    (hn_key_hash (ht_nodes ht ! unat r) = 0 \<and> ht_map ht x = None \<or>
     node_has eq x (ht_nodes ht ! unat r) \<and>
     ht_map ht x = Some (hn_value (ht_nodes ht ! unat r)))"
proof -
  from ok obtain n where n: "n \<le> 30" "ht_size ht = 2 ^ n" "ht_mod ht = prime_mod ! n"
      "ht_mask ht = mask n" "nodes_ok hash eq n (ht_nodes ht)"
    by (auto simp: ht_ok_def ht_pre_def hf kq)
  let ?hv = "norm_hash (hash x)"
  let ?h = "home n ?hv"
  have len: "length (ht_nodes ht) = 2 ^ n" and uniq: "uniq_keys eq (ht_nodes ht)"
    using n(5) by (auto simp: nodes_ok_def)
  have "n_used (ht_nodes ht) < 2 ^ n" using ok n(2) by (auto simp: ht_ok_def ht_pre_def)
  from free_slot [OF this len] obtain J where J: "J < 2 ^ n" "\<not> used (ht_nodes ht) (probe n ?h J)"
    by blast
  from lookup_node_loop_spec [OF len n(4,1) J, of 0 "home_index ht ?hv" 0 x ?hv]
       home_index_eq [OF n(1,3), of ?hv]
  obtain j' r where j': "lookup_node_loop ht x ?hv (home_index ht ?hv) 0 = Some r"
      "unat r = probe n ?h j'"
      "\<forall>i < j'. \<not> hit ht x ?hv (probe n ?h i)"
      "\<not> used (ht_nodes ht) (probe n ?h j') \<or> hit ht x ?hv (probe n ?h j')"
    by auto
  have look: "kr_hashtable_lookup_node ht x = Some r"
    using j'(1) by (simp add: kr_hashtable_lookup_node_def hash_value_norm hf)
  have nohit: "\<not> node_has eq x (ht_nodes ht ! probe n ?h i)" if "i < j'" for i
    using j'(3) that live_reach(1) [OF n(5) probe_less] by (auto simp: hit_iff norm_hash_gt1 kq)
  show ?thesis
  proof (cases "hit ht x ?hv (probe n ?h j')")
    case True
    then have "node_has eq x (ht_nodes ht ! unat r)"
      by (simp add: hit_iff norm_hash_gt1 kq j'(2))
    with look j'(2) len nodes_map_unique [OF uniq, of "unat r" x] show ?thesis
      by (simp add: ht_map_def kq)
  next
    case False
    with j'(4) have e: "\<not> used (ht_nodes ht) (probe n ?h j')" by simp
    from no_hit_absent [OF n(5) e refl nohit] have "ht_map ht x = None"
      by (simp add: ht_map_def kq)
    with look j'(2) len e show ?thesis by (simp add: used_def)
  qed
qed

lemma lookup_correct:
  assumes "ht_ok ht" and "ht_hash_func ht = hash" and "keq ht = eq"
  shows "kr_hashtable_lookup (Some ht) x = Some (null_if_absent (ht_map ht x))"
proof -
  from lookup_node_correct [OF assms, of x] obtain r where r: "kr_hashtable_lookup_node ht x = Some r"
      "unat r < length (ht_nodes ht)"
      "hn_key_hash (ht_nodes ht ! unat r) = 0 \<and> ht_map ht x = None \<or>
       node_has eq x (ht_nodes ht ! unat r) \<and> ht_map ht x = Some (hn_value (ht_nodes ht ! unat r))"
    by blast
  then show ?thesis
    by (auto simp: kr_hashtable_lookup_def null_if_absent_def nth_opt_nth node_has_def live_node_def)
qed

lemma lookup_extended_correct:
  assumes "ht_ok ht" and "ht_hash_func ht = hash" and "keq ht = eq"
  shows "(ht_map ht x = None \<and> kr_hashtable_lookup_extended (Some ht) x = Some (False, None, None)) \<or>
    (\<exists>k v. eq k x \<and> ht_map ht x = Some v \<and>
       kr_hashtable_lookup_extended (Some ht) x = Some (True, Some k, v))"
proof -
  from lookup_node_correct [OF assms, of x] obtain r where r: "kr_hashtable_lookup_node ht x = Some r"
      "unat r < length (ht_nodes ht)"
      "hn_key_hash (ht_nodes ht ! unat r) = 0 \<and> ht_map ht x = None \<or>
       node_has eq x (ht_nodes ht ! unat r) \<and> ht_map ht x = Some (hn_value (ht_nodes ht ! unat r))"
    by blast
  then show ?thesis
    by (auto simp: kr_hashtable_lookup_extended_def nth_opt_nth live_node_def elim!: node_hasE)
qed

end

section \<open>Writing one slot\<close>

lemma find_update_irrelevant:
  "i < length xs \<Longrightarrow> \<not> P (xs ! i) \<Longrightarrow> \<not> P y \<Longrightarrow> find P (xs[i := y]) = find P xs"
proof (induction xs arbitrary: i)
  case Nil
  then show ?case by simp
next
  case (Cons a xs)
  then show ?case by (cases i) auto
qed

lemma reach_mono:
  "reach ns n h i \<Longrightarrow> (\<And>j. j < 2 ^ n \<Longrightarrow> used ns j \<Longrightarrow> used ns' j) \<Longrightarrow> reach ns' n h i"
  unfolding reach_def by (elim exE conjE, rule exI, intro conjI allI impI) auto

lemma used_update:
  "length ns = 2 ^ n \<Longrightarrow> hn_key_hash nd \<noteq> 0 \<Longrightarrow> j < 2 ^ n \<Longrightarrow> used ns j \<Longrightarrow> used (ns[r := nd]) j"
  by (cases "j = r") (auto simp: used_def)

lemma n_live_update:
  "r < length ns \<Longrightarrow> int (n_live (ns[r := nd])) =
     int (n_live ns) - (if live_node (ns ! r) then 1 else 0) + (if live_node nd then 1 else 0)"
  by (simp add: n_live_def filter_update_eq_length)

lemma n_used_update:
  "r < length ns \<Longrightarrow> int (n_used (ns[r := nd])) =
     int (n_used ns) - (if hn_key_hash (ns ! r) \<noteq> 0 then 1 else 0) +
     (if hn_key_hash nd \<noteq> 0 then 1 else 0)"
  unfolding n_used_def by (rule filter_update_eq_length)

lemma n_live_le_used: "n_live ns \<le> n_used ns"
proof -
  have "live_node nd \<Longrightarrow> hn_key_hash nd \<noteq> 0" for nd :: "('a, 'b) T_KRHashNode"
    by (auto simp: live_node_def)
  then show ?thesis unfolding n_live_def n_used_def
    by (induction ns) auto
qed

lemma n_used_le_length: "n_used ns \<le> length ns"
  by (simp add: n_used_def)

context hash_key
begin

text \<open>Storing an entry in a slot that is free or already holds the key.\<close>

lemma put_ok:
  assumes ok: "nodes_ok hash eq n ns" and r: "r < 2 ^ n"
    and nd: "hn_key nd = Some k" "hn_key_hash nd = norm_hash (hash k)"
    and reach: "reach ns n (home n (norm_hash (hash k))) r"
    and alone: "\<And>i. i < 2 ^ n \<Longrightarrow> i \<noteq> r \<Longrightarrow> \<not> node_has eq k (ns ! i)"
  shows "nodes_ok hash eq n (ns[r := nd])"
proof -
  have len: "length ns = 2 ^ n" and uniq: "uniq_keys eq ns" using ok by (auto simp: nodes_ok_def)
  have nz: "hn_key_hash nd \<noteq> 0" using nd(2) norm_hash_gt1 [of "hash k"] by auto
  have other: False
    if "i < 2 ^ n" "i \<noteq> r" "live_node (ns ! i)" "hn_key (ns ! i) = Some k'" "eq k k' \<or> eq k' k"
    for i k'
    using alone [OF that(1,2)] that(3,4,5) eq_sym by (auto simp: node_has_def)
  have "uniq_keys eq (ns[r := nd])"
    unfolding uniq_keys_def
  proof (intro allI impI)
    fix i j k1 k2
    assume a: "i < length (ns[r := nd])" "j < length (ns[r := nd])"
      "live_node (ns[r := nd] ! i)" "live_node (ns[r := nd] ! j)"
      "hn_key (ns[r := nd] ! i) = Some k1" "hn_key (ns[r := nd] ! j) = Some k2" "eq k1 k2"
    show "i = j"
      using a len nd(1) uniq other [of i k1] other [of j k2]
      by (cases "i = r"; cases "j = r") (auto simp: uniq_keys_def)
  qed
  moreover have "\<exists>k. hn_key (ns[r := nd] ! i) = Some k \<and>
      hn_key_hash (ns[r := nd] ! i) = norm_hash (hash k) \<and>
      reach (ns[r := nd]) n (home n (norm_hash (hash k))) i"
    if "i < 2 ^ n" "live_node (ns[r := nd] ! i)" for i
  proof (cases "i = r")
    case True
    with that len nd reach show ?thesis
      by (auto intro: reach_mono [OF _ used_update [OF len nz]])
  next
    case False
    with that ok obtain k' where "hn_key (ns ! i) = Some k'"
        "hn_key_hash (ns ! i) = norm_hash (hash k')" "reach ns n (home n (norm_hash (hash k'))) i"
      by (auto simp: nodes_ok_def)
    with False show ?thesis by (auto intro: reach_mono [OF _ used_update [OF len nz]])
  qed
  ultimately show ?thesis using len by (simp add: nodes_ok_def)
qed

lemma put_map:
  assumes ok': "nodes_ok hash eq n (ns[r := nd])" and r: "r < 2 ^ n" and len: "length ns = 2 ^ n"
    and nd: "hn_key nd = Some k" "live_node nd"
    and old: "live_node (ns ! r) \<Longrightarrow> \<exists>ko. hn_key (ns ! r) = Some ko \<and> eq ko k"
  shows "nodes_map eq (ns[r := nd]) x = (if eq k x then Some (hn_value nd) else nodes_map eq ns x)"
proof (cases "eq k x")
  case True
  then have "node_has eq x (ns[r := nd] ! r)" using nd r len by (simp add: node_has_def)
  with True ok' r len nodes_map_unique [of "ns[r := nd]" r x] show ?thesis
    by (simp add: nodes_ok_def)
next
  case False
  have "\<not> node_has eq x (ns ! r)"
  proof
    assume "node_has eq x (ns ! r)"
    then obtain k' where "live_node (ns ! r)" "hn_key (ns ! r) = Some k'" "eq k' x"
      by (rule node_hasE)
    with old have "eq k' k" by auto
    then have "eq k x" using \<open>eq k' x\<close> eq_sym eq_trans by blast
    with False show False by simp
  qed
  moreover have "\<not> node_has eq x nd" using False nd by (simp add: node_has_def)
  ultimately show ?thesis
    using False r len by (simp add: nodes_map_def find_update_irrelevant)
qed

text \<open>Erecting a tombstone over an entry.\<close>

lemma tombstone_ok:
  assumes ok: "nodes_ok hash eq n ns" and r: "r < 2 ^ n"
    and nd: "hn_key_hash nd = 1"
  shows "nodes_ok hash eq n (ns[r := nd])"
proof -
  have len: "length ns = 2 ^ n" using ok by (simp add: nodes_ok_def)
  have nz: "hn_key_hash nd \<noteq> 0" using nd by simp
  have dead: "\<not> live_node nd" using nd by (simp add: live_node_def)
  have uniq: "uniq_keys eq ns" using ok by (simp add: nodes_ok_def)
  have away: "i \<noteq> r" if "i < length ns" "live_node (ns[r := nd] ! i)" for i
    using that dead by auto
  have "uniq_keys eq (ns[r := nd])"
    unfolding uniq_keys_def
  proof (intro allI impI)
    fix i j k1 k2
    assume a: "i < length (ns[r := nd])" "j < length (ns[r := nd])"
      "live_node (ns[r := nd] ! i)" "live_node (ns[r := nd] ! j)"
      "hn_key (ns[r := nd] ! i) = Some k1" "hn_key (ns[r := nd] ! j) = Some k2" "eq k1 k2"
    with away [of i] away [of j] show "i = j"
      by (intro uniq_keysD [OF uniq, of i j k1 k2]) auto
  qed
  moreover have "\<exists>k. hn_key (ns[r := nd] ! i) = Some k \<and>
      hn_key_hash (ns[r := nd] ! i) = norm_hash (hash k) \<and>
      reach (ns[r := nd]) n (home n (norm_hash (hash k))) i"
    if "i < 2 ^ n" "live_node (ns[r := nd] ! i)" for i
  proof -
    have "i \<noteq> r" using that dead len by auto
    with that ok obtain k' where "hn_key (ns ! i) = Some k'"
        "hn_key_hash (ns ! i) = norm_hash (hash k')" "reach ns n (home n (norm_hash (hash k'))) i"
      by (auto simp: nodes_ok_def)
    with \<open>i \<noteq> r\<close> show ?thesis by (auto intro: reach_mono [OF _ used_update [OF len nz]])
  qed
  ultimately show ?thesis using len by (simp add: nodes_ok_def)
qed

lemma tombstone_map:
  assumes ok: "nodes_ok hash eq n ns" and r: "r < 2 ^ n"
    and nd: "hn_key_hash nd = 1" and has: "hn_key (ns ! r) = Some k" "live_node (ns ! r)"
  shows "nodes_map eq (ns[r := nd]) x = (if eq k x then None else nodes_map eq ns x)"
proof -
  have len: "length ns = 2 ^ n" and uniq: "uniq_keys eq ns" using ok by (auto simp: nodes_ok_def)
  have dead: "\<not> node_has eq x nd" using nd by (simp add: node_has_def live_node_def)
  show ?thesis
  proof (cases "eq k x")
    case True
    have "\<not> node_has eq x (ns[r := nd] ! i)" if "i < 2 ^ n" for i
    proof
      assume h: "node_has eq x (ns[r := nd] ! i)"
      then have "i \<noteq> r" using dead len that by auto
      with h obtain k' where k': "live_node (ns ! i)" "hn_key (ns ! i) = Some k'" "eq k' x"
        by (auto elim: node_hasE)
      have "eq k' k" using True k'(3) eq_sym eq_trans by blast
      with uniq_keysD [OF uniq, of i r k' k] k' has that r len have "i = r" by simp
      with \<open>i \<noteq> r\<close> show False by simp
    qed
    then have "nodes_map eq (ns[r := nd]) x = None"
      using len by (auto simp: nodes_map_None_iff in_set_conv_nth)
    with True show ?thesis by simp
  next
    case False
    then have "\<not> node_has eq x (ns ! r)" using has by (simp add: node_has_def)
    with False dead r len show ?thesis by (simp add: nodes_map_def find_update_irrelevant)
  qed
qed

end

section \<open>Resizing keeps the map\<close>

lemma resize_probe_spec:
  assumes "length ns = 2 ^ n" and "n \<le> 30" and "J < 2 ^ n" and "\<not> used ns (probe n h J)"
  shows "j \<le> J \<Longrightarrow> unat idx = probe n h j \<Longrightarrow> step = of_nat j \<Longrightarrow>
    \<exists>j' r. j \<le> j' \<and> j' \<le> J \<and> resize_probe ns (mask n) idx step = Some r \<and> unat r = probe n h j' \<and>
      (\<forall>i. j \<le> i \<and> i < j' \<longrightarrow> used ns (probe n h i)) \<and> \<not> used ns (probe n h j')"
proof (induction "J - j" arbitrary: j idx step)
  case 0
  then have jJ: "j = J" by simp
  with 0 assms have "resize_probe ns (mask n) idx step = Some idx"
    by (subst resize_probe.simps) (simp add: nth_opt_nth used_def)
  with 0 jJ assms(4) show ?case by (intro exI [of _ J] exI [of _ idx]) auto
next
  case (Suc d)
  have nth: "nth_opt ns (unat idx) = Some (ns ! probe n h j)"
    using Suc.prems(2) assms(1) by simp
  show ?case
  proof (cases "used ns (probe n h j)")
    case False
    then have "resize_probe ns (mask n) idx step = Some idx"
      by (subst resize_probe.simps) (auto simp: nth used_def)
    with Suc.prems False show ?thesis by (intro exI [of _ j] exI [of _ idx]) auto
  next
    case True
    let ?idx = "(idx + (step + 1)) AND mask n"
    have jn: "j < 2 ^ n" using Suc.prems(1) assms(3) by simp
    have idx': "unat ?idx = probe n h (Suc j)"
      by (rule probe_step_word [OF Suc.prems(2,3) assms(2) jn])
    have loop: "resize_probe ns (mask n) idx step = resize_probe ns (mask n) ?idx (step + 1)"
      using True by (subst resize_probe.simps) (auto simp: nth used_def)
    have "d = J - Suc j" and "Suc j \<le> J" and "step + 1 = of_nat (Suc j)"
      using Suc.hyps(2) Suc.prems(3) by auto
    from Suc.hyps(1) [OF this(1,2) idx' this(3)] obtain j' r where j': "Suc j \<le> j'" "j' \<le> J"
      "resize_probe ns (mask n) ?idx (step + 1) = Some r" "unat r = probe n h j'"
      "\<forall>i. Suc j \<le> i \<and> i < j' \<longrightarrow> used ns (probe n h i)" "\<not> used ns (probe n h j')"
      by blast
    have "\<forall>i. j \<le> i \<and> i < j' \<longrightarrow> used ns (probe n h i)"
      using j'(5) True by (metis Suc_leI le_neq_implies_less)
    with j' loop show ?thesis by (intro exI [of _ j'] exI [of _ r]) auto
  qed
qed

lemma uniq_keys_Cons:
  assumes "uniq_keys eq (a # xs)"
  shows "uniq_keys eq xs"
    and "live_node a \<Longrightarrow> hn_key a = Some k \<Longrightarrow> nd \<in> set xs \<Longrightarrow> live_node nd \<Longrightarrow>
         hn_key nd = Some k' \<Longrightarrow> \<not> eq k k'"
proof -
  show "uniq_keys eq xs"
    unfolding uniq_keys_def
  proof (intro allI impI)
    fix i j k k'
    assume "i < length xs" "j < length xs" "live_node (xs ! i)" "live_node (xs ! j)"
      "hn_key (xs ! i) = Some k" "hn_key (xs ! j) = Some k'" "eq k k'"
    with uniq_keysD [OF assms, of "Suc i" "Suc j" k k'] show "i = j" by simp
  qed
next
  assume a: "live_node a" "hn_key a = Some k" "nd \<in> set xs" "live_node nd" "hn_key nd = Some k'"
  then obtain i where "i < length xs" "xs ! i = nd" by (auto simp: in_set_conv_nth)
  with a uniq_keysD [OF assms, of 0 "Suc i" k k'] show "\<not> eq k k'" by auto
qed

definition hashed_nodes :: "('k \<Rightarrow> u32) \<Rightarrow> ('k, 'v) T_KRHashNode list \<Rightarrow> bool" where
  "hashed_nodes hf ns \<longleftrightarrow>
     (\<forall>nd \<in> set ns. live_node nd \<longrightarrow> (\<exists>k. hn_key nd = Some k \<and> hn_key_hash nd = norm_hash (hf k)))"

lemma nodes_map_Cons:
  "nodes_map eq (nd # ns) x =
     (if node_has eq x nd then Some (hn_value nd) else nodes_map eq ns x)"
  by (simp add: nodes_map_def)

context hash_key
begin

lemma copy_one:
  assumes ok: "nodes_ok hash eq n ns" and n: "n \<le> 30" and room: "n_used ns < 2 ^ n"
    and nd: "live_node nd" "hn_key nd = Some k" "hn_key_hash nd = norm_hash (hash k)"
    and fresh: "nodes_map eq ns k = None"
  shows "\<exists>r. resize_probe ns (mask n) (hn_key_hash nd mod word_of_int (prime_mod ! n)) 0 = Some r \<and>
    unat r < length ns \<and> \<not> used ns (unat r) \<and> nodes_ok hash eq n (ns[unat r := nd]) \<and>
    (\<forall>x. nodes_map eq (ns[unat r := nd]) x = (if eq k x then Some (hn_value nd) else nodes_map eq ns x))"
proof -
  let ?h = "home n (norm_hash (hash k))"
  have len: "length ns = 2 ^ n" using ok by (simp add: nodes_ok_def)
  from free_slot [OF room len] obtain J where J: "J < 2 ^ n" "\<not> used ns (probe n ?h J)" by blast
  have "unat (hn_key_hash nd mod word_of_int (prime_mod ! n)) = probe n ?h 0"
    using n by (simp add: nd(3) unat_home_index probe_0 home_less)
  from resize_probe_spec [OF len n J le0 this] obtain j' r where j': "j' \<le> J"
      "resize_probe ns (mask n) (hn_key_hash nd mod word_of_int (prime_mod ! n)) 0 = Some r"
      "unat r = probe n ?h j'" "\<forall>i < j'. used ns (probe n ?h i)" "\<not> used ns (probe n ?h j')"
    by auto
  have r: "unat r < 2 ^ n" by (simp add: j'(3))
  have dead: "\<not> live_node (ns ! unat r)" using j'(3,5) by (auto simp: used_def live_node_def)
  have reach: "reach ns n ?h (unat r)"
    unfolding reach_def using j'(1,3,4) J(1) by (intro exI [of _ j']) auto
  have alone: "\<not> node_has eq k (ns ! i)" if "i < 2 ^ n" for i
    using fresh that len by (auto simp: nodes_map_None_iff)
  have ok': "nodes_ok hash eq n (ns[unat r := nd])"
    by (rule put_ok [OF ok r nd(2,3) reach alone])
  have "nodes_map eq (ns[unat r := nd]) x = (if eq k x then Some (hn_value nd) else nodes_map eq ns x)" for x
    by (rule put_map [OF ok' r len nd(2,1)]) (use dead in simp)
  with j'(2,3,5) r len ok' show ?thesis by (intro exI [of _ r]) simp
qed

lemma resize_copy_spec:
  assumes "n \<le> 30"
  shows "nodes_ok hash eq n new \<Longrightarrow> hashed_nodes hash old \<Longrightarrow> uniq_keys eq old \<Longrightarrow>
    (\<forall>nd \<in> set old. \<forall>k. live_node nd \<and> hn_key nd = Some k \<longrightarrow> nodes_map eq new k = None) \<Longrightarrow>
    n_used new + n_live old < 2 ^ n \<Longrightarrow>
    \<exists>ns. resize_copy (prime_mod ! n) (mask n) old new = Some ns \<and> nodes_ok hash eq n ns \<and>
      n_live ns = n_live new + n_live old \<and> n_used ns = n_used new + n_live old \<and>
      (\<forall>x. nodes_map eq ns x =
         (case nodes_map eq old x of Some v \<Rightarrow> Some v | None \<Rightarrow> nodes_map eq new x))"
proof (induction old arbitrary: new)
  case Nil
  then show ?case by (simp add: n_live_def nodes_map_def)
next
  case (Cons nd rest)
  have hashed: "hashed_nodes hash rest" and uniq: "uniq_keys eq rest"
    using Cons.prems(2,3) uniq_keys_Cons(1) by (auto simp: hashed_nodes_def)
  show ?case
  proof (cases "live_node nd")
    case False
    then have "hn_key_hash nd \<le> 1" and "n_live (nd # rest) = n_live rest"
      and "\<And>x. nodes_map eq (nd # rest) x = nodes_map eq rest x"
      by (auto simp: live_node_def n_live_def nodes_map_Cons node_has_def)
    with Cons.IH [OF Cons.prems(1) hashed uniq] Cons.prems(4,5) show ?thesis by simp
  next
    case True
    then obtain k where k: "hn_key nd = Some k" "hn_key_hash nd = norm_hash (hash k)"
      using Cons.prems(2) by (auto simp: hashed_nodes_def)
    have nl: "n_live (nd # rest) = Suc (n_live rest)" using True by (simp add: n_live_def)
    have fresh: "nodes_map eq new k = None" using Cons.prems(4) True k(1) by simp
    from copy_one [OF Cons.prems(1) assms _ True k fresh] Cons.prems(5)
    obtain r where r: "resize_probe new (mask n) (hn_key_hash nd mod word_of_int (prime_mod ! n)) 0 = Some r"
        "unat r < length new" "\<not> used new (unat r)" "nodes_ok hash eq n (new[unat r := nd])"
        "\<forall>x. nodes_map eq (new[unat r := nd]) x = (if eq k x then Some (hn_value nd) else nodes_map eq new x)"
      by auto
    let ?new = "new[unat r := nd]"
    have differ: "\<not> eq k k'" if "nd' \<in> set rest" "live_node nd'" "hn_key nd' = Some k'" for nd' k'
      using uniq_keys_Cons(2) [OF Cons.prems(3) True k(1) that] .
    have nz: "hn_key_hash nd \<noteq> 0" and z: "hn_key_hash (new ! unat r) = 0" "\<not> live_node (new ! unat r)"
      using True r(3) by (auto simp: live_node_def used_def)
    have counts: "n_used ?new = Suc (n_used new)" "n_live ?new = Suc (n_live new)"
      using n_used_update [OF r(2), of nd] n_live_update [OF r(2), of nd] nz z True by simp_all
    have fresh': "\<forall>nd' \<in> set rest. \<forall>k'. live_node nd' \<and> hn_key nd' = Some k' \<longrightarrow> nodes_map eq ?new k' = None"
      using Cons.prems(4) r(5) differ by auto
    from Cons.IH [OF r(4) hashed uniq fresh'] counts Cons.prems(5) nl obtain ns where ns:
        "resize_copy (prime_mod ! n) (mask n) rest ?new = Some ns" "nodes_ok hash eq n ns"
        "n_live ns = n_live new + n_live (nd # rest)" "n_used ns = n_used new + n_live (nd # rest)"
        "\<forall>x. nodes_map eq ns x = (case nodes_map eq rest x of Some v \<Rightarrow> Some v | None \<Rightarrow> nodes_map eq ?new x)"
      by auto
    have "nodes_map eq rest x = None" if "eq k x" for x
      unfolding nodes_map_None_iff
    proof (intro ballI notI)
      fix nd' assume "nd' \<in> set rest" "node_has eq x nd'"
      with differ that show False by (metis node_hasE eq_sym eq_trans)
    qed
    then have maps: "nodes_map eq ns x =
        (case nodes_map eq (nd # rest) x of Some v \<Rightarrow> Some v | None \<Rightarrow> nodes_map eq new x)" for x
      using ns(5) r(5) True k(1) by (auto simp: nodes_map_Cons node_has_def split: option.split)
    have "resize_copy (prime_mod ! n) (mask n) (nd # rest) new = Some ns"
      using True r(1,2) ns(1) by (auto simp: live_node_def upd_opt_def)
    with ns(2-4) maps show ?thesis by (intro exI [of _ ns]) simp
  qed
qed

end

end
