(* ===== verification/KR_HashTable_Ops.thy ===== *)
theory KR_HashTable_Ops
  imports KR_HashTable_Map
begin

unbundle bit_operations_syntax

text \<open>
  Every operation of \<open>kr_hashtable.c\<close> that changes a table returns, keeps the invariant and
  performs the documented update of the map. The interface that the clients rely on is the locale
  \<open>kr_map\<close>, interpreted on the table's operations for every hash/equality pair that satisfies
  \<open>hash_key\<close>.
\<close>

lemma nodes_map_empty [simp]: "nodes_map eq (replicate m empty_node) x = None"
  by (auto simp: nodes_map_None_iff node_has_def live_node_def empty_node_def)

lemma n_live_empty [simp]: "n_live (replicate m empty_node) = 0"
  by (simp add: n_live_def live_node_def empty_node_def)

lemma n_used_empty [simp]: "n_used (replicate m empty_node) = 0"
  by (simp add: n_used_def empty_node_def)

lemma nodes_ok_empty: "nodes_ok hf eq n (replicate (2 ^ n) empty_node)"
  by (auto simp: nodes_ok_def uniq_keys_def live_node_def empty_node_def)

lemma nodes_ok_hashed: "nodes_ok hf eq n ns \<Longrightarrow> hashed_nodes hf ns"
  unfolding nodes_ok_def hashed_nodes_def by (metis in_set_conv_nth)

lemma set_shift_Some:
  assumes "n \<le> 30"
  shows "kr_hashtable_set_shift ht n =
    Some (ht\<lparr>ht_size := 2 ^ n, ht_mod := prime_mod ! n, ht_mask := mask n\<rparr>)"
proof -
  have "(2 :: int) ^ n \<le> 2 ^ 30" using assms by (intro power_increasing) auto
  moreover have "- (2 ^ 31) \<le> (2 :: int) ^ n" by (rule order_trans [of _ 0]) simp_all
  ultimately have "chk_int (2 ^ n) = Some (2 ^ n)" by simp
  then show ?thesis
    using assms by (simp add: kr_hashtable_set_shift_def nth_opt_nth length_prime_mod shift_mask_0)
qed

lemma set_shift_from_size_spec:
  assumes "0 \<le> w" and "w < 2 ^ 30"
  shows "\<exists>n. 3 \<le> n \<and> n \<le> 30 \<and> w < 2 ^ n \<and>
    kr_hashtable_set_shift_from_size ht w =
      Some (ht\<lparr>ht_size := 2 ^ n, ht_mod := prime_mod ! n, ht_mask := mask n\<rparr>)"
proof -
  from find_closest_shift_spec [OF assms(1)] obtain s where s:
      "kr_hashtable_find_closest_shift w = Some s" "w < 2 ^ s" "0 < w \<longrightarrow> 2 ^ s \<le> 2 * w"
    by blast
  let ?n = "max s 3"
  have "s \<le> 30" using shift_le_30 [OF assms s(3,1)] .
  then have n: "?n \<le> 30" by simp
  have "(2 :: int) ^ s \<le> 2 ^ ?n" by (intro power_increasing) auto
  with s(2) have "w < 2 ^ ?n" by linarith
  with n s(1) set_shift_Some [OF n, of ht] show ?thesis
    by (intro exI [of _ ?n])
       (simp add: kr_hashtable_set_shift_from_size_def HASH_TABLE_MIN_SHIFT_def)
qed

text \<open>The parts of the invariant a proof needs, in one place.\<close>

lemma ht_preE:
  assumes "ht_pre ht"
  obtains n where "3 \<le> n" "n \<le> 30" "ht_size ht = 2 ^ n" "ht_mod ht = prime_mod ! n"
    "ht_mask ht = mask n" "nodes_ok (ht_hash_func ht) (keq ht) n (ht_nodes ht)"
    "length (ht_nodes ht) = 2 ^ n"
    "ht_nnodes ht = int (n_live (ht_nodes ht))" "ht_noccupied ht = int (n_used (ht_nodes ht))"
    "ht_ref_count ht > 0"
  using assms by (auto simp: ht_pre_def nodes_ok_def)

lemma ht_okE:
  assumes "ht_ok ht"
  obtains n where "3 \<le> n" "n \<le> 30" "ht_size ht = 2 ^ n" "ht_mod ht = prime_mod ! n"
    "ht_mask ht = mask n" "nodes_ok (ht_hash_func ht) (keq ht) n (ht_nodes ht)"
    "length (ht_nodes ht) = 2 ^ n"
    "ht_nnodes ht = int (n_live (ht_nodes ht))" "ht_noccupied ht = int (n_used (ht_nodes ht))"
    "ht_ref_count ht > 0" "n_used (ht_nodes ht) < 2 ^ n"
  using assms by (auto simp: ht_ok_def elim!: ht_preE)

text \<open>A table of \<open>n\<close> entries that leaves room for one more without a signed overflow.\<close>

definition ht_room :: "('k, 'v) T_KRHashTable \<Rightarrow> bool" where
  "ht_room ht \<longleftrightarrow> ht_nnodes ht + 1 < 2 ^ 29"

context hash_key
begin

lemma resize_spec:
  assumes pre: "ht_pre ht" and hf: "ht_hash_func ht = hash" and kq: "keq ht = eq"
    and small: "ht_nnodes ht < 2 ^ 29"
  shows "\<exists>ht'. kr_hashtable_resize ht = Some ht' \<and> ht_ok ht' \<and> ht_map ht' = ht_map ht \<and>
    same_funcs ht ht' \<and> ht_nnodes ht' = ht_nnodes ht \<and> ht_destroyed ht' = ht_destroyed ht \<and>
    2 * ht_nnodes ht' < ht_size ht'"
proof -
  from pre obtain n where n: "n \<le> 30" "ht_size ht = 2 ^ n"
      "nodes_ok hash eq n (ht_nodes ht)" "length (ht_nodes ht) = 2 ^ n"
      "ht_nnodes ht = int (n_live (ht_nodes ht))" "ht_ref_count ht > 0"
    by (elim ht_preE) (auto simp: hf kq)
  let ?w = "ht_nnodes ht * 2"
  have w: "0 \<le> ?w" "?w < 2 ^ 30" using n(5) small by auto
  have chk: "chk_int ?w = Some ?w" using w by simp
  from set_shift_from_size_spec [OF w, of ht] obtain m where m: "3 \<le> m" "m \<le> 30" "?w < 2 ^ m"
      "kr_hashtable_set_shift_from_size ht ?w =
         Some (ht\<lparr>ht_size := 2 ^ m, ht_mod := prime_mod ! m, ht_mask := mask m\<rparr>)"
    by blast
  have fits: "n_live (ht_nodes ht) < 2 ^ m"
  proof -
    have "int (n_live (ht_nodes ht)) < 2 ^ m" using m(3) n(5) w(1) by linarith
    then show ?thesis by simp
  qed
  have uniq: "uniq_keys eq (ht_nodes ht)" using n(3) by (simp add: nodes_ok_def)
  from resize_copy_spec [OF m(2) nodes_ok_empty nodes_ok_hashed [OF n(3)] uniq] fits
  obtain ns where ns: "resize_copy (prime_mod ! m) (mask m) (ht_nodes ht) (replicate (2 ^ m) empty_node) = Some ns"
      "nodes_ok hash eq m ns" "n_live ns = n_live (ht_nodes ht)" "n_used ns = n_live (ht_nodes ht)"
      "\<forall>x. nodes_map eq ns x = (case nodes_map eq (ht_nodes ht) x of Some v \<Rightarrow> Some v
         | None \<Rightarrow> nodes_map eq (replicate (2 ^ m) empty_node) x)"
    by auto
  let ?ht' = "ht\<lparr>ht_size := 2 ^ m, ht_mod := prime_mod ! m, ht_mask := mask m,
    ht_nodes := ns, ht_noccupied := ht_nnodes ht\<rparr>"
  have "kr_hashtable_resize ht = Some ?ht'"
    using chk m(4) ns(1) n(2,4) by (simp add: kr_hashtable_resize_def nat_power_eq)
  moreover have kq': "keq ?ht' = eq" using kq by (simp add: keq_def)
  moreover have "ht_map ?ht' = ht_map ht"
  proof
    fix x show "ht_map ?ht' x = ht_map ht x"
      using ns(5) kq kq' by (simp add: ht_map_def split: option.split)
  qed
  moreover have "ht_ok ?ht'"
    using m(1,2,3) ns(2-4) n(5,6) hf w(1) kq' fits
    by (auto simp: ht_ok_def ht_pre_def)
  ultimately show ?thesis
    using m(3) by (intro exI [of _ ?ht']) (simp add: same_funcs_def)
qed

lemma maybe_resize_spec:
  assumes pre: "ht_pre ht" and hf: "ht_hash_func ht = hash" and kq: "keq ht = eq"
    and small: "ht_nnodes ht < 2 ^ 29"
  shows "\<exists>ht'. kr_hashtable_maybe_resize ht = Some ht' \<and> ht_ok ht' \<and> ht_map ht' = ht_map ht \<and>
    same_funcs ht ht' \<and> ht_nnodes ht' = ht_nnodes ht \<and> ht_destroyed ht' = ht_destroyed ht"
proof -
  from pre obtain n where n: "n \<le> 30" "ht_size ht = 2 ^ n" "length (ht_nodes ht) = 2 ^ n"
      "ht_nnodes ht = int (n_live (ht_nodes ht))" "ht_noccupied ht = int (n_used (ht_nodes ht))"
    by (elim ht_preE) auto
  have "(2 :: nat) ^ n \<le> 2 ^ 30" using n(1) by (intro power_increasing) auto
  then have "n_used (ht_nodes ht) \<le> 2 ^ 30"
    using n(3) n_used_le_length [of "ht_nodes ht"] by simp
  then have no: "0 \<le> ht_noccupied ht" "ht_noccupied ht \<le> 2 ^ 30" using n(5) by auto
  let ?lim = "ht_noccupied ht + tdiv (ht_noccupied ht) 16"
  have chk: "chk_int (ht_nnodes ht * 4) = Some (ht_nnodes ht * 4)" "chk_int ?lim = Some ?lim"
    using small n(4) no by (simp_all add: tdiv_nonneg)
  show ?thesis
  proof (cases "ht_size ht > ht_nnodes ht * 4 \<and> ht_size ht > 2 ^ HASH_TABLE_MIN_SHIFT \<or> ht_size ht \<le> ?lim")
    case True
    then have "kr_hashtable_maybe_resize ht = kr_hashtable_resize ht"
      using chk by (auto simp: kr_hashtable_maybe_resize_def Let_def)
    with resize_spec [OF assms] show ?thesis by auto
  next
    case False
    then have "kr_hashtable_maybe_resize ht = Some ht"
      using chk by (auto simp: kr_hashtable_maybe_resize_def Let_def)
    moreover have "ht_ok ht"
      using False pre no pos_imp_zdiv_nonneg_iff [of 16 "ht_noccupied ht"]
      by (simp add: ht_ok_def tdiv_nonneg)
    ultimately show ?thesis by simp
  qed
qed

end

section \<open>Creation\<close>

lemma new_full_spec:
  fixes ph :: "'k \<Rightarrow> u32"
  shows "\<exists>ht :: ('k, 'v) T_KRHashTable. kr_hashtable_new_full ph hf eqf kd vd = Some ht \<and> ht_ok ht \<and>
    ht_map ht = (\<lambda>_. None) \<and> ht_nnodes ht = 0 \<and>
    ht_hash_func ht = (case hf of Some f \<Rightarrow> f | None \<Rightarrow> ph) \<and> ht_key_equal_func ht = eqf \<and>
    ht_key_destroy_func ht = kd \<and> ht_value_destroy_func ht = vd \<and> ht_destroyed ht = []"
proof -
  have set3: "kr_hashtable_set_shift ht 3 =
      Some (ht\<lparr>ht_size := 2 ^ 3, ht_mod := prime_mod ! 3, ht_mask := mask 3\<rparr>)"
    for ht :: "('k, 'v) T_KRHashTable"
    by (rule set_shift_Some) simp
  have ok: "nodes_ok h e 3 (replicate 8 empty_node)" for h :: "'k \<Rightarrow> u32" and e
    using nodes_ok_empty [of h e 3] by simp
  show ?thesis
    unfolding kr_hashtable_new_full_def HASH_TABLE_MIN_SHIFT_def
    by (auto simp: Let_def set3 ht_ok_def ht_pre_def ht_map_def fun_eq_iff
             intro!: exI [of _ "3 :: nat"] ok)
qed

section \<open>Insertion\<close>

context hash_key
begin

lemma insertion_node_spec:
  assumes ok: "ht_ok ht" and hf: "ht_hash_func ht = hash" and kq: "keq ht = eq"
    and n: "n \<le> 30" "ht_mod ht = prime_mod ! n" "ht_mask ht = mask n"
      "nodes_ok hash eq n (ht_nodes ht)" "n_used (ht_nodes ht) < 2 ^ n"
  shows "\<exists>r. kr_hashtable_lookup_node_for_insertion ht k = Some (r, norm_hash (hash k)) \<and>
    unat r < 2 ^ n \<and> reach (ht_nodes ht) n (home n (norm_hash (hash k))) (unat r) \<and>
    (if live_node (ht_nodes ht ! unat r) then node_has eq k (ht_nodes ht ! unat r)
     else ht_map ht k = None)"
proof -
  let ?ns = "ht_nodes ht" and ?hv = "norm_hash (hash k)"
  let ?h = "home n ?hv"
  have len: "length ?ns = 2 ^ n" using n(4) by (simp add: nodes_ok_def)
  from free_slot [OF n(5) len] obtain J where J: "J < 2 ^ n" "\<not> used ?ns (probe n ?h J)" by blast
  have step0: "(0 :: u32) = of_nat 0" by simp
  have tomb0: "\<forall>t. None = Some t \<longrightarrow>
      (\<exists>i < 0. unat (t :: u32) = probe n ?h i \<and> hn_key_hash (?ns ! unat t) = 1)" by simp
  from insertion_loop_spec [OF len n(3,1) J le0 home_index_eq [OF n(1,2)] step0 tomb0, of k ?hv]
  obtain j' r where j': "j' \<le> J"
      "lookup_node_for_insertion_loop ht k ?hv (home_index ht ?hv) 0 None = Some r"
      "\<forall>i < j'. used ?ns (probe n ?h i) \<and> \<not> hit ht k ?hv (probe n ?h i)"
      "used ?ns (probe n ?h j') \<and> hit ht k ?hv (probe n ?h j') \<and> unat r = probe n ?h j' \<or>
       \<not> used ?ns (probe n ?h j') \<and> (unat r = probe n ?h j' \<or>
          (\<exists>i < j'. unat r = probe n ?h i \<and> hn_key_hash (?ns ! unat r) = 1))"
    by auto
  have call: "kr_hashtable_lookup_node_for_insertion ht k = Some (r, ?hv)"
    using j'(2) by (simp add: kr_hashtable_lookup_node_for_insertion_def hash_value_norm hf)
  have nohit: "\<not> node_has eq k (?ns ! probe n ?h i)" if "i < j'" for i
    using j'(3) that live_reach(1) [OF n(4) probe_less] by (auto simp: hit_iff norm_hash_gt1 kq)
  have reach: "reach ?ns n ?h (unat r)"
    using j'(4)
  proof (elim disjE conjE exE)
    fix i assume "i < j'" "unat r = probe n ?h i"
    then show ?thesis unfolding reach_def using j'(1,3) J(1) by (intro exI [of _ i]) auto
  qed (use j'(1,3) J(1) in \<open>auto simp: reach_def intro!: exI [of _ j']\<close>)
  have r: "unat r < 2 ^ n" using j'(4) by auto
  show ?thesis
  proof (cases "used ?ns (probe n ?h j')")
    case True
    with j'(4) have "node_has eq k (?ns ! unat r)" by (auto simp: hit_iff norm_hash_gt1 kq)
    with call reach r show ?thesis by (auto simp: node_has_def)
  next
    case False
    from no_hit_absent [OF n(4) False refl nohit] have "ht_map ht k = None"
      by (simp add: ht_map_def kq)
    moreover have "\<not> live_node (?ns ! unat r)"
      using j'(4) False by (auto simp: live_node_def used_def)
    ultimately show ?thesis using call reach r by auto
  qed
qed

text \<open>Overwriting the entry of a key that is present.\<close>

lemma overwrite_node:
  assumes ok: "nodes_ok hash eq n ns" and r: "r < 2 ^ n" and has: "node_has eq k (ns ! r)"
    and nd: "hn_key nd = Some k1" "hn_value nd = v" "hn_key_hash nd = hn_key_hash (ns ! r)"
    and k1: "k1 = k \<or> hn_key (ns ! r) = Some k1"
  shows "nodes_ok hash eq n (ns[r := nd])"
    and "nodes_map eq (ns[r := nd]) x = (if eq k x then Some v else nodes_map eq ns x)"
    and "n_live (ns[r := nd]) = n_live ns" and "n_used (ns[r := nd]) = n_used ns"
proof -
  have len: "length ns = 2 ^ n" and uniq: "uniq_keys eq ns" using ok by (auto simp: nodes_ok_def)
  from has obtain ko where ko: "live_node (ns ! r)" "hn_key (ns ! r) = Some ko" "eq ko k"
    by (rule node_hasE)
  have k1ko: "eq ko k1" if "k1 = k" using that ko(3) by simp
  have rel: "eq k1 y \<longleftrightarrow> eq k y" for y
    using k1 ko(2,3) eq_sym eq_trans by (metis option.inject)
  have hk: "hash k1 = hash k" using k1 ko(2,3) eq_hash by (metis option.inject)
  have h: "hn_key_hash nd = norm_hash (hash k1)" using live_reach(1) [OF ok r has] nd(3) hk by simp
  have live: "live_node nd" using ko(1) nd(3) by (simp add: live_node_def)
  have alone: "\<not> node_has eq k1 (ns ! i)" if i: "i < 2 ^ n" "i \<noteq> r" for i
  proof
    assume "node_has eq k1 (ns ! i)"
    then obtain k' where k': "live_node (ns ! i)" "hn_key (ns ! i) = Some k'" "eq k' k1"
      by (rule node_hasE)
    have "eq k k'" using rel [of k'] eq_sym [OF k'(3)] by simp
    then have "eq k' ko" using eq_trans [OF ko(3)] eq_sym by blast
    with uniq_keysD [OF uniq, of i r k' ko] k' ko i r len show False by simp
  qed
  show ok': "nodes_ok hash eq n (ns[r := nd])"
    using put_ok [OF ok r nd(1) h _ alone] live_reach(2) [OF ok r has] hk by simp
  have old: "\<exists>ko. hn_key (ns ! r) = Some ko \<and> eq ko k1"
    using ko(2,3) rel eq_sym by blast
  show "nodes_map eq (ns[r := nd]) x = (if eq k x then Some v else nodes_map eq ns x)"
    using put_map [OF ok' r len nd(1) live old] rel nd(2) by simp
  show "n_live (ns[r := nd]) = n_live ns" "n_used (ns[r := nd]) = n_used ns"
    using n_live_update [of r ns nd] n_used_update [of r ns nd] r len ko(1) live nd(3) by auto
qed

text \<open>Storing an entry in a free slot the insertion probe stopped at.\<close>

lemma fresh_node:
  assumes ok: "nodes_ok hash eq n ns" and r: "r < 2 ^ n" and dead: "\<not> live_node (ns ! r)"
    and absent: "nodes_map eq ns k = None" and reach: "reach ns n (home n (norm_hash (hash k))) r"
    and nd_def: "nd = \<lparr>hn_key = Some k, hn_value = v, hn_key_hash = norm_hash (hash k)\<rparr>"
  shows "nodes_ok hash eq n (ns[r := nd])"
    and "nodes_map eq (ns[r := nd]) x = (if eq k x then Some v else nodes_map eq ns x)"
    and "n_live (ns[r := nd]) = Suc (n_live ns)"
    and "n_used (ns[r := nd]) = (if hn_key_hash (ns ! r) = 0 then Suc (n_used ns) else n_used ns)"
proof -
  have len: "length ns = 2 ^ n" using ok by (auto simp: nodes_ok_def)
  have live: "live_node nd" using norm_hash_gt1 by (simp add: live_node_def nd_def)
  have nz: "hn_key_hash nd \<noteq> 0" using live by (auto simp: live_node_def)
  have alone: "\<not> node_has eq k (ns ! i)" if "i < 2 ^ n" "i \<noteq> r" for i
    using absent that len by (auto simp: nodes_map_None_iff)
  have k: "hn_key nd = Some k" "hn_key_hash nd = norm_hash (hash k)" by (simp_all add: nd_def)
  show ok': "nodes_ok hash eq n (ns[r := nd])" by (rule put_ok [OF ok r k reach alone])
  show "nodes_map eq (ns[r := nd]) x = (if eq k x then Some v else nodes_map eq ns x)"
    using put_map [OF ok' r len k(1) live] dead by (simp add: nd_def)
  show "n_live (ns[r := nd]) = Suc (n_live ns)"
    using n_live_update [of r ns nd] r len live dead by simp
  show "n_used (ns[r := nd]) = (if hn_key_hash (ns ! r) = 0 then Suc (n_used ns) else n_used ns)"
    using n_used_update [of r ns nd] r len nz by (auto split: if_splits)
qed

lemma insert_internal_spec:
  assumes ok: "ht_ok ht" and hf: "ht_hash_func ht = hash" and kq: "keq ht = eq"
    and room: "ht_room ht"
  shows "\<exists>ht'. kr_hashtable_insert_internal ht k v keep = Some ht' \<and> ht_ok ht' \<and> same_funcs ht ht' \<and>
    ht_map ht' = (\<lambda>x. if eq k x then Some v else ht_map ht x) \<and>
    ht_nnodes ht' = ht_nnodes ht + (if ht_map ht k = None then 1 else 0)"
proof -
  from ok obtain n where n: "3 \<le> n" "n \<le> 30" "ht_size ht = 2 ^ n" "ht_mod ht = prime_mod ! n"
      "ht_mask ht = mask n" "nodes_ok hash eq n (ht_nodes ht)" "length (ht_nodes ht) = 2 ^ n"
      "ht_nnodes ht = int (n_live (ht_nodes ht))" "ht_noccupied ht = int (n_used (ht_nodes ht))"
      "ht_ref_count ht > 0" "n_used (ht_nodes ht) < 2 ^ n"
    by (elim ht_okE) (auto simp: hf kq)
  let ?ns = "ht_nodes ht" and ?hv = "norm_hash (hash k)"
  from insertion_node_spec [OF ok hf kq n(2,4,5,6,11), of k] obtain r where r:
      "kr_hashtable_lookup_node_for_insertion ht k = Some (r, ?hv)" "unat r < 2 ^ n"
      "reach ?ns n (home n ?hv) (unat r)"
      "if live_node (?ns ! unat r) then node_has eq k (?ns ! unat r) else ht_map ht k = None"
    by blast
  have nth: "nth_opt ?ns (unat r) = Some (?ns ! unat r)" using r(2) n(7) by simp
  show ?thesis
  proof (cases "live_node (?ns ! unat r)")
    case True
    with r(4) have has: "node_has eq k (?ns ! unat r)" by simp
    then obtain ko where ko: "hn_key (?ns ! unat r) = Some ko" by (rule node_hasE)
    define nd where "nd = (if keep then (?ns ! unat r)\<lparr>hn_key := Some k, hn_value := v\<rparr>
               else (?ns ! unat r)\<lparr>hn_value := v\<rparr>)"
    have nd: "hn_key nd = Some (if keep then k else ko)" "hn_value nd = v"
        "hn_key_hash nd = hn_key_hash (?ns ! unat r)"
      by (simp_all add: nd_def ko)
    have k1: "(if keep then k else ko) = k \<or> hn_key (?ns ! unat r) = Some (if keep then k else ko)"
      by (simp add: ko)
    note ow = overwrite_node [OF n(6) r(2) has nd k1]
    obtain ds where call: "kr_hashtable_insert_internal ht k v keep =
        Some (ht\<lparr>ht_nodes := ?ns[unat r := nd], ht_destroyed := ds\<rparr>)"
      using r(1) nth n(10) True
      by (simp add: kr_hashtable_insert_internal_def live_node_def Let_def nd_def [symmetric])
    let ?ht' = "ht\<lparr>ht_nodes := ?ns[unat r := nd], ht_destroyed := ds\<rparr>"
    have kq': "keq ?ht' = eq" using kq by (simp add: keq_def)
    have "ht_pre ?ht'"
      unfolding ht_pre_def using n(1-5,8-10) ow(1,3,4) hf kq' by auto
    then have "ht_ok ?ht'" using n(3,9,11) by (simp add: ht_ok_def)
    moreover have "ht_map ?ht' = (\<lambda>x. if eq k x then Some v else ht_map ht x)"
      using ow(2) kq kq' by (intro ext) (simp add: ht_map_def)
    moreover have "ht_map ht k \<noteq> None"
      using has r(2) n(7) kq by (auto simp: ht_map_def nodes_map_None_iff)
    ultimately show ?thesis using call by (simp add: same_funcs_def)
  next
    case False
    with r(4) have absent: "ht_map ht k = None" by simp
    then have absent': "nodes_map eq ?ns k = None" by (simp add: ht_map_def kq)
    note fr = fresh_node [OF n(6) r(2) False absent' r(3) refl, where v = v]
    let ?ns' = "?ns[unat r := \<lparr>hn_key = Some k, hn_value = v, hn_key_hash = ?hv\<rparr>]"
    have chk: "chk_int (ht_nnodes ht + 1) = Some (ht_nnodes ht + 1)"
      using room n(8) by (simp add: ht_room_def)
    let ?ht1 = "ht\<lparr>ht_nodes := ?ns', ht_nnodes := ht_nnodes ht + 1\<rparr>"
    have nlt: "\<not> 1 < hn_key_hash (?ns ! unat r)" using False by (simp add: live_node_def)
    show ?thesis
    proof (cases "hn_key_hash (?ns ! unat r) = 0")
      case True
      let ?ht2 = "?ht1\<lparr>ht_noccupied := ht_noccupied ht + 1\<rparr>"
      have kq2: "keq ?ht2 = eq" using kq by (simp add: keq_def)
      have "(2 :: nat) ^ n \<le> 2 ^ 30" using n(2) by (intro power_increasing) auto
      then have "chk_int (ht_noccupied ht + 1) = Some (ht_noccupied ht + 1)"
        using n(9,11) by simp
      with chk r(1) nth n(10) True have call:
          "kr_hashtable_insert_internal ht k v keep = kr_hashtable_maybe_resize ?ht2"
        by (simp add: kr_hashtable_insert_internal_def Let_def)
      have "ht_pre ?ht2"
        unfolding ht_pre_def using n(1-5,8-10) fr(1,3,4) True hf kq2 by auto
      moreover have "ht_nnodes ?ht2 < 2 ^ 29" using room by (simp add: ht_room_def)
      moreover have "ht_hash_func ?ht2 = hash" by (simp add: hf)
      ultimately obtain ht' where ht': "kr_hashtable_maybe_resize ?ht2 = Some ht'" "ht_ok ht'"
          "ht_map ht' = ht_map ?ht2" "same_funcs ?ht2 ht'" "ht_nnodes ht' = ht_nnodes ?ht2"
        using maybe_resize_spec [OF _ _ kq2] by metis
      have "same_funcs ht ht'" using ht'(4) by (simp add: same_funcs_def)
      moreover have "ht_map ?ht2 = (\<lambda>x. if eq k x then Some v else ht_map ht x)"
        using fr(2) kq kq2 by (intro ext) (simp add: ht_map_def)
      ultimately show ?thesis using call ht' absent by simp
    next
      case old: False
      have call: "kr_hashtable_insert_internal ht k v keep = Some ?ht1"
        using chk r(1) nth n(10) old nlt by (simp add: kr_hashtable_insert_internal_def Let_def)
      have kq1: "keq ?ht1 = eq" using kq by (simp add: keq_def)
      have "ht_pre ?ht1"
        unfolding ht_pre_def using n(1-5,8-10) fr(1,3,4) old hf kq1 by auto
      then have "ht_ok ?ht1" using n(3,9,11) by (simp add: ht_ok_def)
      moreover have "ht_map ?ht1 = (\<lambda>x. if eq k x then Some v else ht_map ht x)"
        using fr(2) kq kq1 by (intro ext) (simp add: ht_map_def)
      ultimately show ?thesis using call absent by (simp add: same_funcs_def)
    qed
  qed
qed

end

section \<open>Removal\<close>

lemma ht_ok_size: "ht_ok ht \<Longrightarrow> length (ht_nodes ht) = nat (ht_size ht) \<and> 8 \<le> ht_size ht"
proof -
  assume "ht_ok ht"
  then obtain n where n: "3 \<le> n" "ht_size ht = 2 ^ n" "length (ht_nodes ht) = 2 ^ n"
    by (rule ht_okE)
  have "(2 :: int) ^ 3 \<le> 2 ^ n" using n(1) by (intro power_increasing) auto
  with n show ?thesis by (simp add: nat_power_eq)
qed

context hash_key
begin

lemma absent_related:
  assumes none: "ht_map ht k = None" and kq: "keq ht = eq" and kx: "eq k x"
  shows "ht_map ht x = None"
  unfolding ht_map_def nodes_map_None_iff kq
proof (intro ballI notI)
  fix nd assume nd: "nd \<in> set (ht_nodes ht)" and "node_has eq x nd"
  then obtain k' where k': "live_node nd" "hn_key nd = Some k'" "eq k' x" by (auto elim: node_hasE)
  have "eq k' k" by (rule eq_trans [OF k'(3) eq_sym [OF kx]])
  with k' have "node_has eq k nd" by (simp add: node_has_def)
  with none nd show False by (simp add: ht_map_def nodes_map_None_iff kq)
qed

lemma remove_node_spec:
  assumes ok: "ht_ok ht" and hf: "ht_hash_func ht = hash" and kq: "keq ht = eq"
    and i: "i < length (ht_nodes ht)" and live: "live_node (ht_nodes ht ! i)"
  shows "\<exists>ht' k. kr_hashtable_remove_node ht i notify = Some ht' \<and> ht_ok ht' \<and> same_funcs ht ht' \<and>
    ht_size ht' = ht_size ht \<and> hn_key (ht_nodes ht ! i) = Some k \<and>
    ht_nodes ht' = (ht_nodes ht)[i := \<lparr>hn_key = None, hn_value = None, hn_key_hash = 1\<rparr>] \<and>
    ht_map ht' = (\<lambda>x. if eq k x then None else ht_map ht x) \<and> ht_nnodes ht' = ht_nnodes ht - 1 \<and>
    ht_destroyed ht' = ht_destroyed ht @ notify_destroy ht notify (ht_nodes ht ! i)"
proof -
  from ok obtain n where n: "3 \<le> n" "n \<le> 30" "ht_size ht = 2 ^ n" "ht_mod ht = prime_mod ! n"
      "ht_mask ht = mask n" "nodes_ok hash eq n (ht_nodes ht)" "length (ht_nodes ht) = 2 ^ n"
      "ht_nnodes ht = int (n_live (ht_nodes ht))" "ht_noccupied ht = int (n_used (ht_nodes ht))"
      "ht_ref_count ht > 0" "n_used (ht_nodes ht) < 2 ^ n"
    by (elim ht_okE) (auto simp: hf kq)
  let ?ns = "ht_nodes ht" and ?nd = "\<lparr>hn_key = None, hn_value = None, hn_key_hash = 1\<rparr>"
  have i': "i < 2 ^ n" using i n(7) by simp
  obtain k where k: "hn_key (?ns ! i) = Some k" using n(6) i' live by (auto simp: nodes_ok_def)
  have ok': "nodes_ok hash eq n (?ns[i := ?nd])" by (rule tombstone_ok [OF n(6) i']) simp
  have map': "nodes_map eq (?ns[i := ?nd]) x = (if eq k x then None else nodes_map eq ?ns x)" for x
    by (rule tombstone_map [OF n(6) i' _ k live]) simp
  have cnt: "int (n_live (?ns[i := ?nd])) = ht_nnodes ht - 1" "n_used (?ns[i := ?nd]) = n_used ?ns"
    using n_live_update [OF i, of ?nd] n_used_update [OF i, of ?nd] live n(8)
    by (auto simp: live_node_def split: if_splits)
  have "n_live ?ns \<le> n_used ?ns" by (rule n_live_le_used)
  moreover have "(2 :: nat) ^ n \<le> 2 ^ 30" using n(2) by (intro power_increasing) auto
  ultimately have "chk_int (ht_nnodes ht - 1) = Some (ht_nnodes ht - 1)"
    using n(8,11) cnt(1) by simp
  then have call: "kr_hashtable_remove_node ht i notify =
      Some (ht\<lparr>ht_destroyed := ht_destroyed ht @ notify_destroy ht notify (?ns ! i),
               ht_nodes := ?ns[i := ?nd], ht_nnodes := ht_nnodes ht - 1\<rparr>)"
    using i by (simp add: kr_hashtable_remove_node_def)
  let ?ht' = "ht\<lparr>ht_destroyed := ht_destroyed ht @ notify_destroy ht notify (?ns ! i),
               ht_nodes := ?ns[i := ?nd], ht_nnodes := ht_nnodes ht - 1\<rparr>"
  have kq': "keq ?ht' = eq" using kq by (simp add: keq_def)
  have "ht_pre ?ht'" unfolding ht_pre_def using n(1-5,9,10) ok' cnt hf kq' by auto
  then have "ht_ok ?ht'" using n(3,9,11) by (simp add: ht_ok_def)
  moreover have "ht_map ?ht' = (\<lambda>x. if eq k x then None else ht_map ht x)"
    using map' kq kq' by (intro ext) (simp add: ht_map_def)
  ultimately show ?thesis using call k
    by (intro exI [of _ ?ht'] exI [of _ k]) (simp add: same_funcs_def)
qed

text \<open>
  Removing a key: the result says whether the key was there, and the destroy functions are called
  exactly for the node that held it.
\<close>

lemma remove_internal_spec:
  assumes ok: "ht_ok ht" and hf: "ht_hash_func ht = hash" and kq: "keq ht = eq"
    and small: "ht_nnodes ht < 2 ^ 29"
  shows "\<exists>ht'. kr_hashtable_remove_internal (Some ht) k notify =
      Some (ht_map ht k \<noteq> None, Some ht') \<and> ht_ok ht' \<and> same_funcs ht ht' \<and>
    ht_map ht' = (\<lambda>x. if eq k x then None else ht_map ht x) \<and>
    ht_nnodes ht' = ht_nnodes ht - (if ht_map ht k = None then 0 else 1) \<and>
    (if ht_map ht k = None then ht_destroyed ht' = ht_destroyed ht
     else \<exists>nd \<in> set (ht_nodes ht). node_has eq k nd \<and>
            ht_destroyed ht' = ht_destroyed ht @ notify_destroy ht notify nd)"
proof -
  from lookup_node_correct [OF ok hf kq, of k] obtain r where r:
      "kr_hashtable_lookup_node ht k = Some r" "unat r < length (ht_nodes ht)"
      "hn_key_hash (ht_nodes ht ! unat r) = 0 \<and> ht_map ht k = None \<or>
       node_has eq k (ht_nodes ht ! unat r) \<and> ht_map ht k = Some (hn_value (ht_nodes ht ! unat r))"
    by blast
  show ?thesis
  proof (cases "ht_map ht k = None")
    case True
    with r(3) have "hn_key_hash (ht_nodes ht ! unat r) = 0" by auto
    with r have call: "kr_hashtable_remove_internal (Some ht) k notify = Some (False, Some ht)"
      by (simp add: kr_hashtable_remove_internal_def)
    have "ht_map ht = (\<lambda>x. if eq k x then None else ht_map ht x)"
      using absent_related [OF True kq] by auto
    with call True ok show ?thesis by (intro exI [of _ ht]) simp
  next
    case False
    with r(3) have has: "node_has eq k (ht_nodes ht ! unat r)" by auto
    then have live: "live_node (ht_nodes ht ! unat r)" by (simp add: node_has_def)
    from remove_node_spec [OF ok hf kq r(2) live, of notify] obtain ht1 k1 where ht1:
        "kr_hashtable_remove_node ht (unat r) notify = Some ht1" "ht_ok ht1" "same_funcs ht ht1"
        "hn_key (ht_nodes ht ! unat r) = Some k1"
        "ht_map ht1 = (\<lambda>x. if eq k1 x then None else ht_map ht x)" "ht_nnodes ht1 = ht_nnodes ht - 1"
        "ht_destroyed ht1 = ht_destroyed ht @ notify_destroy ht notify (ht_nodes ht ! unat r)"
      by blast
    have k1: "eq k1 k" using has ht1(4) by (simp add: node_has_def)
    then have rel: "eq k1 x = eq k x" for x using eq_sym eq_trans by blast
    have "ht_pre ht1" "ht_hash_func ht1 = hash" "keq ht1 = eq" "ht_nnodes ht1 < 2 ^ 29"
      using ht1(2,3,6) small hf kq same_funcs_keq [OF ht1(3)] by (auto simp: ht_ok_def same_funcs_def)
    from maybe_resize_spec [OF this] obtain ht2 where ht2: "kr_hashtable_maybe_resize ht1 = Some ht2"
        "ht_ok ht2" "ht_map ht2 = ht_map ht1" "same_funcs ht1 ht2" "ht_nnodes ht2 = ht_nnodes ht1"
        "ht_destroyed ht2 = ht_destroyed ht1"
      by blast
    have "hn_key_hash (ht_nodes ht ! unat r) \<noteq> 0" using live by (auto simp: live_node_def)
    then have "kr_hashtable_remove_internal (Some ht) k notify = Some (True, Some ht2)"
      using r(1,2) ht1(1) ht2(1) by (simp add: kr_hashtable_remove_internal_def)
    moreover have "ht_nodes ht ! unat r \<in> set (ht_nodes ht)" using r(2) by simp
    ultimately show ?thesis
      using False has ht1 ht2 rel same_funcs_trans [OF ht1(3) ht2(4)]
      by (intro exI [of _ ht2]) auto
  qed
qed

lemma remove_all_nodes_spec:
  assumes ok: "ht_ok ht" and hf: "ht_hash_func ht = hash" and kq: "keq ht = eq"
  shows "\<exists>ht'. (do { ht1 \<leftarrow> kr_hashtable_remove_all_nodes ht notify; kr_hashtable_maybe_resize ht1 }) =
      Some ht' \<and> ht_ok ht' \<and> same_funcs ht ht' \<and> ht_map ht' = (\<lambda>_. None) \<and> ht_nnodes ht' = 0 \<and>
    ht_destroyed ht' = ht_destroyed ht @
      concat (map (notify_destroy ht notify) (filter live_node (ht_nodes ht)))"
proof -
  from ok obtain n where n: "3 \<le> n" "n \<le> 30" "ht_size ht = 2 ^ n" "ht_mod ht = prime_mod ! n"
      "ht_mask ht = mask n" "length (ht_nodes ht) = 2 ^ n" "ht_ref_count ht > 0"
    by (rule ht_okE)
  let ?ht1 = "ht\<lparr>ht_destroyed := ht_destroyed ht @
      concat (map (notify_destroy ht notify) (filter live_node (ht_nodes ht))),
    ht_nodes := replicate (2 ^ n) empty_node, ht_nnodes := 0, ht_noccupied := 0\<rparr>"
  have call: "kr_hashtable_remove_all_nodes ht notify = Some ?ht1"
    using n(3,6) by (simp add: kr_hashtable_remove_all_nodes_def Let_def nat_power_eq live_node_def [abs_def])
  have kq1: "keq ?ht1 = eq" using kq by (simp add: keq_def)
  have "ht_pre ?ht1"
    unfolding ht_pre_def using n(1-5,7) nodes_ok_empty [of hash eq n] hf kq1 by auto
  moreover have "ht_hash_func ?ht1 = hash" "ht_nnodes ?ht1 < 2 ^ 29" by (simp_all add: hf)
  ultimately obtain ht' where ht': "kr_hashtable_maybe_resize ?ht1 = Some ht'" "ht_ok ht'"
      "ht_map ht' = ht_map ?ht1" "same_funcs ?ht1 ht'" "ht_nnodes ht' = ht_nnodes ?ht1"
      "ht_destroyed ht' = ht_destroyed ?ht1"
    using maybe_resize_spec [OF _ _ kq1] by metis
  have "ht_map ?ht1 = (\<lambda>_. None)" by (intro ext) (simp add: ht_map_def)
  with call ht' show ?thesis by (simp add: same_funcs_def)
qed

end

section \<open>Iterating removal\<close>

text \<open>
  What a sweep does, on the entries in the order of their slots: the callback sees every entry once, with the state the one before
  left; the entries it answers true for are removed.
\<close>

primrec sweep :: "('k, 'v, 's) KRHRFunc \<Rightarrow> ('k, 'v) T_KRHashNode list \<Rightarrow> 's \<Rightarrow> ('k, 'v) T_KRHashNode list \<times> 's" where
  "sweep func [] s = ([], s)"
| "sweep func (nd # nds) s =
     (let (b, s1) = func (hn_key nd) (hn_value nd) s; (removed, s2) = sweep func nds s1
      in (if b then nd # removed else removed, s2))"

context hash_key
begin

lemma foreach_remove_loop_spec:
  assumes "ht_ok ht" and "ht_hash_func ht = hash" and "keq ht = eq"
    and "distinct ks" and "\<forall>i \<in> set ks. i < nat (ht_size ht) \<and> ht_nodes ht ! i = ns ! i"
  shows "case sweep func (filter live_node (map (nth ns) ks)) s of (removed, s') \<Rightarrow>
    \<exists>ht'. foreach_remove_loop func notify ks ht s d = Some (ht', s', d + of_nat (length removed)) \<and>
      ht_ok ht' \<and> same_funcs ht ht' \<and> ht_nnodes ht' = ht_nnodes ht - int (length removed) \<and>
      (\<forall>x. ht_map ht' x = (if \<exists>nd \<in> set removed. node_has eq x nd then None else ht_map ht x)) \<and>
      ht_destroyed ht' = ht_destroyed ht @ concat (map (notify_destroy ht notify) removed)"
  using assms
proof (induction ks arbitrary: ht s d)
  case Nil
  then show ?case by simp
next
  case (Cons i ks)
  have len: "length (ht_nodes ht) = nat (ht_size ht)" using ht_ok_size [OF Cons.prems(1)] by simp
  have i: "i < length (ht_nodes ht)" "ht_nodes ht ! i = ns ! i" using Cons.prems(5) len by simp_all
  let ?nd = "ns ! i"
  obtain b s1 where f: "func (hn_key ?nd) (hn_value ?nd) s = (b, s1)" by (cases "func (hn_key ?nd) (hn_value ?nd) s")
  show ?case
  proof (cases "live_node ?nd")
    case False
    then have "foreach_remove_loop func notify (i # ks) ht s d = foreach_remove_loop func notify ks ht s d"
      using i by (simp add: live_node_def)
    with Cons.IH [OF Cons.prems(1,2,3), of s d] Cons.prems(4,5) False show ?thesis by simp
  next
    case live: True
    obtain removed s' where sw: "sweep func (filter live_node (map (nth ns) ks)) s1 = (removed, s')" by force
    show ?thesis
    proof (cases b)
      case False
      then have "foreach_remove_loop func notify (i # ks) ht s d = foreach_remove_loop func notify ks ht s1 d"
        using i live f by (simp add: live_node_def)
      with Cons.IH [OF Cons.prems(1,2,3), of s1 d] Cons.prems(4,5) live False f sw show ?thesis by simp
    next
      case True
      from remove_node_spec [OF Cons.prems(1,2,3) i(1), of notify] live i(2) obtain ht1 k1 where ht1:
          "kr_hashtable_remove_node ht i notify = Some ht1" "ht_ok ht1" "same_funcs ht ht1" "hn_key ?nd = Some k1"
          "ht_nodes ht1 = (ht_nodes ht)[i := \<lparr>hn_key = None, hn_value = None, hn_key_hash = 1\<rparr>]"
          "ht_size ht1 = ht_size ht" "ht_map ht1 = (\<lambda>x. if eq k1 x then None else ht_map ht x)"
          "ht_nnodes ht1 = ht_nnodes ht - 1" "ht_destroyed ht1 = ht_destroyed ht @ notify_destroy ht notify ?nd"
        by auto
      have fs: "ht_hash_func ht1 = hash" "keq ht1 = eq"
        using ht1(3) Cons.prems(2,3) same_funcs_keq [OF ht1(3)] by (auto simp: same_funcs_def)
      have nd: "notify_destroy ht1 = notify_destroy ht" using ht1(3) by (intro ext) (simp add: notify_destroy_def same_funcs_def)
      have step: "foreach_remove_loop func notify (i # ks) ht s d = foreach_remove_loop func notify ks ht1 s1 (d + 1)"
        using i live True f ht1(1) by (simp add: live_node_def)
      have "\<forall>j \<in> set ks. j < nat (ht_size ht1) \<and> ht_nodes ht1 ! j = ns ! j"
        using Cons.prems(4,5) ht1(5,6) by (metis distinct.simps(2) list.set_intros(2) nth_list_update_neq)
      with Cons.IH [OF ht1(2) fs, of s1 "d + 1"] Cons.prems(4) sw obtain ht' where m:
          "foreach_remove_loop func notify ks ht1 s1 (d + 1) = Some (ht', s', d + 1 + of_nat (length removed))"
          "ht_ok ht'" "same_funcs ht1 ht'" "ht_nnodes ht' = ht_nnodes ht1 - int (length removed)"
          "\<forall>x. ht_map ht' x = (if \<exists>nd \<in> set removed. node_has eq x nd then None else ht_map ht1 x)"
          "ht_destroyed ht' = ht_destroyed ht1 @ concat (map (notify_destroy ht1 notify) removed)"
        by auto
      have "node_has eq x ?nd \<longleftrightarrow> eq k1 x" for x using live ht1(4) by (simp add: node_has_def)
      with step m ht1(7,8,9) nd sw f live True same_funcs_trans [OF ht1(3) m(3)] show ?thesis by (simp add: add.assoc)
    qed
  qed
qed

lemma foreach_remove_or_steal_spec:
  assumes ok: "ht_ok ht" and hf: "ht_hash_func ht = hash" and kq: "keq ht = eq"
    and small: "ht_nnodes ht < 2 ^ 29"
  shows "case sweep func (filter live_node (ht_nodes ht)) s of (removed, s') \<Rightarrow>
    \<exists>ht'. kr_hashtable_foreach_remove_or_steal ht func s notify = Some (of_nat (length removed), ht', s') \<and>
      ht_ok ht' \<and> same_funcs ht ht' \<and> ht_nnodes ht' = ht_nnodes ht - int (length removed) \<and>
      (\<forall>x. ht_map ht' x = (if \<exists>nd \<in> set removed. node_has eq x nd then None else ht_map ht x)) \<and>
      ht_destroyed ht' = ht_destroyed ht @ concat (map (notify_destroy ht notify) removed)"
proof -
  obtain removed s' where sw: "sweep func (filter live_node (ht_nodes ht)) s = (removed, s')" by force
  have all: "map (nth (ht_nodes ht)) [0..<nat (ht_size ht)] = ht_nodes ht" using ht_ok_size [OF ok] by (metis map_nth)
  from foreach_remove_loop_spec [OF ok hf kq, where ks = "[0..<nat (ht_size ht)]" and ns = "ht_nodes ht" and func = func and s = s and notify = notify and d = 0] sw
  obtain ht1 where m: "foreach_remove_loop func notify [0..<nat (ht_size ht)] ht s 0 = Some (ht1, s', of_nat (length removed))"
      "ht_ok ht1" "same_funcs ht ht1" "ht_nnodes ht1 = ht_nnodes ht - int (length removed)"
      "\<forall>x. ht_map ht1 x = (if \<exists>nd \<in> set removed. node_has eq x nd then None else ht_map ht x)"
      "ht_destroyed ht1 = ht_destroyed ht @ concat (map (notify_destroy ht notify) removed)"
    by (auto simp: all)
  have "ht_pre ht1" "ht_hash_func ht1 = hash" "keq ht1 = eq" "ht_nnodes ht1 < 2 ^ 29"
    using m(2,3,4) small hf kq same_funcs_keq [OF m(3)] by (auto simp: ht_ok_def same_funcs_def)
  from maybe_resize_spec [OF this] obtain ht2 where ht2: "kr_hashtable_maybe_resize ht1 = Some ht2"
      "ht_ok ht2" "ht_map ht2 = ht_map ht1" "same_funcs ht1 ht2" "ht_nnodes ht2 = ht_nnodes ht1" "ht_destroyed ht2 = ht_destroyed ht1"
    by blast
  with m same_funcs_trans [OF m(3) ht2(4)] sw show ?thesis
    by (auto simp: kr_hashtable_foreach_remove_or_steal_def)
qed

end

section \<open>The interface of the table's clients\<close>

definition table_for :: "('k \<Rightarrow> u32) \<Rightarrow> ('k \<Rightarrow> 'k \<Rightarrow> bool) \<Rightarrow> ('k, 'v) T_KRHashTable \<Rightarrow> bool" where
  "table_for hf eqf ht \<longleftrightarrow> ht_ok ht \<and> ht_hash_func ht = hf \<and> keq ht = eqf"

lemma table_for_same_funcs:
  "table_for hf eqf ht \<Longrightarrow> same_funcs ht ht' \<Longrightarrow> ht_ok ht' \<Longrightarrow> table_for hf eqf ht'"
  using same_funcs_keq [of ht ht'] by (simp add: table_for_def same_funcs_def)

text \<open>
  \<open>kr_map\<close> is what a client of the hash table may rely on: the laws of lookup, insertion and
  removal over the map \<open>mp\<close>, for fewer than \<open>2 ^ 29\<close> entries. Nothing in it mentions nodes, probing
  or resizing.
\<close>

locale kr_map =
  fixes eqv :: "'k \<Rightarrow> 'k \<Rightarrow> bool"
    and ok :: "'t \<Rightarrow> bool"
    and mp :: "'t \<Rightarrow> 'k \<Rightarrow> 'v option option"
    and cnt :: "'t \<Rightarrow> int"
    and lkp :: "'t \<Rightarrow> 'k \<Rightarrow> 'v option option"
    and ins :: "'t \<Rightarrow> 'k \<Rightarrow> 'v option \<Rightarrow> 't option"
    and del :: "'t \<Rightarrow> 'k \<Rightarrow> (bool \<times> 't) option"
  assumes cnt_nonneg: "ok t \<Longrightarrow> 0 \<le> cnt t"
    and lkp_law: "ok t \<Longrightarrow> lkp t k = Some (null_if_absent (mp t k))"
    and ins_law: "ok t \<Longrightarrow> cnt t + 1 < 2 ^ 29 \<Longrightarrow>
      \<exists>t'. ins t k v = Some t' \<and> ok t' \<and> mp t' = (\<lambda>x. if eqv k x then Some v else mp t x) \<and>
        cnt t' = cnt t + (if mp t k = None then 1 else 0)"
    and del_law: "ok t \<Longrightarrow> cnt t < 2 ^ 29 \<Longrightarrow>
      \<exists>t'. del t k = Some (mp t k \<noteq> None, t') \<and> ok t' \<and>
        mp t' = (\<lambda>x. if eqv k x then None else mp t x) \<and>
        cnt t' = cnt t - (if mp t k = None then 0 else 1)"
begin

lemma lkp_inserted:
  assumes "ok t" and "cnt t + 1 < 2 ^ 29" and "ins t k v = Some t'"
  shows "lkp t' x = Some (if eqv k x then v else null_if_absent (mp t x))"
  using ins_law [OF assms(1,2), of k v] assms(3) by (auto simp: lkp_law null_if_absent_def)

lemma lkp_deleted:
  assumes "ok t" and "cnt t < 2 ^ 29" and "del t k = Some (b, t')" and "eqv k x"
  shows "lkp t' x = Some None"
  using del_law [OF assms(1,2), of k] assms(3,4) by (auto simp: lkp_law null_if_absent_def)

text \<open>A sequence of insertions: the last value stored under an equal key wins.\<close>

primrec ins_all :: "('k \<times> 'v option) list \<Rightarrow> 't \<Rightarrow> 't option" where
  "ins_all [] t = Some t"
| "ins_all (kv # kvs) t = do { t' \<leftarrow> ins t (fst kv) (snd kv); ins_all kvs t' }"

primrec upd_all :: "('k \<times> 'v option) list \<Rightarrow> ('k \<Rightarrow> 'v option option) \<Rightarrow> 'k \<Rightarrow> 'v option option" where
  "upd_all [] m = m"
| "upd_all (kv # kvs) m = upd_all kvs (\<lambda>x. if eqv (fst kv) x then Some (snd kv) else m x)"

lemma ins_all_law:
  "ok t \<Longrightarrow> cnt t + int (length kvs) < 2 ^ 29 \<Longrightarrow>
   \<exists>t'. ins_all kvs t = Some t' \<and> ok t' \<and> mp t' = upd_all kvs (mp t) \<and>
     cnt t' \<le> cnt t + int (length kvs)"
proof (induction kvs arbitrary: t)
  case Nil
  then show ?case by simp
next
  case (Cons kv kvs)
  from Cons.prems have "cnt t + 1 < 2 ^ 29" by simp
  from ins_law [OF Cons.prems(1) this, of "fst kv" "snd kv"] obtain t1 where t1:
      "ins t (fst kv) (snd kv) = Some t1" "ok t1"
      "mp t1 = (\<lambda>x. if eqv (fst kv) x then Some (snd kv) else mp t x)" "cnt t1 \<le> cnt t + 1"
    by auto
  from Cons.IH [OF t1(2)] t1(4) Cons.prems(2) obtain t' where
      "ins_all kvs t1 = Some t'" "ok t'" "mp t' = upd_all kvs (mp t1)" "cnt t' \<le> cnt t1 + int (length kvs)"
    by auto
  with t1 show ?case by auto
qed

end

definition ht_remove_step :: "('k, 'v) T_KRHashTable \<Rightarrow> 'k \<Rightarrow> (bool \<times> ('k, 'v) T_KRHashTable) option" where
  "ht_remove_step ht k = do {
     (b, r) \<leftarrow> kr_hashtable_remove (Some ht) k;
     ht' \<leftarrow> r;
     Some (b, ht')
   }"

sublocale hash_key \<subseteq> ht: kr_map eq "table_for hash eq" ht_map ht_nnodes
  "\<lambda>ht. kr_hashtable_lookup (Some ht)" kr_hashtable_insert ht_remove_step
proof
  fix t :: "('k, 'b) T_KRHashTable" and k v
  assume t: "table_for hash eq t"
  then have ok: "ht_ok t" "ht_hash_func t = hash" "keq t = eq" by (auto simp: table_for_def)
  show "0 \<le> ht_nnodes t" using ok(1) by (auto elim: ht_okE)
  show "kr_hashtable_lookup (Some t) k = Some (null_if_absent (ht_map t k))"
    by (rule lookup_correct [OF ok])
  show "\<exists>t'. kr_hashtable_insert t k v = Some t' \<and> table_for hash eq t' \<and>
      ht_map t' = (\<lambda>x. if eq k x then Some v else ht_map t x) \<and>
      ht_nnodes t' = ht_nnodes t + (if ht_map t k = None then 1 else 0)"
    if "ht_nnodes t + 1 < 2 ^ 29"
  proof -
    have "ht_room t" using that by (simp add: ht_room_def)
    from insert_internal_spec [OF ok this, of k v False] table_for_same_funcs [OF t] show ?thesis
      unfolding kr_hashtable_insert_def by blast
  qed
  show "\<exists>t'. ht_remove_step t k = Some (ht_map t k \<noteq> None, t') \<and> table_for hash eq t' \<and>
      ht_map t' = (\<lambda>x. if eq k x then None else ht_map t x) \<and>
      ht_nnodes t' = ht_nnodes t - (if ht_map t k = None then 0 else 1)"
    if "ht_nnodes t < 2 ^ 29"
  proof -
    from remove_internal_spec [OF ok that, of k True] obtain t' where t':
        "kr_hashtable_remove_internal (Some t) k True = Some (ht_map t k \<noteq> None, Some t')" "ht_ok t'"
        "same_funcs t t'" "ht_map t' = (\<lambda>x. if eq k x then None else ht_map t x)"
        "ht_nnodes t' = ht_nnodes t - (if ht_map t k = None then 0 else 1)"
      by blast
    with table_for_same_funcs [OF t] show ?thesis
      by (simp add: ht_remove_step_def kr_hashtable_remove_def)
  qed
qed

end
