(* ===== verification/KR_Types.thy ===== *)
theory KR_Types
  imports KR_String KR_HashTable_Ops
begin

text \<open>
  \<open>krutils/kr_types.h\<close>: the types and values every component exchanges, and the hash and equality
  functions the hash tables are created with. A \<open>const void *\<close> key is modelled by the object it
  points to (\<open>kr_key\<close>); the pointer keys are the addresses themselves. Each typed hash/equality pair
  interprets \<open>hash_key\<close>, so the laws of \<open>kr_map\<close> hold for the tables of every key type.
\<close>

section \<open>Types and values\<close>

datatype E_KRType =
    KR_TYPE_BOOL | KR_TYPE_CHAR | KR_TYPE_INT | KR_TYPE_LONG | KR_TYPE_DOUBLE | KR_TYPE_STRING
  | KR_TYPE_POINTER | KR_TYPE_UNKNOWN

text \<open>
  The union \<open>U_KRValue\<close> as the member written last; \<open>V_zero\<close> is the all-zero union of \<open>kr_calloc\<close>.
  Reading a member other than the one written last has no defined value. \<open>'p\<close> is what a
  \<open>kr_pointer\<close> can point to.
\<close>

datatype 'p U_KRValue =
    V_zero | V_b i32 | V_c u8 | V_i i32 | V_l i64 | V_d kr_double | V_s "string option" | V_p "'p option"

datatype E_KRValueInd = KR_VALUE_UNSET | KR_VALUE_SETED

fun get_b :: "'p U_KRValue \<Rightarrow> i32 option" where
  "get_b (V_b w) = Some w" | "get_b V_zero = Some 0" | "get_b _ = None"

fun get_i :: "'p U_KRValue \<Rightarrow> i32 option" where
  "get_i (V_i w) = Some w" | "get_i V_zero = Some 0" | "get_i _ = None"

fun get_l :: "'p U_KRValue \<Rightarrow> i64 option" where
  "get_l (V_l w) = Some w" | "get_l V_zero = Some 0" | "get_l _ = None"

fun get_d :: "'p U_KRValue \<Rightarrow> kr_double option" where
  "get_d (V_d d) = Some d" | "get_d V_zero = Some (Fin 0)" | "get_d _ = None"

fun get_s :: "'p U_KRValue \<Rightarrow> string option option" where
  "get_s (V_s s) = Some s" | "get_s V_zero = Some None" | "get_s _ = None"

fun get_p :: "'p U_KRValue \<Rightarrow> 'p option option" where
  "get_p (V_p p) = Some p" | "get_p V_zero = Some None" | "get_p _ = None"

section \<open>Keys\<close>

datatype kr_key = KInt i32 | KLong i64 | KDouble kr_double | KStr string | KPtr u64

text \<open>
  The conversion of a double to \<open>unsigned int\<close> is defined for truncated values in \<open>[0, 2 ^ 32)\<close>.
  Outside, the model takes what x86-64 code computes: the low half of the conversion to a 64-bit
  integer, which is \<open>0x8000000000000000\<close> when that does not fit either.
\<close>

definition double_to_uint :: "kr_double \<Rightarrow> u32" where
  "double_to_uint d = (case d_to_i64 d of Some n \<Rightarrow> word_of_int n | None \<Rightarrow> 0)"

fun kr_int_hash :: "kr_key \<Rightarrow> u32" where
  "kr_int_hash (KInt w) = w" | "kr_int_hash _ = 0"

fun kr_long_hash :: "kr_key \<Rightarrow> u32" where
  "kr_long_hash (KLong w) = ucast w" | "kr_long_hash _ = 0"

fun kr_double_hash :: "kr_key \<Rightarrow> u32" where
  "kr_double_hash (KDouble d) = double_to_uint d" | "kr_double_hash _ = 0"

fun kr_str_hash :: "kr_key \<Rightarrow> u32" where
  "kr_str_hash (KStr s) = kr_string_hash s" | "kr_str_hash _ = 0"

fun kr_pointer_hash :: "kr_key \<Rightarrow> u32" where
  "kr_pointer_hash (KPtr p) = ucast p" | "kr_pointer_hash _ = 0"

fun kr_int_equal :: "kr_key \<Rightarrow> kr_key \<Rightarrow> bool" where
  "kr_int_equal (KInt a) (KInt b) = (a = b)" | "kr_int_equal _ _ = False"

fun kr_long_equal :: "kr_key \<Rightarrow> kr_key \<Rightarrow> bool" where
  "kr_long_equal (KLong a) (KLong b) = (a = b)" | "kr_long_equal _ _ = False"

fun kr_double_equal :: "kr_key \<Rightarrow> kr_key \<Rightarrow> bool" where
  "kr_double_equal (KDouble a) (KDouble b) = d_eq a b" | "kr_double_equal _ _ = False"

fun kr_str_equal :: "kr_key \<Rightarrow> kr_key \<Rightarrow> bool" where
  "kr_str_equal (KStr a) (KStr b) = kr_string_equal a b" | "kr_str_equal _ _ = False"

fun kr_pointer_equal :: "kr_key \<Rightarrow> kr_key \<Rightarrow> bool" where
  "kr_pointer_equal (KPtr a) (KPtr b) = (a = b)" | "kr_pointer_equal _ _ = False"

section \<open>The dispatchers\<close>

fun kr_get_hash_func :: "E_KRType \<Rightarrow> (kr_key \<Rightarrow> u32) option" where
  "kr_get_hash_func KR_TYPE_INT = Some kr_int_hash"
| "kr_get_hash_func KR_TYPE_LONG = Some kr_long_hash"
| "kr_get_hash_func KR_TYPE_DOUBLE = Some kr_double_hash"
| "kr_get_hash_func KR_TYPE_STRING = Some kr_str_hash"
| "kr_get_hash_func KR_TYPE_POINTER = Some kr_pointer_hash"
| "kr_get_hash_func _ = None"

fun kr_get_equal_func :: "E_KRType \<Rightarrow> (kr_key \<Rightarrow> kr_key \<Rightarrow> bool) option" where
  "kr_get_equal_func KR_TYPE_INT = Some kr_int_equal"
| "kr_get_equal_func KR_TYPE_LONG = Some kr_long_equal"
| "kr_get_equal_func KR_TYPE_DOUBLE = Some kr_double_equal"
| "kr_get_equal_func KR_TYPE_STRING = Some kr_str_equal"
| "kr_get_equal_func KR_TYPE_POINTER = Some kr_pointer_equal"
| "kr_get_equal_func _ = None"

text \<open>
  The typed duplicate functions read the key as an object of their type and return a fresh copy of
  it (\<open>kr_pointer_dup\<close> returns the pointer it was given); a key of another type is misread.
\<close>

fun kr_int_dup :: "kr_key \<Rightarrow> kr_key option" where
  "kr_int_dup (KInt w) = Some (KInt w)" | "kr_int_dup _ = None"

fun kr_long_dup :: "kr_key \<Rightarrow> kr_key option" where
  "kr_long_dup (KLong w) = Some (KLong w)" | "kr_long_dup _ = None"

fun kr_double_dup :: "kr_key \<Rightarrow> kr_key option" where
  "kr_double_dup (KDouble d) = Some (KDouble d)" | "kr_double_dup _ = None"

fun kr_str_dup :: "kr_key \<Rightarrow> kr_key option" where
  "kr_str_dup (KStr s) = Some (KStr s)" | "kr_str_dup _ = None"

fun kr_pointer_dup :: "kr_key \<Rightarrow> kr_key option" where
  "kr_pointer_dup (KPtr p) = Some (KPtr p)" | "kr_pointer_dup _ = None"

fun kr_get_dup_func :: "E_KRType \<Rightarrow> (kr_key \<Rightarrow> kr_key option) option" where
  "kr_get_dup_func KR_TYPE_INT = Some kr_int_dup"
| "kr_get_dup_func KR_TYPE_LONG = Some kr_long_dup"
| "kr_get_dup_func KR_TYPE_DOUBLE = Some kr_double_dup"
| "kr_get_dup_func KR_TYPE_STRING = Some kr_str_dup"
| "kr_get_dup_func KR_TYPE_POINTER = Some kr_pointer_dup"
| "kr_get_dup_func _ = None"

text \<open>
  \<open>kr_get_value\<close> as the key a caller passes on: NULL for the types it does not handle, and for a
  NULL string or pointer.
\<close>

definition kr_get_value :: "('p \<Rightarrow> u64) \<Rightarrow> 'p U_KRValue \<Rightarrow> E_KRType \<Rightarrow> kr_key option option" where
  "kr_get_value addr v ty = (case ty of
       KR_TYPE_BOOL \<Rightarrow> map_option (\<lambda>w. Some (KInt w)) (get_b v)
     | KR_TYPE_INT \<Rightarrow> map_option (\<lambda>w. Some (KInt w)) (get_i v)
     | KR_TYPE_LONG \<Rightarrow> map_option (\<lambda>w. Some (KLong w)) (get_l v)
     | KR_TYPE_DOUBLE \<Rightarrow> map_option (\<lambda>d. Some (KDouble d)) (get_d v)
     | KR_TYPE_STRING \<Rightarrow> map_option (map_option KStr) (get_s v)
     | KR_TYPE_POINTER \<Rightarrow> map_option (map_option (\<lambda>p. KPtr (addr p))) (get_p v)
     | _ \<Rightarrow> Some None)"

section \<open>The key types satisfy the table's interface\<close>

lemma double_to_uint_eq: "d_eq a b \<Longrightarrow> double_to_uint a = double_to_uint b"
  by (auto simp: d_eq_def double_to_uint_def d_to_i64_def d_to_int_def split: option.splits)

interpretation int_key: hash_key kr_int_hash kr_int_equal
proof
  fix k k' k''
  show "kr_int_equal k' k" if "kr_int_equal k k'" using that by (cases k; cases k') auto
  show "kr_int_equal k k''" if "kr_int_equal k k'" "kr_int_equal k' k''"
    using that by (cases k; cases k'; cases k'') auto
  show "kr_int_hash k = kr_int_hash k'" if "kr_int_equal k k'" using that by (cases k; cases k') auto
qed

interpretation long_key: hash_key kr_long_hash kr_long_equal
proof
  fix k k' k''
  show "kr_long_equal k' k" if "kr_long_equal k k'" using that by (cases k; cases k') auto
  show "kr_long_equal k k''" if "kr_long_equal k k'" "kr_long_equal k' k''"
    using that by (cases k; cases k'; cases k'') auto
  show "kr_long_hash k = kr_long_hash k'" if "kr_long_equal k k'" using that by (cases k; cases k') auto
qed

interpretation double_key: hash_key kr_double_hash kr_double_equal
proof
  fix k k' k''
  show "kr_double_equal k' k" if "kr_double_equal k k'"
    using that by (cases k; cases k') (auto intro: d_eq_sym)
  show "kr_double_equal k k''" if "kr_double_equal k k'" "kr_double_equal k' k''"
    using that by (cases k; cases k'; cases k'') (auto intro: d_eq_trans)
  show "kr_double_hash k = kr_double_hash k'" if "kr_double_equal k k'"
    using that by (cases k; cases k') (auto intro: double_to_uint_eq)
qed

interpretation str_key: hash_key kr_str_hash kr_str_equal
proof
  fix k k' k''
  show "kr_str_equal k' k" if "kr_str_equal k k'"
    using that by (cases k; cases k') (auto intro: kr_string_equal_sym)
  show "kr_str_equal k k''" if "kr_str_equal k k'" "kr_str_equal k' k''"
    using that by (cases k; cases k'; cases k'') (auto intro: kr_string_equal_trans)
  show "kr_str_hash k = kr_str_hash k'" if "kr_str_equal k k'"
    using that by (cases k; cases k') (auto intro: kr_string_hash_equal)
qed

interpretation pointer_key: hash_key kr_pointer_hash kr_pointer_equal
proof
  fix k k' k''
  show "kr_pointer_equal k' k" if "kr_pointer_equal k k'" using that by (cases k; cases k') auto
  show "kr_pointer_equal k k''" if "kr_pointer_equal k k'" "kr_pointer_equal k' k''"
    using that by (cases k; cases k'; cases k'') auto
  show "kr_pointer_hash k = kr_pointer_hash k'" if "kr_pointer_equal k k'"
    using that by (cases k; cases k') auto
qed

text \<open>Tables keyed by strings directly, such as the function table.\<close>

interpretation string_key: hash_key kr_string_hash kr_string_equal
  by unfold_locales (auto intro: kr_string_equal_sym kr_string_equal_trans kr_string_hash_equal)

text \<open>The key types for which both a hash and an equality function exist.\<close>

definition key_type :: "E_KRType \<Rightarrow> bool" where
  "key_type ty \<longleftrightarrow> ty \<in> {KR_TYPE_INT, KR_TYPE_LONG, KR_TYPE_DOUBLE, KR_TYPE_STRING, KR_TYPE_POINTER}"

lemma key_type_hash_key:
  assumes "kr_get_hash_func ty = Some hf" and "kr_get_equal_func ty = Some eqf"
  shows "hash_key hf eqf"
  using assms int_key.hash_key_axioms long_key.hash_key_axioms double_key.hash_key_axioms
    str_key.hash_key_axioms pointer_key.hash_key_axioms
  by (cases ty) auto

end
