(* ===== verification/KR_HashSet.thy ===== *)
theory KR_HashSet
  imports KR_Types
begin

text \<open>
  The two thin clients of the hash table: \<open>krutils/kr_functable.c\<close> (functions by name) and
  \<open>krutils/kr_hashset.c\<close> (sets of typed keys, built from a comma separated text for the \<open>SET\<close>
  constants of the rule language). Both are shown to be the map and the set they promise.
\<close>

section \<open>The function table\<close>

record 'f T_KRFuncTable =
  ft_name :: string
  ft_table :: "(string, 'f) T_KRHashTable"

text \<open>The address of a string key is only hashed when no hash function is given.\<close>

definition kr_functable_create :: "(string \<Rightarrow> u32) \<Rightarrow> string \<Rightarrow> 'f T_KRFuncTable option" where
  "kr_functable_create pointer_hash name = do {
     t \<leftarrow> kr_hashtable_new_full pointer_hash (Some kr_string_hash) (Some kr_string_equal) True False;
     Some \<lparr>ft_name = name, ft_table = t\<rparr>
   }"

definition kr_functable_search :: "'f T_KRFuncTable \<Rightarrow> string \<Rightarrow> 'f option option" where
  "kr_functable_search ft func_name = kr_hashtable_lookup (Some (ft_table ft)) func_name"

definition kr_functable_register ::
  "'f T_KRFuncTable \<Rightarrow> string \<Rightarrow> 'f option \<Rightarrow> (int \<times> 'f T_KRFuncTable) option" where
  "kr_functable_register ft func_name func = do {
     t \<leftarrow> kr_hashtable_insert (ft_table ft) func_name func;
     Some (0, ft\<lparr>ft_table := t\<rparr>)
   }"

definition kr_functable_unregister ::
  "'f T_KRFuncTable \<Rightarrow> string \<Rightarrow> (int \<times> 'f T_KRFuncTable) option" where
  "kr_functable_unregister ft func_name = do {
     (b, t) \<leftarrow> ht_remove_step (ft_table ft) func_name;
     Some (0, ft\<lparr>ft_table := t\<rparr>)
   }"

definition kr_functable_destroy ::
  "'f T_KRFuncTable option \<Rightarrow> (string, 'f) destroy_call list option" where
  "kr_functable_destroy ft = (case ft of
       None \<Rightarrow> Some []
     | Some t \<Rightarrow> kr_hashtable_destroy (ft_table t))"

definition ft_ok :: "'f T_KRFuncTable \<Rightarrow> bool" where
  "ft_ok ft \<longleftrightarrow> table_for kr_string_hash kr_string_equal (ft_table ft)"

definition ft_map :: "'f T_KRFuncTable \<Rightarrow> string \<Rightarrow> 'f option option" where
  "ft_map ft = ht_map (ft_table ft)"

definition ft_count :: "'f T_KRFuncTable \<Rightarrow> int" where
  "ft_count ft = ht_nnodes (ft_table ft)"

lemma functable_create_spec:
  "\<exists>ft :: 'f T_KRFuncTable. kr_functable_create ph name = Some ft \<and> ft_ok ft \<and>
     ft_map ft = (\<lambda>_. None) \<and> ft_count ft = 0 \<and> ft_name ft = name"
proof -
  from new_full_spec [of ph "Some kr_string_hash" "Some kr_string_equal" True False]
  obtain t :: "(string, 'f) T_KRHashTable" where t:
      "kr_hashtable_new_full ph (Some kr_string_hash) (Some kr_string_equal) True False = Some t"
      "ht_ok t" "ht_map t = (\<lambda>_. None)" "ht_nnodes t = 0" "ht_hash_func t = kr_string_hash"
      "ht_key_equal_func t = Some kr_string_equal"
    by auto
  have "table_for kr_string_hash kr_string_equal t" using t by (simp add: table_for_def keq_def)
  with t show ?thesis
    by (simp add: kr_functable_create_def ft_ok_def ft_map_def ft_count_def)
qed

text \<open>The function table offers its own callers the interface of a map.\<close>

interpretation functable: kr_map kr_string_equal ft_ok ft_map ft_count
  kr_functable_search
  "\<lambda>ft k f. map_option snd (kr_functable_register ft k f)"
  "\<lambda>ft k. do { (b, t) \<leftarrow> ht_remove_step (ft_table ft) k; Some (b, ft\<lparr>ft_table := t\<rparr>) }"
proof
  fix ft :: "'f T_KRFuncTable" and k :: string and v :: "'f option"
  assume ok: "ft_ok ft"
  then have t: "table_for kr_string_hash kr_string_equal (ft_table ft)" by (simp add: ft_ok_def)
  show "0 \<le> ft_count ft" using string_key.ht.cnt_nonneg [OF t] by (simp add: ft_count_def)
  show "kr_functable_search ft k = Some (null_if_absent (ft_map ft k))"
    using string_key.ht.lkp_law [OF t] by (simp add: kr_functable_search_def ft_map_def)
  show "\<exists>t'. map_option snd (kr_functable_register ft k v) = Some t' \<and> ft_ok t' \<and>
      ft_map t' = (\<lambda>x. if kr_string_equal k x then Some v else ft_map ft x) \<and>
      ft_count t' = ft_count ft + (if ft_map ft k = None then 1 else 0)"
    if "ft_count ft + 1 < 2 ^ 29"
    using string_key.ht.ins_law [OF t, of k v] that
    unfolding ft_map_def by (auto simp: kr_functable_register_def ft_ok_def ft_count_def)
  show "\<exists>t'. (do { (b, t) \<leftarrow> ht_remove_step (ft_table ft) k; Some (b, ft\<lparr>ft_table := t\<rparr>) }) =
        Some (ft_map ft k \<noteq> None, t') \<and> ft_ok t' \<and>
      ft_map t' = (\<lambda>x. if kr_string_equal k x then None else ft_map ft x) \<and>
      ft_count t' = ft_count ft - (if ft_map ft k = None then 0 else 1)"
    if "ft_count ft < 2 ^ 29"
    using string_key.ht.del_law [OF t, of k] that
    unfolding ft_map_def by (auto simp: ft_ok_def ft_count_def)
qed

section \<open>Hash sets\<close>

record T_KRHashSet =
  hs_name :: string
  hs_type :: E_KRType
  hs_set :: "(kr_key, kr_key) T_KRHashTable"

definition kr_hashset_create :: "string \<Rightarrow> E_KRType \<Rightarrow> T_KRHashSet option" where
  "kr_hashset_create name ty = do {
     t \<leftarrow> kr_hashtable_new_full kr_pointer_hash (kr_get_hash_func ty) (kr_get_equal_func ty) True False;
     Some \<lparr>hs_name = name, hs_type = ty, hs_set = t\<rparr>
   }"

definition kr_hashset_search :: "T_KRHashSet \<Rightarrow> kr_key \<Rightarrow> bool option" where
  "kr_hashset_search krset element = do {
     entry \<leftarrow> kr_hashtable_lookup (Some (hs_set krset)) element;
     Some (entry \<noteq> None)
   }"

definition kr_hashset_add :: "T_KRHashSet \<Rightarrow> kr_key \<Rightarrow> (int \<times> T_KRHashSet) option" where
  "kr_hashset_add krset element = do {
     dup_func \<leftarrow> kr_get_dup_func (hs_type krset);
     dup_key \<leftarrow> dup_func element;
     t \<leftarrow> kr_hashtable_insert (hs_set krset) dup_key (Some dup_key);
     Some (0, krset\<lparr>hs_set := t\<rparr>)
   }"

definition kr_hashset_remove :: "T_KRHashSet \<Rightarrow> kr_key \<Rightarrow> (int \<times> T_KRHashSet) option" where
  "kr_hashset_remove krset element = do {
     (b, t) \<leftarrow> ht_remove_step (hs_set krset) element;
     Some (0, krset\<lparr>hs_set := t\<rparr>)
   }"

definition kr_hashset_destroy ::
  "T_KRHashSet option \<Rightarrow> (kr_key, kr_key) destroy_call list option" where
  "kr_hashset_destroy krset = (case krset of
       None \<Rightarrow> Some []
     | Some s \<Rightarrow> kr_hashtable_destroy (hs_set s))"

text \<open>
  One token of \<open>kr_hashset_make\<close>: what it adds to the set, if anything. A string token loses its
  first and last character (the quotes); a token of one character leaves nothing to strip the closing
  quote from, and the write is at index \<open>(size_t)-1\<close>.
\<close>

definition hashset_token :: "E_KRType \<Rightarrow> string \<Rightarrow> kr_key option option" where
  "hashset_token ty p = (case ty of
       KR_TYPE_INT \<Rightarrow> map_option (\<lambda>n. Some (KInt (word_of_int n))) (c_atoi p)
     | KR_TYPE_DOUBLE \<Rightarrow> Some (Some (KDouble (c_atof p)))
     | KR_TYPE_STRING \<Rightarrow> (if tl p = [] then None else Some (Some (KStr (butlast (tl p)))))
     | _ \<Rightarrow> Some None)"

primrec hashset_add_tokens :: "string list \<Rightarrow> T_KRHashSet \<Rightarrow> T_KRHashSet option" where
  "hashset_add_tokens [] s = Some s"
| "hashset_add_tokens (p # ps) s = do {
     val \<leftarrow> hashset_token (hs_type s) p;
     s' \<leftarrow> (case val of None \<Rightarrow> Some s | Some k \<Rightarrow> map_option snd (kr_hashset_add s k));
     hashset_add_tokens ps s'
   }"

definition kr_hashset_make :: "E_KRType \<Rightarrow> string \<Rightarrow> T_KRHashSet option" where
  "kr_hashset_make ty multi_string = do {
     s \<leftarrow> kr_hashset_create multi_string ty;
     hashset_add_tokens (c_tokens (CHR '','') multi_string) s
   }"

section \<open>A hash set is a set\<close>

text \<open>The equality a set of a type compares its elements with.\<close>

definition type_eq :: "E_KRType \<Rightarrow> kr_key \<Rightarrow> kr_key \<Rightarrow> bool" where
  "type_eq ty = (case kr_get_equal_func ty of Some f \<Rightarrow> f | None \<Rightarrow> (=))"

definition type_hash :: "E_KRType \<Rightarrow> kr_key \<Rightarrow> u32" where
  "type_hash ty = (case kr_get_hash_func ty of Some f \<Rightarrow> f | None \<Rightarrow> kr_pointer_hash)"

definition hs_ok :: "T_KRHashSet \<Rightarrow> bool" where
  "hs_ok s \<longleftrightarrow> table_for (type_hash (hs_type s)) (type_eq (hs_type s)) (hs_set s) \<and>
     (\<forall>x. ht_map (hs_set s) x \<noteq> Some None)"

definition hs_abs :: "T_KRHashSet \<Rightarrow> kr_key set" where
  "hs_abs s = {x. ht_map (hs_set s) x \<noteq> None}"

definition hs_count :: "T_KRHashSet \<Rightarrow> int" where
  "hs_count s = ht_nnodes (hs_set s)"

lemma type_hash_key: "hash_key (type_hash ty) (type_eq ty)"
proof (cases "key_type ty")
  case True
  then obtain hf eqf where "kr_get_hash_func ty = Some hf" "kr_get_equal_func ty = Some eqf"
    by (auto simp: key_type_def)
  with key_type_hash_key [OF this] show ?thesis by (simp add: type_hash_def type_eq_def)
next
  case False
  then have "kr_get_hash_func ty = None" "kr_get_equal_func ty = None"
    by (cases ty; simp add: key_type_def)+
  then show ?thesis by unfold_locales (auto simp: type_hash_def type_eq_def)
qed

lemmas hs_map_laws = hash_key.insert_internal_spec [OF type_hash_key]
  hash_key.remove_internal_spec [OF type_hash_key] hash_key.lookup_correct [OF type_hash_key]

lemma hashset_create_spec:
  "\<exists>s. kr_hashset_create name ty = Some s \<and> hs_ok s \<and> hs_abs s = {} \<and> hs_count s = 0 \<and>
     hs_type s = ty \<and> hs_name s = name"
proof -
  from new_full_spec [of kr_pointer_hash "kr_get_hash_func ty" "kr_get_equal_func ty" True False]
  obtain t :: "(kr_key, kr_key) T_KRHashTable" where t:
      "kr_hashtable_new_full kr_pointer_hash (kr_get_hash_func ty) (kr_get_equal_func ty) True False = Some t"
      "ht_ok t" "ht_map t = (\<lambda>_. None)" "ht_nnodes t = 0"
      "ht_hash_func t = type_hash ty" "ht_key_equal_func t = kr_get_equal_func ty"
    by (auto simp: type_hash_def)
  have "table_for (type_hash ty) (type_eq ty) t"
    using t(2,5,6) by (simp add: table_for_def keq_def type_eq_def)
  with t show ?thesis
    by (simp add: kr_hashset_create_def hs_ok_def hs_abs_def hs_count_def)
qed

lemma hashset_search_spec: "hs_ok s \<Longrightarrow> kr_hashset_search s x = Some (x \<in> hs_abs s)"
proof -
  assume ok: "hs_ok s"
  then have "ht_map (hs_set s) x \<noteq> Some None" by (simp add: hs_ok_def)
  moreover have "kr_hashtable_lookup (Some (hs_set s)) x = Some (null_if_absent (ht_map (hs_set s) x))"
    using ok hs_map_laws(3) [of "hs_set s" "hs_type s" x] by (simp add: hs_ok_def table_for_def)
  ultimately show ?thesis
    by (cases "ht_map (hs_set s) x") (auto simp: kr_hashset_search_def hs_abs_def null_if_absent_def)
qed

text \<open>\<open>typed_key ty k\<close>: the element points to an object of the set's type.\<close>

definition typed_key :: "E_KRType \<Rightarrow> kr_key \<Rightarrow> bool" where
  "typed_key ty k = (case kr_get_dup_func ty of None \<Rightarrow> False | Some f \<Rightarrow> f k = Some k)"

lemma typed_key_dup: "typed_key ty k \<Longrightarrow> \<exists>f. kr_get_dup_func ty = Some f \<and> f k = Some k"
  by (auto simp: typed_key_def split: option.splits)

lemma hashset_add_spec:
  assumes ok: "hs_ok s" and room: "hs_count s + 1 < 2 ^ 29" and k: "typed_key (hs_type s) k"
  shows "\<exists>s'. kr_hashset_add s k = Some (0, s') \<and> hs_ok s' \<and> hs_type s' = hs_type s \<and>
    hs_abs s' = hs_abs s \<union> {x. type_eq (hs_type s) k x} \<and> hs_count s' \<le> hs_count s + 1"
proof -
  let ?t = "hs_set s"
  from ok have t: "ht_ok ?t" "ht_hash_func ?t = type_hash (hs_type s)" "keq ?t = type_eq (hs_type s)"
    and tf: "table_for (type_hash (hs_type s)) (type_eq (hs_type s)) ?t"
    and nn: "\<And>x. ht_map ?t x \<noteq> Some None"
    by (auto simp: hs_ok_def table_for_def)
  have "ht_room ?t" using room by (simp add: ht_room_def hs_count_def)
  from hs_map_laws(1) [OF t this, of k "Some k" False] obtain t' where t':
      "kr_hashtable_insert ?t k (Some k) = Some t'" "ht_ok t'" "same_funcs ?t t'"
      "ht_map t' = (\<lambda>x. if type_eq (hs_type s) k x then Some (Some k) else ht_map ?t x)"
      "ht_nnodes t' \<le> ht_nnodes ?t + 1"
    by (auto simp: kr_hashtable_insert_def)
  from typed_key_dup [OF k] obtain f where "kr_get_dup_func (hs_type s) = Some f" "f k = Some k" by blast
  then have call: "kr_hashset_add s k = Some (0, s\<lparr>hs_set := t'\<rparr>)"
    using t'(1) by (simp add: kr_hashset_add_def)
  have "hs_ok (s\<lparr>hs_set := t'\<rparr>)"
    using table_for_same_funcs [OF tf t'(3,2)] nn t'(4) by (simp add: hs_ok_def)
  moreover have "hs_abs (s\<lparr>hs_set := t'\<rparr>) = hs_abs s \<union> {x. type_eq (hs_type s) k x}"
    using t'(4) by (auto simp: hs_abs_def)
  ultimately show ?thesis using call t'(5) by (simp add: hs_count_def)
qed

lemma hashset_remove_spec:
  assumes ok: "hs_ok s" and small: "hs_count s < 2 ^ 29"
  shows "\<exists>s'. kr_hashset_remove s k = Some (0, s') \<and> hs_ok s' \<and> hs_type s' = hs_type s \<and>
    hs_abs s' = hs_abs s - {x. type_eq (hs_type s) k x}"
proof -
  let ?t = "hs_set s"
  from ok have t: "ht_ok ?t" "ht_hash_func ?t = type_hash (hs_type s)" "keq ?t = type_eq (hs_type s)"
    and tf: "table_for (type_hash (hs_type s)) (type_eq (hs_type s)) ?t"
    and nn: "\<And>x. ht_map ?t x \<noteq> Some None"
    by (auto simp: hs_ok_def table_for_def)
  from hs_map_laws(2) [OF t, of k True] small obtain b t' where t':
      "kr_hashtable_remove_internal (Some ?t) k True = Some (b, Some t')" "ht_ok t'" "same_funcs ?t t'"
      "ht_map t' = (\<lambda>x. if type_eq (hs_type s) k x then None else ht_map ?t x)"
    by (auto simp: hs_count_def)
  have call: "kr_hashset_remove s k = Some (0, s\<lparr>hs_set := t'\<rparr>)"
    using t'(1) by (simp add: kr_hashset_remove_def ht_remove_step_def kr_hashtable_remove_def)
  have "hs_ok (s\<lparr>hs_set := t'\<rparr>)"
    using table_for_same_funcs [OF tf t'(3,2)] nn t'(4) by (simp add: hs_ok_def)
  moreover have "hs_abs (s\<lparr>hs_set := t'\<rparr>) = hs_abs s - {x. type_eq (hs_type s) k x}"
    using t'(4) by (auto simp: hs_abs_def)
  ultimately show ?thesis using call by simp
qed

lemma hashset_token_typed: "hashset_token ty p = Some (Some k) \<Longrightarrow> typed_key ty k"
  by (cases ty) (auto simp: hashset_token_def typed_key_def split: if_splits)

lemma hashset_add_tokens_spec:
  "hs_ok s \<Longrightarrow> hs_count s + int (length ps) < 2 ^ 29 \<Longrightarrow> (\<forall>p \<in> set ps. hashset_token (hs_type s) p \<noteq> None) \<Longrightarrow>
   \<exists>s'. hashset_add_tokens ps s = Some s' \<and> hs_ok s' \<and> hs_type s' = hs_type s \<and>
     hs_abs s' = hs_abs s \<union> {x. \<exists>p \<in> set ps. \<exists>k. hashset_token (hs_type s) p = Some (Some k) \<and>
                                   type_eq (hs_type s) k x}"
proof (induction ps arbitrary: s)
  case Nil
  then show ?case by simp
next
  case (Cons p ps)
  from Cons.prems(3) obtain val where val: "hashset_token (hs_type s) p = Some val" by auto
  show ?case
  proof (cases val)
    case None
    with Cons.IH [OF Cons.prems(1)] Cons.prems(2,3) val show ?thesis by auto
  next
    case (Some k)
    from val Some have k: "typed_key (hs_type s) k" by (simp add: hashset_token_typed)
    from hashset_add_spec [OF Cons.prems(1) _ k] Cons.prems(2) obtain s1 where s1:
        "kr_hashset_add s k = Some (0, s1)" "hs_ok s1" "hs_type s1 = hs_type s"
        "hs_abs s1 = hs_abs s \<union> {x. type_eq (hs_type s) k x}" "hs_count s1 \<le> hs_count s + 1"
      by auto
    from Cons.IH [OF s1(2)] Cons.prems(2,3) s1(3,5) obtain s' where s':
        "hashset_add_tokens ps s1 = Some s'" "hs_ok s'" "hs_type s' = hs_type s"
        "hs_abs s' = hs_abs s1 \<union> {x. \<exists>p \<in> set ps. \<exists>k. hashset_token (hs_type s) p = Some (Some k) \<and>
                                   type_eq (hs_type s) k x}"
      by auto
    have "hashset_add_tokens (p # ps) s = Some s'" using val Some s1(1) s'(1) by simp
    with s' s1(4) val Some show ?thesis by auto
  qed
qed

end
