(* ===== verification/KR_HashTable_Props.thy ===== *)
theory KR_HashTable_Props
  imports KR_HashSet
begin

text \<open>
  The properties of the hash table, the function table and the hash sets. A history of calls on a
  table is a list of \<open>ht_op\<close>; running it on the node array and running it on the abstract map give
  the same observations.
\<close>

section \<open>Histories of table operations\<close>

datatype ('k, 'v) ht_op =
    Op_insert 'k "'v option" | Op_replace 'k "'v option" | Op_remove 'k | Op_steal 'k
  | Op_remove_all | Op_steal_all

fun ht_do :: "('k, 'v) ht_op \<Rightarrow> ('k, 'v) T_KRHashTable \<Rightarrow> ('k, 'v) T_KRHashTable option" where
  "ht_do (Op_insert k v) ht = kr_hashtable_insert ht k v"
| "ht_do (Op_replace k v) ht = kr_hashtable_replace ht k v"
| "ht_do (Op_remove k) ht = Option.bind (kr_hashtable_remove (Some ht) k) snd"
| "ht_do (Op_steal k) ht = Option.bind (kr_hashtable_steal (Some ht) k) snd"
| "ht_do Op_remove_all ht = kr_hashtable_remove_all ht"
| "ht_do Op_steal_all ht = kr_hashtable_steal_all ht"

primrec ht_run :: "('k, 'v) ht_op list \<Rightarrow> ('k, 'v) T_KRHashTable \<Rightarrow> ('k, 'v) T_KRHashTable option" where
  "ht_run [] ht = Some ht"
| "ht_run (p # ps) ht = Option.bind (ht_do p ht) (ht_run ps)"

text \<open>The specification: the same history on a map from keys to stored values.\<close>

fun map_do :: "('k \<Rightarrow> 'k \<Rightarrow> bool) \<Rightarrow> ('k, 'v) ht_op \<Rightarrow> ('k \<Rightarrow> 'v option option) \<Rightarrow> 'k \<Rightarrow> 'v option option" where
  "map_do eqv (Op_insert k v) m = (\<lambda>x. if eqv k x then Some v else m x)"
| "map_do eqv (Op_replace k v) m = (\<lambda>x. if eqv k x then Some v else m x)"
| "map_do eqv (Op_remove k) m = (\<lambda>x. if eqv k x then None else m x)"
| "map_do eqv (Op_steal k) m = (\<lambda>x. if eqv k x then None else m x)"
| "map_do eqv Op_remove_all m = (\<lambda>_. None)"
| "map_do eqv Op_steal_all m = (\<lambda>_. None)"

primrec map_run :: "('k \<Rightarrow> 'k \<Rightarrow> bool) \<Rightarrow> ('k, 'v) ht_op list \<Rightarrow> ('k \<Rightarrow> 'v option option) \<Rightarrow> 'k \<Rightarrow> 'v option option" where
  "map_run eqv [] m = m"
| "map_run eqv (p # ps) m = map_run eqv ps (map_do eqv p m)"

context hash_key
begin

lemma ht_do_spec:
  assumes t: "table_for hash eq ht" and room: "ht_nnodes ht + 1 < 2 ^ 29"
  shows "\<exists>ht'. ht_do p ht = Some ht' \<and> table_for hash eq ht' \<and> ht_map ht' = map_do eq p (ht_map ht) \<and>
    ht_nnodes ht' \<le> ht_nnodes ht + 1"
proof -
  from t have ok: "ht_ok ht" "ht_hash_func ht = hash" "keq ht = eq" by (auto simp: table_for_def)
  have rm: "ht_room ht" and small: "ht_nnodes ht < 2 ^ 29" and nn: "0 \<le> ht_nnodes ht"
    using room ht.cnt_nonneg [OF t] by (auto simp: ht_room_def)
  note keep = table_for_same_funcs [OF t]
  show ?thesis
  proof (cases p)
    case (Op_insert k v)
    with insert_internal_spec [OF ok rm, of k v False] show ?thesis
      by (auto simp: kr_hashtable_insert_def intro!: keep)
  next
    case (Op_replace k v)
    with insert_internal_spec [OF ok rm, of k v True] show ?thesis
      by (auto simp: kr_hashtable_replace_def intro!: keep)
  next
    case (Op_remove k)
    with remove_internal_spec [OF ok small, of k True] show ?thesis
      by (auto simp: kr_hashtable_remove_def intro!: keep)
  next
    case (Op_steal k)
    with remove_internal_spec [OF ok small, of k False] show ?thesis
      by (auto simp: kr_hashtable_steal_def intro!: keep)
  next
    case Op_remove_all
    with remove_all_nodes_spec [OF ok, of True] nn show ?thesis
      by (auto simp: kr_hashtable_remove_all_def intro!: keep)
  next
    case Op_steal_all
    with remove_all_nodes_spec [OF ok, of False] nn show ?thesis
      by (auto simp: kr_hashtable_steal_all_def intro!: keep)
  qed
qed

lemma ht_run_spec:
  "table_for hash eq ht \<Longrightarrow> ht_nnodes ht + int (length ps) < 2 ^ 29 \<Longrightarrow>
   \<exists>ht'. ht_run ps ht = Some ht' \<and> table_for hash eq ht' \<and> ht_map ht' = map_run eq ps (ht_map ht) \<and>
     ht_nnodes ht' \<le> ht_nnodes ht + int (length ps)"
proof (induction ps arbitrary: ht)
  case Nil
  then show ?case by simp
next
  case (Cons p ps)
  from ht_do_spec [OF Cons.prems(1), of p] Cons.prems(2) obtain h1 where h1: "ht_do p ht = Some h1"
      "table_for hash eq h1" "ht_map h1 = map_do eq p (ht_map ht)" "ht_nnodes h1 \<le> ht_nnodes ht + 1"
    by auto
  from Cons.IH [OF h1(2)] Cons.prems(2) h1(4) h1(1,3) show ?case by auto
qed

end

lemma new_table:
  obtains ht :: "('k, 'v) T_KRHashTable"
  where "kr_hashtable_new_full ph (Some hf) (Some eqf) kd vd = Some ht" and "table_for hf eqf ht"
    and "ht_map ht = (\<lambda>_. None)" and "ht_nnodes ht = 0" and "ht_destroyed ht = []"
proof -
  from new_full_spec [of ph "Some hf" "Some eqf" kd vd] obtain ht :: "('k, 'v) T_KRHashTable" where ht:
      "kr_hashtable_new_full ph (Some hf) (Some eqf) kd vd = Some ht" "ht_ok ht"
      "ht_map ht = (\<lambda>_. None)" "ht_nnodes ht = 0" "ht_hash_func ht = hf"
      "ht_key_equal_func ht = Some eqf" "ht_destroyed ht = []"
    by auto
  have "table_for hf eqf ht" using ht(2,5,6) by (simp add: table_for_def keq_def)
  with ht that show thesis by blast
qed

section \<open>Properties of the table\<close>

text \<open>
  C1. For every hash/equality pair that is compatible (a partial equivalence the hash respects),
  every history of fewer than \<open>2 ^ 29\<close> calls of insert, replace, remove, steal, remove_all and
  steal_all on a fresh table terminates without undefined behaviour, keeps the table's invariant
  through all the resizes, and afterwards a lookup of any key returns exactly what the abstract map
  built by the same history holds.
\<close>

theorem hashtable_refines_map:
  fixes ps :: "('k, 'v) ht_op list"
  assumes "hash_key hf eqf" and "length ps < 2 ^ 29"
  shows "\<exists>ht ht'. kr_hashtable_new_full ph (Some hf) (Some eqf) kd vd = Some ht \<and>
    ht_run ps ht = Some ht' \<and> ht_ok ht' \<and>
    (\<forall>x. kr_hashtable_lookup (Some ht') x = Some (null_if_absent (map_run eqf ps (\<lambda>_. None) x)))"
proof -
  obtain ht :: "('k, 'v) T_KRHashTable" where ht:
      "kr_hashtable_new_full ph (Some hf) (Some eqf) kd vd = Some ht" "ht_map ht = (\<lambda>_. None)"
      "ht_nnodes ht = 0" "table_for hf eqf ht"
    by (rule new_table [of ph hf eqf kd vd])
  have "ht_nnodes ht + int (length ps) < 2 ^ 29" using assms(2) ht(3) by simp
  from hash_key.ht_run_spec [OF assms(1) ht(4) this] obtain ht' where ht':
      "ht_run ps ht = Some ht'" "table_for hf eqf ht'" "ht_map ht' = map_run eqf ps (ht_map ht)"
    by blast
  with ht hash_key.lookup_correct [OF assms(1), of ht'] show ?thesis by (auto simp: table_for_def)
qed

theorem hashtable_refines_map_witness:
  "\<exists>ht ht'. kr_hashtable_new_full kr_pointer_hash (Some kr_int_hash) (Some kr_int_equal) True False = Some ht \<and>
    ht_run [Op_insert (KInt 1) (Some ''a''), Op_insert (KInt 9) (Some ''b''), Op_remove (KInt 1)] ht = Some ht' \<and>
    kr_hashtable_lookup (Some ht') (KInt 9) = Some (Some ''b'') \<and>
    kr_hashtable_lookup (Some ht') (KInt 1) = Some None"
  using hashtable_refines_map [OF int_key.hash_key_axioms,
      of "[Op_insert (KInt 1) (Some ''a''), Op_insert (KInt 9) (Some ''b''), Op_remove (KInt 1)]"
         kr_pointer_hash True False]
  by (auto simp: null_if_absent_def)

text \<open>
  C2. Removing a key reports whether it was present, takes exactly that key out of the map, and
  calls the destroy functions (key first, then value) exactly for the node that held it, or not at
  all when the key was absent or the entry is stolen.
\<close>

theorem hashtable_remove_destroys_once:
  assumes "hash_key hf eqf" and "table_for hf eqf ht" and "ht_nnodes ht < 2 ^ 29"
  shows "\<exists>ht'. kr_hashtable_remove_internal (Some ht) k notify = Some (ht_map ht k \<noteq> None, Some ht') \<and>
    table_for hf eqf ht' \<and> ht_map ht' = (\<lambda>x. if eqf k x then None else ht_map ht x) \<and>
    (if ht_map ht k = None then ht_destroyed ht' = ht_destroyed ht
     else \<exists>nd \<in> set (ht_nodes ht). node_has eqf k nd \<and>
            ht_destroyed ht' = ht_destroyed ht @ notify_destroy ht notify nd)"
proof -
  from assms(2) have ok: "ht_ok ht" "ht_hash_func ht = hf" "keq ht = eqf" by (auto simp: table_for_def)
  from hash_key.remove_internal_spec [OF assms(1) ok assms(3), of k notify]
    table_for_same_funcs [OF assms(2)] show ?thesis
    by blast
qed

theorem hashtable_remove_destroys_once_witness:
  "\<exists>ht :: (kr_key, nat) T_KRHashTable.
     kr_hashtable_new_full kr_pointer_hash (Some kr_int_hash) (Some kr_int_equal) True False = Some ht \<and>
     (\<exists>ht'. kr_hashtable_remove_internal (Some ht) (KInt 4) True = Some (False, Some ht') \<and>
        ht_destroyed ht' = [])"
proof -
  obtain ht :: "(kr_key, nat) T_KRHashTable" where ht:
      "kr_hashtable_new_full kr_pointer_hash (Some kr_int_hash) (Some kr_int_equal) True False = Some ht"
      "ht_map ht = (\<lambda>_. None)" "ht_nnodes ht = 0" "table_for kr_int_hash kr_int_equal ht" "ht_destroyed ht = []"
    by (rule new_table [of kr_pointer_hash kr_int_hash kr_int_equal True False])
  show ?thesis
    using hashtable_remove_destroys_once [OF int_key.hash_key_axioms ht(4), of "KInt 4" True] ht
    by auto
qed

text \<open>
  C3. A resize of a table that satisfies the invariant never loops or overflows, keeps every entry,
  and leaves the array less than half full and free of tombstones.
\<close>

theorem hashtable_resize_keeps_map:
  assumes "hash_key hf eqf" and "table_for hf eqf ht" and "ht_nnodes ht < 2 ^ 29"
  shows "\<exists>ht'. kr_hashtable_resize ht = Some ht' \<and> table_for hf eqf ht' \<and> ht_map ht' = ht_map ht \<and>
    ht_nnodes ht' = ht_nnodes ht \<and> ht_noccupied ht' = ht_nnodes ht' \<and>
    2 * ht_nnodes ht' < ht_size ht'"
proof -
  from assms(2) have ok: "ht_ok ht" "ht_hash_func ht = hf" "keq ht = eqf" by (auto simp: table_for_def)
  then have "ht_pre ht" by (simp add: ht_ok_def)
  from hash_key.resize_spec [OF assms(1) this ok(2,3) assms(3)] obtain ht' where ht':
      "kr_hashtable_resize ht = Some ht'" "ht_ok ht'" "ht_map ht' = ht_map ht" "same_funcs ht ht'"
      "ht_nnodes ht' = ht_nnodes ht" "2 * ht_nnodes ht' < ht_size ht'"
    by blast
  have "ht_noccupied ht' = ht_nnodes ht"
    using ht'(1) by (auto simp: kr_hashtable_resize_def partial_Some Let_def)
  with ht' table_for_same_funcs [OF assms(2) ht'(4,2)] show ?thesis by auto
qed

theorem hashtable_resize_keeps_map_witness:
  "\<exists>ht ht' :: (kr_key, nat) T_KRHashTable.
     kr_hashtable_new kr_pointer_hash (Some kr_double_hash) (Some kr_double_equal) = Some ht \<and>
     kr_hashtable_resize ht = Some ht' \<and> ht_map ht' = (\<lambda>_. None)"
proof -
  obtain ht :: "(kr_key, nat) T_KRHashTable" where ht:
      "kr_hashtable_new kr_pointer_hash (Some kr_double_hash) (Some kr_double_equal) = Some ht"
      "ht_map ht = (\<lambda>_. None)" "ht_nnodes ht = 0" "table_for kr_double_hash kr_double_equal ht"
    by (rule new_table [of kr_pointer_hash kr_double_hash kr_double_equal False False, folded kr_hashtable_new_def])
  show ?thesis
    using hashtable_resize_keeps_map [OF double_key.hash_key_axioms ht(4)] ht by auto
qed

text \<open>Emptying a table calls the destroy functions once for every live node, in the order of the
  array, and for nothing else; the table is usable and empty afterwards.
\<close>

theorem hashtable_remove_all_destroys:
  assumes "hash_key hf eqf" and "table_for hf eqf ht"
  shows "\<exists>ht'. kr_hashtable_remove_all ht = Some ht' \<and> table_for hf eqf ht' \<and> ht_map ht' = (\<lambda>_. None) \<and>
    kr_hashtable_size (Some ht') = 0 \<and>
    kr_hashtable_destroy ht = Some (ht_destroyed ht @
      concat (map (notify_destroy ht True) (filter live_node (ht_nodes ht))))"
proof -
  from assms(2) have ok: "ht_ok ht" "ht_hash_func ht = hf" "keq ht = eqf" by (auto simp: table_for_def)
  then have rc: "ht_ref_count ht > 0" by (auto elim: ht_okE)
  from hash_key.remove_all_nodes_spec [OF assms(1) ok, of True] obtain ht' where ht':
      "kr_hashtable_remove_all ht = Some ht'" "ht_ok ht'" "same_funcs ht ht'" "ht_map ht' = (\<lambda>_. None)"
      "ht_nnodes ht' = 0"
      "ht_destroyed ht' = ht_destroyed ht @ concat (map (notify_destroy ht True) (filter live_node (ht_nodes ht)))"
    unfolding kr_hashtable_remove_all_def by blast
  with rc table_for_same_funcs [OF assms(2) ht'(3,2)] show ?thesis
    by (simp add: kr_hashtable_destroy_def kr_hashtable_size_def)
qed

theorem hashtable_remove_all_destroys_witness:
  "\<exists>ht :: (string, nat) T_KRHashTable.
     kr_hashtable_new (\<lambda>_. 0) (Some kr_string_hash) (Some kr_string_equal) = Some ht \<and>
     (\<exists>ht'. kr_hashtable_remove_all ht = Some ht' \<and> kr_hashtable_size (Some ht') = 0)"
proof -
  obtain ht :: "(string, nat) T_KRHashTable" where ht:
      "kr_hashtable_new (\<lambda>_. 0) (Some kr_string_hash) (Some kr_string_equal) = Some ht"
      "table_for kr_string_hash kr_string_equal ht"
    by (rule new_table [of "\<lambda>_. 0" kr_string_hash kr_string_equal False False, folded kr_hashtable_new_def])
  show ?thesis
    using hashtable_remove_all_destroys [OF string_key.hash_key_axioms ht(2)] ht(1) by auto
qed

text \<open>
  C4. \<open>foreach_remove\<close> and \<open>foreach_steal\<close>: the sweep calls the callback once for every entry, in the order of the slots and
  with the state the call before left, and removes exactly the entries for which it answers true: it ends, keeps the
  invariant, returns their number and the last state, leaves the map without their keys and otherwise as it was, and calls the destroy
  functions on their keys and values, in this order (none when it steals).
\<close>

theorem hashtable_foreach_removes_chosen:
  assumes "hash_key hf eqf" and "table_for hf eqf ht" and "ht_nnodes ht < 2 ^ 29"
  shows "case sweep func (filter live_node (ht_nodes ht)) s of (removed, s') \<Rightarrow>
    \<exists>ht'. kr_hashtable_foreach_remove_or_steal ht func s notify = Some (of_nat (length removed), ht', s') \<and>
      table_for hf eqf ht' \<and> ht_nnodes ht' = ht_nnodes ht - int (length removed) \<and>
      (\<forall>x. ht_map ht' x = (if \<exists>nd \<in> set removed. node_has eqf x nd then None else ht_map ht x)) \<and>
      ht_destroyed ht' = ht_destroyed ht @ concat (map (notify_destroy ht notify) removed)"
proof -
  from assms(2) have ok: "ht_ok ht" "ht_hash_func ht = hf" "keq ht = eqf" by (auto simp: table_for_def)
  obtain removed s' where sw: "sweep func (filter live_node (ht_nodes ht)) s = (removed, s')" by force
  from hash_key.foreach_remove_or_steal_spec [OF assms(1) ok assms(3), of func s notify] sw
  obtain ht' where r: "kr_hashtable_foreach_remove_or_steal ht func s notify = Some (of_nat (length removed), ht', s')"
      "ht_ok ht'" "same_funcs ht ht'" "ht_nnodes ht' = ht_nnodes ht - int (length removed)"
      "\<forall>x. ht_map ht' x = (if \<exists>nd \<in> set removed. node_has eqf x nd then None else ht_map ht x)"
      "ht_destroyed ht' = ht_destroyed ht @ concat (map (notify_destroy ht notify) removed)"
    by auto
  from r table_for_same_funcs [OF assms(2) r(3,2)] sw show ?thesis by auto
qed

lemma sweep_plain: "sweep (\<lambda>k v n. (P v, n + 1)) nds n = (filter (\<lambda>nd. P (hn_value nd)) nds, n + length nds)"
  by (induction nds arbitrary: n) simp_all

lemma chosen_entry:
  assumes hk: "hash_key hf eqf" and t: "table_for hf eqf ht" and e: "ht_map ht x = Some v"
  shows "(\<exists>nd \<in> set (filter (\<lambda>nd. P (hn_value nd)) (filter live_node (ht_nodes ht))). node_has eqf x nd) \<longleftrightarrow> P v"
proof -
  from t have u: "uniq_keys eqf (ht_nodes ht)" and m: "ht_map ht = nodes_map eqf (ht_nodes ht)"
    by (auto simp: table_for_def nodes_ok_def ht_map_def elim: ht_okE)
  from e m obtain i where i: "i < length (ht_nodes ht)" "node_has eqf x (ht_nodes ht ! i)" "v = hn_value (ht_nodes ht ! i)"
    by (metis nodes_map_SomeE)
  have "hn_value nd = v" if "nd \<in> set (ht_nodes ht)" "node_has eqf x nd" for nd
    using that hash_key.nodes_map_unique [OF hk u] e m by (auto simp: in_set_conv_nth)
  note same = this
  have "live_node (ht_nodes ht ! i)" using i(2) by (rule node_hasE)
  with i same show ?thesis by (intro iffI) (auto intro!: exI [of _ "ht_nodes ht ! i"])
qed

text \<open>Of three entries, the callback chooses those with an odd value, and counts its calls.\<close>

theorem hashtable_foreach_removes_chosen_witness:
  "\<exists>(ht0 :: (kr_key, nat) T_KRHashTable) ht ht' d n.
     kr_hashtable_new kr_pointer_hash (Some kr_long_hash) (Some kr_long_equal) = Some ht0 \<and>
     ht_run [Op_insert (KLong 1) (Some 5), Op_insert (KLong 2) (Some 6), Op_insert (KLong 3) (Some 7)] ht0 = Some ht \<and>
     kr_hashtable_foreach_remove_or_steal ht (\<lambda>k v n. (odd (the v), n + 1)) (0 :: nat) True = Some (d, ht', n) \<and>
     ht_map ht' (KLong 1) = None \<and> ht_map ht' (KLong 2) = Some (Some 6) \<and> ht_map ht' (KLong 3) = None"
proof -
  let ?ps = "[Op_insert (KLong 1) (Some 5), Op_insert (KLong 2) (Some 6), Op_insert (KLong 3) (Some 7)] :: (kr_key, nat) ht_op list"
  obtain ht0 :: "(kr_key, nat) T_KRHashTable" where ht0:
      "kr_hashtable_new kr_pointer_hash (Some kr_long_hash) (Some kr_long_equal) = Some ht0"
      "ht_nnodes ht0 = 0" "ht_map ht0 = (\<lambda>_. None)" "table_for kr_long_hash kr_long_equal ht0"
    by (rule new_table [of kr_pointer_hash kr_long_hash kr_long_equal False False, folded kr_hashtable_new_def])
  from long_key.ht_run_spec [OF ht0(4), of ?ps] ht0(2,3) obtain ht where ht: "ht_run ?ps ht0 = Some ht" "table_for kr_long_hash kr_long_equal ht"
      "ht_map ht = map_run kr_long_equal ?ps (\<lambda>_. None)" "ht_nnodes ht \<le> 3"
    by auto
  then have v: "ht_map ht (KLong 1) = Some (Some 5)" "ht_map ht (KLong 2) = Some (Some 6)" "ht_map ht (KLong 3) = Some (Some 7)"
    by simp_all
  note c = v [THEN chosen_entry [OF long_key.hash_key_axioms ht(2), of _ _ "\<lambda>v. odd (the v)"]]
  from hashtable_foreach_removes_chosen [OF long_key.hash_key_axioms ht(2), of "\<lambda>k v n. (odd (the v), n + 1)" "0 :: nat" True] ht(4)
  obtain d ht' n where "kr_hashtable_foreach_remove_or_steal ht (\<lambda>k v n. (odd (the v), n + 1)) (0 :: nat) True = Some (d, ht', n)"
    "\<forall>x. ht_map ht' x = (if \<exists>nd \<in> set (filter (\<lambda>nd. odd (the (hn_value nd))) (filter live_node (ht_nodes ht))). node_has kr_long_equal x nd then None else ht_map ht x)"
    unfolding sweep_plain prod.case by force
  with c v ht0(1) ht(1) show ?thesis by (intro exI conjI) (assumption, assumption, assumption, simp_all)
qed

section \<open>Properties of the clients\<close>

text \<open>
  The function table: a registered function is found under its name and under no other, the last
  registration wins, an unregistered name is not found, and the other names are not affected.
\<close>

theorem functable_register_search:
  assumes "ft_ok ft" and "ft_count ft + 2 < 2 ^ 29"
  shows "\<exists>ft1 ft2. kr_functable_register ft name f = Some (0, ft1) \<and>
    kr_functable_search ft1 x =
      (if kr_string_equal name x then Some f else kr_functable_search ft x) \<and>
    kr_functable_unregister ft1 name = Some (0, ft2) \<and>
    kr_functable_search ft2 x =
      (if kr_string_equal name x then Some None else kr_functable_search ft x)"
proof -
  from assms have t: "table_for kr_string_hash kr_string_equal (ft_table ft)"
      "ht_nnodes (ft_table ft) + 1 < 2 ^ 29"
    by (auto simp: ft_ok_def ft_count_def)
  from string_key.ht.ins_law [OF t, of name f] obtain t1 where t1:
      "kr_hashtable_insert (ft_table ft) name f = Some t1" "table_for kr_string_hash kr_string_equal t1"
      "ht_map t1 = (\<lambda>x. if kr_string_equal name x then Some f else ht_map (ft_table ft) x)"
      "ht_nnodes t1 \<le> ht_nnodes (ft_table ft) + 1"
    by auto
  have "ht_nnodes t1 < 2 ^ 29" using t1(4) assms(2) by (simp add: ft_count_def)
  from string_key.ht.del_law [OF t1(2) this, of name] obtain b t2 where t2:
      "ht_remove_step t1 name = Some (b, t2)" "table_for kr_string_hash kr_string_equal t2"
      "ht_map t2 = (\<lambda>x. if kr_string_equal name x then None else ht_map t1 x)"
    by blast
  have "kr_functable_register ft name f = Some (0, ft\<lparr>ft_table := t1\<rparr>)"
      "kr_functable_unregister (ft\<lparr>ft_table := t1\<rparr>) name = Some (0, ft\<lparr>ft_table := t2\<rparr>)"
    using t1(1) t2(1) by (simp_all add: kr_functable_register_def kr_functable_unregister_def)
  moreover have "kr_functable_search (ft\<lparr>ft_table := t1\<rparr>) x =
      (if kr_string_equal name x then Some f else kr_functable_search ft x)"
    using t1(3) by (simp add: kr_functable_search_def string_key.ht.lkp_law [OF t(1)]
        string_key.ht.lkp_law [OF t1(2)] null_if_absent_def)
  moreover have "kr_functable_search (ft\<lparr>ft_table := t2\<rparr>) x =
      (if kr_string_equal name x then Some None else kr_functable_search ft x)"
    using t1(3) t2(3) by (simp add: kr_functable_search_def string_key.ht.lkp_law [OF t(1)]
        string_key.ht.lkp_law [OF t2(2)] null_if_absent_def)
  ultimately show ?thesis by blast
qed

theorem functable_register_search_witness:
  "\<exists>ft ft1. kr_functable_create (\<lambda>_. 0) ''ddi'' = Some ft \<and>
     kr_functable_register ft ''f'' (Some (1 :: nat)) = Some (0, ft1) \<and>
     kr_functable_search ft1 ''f'' = Some (Some 1)"
proof -
  obtain ft :: "nat T_KRFuncTable" where ft: "kr_functable_create (\<lambda>_. 0) ''ddi'' = Some ft" "ft_ok ft"
      "ft_count ft = 0"
    using functable_create_spec [of "\<lambda>_. 0" "''ddi''"] by blast
  have "kr_string_equal ''f'' ''f''" by (simp add: kr_string_equal_def kr_string_compare_def)
  with functable_register_search [OF ft(2), of "''f''" "Some 1" "''f''"] ft show ?thesis by auto
qed

text \<open>\<open>kr_hashset_make\<close> builds exactly the set its text describes: when every token can be read, the
  call returns, and an element is found in the set iff one of the comma separated tokens denotes an
  equal key.
\<close>

theorem hashset_make_search:
  assumes "\<forall>p \<in> set (c_tokens (CHR '','') str). hashset_token ty p \<noteq> None"
    and "length (c_tokens (CHR '','') str) < 2 ^ 29"
  shows "\<exists>s. kr_hashset_make ty str = Some s \<and> hs_ok s \<and>
    (\<forall>x. kr_hashset_search s x =
       Some (\<exists>p \<in> set (c_tokens (CHR '','') str). \<exists>k. hashset_token ty p = Some (Some k) \<and> type_eq ty k x))"
proof -
  from hashset_create_spec [of str ty] obtain s0 where s0: "kr_hashset_create str ty = Some s0" "hs_ok s0"
      "hs_abs s0 = {}" "hs_count s0 = 0" "hs_type s0 = ty"
    by blast
  from hashset_add_tokens_spec [OF s0(2), of "c_tokens (CHR '','') str"] assms s0(3-5) obtain s where s:
      "hashset_add_tokens (c_tokens (CHR '','') str) s0 = Some s" "hs_ok s"
      "hs_abs s = {x. \<exists>p \<in> set (c_tokens (CHR '','') str). \<exists>k. hashset_token ty p = Some (Some k) \<and> type_eq ty k x}"
    by auto
  have "kr_hashset_make ty str = Some s" using s0(1) s(1) by (simp add: kr_hashset_make_def)
  with s(2,3) hashset_search_spec [OF s(2)] show ?thesis by auto
qed

theorem hashset_make_search_witness:
  "\<exists>s. kr_hashset_make KR_TYPE_INT ''1,-2'' = Some s \<and>
     kr_hashset_search s (KInt (- 2)) = Some True \<and> kr_hashset_search s (KInt 3) = Some False"
proof -
  have tok: "c_tokens (CHR '','') ''1,-2'' = [''1'', ''-2'']" by code_simp
  have v: "hashset_token KR_TYPE_INT ''1'' = Some (Some (KInt 1))"
      "hashset_token KR_TYPE_INT ''-2'' = Some (Some (KInt (- 2)))"
    by code_simp+
  show ?thesis
    using hashset_make_search [of "''1,-2''" KR_TYPE_INT] tok v
    by (auto simp: type_eq_def)
qed

end
