(* ===== verification/KR_List.thy ===== *)
theory KR_List
  imports KR_Prelude
begin

text \<open>
  \<open>krutils/kr_list.c\<close>: the doubly linked list every registry of the engine is kept in, and
  \<open>krutils/kr_queue.c\<close>, the bounded queue built on it. The nodes live in an explicit memory: a node
  that was freed is no longer there, so that a use after free is \<^term>\<open>None\<close>. The abstraction of a
  list is the sequence of its node addresses, from which the sequence of values is read. The memory
  holds the nodes of one list; no operation reaches another list's nodes.
\<close>

section \<open>Data\<close>

record 'v T_KRListNode =
  nd_prev :: "nat option"
  nd_next :: "nat option"
  nd_value :: 'v

type_synonym 'v node_mem = "nat \<Rightarrow> 'v T_KRListNode option"

text \<open>
  The callbacks of a list: \<open>dup\<close> returns NULL (\<^term>\<open>None\<close>) on failure, \<open>match\<close> and \<open>compare\<close> are pure
  functions of the values, \<open>free\<close> is recorded by the values it is called on. \<open>l_fresh\<close> is the
  address the next allocation returns.
\<close>

record ('v, 'u) T_KRList =
  l_head :: "nat option"
  l_tail :: "nat option"
  l_dup :: "('v \<Rightarrow> 'v option) option"
  l_free :: bool
  l_match :: "('v \<Rightarrow> 'v \<Rightarrow> bool) option"
  l_compare :: "('v \<Rightarrow> 'v \<Rightarrow> 'u \<Rightarrow> int) option"
  l_len :: u32
  l_mem :: "'v node_mem"
  l_fresh :: nat
  l_freed :: "'v list"

definition set_next :: "'v node_mem \<Rightarrow> nat \<Rightarrow> nat option \<Rightarrow> 'v node_mem option" where
  "set_next mem a n = do { nd \<leftarrow> mem a; Some (mem(a \<mapsto> nd\<lparr>nd_next := n\<rparr>)) }"

definition set_prev :: "'v node_mem \<Rightarrow> nat \<Rightarrow> nat option \<Rightarrow> 'v node_mem option" where
  "set_prev mem a p = do { nd \<leftarrow> mem a; Some (mem(a \<mapsto> nd\<lparr>nd_prev := p\<rparr>)) }"

section \<open>Operations\<close>

definition kr_list_new :: "('v, 'u) T_KRList" where
  "kr_list_new = \<lparr>l_head = None, l_tail = None, l_dup = None, l_free = False, l_match = None,
     l_compare = None, l_len = 0, l_mem = (\<lambda>_. None), l_fresh = 0, l_freed = []\<rparr>"

text \<open>Freeing \<open>len\<close> nodes from \<open>current\<close> on; what remains is the memory and the freed values.\<close>

primrec list_destroy_loop ::
  "nat \<Rightarrow> nat option \<Rightarrow> bool \<Rightarrow> 'v node_mem \<Rightarrow> 'v list \<Rightarrow> ('v node_mem \<times> 'v list) option" where
  "list_destroy_loop 0 current fr mem freed = Some (mem, freed)"
| "list_destroy_loop (Suc len) current fr mem freed = do {
     a \<leftarrow> current;
     nd \<leftarrow> mem a;
     list_destroy_loop len (nd_next nd) fr (mem(a := None)) (if fr then freed @ [nd_value nd] else freed)
   }"

definition kr_list_destroy :: "('v, 'u) T_KRList \<Rightarrow> ('v node_mem \<times> 'v list) option" where
  "kr_list_destroy l = list_destroy_loop (unat (l_len l)) (l_head l) (l_free l) (l_mem l) (l_freed l)"

definition kr_list_add_head :: "('v, 'u) T_KRList \<Rightarrow> 'v \<Rightarrow> ('v, 'u) T_KRList option" where
  "kr_list_add_head l v = do {
     let a = l_fresh l;
     if l_len l = 0
     then Some (l\<lparr>l_head := Some a, l_tail := Some a, l_fresh := a + 1, l_len := l_len l + 1,
                  l_mem := (l_mem l)(a \<mapsto> \<lparr>nd_prev = None, nd_next = None, nd_value = v\<rparr>)\<rparr>)
     else do {
       h \<leftarrow> l_head l;
       mem \<leftarrow> set_prev ((l_mem l)(a \<mapsto> \<lparr>nd_prev = None, nd_next = Some h, nd_value = v\<rparr>)) h (Some a);
       Some (l\<lparr>l_head := Some a, l_fresh := a + 1, l_len := l_len l + 1, l_mem := mem\<rparr>)
     }
   }"

definition kr_list_add_tail :: "('v, 'u) T_KRList \<Rightarrow> 'v \<Rightarrow> ('v, 'u) T_KRList option" where
  "kr_list_add_tail l v = do {
     let a = l_fresh l;
     if l_len l = 0
     then Some (l\<lparr>l_head := Some a, l_tail := Some a, l_fresh := a + 1, l_len := l_len l + 1,
                  l_mem := (l_mem l)(a \<mapsto> \<lparr>nd_prev = None, nd_next = None, nd_value = v\<rparr>)\<rparr>)
     else do {
       t \<leftarrow> l_tail l;
       mem \<leftarrow> set_next ((l_mem l)(a \<mapsto> \<lparr>nd_prev = Some t, nd_next = None, nd_value = v\<rparr>)) t (Some a);
       Some (l\<lparr>l_tail := Some a, l_fresh := a + 1, l_len := l_len l + 1, l_mem := mem\<rparr>)
     }
   }"

text \<open>The backward walk of \<open>add_sorted\<close>: the pair of the last node not after the value and its successor.\<close>

partial_function (option) sorted_walk ::
  "('v \<Rightarrow> 'v \<Rightarrow> 'u \<Rightarrow> int) option \<Rightarrow> 'v \<Rightarrow> 'u \<Rightarrow> 'v node_mem \<Rightarrow> nat option \<Rightarrow> nat option \<Rightarrow>
   (nat option \<times> nat option) option" where
  "sorted_walk cmp v u mem cur nxt =
     (case cur of
        None \<Rightarrow> Some (None, nxt)
      | Some c \<Rightarrow> do {
          nd \<leftarrow> mem c;
          if (case cmp of None \<Rightarrow> False | Some f \<Rightarrow> f v (nd_value nd) u \<ge> 0) then Some (cur, nxt)
          else sorted_walk cmp v u mem (nd_prev nd) cur
        })"

definition kr_list_add_sorted :: "('v, 'u) T_KRList \<Rightarrow> 'v \<Rightarrow> 'u \<Rightarrow> ('v, 'u) T_KRList option" where
  "kr_list_add_sorted l v u = do {
     let a = l_fresh l;
     if l_len l = 0
     then Some (l\<lparr>l_head := Some a, l_tail := Some a, l_fresh := a + 1, l_len := l_len l + 1,
                  l_mem := (l_mem l)(a \<mapsto> \<lparr>nd_prev = None, nd_next = None, nd_value = v\<rparr>)\<rparr>)
     else do {
       t \<leftarrow> l_tail l;
       tn \<leftarrow> l_mem l t;
       (prev, nxt) \<leftarrow> sorted_walk (l_compare l) v u (l_mem l) (Some t) (nd_next tn);
       let mem = (l_mem l)(a \<mapsto> \<lparr>nd_prev = prev, nd_next = nxt, nd_value = v\<rparr>);
       mem1 \<leftarrow> (case prev of Some p \<Rightarrow> set_next mem p (Some a) | None \<Rightarrow> Some mem);
       mem2 \<leftarrow> (case nxt of Some n \<Rightarrow> set_prev mem1 n (Some a) | None \<Rightarrow> Some mem1);
       Some (l\<lparr>l_head := (if prev = None then Some a else l_head l),
               l_tail := (if nxt = None then Some a else l_tail l),
               l_fresh := a + 1, l_len := l_len l + 1, l_mem := mem2\<rparr>)
     }
   }"

definition kr_list_delete :: "('v, 'u) T_KRList \<Rightarrow> nat \<Rightarrow> ('v, 'u) T_KRList option" where
  "kr_list_delete l a = do {
     nd \<leftarrow> l_mem l a;
     (hd1, mem1) \<leftarrow> (case nd_prev nd of
        Some p \<Rightarrow> do { mm \<leftarrow> set_next (l_mem l) p (nd_next nd); Some (l_head l, mm) }
      | None \<Rightarrow> Some (nd_next nd, l_mem l));
     nd1 \<leftarrow> mem1 a;
     (tl1, mem2) \<leftarrow> (case nd_next nd1 of
        Some n \<Rightarrow> do { mm \<leftarrow> set_prev mem1 n (nd_prev nd1); Some (l_tail l, mm) }
      | None \<Rightarrow> Some (nd_prev nd1, mem1));
     Some (l\<lparr>l_head := hd1, l_tail := tl1,
             l_freed := (if l_free l then l_freed l @ [nd_value nd] else l_freed l),
             l_mem := mem2(a := None), l_len := l_len l - 1\<rparr>)
   }"

partial_function (option) list_dup_loop ::
  "'v node_mem \<Rightarrow> nat option \<Rightarrow> ('v, 'u) T_KRList \<Rightarrow> ('v, 'u) T_KRList option option" where
  "list_dup_loop omem node copy =
     (case node of
        None \<Rightarrow> Some (Some copy)
      | Some a \<Rightarrow> do {
          nd \<leftarrow> omem a;
          (case (case l_dup copy of Some f \<Rightarrow> f (nd_value nd) | None \<Rightarrow> Some (nd_value nd)) of
             None \<Rightarrow> do { r \<leftarrow> kr_list_destroy copy; Some None }
           | Some v \<Rightarrow> do {
               copy' \<leftarrow> kr_list_add_tail copy v;
               list_dup_loop omem (nd_next nd) copy'
             })
        })"

definition kr_list_dup :: "('v, 'u) T_KRList \<Rightarrow> ('v, 'u) T_KRList option option" where
  "kr_list_dup orig = list_dup_loop (l_mem orig) (l_head orig)
     (kr_list_new\<lparr>l_dup := l_dup orig, l_free := l_free orig, l_match := l_match orig,
                  l_compare := l_compare orig\<rparr>)"

partial_function (option) list_foreach_loop ::
  "('v \<Rightarrow> 's \<Rightarrow> 's) \<Rightarrow> 'v node_mem \<Rightarrow> nat option \<Rightarrow> 's \<Rightarrow> 's option" where
  "list_foreach_loop func mem node s =
     (case node of
        None \<Rightarrow> Some s
      | Some a \<Rightarrow> do { nd \<leftarrow> mem a; list_foreach_loop func mem (nd_next nd) (func (nd_value nd) s) })"

definition kr_list_foreach :: "('v, 'u) T_KRList \<Rightarrow> ('v \<Rightarrow> 's \<Rightarrow> 's) option \<Rightarrow> 's \<Rightarrow> 's option" where
  "kr_list_foreach l func s =
     list_foreach_loop (case func of Some f \<Rightarrow> f | None \<Rightarrow> (\<lambda>_ st. st)) (l_mem l) (l_head l) s"

definition list_matches :: "('v, 'u) T_KRList \<Rightarrow> 'v \<Rightarrow> 'v \<Rightarrow> bool" where
  "list_matches l v key = (case l_match l of Some f \<Rightarrow> f v key | None \<Rightarrow> key = v)"

partial_function (option) list_search_loop ::
  "('v \<Rightarrow> bool) \<Rightarrow> 'v node_mem \<Rightarrow> nat option \<Rightarrow> nat option option" where
  "list_search_loop P mem node =
     (case node of
        None \<Rightarrow> Some None
      | Some a \<Rightarrow> do {
          nd \<leftarrow> mem a;
          if P (nd_value nd) then Some (Some a) else list_search_loop P mem (nd_next nd)
        })"

definition kr_list_search :: "('v, 'u) T_KRList \<Rightarrow> 'v \<Rightarrow> nat option option" where
  "kr_list_search l key = list_search_loop (\<lambda>v. list_matches l v key) (l_mem l) (l_head l)"

fun locate_loop :: "('v T_KRListNode \<Rightarrow> nat option) \<Rightarrow> 'v node_mem \<Rightarrow> nat \<Rightarrow> nat option \<Rightarrow> nat option option" where
  "locate_loop step mem 0 n = Some n"
| "locate_loop step mem (Suc i) None = Some None"
| "locate_loop step mem (Suc i) (Some a) = do { nd \<leftarrow> mem a; locate_loop step mem i (step nd) }"

definition kr_list_locate :: "('v, 'u) T_KRList \<Rightarrow> int \<Rightarrow> nat option option" where
  "kr_list_locate l index =
     (if index < 0 then do {
        neg \<leftarrow> chk_int (- index);
        locate_loop nd_prev (l_mem l) (nat (neg - 1)) (l_tail l)
      } else locate_loop nd_next (l_mem l) (nat index) (l_head l))"

definition kr_list_remove :: "('v, 'u) T_KRList \<Rightarrow> 'v \<Rightarrow> ('v, 'u) T_KRList option" where
  "kr_list_remove l key = do {
     r \<leftarrow> list_search_loop (\<lambda>v. list_matches l v key) (l_mem l) (l_head l);
     (case r of None \<Rightarrow> Some l | Some a \<Rightarrow> kr_list_delete l a)
   }"

text \<open>The loop reads \<open>node->next\<close> after \<open>kr_list_delete\<close> may have freed the node.\<close>

partial_function (option) remove_all_loop ::
  "('v \<Rightarrow> bool) \<Rightarrow> nat option \<Rightarrow> ('v, 'u) T_KRList \<Rightarrow> ('v, 'u) T_KRList option" where
  "remove_all_loop P node l =
     (case node of
        None \<Rightarrow> Some l
      | Some a \<Rightarrow> do {
          nd \<leftarrow> l_mem l a;
          l' \<leftarrow> (if P (nd_value nd) then kr_list_delete l a else Some l);
          nd' \<leftarrow> l_mem l' a;
          remove_all_loop P (nd_next nd') l'
        })"

definition kr_list_remove_all :: "('v, 'u) T_KRList \<Rightarrow> 'v \<Rightarrow> ('v, 'u) T_KRList option" where
  "kr_list_remove_all l key = remove_all_loop (\<lambda>v. list_matches l v key) (l_head l) l"

definition kr_list_move_head :: "('v, 'u) T_KRList \<Rightarrow> nat \<Rightarrow> ('v, 'u) T_KRList option" where
  "kr_list_move_head l a = do {
     nd \<leftarrow> l_mem l a;
     (case nd_prev nd of
        None \<Rightarrow> Some l
      | Some p \<Rightarrow> do {
          mem1 \<leftarrow> set_next (l_mem l) p (nd_next nd);
          (tl1, mem2) \<leftarrow> (case nd_next nd of
             Some n \<Rightarrow> do { mm \<leftarrow> set_prev mem1 n (Some p); Some (l_tail l, mm) }
           | None \<Rightarrow> Some (Some p, mem1));
          mem3 \<leftarrow> set_prev mem2 a None;
          mem4 \<leftarrow> set_next mem3 a (l_head l);
          h \<leftarrow> l_head l;
          mem5 \<leftarrow> set_prev mem4 h (Some a);
          Some (l\<lparr>l_head := Some a, l_tail := tl1, l_mem := mem5\<rparr>)
        })
   }"

section \<open>The queue\<close>

record 'v kr_queue_t =
  q_list :: "('v, unit) T_KRList"
  q_hwm :: u32

definition kr_queue_init :: "u32 \<Rightarrow> 'v kr_queue_t" where
  "kr_queue_init hwm = \<lparr>q_list = kr_list_new, q_hwm = hwm\<rparr>"

definition kr_queue_push :: "'v kr_queue_t \<Rightarrow> 'v \<Rightarrow> (int \<times> 'v kr_queue_t) option" where
  "kr_queue_push q v =
     (if l_len (q_list q) \<ge> q_hwm q then Some (- 1, q)
      else do { l \<leftarrow> kr_list_add_tail (q_list q) v; Some (0, q\<lparr>q_list := l\<rparr>) })"

definition kr_queue_pop :: "'v kr_queue_t \<Rightarrow> ('v option \<times> 'v kr_queue_t) option" where
  "kr_queue_pop q =
     (if l_len (q_list q) \<le> 0 then Some (None, q)
      else case l_head (q_list q) of
        None \<Rightarrow> Some (None, q)
      | Some a \<Rightarrow> do {
          nd \<leftarrow> l_mem (q_list q) a;
          l \<leftarrow> kr_list_delete (q_list q) a;
          Some (Some (nd_value nd), q\<lparr>q_list := l\<rparr>)
        })"

definition kr_queue_fini :: "'v kr_queue_t option \<Rightarrow> ('v node_mem \<times> 'v list) option" where
  "kr_queue_fini q = (case q of None \<Rightarrow> Some (\<lambda>_. None, []) | Some q \<Rightarrow> kr_list_destroy (q_list q))"

definition kr_queue_length :: "'v kr_queue_t \<Rightarrow> u32" where
  "kr_queue_length q = l_len (q_list q)"

definition kr_queue_is_empty :: "'v kr_queue_t \<Rightarrow> bool" where
  "kr_queue_is_empty q = (l_len (q_list q) = 0)"

section \<open>Chains of nodes\<close>

definition first_of :: "nat list \<Rightarrow> nat option \<Rightarrow> nat option" where
  "first_of as n = (case as of [] \<Rightarrow> n | a # _ \<Rightarrow> Some a)"

definition last_of :: "nat option \<Rightarrow> nat list \<Rightarrow> nat option" where
  "last_of p as = (if as = [] then p else Some (last as))"

text \<open>\<open>seg mem p as n\<close>: the nodes \<open>as\<close> are linked in this order, between \<open>p\<close> and \<open>n\<close>.\<close>

primrec seg :: "'v node_mem \<Rightarrow> nat option \<Rightarrow> nat list \<Rightarrow> nat option \<Rightarrow> bool" where
  "seg mem p [] n = True"
| "seg mem p (a # as) n =
     ((\<exists>v. mem a = Some \<lparr>nd_prev = p, nd_next = first_of as n, nd_value = v\<rparr>) \<and> seg mem (Some a) as n)"

definition val_at :: "'v node_mem \<Rightarrow> nat \<Rightarrow> 'v" where
  "val_at mem a = nd_value (the (mem a))"

lemma first_of_simps [simp]: "first_of [] n = n" "first_of (a # as) n = Some a"
  by (simp_all add: first_of_def)

lemma last_of_simps [simp]:
  "last_of p [] = p" "last_of p (a # as) = last_of (Some a) as" "last_of p (as @ [a]) = Some a"
  by (simp_all add: last_of_def)

lemma first_of_append: "first_of (as @ bs) n = first_of as (first_of bs n)"
  by (cases as) simp_all

lemma last_of_append: "last_of p (as @ bs) = last_of (last_of p as) bs"
  by (simp add: last_of_def)

lemma seg_append: "seg mem p (as @ bs) n \<longleftrightarrow> seg mem p as (first_of bs n) \<and> seg mem (last_of p as) bs n"
  by (induction as arbitrary: p) (auto simp: first_of_append)

lemma seg_other [simp]: "a \<notin> set as \<Longrightarrow> seg (mem(a := x)) p as n \<longleftrightarrow> seg mem p as n"
  by (induction as arbitrary: p) auto

lemma seg_mem: "seg mem p as n \<Longrightarrow> a \<in> set as \<Longrightarrow> \<exists>nd. mem a = Some nd"
  by (induction as arbitrary: p) auto

definition dll :: "('v, 'u) T_KRList \<Rightarrow> nat list \<Rightarrow> bool" where
  "dll l as \<longleftrightarrow> distinct as \<and> seg (l_mem l) None as None \<and> l_head l = first_of as None \<and>
     l_tail l = last_of None as \<and> dom (l_mem l) = set as \<and> (\<forall>a \<in> set as. a < l_fresh l) \<and>
     length as < 2 ^ 32 \<and> l_len l = of_nat (length as)"

definition l_vals :: "('v, 'u) T_KRList \<Rightarrow> nat list \<Rightarrow> 'v list" where
  "l_vals l as = map (val_at (l_mem l)) as"

definition same_conf :: "('v, 'u) T_KRList \<Rightarrow> ('v, 'u) T_KRList \<Rightarrow> bool" where
  "same_conf l l' \<longleftrightarrow> l_dup l' = l_dup l \<and> l_free l' = l_free l \<and> l_match l' = l_match l \<and> l_compare l' = l_compare l"

lemma dll_len: "dll l as \<Longrightarrow> unat (l_len l) = length as"
  by (simp add: dll_def unat_of_nat take_bit_nat_eq_self)

lemma dll_len_0: "dll l as \<Longrightarrow> l_len l = 0 \<longleftrightarrow> as = []"
  using dll_len [of l as] by (auto simp: unat_eq_0 [symmetric])

lemma dll_new [simp]: "dll kr_list_new []"
  by (simp add: dll_def kr_list_new_def)

end
