(* ===== verification/KR_List_Seq.thy ===== *)
theory KR_List_Seq
  imports KR_List
begin

text \<open>
  The linked list implements a sequence: \<open>dll l as\<close> relates a list to the sequence of its node
  addresses, and every operation is shown to return and to perform the sequence operation it is
  named after, without leaking a node (the memory's domain is exactly the set of the nodes). The one
  exception is \<open>kr_list_remove_all\<close>, which reads a freed node as soon as something matches.
\<close>

section \<open>Relinking\<close>

lemma seg_cong: "(\<And>a. a \<in> set as \<Longrightarrow> mem' a = mem a) \<Longrightarrow> seg mem' p as n \<longleftrightarrow> seg mem p as n"
  by (induction as arbitrary: p) auto

lemma set_next_val:
  assumes "set_next mem a n = Some mem'"
  shows "val_at mem' = val_at mem" and "dom mem' = dom mem" and "b \<noteq> a \<Longrightarrow> mem' b = mem b"
  using assms by (auto simp: set_next_def val_at_def partial_Some intro!: ext split: if_splits)

lemma set_prev_val:
  assumes "set_prev mem a n = Some mem'"
  shows "val_at mem' = val_at mem" and "dom mem' = dom mem" and "b \<noteq> a \<Longrightarrow> mem' b = mem b"
  using assms by (auto simp: set_prev_def val_at_def partial_Some intro!: ext split: if_splits)

text \<open>Redirecting what follows a chain, and what precedes one; an empty chain has no node to change.\<close>

definition link_left :: "'v node_mem \<Rightarrow> nat option \<Rightarrow> nat option \<Rightarrow> 'v node_mem option" where
  "link_left mem po t = (case po of Some p \<Rightarrow> set_next mem p t | None \<Rightarrow> Some mem)"

definition link_right :: "'v node_mem \<Rightarrow> nat option \<Rightarrow> nat option \<Rightarrow> 'v node_mem option" where
  "link_right mem no t = (case no of Some n \<Rightarrow> set_prev mem n t | None \<Rightarrow> Some mem)"

lemma link_left_seg:
  assumes "seg mem None xs n" and "distinct xs"
  shows "\<exists>mem'. link_left mem (last_of None xs) t = Some mem' \<and> seg mem' None xs t \<and>
    val_at mem' = val_at mem \<and> dom mem' = dom mem \<and> (\<forall>b. b \<notin> set xs \<longrightarrow> mem' b = mem b)"
proof (cases xs rule: rev_cases)
  case Nil
  then show ?thesis by (simp add: link_left_def)
next
  case (snoc ys a)
  with assms obtain v where v: "mem a = Some \<lparr>nd_prev = last_of None ys, nd_next = n, nd_value = v\<rparr>"
    by (auto simp: seg_append)
  then obtain mem' where mem': "set_next mem a t = Some mem'"
      "mem' = mem(a \<mapsto> \<lparr>nd_prev = last_of None ys, nd_next = t, nd_value = v\<rparr>)"
    by (simp add: set_next_def)
  have "seg mem' None xs t" using assms snoc mem'(2) by (simp add: seg_append)
  with mem' snoc set_next_val [OF mem'(1)] show ?thesis by (auto simp: link_left_def)
qed

lemma link_right_seg:
  assumes "seg mem p ys None" and "distinct ys"
  shows "\<exists>mem'. link_right mem (first_of ys None) t = Some mem' \<and> seg mem' t ys None \<and>
    val_at mem' = val_at mem \<and> dom mem' = dom mem \<and> (\<forall>b. b \<notin> set ys \<longrightarrow> mem' b = mem b)"
proof (cases ys)
  case Nil
  then show ?thesis by (simp add: link_right_def)
next
  case (Cons a zs)
  with assms obtain v where v: "mem a = Some \<lparr>nd_prev = p, nd_next = first_of zs None, nd_value = v\<rparr>"
    by auto
  then obtain mem' where mem': "set_prev mem a t = Some mem'"
      "mem' = mem(a \<mapsto> \<lparr>nd_prev = t, nd_next = first_of zs None, nd_value = v\<rparr>)"
    by (simp add: set_prev_def)
  have "seg mem' t ys None" using assms Cons mem'(2) by simp
  with mem' Cons set_prev_val [OF mem'(1)] show ?thesis by (auto simp: link_right_def)
qed

text \<open>Joining two chains that are disjoint.\<close>

lemma relink:
  assumes "seg mem None xs n1" and "seg mem p1 ys None" and "distinct (xs @ ys)"
  shows "\<exists>mem1 mem2. link_left mem (last_of None xs) t = Some mem1 \<and>
    link_right mem1 (first_of ys None) s = Some mem2 \<and> seg mem2 None xs t \<and> seg mem2 s ys None \<and>
    val_at mem2 = val_at mem \<and> dom mem2 = dom mem \<and> (\<forall>b. b \<notin> set (xs @ ys) \<longrightarrow> mem2 b = mem b) \<and>
    (\<forall>b. b \<notin> set xs \<longrightarrow> mem1 b = mem b)"
proof -
  from link_left_seg [OF assms(1), of t] assms(3) obtain mem1 where m1:
      "link_left mem (last_of None xs) t = Some mem1" "seg mem1 None xs t" "val_at mem1 = val_at mem"
      "dom mem1 = dom mem" "\<forall>b. b \<notin> set xs \<longrightarrow> mem1 b = mem b"
    by auto
  have "seg mem1 p1 ys None"
    using assms(2,3) m1(5) seg_cong [of ys mem1 mem] by fastforce
  from link_right_seg [OF this, of s] assms(3) obtain mem2 where m2:
      "link_right mem1 (first_of ys None) s = Some mem2" "seg mem2 s ys None" "val_at mem2 = val_at mem1"
      "dom mem2 = dom mem1" "\<forall>b. b \<notin> set ys \<longrightarrow> mem2 b = mem1 b"
    by auto
  have "seg mem2 None xs t"
    using assms(3) m1(2) m2(5) seg_cong [of xs mem2 mem1] by fastforce
  with m1 m2 show ?thesis by auto
qed

section \<open>Insertion\<close>

lemma dllD:
  assumes "dll l as"
  shows "distinct as" "seg (l_mem l) None as None" "l_head l = first_of as None"
    "l_tail l = last_of None as" "dom (l_mem l) = set as" "\<And>a. a \<in> set as \<Longrightarrow> a < l_fresh l"
    "length as < 2 ^ 32" "l_len l = of_nat (length as)"
  using assms by (auto simp: dll_def)

text \<open>A fresh node spliced between two parts of a list.\<close>

definition spliced :: "('v, 'u) T_KRList \<Rightarrow> nat list \<Rightarrow> nat list \<Rightarrow> 'v node_mem \<Rightarrow> ('v, 'u) T_KRList" where
  "spliced l xs ys mem = l\<lparr>l_head := (if xs = [] then Some (l_fresh l) else l_head l),
     l_tail := (if ys = [] then Some (l_fresh l) else l_tail l),
     l_fresh := l_fresh l + 1, l_len := l_len l + 1, l_mem := mem\<rparr>"

lemma splice_in:
  assumes l: "dll l (xs @ ys)" and room: "Suc (length (xs @ ys)) < 2 ^ 32"
    and a_def: "a = l_fresh l"
    and mem_def: "mem = (l_mem l)(a \<mapsto> \<lparr>nd_prev = last_of None xs, nd_next = first_of ys None, nd_value = v\<rparr>)"
  shows "\<exists>mem1 mem2. link_left mem (last_of None xs) (Some a) = Some mem1 \<and>
    link_right mem1 (first_of ys None) (Some a) = Some mem2 \<and>
    dll (spliced l xs ys mem2) (xs @ a # ys) \<and>
    l_vals (spliced l xs ys mem2) (xs @ a # ys) = l_vals l xs @ v # l_vals l ys \<and>
    same_conf l (spliced l xs ys mem2) \<and> l_freed (spliced l xs ys mem2) = l_freed l"
proof -
  note d = dllD [OF l]
  have fresh: "a \<notin> set (xs @ ys)" using d(6) a_def by blast
  have "seg (l_mem l) None xs (first_of ys None)" "seg (l_mem l) (last_of None xs) ys None"
    using d(2) by (auto simp: seg_append)
  then have segs: "seg mem None xs (first_of ys None)" "seg mem (last_of None xs) ys None"
    using fresh by (auto simp: mem_def)
  from relink [OF segs d(1), of "Some a" "Some a"] obtain mem1 mem2 where m:
      "link_left mem (last_of None xs) (Some a) = Some mem1"
      "link_right mem1 (first_of ys None) (Some a) = Some mem2"
      "seg mem2 None xs (Some a)" "seg mem2 (Some a) ys None" "val_at mem2 = val_at mem"
      "dom mem2 = dom mem" "\<forall>b. b \<notin> set (xs @ ys) \<longrightarrow> mem2 b = mem b"
    by blast
  have at: "mem2 a = Some \<lparr>nd_prev = last_of None xs, nd_next = first_of ys None, nd_value = v\<rparr>"
    using m(7) fresh by (simp add: mem_def)
  have sg: "seg mem2 None (xs @ a # ys) None" using m(3,4) at by (simp add: seg_append)
  have dm: "dom mem2 = set (xs @ a # ys)" using m(6) d(5) by (auto simp: mem_def)
  have vals: "map (val_at mem2) zs = map (val_at (l_mem l)) zs" if "set zs \<subseteq> set (xs @ ys)" for zs
    using that fresh m(5) by (auto simp: mem_def val_at_def)
  have va: "val_at mem2 a = v" using at by (simp add: val_at_def)
  let ?l = "spliced l xs ys mem2"
  have "l_head ?l = first_of (xs @ a # ys) None" "l_tail ?l = last_of None (xs @ a # ys)"
    using d(3,4) by (cases xs; simp add: first_of_append spliced_def a_def;
        cases ys; simp add: last_of_append)+
  moreover have "l_len ?l = of_nat (length (xs @ a # ys))" using d(8) by (simp add: spliced_def)
  moreover have "\<forall>b \<in> set (xs @ a # ys). b < l_fresh ?l"
    using d(6) by (auto simp: spliced_def a_def intro: less_SucI)
  ultimately have "dll ?l (xs @ a # ys)"
    using d(1) sg dm fresh room unfolding dll_def by (auto simp: spliced_def)
  moreover have "l_vals ?l (xs @ a # ys) = l_vals l xs @ v # l_vals l ys"
    using vals [of xs] vals [of ys] va by (simp add: l_vals_def spliced_def)
  moreover have "same_conf l ?l" "l_freed ?l = l_freed l" by (simp_all add: same_conf_def spliced_def)
  ultimately show ?thesis using m(1,2) by blast
qed

lemma add_tail_spec:
  assumes l: "dll l as" and room: "Suc (length as) < 2 ^ 32"
  shows "\<exists>l'. kr_list_add_tail l v = Some l' \<and> dll l' (as @ [l_fresh l]) \<and>
    l_vals l' (as @ [l_fresh l]) = l_vals l as @ [v] \<and> same_conf l l' \<and> l_freed l' = l_freed l"
proof -
  have l0: "dll l (as @ [])" and room0: "Suc (length (as @ [])) < 2 ^ 32" using assms by simp_all
  from splice_in [OF l0 room0 refl refl, of v] obtain mem2 where m:
      "link_left ((l_mem l)(l_fresh l \<mapsto> \<lparr>nd_prev = last_of None as, nd_next = None, nd_value = v\<rparr>))
         (last_of None as) (Some (l_fresh l)) = Some mem2"
      "dll (spliced l as [] mem2) (as @ [l_fresh l])"
      "l_vals (spliced l as [] mem2) (as @ [l_fresh l]) = l_vals l as @ [v]"
      "same_conf l (spliced l as [] mem2)" "l_freed (spliced l as [] mem2) = l_freed l"
    by (auto simp: link_right_def l_vals_def)
  have "kr_list_add_tail l v = Some (spliced l as [] mem2)"
    using m(1) dll_len_0 [OF l] dllD(4) [OF l]
    by (cases as rule: rev_cases; cases l)
       (auto simp: kr_list_add_tail_def link_left_def spliced_def Let_def)
  with m show ?thesis by blast
qed

lemma add_head_spec:
  assumes l: "dll l as" and room: "Suc (length as) < 2 ^ 32"
  shows "\<exists>l'. kr_list_add_head l v = Some l' \<and> dll l' (l_fresh l # as) \<and>
    l_vals l' (l_fresh l # as) = v # l_vals l as \<and> same_conf l l' \<and> l_freed l' = l_freed l"
proof -
  have l0: "dll l ([] @ as)" and room0: "Suc (length ([] @ as)) < 2 ^ 32" using assms by simp_all
  from splice_in [OF l0 room0 refl refl, of v] obtain mem2 where m:
      "link_right ((l_mem l)(l_fresh l \<mapsto> \<lparr>nd_prev = None, nd_next = first_of as None, nd_value = v\<rparr>))
         (first_of as None) (Some (l_fresh l)) = Some mem2"
      "dll (spliced l [] as mem2) (l_fresh l # as)"
      "l_vals (spliced l [] as mem2) (l_fresh l # as) = v # l_vals l as"
      "same_conf l (spliced l [] as mem2)" "l_freed (spliced l [] as mem2) = l_freed l"
    by (auto simp: link_left_def l_vals_def)
  have "kr_list_add_head l v = Some (spliced l [] as mem2)"
    using m(1) dll_len_0 [OF l] dllD(3) [OF l]
    by (cases as; cases l) (auto simp: kr_list_add_head_def link_right_def spliced_def Let_def)
  with m show ?thesis by blast
qed

text \<open>The position at which \<open>add_sorted\<close> puts a value: after the last element it is not smaller than.\<close>

definition not_before :: "('v, 'u) T_KRList \<Rightarrow> 'v \<Rightarrow> 'u \<Rightarrow> 'v \<Rightarrow> bool" where
  "not_before l v u w = (case l_compare l of None \<Rightarrow> False | Some f \<Rightarrow> f v w u \<ge> 0)"

lemma sorted_walk_spec:
  "seg mem None as n \<Longrightarrow>
   \<exists>xs ys. as = xs @ ys \<and> sorted_walk cmp v u mem (last_of None as) n = Some (last_of None xs, first_of ys n) \<and>
     (\<forall>b \<in> set ys. \<not> (case cmp of None \<Rightarrow> False | Some f \<Rightarrow> f v (val_at mem b) u \<ge> 0)) \<and>
     (xs \<noteq> [] \<longrightarrow> (case cmp of None \<Rightarrow> False | Some f \<Rightarrow> f v (val_at mem (last xs)) u \<ge> 0))"
proof (induction as arbitrary: n rule: rev_induct)
  case Nil
  then show ?case by (subst sorted_walk.simps) simp
next
  case (snoc a as)
  then have sg: "seg mem None as (Some a)"
    and "\<exists>w. mem a = Some \<lparr>nd_prev = last_of None as, nd_next = n, nd_value = w\<rparr>"
    by (auto simp: seg_append)
  then obtain w where w: "mem a = Some \<lparr>nd_prev = last_of None as, nd_next = n, nd_value = w\<rparr>" by blast
  then have va: "val_at mem a = w" by (simp add: val_at_def)
  show ?case
  proof (cases "case cmp of None \<Rightarrow> False | Some f \<Rightarrow> f v w u \<ge> 0")
    case True
    then have "sorted_walk cmp v u mem (last_of None (as @ [a])) n = Some (Some a, n)"
      by (subst sorted_walk.simps) (auto simp: w split: option.splits)
    with True va show ?thesis by - (rule exI [of _ "as @ [a]"], rule exI [of _ "[]"], simp split: option.splits)
  next
    case False
    then have step: "sorted_walk cmp v u mem (last_of None (as @ [a])) n =
        sorted_walk cmp v u mem (last_of None as) (Some a)"
      by (subst sorted_walk.simps) (auto simp: w split: option.splits)
    from snoc.IH [OF sg] obtain xs ys where x: "as = xs @ ys"
        "sorted_walk cmp v u mem (last_of None as) (Some a) = Some (last_of None xs, first_of ys (Some a))"
        "\<forall>b \<in> set ys. \<not> (case cmp of None \<Rightarrow> False | Some f \<Rightarrow> f v (val_at mem b) u \<ge> 0)"
        "xs \<noteq> [] \<longrightarrow> (case cmp of None \<Rightarrow> False | Some f \<Rightarrow> f v (val_at mem (last xs)) u \<ge> 0)"
      by blast
    with step False va show ?thesis
      by - (rule exI [of _ xs], rule exI [of _ "ys @ [a]"], auto simp: first_of_append)
  qed
qed

lemma last_of_None_iff [simp]: "last_of None xs = None \<longleftrightarrow> xs = []"
  by (simp add: last_of_def)

lemma first_of_None_iff [simp]: "first_of xs None = None \<longleftrightarrow> xs = []"
  by (cases xs) simp_all

lemma add_sorted_spec:
  assumes l: "dll l as" and room: "Suc (length as) < 2 ^ 32"
  shows "\<exists>l' xs ys. kr_list_add_sorted l v u = Some l' \<and> as = xs @ ys \<and> dll l' (xs @ l_fresh l # ys) \<and>
    l_vals l' (xs @ l_fresh l # ys) = l_vals l xs @ v # l_vals l ys \<and> same_conf l l' \<and>
    (\<forall>w \<in> set (l_vals l ys). \<not> not_before l v u w) \<and>
    (xs \<noteq> [] \<longrightarrow> not_before l v u (last (l_vals l xs)))"
proof (cases as rule: rev_cases)
  case Nil
  with add_tail_spec [OF l room, of v] dll_len_0 [OF l] show ?thesis
    by (auto simp: kr_list_add_sorted_def kr_list_add_tail_def l_vals_def)
next
  case (snoc bs t)
  note d = dllD [OF l]
  from d(2) snoc obtain w where w: "l_mem l t = Some \<lparr>nd_prev = last_of None bs, nd_next = None, nd_value = w\<rparr>"
    by (auto simp: seg_append)
  from sorted_walk_spec [OF d(2), of "l_compare l" v u] obtain xs ys where x: "as = xs @ ys"
      "sorted_walk (l_compare l) v u (l_mem l) (last_of None as) None = Some (last_of None xs, first_of ys None)"
      "\<forall>b \<in> set ys. \<not> (case l_compare l of None \<Rightarrow> False | Some f \<Rightarrow> f v (val_at (l_mem l) b) u \<ge> 0)"
      "xs \<noteq> [] \<longrightarrow> (case l_compare l of None \<Rightarrow> False | Some f \<Rightarrow> f v (val_at (l_mem l) (last xs)) u \<ge> 0)"
    by blast
  have l1: "dll l (xs @ ys)" and room1: "Suc (length (xs @ ys)) < 2 ^ 32" using assms x(1) by simp_all
  from splice_in [OF l1 room1 refl refl, of v] obtain mem1 mem2 where m:
      "link_left ((l_mem l)(l_fresh l \<mapsto> \<lparr>nd_prev = last_of None xs, nd_next = first_of ys None, nd_value = v\<rparr>))
         (last_of None xs) (Some (l_fresh l)) = Some mem1"
      "link_right mem1 (first_of ys None) (Some (l_fresh l)) = Some mem2"
      "dll (spliced l xs ys mem2) (xs @ l_fresh l # ys)"
      "l_vals (spliced l xs ys mem2) (xs @ l_fresh l # ys) = l_vals l xs @ v # l_vals l ys"
      "same_conf l (spliced l xs ys mem2)"
    by blast
  have "l_len l \<noteq> 0" "l_tail l = Some t" "last_of None as = Some t"
    using dll_len_0 [OF l] d(4) snoc by simp_all
  with m(1,2) x(2) w have call: "kr_list_add_sorted l v u = Some (spliced l xs ys mem2)"
    by (simp add: kr_list_add_sorted_def Let_def link_left_def link_right_def spliced_def)
  have "\<forall>w \<in> set (l_vals l ys). \<not> not_before l v u w" "xs \<noteq> [] \<longrightarrow> not_before l v u (last (l_vals l xs))"
    using x(3,4) by (auto simp: l_vals_def not_before_def last_map)
  with call m(3-5) x(1) show ?thesis by blast
qed

section \<open>Deletion and moving to the head\<close>

lemma delete_spec:
  assumes l: "dll l (xs @ a # ys)"
  shows "\<exists>l'. kr_list_delete l a = Some l' \<and> dll l' (xs @ ys) \<and>
    l_vals l' (xs @ ys) = l_vals l xs @ l_vals l ys \<and> same_conf l l' \<and> l_mem l' a = None \<and>
    l_freed l' = (if l_free l then l_freed l @ [val_at (l_mem l) a] else l_freed l)"
proof -
  note d = dllD [OF l]
  from d(2) obtain v where v: "l_mem l a = Some \<lparr>nd_prev = last_of None xs, nd_next = first_of ys None, nd_value = v\<rparr>"
    by (auto simp: seg_append)
  have segs: "seg (l_mem l) None xs (Some a)" "seg (l_mem l) (Some a) ys None" "distinct (xs @ ys)"
    and out: "a \<notin> set xs" "a \<notin> set ys"
    using d(1,2) by (auto simp: seg_append)
  from relink [OF segs, of "first_of ys None" "last_of None xs"] obtain mem1 mem2 where m:
      "link_left (l_mem l) (last_of None xs) (first_of ys None) = Some mem1"
      "link_right mem1 (first_of ys None) (last_of None xs) = Some mem2"
      "seg mem2 None xs (first_of ys None)" "seg mem2 (last_of None xs) ys None"
      "val_at mem2 = val_at (l_mem l)" "dom mem2 = dom (l_mem l)" "\<forall>b. b \<notin> set xs \<longrightarrow> mem1 b = l_mem l b"
    by blast
  have a1: "mem1 a = l_mem l a" using m(7) out by blast
  let ?l = "l\<lparr>l_head := first_of (xs @ ys) None, l_tail := last_of None (xs @ ys),
    l_freed := (if l_free l then l_freed l @ [v] else l_freed l), l_mem := mem2(a := None),
    l_len := l_len l - 1\<rparr>"
  have call: "kr_list_delete l a = Some ?l"
  proof -
    have s1: "(case last_of None xs of
         Some p \<Rightarrow> do { mm \<leftarrow> set_next (l_mem l) p (first_of ys None); Some (l_head l, mm) }
       | None \<Rightarrow> Some (first_of ys None, l_mem l)) = Some (first_of (xs @ ys) None, mem1)"
      using m(1) d(3) by (cases xs rule: rev_cases) (auto simp: link_left_def first_of_append)
    have s2: "(case first_of ys None of
         Some n \<Rightarrow> do { mm \<leftarrow> set_prev mem1 n (last_of None xs); Some (l_tail l, mm) }
       | None \<Rightarrow> Some (last_of None xs, mem1)) = Some (last_of None (xs @ ys), mem2)"
      using m(2) d(4) by (cases ys) (auto simp: link_right_def last_of_append)
    show ?thesis using v a1 s1 s2 by (simp add: kr_list_delete_def cong: option.case_cong)
  qed
  have "seg (mem2(a := None)) None (xs @ ys) None" using m(3,4) out by (simp add: seg_append)
  then have "dll ?l (xs @ ys)"
    using d(1,5-8) m(6) out unfolding dll_def by auto
  moreover have "l_vals ?l (xs @ ys) = l_vals l xs @ l_vals l ys"
  proof -
    have ne: "val_at (mem2(a := None)) b = val_at (l_mem l) b" if "b \<noteq> a" for b
      using that fun_cong [OF m(5), of b] by (simp add: val_at_def)
    then show ?thesis using out by (auto simp: l_vals_def intro!: ne)
  qed
  ultimately show ?thesis using call v by (auto simp: same_conf_def val_at_def)
qed

lemma move_head_spec:
  assumes l: "dll l (xs @ a # ys)"
  shows "\<exists>l'. kr_list_move_head l a = Some l' \<and> dll l' (a # xs @ ys) \<and>
    l_vals l' (a # xs @ ys) = val_at (l_mem l) a # l_vals l xs @ l_vals l ys \<and> same_conf l l' \<and>
    l_freed l' = l_freed l"
proof (cases xs)
  case Nil
  with dllD(2) [OF l] l show ?thesis
    by (auto simp: kr_list_move_head_def l_vals_def same_conf_def)
next
  case (Cons h zs)
  note d = dllD [OF l]
  from d(2) obtain v where v: "l_mem l a = Some \<lparr>nd_prev = last_of None xs, nd_next = first_of ys None, nd_value = v\<rparr>"
    by (auto simp: seg_append)
  obtain p where p: "last_of None xs = Some p" using Cons by (auto simp: last_of_def)
  have segs: "seg (l_mem l) None xs (Some a)" "seg (l_mem l) (Some a) ys None" "distinct (xs @ ys)"
    and out: "a \<notin> set xs" "a \<notin> set ys"
    using d(1,2) by (auto simp: seg_append)
  from relink [OF segs, of "first_of ys None" "Some p"] obtain mem1 mem2 where m:
      "link_left (l_mem l) (last_of None xs) (first_of ys None) = Some mem1"
      "link_right mem1 (first_of ys None) (Some p) = Some mem2"
      "seg mem2 None xs (first_of ys None)" "seg mem2 (Some p) ys None"
      "val_at mem2 = val_at (l_mem l)" "dom mem2 = dom (l_mem l)"
      "\<forall>b. b \<notin> set (xs @ ys) \<longrightarrow> mem2 b = l_mem l b"
    by blast
  have a2: "mem2 a = l_mem l a" using m(7) out by auto
  let ?mem4 = "mem2(a \<mapsto> \<lparr>nd_prev = None, nd_next = Some h, nd_value = v\<rparr>)"
  have rest: "seg mem2 None (xs @ ys) None" using m(3,4) p by (simp add: seg_append)
  then have "seg ?mem4 None (h # zs @ ys) None" using out Cons by simp
  from link_right_seg [OF this, of "Some a"] segs(3) Cons obtain mem5 where m5:
      "set_prev ?mem4 h (Some a) = Some mem5" "seg mem5 (Some a) (xs @ ys) None"
      "val_at mem5 = val_at ?mem4" "dom mem5 = dom ?mem4" "\<forall>b. b \<notin> set (xs @ ys) \<longrightarrow> mem5 b = ?mem4 b"
    by (auto simp: link_right_def)
  let ?l = "l\<lparr>l_head := Some a, l_tail := (if ys = [] then Some p else l_tail l), l_mem := mem5\<rparr>"
  have s1: "set_next (l_mem l) p (first_of ys None) = Some mem1" using m(1) p by (simp add: link_left_def)
  have s2: "(case first_of ys None of
       Some n \<Rightarrow> do { mm \<leftarrow> set_prev mem1 n (Some p); Some (l_tail l, mm) }
     | None \<Rightarrow> Some (Some p, mem1)) = Some ((if ys = [] then Some p else l_tail l), mem2)"
    using m(2) by (cases ys) (simp_all add: link_right_def)
  have s34: "do { mem3 \<leftarrow> set_prev mem2 a None; set_next mem3 a (Some h) } = Some ?mem4"
    using a2 v by (simp add: set_prev_def set_next_def)
  have "l_head l = Some h" using d(3) Cons by simp
  with s1 s2 s34 m5(1) v p have call: "kr_list_move_head l a = Some ?l"
    by (auto simp: kr_list_move_head_def bind_eq_Some_conv cong: option.case_cong)
  have a5: "mem5 a = Some \<lparr>nd_prev = None, nd_next = Some h, nd_value = v\<rparr>" using m5(5) out by auto
  have "seg mem5 None (a # xs @ ys) None" using m5(2) a5 Cons by simp
  moreover have "dom mem5 = set (a # xs @ ys)" using m5(4) m(6) d(5) by auto
  moreover have "l_tail ?l = last_of None (a # xs @ ys)"
    using d(4) p Cons by (cases ys) (auto simp: last_of_append)
  ultimately have "dll ?l (a # xs @ ys)" using d(1,6-8) unfolding dll_def by auto
  moreover have "l_vals ?l (a # xs @ ys) = val_at (l_mem l) a # l_vals l xs @ l_vals l ys"
  proof -
    have "val_at mem5 b = val_at (l_mem l) b" for b
      using fun_cong [OF m5(3), of b] fun_cong [OF m(5), of b] v by (cases "b = a") (simp_all add: val_at_def)
    then show ?thesis by (simp add: l_vals_def)
  qed
  ultimately show ?thesis using call by (auto simp: same_conf_def)
qed

section \<open>Searching and walking\<close>

lemma search_loop_spec:
  assumes "seg mem p as None"
  shows "list_search_loop P mem (first_of as None) = Some (find (\<lambda>a. P (val_at mem a)) as)"
  using assms
proof (induction as arbitrary: p)
  case Nil
  then show ?case by (subst list_search_loop.simps) simp
next
  case (Cons a as)
  then obtain v where v: "mem a = Some \<lparr>nd_prev = p, nd_next = first_of as None, nd_value = v\<rparr>" by auto
  with Cons show ?case by (subst list_search_loop.simps) (auto simp: val_at_def)
qed

lemma foreach_loop_spec:
  assumes "seg mem p as None"
  shows "list_foreach_loop f mem (first_of as None) s = Some (fold f (map (val_at mem) as) s)"
  using assms
proof (induction as arbitrary: p s)
  case Nil
  then show ?case by (subst list_foreach_loop.simps) simp
next
  case (Cons a as)
  then obtain v where v: "mem a = Some \<lparr>nd_prev = p, nd_next = first_of as None, nd_value = v\<rparr>" by auto
  then have "val_at mem a = v" by (simp add: val_at_def)
  with v Cons show ?case by (subst list_foreach_loop.simps) simp
qed

lemma locate_next_spec:
  assumes "seg mem p as None"
  shows "locate_loop nd_next mem i (first_of as None) = Some (if i < length as then Some (as ! i) else None)"
  using assms
proof (induction as arbitrary: p i)
  case Nil
  then show ?case by (cases i) simp_all
next
  case (Cons a as)
  then obtain v where v: "mem a = Some \<lparr>nd_prev = p, nd_next = first_of as None, nd_value = v\<rparr>" by auto
  with Cons show ?case by (cases i) auto
qed

lemma locate_prev_spec:
  assumes "seg mem None as n"
  shows "locate_loop nd_prev mem i (last_of None as) =
    Some (if i < length as then Some (as ! (length as - Suc i)) else None)"
  using assms
proof (induction as arbitrary: n i rule: rev_induct)
  case Nil
  then show ?case by (cases i) simp_all
next
  case (snoc a as)
  then have sg: "seg mem None as (Some a)" by (simp add: seg_append)
  from snoc.prems obtain v where v: "mem a = Some \<lparr>nd_prev = last_of None as, nd_next = n, nd_value = v\<rparr>"
    by (auto simp: seg_append)
  with snoc.IH [OF sg] show ?case by (cases i) (auto simp: nth_append)
qed

lemma destroy_loop_spec:
  assumes "seg mem p as n" and "distinct as"
  shows "list_destroy_loop (length as) (first_of as n) fr mem freed =
    Some (\<lambda>b. if b \<in> set as then None else mem b, if fr then freed @ map (val_at mem) as else freed)"
  using assms
proof (induction as arbitrary: p mem freed)
  case Nil
  then show ?case by simp
next
  case (Cons a as)
  then obtain v where v: "mem a = Some \<lparr>nd_prev = p, nd_next = first_of as n, nd_value = v\<rparr>" by auto
  have sg: "seg (mem(a := None)) (Some a) as n" using Cons.prems by simp
  have vals: "map (val_at (mem(a := None))) as = map (val_at mem) as"
    using Cons.prems(2) by (auto simp: val_at_def)
  have fe: "(\<lambda>b. if b \<in> set (a # as) then None else mem b) =
      (\<lambda>b. if b \<in> set as then None else (mem(a := None)) b)" by auto
  have "distinct as" using Cons.prems(2) by simp
  then have "list_destroy_loop (length as) (first_of as n) fr (mem(a := None)) fd =
      Some (\<lambda>b. if b \<in> set (a # as) then None else mem b, if fr then fd @ map (val_at mem) as else fd)" for fd
    unfolding fe vals [symmetric] by (rule Cons.IH [OF sg])
  moreover have "val_at mem a = v" using v by (simp add: val_at_def)
  ultimately show ?case using v by simp
qed

text \<open>
  \<open>kr_list_remove\<close> takes out the first match; \<open>kr_list_remove_all\<close> is fine only when nothing
  matches: the first match makes it read the freed node.
\<close>

lemma remove_spec:
  assumes l: "dll l as"
  shows "\<exists>l' as'. kr_list_remove l key = Some l' \<and> dll l' as' \<and> same_conf l l' \<and>
    l_vals l' as' = (case find (\<lambda>a. list_matches l (val_at (l_mem l) a) key) as of
       None \<Rightarrow> l_vals l as | Some a \<Rightarrow> l_vals l (remove1 a as))"
proof -
  note d = dllD [OF l]
  let ?P = "\<lambda>a. list_matches l (val_at (l_mem l) a) key"
  have srch: "list_search_loop (\<lambda>v. list_matches l v key) (l_mem l) (l_head l) = Some (find ?P as)"
    using search_loop_spec [OF d(2)] d(3) by simp
  show ?thesis
  proof (cases "find ?P as")
    case None
    with srch l show ?thesis by (auto simp: kr_list_remove_def same_conf_def)
  next
    case (Some a)
    then have "a \<in> set as" by (auto simp: find_Some_iff)
    then obtain xs ys where x: "as = xs @ a # ys" by (meson split_list)
    with d(1) have r1: "remove1 a as = xs @ ys" by (simp add: remove1_append)
    from delete_spec [of l xs a ys] l x obtain l' where "kr_list_delete l a = Some l'" "dll l' (xs @ ys)"
        "l_vals l' (xs @ ys) = l_vals l xs @ l_vals l ys" "same_conf l l'"
      by blast
    with srch Some r1 show ?thesis by (auto simp: kr_list_remove_def l_vals_def)
  qed
qed

lemma remove_all_loop_spec:
  assumes "dll l (xs @ as)"
  shows "remove_all_loop P (first_of as None) l =
    (if \<exists>a \<in> set as. P (val_at (l_mem l) a) then None else Some l)"
  using assms
proof (induction as arbitrary: xs)
  case Nil
  then show ?case by (subst remove_all_loop.simps) simp
next
  case (Cons a as)
  from dllD(2) [OF Cons.prems] obtain v where
    v: "l_mem l a = Some \<lparr>nd_prev = last_of None xs, nd_next = first_of as None, nd_value = v\<rparr>"
    by (auto simp: seg_append)
  show ?case
  proof (cases "P v")
    case True
    from delete_spec [OF Cons.prems] obtain l' where "kr_list_delete l a = Some l'" "l_mem l' a = None" by blast
    with True v show ?thesis by (subst remove_all_loop.simps) (simp add: val_at_def)
  next
    case False
    with v Cons.IH [of "xs @ [a]"] Cons.prems show ?thesis
      by (subst remove_all_loop.simps) (simp add: val_at_def)
  qed
qed

end
