(* ===== verification/KR_List_Props.thy ===== *)
theory KR_List_Props
  imports KR_List_Seq
begin

text \<open>
  The sequence a list stands for, read off by its own traversal, and the properties of
  \<open>kr_list.c\<close> and \<open>kr_queue.c\<close>. The interface between the queue and its users is the locale
  \<open>bounded_fifo\<close>, which the queue interprets.
\<close>

definition l_seq :: "('v, 'u) T_KRList \<Rightarrow> 'v list" where
  "l_seq l = (case kr_list_foreach l (Some (\<lambda>v s. s @ [v])) [] of Some vs \<Rightarrow> vs | None \<Rightarrow> [])"

definition l_ok :: "('v, 'u) T_KRList \<Rightarrow> bool" where
  "l_ok l \<longleftrightarrow> (\<exists>as. dll l as)"

lemma fold_snoc: "fold (\<lambda>v s. s @ [v]) xs ys = ys @ xs"
  by (induction xs arbitrary: ys) simp_all

lemma dll_seq: "dll l as \<Longrightarrow> l_seq l = l_vals l as"
  using foreach_loop_spec [OF dllD(2), of l as "\<lambda>v s. s @ [v]" "[]"] dllD(3) [of l as]
  by (simp add: l_seq_def kr_list_foreach_def fold_snoc l_vals_def)

lemma l_okE:
  assumes "l_ok l"
  obtains as where "dll l as" and "l_seq l = l_vals l as" and "length as = length (l_seq l)"
proof -
  from assms obtain as where as: "dll l as" by (auto simp: l_ok_def)
  with dll_seq [OF as] that show thesis by (simp add: l_vals_def)
qed

lemma l_ok_new [simp]: "l_ok kr_list_new" "l_seq kr_list_new = []"
  using dll_new dll_seq [OF dll_new] unfolding l_ok_def by (blast, simp add: l_vals_def)

lemma add_tail_seq:
  assumes "l_ok l" and "Suc (length (l_seq l)) < 2 ^ 32"
  shows "\<exists>l'. kr_list_add_tail l v = Some l' \<and> l_ok l' \<and> l_seq l' = l_seq l @ [v] \<and> same_conf l l'"
proof -
  from assms(1) obtain as where as: "dll l as" "l_seq l = l_vals l as" "length as = length (l_seq l)"
    by (rule l_okE)
  with add_tail_spec [OF as(1), of v] assms(2) show ?thesis
    by (metis dll_seq l_ok_def)
qed

lemma l_ok_length: "l_ok l \<Longrightarrow> unat (l_len l) = length (l_seq l)"
  by (metis l_okE dll_len)

section \<open>The interface of a bounded queue\<close>

text \<open>Histories of pushes and pops in any order, with what each call answers.\<close>

datatype 'v fifo_op = Push 'v | Pop
datatype 'v fifo_res = Pushed int | Popped "'v option"

primrec fifo_run ::
  "('q \<Rightarrow> 'v \<Rightarrow> (int \<times> 'q) option) \<Rightarrow> ('q \<Rightarrow> ('v option \<times> 'q) option) \<Rightarrow> 'v fifo_op list \<Rightarrow> 'q \<Rightarrow>
   ('v fifo_res list \<times> 'q) option" where
  "fifo_run push pop [] q = Some ([], q)"
| "fifo_run push pop (p # ps) q = do {
     (r, q1) \<leftarrow> (case p of
        Push v \<Rightarrow> do { (r, q1) \<leftarrow> push q v; Some (Pushed r, q1) }
      | Pop \<Rightarrow> do { (v, q1) \<leftarrow> pop q; Some (Popped v, q1) });
     (rs, q2) \<leftarrow> fifo_run push pop ps q1;
     Some (r # rs, q2)
   }"

text \<open>The specification: a sequence of at most \<open>cap\<close> values.\<close>

fun fifo_spec :: "nat \<Rightarrow> 'v fifo_op list \<Rightarrow> 'v list \<Rightarrow> 'v fifo_res list \<times> 'v list" where
  "fifo_spec cap [] xs = ([], xs)"
| "fifo_spec cap (Push v # ps) xs =
     (let (r, ys) = (if length xs < cap then (0, xs @ [v]) else (- 1, xs)); (rs, zs) = fifo_spec cap ps ys
      in (Pushed r # rs, zs))"
| "fifo_spec cap (Pop # ps) [] = (let (rs, zs) = fifo_spec cap ps [] in (Popped None # rs, zs))"
| "fifo_spec cap (Pop # ps) (x # xs) = (let (rs, zs) = fifo_spec cap ps xs in (Popped (Some x) # rs, zs))"

text \<open>The values a history puts into the queue, and the values it takes out.\<close>

fun accepted :: "'v fifo_op list \<Rightarrow> 'v fifo_res list \<Rightarrow> 'v list" where
  "accepted (Push v # ps) (Pushed r # rs) = (if r = 0 then v # accepted ps rs else accepted ps rs)"
| "accepted (p # ps) (r # rs) = accepted ps rs"
| "accepted _ _ = []"

fun popped :: "'v fifo_res list \<Rightarrow> 'v list" where
  "popped [] = []"
| "popped (Popped (Some v) # rs) = v # popped rs"
| "popped (_ # rs) = popped rs"

lemma fifo_spec_order:
  "fifo_spec cap ps xs = (rs, zs) \<Longrightarrow> popped rs @ zs = xs @ accepted ps rs"
  by (induction cap ps xs arbitrary: rs zs rule: fifo_spec.induct) (auto split: prod.splits if_splits)

lemma fifo_spec_length: "fifo_spec cap ps xs = (rs, zs) \<Longrightarrow> length xs \<le> cap \<Longrightarrow> length zs \<le> cap"
  by (induction cap ps xs arbitrary: rs zs rule: fifo_spec.induct) (auto split: prod.splits if_splits)

locale bounded_fifo =
  fixes ok :: "'q \<Rightarrow> bool"
    and seq :: "'q \<Rightarrow> 'v list"
    and cap :: "'q \<Rightarrow> nat"
    and push :: "'q \<Rightarrow> 'v \<Rightarrow> (int \<times> 'q) option"
    and pop :: "'q \<Rightarrow> ('v option \<times> 'q) option"
  assumes push_law: "ok q \<Longrightarrow> \<exists>q'. push q v = Some (if length (seq q) < cap q then 0 else - 1, q') \<and>
      ok q' \<and> cap q' = cap q \<and> seq q' = (if length (seq q) < cap q then seq q @ [v] else seq q)"
    and pop_law: "ok q \<Longrightarrow> \<exists>q'. pop q = Some (case seq q of [] \<Rightarrow> None | v # _ \<Rightarrow> Some v, q') \<and>
      ok q' \<and> cap q' = cap q \<and> seq q' = tl (seq q)"
begin

text \<open>First in, first out, along every history.\<close>

lemma run_law:
  "ok q \<Longrightarrow> \<exists>q'. fifo_run push pop ps q = Some (fst (fifo_spec (cap q) ps (seq q)), q') \<and>
     ok q' \<and> cap q' = cap q \<and> seq q' = snd (fifo_spec (cap q) ps (seq q))"
proof (induction ps arbitrary: q)
  case Nil
  then show ?case by simp
next
  case (Cons p ps)
  show ?case
  proof (cases p)
    case (Push v)
    from push_law [OF Cons.prems, of v] obtain q1 where q1: "push q v = Some (if length (seq q) < cap q then 0 else - 1, q1)"
        "ok q1" "cap q1 = cap q" "seq q1 = (if length (seq q) < cap q then seq q @ [v] else seq q)"
      by blast
    from Cons.IH [OF q1(2)] q1 Push show ?thesis by (cases "length (seq q) < cap q") (auto split: prod.splits)
  next
    case Pop
    from pop_law [OF Cons.prems] obtain q1 where q1: "pop q = Some (case seq q of [] \<Rightarrow> None | v # _ \<Rightarrow> Some v, q1)"
        "ok q1" "cap q1 = cap q" "seq q1 = tl (seq q)"
      by blast
    from Cons.IH [OF q1(2)] q1 Pop show ?thesis by (cases "seq q") (auto split: prod.splits)
  qed
qed

end

definition q_ok :: "'v kr_queue_t \<Rightarrow> bool" where
  "q_ok q \<longleftrightarrow> l_ok (q_list q) \<and> length (l_seq (q_list q)) \<le> unat (q_hwm q)"

definition q_seq :: "'v kr_queue_t \<Rightarrow> 'v list" where
  "q_seq q = l_seq (q_list q)"

definition q_cap :: "'v kr_queue_t \<Rightarrow> nat" where
  "q_cap q = unat (q_hwm q)"

lemma queue_push_spec:
  assumes "q_ok q"
  shows "\<exists>q'. kr_queue_push q v = Some (if length (q_seq q) < q_cap q then 0 else - 1, q') \<and>
    q_ok q' \<and> q_cap q' = q_cap q \<and> q_seq q' = (if length (q_seq q) < q_cap q then q_seq q @ [v] else q_seq q)"
proof -
  from assms have l: "l_ok (q_list q)" and len: "length (l_seq (q_list q)) \<le> unat (q_hwm q)"
    by (auto simp: q_ok_def)
  have iff: "l_len (q_list q) \<ge> q_hwm q \<longleftrightarrow> \<not> length (q_seq q) < q_cap q"
    by (simp add: q_seq_def q_cap_def word_le_nat_alt l_ok_length [OF l] not_less)
  have "unat (q_hwm q) < 2 ^ 32" using unsigned_less [of "q_hwm q"] by simp
  then have "Suc (length (l_seq (q_list q))) < 2 ^ 32" if "length (q_seq q) < q_cap q"
    using that by (simp add: q_seq_def q_cap_def)
  with add_tail_seq [OF l, of v] iff assms show ?thesis
    by (auto simp: kr_queue_push_def q_ok_def q_seq_def q_cap_def)
qed

lemma queue_pop_spec:
  assumes "q_ok q"
  shows "\<exists>q'. kr_queue_pop q = Some (case q_seq q of [] \<Rightarrow> None | v # _ \<Rightarrow> Some v, q') \<and>
    q_ok q' \<and> q_cap q' = q_cap q \<and> q_seq q' = tl (q_seq q)"
proof -
  let ?l = "q_list q"
  from assms have "l_ok ?l" and len: "length (l_seq ?l) \<le> unat (q_hwm q)" by (auto simp: q_ok_def)
  then obtain as where as: "dll ?l as" "l_seq ?l = l_vals ?l as" by (auto elim: l_okE)
  show ?thesis
  proof (cases as)
    case Nil
    with as dll_len_0 [OF as(1)] assms show ?thesis
      by (simp add: kr_queue_pop_def q_seq_def l_vals_def)
  next
    case (Cons a bs)
    with as(1) have d: "dll ?l ([] @ a # bs)" by simp
    from delete_spec [OF d] obtain l' where l': "kr_list_delete ?l a = Some l'" "dll l' bs"
        "l_vals l' bs = l_vals ?l bs"
      by (auto simp: l_vals_def)
    from dllD(2,3) [OF as(1)] Cons obtain v where v: "l_head ?l = Some a" "l_mem ?l a = Some v" by auto
    have "\<not> l_len ?l \<le> 0" using dll_len_0 [OF as(1)] Cons by (simp add: word_le_nat_alt unat_eq_zero)
    then have call: "kr_queue_pop q = Some (Some (nd_value v), q\<lparr>q_list := l'\<rparr>)"
      using v l'(1) by (simp add: kr_queue_pop_def)
    have seqs: "l_seq ?l = nd_value v # l_vals ?l bs" "l_seq l' = l_vals ?l bs"
      using as(2) Cons v(2) dll_seq [OF l'(2)] l'(3) by (simp_all add: l_vals_def val_at_def)
    have "l_ok l'" using l'(2) by (auto simp: l_ok_def)
    with call seqs len show ?thesis by (simp add: q_ok_def q_seq_def q_cap_def)
  qed
qed

interpretation queue: bounded_fifo q_ok q_seq q_cap kr_queue_push kr_queue_pop
  by unfold_locales (rule queue_push_spec queue_pop_spec, assumption)+

lemma q_ok_init: "q_ok (kr_queue_init hwm)" "q_seq (kr_queue_init hwm) = []" "q_cap (kr_queue_init hwm) = unat hwm"
  by (simp_all add: q_ok_def q_seq_def q_cap_def kr_queue_init_def)

section \<open>Histories of list operations\<close>

text \<open>
  The operations that take a node are given the index their caller finds it by, with \<open>kr_list_locate\<close>; a call answers
  the value of the node it found.
\<close>

datatype ('v, 'u) list_op =
    L_add_head 'v | L_add_tail 'v | L_add_sorted 'v 'u | L_remove 'v
  | L_search 'v | L_locate int | L_delete int | L_move_head int

definition node_value :: "('v, 'u) T_KRList \<Rightarrow> nat option \<Rightarrow> 'v option option" where
  "node_value l r = (case r of None \<Rightarrow> Some None | Some a \<Rightarrow> do { nd \<leftarrow> l_mem l a; Some (Some (nd_value nd)) })"

definition on_node ::
  "(('v, 'u) T_KRList \<Rightarrow> nat \<Rightarrow> ('v, 'u) T_KRList option) \<Rightarrow> ('v, 'u) T_KRList \<Rightarrow> nat option \<Rightarrow>
   ('v option \<times> ('v, 'u) T_KRList) option" where
  "on_node f l r = do {
     v \<leftarrow> node_value l r;
     l' \<leftarrow> (case r of None \<Rightarrow> Some l | Some a \<Rightarrow> f l a);
     Some (v, l')
   }"

fun list_do :: "('v, 'u) list_op \<Rightarrow> ('v, 'u) T_KRList \<Rightarrow> ('v option \<times> ('v, 'u) T_KRList) option" where
  "list_do (L_add_head v) l = map_option (Pair None) (kr_list_add_head l v)"
| "list_do (L_add_tail v) l = map_option (Pair None) (kr_list_add_tail l v)"
| "list_do (L_add_sorted v u) l = map_option (Pair None) (kr_list_add_sorted l v u)"
| "list_do (L_remove key) l = map_option (Pair None) (kr_list_remove l key)"
| "list_do (L_search key) l = Option.bind (kr_list_search l key) (on_node (\<lambda>l _. Some l) l)"
| "list_do (L_locate i) l = Option.bind (kr_list_locate l i) (on_node (\<lambda>l _. Some l) l)"
| "list_do (L_delete i) l = Option.bind (kr_list_locate l i) (on_node kr_list_delete l)"
| "list_do (L_move_head i) l = Option.bind (kr_list_locate l i) (on_node kr_list_move_head l)"

primrec list_run ::
  "('v, 'u) list_op list \<Rightarrow> ('v, 'u) T_KRList \<Rightarrow> ('v option list \<times> ('v, 'u) T_KRList) option" where
  "list_run [] l = Some ([], l)"
| "list_run (p # ps) l = do { (r, l1) \<leftarrow> list_do p l; (rs, l2) \<leftarrow> list_run ps l1; Some (r # rs, l2) }"

text \<open>The specification: the same history on the sequence of the values.\<close>

primrec remove_first :: "('v \<Rightarrow> bool) \<Rightarrow> 'v list \<Rightarrow> 'v list" where
  "remove_first P [] = []"
| "remove_first P (x # xs) = (if P x then xs else x # remove_first P xs)"

definition insert_after_last :: "('v \<Rightarrow> bool) \<Rightarrow> 'v \<Rightarrow> 'v list \<Rightarrow> 'v list" where
  "insert_after_last P v xs =
     rev (dropWhile (\<lambda>w. \<not> P w) (rev xs)) @ v # rev (takeWhile (\<lambda>w. \<not> P w) (rev xs))"

text \<open>Indexes count from 0 at the head, or from -1 at the tail.\<close>

definition seq_pos :: "int \<Rightarrow> 'v list \<Rightarrow> nat option" where
  "seq_pos i xs = (let n = (if i < 0 then int (length xs) + i else i)
                   in if 0 \<le> n \<and> n < int (length xs) then Some (nat n) else None)"

definition at_pos :: "('v list \<Rightarrow> nat \<Rightarrow> 'v list) \<Rightarrow> int \<Rightarrow> 'v list \<Rightarrow> 'v option \<times> 'v list" where
  "at_pos f i xs = (case seq_pos i xs of None \<Rightarrow> (None, xs) | Some n \<Rightarrow> (Some (xs ! n), f xs n))"

fun seq_do :: "('v, 'u) T_KRList \<Rightarrow> ('v, 'u) list_op \<Rightarrow> 'v list \<Rightarrow> 'v option \<times> 'v list" where
  "seq_do l (L_add_head v) xs = (None, v # xs)"
| "seq_do l (L_add_tail v) xs = (None, xs @ [v])"
| "seq_do l (L_add_sorted v u) xs = (None, insert_after_last (not_before l v u) v xs)"
| "seq_do l (L_remove key) xs = (None, remove_first (\<lambda>v. list_matches l v key) xs)"
| "seq_do l (L_search key) xs = (find (\<lambda>v. list_matches l v key) xs, xs)"
| "seq_do l (L_locate i) xs = at_pos (\<lambda>xs n. xs) i xs"
| "seq_do l (L_delete i) xs = at_pos (\<lambda>xs n. take n xs @ drop (Suc n) xs) i xs"
| "seq_do l (L_move_head i) xs = at_pos (\<lambda>xs n. xs ! n # take n xs @ drop (Suc n) xs) i xs"

primrec seq_run :: "('v, 'u) T_KRList \<Rightarrow> ('v, 'u) list_op list \<Rightarrow> 'v list \<Rightarrow> 'v option list \<times> 'v list" where
  "seq_run l [] xs = ([], xs)"
| "seq_run l (p # ps) xs = (let (r, ys) = seq_do l p xs; (rs, zs) = seq_run l ps ys in (r # rs, zs))"

text \<open>The negation of the smallest \<open>int\<close> is undefined, so it is no index.\<close>

fun op_index :: "('v, 'u) list_op \<Rightarrow> bool" where
  "op_index (L_locate i) \<longleftrightarrow> - (2 ^ 31) < i \<and> i < 2 ^ 31"
| "op_index (L_delete i) \<longleftrightarrow> - (2 ^ 31) < i \<and> i < 2 ^ 31"
| "op_index (L_move_head i) \<longleftrightarrow> - (2 ^ 31) < i \<and> i < 2 ^ 31"
| "op_index _ \<longleftrightarrow> True"

lemma insert_after_last_split:
  assumes "\<forall>w \<in> set ys. \<not> P w" and "xs \<noteq> [] \<longrightarrow> P (last xs)"
  shows "insert_after_last P v (xs @ ys) = xs @ v # ys"
proof -
  have tw: "takeWhile (\<lambda>w. \<not> P w) (rev ys @ rev xs) = rev ys"
    using assms by (cases xs rule: rev_cases) (auto simp: takeWhile_tail)
  have "dropWhile (\<lambda>w. \<not> P w) (rev ys @ rev xs) = rev xs"
    using assms by (cases xs rule: rev_cases) (auto simp: dropWhile_append)
  with tw show ?thesis by (simp add: insert_after_last_def)
qed

lemma remove1_vals:
  "l_vals l (case find (\<lambda>a. P (val_at (l_mem l) a)) as of None \<Rightarrow> as | Some a \<Rightarrow> remove1 a as) =
     remove_first P (l_vals l as)"
proof (induction as)
  case Nil
  then show ?case by (simp add: l_vals_def)
next
  case (Cons a as)
  show ?case
  proof (cases "P (val_at (l_mem l) a)")
    case True
    then show ?thesis by (simp add: l_vals_def)
  next
    case False
    have "b \<noteq> a" if "find (\<lambda>a. P (val_at (l_mem l) a)) as = Some b" for b
      using that False by (auto simp: find_Some_iff)
    with False Cons show ?thesis
      by (cases "find (\<lambda>a. P (val_at (l_mem l) a)) as") (auto simp: l_vals_def)
  qed
qed

lemma same_conf_seq_do: "same_conf l l' \<Longrightarrow> seq_do l' = seq_do l"
  by (intro ext, rename_tac p xs, case_tac p)
     (auto simp: same_conf_def not_before_def [abs_def] list_matches_def)

lemma same_conf_seq_run: "same_conf l l' \<Longrightarrow> seq_run l' ps xs = seq_run l ps xs"
  by (induction ps arbitrary: xs) (simp_all add: same_conf_seq_do)

lemma node_value_spec:
  assumes "dll l as"
  shows "set_option r \<subseteq> set as \<Longrightarrow> node_value l r = Some (map_option (val_at (l_mem l)) r)"
  using seg_mem [OF dllD(2) [OF assms]] by (fastforce simp: node_value_def val_at_def split: option.splits)

lemma locate_spec:
  assumes l: "dll l as" and i: "- (2 ^ 31) < i" "i < 2 ^ 31"
  shows "kr_list_locate l i = Some (map_option (nth as) (seq_pos i (l_vals l as)))"
proof (cases "i < 0")
  case True
  have "nat (- i - 1) < length as \<longleftrightarrow> 0 \<le> int (length as) + i" using True by auto
  moreover have "length as - Suc (nat (- i - 1)) = nat (int (length as) + i)" using True by auto
  ultimately show ?thesis
    using True i dllD(4) [OF l] locate_prev_spec [OF dllD(2) [OF l], of "nat (- i - 1)"]
    by (simp add: kr_list_locate_def seq_pos_def l_vals_def)
next
  case False
  then show ?thesis
    using dllD(3) [OF l] locate_next_spec [OF dllD(2) [OF l], of "nat i"]
    by (simp add: kr_list_locate_def seq_pos_def l_vals_def nat_less_iff)
qed

text \<open>An operation on the node at an index is the one on the sequence, when it is so at every node.\<close>

lemma on_node_spec:
  assumes l: "dll l as" and i: "- (2 ^ 31) < i" "i < 2 ^ 31"
    and f: "\<And>xs a ys. as = xs @ a # ys \<Longrightarrow>
      \<exists>l' as'. f l a = Some l' \<and> dll l' as' \<and> same_conf l l' \<and> l_vals l' as' = g (l_vals l as) (length xs)"
  shows "\<exists>r l'. Option.bind (kr_list_locate l i) (on_node f l) = Some (r, l') \<and> l_ok l' \<and> same_conf l l' \<and>
    (r, l_seq l') = at_pos g i (l_seq l)"
proof (cases "seq_pos i (l_vals l as)")
  case None
  with locate_spec [OF l i] node_value_spec [OF l, of None] dll_seq [OF l] l show ?thesis
    by (auto simp: on_node_def at_pos_def l_ok_def same_conf_def)
next
  case (Some n)
  then have n: "n < length as" by (auto simp: seq_pos_def l_vals_def Let_def split: if_splits)
  from f [OF id_take_nth_drop [OF n]] n obtain l' as' where
      f': "f l (as ! n) = Some l'" "dll l' as'" "same_conf l l'" "l_vals l' as' = g (l_vals l as) n"
    by auto
  have "l_vals l as ! n = val_at (l_mem l) (as ! n)" using n by (simp add: l_vals_def)
  with Some locate_spec [OF l i] node_value_spec [OF l, of "Some (as ! n)"] n f' dll_seq [OF l] dll_seq [OF f'(2)]
  show ?thesis by (auto simp: on_node_def at_pos_def l_ok_def)
qed

lemma find_vals: "map_option (val_at (l_mem l)) (find (\<lambda>a. P (val_at (l_mem l) a)) as) = find P (l_vals l as)"
  by (induction as) (simp_all add: l_vals_def)

lemma list_do_spec:
  assumes "l_ok l" and "Suc (length (l_seq l)) < 2 ^ 32" and "op_index p"
  shows "\<exists>r l'. list_do p l = Some (r, l') \<and> l_ok l' \<and> same_conf l l' \<and> (r, l_seq l') = seq_do l p (l_seq l)"
proof -
  from assms(1) obtain as where as: "dll l as" "l_seq l = l_vals l as" "length as = length (l_seq l)"
    by (rule l_okE)
  with assms(2) have room: "Suc (length as) < 2 ^ 32" by simp
  have same: "same_conf l l" by (simp add: same_conf_def)
  show ?thesis
  proof (cases p)
    case (L_add_head v)
    with add_head_spec [OF as(1) room, of v] as(2) dll_seq show ?thesis
      by (fastforce simp: l_ok_def)
  next
    case (L_add_tail v)
    with add_tail_seq [OF assms(1,2), of v] show ?thesis by auto
  next
    case (L_add_sorted v u)
    from add_sorted_spec [OF as(1) room, of v u] obtain l' xs ys where x:
        "kr_list_add_sorted l v u = Some l'" "as = xs @ ys" "dll l' (xs @ l_fresh l # ys)"
        "l_vals l' (xs @ l_fresh l # ys) = l_vals l xs @ v # l_vals l ys" "same_conf l l'"
        "\<forall>w \<in> set (l_vals l ys). \<not> not_before l v u w" "xs \<noteq> [] \<longrightarrow> not_before l v u (last (l_vals l xs))"
      by blast
    have "l_seq l = l_vals l xs @ l_vals l ys" using as(2) x(2) by (simp add: l_vals_def)
    moreover have "l_vals l xs \<noteq> [] \<longrightarrow> not_before l v u (last (l_vals l xs))"
      using x(7) by (simp add: l_vals_def)
    ultimately have "insert_after_last (not_before l v u) v (l_seq l) = l_vals l xs @ v # l_vals l ys"
      using insert_after_last_split [OF x(6)] by simp
    with L_add_sorted x(1,3-5) dll_seq [OF x(3)] show ?thesis by (auto simp: l_ok_def)
  next
    case (L_remove key)
    from remove_spec [OF as(1), of key] obtain l' as' where r: "kr_list_remove l key = Some l'" "dll l' as'"
        "same_conf l l'" "l_vals l' as' = (case find (\<lambda>a. list_matches l (val_at (l_mem l) a) key) as of
           None \<Rightarrow> l_vals l as | Some a \<Rightarrow> l_vals l (remove1 a as))"
      by blast
    have "l_seq l' = remove_first (\<lambda>v. list_matches l v key) (l_seq l)"
      using r(4) remove1_vals [where l = l and P = "\<lambda>v. list_matches l v key" and as = as] dll_seq [OF r(2)] as(2)
      by (simp split: option.splits)
    with L_remove r show ?thesis by (auto simp: l_ok_def)
  next
    case (L_search key)
    let ?r = "find (\<lambda>a. list_matches l (val_at (l_mem l) a) key) as"
    have "kr_list_search l key = Some ?r"
      using search_loop_spec [OF dllD(2) [OF as(1)]] dllD(3) [OF as(1)] by (simp add: kr_list_search_def)
    moreover have "node_value l ?r = Some (map_option (val_at (l_mem l)) ?r)"
      by (rule node_value_spec [OF as(1)]) (auto simp: find_Some_iff)
    ultimately show ?thesis
      using L_search as(2) assms(1) same find_vals [of l "\<lambda>v. list_matches l v key" as, symmetric]
      by (auto simp: on_node_def split: option.split)
  next
    case (L_locate i)
    with on_node_spec [OF as(1), of i "\<lambda>l _. Some l" "\<lambda>xs n. xs"] assms(3) as(1) same show ?thesis by auto
  next
    case (L_delete i)
    have "\<exists>l' as'. kr_list_delete l a = Some l' \<and> dll l' as' \<and> same_conf l l' \<and>
        l_vals l' as' = take (length xs) (l_vals l as) @ drop (Suc (length xs)) (l_vals l as)"
      if "as = xs @ a # ys" for xs a ys
      using delete_spec [of l xs a ys] as(1) that by (fastforce simp: l_vals_def)
    with on_node_spec [OF as(1), of i kr_list_delete "\<lambda>xs n. take n xs @ drop (Suc n) xs"] L_delete assms(3)
    show ?thesis by simp
  next
    case (L_move_head i)
    have "\<exists>l' as'. kr_list_move_head l a = Some l' \<and> dll l' as' \<and> same_conf l l' \<and>
        l_vals l' as' = l_vals l as ! length xs # take (length xs) (l_vals l as) @ drop (Suc (length xs)) (l_vals l as)"
      if "as = xs @ a # ys" for xs a ys
      using move_head_spec [of l xs a ys] as(1) that by (fastforce simp: l_vals_def nth_append)
    with on_node_spec [OF as(1), of i kr_list_move_head "\<lambda>xs n. xs ! n # take n xs @ drop (Suc n) xs"] L_move_head assms(3)
    show ?thesis by simp
  qed
qed

lemma remove_first_length: "length (remove_first P xs) \<le> length xs"
  by (induction xs) auto

lemma insert_after_last_length: "length (insert_after_last P v xs) = Suc (length xs)"
proof -
  have "length (takeWhile Q ys) + length (dropWhile Q ys) = length ys" for Q and ys :: "'a list"
    by (metis length_append takeWhile_dropWhile_id)
  from this [of "\<lambda>w. \<not> P w" "rev xs"] show ?thesis by (simp add: insert_after_last_def)
qed

lemma at_pos_length:
  "(\<And>n. n < length xs \<Longrightarrow> length (f xs n) \<le> Suc (length xs)) \<Longrightarrow> length (snd (at_pos f i xs)) \<le> Suc (length xs)"
  by (auto simp: at_pos_def seq_pos_def Let_def split: option.splits if_splits)

lemma seq_do_length: "length (snd (seq_do l p xs)) \<le> Suc (length xs)"
  by (cases p) (auto simp: insert_after_last_length le_SucI remove_first_length intro!: at_pos_length)

lemma list_run_spec:
  "l_ok l \<Longrightarrow> length (l_seq l) + length ps < 2 ^ 32 \<Longrightarrow> list_all op_index ps \<Longrightarrow>
   \<exists>rs l'. list_run ps l = Some (rs, l') \<and> l_ok l' \<and> (rs, l_seq l') = seq_run l ps (l_seq l)"
proof (induction ps arbitrary: l)
  case Nil
  then show ?case by simp
next
  case (Cons p ps)
  from list_do_spec [OF Cons.prems(1), of p] Cons.prems(2,3) obtain r l1 where l1: "list_do p l = Some (r, l1)" "l_ok l1"
      "same_conf l l1" "(r, l_seq l1) = seq_do l p (l_seq l)"
    by auto
  have "length (l_seq l1) + length ps < 2 ^ 32"
    using seq_do_length [of l p "l_seq l"] l1(4) [symmetric] Cons.prems(2) by simp
  from Cons.IH [OF l1(2) this] Cons.prems(3) l1(1-3) l1(4) [symmetric] same_conf_seq_run [OF l1(3)] show ?case
    by (auto split: prod.splits)
qed

section \<open>Properties of lists and queues\<close>

text \<open>
  C5. The doubly linked list is the sequence it stands for: every history of add_head, add_tail, add_sorted, remove, search, locate,
  delete and move_head calls on a list, whatever its match and compare functions, ends without touching a freed or
  missing node, finds the values (or the absence of one) the same history finds on a plain sequence, leaves a well
  linked list with exactly its own nodes allocated, and its traversal yields what the history yields on that sequence.
  The nodes given to delete and move_head are those at an index, counted from the head or from the tail.
\<close>

theorem list_refines_sequence:
  assumes "l_ok l" and "length (l_seq l) + length ps < 2 ^ 32" and "list_all op_index ps"
  shows "\<exists>rs l' as. list_run ps l = Some (rs, l') \<and> (rs, l_seq l') = seq_run l ps (l_seq l) \<and>
    dll l' as \<and> dom (l_mem l') = set as \<and> unat (l_len l') = length (l_seq l')"
proof -
  from list_run_spec [OF assms] obtain rs l' where l': "list_run ps l = Some (rs, l')" "l_ok l'"
      "(rs, l_seq l') = seq_run l ps (l_seq l)"
    by blast
  from l'(2) obtain as where "dll l' as" by (rule l_okE)
  with l' l_ok_length [OF l'(2)] dllD(5) show ?thesis by blast
qed

theorem list_refines_sequence_witness:
  "\<exists>l'. list_run [L_add_tail (1 :: nat), L_add_head 2, L_add_tail 3, L_search 3, L_move_head (- 1), L_locate 1, L_remove 1, L_search 1]
      (kr_list_new :: (nat, unit) T_KRList) = Some ([None, None, None, Some 3, Some 3, Some 2, None, None], l') \<and> l_seq l' = [3, 2]"
proof -
  have "list_matches (kr_list_new :: (nat, unit) T_KRList) v k \<longleftrightarrow> k = v" for v k
    by (simp add: list_matches_def kr_list_new_def)
  then show ?thesis
    using list_refines_sequence [of "kr_list_new :: (nat, unit) T_KRList"
        "[L_add_tail 1, L_add_head 2, L_add_tail 3, L_search 3, L_move_head (- 1), L_locate 1, L_remove 1, L_search 1]"]
    by (auto simp: at_pos_def seq_pos_def)
qed

text \<open>\<open>kr_list_add_sorted\<close>: when the compare function is a total preorder and the list is sorted by
  it, the list stays sorted and gains exactly the new value, placed behind the values that compare
  equal to it.
\<close>

theorem list_add_sorted_sorted:
  assumes "l_ok l" and "Suc (length (l_seq l)) < 2 ^ 32" and "l_compare l = Some cmp"
    and tot: "\<forall>a b. cmp a b u \<ge> 0 \<or> cmp b a u \<ge> 0"
    and trans: "\<forall>a b c. cmp b a u \<ge> 0 \<longrightarrow> cmp c b u \<ge> 0 \<longrightarrow> cmp c a u \<ge> 0"
    and sorted: "sorted_wrt (\<lambda>a b. cmp b a u \<ge> 0) (l_seq l)"
  shows "\<exists>l' xs ys. kr_list_add_sorted l v u = Some l' \<and> l_ok l' \<and> l_seq l = xs @ ys \<and> l_seq l' = xs @ v # ys \<and>
    sorted_wrt (\<lambda>a b. cmp b a u \<ge> 0) (l_seq l') \<and> (\<forall>w \<in> set ys. \<not> cmp v w u \<ge> 0)"
proof -
  from assms(1) obtain as where as: "dll l as" "l_seq l = l_vals l as" "length as = length (l_seq l)"
    by (rule l_okE)
  have room: "Suc (length as) < 2 ^ 32" using assms(2) as(3) by simp
  from add_sorted_spec [OF as(1) room, of v u] obtain l' xs ys where x:
      "kr_list_add_sorted l v u = Some l'" "as = xs @ ys" "dll l' (xs @ l_fresh l # ys)"
      "l_vals l' (xs @ l_fresh l # ys) = l_vals l xs @ v # l_vals l ys"
      "\<forall>w \<in> set (l_vals l ys). \<not> not_before l v u w" "xs \<noteq> [] \<longrightarrow> not_before l v u (last (l_vals l xs))"
    by blast
  let ?xs = "l_vals l xs" and ?ys = "l_vals l ys"
  have sq: "l_seq l = ?xs @ ?ys" "l_seq l' = ?xs @ v # ?ys"
    using as(2) x(2,4) dll_seq [OF x(3)] by (simp_all add: l_vals_def)
  have ys: "\<not> cmp v w u \<ge> 0" "cmp w v u \<ge> 0" if "w \<in> set ?ys" for w
    using x(5) that tot assms(3) by (auto simp: not_before_def)
  have xs: "cmp v w u \<ge> 0" if "w \<in> set ?xs" for w
  proof -
    from that obtain ws where ws: "?xs = ws @ [last ?xs]" by (metis append_butlast_last_id empty_iff empty_set)
    have "cmp v (last ?xs) u \<ge> 0"
      using x(6) that assms(3) by (auto simp: not_before_def l_vals_def)
    moreover have "w = last ?xs \<or> cmp (last ?xs) w u \<ge> 0"
      using that ws sorted sq(1) by (metis (no_types, lifting) Un_iff empty_iff list.set(1) list.set(2) insert_iff set_append sorted_wrt_append list.set_intros(1))
    ultimately show ?thesis using trans by blast
  qed
  have "sorted_wrt (\<lambda>a b. cmp b a u \<ge> 0) (l_seq l')"
    using sorted sq xs ys by (auto simp: sorted_wrt_append)
  with x(1,3) sq ys show ?thesis by (auto simp: l_ok_def)
qed

theorem list_add_sorted_sorted_witness:
  "\<exists>l'. kr_list_add_sorted ((kr_list_new :: (int, unit) T_KRList)\<lparr>l_compare := Some (\<lambda>a b u. a - b)\<rparr>) 5 () = Some l' \<and>
     l_seq l' = [5]"
proof -
  let ?l = "(kr_list_new :: (int, unit) T_KRList)\<lparr>l_compare := Some (\<lambda>a b u. a - b)\<rparr>"
  have d: "dll ?l []" by (simp add: dll_def kr_list_new_def)
  then have "l_ok ?l" "l_seq ?l = []" using dll_seq [OF d] by (auto simp: l_ok_def l_vals_def)
  moreover have "l_compare ?l = Some (\<lambda>a b u. a - b)" by simp
  moreover have "\<forall>a b. (a :: int) - b \<ge> 0 \<or> b - a \<ge> 0" by (auto simp: linorder_linear)
  ultimately show ?thesis
    using list_add_sorted_sorted [of ?l "\<lambda>a b u. a - b" "()" 5] by auto
qed

text \<open>
  \<open>kr_list_remove_all\<close> reads the \<open>next\<close> field of a node it has just freed: on a well formed list
  it has undefined behaviour as soon as one value matches the key, and otherwise leaves the list as
  it is. It never removes anything in a defined execution.
\<close>

theorem list_remove_all_use_after_free:
  assumes "l_ok l"
  shows "kr_list_remove_all l key = (if \<exists>v \<in> set (l_seq l). list_matches l v key then None else Some l)"
proof -
  from assms obtain as where as: "dll l as" "l_seq l = l_vals l as" by (rule l_okE)
  with remove_all_loop_spec [of l "[]" as "\<lambda>v. list_matches l v key"] dllD(3) [OF as(1)] show ?thesis
    by (simp add: kr_list_remove_all_def l_vals_def)
qed

theorem list_remove_all_use_after_free_witness:
  "\<exists>l. kr_list_add_tail (kr_list_new :: (nat, unit) T_KRList) 7 = Some l \<and>
     kr_list_remove_all l 7 = None \<and> kr_list_remove_all l 8 = Some l"
proof -
  from add_tail_seq [of "kr_list_new :: (nat, unit) T_KRList" 7] obtain l where l:
      "kr_list_add_tail (kr_list_new :: (nat, unit) T_KRList) 7 = Some l" "l_ok l" "l_seq l = [7]"
      "same_conf (kr_list_new :: (nat, unit) T_KRList) l"
    by auto
  then have "l_match l = None" by (simp add: same_conf_def kr_list_new_def)
  with l list_remove_all_use_after_free [OF l(2), of 7] list_remove_all_use_after_free [OF l(2), of 8]
  show ?thesis by (auto simp: list_matches_def)
qed

text \<open>
  C6. The queue is a bounded first-in first-out queue: on a fresh queue, every history of pushes and pops in any order
  runs to its end and answers what it answers on a sequence of at most the high water mark's number of values: a push
  appends and answers 0, or answers -1 and changes nothing when the queue is full, and a pop takes the oldest value, or
  answers NULL when there is none. So the values popped, followed by those still in the queue, are the
  values accepted, in their order, and the queue's length and emptiness are those of the sequence.
\<close>

theorem queue_fifo:
  "\<exists>rs q. fifo_run kr_queue_push kr_queue_pop ps (kr_queue_init hwm) = Some (rs, q) \<and>
    (rs, q_seq q) = fifo_spec (unat hwm) ps [] \<and> popped rs @ q_seq q = accepted ps rs \<and>
    unat (kr_queue_length q) = length (q_seq q) \<and> (kr_queue_is_empty q \<longleftrightarrow> q_seq q = []) \<and>
    length (q_seq q) \<le> unat hwm"
proof -
  obtain rs zs where rs: "fifo_spec (unat hwm) ps [] = (rs, zs)" by force
  from queue.run_law [OF q_ok_init(1), of ps hwm] rs obtain q where q:
      "fifo_run kr_queue_push kr_queue_pop ps (kr_queue_init hwm) = Some (rs, q)" "q_ok q" "q_seq q = zs"
    by (auto simp: q_ok_init)
  have "unat (l_len (q_list q)) = length zs" using q(2,3) l_ok_length by (auto simp: q_ok_def q_seq_def)
  then show ?thesis
    using q rs fifo_spec_order [OF rs] fifo_spec_length [OF rs]
    by (auto simp: kr_queue_is_empty_def kr_queue_length_def simp flip: unat_eq_zero)
qed

text \<open>A queue of two that is filled, refuses, is emptied, answers NULL and is used again.\<close>

theorem queue_fifo_witness:
  "\<exists>q. fifo_run kr_queue_push kr_queue_pop
     [Push 4, Push 5, Push 6, Pop, Push 7, Pop, Pop, Pop, Push (8 :: nat)] (kr_queue_init 2) =
   Some ([Pushed 0, Pushed 0, Pushed (- 1), Popped (Some 4), Pushed 0, Popped (Some 5), Popped (Some 7), Popped None, Pushed 0], q) \<and>
   q_seq q = [8]"
  using queue_fifo [of "[Push 4, Push 5, Push 6, Pop, Push 7, Pop, Pop, Pop, Push (8 :: nat)]" 2] by auto

end
