(* ===== verification/KR_Calc.thy ===== *)
theory KR_Calc
  imports KR_HashSet
begin

text \<open>
  \<open>krcalc/\<close>: the expression trees of rules, groups and data items, their type check and their
  evaluation (\<open>kr_calc_tree.c\<close>, \<open>kr_calc.c\<close>) and the regular expression wrapper
  (\<open>krutils/kr_regex.c\<close>). Evaluation writes the result of every node into the node, so a tree
  carries the values of the previous evaluation; the functions below return the updated tree. The
  state \<open>'s\<close> behind \<open>calc_param\<close> is threaded through the two callbacks, which belong to the caller.
  The result of \<open>regexec\<close> is a parameter.
\<close>

section \<open>Data\<close>

datatype E_KRCalcOp =
    KR_CALCOP_PLUS | KR_CALCOP_SUB | KR_CALCOP_MUT | KR_CALCOP_DIV | KR_CALCOP_MOD
  | KR_CALCOP_LT | KR_CALCOP_LE | KR_CALCOP_GT | KR_CALCOP_GE | KR_CALCOP_EQ | KR_CALCOP_NEQ
  | KR_CALCOP_BL | KR_CALCOP_NBL | KR_CALCOP_MATCH | KR_CALCOP_NOT | KR_CALCOP_AND | KR_CALCOP_OR

datatype E_KRCalcKind =
    KR_CALCKIND_REL | KR_CALCKIND_ARITH | KR_CALCKIND_LOGIC
  | KR_CALCKIND_INT | KR_CALCKIND_FLOAT | KR_CALCKIND_STRING
  | KR_CALCKIND_MINT | KR_CALCKIND_MFLOAT | KR_CALCKIND_MSTRING | KR_CALCKIND_REGEX
  | KR_CALCKIND_SET | KR_CALCKIND_CID | KR_CALCKIND_FID | KR_CALCKIND_SID | KR_CALCKIND_DID
  | KR_CALCKIND_HID

datatype E_KRCalcFormat = KR_CALCFORMAT_FLEX | KR_CALCFORMAT_JSON

record T_KRRegex =
  re_pattern :: string

text \<open>What a \<open>kr_pointer\<close> of a calculator value points to.\<close>

datatype calc_ptr = P_set T_KRHashSet | P_regex T_KRRegex | P_other nat

type_synonym calc_value = "calc_ptr U_KRValue"

text \<open>A node; \<open>ct_op\<close> is \<^term>\<open>None\<close> for the zero that \<open>kr_calloc\<close> leaves, which is no operator.\<close>

datatype T_KRCalcTree = CalcTree
  (ct_children: "T_KRCalcTree list") (ct_kind: E_KRCalcKind) (ct_op: "E_KRCalcOp option")
  (ct_id: int) (ct_type: E_KRType) (ct_ind: E_KRValueInd) (ct_value: calc_value)

text \<open>The error messages, by the format they are printed with.\<close>

datatype calc_msg =
    Msg_none
  | Msg_need_two E_KRCalcKind "E_KRCalcOp option"
  | Msg_op_types "E_KRCalcOp option" E_KRType E_KRType
  | Msg_op_kind "E_KRCalcOp option" E_KRType E_KRType E_KRCalcKind
  | Msg_not_an_op E_KRCalcKind "E_KRCalcOp option"
  | Msg_rel_type "E_KRCalcOp option" E_KRType
  | Msg_unsupport_op "E_KRCalcOp option"
  | Msg_not_numeric bool E_KRType
  | Msg_unsupport_type E_KRType
  | Msg_set_types bool E_KRType E_KRType
  | Msg_set_kind bool E_KRCalcKind
  | Msg_type_unknown E_KRCalcKind int
  | Msg_parse string

text \<open>\<open>T_KRCalc\<close> without the callbacks (arguments of the evaluation) and the lexer's state.\<close>

record T_KRCalc =
  calc_format :: E_KRCalcFormat
  calc_string :: string
  calc_tree :: "T_KRCalcTree option"
  calc_status :: int
  calc_errmsg :: calc_msg

text \<open>
  The caller's functions. \<open>get_value\<close> returns the object behind the \<open>void *\<close>, by its type, or NULL,
  and may change the caller's state.
\<close>

record 's calc_env =
  get_type_cb :: "E_KRCalcKind \<Rightarrow> int \<Rightarrow> 's \<Rightarrow> E_KRType option"
  get_value_cb :: "E_KRCalcKind \<Rightarrow> int \<Rightarrow> 's \<Rightarrow> (calc_value option \<times> 's) option"
  regexec_fn :: "string \<Rightarrow> string \<Rightarrow> bool"

section \<open>Building and walking trees\<close>

definition kr_calc_tree_new :: "E_KRCalcKind \<Rightarrow> T_KRCalcTree" where
  "kr_calc_tree_new kind = CalcTree [] kind None 0 KR_TYPE_UNKNOWN KR_VALUE_UNSET V_zero"

fun kr_calc_tree_append :: "T_KRCalcTree \<Rightarrow> T_KRCalcTree \<Rightarrow> T_KRCalcTree" where
  "kr_calc_tree_append (CalcTree cs k p i ty d v) child = CalcTree (cs @ [child]) k p i ty d v"

fun set_children :: "T_KRCalcTree list \<Rightarrow> T_KRCalcTree \<Rightarrow> T_KRCalcTree" where
  "set_children cs (CalcTree _ k p i ty d v) = CalcTree cs k p i ty d v"

fun set_ind :: "E_KRValueInd \<Rightarrow> T_KRCalcTree \<Rightarrow> T_KRCalcTree" where
  "set_ind d (CalcTree cs k p i ty _ v) = CalcTree cs k p i ty d v"

fun set_type :: "E_KRType \<Rightarrow> T_KRCalcTree \<Rightarrow> T_KRCalcTree" where
  "set_type ty (CalcTree cs k p i _ d v) = CalcTree cs k p i ty d v"

fun set_value :: "calc_value \<Rightarrow> T_KRCalcTree \<Rightarrow> T_KRCalcTree" where
  "set_value v (CalcTree cs k p i ty d _) = CalcTree cs k p i ty d v"

text \<open>
  \<open>kr_calc_tree_traverse\<close> with \<open>pre_proc\<close> NULL, as every caller has it: the children in order, then
  the node. The first failure stops the walk and leaves the rest of the tree as it was.
\<close>

type_synonym 'st node_proc = "T_KRCalcTree \<Rightarrow> 'st \<Rightarrow> (int \<times> T_KRCalcTree \<times> 'st) option"

fun kr_calc_tree_traverse :: "'st node_proc \<Rightarrow> T_KRCalcTree \<Rightarrow> 'st \<Rightarrow> (int \<times> T_KRCalcTree \<times> 'st) option"
  and traverse_children :: "'st node_proc \<Rightarrow> T_KRCalcTree list \<Rightarrow> 'st \<Rightarrow> (int \<times> T_KRCalcTree list \<times> 'st) option"
where
  "kr_calc_tree_traverse post (CalcTree cs k p i ty d v) st = do {
     (r, cs', st1) \<leftarrow> traverse_children post cs st;
     let t = CalcTree cs' k p i ty d v;
     if r \<noteq> 0 then Some (- 1, t, st1)
     else do {
       (r2, t', st2) \<leftarrow> post t st1;
       Some (if r2 \<noteq> 0 then - 1 else 0, t', st2)
     }
   }"
| "traverse_children post [] st = Some (0, [], st)"
| "traverse_children post (c # cs) st = do {
     (r, c', st1) \<leftarrow> kr_calc_tree_traverse post c st;
     if r \<noteq> 0 then Some (- 1, c' # cs, st1)
     else do {
       (r2, cs', st2) \<leftarrow> traverse_children post cs st1;
       Some (r2, c' # cs', st2)
     }
   }"

section \<open>Regular expressions\<close>

definition kr_regex_compile :: "(string \<Rightarrow> int) \<Rightarrow> string \<Rightarrow> T_KRRegex option" where
  "kr_regex_compile regcomp pattern = (if regcomp pattern \<noteq> 0 then None else Some \<lparr>re_pattern = pattern\<rparr>)"

definition kr_regex_execute :: "(string \<Rightarrow> string \<Rightarrow> bool) \<Rightarrow> T_KRRegex \<Rightarrow> string \<Rightarrow> bool" where
  "kr_regex_execute regexec re str = regexec (re_pattern re) str"

section \<open>Type check\<close>

definition calc_fail :: "calc_msg \<Rightarrow> T_KRCalc \<Rightarrow> T_KRCalc" where
  "calc_fail msg kc = kc\<lparr>calc_status := - 1, calc_errmsg := msg\<rparr>"

definition is_arith_op :: "E_KRCalcOp \<Rightarrow> bool" where
  "is_arith_op op \<longleftrightarrow> op \<in> {KR_CALCOP_PLUS, KR_CALCOP_SUB, KR_CALCOP_MUT, KR_CALCOP_DIV, KR_CALCOP_MOD}"

definition is_cmp_op :: "E_KRCalcOp \<Rightarrow> bool" where
  "is_cmp_op op \<longleftrightarrow> op \<in> {KR_CALCOP_LT, KR_CALCOP_LE, KR_CALCOP_GT, KR_CALCOP_GE, KR_CALCOP_EQ, KR_CALCOP_NEQ}"

definition is_rel_op :: "E_KRCalcOp \<Rightarrow> bool" where
  "is_rel_op op \<longleftrightarrow> op \<in> {KR_CALCOP_AND, KR_CALCOP_OR, KR_CALCOP_NOT}"

definition is_numeric :: "E_KRType \<Rightarrow> bool" where
  "is_numeric ty \<longleftrightarrow> ty \<in> {KR_TYPE_INT, KR_TYPE_LONG, KR_TYPE_DOUBLE}"

definition is_set_kind :: "E_KRCalcKind \<Rightarrow> bool" where
  "is_set_kind k \<longleftrightarrow> k \<in> {KR_CALCKIND_MINT, KR_CALCKIND_MFLOAT, KR_CALCKIND_MSTRING, KR_CALCKIND_SET}"

text \<open>The scan of a relation's children: an unknown type ends the check successfully.\<close>

primrec check_rel_children :: "E_KRCalcOp option \<Rightarrow> T_KRCalcTree list \<Rightarrow> calc_msg option" where
  "check_rel_children op [] = None"
| "check_rel_children op (c # cs) =
     (if ct_type c = KR_TYPE_UNKNOWN then None
      else if ct_type c \<noteq> KR_TYPE_BOOL \<and> ct_type c \<noteq> KR_TYPE_INT then Some (Msg_rel_type op (ct_type c))
      else check_rel_children op cs)"

definition calc_tree_check_node :: "T_KRCalcTree \<Rightarrow> calc_msg option" where
  "calc_tree_check_node t =
     (let op = ct_op t in
      case ct_kind t of
        KR_CALCKIND_ARITH \<Rightarrow>
          (case ct_children t of
             [left, right] \<Rightarrow>
               if ct_type left = KR_TYPE_UNKNOWN \<or> ct_type right = KR_TYPE_UNKNOWN then None
               else if (case op of Some q \<Rightarrow> is_arith_op q | None \<Rightarrow> False) then
                 (if \<not> is_numeric (ct_type left) \<or> \<not> is_numeric (ct_type right)
                  then Some (Msg_op_types op (ct_type left) (ct_type right)) else None)
               else Some (Msg_not_an_op KR_CALCKIND_ARITH op)
           | _ \<Rightarrow> Some (Msg_need_two KR_CALCKIND_ARITH op))
      | KR_CALCKIND_LOGIC \<Rightarrow>
          (case ct_children t of
             [left, right] \<Rightarrow>
               if ct_type left = KR_TYPE_UNKNOWN \<or> ct_type right = KR_TYPE_UNKNOWN then None
               else (case op of
                   None \<Rightarrow> Some (Msg_not_an_op KR_CALCKIND_LOGIC op)
                 | Some q \<Rightarrow>
                     if is_cmp_op q then
                       (if (ct_type left = KR_TYPE_STRING) \<noteq> (ct_type right = KR_TYPE_STRING)
                        then Some (Msg_op_types op (ct_type left) (ct_type right)) else None)
                     else if q = KR_CALCOP_BL \<or> q = KR_CALCOP_NBL then
                       (if \<not> is_set_kind (ct_kind right) \<or> ct_type left \<noteq> ct_type right
                        then Some (Msg_op_kind op (ct_type left) (ct_type right) (ct_kind right)) else None)
                     else if q = KR_CALCOP_MATCH then
                       (if ct_type left \<noteq> KR_TYPE_STRING \<or> ct_kind right \<noteq> KR_CALCKIND_REGEX
                        then Some (Msg_op_kind op (ct_type left) (ct_type right) (ct_kind right)) else None)
                     else Some (Msg_not_an_op KR_CALCKIND_LOGIC op))
           | _ \<Rightarrow> Some (Msg_need_two KR_CALCKIND_LOGIC op))
      | KR_CALCKIND_REL \<Rightarrow>
          (if (case op of Some q \<Rightarrow> is_rel_op q | None \<Rightarrow> False) then check_rel_children op (ct_children t)
           else Some (Msg_not_an_op KR_CALCKIND_REL op))
      | _ \<Rightarrow> None)"

definition kr_calc_tree_check :: "T_KRCalcTree \<Rightarrow> T_KRCalc \<Rightarrow> (int \<times> T_KRCalcTree \<times> T_KRCalc) option" where
  "kr_calc_tree_check t0 krcalc = kr_calc_tree_traverse
     (\<lambda>t kc. case calc_tree_check_node t of
        None \<Rightarrow> Some (0, t, kc) | Some msg \<Rightarrow> Some (- 1, t, calc_fail msg kc)) t0 krcalc"

section \<open>Evaluation of a node\<close>

type_synonym 's eval_st = "T_KRCalc \<times> 's"

definition eval_fail :: "calc_msg \<Rightarrow> T_KRCalcTree \<Rightarrow> 's eval_st \<Rightarrow> (int \<times> T_KRCalcTree \<times> 's eval_st) option" where
  "eval_fail msg t st = Some (- 1, t, (calc_fail msg (fst st), snd st))"

text \<open>
  The loop over the children of a relation: it stops at the first child whose truth value is
  \<open>stop\<close>. The result is \<^term>\<open>Inl None\<close> when a child has no value, \<open>Inl (Some ty)\<close> for a child of
  the wrong type, otherwise whether the loop was stopped.
\<close>

definition child_truth :: "T_KRCalcTree \<Rightarrow> bool option option" where
  "child_truth c =
     (if ct_type c = KR_TYPE_BOOL then map_option (\<lambda>w. Some (w \<noteq> 0)) (get_b (ct_value c))
      else if ct_type c = KR_TYPE_INT then map_option (\<lambda>w. Some (w \<noteq> 0)) (get_i (ct_value c))
      else Some None)"

primrec rel_loop :: "bool \<Rightarrow> T_KRCalcTree list \<Rightarrow> (E_KRType option + bool) option" where
  "rel_loop stop [] = Some (Inr False)"
| "rel_loop stop (c # cs) =
     (if ct_ind c \<noteq> KR_VALUE_SETED then Some (Inl None)
      else case child_truth c of
        None \<Rightarrow> None
      | Some None \<Rightarrow> Some (Inl (Some (ct_type c)))
      | Some (Some b) \<Rightarrow> if b = stop then Some (Inr True) else rel_loop stop cs)"

definition bool_val :: "bool \<Rightarrow> calc_value" where
  "bool_val b = V_b (if b then 1 else 0)"

definition calc_tree_eval_rel :: "'s eval_st node_proc" where
  "calc_tree_eval_rel t0 st =
     (let t = set_ind KR_VALUE_UNSET t0;
          finish = (\<lambda>stop onstop. do {
            r \<leftarrow> rel_loop stop (ct_children t);
            (case r of
               Inl None \<Rightarrow> Some (- 1, t, st)
             | Inl (Some ty) \<Rightarrow> eval_fail (Msg_rel_type (ct_op t) ty) t st
             | Inr stopped \<Rightarrow>
                 Some (0, set_ind KR_VALUE_SETED (set_value (bool_val (if stopped then onstop else \<not> onstop)) t), st))
          })
      in case ct_op t of
        Some KR_CALCOP_AND \<Rightarrow> finish False False
      | Some KR_CALCOP_OR \<Rightarrow> finish True True
      | Some KR_CALCOP_NOT \<Rightarrow> finish True False
      | _ \<Rightarrow> eval_fail (Msg_unsupport_op (ct_op t)) t st)"

text \<open>The promotion of a numeric child to \<open>double\<close>; \<^term>\<open>Some None\<close> is a type it does not handle.\<close>

definition promote :: "bool \<Rightarrow> T_KRCalcTree \<Rightarrow> kr_double option option" where
  "promote with_bool c = (case ct_type c of
       KR_TYPE_BOOL \<Rightarrow> if with_bool then map_option (\<lambda>w. Some (d_of_int (sint w))) (get_b (ct_value c)) else Some None
     | KR_TYPE_INT \<Rightarrow> map_option (\<lambda>w. Some (d_of_int (sint w))) (get_i (ct_value c))
     | KR_TYPE_LONG \<Rightarrow> map_option (\<lambda>w. Some (d_of_int (sint w))) (get_l (ct_value c))
     | KR_TYPE_DOUBLE \<Rightarrow> map_option Some (get_d (ct_value c))
     | _ \<Rightarrow> Some None)"

text \<open>\<open>(int)d0 % (int)d1\<close>: undefined out of range, for a zero divisor and for \<open>INT_MIN % -1\<close>.\<close>

definition int_mod :: "kr_double \<Rightarrow> kr_double \<Rightarrow> kr_double option" where
  "int_mod d0 d1 = do {
     a \<leftarrow> d_to_i32 d0;
     b \<leftarrow> d_to_i32 d1;
     if b = 0 \<or> (a = - (2 ^ 31) \<and> b = - 1) then None else Some (d_of_int (tmod a b))
   }"

definition arith_op :: "E_KRCalcOp option \<Rightarrow> kr_double \<Rightarrow> kr_double \<Rightarrow> kr_double option option" where
  "arith_op op d0 d1 = (case op of
       Some KR_CALCOP_PLUS \<Rightarrow> Some (Some (d_add d0 d1))
     | Some KR_CALCOP_SUB \<Rightarrow> Some (Some (d_sub d0 d1))
     | Some KR_CALCOP_MUT \<Rightarrow> Some (Some (d_mul d0 d1))
     | Some KR_CALCOP_DIV \<Rightarrow> Some (Some (d_div d0 d1))
     | Some KR_CALCOP_MOD \<Rightarrow> map_option Some (int_mod d0 d1)
     | _ \<Rightarrow> Some None)"

definition arith_result :: "E_KRType \<Rightarrow> kr_double \<Rightarrow> calc_value option option" where
  "arith_result ty d = (case ty of
       KR_TYPE_INT \<Rightarrow> map_option (\<lambda>n. Some (V_i (word_of_int n))) (d_to_i32 d)
     | KR_TYPE_LONG \<Rightarrow> map_option (\<lambda>n. Some (V_l (word_of_int n))) (d_to_i64 d)
     | KR_TYPE_DOUBLE \<Rightarrow> Some (Some (V_d d))
     | _ \<Rightarrow> Some None)"

definition calc_tree_eval_arith :: "'s eval_st node_proc" where
  "calc_tree_eval_arith t0 st = do {
     let t = set_ind KR_VALUE_UNSET t0;
     left \<leftarrow> nth_opt (ct_children t) 0;
     right \<leftarrow> nth_opt (ct_children t) 1;
     if ct_ind left \<noteq> KR_VALUE_SETED \<or> ct_ind right \<noteq> KR_VALUE_SETED then Some (- 1, t, st)
     else do {
       p0 \<leftarrow> promote False left;
       (case p0 of
          None \<Rightarrow> eval_fail (Msg_not_numeric True (ct_type left)) t st
        | Some d0 \<Rightarrow> do {
            p1 \<leftarrow> promote False right;
            (case p1 of
               None \<Rightarrow> eval_fail (Msg_not_numeric False (ct_type right)) t st
             | Some d1 \<Rightarrow> do {
                 dr \<leftarrow> arith_op (ct_op t) d0 d1;
                 (case dr of
                    None \<Rightarrow> eval_fail (Msg_unsupport_op (ct_op t)) t st
                  | Some d \<Rightarrow> do {
                      vr \<leftarrow> arith_result (ct_type t) d;
                      (case vr of
                         None \<Rightarrow> eval_fail (Msg_unsupport_type (ct_type t)) t st
                       | Some v \<Rightarrow> Some (0, set_ind KR_VALUE_SETED (set_value v t), st))
                    })
               })
          })
     }
   }"

text \<open>
  A comparison: both strings by \<open>strcmp\<close>, neither a string by the promoted doubles, mixed operands
  are an error. The result is the C \<open>int\<close> stored in \<open>value.b\<close>.
\<close>

definition c_bool :: "bool \<Rightarrow> int" where
  "c_bool b = (if b then 1 else 0)"

definition str_operand :: "T_KRCalcTree \<Rightarrow> string option" where
  "str_operand c = Option.bind (get_s (ct_value c)) (\<lambda>s. s)"

definition eval_cmp ::
  "(int \<Rightarrow> int) \<Rightarrow> (kr_double \<Rightarrow> kr_double \<Rightarrow> bool) \<Rightarrow> T_KRCalcTree \<Rightarrow> T_KRCalcTree \<Rightarrow> kr_double \<Rightarrow> kr_double \<Rightarrow>
   int option option" where
  "eval_cmp fs fd left right d0 d1 =
     (if ct_type left = KR_TYPE_STRING \<and> ct_type right = KR_TYPE_STRING then do {
        a \<leftarrow> str_operand left;
        b \<leftarrow> str_operand right;
        Some (Some (fs (c_strcmp a b)))
      }
      else if ct_type left \<noteq> KR_TYPE_STRING \<and> ct_type right \<noteq> KR_TYPE_STRING
      then Some (Some (c_bool (fd d0 d1)))
      else Some None)"

text \<open>
  The element a membership test looks up: the string itself, or the value union read as an object
  of the set's type. For the other types the address of the union is looked up, which has no
  defined value.
\<close>

definition set_operand :: "T_KRCalcTree \<Rightarrow> kr_key option" where
  "set_operand c = (case ct_type c of
       KR_TYPE_STRING \<Rightarrow> map_option KStr (str_operand c)
     | KR_TYPE_INT \<Rightarrow> map_option KInt (get_i (ct_value c))
     | KR_TYPE_LONG \<Rightarrow> map_option KLong (get_l (ct_value c))
     | KR_TYPE_DOUBLE \<Rightarrow> map_option KDouble (get_d (ct_value c))
     | _ \<Rightarrow> None)"

definition the_set :: "T_KRCalcTree \<Rightarrow> T_KRHashSet option" where
  "the_set c = (case get_p (ct_value c) of Some (Some (P_set s)) \<Rightarrow> Some s | _ \<Rightarrow> None)"

definition the_regex :: "T_KRCalcTree \<Rightarrow> T_KRRegex option" where
  "the_regex c = (case get_p (ct_value c) of Some (Some (P_regex r)) \<Rightarrow> Some r | _ \<Rightarrow> None)"

text \<open>
  \<open>BL\<close> compares the element's type with the set's, \<open>NBL\<close> with the type of the right operand's node
  (a pointer); both short-cut for strings in a set of strings.
\<close>

definition eval_bl :: "bool \<Rightarrow> T_KRCalcTree \<Rightarrow> T_KRCalcTree \<Rightarrow> (calc_msg + int) option" where
  "eval_bl neg left right =
     (if is_set_kind (ct_kind right) then do {
        s \<leftarrow> the_set right;
        if (ct_type left = KR_TYPE_STRING \<and> hs_type s = KR_TYPE_STRING) \<or>
           ct_type left = (if neg then ct_type right else hs_type s)
        then do {
          k \<leftarrow> set_operand left;
          b \<leftarrow> kr_hashset_search s k;
          Some (Inr (c_bool (b \<noteq> neg)))
        } else Some (Inl (Msg_set_types neg (ct_type left) (hs_type s)))
      } else Some (Inl (Msg_set_kind neg (ct_kind right))))"

definition logic_op :: "'s calc_env \<Rightarrow> E_KRCalcOp option \<Rightarrow> T_KRCalcTree \<Rightarrow> T_KRCalcTree \<Rightarrow> kr_double \<Rightarrow> kr_double \<Rightarrow>
    (calc_msg + int) option" where
  "logic_op env op left right d0 d1 =
     (let cmp = (\<lambda>fs fd. map_option
                   (\<lambda>r. case r of None \<Rightarrow> Inl (Msg_op_types op (ct_type left) (ct_type right)) | Some b \<Rightarrow> Inr b)
                   (eval_cmp fs fd left right d0 d1))
      in case op of
        Some KR_CALCOP_LT \<Rightarrow> cmp (\<lambda>n. c_bool (n < 0)) d_lt
      | Some KR_CALCOP_LE \<Rightarrow> cmp (\<lambda>n. c_bool (n \<le> 0)) d_le
      | Some KR_CALCOP_GT \<Rightarrow> cmp (\<lambda>n. c_bool (n > 0)) (\<lambda>x y. d_lt y x)
      | Some KR_CALCOP_GE \<Rightarrow> cmp (\<lambda>n. c_bool (n \<ge> 0)) (\<lambda>x y. d_le y x)
      | Some KR_CALCOP_EQ \<Rightarrow> cmp (\<lambda>n. c_bool (n = 0)) d_eq
      | Some KR_CALCOP_NEQ \<Rightarrow> cmp (\<lambda>n. n) (\<lambda>x y. \<not> d_eq x y)
      | Some KR_CALCOP_BL \<Rightarrow> eval_bl False left right
      | Some KR_CALCOP_NBL \<Rightarrow> eval_bl True left right
      | Some KR_CALCOP_MATCH \<Rightarrow>
          if ct_type left = KR_TYPE_STRING \<and> ct_kind right = KR_CALCKIND_REGEX then do {
            re \<leftarrow> the_regex right;
            a \<leftarrow> str_operand left;
            Some (Inr (c_bool (kr_regex_execute (regexec_fn env) re a)))
          } else Some (Inl (Msg_op_kind op (ct_type left) KR_TYPE_UNKNOWN (ct_kind right)))
      | _ \<Rightarrow> Some (Inl (Msg_unsupport_op op)))"

text \<open>A type the promotion switch has no case for leaves the initial \<open>0.0\<close>.\<close>

definition promote0 :: "T_KRCalcTree \<Rightarrow> kr_double option" where
  "promote0 c = map_option (\<lambda>r. case r of Some d \<Rightarrow> d | None \<Rightarrow> Fin 0) (promote True c)"

definition calc_tree_eval_logic :: "'s calc_env \<Rightarrow> 's eval_st node_proc" where
  "calc_tree_eval_logic env t0 st = do {
     let t = set_ind KR_VALUE_UNSET t0;
     left \<leftarrow> nth_opt (ct_children t) 0;
     right \<leftarrow> nth_opt (ct_children t) 1;
     if ct_ind left \<noteq> KR_VALUE_SETED \<or> ct_ind right \<noteq> KR_VALUE_SETED then Some (- 1, t, st)
     else do {
       d0 \<leftarrow> promote0 left;
       d1 \<leftarrow> promote0 right;
       r \<leftarrow> logic_op env (ct_op t) left right d0 d1;
       (case r of
          Inl msg \<Rightarrow> eval_fail msg t st
        | Inr b \<Rightarrow> Some (0, set_value (V_b (word_of_int b)) (set_ind KR_VALUE_SETED t), st))
     }
   }"

text \<open>
  An external identifier: its type is asked for once, its value at every evaluation; no value leaves
  the node unset. The object behind the pointer is read as the node's type.
\<close>

definition read_extern :: "E_KRType \<Rightarrow> calc_value \<Rightarrow> calc_value option option" where
  "read_extern ty val = (case ty of
       KR_TYPE_BOOL \<Rightarrow> map_option (\<lambda>w. Some (V_b w)) (get_b val)
     | KR_TYPE_INT \<Rightarrow> map_option (\<lambda>w. Some (V_i w)) (get_i val)
     | KR_TYPE_LONG \<Rightarrow> map_option (\<lambda>w. Some (V_l w)) (get_l val)
     | KR_TYPE_DOUBLE \<Rightarrow> map_option (\<lambda>d. Some (V_d d)) (get_d val)
     | KR_TYPE_STRING \<Rightarrow> map_option (\<lambda>s. Some (V_s s)) (get_s val)
     | KR_TYPE_POINTER \<Rightarrow> map_option (\<lambda>p. Some (V_p p)) (get_p val)
     | _ \<Rightarrow> Some None)"

definition calc_tree_eval_extern :: "'s calc_env \<Rightarrow> 's eval_st node_proc" where
  "calc_tree_eval_extern env t0 st = do {
     let t1 = set_ind KR_VALUE_UNSET t0;
     t \<leftarrow> (if ct_type t1 = KR_TYPE_UNKNOWN
          then map_option (\<lambda>ty. set_type ty t1) (get_type_cb env (ct_kind t1) (ct_id t1) (snd st)) else Some t1);
     if ct_type t = KR_TYPE_UNKNOWN then eval_fail (Msg_type_unknown (ct_kind t) (ct_id t)) t st
     else do {
       (val, s1) \<leftarrow> get_value_cb env (ct_kind t) (ct_id t) (snd st);
       (case val of
          None \<Rightarrow> Some (0, t, (fst st, s1))
        | Some v \<Rightarrow>
            if ct_kind t = KR_CALCKIND_SET then do {
              p \<leftarrow> get_p v;
              Some (0, set_ind KR_VALUE_SETED (set_value (V_p p) (set_type KR_TYPE_POINTER t)), (fst st, s1))
            }
            else do {
              r \<leftarrow> read_extern (ct_type t) v;
              (case r of
                 None \<Rightarrow> eval_fail (Msg_unsupport_type (ct_type t)) t (fst st, s1)
               | Some w \<Rightarrow> Some (0, set_ind KR_VALUE_SETED (set_value w t), (fst st, s1)))
            })
     }
   }"

definition is_extern_kind :: "E_KRCalcKind \<Rightarrow> bool" where
  "is_extern_kind k \<longleftrightarrow> k \<in> {KR_CALCKIND_SET, KR_CALCKIND_CID, KR_CALCKIND_FID, KR_CALCKIND_SID,
     KR_CALCKIND_DID, KR_CALCKIND_HID}"

definition calc_tree_eval_node :: "'s calc_env \<Rightarrow> 's eval_st node_proc" where
  "calc_tree_eval_node env t st =
     (if ct_kind t = KR_CALCKIND_REL then calc_tree_eval_rel t st
      else if ct_kind t = KR_CALCKIND_ARITH then calc_tree_eval_arith t st
      else if ct_kind t = KR_CALCKIND_LOGIC then calc_tree_eval_logic env t st
      else if is_extern_kind (ct_kind t) then calc_tree_eval_extern env t st
      else Some (0, t, st))"

definition kr_calc_tree_eval :: "'s calc_env \<Rightarrow> T_KRCalcTree \<Rightarrow> 's eval_st \<Rightarrow> (int \<times> T_KRCalcTree \<times> 's eval_st) option" where
  "kr_calc_tree_eval env t st = kr_calc_tree_traverse (calc_tree_eval_node env) t st"

section \<open>Freeing a tree\<close>

datatype calc_free = Free_string "string option" | Free_set "T_KRHashSet option" | Free_regex "T_KRRegex option"

text \<open>
  What freeing a node releases beside the node itself; the walk visits the children first. Reading
  the pointer member of a node whose value holds another member has no defined value.
\<close>

definition calc_tree_free_node :: "T_KRCalcTree \<Rightarrow> calc_free list option" where
  "calc_tree_free_node t =
     (if ct_kind t = KR_CALCKIND_STRING then map_option (\<lambda>s. [Free_string s]) (get_s (ct_value t))
      else if is_set_kind (ct_kind t) then
        (case get_p (ct_value t) of
           Some None \<Rightarrow> Some [Free_set None]
         | Some (Some (P_set s)) \<Rightarrow> Some [Free_set (Some s)]
         | _ \<Rightarrow> None)
      else if ct_kind t = KR_CALCKIND_REGEX then
        (case get_p (ct_value t) of
           Some None \<Rightarrow> Some [Free_regex None]
         | Some (Some (P_regex r)) \<Rightarrow> Some [Free_regex (Some r)]
         | _ \<Rightarrow> None)
      else Some [])"

definition kr_calc_tree_free :: "T_KRCalcTree option \<Rightarrow> calc_free list option" where
  "kr_calc_tree_free t0 = (case t0 of
       None \<Rightarrow> Some []
     | Some t \<Rightarrow> do {
         (r, t', fs) \<leftarrow> kr_calc_tree_traverse
           (\<lambda>t fs. do { f \<leftarrow> calc_tree_free_node t; Some (0, t, fs @ f) }) t [];
         Some fs
       })"

section \<open>The calculator\<close>

text \<open>The parser (by the format) is an argument; it returns its code and fills in the tree or the message.\<close>

definition kr_calc_construct ::
  "(T_KRCalc \<Rightarrow> (int \<times> T_KRCalc) option) \<Rightarrow> E_KRCalcFormat \<Rightarrow> string \<Rightarrow> T_KRCalc option option" where
  "kr_calc_construct parse fmt calcstr = do {
     (r, kc) \<leftarrow> parse \<lparr>calc_format = fmt, calc_string = calcstr, calc_tree = None, calc_status = 0,
                       calc_errmsg = Msg_none\<rparr>;
     Some (if r \<noteq> 0 then None else Some kc)
   }"

definition kr_calc_destruct :: "T_KRCalc option \<Rightarrow> calc_free list option" where
  "kr_calc_destruct kc = (case kc of None \<Rightarrow> Some [] | Some k \<Rightarrow> kr_calc_tree_free (calc_tree k))"

definition kr_calc_check :: "T_KRCalc \<Rightarrow> (int \<times> T_KRCalc) option" where
  "kr_calc_check kc = (case calc_tree kc of
       None \<Rightarrow> Some (0, kc)
     | Some t \<Rightarrow> do {
         (r, t', kc') \<leftarrow> kr_calc_tree_check t kc;
         Some (if r \<noteq> 0 then - 1 else 0, kc'\<lparr>calc_tree := Some t'\<rparr>)
       })"

definition kr_calc_eval :: "'s calc_env \<Rightarrow> T_KRCalc \<Rightarrow> 's \<Rightarrow> (int \<times> T_KRCalc \<times> 's) option" where
  "kr_calc_eval env kc s = (case calc_tree kc of
       None \<Rightarrow> Some (0, kc, s)
     | Some t \<Rightarrow> do {
         (r, t', kc', s') \<leftarrow> kr_calc_tree_eval env t (kc, s);
         Some (if r \<noteq> 0 then - 1 else 0, kc'\<lparr>calc_tree := Some t'\<rparr>, s')
       })"

definition kr_calc_type :: "T_KRCalc \<Rightarrow> E_KRType option" where
  "kr_calc_type kc = map_option ct_type (calc_tree kc)"

definition kr_calc_ind :: "T_KRCalc \<Rightarrow> E_KRValueInd option" where
  "kr_calc_ind kc = map_option ct_ind (calc_tree kc)"

definition kr_calc_value :: "T_KRCalc \<Rightarrow> calc_value option" where
  "kr_calc_value kc = map_option ct_value (calc_tree kc)"

end
