(* ===== verification/KR_Calc_Sem.thy ===== *)
theory KR_Calc_Sem
  imports KR_Calc
begin

text \<open>
  A reference semantics of the rule language: expressions without the mutable fields of the tree,
  values that carry their type, and a denotation that evaluates an expression in the caller's
  state. \<open>reps\<close> says which trees stand for an expression, whatever an earlier evaluation left in
  them; \<open>kr_calc_tree_eval\<close> is shown to compute the denotation on every such tree.
\<close>

section \<open>Expressions and values\<close>

datatype cval =
    CBool i32 | CInt i32 | CLong i64 | CDbl kr_double | CStr string | CSet T_KRHashSet | CReg T_KRRegex

fun type_of :: "cval \<Rightarrow> E_KRType" where
  "type_of (CBool _) = KR_TYPE_BOOL"
| "type_of (CInt _) = KR_TYPE_INT"
| "type_of (CLong _) = KR_TYPE_LONG"
| "type_of (CDbl _) = KR_TYPE_DOUBLE"
| "type_of (CStr _) = KR_TYPE_STRING"
| "type_of (CSet _) = KR_TYPE_POINTER"
| "type_of (CReg _) = KR_TYPE_POINTER"

fun val_of :: "cval \<Rightarrow> calc_value" where
  "val_of (CBool w) = V_b w"
| "val_of (CInt w) = V_i w"
| "val_of (CLong w) = V_l w"
| "val_of (CDbl d) = V_d d"
| "val_of (CStr s) = V_s (Some s)"
| "val_of (CSet h) = V_p (Some (P_set h))"
| "val_of (CReg r) = V_p (Some (P_regex r))"

datatype cexp =
    CE_const cval
  | CE_ext E_KRCalcKind int
  | CE_arith E_KRCalcOp E_KRType cexp cexp
  | CE_logic E_KRCalcOp cexp cexp
  | CE_rel E_KRCalcOp "cexp list"

datatype dres = D_fail | D_unset | D_val cval

text \<open>What an identifier means: its type, and its value in a state (evaluation may change the state).\<close>

record 's spec_env =
  tyof :: "E_KRCalcKind \<Rightarrow> int \<Rightarrow> E_KRType"
  lookup :: "E_KRCalcKind \<Rightarrow> int \<Rightarrow> 's \<Rightarrow> cval option \<times> 's"
  rematch :: "string \<Rightarrow> string \<Rightarrow> bool"

section \<open>Denotation\<close>

fun num :: "cval \<Rightarrow> kr_double option" where
  "num (CInt w) = Some (d_of_int (sint w))"
| "num (CLong w) = Some (d_of_int (sint w))"
| "num (CDbl d) = Some d"
| "num _ = None"

fun num0 :: "cval \<Rightarrow> kr_double" where
  "num0 (CBool w) = d_of_int (sint w)"
| "num0 (CInt w) = d_of_int (sint w)"
| "num0 (CLong w) = d_of_int (sint w)"
| "num0 (CDbl d) = d"
| "num0 _ = Fin 0"

fun truth :: "cval \<Rightarrow> bool option" where
  "truth (CBool w) = Some (w \<noteq> 0)"
| "truth (CInt w) = Some (w \<noteq> 0)"
| "truth _ = None"

text \<open>\<^term>\<open>None\<close> is undefined behaviour, as in the model.\<close>

definition den_conv :: "E_KRType \<Rightarrow> kr_double \<Rightarrow> dres option" where
  "den_conv ty d = (case ty of
       KR_TYPE_INT \<Rightarrow> map_option (\<lambda>n. D_val (CInt (word_of_int n))) (d_to_i32 d)
     | KR_TYPE_LONG \<Rightarrow> map_option (\<lambda>n. D_val (CLong (word_of_int n))) (d_to_i64 d)
     | KR_TYPE_DOUBLE \<Rightarrow> Some (D_val (CDbl d))
     | _ \<Rightarrow> Some D_fail)"

definition den_arith :: "E_KRCalcOp \<Rightarrow> E_KRType \<Rightarrow> cval \<Rightarrow> cval \<Rightarrow> dres option" where
  "den_arith op ty x y = (case (num x, num y) of
       (Some a, Some b) \<Rightarrow>
         (case op of
            KR_CALCOP_PLUS \<Rightarrow> den_conv ty (d_add a b)
          | KR_CALCOP_SUB \<Rightarrow> den_conv ty (d_sub a b)
          | KR_CALCOP_MUT \<Rightarrow> den_conv ty (d_mul a b)
          | KR_CALCOP_DIV \<Rightarrow> den_conv ty (d_div a b)
          | KR_CALCOP_MOD \<Rightarrow> Option.bind (int_mod a b) (den_conv ty)
          | _ \<Rightarrow> Some D_fail)
     | _ \<Rightarrow> Some D_fail)"

definition int_res :: "int \<Rightarrow> dres" where
  "int_res n = D_val (CBool (word_of_int n))"

definition den_cmp :: "(int \<Rightarrow> int) \<Rightarrow> (kr_double \<Rightarrow> kr_double \<Rightarrow> bool) \<Rightarrow> cval \<Rightarrow> cval \<Rightarrow> dres" where
  "den_cmp fs fd x y = (case (x, y) of
       (CStr a, CStr b) \<Rightarrow> int_res (fs (c_strcmp a b))
     | (CStr _, _) \<Rightarrow> D_fail
     | (_, CStr _) \<Rightarrow> D_fail
     | _ \<Rightarrow> int_res (c_bool (fd (num0 x) (num0 y))))"

text \<open>
  Membership. \<open>@@\<close> needs the element's type to be the set's; \<open>!@\<close> accepts strings in string sets, and
  otherwise an element whose type is that of the operand node, a pointer, which no element has.
\<close>

fun elem_key :: "cval \<Rightarrow> kr_key option" where
  "elem_key (CStr s) = Some (KStr s)"
| "elem_key (CInt w) = Some (KInt w)"
| "elem_key (CLong w) = Some (KLong w)"
| "elem_key (CDbl d) = Some (KDouble d)"
| "elem_key _ = None"

definition den_member :: "bool \<Rightarrow> cval \<Rightarrow> cval \<Rightarrow> dres option" where
  "den_member neg x y = (case y of
       CSet h \<Rightarrow>
         if (type_of x = KR_TYPE_STRING \<and> hs_type h = KR_TYPE_STRING) \<or>
            type_of x = (if neg then KR_TYPE_POINTER else hs_type h)
         then do { k \<leftarrow> elem_key x; b \<leftarrow> kr_hashset_search h k; Some (int_res (c_bool (b \<noteq> neg))) }
         else Some D_fail
     | _ \<Rightarrow> Some D_fail)"

definition den_logic :: "(string \<Rightarrow> string \<Rightarrow> bool) \<Rightarrow> E_KRCalcOp \<Rightarrow> cval \<Rightarrow> cval \<Rightarrow> dres option" where
  "den_logic rm op x y = (case op of
       KR_CALCOP_LT \<Rightarrow> Some (den_cmp (\<lambda>n. c_bool (n < 0)) d_lt x y)
     | KR_CALCOP_LE \<Rightarrow> Some (den_cmp (\<lambda>n. c_bool (n \<le> 0)) d_le x y)
     | KR_CALCOP_GT \<Rightarrow> Some (den_cmp (\<lambda>n. c_bool (n > 0)) (\<lambda>a b. d_lt b a) x y)
     | KR_CALCOP_GE \<Rightarrow> Some (den_cmp (\<lambda>n. c_bool (n \<ge> 0)) (\<lambda>a b. d_le b a) x y)
     | KR_CALCOP_EQ \<Rightarrow> Some (den_cmp (\<lambda>n. c_bool (n = 0)) d_eq x y)
     | KR_CALCOP_NEQ \<Rightarrow> Some (den_cmp (\<lambda>n. n) (\<lambda>a b. \<not> d_eq a b) x y)
     | KR_CALCOP_BL \<Rightarrow> den_member False x y
     | KR_CALCOP_NBL \<Rightarrow> den_member True x y
     | KR_CALCOP_MATCH \<Rightarrow>
         Some (case (x, y) of (CStr a, CReg r) \<Rightarrow> int_res (c_bool (rm (re_pattern r) a)) | _ \<Rightarrow> D_fail)
     | _ \<Rightarrow> Some D_fail)"

text \<open>A relation over the values of its children: the first child that decides it ends the scan.\<close>

primrec den_scan :: "bool \<Rightarrow> dres list \<Rightarrow> bool option" where
  "den_scan stop [] = Some False"
| "den_scan stop (r # rs) = (case r of
       D_val x \<Rightarrow> (case truth x of
           None \<Rightarrow> None
         | Some b \<Rightarrow> if b = stop then Some True else den_scan stop rs)
     | _ \<Rightarrow> None)"

definition den_rel :: "E_KRCalcOp \<Rightarrow> dres list \<Rightarrow> dres" where
  "den_rel op rs =
     (let out = (\<lambda>stop onstop. case den_scan stop rs of
                   None \<Rightarrow> D_fail | Some st \<Rightarrow> int_res (c_bool (if st then onstop else \<not> onstop)))
      in case op of
        KR_CALCOP_AND \<Rightarrow> out False False
      | KR_CALCOP_OR \<Rightarrow> out True True
      | KR_CALCOP_NOT \<Rightarrow> out True False
      | _ \<Rightarrow> D_fail)"

definition den_ext :: "'s spec_env \<Rightarrow> E_KRCalcKind \<Rightarrow> int \<Rightarrow> 's \<Rightarrow> dres \<times> 's" where
  "den_ext env k i s =
     (if tyof env k i = KR_TYPE_UNKNOWN then (D_fail, s)
      else case lookup env k i s of
        (None, s') \<Rightarrow> (D_unset, s')
      | (Some x, s') \<Rightarrow> (D_val x, s'))"

fun den :: "'s spec_env \<Rightarrow> cexp \<Rightarrow> 's \<Rightarrow> (dres \<times> 's) option"
  and den_list :: "'s spec_env \<Rightarrow> cexp list \<Rightarrow> 's \<Rightarrow> (dres list option \<times> 's) option"
where
  "den env (CE_const x) s = Some (D_val x, s)"
| "den env (CE_ext k i) s = Some (den_ext env k i s)"
| "den env (CE_arith op ty a b) s = do {
     (ra, s1) \<leftarrow> den env a s;
     if ra = D_fail then Some (D_fail, s1) else do {
       (rb, s2) \<leftarrow> den env b s1;
       (case (ra, rb) of
          (D_val x, D_val y) \<Rightarrow> map_option (\<lambda>r. (r, s2)) (den_arith op ty x y)
        | _ \<Rightarrow> Some (D_fail, s2))
     }
   }"
| "den env (CE_logic op a b) s = do {
     (ra, s1) \<leftarrow> den env a s;
     if ra = D_fail then Some (D_fail, s1) else do {
       (rb, s2) \<leftarrow> den env b s1;
       (case (ra, rb) of
          (D_val x, D_val y) \<Rightarrow> map_option (\<lambda>r. (r, s2)) (den_logic (rematch env) op x y)
        | _ \<Rightarrow> Some (D_fail, s2))
     }
   }"
| "den env (CE_rel op es) s = do {
     (rs, s1) \<leftarrow> den_list env es s;
     Some (case rs of None \<Rightarrow> D_fail | Some rs \<Rightarrow> den_rel op rs, s1)
   }"
| "den_list env [] s = Some (Some [], s)"
| "den_list env (e # es) s = do {
     (r, s1) \<leftarrow> den env e s;
     if r = D_fail then Some (None, s1) else do {
       (rs, s2) \<leftarrow> den_list env es s1;
       Some (map_option (\<lambda>l. r # l) rs, s2)
     }
   }"

section \<open>Trees that stand for an expression\<close>

fun const_kind :: "cval \<Rightarrow> E_KRCalcKind \<Rightarrow> bool" where
  "const_kind (CInt _) k = (k = KR_CALCKIND_INT)"
| "const_kind (CDbl _) k = (k = KR_CALCKIND_FLOAT)"
| "const_kind (CStr _) k = (k = KR_CALCKIND_STRING)"
| "const_kind (CSet _) k = (k \<in> {KR_CALCKIND_MINT, KR_CALCKIND_MFLOAT, KR_CALCKIND_MSTRING})"
| "const_kind (CReg _) k = (k = KR_CALCKIND_REGEX)"
| "const_kind _ k = False"

fun reps :: "'s spec_env \<Rightarrow> cexp \<Rightarrow> T_KRCalcTree \<Rightarrow> bool" where
  "reps env (CE_const x) (CalcTree cs k op i ty d v) \<longleftrightarrow>
     cs = [] \<and> const_kind x k \<and> d = KR_VALUE_SETED \<and> ty = type_of x \<and> v = val_of x"
| "reps env (CE_ext k' i') (CalcTree cs k op i ty d v) \<longleftrightarrow>
     cs = [] \<and> k = k' \<and> is_extern_kind k \<and> i = i' \<and>
     (ty = KR_TYPE_UNKNOWN \<or> ty = tyof env k i \<or>
      (k = KR_CALCKIND_SET \<and> ty = KR_TYPE_POINTER \<and> tyof env k i \<noteq> KR_TYPE_UNKNOWN))"
| "reps env (CE_arith op' ty' a b) (CalcTree cs k op i ty d v) \<longleftrightarrow>
     k = KR_CALCKIND_ARITH \<and> op = Some op' \<and> ty = ty' \<and>
     (case cs of [l, r] \<Rightarrow> reps env a l \<and> reps env b r | _ \<Rightarrow> False)"
| "reps env (CE_logic op' a b) (CalcTree cs k op i ty d v) \<longleftrightarrow>
     k = KR_CALCKIND_LOGIC \<and> op = Some op' \<and> ty = KR_TYPE_BOOL \<and>
     (case cs of [l, r] \<Rightarrow> reps env a l \<and> reps env b r | _ \<Rightarrow> False)"
| "reps env (CE_rel op' es) (CalcTree cs k op i ty d v) \<longleftrightarrow>
     k = KR_CALCKIND_REL \<and> op = Some op' \<and> ty = KR_TYPE_BOOL \<and> list_all2 (reps env) es cs"

text \<open>What the caller's callbacks have to provide for an environment.\<close>

definition env_rep :: "'s spec_env \<Rightarrow> 's calc_env \<Rightarrow> bool" where
  "env_rep se env \<longleftrightarrow>
     (\<forall>k i s. get_type_cb env k i s = Some (tyof se k i)) \<and>
     (\<forall>k i s. get_value_cb env k i s =
        Some (map_option val_of (fst (lookup se k i s)), snd (lookup se k i s))) \<and>
     (\<forall>k i s x. fst (lookup se k i s) = Some x \<longrightarrow>
        (if k = KR_CALCKIND_SET then \<exists>h. x = CSet h
         else type_of x = tyof se k i \<and> tyof se k i \<noteq> KR_TYPE_POINTER)) \<and>
     regexec_fn env = rematch se"

text \<open>A node after its evaluation, against the denotation's result.\<close>

definition node_res :: "dres \<Rightarrow> T_KRCalcTree \<Rightarrow> bool" where
  "node_res r t \<longleftrightarrow> (case r of
       D_fail \<Rightarrow> True
     | D_unset \<Rightarrow> ct_ind t = KR_VALUE_UNSET
     | D_val x \<Rightarrow> ct_ind t = KR_VALUE_SETED \<and> ct_type t = type_of x \<and> ct_value t = val_of x)"

text \<open>The node's kind agrees with the value as the membership and match operators need it.\<close>

definition kind_ok :: "dres \<Rightarrow> T_KRCalcTree \<Rightarrow> bool" where
  "kind_ok r t \<longleftrightarrow> (\<forall>x. r = D_val x \<longrightarrow>
     (is_set_kind (ct_kind t) \<longleftrightarrow> (\<exists>h. x = CSet h)) \<and>
     (ct_kind t = KR_CALCKIND_REGEX \<longleftrightarrow> (\<exists>re. x = CReg re)))"

definition run_ok ::
  "('t \<Rightarrow> bool) \<Rightarrow> ('r \<Rightarrow> bool) \<Rightarrow> ('r \<Rightarrow> 't \<Rightarrow> bool) \<Rightarrow> ('r \<times> 's) option \<Rightarrow> (int \<times> 't \<times> 's eval_st) option \<Rightarrow> bool" where
  "run_ok shape failed res dr er \<longleftrightarrow> (case (dr, er) of
       (None, None) \<Rightarrow> True
     | (Some (r, s'), Some (c, t', kc', s'')) \<Rightarrow>
         s'' = s' \<and> shape t' \<and> (if failed r then c = - 1 else c = 0 \<and> res r t')
     | _ \<Rightarrow> False)"

end
