(* ===== verification/KR_Calc_Eval.thy ===== *)
theory KR_Calc_Eval
  imports KR_Calc_Sem
begin

text \<open>
  The tree evaluator computes the denotation: node by node for the three operator kinds and the
  external identifiers, then for whole trees by induction on the expression.
\<close>

lemma promote_num:
  assumes "ct_type c = type_of x" and "ct_value c = val_of x"
  shows "promote False c = Some (num x)" and "promote0 c = Some (num0 x)"
  using assms by (cases x; simp add: promote_def promote0_def)+

lemma child_truth_of:
  "ct_type c = type_of x \<Longrightarrow> ct_value c = val_of x \<Longrightarrow> child_truth c = Some (truth x)"
  by (cases x) (simp_all add: child_truth_def)

lemma node_res_ind:
  "node_res r t \<Longrightarrow> r \<noteq> D_fail \<Longrightarrow> ct_ind t = KR_VALUE_SETED \<longleftrightarrow> (\<exists>x. r = D_val x)"
  by (cases r) (auto simp: node_res_def)

lemma node_resD:
  "node_res (D_val x) t \<Longrightarrow> ct_ind t = KR_VALUE_SETED \<and> ct_type t = type_of x \<and> ct_value t = val_of x"
  by (simp add: node_res_def)

definition step_ok ::
  "E_KRCalcKind \<Rightarrow> T_KRCalcTree \<Rightarrow> 's \<Rightarrow> dres option \<Rightarrow> (int \<times> T_KRCalcTree \<times> 's eval_st) option \<Rightarrow> bool" where
  "step_ok k t s dr er \<longleftrightarrow> (case (dr, er) of
       (None, None) \<Rightarrow> True
     | (Some r, Some (c, t', kc', s')) \<Rightarrow>
         s' = s \<and> (\<exists>d v. t' = set_ind d (set_value v t)) \<and>
         (if r = D_fail then c = - 1 else c = 0 \<and> node_res r t' \<and> (\<exists>x. r = D_val x \<and> (\<forall>h. x \<noteq> CSet h) \<and> (\<forall>q. x \<noteq> CReg q)))
     | _ \<Rightarrow> False)"

lemma set_ind_value_id [simp]: "set_ind (ct_ind t) (set_value (ct_value t) t) = t"
  by (cases t) simp

lemma ct_simps [simp]:
  "ct_children (set_ind d t) = ct_children t" "ct_children (set_value v t) = ct_children t"
  "ct_kind (set_ind d t) = ct_kind t" "ct_kind (set_value v t) = ct_kind t"
  "ct_op (set_ind d t) = ct_op t" "ct_op (set_value v t) = ct_op t"
  "ct_type (set_ind d t) = ct_type t" "ct_type (set_value v t) = ct_type t"
  "ct_ind (set_ind d t) = d" "ct_ind (set_value v t) = ct_ind t"
  "ct_value (set_ind d t) = ct_value t" "ct_value (set_value v t) = v"
  "set_ind d (set_ind d' t) = set_ind d t" "set_value v (set_value v' t) = set_value v t"
  "set_value v (set_ind d t) = set_ind d (set_value v t)"
  by (cases t; simp)+

lemma set_ind_ex: "\<exists>d' v'. set_ind d t = set_ind d' (set_value v' t)"
  by (rule exI [of _ d], rule exI [of _ "ct_value t"], cases t, simp)

lemma step_ok_fail:
  "step_ok k t s (Some D_fail) (Some (- 1, set_ind d t, kc', s))"
  "step_ok k t s (Some D_fail) (eval_fail msg (set_ind d t) (kc, s))"
  using set_ind_ex [of d t] by (simp_all add: step_ok_def eval_fail_def)

lemma step_ok_val:
  "type_of x = ct_type t \<Longrightarrow> (\<forall>h. x \<noteq> CSet h) \<Longrightarrow> (\<forall>q. x \<noteq> CReg q) \<Longrightarrow>
   step_ok k t s (Some (D_val x)) (Some (0, set_ind KR_VALUE_SETED (set_value (val_of x) t), kc', s))"
  by (auto simp: step_ok_def node_res_def)

lemma step_ok_None: "step_ok k t s None None"
  by (simp add: step_ok_def)

lemma arith_step:
  assumes t: "ct_children t = [l, r]" "ct_op t = Some op"
    and l: "node_res rl l" "rl \<noteq> D_fail" and r: "node_res rr r" "rr \<noteq> D_fail"
  shows "step_ok KR_CALCKIND_ARITH t s
    (case (rl, rr) of (D_val x, D_val y) \<Rightarrow> den_arith op (ct_type t) x y | _ \<Rightarrow> Some D_fail)
    (calc_tree_eval_arith t (kc, s))"
proof (cases "\<exists>x y. rl = D_val x \<and> rr = D_val y")
  case False
  then have "ct_ind l \<noteq> KR_VALUE_SETED \<or> ct_ind r \<noteq> KR_VALUE_SETED"
    using node_res_ind [OF l] node_res_ind [OF r] by blast
  then have "calc_tree_eval_arith t (kc, s) = Some (- 1, set_ind KR_VALUE_UNSET t, kc, s)"
    using t by (simp add: calc_tree_eval_arith_def nth_opt_def Let_def)
  moreover have "(case (rl, rr) of (D_val x, D_val y) \<Rightarrow> den_arith op (ct_type t) x y | _ \<Rightarrow> Some D_fail) = Some D_fail"
    using False by (cases rl; cases rr) auto
  ultimately show ?thesis by (simp add: step_ok_fail)
next
  case True
  then obtain x y where xy: "rl = D_val x" "rr = D_val y" by blast
  note lx = node_resD [OF l(1) [unfolded xy]] and ry = node_resD [OF r(1) [unfolded xy]]
  have p: "promote False l = Some (num x)" "promote False r = Some (num y)"
    using promote_num lx ry by blast+
  have conv: "step_ok KR_CALCKIND_ARITH t s (den_conv (ct_type t) d)
      (Option.bind (arith_result (ct_type t) d) (\<lambda>vr. case vr of
          None \<Rightarrow> eval_fail (Msg_unsupport_type (ct_type t)) (set_ind KR_VALUE_UNSET t) (kc, s)
        | Some v \<Rightarrow> Some (0, set_ind KR_VALUE_SETED (set_value v t), kc, s)))" for d
  proof -
    have "step_ok KR_CALCKIND_ARITH t s (Some (D_val z)) (Some (0, set_ind KR_VALUE_SETED (set_value (val_of z) t), kc, s))"
      if "type_of z = ct_type t" "\<forall>h. z \<noteq> CSet h" "\<forall>q. z \<noteq> CReg q" for z
      using step_ok_val [OF that] .
    from this [of "CInt (word_of_int n)" for n] this [of "CLong (word_of_int n)" for n] this [of "CDbl d"]
    show ?thesis
      by (cases "ct_type t"; cases "d_to_i32 d"; cases "d_to_i64 d")
         (auto simp: den_conv_def arith_result_def step_ok_None step_ok_fail)
  qed
  show ?thesis
  proof (cases "num x = None \<or> num y = None")
    case True
    then have "den_arith op (ct_type t) x y = Some D_fail" by (auto simp: den_arith_def split: option.splits)
    moreover have "\<exists>msg. calc_tree_eval_arith t (kc, s) = eval_fail msg (set_ind KR_VALUE_UNSET t) (kc, s)"
      using True t lx ry p by (cases "num x") (auto simp: calc_tree_eval_arith_def nth_opt_def Let_def)
    ultimately show ?thesis using xy by (auto simp: step_ok_fail)
  next
    case False
    then obtain a b where ab: "num x = Some a" "num y = Some b" by (cases "num x"; cases "num y") auto
    have "calc_tree_eval_arith t (kc, s) =
        Option.bind (arith_op (Some op) a b) (\<lambda>dr. case dr of
            None \<Rightarrow> eval_fail (Msg_unsupport_op (Some op)) (set_ind KR_VALUE_UNSET t) (kc, s)
          | Some d \<Rightarrow> Option.bind (arith_result (ct_type t) d) (\<lambda>vr. case vr of
              None \<Rightarrow> eval_fail (Msg_unsupport_type (ct_type t)) (set_ind KR_VALUE_UNSET t) (kc, s)
            | Some v \<Rightarrow> Some (0, set_ind KR_VALUE_SETED (set_value v t), kc, s)))"
      using t lx ry p ab by (simp add: calc_tree_eval_arith_def nth_opt_def Let_def)
    with xy ab conv show ?thesis
      by (cases op; cases "int_mod a b")
         (simp_all add: den_arith_def arith_op_def step_ok_fail step_ok_None)
  qed
qed

lemma str_operand_of: "ct_type c = type_of (CStr a) \<Longrightarrow> ct_value c = val_of (CStr a) \<Longrightarrow> str_operand c = Some a"
  by (simp add: str_operand_def)

lemma eval_cmp_of:
  assumes "ct_type l = type_of x" "ct_value l = val_of x" "ct_type r = type_of y" "ct_value r = val_of y"
  shows "map_option (\<lambda>q. case q of None \<Rightarrow> D_fail | Some n \<Rightarrow> int_res n) (eval_cmp fs fd l r (num0 x) (num0 y)) =
    Some (den_cmp fs fd x y)"
  using assms by (cases x; cases y) (simp_all add: eval_cmp_def den_cmp_def str_operand_def)

lemma eval_bl_of:
  assumes "ct_type l = type_of x" "ct_value l = val_of x" "ct_type r = type_of y" "ct_value r = val_of y"
    and "is_set_kind (ct_kind r) \<longleftrightarrow> (\<exists>h. y = CSet h)"
  shows "map_option (\<lambda>q. case q of Inl m \<Rightarrow> D_fail | Inr n \<Rightarrow> int_res n) (eval_bl neg l r) = den_member neg x y"
proof (cases "\<exists>h. y = CSet h")
  case False
  then have "den_member neg x y = Some D_fail" by (cases y) (simp_all add: den_member_def)
  with assms(5) False show ?thesis by (simp add: eval_bl_def)
next
  case True
  then obtain h where h: "y = CSet h" by blast
  have s: "the_set r = Some h" using assms(4) h by (simp add: the_set_def)
  have k: "set_operand l = elem_key x"
    using assms(1,2) by (cases x) (simp_all add: set_operand_def str_operand_def)
  have p: "ct_type r = KR_TYPE_POINTER" using assms(3) h by simp
  show ?thesis
    using assms(1,5) h s k p
    by (cases "elem_key x"; cases "kr_hashset_search h (the (elem_key x))")
       (auto simp: eval_bl_def den_member_def)
qed

lemma logic_op_of:
  assumes "ct_type l = type_of x" "ct_value l = val_of x" "ct_type r = type_of y" "ct_value r = val_of y"
    and "is_set_kind (ct_kind r) \<longleftrightarrow> (\<exists>h. y = CSet h)"
    and "ct_kind r = KR_CALCKIND_REGEX \<longleftrightarrow> (\<exists>re. y = CReg re)"
  shows "map_option (\<lambda>q. case q of Inl m \<Rightarrow> D_fail | Inr n \<Rightarrow> int_res n)
      (logic_op env (Some op) l r (num0 x) (num0 y)) = den_logic (regexec_fn env) op x y"
proof -
  have cmp: "map_option (\<lambda>q. case q of Inl m \<Rightarrow> D_fail | Inr n \<Rightarrow> int_res n)
      (map_option (\<lambda>q. case q of None \<Rightarrow> Inl m | Some b \<Rightarrow> Inr b)
        (eval_cmp fs fd l r (num0 x) (num0 y))) = Some (den_cmp fs fd x y)" for fs fd m
    using eval_cmp_of [OF assms(1-4), of fs fd]
    by (cases "eval_cmp fs fd l r (num0 x) (num0 y)") (auto split: option.splits)
  have mt: "map_option (\<lambda>q. case q of Inl m \<Rightarrow> D_fail | Inr n \<Rightarrow> int_res n)
      (logic_op env (Some KR_CALCOP_MATCH) l r (num0 x) (num0 y)) = den_logic (regexec_fn env) KR_CALCOP_MATCH x y"
    using assms(1-4,6)
    by (cases x; cases y) (simp_all add: logic_op_def den_logic_def str_operand_def the_regex_def kr_regex_execute_def)
  show ?thesis
  proof (cases "op = KR_CALCOP_MATCH")
    case True
    with mt show ?thesis by simp
  next
    case False
    then show ?thesis
      unfolding logic_op_def den_logic_def Let_def
      by (cases op) (simp_all only: option.case E_KRCalcOp.case cmp eval_bl_of [OF assms(1-5)]
          option.map sum.case simp_thms)
  qed
qed

lemma logic_step:
  assumes t: "ct_children t = [l, r]" "ct_op t = Some op" "ct_type t = KR_TYPE_BOOL"
    and l: "node_res rl l" "rl \<noteq> D_fail" and r: "node_res rr r" "rr \<noteq> D_fail" and k: "kind_ok rr r"
  shows "step_ok KR_CALCKIND_LOGIC t s
    (case (rl, rr) of (D_val x, D_val y) \<Rightarrow> den_logic (regexec_fn env) op x y | _ \<Rightarrow> Some D_fail)
    (calc_tree_eval_logic env t (kc, s))"
proof (cases "\<exists>x y. rl = D_val x \<and> rr = D_val y")
  case False
  then have "ct_ind l \<noteq> KR_VALUE_SETED \<or> ct_ind r \<noteq> KR_VALUE_SETED"
    using node_res_ind [OF l] node_res_ind [OF r] by blast
  then have "calc_tree_eval_logic env t (kc, s) = Some (- 1, set_ind KR_VALUE_UNSET t, kc, s)"
    using t by (simp add: calc_tree_eval_logic_def nth_opt_def Let_def)
  moreover have "(case (rl, rr) of (D_val x, D_val y) \<Rightarrow> den_logic (regexec_fn env) op x y | _ \<Rightarrow> Some D_fail) = Some D_fail"
    using False by (cases rl; cases rr) auto
  ultimately show ?thesis by (simp add: step_ok_fail)
next
  case True
  then obtain x y where xy: "rl = D_val x" "rr = D_val y" by blast
  note lx = node_resD [OF l(1) [unfolded xy]] and ry = node_resD [OF r(1) [unfolded xy]]
  have p: "promote0 l = Some (num0 x)" "promote0 r = Some (num0 y)" using promote_num lx ry by blast+
  have kk: "is_set_kind (ct_kind r) \<longleftrightarrow> (\<exists>h. y = CSet h)" "ct_kind r = KR_CALCKIND_REGEX \<longleftrightarrow> (\<exists>re. y = CReg re)"
    using k xy(2) by (auto simp: kind_ok_def)
  note op = logic_op_of [OF _ _ _ _ kk, of l x env op]
  have ev: "calc_tree_eval_logic env t (kc, s) =
      Option.bind (logic_op env (Some op) l r (num0 x) (num0 y)) (\<lambda>q. case q of
          Inl msg \<Rightarrow> eval_fail msg (set_ind KR_VALUE_UNSET t) (kc, s)
        | Inr b \<Rightarrow> Some (0, set_ind KR_VALUE_SETED (set_value (V_b (word_of_int b)) t), kc, s))"
    using t lx ry p by (simp add: calc_tree_eval_logic_def nth_opt_def Let_def)
  have val: "step_ok KR_CALCKIND_LOGIC t s (Some (int_res n))
      (Some (0, set_ind KR_VALUE_SETED (set_value (V_b (word_of_int n)) t), kc, s))" for n
    using step_ok_val [of "CBool (word_of_int n)" t KR_CALCKIND_LOGIC s kc] t(3) by (simp add: int_res_def)
  have "den_logic (regexec_fn env) op x y =
      map_option (\<lambda>q. case q of Inl m \<Rightarrow> D_fail | Inr n \<Rightarrow> int_res n) (logic_op env (Some op) l r (num0 x) (num0 y))"
    using op lx ry by simp
  with xy ev val show ?thesis
    by (cases "logic_op env (Some op) l r (num0 x) (num0 y)")
       (auto simp: step_ok_None step_ok_fail split: sum.splits)
qed

lemma rel_loop_of:
  "list_all2 node_res rs cs \<Longrightarrow> (\<forall>r \<in> set rs. r \<noteq> D_fail) \<Longrightarrow>
   \<exists>q. rel_loop stop cs = Some q \<and> den_scan stop rs = (case q of Inl _ \<Rightarrow> None | Inr b \<Rightarrow> Some b)"
proof (induction rs cs rule: list_all2_induct)
  case Nil
  then show ?case by simp
next
  case (Cons r rs c cs)
  then have ih: "\<exists>q. rel_loop stop cs = Some q \<and> den_scan stop rs = (case q of Inl _ \<Rightarrow> None | Inr b \<Rightarrow> Some b)"
    by simp
  show ?case
  proof (cases r)
    case D_fail
    with Cons.prems show ?thesis by simp
  next
    case D_unset
    with Cons.hyps(1) show ?thesis by (simp add: node_res_def)
  next
    case (D_val x)
    with Cons.hyps(1) have "ct_ind c = KR_VALUE_SETED" "child_truth c = Some (truth x)"
      by (auto simp: node_res_def child_truth_of)
    with ih D_val show ?thesis by (cases "truth x") auto
  qed
qed

lemma rel_step:
  assumes t: "ct_op t = Some op" "ct_type t = KR_TYPE_BOOL"
    and cs: "list_all2 node_res rs (ct_children t)" "\<forall>r \<in> set rs. r \<noteq> D_fail"
  shows "step_ok KR_CALCKIND_REL t s (Some (den_rel op rs)) (calc_tree_eval_rel t (kc, s))"
proof -
  have val: "step_ok KR_CALCKIND_REL t s (Some (int_res (c_bool b)))
      (Some (0, set_ind KR_VALUE_SETED (set_value (bool_val b) t), kc, s))" for b
    using step_ok_val [of "CBool (if b then 1 else 0)" t KR_CALCKIND_REL s kc] t(2)
    by (cases b) (simp_all add: int_res_def bool_val_def c_bool_def)
  from rel_loop_of [OF cs] obtain q1 where q1: "rel_loop True (ct_children t) = Some q1"
      "den_scan True rs = (case q1 of Inl _ \<Rightarrow> None | Inr b \<Rightarrow> Some b)"
    by blast
  from rel_loop_of [OF cs] obtain q0 where q0: "rel_loop False (ct_children t) = Some q0"
      "den_scan False rs = (case q0 of Inl _ \<Rightarrow> None | Inr b \<Rightarrow> Some b)"
    by blast
  show ?thesis
    using t(1) q0 q1 val
    by (cases op) (auto simp: calc_tree_eval_rel_def den_rel_def Let_def step_ok_fail
        split: sum.splits option.splits)
qed

lemma ext_step:
  assumes er: "env_rep se env" and t: "reps se (CE_ext k i) t"
  shows "case den_ext se k i s of (r, s') \<Rightarrow>
    \<exists>c t' kc'. calc_tree_eval_extern env t (kc, s) = Some (c, t', kc', s') \<and> reps se (CE_ext k i) t' \<and>
      (if r = D_fail then c = - 1 else c = 0 \<and> node_res r t' \<and> kind_ok r t')"
proof -
  obtain op ty d v where tt: "t = CalcTree [] k op i ty d v" "is_extern_kind k"
      "ty = KR_TYPE_UNKNOWN \<or> ty = tyof se k i \<or> (k = KR_CALCKIND_SET \<and> ty = KR_TYPE_POINTER \<and> tyof se k i \<noteq> KR_TYPE_UNKNOWN)"
    using t by (cases t) auto
  have g: "get_type_cb env k i s = Some (tyof se k i)"
      "get_value_cb env k i s = Some (map_option val_of (fst (lookup se k i s)), snd (lookup se k i s))"
    using er by (auto simp: env_rep_def)
  have typed: "if k = KR_CALCKIND_SET then \<exists>h. x = CSet h else type_of x = tyof se k i \<and> tyof se k i \<noteq> KR_TYPE_POINTER"
    if "fst (lookup se k i s) = Some x" for x
    using er that by (auto simp: env_rep_def)
  define ty1 where "ty1 = (if ty = KR_TYPE_UNKNOWN then tyof se k i else ty)"
  show ?thesis
  proof (cases "tyof se k i = KR_TYPE_UNKNOWN")
    case True
    with tt g show ?thesis
      by (auto simp: den_ext_def calc_tree_eval_extern_def eval_fail_def)
  next
    case False
    then have ty1: "ty1 \<noteq> KR_TYPE_UNKNOWN" "ty1 = tyof se k i \<or> (k = KR_CALCKIND_SET \<and> ty1 = KR_TYPE_POINTER)"
      using tt(3) by (auto simp: ty1_def)
    obtain xo s' where lk: "lookup se k i s = (xo, s')" by (cases "lookup se k i s")
    have ev: "calc_tree_eval_extern env t (kc, s) =
        (case map_option val_of xo of
          None \<Rightarrow> Some (0, CalcTree [] k op i ty1 KR_VALUE_UNSET v, (kc, s'))
        | Some w \<Rightarrow>
            if k = KR_CALCKIND_SET then do {
              p \<leftarrow> get_p w;
              Some (0, CalcTree [] k op i KR_TYPE_POINTER KR_VALUE_SETED (V_p p), (kc, s'))
            }
            else do {
              r \<leftarrow> read_extern ty1 w;
              (case r of
                 None \<Rightarrow> eval_fail (Msg_unsupport_type ty1) (CalcTree [] k op i ty1 KR_VALUE_UNSET v) (kc, s')
               | Some w' \<Rightarrow> Some (0, CalcTree [] k op i ty1 KR_VALUE_SETED w', (kc, s')))
            })"
      using tt(1) g lk ty1(1) unfolding ty1_def
      by (cases "k = KR_CALCKIND_SET"; cases "ty = KR_TYPE_UNKNOWN")
         (auto simp: calc_tree_eval_extern_def Let_def split: option.split)
    show ?thesis
    proof (cases xo)
      case None
      with ev lk False ty1 tt(2) show ?thesis
        by (auto simp: den_ext_def node_res_def kind_ok_def)
    next
      case (Some x)
      show ?thesis
      proof (cases "k = KR_CALCKIND_SET")
        case True
        with typed lk Some obtain h where "x = CSet h" by auto
        with True ev lk False Some tt(2) show ?thesis
          by (auto simp: den_ext_def node_res_def kind_ok_def is_set_kind_def)
      next
        case k: False
        with typed lk Some have x: "type_of x = ty1" "ty1 \<noteq> KR_TYPE_POINTER" using ty1(2) by auto
        have nk: "\<not> is_set_kind k" "k \<noteq> KR_CALCKIND_REGEX"
          using tt(2) k by (auto simp: is_set_kind_def is_extern_kind_def)
        have "read_extern ty1 (val_of x) = Some (Some (val_of x))" "\<forall>h. x \<noteq> CSet h" "\<forall>q. x \<noteq> CReg q"
          using x by (cases x; auto simp: read_extern_def)+
        with k ev lk False Some tt(2) ty1 x nk show ?thesis
          by (auto simp: den_ext_def node_res_def kind_ok_def)
      qed
    qed
  qed
qed

section \<open>Whole trees\<close>

lemma run_okE:
  assumes "run_ok shape failed res dr er"
  obtains (undef) "dr = None" "er = None"
    | (fails) r s' t' kc' where "dr = Some (r, s')" "er = Some (- 1, t', kc', s')" "shape t'" "failed r"
    | (returns) r s' t' kc' where "dr = Some (r, s')" "er = Some (0, t', kc', s')" "shape t'" "\<not> failed r" "res r t'"
  using assms unfolding run_ok_def by (cases dr; cases er) (auto split: if_splits)

lemma run_ok_None: "run_ok shape failed res None None"
  by (simp add: run_ok_def)

lemma run_ok_fails: "shape t' \<Longrightarrow> failed r \<Longrightarrow> run_ok shape failed res (Some (r, s)) (Some (- 1, t', kc', s))"
  by (simp add: run_ok_def)

lemma run_ok_returns:
  "shape t' \<Longrightarrow> \<not> failed r \<Longrightarrow> res r t' \<Longrightarrow> run_ok shape failed res (Some (r, s)) (Some (0, t', kc', s))"
  by (simp add: run_ok_def)

abbreviation tree_ok :: "'s spec_env \<Rightarrow> cexp \<Rightarrow> (dres \<times> 's) option \<Rightarrow> (int \<times> T_KRCalcTree \<times> 's eval_st) option \<Rightarrow> bool" where
  "tree_ok se e \<equiv> run_ok (reps se e) (\<lambda>r. r = D_fail) (\<lambda>r t. node_res r t \<and> kind_ok r t)"

abbreviation trees_ok ::
  "'s spec_env \<Rightarrow> cexp list \<Rightarrow> (dres list option \<times> 's) option \<Rightarrow> (int \<times> T_KRCalcTree list \<times> 's eval_st) option \<Rightarrow> bool" where
  "trees_ok se es \<equiv> run_ok (list_all2 (reps se) es) (\<lambda>r. r = None)
     (\<lambda>r ts. \<exists>rs. r = Some rs \<and> list_all2 node_res rs ts \<and> (\<forall>r \<in> set rs. r \<noteq> D_fail))"

text \<open>An operator node whose children have been evaluated.\<close>

lemma reps_set: "reps se (CE_arith op ty a b) (set_ind d (set_value v t)) = reps se (CE_arith op ty a b) t"
  "reps se (CE_logic op a b) (set_ind d (set_value v t)) = reps se (CE_logic op a b) t"
  "reps se (CE_rel op es) (set_ind d (set_value v t)) = reps se (CE_rel op es) t"
  by (cases t; simp)+

lemma step_tree_ok:
  assumes st: "step_ok k t s dr er" and r: "reps se e t"
    and keep: "\<And>d v. reps se e (set_ind d (set_value v t)) = reps se e t"
    and kk: "\<not> is_set_kind (ct_kind t)" "ct_kind t \<noteq> KR_CALCKIND_REGEX"
  shows "tree_ok se e (map_option (\<lambda>r. (r, s)) dr)
    (case er of None \<Rightarrow> None | Some (c, t', st') \<Rightarrow> Some (if c \<noteq> 0 then - 1 else 0, t', st'))"
proof (cases dr)
  case None
  with st show ?thesis by (cases er) (auto simp: step_ok_def run_ok_None)
next
  case (Some q)
  with st obtain c t' kc' d v where er: "er = Some (c, t', kc', s)" "t' = set_ind d (set_value v t)"
      "if q = D_fail then c = - 1
       else c = 0 \<and> node_res q t' \<and> (\<exists>x. q = D_val x \<and> (\<forall>h. x \<noteq> CSet h) \<and> (\<forall>re. x \<noteq> CReg re))"
    by (cases er) (auto simp: step_ok_def)
  have rt: "reps se e t'" using er(2) keep r by simp
  have "kind_ok q t'" if "q \<noteq> D_fail" using er(2,3) kk that by (auto simp: kind_ok_def)
  with Some er rt show ?thesis
    by (cases "q = D_fail") (auto intro: run_ok_fails run_ok_returns)
qed

lemma traverse_node:
  "kr_calc_tree_traverse post (CalcTree cs k p i ty d v) st =
     (case traverse_children post cs st of
        None \<Rightarrow> None
      | Some (r, cs', st1) \<Rightarrow>
          if r \<noteq> 0 then Some (- 1, CalcTree cs' k p i ty d v, st1)
          else (case post (CalcTree cs' k p i ty d v) st1 of
              None \<Rightarrow> None | Some (c, t', st') \<Rightarrow> Some (if c \<noteq> 0 then - 1 else 0, t', st')))"
  by (auto simp: Let_def split: option.split prod.split)

lemma tree_two:
  assumes a: "tree_ok se a (den se a s) (kr_calc_tree_traverse post l (kc, s))"
    and b: "\<And>s1 kc1. tree_ok se b (den se b s1) (kr_calc_tree_traverse post r (kc1, s1))"
    and node: "\<And>l' r' ra rb s2 kc2. reps se a l' \<Longrightarrow> reps se b r' \<Longrightarrow> node_res ra l' \<Longrightarrow> node_res rb r' \<Longrightarrow>
        ra \<noteq> D_fail \<Longrightarrow> rb \<noteq> D_fail \<Longrightarrow> kind_ok rb r' \<Longrightarrow>
        tree_ok se e (map_option (\<lambda>r. (r, s2)) (comb ra rb))
          (case post (CalcTree [l', r'] k p i ty d v) (kc2, s2) of
             None \<Rightarrow> None | Some (c, t', st') \<Rightarrow> Some (if c \<noteq> 0 then - 1 else 0, t', st'))"
    and shape: "\<And>l' r'. reps se a l' \<Longrightarrow> reps se b r' \<Longrightarrow> reps se e (CalcTree [l', r'] k p i ty d v)"
    and l: "reps se a l" and r: "reps se b r"
  shows "tree_ok se e
    (do { (ra, s1) \<leftarrow> den se a s;
          if ra = D_fail then Some (D_fail, s1)
          else do { (rb, s2) \<leftarrow> den se b s1;
                    if rb = D_fail then Some (D_fail, s2) else map_option (\<lambda>r. (r, s2)) (comb ra rb) } })
    (kr_calc_tree_traverse post (CalcTree [l, r] k p i ty d v) (kc, s))"
  using a
proof (cases rule: run_okE)
  case undef
  then show ?thesis by (simp add: traverse_node run_ok_None del: kr_calc_tree_traverse.simps)
next
  case (fails ra s1 l' kc1)
  then show ?thesis using shape [OF fails(3) r]
    by (simp add: traverse_node run_ok_fails del: kr_calc_tree_traverse.simps)
next
  case (returns ra s1 l' kc1)
  note A = returns
  from b [of s1 kc1] show ?thesis
  proof (cases rule: run_okE)
    case undef
    with A show ?thesis by (simp add: traverse_node run_ok_None del: kr_calc_tree_traverse.simps)
  next
    case (fails rb s2 r' kc2)
    with A show ?thesis using shape [OF A(3) fails(3)]
      by (simp add: traverse_node run_ok_fails del: kr_calc_tree_traverse.simps)
  next
    case (returns rb s2 r' kc2)
    with A node [of l' r' ra rb s2 kc2] show ?thesis
      by (simp add: traverse_node del: kr_calc_tree_traverse.simps)
  qed
qed

lemma trees_from_trees:
  assumes "\<And>e t kc s. e \<in> set es \<Longrightarrow> reps se e t \<Longrightarrow>
      tree_ok se e (den se e s) (kr_calc_tree_traverse post t (kc, s))"
  shows "list_all2 (reps se) es ts \<Longrightarrow>
    trees_ok se es (den_list se es s) (traverse_children post ts (kc, s))"
  using assms
proof (induction es arbitrary: ts kc s)
  case Nil
  then show ?case by (simp add: run_ok_returns)
next
  case (Cons e es)
  then obtain t ts' where ts: "ts = t # ts'" "reps se e t" "list_all2 (reps se) es ts'"
    by (auto simp: list_all2_Cons1)
  from Cons.prems(2) [of e t s kc] ts(2)
  have "tree_ok se e (den se e s) (kr_calc_tree_traverse post t (kc, s))" by simp
  then show ?case
  proof (cases rule: run_okE)
    case undef
    with ts show ?thesis by (simp add: run_ok_None)
  next
    case (fails r s1 t' kc1)
    with ts show ?thesis by (simp add: run_ok_fails)
  next
    case (returns r s1 t' kc1)
    note A = returns
    have "trees_ok se es (den_list se es s1) (traverse_children post ts' (kc1, s1))"
      using Cons.IH [OF ts(3)] Cons.prems(2) by simp
    then show ?thesis
    proof (cases rule: run_okE)
      case undef
      with ts A show ?thesis by (simp add: run_ok_None)
    next
      case (fails rs s2 us kc2)
      with ts A show ?thesis by (simp add: run_ok_fails)
    next
      case (returns rs s2 us kc2)
      with ts A show ?thesis by (auto intro!: run_ok_returns)
    qed
  qed
qed

lemma tree_eval:
  fixes se :: "'s spec_env"
  assumes er: "env_rep se env"
  shows "reps se e t \<Longrightarrow> tree_ok se e (den se e s) (kr_calc_tree_traverse (calc_tree_eval_node env) t (kc, s))"
proof (induction e arbitrary: t kc s)
  case (CE_const x)
  then obtain k op i where t: "t = CalcTree [] k op i (type_of x) KR_VALUE_SETED (val_of x)" "const_kind x k"
    by (cases t) auto
  then have "calc_tree_eval_node env t st = Some (0, t, st)" for st :: "'s eval_st"
    by (cases x) (auto simp: calc_tree_eval_node_def is_extern_kind_def)
  moreover have "kind_ok (D_val x) t" using t by (cases x) (auto simp: kind_ok_def is_set_kind_def)
  ultimately show ?case using t CE_const by (auto simp: node_res_def intro!: run_ok_returns)
next
  case (CE_ext k i)
  then obtain op ty d v where t: "t = CalcTree [] k op i ty d v" "is_extern_kind k" by (cases t) auto
  have node: "calc_tree_eval_node env t st = calc_tree_eval_extern env t st" for st
    using t by (auto simp: calc_tree_eval_node_def is_extern_kind_def)
  obtain r s' where d: "den_ext se k i s = (r, s')" by (cases "den_ext se k i s")
  from ext_step [OF er CE_ext, of kc s] d obtain c t' kc' where
      "calc_tree_eval_extern env t (kc, s) = Some (c, t', kc', s')" "reps se (CE_ext k i) t'"
      "if r = D_fail then c = - 1 else c = 0 \<and> node_res r t' \<and> kind_ok r t'"
    by auto
  with d node t show ?case
    by (cases "r = D_fail") (auto simp: traverse_node simp del: kr_calc_tree_traverse.simps
        intro!: run_ok_fails run_ok_returns)
next
  case (CE_arith op ty a b)
  from CE_arith.prems obtain l r i d v where t: "t = CalcTree [l, r] KR_CALCKIND_ARITH (Some op) i ty d v"
      "reps se a l" "reps se b r"
    by (cases t) (auto split: list.splits)
  let ?comb = "\<lambda>ra rb. case (ra, rb) of (D_val x, D_val y) \<Rightarrow> den_arith op ty x y | _ \<Rightarrow> Some D_fail"
  have "tree_ok se (CE_arith op ty a b)
    (do { (ra, s1) \<leftarrow> den se a s;
          if ra = D_fail then Some (D_fail, s1)
          else do { (rb, s2) \<leftarrow> den se b s1;
                    if rb = D_fail then Some (D_fail, s2) else map_option (\<lambda>r. (r, s2)) (?comb ra rb) } })
    (kr_calc_tree_traverse (calc_tree_eval_node env) t (kc, s))"
    unfolding t(1)
  proof (rule tree_two [OF CE_arith.IH(1) [OF t(2)] CE_arith.IH(2) [OF t(3)] _ _ t(2,3)])
    fix l' r' ra rb and s2 :: 's and kc2
    assume n: "reps se a l'" "reps se b r'" "node_res ra l'" "node_res rb r'" "ra \<noteq> D_fail" "rb \<noteq> D_fail"
    let ?t = "CalcTree [l', r'] KR_CALCKIND_ARITH (Some op) i ty d v"
    have "step_ok KR_CALCKIND_ARITH ?t s2 (?comb ra rb) (calc_tree_eval_arith ?t (kc2, s2))"
      using arith_step [of ?t l' r' op ra rb s2 kc2] n by (cases ra; cases rb) simp_all
    from step_tree_ok [OF this, of se "CE_arith op ty a b"] n(1,2)
    show "tree_ok se (CE_arith op ty a b) (map_option (\<lambda>r. (r, s2)) (?comb ra rb))
        (case calc_tree_eval_node env ?t (kc2, s2) of
           None \<Rightarrow> None | Some (c, t', st') \<Rightarrow> Some (if c \<noteq> 0 then - 1 else 0, t', st'))"
      by (simp add: calc_tree_eval_node_def reps_set is_set_kind_def del: set_ind.simps set_value.simps)
  qed simp
  also have "(do { (ra, s1) \<leftarrow> den se a s;
          if ra = D_fail then Some (D_fail, s1)
          else do { (rb, s2) \<leftarrow> den se b s1;
                    if rb = D_fail then Some (D_fail, s2) else map_option (\<lambda>r. (r, s2)) (?comb ra rb) } }) =
      den se (CE_arith op ty a b) s"
    by (auto split: dres.splits intro!: Option.bind_cong)
  finally show ?case .
next
  case (CE_logic op a b)
  from CE_logic.prems obtain l r i d v where t: "t = CalcTree [l, r] KR_CALCKIND_LOGIC (Some op) i KR_TYPE_BOOL d v"
      "reps se a l" "reps se b r"
    by (cases t) (auto split: list.splits)
  have rm: "regexec_fn env = rematch se" using er by (simp add: env_rep_def)
  let ?comb = "\<lambda>ra rb. case (ra, rb) of (D_val x, D_val y) \<Rightarrow> den_logic (rematch se) op x y | _ \<Rightarrow> Some D_fail"
  have "tree_ok se (CE_logic op a b)
    (do { (ra, s1) \<leftarrow> den se a s;
          if ra = D_fail then Some (D_fail, s1)
          else do { (rb, s2) \<leftarrow> den se b s1;
                    if rb = D_fail then Some (D_fail, s2) else map_option (\<lambda>r. (r, s2)) (?comb ra rb) } })
    (kr_calc_tree_traverse (calc_tree_eval_node env) t (kc, s))"
    unfolding t(1)
  proof (rule tree_two [OF CE_logic.IH(1) [OF t(2)] CE_logic.IH(2) [OF t(3)] _ _ t(2,3)])
    fix l' r' ra rb and s2 :: 's and kc2
    assume n: "reps se a l'" "reps se b r'" "node_res ra l'" "node_res rb r'" "ra \<noteq> D_fail" "rb \<noteq> D_fail"
      "kind_ok rb r'"
    let ?t = "CalcTree [l', r'] KR_CALCKIND_LOGIC (Some op) i KR_TYPE_BOOL d v"
    have "step_ok KR_CALCKIND_LOGIC ?t s2 (?comb ra rb) (calc_tree_eval_logic env ?t (kc2, s2))"
      using logic_step [of ?t l' r' op ra rb s2 env kc2] n rm by (cases ra; cases rb) simp_all
    from step_tree_ok [OF this, of se "CE_logic op a b"] n(1,2)
    show "tree_ok se (CE_logic op a b) (map_option (\<lambda>r. (r, s2)) (?comb ra rb))
        (case calc_tree_eval_node env ?t (kc2, s2) of
           None \<Rightarrow> None | Some (c, t', st') \<Rightarrow> Some (if c \<noteq> 0 then - 1 else 0, t', st'))"
      by (simp add: calc_tree_eval_node_def reps_set is_set_kind_def del: set_ind.simps set_value.simps)
  qed simp
  also have "(do { (ra, s1) \<leftarrow> den se a s;
          if ra = D_fail then Some (D_fail, s1)
          else do { (rb, s2) \<leftarrow> den se b s1;
                    if rb = D_fail then Some (D_fail, s2) else map_option (\<lambda>r. (r, s2)) (?comb ra rb) } }) =
      den se (CE_logic op a b) s"
    by (auto split: dres.splits intro!: Option.bind_cong)
  finally show ?case .
next
  case (CE_rel op es)
  from CE_rel.prems obtain cs i d v where t: "t = CalcTree cs KR_CALCKIND_REL (Some op) i KR_TYPE_BOOL d v"
      "list_all2 (reps se) es cs"
    by (cases t) auto
  have "trees_ok se es (den_list se es s) (traverse_children (calc_tree_eval_node env) cs (kc, s))"
    using trees_from_trees [OF CE_rel.IH t(2)] by blast
  then show ?case
  proof (cases rule: run_okE)
    case undef
    with t(1) show ?thesis by (simp add: run_ok_None)
  next
    case (fails r s1 cs' kc1)
    with t(1) show ?thesis by (simp add: run_ok_fails)
  next
    case (returns r s1 cs' kc1)
    then obtain rs where rs: "r = Some rs" "list_all2 node_res rs cs'" "\<forall>q \<in> set rs. q \<noteq> D_fail" by auto
    let ?t = "CalcTree cs' KR_CALCKIND_REL (Some op) i KR_TYPE_BOOL d v"
    have "step_ok KR_CALCKIND_REL ?t s1 (Some (den_rel op rs)) (calc_tree_eval_rel ?t (kc1, s1))"
      using rel_step [of ?t op rs s1 kc1] rs by simp
    from step_tree_ok [OF this, of se "CE_rel op es"] returns(3)
    have "tree_ok se (CE_rel op es) (Some (den_rel op rs, s1))
        (case calc_tree_eval_node env ?t (kc1, s1) of
           None \<Rightarrow> None | Some (c, t', st') \<Rightarrow> Some (if c \<noteq> 0 then - 1 else 0, t', st'))"
      by (simp add: calc_tree_eval_node_def reps_set is_set_kind_def del: set_ind.simps set_value.simps)
    with returns(1,2) rs(1) t(1) show ?thesis
      by (simp add: traverse_node del: kr_calc_tree_traverse.simps)
  qed
qed

end
