(* ===== verification/KR_Calc_Props.thy ===== *)
theory KR_Calc_Props
  imports KR_Calc_Eval
begin

text \<open>
  The properties of the calculator: it computes the reference semantics whatever an earlier
  evaluation left in the tree, well typed expressions over present identifiers evaluate to a value
  of their type, integer comparisons are exact, and two places where the check and the operators
  disagree.
\<close>

section \<open>Running a calculator\<close>

lemma calc_eval_cases:
  assumes "env_rep se env" and "calc_tree kc = Some t" and "reps se e t"
  obtains (undef) "den se e s = None" "kr_calc_eval env kc s = None"
    | (fails) kc' s' t' where "den se e s = Some (D_fail, s')" "kr_calc_eval env kc s = Some (- 1, kc', s')"
        "calc_tree kc' = Some t'" "reps se e t'"
    | (returns) r kc' s' t' where "den se e s = Some (r, s')" "r \<noteq> D_fail" "kr_calc_eval env kc s = Some (0, kc', s')"
        "calc_tree kc' = Some t'" "reps se e t'" "node_res r t'"
  using tree_eval [OF assms(1,3), of s kc]
proof (cases rule: run_okE)
  case undef
  with assms(2) that(1) show ?thesis by (simp add: kr_calc_eval_def kr_calc_tree_eval_def)
next
  case (fails r s' t' kc')
  with assms(2) that(2) show ?thesis by (simp add: kr_calc_eval_def kr_calc_tree_eval_def)
next
  case (returns r s' t' kc')
  with assms(2) that(3) show ?thesis by (simp add: kr_calc_eval_def kr_calc_tree_eval_def)
qed

text \<open>What a caller can see of an evaluation: the code, and the indicator, type and value of the root.\<close>

definition calc_seen :: "(int \<times> T_KRCalc \<times> 's) option \<Rightarrow>
    (int \<times> (E_KRValueInd option \<times> E_KRType option \<times> calc_value option) \<times> 's) option" where
  "calc_seen r = map_option (\<lambda>(c, kc, s).
     (c, if c = 0 \<and> kr_calc_ind kc = Some KR_VALUE_SETED
         then (kr_calc_ind kc, kr_calc_type kc, kr_calc_value kc) else (None, None, None), s)) r"

definition den_seen :: "(dres \<times> 's) option \<Rightarrow>
    (int \<times> (E_KRValueInd option \<times> E_KRType option \<times> calc_value option) \<times> 's) option" where
  "den_seen r = map_option (\<lambda>(r, s). case r of
       D_fail \<Rightarrow> (- 1, (None, None, None), s)
     | D_unset \<Rightarrow> (0, (None, None, None), s)
     | D_val x \<Rightarrow> (0, (Some KR_VALUE_SETED, Some (type_of x), Some (val_of x)), s)) r"

lemma calc_seen_den:
  assumes "env_rep se env" and "calc_tree kc = Some t" and "reps se e t"
  shows "calc_seen (kr_calc_eval env kc s) = den_seen (den se e s)"
proof (cases rule: calc_eval_cases [OF assms, of s, case_names undef fails returns])
  case undef
  then show ?thesis by (simp add: calc_seen_def den_seen_def)
next
  case (fails kc' s' t')
  then show ?thesis by (simp add: calc_seen_def den_seen_def)
next
  case (returns r kc' s' t')
  then show ?thesis
    by (cases r) (simp_all add: calc_seen_def den_seen_def kr_calc_ind_def kr_calc_type_def
        kr_calc_value_def node_res_def)
qed

section \<open>Static types\<close>

definition simple_type :: "E_KRType \<Rightarrow> bool" where
  "simple_type ty \<longleftrightarrow> ty \<in> {KR_TYPE_BOOL, KR_TYPE_INT, KR_TYPE_LONG, KR_TYPE_DOUBLE, KR_TYPE_STRING}"

text \<open>The type of an expression all of whose operators can evaluate; \<open>MOD\<close> may be undefined and is left out.\<close>

fun wt :: "'s spec_env \<Rightarrow> cexp \<Rightarrow> E_KRType option"
  and wt_all :: "'s spec_env \<Rightarrow> cexp list \<Rightarrow> bool"
where
  "wt env (CE_const x) = (if simple_type (type_of x) then Some (type_of x) else None)"
| "wt env (CE_ext k i) = (if k \<noteq> KR_CALCKIND_SET \<and> simple_type (tyof env k i) then Some (tyof env k i) else None)"
| "wt env (CE_arith op ty a b) =
     (if op \<in> {KR_CALCOP_PLUS, KR_CALCOP_SUB, KR_CALCOP_MUT, KR_CALCOP_DIV} \<and> ty = KR_TYPE_DOUBLE
      then (case (wt env a, wt env b) of
          (Some ta, Some tb) \<Rightarrow> if is_numeric ta \<and> is_numeric tb then Some KR_TYPE_DOUBLE else None
        | _ \<Rightarrow> None)
      else None)"
| "wt env (CE_logic op a b) = (case wt env a of
       None \<Rightarrow> None
     | Some ta \<Rightarrow>
         if is_cmp_op op then
           (case wt env b of
              Some tb \<Rightarrow> if (ta = KR_TYPE_STRING) = (tb = KR_TYPE_STRING) then Some KR_TYPE_BOOL else None
            | None \<Rightarrow> None)
         else (case b of
             CE_const (CSet h) \<Rightarrow>
               if hs_ok h \<and> hs_type h = ta \<and> ta \<noteq> KR_TYPE_BOOL \<and>
                  (op = KR_CALCOP_BL \<or> op = KR_CALCOP_NBL \<and> ta = KR_TYPE_STRING)
               then Some KR_TYPE_BOOL else None
           | CE_const (CReg r) \<Rightarrow>
               if op = KR_CALCOP_MATCH \<and> ta = KR_TYPE_STRING then Some KR_TYPE_BOOL else None
           | _ \<Rightarrow> None))"
| "wt env (CE_rel op es) = (if is_rel_op op \<and> wt_all env es then Some KR_TYPE_BOOL else None)"
| "wt_all env [] = True"
| "wt_all env (e # es) \<longleftrightarrow> (wt env e = Some KR_TYPE_BOOL \<or> wt env e = Some KR_TYPE_INT) \<and> wt_all env es"

lemma num_Some: "is_numeric (type_of x) \<Longrightarrow> \<exists>d. num x = Some d"
  by (cases x) (auto simp: is_numeric_def)

lemma truth_Some: "type_of x = KR_TYPE_BOOL \<or> type_of x = KR_TYPE_INT \<Longrightarrow> \<exists>b. truth x = Some b"
  by (cases x) auto

lemma den_cmp_typed:
  "(type_of x = KR_TYPE_STRING) = (type_of y = KR_TYPE_STRING) \<Longrightarrow> \<exists>n. den_cmp fs fd x y = int_res n"
  by (cases x; cases y) (auto simp: den_cmp_def)

lemma elem_key_Some:
  "simple_type (type_of x) \<Longrightarrow> type_of x \<noteq> KR_TYPE_BOOL \<Longrightarrow> \<exists>k. elem_key x = Some k"
  by (cases x) (auto simp: simple_type_def)

lemma den_scan_typed:
  "(\<forall>r \<in> set rs. \<exists>x. r = D_val x \<and> (type_of x = KR_TYPE_BOOL \<or> type_of x = KR_TYPE_INT)) \<Longrightarrow>
   \<exists>b. den_scan stop rs = Some b"
  by (induction rs) (auto dest!: truth_Some)

lemma wt_simple: "wt env e = Some ty \<Longrightarrow> simple_type ty"
  by (cases e) (auto simp: simple_type_def split: if_splits option.splits cexp.splits cval.splits)

text \<open>Every identifier has a value in every state.\<close>

definition total_env :: "'s spec_env \<Rightarrow> bool" where
  "total_env se \<longleftrightarrow> (\<forall>k i s. fst (lookup se k i s) \<noteq> None)"

definition typed_env :: "'s spec_env \<Rightarrow> bool" where
  "typed_env se \<longleftrightarrow> (\<forall>k i s x. fst (lookup se k i s) = Some x \<longrightarrow> k \<noteq> KR_CALCKIND_SET \<longrightarrow> type_of x = tyof se k i)"

lemma den_logic_cmp:
  "is_cmp_op op \<Longrightarrow> (type_of x = KR_TYPE_STRING) = (type_of y = KR_TYPE_STRING) \<Longrightarrow>
   \<exists>n. den_logic rm op x y = Some (int_res n)"
  using den_cmp_typed [of x y] by (cases op) (simp_all add: den_logic_def is_cmp_op_def)

lemma den_arith_typed:
  "op \<in> {KR_CALCOP_PLUS, KR_CALCOP_SUB, KR_CALCOP_MUT, KR_CALCOP_DIV} \<Longrightarrow> is_numeric (type_of x) \<Longrightarrow>
   is_numeric (type_of y) \<Longrightarrow> \<exists>d. den_arith op KR_TYPE_DOUBLE x y = Some (D_val (CDbl d))"
  using num_Some [of x] num_Some [of y] by (auto simp: den_arith_def den_conv_def)

lemma den_member_typed:
  assumes "hs_ok h" and "hs_type h = type_of x" and "simple_type (type_of x)" and "type_of x \<noteq> KR_TYPE_BOOL"
    and "neg \<longrightarrow> type_of x = KR_TYPE_STRING"
  shows "\<exists>n. den_member neg x (CSet h) = Some (int_res n)"
  using elem_key_Some [OF assms(3,4)] assms(1,2,5) by (auto simp: den_member_def hashset_search_spec)

lemma int_res_type: "\<exists>x. int_res n = D_val x \<and> type_of x = KR_TYPE_BOOL"
  by (simp add: int_res_def)

lemma wt_logicE:
  assumes "wt env (CE_logic op a b) = Some ty"
  obtains (cmp) ta tb where "ty = KR_TYPE_BOOL" "wt env a = Some ta" "wt env b = Some tb" "is_cmp_op op"
      "(ta = KR_TYPE_STRING) = (tb = KR_TYPE_STRING)"
    | (member) ta h where "ty = KR_TYPE_BOOL" "wt env a = Some ta" "b = CE_const (CSet h)" "hs_ok h" "hs_type h = ta"
        "ta \<noteq> KR_TYPE_BOOL" "op = KR_CALCOP_BL \<or> op = KR_CALCOP_NBL \<and> ta = KR_TYPE_STRING"
    | (match) r where "ty = KR_TYPE_BOOL" "wt env a = Some KR_TYPE_STRING" "b = CE_const (CReg r)" "op = KR_CALCOP_MATCH"
  using assms
  by (cases "wt env a") (auto split: if_splits option.splits cexp.splits cval.splits)

abbreviation bool_like :: "dres \<Rightarrow> bool" where
  "bool_like r \<equiv> \<exists>x. r = D_val x \<and> (type_of x = KR_TYPE_BOOL \<or> type_of x = KR_TYPE_INT)"

lemma den_list_typed:
  assumes "\<And>e ty s. e \<in> set es \<Longrightarrow> wt se e = Some ty \<Longrightarrow> \<exists>x s'. den se e s = Some (D_val x, s') \<and> type_of x = ty"
  shows "wt_all se es \<Longrightarrow> \<exists>rs s'. den_list se es s = Some (Some rs, s') \<and> (\<forall>r \<in> set rs. bool_like r)"
  using assms
proof (induction es arbitrary: s)
  case Nil
  then show ?case by simp
next
  case (Cons e es)
  then obtain ty where ty: "wt se e = Some ty" "ty = KR_TYPE_BOOL \<or> ty = KR_TYPE_INT" by auto
  with Cons.prems(2) [of e ty s] obtain x s1 where x: "den se e s = Some (D_val x, s1)" "type_of x = ty" by auto
  from Cons.IH [of s1] Cons.prems obtain rs s' where
      "den_list se es s1 = Some (Some rs, s')" "\<forall>r \<in> set rs. bool_like r"
    by auto
  with x ty show ?case by auto
qed

lemma den_rel_typed:
  assumes "is_rel_op op" and "\<forall>r \<in> set rs. bool_like r"
  shows "\<exists>n. den_rel op rs = int_res n"
  using den_scan_typed [OF assms(2), of True] den_scan_typed [OF assms(2), of False] assms(1)
  by (auto simp: den_rel_def is_rel_op_def Let_def)

lemma den_typed:
  assumes tot: "total_env se" and tenv: "typed_env se"
  shows "wt se e = Some ty \<Longrightarrow> \<exists>x s'. den se e s = Some (D_val x, s') \<and> type_of x = ty"
proof (induction e arbitrary: ty s)
  case (CE_const x)
  then show ?case by (auto split: if_splits)
next
  case (CE_ext k i)
  then have k: "k \<noteq> KR_CALCKIND_SET" "simple_type (tyof se k i)" "ty = tyof se k i" by (auto split: if_splits)
  from tot have "fst (lookup se k i s) \<noteq> None" unfolding total_env_def by blast
  then obtain x where x: "fst (lookup se k i s) = Some x" by blast
  with tenv k(1) have "type_of x = tyof se k i" by (auto simp: typed_env_def)
  moreover have "tyof se k i \<noteq> KR_TYPE_UNKNOWN" using k(2) by (auto simp: simple_type_def)
  ultimately show ?case using x k(3) by (cases "lookup se k i s") (auto simp: den_ext_def)
next
  case (CE_arith op rty a b)
  then obtain ta tb where w: "wt se a = Some ta" "wt se b = Some tb" "is_numeric ta" "is_numeric tb"
      "op \<in> {KR_CALCOP_PLUS, KR_CALCOP_SUB, KR_CALCOP_MUT, KR_CALCOP_DIV}" "rty = KR_TYPE_DOUBLE" "ty = KR_TYPE_DOUBLE"
    by (auto split: if_splits option.splits)
  from CE_arith.IH(1) [OF w(1), of s] obtain x s1 where x: "den se a s = Some (D_val x, s1)" "type_of x = ta" by blast
  from CE_arith.IH(2) [OF w(2), of s1] obtain y s2 where y: "den se b s1 = Some (D_val y, s2)" "type_of y = tb" by blast
  from den_arith_typed [OF w(5), of x y] w(3,4) x(2) y(2) obtain d where
      "den_arith op KR_TYPE_DOUBLE x y = Some (D_val (CDbl d))" by auto
  with x y w show ?case by simp
next
  case (CE_logic op a b)
  from CE_logic.prems show ?case
  proof (cases rule: wt_logicE)
    case (cmp ta tb)
    from CE_logic.IH(1) [OF cmp(2), of s] obtain x s1 where x: "den se a s = Some (D_val x, s1)" "type_of x = ta" by blast
    from CE_logic.IH(2) [OF cmp(3), of s1] obtain y s2 where y: "den se b s1 = Some (D_val y, s2)" "type_of y = tb" by blast
    from den_logic_cmp [OF cmp(4), of x y "rematch se"] cmp(5) x(2) y(2) obtain n where
        "den_logic (rematch se) op x y = Some (int_res n)" by auto
    with x y cmp(1) int_res_type [of n] show ?thesis by auto
  next
    case (member ta h)
    from CE_logic.IH(1) [OF member(2), of s] obtain x s1 where x: "den se a s = Some (D_val x, s1)" "type_of x = ta" by blast
    from den_member_typed [of h x "op = KR_CALCOP_NBL"] wt_simple [OF member(2)] member x(2) obtain n where
        n: "den_member (op = KR_CALCOP_NBL) x (CSet h) = Some (int_res n)" by auto
    then have "den_logic (rematch se) op x (CSet h) = Some (int_res n)"
      using member(7) by (auto simp: den_logic_def)
    with x member(1,3) int_res_type [of n] show ?thesis by auto
  next
    case (match r)
    from CE_logic.IH(1) [OF match(2), of s] obtain x s1 where x: "den se a s = Some (D_val x, s1)" "type_of x = KR_TYPE_STRING" by blast
    then obtain str where "x = CStr str" by (cases x) auto
    with x match show ?thesis by (auto simp: den_logic_def int_res_def)
  qed
next
  case (CE_rel op es)
  then have w: "is_rel_op op" "wt_all se es" "ty = KR_TYPE_BOOL" by (auto split: if_splits)
  from den_list_typed [OF CE_rel.IH w(2)] obtain rs s' where
      rs: "den_list se es s = Some (Some rs, s')" "\<forall>r \<in> set rs. bool_like r"
    by blast
  from den_rel_typed [OF w(1) rs(2)] obtain n where "den_rel op rs = int_res n" by blast
  with rs(1) w(3) int_res_type [of n] show ?case by auto
qed

section \<open>Properties\<close>

text \<open>
  C7. The evaluator computes the reference semantics: for callbacks that provide an environment, a
  tree that stands for an expression evaluates to what the expression denotes (failure, no value, a
  typed value, or undefined behaviour), whatever values, indicators and cached types an earlier
  evaluation left in its nodes, and changes the caller's state in the same way.
\<close>

theorem calc_eval_denotes:
  assumes "env_rep se env" and "calc_tree kc = Some t" and "reps se e t"
  shows "calc_seen (kr_calc_eval env kc s) = den_seen (den se e s) \<and>
    (\<forall>c kc' s'. kr_calc_eval env kc s = Some (c, kc', s') \<longrightarrow> (\<exists>t'. calc_tree kc' = Some t' \<and> reps se e t'))"
proof -
  from calc_eval_cases [OF assms, of s]
  have "\<forall>c kc' s'. kr_calc_eval env kc s = Some (c, kc', s') \<longrightarrow> (\<exists>t'. calc_tree kc' = Some t' \<and> reps se e t')"
    by cases simp_all
  with calc_seen_den [OF assms] show ?thesis by blast
qed

text \<open>An environment in which identifier \<open>F_i\<close> is the integer \<open>i\<close>, for the witnesses.\<close>

definition demo_env :: "nat spec_env" where
  "demo_env = \<lparr>tyof = (\<lambda>k i. if k = KR_CALCKIND_SET then KR_TYPE_UNKNOWN else KR_TYPE_INT),
     lookup = (\<lambda>k i s. (if k = KR_CALCKIND_SET then None else Some (CInt (word_of_int i)), s)),
     rematch = (\<lambda>p t. p = t)\<rparr>"

definition demo_cbs :: "nat calc_env" where
  "demo_cbs = \<lparr>get_type_cb = (\<lambda>k i s. Some (tyof demo_env k i)),
     get_value_cb = (\<lambda>k i s. Some (map_option val_of (fst (lookup demo_env k i s)), s)),
     regexec_fn = rematch demo_env\<rparr>"

lemma demo_rep: "env_rep demo_env demo_cbs"
  by (simp add: env_rep_def demo_env_def demo_cbs_def)

definition int_leaf :: "int \<Rightarrow> T_KRCalcTree" where
  "int_leaf n = CalcTree [] KR_CALCKIND_INT None 0 KR_TYPE_INT KR_VALUE_SETED (V_i (word_of_int n))"

definition fid_leaf :: "int \<Rightarrow> T_KRCalcTree" where
  "fid_leaf i = CalcTree [] KR_CALCKIND_FID None i KR_TYPE_UNKNOWN KR_VALUE_UNSET V_zero"

definition logic_tree :: "E_KRCalcOp \<Rightarrow> T_KRCalcTree \<Rightarrow> T_KRCalcTree \<Rightarrow> T_KRCalcTree" where
  "logic_tree op l r = CalcTree [l, r] KR_CALCKIND_LOGIC (Some op) 0 KR_TYPE_BOOL KR_VALUE_UNSET V_zero"

definition calc_of :: "T_KRCalcTree \<Rightarrow> T_KRCalc" where
  "calc_of t = \<lparr>calc_format = KR_CALCFORMAT_FLEX, calc_string = [], calc_tree = Some t, calc_status = 0,
     calc_errmsg = Msg_none\<rparr>"

theorem calc_eval_denotes_witness:
  "calc_seen (kr_calc_eval demo_cbs (calc_of (logic_tree KR_CALCOP_LT (fid_leaf 3) (int_leaf 5))) 0) =
     Some (0, (Some KR_VALUE_SETED, Some KR_TYPE_BOOL, Some (V_b 1)), 0)"
proof -
  let ?e = "CE_logic KR_CALCOP_LT (CE_ext KR_CALCKIND_FID 3) (CE_const (CInt 5))"
  have "reps demo_env ?e (logic_tree KR_CALCOP_LT (fid_leaf 3) (int_leaf 5))"
    by (simp add: logic_tree_def fid_leaf_def int_leaf_def is_extern_kind_def)
  with calc_eval_denotes [OF demo_rep, of "calc_of (logic_tree KR_CALCOP_LT (fid_leaf 3) (int_leaf 5))" _ ?e 0]
  have "calc_seen (kr_calc_eval demo_cbs (calc_of (logic_tree KR_CALCOP_LT (fid_leaf 3) (int_leaf 5))) 0) =
      den_seen (den demo_env ?e 0)"
    by (simp add: calc_of_def)
  moreover have "den_seen (den demo_env ?e 0) = Some (0, (Some KR_VALUE_SETED, Some KR_TYPE_BOOL, Some (V_b 1)), 0)"
    using d_cmp_small_int(1) [of 3 5]
    by (simp add: den_ext_def demo_env_def den_logic_def den_cmp_def int_res_def c_bool_def den_seen_def)
  ultimately show ?thesis by simp
qed

text \<open>
  C8. Type soundness: an expression that is well typed (numbers under arithmetic other than \<open>MOD\<close>,
  both or neither operand a string under a comparison, an element of the set's type under \<open>@@\<close>,
  boolean or integer operands under the relations) and whose identifiers all have a value evaluates
  successfully, to a value of its type.
\<close>

theorem calc_eval_type_sound:
  assumes "env_rep se env" and "calc_tree kc = Some t" and "reps se e t"
    and "wt se e = Some ty" and "total_env se"
  shows "\<exists>kc' s'. kr_calc_eval env kc s = Some (0, kc', s') \<and> kr_calc_ind kc' = Some KR_VALUE_SETED \<and>
    kr_calc_type kc' = Some ty"
proof -
  have "typed_env se" using assms(1) by (auto simp: env_rep_def typed_env_def)
  from den_typed [OF assms(5) this assms(4), of s] obtain x s' where
      x: "den se e s = Some (D_val x, s')" "type_of x = ty" by blast
  show ?thesis
  proof (cases rule: calc_eval_cases [OF assms(1-3), of s, case_names undef fails returns])
    case (returns r kc' s'' t')
    with x show ?thesis by (auto simp: kr_calc_ind_def kr_calc_type_def node_res_def)
  qed (use x in auto)
qed

theorem calc_eval_type_sound_witness:
  "\<exists>kc' s'. kr_calc_eval (demo_cbs\<lparr>get_value_cb := (\<lambda>k i s. Some (Some (if k = KR_CALCKIND_SET then V_p (Some (P_set \<lparr>hs_name = [], hs_type = KR_TYPE_INT, hs_set = undefined\<rparr>)) else V_i 7), s))\<rparr>)
     (calc_of (logic_tree KR_CALCOP_GE (fid_leaf 3) (int_leaf 5))) 0 = Some (0, kc', s') \<and>
     kr_calc_type kc' = Some KR_TYPE_BOOL"
proof -
  let ?h = "\<lparr>hs_name = [], hs_type = KR_TYPE_INT, hs_set = undefined\<rparr>"
  let ?se = "demo_env\<lparr>lookup := (\<lambda>k i s. (Some (if k = KR_CALCKIND_SET then CSet ?h else CInt 7), s))\<rparr>"
  let ?env = "demo_cbs\<lparr>get_value_cb := (\<lambda>k i s. Some (Some (if k = KR_CALCKIND_SET then V_p (Some (P_set ?h)) else V_i 7), s))\<rparr>"
  let ?t = "logic_tree KR_CALCOP_GE (fid_leaf 3) (int_leaf 5)"
  let ?e = "CE_logic KR_CALCOP_GE (CE_ext KR_CALCKIND_FID 3) (CE_const (CInt 5))"
  have "env_rep ?se ?env" by (simp add: env_rep_def demo_env_def demo_cbs_def)
  moreover have "reps ?se ?e ?t" by (simp add: logic_tree_def fid_leaf_def int_leaf_def is_extern_kind_def)
  moreover have "wt ?se ?e = Some KR_TYPE_BOOL" by (simp add: simple_type_def is_cmp_op_def demo_env_def)
  moreover have "total_env ?se" by (simp add: total_env_def)
  ultimately show ?thesis
    using calc_eval_type_sound [of ?se ?env "calc_of ?t" ?t ?e KR_TYPE_BOOL 0] by (auto simp: calc_of_def)
qed

text \<open>Comparisons of integers are exact although they are carried out in \<open>double\<close>: for any two
  32-bit operands each of the six operators yields 1 or 0 as the integers compare.
\<close>

theorem calc_int_comparison_exact:
  assumes "env_rep se env" and "reps se e (logic_tree op l r)" and "is_cmp_op op"
    and "e = CE_logic op a b"
    and "den se a s = Some (D_val (CInt x), s1)" and "den se b s1 = Some (D_val (CInt y), s2)"
  shows "calc_seen (kr_calc_eval env (calc_of (logic_tree op l r)) s) =
    Some (0, (Some KR_VALUE_SETED, Some KR_TYPE_BOOL, Some (V_b (if (case op of
        KR_CALCOP_LT \<Rightarrow> sint x < sint y | KR_CALCOP_LE \<Rightarrow> sint x \<le> sint y
      | KR_CALCOP_GT \<Rightarrow> sint x > sint y | KR_CALCOP_GE \<Rightarrow> sint x \<ge> sint y
      | KR_CALCOP_EQ \<Rightarrow> x = y | _ \<Rightarrow> x \<noteq> y) then 1 else 0))), s2)"
proof -
  have bound: "\<bar>sint w\<bar> < 2 ^ 53" for w :: i32
    using sint_ge [of w] sint_lt [of w] by simp
  have inj: "sint v = sint w \<longleftrightarrow> v = w" for v w :: i32 by (auto intro: signed_word_eqI)
  note cmp = d_cmp_small_int [OF bound bound, unfolded inj] d_cmp_small_int(1,3) [OF bound bound]
  have "calc_seen (kr_calc_eval env (calc_of (logic_tree op l r)) s) = den_seen (den se e s)"
    by (rule calc_seen_den [OF assms(1) _ assms(2)]) (simp add: calc_of_def)
  also have "den se e s = map_option (\<lambda>r. (r, s2)) (den_logic (rematch se) op (CInt x) (CInt y))"
    using assms(4-6) by simp
  also have "den_seen \<dots> = Some (0, (Some KR_VALUE_SETED, Some KR_TYPE_BOOL, Some (V_b (if (case op of
        KR_CALCOP_LT \<Rightarrow> sint x < sint y | KR_CALCOP_LE \<Rightarrow> sint x \<le> sint y
      | KR_CALCOP_GT \<Rightarrow> sint x > sint y | KR_CALCOP_GE \<Rightarrow> sint x \<ge> sint y
      | KR_CALCOP_EQ \<Rightarrow> x = y | _ \<Rightarrow> x \<noteq> y) then 1 else 0))), s2)"
    using assms(3) cmp
    by (cases op) (simp_all add: den_seen_def den_logic_def den_cmp_def int_res_def c_bool_def is_cmp_op_def)
  finally show ?thesis .
qed

theorem calc_int_comparison_exact_witness:
  "calc_seen (kr_calc_eval demo_cbs (calc_of (logic_tree KR_CALCOP_GT (fid_leaf (- 3)) (int_leaf (- 4)))) 0) =
     Some (0, (Some KR_VALUE_SETED, Some KR_TYPE_BOOL, Some (V_b 1)), 0)"
proof -
  let ?e = "CE_logic KR_CALCOP_GT (CE_ext KR_CALCKIND_FID (- 3)) (CE_const (CInt (- 4)))"
  have "reps demo_env ?e (logic_tree KR_CALCOP_GT (fid_leaf (- 3)) (int_leaf (- 4)))"
    by (simp add: logic_tree_def fid_leaf_def int_leaf_def is_extern_kind_def)
  then show ?thesis
    using calc_int_comparison_exact [OF demo_rep, of ?e KR_CALCOP_GT "fid_leaf (- 3)" "int_leaf (- 4)"
        "CE_ext KR_CALCKIND_FID (- 3)" "CE_const (CInt (- 4))" 0 "- 3" 0 "- 4" 0]
    by (simp add: is_cmp_op_def den_ext_def demo_env_def)
qed

lemma demo_set:
  "\<exists>h. kr_hashset_make KR_TYPE_INT ''1,2'' = Some h \<and> hs_ok h \<and> hs_type h = KR_TYPE_INT"
proof -
  have tok: "c_tokens (CHR '','') ''1,2'' = [''1'', ''2'']" by code_simp
  have v: "hashset_token KR_TYPE_INT ''1'' = Some (Some (KInt 1))"
      "hashset_token KR_TYPE_INT ''2'' = Some (Some (KInt 2))"
    by code_simp+
  from hashset_create_spec [of "''1,2''" KR_TYPE_INT] obtain s0 where
      s0: "kr_hashset_create ''1,2'' KR_TYPE_INT = Some s0" "hs_ok s0" "hs_count s0 = 0" "hs_type s0 = KR_TYPE_INT"
    by blast
  from hashset_add_tokens_spec [OF s0(2), of "[''1'', ''2'']"] s0(3,4) v obtain h where
      h: "hashset_add_tokens [''1'', ''2''] s0 = Some h" "hs_ok h" "hs_type h = KR_TYPE_INT"
    by (auto simp del: hashset_add_tokens.simps)
  then show ?thesis
    using s0(1) tok by (simp add: kr_hashset_make_def del: hashset_add_tokens.simps)
qed

text \<open>The node the parser makes for the constant set \<open>1,2\<close>.\<close>

definition set_leaf :: "T_KRHashSet \<Rightarrow> T_KRCalcTree" where
  "set_leaf h = CalcTree [] KR_CALCKIND_MINT None 0 KR_TYPE_POINTER KR_VALUE_SETED (V_p (Some (P_set h)))"

text \<open>
  \<open>!@\<close> is not the negation of \<open>@@\<close>: for a well formed set and an integer or floating point literal
  of the set's own type, \<open>@@\<close> evaluates to the membership, while \<open>!@\<close> fails,
  because it compares the element's type with the operand node's and not with the set's.
\<close>

theorem calc_not_in_set_fails:
  assumes "env_rep se env" and "hs_ok h" and "hs_type h = type_of x" and "elem_key x = Some k"
    and "type_of x \<noteq> KR_TYPE_STRING" and "reps se (CE_const x) lt" and "reps se (CE_const (CSet h)) rt"
  shows "calc_seen (kr_calc_eval env (calc_of (logic_tree KR_CALCOP_BL lt rt)) s) =
      Some (0, (Some KR_VALUE_SETED, Some KR_TYPE_BOOL, Some (V_b (if k \<in> hs_abs h then 1 else 0))), s) \<and>
    calc_seen (kr_calc_eval env (calc_of (logic_tree KR_CALCOP_NBL lt rt)) s) = Some (- 1, (None, None, None), s)"
proof -
  have "calc_seen (kr_calc_eval env (calc_of (logic_tree op lt rt)) s) =
      den_seen (den se (CE_logic op (CE_const x) (CE_const (CSet h))) s)" for op
    by (rule calc_seen_den [OF assms(1)], simp add: calc_of_def) (simp add: logic_tree_def assms(6,7))
  moreover have "den_member False x (CSet h) = Some (int_res (c_bool (k \<in> hs_abs h)))"
    using assms(2-4) by (simp add: den_member_def hashset_search_spec)
  moreover have "den_member True x (CSet h) = Some D_fail"
    using assms(4,5) by (cases x) (simp_all add: den_member_def)
  ultimately show ?thesis
    by (simp add: den_logic_def den_seen_def int_res_def c_bool_def)
qed

theorem calc_not_in_set_fails_witness:
  "\<exists>h. kr_hashset_make KR_TYPE_INT ''1,2'' = Some h \<and>
     calc_seen (kr_calc_eval demo_cbs (calc_of (logic_tree KR_CALCOP_NBL (int_leaf 3) (set_leaf h))) 0) =
     Some (- 1, (None, None, None), 0)"
proof -
  from demo_set obtain h where h: "kr_hashset_make KR_TYPE_INT ''1,2'' = Some h" "hs_ok h" "hs_type h = KR_TYPE_INT"
    by blast
  then show ?thesis
    using calc_not_in_set_fails [OF demo_rep h(2), of "CInt 3" "KInt 3" "int_leaf 3" "set_leaf h" 0]
    by (auto simp: int_leaf_def set_leaf_def)
qed

text \<open>The static check contradicts the evaluator on sets: it accepts a membership test only when the
  element's static type is the operand node's type, a pointer, so it rejects every test of a value
  of a known type in a constant set, including those that evaluate without error.
\<close>

theorem calc_check_rejects_membership:
  assumes "op = KR_CALCOP_BL \<or> op = KR_CALCOP_NBL" and "reps se (CE_const x) lt"
    and "reps se (CE_const (CSet h)) rt" and "simple_type (type_of x)"
  shows "\<exists>kc'. kr_calc_check (calc_of (logic_tree op lt rt)) = Some (- 1, kc') \<and> calc_status kc' = - 1"
proof -
  obtain k p i where l: "lt = CalcTree [] k p i (type_of x) KR_VALUE_SETED (val_of x)" "const_kind x k"
    using assms(2) by (cases lt) auto
  obtain k' p' i' where r: "rt = CalcTree [] k' p' i' KR_TYPE_POINTER KR_VALUE_SETED (V_p (Some (P_set h)))"
      "k' \<in> {KR_CALCKIND_MINT, KR_CALCKIND_MFLOAT, KR_CALCKIND_MSTRING}"
    using assms(3) by (cases rt) auto
  have k: "k \<in> {KR_CALCKIND_INT, KR_CALCKIND_FLOAT, KR_CALCKIND_STRING}"
    using l(2) assms(4) by (cases x) (auto simp: simple_type_def)
  have ty: "type_of x \<noteq> KR_TYPE_POINTER" "type_of x \<noteq> KR_TYPE_UNKNOWN"
    using assms(4) by (auto simp: simple_type_def)
  have "calc_tree_check_node lt = None" "calc_tree_check_node rt = None"
    using k r l by (auto simp: calc_tree_check_node_def Let_def)
  moreover have "\<exists>m. calc_tree_check_node (logic_tree op lt rt) = Some m"
    using assms(1) ty l r by (auto simp: calc_tree_check_node_def logic_tree_def Let_def is_cmp_op_def)
  ultimately show ?thesis
    using l(1) r(1)
    by (auto simp: kr_calc_check_def kr_calc_tree_check_def calc_of_def logic_tree_def calc_fail_def Let_def)
qed

theorem calc_check_rejects_membership_witness:
  "\<exists>h kc'. kr_hashset_make KR_TYPE_INT ''1,2'' = Some h \<and>
     kr_calc_check (calc_of (logic_tree KR_CALCOP_BL (int_leaf 1) (set_leaf h))) = Some (- 1, kc')"
proof -
  from demo_set obtain h where h: "kr_hashset_make KR_TYPE_INT ''1,2'' = Some h" by blast
  then show ?thesis
    using calc_check_rejects_membership [of KR_CALCOP_BL demo_env "CInt 1" "int_leaf 1" h "set_leaf h"]
    by (auto simp: int_leaf_def set_leaf_def simple_type_def)
qed

end
