(* ===== verification/KR_DB.thy ===== *)
theory KR_DB
  imports KR_Types KR_List_Props
begin

text \<open>
  \<open>krdb/kr_db_kernel.c\<close> and the loading and access functions of \<open>krdb/kr_db.c\<close>: the in-memory
  database of recent records. Each table owns a circular buffer of record slots; each index is a hash
  table from a field's value to the list of the records that have it.

  The database is an explicit memory of tables, hash tables and record lists, by their addresses. A
  record pointer is a table and a slot number. The keys of an index's hash table are pointers into the
  record buffers, so what a stored key hashes to and compares with depends on what the buffer holds
  when the operation runs; before every hash table operation \<open>ht_bind\<close> ties the table's callbacks to
  the current memory. A field is a typed object (\<open>load_field_def\<close> below computes disjoint offsets).
\<close>

section \<open>Data\<close>

datatype E_KRIndexType = KR_INDEXTYPE_TABLE | KR_INDEXTYPE_DB | KR_INDEXTYPE_OTHER char

datatype E_KRSizeKeepMode = KR_SIZEKEEPMODE_RECORD | KR_SIZEKEEPMODE_TIME

record T_KRFieldDef =
  fd_id :: int
  fd_name :: string
  fd_type :: E_KRType
  fd_length :: int
  fd_offset :: int

text \<open>A slot of the record buffer. \<open>rc_table\<close> is \<open>ptTable\<close>; \<open>pRecBuf\<close> always points behind the header.\<close>

record T_KRRecord =
  rc_table :: "nat option"
  rc_fields :: "kr_key list"

type_synonym rec_ptr = "nat \<times> nat"

text \<open>A key pointer: to a field of a record slot, or to an object outside the database.\<close>

datatype field_ptr = FieldPtr rec_ptr nat | ObjPtr kr_key

record T_KRIndex =
  ix_id :: int
  ix_name :: string
  ix_type :: E_KRIndexType
  ix_field :: int
  ix_sort :: int
  ix_hash :: nat

text \<open>What the \<open>void *\<close> values and keys of the index and table lists point to.\<close>

datatype idx_ref = Ix T_KRIndex | IxId int

datatype tbl_ref = Tb nat int | TbId int

text \<open>The three mapping functions of the plugged-in module are pure functions of the message.\<close>

record 'd T_KRTable =
  tb_id :: int
  tb_name :: string
  tb_map_pre :: "('d \<Rightarrow> 'd) option"
  tb_map_func :: "nat \<Rightarrow> int \<Rightarrow> 'd \<Rightarrow> kr_key"
  tb_keep_mode :: E_KRSizeKeepMode
  tb_keep_value :: int
  tb_field_cnt :: int
  tb_record_size :: int
  tb_buff :: "T_KRRecord list"
  tb_fields :: "T_KRFieldDef list"
  tb_loc :: u32
  tb_num :: u32
  tb_indexes :: "(idx_ref, unit) T_KRList"

text \<open>
  The database with its memory. A hash table is stored with the field type its callbacks were chosen
  for. \<open>db_addr\<close> is the numeric address of an object, which only the pointer hash reads.
\<close>

record 'd T_KRDB =
  db_name :: string
  db_table_list :: "(tbl_ref, unit) T_KRList"
  db_index_list :: "(idx_ref, unit) T_KRList"
  db_tables :: "nat \<Rightarrow> 'd T_KRTable option"
  db_hts :: "nat \<Rightarrow> (E_KRType \<times> (field_ptr, nat) T_KRHashTable) option"
  db_lists :: "nat \<Rightarrow> (rec_ptr, unit) T_KRList option"
  db_fresh :: nat
  db_addr :: "field_ptr \<Rightarrow> u64"

section \<open>Records and fields\<close>

definition get_rec :: "'d T_KRDB \<Rightarrow> rec_ptr \<Rightarrow> T_KRRecord option" where
  "get_rec db r = do { tb \<leftarrow> db_tables db (fst r); nth_opt (tb_buff tb) (snd r) }"

definition put_rec :: "'d T_KRDB \<Rightarrow> rec_ptr \<Rightarrow> T_KRRecord \<Rightarrow> 'd T_KRDB option" where
  "put_rec db r rc = do {
     tb \<leftarrow> db_tables db (fst r);
     buff \<leftarrow> upd_opt (tb_buff tb) (snd r) rc;
     Some (db\<lparr>db_tables := (db_tables db)(fst r \<mapsto> tb\<lparr>tb_buff := buff\<rparr>)\<rparr>)
   }"

text \<open>\<open>((T_KRTable *)krrecord->ptTable)->ptFieldDef[ifldid]\<close>\<close>

definition rec_field_def :: "'d T_KRDB \<Rightarrow> rec_ptr \<Rightarrow> int \<Rightarrow> T_KRFieldDef option" where
  "rec_field_def db r fld = do {
     rc \<leftarrow> get_rec db r;
     t \<leftarrow> rc_table rc;
     tb \<leftarrow> db_tables db t;
     assert_c (0 \<le> fld);
     nth_opt (tb_fields tb) (nat fld)
   }"

definition kr_get_field_length :: "'d T_KRDB \<Rightarrow> rec_ptr \<Rightarrow> int \<Rightarrow> int option" where
  "kr_get_field_length db r fld = map_option fd_length (rec_field_def db r fld)"

definition kr_get_field_type :: "'d T_KRDB \<Rightarrow> rec_ptr \<Rightarrow> int \<Rightarrow> E_KRType option" where
  "kr_get_field_type db r fld = map_option fd_type (rec_field_def db r fld)"

definition kr_get_field_value :: "'d T_KRDB \<Rightarrow> rec_ptr \<Rightarrow> int \<Rightarrow> field_ptr option" where
  "kr_get_field_value db r fld = do { fd \<leftarrow> rec_field_def db r fld; Some (FieldPtr r (nat fld)) }"

text \<open>The object a key pointer points to; \<^term>\<open>KPtr 0\<close> is read through no valid pointer.\<close>

definition key_obj :: "'d T_KRDB \<Rightarrow> field_ptr \<Rightarrow> kr_key" where
  "key_obj db p = (case p of
       ObjPtr k \<Rightarrow> k
     | FieldPtr r f \<Rightarrow> (case Option.bind (get_rec db r) (\<lambda>rc. nth_opt (rc_fields rc) f) of
         Some k \<Rightarrow> k | None \<Rightarrow> KPtr 0))"

text \<open>The key the hash and equality functions of a type see: a pointer-typed key is its address.\<close>

definition key_seen :: "'d T_KRDB \<Rightarrow> E_KRType \<Rightarrow> field_ptr \<Rightarrow> kr_key" where
  "key_seen db ty p = (if ty = KR_TYPE_POINTER then KPtr (db_addr db p) else key_obj db p)"

definition key_hash :: "'d T_KRDB \<Rightarrow> E_KRType \<Rightarrow> field_ptr \<Rightarrow> u32" where
  "key_hash db ty p = (case kr_get_hash_func ty of
       Some f \<Rightarrow> f (key_seen db ty p) | None \<Rightarrow> ucast (db_addr db p))"

definition key_equal :: "'d T_KRDB \<Rightarrow> E_KRType \<Rightarrow> (field_ptr \<Rightarrow> field_ptr \<Rightarrow> bool) option" where
  "key_equal db ty = map_option (\<lambda>f p q. f (key_seen db ty p) (key_seen db ty q)) (kr_get_equal_func ty)"

definition ht_bind :: "'d T_KRDB \<Rightarrow> E_KRType \<Rightarrow> (field_ptr, nat) T_KRHashTable \<Rightarrow> (field_ptr, nat) T_KRHashTable" where
  "ht_bind db ty ht = ht\<lparr>ht_hash_func := key_hash db ty, ht_key_equal_func := key_equal db ty\<rparr>"

text \<open>
  \<open>kr_db_field_compare\<close>: the second type is read from the first record, too, and the difference of
  two longs or doubles is cut down to an \<open>int\<close>.
\<close>

definition kr_db_field_compare :: "'d T_KRDB \<Rightarrow> rec_ptr \<Rightarrow> rec_ptr \<Rightarrow> int \<Rightarrow> int option" where
  "kr_db_field_compare db r1 r2 fld = do {
     ty1 \<leftarrow> kr_get_field_type db r1 fld;
     ty2 \<leftarrow> kr_get_field_type db r1 fld;
     if ty1 \<noteq> ty2 then Some 0
     else do {
       p1 \<leftarrow> kr_get_field_value db r1 fld;
       p2 \<leftarrow> kr_get_field_value db r2 fld;
       (case (ty1, key_obj db p1, key_obj db p2) of
          (KR_TYPE_INT, KInt a, KInt b) \<Rightarrow> chk_int (sint a - sint b)
        | (KR_TYPE_LONG, KLong a, KLong b) \<Rightarrow>
            if - (2 ^ 63) \<le> sint a - sint b \<and> sint a - sint b < 2 ^ 63
            then Some (sint (word_of_int (sint a - sint b) :: i32)) else None
        | (KR_TYPE_DOUBLE, KDouble a, KDouble b) \<Rightarrow> d_to_i32 (d_sub a b)
        | (KR_TYPE_STRING, KStr a, KStr b) \<Rightarrow> Some (c_strcmp a b)
        | (KR_TYPE_POINTER, KPtr a, KPtr b) \<Rightarrow> chk_int (sint (ucast a :: i32) - sint (ucast b :: i32))
        | (KR_TYPE_BOOL, _, _) \<Rightarrow> Some 0 | (KR_TYPE_CHAR, _, _) \<Rightarrow> Some 0 | (KR_TYPE_UNKNOWN, _, _) \<Rightarrow> Some 0
        | _ \<Rightarrow> None)
     }
   }"

section \<open>Looking tables and indexes up\<close>

definition kr_indexid_match :: "idx_ref \<Rightarrow> idx_ref \<Rightarrow> bool" where
  "kr_indexid_match p k = ((case p of Ix ix \<Rightarrow> ix_id ix | IxId i \<Rightarrow> i) = (case k of Ix ix \<Rightarrow> ix_id ix | IxId i \<Rightarrow> i))"

text \<open>The first \<open>int\<close> of a table, which a table used as key would be read as, is the mutex's.\<close>

definition kr_tableid_match :: "tbl_ref \<Rightarrow> tbl_ref \<Rightarrow> bool" where
  "kr_tableid_match p k = (case (p, k) of (Tb _ i, TbId j) \<Rightarrow> i = j | _ \<Rightarrow> False)"

definition list_find :: "('v, unit) T_KRList \<Rightarrow> 'v \<Rightarrow> 'v option option" where
  "list_find l key = do {
     n \<leftarrow> kr_list_search l key;
     (case n of None \<Rightarrow> Some None | Some a \<Rightarrow> do { nd \<leftarrow> l_mem l a; Some (Some (nd_value nd)) })
   }"

definition kr_get_table :: "'d T_KRDB \<Rightarrow> int \<Rightarrow> nat option option" where
  "kr_get_table db i = do {
     v \<leftarrow> list_find (db_table_list db) (TbId i);
     Some (case v of Some (Tb t _) \<Rightarrow> Some t | _ \<Rightarrow> None)
   }"

definition index_of_ref :: "idx_ref option \<Rightarrow> T_KRIndex option" where
  "index_of_ref v = (case v of Some (Ix ix) \<Rightarrow> Some ix | _ \<Rightarrow> None)"

definition kr_get_table_index :: "'d T_KRDB \<Rightarrow> nat \<Rightarrow> int \<Rightarrow> T_KRIndex option option" where
  "kr_get_table_index db t i = do {
     tb \<leftarrow> db_tables db t;
     v \<leftarrow> list_find (tb_indexes tb) (IxId i);
     Some (index_of_ref v)
   }"

definition kr_get_db_index :: "'d T_KRDB \<Rightarrow> int \<Rightarrow> T_KRIndex option option" where
  "kr_get_db_index db i = do {
     v \<leftarrow> list_find (db_index_list db) (IxId i);
     Some (index_of_ref v)
   }"

section \<open>Creating the database\<close>

definition kr_create_db :: "string \<Rightarrow> (field_ptr \<Rightarrow> u64) \<Rightarrow> 'd T_KRDB" where
  "kr_create_db name addr = \<lparr>db_name = take 31 name,
     db_table_list = kr_list_new\<lparr>l_match := Some kr_tableid_match\<rparr>,
     db_index_list = kr_list_new\<lparr>l_match := Some kr_indexid_match\<rparr>,
     db_tables = (\<lambda>_. None), db_hts = (\<lambda>_. None), db_lists = (\<lambda>_. None), db_fresh = 0, db_addr = addr\<rparr>"

text \<open>
  \<open>kr_create_table\<close>. The field loader fills the definitions in; a negative count or size aborts in
  the allocator. The records of a fresh buffer are zero.
\<close>

definition zero_field :: "E_KRType \<Rightarrow> kr_key" where
  "zero_field ty = (case ty of KR_TYPE_LONG \<Rightarrow> KLong 0 | KR_TYPE_DOUBLE \<Rightarrow> KDouble (Fin 0)
     | KR_TYPE_STRING \<Rightarrow> KStr [] | KR_TYPE_POINTER \<Rightarrow> KPtr 0 | _ \<Rightarrow> KInt 0)"

definition zero_def :: T_KRFieldDef where
  "zero_def = \<lparr>fd_id = 0, fd_name = [], fd_type = KR_TYPE_UNKNOWN, fd_length = 0, fd_offset = 0\<rparr>"

definition field_size :: "T_KRFieldDef \<Rightarrow> int" where
  "field_size fd = fd_length fd + (if fd_type fd = KR_TYPE_STRING then 1 else 0)"

definition KR_MEMALIGN :: "int \<Rightarrow> int" where
  "KR_MEMALIGN n = (n + 15) div 16 * 16"

definition zero_rec :: "T_KRFieldDef list \<Rightarrow> T_KRRecord" where
  "zero_rec fds = \<lparr>rc_table = None, rc_fields = map (zero_field \<circ> fd_type) fds\<rparr>"

definition kr_create_table ::
  "'d T_KRDB \<Rightarrow> int \<Rightarrow> string \<Rightarrow> E_KRSizeKeepMode \<Rightarrow> int \<Rightarrow> int \<Rightarrow>
   (int \<Rightarrow> T_KRFieldDef list \<Rightarrow> T_KRFieldDef list option) \<Rightarrow>
   ('d \<Rightarrow> 'd) option \<Rightarrow> (nat \<Rightarrow> int \<Rightarrow> 'd \<Rightarrow> kr_key) \<Rightarrow> (nat \<times> 'd T_KRDB) option" where
  "kr_create_table db table_id name keep_mode keep_value field_cnt load pre func = do {
     assert_c (0 \<le> field_cnt);
     fds \<leftarrow> load table_id (replicate (nat field_cnt) zero_def);
     sz \<leftarrow> chk_int (16 + sum_list (map field_size fds));
     rsz \<leftarrow> chk_int (KR_MEMALIGN sz);
     assert_c (0 \<le> rsz \<and> 0 \<le> keep_value);
     let t = db_fresh db;
     let tb = \<lparr>tb_id = table_id, tb_name = take 31 name, tb_map_pre = pre, tb_map_func = func,
        tb_keep_mode = keep_mode, tb_keep_value = keep_value, tb_field_cnt = field_cnt,
        tb_record_size = rsz, tb_buff = replicate (nat keep_value) (zero_rec fds), tb_fields = fds,
        tb_loc = 0, tb_num = 0, tb_indexes = kr_list_new\<lparr>l_match := Some kr_indexid_match\<rparr>\<rparr>;
     tl \<leftarrow> kr_list_add_tail (db_table_list db) (Tb t table_id);
     Some (t, db\<lparr>db_table_list := tl, db_tables := (db_tables db)(t \<mapsto> tb), db_fresh := t + 1\<rparr>)
   }"

definition add_table_index :: "'d T_KRDB \<Rightarrow> nat \<Rightarrow> T_KRIndex \<Rightarrow> 'd T_KRDB option" where
  "add_table_index db t ix = do {
     tb \<leftarrow> db_tables db t;
     l \<leftarrow> kr_list_add_tail (tb_indexes tb) (Ix ix);
     Some (db\<lparr>db_tables := (db_tables db)(t \<mapsto> tb\<lparr>tb_indexes := l\<rparr>)\<rparr>)
   }"

definition new_index_table :: "'d T_KRDB \<Rightarrow> E_KRType \<Rightarrow> (nat \<times> 'd T_KRDB) option" where
  "new_index_table db ty = do {
     ht \<leftarrow> kr_hashtable_new (\<lambda>p. ucast (db_addr db p)) (Some (key_hash db ty)) (key_equal db ty);
     Some (db_fresh db, db\<lparr>db_hts := (db_hts db)(db_fresh db \<mapsto> (ty, ht)), db_fresh := db_fresh db + 1\<rparr>)
   }"

definition kr_create_index ::
  "'d T_KRDB \<Rightarrow> nat \<Rightarrow> int \<Rightarrow> string \<Rightarrow> E_KRIndexType \<Rightarrow> int \<Rightarrow> int \<Rightarrow> (T_KRIndex option \<times> 'd T_KRDB) option" where
  "kr_create_index db t index_id name index_type fld sortfld = do {
     tb \<leftarrow> db_tables db t;
     assert_c (0 \<le> fld);
     fd \<leftarrow> nth_opt (tb_fields tb) (nat fld);
     let mk = (\<lambda>h. \<lparr>ix_id = index_id, ix_name = take 31 name, ix_type = index_type, ix_field = fld,
                    ix_sort = sortfld, ix_hash = h\<rparr>);
     (case index_type of
        KR_INDEXTYPE_TABLE \<Rightarrow> do {
          (h, db1) \<leftarrow> new_index_table db (fd_type fd);
          db2 \<leftarrow> add_table_index db1 t (mk h);
          Some (Some (mk h), db2)
        }
      | KR_INDEXTYPE_DB \<Rightarrow> do {
          dbix \<leftarrow> kr_get_db_index db index_id;
          (case dbix of
             Some ix \<Rightarrow> do {
               db1 \<leftarrow> add_table_index db t (mk (ix_hash ix));
               Some (Some (mk (ix_hash ix)), db1)
             }
           | None \<Rightarrow> do {
               (h, db1) \<leftarrow> new_index_table db (fd_type fd);
               db2 \<leftarrow> add_table_index db1 t (mk h);
               l \<leftarrow> kr_list_add_tail (db_index_list db2) (Ix (mk h));
               Some (Some (mk h), db2\<lparr>db_index_list := l\<rparr>)
             })
        }
      | KR_INDEXTYPE_OTHER _ \<Rightarrow> Some (None, db))
   }"

section \<open>Maintaining the indexes\<close>

definition put_ht :: "'d T_KRDB \<Rightarrow> nat \<Rightarrow> E_KRType \<Rightarrow> (field_ptr, nat) T_KRHashTable \<Rightarrow> 'd T_KRDB" where
  "put_ht db h ty ht = db\<lparr>db_hts := (db_hts db)(h \<mapsto> (ty, ht))\<rparr>"

text \<open>
  \<open>kr_rebuild_index_ins\<close>. The sorted insertion hands the comparison a pointer to the sort field's
  number where it expects the number, so it is undefined as soon as the comparison is called, which
  is when the list is not empty.
\<close>

definition kr_rebuild_index_ins :: "T_KRIndex \<Rightarrow> rec_ptr \<Rightarrow> 'd T_KRDB \<Rightarrow> 'd T_KRDB option" where
  "kr_rebuild_index_ins ix r db = do {
     k \<leftarrow> kr_get_field_value db r (ix_field ix);
     (ty, ht) \<leftarrow> db_hts db (ix_hash ix);
     found \<leftarrow> kr_hashtable_lookup (Some (ht_bind db ty ht)) k;
     let (la, db1) = (case found of
         Some a \<Rightarrow> (a, db)
       | None \<Rightarrow> (db_fresh db, db\<lparr>db_lists := (db_lists db)(db_fresh db \<mapsto> kr_list_new), db_fresh := db_fresh db + 1\<rparr>));
     l \<leftarrow> db_lists db1 la;
     l' \<leftarrow> (if 0 \<le> ix_sort ix then (if l_len l = 0 then kr_list_add_sorted l r () else None)
            else kr_list_add_tail l r);
     ht' \<leftarrow> kr_hashtable_replace (ht_bind db1 ty ht) k (Some la);
     Some (put_ht (db1\<lparr>db_lists := (db_lists db1)(la \<mapsto> l')\<rparr>) (ix_hash ix) ty ht')
   }"

text \<open>
  \<open>kr_rebuild_index_del\<close>. A key that is not found leaves \<open>pRecList\<close> NULL, whose length is then read.
\<close>

definition kr_rebuild_index_del :: "T_KRIndex \<Rightarrow> rec_ptr \<Rightarrow> 'd T_KRDB \<Rightarrow> 'd T_KRDB option" where
  "kr_rebuild_index_del ix r db = do {
     k \<leftarrow> kr_get_field_value db r (ix_field ix);
     (ty, ht) \<leftarrow> db_hts db (ix_hash ix);
     found \<leftarrow> kr_hashtable_lookup (Some (ht_bind db ty ht)) k;
     la \<leftarrow> found;
     l \<leftarrow> db_lists db la;
     l' \<leftarrow> kr_list_remove l r;
     let db1 = db\<lparr>db_lists := (db_lists db)(la \<mapsto> l')\<rparr>;
     if l_len l' \<noteq> 0 then do {
       a \<leftarrow> l_tail l';
       nd \<leftarrow> l_mem l' a;
       let r' = nd_value nd;
       rc \<leftarrow> get_rec db1 r;
       rc' \<leftarrow> get_rec db1 r';
       newix \<leftarrow> (if rc_table rc \<noteq> rc_table rc' then do {
                  t' \<leftarrow> rc_table rc';
                  nix \<leftarrow> kr_get_table_index db1 t' (ix_id ix);
                  nix
                } else Some ix);
       k' \<leftarrow> kr_get_field_value db1 r' (ix_field newix);
       (ty', ht1) \<leftarrow> db_hts db1 (ix_hash newix);
       ht' \<leftarrow> kr_hashtable_replace (ht_bind db1 ty' ht1) k' (Some la);
       Some (put_ht db1 (ix_hash newix) ty' ht')
     } else do {
       d \<leftarrow> kr_list_destroy l';
       let db2 = db1\<lparr>db_lists := (db_lists db1)(la := None)\<rparr>;
       (b, ht') \<leftarrow> ht_remove_step (ht_bind db2 ty ht) k;
       Some (put_ht db2 (ix_hash ix) ty ht')
     }
   }"

definition foreach_index ::
  "(T_KRIndex \<Rightarrow> rec_ptr \<Rightarrow> 'd T_KRDB \<Rightarrow> 'd T_KRDB option) \<Rightarrow> nat \<Rightarrow> rec_ptr \<Rightarrow> 'd T_KRDB \<Rightarrow> 'd T_KRDB option" where
  "foreach_index f t r db = do {
     tb \<leftarrow> db_tables db t;
     res \<leftarrow> kr_list_foreach (tb_indexes tb)
       (Some (\<lambda>v acc. do { d \<leftarrow> acc; ix \<leftarrow> index_of_ref (Some v); f ix r d })) (Some db);
     res
   }"

section \<open>Records\<close>

definition kr_insert_record :: "rec_ptr \<Rightarrow> nat \<Rightarrow> 'd T_KRDB \<Rightarrow> (int \<times> 'd T_KRDB) option" where
  "kr_insert_record r t db = do {
     db1 \<leftarrow> foreach_index kr_rebuild_index_ins t r db;
     tb \<leftarrow> db_tables db1 t;
     let num = tb_num tb + 1;
     let num' = (if int (unat num) > tb_keep_value tb then word_of_int (tb_keep_value tb) else num);
     assert_c (tb_keep_value tb \<noteq> 0);
     let loc' = word_of_int (tmod (int (unat (tb_loc tb + 1))) (tb_keep_value tb));
     Some (0, db1\<lparr>db_tables := (db_tables db1)(t \<mapsto> tb\<lparr>tb_num := num', tb_loc := loc'\<rparr>)\<rparr>)
   }"

text \<open>The test for a negative count is made on an unsigned number and never holds.\<close>

definition kr_delete_record :: "rec_ptr \<Rightarrow> nat \<Rightarrow> 'd T_KRDB \<Rightarrow> 'd T_KRDB option" where
  "kr_delete_record r t db = do {
     db1 \<leftarrow> foreach_index kr_rebuild_index_del t r db;
     tb \<leftarrow> db_tables db1 t;
     Some (db1\<lparr>db_tables := (db_tables db1)(t \<mapsto> tb\<lparr>tb_num := tb_num tb - 1\<rparr>)\<rparr>)
   }"

text \<open>What a mapping function may write into a field: an object of its type that fits.\<close>

definition fits :: "T_KRFieldDef \<Rightarrow> kr_key \<Rightarrow> bool" where
  "fits fd k = (case (fd_type fd, k) of
       (KR_TYPE_INT, KInt _) \<Rightarrow> True | (KR_TYPE_LONG, KLong _) \<Rightarrow> True | (KR_TYPE_DOUBLE, KDouble _) \<Rightarrow> True
     | (KR_TYPE_STRING, KStr s) \<Rightarrow> int (length s) \<le> fd_length fd | (KR_TYPE_POINTER, KPtr _) \<Rightarrow> True
     | (KR_TYPE_BOOL, _) \<Rightarrow> True | (KR_TYPE_CHAR, _) \<Rightarrow> True | (KR_TYPE_UNKNOWN, _) \<Rightarrow> True
     | _ \<Rightarrow> False)"

primrec assign_fields :: "(nat \<Rightarrow> int \<Rightarrow> 'd \<Rightarrow> kr_key) \<Rightarrow> 'd \<Rightarrow> T_KRFieldDef list \<Rightarrow> nat list \<Rightarrow> kr_key list \<Rightarrow> kr_key list option" where
  "assign_fields f data fds [] vals = Some vals"
| "assign_fields f data fds (n # ns) vals = do {
     fd \<leftarrow> nth_opt fds n;
     let v = f n (fd_length fd) data;
     assert_c (fits fd v);
     vals' \<leftarrow> upd_opt vals n v;
     assign_fields f data fds ns vals'
   }"

definition kr_assign_field_value :: "'d T_KRTable \<Rightarrow> T_KRRecord \<Rightarrow> 'd \<Rightarrow> T_KRRecord option" where
  "kr_assign_field_value tb rc msg = do {
     let data = (case tb_map_pre tb of Some f \<Rightarrow> f msg | None \<Rightarrow> msg);
     vals \<leftarrow> assign_fields (tb_map_func tb) data (tb_fields tb) [0..<nat (tb_field_cnt tb)] (rc_fields rc);
     Some (rc\<lparr>rc_fields := vals\<rparr>)
   }"

text \<open>
  \<open>kr_create_record_from_data\<close>. The byte offset of the slot is a 32-bit product; a buffer that needs
  more is outside the model.
\<close>

definition kr_create_record_from_data :: "nat \<Rightarrow> 'd \<Rightarrow> 'd T_KRDB \<Rightarrow> (rec_ptr \<times> 'd T_KRDB) option" where
  "kr_create_record_from_data t data db = do {
     tb \<leftarrow> db_tables db t;
     assert_c (int (unat (tb_loc tb)) * tb_record_size tb < 2 ^ 32);
     let r = (t, unat (tb_loc tb));
     rc \<leftarrow> get_rec db r;
     db1 \<leftarrow> (case rc_table rc of None \<Rightarrow> Some db | Some t' \<Rightarrow> kr_delete_record r t' db);
     rc1 \<leftarrow> kr_assign_field_value tb ((zero_rec (tb_fields tb))\<lparr>rc_table := Some t\<rparr>) data;
     db2 \<leftarrow> put_rec db1 r rc1;
     Some (r, db2)
   }"

definition kr_get_record_list :: "T_KRIndex \<Rightarrow> field_ptr \<Rightarrow> 'd T_KRDB \<Rightarrow> nat option option" where
  "kr_get_record_list ix k db = do {
     (ty, ht) \<leftarrow> db_hts db (ix_hash ix);
     kr_hashtable_lookup (Some (ht_bind db ty ht)) k
   }"

section \<open>Access: kr_db.c\<close>

definition kr_db_insert :: "int \<Rightarrow> 'd \<Rightarrow> 'd T_KRDB \<Rightarrow> (rec_ptr option \<times> 'd T_KRDB) option" where
  "kr_db_insert tid data db = do {
     found \<leftarrow> kr_get_table db tid;
     (case found of
        None \<Rightarrow> Some (None, db)
      | Some t \<Rightarrow> do {
          (r, db1) \<leftarrow> kr_create_record_from_data t data db;
          (ret, db2) \<leftarrow> kr_insert_record r t db1;
          Some (if ret \<noteq> 0 then None else Some r, db2)
        })
   }"

definition kr_db_select :: "int \<Rightarrow> int \<Rightarrow> field_ptr \<Rightarrow> 'd T_KRDB \<Rightarrow> nat option option" where
  "kr_db_select tid iid k db = do {
     found \<leftarrow> kr_get_table db tid;
     (case found of
        None \<Rightarrow> Some None
      | Some t \<Rightarrow> do {
          ixr \<leftarrow> kr_get_table_index db t iid;
          (case ixr of None \<Rightarrow> Some None | Some ix \<Rightarrow> kr_get_record_list ix k db)
        })
   }"

text \<open>The loader of a table does nothing yet.\<close>

definition kr_db_load :: "'d T_KRDB \<Rightarrow> (int \<times> 'd T_KRDB) option" where
  "kr_db_load db = do {
     db' \<leftarrow> kr_list_foreach (db_table_list db) (Some (\<lambda>_ d. d)) db;
     Some (0, db')
   }"

end
