(* ===== verification/KR_HashTable_Keys.thy ===== *)
theory KR_HashTable_Keys
  imports KR_HashTable_Ops
begin

text \<open>
  Tables whose keys are pointers into memory that changes. \<open>ht_keys\<close> is the set of the stored key
  pointers; insertion with \<open>replace\<close> and removal are shown to keep it under control, and a table is
  shown to stay valid when its callbacks change, as long as they agree on the stored keys.
\<close>

definition node_keys :: "('k, 'v) T_KRHashNode list \<Rightarrow> 'k set" where
  "node_keys ns = {k. \<exists>nd \<in> set ns. live_node nd \<and> hn_key nd = Some k}"

definition ht_keys :: "('k, 'v) T_KRHashTable \<Rightarrow> 'k set" where
  "ht_keys ht = node_keys (ht_nodes ht)"

lemma node_keys_empty [simp]: "node_keys (replicate n empty_node) = {}"
  by (auto simp: node_keys_def live_node_def empty_node_def)

lemma resize_copy_keys:
  "resize_copy md msk ns new = Some new' \<Longrightarrow> node_keys new' \<subseteq> node_keys new \<union> node_keys ns"
proof (induction ns arbitrary: new)
  case Nil
  then show ?case by simp
next
  case (Cons nd ns)
  show ?case
  proof (cases "hn_key_hash nd \<le> 1")
    case True
    with Cons show ?thesis by (fastforce simp: node_keys_def)
  next
    case False
    with Cons.prems obtain i new1 where new1: "upd_opt new i nd = Some new1" "resize_copy md msk ns new1 = Some new'"
      by (auto simp: bind_eq_Some_conv)
    have "node_keys new1 \<subseteq> node_keys new \<union> node_keys (nd # ns)"
      using new1(1) set_update_subset_insert [of new i nd] by (auto simp: node_keys_def upd_opt_eq_Some)
    moreover have "node_keys ns \<subseteq> node_keys (nd # ns)" by (auto simp: node_keys_def)
    ultimately show ?thesis using Cons.IH [OF new1(2)] by blast
  qed
qed

lemma resize_keys: "kr_hashtable_resize ht = Some ht' \<Longrightarrow> ht_keys ht' \<subseteq> ht_keys ht"
proof -
  assume "kr_hashtable_resize ht = Some ht'"
  then obtain md msk n m ns where "resize_copy md msk (take n (ht_nodes ht)) (replicate m empty_node) = Some ns"
      "ht_nodes ht' = ns"
    by (auto simp: kr_hashtable_resize_def Let_def bind_eq_Some_conv)
  moreover have "node_keys (take n (ht_nodes ht)) \<subseteq> node_keys (ht_nodes ht)"
    by (auto simp: node_keys_def dest: in_set_takeD)
  ultimately show ?thesis by (fastforce simp: ht_keys_def dest: resize_copy_keys)
qed

lemma maybe_resize_keys: "kr_hashtable_maybe_resize ht = Some ht' \<Longrightarrow> ht_keys ht' \<subseteq> ht_keys ht"
  by (auto simp: kr_hashtable_maybe_resize_def Let_def bind_eq_Some_conv dest: resize_keys split: if_splits)

lemma new_full_keys: "kr_hashtable_new_full ph hf eqf kd vd = Some ht \<Longrightarrow> ht_keys ht = {}"
  by (auto simp: kr_hashtable_new_full_def Let_def bind_eq_Some_conv ht_keys_def)

lemma node_keys_update:
  "node_keys (ns[i := nd]) \<subseteq>
   {k. live_node nd \<and> hn_key nd = Some k} \<union> {k. \<exists>j < length ns. j \<noteq> i \<and> live_node (ns ! j) \<and> hn_key (ns ! j) = Some k}"
proof
  fix k assume "k \<in> node_keys (ns[i := nd])"
  then obtain j where j: "j < length ns" "live_node (ns[i := nd] ! j)" "hn_key (ns[i := nd] ! j) = Some k"
    by (auto simp: node_keys_def in_set_conv_nth)
  then show "k \<in> {k. live_node nd \<and> hn_key nd = Some k} \<union>
      {k. \<exists>j < length ns. j \<noteq> i \<and> live_node (ns ! j) \<and> hn_key (ns ! j) = Some k}"
    by (cases "j = i") auto
qed

context hash_key
begin

lemma replace_keys:
  assumes ok: "ht_ok ht" and hf: "ht_hash_func ht = hash" and kq: "keq ht = eq"
    and room: "ht_room ht" and call: "kr_hashtable_replace ht k v = Some ht'" and k': "k' \<in> ht_keys ht'"
  shows "k' = k \<or> k' \<in> ht_keys ht \<and> \<not> eq k k'"
proof -
  from insert_internal_spec [OF ok hf kq room, of k v True] call have ok': "ht_ok ht'" and sf: "same_funcs ht ht'"
    by (auto simp: kr_hashtable_replace_def)
  let ?ns = "ht_nodes ht"
  from ok obtain n where n: "n \<le> 30" "ht_mod ht = prime_mod ! n" "ht_mask ht = mask n" "nodes_ok hash eq n ?ns"
      "n_used ?ns < 2 ^ n" "length ?ns = 2 ^ n"
    by (elim ht_okE) (auto simp: hf kq)
  from insertion_node_spec [OF ok hf kq n(1-5), of k] obtain r hv where r:
      "kr_hashtable_lookup_node_for_insertion ht k = Some (r, hv)" "unat r < 2 ^ n"
      "if live_node (?ns ! unat r) then node_has eq k (?ns ! unat r) else ht_map ht k = None"
    by blast
  have nth: "nth_opt ?ns (unat r) = Some (?ns ! unat r)" using r(2) n(6) by simp
  show ?thesis
  proof (cases "live_node (?ns ! unat r)")
    case True
    obtain nd where nd: "ht_nodes ht' = ?ns[unat r := nd]" "hn_key nd = Some k" "live_node nd"
      using call r(1) nth True
      by (auto simp: kr_hashtable_replace_def kr_hashtable_insert_internal_def live_node_def Let_def bind_eq_Some_conv)
    from ok' have "uniq_keys eq (ht_nodes ht')"
      using same_funcs_keq [OF sf] kq by (auto simp: nodes_ok_def elim: ht_okE)
    with nd(1) have uniq: "uniq_keys eq (?ns[unat r := nd])" by simp
    from k' nd(1) node_keys_update [of ?ns "unat r" nd] nd(2)
    consider "k' = k" | j where "j < length ?ns" "j \<noteq> unat r" "live_node (?ns ! j)" "hn_key (?ns ! j) = Some k'"
      by (auto simp: ht_keys_def)
    then show ?thesis
    proof cases
      case (2 j)
      have "\<not> eq k k'"
        using uniq_keysD [OF uniq, of "unat r" j k k'] 2 nd(2,3) r(2) n(6) by auto
      with 2 show ?thesis by (auto simp: ht_keys_def node_keys_def)
    qed simp
  next
    case False
    with r(3) have absent: "ht_map ht k = None" by simp
    have "node_keys (ht_nodes ht') \<subseteq> node_keys (?ns[unat r := \<lparr>hn_key = Some k, hn_value = v, hn_key_hash = hv\<rparr>])"
      using call r(1) nth False
      by (auto simp: kr_hashtable_replace_def kr_hashtable_insert_internal_def live_node_def Let_def bind_eq_Some_conv
            ht_keys_def [symmetric] split: if_splits dest!: maybe_resize_keys) (auto simp: ht_keys_def)
    with k' node_keys_update [of ?ns "unat r"] have "k' = k \<or> k' \<in> node_keys ?ns"
      by (fastforce simp: ht_keys_def node_keys_def)
    moreover have "\<not> eq k k'" if kk: "k' \<in> node_keys ?ns"
    proof
      assume "eq k k'"
      with kk obtain nd where "nd \<in> set ?ns" "node_has eq k nd"
        using eq_sym by (fastforce simp: node_keys_def node_has_def)
      with absent show False by (auto simp: ht_map_def kq nodes_map_None_iff)
    qed
    ultimately show ?thesis by (auto simp: ht_keys_def)
  qed
qed

lemma remove_keys:
  assumes ok: "ht_ok ht" and hf: "ht_hash_func ht = hash" and kq: "keq ht = eq"
    and call: "ht_remove_step ht k = Some (b, ht')" and k': "k' \<in> ht_keys ht'"
  shows "k' \<in> ht_keys ht \<and> \<not> eq k k'"
proof -
  let ?ns = "ht_nodes ht"
  from lookup_node_correct [OF ok hf kq, of k] obtain r where r: "kr_hashtable_lookup_node ht k = Some r"
      "unat r < length ?ns"
      "hn_key_hash (?ns ! unat r) = 0 \<and> ht_map ht k = None \<or> node_has eq k (?ns ! unat r)"
    by blast
  have uniq: "uniq_keys eq ?ns" using ok kq by (auto simp: nodes_ok_def elim: ht_okE)
  show ?thesis
  proof (cases "hn_key_hash (?ns ! unat r) = 0")
    case True
    with call r(1,2) have "ht' = ht"
      by (auto simp: ht_remove_step_def kr_hashtable_remove_def kr_hashtable_remove_internal_def)
    moreover have "ht_map ht k = None" using r(3) True by (auto simp: node_has_def live_node_def)
    ultimately show ?thesis
      using k' eq_sym by (fastforce simp: ht_map_def kq nodes_map_None_iff ht_keys_def node_keys_def node_has_def)
  next
    case False
    with r(3) have has: "node_has eq k (?ns ! unat r)" by auto
    have "node_keys (ht_nodes ht') \<subseteq> node_keys (?ns[unat r := \<lparr>hn_key = None, hn_value = None, hn_key_hash = 1\<rparr>])"
      using call r(1,2) False
      by (auto simp: ht_remove_step_def kr_hashtable_remove_def kr_hashtable_remove_internal_def bind_eq_Some_conv
            kr_hashtable_remove_node_def ht_keys_def [symmetric] dest!: maybe_resize_keys) (auto simp: ht_keys_def)
    with k' node_keys_update [of ?ns "unat r"] obtain j where j: "j < length ?ns" "j \<noteq> unat r" "live_node (?ns ! j)"
        "hn_key (?ns ! j) = Some k'"
      by (fastforce simp: ht_keys_def)
    have "\<not> eq k k'"
    proof
      assume e: "eq k k'"
      from has obtain k0 where k0: "live_node (?ns ! unat r)" "hn_key (?ns ! unat r) = Some k0" "eq k0 k"
        by (rule node_hasE)
      from uniq_keysD [OF uniq r(2) j(1) k0(1) j(3) k0(2) j(4) eq_trans [OF k0(3) e]] j(2) show False by simp
    qed
    with j show ?thesis by (auto simp: ht_keys_def node_keys_def)
  qed
qed

end

section \<open>Changing the callbacks\<close>

lemma node_has_cong:
  assumes "nd \<in> set ns" and "\<And>k. k \<in> node_keys ns \<Longrightarrow> eq' k x' = eq k x"
  shows "node_has eq' x' nd = node_has eq x nd"
  using assms by (auto simp: node_has_def node_keys_def split: option.splits)

lemma nodes_map_cong:
  assumes "\<And>k. k \<in> node_keys ns \<Longrightarrow> eq' k x' = eq k x"
  shows "nodes_map eq' ns x' = nodes_map eq ns x"
proof -
  have "find (node_has eq' x') ns = find (node_has eq x) ns"
    using assms by (intro find_cong refl node_has_cong)
  then show ?thesis by (simp add: nodes_map_def)
qed

lemma nodes_ok_cong:
  assumes ok: "nodes_ok hf eq n ns" and hf: "\<And>k. k \<in> node_keys ns \<Longrightarrow> hf' k = hf k"
    and eq: "\<And>k k'. k \<in> node_keys ns \<Longrightarrow> k' \<in> node_keys ns \<Longrightarrow> eq' k k' = eq k k'"
  shows "nodes_ok hf' eq' n ns"
proof -
  have key: "k \<in> node_keys ns" if "i < length ns" "live_node (ns ! i)" "hn_key (ns ! i) = Some k" for i k
    using that by (auto simp: node_keys_def)
  have "uniq_keys eq' ns"
    using ok eq key unfolding nodes_ok_def uniq_keys_def by metis
  moreover have "\<exists>k. hn_key (ns ! i) = Some k \<and> hn_key_hash (ns ! i) = norm_hash (hf' k) \<and>
      reach ns n (home n (norm_hash (hf' k))) i" if "i < 2 ^ n" "live_node (ns ! i)" for i
    using ok that hf key [of i] unfolding nodes_ok_def by metis
  ultimately show ?thesis using ok by (simp add: nodes_ok_def)
qed

lemma ht_ok_rebind:
  assumes ok: "ht_ok ht" and hf: "\<And>k. k \<in> ht_keys ht \<Longrightarrow> hf' k = ht_hash_func ht k"
    and eq: "\<And>k k'. k \<in> ht_keys ht \<Longrightarrow> k' \<in> ht_keys ht \<Longrightarrow> (case eqf' of Some f \<Rightarrow> f | None \<Rightarrow> (=)) k k' = keq ht k k'"
  shows "ht_ok (ht\<lparr>ht_hash_func := hf', ht_key_equal_func := eqf'\<rparr>)"
proof -
  let ?ht' = "ht\<lparr>ht_hash_func := hf', ht_key_equal_func := eqf'\<rparr>"
  have kq: "keq ?ht' = (case eqf' of Some f \<Rightarrow> f | None \<Rightarrow> (=))" by (simp add: keq_def)
  from ok obtain n where n: "3 \<le> n" "n \<le> 30" "ht_size ht = 2 ^ n" "ht_mod ht = prime_mod ! n" "ht_mask ht = mask n"
      "nodes_ok (ht_hash_func ht) (keq ht) n (ht_nodes ht)" "ht_nnodes ht = int (n_live (ht_nodes ht))"
      "ht_noccupied ht = int (n_used (ht_nodes ht))" "ht_ref_count ht > 0" "n_used (ht_nodes ht) < 2 ^ n"
    by (elim ht_okE) auto
  have "nodes_ok hf' (keq ?ht') n (ht_nodes ht)"
    by (rule nodes_ok_cong [OF n(6)]) (use hf eq kq in \<open>auto simp: ht_keys_def\<close>)
  with n show ?thesis by (auto simp: ht_ok_def ht_pre_def)
qed

section \<open>Counting\<close>

lemma n_live_card_keys:
  assumes "uniq_keys eq ns" and "\<forall>k \<in> node_keys ns. eq k k" and "\<forall>nd \<in> set ns. live_node nd \<longrightarrow> hn_key nd \<noteq> None"
  shows "n_live ns = card (node_keys ns)"
proof -
  let ?I = "{i. i < length ns \<and> live_node (ns ! i)}" and ?f = "\<lambda>i. the (hn_key (ns ! i))"
  have key: "hn_key (ns ! i) = Some (?f i)" "?f i \<in> node_keys ns" if "i \<in> ?I" for i
    using that assms(3) by (auto simp: node_keys_def)
  have "inj_on ?f ?I"
  proof (rule inj_onI)
    fix i j assume i: "i \<in> ?I" and j: "j \<in> ?I" and e: "?f i = ?f j"
    have "eq (?f i) (?f j)" using key(2) [OF i] e assms(2) by simp
    then show "i = j"
      using uniq_keysD [OF assms(1) _ _ _ _ key(1) [OF i] key(1) [OF j]] i j by simp
  qed
  moreover have "?f ` ?I = node_keys ns"
  proof
    show "?f ` ?I \<subseteq> node_keys ns" using key(2) by auto
    show "node_keys ns \<subseteq> ?f ` ?I"
    proof
      fix k assume "k \<in> node_keys ns"
      then obtain i where "i < length ns" "live_node (ns ! i)" "hn_key (ns ! i) = Some k"
        by (auto simp: node_keys_def in_set_conv_nth)
      then have "i \<in> ?I" and "?f i = k" by auto
      then show "k \<in> ?f ` ?I" by blast
    qed
  qed
  ultimately have "card ?I = card (node_keys ns)" by (metis card_image)
  then show ?thesis by (simp add: n_live_def length_filter_conv_card)
qed

end
