(* ===== verification/KR_DB_Index.thy ===== *)
theory KR_DB_Index
  imports KR_DB KR_HashTable_Keys
begin

text \<open>
  What an index of the database stands for. For a log of the stored records in the order of their
  insertion, the record list an index finds for a key is the sublist of the log whose key field
  equals it; \<open>ht_state\<close> says so for one hash table and \<open>idx_inv\<close> for all of them, and the two
  operations \<open>rebuild_index_ins\<close> and \<open>rebuild_index_del\<close> add a record to and take one from the log.
\<close>

section \<open>Lists by their sequences\<close>

lemma list_find_spec:
  assumes "l_ok l"
  shows "list_find l key = Some (find (\<lambda>v. list_matches l v key) (l_seq l))"
proof -
  from assms obtain as where as: "dll l as" "l_seq l = l_vals l as" by (auto elim: l_okE)
  have search: "kr_list_search l key = Some (find (\<lambda>a. list_matches l (val_at (l_mem l) a) key) as)"
    using search_loop_spec [OF dllD(2) [OF as(1)]] dllD(3) [OF as(1)] by (simp add: kr_list_search_def)
  have eq: "find (\<lambda>v. list_matches l v key) (l_vals l as) =
      map_option (val_at (l_mem l)) (find (\<lambda>a. list_matches l (val_at (l_mem l) a) key) as)"
    by (induction as) (simp_all add: l_vals_def)
  show ?thesis
  proof (cases "find (\<lambda>a. list_matches l (val_at (l_mem l) a) key) as")
    case None
    with search eq as(2) show ?thesis by (simp add: list_find_def)
  next
    case (Some a)
    then have "a \<in> set as" by (auto simp: find_Some_iff)
    then obtain nd where "l_mem l a = Some nd" using seg_mem [OF dllD(2) [OF as(1)]] by blast
    with Some search eq as(2) show ?thesis by (simp add: list_find_def val_at_def)
  qed
qed

lemma list_foreach_spec:
  assumes "l_ok l"
  shows "kr_list_foreach l (Some f) s = Some (fold f (l_seq l) s)"
proof -
  from assms obtain as where as: "dll l as" "l_seq l = l_vals l as" by (auto elim: l_okE)
  show ?thesis
    using foreach_loop_spec [OF dllD(2) [OF as(1)]] dllD(3) [OF as(1)] as(2)
    by (simp add: kr_list_foreach_def l_vals_def)
qed

lemma list_remove_seq:
  assumes "l_ok l"
  shows "\<exists>l'. kr_list_remove l key = Some l' \<and> l_ok l' \<and> same_conf l l' \<and>
    l_seq l' = remove_first (\<lambda>v. list_matches l v key) (l_seq l)"
proof -
  from assms obtain as where as: "dll l as" "l_seq l = l_vals l as" by (auto elim: l_okE)
  from remove_spec [OF as(1), of key] obtain l' as' where r: "kr_list_remove l key = Some l'" "dll l' as'"
      "same_conf l l'" "l_vals l' as' = (case find (\<lambda>a. list_matches l (val_at (l_mem l) a) key) as of
         None \<Rightarrow> l_vals l as | Some a \<Rightarrow> l_vals l (remove1 a as))"
    by blast
  have "l_seq l' = remove_first (\<lambda>v. list_matches l v key) (l_seq l)"
    using r(4) remove1_vals [where l = l and P = "\<lambda>v. list_matches l v key" and as = as] dll_seq [OF r(2)] as(2)
    by (simp split: option.splits)
  with r show ?thesis by (auto simp: l_ok_def)
qed

lemma list_last_spec:
  assumes "l_ok l" and "l_seq l \<noteq> []"
  shows "\<exists>a nd. l_tail l = Some a \<and> l_mem l a = Some nd \<and> nd_value nd = last (l_seq l)"
proof -
  from assms(1) obtain as where as: "dll l as" "l_seq l = l_vals l as" by (auto elim: l_okE)
  with assms(2) have ne: "as \<noteq> []" by (auto simp: l_vals_def)
  then obtain nd where "l_mem l (last as) = Some nd" using seg_mem [OF dllD(2) [OF as(1)]] by force
  with ne as(2) dllD(4) [OF as(1)] show ?thesis
    by (simp add: last_of_def l_vals_def last_map val_at_def)
qed

lemma list_len_0: "l_ok l \<Longrightarrow> l_len l = 0 \<longleftrightarrow> l_seq l = []"
  using l_ok_length [of l] by (metis length_0_conv unat_eq_0)

lemma list_destroy_ok:
  assumes "l_ok l"
  shows "\<exists>d. kr_list_destroy l = Some d"
proof -
  from assms obtain as where as: "dll l as" by (auto simp: l_ok_def)
  show ?thesis
    using destroy_loop_spec [OF dllD(2,1) [OF as]] dll_len [OF as] dllD(3) [OF as]
    by (simp add: kr_list_destroy_def)
qed

lemma remove_first_distinct: "distinct xs \<Longrightarrow> remove_first (\<lambda>v. r = v) xs = filter (\<lambda>v. v \<noteq> r) xs"
proof (induction xs)
  case Nil
  then show ?case by simp
next
  case (Cons x xs)
  moreover from Cons.prems have "filter (\<lambda>v. v \<noteq> x) xs = xs" by (auto simp: filter_id_conv)
  ultimately show ?case by auto
qed

section \<open>Key pointers\<close>

definition peq :: "'d T_KRDB \<Rightarrow> E_KRType \<Rightarrow> field_ptr \<Rightarrow> field_ptr \<Rightarrow> bool" where
  "peq db ty = (case key_equal db ty of Some f \<Rightarrow> f | None \<Rightarrow> (=))"

lemma bind_funcs [simp]:
  "ht_hash_func (ht_bind db ty ht) = key_hash db ty" "keq (ht_bind db ty ht) = peq db ty"
  "ht_nodes (ht_bind db ty ht) = ht_nodes ht" "ht_nnodes (ht_bind db ty ht) = ht_nnodes ht"
  by (simp_all add: ht_bind_def keq_def peq_def)

lemma bind_keys [simp]: "ht_keys (ht_bind db ty ht) = ht_keys ht"
  by (simp add: ht_keys_def)

lemma bind_bind [simp]: "ht_bind db' ty' (ht_bind db ty ht) = ht_bind db' ty' ht"
  by (simp add: ht_bind_def)

lemma get_hash_equal_None: "kr_get_hash_func ty = None \<longleftrightarrow> kr_get_equal_func ty = None"
  by (cases ty) auto

lemma bind_hash_key: "hash_key (key_hash db ty) (peq db ty)"
proof (cases "kr_get_hash_func ty")
  case None
  then have "peq db ty = (=)" using get_hash_equal_None [of ty] by (simp add: peq_def key_equal_def)
  then show ?thesis by unfold_locales auto
next
  case (Some hf)
  then obtain ef where ef: "kr_get_equal_func ty = Some ef" using get_hash_equal_None [of ty] by auto
  note k = hash_key.eq_sym [OF key_type_hash_key [OF Some ef]] hash_key.eq_trans [OF key_type_hash_key [OF Some ef]]
    hash_key.eq_hash [OF key_type_hash_key [OF Some ef]]
  have "peq db ty = (\<lambda>p q. ef (key_seen db ty p) (key_seen db ty q))" "key_hash db ty = (\<lambda>p. hf (key_seen db ty p))"
    by (auto simp: peq_def key_equal_def key_hash_def Some ef)
  then show ?thesis by unfold_locales (auto intro: k)
qed

lemmas peq_sym = hash_key.eq_sym [OF bind_hash_key]
lemmas peq_trans = hash_key.eq_trans [OF bind_hash_key]

lemma peq_left: "peq db ty a b \<Longrightarrow> peq db ty a x = peq db ty b x"
  using peq_sym peq_trans by blast

section \<open>The state of one index\<close>

text \<open>The indexes of a table, and the key pointer a hash table holds a record under.\<close>

definition idxs :: "'d T_KRDB \<Rightarrow> nat \<Rightarrow> T_KRIndex list" where
  "idxs db t = (case db_tables db t of
       None \<Rightarrow> [] | Some tb \<Rightarrow> List.map_filter (\<lambda>v. index_of_ref (Some v)) (l_seq (tb_indexes tb)))"

definition hkey :: "'d T_KRDB \<Rightarrow> nat \<Rightarrow> rec_ptr \<Rightarrow> field_ptr option" where
  "hkey db h r = map_option (\<lambda>ix. FieldPtr r (nat (ix_field ix))) (find (\<lambda>ix. ix_hash ix = h) (idxs db (fst r)))"

definition has_key :: "'d T_KRDB \<Rightarrow> nat \<Rightarrow> E_KRType \<Rightarrow> field_ptr \<Rightarrow> rec_ptr \<Rightarrow> bool" where
  "has_key db h ty x r = (case hkey db h r of None \<Rightarrow> False | Some p \<Rightarrow> peq db ty p x)"

definition bucket :: "'d T_KRDB \<Rightarrow> nat \<Rightarrow> E_KRType \<Rightarrow> rec_ptr list \<Rightarrow> field_ptr \<Rightarrow> rec_ptr list" where
  "bucket db h ty lg x = filter (has_key db h ty x) lg"

lemma bucket_eq: "peq db ty x y \<Longrightarrow> bucket db h ty lg x = bucket db h ty lg y"
  unfolding bucket_def has_key_def
  by (intro filter_cong refl) (auto split: option.splits intro: peq_trans dest: peq_sym)

lemma set_bucket: "r \<in> set (bucket db h ty lg x) \<longleftrightarrow> r \<in> set lg \<and> (\<exists>p. hkey db h r = Some p \<and> peq db ty p x)"
  by (auto simp: bucket_def has_key_def split: option.splits)

text \<open>
  \<open>rec_list db own h bs la\<close>: the list at \<open>la\<close> belongs to the hash table \<open>h\<close> and holds the records \<open>bs\<close>.
  \<open>own\<close> assigns the record lists to the hash tables.
\<close>

definition rec_list :: "'d T_KRDB \<Rightarrow> (nat \<Rightarrow> nat) \<Rightarrow> nat \<Rightarrow> rec_ptr list \<Rightarrow> nat \<Rightarrow> bool" where
  "rec_list db own h bs la \<longleftrightarrow> own la = h \<and> la < db_fresh db \<and>
     (\<exists>l. db_lists db la = Some l \<and> l_ok l \<and> l_match l = None \<and> l_seq l = bs)"

definition ht_state ::
  "'d T_KRDB \<Rightarrow> (nat \<Rightarrow> nat) \<Rightarrow> nat \<Rightarrow> rec_ptr list \<Rightarrow> E_KRType \<Rightarrow> (field_ptr, nat) T_KRHashTable \<Rightarrow> bool" where
  "ht_state db own h lg ty ht \<longleftrightarrow>
     ht_ok (ht_bind db ty ht) \<and>
     (\<forall>k \<in> ht_keys ht. \<exists>r \<in> set lg. hkey db h r = Some k) \<and>
     (\<forall>r \<in> set lg. \<forall>k. hkey db h r = Some k \<longrightarrow> peq db ty k k) \<and>
     (\<forall>x. if bucket db h ty lg x = [] then ht_map (ht_bind db ty ht) x = None
          else \<exists>la. ht_map (ht_bind db ty ht) x = Some (Some la) \<and> rec_list db own h (bucket db h ty lg x) la)"

definition idx_inv :: "'d T_KRDB \<Rightarrow> (nat \<Rightarrow> rec_ptr list) \<Rightarrow> bool" where
  "idx_inv db L \<longleftrightarrow> (\<exists>own. \<forall>h ty ht. db_hts db h = Some (ty, ht) \<longrightarrow> ht_state db own h (L h) ty ht)"

text \<open>What the index operations leave alone.\<close>

definition same_mem :: "'d T_KRDB \<Rightarrow> 'd T_KRDB \<Rightarrow> bool" where
  "same_mem db db' \<longleftrightarrow> db_tables db' = db_tables db \<and> db_table_list db' = db_table_list db \<and>
     db_index_list db' = db_index_list db \<and> db_addr db' = db_addr db \<and> db_name db' = db_name db \<and>
     (\<forall>h. map_option fst (db_hts db' h) = map_option fst (db_hts db h))"

lemma same_mem_refl [simp]: "same_mem db db"
  by (simp add: same_mem_def)

lemma same_mem_trans: "same_mem a b \<Longrightarrow> same_mem b c \<Longrightarrow> same_mem a c"
  by (simp add: same_mem_def)

lemma same_mem_key:
  assumes "db_tables db' = db_tables db" and "db_addr db' = db_addr db"
  shows "get_rec db' = get_rec db" "key_obj db' = key_obj db" "key_hash db' = key_hash db" "peq db' = peq db"
    "idxs db' = idxs db" "hkey db' = hkey db" "bucket db' = bucket db"
    "kr_get_field_value db' = kr_get_field_value db" "kr_get_table_index db' = kr_get_table_index db"
    "ht_bind db' = ht_bind db"
proof -
  show g: "get_rec db' = get_rec db" by (simp add: get_rec_def assms fun_eq_iff)
  show o: "key_obj db' = key_obj db" by (intro ext) (simp only: key_obj_def g)
  have s: "key_seen db' = key_seen db" by (simp add: key_seen_def o assms fun_eq_iff)
  show h: "key_hash db' = key_hash db" by (intro ext) (simp only: key_hash_def s assms)
  have e: "key_equal db' = key_equal db" by (simp add: key_equal_def s fun_eq_iff)
  then show p: "peq db' = peq db" by (simp add: peq_def fun_eq_iff)
  show "ht_bind db' = ht_bind db" by (simp add: ht_bind_def h e fun_eq_iff)
  show i: "idxs db' = idxs db" by (intro ext) (simp only: idxs_def assms)
  show k: "hkey db' = hkey db" by (simp add: hkey_def i fun_eq_iff)
  then have "has_key db' = has_key db" by (intro ext) (simp only: has_key_def p)
  then show "bucket db' = bucket db" by (intro ext) (simp only: bucket_def)
  have "rec_field_def db' = rec_field_def db" by (simp add: rec_field_def_def g assms fun_eq_iff)
  then show "kr_get_field_value db' = kr_get_field_value db" by (simp add: kr_get_field_value_def fun_eq_iff)
  show "kr_get_table_index db' = kr_get_table_index db" by (simp add: kr_get_table_index_def assms fun_eq_iff)
qed

text \<open>A hash table's state survives changes elsewhere.\<close>

lemma ht_state_frame:
  assumes st: "ht_state db own h lg ty ht" and mem: "db_tables db' = db_tables db" "db_addr db' = db_addr db"
    and fresh: "db_fresh db \<le> db_fresh db'"
    and lists: "\<And>la. own la = h \<Longrightarrow> la < db_fresh db \<Longrightarrow> own' la = h \<and> db_lists db' la = db_lists db la"
  shows "ht_state db' own' h lg ty ht"
proof -
  note eqs = same_mem_key [OF mem]
  have "rec_list db own h bs la \<Longrightarrow> rec_list db' own' h bs la" for bs la
    using lists [of la] fresh by (auto simp: rec_list_def)
  with st show ?thesis unfolding ht_state_def eqs by (auto split: if_splits)
qed

text \<open>Records that a hash table does not index may be added to its log or removed from it.\<close>

lemma idx_inv_cong:
  assumes "idx_inv db L" and "\<And>h. db_hts db h \<noteq> None \<Longrightarrow>
    filter (\<lambda>r. hkey db h r \<noteq> None) (L' h) = filter (\<lambda>r. hkey db h r \<noteq> None) (L h)"
  shows "idx_inv db L'"
proof -
  from assms(1) obtain own where st: "\<And>h ty ht. db_hts db h = Some (ty, ht) \<Longrightarrow> ht_state db own h (L h) ty ht"
    unfolding idx_inv_def by blast
  have "ht_state db own h (L' h) ty ht" if "db_hts db h = Some (ty, ht)" for h ty ht
  proof -
    have f: "filter (\<lambda>r. hkey db h r \<noteq> None) (L' h) = filter (\<lambda>r. hkey db h r \<noteq> None) (L h)"
      using assms(2) that by simp
    have "bucket db h ty M x = filter (has_key db h ty x) (filter (\<lambda>r. hkey db h r \<noteq> None) M)" for M x
      by (auto simp: bucket_def has_key_def intro!: filter_cong split: option.splits)
    then have b: "bucket db h ty (L' h) x = bucket db h ty (L h) x" for x using f by metis
    have m: "(r \<in> set (L' h) \<and> hkey db h r = Some k) = (r \<in> set (L h) \<and> hkey db h r = Some k)" for r k
      using arg_cong [OF f, of set] by auto
    show ?thesis using st [OF that] m unfolding ht_state_def b by metis
  qed
  then show ?thesis unfolding idx_inv_def by blast
qed

section \<open>Adding a record\<close>

lemma ht_state_count:
  assumes "ht_state db own h lg ty ht"
  shows "ht_nnodes ht \<le> int (length lg)"
proof -
  from assms have ok: "ht_ok (ht_bind db ty ht)" and keys: "\<forall>k \<in> ht_keys ht. \<exists>r \<in> set lg. hkey db h r = Some k"
    and refl: "\<forall>r \<in> set lg. \<forall>k. hkey db h r = Some k \<longrightarrow> peq db ty k k"
    by (simp_all add: ht_state_def)
  from ok obtain n where n: "nodes_ok (key_hash db ty) (peq db ty) n (ht_nodes ht)" "ht_nnodes ht = int (n_live (ht_nodes ht))"
    by (elim ht_okE) auto
  have "n_live (ht_nodes ht) = card (ht_keys ht)"
    unfolding ht_keys_def
  proof (rule n_live_card_keys)
    show "uniq_keys (peq db ty) (ht_nodes ht)" using n(1) by (simp add: nodes_ok_def)
    show "\<forall>k \<in> node_keys (ht_nodes ht). peq db ty k k" using keys refl by (auto simp: ht_keys_def)
    show "\<forall>nd \<in> set (ht_nodes ht). live_node nd \<longrightarrow> hn_key nd \<noteq> None"
      using n(1) by (fastforce simp: nodes_ok_def in_set_conv_nth)
  qed
  moreover have "card (ht_keys ht) \<le> length lg"
  proof -
    have "ht_keys ht \<subseteq> (\<lambda>r. the (hkey db h r)) ` set lg" using keys by force
    then have "card (ht_keys ht) \<le> card ((\<lambda>r. the (hkey db h r)) ` set lg)" by (simp add: card_mono)
    also have "\<dots> \<le> length lg" by (metis card_image_le card_length List.finite_set le_trans)
    finally show ?thesis .
  qed
  ultimately show ?thesis using n(2) by simp
qed

lemma replace_spec:
  assumes st: "ht_ok (ht_bind db ty ht)" and room: "ht_nnodes ht + 1 < 2 ^ 29"
  shows "\<exists>ht'. kr_hashtable_replace (ht_bind db ty ht) k (Some la) = Some ht' \<and> ht_ok (ht_bind db ty ht') \<and>
    ht_bind db ty ht' = ht' \<and>
    ht_map (ht_bind db ty ht') = (\<lambda>x. if peq db ty k x then Some (Some la) else ht_map (ht_bind db ty ht) x) \<and>
    (\<forall>k' \<in> ht_keys ht'. k' = k \<or> k' \<in> ht_keys ht \<and> \<not> peq db ty k k')"
proof -
  have rm: "ht_room (ht_bind db ty ht)" using room by (simp add: ht_room_def)
  from hash_key.insert_internal_spec [OF bind_hash_key st _ _ rm, where k = k and v = "Some la" and keep = True] obtain ht' where
      ht': "kr_hashtable_replace (ht_bind db ty ht) k (Some la) = Some ht'" "ht_ok ht'" "same_funcs (ht_bind db ty ht) ht'"
      "ht_map ht' = (\<lambda>x. if peq db ty k x then Some (Some la) else ht_map (ht_bind db ty ht) x)"
    by (auto simp: kr_hashtable_replace_def)
  have b: "ht_bind db ty ht' = ht'" using ht'(3) by (simp add: same_funcs_def ht_bind_def)
  with ht' hash_key.replace_keys [OF bind_hash_key st _ _ rm ht'(1)] show ?thesis by auto
qed

lemma lookup_state:
  assumes st: "ht_state db own h lg ty ht"
  shows "kr_hashtable_lookup (Some (ht_bind db ty ht)) x = Some (null_if_absent (ht_map (ht_bind db ty ht) x))"
  using st by (intro hash_key.lookup_correct [OF bind_hash_key]) (simp_all add: ht_state_def)

lemma bucket_snoc:
  "hkey db h r = Some k \<Longrightarrow>
   bucket db h ty (lg @ [r]) x = bucket db h ty lg x @ (if peq db ty k x then [r] else [])"
  by (simp add: bucket_def has_key_def)

text \<open>The list a new record goes to: the one found, or a fresh one.\<close>

lemma rebuild_ins_state:
  assumes st: "ht_state db own h lg ty ht" and hts: "db_hts db h = Some (ty, ht)" and h: "ix_hash ix = h"
    and fv: "kr_get_field_value db r (ix_field ix) = Some k" and hk: "hkey db h r = Some k" and kk: "peq db ty k k"
    and unsorted: "ix_sort ix < 0" and room: "int (length lg) + 1 < 2 ^ 29"
  shows "\<exists>db' own' ht' la. kr_rebuild_index_ins ix r db = Some db' \<and> same_mem db db' \<and>
    db_hts db' = (db_hts db)(h \<mapsto> (ty, ht')) \<and> ht_state db' own' h (lg @ [r]) ty ht' \<and> db_fresh db \<le> db_fresh db' \<and>
    (\<forall>a. a \<noteq> la \<longrightarrow> own' a = own a \<and> db_lists db' a = db_lists db a) \<and> own' la = h \<and>
    (la < db_fresh db \<longrightarrow> own la = h)"
proof -
  let ?b = "bucket db h ty lg k"
  from st have ok: "ht_ok (ht_bind db ty ht)"
    and keys: "\<And>k. k \<in> ht_keys ht \<Longrightarrow> \<exists>r \<in> set lg. hkey db h r = Some k"
    and refl: "\<And>r k. r \<in> set lg \<Longrightarrow> hkey db h r = Some k \<Longrightarrow> peq db ty k k"
    and absent: "\<And>x. bucket db h ty lg x = [] \<Longrightarrow> ht_map (ht_bind db ty ht) x = None"
    and present: "\<And>x. bucket db h ty lg x \<noteq> [] \<Longrightarrow>
        \<exists>la. ht_map (ht_bind db ty ht) x = Some (Some la) \<and> rec_list db own h (bucket db h ty lg x) la"
    by (auto simp: ht_state_def)
  have cnt: "ht_nnodes ht + 1 < 2 ^ 29" using ht_state_count [OF st] room by simp
  obtain la db1 l where pick: "kr_hashtable_lookup (Some (ht_bind db ty ht)) k = Some (if ?b = [] then None else Some la)"
      "db1 = (if ?b = [] then db\<lparr>db_lists := (db_lists db)(la \<mapsto> kr_list_new), db_fresh := db_fresh db + 1\<rparr> else db)"
      "?b = [] \<longrightarrow> la = db_fresh db" "?b \<noteq> [] \<longrightarrow> rec_list db own h ?b la"
      "db_lists db1 la = Some l" "l_ok l" "l_match l = None" "l_seq l = ?b"
  proof (cases "?b = []")
    case True
    with lookup_state [OF st, of k] absent [OF True]
      that [of "db_fresh db" "db\<lparr>db_lists := (db_lists db)(db_fresh db \<mapsto> kr_list_new), db_fresh := db_fresh db + 1\<rparr>" kr_list_new]
    show ?thesis by (simp add: null_if_absent_def) (simp add: kr_list_new_def)
  next
    case False
    with present obtain la where la: "ht_map (ht_bind db ty ht) k = Some (Some la)" "rec_list db own h ?b la" by blast
    moreover from la(2) obtain l where "db_lists db la = Some l" "l_ok l" "l_match l = None" "l_seq l = ?b"
      by (auto simp: rec_list_def)
    ultimately show ?thesis using lookup_state [OF st, of k] False that [of la db l] by (simp add: null_if_absent_def)
  qed
  have mem1: "db_tables db1 = db_tables db" "db_addr db1 = db_addr db" "db_hts db1 = db_hts db" using pick(2) by auto
  note eqs1 = same_mem_key [OF mem1(1,2)]
  have "length ?b \<le> length lg" by (simp add: bucket_def)
  then have "Suc (length (l_seq l)) < 2 ^ 32" using room pick(8) by simp
  from add_tail_seq [OF pick(6) this, of r] pick(7) obtain l' where l': "kr_list_add_tail l r = Some l'" "l_ok l'"
      "l_seq l' = ?b @ [r]" "l_match l' = None"
    by (auto simp: same_conf_def pick(8))
  from replace_spec [OF ok cnt, of k la] obtain ht' where ht': "kr_hashtable_replace (ht_bind db ty ht) k (Some la) = Some ht'"
      "ht_ok (ht_bind db ty ht')"
      "ht_map (ht_bind db ty ht') = (\<lambda>x. if peq db ty k x then Some (Some la) else ht_map (ht_bind db ty ht) x)"
      "\<forall>k' \<in> ht_keys ht'. k' = k \<or> k' \<in> ht_keys ht \<and> \<not> peq db ty k k'"
    by blast
  let ?db' = "put_ht (db1\<lparr>db_lists := (db_lists db1)(la \<mapsto> l')\<rparr>) h ty ht'"
  have call: "kr_rebuild_index_ins ix r db = Some ?db'"
    using fv hts h pick(1,2,3,5) l'(1) ht'(1) unsorted eqs1(10)
    by (auto simp: kr_rebuild_index_ins_def Let_def split: if_splits)
  define own' where "own' = own(la := h)"
  have mem: "db_tables ?db' = db_tables db" "db_addr ?db' = db_addr db" by (simp_all add: put_ht_def mem1)
  note eqs = same_mem_key [OF mem]
  have la_fresh: "la < db_fresh ?db'" using pick(2-4) by (auto simp: put_ht_def rec_list_def)
  have mine: "rec_list ?db' own' h (?b @ [r]) la"
    using l' la_fresh by (simp add: rec_list_def own'_def put_ht_def)
  have other: "rec_list ?db' own' h bs a" if "rec_list db own h bs a" and "bs \<noteq> ?b" for bs a
  proof -
    have "a \<noteq> la"
    proof
      assume e: "a = la"
      show False
      proof (cases "?b = []")
        case True
        with pick(3) that(1) e show False by (simp add: rec_list_def)
      next
        case False
        with pick(4) that e show False by (auto simp: rec_list_def)
      qed
    qed
    then show ?thesis using that(1) pick(2) by (auto simp: rec_list_def own'_def put_ht_def)
  qed
  have "ht_state ?db' own' h (lg @ [r]) ty ht'"
    unfolding ht_state_def eqs
  proof (intro conjI ballI allI impI)
    show "ht_ok (ht_bind db ty ht')" by (rule ht'(2))
    show "\<exists>r' \<in> set (lg @ [r]). hkey db h r' = Some k'" if "k' \<in> ht_keys ht'" for k'
      using ht'(4) that keys [of k'] hk by auto
    show "peq db ty k' k'" if "r' \<in> set (lg @ [r])" "hkey db h r' = Some k'" for r' k'
      using that refl [of r' k'] hk kk by auto
    show "if bucket db h ty (lg @ [r]) x = [] then ht_map (ht_bind db ty ht') x = None
        else \<exists>a. ht_map (ht_bind db ty ht') x = Some (Some a) \<and> rec_list ?db' own' h (bucket db h ty (lg @ [r]) x) a" for x
    proof (cases "peq db ty k x")
      case True
      with bucket_eq [OF True] mine show ?thesis by (simp add: bucket_snoc [OF hk] ht'(3))
    next
      case False
      have "bucket db h ty lg x \<noteq> ?b" if "bucket db h ty lg x \<noteq> []"
      proof
        assume e: "bucket db h ty lg x = ?b"
        from that obtain r1 where "r1 \<in> set (bucket db h ty lg x)" by (cases "bucket db h ty lg x") auto
        with e have "r1 \<in> set (bucket db h ty lg x)" "r1 \<in> set ?b" by simp_all
        with False show False unfolding set_bucket by (metis option.inject peq_sym peq_trans)
      qed
      with False absent [of x] present [of x] other show ?thesis
        by (fastforce simp: bucket_snoc [OF hk] ht'(3))
    qed
  qed
  moreover have "same_mem db ?db'"
    using pick(2) hts by (auto simp: same_mem_def put_ht_def split: if_splits)
  moreover have "db_fresh db \<le> db_fresh ?db'" using pick(2) by (simp add: put_ht_def)
  moreover have "\<forall>a. a \<noteq> la \<longrightarrow> own' a = own a \<and> db_lists ?db' a = db_lists db a"
    using pick(2) by (auto simp: own'_def put_ht_def)
  moreover have "la < db_fresh db \<longrightarrow> own la = h" using pick(3,4) by (auto simp: rec_list_def)
  moreover have "db_hts ?db' = (db_hts db)(h \<mapsto> (ty, ht'))" by (simp add: put_ht_def mem1)
  ultimately show ?thesis using call by (intro exI [of _ ?db'] exI [of _ own'] exI [of _ ht'] exI [of _ la]) (simp add: own'_def)
qed

section \<open>Removing a record\<close>

lemma remove_step_spec:
  assumes ok: "ht_ok (ht_bind db ty ht)" and small: "ht_nnodes ht < 2 ^ 29"
  shows "\<exists>b ht'. ht_remove_step (ht_bind db ty ht) k = Some (b, ht') \<and> ht_ok (ht_bind db ty ht') \<and>
    ht_map (ht_bind db ty ht') = (\<lambda>x. if peq db ty k x then None else ht_map (ht_bind db ty ht) x) \<and>
    (\<forall>k' \<in> ht_keys ht'. k' \<in> ht_keys ht \<and> \<not> peq db ty k k')"
proof -
  have "ht_nnodes (ht_bind db ty ht) < 2 ^ 29" using small by simp
  from hash_key.remove_internal_spec [OF bind_hash_key ok bind_funcs(1,2) this, of k True] obtain b ht' where ht':
      "kr_hashtable_remove_internal (Some (ht_bind db ty ht)) k True = Some (b, Some ht')" "ht_ok ht'"
      "same_funcs (ht_bind db ty ht) ht'"
      "ht_map ht' = (\<lambda>x. if peq db ty k x then None else ht_map (ht_bind db ty ht) x)"
    by auto
  have b: "ht_bind db ty ht' = ht'" using ht'(3) by (simp add: same_funcs_def ht_bind_def)
  have call: "ht_remove_step (ht_bind db ty ht) k = Some (b, ht')"
    using ht'(1) by (simp add: ht_remove_step_def kr_hashtable_remove_def)
  with ht' b hash_key.remove_keys [OF bind_hash_key ok _ _ call] show ?thesis by auto
qed

lemma bucket_filter: "bucket db h ty (filter P lg) x = filter P (bucket db h ty lg x)"
  by (simp add: bucket_def conj_commute)

text \<open>
  The way from another record of the list to its own table's index of the same hash table, which
  \<open>rebuild_index_del\<close> takes to find the new key.
\<close>

definition index_path :: "'d T_KRDB \<Rightarrow> T_KRIndex \<Rightarrow> rec_ptr \<Rightarrow> rec_ptr \<Rightarrow> bool" where
  "index_path db ix r r' \<longleftrightarrow> (\<forall>k'. hkey db (ix_hash ix) r' = Some k' \<longrightarrow>
     (\<exists>rc rc' ix'. get_rec db r = Some rc \<and> get_rec db r' = Some rc' \<and>
        (if rc_table rc \<noteq> rc_table rc'
         then \<exists>t'. rc_table rc' = Some t' \<and> kr_get_table_index db t' (ix_id ix) = Some (Some ix')
         else ix' = ix) \<and>
        ix_hash ix' = ix_hash ix \<and> kr_get_field_value db r' (ix_field ix') = Some k'))"

lemma rebuild_del_state:
  assumes st: "ht_state db own h lg ty ht" and hts: "db_hts db h = Some (ty, ht)" and h: "ix_hash ix = h"
    and fv: "kr_get_field_value db r (ix_field ix) = Some k" and hk: "hkey db h r = Some k" and r: "r \<in> set lg"
    and dist: "distinct lg" and path: "\<And>r'. r' \<in> set lg \<Longrightarrow> index_path db ix r r'"
    and room: "int (length lg) + 1 < 2 ^ 29"
  shows "\<exists>db' ht' la. kr_rebuild_index_del ix r db = Some db' \<and> same_mem db db' \<and>
    db_hts db' = (db_hts db)(h \<mapsto> (ty, ht')) \<and> ht_state db' own h (filter (\<lambda>r'. r' \<noteq> r) lg) ty ht' \<and>
    db_fresh db' = db_fresh db \<and> (\<forall>a. a \<noteq> la \<longrightarrow> db_lists db' a = db_lists db a) \<and> own la = h"
proof -
  let ?b = "bucket db h ty lg" and ?f = "filter (\<lambda>r'. r' \<noteq> r)"
  from st have ok: "ht_ok (ht_bind db ty ht)"
    and keys: "\<And>k. k \<in> ht_keys ht \<Longrightarrow> \<exists>r \<in> set lg. hkey db h r = Some k"
    and refl: "\<And>r k. r \<in> set lg \<Longrightarrow> hkey db h r = Some k \<Longrightarrow> peq db ty k k"
    and absent: "\<And>x. ?b x = [] \<Longrightarrow> ht_map (ht_bind db ty ht) x = None"
    and present: "\<And>x. ?b x \<noteq> [] \<Longrightarrow> \<exists>la. ht_map (ht_bind db ty ht) x = Some (Some la) \<and> rec_list db own h (?b x) la"
    by (auto simp: ht_state_def)
  have cnt: "ht_nnodes ht + 1 < 2 ^ 29" using ht_state_count [OF st] room by simp
  have kk: "peq db ty k k" by (rule refl [OF r hk])
  have rb: "r \<in> set (?b k)" using r hk kk by (auto simp: set_bucket)
  then have ne: "?b k \<noteq> []" by auto
  from present [OF ne] obtain la l where la: "ht_map (ht_bind db ty ht) k = Some (Some la)" "own la = h" "la < db_fresh db"
      "db_lists db la = Some l" "l_ok l" "l_match l = None" "l_seq l = ?b k"
    by (auto simp: rec_list_def)
  have found: "kr_hashtable_lookup (Some (ht_bind db ty ht)) k = Some (Some la)"
    using lookup_state [OF st] la(1) by (simp add: null_if_absent_def)
  have "distinct (?b k)" using dist by (simp add: bucket_def)
  then have rm: "remove_first (\<lambda>v. list_matches l v r) (l_seq l) = ?f (?b k)"
    using la(6,7) remove_first_distinct by (simp add: list_matches_def)
  from list_remove_seq [OF la(5), of r] rm la(6) obtain l' where l': "kr_list_remove l r = Some l'" "l_ok l'"
      "l_match l' = None" "l_seq l' = ?f (?b k)"
    by (auto simp: same_conf_def)
  let ?db1 = "db\<lparr>db_lists := (db_lists db)(la \<mapsto> l')\<rparr>"
  have mem1: "db_tables ?db1 = db_tables db" "db_addr ?db1 = db_addr db" by simp_all
  note eqs1 = same_mem_key [OF mem1]
  \<comment> \<open>A bucket without \<open>r\<close> is not the one that changed.\<close>
  have away: "?f (?b x) = ?b x" "rec_list db own h (?b x) a \<longrightarrow> a \<noteq> la" if "\<not> peq db ty k x" for x a
  proof -
    have nr: "r \<notin> set (?b x)" using that hk by (auto simp: set_bucket)
    then show "?f (?b x) = ?b x" by (auto simp: filter_id_conv)
    show "rec_list db own h (?b x) a \<longrightarrow> a \<noteq> la" using nr rb la(4,7) by (auto simp: rec_list_def)
  qed
  have keep: "\<exists>r'' \<in> set (?f lg). hkey db h r'' = Some k''" if "k'' \<in> ht_keys ht" "\<not> peq db ty k k''" for k''
  proof -
    from keys [OF that(1)] obtain r'' where "r'' \<in> set lg" "hkey db h r'' = Some k''" by blast
    moreover from this that(2) hk kk have "r'' \<noteq> r" by auto
    ultimately show ?thesis by (intro bexI [of _ r'']) simp_all
  qed
  show ?thesis
  proof (cases "?f (?b k) = []")
    case False
    define r' where "r' = last (?f (?b k))"
    have "r' \<in> set (?f (?b k))" unfolding r'_def using False by (rule last_in_set)
    then have r': "r' \<in> set (?b k)" "r' \<noteq> r" by auto
    then obtain k' where k': "r' \<in> set lg" "hkey db h r' = Some k'" "peq db ty k' k" by (auto simp: set_bucket)
    from path [OF k'(1)] k'(2) h obtain rc rc' ix' where p: "get_rec db r = Some rc" "get_rec db r' = Some rc'"
        "if rc_table rc \<noteq> rc_table rc' then \<exists>t'. rc_table rc' = Some t' \<and> kr_get_table_index db t' (ix_id ix) = Some (Some ix')
         else ix' = ix" "ix_hash ix' = h" "kr_get_field_value db r' (ix_field ix') = Some k'"
      unfolding index_path_def by blast
    from list_last_spec [OF l'(2)] l'(4) False obtain a nd where nd: "l_tail l' = Some a" "l_mem l' a = Some nd" "nd_value nd = r'"
      unfolding r'_def by auto
    have len: "l_len l' \<noteq> 0" using list_len_0 [OF l'(2)] l'(4) False by simp
    from replace_spec [OF ok cnt, of k' la] obtain ht' where ht': "kr_hashtable_replace (ht_bind db ty ht) k' (Some la) = Some ht'"
        "ht_ok (ht_bind db ty ht')"
        "ht_map (ht_bind db ty ht') = (\<lambda>x. if peq db ty k' x then Some (Some la) else ht_map (ht_bind db ty ht) x)"
        "\<forall>k'' \<in> ht_keys ht'. k'' = k' \<or> k'' \<in> ht_keys ht \<and> \<not> peq db ty k' k''"
      by blast
    let ?db' = "put_ht ?db1 h ty ht'"
    have call: "kr_rebuild_index_del ix r db = Some ?db'"
      using fv hts h found la(4) l'(1) len nd p ht'(1)
      by (auto simp: kr_rebuild_index_del_def Let_def eqs1 split: if_splits)
    have mem: "db_tables ?db' = db_tables db" "db_addr ?db' = db_addr db" by (simp_all add: put_ht_def)
    note eqs = same_mem_key [OF mem]
    have rel: "peq db ty k' x = peq db ty k x" for x by (rule peq_left [OF k'(3)])
    have "ht_state ?db' own h (?f lg) ty ht'"
      unfolding ht_state_def eqs
    proof (intro conjI ballI allI impI)
      show "ht_ok (ht_bind db ty ht')" by (rule ht'(2))
      show "\<exists>r'' \<in> set (?f lg). hkey db h r'' = Some k''" if "k'' \<in> ht_keys ht'" for k''
      proof (cases "k'' = k'")
        case True
        with k'(1,2) r'(2) show ?thesis by (intro bexI [of _ r']) simp_all
      next
        case False
        with ht'(4) that have "k'' \<in> ht_keys ht" "\<not> peq db ty k k''" using rel by auto
        then show ?thesis by (rule keep)
      qed
      show "peq db ty k'' k''" if "r'' \<in> set (?f lg)" "hkey db h r'' = Some k''" for r'' k''
        using that refl [of r'' k''] by auto
      show "if bucket db h ty (?f lg) x = [] then ht_map (ht_bind db ty ht') x = None
        else \<exists>a. ht_map (ht_bind db ty ht') x = Some (Some a) \<and> rec_list ?db' own h (bucket db h ty (?f lg) x) a" for x
      proof (cases "peq db ty k x")
        case True
        have "rec_list ?db' own h (?f (?b k)) la" using l' la(2,3) by (simp add: rec_list_def put_ht_def)
        with True rel bucket_eq [OF True, of h lg] False show ?thesis by (simp add: bucket_filter ht'(3))
      next
        case nx: False
        have "rec_list ?db' own h (?b x) a" if "rec_list db own h (?b x) a" for a
          using that away(2) [OF nx] by (auto simp: rec_list_def put_ht_def)
        with nx rel away(1) [OF nx] absent [of x] present [of x] show ?thesis by (auto simp: bucket_filter ht'(3))
      qed
    qed
    moreover have "same_mem db ?db'" using hts by (auto simp: same_mem_def put_ht_def)
    ultimately show ?thesis
      using call la(2) by (intro exI [of _ ?db'] exI [of _ ht'] exI [of _ la]) (simp add: put_ht_def)
  next
    case True
    have len: "l_len l' = 0" using list_len_0 [OF l'(2)] l'(4) True by simp
    obtain d where d: "kr_list_destroy l' = Some d" using list_destroy_ok [OF l'(2)] by blast
    let ?db2 = "?db1\<lparr>db_lists := (db_lists ?db1)(la := None)\<rparr>"
    have eqs2: "ht_bind (db\<lparr>db_lists := (db_lists db)(la := None)\<rparr>) = ht_bind db"
      by (rule same_mem_key) simp_all
    have "ht_nnodes ht < 2 ^ 29" using cnt by simp
    from remove_step_spec [OF ok this, of k] obtain b ht' where ht': "ht_remove_step (ht_bind db ty ht) k = Some (b, ht')"
        "ht_ok (ht_bind db ty ht')"
        "ht_map (ht_bind db ty ht') = (\<lambda>x. if peq db ty k x then None else ht_map (ht_bind db ty ht) x)"
        "\<forall>k' \<in> ht_keys ht'. k' \<in> ht_keys ht \<and> \<not> peq db ty k k'"
      by blast
    let ?db' = "put_ht ?db2 h ty ht'"
    have call: "kr_rebuild_index_del ix r db = Some ?db'"
      using fv hts h found la(4) l'(1) len d ht'(1)
      by (simp add: kr_rebuild_index_del_def Let_def eqs2)
    have mem: "db_tables ?db' = db_tables db" "db_addr ?db' = db_addr db" by (simp_all add: put_ht_def)
    note eqs = same_mem_key [OF mem]
    have "ht_state ?db' own h (?f lg) ty ht'"
      unfolding ht_state_def eqs
    proof (intro conjI ballI allI impI)
      show "ht_ok (ht_bind db ty ht')" by (rule ht'(2))
      show "\<exists>r'' \<in> set (?f lg). hkey db h r'' = Some k''" if "k'' \<in> ht_keys ht'" for k''
        using ht'(4) that keep [of k''] by auto
      show "peq db ty k'' k''" if "r'' \<in> set (?f lg)" "hkey db h r'' = Some k''" for r'' k''
        using that refl [of r'' k''] by auto
      show "if bucket db h ty (?f lg) x = [] then ht_map (ht_bind db ty ht') x = None
        else \<exists>a. ht_map (ht_bind db ty ht') x = Some (Some a) \<and> rec_list ?db' own h (bucket db h ty (?f lg) x) a" for x
      proof (cases "peq db ty k x")
        case px: True
        with bucket_eq [OF px, of h lg] True show ?thesis by (simp add: bucket_filter ht'(3))
      next
        case nx: False
        have "rec_list ?db' own h (?b x) a" if "rec_list db own h (?b x) a" for a
          using that away(2) [OF nx] by (auto simp: rec_list_def put_ht_def)
        with nx away(1) [OF nx] absent [of x] present [of x] show ?thesis by (auto simp: bucket_filter ht'(3))
      qed
    qed
    moreover have "same_mem db ?db'" using hts by (auto simp: same_mem_def put_ht_def)
    ultimately show ?thesis
      using call la(2) by (intro exI [of _ ?db'] exI [of _ ht'] exI [of _ la]) (simp add: put_ht_def)
  qed
qed

section \<open>All indexes of a table\<close>

lemma step_inv:
  assumes inv: "\<And>h ty ht. db_hts db h = Some (ty, ht) \<Longrightarrow> ht_state db own h (L h) ty ht"
    and mem: "same_mem db db'" and hts: "db_hts db' = (db_hts db)(h \<mapsto> (ty, ht'))"
    and st': "ht_state db' own' h lg' ty ht'" and fresh: "db_fresh db \<le> db_fresh db'"
    and others: "\<And>a. a \<noteq> la \<Longrightarrow> own' a = own a \<and> db_lists db' a = db_lists db a"
    and mine: "la < db_fresh db \<Longrightarrow> own la = h"
  shows "idx_inv db' (L(h := lg'))"
  unfolding idx_inv_def
proof (intro exI [of _ own'] allI impI)
  fix h1 ty1 ht1 assume h1: "db_hts db' h1 = Some (ty1, ht1)"
  show "ht_state db' own' h1 ((L(h := lg')) h1) ty1 ht1"
  proof (cases "h1 = h")
    case True
    with h1 hts st' show ?thesis by simp
  next
    case False
    with h1 hts have "db_hts db h1 = Some (ty1, ht1)" by simp
    from inv [OF this] have "ht_state db own h1 (L h1) ty1 ht1" .
    moreover have "own' a = h1 \<and> db_lists db' a = db_lists db a" if "own a = h1" "a < db_fresh db" for a
      using others [of a] mine that False by (cases "a = la") auto
    ultimately have "ht_state db' own' h1 (L h1) ty1 ht1"
      using ht_state_frame [of db own h1 "L h1" ty1 ht1 db' own'] mem fresh by (simp add: same_mem_def)
    with False show ?thesis by simp
  qed
qed

text \<open>What an index operation on a record needs to know of the index and the record.\<close>

definition index_ready :: "'d T_KRDB \<Rightarrow> rec_ptr \<Rightarrow> T_KRIndex \<Rightarrow> bool" where
  "index_ready db r ix \<longleftrightarrow> ix_sort ix < 0 \<and>
     (\<exists>ty k. map_option fst (db_hts db (ix_hash ix)) = Some ty \<and> kr_get_field_value db r (ix_field ix) = Some k \<and>
        hkey db (ix_hash ix) r = Some k \<and> peq db ty k k)"

lemma index_ready_mem: "same_mem db db' \<Longrightarrow> index_ready db' r ix = index_ready db r ix"
  using same_mem_key [of db' db] by (simp add: index_ready_def same_mem_def)

lemma index_path_mem: "same_mem db db' \<Longrightarrow> index_path db' ix r r' = index_path db ix r r'"
  using same_mem_key [of db' db] by (simp add: index_path_def same_mem_def)

lemma rebuild_ins_inv:
  assumes inv: "idx_inv db L" and ready: "index_ready db r ix" and room: "int (length (L (ix_hash ix))) + 1 < 2 ^ 29"
  shows "\<exists>db'. kr_rebuild_index_ins ix r db = Some db' \<and> same_mem db db' \<and>
    idx_inv db' (L(ix_hash ix := L (ix_hash ix) @ [r]))"
proof -
  from inv obtain own where own: "\<And>h ty ht. db_hts db h = Some (ty, ht) \<Longrightarrow> ht_state db own h (L h) ty ht"
    unfolding idx_inv_def by blast
  from ready obtain ty ht k where x: "db_hts db (ix_hash ix) = Some (ty, ht)" "ix_sort ix < 0"
      "kr_get_field_value db r (ix_field ix) = Some k" "hkey db (ix_hash ix) r = Some k" "peq db ty k k"
    by (auto simp: index_ready_def)
  from rebuild_ins_state [OF own [OF x(1)] x(1) refl x(3,4,5,2) room] obtain db' own' ht' la where
      d: "kr_rebuild_index_ins ix r db = Some db'" "same_mem db db'" "db_hts db' = (db_hts db)(ix_hash ix \<mapsto> (ty, ht'))"
      "ht_state db' own' (ix_hash ix) (L (ix_hash ix) @ [r]) ty ht'" "db_fresh db \<le> db_fresh db'"
      "\<forall>a. a \<noteq> la \<longrightarrow> own' a = own a \<and> db_lists db' a = db_lists db a" "la < db_fresh db \<longrightarrow> own la = ix_hash ix"
    by blast
  with step_inv [OF own d(2,3,4,5)] show ?thesis by blast
qed

lemma rebuild_del_inv:
  assumes inv: "idx_inv db L" and ready: "index_ready db r ix" and lg: "L (ix_hash ix) = lg" "r \<in> set lg" "distinct lg"
    and path: "\<And>r'. r' \<in> set lg \<Longrightarrow> index_path db ix r r'" and room: "int (length lg) + 1 < 2 ^ 29"
  shows "\<exists>db'. kr_rebuild_index_del ix r db = Some db' \<and> same_mem db db' \<and>
    idx_inv db' (L(ix_hash ix := filter (\<lambda>r'. r' \<noteq> r) lg))"
proof -
  from inv obtain own where own: "\<And>h ty ht. db_hts db h = Some (ty, ht) \<Longrightarrow> ht_state db own h (L h) ty ht"
    unfolding idx_inv_def by blast
  from ready obtain ty ht k where x: "db_hts db (ix_hash ix) = Some (ty, ht)" "kr_get_field_value db r (ix_field ix) = Some k"
      "hkey db (ix_hash ix) r = Some k"
    by (auto simp: index_ready_def)
  have st: "ht_state db own (ix_hash ix) lg ty ht" using own [OF x(1)] lg(1) by simp
  from rebuild_del_state [OF st x(1) refl x(2,3) lg(2,3) path room] obtain db' ht' la where
      d: "kr_rebuild_index_del ix r db = Some db'" "same_mem db db'" "db_hts db' = (db_hts db)(ix_hash ix \<mapsto> (ty, ht'))"
      "ht_state db' own (ix_hash ix) (filter (\<lambda>r'. r' \<noteq> r) lg) ty ht'" "db_fresh db' = db_fresh db"
      "\<forall>a. a \<noteq> la \<longrightarrow> db_lists db' a = db_lists db a" "own la = ix_hash ix"
    by blast
  with step_inv [OF own d(2,3,4), of la] show ?thesis by auto
qed

lemma foreach_index_spec:
  assumes "db_tables db t = Some tb" and "l_ok (tb_indexes tb)" and "l_seq (tb_indexes tb) = map Ix ixs"
  shows "foreach_index f t r db = fold (\<lambda>ix acc. Option.bind acc (f ix r)) ixs (Some db)"
  using assms(1,3)
  by (simp add: foreach_index_def list_foreach_spec [OF assms(2)] fold_map comp_def index_of_ref_def)

lemma foreach_inv:
  assumes "\<And>d L ix. ix \<in> set ixs \<Longrightarrow> same_mem db d \<Longrightarrow> idx_inv d L \<Longrightarrow> L (ix_hash ix) = lg \<Longrightarrow>
      \<exists>d'. f ix r d = Some d' \<and> same_mem d d' \<and> idx_inv d' (L(ix_hash ix := lg'))"
    and "distinct (map ix_hash ixs)" and "idx_inv db (\<lambda>_. lg)"
  shows "\<exists>db'. fold (\<lambda>ix acc. Option.bind acc (f ix r)) ixs (Some db) = Some db' \<and> same_mem db db' \<and>
    idx_inv db' (\<lambda>h. if h \<in> ix_hash ` set ixs then lg' else lg)"
  using assms
proof (induction ixs rule: rev_induct)
  case Nil
  then show ?case by auto
next
  case (snoc ix ixs)
  have "\<exists>db'. fold (\<lambda>ix acc. Option.bind acc (f ix r)) ixs (Some db) = Some db' \<and> same_mem db db' \<and>
      idx_inv db' (\<lambda>h. if h \<in> ix_hash ` set ixs then lg' else lg)"
    by (rule snoc.IH) (use snoc.prems in auto)
  then obtain d where d: "fold (\<lambda>ix acc. Option.bind acc (f ix r)) ixs (Some db) = Some d" "same_mem db d"
      "idx_inv d (\<lambda>h. if h \<in> ix_hash ` set ixs then lg' else lg)"
    by blast
  let ?L = "\<lambda>h. if h \<in> ix_hash ` set ixs then lg' else lg"
  have "?L (ix_hash ix) = lg" using snoc.prems(2) by auto
  then have "\<exists>d'. f ix r d = Some d' \<and> same_mem d d' \<and> idx_inv d' (?L(ix_hash ix := lg'))"
    by (intro snoc.prems(1) [OF _ d(2,3)]) simp_all
  then obtain d' where d': "f ix r d = Some d'" "same_mem d d'" "idx_inv d' (?L(ix_hash ix := lg'))" by blast
  have "?L(ix_hash ix := lg') = (\<lambda>h. if h \<in> ix_hash ` set (ixs @ [ix]) then lg' else lg)" by auto
  with d d' same_mem_trans [OF d(2) d'(2)] show ?case by simp
qed
end
