(* ===== verification/KR_DB_Inv.thy ===== *)
theory KR_DB_Inv
  imports KR_DB_Index
begin

text \<open>
  The invariant of the whole database with respect to a log of the stored records, and the proof that
  \<open>kr_db_insert\<close> keeps it: the evicted record leaves every index, the new one enters every index, and
  each table holds its most recent records.
\<close>

section \<open>Frames\<close>

lemma key_frame:
  assumes "get_rec db' = get_rec db" and "db_addr db' = db_addr db" and "idxs db' = idxs db"
  shows "key_obj db' = key_obj db" "key_hash db' = key_hash db" "peq db' = peq db" "hkey db' = hkey db"
    "bucket db' = bucket db" "ht_bind db' = ht_bind db"
proof -
  show o: "key_obj db' = key_obj db" by (intro ext) (simp only: key_obj_def assms)
  have s: "key_seen db' = key_seen db" by (intro ext) (simp only: key_seen_def o assms)
  show h: "key_hash db' = key_hash db" by (intro ext) (simp only: key_hash_def s assms)
  have e: "key_equal db' = key_equal db" by (intro ext) (simp only: key_equal_def s)
  then show p: "peq db' = peq db" by (intro ext) (simp only: peq_def)
  show "ht_bind db' = ht_bind db" by (intro ext) (simp only: ht_bind_def h e)
  show k: "hkey db' = hkey db" by (intro ext) (simp only: hkey_def assms)
  have "has_key db' = has_key db" by (intro ext) (simp only: has_key_def p k)
  then show "bucket db' = bucket db" by (intro ext) (simp only: bucket_def)
qed

lemma idx_inv_frame:
  assumes "idx_inv db L" and "get_rec db' = get_rec db" "db_addr db' = db_addr db" "idxs db' = idxs db"
    and "db_hts db' = db_hts db" "db_lists db' = db_lists db" "db_fresh db' = db_fresh db"
  shows "idx_inv db' L"
proof -
  have r: "rec_list db' = rec_list db" by (intro ext) (simp only: rec_list_def assms)
  have "ht_state db' = ht_state db" by (intro ext) (simp only: ht_state_def key_frame [OF assms(2-4)] r)
  with assms(1,5) show ?thesis by (simp add: idx_inv_def)
qed

text \<open>Writing a table's counters.\<close>

lemma table_frame:
  assumes "db_tables db t = Some tb" and "tb_buff tb' = tb_buff tb" and "tb_indexes tb' = tb_indexes tb"
    and "db_tables db' = (db_tables db)(t \<mapsto> tb')"
  shows "get_rec db' = get_rec db" and "idxs db' = idxs db"
proof -
  show "get_rec db' = get_rec db"
    using assms by (intro ext) (auto simp: get_rec_def)
  show "idxs db' = idxs db"
    using assms by (intro ext) (auto simp: idxs_def)
qed

text \<open>Writing a record slot that no index refers to.\<close>

lemma put_rec_frame:
  assumes "put_rec db r rc = Some db'"
  shows "idxs db' = idxs db" "r' \<noteq> r \<Longrightarrow> get_rec db' r' = get_rec db r'" "get_rec db' r = Some rc"
    "db_addr db' = db_addr db" "db_hts db' = db_hts db" "db_lists db' = db_lists db" "db_fresh db' = db_fresh db"
    "db_table_list db' = db_table_list db"
proof -
  from assms obtain tb where tb: "db_tables db (fst r) = Some tb" "snd r < length (tb_buff tb)"
      "db' = db\<lparr>db_tables := (db_tables db)(fst r \<mapsto> tb\<lparr>tb_buff := (tb_buff tb)[snd r := rc]\<rparr>)\<rparr>"
    by (auto simp: put_rec_def partial_Some)
  show "idxs db' = idxs db" using tb by (intro ext) (auto simp: idxs_def)
  show "get_rec db' r = Some rc" using tb by (simp add: get_rec_def)
  show "get_rec db' r' = get_rec db r'" if "r' \<noteq> r"
    using tb that by (cases r; cases r') (auto simp: get_rec_def nth_opt_def)
qed (use assms in \<open>auto simp: put_rec_def partial_Some\<close>)

lemma idx_inv_put:
  assumes put: "put_rec db r rc = Some db'" and inv: "idx_inv db L" and away: "\<And>h. r \<notin> set (L h)"
  shows "idx_inv db' L"
proof -
  note fr = put_rec_frame [OF put]
  have hk: "hkey db' = hkey db" by (intro ext) (simp only: hkey_def fr(1))
  from inv obtain own where own: "\<And>h ty ht. db_hts db h = Some (ty, ht) \<Longrightarrow> ht_state db own h (L h) ty ht"
    unfolding idx_inv_def by blast
  have rl: "rec_list db' = rec_list db" by (intro ext) (simp only: rec_list_def fr)
  have "ht_state db' own h (L h) ty ht" if "db_hts db' h = Some (ty, ht)" for h ty ht
  proof -
    from own that fr(5) have st: "ht_state db own h (L h) ty ht" by simp
    have stored: "key_seen db' ty k = key_seen db ty k" if "r' \<in> set (L h)" "hkey db h r' = Some k" for r' k
    proof -
      from that(1) away [of h] have "r' \<noteq> r" by auto
      moreover from that(2) obtain f where "k = FieldPtr r' f" by (auto simp: hkey_def)
      ultimately show ?thesis using fr(2,4) by (simp add: key_seen_def key_obj_def)
    qed
    define y where "y = (\<lambda>x. if kr_get_equal_func ty = None \<or> ty = KR_TYPE_POINTER then x else ObjPtr (key_obj db' x))"
    have pe: "peq db' ty k x = peq db ty k (y x)" if "key_seen db' ty k = key_seen db ty k" for k x
      using that fr(4) by (auto simp: peq_def key_equal_def y_def key_seen_def key_obj_def split: option.splits)
    have pk: "peq db' ty k k' = peq db ty k k'" if "key_seen db' ty k = key_seen db ty k" "key_seen db' ty k' = key_seen db ty k'" for k k'
      using that by (auto simp: peq_def key_equal_def split: option.splits)
    have bk: "bucket db' h ty (L h) x = bucket db h ty (L h) (y x)" for x
      unfolding bucket_def has_key_def hk
      by (intro filter_cong refl) (auto simp: pe stored split: option.splits)
    have keys: "key_seen db' ty k = key_seen db ty k" if "k \<in> ht_keys ht" for k
      using st that stored unfolding ht_state_def by blast
    have "ht_bind db' ty ht = (ht_bind db ty ht)\<lparr>ht_hash_func := key_hash db' ty, ht_key_equal_func := key_equal db' ty\<rparr>"
      by (simp add: ht_bind_def)
    moreover have "ht_ok \<dots>"
    proof (rule ht_ok_rebind)
      show "ht_ok (ht_bind db ty ht)" using st by (simp add: ht_state_def)
      show "key_hash db' ty k = ht_hash_func (ht_bind db ty ht) k" if "k \<in> ht_keys (ht_bind db ty ht)" for k
        using keys [of k] that fr(4) by (auto simp: key_hash_def split: option.splits)
      show "(case key_equal db' ty of Some f \<Rightarrow> f | None \<Rightarrow> (=)) k k' = keq (ht_bind db ty ht) k k'"
        if "k \<in> ht_keys (ht_bind db ty ht)" "k' \<in> ht_keys (ht_bind db ty ht)" for k k'
        using pk keys that by (simp add: peq_def [symmetric])
    qed
    ultimately have ok: "ht_ok (ht_bind db' ty ht)" by simp
    have map_y: "ht_map (ht_bind db' ty ht) x = ht_map (ht_bind db ty ht) (y x)" for x
      unfolding ht_map_def bind_funcs by (rule nodes_map_cong) (use pe keys in \<open>auto simp: ht_keys_def\<close>)
    have refl: "\<forall>r' \<in> set (L h). \<forall>k. hkey db h r' = Some k \<longrightarrow> peq db' ty k k"
      using st stored pk unfolding ht_state_def by metis
    show ?thesis
      unfolding ht_state_def bk map_y rl hk using ok refl st unfolding ht_state_def by blast
  qed
  then show ?thesis unfolding idx_inv_def by blast
qed

section \<open>The invariant\<close>

definition index_ok :: "'d T_KRDB \<Rightarrow> 'd T_KRTable \<Rightarrow> T_KRIndex \<Rightarrow> bool" where
  "index_ok db tb ix \<longleftrightarrow> 0 \<le> ix_field ix \<and> nat (ix_field ix) < length (tb_fields tb) \<and> ix_sort ix < 0 \<and>
     map_option fst (db_hts db (ix_hash ix)) = Some (fd_type (tb_fields tb ! nat (ix_field ix)))"

text \<open>The slots of a circular buffer of size \<open>N\<close> in the order they were written.\<close>

definition ring :: "nat \<Rightarrow> nat \<Rightarrow> nat \<Rightarrow> nat list" where
  "ring N n l = (if n < N then [0..<n] else [l..<N] @ [0..<l])"

definition of_table :: "nat \<Rightarrow> rec_ptr list \<Rightarrow> rec_ptr list" where
  "of_table t lg = filter (\<lambda>r. fst r = t) lg"

definition ring_ok :: "rec_ptr list \<Rightarrow> nat \<Rightarrow> 'd T_KRTable \<Rightarrow> bool" where
  "ring_ok lg t tb \<longleftrightarrow>
     (let N = length (tb_buff tb); n = unat (tb_num tb); l = unat (tb_loc tb)
      in map snd (of_table t lg) = ring N n l \<and> n \<le> N \<and> l < N \<and> (n < N \<longrightarrow> l = n))"

definition indexes_ok :: "'d T_KRDB \<Rightarrow> nat \<Rightarrow> 'd T_KRTable \<Rightarrow> bool" where
  "indexes_ok db t tb \<longleftrightarrow> l_ok (tb_indexes tb) \<and> l_match (tb_indexes tb) = Some kr_indexid_match \<and>
     l_seq (tb_indexes tb) = map Ix (idxs db t) \<and> distinct (map ix_id (idxs db t)) \<and>
     distinct (map ix_hash (idxs db t)) \<and> (\<forall>ix \<in> set (idxs db t). index_ok db tb ix)"

definition slots_ok :: "rec_ptr list \<Rightarrow> nat \<Rightarrow> 'd T_KRTable \<Rightarrow> bool" where
  "slots_ok lg t tb \<longleftrightarrow> (\<forall>s < length (tb_buff tb).
     rc_table (tb_buff tb ! s) = (if (t, s) \<in> set lg then Some t else None) \<and>
     length (rc_fields (tb_buff tb ! s)) = length (tb_fields tb))"

definition tb_ok :: "'d T_KRDB \<Rightarrow> rec_ptr list \<Rightarrow> nat \<Rightarrow> 'd T_KRTable \<Rightarrow> bool" where
  "tb_ok db lg t tb \<longleftrightarrow> indexes_ok db t tb \<and> slots_ok lg t tb \<and> ring_ok lg t tb \<and>
     tb_keep_value tb = int (length (tb_buff tb)) \<and> tb_field_cnt tb = int (length (tb_fields tb)) \<and>
     0 \<le> tb_record_size tb \<and> tb_record_size tb * int (length (tb_buff tb)) < 2 ^ 32"

definition slots :: "'d T_KRDB \<Rightarrow> rec_ptr set" where
  "slots db = {(t, s). \<exists>tb. db_tables db t = Some tb \<and> s < length (tb_buff tb)}"

text \<open>Two indexes on the same hash table, of any tables, have the same number.\<close>

definition shared_ok :: "'d T_KRDB \<Rightarrow> bool" where
  "shared_ok db \<longleftrightarrow> (\<forall>t t'. \<forall>ix \<in> set (idxs db t). \<forall>ix' \<in> set (idxs db t').
     ix_hash ix = ix_hash ix' \<longrightarrow> ix_id ix = ix_id ix')"

definition table_list_ok :: "'d T_KRDB \<Rightarrow> bool" where
  "table_list_ok db \<longleftrightarrow> l_ok (db_table_list db) \<and> l_match (db_table_list db) = Some kr_tableid_match \<and>
     (\<forall>v \<in> set (l_seq (db_table_list db)). \<exists>t tb. db_tables db t = Some tb \<and> v = Tb t (tb_id tb))"

definition db_ok :: "'d T_KRDB \<Rightarrow> rec_ptr list \<Rightarrow> bool" where
  "db_ok db lg \<longleftrightarrow> table_list_ok db \<and> shared_ok db \<and> finite (slots db) \<and> card (slots db) + 1 < 2 ^ 29 \<and>
     distinct lg \<and> set lg \<subseteq> slots db \<and> idx_inv db (\<lambda>_. lg) \<and>
     (\<forall>t tb. db_tables db t = Some tb \<longrightarrow> tb_ok db lg t tb)"

lemma db_okD:
  assumes "db_ok db lg"
  shows "table_list_ok db" "shared_ok db" "finite (slots db)" "card (slots db) + 1 < 2 ^ 29" "distinct lg"
    "set lg \<subseteq> slots db" "idx_inv db (\<lambda>_. lg)" "\<And>t tb. db_tables db t = Some tb \<Longrightarrow> tb_ok db lg t tb"
  using assms by (auto simp: db_ok_def)

lemma tb_okD:
  assumes "tb_ok db lg t tb"
  shows "indexes_ok db t tb" "slots_ok lg t tb" "ring_ok lg t tb" "tb_keep_value tb = int (length (tb_buff tb))"
    "tb_field_cnt tb = int (length (tb_fields tb))" "0 \<le> tb_record_size tb"
    "tb_record_size tb * int (length (tb_buff tb)) < 2 ^ 32"
  using assms by (auto simp: tb_ok_def)

lemma db_ok_length: "db_ok db lg \<Longrightarrow> int (length lg) + 1 < 2 ^ 29"
proof -
  assume ok: "db_ok db lg"
  have "length lg = card (set lg)" using db_okD(5) [OF ok] by (simp add: distinct_card)
  also have "\<dots> \<le> card (slots db)" by (rule card_mono [OF db_okD(3,6) [OF ok]])
  finally show ?thesis using db_okD(4) [OF ok] by simp
qed

section \<open>Stored records\<close>

lemma find_by_key: "distinct (map f xs) \<Longrightarrow> x \<in> set xs \<Longrightarrow> find (\<lambda>y. f y = f x) xs = Some x"
  by (induction xs) auto

lemma logged:
  assumes ok: "db_ok db lg" and r: "r \<in> set lg"
  obtains tb rc where "db_tables db (fst r) = Some tb" "tb_ok db lg (fst r) tb" "get_rec db r = Some rc"
    "rc_table rc = Some (fst r)" "length (rc_fields rc) = length (tb_fields tb)" "snd r < length (tb_buff tb)"
proof -
  from db_okD(6) [OF ok] r obtain tb where tb: "db_tables db (fst r) = Some tb" "snd r < length (tb_buff tb)"
    by (cases r) (auto simp: slots_def)
  from db_okD(8) [OF ok tb(1)] have tok: "tb_ok db lg (fst r) tb" .
  have "rc_table (tb_buff tb ! snd r) = Some (fst r)" "length (rc_fields (tb_buff tb ! snd r)) = length (tb_fields tb)"
    using tb_okD(2) [OF tok] tb(2) r by (auto simp: slots_ok_def)
  with tb tok that [of tb "tb_buff tb ! snd r"] show thesis by (simp add: get_rec_def)
qed

lemma index_hkey:
  assumes "indexes_ok db (fst r) tb" and "ix \<in> set (idxs db (fst r))"
  shows "hkey db (ix_hash ix) r = Some (FieldPtr r (nat (ix_field ix)))"
  using assms find_by_key [of ix_hash "idxs db (fst r)" ix] by (simp add: hkey_def indexes_ok_def)

lemma index_field_value:
  assumes "get_rec db r = Some rc" and "rc_table rc = Some t" and "db_tables db t = Some tb" and "index_ok db tb ix"
  shows "kr_get_field_value db r (ix_field ix) = Some (FieldPtr r (nat (ix_field ix)))"
  using assms by (simp add: kr_get_field_value_def rec_field_def_def index_ok_def)

lemma get_table_index_spec:
  assumes "db_tables db t = Some tb" and "indexes_ok db t tb"
  shows "kr_get_table_index db t i = Some (find (\<lambda>ix. ix_id ix = i) (idxs db t))"
proof -
  have "find (\<lambda>v. list_matches (tb_indexes tb) v (IxId i)) (map Ix ixs) = map_option Ix (find (\<lambda>ix. ix_id ix = i) ixs)" for ixs
    using assms(2) by (induction ixs) (simp_all add: list_matches_def indexes_ok_def kr_indexid_match_def)
  then show ?thesis
    using assms list_find_spec [of "tb_indexes tb" "IxId i"]
    by (cases "find (\<lambda>ix. ix_id ix = i) (idxs db t)") (simp_all add: kr_get_table_index_def indexes_ok_def index_of_ref_def)
qed

lemma log_ready:
  assumes ok: "db_ok db lg" and r: "r \<in> set lg" and ix: "ix \<in> set (idxs db (fst r))"
  shows "index_ready db r ix"
proof -
  from ok r obtain tb rc where x: "db_tables db (fst r) = Some tb" "tb_ok db lg (fst r) tb" "get_rec db r = Some rc"
      "rc_table rc = Some (fst r)"
    by (rule logged)
  have iok: "indexes_ok db (fst r) tb" by (rule tb_okD(1) [OF x(2)])
  then have i: "index_ok db tb ix" using ix by (simp add: indexes_ok_def)
  note hk = index_hkey [OF iok ix]
  from i obtain ty ht where h: "db_hts db (ix_hash ix) = Some (ty, ht)" by (auto simp: index_ok_def)
  from db_okD(7) [OF ok] h obtain own where "ht_state db own (ix_hash ix) lg ty ht" unfolding idx_inv_def by blast
  then have "peq db ty (FieldPtr r (nat (ix_field ix))) (FieldPtr r (nat (ix_field ix)))"
    using r hk by (auto simp: ht_state_def)
  with h hk i index_field_value [OF x(3,4,1) i] show ?thesis by (auto simp: index_ready_def index_ok_def)
qed

lemma log_path:
  assumes ok: "db_ok db lg" and r: "r \<in> set lg" and r': "r' \<in> set lg" and ix: "ix \<in> set (idxs db (fst r))"
  shows "index_path db ix r r'"
  unfolding index_path_def
proof (intro allI impI)
  fix k' assume k': "hkey db (ix_hash ix) r' = Some k'"
  from ok r obtain tb rc where x: "db_tables db (fst r) = Some tb" "tb_ok db lg (fst r) tb" "get_rec db r = Some rc"
      "rc_table rc = Some (fst r)"
    by (rule logged)
  from ok r' obtain tb' rc' where y: "db_tables db (fst r') = Some tb'" "tb_ok db lg (fst r') tb'" "get_rec db r' = Some rc'"
      "rc_table rc' = Some (fst r')"
    by (rule logged)
  have iok: "indexes_ok db (fst r') tb'" by (rule tb_okD(1) [OF y(2)])
  from k' obtain ix' where ix': "find (\<lambda>i. ix_hash i = ix_hash ix) (idxs db (fst r')) = Some ix'"
      "k' = FieldPtr r' (nat (ix_field ix'))"
    by (auto simp: hkey_def)
  then have mem: "ix' \<in> set (idxs db (fst r'))" "ix_hash ix' = ix_hash ix" by (auto simp: find_Some_iff)
  have fv: "kr_get_field_value db r' (ix_field ix') = Some k'"
    using index_field_value [OF y(3,4,1)] iok mem(1) ix'(2) by (auto simp: indexes_ok_def)
  have id: "ix_id ix' = ix_id ix" using db_okD(2) [OF ok] ix mem unfolding shared_ok_def by metis
  have "kr_get_table_index db (fst r') (ix_id ix) = Some (Some ix')"
    using get_table_index_spec [OF y(1) iok] find_by_key [of ix_id "idxs db (fst r')" ix'] iok mem(1) id
    by (simp add: indexes_ok_def)
  moreover have "ix' = ix" if "fst r' = fst r"
    using find_by_key [of ix_hash "idxs db (fst r)" ix] ix ix'(1) iok that by (simp add: indexes_ok_def)
  ultimately show "\<exists>rc rc' ix'. get_rec db r = Some rc \<and> get_rec db r' = Some rc' \<and>
      (if rc_table rc \<noteq> rc_table rc'
       then \<exists>t'. rc_table rc' = Some t' \<and> kr_get_table_index db t' (ix_id ix) = Some (Some ix') else ix' = ix) \<and>
      ix_hash ix' = ix_hash ix \<and> kr_get_field_value db r' (ix_field ix') = Some k'"
    using x(3,4) y(3,4) mem(2) fv by (intro exI [of _ rc] exI [of _ rc'] exI [of _ ix']) simp
qed

section \<open>Eviction\<close>

text \<open>What an operation on records leaves alone.\<close>

definition same_conf_db :: "'d T_KRDB \<Rightarrow> 'd T_KRDB \<Rightarrow> bool" where
  "same_conf_db db db' \<longleftrightarrow> db_table_list db' = db_table_list db \<and> db_addr db' = db_addr db \<and>
     (\<forall>h. map_option fst (db_hts db' h) = map_option fst (db_hts db h))"

lemma same_mem_conf: "same_mem db db' \<Longrightarrow> same_conf_db db db'"
  by (simp add: same_mem_def same_conf_db_def)

lemma same_conf_db_trans: "same_conf_db a b \<Longrightarrow> same_conf_db b c \<Longrightarrow> same_conf_db a c"
  by (simp add: same_conf_db_def)

lemma hkey_unindexed: "h \<notin> ix_hash ` set (idxs db (fst r)) \<Longrightarrow> hkey db h r = None"
  by (auto simp: hkey_def find_None_iff)

lemma delete_record_spec:
  assumes ok: "db_ok db lg" and r: "r \<in> set lg" and tb: "db_tables db (fst r) = Some tb"
  shows "\<exists>db'. kr_delete_record r (fst r) db = Some db' \<and> same_conf_db db db' \<and>
    idx_inv db' (\<lambda>_. filter (\<lambda>r'. r' \<noteq> r) lg) \<and>
    db_tables db' = (db_tables db)(fst r \<mapsto> tb\<lparr>tb_num := tb_num tb - 1\<rparr>)"
proof -
  let ?ixs = "idxs db (fst r)" and ?lg = "filter (\<lambda>r'. r' \<noteq> r) lg"
  have iok: "indexes_ok db (fst r) tb" by (rule tb_okD(1) [OF db_okD(8) [OF ok tb]])
  have step: "\<exists>d'. kr_rebuild_index_del ix r d = Some d' \<and> same_mem d d' \<and> idx_inv d' (L(ix_hash ix := ?lg))"
    if "ix \<in> set ?ixs" "same_mem db d" "idx_inv d L" "L (ix_hash ix) = lg" for d L ix
    using rebuild_del_inv [OF that(3) _ that(4) r db_okD(5) [OF ok]] log_ready [OF ok r that(1)]
      log_path [OF ok r _ that(1)] index_ready_mem [OF that(2)] index_path_mem [OF that(2)] db_ok_length [OF ok]
    by simp
  have "distinct (map ix_hash ?ixs)" using iok by (simp add: indexes_ok_def)
  from foreach_inv [of ?ixs db lg kr_rebuild_index_del r ?lg, OF step this db_okD(7) [OF ok]] obtain d where
      d: "fold (\<lambda>ix acc. Option.bind acc (kr_rebuild_index_del ix r)) ?ixs (Some db) = Some d" "same_mem db d"
        "idx_inv d (\<lambda>h. if h \<in> ix_hash ` set ?ixs then ?lg else lg)"
    by blast
  have all: "foreach_index kr_rebuild_index_del (fst r) r db = Some d"
    using foreach_index_spec [OF tb, of ?ixs] iok d(1) by (simp add: indexes_ok_def)
  have hk: "hkey d = hkey db" "idxs d = idxs db" using same_mem_key [of d db] d(2) by (simp_all add: same_mem_def)
  have d2: "idx_inv d (\<lambda>_. ?lg)"
  proof (rule idx_inv_cong [OF d(3)])
    show "filter (\<lambda>r. hkey d h r \<noteq> None) ?lg = filter (\<lambda>r. hkey d h r \<noteq> None) (if h \<in> ix_hash ` set ?ixs then ?lg else lg)"
      for h
      using hkey_unindexed [of h db r] by (auto simp: hk intro!: filter_cong)
  qed
  have tbd: "db_tables d (fst r) = Some tb" using d(2) tb by (simp add: same_mem_def)
  let ?tb' = "tb\<lparr>tb_num := tb_num tb - 1\<rparr>"
  let ?d' = "d\<lparr>db_tables := (db_tables d)(fst r \<mapsto> ?tb')\<rparr>"
  note fr = table_frame [OF tbd, of ?tb' ?d']
  have "idx_inv ?d' (\<lambda>_. ?lg)"
    by (rule idx_inv_frame [OF d2]) (use fr in simp_all)
  moreover have "kr_delete_record r (fst r) db = Some ?d'" using all tbd by (simp add: kr_delete_record_def)
  moreover have "same_conf_db db ?d'" "db_tables ?d' = (db_tables db)(fst r \<mapsto> ?tb')"
    using d(2) by (simp_all add: same_mem_def same_conf_db_def)
  ultimately show ?thesis by blast
qed

section \<open>Assigning the fields\<close>

definition mapped :: "'d T_KRTable \<Rightarrow> 'd \<Rightarrow> kr_key list" where
  "mapped tb msg = map (\<lambda>n. tb_map_func tb n (fd_length (tb_fields tb ! n))
     (case tb_map_pre tb of Some f \<Rightarrow> f msg | None \<Rightarrow> msg)) [0..<length (tb_fields tb)]"

definition all_fit :: "'d T_KRTable \<Rightarrow> 'd \<Rightarrow> bool" where
  "all_fit tb msg \<longleftrightarrow> list_all2 fits (tb_fields tb) (mapped tb msg)"

lemma assign_fields_spec:
  assumes "\<forall>n \<in> set ns. n < length fds \<and> fits (fds ! n) (f n (fd_length (fds ! n)) data)" and "length vals = length fds"
  shows "\<exists>vals'. assign_fields f data fds ns vals = Some vals' \<and> length vals' = length fds \<and>
    (\<forall>n < length fds. vals' ! n = (if n \<in> set ns then f n (fd_length (fds ! n)) data else vals ! n))"
  using assms
proof (induction ns arbitrary: vals)
  case Nil
  then show ?case by simp
next
  case (Cons n ns)
  from Cons.prems have n: "n < length fds" "fits (fds ! n) (f n (fd_length (fds ! n)) data)" by simp_all
  let ?vals = "vals[n := f n (fd_length (fds ! n)) data]"
  have "length ?vals = length fds" using Cons.prems(2) by simp
  from Cons.IH [OF _ this] Cons.prems(1) obtain vals' where v: "assign_fields f data fds ns ?vals = Some vals'"
      "length vals' = length fds" "\<forall>m < length fds. vals' ! m = (if m \<in> set ns then f m (fd_length (fds ! m)) data else ?vals ! m)"
    by auto
  have "assign_fields f data fds (n # ns) vals = Some vals'"
    using n Cons.prems(2) v(1) by (simp add: Let_def)
  moreover have "\<forall>m < length fds. vals' ! m = (if m \<in> set (n # ns) then f m (fd_length (fds ! m)) data else vals ! m)"
    using v(3) Cons.prems(2) by (simp add: nth_list_update)
  ultimately show ?case using v(2) by blast
qed

lemma assign_value_spec:
  assumes "all_fit tb msg" and "tb_field_cnt tb = int (length (tb_fields tb))"
    and "length (rc_fields rc) = length (tb_fields tb)"
  shows "kr_assign_field_value tb rc msg = Some (rc\<lparr>rc_fields := mapped tb msg\<rparr>)"
proof -
  let ?data = "case tb_map_pre tb of Some f \<Rightarrow> f msg | None \<Rightarrow> msg"
  have "\<forall>n \<in> set [0..<length (tb_fields tb)]. n < length (tb_fields tb) \<and>
      fits (tb_fields tb ! n) (tb_map_func tb n (fd_length (tb_fields tb ! n)) ?data)"
    using assms(1) by (simp add: all_fit_def mapped_def list_all2_conv_all_nth)
  from assign_fields_spec [where f = "tb_map_func tb" and data = ?data, OF this assms(3)] obtain vals' where v:
      "assign_fields (tb_map_func tb) ?data (tb_fields tb) [0..<length (tb_fields tb)] (rc_fields rc) = Some vals'"
      "length vals' = length (tb_fields tb)"
      "\<forall>n < length (tb_fields tb). vals' ! n = (if n \<in> set [0..<length (tb_fields tb)]
         then tb_map_func tb n (fd_length (tb_fields tb ! n)) ?data else rc_fields rc ! n)"
    by blast
  have "vals' = mapped tb msg"
  proof (rule nth_equalityI)
    show "length vals' = length (mapped tb msg)" using v(2) by (simp add: mapped_def)
    show "vals' ! n = mapped tb msg ! n" if "n < length vals'" for n
      using v(2,3) that by (simp only: mapped_def) simp
  qed
  with v(1) assms(2) show ?thesis by (simp add: kr_assign_field_value_def)
qed

end
