(* ===== verification/KR_DB_Insert.thy ===== *)
theory KR_DB_Insert
  imports KR_DB_Inv
begin

text \<open>
  \<open>kr_db_insert\<close> keeps the invariant of the database and stores the record at the end of the log, in
  place of its table's oldest record when the table is full.
\<close>

section \<open>Invariants under a change of one table\<close>

lemma indexes_ok_cong:
  assumes "indexes_ok db t tb" and "idxs db' t = idxs db t" and "tb_indexes tb' = tb_indexes tb"
    and "tb_fields tb' = tb_fields tb" and "\<forall>h. map_option fst (db_hts db' h) = map_option fst (db_hts db h)"
  shows "indexes_ok db' t tb'"
  using assms by (simp add: indexes_ok_def index_ok_def)

lemma of_table_simps [simp]:
  "of_table t (xs @ ys) = of_table t xs @ of_table t ys" "of_table t [] = []"
  "of_table t (r # xs) = (if fst r = t then r # of_table t xs else of_table t xs)"
  by (simp_all add: of_table_def)

lemma of_table_filter: "of_table t (filter P lg) = filter P (of_table t lg)"
  by (simp add: of_table_def conj_commute)

lemma in_of_table: "r \<in> set (of_table t lg) \<longleftrightarrow> r \<in> set lg \<and> fst r = t"
  by (auto simp: of_table_def)

lemma map_snd_filter: "(\<forall>r \<in> set xs. fst r = t) \<Longrightarrow> map snd (filter (\<lambda>r. r \<noteq> (t, l)) xs) = filter (\<lambda>s. s \<noteq> l) (map snd xs)"
  by (induction xs) auto

lemma set_ring: "l < N \<Longrightarrow> n \<le> N \<Longrightarrow> set (ring N n l) = {..<n}"
  by (auto simp: ring_def)

lemma ring_step:
  assumes "l < N" and "n \<le> N" and "n < N \<longrightarrow> l = n"
  shows "filter (\<lambda>s. s \<noteq> l) (ring N n l) @ [l] =
    ring N (if n < N then n + 1 else N) ((l + 1) mod N)"
proof (cases "n < N")
  case True
  then have "filter (\<lambda>s. s \<noteq> l) [0..<l] = [0..<l]" by (simp add: filter_id_conv)
  with assms True show ?thesis by (cases "n + 1 = N") (auto simp: ring_def)
next
  case False
  then have n: "n = N" using assms(2) by simp
  have "[l..<N] = l # [Suc l..<N]" using assms(1) by (simp add: upt_conv_Cons)
  moreover have "filter (\<lambda>s. s \<noteq> l) [Suc l..<N] = [Suc l..<N]" "filter (\<lambda>s. s \<noteq> l) [0..<l] = [0..<l]"
    by (simp_all add: filter_id_conv)
  ultimately have "filter (\<lambda>s. s \<noteq> l) (ring N n l) @ [l] = [Suc l..<N] @ [0..<Suc l]" using n by (simp add: ring_def)
  then show ?thesis using assms(1) n by (cases "Suc l = N") (auto simp: ring_def)
qed

section \<open>The slot of the next record\<close>

definition next_slot :: "nat \<Rightarrow> 'd T_KRTable \<Rightarrow> rec_ptr" where
  "next_slot t tb = (t, unat (tb_loc tb))"

definition evicted :: "rec_ptr list \<Rightarrow> rec_ptr \<Rightarrow> rec_ptr list" where
  "evicted lg r = filter (\<lambda>r'. r' \<noteq> r) lg"

lemma next_slot_logged:
  assumes ok: "db_ok db lg" and tb: "db_tables db t = Some tb"
  shows "next_slot t tb \<in> set lg \<longleftrightarrow> unat (tb_num tb) = length (tb_buff tb)"
proof -
  let ?N = "length (tb_buff tb)" and ?n = "unat (tb_num tb)" and ?l = "unat (tb_loc tb)"
  have ring: "map snd (of_table t lg) = ring ?N ?n ?l" "?n \<le> ?N" "?l < ?N" "?n < ?N \<longrightarrow> ?l = ?n"
    using tb_okD(3) [OF db_okD(8) [OF ok tb]] by (simp_all add: ring_ok_def Let_def)
  have "next_slot t tb \<in> set lg \<longleftrightarrow> ?l \<in> set (map snd (of_table t lg))"
    by (force simp: next_slot_def of_table_def)
  also have "\<dots> \<longleftrightarrow> ?l < ?n" unfolding ring(1) set_ring [OF ring(3,2)] by simp
  also have "\<dots> \<longleftrightarrow> ?n = ?N" using ring(2-4) by linarith
  finally show ?thesis .
qed

lemma full_head:
  assumes ok: "db_ok db lg" and tb: "db_tables db t = Some tb" and "unat (tb_num tb) = length (tb_buff tb)"
  shows "\<exists>rest. of_table t lg = next_slot t tb # rest"
proof -
  let ?N = "length (tb_buff tb)" and ?l = "unat (tb_loc tb)"
  have ring: "map snd (of_table t lg) = ring ?N ?N ?l" "?l < ?N"
    using tb_okD(3) [OF db_okD(8) [OF ok tb]] assms(3) by (simp_all add: ring_ok_def Let_def)
  then have "ring ?N ?N ?l = ?l # [Suc ?l..<?N] @ [0..<?l]" by (simp add: ring_def upt_conv_Cons)
  with ring(1) obtain r rest where r: "of_table t lg = r # rest" "snd r = ?l" by auto
  moreover have "fst r = t" using r(1) in_of_table [of r t lg] by simp
  ultimately show ?thesis by (cases r) (simp add: next_slot_def)
qed

lemma size_bound:
  assumes ok: "db_ok db lg" and tb: "db_tables db t = Some tb"
  shows "length (tb_buff tb) + 1 < 2 ^ 29"
proof -
  have "Pair t ` {..<length (tb_buff tb)} \<subseteq> slots db" using tb by (auto simp: slots_def)
  then have "card (Pair t ` {..<length (tb_buff tb)}) \<le> card (slots db)" using db_okD(3) [OF ok] by (rule card_mono [rotated])
  then have "length (tb_buff tb) \<le> card (slots db)" by (simp add: card_image inj_on_def)
  with db_okD(4) [OF ok] show ?thesis by simp
qed

section \<open>Writing the record\<close>

definition stored :: "nat \<Rightarrow> 'd T_KRTable \<Rightarrow> 'd \<Rightarrow> T_KRRecord" where
  "stored t tb msg = \<lparr>rc_table = Some t, rc_fields = mapped tb msg\<rparr>"

definition written :: "nat \<Rightarrow> 'd T_KRTable \<Rightarrow> 'd \<Rightarrow> 'd T_KRTable" where
  "written t tb msg = tb\<lparr>tb_num := tb_num tb - (if unat (tb_num tb) = length (tb_buff tb) then 1 else 0),
     tb_buff := (tb_buff tb)[unat (tb_loc tb) := stored t tb msg]\<rparr>"

lemma loc_in_buff:
  assumes "db_ok db lg" and "db_tables db t = Some tb"
  shows "unat (tb_loc tb) < length (tb_buff tb)"
  using tb_okD(3) [OF db_okD(8) [OF assms]] by (simp add: ring_ok_def Let_def)

lemma evict_spec:
  assumes ok: "db_ok db lg" and tb: "db_tables db t = Some tb" and r: "r = next_slot t tb" and rc: "get_rec db r = Some rc"
  shows "\<exists>db1. (case rc_table rc of None \<Rightarrow> Some db | Some t' \<Rightarrow> kr_delete_record r t' db) = Some db1 \<and>
    same_conf_db db db1 \<and> idx_inv db1 (\<lambda>_. evicted lg r) \<and> db_tables db1 = (db_tables db)(t \<mapsto>
      tb\<lparr>tb_num := tb_num tb - (if unat (tb_num tb) = length (tb_buff tb) then 1 else 0)\<rparr>)"
proof -
  have l: "unat (tb_loc tb) < length (tb_buff tb)" by (rule loc_in_buff [OF ok tb])
  then have rct: "rc_table rc = (if r \<in> set lg then Some t else None)"
    using tb_okD(2) [OF db_okD(8) [OF ok tb]] rc tb r by (auto simp: get_rec_def slots_ok_def next_slot_def)
  have full: "r \<in> set lg \<longleftrightarrow> unat (tb_num tb) = length (tb_buff tb)" using next_slot_logged [OF ok tb] r by simp
  show ?thesis
  proof (cases "r \<in> set lg")
    case True
    have "fst r = t" using r by (simp add: next_slot_def)
    with delete_record_spec [OF ok True, of tb] tb True full rct show ?thesis by (simp add: evicted_def)
  next
    case False
    then have "filter (\<lambda>r'. r' \<noteq> r) lg = lg" by (auto simp: filter_id_conv)
    moreover have "(db_tables db)(t \<mapsto> tb) = db_tables db" using tb by auto
    ultimately show ?thesis using False full rct db_okD(7) [OF ok] by (simp add: evicted_def same_conf_db_def)
  qed
qed

lemma create_spec:
  assumes ok: "db_ok db lg" and tb: "db_tables db t = Some tb" and fit: "all_fit tb msg"
  shows "\<exists>db2. kr_create_record_from_data t msg db = Some (next_slot t tb, db2) \<and> same_conf_db db db2 \<and>
    idx_inv db2 (\<lambda>_. evicted lg (next_slot t tb)) \<and> db_tables db2 = (db_tables db)(t \<mapsto> written t tb msg)"
proof -
  let ?r = "next_slot t tb" and ?l = "unat (tb_loc tb)"
  note tok = tb_okD [OF db_okD(8) [OF ok tb]]
  have l: "?l < length (tb_buff tb)" by (rule loc_in_buff [OF ok tb])
  have "int ?l * tb_record_size tb \<le> int (length (tb_buff tb)) * tb_record_size tb"
    using of_nat_mono [OF less_imp_le [OF l]] tok(6) by (rule mult_right_mono)
  then have off: "int ?l * tb_record_size tb < 2 ^ 32" using tok(7) by (simp add: mult.commute)
  let ?rc = "tb_buff tb ! ?l"
  have rc: "get_rec db ?r = Some ?rc" using tb l by (simp add: get_rec_def next_slot_def)
  from evict_spec [OF ok tb refl rc] obtain db1 where d1:
      "(case rc_table ?rc of None \<Rightarrow> Some db | Some t' \<Rightarrow> kr_delete_record ?r t' db) = Some db1"
      "same_conf_db db db1" "idx_inv db1 (\<lambda>_. evicted lg ?r)" "db_tables db1 = (db_tables db)(t \<mapsto>
        tb\<lparr>tb_num := tb_num tb - (if unat (tb_num tb) = length (tb_buff tb) then 1 else 0)\<rparr>)"
    by blast
  have av: "kr_assign_field_value tb ((zero_rec (tb_fields tb))\<lparr>rc_table := Some t\<rparr>) msg = Some (stored t tb msg)"
    using assign_value_spec [OF fit tok(5), of "(zero_rec (tb_fields tb))\<lparr>rc_table := Some t\<rparr>"]
    by (simp add: zero_rec_def stored_def)
  have pr: "put_rec db1 ?r (stored t tb msg) = Some (db1\<lparr>db_tables := (db_tables db1)(t \<mapsto> written t tb msg)\<rparr>)"
    using l by (simp add: put_rec_def d1(4) next_slot_def written_def)
  let ?db2 = "db1\<lparr>db_tables := (db_tables db1)(t \<mapsto> written t tb msg)\<rparr>"
  have "kr_create_record_from_data t msg db = Some (?r, ?db2)"
    using tb off rc [unfolded next_slot_def] d1(1) [unfolded next_slot_def] av pr [unfolded next_slot_def]
    by (simp add: kr_create_record_from_data_def next_slot_def Let_def)
  moreover have "idx_inv ?db2 (\<lambda>_. evicted lg ?r)"
    by (rule idx_inv_put [OF pr d1(3)]) (simp add: evicted_def)
  ultimately show ?thesis using d1(2,4) by (intro exI [of _ ?db2]) (simp add: same_conf_db_def)
qed

section \<open>Entering the record into the indexes\<close>

text \<open>The new record can be found again: none of its indexed fields is a NaN.\<close>

definition indexable :: "'d T_KRDB \<Rightarrow> nat \<Rightarrow> 'd T_KRTable \<Rightarrow> 'd \<Rightarrow> bool" where
  "indexable db t tb msg \<longleftrightarrow>
     (\<forall>ix \<in> set (idxs db t). mapped tb msg ! nat (ix_field ix) \<noteq> KDouble NaN)"

lemma kr_string_equal_refl: "kr_string_equal s s"
  by (simp add: kr_string_equal_def kr_string_compare_def c_strcmp_0_cstr)

lemma equal_refl:
  assumes "kr_get_equal_func (fd_type fd) = Some f" and "fits fd k" and "k \<noteq> KDouble NaN"
  shows "f k k"
  using assms by (cases "fd_type fd"; cases k) (auto simp: fits_def d_eq_refl_iff kr_string_equal_refl)

lemma peq_refl:
  assumes "fits fd (key_obj db p)" and "key_obj db p \<noteq> KDouble NaN"
  shows "peq db (fd_type fd) p p"
proof (cases "kr_get_equal_func (fd_type fd)")
  case None
  then show ?thesis by (simp add: peq_def key_equal_def)
next
  case (Some f)
  then have "f (key_seen db (fd_type fd) p) (key_seen db (fd_type fd) p)"
    using assms equal_refl [OF Some] by (auto simp: key_seen_def)
  then show ?thesis by (simp add: peq_def key_equal_def Some)
qed

lemma written_simps [simp]:
  "tb_fields (written t tb msg) = tb_fields tb" "tb_indexes (written t tb msg) = tb_indexes tb"
  "tb_loc (written t tb msg) = tb_loc tb" "tb_keep_value (written t tb msg) = tb_keep_value tb"
  "tb_id (written t tb msg) = tb_id tb" "length (tb_buff (written t tb msg)) = length (tb_buff tb)"
  "tb_buff (written t tb msg) = (tb_buff tb)[unat (tb_loc tb) := stored t tb msg]"
  "tb_field_cnt (written t tb msg) = tb_field_cnt tb" "tb_record_size (written t tb msg) = tb_record_size tb"
  by (simp_all add: written_def)

lemma new_ready:
  assumes ok: "db_ok db lg" and tb: "db_tables db t = Some tb" and fit: "all_fit tb msg" and nn: "indexable db t tb msg"
    and conf: "same_conf_db db db2" and tbs: "db_tables db2 = (db_tables db)(t \<mapsto> written t tb msg)"
    and ix: "ix \<in> set (idxs db t)"
  shows "index_ready db2 (next_slot t tb) ix"
proof -
  let ?r = "next_slot t tb" and ?f = "nat (ix_field ix)"
  have l: "unat (tb_loc tb) < length (tb_buff tb)" by (rule loc_in_buff [OF ok tb])
  have t2: "db_tables db2 t = Some (written t tb msg)" using tbs by simp
  have fst: "fst ?r = t" by (simp add: next_slot_def)
  have idx: "idxs db2 = idxs db" using tb tbs by (intro ext) (auto simp: idxs_def)
  have rc: "get_rec db2 ?r = Some (stored t tb msg)" using t2 l by (simp add: get_rec_def next_slot_def)
  have iok: "indexes_ok db2 t (written t tb msg)"
    using indexes_ok_cong [OF tb_okD(1) [OF db_okD(8) [OF ok tb]], of db2 "written t tb msg"] idx conf
    by (simp add: same_conf_db_def)
  then have i: "index_ok db2 (written t tb msg) ix" using ix idx by (simp add: indexes_ok_def)
  have hk: "hkey db2 (ix_hash ix) ?r = Some (FieldPtr ?r ?f)"
    using index_hkey [of db2 ?r "written t tb msg" ix] iok ix idx fst by simp
  have fv: "kr_get_field_value db2 ?r (ix_field ix) = Some (FieldPtr ?r ?f)"
    by (rule index_field_value [OF rc _ t2 i]) (simp add: stored_def)
  have n: "?f < length (tb_fields tb)" using i by (simp add: index_ok_def)
  then have ko: "key_obj db2 (FieldPtr ?r ?f) = mapped tb msg ! ?f"
    using rc by (simp add: key_obj_def stored_def mapped_def)
  have "peq db2 (fd_type (tb_fields tb ! ?f)) (FieldPtr ?r ?f) (FieldPtr ?r ?f)"
    using peq_refl [of "tb_fields tb ! ?f" db2 "FieldPtr ?r ?f"] ko fit nn ix n
    by (simp add: all_fit_def list_all2_conv_all_nth indexable_def)
  moreover have "map_option fst (db_hts db2 (ix_hash ix)) = Some (fd_type (tb_fields tb ! ?f))" "ix_sort ix < 0"
    using i by (simp_all add: index_ok_def)
  ultimately show ?thesis using hk fv by (auto simp: index_ready_def)
qed

definition entered :: "nat \<Rightarrow> 'd T_KRTable \<Rightarrow> 'd \<Rightarrow> 'd T_KRTable" where
  "entered t tb msg = (written t tb msg)\<lparr>
     tb_num := word_of_nat (if unat (tb_num tb) < length (tb_buff tb) then unat (tb_num tb) + 1 else length (tb_buff tb)),
     tb_loc := word_of_nat ((unat (tb_loc tb) + 1) mod length (tb_buff tb))\<rparr>"

lemma counters:
  fixes num loc :: u32
  assumes "n \<le> N" "l < N" "N + 1 < 2 ^ 29" "unat num = n" "unat loc = l"
  shows "(let x = num - (if n = N then 1 else 0) + 1 in if int (unat x) > int N then word_of_int (int N) else x) =
      (word_of_nat (if n < N then n + 1 else N) :: u32)"
    and "(word_of_int (tmod (int (unat (loc + 1))) (int N)) :: u32) = word_of_nat ((l + 1) mod N)"
proof -
  have num: "num = word_of_nat n" "loc = word_of_nat l" using assms(4,5) by auto
  have u: "unat (word_of_nat (n + 1) :: u32) = n + 1" "unat (word_of_nat (l + 1) :: u32) = l + 1"
    using assms(1-3) by (simp_all add: unat_of_nat del: of_nat_add of_nat_Suc)
  show "(let x = num - (if n = N then 1 else 0) + 1 in if int (unat x) > int N then word_of_int (int N) else x) =
      (word_of_nat (if n < N then n + 1 else N) :: u32)"
  proof (cases "n = N")
    case True
    then show ?thesis using assms(4) num(1) by (simp add: Let_def)
  next
    case False
    have e: "num + 1 = word_of_nat (n + 1)" using num(1) by (simp add: add.commute)
    have "\<not> int (unat (num + 1)) > int N" unfolding e u(1) using False assms(1) by simp
    then show ?thesis using False assms(1) e by (simp add: Let_def add.commute)
  qed
  have "loc + 1 = word_of_nat (l + 1)" using num(2) by (simp add: add.commute)
  then have "int (unat (loc + 1)) = int (l + 1)" by (simp only: u(2))
  moreover have "tmod (int (l + 1)) (int N) = int ((l + 1) mod N)" using assms(2) by (simp add: tmod_nonneg zmod_int)
  ultimately show "(word_of_int (tmod (int (unat (loc + 1))) (int N)) :: u32) = word_of_nat ((l + 1) mod N)"
    by (simp only: of_int_of_nat_eq)
qed

lemma insert_spec:
  assumes ok: "db_ok db lg" and tb: "db_tables db t = Some tb" and fit: "all_fit tb msg" and nn: "indexable db t tb msg"
    and conf: "same_conf_db db db2" and tbs: "db_tables db2 = (db_tables db)(t \<mapsto> written t tb msg)"
    and inv: "idx_inv db2 (\<lambda>_. evicted lg (next_slot t tb))"
  shows "\<exists>db3. kr_insert_record (next_slot t tb) t db2 = Some (0, db3) \<and> same_conf_db db db3 \<and>
    idx_inv db3 (\<lambda>_. evicted lg (next_slot t tb) @ [next_slot t tb]) \<and>
    db_tables db3 = (db_tables db)(t \<mapsto> entered t tb msg)"
proof -
  let ?r = "next_slot t tb" and ?lg = "evicted lg (next_slot t tb)" and ?tw = "written t tb msg" and ?ixs = "idxs db t"
  have t2: "db_tables db2 t = Some ?tw" using tbs by simp
  have idx: "idxs db2 = idxs db" using tb tbs by (intro ext) (auto simp: idxs_def)
  have iok: "indexes_ok db t tb" by (rule tb_okD(1) [OF db_okD(8) [OF ok tb]])
  have "length ?lg \<le> length lg" by (simp add: evicted_def)
  then have room: "int (length ?lg) + 1 < 2 ^ 29" using db_ok_length [OF ok] by simp
  have step: "\<exists>d'. kr_rebuild_index_ins ix ?r d = Some d' \<and> same_mem d d' \<and> idx_inv d' (L(ix_hash ix := ?lg @ [?r]))"
    if "ix \<in> set ?ixs" "same_mem db2 d" "idx_inv d L" "L (ix_hash ix) = ?lg" for d L ix
    using rebuild_ins_inv [OF that(3), of ?r ix] new_ready [OF ok tb fit nn conf tbs that(1)] index_ready_mem [OF that(2)]
      room that(4) by simp
  have "distinct (map ix_hash ?ixs)" using iok by (simp add: indexes_ok_def)
  from foreach_inv [of ?ixs db2 ?lg kr_rebuild_index_ins ?r "?lg @ [?r]", OF step this inv] obtain d where
      d: "fold (\<lambda>ix acc. Option.bind acc (kr_rebuild_index_ins ix ?r)) ?ixs (Some db2) = Some d" "same_mem db2 d"
        "idx_inv d (\<lambda>h. if h \<in> ix_hash ` set ?ixs then ?lg @ [?r] else ?lg)"
    by blast
  have all: "foreach_index kr_rebuild_index_ins t ?r db2 = Some d"
    using foreach_index_spec [OF t2, of ?ixs] iok d(1) by (simp add: indexes_ok_def)
  have hk: "idxs d = idxs db" using same_mem_key [of d db2] d(2) idx by (simp add: same_mem_def)
  have d2: "idx_inv d (\<lambda>_. ?lg @ [?r])"
  proof (rule idx_inv_cong [OF d(3)])
    show "filter (\<lambda>r. hkey d h r \<noteq> None) (?lg @ [?r]) =
        filter (\<lambda>r. hkey d h r \<noteq> None) (if h \<in> ix_hash ` set ?ixs then ?lg @ [?r] else ?lg)" for h
      using hkey_unindexed [of h d ?r] by (auto simp: hk next_slot_def)
  qed
  have td: "db_tables d t = Some ?tw" using d(2) t2 by (simp add: same_mem_def)
  let ?d' = "d\<lparr>db_tables := (db_tables d)(t \<mapsto> entered t tb msg)\<rparr>"
  have ring: "unat (tb_num tb) \<le> length (tb_buff tb)" "unat (tb_loc tb) < length (tb_buff tb)"
    using tb_okD(3) [OF db_okD(8) [OF ok tb]] by (simp_all add: ring_ok_def Let_def)
  note c = counters [OF ring size_bound [OF ok tb] refl refl]
  have kv: "tb_keep_value tb = int (length (tb_buff tb))" by (rule tb_okD(4) [OF db_okD(8) [OF ok tb]])
  have num: "tb_num ?tw = tb_num tb - (if unat (tb_num tb) = length (tb_buff tb) then 1 else 0)" by (simp add: written_def)
  have ins: "kr_insert_record ?r t db2 = Some (0, ?d')"
    using ring(2) by (simp only: kr_insert_record_def all td kv c(2) num c(1) [unfolded Let_def] written_simps Let_def entered_def
      bind.bind_lunit) auto
  note fr = table_frame [OF td, of "entered t tb msg" ?d']
  have "idx_inv ?d' (\<lambda>_. ?lg @ [?r])" by (rule idx_inv_frame [OF d2]) (use fr in \<open>simp_all add: entered_def\<close>)
  moreover have "same_conf_db db ?d'" using same_conf_db_trans [OF conf same_mem_conf [OF d(2)]] by (simp add: same_conf_db_def)
  moreover have "db_tables ?d' = (db_tables db)(t \<mapsto> entered t tb msg)" using d(2) tbs by (simp add: same_mem_def)
  ultimately show ?thesis using ins by blast
qed

section \<open>The invariant is kept\<close>

lemma entered_simps [simp]:
  "tb_fields (entered t tb msg) = tb_fields tb" "tb_indexes (entered t tb msg) = tb_indexes tb"
  "tb_keep_value (entered t tb msg) = tb_keep_value tb" "tb_id (entered t tb msg) = tb_id tb"
  "tb_buff (entered t tb msg) = (tb_buff tb)[unat (tb_loc tb) := stored t tb msg]"
  "tb_field_cnt (entered t tb msg) = tb_field_cnt tb" "tb_record_size (entered t tb msg) = tb_record_size tb"
  by (simp_all add: entered_def)

lemma entered_ring:
  assumes ok: "db_ok db lg" and tb: "db_tables db t = Some tb"
  shows "ring_ok (evicted lg (next_slot t tb) @ [next_slot t tb]) t (entered t tb msg)"
proof -
  let ?N = "length (tb_buff tb)" and ?n = "unat (tb_num tb)" and ?l = "unat (tb_loc tb)" and ?r = "next_slot t tb"
  have ring: "map snd (of_table t lg) = ring ?N ?n ?l" "?n \<le> ?N" "?l < ?N" "?n < ?N \<longrightarrow> ?l = ?n"
    using tb_okD(3) [OF db_okD(8) [OF ok tb]] by (simp_all add: ring_ok_def Let_def)
  let ?n' = "if ?n < ?N then ?n + 1 else ?N" and ?l' = "(?l + 1) mod ?N"
  have l': "?l' < ?N" by (rule mod_less_divisor) (use ring(3) in linarith)
  have u: "unat (tb_num (entered t tb msg)) = ?n'" "unat (tb_loc (entered t tb msg)) = ?l'"
    using size_bound [OF ok tb] ring(2) l' by (simp_all add: entered_def unat_of_nat del: of_nat_add of_nat_Suc)
  have "map snd (of_table t (evicted lg ?r)) = filter (\<lambda>s. s \<noteq> ?l) (ring ?N ?n ?l)"
    unfolding evicted_def of_table_filter next_slot_def ring(1) [symmetric]
    by (rule map_snd_filter) (simp add: in_of_table)
  then have "map snd (of_table t (evicted lg ?r @ [?r])) = ring ?N ?n' ?l'"
    using ring_step [OF ring(3,2,4)] by (simp add: next_slot_def)
  moreover have "?n' \<le> ?N" "?n' < ?N \<longrightarrow> ?l' = ?n'" using ring(2-4) by auto
  ultimately show ?thesis using u l' by (simp add: ring_ok_def Let_def)
qed

lemma insert_keeps:
  assumes ok: "db_ok db lg" and tb: "db_tables db t = Some tb" and conf: "same_conf_db db db'"
    and inv: "idx_inv db' (\<lambda>_. evicted lg (next_slot t tb) @ [next_slot t tb])"
    and tbs: "db_tables db' = (db_tables db)(t \<mapsto> entered t tb msg)"
  shows "db_ok db' (evicted lg (next_slot t tb) @ [next_slot t tb])"
proof -
  let ?r = "next_slot t tb" and ?lg' = "evicted lg (next_slot t tb) @ [next_slot t tb]"
  have l: "unat (tb_loc tb) < length (tb_buff tb)" by (rule loc_in_buff [OF ok tb])
  have idx: "idxs db' = idxs db" using tb tbs by (intro ext) (auto simp: idxs_def)
  have slots: "slots db' = slots db" using tb tbs by (auto simp: slots_def split: if_splits)
  have mem: "r \<in> set ?lg' \<longleftrightarrow> r \<in> set lg \<or> r = ?r" for r by (auto simp: evicted_def)
  have idxok: "indexes_ok db' t' tb1" if "db_tables db t' = Some tb0" "tb_indexes tb1 = tb_indexes tb0" "tb_fields tb1 = tb_fields tb0"
    for t' tb0 tb1
    using indexes_ok_cong [OF tb_okD(1) [OF db_okD(8) [OF ok that(1)]] _ that(2,3), of db'] idx conf
    by (simp add: same_conf_db_def)
  have "\<exists>t tb. db_tables db' t = Some tb \<and> v = Tb t (tb_id tb)" if v: "v \<in> set (l_seq (db_table_list db))" for v
  proof -
    from v db_okD(1) [OF ok] obtain t0 tb0 where t0: "db_tables db t0 = Some tb0" "v = Tb t0 (tb_id tb0)"
      unfolding table_list_ok_def by blast
    show ?thesis
    proof (cases "t0 = t")
      case True
      with t0 tb tbs show ?thesis by (intro exI [of _ t] exI [of _ "entered t tb msg"]) simp
    next
      case False
      with t0 tbs show ?thesis by (intro exI [of _ t0] exI [of _ tb0]) simp
    qed
  qed
  then have "table_list_ok db'"
    using db_okD(1) [OF ok] conf by (simp add: table_list_ok_def same_conf_db_def)
  moreover have "shared_ok db'" using db_okD(2) [OF ok] unfolding shared_ok_def idx .
  moreover have "distinct ?lg'" using db_okD(5) [OF ok] by (simp add: evicted_def)
  moreover have "set ?lg' \<subseteq> slots db'"
    using db_okD(6) [OF ok] l tb slots by (auto simp: evicted_def next_slot_def slots_def)
  moreover have "tb_ok db' ?lg' t' tb'" if t': "db_tables db' t' = Some tb'" for t' tb'
  proof (cases "t' = t")
    case True
    then have tb': "tb' = entered t tb msg" using t' tbs by simp
    note tok = tb_okD [OF db_okD(8) [OF ok tb]]
    have "slots_ok ?lg' t (entered t tb msg)"
      unfolding slots_ok_def mem
    proof (intro allI impI)
      fix s assume "s < length (tb_buff (entered t tb msg))"
      then show "rc_table (tb_buff (entered t tb msg) ! s) = (if (t, s) \<in> set lg \<or> (t, s) = ?r then Some t else None) \<and>
          length (rc_fields (tb_buff (entered t tb msg) ! s)) = length (tb_fields (entered t tb msg))"
        using tok(2) l by (cases "s = unat (tb_loc tb)") (simp_all add: slots_ok_def next_slot_def stored_def mapped_def)
    qed
    moreover have "indexes_ok db' t (entered t tb msg)" by (rule idxok [OF tb]) simp_all
    ultimately show ?thesis using tok(4-7) entered_ring [OF ok tb, of msg] True by (simp add: tb_ok_def tb')
  next
    case False
    with t' tbs have old: "db_tables db t' = Some tb'" by simp
    note tok = tb_okD [OF db_okD(8) [OF ok old]]
    have ot: "of_table t' ?lg' = of_table t' lg"
      using False by (auto simp: of_table_def evicted_def next_slot_def intro!: filter_cong)
    have "ring_ok ?lg' t' tb'" using tok(3) unfolding ring_ok_def ot .
    moreover have "slots_ok ?lg' t' tb'"
      using tok(2) False unfolding slots_ok_def mem by (simp add: next_slot_def)
    moreover have "indexes_ok db' t' tb'" by (rule idxok [OF old]) simp_all
    ultimately show ?thesis using tok(4-7) by (simp add: tb_ok_def)
  qed
  ultimately show ?thesis using inv db_okD(3,4) [OF ok] slots by (simp add: db_ok_def)
qed

lemma get_table_spec:
  assumes "table_list_ok db"
  shows "\<exists>found. kr_get_table db tid = Some found \<and>
    (case found of None \<Rightarrow> \<forall>t. Tb t tid \<notin> set (l_seq (db_table_list db))
     | Some t \<Rightarrow> Tb t tid \<in> set (l_seq (db_table_list db)) \<and> (\<exists>tb. db_tables db t = Some tb \<and> tb_id tb = tid))"
proof -
  let ?l = "db_table_list db"
  have l: "l_ok ?l" "l_match ?l = Some kr_tableid_match"
      "\<forall>v \<in> set (l_seq ?l). \<exists>t tb. db_tables db t = Some tb \<and> v = Tb t (tb_id tb)"
    using assms by (simp_all add: table_list_ok_def)
  have f: "list_find ?l (TbId tid) = Some (find (\<lambda>v. list_matches ?l v (TbId tid)) (l_seq ?l))"
    by (rule list_find_spec [OF l(1)])
  show ?thesis
  proof (cases "find (\<lambda>v. list_matches ?l v (TbId tid)) (l_seq ?l)")
    case None
    then have "\<forall>t. Tb t tid \<notin> set (l_seq ?l)"
      by (auto simp: find_None_iff list_matches_def l(2) kr_tableid_match_def)
    with f None show ?thesis by (simp add: kr_get_table_def)
  next
    case (Some v)
    then have v: "v \<in> set (l_seq ?l)" "list_matches ?l v (TbId tid)" by (auto simp: find_Some_iff)
    with l(3) obtain t tb where "db_tables db t = Some tb" "v = Tb t (tb_id tb)" by blast
    with v f Some show ?thesis by (simp add: kr_get_table_def list_matches_def l(2) kr_tableid_match_def)
  qed
qed

theorem db_insert_spec:
  assumes ok: "db_ok db lg" and found: "kr_get_table db tid = Some (Some t)" and tb: "db_tables db t = Some tb"
    and fit: "all_fit tb msg" and nn: "indexable db t tb msg"
  shows "\<exists>db'. kr_db_insert tid msg db = Some (Some (next_slot t tb), db') \<and> same_conf_db db db' \<and>
    db_ok db' (evicted lg (next_slot t tb) @ [next_slot t tb]) \<and>
    db_tables db' = (db_tables db)(t \<mapsto> entered t tb msg)"
proof -
  from create_spec [OF ok tb fit] obtain db2 where d2: "kr_create_record_from_data t msg db = Some (next_slot t tb, db2)"
      "same_conf_db db db2" "idx_inv db2 (\<lambda>_. evicted lg (next_slot t tb))"
      "db_tables db2 = (db_tables db)(t \<mapsto> written t tb msg)"
    by blast
  from insert_spec [OF ok tb fit nn d2(2,4,3)] obtain db3 where d3: "kr_insert_record (next_slot t tb) t db2 = Some (0, db3)"
      "same_conf_db db db3" "idx_inv db3 (\<lambda>_. evicted lg (next_slot t tb) @ [next_slot t tb])"
      "db_tables db3 = (db_tables db)(t \<mapsto> entered t tb msg)"
    by blast
  from insert_keeps [OF ok tb d3(2,3,4)] d2(1) d3 found show ?thesis by (simp add: kr_db_insert_def)
qed

end
