(* ===== verification/KR_DB_View.thy ===== *)
theory KR_DB_View
  imports KR_DB_Insert
begin

text \<open>
  What a client sees of the database: the rows it holds, in the order of their insertion. A row is a
  table and the values of its fields. \<open>push\<close> is the specification of an insertion: the table's oldest
  row makes room when the table is full.
\<close>

type_synonym row = "nat \<times> kr_key list"

definition row_of :: "'d T_KRDB \<Rightarrow> rec_ptr \<Rightarrow> row" where
  "row_of db r = (fst r, case get_rec db r of Some rc \<Rightarrow> rc_fields rc | None \<Rightarrow> [])"

definition db_view :: "'d T_KRDB \<Rightarrow> row list \<Rightarrow> bool" where
  "db_view db xs \<longleftrightarrow> (\<exists>lg. db_ok db lg \<and> xs = map (row_of db) lg)"

definition table_rows :: "nat \<Rightarrow> row list \<Rightarrow> row list" where
  "table_rows t xs = filter (\<lambda>x. fst x = t) xs"

definition push :: "nat \<Rightarrow> nat \<Rightarrow> kr_key list \<Rightarrow> row list \<Rightarrow> row list" where
  "push n t v xs = (if length (table_rows t xs) < n then xs else remove_first (\<lambda>x. fst x = t) xs) @ [(t, v)]"

section \<open>Insertion\<close>

lemma rows_of_table: "table_rows t (map (row_of db) lg) = map (row_of db) (of_table t lg)"
  by (induction lg) (simp_all add: table_rows_def row_of_def)

lemma ring_length: "n \<le> N \<Longrightarrow> l < N \<Longrightarrow> length (ring N n l) = n"
  by (simp add: ring_def)

lemma of_table_length:
  assumes "ring_ok lg t tb"
  shows "length (of_table t lg) = unat (tb_num tb)"
proof -
  have "length (of_table t lg) = length (map snd (of_table t lg))" by simp
  also have "\<dots> = unat (tb_num tb)" using assms by (simp add: ring_ok_def Let_def ring_length del: length_map)
  finally show ?thesis .
qed

lemma remove_first_head:
  "of_table t lg = r # rest \<Longrightarrow> distinct lg \<Longrightarrow> remove_first (\<lambda>r. fst r = t) lg = filter (\<lambda>r'. r' \<noteq> r) lg"
proof (induction lg)
  case Nil
  then show ?case by simp
next
  case (Cons a lg)
  show ?case
  proof (cases "fst a = t")
    case True
    with Cons.prems have "a = r" "a \<notin> set lg" by auto
    moreover then have "filter (\<lambda>r'. r' \<noteq> r) lg = lg" by (auto simp: filter_id_conv)
    ultimately show ?thesis using True by simp
  next
    case False
    with Cons.prems have "of_table t lg = r # rest" "distinct lg" by auto
    moreover have "fst r = t" using in_of_table [of r t lg] calculation(1) by simp
    ultimately show ?thesis using False Cons.IH by auto
  qed
qed

lemma remove_first_map: "remove_first P (map f xs) = map f (remove_first (\<lambda>x. P (f x)) xs)"
  by (induction xs) auto

lemma fst_row_of [simp]: "fst (row_of db r) = fst r"
  by (simp add: row_of_def)

lemma insert_rows:
  assumes ok: "db_ok db lg" and tb: "db_tables db t = Some tb" and tbs: "db_tables db' = (db_tables db)(t \<mapsto> entered t tb msg)"
  shows "map (row_of db') (evicted lg (next_slot t tb) @ [next_slot t tb]) =
    push (length (tb_buff tb)) t (mapped tb msg) (map (row_of db) lg)"
proof -
  let ?r = "next_slot t tb"
  note rok = tb_okD(3) [OF db_okD(8) [OF ok tb]]
  have l: "unat (tb_loc tb) < length (tb_buff tb)" by (rule loc_in_buff [OF ok tb])
  have new: "row_of db' ?r = (t, mapped tb msg)"
    using tbs l by (simp add: row_of_def get_rec_def next_slot_def stored_def)
  have "get_rec db' r = get_rec db r" if "r \<noteq> ?r" for r
    using tb tbs that by (cases r) (auto simp: get_rec_def next_slot_def nth_opt_def)
  then have old: "map (row_of db') (evicted lg ?r) = map (row_of db) (evicted lg ?r)"
    by (auto simp: evicted_def row_of_def)
  have num: "length (table_rows t (map (row_of db) lg)) = unat (tb_num tb)"
    by (simp add: rows_of_table of_table_length [OF rok])
  show ?thesis
  proof (cases "unat (tb_num tb) = length (tb_buff tb)")
    case True
    from full_head [OF ok tb this] obtain rest where "of_table t lg = ?r # rest" by blast
    from remove_first_head [OF this db_okD(5) [OF ok]] show ?thesis
      using True num old new by (simp add: push_def remove_first_map evicted_def)
  next
    case False
    then have "unat (tb_num tb) < length (tb_buff tb)" using rok by (simp add: ring_ok_def Let_def)
    moreover have "evicted lg ?r = lg"
      using next_slot_logged [OF ok tb] False by (auto simp: evicted_def filter_id_conv)
    ultimately show ?thesis using num old new by (simp add: push_def)
  qed
qed

text \<open>What stays the same of a database from one insertion to the next.\<close>

definition same_schema :: "'d T_KRDB \<Rightarrow> 'd T_KRDB \<Rightarrow> bool" where
  "same_schema db db' \<longleftrightarrow> same_conf_db db db' \<and> idxs db' = idxs db \<and>
     (\<forall>t. map_option (\<lambda>tb. (tb_fields tb, tb_map_pre tb, tb_map_func tb, length (tb_buff tb))) (db_tables db' t) =
          map_option (\<lambda>tb. (tb_fields tb, tb_map_pre tb, tb_map_func tb, length (tb_buff tb))) (db_tables db t))"

lemma same_schema_refl [simp]: "same_schema db db"
  by (simp add: same_schema_def same_conf_db_def)

lemma same_schema_trans: "same_schema a b \<Longrightarrow> same_schema b c \<Longrightarrow> same_schema a c"
  using same_conf_db_trans [of a b c] by (simp add: same_schema_def)

lemma get_table_conf: "same_conf_db db db' \<Longrightarrow> kr_get_table db' tid = kr_get_table db tid"
  by (simp add: same_conf_db_def kr_get_table_def)

lemma insert_view:
  assumes view: "db_view db xs" and found: "kr_get_table db tid = Some (Some t)" and tb: "db_tables db t = Some tb"
    and fit: "all_fit tb msg" and nn: "indexable db t tb msg"
  shows "\<exists>r db'. kr_db_insert tid msg db = Some (Some r, db') \<and> row_of db' r = (t, mapped tb msg) \<and>
    db_view db' (push (length (tb_buff tb)) t (mapped tb msg) xs) \<and> same_schema db db'"
proof -
  from view obtain lg where ok: "db_ok db lg" and xs: "xs = map (row_of db) lg" unfolding db_view_def by blast
  from db_insert_spec [OF ok found tb fit nn] obtain db' where d: "kr_db_insert tid msg db = Some (Some (next_slot t tb), db')"
      "same_conf_db db db'" "db_ok db' (evicted lg (next_slot t tb) @ [next_slot t tb])"
      "db_tables db' = (db_tables db)(t \<mapsto> entered t tb msg)"
    by blast
  have "row_of db' (next_slot t tb) = (t, mapped tb msg)"
    using d(4) loc_in_buff [OF ok tb] by (simp add: row_of_def get_rec_def next_slot_def stored_def)
  moreover have "db_view db' (push (length (tb_buff tb)) t (mapped tb msg) xs)"
    using d(3) insert_rows [OF ok tb d(4)] unfolding db_view_def xs by metis
  moreover have "same_schema db db'"
    using d(2,4) tb by (auto simp: same_schema_def entered_def written_def idxs_def)
  ultimately show ?thesis using d(1) by blast
qed

section \<open>Selection\<close>

text \<open>The rows an index finds for a key object.\<close>

definition row_has :: "'d T_KRDB \<Rightarrow> T_KRIndex \<Rightarrow> (kr_key \<Rightarrow> kr_key \<Rightarrow> bool) \<Rightarrow> kr_key \<Rightarrow> row \<Rightarrow> bool" where
  "row_has db ix eq k x = (case find (\<lambda>i. ix_hash i = ix_hash ix) (idxs db (fst x)) of
       None \<Rightarrow> False | Some i \<Rightarrow> nat (ix_field i) < length (snd x) \<and> eq (snd x ! nat (ix_field i)) k)"

lemma key_obj_row:
  assumes "get_rec db r = Some rc" and "f < length (rc_fields rc)"
  shows "key_obj db (FieldPtr r f) = snd (row_of db r) ! f" "f < length (snd (row_of db r))"
  using assms by (simp_all add: key_obj_def row_of_def)

lemma has_key_row:
  assumes ok: "db_ok db lg" and r: "r \<in> set lg" and eq: "kr_get_equal_func ty = Some eq" "ty \<noteq> KR_TYPE_POINTER"
  shows "has_key db (ix_hash ix) ty (ObjPtr k) r = row_has db ix eq k (row_of db r)"
proof (cases "find (\<lambda>i. ix_hash i = ix_hash ix) (idxs db (fst r))")
  case None
  then show ?thesis by (simp add: has_key_def hkey_def row_has_def)
next
  case (Some i)
  then have i: "i \<in> set (idxs db (fst r))" by (auto simp: find_Some_iff)
  from ok r obtain tb rc where x: "db_tables db (fst r) = Some tb" "tb_ok db lg (fst r) tb" "get_rec db r = Some rc"
      "length (rc_fields rc) = length (tb_fields tb)"
    by (rule logged)
  have "nat (ix_field i) < length (rc_fields rc)"
    using tb_okD(1) [OF x(2)] i x(4) by (simp add: indexes_ok_def index_ok_def)
  note f = key_obj_row [OF x(3) this]
  have "has_key db (ix_hash ix) ty (ObjPtr k) r = peq db ty (FieldPtr r (nat (ix_field i))) (ObjPtr k)"
    using Some by (simp add: has_key_def hkey_def)
  also have "\<dots> = eq (key_obj db (FieldPtr r (nat (ix_field i)))) k"
    using eq by (simp add: peq_def key_equal_def key_seen_def, simp add: key_obj_def)
  finally show ?thesis using Some f by (simp add: row_has_def)
qed

lemma select_view:
  assumes view: "db_view db xs" and found: "kr_get_table db tid = Some (Some t)"
    and ixf: "kr_get_table_index db t iid = Some (Some ix)" and ty: "map_option fst (db_hts db (ix_hash ix)) = Some ty"
    and eq: "kr_get_equal_func ty = Some eq" "ty \<noteq> KR_TYPE_POINTER"
  shows "\<exists>la. kr_db_select tid iid (ObjPtr k) db = Some la \<and>
    (case la of None \<Rightarrow> filter (row_has db ix eq k) xs = []
     | Some a \<Rightarrow> \<exists>l. db_lists db a = Some l \<and> l_ok l \<and> l_seq l \<noteq> [] \<and>
         map (row_of db) (l_seq l) = filter (row_has db ix eq k) xs)"
proof -
  from view obtain lg where ok: "db_ok db lg" and xs: "xs = map (row_of db) lg" unfolding db_view_def by blast
  from ty obtain ht where h: "db_hts db (ix_hash ix) = Some (ty, ht)" by auto
  from db_okD(7) [OF ok] h obtain own where st: "ht_state db own (ix_hash ix) lg ty ht" unfolding idx_inv_def by blast
  let ?b = "bucket db (ix_hash ix) ty lg (ObjPtr k)"
  have b: "filter (row_has db ix eq k) xs = map (row_of db) ?b"
    unfolding xs bucket_def filter_map comp_def
    using has_key_row [OF ok _ eq, of _ ix k] by (auto intro!: arg_cong [of _ _ "map (row_of db)"] filter_cong)
  have sel: "kr_db_select tid iid (ObjPtr k) db = Some (null_if_absent (ht_map (ht_bind db ty ht) (ObjPtr k)))"
    using found ixf h lookup_state [OF st] by (simp add: kr_db_select_def kr_get_record_list_def)
  show ?thesis
  proof (cases "?b = []")
    case True
    then have "ht_map (ht_bind db ty ht) (ObjPtr k) = None" using st by (simp add: ht_state_def)
    with sel b True show ?thesis by (simp add: null_if_absent_def)
  next
    case False
    then obtain la where la: "ht_map (ht_bind db ty ht) (ObjPtr k) = Some (Some la)" "rec_list db own (ix_hash ix) ?b la"
      using st unfolding ht_state_def by metis
    with sel b False show ?thesis by (auto simp: rec_list_def null_if_absent_def)
  qed
qed

section \<open>Histories\<close>

text \<open>A sequence of insertions into one table.\<close>

primrec insert_all :: "int \<Rightarrow> 'd list \<Rightarrow> 'd T_KRDB \<Rightarrow> 'd T_KRDB option" where
  "insert_all tid [] db = Some db"
| "insert_all tid (m # ms) db = do { (r, db') \<leftarrow> kr_db_insert tid m db; insert_all tid ms db' }"

lemma schema_tables:
  assumes "same_schema db db'" and "db_tables db t = Some tb"
  shows "\<exists>tb'. db_tables db' t = Some tb' \<and> tb_fields tb' = tb_fields tb \<and> tb_map_pre tb' = tb_map_pre tb \<and>
    tb_map_func tb' = tb_map_func tb \<and> length (tb_buff tb') = length (tb_buff tb)"
  using assms by (auto simp: same_schema_def dest!: spec [of _ t])

lemma schema_mapped:
  assumes "tb_fields tb' = tb_fields tb" "tb_map_pre tb' = tb_map_pre tb" "tb_map_func tb' = tb_map_func tb"
  shows "mapped tb' = mapped tb" "all_fit tb' = all_fit tb"
proof -
  show "mapped tb' = mapped tb" by (intro ext) (simp only: mapped_def assms)
  then show "all_fit tb' = all_fit tb" by (intro ext) (simp only: all_fit_def assms)
qed

lemma insert_all_view:
  assumes "db_view db xs" and "kr_get_table db tid = Some (Some t)" and "db_tables db t = Some tb"
    and "\<forall>m \<in> set ms. all_fit tb m \<and> indexable db t tb m"
  shows "\<exists>db'. insert_all tid ms db = Some db' \<and> same_schema db db' \<and>
    db_view db' (fold (\<lambda>m. push (length (tb_buff tb)) t (mapped tb m)) ms xs)"
  using assms
proof (induction ms arbitrary: db tb xs)
  case Nil
  then show ?case by simp
next
  case (Cons m ms)
  have "all_fit tb m" "indexable db t tb m" using Cons.prems(4) by simp_all
  from insert_view [OF Cons.prems(1,2,3) this] obtain r db1 where d1: "kr_db_insert tid m db = Some (Some r, db1)"
      "db_view db1 (push (length (tb_buff tb)) t (mapped tb m) xs)" "same_schema db db1"
    by blast
  from schema_tables [OF d1(3) Cons.prems(3)] obtain tb1 where t1: "db_tables db1 t = Some tb1" "tb_fields tb1 = tb_fields tb"
      "tb_map_pre tb1 = tb_map_pre tb" "tb_map_func tb1 = tb_map_func tb" "length (tb_buff tb1) = length (tb_buff tb)"
    by blast
  note mp = schema_mapped [OF t1(2-4)]
  have "kr_get_table db1 tid = Some (Some t)"
    using get_table_conf [of db db1 tid] d1(3) Cons.prems(2) by (simp add: same_schema_def)
  moreover have "\<forall>m \<in> set ms. all_fit tb1 m \<and> indexable db1 t tb1 m"
    using Cons.prems(4) d1(3) mp by (simp add: indexable_def same_schema_def)
  ultimately obtain db2 where d2: "insert_all tid ms db1 = Some db2" "same_schema db1 db2"
      "db_view db2 (fold (\<lambda>m. push (length (tb_buff tb1)) t (mapped tb1 m)) ms (push (length (tb_buff tb)) t (mapped tb m) xs))"
    using Cons.IH [OF d1(2) _ t1(1)] by blast
  then show ?case using d1 same_schema_trans [OF d1(3) d2(2)] mp t1(5) by simp
qed

text \<open>Pushing onto an empty table keeps the last rows.\<close>

lemma push_recent:
  assumes "0 < n"
  shows "fold (\<lambda>v. push n t v) vs [] = map (Pair t) (drop (length vs - n) vs)"
proof (induction vs rule: rev_induct)
  case Nil
  then show ?case by simp
next
  case (snoc v vs)
  have all: "table_rows t (map (Pair t) ys) = map (Pair t) ys" for ys :: "kr_key list list"
    by (simp add: table_rows_def filter_map comp_def)
  have rm: "remove_first (\<lambda>x. fst x = t) (map (Pair t) ys) = map (Pair t) (tl ys)" for ys :: "kr_key list list"
    by (cases ys) simp_all
  show ?case
  proof (cases "length vs < n")
    case True
    with snoc.IH show ?thesis by (simp add: push_def all)
  next
    case False
    then have "length vs - n < length vs" "Suc (length vs) - n = Suc (length vs - n)" using assms by simp_all
    with snoc.IH False show ?thesis
      by (simp add: push_def all rm tl_drop drop_Suc [symmetric] del: drop_Suc)
  qed
qed

end
