(* ===== verification/KR_DB_Build.thy ===== *)
theory KR_DB_Build
  imports KR_DB_View
begin

text \<open>
  Setting a database up: \<open>kr_create_db\<close>, \<open>kr_create_table\<close> and \<open>kr_create_index\<close> establish the
  invariant that the insertions keep.
\<close>

section \<open>Empty indexes\<close>

lemma ht_state_empty:
  assumes "ht_state db own h [] ty ht"
  shows "ht_state db' own' h' [] ty' ht"
proof -
  have ok: "ht_ok (ht_bind db ty ht)" and keys: "ht_keys ht = {}"
    using assms by (auto simp: ht_state_def)
  have map: "ht_map (ht_bind db ty ht) x = None" for x using assms by (simp add: ht_state_def bucket_def)
  have "ht_bind db' ty' ht = (ht_bind db ty ht)\<lparr>ht_hash_func := key_hash db' ty', ht_key_equal_func := key_equal db' ty'\<rparr>"
    by (simp add: ht_bind_def)
  moreover have "ht_ok \<dots>" using ok by (rule ht_ok_rebind) (simp_all add: keys)
  moreover have "ht_map (ht_bind db' ty' ht) x = ht_map (ht_bind db ty ht) x" for x
    unfolding ht_map_def bind_funcs by (rule nodes_map_cong) (use keys in \<open>simp add: ht_keys_def\<close>)
  ultimately show ?thesis using map keys by (simp add: ht_state_def bucket_def)
qed

lemma new_ht_state:
  assumes "kr_hashtable_new ph (Some (key_hash db ty)) (key_equal db ty) = Some ht"
  shows "ht_state db own h [] ty ht"
proof -
  have full: "kr_hashtable_new_full ph (Some (key_hash db ty)) (key_equal db ty) False False = Some ht"
    using assms by (simp add: kr_hashtable_new_def)
  from new_full_spec [of ph "Some (key_hash db ty)" "key_equal db ty" False False]
  obtain ht0 :: "(field_ptr, nat) T_KRHashTable" where h0:
      "kr_hashtable_new_full ph (Some (key_hash db ty)) (key_equal db ty) False False = Some ht0"
      "ht_ok ht0" "ht_map ht0 = (\<lambda>_. None)" "ht_hash_func ht0 = key_hash db ty" "ht_key_equal_func ht0 = key_equal db ty"
    by auto
  with full have s: "ht_ok ht" "ht_map ht = (\<lambda>_. None)" "ht_hash_func ht = key_hash db ty" "ht_key_equal_func ht = key_equal db ty"
    by simp_all
  then have "ht_bind db ty ht = ht" by (simp add: ht_bind_def)
  with s new_full_keys [OF full] show ?thesis by (simp add: ht_state_def bucket_def)
qed

lemma new_ht_some: "\<exists>ht. kr_hashtable_new ph hf ef = Some ht"
  using new_full_spec [of ph hf ef False False] by (auto simp: kr_hashtable_new_def)

definition blank :: "'d T_KRDB \<Rightarrow> bool" where
  "blank db \<longleftrightarrow> (\<forall>h ty ht. db_hts db h = Some (ty, ht) \<longrightarrow> ht_state db (\<lambda>_. 0) h [] ty ht)"

lemma blank_inv: "blank db \<Longrightarrow> idx_inv db (\<lambda>_. [])"
  unfolding blank_def idx_inv_def by blast

lemma inv_blank: "idx_inv db (\<lambda>_. []) \<Longrightarrow> blank db"
  unfolding blank_def idx_inv_def using ht_state_empty by blast

lemma blank_add:
  fixes db db0 db' :: "'d T_KRDB"
  assumes "blank db" and "\<And>h ty ht. db_hts db' h = Some (ty, ht) \<Longrightarrow>
    db_hts db h = Some (ty, ht) \<or> kr_hashtable_new ph (Some (key_hash db0 ty)) (key_equal db0 ty) = Some ht"
  shows "blank db'"
  unfolding blank_def
proof (intro allI impI)
  fix h ty ht assume "db_hts db' h = Some (ty, ht)"
  from assms(2) [OF this] show "ht_state db' (\<lambda>_. 0) h [] ty ht"
  proof
    assume "db_hts db h = Some (ty, ht)"
    with assms(1) have "ht_state db (\<lambda>_. 0) h [] ty ht" by (simp add: blank_def)
    then show ?thesis by (rule ht_state_empty)
  next
    assume "kr_hashtable_new ph (Some (key_hash db0 ty)) (key_equal db0 ty) = Some ht"
    from new_ht_state [OF this, of "\<lambda>_. 0" h] show ?thesis by (rule ht_state_empty)
  qed
qed

section \<open>A database without records\<close>

text \<open>Indexes that share the hash table of \<open>ix\<close> have its number.\<close>

definition ids_agree :: "T_KRIndex \<Rightarrow> T_KRIndex set \<Rightarrow> bool" where
  "ids_agree ix S \<longleftrightarrow> (\<forall>ix' \<in> S. ix_hash ix' = ix_hash ix \<longrightarrow> ix_id ix' = ix_id ix)"

definition all_idxs :: "'d T_KRDB \<Rightarrow> T_KRIndex set" where
  "all_idxs db = (\<Union>t. set (idxs db t)) \<union> {ix. Ix ix \<in> set (l_seq (db_index_list db))}"

definition index_list_ok :: "'d T_KRDB \<Rightarrow> bool" where
  "index_list_ok db \<longleftrightarrow> l_ok (db_index_list db) \<and> l_match (db_index_list db) = Some kr_indexid_match \<and>
     (\<forall>v \<in> set (l_seq (db_index_list db)). \<exists>ix. v = Ix ix \<and> db_hts db (ix_hash ix) \<noteq> None \<and> ids_agree ix (all_idxs db))"

definition fresh_ok :: "'d T_KRDB \<Rightarrow> bool" where
  "fresh_ok db \<longleftrightarrow> (\<forall>a \<ge> db_fresh db. db_tables db a = None \<and> db_hts db a = None)"

definition built :: "'d T_KRDB \<Rightarrow> bool" where
  "built db \<longleftrightarrow> db_ok db [] \<and> index_list_ok db \<and> fresh_ok db"

lemma index_list_mono:
  assumes "index_list_ok db" and "db_index_list db' = db_index_list db" and "idxs db' = idxs db"
    and "\<And>h. db_hts db h \<noteq> None \<Longrightarrow> db_hts db' h \<noteq> None"
  shows "index_list_ok db'"
proof -
  have "all_idxs db' = all_idxs db" by (simp only: all_idxs_def assms(2,3))
  with assms(1,2,4) show ?thesis unfolding index_list_ok_def by fastforce
qed

lemma ids_agree_sym: "ids_agree a S \<Longrightarrow> b \<in> S \<Longrightarrow> ix_hash b = ix_hash a \<Longrightarrow> ix_id b = ix_id a"
  by (simp add: ids_agree_def)

lemma built_view: "built db \<Longrightarrow> db_view db []"
  by (auto simp: built_def db_view_def)

lemma new_list_match [simp]: "l_ok (kr_list_new\<lparr>l_match := m\<rparr>)" "l_seq (kr_list_new\<lparr>l_match := m\<rparr>) = []"
proof -
  have "dll (kr_list_new\<lparr>l_match := m\<rparr>) []" using dll_new by (simp add: dll_def kr_list_new_def)
  from this dll_seq [OF this] show "l_ok (kr_list_new\<lparr>l_match := m\<rparr>)" "l_seq (kr_list_new\<lparr>l_match := m\<rparr>) = []"
    unfolding l_ok_def by (blast, simp add: l_vals_def)
qed

lemma create_db_built: "built (kr_create_db name addr :: 'd T_KRDB)"
proof -
  let ?db = "kr_create_db name addr :: 'd T_KRDB"
  have e: "db_tables ?db = (\<lambda>_. None)" "db_hts ?db = (\<lambda>_. None)"
      "db_table_list ?db = kr_list_new\<lparr>l_match := Some kr_tableid_match\<rparr>"
      "db_index_list ?db = kr_list_new\<lparr>l_match := Some kr_indexid_match\<rparr>"
    by (simp_all add: kr_create_db_def)
  have "slots ?db = {}" by (auto simp: slots_def e)
  moreover have "idxs ?db t = []" for t by (simp add: idxs_def e)
  ultimately show ?thesis
    unfolding built_def db_ok_def table_list_ok_def shared_ok_def idx_inv_def index_list_ok_def fresh_ok_def e
    by simp
qed

section \<open>Tables\<close>

definition table_fits :: "'d T_KRDB \<Rightarrow> int \<Rightarrow> T_KRFieldDef list \<Rightarrow> bool" where
  "table_fits db keep_value fds \<longleftrightarrow> 0 < keep_value \<and> 0 \<le> 16 + sum_list (map field_size fds) \<and>
     KR_MEMALIGN (16 + sum_list (map field_size fds)) * keep_value < 2 ^ 31 \<and>
     int (card (slots db)) + keep_value + 1 < 2 ^ 29 \<and> Suc (length (l_seq (db_table_list db))) < 2 ^ 32"

lemma KR_MEMALIGN_ge: "n \<le> KR_MEMALIGN n"
  unfolding KR_MEMALIGN_def by presburger

lemma create_table_built:
  assumes b: "built db" and cnt: "0 \<le> cnt" and load: "load tid (replicate (nat cnt) zero_def) = Some fds"
    and len: "length fds = nat cnt" and fit: "table_fits db keep fds"
  shows "\<exists>db' tb. kr_create_table db tid name mode keep cnt load pre func = Some (db_fresh db, db') \<and> built db' \<and>
    db_tables db' = (db_tables db)(db_fresh db \<mapsto> tb) \<and> tb_id tb = tid \<and> tb_fields tb = fds \<and> tb_map_pre tb = pre \<and>
    tb_map_func tb = func \<and> length (tb_buff tb) = nat keep \<and> idxs db' = idxs db \<and>
    l_seq (db_table_list db') = l_seq (db_table_list db) @ [Tb (db_fresh db) tid] \<and>
    db_index_list db' = db_index_list db \<and> db_hts db' = db_hts db"
proof -
  let ?sz = "16 + sum_list (map field_size fds)" and ?t = "db_fresh db"
  have ok: "db_ok db []" and il: "index_list_ok db" and fr: "fresh_ok db" using b by (simp_all add: built_def)
  note okD = db_okD [OF ok]
  have f: "0 < keep" "0 \<le> ?sz" "KR_MEMALIGN ?sz * keep < 2 ^ 31" "int (card (slots db)) + keep + 1 < 2 ^ 29"
      "Suc (length (l_seq (db_table_list db))) < 2 ^ 32"
    using fit by (simp_all add: table_fits_def)
  have ge: "?sz \<le> KR_MEMALIGN ?sz" by (rule KR_MEMALIGN_ge)
  have "KR_MEMALIGN ?sz * 1 \<le> KR_MEMALIGN ?sz * keep" using f(1,2) ge by (intro mult_left_mono) auto
  then have sz: "KR_MEMALIGN ?sz < 2 ^ 31" "?sz < 2 ^ 31" using f(3) ge by linarith+
  from okD(1) have tl: "l_ok (db_table_list db)" "l_match (db_table_list db) = Some kr_tableid_match"
    by (simp_all add: table_list_ok_def)
  from add_tail_seq [OF tl(1) f(5), of "Tb ?t tid"] obtain l' where l': "kr_list_add_tail (db_table_list db) (Tb ?t tid) = Some l'"
      "l_ok l'" "l_seq l' = l_seq (db_table_list db) @ [Tb ?t tid]" "same_conf (db_table_list db) l'"
    by blast
  define tb where "tb = \<lparr>tb_id = tid, tb_name = take 31 name, tb_map_pre = pre, tb_map_func = func,
     tb_keep_mode = mode, tb_keep_value = keep, tb_field_cnt = cnt, tb_record_size = KR_MEMALIGN ?sz,
     tb_buff = replicate (nat keep) (zero_rec fds), tb_fields = fds, tb_loc = 0, tb_num = 0,
     tb_indexes = kr_list_new\<lparr>l_match := Some kr_indexid_match\<rparr>\<rparr>"
  let ?db' = "db\<lparr>db_table_list := l', db_tables := (db_tables db)(?t \<mapsto> tb), db_fresh := ?t + 1\<rparr>"
  have call: "kr_create_table db tid name mode keep cnt load pre func = Some (?t, ?db')"
    using cnt load sz f(1,2) ge l'(1) by (simp add: kr_create_table_def tb_def Let_def)
  have none: "db_tables db ?t = None" using fr by (simp add: fresh_ok_def)
  have idx: "idxs ?db' = idxs db" using none by (intro ext) (simp add: idxs_def tb_def)
  have new_slots: "slots ?db' = slots db \<union> Pair ?t ` {..<nat keep}"
    using none by (auto simp: slots_def tb_def split: if_splits)
  have "card (slots ?db') \<le> card (slots db) + card (Pair ?t ` {..<nat keep})" unfolding new_slots by (rule card_Un_le)
  also have "\<dots> = card (slots db) + nat keep" by (simp add: card_image inj_on_def)
  finally have card: "card (slots ?db') + 1 < 2 ^ 29" using f(1,4) by simp
  have iok: "indexes_ok ?db' t' tb'" if "db_tables db t' = Some tb'" for t' tb'
    using indexes_ok_cong [OF tb_okD(1) [OF okD(8) [OF that]], of ?db' tb'] idx by simp
  have "tb_ok ?db' [] t' tb'" if t': "db_tables ?db' t' = Some tb'" for t' tb'
  proof (cases "t' = ?t")
    case True
    with t' have tb': "tb' = tb" by simp
    have "idxs ?db' ?t = []" using idx none by (simp add: idxs_def)
    then have "indexes_ok ?db' ?t tb" by (simp add: indexes_ok_def tb_def)
    moreover have "slots_ok [] ?t tb" by (simp add: slots_ok_def tb_def zero_rec_def)
    moreover have "ring_ok [] ?t tb" using f(1) by (simp add: ring_ok_def tb_def ring_def Let_def)
    ultimately show ?thesis
      using f(1-3) ge cnt len True tb' by (simp add: tb_ok_def) (simp add: tb_def)
  next
    case False
    with t' have old: "db_tables db t' = Some tb'" by simp
    show ?thesis using okD(8) [OF old] iok [OF old] by (simp add: tb_ok_def)
  qed
  moreover have "idx_inv ?db' (\<lambda>_. [])"
    by (rule blank_inv, rule blank_add [OF inv_blank [OF okD(7)]]) simp
  moreover have "table_list_ok ?db'"
    unfolding table_list_ok_def
  proof (intro conjI ballI)
    show "l_ok (db_table_list ?db')" using l'(2) by simp
    show "l_match (db_table_list ?db') = Some kr_tableid_match" using l'(4) tl(2) by (simp add: same_conf_def)
    show "\<exists>t tb. db_tables ?db' t = Some tb \<and> v = Tb t (tb_id tb)" if "v \<in> set (l_seq (db_table_list ?db'))" for v
    proof (cases "v = Tb ?t tid")
      case True
      then show ?thesis by (intro exI [of _ ?t] exI [of _ tb]) (simp add: tb_def)
    next
      case False
      with that l'(3) have "v \<in> set (l_seq (db_table_list db))" by simp
      with okD(1) obtain t0 tb0 where t0: "db_tables db t0 = Some tb0" "v = Tb t0 (tb_id tb0)"
        unfolding table_list_ok_def by blast
      with none have "t0 \<noteq> ?t" by auto
      with t0 show ?thesis by (intro exI [of _ t0] exI [of _ tb0]) simp
    qed
  qed
  moreover have "shared_ok ?db'" using okD(2) unfolding shared_ok_def idx .
  ultimately have "db_ok ?db' []" using okD(3) new_slots card by (simp add: db_ok_def)
  moreover have "index_list_ok ?db'" by (rule index_list_mono [OF il _ idx]) simp_all
  moreover have "fresh_ok ?db'" using fr by (simp add: fresh_ok_def)
  ultimately have "built ?db'" by (simp add: built_def)
  with call idx l'(3) show ?thesis by (intro exI [of _ ?db'] exI [of _ tb]) (simp add: tb_def)
qed

section \<open>Indexes\<close>

lemma list_index_refs: "l_seq l = map Ix xs \<Longrightarrow> List.map_filter (\<lambda>v. index_of_ref (Some v)) (l_seq l) = xs"
  by (induction xs arbitrary: l) (simp_all add: List.map_filter_def index_of_ref_def comp_def)

lemma db_index_inv:
  assumes b: "built db" and ix: "ix \<in> set (idxs db t)"
  shows "db_hts db (ix_hash ix) \<noteq> None" "ix_hash ix < db_fresh db"
proof -
  from ix obtain tb where tb: "db_tables db t = Some tb" by (cases "db_tables db t") (auto simp: idxs_def)
  have "index_ok db tb ix"
    using tb_okD(1) [OF db_okD(8) [OF _ tb, of "[]"]] b ix by (simp add: built_def indexes_ok_def)
  then show n: "db_hts db (ix_hash ix) \<noteq> None" by (auto simp: index_ok_def)
  have "fresh_ok db" using b by (simp add: built_def)
  with n show "ix_hash ix < db_fresh db" unfolding fresh_ok_def by (metis not_le)
qed

lemma new_index_table_built:
  fixes db :: "'a T_KRDB"
  assumes b: "built db"
  shows "\<exists>db'. new_index_table db ty = Some (db_fresh db, db') \<and> built db' \<and> idxs db' = idxs db \<and>
    db_tables db' = db_tables db \<and> db_table_list db' = db_table_list db \<and> db_index_list db' = db_index_list db \<and>
    map_option fst (db_hts db' (db_fresh db)) = Some ty \<and> db_hts db (db_fresh db) = None \<and>
    (\<forall>h. h \<noteq> db_fresh db \<longrightarrow> db_hts db' h = db_hts db h)"
proof -
  have ok: "db_ok db []" and il: "index_list_ok db" and fr: "fresh_ok db" using b by (simp_all add: built_def)
  let ?ph = "\<lambda>p. ucast (db_addr db p) :: u32"
  from new_ht_some obtain ht :: "(field_ptr, nat) T_KRHashTable" where ht: "kr_hashtable_new ?ph (Some (key_hash db ty)) (key_equal db ty) = Some ht" by blast
  let ?db' = "db\<lparr>db_hts := (db_hts db)(db_fresh db \<mapsto> (ty, ht)), db_fresh := Suc (db_fresh db)\<rparr>"
  have idx: "idxs ?db' = idxs db" by (intro ext) (simp add: idxs_def)
  have none: "db_hts db (db_fresh db) = None" using fr by (simp add: fresh_ok_def)
  have "index_ok ?db' tb ix" if "index_ok db tb ix" for tb :: "'a T_KRTable" and ix
    using that none by (auto simp: index_ok_def)
  then have "indexes_ok ?db' t tb" if "indexes_ok db t tb" for t tb
    using that by (simp add: indexes_ok_def idx)
  then have "tb_ok ?db' [] t tb" if "tb_ok db [] t tb" for t tb
    using that by (simp add: tb_ok_def)
  moreover have "idx_inv ?db' (\<lambda>_. [])"
    by (rule blank_inv, rule blank_add [OF inv_blank [OF db_okD(7) [OF ok]], where ph = ?ph and ?db0.0 = db])
       (use ht in \<open>auto split: if_splits\<close>)
  moreover have "slots ?db' = slots db" by (simp add: slots_def)
  moreover have "shared_ok ?db'" using db_okD(2) [OF ok] unfolding shared_ok_def idx .
  ultimately have "db_ok ?db' []"
    using ok by (simp add: db_ok_def table_list_ok_def)
  moreover have "index_list_ok ?db'" by (rule index_list_mono [OF il _ idx]) auto
  moreover have "fresh_ok ?db'" using fr by (simp add: fresh_ok_def)
  ultimately have "built ?db'" by (simp add: built_def)
  with ht none idx show ?thesis by (intro exI [of _ ?db']) (simp add: new_index_table_def)
qed

lemma add_table_index_built:
  fixes db :: "'a T_KRDB"
  assumes b: "built db" and tb: "db_tables db t = Some tb" and i: "index_ok db tb ix"
    and id: "ix_id ix \<notin> ix_id ` set (idxs db t)"
    and agree: "ids_agree ix (all_idxs db)"
    and len: "Suc (length (idxs db t)) < 2 ^ 32"
  shows "\<exists>db' l. add_table_index db t ix = Some db' \<and> built db' \<and> idxs db' = (idxs db)(t := idxs db t @ [ix]) \<and>
    db_index_list db' = db_index_list db \<and> db_table_list db' = db_table_list db \<and> db_hts db' = db_hts db \<and>
    db_tables db' = (db_tables db)(t \<mapsto> tb\<lparr>tb_indexes := l\<rparr>)"
proof -
  have ok: "db_ok db []" and il: "index_list_ok db" and fr: "fresh_ok db" using b by (simp_all add: built_def)
  note okD = db_okD [OF ok]
  note iok = tb_okD(1) [OF okD(8) [OF tb]]
  have l: "l_ok (tb_indexes tb)" "l_seq (tb_indexes tb) = map Ix (idxs db t)" "l_match (tb_indexes tb) = Some kr_indexid_match"
    using iok by (simp_all add: indexes_ok_def)
  from add_tail_seq [OF l(1), of "Ix ix"] len l(2) obtain l' where l': "kr_list_add_tail (tb_indexes tb) (Ix ix) = Some l'"
      "l_ok l'" "l_seq l' = map Ix (idxs db t @ [ix])" "same_conf (tb_indexes tb) l'"
    by auto
  let ?tb = "tb\<lparr>tb_indexes := l'\<rparr>"
  let ?db' = "db\<lparr>db_tables := (db_tables db)(t \<mapsto> ?tb)\<rparr>"
  have idx: "idxs ?db' = (idxs db)(t := idxs db t @ [ix])"
    using list_index_refs [OF l'(3)] by (intro ext) (simp add: idxs_def)
  have slots: "slots ?db' = slots db" using tb by (auto simp: slots_def split: if_splits)
  have shared: "ix_id ix' = ix_id ix" if "ix' \<in> set (idxs db t')" "ix_hash ix' = ix_hash ix" for ix' t'
    using ids_agree_sym [OF agree] that by (auto simp: all_idxs_def)
  have hash: "ix_hash ix \<notin> ix_hash ` set (idxs db t)"
  proof
    assume "ix_hash ix \<in> ix_hash ` set (idxs db t)"
    then obtain ix' where m: "ix' \<in> set (idxs db t)" "ix_hash ix = ix_hash ix'" by (rule imageE)
    have "ix_id ix' = ix_id ix" by (rule shared [OF m(1)]) (simp add: m(2))
    with imageI [OF m(1), of ix_id] id show False by simp
  qed
  have i': "index_ok ?db' tb' ix'" if "index_ok db tb0 ix'" "tb_fields tb' = tb_fields tb0" for tb' tb0 :: "'a T_KRTable" and ix'
    using that by (simp add: index_ok_def)
  have "tb_ok ?db' [] t' tb'" if t': "db_tables ?db' t' = Some tb'" for t' tb'
  proof (cases "t' = t")
    case True
    with t' have tb': "tb' = ?tb" by simp
    have "indexes_ok ?db' t ?tb"
      using iok i id hash l' l(3) i' [of tb _ ?tb] by (auto simp: indexes_ok_def idx same_conf_def)
    with okD(8) [OF tb] show ?thesis
      unfolding True tb' tb_ok_def by (simp add: slots_ok_def ring_ok_def)
  next
    case False
    with t' have old: "db_tables db t' = Some tb'" by simp
    then have "indexes_ok ?db' t' tb'"
      using tb_okD(1) [OF okD(8) [OF old]] False i' [of tb' _ tb'] by (simp add: indexes_ok_def idx)
    with okD(8) [OF old] show ?thesis by (simp add: tb_ok_def)
  qed
  moreover have "idx_inv ?db' (\<lambda>_. [])"
    by (rule blank_inv, rule blank_add [OF inv_blank [OF okD(7)]]) simp
  moreover have "table_list_ok ?db'"
    unfolding table_list_ok_def
  proof (intro conjI ballI)
    fix v assume "v \<in> set (l_seq (db_table_list ?db'))"
    with okD(1) obtain t0 tb0 where t0: "db_tables db t0 = Some tb0" "v = Tb t0 (tb_id tb0)"
      unfolding table_list_ok_def by auto
    show "\<exists>t tb. db_tables ?db' t = Some tb \<and> v = Tb t (tb_id tb)"
    proof (cases "t0 = t")
      case True
      with t0 tb show ?thesis by (intro exI [of _ t] exI [of _ ?tb]) simp
    next
      case False
      with t0 show ?thesis by (intro exI [of _ t0] exI [of _ tb0]) simp
    qed
  qed (use okD(1) in \<open>simp_all add: table_list_ok_def\<close>)
  moreover have "shared_ok ?db'"
    unfolding shared_ok_def
  proof (intro allI ballI impI)
    fix t1 t2 a b assume ab: "a \<in> set (idxs ?db' t1)" "b \<in> set (idxs ?db' t2)" "ix_hash a = ix_hash b"
    have old: "x = ix \<or> x \<in> set (idxs db t')" if "x \<in> set (idxs ?db' t')" for x t'
      using that by (auto simp: idx split: if_splits)
    show "ix_id a = ix_id b"
    proof (cases "a = ix")
      case True
      then show ?thesis using old [OF ab(2)] ab(3) shared [of b t2] by auto
    next
      case False
      then have a: "a \<in> set (idxs db t1)" using old [OF ab(1)] by simp
      show ?thesis
      proof (cases "b = ix")
        case True
        then show ?thesis using ab(3) shared [OF a] by simp
      next
        case False
        then have "b \<in> set (idxs db t2)" using old [OF ab(2)] by simp
        then show ?thesis using okD(2) a ab(3) unfolding shared_ok_def by blast
      qed
    qed
  qed
  ultimately have "db_ok ?db' []" using okD(3,4) slots by (simp add: db_ok_def)
  moreover have "index_list_ok ?db'"
    unfolding index_list_ok_def
  proof (intro conjI ballI)
    fix v assume "v \<in> set (l_seq (db_index_list ?db'))"
    then have v: "v \<in> set (l_seq (db_index_list db))" by simp
    with il obtain ix0 where ix0: "v = Ix ix0" "db_hts db (ix_hash ix0) \<noteq> None" "ids_agree ix0 (all_idxs db)"
      unfolding index_list_ok_def by blast
    have "ix0 \<in> all_idxs db" using v ix0(1) by (simp add: all_idxs_def)
    then have "ix_id ix0 = ix_id ix" if "ix_hash ix0 = ix_hash ix" using ids_agree_sym [OF agree] that by blast
    then have "ids_agree ix0 (insert ix (all_idxs db))" using ix0(3) by (auto simp: ids_agree_def)
    moreover have "all_idxs ?db' \<subseteq> insert ix (all_idxs db)" by (auto simp: all_idxs_def idx split: if_splits)
    ultimately have "ids_agree ix0 (all_idxs ?db')" by (auto simp: ids_agree_def)
    with ix0(1,2) show "\<exists>ix. v = Ix ix \<and> db_hts ?db' (ix_hash ix) \<noteq> None \<and> ids_agree ix (all_idxs ?db')"
      by (intro exI [of _ ix0]) simp
  qed (use il in \<open>simp_all add: index_list_ok_def\<close>)
  moreover have "fresh_ok ?db'" using fr tb by (auto simp: fresh_ok_def)
  ultimately have "built ?db'" by (simp add: built_def)
  with tb l'(1) idx show ?thesis by (intro exI [of _ ?db'] exI [of _ l']) (simp add: add_table_index_def)
qed

lemma built_index_list:
  fixes db :: "'a T_KRDB"
  assumes b: "built db" and il: "index_list_ok (db\<lparr>db_index_list := l\<rparr>)"
  shows "built (db\<lparr>db_index_list := l\<rparr>)"
proof -
  let ?db' = "db\<lparr>db_index_list := l\<rparr>"
  have ok: "db_ok db []" and fr: "fresh_ok db" using b by (simp_all add: built_def)
  have idx: "idxs ?db' = idxs db" by (intro ext) (simp add: idxs_def)
  have "index_ok ?db' = index_ok db" by (intro ext) (simp add: index_ok_def)
  then have "tb_ok ?db' = tb_ok db" by (intro ext) (simp only: tb_ok_def indexes_ok_def idx)
  moreover have "idx_inv ?db' (\<lambda>_. [])"
    by (rule blank_inv, rule blank_add [OF inv_blank [OF db_okD(7) [OF ok]]]) simp
  moreover have "shared_ok ?db'" using db_okD(2) [OF ok] unfolding shared_ok_def idx .
  moreover have "slots ?db' = slots db" by (simp add: slots_def)
  ultimately have "db_ok ?db' []" using ok by (simp add: db_ok_def table_list_ok_def)
  with il fr show ?thesis by (simp add: built_def fresh_ok_def)
qed

lemma get_db_index_spec:
  assumes "index_list_ok db"
  shows "\<exists>found. kr_get_db_index db i = Some found \<and>
    (case found of None \<Rightarrow> True | Some ix \<Rightarrow> Ix ix \<in> set (l_seq (db_index_list db)) \<and> ix_id ix = i)"
proof -
  let ?l = "db_index_list db"
  have l: "l_ok ?l" "l_match ?l = Some kr_indexid_match" "\<forall>v \<in> set (l_seq ?l). \<exists>ix. v = Ix ix"
    using assms by (auto simp: index_list_ok_def)
  have f: "list_find ?l (IxId i) = Some (find (\<lambda>v. list_matches ?l v (IxId i)) (l_seq ?l))"
    by (rule list_find_spec [OF l(1)])
  show ?thesis
  proof (cases "find (\<lambda>v. list_matches ?l v (IxId i)) (l_seq ?l)")
    case None
    with f show ?thesis by (simp add: kr_get_db_index_def index_of_ref_def)
  next
    case (Some v)
    then have v: "v \<in> set (l_seq ?l)" "list_matches ?l v (IxId i)" by (auto simp: find_Some_iff)
    with l(3) obtain ix where "v = Ix ix" by blast
    with v f Some show ?thesis
      by (simp add: kr_get_db_index_def index_of_ref_def list_matches_def l(2) kr_indexid_match_def)
  qed
qed

text \<open>An index may be created on a field of a table that has no index of that number yet.\<close>

definition index_fits :: "'d T_KRDB \<Rightarrow> nat \<Rightarrow> 'd T_KRTable \<Rightarrow> int \<Rightarrow> E_KRIndexType \<Rightarrow> int \<Rightarrow> bool" where
  "index_fits db t tb iid kind fld \<longleftrightarrow> 0 \<le> fld \<and> nat fld < length (tb_fields tb) \<and>
     iid \<notin> ix_id ` set (idxs db t) \<and> Suc (length (idxs db t)) < 2 ^ 32 \<and> Suc (length (l_seq (db_index_list db))) < 2 ^ 32 \<and>
     (kind = KR_INDEXTYPE_TABLE \<or> kind = KR_INDEXTYPE_DB \<and>
        (\<forall>ix. kr_get_db_index db iid = Some (Some ix) \<longrightarrow>
           map_option fst (db_hts db (ix_hash ix)) = Some (fd_type (tb_fields tb ! nat fld))))"

lemma own_hash_built:
  fixes db :: "'a T_KRDB"
  assumes b: "built db" and tb: "db_tables db t = Some tb" and fit: "index_fits db t tb iid kind fld"
    and ix: "ix_id ix = iid" "ix_field ix = fld" "ix_sort ix < 0" "ix_hash ix = db_fresh db"
  shows "\<exists>db1 db2 l. new_index_table db (fd_type (tb_fields tb ! nat fld)) = Some (db_fresh db, db1) \<and>
    add_table_index db1 t ix = Some db2 \<and> built db2 \<and> idxs db2 = (idxs db)(t := idxs db t @ [ix]) \<and>
    db_index_list db2 = db_index_list db \<and> db_table_list db2 = db_table_list db \<and>
    db_tables db2 = (db_tables db)(t \<mapsto> tb\<lparr>tb_indexes := l\<rparr>) \<and> db_hts db2 (db_fresh db) \<noteq> None \<and>
    db_hts db (db_fresh db) = None"
proof -
  let ?ty = "fd_type (tb_fields tb ! nat fld)"
  have f: "0 \<le> fld" "nat fld < length (tb_fields tb)" "iid \<notin> ix_id ` set (idxs db t)" "Suc (length (idxs db t)) < 2 ^ 32"
    using fit by (simp_all add: index_fits_def)
  from new_index_table_built [OF b, of ?ty] obtain db1 where d1: "new_index_table db ?ty = Some (db_fresh db, db1)" "built db1"
      "idxs db1 = idxs db" "db_tables db1 = db_tables db" "db_table_list db1 = db_table_list db"
      "db_index_list db1 = db_index_list db" "map_option fst (db_hts db1 (db_fresh db)) = Some ?ty"
      "db_hts db (db_fresh db) = None"
    by blast
  have i: "index_ok db1 tb ix" using f ix d1(7) by (simp add: index_ok_def)
  have other: "ix_hash ix' \<noteq> ix_hash ix" if "ix' \<in> all_idxs db1" for ix'
  proof -
    have "ix' \<in> all_idxs db" using that by (simp add: all_idxs_def d1(3,6))
    then have "db_hts db (ix_hash ix') \<noteq> None"
      using db_index_inv(1) [OF b] b by (auto simp: all_idxs_def built_def index_list_ok_def)
    with d1(8) ix(4) show ?thesis by auto
  qed
  then have agree: "ids_agree ix (all_idxs db1)" by (auto simp: ids_agree_def)
  have t1: "db_tables db1 t = Some tb" "ix_id ix \<notin> ix_id ` set (idxs db1 t)" "Suc (length (idxs db1 t)) < 2 ^ 32"
    using tb f(3,4) ix(1) d1(3,4) by simp_all
  from add_table_index_built [OF d1(2) t1(1) i t1(2) agree t1(3)] obtain db2 l where d2: "add_table_index db1 t ix = Some db2" "built db2"
      "idxs db2 = (idxs db1)(t := idxs db1 t @ [ix])" "db_index_list db2 = db_index_list db1"
      "db_table_list db2 = db_table_list db1" "db_hts db2 = db_hts db1"
      "db_tables db2 = (db_tables db1)(t \<mapsto> tb\<lparr>tb_indexes := l\<rparr>)"
    by blast
  have "db_hts db2 (db_fresh db) \<noteq> None" using d1(7) d2(6) by auto
  with d1 d2 show ?thesis by (intro exI [of _ db1] exI [of _ db2] exI [of _ l]) simp
qed

lemma create_index_built:
  fixes db :: "'a T_KRDB"
  assumes b: "built db" and tb: "db_tables db t = Some tb" and fit: "index_fits db t tb iid kind fld" and sort: "sortfld < 0"
  shows "\<exists>ix db' l. kr_create_index db t iid name kind fld sortfld = Some (Some ix, db') \<and> built db' \<and>
    ix_id ix = iid \<and> ix_field ix = fld \<and> idxs db' = (idxs db)(t := idxs db t @ [ix]) \<and>
    map_option fst (db_hts db' (ix_hash ix)) = Some (fd_type (tb_fields tb ! nat fld)) \<and>
    db_table_list db' = db_table_list db \<and> db_tables db' = (db_tables db)(t \<mapsto> tb\<lparr>tb_indexes := l\<rparr>)"
proof -
  let ?ty = "fd_type (tb_fields tb ! nat fld)"
  have f: "0 \<le> fld" "nat fld < length (tb_fields tb)" "iid \<notin> ix_id ` set (idxs db t)" "Suc (length (idxs db t)) < 2 ^ 32"
      "Suc (length (l_seq (db_index_list db))) < 2 ^ 32"
    using fit by (simp_all add: index_fits_def)
  define mk where "mk = (\<lambda>h. \<lparr>ix_id = iid, ix_name = take 31 name, ix_type = kind, ix_field = fld, ix_sort = sortfld, ix_hash = h\<rparr>)"
  have mk: "ix_id (mk h) = iid" "ix_field (mk h) = fld" "ix_sort (mk h) < 0" "ix_hash (mk h) = h" for h
    using sort by (simp_all add: mk_def)
  have il: "index_list_ok db" using b by (simp add: built_def)
  have ty: "map_option fst (db_hts db' (ix_hash ix)) = Some ?ty"
    if "built db'" "idxs db' = (idxs db)(t := idxs db t @ [ix])" "db_tables db' = (db_tables db)(t \<mapsto> tb\<lparr>tb_indexes := l\<rparr>)"
      "ix_field ix = fld" for ix db' l
  proof -
    have "db_tables db' t = Some (tb\<lparr>tb_indexes := l\<rparr>)" using that(3) by simp
    with that(1) have "indexes_ok db' t (tb\<lparr>tb_indexes := l\<rparr>)" unfolding built_def using tb_okD(1) db_okD(8) by blast
    then have "index_ok db' (tb\<lparr>tb_indexes := l\<rparr>) ix" using that(2) by (simp add: indexes_ok_def)
    then show ?thesis using that(4) by (simp add: index_ok_def)
  qed
  consider (Table) "kind = KR_INDEXTYPE_TABLE"
    | (Found) ix0 where "kind = KR_INDEXTYPE_DB" "kr_get_db_index db iid = Some (Some ix0)"
    | (Fresh) "kind = KR_INDEXTYPE_DB" "kr_get_db_index db iid = Some None"
  proof -
    from get_db_index_spec [OF il, of iid] obtain found where "kr_get_db_index db iid = Some found" by blast
    with fit that show thesis by (cases found) (auto simp: index_fits_def)
  qed
  then show ?thesis
  proof cases
    case Table
    from own_hash_built [OF b tb fit mk [of "db_fresh db"]] obtain db1 db2 l where d:
        "new_index_table db ?ty = Some (db_fresh db, db1)" "add_table_index db1 t (mk (db_fresh db)) = Some db2" "built db2"
        "idxs db2 = (idxs db)(t := idxs db t @ [mk (db_fresh db)])" "db_table_list db2 = db_table_list db"
        "db_tables db2 = (db_tables db)(t \<mapsto> tb\<lparr>tb_indexes := l\<rparr>)"
      by blast
    have "kr_create_index db t iid name kind fld sortfld = Some (Some (mk (db_fresh db)), db2)"
      using Table tb f(1,2) d(1) d(2) [unfolded mk_def] by (simp add: kr_create_index_def Let_def mk_def)
    with d ty [OF d(3,4,6)] mk show ?thesis by blast
  next
    case Found
    from get_db_index_spec [OF il, of iid] Found(2) have ix0: "Ix ix0 \<in> set (l_seq (db_index_list db))" "ix_id ix0 = iid" by auto
    with il have agree0: "ids_agree ix0 (all_idxs db)" by (auto simp: index_list_ok_def)
    let ?ix = "mk (ix_hash ix0)"
    have "ids_agree ?ix (all_idxs db)" using agree0 ix0(2) mk(1,4) by (simp add: ids_agree_def)
    moreover have "index_ok db tb ?ix" using fit Found f(1,2) mk by (simp add: index_ok_def index_fits_def)
    ultimately obtain db' l where d: "add_table_index db t ?ix = Some db'" "built db'"
        "idxs db' = (idxs db)(t := idxs db t @ [?ix])" "db_table_list db' = db_table_list db"
        "db_tables db' = (db_tables db)(t \<mapsto> tb\<lparr>tb_indexes := l\<rparr>)"
      using add_table_index_built [OF b tb, of ?ix] f(3,4) mk(1) by auto
    have "kr_create_index db t iid name kind fld sortfld = Some (Some ?ix, db')"
      using Found tb f(1,2) d(1) [unfolded mk_def] by (simp add: kr_create_index_def Let_def mk_def)
    with d ty [OF d(2,3,5)] mk show ?thesis by blast
  next
    case Fresh
    let ?ix = "mk (db_fresh db)"
    from own_hash_built [OF b tb fit mk [of "db_fresh db"]] obtain db1 db2 l where d:
        "new_index_table db ?ty = Some (db_fresh db, db1)" "add_table_index db1 t ?ix = Some db2" "built db2"
        "idxs db2 = (idxs db)(t := idxs db t @ [?ix])" "db_index_list db2 = db_index_list db"
        "db_table_list db2 = db_table_list db" "db_tables db2 = (db_tables db)(t \<mapsto> tb\<lparr>tb_indexes := l\<rparr>)"
        "db_hts db2 (db_fresh db) \<noteq> None" "db_hts db (db_fresh db) = None"
      by blast
    have il2: "index_list_ok db2" using d(3) by (simp add: built_def)
    then have "l_ok (db_index_list db2)" by (simp add: index_list_ok_def)
    from add_tail_seq [OF this, of "Ix ?ix"] f(5) d(5) obtain l' where l': "kr_list_add_tail (db_index_list db2) (Ix ?ix) = Some l'"
        "l_ok l'" "l_seq l' = l_seq (db_index_list db2) @ [Ix ?ix]" "same_conf (db_index_list db2) l'"
      by auto
    let ?db' = "db2\<lparr>db_index_list := l'\<rparr>"
    have idx: "idxs ?db' = idxs db2" by (intro ext) (simp add: idxs_def)
    have "?ix \<in> all_idxs db2" using d(4) by (auto simp: all_idxs_def)
    then have same: "all_idxs ?db' = all_idxs db2" using l'(3) by (auto simp: all_idxs_def idx)
    have "ix_hash ix' = db_fresh db \<longrightarrow> ix' = ?ix" if "ix' \<in> all_idxs db2" for ix'
    proof (cases "ix' = ?ix")
      case False
      with that have "ix' \<in> all_idxs db" by (auto simp: all_idxs_def d(4,5) split: if_splits)
      then have "db_hts db (ix_hash ix') \<noteq> None"
        using db_index_inv(1) [OF b] il by (auto simp: all_idxs_def index_list_ok_def)
      with d(9) show ?thesis by auto
    qed simp
    then have "ids_agree ?ix (all_idxs db2)" using mk(4) by (auto simp: ids_agree_def)
    then have "index_list_ok ?db'"
      using il2 l' d(8) mk(4) unfolding index_list_ok_def same by (auto simp: same_conf_def)
    from built_index_list [OF d(3) this] have b': "built ?db'" .
    have "kr_create_index db t iid name kind fld sortfld = Some (Some ?ix, ?db')"
      using Fresh tb f(1,2) d(1) d(2) [unfolded mk_def] l'(1) [unfolded mk_def] by (simp add: kr_create_index_def Let_def mk_def)
    moreover have "map_option fst (db_hts ?db' (ix_hash ?ix)) = Some ?ty" using ty [OF d(3,4,7)] mk(2) by simp
    ultimately show ?thesis using b' d(4,6,7) idx mk
      by (intro exI [of _ ?ix] exI [of _ ?db'] exI [of _ l]) simp
  qed
qed

end
