(* ===== verification/KR_DB_Props.thy ===== *)
theory KR_DB_Props
  imports KR_DB_Build
begin

text \<open>The properties of the database of recent records.\<close>

section \<open>A session: set up, insert, select\<close>

text \<open>One table with one index on it, a sequence of messages, a selection.\<close>

definition db_session ::
  "int \<Rightarrow> int \<Rightarrow> int \<Rightarrow> (int \<Rightarrow> T_KRFieldDef list \<Rightarrow> T_KRFieldDef list option) \<Rightarrow> ('d \<Rightarrow> 'd) option \<Rightarrow>
   (nat \<Rightarrow> int \<Rightarrow> 'd \<Rightarrow> kr_key) \<Rightarrow> int \<Rightarrow> E_KRIndexType \<Rightarrow> int \<Rightarrow> int \<Rightarrow> 'd list \<Rightarrow> kr_key \<Rightarrow> (field_ptr \<Rightarrow> u64) \<Rightarrow>
   (nat option \<times> 'd T_KRDB) option" where
  "db_session tid keep cnt load pre func iid kind fld sortfld ms k addr = do {
     (t, db1) \<leftarrow> kr_create_table (kr_create_db ''db'' addr) tid ''table'' KR_SIZEKEEPMODE_RECORD keep cnt load pre func;
     (ix, db2) \<leftarrow> kr_create_index db1 t iid ''index'' kind fld sortfld;
     db3 \<leftarrow> insert_all tid ms db2;
     la \<leftarrow> kr_db_select tid iid (ObjPtr k) db3;
     Some (la, db3)
   }"

definition map_row :: "('d \<Rightarrow> 'd) option \<Rightarrow> (nat \<Rightarrow> int \<Rightarrow> 'd \<Rightarrow> kr_key) \<Rightarrow> T_KRFieldDef list \<Rightarrow> 'd \<Rightarrow> kr_key list" where
  "map_row pre func fds m = map (\<lambda>n. func n (fd_length (fds ! n)) (case pre of Some f \<Rightarrow> f m | None \<Rightarrow> m)) [0..<length fds]"

lemma mapped_row: "mapped tb m = map_row (tb_map_pre tb) (tb_map_func tb) (tb_fields tb) m"
  by (simp add: mapped_def map_row_def)

lemma find_tail:
  assumes "db_ok db lg" and "l_seq (db_table_list db) = [Tb t tid]"
  shows "kr_get_table db tid = Some (Some t)"
proof -
  from get_table_spec [OF db_okD(1) [OF assms(1)], of tid] obtain found where f: "kr_get_table db tid = Some found"
      "case found of None \<Rightarrow> \<forall>t. Tb t tid \<notin> set (l_seq (db_table_list db))
       | Some t \<Rightarrow> Tb t tid \<in> set (l_seq (db_table_list db)) \<and> (\<exists>tb. db_tables db t = Some tb \<and> tb_id tb = tid)"
    by blast
  with assms(2) show ?thesis by (cases found) auto
qed

lemma fold_push_recent:
  assumes "0 < n"
  shows "fold (\<lambda>m. push n t (f m)) ms [] = map (\<lambda>m. (t, f m)) (drop (length ms - n) ms)"
proof -
  have "fold (\<lambda>m. push n t (f m)) ms [] = fold (\<lambda>v. push n t v) (map f ms) []"
    by (simp add: fold_map comp_def)
  also have "\<dots> = map (Pair t) (drop (length ms - n) (map f ms))" using push_recent [OF assms, of t "map f ms"] by simp
  finally show ?thesis by (simp add: drop_map comp_def)
qed

text \<open>The database after the set-up: empty, with one table and one index.\<close>

definition set_up ::
  "'d T_KRDB \<Rightarrow> nat \<Rightarrow> 'd T_KRTable \<Rightarrow> T_KRIndex \<Rightarrow> int \<Rightarrow> int \<Rightarrow> T_KRFieldDef list \<Rightarrow> ('d \<Rightarrow> 'd) option \<Rightarrow>
   (nat \<Rightarrow> int \<Rightarrow> 'd \<Rightarrow> kr_key) \<Rightarrow> int \<Rightarrow> int \<Rightarrow> bool" where
  "set_up db t tb ix tid keep fds pre func iid fld \<longleftrightarrow> built db \<and> kr_get_table db tid = Some (Some t) \<and>
     db_tables db t = Some tb \<and> tb_fields tb = fds \<and> tb_map_pre tb = pre \<and> tb_map_func tb = func \<and>
     length (tb_buff tb) = nat keep \<and> idxs db t = [ix] \<and> ix_id ix = iid \<and> ix_field ix = fld \<and>
     map_option fst (db_hts db (ix_hash ix)) = Some (fd_type (fds ! nat fld))"

lemma set_up_spec:
  assumes cnt: "0 \<le> cnt" "load tid (replicate (nat cnt) zero_def) = Some fds" "length fds = nat cnt"
    and room: "0 < keep" "0 \<le> 16 + sum_list (map field_size fds)"
      "KR_MEMALIGN (16 + sum_list (map field_size fds)) * keep < 2 ^ 31" "keep + 1 < 2 ^ 29"
    and fld: "0 \<le> fld" "nat fld < length fds" "sortfld < 0" "kind = KR_INDEXTYPE_TABLE \<or> kind = KR_INDEXTYPE_DB"
  shows "\<exists>t db1 tb ix db2.
    kr_create_table (kr_create_db ''db'' addr) tid ''table'' KR_SIZEKEEPMODE_RECORD keep cnt load pre func = Some (t, db1) \<and>
    kr_create_index db1 t iid ''index'' kind fld sortfld = Some (Some ix, db2) \<and>
    set_up db2 t tb ix tid keep fds pre func iid fld"
proof -
  let ?db0 = "kr_create_db ''db'' addr :: 'a T_KRDB"
  have e: "slots ?db0 = {}" "db_table_list ?db0 = kr_list_new\<lparr>l_match := Some kr_tableid_match\<rparr>"
    by (auto simp: slots_def kr_create_db_def)
  have "table_fits ?db0 keep fds" using room by (simp add: table_fits_def e)
  from create_table_built [where load = load and tid = tid, OF create_db_built cnt this, of "''table''" KR_SIZEKEEPMODE_RECORD pre func]
  obtain db1 tb where d1: "kr_create_table ?db0 tid ''table'' KR_SIZEKEEPMODE_RECORD keep cnt load pre func = Some (db_fresh ?db0, db1)"
      "built db1" "db_tables db1 = (db_tables ?db0)(db_fresh ?db0 \<mapsto> tb)" "tb_fields tb = fds" "tb_map_pre tb = pre"
      "tb_map_func tb = func" "length (tb_buff tb) = nat keep" "idxs db1 = idxs ?db0"
      "l_seq (db_table_list db1) = l_seq (db_table_list ?db0) @ [Tb (db_fresh ?db0) tid]" "db_index_list db1 = db_index_list ?db0"
    by blast
  let ?t = "db_fresh ?db0"
  have t1: "db_tables db1 ?t = Some tb" using d1(3) by simp
  have i0: "idxs db1 ?t = []" using d1(8) by (simp add: idxs_def kr_create_db_def)
  have il: "l_seq (db_index_list db1) = []" "kr_get_db_index db1 iid = Some None"
  proof -
    show s: "l_seq (db_index_list db1) = []" using d1(10) by (simp add: kr_create_db_def)
    have "index_list_ok db1" using d1(2) by (simp add: built_def)
    from get_db_index_spec [OF this, of iid] s show "kr_get_db_index db1 iid = Some None"
      by (auto split: option.splits)
  qed
  have "index_fits db1 ?t tb iid kind fld" using fld d1(4) i0 il by (auto simp: index_fits_def)
  from create_index_built [OF d1(2) t1 this fld(3), of "''index''"] obtain ix db2 l where d2:
      "kr_create_index db1 ?t iid ''index'' kind fld sortfld = Some (Some ix, db2)" "built db2" "ix_id ix = iid"
      "ix_field ix = fld" "idxs db2 = (idxs db1)(?t := idxs db1 ?t @ [ix])"
      "map_option fst (db_hts db2 (ix_hash ix)) = Some (fd_type (tb_fields tb ! nat fld))"
      "db_table_list db2 = db_table_list db1" "db_tables db2 = (db_tables db1)(?t \<mapsto> tb\<lparr>tb_indexes := l\<rparr>)"
    by blast
  let ?tb = "tb\<lparr>tb_indexes := l\<rparr>"
  have t2: "db_tables db2 ?t = Some ?tb" using d2(8) by simp
  have ok2: "db_ok db2 []" using d2(2) by (simp add: built_def)
  have found: "kr_get_table db2 tid = Some (Some ?t)"
    by (rule find_tail [OF ok2]) (simp add: d2(7) d1(9) e)
  have "idxs db2 ?t = [ix]" using d2(5) i0 by simp
  with d1 d2 found t2 have "set_up db2 ?t ?tb ix tid keep fds pre func iid fld" by (simp add: set_up_def)
  with d1(1) d2(1) show ?thesis by blast
qed

text \<open>Inserting into it.\<close>

lemma set_up_inserts:
  assumes set_up: "set_up db t tb ix tid keep fds pre func iid fld" and keep: "0 < keep"
    and fit: "\<forall>m \<in> set ms. list_all2 fits fds (map_row pre func fds m) \<and> map_row pre func fds m ! nat fld \<noteq> KDouble NaN"
  shows "\<exists>db'. insert_all tid ms db = Some db' \<and>
    db_view db' (map (\<lambda>m. (t, map_row pre func fds m)) (drop (length ms - nat keep) ms)) \<and>
    kr_get_table db' tid = Some (Some t) \<and> kr_get_table_index db' t iid = Some (Some ix) \<and> idxs db' t = [ix] \<and>
    map_option fst (db_hts db' (ix_hash ix)) = Some (fd_type (fds ! nat fld)) \<and> same_schema db db'"
proof -
  have s: "built db" "kr_get_table db tid = Some (Some t)" "db_tables db t = Some tb" "tb_fields tb = fds"
      "tb_map_pre tb = pre" "tb_map_func tb = func" "length (tb_buff tb) = nat keep" "idxs db t = [ix]" "ix_id ix = iid"
      "ix_field ix = fld" "map_option fst (db_hts db (ix_hash ix)) = Some (fd_type (fds ! nat fld))"
    using set_up by (simp_all add: set_up_def)
  have mr: "mapped tb m = map_row pre func fds m" for m by (simp add: mapped_row s(4-6))
  have "\<forall>m \<in> set ms. all_fit tb m \<and> indexable db t tb m"
    using fit s(4,10) by (simp add: all_fit_def indexable_def s(8) mr)
  from insert_all_view [OF built_view [OF s(1)] s(2,3) this] obtain db' where d: "insert_all tid ms db = Some db'"
      "same_schema db db'" "db_view db' (fold (\<lambda>m. push (length (tb_buff tb)) t (mapped tb m)) ms [])"
    by blast
  have view: "db_view db' (map (\<lambda>m. (t, map_row pre func fds m)) (drop (length ms - nat keep) ms))"
    using d(3) fold_push_recent [of "nat keep" t "map_row pre func fds" ms] keep s(7) by (simp add: mr)
  from schema_tables [OF d(2) s(3)] obtain tb' where t': "db_tables db' t = Some tb'" by blast
  from view obtain lg where "db_ok db' lg" by (auto simp: db_view_def)
  from get_table_index_spec [OF t' tb_okD(1) [OF db_okD(8) [OF this t']], of iid]
  have "kr_get_table_index db' t iid = Some (Some ix)" "idxs db' t = [ix]"
    using d(2) s(8,9) by (simp_all add: same_schema_def)
  moreover have "kr_get_table db' tid = Some (Some t)" "map_option fst (db_hts db' (ix_hash ix)) = Some (fd_type (fds ! nat fld))"
    using get_table_conf [of db db' tid] d(2) s(2,11) by (simp_all add: same_schema_def same_conf_db_def)
  ultimately show ?thesis using d(1,2) view by blast
qed

text \<open>
  C10. The database as its clients use it. A database set up from nothing with one table of
  \<open>keep\<close> record slots and one unsorted index returns, for every sequence of messages that fit the fields
  and have no NaN in the indexed one, and for every key, the list
  of exactly those of the last \<open>keep\<close> messages whose indexed field equals the key, mapped to records,
  oldest first; it returns NULL when there is none. Nothing on the way is undefined.
\<close>

theorem db_session_recent_matches:
  assumes cnt: "0 \<le> cnt" "load tid (replicate (nat cnt) zero_def) = Some fds" "length fds = nat cnt"
    and room: "0 < keep" "0 \<le> 16 + sum_list (map field_size fds)"
      "KR_MEMALIGN (16 + sum_list (map field_size fds)) * keep < 2 ^ 31" "keep + 1 < 2 ^ 29"
    and fld: "0 \<le> fld" "nat fld < length fds" "sortfld < 0" "kind = KR_INDEXTYPE_TABLE \<or> kind = KR_INDEXTYPE_DB"
    and eq: "kr_get_equal_func (fd_type (fds ! nat fld)) = Some eq" "fd_type (fds ! nat fld) \<noteq> KR_TYPE_POINTER"
    and fit: "\<forall>m \<in> set ms. list_all2 fits fds (map_row pre func fds m) \<and> map_row pre func fds m ! nat fld \<noteq> KDouble NaN"
  shows "\<exists>la db. db_session tid keep cnt load pre func iid kind fld sortfld ms k addr = Some (la, db) \<and>
    (let rows = filter (\<lambda>v. eq (v ! nat fld) k) (map (map_row pre func fds) (drop (length ms - nat keep) ms))
     in case la of None \<Rightarrow> rows = []
        | Some a \<Rightarrow> \<exists>l. db_lists db a = Some l \<and> l_ok l \<and> rows \<noteq> [] \<and>
            map (\<lambda>r. snd (row_of db r)) (l_seq l) = rows)"
proof -
  let ?ms = "drop (length ms - nat keep) ms"
  let ?rows = "filter (\<lambda>v. eq (v ! nat fld) k) (map (map_row pre func fds) ?ms)"
  from set_up_spec [where load = load and tid = tid, OF cnt room fld, of addr pre func iid] obtain t db1 tb ix db2 where d:
      "kr_create_table (kr_create_db ''db'' addr) tid ''table'' KR_SIZEKEEPMODE_RECORD keep cnt load pre func = Some (t, db1)"
      "kr_create_index db1 t iid ''index'' kind fld sortfld = Some (Some ix, db2)"
      "set_up db2 t tb ix tid keep fds pre func iid fld"
    by blast
  from set_up_inserts [OF d(3) room(1) fit] obtain db3 where i: "insert_all tid ms db2 = Some db3"
      "db_view db3 (map (\<lambda>m. (t, map_row pre func fds m)) ?ms)" "kr_get_table db3 tid = Some (Some t)"
      "kr_get_table_index db3 t iid = Some (Some ix)" "idxs db3 t = [ix]"
      "map_option fst (db_hts db3 (ix_hash ix)) = Some (fd_type (fds ! nat fld))"
    by blast
  have "row_has db3 ix eq k (t, map_row pre func fds m) = eq (map_row pre func fds m ! nat fld) k" for m
    using fld(2) d(3) by (simp add: row_has_def i(5) set_up_def) (simp add: map_row_def)
  then have rows: "filter (row_has db3 ix eq k) (map (\<lambda>m. (t, map_row pre func fds m)) ?ms) = map (Pair t) ?rows"
    by (simp add: filter_map comp_def)
  from select_view [OF i(2-4,6) eq, of k] obtain la where la: "kr_db_select tid iid (ObjPtr k) db3 = Some la"
      "case la of None \<Rightarrow> map (Pair t) ?rows = []
       | Some a \<Rightarrow> \<exists>l. db_lists db3 a = Some l \<and> l_ok l \<and> l_seq l \<noteq> [] \<and> map (row_of db3) (l_seq l) = map (Pair t) ?rows"
    unfolding rows by blast
  have snd: "map (\<lambda>r. snd (row_of db3 r)) rs = vs" if "map (row_of db3) rs = map (Pair t) vs" for rs vs
    using arg_cong [OF that, of "map snd"] by (simp add: comp_def)
  have "case la of None \<Rightarrow> ?rows = []
      | Some a \<Rightarrow> \<exists>l. db_lists db3 a = Some l \<and> l_ok l \<and> ?rows \<noteq> [] \<and> map (\<lambda>r. snd (row_of db3 r)) (l_seq l) = ?rows"
    using la(2) snd by (cases la) auto
  moreover have "db_session tid keep cnt load pre func iid kind fld sortfld ms k addr = Some (la, db3)"
    using d(1,2) i(1) la(1) by (simp add: db_session_def)
  ultimately show ?thesis unfolding Let_def by blast
qed

section \<open>An example database\<close>

definition demo_fds :: "T_KRFieldDef list" where
  "demo_fds = [\<lparr>fd_id = 0, fd_name = ''card'', fd_type = KR_TYPE_INT, fd_length = 4, fd_offset = 0\<rparr>,
               \<lparr>fd_id = 1, fd_name = ''amount'', fd_type = KR_TYPE_DOUBLE, fd_length = 8, fd_offset = 4\<rparr>]"

definition demo_func :: "nat \<Rightarrow> int \<Rightarrow> i32 \<times> kr_double \<Rightarrow> kr_key" where
  "demo_func n len m = (if n = 0 then KInt (fst m) else KDouble (snd m))"

lemma demo_row: "map_row None demo_func demo_fds m = [KInt (fst m), KDouble (snd m)]"
  by (simp add: map_row_def demo_fds_def demo_func_def upt_rec)

lemma demo_facts: "length demo_fds = 2" "16 + sum_list (map field_size demo_fds) = 28" "fd_type (demo_fds ! 0) = KR_TYPE_INT"
  "fd_type (demo_fds ! 1) = KR_TYPE_DOUBLE" "list_all2 fits demo_fds [KInt i, KDouble d]"
  by (simp_all add: demo_fds_def field_size_def fits_def)

theorem db_session_recent_matches_witness:
  "\<exists>a db l. db_session 1 2 2 (\<lambda>_ _. Some demo_fds) None demo_func 10 KR_INDEXTYPE_DB 0 (- 1)
      [(5, Fin 1), (5, Fin 2), (6, Fin 3), (5, Fin 4)] (KInt 5) (\<lambda>_. 0) = Some (Some a, db) \<and>
    db_lists db a = Some l \<and> map (\<lambda>r. snd (row_of db r)) (l_seq l) = [[KInt 5, KDouble (Fin 4)]]"
proof -
  from db_session_recent_matches [where cnt = 2 and load = "\<lambda>_ _. Some demo_fds" and tid = 1 and fds = demo_fds and keep = 2
      and fld = 0 and sortfld = "- 1" and kind = KR_INDEXTYPE_DB and eq = kr_int_equal and pre = None and func = demo_func
      and ms = "[(5, Fin 1), (5, Fin 2), (6, Fin 3), (5, Fin 4)]" and iid = 10 and k = "KInt 5" and addr = "\<lambda>_. 0"]
  obtain la db where "db_session 1 2 2 (\<lambda>_ _. Some demo_fds) None demo_func 10 KR_INDEXTYPE_DB 0 (- 1)
      [(5, Fin 1), (5, Fin 2), (6, Fin 3), (5, Fin 4)] (KInt 5) (\<lambda>_. 0) = Some (la, db)"
      "case la of None \<Rightarrow> False | Some a \<Rightarrow> \<exists>l. db_lists db a = Some l \<and> l_ok l \<and>
         map (\<lambda>r. snd (row_of db r)) (l_seq l) = [[KInt 5, KDouble (Fin 4)]]"
    by (auto simp: demo_row demo_facts KR_MEMALIGN_def split: option.splits)
  then show ?thesis by (cases la) auto
qed

lemma demo_set_up: "\<exists>db t tb ix. set_up db t tb ix 1 2 demo_fds None demo_func 10 0"
  using set_up_spec [where cnt = 2 and load = "\<lambda>_ _. Some demo_fds" and tid = 1 and fds = demo_fds and keep = 2
      and fld = 0 and sortfld = "- 1" and kind = KR_INDEXTYPE_DB and pre = None and func = demo_func and iid = 10 and addr = "\<lambda>_. 0"]
  by (simp add: demo_facts KR_MEMALIGN_def) blast

section \<open>Insertion and selection\<close>

text \<open>
  C11. \<open>kr_db_insert\<close> refines \<open>push\<close>: on every database that holds the rows \<open>xs\<close>, inserting a message
  whose fields fit and whose indexed fields are not NaN into a table returns the new record, and the
  database then holds the message's row after the old ones, without the table's oldest row if the
  table was full. All indexes are consistent with the new rows.
\<close>

theorem db_insert_refines_push:
  assumes "db_view db xs" and "kr_get_table db tid = Some (Some t)" and "db_tables db t = Some tb"
    and "list_all2 fits (tb_fields tb) (mapped tb msg)"
    and "\<forall>ix \<in> set (idxs db t). mapped tb msg ! nat (ix_field ix) \<noteq> KDouble NaN"
  shows "\<exists>r db'. kr_db_insert tid msg db = Some (Some r, db') \<and> row_of db' r = (t, mapped tb msg) \<and>
    db_view db' (push (length (tb_buff tb)) t (mapped tb msg) xs)"
  using insert_view [OF assms(1-3), of msg] assms(4,5) by (auto simp: all_fit_def indexable_def)

theorem db_insert_refines_push_witness:
  "\<exists>(db :: (i32 \<times> kr_double) T_KRDB) t tb r db'. built db \<and> kr_get_table db 1 = Some (Some t) \<and>
    kr_db_insert 1 (7, Fin 2) db = Some (Some r, db') \<and> row_of db' r = (t, [KInt 7, KDouble (Fin 2)]) \<and>
    db_view db' (push 2 t [KInt 7, KDouble (Fin 2)] [])"
proof -
  from demo_set_up obtain db t tb ix where s: "set_up db t tb ix 1 2 demo_fds None demo_func 10 0" by blast
  then have d: "built db" "kr_get_table db 1 = Some (Some t)" "db_tables db t = Some tb" "idxs db t = [ix]"
      "length (tb_buff tb) = 2" "mapped tb (7, Fin 2) = [KInt 7, KDouble (Fin 2)]" "tb_fields tb = demo_fds" "ix_field ix = 0"
    by (simp_all add: set_up_def mapped_row demo_row)
  from db_insert_refines_push [OF built_view [OF d(1)] d(2,3), of "(7, Fin 2)"] d show ?thesis
    by (auto simp: demo_facts)
qed

text \<open>
  C12. \<open>kr_db_select\<close> returns NULL when no row has the key, and else a list of the records that have it,
  in the order of their insertion. A database-wide index finds the rows of every table that shares
  it, each by the field its own table indexes.
\<close>

theorem db_select_returns_matching_rows:
  assumes "db_view db xs" and "kr_get_table db tid = Some (Some t)" and "kr_get_table_index db t iid = Some (Some ix)"
    and "map_option fst (db_hts db (ix_hash ix)) = Some ty" and "kr_get_equal_func ty = Some eq" and "ty \<noteq> KR_TYPE_POINTER"
  shows "\<exists>la. kr_db_select tid iid (ObjPtr k) db = Some la \<and>
    (case la of None \<Rightarrow> filter (row_has db ix eq k) xs = []
     | Some a \<Rightarrow> \<exists>l. db_lists db a = Some l \<and> l_ok l \<and> l_seq l \<noteq> [] \<and>
         map (row_of db) (l_seq l) = filter (row_has db ix eq k) xs)"
  using assms by (rule select_view)

theorem db_select_returns_matching_rows_witness:
  "\<exists>(db :: (i32 \<times> kr_double) T_KRDB) db' la t. kr_db_insert 1 (7, Fin 2) db = Some (la, db') \<and>
     (\<exists>a l. kr_db_select 1 10 (ObjPtr (KInt 7)) db' = Some (Some a) \<and> db_lists db' a = Some l \<and>
        map (row_of db') (l_seq l) = [(t, [KInt 7, KDouble (Fin 2)])])"
proof -
  from demo_set_up obtain db t tb ix where s: "set_up db t tb ix 1 2 demo_fds None demo_func 10 0" by blast
  then have d: "built db" "kr_get_table db 1 = Some (Some t)" "db_tables db t = Some tb" "idxs db t = [ix]"
      "length (tb_buff tb) = 2" "mapped tb (7, Fin 2) = [KInt 7, KDouble (Fin 2)]" "tb_fields tb = demo_fds" "ix_field ix = 0"
      "ix_id ix = 10" "map_option fst (db_hts db (ix_hash ix)) = Some KR_TYPE_INT"
    by (simp_all add: set_up_def mapped_row demo_row demo_facts)
  have "all_fit tb (7, Fin 2)" "indexable db t tb (7, Fin 2)" using d by (simp_all add: all_fit_def indexable_def demo_facts)
  from insert_view [OF built_view [OF d(1)] d(2,3) this] obtain r db' where i: "kr_db_insert 1 (7, Fin 2) db = Some (Some r, db')"
      "db_view db' (push (length (tb_buff tb)) t (mapped tb (7, Fin 2)) [])" "same_schema db db'"
    by blast
  have v: "db_view db' [(t, [KInt 7, KDouble (Fin 2)])]" using i(2) d(5,6) by (simp add: push_def table_rows_def)
  from schema_tables [OF i(3) d(3)] obtain tb' where t': "db_tables db' t = Some tb'" by blast
  from v obtain lg where ok: "db_ok db' lg" by (auto simp: db_view_def)
  have ixs: "idxs db' t = [ix]" using i(3) d(4) by (simp add: same_schema_def)
  have g: "kr_get_table_index db' t 10 = Some (Some ix)"
    using get_table_index_spec [OF t' tb_okD(1) [OF db_okD(8) [OF ok t']], of 10] ixs d(9) by simp
  have f: "kr_get_table db' 1 = Some (Some t)" using get_table_conf [of db db' 1] i(3) d(2) by (simp add: same_schema_def)
  have ty: "map_option fst (db_hts db' (ix_hash ix)) = Some KR_TYPE_INT"
    using i(3) d(10) by (simp add: same_schema_def same_conf_db_def)
  have "row_has db' ix kr_int_equal (KInt 7) (t, [KInt 7, KDouble (Fin 2)])"
    by (simp add: row_has_def ixs d(8))
  then show ?thesis
    using db_select_returns_matching_rows [OF v f g ty, of kr_int_equal "KInt 7"] i(1)
    by (fastforce split: option.splits)
qed

text \<open>The circular buffer is bounded: a table never holds more rows than its buffer has slots, and
  \<open>uiRecordNum\<close> is the number of its rows.
\<close>

theorem db_table_bounded:
  assumes "db_view db xs" and "db_tables db t = Some tb"
  shows "length (table_rows t xs) = unat (tb_num tb) \<and> length (table_rows t xs) \<le> length (tb_buff tb) \<and>
    tb_keep_value tb = int (length (tb_buff tb))"
proof -
  from assms(1) obtain lg where ok: "db_ok db lg" and xs: "xs = map (row_of db) lg" by (auto simp: db_view_def)
  note tok = tb_okD [OF db_okD(8) [OF ok assms(2)]]
  show ?thesis
    using of_table_length [OF tok(3)] tok(3,4) by (simp add: xs rows_of_table ring_ok_def Let_def)
qed

theorem db_table_bounded_witness:
  "\<exists>(db :: (i32 \<times> kr_double) T_KRDB) t tb. db_tables db t = Some tb \<and>
     length (table_rows t []) = unat (tb_num tb) \<and> length (tb_buff tb) = 2 \<and> tb_keep_value tb = 2"
proof -
  from demo_set_up obtain db t tb ix where s: "set_up db t tb ix 1 2 demo_fds None demo_func 10 0" by blast
  then have d: "built db" "db_tables db t = Some tb" "length (tb_buff tb) = 2" by (simp_all add: set_up_def)
  from db_table_bounded [OF built_view [OF d(1)] d(2)] d(2,3) show ?thesis by auto
qed

section \<open>What goes wrong\<close>

text \<open>
  A record whose indexed field is a NaN cannot leave its index: the lookup of its key finds
  nothing in any well-formed index, and \<open>kr_rebuild_index_del\<close>, which has no test for that, reads
  the length of a NULL list. Evicting such a record is undefined.
\<close>

theorem nan_record_cannot_be_evicted:
  assumes "kr_get_field_value db r (ix_field ix) = Some k" and "db_hts db (ix_hash ix) = Some (KR_TYPE_DOUBLE, ht)"
    and "ht_ok (ht_bind db KR_TYPE_DOUBLE ht)" and "key_obj db k = KDouble NaN"
  shows "kr_rebuild_index_del ix r db = None"
proof -
  let ?ht = "ht_bind db KR_TYPE_DOUBLE ht"
  have never: "\<not> kr_double_equal k' (KDouble NaN)" for k' by (cases k') (auto simp: d_eq_def split: option.splits)
  have "peq db KR_TYPE_DOUBLE k' k = False" for k'
    using assms(4) never by (simp add: peq_def key_equal_def key_seen_def)
  then have "nodes_map (peq db KR_TYPE_DOUBLE) ns k = nodes_map (\<lambda>_ _. False) ns k" for ns :: "(field_ptr, nat) T_KRHashNode list"
    by (rule nodes_map_cong)
  moreover have "nodes_map (\<lambda>_ _. False) ns k = None" for ns :: "(field_ptr, nat) T_KRHashNode list"
    by (induction ns) (simp_all add: nodes_map_def node_has_def split: option.splits)
  ultimately have "ht_map ?ht k = None" by (simp add: ht_map_def)
  then have "kr_hashtable_lookup (Some ?ht) k = Some None"
    using hash_key.lookup_correct [OF bind_hash_key [of db KR_TYPE_DOUBLE] assms(3), of k] by (simp add: null_if_absent_def)
  with assms(1,2) show ?thesis by (simp add: kr_rebuild_index_del_def)
qed

definition nan_index :: T_KRIndex where
  "nan_index = \<lparr>ix_id = 10, ix_name = ''index'', ix_type = KR_INDEXTYPE_TABLE, ix_field = 1, ix_sort = - 1, ix_hash = 5\<rparr>"

definition demo_table :: "T_KRRecord list \<Rightarrow> T_KRFieldDef list \<Rightarrow> (i32 \<times> kr_double) T_KRTable" where
  "demo_table recs fds = \<lparr>tb_id = 1, tb_name = ''table'', tb_map_pre = None, tb_map_func = demo_func,
     tb_keep_mode = KR_SIZEKEEPMODE_RECORD, tb_keep_value = 2, tb_field_cnt = 2, tb_record_size = 32,
     tb_buff = recs, tb_fields = fds, tb_loc = 1, tb_num = 1,
     tb_indexes = kr_list_new\<lparr>l_match := Some kr_indexid_match\<rparr>\<rparr>"

theorem nan_record_cannot_be_evicted_witness:
  "\<exists>db :: (i32 \<times> kr_double) T_KRDB. get_rec db (0, 0) = Some \<lparr>rc_table = Some 0, rc_fields = [KInt 7, KDouble NaN]\<rparr> \<and>
     kr_rebuild_index_del nan_index (0, 0) db = None"
proof -
  let ?rc = "\<lparr>rc_table = Some 0, rc_fields = [KInt 7, KDouble NaN]\<rparr>"
  let ?db0 = "(kr_create_db ''db'' (\<lambda>_. 0))\<lparr>db_tables := (\<lambda>_. None)(0 \<mapsto> demo_table [?rc] demo_fds)\<rparr> :: (i32 \<times> kr_double) T_KRDB"
  let ?ty = KR_TYPE_DOUBLE
  from new_ht_some obtain ht :: "(field_ptr, nat) T_KRHashTable" where
      ht: "kr_hashtable_new (\<lambda>_. 0) (Some (key_hash ?db0 ?ty)) (key_equal ?db0 ?ty) = Some ht"
    by blast
  let ?db = "?db0\<lparr>db_hts := (\<lambda>_. None)(5 \<mapsto> (?ty, ht))\<rparr>"
  have rc: "get_rec ?db (0, 0) = Some ?rc" by (simp add: get_rec_def demo_table_def)
  have fd: "rec_field_def ?db (0, 0) 1 = Some (demo_fds ! 1)"
    by (simp add: rec_field_def_def rc) (simp add: demo_table_def demo_facts)
  have fv: "kr_get_field_value ?db (0, 0) (ix_field nan_index) = Some (FieldPtr (0, 0) 1)"
    by (simp add: kr_get_field_value_def nan_index_def fd)
  have ko: "key_obj ?db (FieldPtr (0, 0) 1) = KDouble NaN" by (simp add: key_obj_def rc)
  have "ht_ok (ht_bind ?db ?ty ht)"
    using ht_state_empty [OF new_ht_state [OF ht, of "\<lambda>_. 0" 5], of ?db "\<lambda>_. 0" 5 ?ty] by (simp add: ht_state_def)
  then have "kr_rebuild_index_del nan_index (0, 0) ?db = None"
    by (intro nan_record_cannot_be_evicted [OF fv _ _ ko, of ht]) (simp_all add: nan_index_def)
  with rc show ?thesis by blast
qed

text \<open>The comparison behind sorted indexes is not an order on \<open>long\<close>s: two values whose difference is
  a multiple of \<open>2 ^ 32\<close> compare equal, because the difference is returned as an \<open>int\<close>.
\<close>

theorem field_compare_truncates:
  assumes "kr_get_field_type db r1 f = Some KR_TYPE_LONG" and "kr_get_field_value db r1 f = Some p1"
    and "kr_get_field_value db r2 f = Some p2" and "key_obj db p1 = KLong a" and "key_obj db p2 = KLong b"
    and "sint a - sint b = 2 ^ 32 * j" and "\<bar>sint a - sint b\<bar> < 2 ^ 63"
  shows "kr_db_field_compare db r1 r2 f = Some 0"
proof -
  have "(word_of_int (2 ^ 32 * j) :: i32) = 0"
    by (rule word_of_int_eq_0_iff [THEN iffD2]) simp
  then show ?thesis using assms by (simp add: kr_db_field_compare_def abs_less_iff)
qed

definition long_fds :: "T_KRFieldDef list" where
  "long_fds = [\<lparr>fd_id = 0, fd_name = ''time'', fd_type = KR_TYPE_LONG, fd_length = 8, fd_offset = 0\<rparr>]"

theorem field_compare_truncates_witness:
  "\<exists>db :: (i32 \<times> kr_double) T_KRDB. key_obj db (FieldPtr (0, 0) 0) = KLong (2 ^ 32) \<and> key_obj db (FieldPtr (0, 1) 0) = KLong 0 \<and>
     kr_db_field_compare db (0, 0) (0, 1) 0 = Some 0"
proof -
  define db :: "(i32 \<times> kr_double) T_KRDB" where "db = (kr_create_db ''db'' (\<lambda>_. 0))\<lparr>db_tables := (\<lambda>_. None)(0 \<mapsto>
    demo_table [\<lparr>rc_table = Some 0, rc_fields = [KLong (2 ^ 32)]\<rparr>, \<lparr>rc_table = Some 0, rc_fields = [KLong 0]\<rparr>] long_fds)\<rparr>"
  have k: "key_obj db (FieldPtr (0, 0) 0) = KLong (2 ^ 32)" "key_obj db (FieldPtr (0, 1) 0) = KLong 0"
    by (simp_all add: key_obj_def get_rec_def demo_table_def db_def)
  have fd: "rec_field_def db (0, 0) 0 = Some (hd long_fds)" "rec_field_def db (0, 1) 0 = Some (hd long_fds)"
    by (simp_all add: rec_field_def_def get_rec_def demo_table_def long_fds_def db_def)
  have "kr_get_field_type db (0, 0) 0 = Some KR_TYPE_LONG" "kr_get_field_value db (0, 0) 0 = Some (FieldPtr (0, 0) 0)"
      "kr_get_field_value db (0, 1) 0 = Some (FieldPtr (0, 1) 0)"
    by (simp_all only: kr_get_field_type_def kr_get_field_value_def fd) (simp_all add: long_fds_def)
  from field_compare_truncates [OF this k, of 1] have "kr_db_field_compare db (0, 0) (0, 1) 0 = Some 0" by simp
  with k show ?thesis by blast
qed

end
