(* ===== verification/KR_Cache.thy ===== *)
theory KR_Cache
  imports KR_HashTable_Props KR_List_Props
begin

text \<open>
  \<open>krutils/kr_cache.c\<close>: a bounded cache, a hash table from the key to the node of a list whose head is
  the entry used last. \<open>lru_get\<close> and \<open>lru_set\<close> are the specification; as long as no key is set that is
  present, the cache implements them. Setting a present key leaves its old node in the list, whose
  eviction later removes the key's new entry.
\<close>

section \<open>The cache\<close>

record ('k, 'v) T_KRCacheNode =
  cn_key :: 'k
  cn_value :: 'v
  cn_hits :: int
  cn_last_hit_time :: int

text \<open>
  The values of the list are the cache nodes; the values of the table are list nodes. The free
  functions run when the list frees a node, which it logs.
\<close>

record ('k, 'v) T_KRCache =
  ca_max_size :: u32
  ca_list :: "(('k, 'v) T_KRCacheNode, unit) T_KRList"
  ca_table :: "('k, nat) T_KRHashTable"
  ca_key_dup :: "('k \<Rightarrow> 'k) option"
  ca_value_dup :: "('v \<Rightarrow> 'v) option"

definition kr_cache_node_new :: "('k, 'v) T_KRCache \<Rightarrow> 'k \<Rightarrow> 'v \<Rightarrow> ('k, 'v) T_KRCacheNode" where
  "kr_cache_node_new c k v = \<lparr>
     cn_key = (case ca_key_dup c of Some f \<Rightarrow> f k | None \<Rightarrow> k),
     cn_value = (case ca_value_dup c of Some f \<Rightarrow> f v | None \<Rightarrow> v), cn_hits = 0, cn_last_hit_time = 0\<rparr>"

definition kr_cache_new ::
  "u32 \<Rightarrow> ('k \<Rightarrow> u32) \<Rightarrow> ('k \<Rightarrow> u32) \<Rightarrow> ('k \<Rightarrow> 'k \<Rightarrow> bool) \<Rightarrow> ('k \<Rightarrow> 'k) option \<Rightarrow> ('v \<Rightarrow> 'v) option \<Rightarrow>
   ('k, 'v) T_KRCache option option" where
  "kr_cache_new cache_size ph hf ef kdup vdup =
     (if cache_size \<le> 0 then Some None
      else do {
        ht \<leftarrow> kr_hashtable_new ph (Some hf) (Some ef);
        Some (Some \<lparr>ca_max_size = cache_size, ca_list = kr_list_new\<lparr>l_free := True\<rparr>, ca_table = ht,
                    ca_key_dup = kdup, ca_value_dup = vdup\<rparr>)
      })"

primrec kr_cache_evict_n_oldest :: "nat \<Rightarrow> ('k, 'v) T_KRCache \<Rightarrow> ('k, 'v) T_KRCache option" where
  "kr_cache_evict_n_oldest 0 c = Some c"
| "kr_cache_evict_n_oldest (Suc n) c =
     (case l_tail (ca_list c) of
        None \<Rightarrow> Some c
      | Some oldest \<Rightarrow> do {
          nd \<leftarrow> l_mem (ca_list c) oldest;
          (b, ht) \<leftarrow> ht_remove_step (ca_table c) (cn_key (nd_value nd));
          l \<leftarrow> kr_list_delete (ca_list c) oldest;
          kr_cache_evict_n_oldest n (c\<lparr>ca_table := ht, ca_list := l\<rparr>)
        })"

definition kr_cache_set_max_size :: "('k, 'v) T_KRCache \<Rightarrow> u32 \<Rightarrow> ('k, 'v) T_KRCache option" where
  "kr_cache_set_max_size c max_size =
     (let old_max_size = ca_max_size c; c' = c\<lparr>ca_max_size := max_size\<rparr>
      in if old_max_size > max_size
         then kr_cache_evict_n_oldest (nat (sint (old_max_size - max_size))) c' else Some c')"

definition kr_cache_get_max_size :: "('k, 'v) T_KRCache \<Rightarrow> u32" where
  "kr_cache_get_max_size c = ca_max_size c"

definition kr_cache_get_size :: "('k, 'v) T_KRCache \<Rightarrow> u32" where
  "kr_cache_get_size c = kr_hashtable_size (Some (ca_table c))"

text \<open>A hit updates the node in place; \<open>now\<close> is the clock.\<close>

definition kr_cache_get :: "int \<Rightarrow> ('k, 'v) T_KRCache \<Rightarrow> 'k \<Rightarrow> ('v option \<times> ('k, 'v) T_KRCache) option" where
  "kr_cache_get now c k = do {
     found \<leftarrow> kr_hashtable_lookup (Some (ca_table c)) k;
     (case found of
        None \<Rightarrow> Some (None, c)
      | Some a \<Rightarrow> do {
          l \<leftarrow> kr_list_move_head (ca_list c) a;
          nd \<leftarrow> l_mem l a;
          hits \<leftarrow> chk_int (cn_hits (nd_value nd) + 1);
          let node = (nd_value nd)\<lparr>cn_hits := hits, cn_last_hit_time := now\<rparr>;
          Some (Some (cn_value node), c\<lparr>ca_list := l\<lparr>l_mem := (l_mem l)(a \<mapsto> nd\<lparr>nd_value := node\<rparr>)\<rparr>\<rparr>)
        })
   }"

definition kr_cache_set :: "('k, 'v) T_KRCache \<Rightarrow> 'k \<Rightarrow> 'v \<Rightarrow> ('k, 'v) T_KRCache option" where
  "kr_cache_set c k v = do {
     let n = sint (kr_hashtable_size (Some (ca_table c)) - ca_max_size c);
     m \<leftarrow> (if n \<ge> 0 then chk_int (n + 1) else Some 0);
     c1 \<leftarrow> (if n \<ge> 0 then kr_cache_evict_n_oldest (nat m) c else Some c);
     let node = kr_cache_node_new c1 k v;
     l \<leftarrow> kr_list_add_head (ca_list c1) node;
     ht \<leftarrow> kr_hashtable_replace (ca_table c1) (cn_key node) (l_head l);
     Some (c1\<lparr>ca_list := l, ca_table := ht\<rparr>)
   }"

section \<open>The specification\<close>

text \<open>The entries, the one used last first.\<close>

definition lru_get :: "('k \<Rightarrow> 'k \<Rightarrow> bool) \<Rightarrow> 'k \<Rightarrow> ('k \<times> 'v) list \<Rightarrow> 'v option \<times> ('k \<times> 'v) list" where
  "lru_get eq k xs = (case find (\<lambda>e. eq (fst e) k) xs of
       None \<Rightarrow> (None, xs)
     | Some e \<Rightarrow> (Some (snd e), e # remove_first (\<lambda>e. eq (fst e) k) xs))"

definition lru_set :: "nat \<Rightarrow> 'k \<Rightarrow> 'v \<Rightarrow> ('k \<times> 'v) list \<Rightarrow> ('k \<times> 'v) list" where
  "lru_set n k v xs = (k, v) # take (n - 1) xs"

definition node_entry :: "('k, 'v) T_KRCacheNode \<Rightarrow> 'k \<times> 'v" where
  "node_entry nd = (cn_key nd, cn_value nd)"

definition no_dup :: "('a \<Rightarrow> 'a) option \<Rightarrow> bool" where
  "no_dup f \<longleftrightarrow> (case f of None \<Rightarrow> True | Some g \<Rightarrow> \<forall>x. g x = x)"

text \<open>
  \<open>cache_at\<close> lists the addresses of the nodes: the table finds the node with an equal key, no two
  nodes have equal keys, and the bound is kept.
\<close>

definition key_at :: "('k, 'v) T_KRCache \<Rightarrow> nat \<Rightarrow> 'k" where
  "key_at c a = cn_key (val_at (l_mem (ca_list c)) a)"

definition cache_at :: "('k \<Rightarrow> u32) \<Rightarrow> ('k \<Rightarrow> 'k \<Rightarrow> bool) \<Rightarrow> ('k, 'v) T_KRCache \<Rightarrow> nat list \<Rightarrow> bool" where
  "cache_at hash eq c as \<longleftrightarrow> dll (ca_list c) as \<and> table_for hash eq (ca_table c) \<and>
     ht_nnodes (ca_table c) = int (length as) \<and> length as \<le> unat (ca_max_size c) \<and>
     0 < ca_max_size c \<and> unat (ca_max_size c) < 2 ^ 28 \<and>
     no_dup (ca_key_dup c) \<and> no_dup (ca_value_dup c) \<and>
     (\<forall>a \<in> set as. \<forall>b \<in> set as. eq (key_at c a) (key_at c b) \<longleftrightarrow> a = b) \<and>
     (\<forall>x. ht_map (ca_table c) x = map_option Some (find (\<lambda>a. eq (key_at c a) x) as))"

definition cache_entries :: "('k, 'v) T_KRCache \<Rightarrow> nat list \<Rightarrow> ('k \<times> 'v) list" where
  "cache_entries c as = map node_entry (l_vals (ca_list c) as)"

definition cache_rel :: "('k \<Rightarrow> u32) \<Rightarrow> ('k \<Rightarrow> 'k \<Rightarrow> bool) \<Rightarrow> ('k, 'v) T_KRCache \<Rightarrow> ('k \<times> 'v) list \<Rightarrow> bool" where
  "cache_rel hash eq c xs \<longleftrightarrow> (\<exists>as. cache_at hash eq c as \<and> xs = cache_entries c as)"

lemma entries_map: "cache_entries c as = map (\<lambda>a. (key_at c a, cn_value (val_at (l_mem (ca_list c)) a))) as"
  by (simp add: cache_entries_def l_vals_def node_entry_def key_at_def comp_def)

text \<open>Writing the value of a node.\<close>

lemma seg_value:
  "seg mem p as n \<Longrightarrow> mem a = Some nd \<Longrightarrow> seg (mem(a \<mapsto> nd\<lparr>nd_value := w\<rparr>)) p as n"
proof (induction as arbitrary: p)
  case Nil
  then show ?case by simp
next
  case (Cons b as)
  then obtain v where v: "mem b = Some \<lparr>nd_prev = p, nd_next = first_of as n, nd_value = v\<rparr>" "seg mem (Some b) as n" by auto
  have "seg (mem(a \<mapsto> nd\<lparr>nd_value := w\<rparr>)) (Some b) as n" by (rule Cons.IH [OF v(2) Cons.prems(2)])
  moreover have "nd\<lparr>nd_value := w\<rparr> = \<lparr>nd_prev = p, nd_next = first_of as n, nd_value = w\<rparr>" if "a = b"
    using v(1) Cons.prems(2) that by auto
  ultimately show ?case using v(1)
    by (cases "a = b") (simp_all del: fun_upd_apply add: fun_upd_same fun_upd_other)
qed

lemma dll_mem:
  "dll l as \<Longrightarrow> seg mem None as None \<Longrightarrow> dom mem = set as \<Longrightarrow> dll (l\<lparr>l_mem := mem\<rparr>) as"
  by (simp add: dll_def)

lemma dll_value:
  assumes "dll l as" and "l_mem l a = Some nd"
  shows "dll (l\<lparr>l_mem := (l_mem l)(a \<mapsto> nd\<lparr>nd_value := w\<rparr>)\<rparr>) as"
proof (rule dll_mem [OF assms(1) seg_value [OF dllD(2) [OF assms(1)] assms(2)]])
  have "a \<in> dom (l_mem l)" using assms(2) by (simp add: domIff)
  then show "dom ((l_mem l)(a \<mapsto> nd\<lparr>nd_value := w\<rparr>)) = set as"
    unfolding dllD(5) [OF assms(1)] dom_fun_upd by auto
qed

section \<open>Eviction\<close>

lemma sint_small: "- (2 ^ 31) \<le> x \<Longrightarrow> x < 2 ^ 31 \<Longrightarrow> sint (word_of_int x :: 32 word) = x"
  by (simp add: sint_sbintrunc' signed_take_bit_int_eq_self_iff)

lemma find_map_key: "find (\<lambda>e. P (fst e)) (map (\<lambda>a. (f a, g a)) as) = map_option (\<lambda>a. (f a, g a)) (find (\<lambda>a. P (f a)) as)"
  by (induction as) auto

lemma find_butlast:
  assumes "\<And>a. a \<in> set as \<Longrightarrow> P a \<Longrightarrow> \<not> P z"
  shows "find P as = (if P z then None else find P (as @ [z]))"
proof (cases "P z")
  case True
  then have "\<forall>a \<in> set as. \<not> P a" using assms by blast
  with True show ?thesis by (simp add: find_None_iff)
next
  case False
  then show ?thesis by (induction as) auto
qed

lemma cache_atD:
  assumes "cache_at hash eq c as"
  shows "dll (ca_list c) as" "table_for hash eq (ca_table c)" "ht_nnodes (ca_table c) = int (length as)"
    "length as \<le> unat (ca_max_size c)" "unat (ca_max_size c) < 2 ^ 28" "0 < ca_max_size c"
    "no_dup (ca_key_dup c)" "no_dup (ca_value_dup c)"
    "\<And>a b. a \<in> set as \<Longrightarrow> b \<in> set as \<Longrightarrow> eq (key_at c a) (key_at c b) \<longleftrightarrow> a = b"
    "\<And>x. ht_map (ca_table c) x = map_option Some (find (\<lambda>a. eq (key_at c a) x) as)"
  using assms by (auto simp: cache_at_def)

lemma vals_eq: "l_vals l' as = l_vals l as \<Longrightarrow> a \<in> set as \<Longrightarrow> val_at (l_mem l') a = val_at (l_mem l) a"
  by (simp add: l_vals_def)

lemma sint_diff: "a \<le> b \<Longrightarrow> b < 2 ^ 28 \<Longrightarrow> sint (word_of_int (int a - int b) :: 32 word) = int a - int b"
  by (rule sint_small) simp_all

lemma chk_diff: "a \<le> b \<Longrightarrow> b < 2 ^ 28 \<Longrightarrow> 0 \<le> int a - int b \<Longrightarrow> chk_int (int a - int b + 1) = Some (int a - int b + 1)"
  by simp

lemma remove_first_split: "\<forall>x \<in> set xs. \<not> P x \<Longrightarrow> P a \<Longrightarrow> remove_first P (xs @ a # ys) = xs @ ys"
  by (induction xs) auto

lemma find_move: "\<forall>x \<in> set xs. P x \<longrightarrow> \<not> P a \<Longrightarrow> find P (a # xs @ ys) = find P (xs @ a # ys)"
  by (induction xs) auto

lemma find_split:
  assumes "find P as = Some a"
  obtains xs ys where "as = xs @ a # ys" "\<forall>x \<in> set xs. \<not> P x" "P a"
proof -
  have "\<exists>xs ys. as = xs @ a # ys \<and> (\<forall>x \<in> set xs. \<not> P x) \<and> P a"
    using assms
  proof (induction as)
    case (Cons b as)
    show ?case
    proof (cases "P b")
      case True
      with Cons.prems show ?thesis by (intro exI [of _ "[]"] exI [of _ as]) auto
    next
      case False
      with Cons obtain xs ys where "as = xs @ a # ys \<and> (\<forall>x \<in> set xs. \<not> P x) \<and> P a" by auto
      with False show ?thesis by (intro exI [of _ "b # xs"] exI [of _ ys]) auto
    qed
  qed simp
  with that show thesis by blast
qed

text \<open>How often an entry was hit; the counter is an \<open>int\<close>.\<close>

definition hits_le :: "int \<Rightarrow> ('k, 'v) T_KRCache \<Rightarrow> nat list \<Rightarrow> bool" where
  "hits_le h c as \<longleftrightarrow> (\<forall>nd \<in> set (l_vals (ca_list c) as). 0 \<le> cn_hits nd \<and> cn_hits nd \<le> h)"

context hash_key
begin

lemma evict_one:
  assumes c: "cache_at hash eq c (as @ [z])"
  shows "\<exists>c'. kr_cache_evict_n_oldest (Suc n) c = kr_cache_evict_n_oldest n c' \<and> cache_at hash eq c' as \<and>
    l_vals (ca_list c') as = l_vals (ca_list c) as \<and> ca_max_size c' = ca_max_size c"
proof -
  note d = cache_atD [OF c]
  have tail: "l_tail (ca_list c) = Some z" using dllD(4) [OF d(1)] by simp
  obtain nd where nd: "l_mem (ca_list c) z = Some nd" using seg_mem [OF dllD(2) [OF d(1)], of z] by auto
  have key: "cn_key (nd_value nd) = key_at c z" by (simp add: key_at_def val_at_def nd)
  have "ht_nnodes (ca_table c) < 2 ^ 29" using d(3-5) by simp
  from ht.del_law [OF d(2) this, of "key_at c z"] obtain t' where t': "ht_remove_step (ca_table c) (key_at c z) =
      Some (ht_map (ca_table c) (key_at c z) \<noteq> None, t')" "table_for hash eq t'"
      "ht_map t' = (\<lambda>x. if eq (key_at c z) x then None else ht_map (ca_table c) x)"
      "ht_nnodes t' = ht_nnodes (ca_table c) - (if ht_map (ca_table c) (key_at c z) = None then 0 else 1)"
    by blast
  have "find (\<lambda>a. eq (key_at c a) (key_at c z)) (as @ [z]) \<noteq> None"
    using d(9) [of z z] by (auto simp: find_None_iff)
  then have cnt: "ht_nnodes t' = int (length as)" using t'(4) d(3) d(10) [of "key_at c z"] by auto
  have l0: "dll (ca_list c) (as @ z # [])" using d(1) by simp
  from delete_spec [OF l0] obtain l' where l': "kr_list_delete (ca_list c) z = Some l'" "dll l' as"
      "l_vals l' as = l_vals (ca_list c) as"
    by (auto simp: l_vals_def)
  let ?c' = "c\<lparr>ca_table := t', ca_list := l'\<rparr>"
  have keys: "key_at ?c' a = key_at c a" if "a \<in> set as" for a
    using vals_eq [OF l'(3) that] by (simp add: key_at_def)
  have dist: "distinct (as @ [z])" using dllD(1) [OF d(1)] .
  have map: "ht_map t' x = map_option Some (find (\<lambda>a. eq (key_at ?c' a) x) as)" for x
  proof -
    have "find (\<lambda>a. eq (key_at c a) x) as = (if eq (key_at c z) x then None else find (\<lambda>a. eq (key_at c a) x) (as @ [z]))"
    proof (rule find_butlast)
      fix a assume a: "a \<in> set as" "eq (key_at c a) x"
      show "\<not> eq (key_at c z) x"
      proof
        assume "eq (key_at c z) x"
        then have "eq (key_at c a) (key_at c z)" using a(2) eq_sym eq_trans by blast
        with d(9) [of a z] a(1) dist show False by auto
      qed
    qed
    moreover have "find (\<lambda>a. eq (key_at ?c' a) x) as = find (\<lambda>a. eq (key_at c a) x) as"
      using keys by (intro find_cong) auto
    ultimately show ?thesis using t'(3) d(10) by simp
  qed
  have "cache_at hash eq ?c' as"
    using l'(2) t'(2) cnt d map keys by (simp add: cache_at_def)
  moreover have "l_vals (ca_list ?c') as = l_vals (ca_list c) as" using l'(3) by simp
  moreover have "kr_cache_evict_n_oldest (Suc n) c = kr_cache_evict_n_oldest n ?c'"
    using tail nd key t'(1) l'(1) by simp
  ultimately show ?thesis by (intro exI [of _ ?c']) simp
qed

lemma evict_spec_n:
  "cache_at hash eq c (as @ zs) \<Longrightarrow> length zs = n \<Longrightarrow>
   \<exists>c'. kr_cache_evict_n_oldest n c = Some c' \<and> cache_at hash eq c' as \<and> l_vals (ca_list c') as = l_vals (ca_list c) as \<and>
     ca_max_size c' = ca_max_size c"
proof (induction n arbitrary: c zs)
  case 0
  then show ?case by auto
next
  case (Suc n)
  then obtain ys z where zs: "zs = ys @ [z]" "length ys = n" by (cases zs rule: rev_cases) auto
  have "cache_at hash eq c ((as @ ys) @ [z])" using Suc.prems(1) zs by simp
  from evict_one [OF this, of n] obtain c1 where c1: "kr_cache_evict_n_oldest (Suc n) c = kr_cache_evict_n_oldest n c1"
      "cache_at hash eq c1 (as @ ys)" "l_vals (ca_list c1) (as @ ys) = l_vals (ca_list c) (as @ ys)" "ca_max_size c1 = ca_max_size c"
    by blast
  from Suc.IH [OF c1(2) zs(2)] obtain c' where "kr_cache_evict_n_oldest n c1 = Some c'" "cache_at hash eq c' as"
      "l_vals (ca_list c') as = l_vals (ca_list c1) as" "ca_max_size c' = ca_max_size c1"
    by blast
  moreover have "l_vals (ca_list c1) as = l_vals (ca_list c) as" using c1(3) by (simp add: l_vals_def)
  ultimately show ?case using c1(1,4) by (intro exI [of _ c']) simp
qed

text \<open>The second half of \<open>kr_cache_set\<close>, for any key.\<close>

lemma put_spec:
  assumes c: "cache_at hash eq c bs" and len: "length bs < unat (ca_max_size c)"
  obtains l' t' where "kr_list_add_head (ca_list c) (kr_cache_node_new c k v) = Some l'"
    "dll l' (l_fresh (ca_list c) # bs)"
    "l_vals l' (l_fresh (ca_list c) # bs) = kr_cache_node_new c k v # l_vals (ca_list c) bs"
    "l_head l' = Some (l_fresh (ca_list c))"
    "kr_hashtable_replace (ca_table c) k (Some (l_fresh (ca_list c))) = Some t'" "table_for hash eq t'"
    "ht_map t' = (\<lambda>x. if eq k x then Some (Some (l_fresh (ca_list c))) else ht_map (ca_table c) x)"
    "ht_nnodes t' = ht_nnodes (ca_table c) + (if ht_map (ca_table c) k = None then 1 else 0)"
    "node_entry (kr_cache_node_new c k v) = (k, v)" "cn_key (kr_cache_node_new c k v) = k"
proof -
  note d = cache_atD [OF c]
  have node: "node_entry (kr_cache_node_new c k v) = (k, v)" "cn_key (kr_cache_node_new c k v) = k"
    using d(7,8) by (auto simp: node_entry_def kr_cache_node_new_def no_dup_def split: option.splits)
  let ?f = "l_fresh (ca_list c)"
  have "Suc (length bs) < 2 ^ 32" using len d(5) by simp
  from add_head_spec [OF d(1) this, of "kr_cache_node_new c k v"] obtain l' where
      l': "kr_list_add_head (ca_list c) (kr_cache_node_new c k v) = Some l'"
      "dll l' (?f # bs)" "l_vals l' (?f # bs) = kr_cache_node_new c k v # l_vals (ca_list c) bs"
    by blast
  have rm: "ht_room (ca_table c)" using d(3-5) by (simp add: ht_room_def)
  have tf: "ht_ok (ca_table c)" "ht_hash_func (ca_table c) = hash" "keq (ca_table c) = eq"
    using d(2) by (auto simp: table_for_def)
  from insert_internal_spec [OF tf rm, where k = k and v = "Some ?f" and keep = True] obtain t' where
      t': "kr_hashtable_replace (ca_table c) k (Some ?f) = Some t'" "ht_ok t'" "same_funcs (ca_table c) t'"
      "ht_map t' = (\<lambda>x. if eq k x then Some (Some ?f) else ht_map (ca_table c) x)"
      "ht_nnodes t' = ht_nnodes (ca_table c) + (if ht_map (ca_table c) k = None then 1 else 0)"
    unfolding kr_hashtable_replace_def by blast
  have "l_head l' = Some ?f" using dllD(3) [OF l'(2)] by simp
  with that l' node t' table_for_same_funcs [OF d(2) t'(3,2)] show thesis by blast
qed

lemma cache_size_diff:
  assumes "cache_at hash eq c as"
  shows "sint (kr_hashtable_size (Some (ca_table c)) - ca_max_size c) = int (length as) - int (unat (ca_max_size c))"
proof -
  note d = cache_atD [OF assms]
  have "kr_hashtable_size (Some (ca_table c)) - ca_max_size c = word_of_int (int (length as) - int (unat (ca_max_size c)))"
    using d(3) by (simp add: kr_hashtable_size_def)
  with sint_diff [OF d(4,5)] show ?thesis by simp
qed

lemma set_spec:
  assumes c: "cache_at hash eq c as" and new: "find (\<lambda>a. eq (key_at c a) k) as = None" and k: "eq k k"
    and h: "hits_le h c as" "0 \<le> h"
  shows "\<exists>c' as'. kr_cache_set c k v = Some c' \<and> cache_at hash eq c' as' \<and> ca_max_size c' = ca_max_size c \<and>
    hits_le h c' as' \<and> cache_entries c' as' = lru_set (unat (ca_max_size c)) k v (cache_entries c as)"
proof -
  note d = cache_atD [OF c]
  let ?m = "unat (ca_max_size c)"
  let ?bs = "take (?m - 1) as"
  have n: "sint (kr_hashtable_size (Some (ca_table c)) - ca_max_size c) = int (length as) - int ?m"
    by (rule cache_size_diff [OF c])
  let ?n = "int (length as) - int ?m"
  have m0: "0 < ?m" using d(6) by (simp add: unat_gt_0)
  obtain c1 where c1: "(if 0 \<le> ?n then kr_cache_evict_n_oldest (nat (?n + 1)) c else Some c) = Some c1"
      "cache_at hash eq c1 ?bs" "l_vals (ca_list c1) ?bs = l_vals (ca_list c) ?bs" "ca_max_size c1 = ca_max_size c"
  proof (cases "length as = ?m")
    case True
    have "length (drop (?m - 1) as) = 1" using True m0 by simp
    with evict_spec_n [of c ?bs "drop (?m - 1) as" 1] c True that show thesis by auto
  next
    case False
    then have "\<not> 0 \<le> ?n" "?bs = as" using d(4) by (linarith, simp)
    with c that [of c] show thesis by simp
  qed
  note d1 = cache_atD [OF c1(2)]
  have len: "length ?bs < unat (ca_max_size c1)" using m0 c1(4) by simp
  let ?f = "l_fresh (ca_list c1)"
  let ?node = "kr_cache_node_new c1 k v"
  from put_spec [OF c1(2) len, of k v] obtain l' t' where p: "kr_list_add_head (ca_list c1) ?node = Some l'"
      "dll l' (?f # ?bs)" "l_vals l' (?f # ?bs) = ?node # l_vals (ca_list c1) ?bs" "l_head l' = Some ?f"
      "kr_hashtable_replace (ca_table c1) k (Some ?f) = Some t'" "table_for hash eq t'"
      "ht_map t' = (\<lambda>x. if eq k x then Some (Some ?f) else ht_map (ca_table c1) x)"
      "ht_nnodes t' = ht_nnodes (ca_table c1) + (if ht_map (ca_table c1) k = None then 1 else 0)"
      "node_entry ?node = (k, v)" "cn_key ?node = k" .
  let ?c' = "c1\<lparr>ca_list := l', ca_table := t'\<rparr>"
  have call: "kr_cache_set c k v = Some ?c'"
  proof -
    have "chk_int (?n + 1) = Some (?n + 1)" if "0 \<le> ?n" by (rule chk_diff [OF d(4,5) that])
    then show ?thesis using c1(1) p(1,4,5,10) by (auto simp: kr_cache_set_def Let_def n split: if_splits)
  qed
  have kf: "key_at ?c' ?f = k" using p(3,10) by (simp add: key_at_def l_vals_def)
  have keys: "key_at ?c' a = key_at c1 a" "key_at c1 a = key_at c a" if "a \<in> set ?bs" for a
  proof -
    have "l_vals l' ?bs = l_vals (ca_list c1) ?bs" using p(3) by (simp add: l_vals_def)
    from vals_eq [OF this that] vals_eq [OF c1(3) that]
    show "key_at ?c' a = key_at c1 a" "key_at c1 a = key_at c a" by (simp_all add: key_at_def)
  qed
  have fresh: "\<not> eq (key_at c1 a) k" if "a \<in> set ?bs" for a
    using new keys(2) [OF that] in_set_takeD [OF that] by (auto simp: find_None_iff)
  have fresh': "\<not> eq k (key_at c1 a)" if "a \<in> set ?bs" for a using fresh [OF that] eq_sym by blast
  have nf: "?f \<notin> set ?bs" using dllD(1) [OF p(2)] by simp
  have absent: "ht_map (ca_table c1) k = None" using fresh by (simp add: d1(10) find_None_iff)
  have "cache_at hash eq ?c' (?f # ?bs)"
    unfolding cache_at_def
  proof (intro conjI ballI allI)
    show "dll (ca_list ?c') (?f # ?bs)" using p(2) by simp
    show "table_for hash eq (ca_table ?c')" using p(6) by simp
    show "ht_nnodes (ca_table ?c') = int (length (?f # ?bs))" using p(8) absent d1(3) by simp
    show "length (?f # ?bs) \<le> unat (ca_max_size ?c')" using len by simp
    show "eq (key_at ?c' a) (key_at ?c' b) \<longleftrightarrow> a = b" if "a \<in> set (?f # ?bs)" "b \<in> set (?f # ?bs)" for a b
      using that kf keys k fresh fresh' d1(9) nf by auto
    show "ht_map (ca_table ?c') x = map_option Some (find (\<lambda>a. eq (key_at ?c' a) x) (?f # ?bs))" for x
    proof -
      have "find (\<lambda>a. eq (key_at ?c' a) x) ?bs = find (\<lambda>a. eq (key_at c1 a) x) ?bs"
        using keys(1) by (intro find_cong) auto
      then show ?thesis using p(7) kf d1(10) by simp
    qed
  qed (use d1 in auto)
  moreover have "cache_entries ?c' (?f # ?bs) = lru_set ?m k v (cache_entries c as)"
    using p(3,9) c1(3) by (simp add: cache_entries_def lru_set_def take_map l_vals_def)
  moreover have "hits_le h ?c' (?f # ?bs)"
    unfolding hits_le_def
  proof (intro ballI)
    fix nd assume "nd \<in> set (l_vals (ca_list ?c') (?f # ?bs))"
    then have "nd = ?node \<or> nd \<in> set (l_vals (ca_list c) ?bs)" using p(3) c1(3) by simp
    then have "nd = ?node \<or> nd \<in> set (l_vals (ca_list c) as)" by (auto simp: l_vals_def dest!: in_set_takeD)
    with h show "0 \<le> cn_hits nd \<and> cn_hits nd \<le> h" by (auto simp: hits_le_def kr_cache_node_new_def)
  qed
  ultimately show ?thesis using call c1(4) by (intro exI [of _ ?c'] exI [of _ "?f # ?bs"]) simp
qed

lemma get_spec:
  assumes c: "cache_at hash eq c as" and h: "hits_le h c as" "0 \<le> h" "h + 1 < 2 ^ 31"
  shows "\<exists>c' as'. kr_cache_get now c k = Some (fst (lru_get eq k (cache_entries c as)), c') \<and>
    cache_at hash eq c' as' \<and> ca_max_size c' = ca_max_size c \<and> hits_le (h + 1) c' as' \<and>
    cache_entries c' as' = snd (lru_get eq k (cache_entries c as))"
proof -
  note d = cache_atD [OF c]
  have lkp: "kr_hashtable_lookup (Some (ca_table c)) k = Some (find (\<lambda>a. eq (key_at c a) k) as)"
    by (simp add: ht.lkp_law [OF d(2)] d(10) null_if_absent_def split: option.splits)
  have find: "find (\<lambda>e. eq (fst e) k) (cache_entries c as) =
      map_option (\<lambda>a. (key_at c a, cn_value (val_at (l_mem (ca_list c)) a))) (find (\<lambda>a. eq (key_at c a) k) as)"
    by (simp add: entries_map find_map_key [where P = "\<lambda>x. eq x k"])
  show ?thesis
  proof (cases "find (\<lambda>a. eq (key_at c a) k) as")
    case None
    have "hits_le (h + 1) c as" using h(1) by (force simp: hits_le_def)
    with None lkp find c show ?thesis by (auto simp: kr_cache_get_def lru_get_def)
  next
    case (Some a)
    obtain xs ys where as: "as = xs @ a # ys" "\<forall>x \<in> set xs. \<not> eq (key_at c x) k" "eq (key_at c a) k"
      by (rule find_split [OF Some])
    have l0: "dll (ca_list c) (xs @ a # ys)" using d(1) as(1) by simp
    from move_head_spec [OF l0] obtain l' where l': "kr_list_move_head (ca_list c) a = Some l'"
        "dll l' (a # xs @ ys)"
        "l_vals l' (a # xs @ ys) = val_at (l_mem (ca_list c)) a # l_vals (ca_list c) xs @ l_vals (ca_list c) ys"
      by blast
    obtain nd where nd: "l_mem l' a = Some nd" using seg_mem [OF dllD(2) [OF l'(2)], of a] by auto
    let ?old = "val_at (l_mem (ca_list c)) a"
    have val: "nd_value nd = ?old" using l'(3) nd by (simp add: l_vals_def val_at_def)
    have old: "0 \<le> cn_hits ?old" "cn_hits ?old \<le> h" using h(1) as(1) by (simp_all add: hits_le_def l_vals_def)
    let ?node = "?old\<lparr>cn_hits := cn_hits ?old + 1, cn_last_hit_time := now\<rparr>"
    let ?l = "l'\<lparr>l_mem := (l_mem l')(a \<mapsto> nd\<lparr>nd_value := ?node\<rparr>)\<rparr>"
    let ?c' = "c\<lparr>ca_list := ?l\<rparr>"
    have call: "kr_cache_get now c k = Some (Some (cn_value ?old), ?c')"
      using lkp Some l'(1) nd val old h(3) by (simp add: kr_cache_get_def Let_def)
    have na: "a \<notin> set (xs @ ys)" using dllD(1) [OF l'(2)] by simp
    have len: "set as = set (a # xs @ ys)" "length (a # xs @ ys) = length as" using as(1) by auto
    have vals: "val_at (l_mem ?l) b = (if b = a then ?node else val_at (l_mem (ca_list c)) b)" if "b \<in> set as" for b
    proof (cases "b = a")
      case True
      then show ?thesis by (simp add: val_at_def)
    next
      case False
      then have "b \<in> set (xs @ ys)" using that as(1) by simp
      moreover have "l_vals l' (xs @ ys) = l_vals (ca_list c) (xs @ ys)" using l'(3) by (simp add: l_vals_def)
      ultimately have "val_at (l_mem l') b = val_at (l_mem (ca_list c)) b" using vals_eq by blast
      with False show ?thesis by (simp add: val_at_def)
    qed
    have keys: "key_at ?c' b = key_at c b" "cn_value (val_at (l_mem (ca_list ?c')) b) = cn_value (val_at (l_mem (ca_list c)) b)"
      if "b \<in> set as" for b
      using vals [OF that] by (auto simp: key_at_def)
    have "cache_at hash eq ?c' (a # xs @ ys)"
      unfolding cache_at_def
    proof (intro conjI ballI allI)
      show "dll (ca_list ?c') (a # xs @ ys)" using dll_value [OF l'(2) nd] by simp
      show "ht_nnodes (ca_table ?c') = int (length (a # xs @ ys))" using d(3) len(2) by simp
      show "length (a # xs @ ys) \<le> unat (ca_max_size ?c')" using d(4) len(2) by simp
      show "eq (key_at ?c' b) (key_at ?c' b') \<longleftrightarrow> b = b'" if "b \<in> set (a # xs @ ys)" "b' \<in> set (a # xs @ ys)" for b b'
        using that d(9) keys(1) len(1) by simp
      show "ht_map (ca_table ?c') x = map_option Some (find (\<lambda>b. eq (key_at ?c' b) x) (a # xs @ ys))" for x
      proof -
        have "find (\<lambda>b. eq (key_at ?c' b) x) (a # xs @ ys) = find (\<lambda>b. eq (key_at c b) x) (a # xs @ ys)"
          using keys(1) len(1) by (intro find_cong) auto
        also have "\<dots> = find (\<lambda>b. eq (key_at c b) x) (xs @ a # ys)"
        proof (rule find_move, intro ballI impI notI)
          fix b assume b: "b \<in> set xs" "eq (key_at c b) x" "eq (key_at c a) x"
          then have "eq (key_at c b) (key_at c a)" using eq_sym eq_trans by blast
          with d(9) [of b a] b(1) na as(1) show False by auto
        qed
        finally show ?thesis using d(10) as(1) by simp
      qed
    qed (use d in auto)
    moreover have "cache_entries ?c' (a # xs @ ys) = snd (lru_get eq k (cache_entries c as))"
    proof -
      let ?g = "\<lambda>b. (key_at c b, cn_value (val_at (l_mem (ca_list c)) b))"
      have "cache_entries ?c' (a # xs @ ys) = map ?g (a # xs @ ys)"
        unfolding entries_map using keys len(1) by (intro map_cong) auto
      moreover have "remove_first (\<lambda>e. eq (fst e) k) (cache_entries c as) = map ?g (xs @ ys)"
        using remove_first_split [of "map ?g xs" "\<lambda>e. eq (fst e) k" "?g a" "map ?g ys"] as by (simp add: entries_map)
      ultimately show ?thesis using find Some by (simp add: lru_get_def)
    qed
    moreover have "hits_le (h + 1) ?c' (a # xs @ ys)"
      unfolding hits_le_def
    proof (intro ballI)
      fix v assume "v \<in> set (l_vals (ca_list ?c') (a # xs @ ys))"
      then obtain b where b: "b \<in> set as" "v = val_at (l_mem (ca_list ?c')) b" using len(1) by (auto simp: l_vals_def)
      have "0 \<le> cn_hits (val_at (l_mem (ca_list c)) b)" "cn_hits (val_at (l_mem (ca_list c)) b) \<le> h"
        using h(1) b(1) by (auto simp: hits_le_def l_vals_def)
      with vals [OF b(1)] b(2) show "0 \<le> cn_hits v \<and> cn_hits v \<le> h + 1" by (cases "b = a") simp_all
    qed
    ultimately show ?thesis using call find Some by (intro exI [of _ ?c'] exI [of _ "a # xs @ ys"]) (simp add: lru_get_def)
  qed
qed

end

end
