(* ===== verification/KR_Cache_Props.thy ===== *)
theory KR_Cache_Props
  imports KR_Cache
begin

text \<open>
  The properties of the cache: histories that set absent keys only implement the least recently used
  policy; setting a present key breaks it.
\<close>

datatype ('k, 'v) cache_op = C_get int 'k | C_set 'k 'v

fun cache_run :: "('k, 'v) cache_op list \<Rightarrow> ('k, 'v) T_KRCache \<Rightarrow> ('v option list \<times> ('k, 'v) T_KRCache) option" where
  "cache_run [] c = Some ([], c)"
| "cache_run (C_get now k # ps) c = do {
     (r, c1) \<leftarrow> kr_cache_get now c k;
     (rs, c2) \<leftarrow> cache_run ps c1;
     Some (r # rs, c2)
   }"
| "cache_run (C_set k v # ps) c = do { c1 \<leftarrow> kr_cache_set c k v; cache_run ps c1 }"

fun lru_run :: "('k \<Rightarrow> 'k \<Rightarrow> bool) \<Rightarrow> nat \<Rightarrow> ('k, 'v) cache_op list \<Rightarrow> ('k \<times> 'v) list \<Rightarrow>
    'v option list \<times> ('k \<times> 'v) list" where
  "lru_run eq n [] xs = ([], xs)"
| "lru_run eq n (C_get now k # ps) xs =
     (let (r, xs1) = lru_get eq k xs; (rs, xs2) = lru_run eq n ps xs1 in (r # rs, xs2))"
| "lru_run eq n (C_set k v # ps) xs = lru_run eq n ps (lru_set n k v xs)"

fun sets_absent :: "('k \<Rightarrow> 'k \<Rightarrow> bool) \<Rightarrow> nat \<Rightarrow> ('k, 'v) cache_op list \<Rightarrow> ('k \<times> 'v) list \<Rightarrow> bool" where
  "sets_absent eq n [] xs = True"
| "sets_absent eq n (C_get now k # ps) xs = sets_absent eq n ps (snd (lru_get eq k xs))"
| "sets_absent eq n (C_set k v # ps) xs =
     (eq k k \<and> find (\<lambda>e. eq (fst e) k) xs = None \<and> sets_absent eq n ps (lru_set n k v xs))"

lemma find_entries:
  "find (\<lambda>e. eq (fst e) k) (cache_entries c as) = None \<longleftrightarrow> find (\<lambda>a. eq (key_at c a) k) as = None"
  by (simp add: entries_map find_map_key [where P = "\<lambda>x. eq x k"])

context hash_key
begin

lemma cache_run_spec:
  "cache_at hash eq c as \<Longrightarrow> hits_le h c as \<Longrightarrow> 0 \<le> h \<Longrightarrow> h + int (length ps) < 2 ^ 31 \<Longrightarrow>
   sets_absent eq (unat (ca_max_size c)) ps (cache_entries c as) \<Longrightarrow>
   \<exists>c' as'. cache_run ps c = Some (fst (lru_run eq (unat (ca_max_size c)) ps (cache_entries c as)), c') \<and>
     cache_at hash eq c' as' \<and> ca_max_size c' = ca_max_size c \<and>
     cache_entries c' as' = snd (lru_run eq (unat (ca_max_size c)) ps (cache_entries c as))"
proof (induction ps arbitrary: c as h)
  case Nil
  then show ?case by auto
next
  case (Cons p ps)
  show ?case
  proof (cases p)
    case (C_get now k)
    have "h + 1 < 2 ^ 31" using Cons.prems(4) by simp
    from get_spec [OF Cons.prems(1-3) this, of now k] obtain c1 as1 where c1:
        "kr_cache_get now c k = Some (fst (lru_get eq k (cache_entries c as)), c1)" "cache_at hash eq c1 as1"
        "ca_max_size c1 = ca_max_size c" "hits_le (h + 1) c1 as1"
        "cache_entries c1 as1 = snd (lru_get eq k (cache_entries c as))"
      by blast
    have "0 \<le> h + 1" "h + 1 + int (length ps) < 2 ^ 31" using Cons.prems(3,4) by simp_all
    moreover have "sets_absent eq (unat (ca_max_size c1)) ps (cache_entries c1 as1)"
      using Cons.prems(5) C_get c1(3,5) by simp
    ultimately obtain c' as' where "cache_run ps c1 = Some (fst (lru_run eq (unat (ca_max_size c1)) ps (cache_entries c1 as1)), c')"
        "cache_at hash eq c' as'" "ca_max_size c' = ca_max_size c1"
        "cache_entries c' as' = snd (lru_run eq (unat (ca_max_size c1)) ps (cache_entries c1 as1))"
      using Cons.IH [OF c1(2,4)] by blast
    with C_get c1(1,3,5) show ?thesis by (auto simp: case_prod_beta Let_def)
  next
    case (C_set k v)
    then have "find (\<lambda>a. eq (key_at c a) k) as = None" "eq k k" using Cons.prems(5) find_entries [of eq k c as] by simp_all
    from set_spec [OF Cons.prems(1) this Cons.prems(2,3), of v] obtain c1 as1 where c1:
        "kr_cache_set c k v = Some c1" "cache_at hash eq c1 as1" "ca_max_size c1 = ca_max_size c"
        "hits_le h c1 as1" "cache_entries c1 as1 = lru_set (unat (ca_max_size c)) k v (cache_entries c as)"
      by blast
    have "h + int (length ps) < 2 ^ 31" using Cons.prems(4) by simp
    moreover have "sets_absent eq (unat (ca_max_size c1)) ps (cache_entries c1 as1)"
      using Cons.prems(5) C_set c1(3,5) by simp
    ultimately show ?thesis using Cons.IH [OF c1(2,4) Cons.prems(3)] C_set c1(1,3,5) by auto
  qed
qed

lemma cache_new_spec:
  assumes "0 < n" and "unat n < 2 ^ 28" and "no_dup kd" and "no_dup vd"
  obtains c :: "('k, 'v) T_KRCache" where "kr_cache_new n ph hash eq kd vd = Some (Some c)" "cache_at hash eq c []"
    "ca_max_size c = n" "hits_le 0 c []"
proof -
  obtain t :: "('k, nat) T_KRHashTable" where t: "kr_hashtable_new_full ph (Some hash) (Some eq) False False = Some t"
      "table_for hash eq t" "ht_map t = (\<lambda>_. None)" "ht_nnodes t = 0"
    by (rule new_table [of ph hash eq False False])
  let ?c = "\<lparr>ca_max_size = n, ca_list = kr_list_new\<lparr>l_free := True\<rparr>, ca_table = t, ca_key_dup = kd, ca_value_dup = vd\<rparr>"
  have "dll (kr_list_new\<lparr>l_free := True\<rparr>) []" by (simp add: dll_def kr_list_new_def)
  with t assms have "cache_at hash eq ?c []" by (simp add: cache_at_def)
  moreover have "kr_cache_new n ph hash eq kd vd = Some (Some ?c)"
    using t(1) assms(1) by (simp add: kr_cache_new_def kr_hashtable_new_def)
  ultimately show thesis using that by (simp add: hits_le_def l_vals_def)
qed

lemma set_present:
  fixes c :: "('k, 'v) T_KRCache"
  assumes c: "cache_at hash eq c (as @ [z])" and room: "Suc (length as) < unat (ca_max_size c)"
    and same: "eq (key_at c z) k"
  shows "\<exists>c1 c2. kr_cache_set c k v = Some c1 \<and> (\<exists>c1'. kr_cache_get now c1 k = Some (Some v, c1')) \<and>
    kr_cache_evict_n_oldest 1 c1 = Some c2 \<and> kr_cache_get now c2 k = Some (None, c2)"
proof -
  note d = cache_atD [OF c]
  let ?f = "l_fresh (ca_list c)"
  let ?node = "kr_cache_node_new c k v"
  have len: "length (as @ [z]) < unat (ca_max_size c)" using room by simp
  from put_spec [OF c len, of k v] obtain l' t' where p: "kr_list_add_head (ca_list c) ?node = Some l'"
      "dll l' (?f # as @ [z])" "l_vals l' (?f # as @ [z]) = ?node # l_vals (ca_list c) (as @ [z])" "l_head l' = Some ?f"
      "kr_hashtable_replace (ca_table c) k (Some ?f) = Some t'" "table_for hash eq t'"
      "ht_map t' = (\<lambda>x. if eq k x then Some (Some ?f) else ht_map (ca_table c) x)"
      "ht_nnodes t' = ht_nnodes (ca_table c) + (if ht_map (ca_table c) k = None then 1 else 0)"
      "node_entry ?node = (k, v)" "cn_key ?node = k" .
  let ?c1 = "c\<lparr>ca_list := l', ca_table := t'\<rparr>"
  have "int (length (as @ [z])) - int (unat (ca_max_size c)) < 0" using len by linarith
  then have set: "kr_cache_set c k v = Some ?c1"
    using p(1,4,5,10) by (simp add: kr_cache_set_def cache_size_diff [OF c])
  have k: "eq k k" using same eq_sym eq_trans by blast
  have "kr_hashtable_lookup (Some t') k = Some (Some ?f)" by (simp add: ht.lkp_law [OF p(6)] p(7) k null_if_absent_def)
  moreover have l0: "dll l' ([] @ ?f # (as @ [z]))" using p(2) by simp
  from move_head_spec [OF l0] obtain l2 where l2: "kr_list_move_head l' ?f = Some l2" "dll l2 (?f # as @ [z])"
      "l_vals l2 (?f # as @ [z]) = val_at (l_mem l') ?f # l_vals l' (as @ [z])"
    by (auto simp: l_vals_def)
  obtain nd where nd: "l_mem l2 ?f = Some nd" using seg_mem [OF dllD(2) [OF l2(2)], of ?f] by auto
  have "nd_value nd = ?node" using l2(3) p(3) nd by (simp add: l_vals_def val_at_def)
  moreover have "cn_value ?node = v" "cn_hits ?node = 0" using p(9) by (simp_all add: node_entry_def kr_cache_node_new_def)
  ultimately have get: "\<exists>c1'. kr_cache_get now ?c1 k = Some (Some v, c1')"
    using l2(1) nd by (simp add: kr_cache_get_def Let_def)
  have tail: "l_tail l' = Some z" using dllD(4) [OF p(2)] by simp
  obtain nz where nz: "l_mem l' z = Some nz" using seg_mem [OF dllD(2) [OF p(2)], of z] by auto
  have key: "cn_key (nd_value nz) = key_at c z" using p(3) nz by (simp add: key_at_def l_vals_def val_at_def)
  have "ht_nnodes t' < 2 ^ 29" using p(8) d(3-5) by simp
  from ht.del_law [OF p(6) this, of "key_at c z"] obtain b t2 where t2: "ht_remove_step t' (key_at c z) = Some (b, t2)"
      "table_for hash eq t2" "ht_map t2 = (\<lambda>x. if eq (key_at c z) x then None else ht_map t' x)"
    by blast
  have l1: "dll l' ((?f # as) @ z # [])" using p(2) by simp
  from delete_spec [OF l1] obtain l3 where l3: "kr_list_delete l' z = Some l3" by blast
  let ?c2 = "?c1\<lparr>ca_table := t2, ca_list := l3\<rparr>"
  have "kr_cache_evict_n_oldest 1 ?c1 = Some ?c2" using tail nz key t2(1) l3 by (simp add: numeral_eq_Suc)
  moreover have "kr_hashtable_lookup (Some t2) k = Some None"
    by (simp add: ht.lkp_law [OF t2(2)] t2(3) same null_if_absent_def)
  then have "kr_cache_get now ?c2 k = Some (None, ?c2)" by (simp add: kr_cache_get_def)
  ultimately show ?thesis using set get by blast
qed

end

section \<open>Properties\<close>

text \<open>
  C13. For every history of gets and of sets of keys that are absent at the time, on a new cache of any
  capacity below \<open>2 ^ 28\<close>: no step is undefined, every get returns what the least recently used policy
  over the same history returns (the value of the key, or NULL if it was evicted or never set), and
  the size the cache reports is the number of entries of the policy, which is at most the capacity.
\<close>

theorem cache_refines_lru:
  fixes ps :: "('k, 'v) cache_op list"
  assumes "hash_key hash eq" and "0 < n" and "unat n < 2 ^ 28" and "length ps < 2 ^ 31"
    and "sets_absent eq (unat n) ps []"
  shows "\<exists>c c'. kr_cache_new n ph hash eq None None = Some (Some c) \<and>
    cache_run ps c = Some (fst (lru_run eq (unat n) ps []), c') \<and>
    unat (kr_cache_get_size c') = length (snd (lru_run eq (unat n) ps [])) \<and>
    kr_cache_get_size c' \<le> kr_cache_get_max_size c' \<and> kr_cache_get_max_size c' = n"
proof -
  have nd: "no_dup None" by (simp add: no_dup_def)
  obtain c :: "('k, 'v) T_KRCache" where c: "kr_cache_new n ph hash eq None None = Some (Some c)" "cache_at hash eq c []" "ca_max_size c = n"
      "hits_le 0 c []"
    by (rule hash_key.cache_new_spec [OF assms(1-3) nd nd])
  have "0 + int (length ps) < 2 ^ 31" using assms(4) by simp
  from hash_key.cache_run_spec [OF assms(1) c(2,4) order.refl this] c(3) assms(5) obtain c' as' where c':
      "cache_run ps c = Some (fst (lru_run eq (unat n) ps []), c')" "cache_at hash eq c' as'" "ca_max_size c' = n"
      "cache_entries c' as' = snd (lru_run eq (unat n) ps [])"
    by (auto simp: cache_entries_def l_vals_def)
  note d = cache_atD [OF c'(2)]
  have size: "unat (kr_cache_get_size c') = length as'"
    using d(3-5) by (simp add: kr_cache_get_size_def kr_hashtable_size_def unsigned_of_nat take_bit_nat_eq_self)
  moreover have "length as' = length (snd (lru_run eq (unat n) ps []))"
    using arg_cong [OF c'(4), of length] by (simp add: cache_entries_def l_vals_def)
  ultimately show ?thesis using c(1) c'(1,3) d(4) by (auto simp: kr_cache_get_max_size_def word_le_nat_alt)
qed

theorem cache_refines_lru_witness:
  "\<exists>c c'. kr_cache_new 2 kr_pointer_hash kr_int_hash kr_int_equal None None = Some (Some c) \<and>
    cache_run [C_set (KInt 1) ''a'', C_set (KInt 2) ''b'', C_get 5 (KInt 1), C_set (KInt 3) ''c'', C_get 6 (KInt 2),
      C_get 7 (KInt 1)] c = Some ([Some ''a'', None, Some ''a''], c')"
  using cache_refines_lru [OF int_key.hash_key_axioms, of 2 "[C_set (KInt 1) ''a'', C_set (KInt 2) ''b'',
      C_get 5 (KInt 1), C_set (KInt 3) ''c'', C_get 6 (KInt 2), C_get 7 (KInt 1)]" kr_pointer_hash]
  by (simp add: lru_get_def lru_set_def) blast

text \<open>
  C14. In a cache with room, setting the key that was used least recently again makes its new value
  available, but leaves the old node in the list; the eviction of that node, the next one, removes the
  new entry from the table although it is the one used last.
\<close>

theorem cache_set_present_loses_entry:
  fixes c :: "('k, 'v) T_KRCache"
  assumes "hash_key hash eq" and c: "cache_at hash eq c (as @ [z])" and room: "Suc (length as) < unat (ca_max_size c)"
    and same: "eq (key_at c z) k"
  shows "\<exists>c1 c2. kr_cache_set c k v = Some c1 \<and>
    (\<exists>c1'. kr_cache_get now c1 k = Some (Some v, c1')) \<and>
    kr_cache_evict_n_oldest 1 c1 = Some c2 \<and> kr_cache_get now c2 k = Some (None, c2)"
  using hash_key.set_present [OF assms] by blast

theorem cache_set_present_loses_entry_witness:
  "\<exists>c0 c c1 c2. kr_cache_new 3 kr_pointer_hash kr_int_hash kr_int_equal None None = Some (Some c0) \<and>
    kr_cache_set c0 (KInt 1) ''a'' = Some c \<and> kr_cache_set c (KInt 1) ''b'' = Some c1 \<and>
    kr_cache_evict_n_oldest 1 c1 = Some c2 \<and> kr_cache_get 0 c2 (KInt 1) = Some (None, c2)"
proof -
  have nd: "no_dup None" by (simp add: no_dup_def)
  obtain c0 :: "(kr_key, string) T_KRCache" where
      c0: "kr_cache_new 3 kr_pointer_hash kr_int_hash kr_int_equal None None = Some (Some c0)"
      "cache_at kr_int_hash kr_int_equal c0 []" "ca_max_size c0 = 3" "hits_le 0 c0 []"
    by (rule int_key.cache_new_spec [OF _ _ nd nd, of 3]) auto
  have "find (\<lambda>a. kr_int_equal (key_at c0 a) (KInt 1)) [] = None" "kr_int_equal (KInt 1) (KInt 1)" by simp_all
  from int_key.set_spec [OF c0(2) this c0(4) order.refl, of "''a''"] obtain c as where
      c: "kr_cache_set c0 (KInt 1) ''a'' = Some c" "cache_at kr_int_hash kr_int_equal c as" "ca_max_size c = 3"
      "cache_entries c as = lru_set 3 (KInt 1) ''a'' (cache_entries c0 [])"
    using c0(3) by auto
  from c(4) obtain z where z: "as = [] @ [z]" "key_at c z = KInt 1" by (auto simp: entries_map lru_set_def)
  have "Suc (length ([] :: nat list)) < unat (ca_max_size c)" "kr_int_equal (key_at c z) (KInt 1)" using c(3) z(2) by simp_all
  from cache_set_present_loses_entry [OF int_key.hash_key_axioms c(2) [unfolded z(1)] this, of "''b''" 0] c0(1) c(1)
  show ?thesis by blast
qed

end
