(* ===== verification/KR_Context.thy ===== *)
theory KR_Context
  imports KR_Calc_Props KR_DB_Props KR_Cache_Props
begin

text \<open>
  \<open>krparam/kr_dym_*.[ch]\<close> and the state of \<open>krdata/kr_context.[ch]\<close>: the parameters as they stand
  in the shared memory (sets, static, dynamic and history data items, groups of rules), the objects a
  context builds from them, and the context itself.

  The tables of items are hash tables from the id, which are only looked up after their construction;
  they are association lists here (\<open>KR_HashTable_Props\<close> shows the hash table to be a map), and the lists of rules and groups, which only grow at
  the tail while they are built, are sequences (\<open>KR_List_Props\<close>). A pointer to an item is its id, a
  pointer to a group its position. What the program gets from its database, from plugged-in modules,
  from the parsers and from the C library's time functions is a parameter (\<open>data_params\<close>).
\<close>

section \<open>Numbers\<close>

definition chk_long :: "int \<Rightarrow> int option" where
  "chk_long x = (if - (2 ^ 63) \<le> x \<and> x < 2 ^ 63 then Some x else None)"

lemma chk_long_ok [simp]: "- (2 ^ 63) \<le> x \<Longrightarrow> x < 2 ^ 63 \<Longrightarrow> chk_long x = Some x"
  by (simp add: chk_long_def)

text \<open>The conversion of a \<open>long\<close> argument to an \<open>int\<close> parameter.\<close>

definition long_to_int :: "int \<Rightarrow> int" where
  "long_to_int x = sint (word_of_int x :: 32 word)"

lemma long_to_int_id [simp]: "- (2 ^ 31) \<le> x \<Longrightarrow> x < 2 ^ 31 \<Longrightarrow> long_to_int x = x"
  unfolding long_to_int_def by (rule sint_small)

section \<open>Parameters in shared memory\<close>

record T_KRShmSetDef =
  zd_id :: int
  zd_name :: string
  zd_type :: E_KRType

record T_KRShmSDIDef =
  sd_id :: int
  sd_value_type :: E_KRType
  sd_aggr :: string
  sd_datasrc :: int
  sd_index :: int
  sd_field :: int
  sd_location :: int
  sd_loc_prop :: char
  sd_format :: E_KRCalcFormat
  sd_filter :: string

record T_KRShmDDIDef =
  dd_id :: int
  dd_value_type :: E_KRType
  dd_aggr :: string
  dd_datasrc :: int
  dd_index :: int
  dd_field :: int
  dd_stat_type :: char
  dd_stat_value :: int
  dd_method :: char
  dd_format :: E_KRCalcFormat
  dd_filter :: string

record T_KRShmHDIDef =
  hd_id :: int
  hd_value_type :: E_KRType
  hd_aggr :: string
  hd_index :: int
  hd_stat_type :: char
  hd_stat_value :: int
  hd_method :: char

record T_KRShmRuleDef =
  rd_id :: int
  rd_name :: string
  rd_datasrc :: int
  rd_format :: E_KRCalcFormat
  rd_string :: string
  rd_weight :: int

text \<open>An array of definitions with its count and the time it was loaded.\<close>

record 'a shm_area =
  sa_cnt :: int
  sa_defs :: "'a list"
  sa_time :: int

record T_KRShmGroupDef =
  gd_id :: int
  gd_name :: string
  gd_format :: E_KRCalcFormat
  gd_string :: string
  gd_rules :: "T_KRShmRuleDef shm_area"

text \<open>The two sections, by the current one.\<close>

record T_KRShareMem =
  sm_sec :: nat
  sm_set :: "nat \<Rightarrow> T_KRShmSetDef shm_area"
  sm_sdi :: "nat \<Rightarrow> T_KRShmSDIDef shm_area"
  sm_ddi :: "nat \<Rightarrow> T_KRShmDDIDef shm_area"
  sm_hdi :: "nat \<Rightarrow> T_KRShmHDIDef shm_area"
  sm_group :: "nat \<Rightarrow> T_KRShmGroupDef shm_area"

section \<open>Objects\<close>

text \<open>The aggregation function of an item: none yet, the built-in one, or a symbol of the data module.\<close>

datatype aggr_fun = Aggr_null | Aggr_default | Aggr_symbol string

record T_KRSet =
  zs_id :: int
  zs_type :: E_KRType
  zs_set :: T_KRHashSet

text \<open>\<open>ptRelated\<close> is a hash table from a record's address to the record: the set of its keys.\<close>

record T_KRSDI =
  si_def :: T_KRShmSDIDef
  si_id :: int
  si_calc :: "T_KRCalc option"
  si_type :: E_KRType
  si_aggr :: aggr_fun
  si_curr :: "rec_ptr option"
  si_ind :: E_KRValueInd
  si_value :: calc_value
  si_related :: "rec_ptr set"

record T_KRDDI =
  di_def :: T_KRShmDDIDef
  di_id :: int
  di_calc :: "T_KRCalc option"
  di_type :: E_KRType
  di_aggr :: aggr_fun
  di_curr :: "rec_ptr option"
  di_ind :: E_KRValueInd
  di_value :: calc_value
  di_related :: "rec_ptr set"

record T_KRHDI =
  hi_def :: T_KRShmHDIDef
  hi_id :: int
  hi_type :: E_KRType
  hi_aggr :: aggr_fun
  hi_curr :: "rec_ptr option"
  hi_ind :: E_KRValueInd
  hi_value :: calc_value

record T_KRRule =
  ru_def :: T_KRShmRuleDef
  ru_id :: int
  ru_weight :: int
  ru_calc :: "T_KRCalc option"
  ru_violated :: bool
  ru_related :: "rec_ptr set"

record T_KRRuleList =
  rl_cnt :: int
  rl_rules :: "T_KRRule list"
  rl_time :: int
  rl_fired :: int
  rl_weights :: int

record T_KRGroup =
  gr_def :: T_KRShmGroupDef
  gr_id :: int
  gr_calc :: "T_KRCalc option"
  gr_rules :: T_KRRuleList

text \<open>A table of items, or the list of groups, with its count and construction time.\<close>

record 'a item_table =
  it_cnt :: int
  it_items :: "(int \<times> 'a) list"
  it_time :: int

record T_KRGroupList =
  gl_cnt :: int
  gl_groups :: "T_KRGroup list"
  gl_time :: int

record T_KRDynamicMem =
  dy_sets :: "T_KRSet item_table"
  dy_sdis :: "T_KRSDI item_table"
  dy_ddis :: "T_KRDDI item_table"
  dy_hdis :: "T_KRHDI item_table"
  dy_groups :: T_KRGroupList

text \<open>A cached value of a history item, and the cache of tables of them by the key of the record.\<close>

record T_KRHDICacheValue =
  hv_id :: int
  hv_type :: E_KRType
  hv_date :: string
  hv_ind :: E_KRValueInd
  hv_value :: calc_value

record hdi_cache =
  hc_cache :: "(string, nat) T_KRCache"
  hc_nodes :: "nat \<Rightarrow> (int \<Rightarrow> T_KRHDICacheValue option) option"
  hc_fresh :: nat

text \<open>
  The context. Its environment's database and cache belong to it here, since the model runs one
  context; \<open>cx_shm\<close> is the shared memory of the environment.
\<close>

record 'd T_KRContext =
  cx_db :: "'d T_KRDB"
  cx_shm :: T_KRShareMem
  cx_hdi_cache :: "hdi_cache option"
  cx_dym :: T_KRDynamicMem
  cx_arg :: "nat option"
  cx_curr :: "rec_ptr option"
  cx_group :: "nat option"
  cx_key_type :: E_KRType
  cx_key :: "field_ptr option"
  cx_reclist :: "nat option"
  cx_rec :: "rec_ptr option"

text \<open>
  Parameters: the parser by format, the symbols of the data module and what its aggregation functions
  do, \<open>regexec\<close>, the clock, \<open>localtime\<close> (year, month and day), \<open>printf\<close> of a double, and the three
  selections and the cursor of the parameter database. \<open>Set_ok\<close>, \<open>Set_info\<close> and \<open>Set_error\<close> are what a
  fetch returns with a row; the cursor's end is the end of the list.
\<close>

datatype db_code = DB_ok | DB_ok_with_info | DB_not_found | DB_error

record 'd data_params =
  pm_parse :: "E_KRCalcFormat \<Rightarrow> T_KRCalc \<Rightarrow> (int \<times> T_KRCalc) option"
  pm_symbol :: "string \<Rightarrow> bool"
  pm_sdi_plugin :: "string \<Rightarrow> int \<Rightarrow> 'd T_KRContext \<Rightarrow> (int \<times> 'd T_KRContext) option"
  pm_ddi_plugin :: "string \<Rightarrow> int \<Rightarrow> 'd T_KRContext \<Rightarrow> (int \<times> 'd T_KRContext) option"
  pm_hdi_plugin :: "string \<Rightarrow> int \<Rightarrow> 'd T_KRContext \<Rightarrow> (int \<times> 'd T_KRContext) option"
  pm_regexec :: "string \<Rightarrow> string \<Rightarrow> bool"
  pm_now :: int
  pm_localtime :: "int \<Rightarrow> nat \<times> nat \<times> nat"
  pm_fmt_double :: "kr_double \<Rightarrow> string"
  pm_day_sel :: "string \<Rightarrow> int \<Rightarrow> string \<Rightarrow> string \<Rightarrow> db_code"
  pm_mon_sel :: "string \<Rightarrow> int \<Rightarrow> string \<Rightarrow> string \<Rightarrow> db_code"
  pm_flag_sel :: "string \<Rightarrow> int \<Rightarrow> db_code \<times> string"
  pm_set_open :: "int \<Rightarrow> db_code"
  pm_set_rows :: "int \<Rightarrow> (db_code \<times> string) list"
  pm_set_close :: "int \<Rightarrow> db_code"

section \<open>Construction\<close>

text \<open>
  The loop over the definitions of an area: the first item that cannot be built makes the whole table
  NULL. An item goes into the table under its own id; a second item of the same id would free the
  first one, whose id the table keeps as the key, so that every later lookup reads freed memory.
\<close>

primrec build_items :: "('a \<Rightarrow> 'b option option) \<Rightarrow> ('b \<Rightarrow> int) \<Rightarrow> 'a list \<Rightarrow> (int \<times> 'b) list \<Rightarrow>
    (int \<times> 'b) list option option" where
  "build_items mk key [] tab = Some (Some tab)"
| "build_items mk key (d # ds) tab = do {
     r \<leftarrow> mk d;
     (case r of
        None \<Rightarrow> Some None
      | Some x \<Rightarrow> do {
          assert_c (map_of tab (key x) = None);
          build_items mk key ds (tab @ [(key x, x)])
        })
   }"

primrec build_list :: "('a \<Rightarrow> 'b option option) \<Rightarrow> 'a list \<Rightarrow> 'b list option option" where
  "build_list mk [] = Some (Some [])"
| "build_list mk (d # ds) = do {
     r \<leftarrow> mk d;
     (case r of
        None \<Rightarrow> Some None
      | Some x \<Rightarrow> do {
          rs \<leftarrow> build_list mk ds;
          Some (map_option (\<lambda>xs. x # xs) rs)
        })
   }"

definition area_defs :: "'a shm_area \<Rightarrow> 'a list option" where
  "area_defs a = (if sa_cnt a \<le> int (length (sa_defs a)) then Some (take (nat (sa_cnt a)) (sa_defs a)) else None)"

text \<open>The elements of a set, as the cursor delivers them.\<close>

definition set_element :: "E_KRType \<Rightarrow> string \<Rightarrow> kr_key option option" where
  "set_element ty s = (case ty of
       KR_TYPE_INT \<Rightarrow> map_option (\<lambda>n. Some (KInt (word_of_int n))) (c_atoi s)
     | KR_TYPE_LONG \<Rightarrow> map_option (\<lambda>n. Some (KLong (word_of_int n))) (c_atol s)
     | KR_TYPE_DOUBLE \<Rightarrow> Some (Some (KDouble (c_atof s)))
     | KR_TYPE_STRING \<Rightarrow> Some (Some (KStr s))
     | _ \<Rightarrow> Some None)"

primrec set_load_rows :: "(db_code \<times> string) list \<Rightarrow> T_KRHashSet \<Rightarrow> (int \<times> T_KRHashSet) option" where
  "set_load_rows [] hs = Some (0, hs)"
| "set_load_rows (row # rows) hs =
     (if fst row = DB_not_found then Some (0, hs)
      else if fst row \<noteq> DB_ok \<and> fst row \<noteq> DB_ok_with_info then Some (- 1, hs)
      else do {
        e \<leftarrow> set_element (hs_type hs) (kr_string_rtrim (snd row));
        (case e of
           None \<Rightarrow> Some (- 1, hs)
         | Some k \<Rightarrow> do {
             (r, hs1) \<leftarrow> kr_hashset_add hs k;
             (if r \<noteq> 0 then Some (r, hs1) else set_load_rows rows hs1)
           })
      })"

definition kr_set_load :: "'d data_params \<Rightarrow> T_KRHashSet \<Rightarrow> int \<Rightarrow> (int \<times> T_KRHashSet) option" where
  "kr_set_load pm hs set_id =
     (if pm_set_open pm set_id \<noteq> DB_ok then Some (- 1, hs)
      else do {
        (r, hs1) \<leftarrow> set_load_rows (pm_set_rows pm set_id) hs;
        Some (if pm_set_close pm set_id \<noteq> DB_ok then - 1 else r, hs1)
      })"

definition kr_set_construct :: "'d data_params \<Rightarrow> T_KRShmSetDef \<Rightarrow> T_KRSet option option" where
  "kr_set_construct pm def = do {
     hs \<leftarrow> kr_hashset_create (zd_name def) (zd_type def);
     (r, hs1) \<leftarrow> kr_set_load pm hs (long_to_int (zd_id def));
     Some (if r \<noteq> 0 then None else Some \<lparr>zs_id = zd_id def, zs_type = zd_type def, zs_set = hs1\<rparr>)
   }"

definition kr_set_table_construct :: "'d data_params \<Rightarrow> T_KRShmSetDef shm_area \<Rightarrow> T_KRSet item_table option option" where
  "kr_set_table_construct pm area = do {
     defs \<leftarrow> area_defs area;
     r \<leftarrow> build_items (kr_set_construct pm) zs_id defs [];
     Some (map_option (\<lambda>tab. \<lparr>it_cnt = sa_cnt area, it_items = tab, it_time = sa_time area\<rparr>) r)
   }"

text \<open>A filter that does not parse leaves \<open>pt?DICalc\<close> NULL; a missing symbol makes the item NULL.\<close>

definition item_aggr :: "'d data_params \<Rightarrow> string \<Rightarrow> aggr_fun option" where
  "item_aggr pm name =
     (if name = '''' then Some Aggr_null else if pm_symbol pm name then Some (Aggr_symbol name) else None)"

definition kr_sdi_construct :: "'d data_params \<Rightarrow> T_KRShmSDIDef \<Rightarrow> T_KRSDI option option" where
  "kr_sdi_construct pm def = do {
     kc \<leftarrow> kr_calc_construct (pm_parse pm (sd_format def)) (sd_format def) (sd_filter def);
     Some (map_option (\<lambda>a. \<lparr>si_def = def, si_id = sd_id def, si_calc = kc, si_type = sd_value_type def, si_aggr = a,
         si_curr = None, si_ind = KR_VALUE_UNSET, si_value = V_zero, si_related = {}\<rparr>) (item_aggr pm (sd_aggr def)))
   }"

definition kr_ddi_construct :: "'d data_params \<Rightarrow> T_KRShmDDIDef \<Rightarrow> T_KRDDI option option" where
  "kr_ddi_construct pm def = do {
     kc \<leftarrow> kr_calc_construct (pm_parse pm (dd_format def)) (dd_format def) (dd_filter def);
     Some (map_option (\<lambda>a. \<lparr>di_def = def, di_id = dd_id def, di_calc = kc, di_type = dd_value_type def, di_aggr = a,
         di_curr = None, di_ind = KR_VALUE_UNSET, di_value = V_zero, di_related = {}\<rparr>) (item_aggr pm (dd_aggr def)))
   }"

text \<open>\<open>kr_calloc\<close> leaves zero in \<open>eValueInd\<close>, which is not \<open>KR_VALUE_SETED\<close>.\<close>

definition kr_hdi_construct :: "'d data_params \<Rightarrow> T_KRShmHDIDef \<Rightarrow> T_KRHDI option option" where
  "kr_hdi_construct pm def =
     Some (map_option (\<lambda>a. \<lparr>hi_def = def, hi_id = hd_id def, hi_type = hd_value_type def, hi_aggr = a,
         hi_curr = None, hi_ind = KR_VALUE_UNSET, hi_value = V_zero\<rparr>) (item_aggr pm (hd_aggr def)))"

definition kr_sdi_table_construct :: "'d data_params \<Rightarrow> T_KRShmSDIDef shm_area \<Rightarrow> T_KRSDI item_table option option" where
  "kr_sdi_table_construct pm area = do {
     defs \<leftarrow> area_defs area;
     r \<leftarrow> build_items (kr_sdi_construct pm) si_id defs [];
     Some (map_option (\<lambda>tab. \<lparr>it_cnt = sa_cnt area, it_items = tab, it_time = sa_time area\<rparr>) r)
   }"

definition kr_ddi_table_construct :: "'d data_params \<Rightarrow> T_KRShmDDIDef shm_area \<Rightarrow> T_KRDDI item_table option option" where
  "kr_ddi_table_construct pm area = do {
     defs \<leftarrow> area_defs area;
     r \<leftarrow> build_items (kr_ddi_construct pm) di_id defs [];
     Some (map_option (\<lambda>tab. \<lparr>it_cnt = sa_cnt area, it_items = tab, it_time = sa_time area\<rparr>) r)
   }"

definition kr_hdi_table_construct :: "'d data_params \<Rightarrow> T_KRShmHDIDef shm_area \<Rightarrow> T_KRHDI item_table option option" where
  "kr_hdi_table_construct pm area = do {
     defs \<leftarrow> area_defs area;
     r \<leftarrow> build_items (kr_hdi_construct pm) hi_id defs [];
     Some (map_option (\<lambda>tab. \<lparr>it_cnt = sa_cnt area, it_items = tab, it_time = sa_time area\<rparr>) r)
   }"

text \<open>A rule whose expression does not parse is kept, without a calculator; a group is not.\<close>

definition kr_rule_construct :: "'d data_params \<Rightarrow> T_KRShmRuleDef \<Rightarrow> T_KRRule option option" where
  "kr_rule_construct pm def = do {
     kc \<leftarrow> kr_calc_construct (pm_parse pm (rd_format def)) (rd_format def) (rd_string def);
     Some (Some \<lparr>ru_def = def, ru_id = rd_id def, ru_weight = rd_weight def, ru_calc = kc, ru_violated = False,
         ru_related = {}\<rparr>)
   }"

definition kr_rule_list_construct :: "'d data_params \<Rightarrow> T_KRShmRuleDef shm_area \<Rightarrow> T_KRRuleList option option" where
  "kr_rule_list_construct pm area =
     (if sa_cnt area \<le> 0 then Some None
      else do {
        defs \<leftarrow> area_defs area;
        r \<leftarrow> build_list (kr_rule_construct pm) defs;
        Some (map_option (\<lambda>rs. \<lparr>rl_cnt = sa_cnt area, rl_rules = rs, rl_time = sa_time area, rl_fired = 0,
          rl_weights = 0\<rparr>) r)
      })"

definition kr_group_construct :: "'d data_params \<Rightarrow> T_KRShmGroupDef \<Rightarrow> T_KRGroup option option" where
  "kr_group_construct pm def = do {
     kc \<leftarrow> kr_calc_construct (pm_parse pm (gd_format def)) (gd_format def) (gd_string def);
     (case kc of
        None \<Rightarrow> Some None
      | Some k \<Rightarrow> do {
          r \<leftarrow> kr_rule_list_construct pm (gd_rules def);
          Some (map_option (\<lambda>rl. \<lparr>gr_def = def, gr_id = gd_id def, gr_calc = Some k, gr_rules = rl\<rparr>) r)
        })
   }"

definition kr_group_list_construct :: "'d data_params \<Rightarrow> T_KRShmGroupDef shm_area \<Rightarrow> T_KRGroupList option option" where
  "kr_group_list_construct pm area =
     (if sa_cnt area \<le> 0 then Some None
      else do {
        defs \<leftarrow> area_defs area;
        r \<leftarrow> build_list (kr_group_construct pm) defs;
        Some (map_option (\<lambda>gs. \<lparr>gl_cnt = sa_cnt area, gl_groups = gs, gl_time = sa_time area\<rparr>) r)
      })"

definition kr_dym_construct :: "'d data_params \<Rightarrow> T_KRShareMem \<Rightarrow> T_KRDynamicMem option option" where
  "kr_dym_construct pm shm = do {
     let sec = sm_sec shm;
     a \<leftarrow> kr_set_table_construct pm (sm_set shm sec);
     (case a of None \<Rightarrow> Some None | Some sets \<Rightarrow> do {
     b \<leftarrow> kr_sdi_table_construct pm (sm_sdi shm sec);
     (case b of None \<Rightarrow> Some None | Some sdis \<Rightarrow> do {
     c \<leftarrow> kr_ddi_table_construct pm (sm_ddi shm sec);
     (case c of None \<Rightarrow> Some None | Some ddis \<Rightarrow> do {
     d \<leftarrow> kr_hdi_table_construct pm (sm_hdi shm sec);
     (case d of None \<Rightarrow> Some None | Some hdis \<Rightarrow> do {
     e \<leftarrow> kr_group_list_construct pm (sm_group shm sec);
     Some (map_option (\<lambda>groups. \<lparr>dy_sets = sets, dy_sdis = sdis, dy_ddis = ddis, dy_hdis = hdis,
       dy_groups = groups\<rparr>) e) }) }) }) })
   }"

text \<open>
  \<open>kr_dym_check\<close> rebuilds what was loaded after it was built, in this order, and stops with an error
  at the first table that cannot be rebuilt; what was replaced before stays replaced.
\<close>

definition renew :: "bool \<Rightarrow> 'a option option \<Rightarrow> ('a \<Rightarrow> T_KRDynamicMem) \<Rightarrow> T_KRDynamicMem \<Rightarrow>
    (T_KRDynamicMem \<Rightarrow> (int \<times> T_KRDynamicMem) option) \<Rightarrow> (int \<times> T_KRDynamicMem) option" where
  "renew stale made put dym cont =
     (if stale then do {
        r \<leftarrow> made;
        (case r of None \<Rightarrow> Some (- 1, dym) | Some x \<Rightarrow> cont (put x))
      } else cont dym)"

definition kr_dym_check :: "'d data_params \<Rightarrow> T_KRShareMem \<Rightarrow> T_KRDynamicMem \<Rightarrow> (int \<times> T_KRDynamicMem) option" where
  "kr_dym_check pm shm dym =
     (let sec = sm_sec shm in
      renew (it_time (dy_sets dym) \<noteq> sa_time (sm_set shm sec)) (kr_set_table_construct pm (sm_set shm sec))
        (\<lambda>x. dym\<lparr>dy_sets := x\<rparr>) dym (\<lambda>d1.
      renew (it_time (dy_sdis d1) \<noteq> sa_time (sm_sdi shm sec)) (kr_sdi_table_construct pm (sm_sdi shm sec))
        (\<lambda>x. d1\<lparr>dy_sdis := x\<rparr>) d1 (\<lambda>d2.
      renew (it_time (dy_ddis d2) \<noteq> sa_time (sm_ddi shm sec)) (kr_ddi_table_construct pm (sm_ddi shm sec))
        (\<lambda>x. d2\<lparr>dy_ddis := x\<rparr>) d2 (\<lambda>d3.
      renew (it_time (dy_hdis d3) \<noteq> sa_time (sm_hdi shm sec)) (kr_hdi_table_construct pm (sm_hdi shm sec))
        (\<lambda>x. d3\<lparr>dy_hdis := x\<rparr>) d3 (\<lambda>d4.
      renew (gl_time (dy_groups d4) \<noteq> sa_time (sm_group shm sec)) (kr_group_list_construct pm (sm_group shm sec))
        (\<lambda>x. d4\<lparr>dy_groups := x\<rparr>) d4 (\<lambda>d5. Some (0, d5)))))))"

section \<open>Initialisation\<close>

text \<open>Freeing a string value of an item needs the union to hold a string (or zero).\<close>

definition free_value :: "E_KRType \<Rightarrow> calc_value \<Rightarrow> unit option" where
  "free_value ty v = (if ty = KR_TYPE_STRING then map_option (\<lambda>_. ()) (get_s v) else Some ())"

definition kr_sdi_init :: "T_KRSDI \<Rightarrow> T_KRSDI option" where
  "kr_sdi_init s = do {
     free_value (si_type s) (si_value s);
     Some (s\<lparr>si_ind := KR_VALUE_UNSET, si_related := {}, si_value := V_zero\<rparr>)
   }"

definition kr_ddi_init :: "T_KRDDI \<Rightarrow> T_KRDDI option" where
  "kr_ddi_init d = do {
     free_value (di_type d) (di_value d);
     Some (d\<lparr>di_ind := KR_VALUE_UNSET, di_related := {}, di_value := V_zero\<rparr>)
   }"

definition kr_hdi_init :: "T_KRHDI \<Rightarrow> T_KRHDI option" where
  "kr_hdi_init h = do {
     free_value (hi_type h) (hi_value h);
     Some (h\<lparr>hi_ind := KR_VALUE_UNSET, hi_value := V_zero\<rparr>)
   }"

definition kr_rule_init :: "T_KRRule \<Rightarrow> T_KRRule" where
  "kr_rule_init r = r\<lparr>ru_violated := False, ru_related := {}\<rparr>"

definition kr_rule_list_init :: "T_KRRuleList \<Rightarrow> T_KRRuleList" where
  "kr_rule_list_init rl = rl\<lparr>rl_fired := 0, rl_weights := 0, rl_rules := map kr_rule_init (rl_rules rl)\<rparr>"

definition kr_group_init :: "T_KRGroup \<Rightarrow> T_KRGroup" where
  "kr_group_init g = g\<lparr>gr_rules := kr_rule_list_init (gr_rules g)\<rparr>"

definition kr_group_list_init :: "T_KRGroupList \<Rightarrow> T_KRGroupList" where
  "kr_group_list_init gl = gl\<lparr>gl_groups := map kr_group_init (gl_groups gl)\<rparr>"

text \<open>
  Over a table, the items are independent of each other; the walk is undefined if the initialisation
  of one of them is. (\<open>kr_set_table_init\<close> does nothing.)
\<close>

primrec init_all :: "('a \<Rightarrow> 'a option) \<Rightarrow> (int \<times> 'a) list \<Rightarrow> (int \<times> 'a) list option" where
  "init_all f [] = Some []"
| "init_all f (e # es) = do {
     x \<leftarrow> f (snd e);
     xs \<leftarrow> init_all f es;
     Some ((fst e, x) # xs)
   }"

definition init_items :: "('a \<Rightarrow> 'a option) \<Rightarrow> 'a item_table \<Rightarrow> 'a item_table option" where
  "init_items f t = map_option (\<lambda>es. t\<lparr>it_items := es\<rparr>) (init_all f (it_items t))"

definition kr_dym_init :: "T_KRDynamicMem \<Rightarrow> T_KRDynamicMem option" where
  "kr_dym_init dym = do {
     sdis \<leftarrow> init_items kr_sdi_init (dy_sdis dym);
     ddis \<leftarrow> init_items kr_ddi_init (dy_ddis dym);
     hdis \<leftarrow> init_items kr_hdi_init (dy_hdis dym);
     Some (dym\<lparr>dy_sdis := sdis, dy_ddis := ddis, dy_hdis := hdis, dy_groups := kr_group_list_init (dy_groups dym)\<rparr>)
   }"

section \<open>Looking up\<close>

definition kr_set_lookup :: "T_KRSet item_table \<Rightarrow> int \<Rightarrow> T_KRSet option" where
  "kr_set_lookup t i = map_of (it_items t) i"

definition kr_sdi_lookup :: "T_KRSDI item_table \<Rightarrow> int \<Rightarrow> T_KRSDI option" where
  "kr_sdi_lookup t i = map_of (it_items t) i"

definition kr_ddi_lookup :: "T_KRDDI item_table \<Rightarrow> int \<Rightarrow> T_KRDDI option" where
  "kr_ddi_lookup t i = map_of (it_items t) i"

definition kr_hdi_lookup :: "T_KRHDI item_table \<Rightarrow> int \<Rightarrow> T_KRHDI option" where
  "kr_hdi_lookup t i = map_of (it_items t) i"

definition kr_rule_lookup :: "T_KRRuleList \<Rightarrow> int \<Rightarrow> T_KRRule option" where
  "kr_rule_lookup rl i = find (\<lambda>r. ru_id r = i) (rl_rules rl)"

definition kr_group_lookup :: "T_KRGroupList \<Rightarrow> int \<Rightarrow> T_KRGroup option" where
  "kr_group_lookup gl i = find (\<lambda>g. gr_id g = i) (gl_groups gl)"

section \<open>The context\<close>

text \<open>The database connection of \<open>kr_context_init\<close> is one of the parameters.\<close>

definition kr_context_init ::
  "'d data_params \<Rightarrow> 'd T_KRDB \<Rightarrow> T_KRShareMem \<Rightarrow> hdi_cache option \<Rightarrow> 'd T_KRContext option option" where
  "kr_context_init pm db shm cache = do {
     r \<leftarrow> kr_dym_construct pm shm;
     Some (map_option (\<lambda>dym. \<lparr>cx_db = db, cx_shm = shm, cx_hdi_cache = cache, cx_dym = dym, cx_arg = None,
       cx_curr = None, cx_group = None, cx_key_type = KR_TYPE_UNKNOWN, cx_key = None, cx_reclist = None,
       cx_rec = None\<rparr>) r)
   }"

definition kr_context_set :: "'d data_params \<Rightarrow> nat option \<Rightarrow> 'd T_KRContext \<Rightarrow> (int \<times> 'd T_KRContext) option" where
  "kr_context_set pm arg cx = do {
     (r, dym) \<leftarrow> kr_dym_check pm (cx_shm cx) (cx_dym cx);
     Some (if r \<noteq> 0 then (- 1, cx\<lparr>cx_dym := dym\<rparr>) else (0, cx\<lparr>cx_dym := dym, cx_arg := arg\<rparr>))
   }"

definition kr_context_clean :: "'d T_KRContext \<Rightarrow> 'd T_KRContext option" where
  "kr_context_clean cx = do {
     dym \<leftarrow> kr_dym_init (cx_dym cx);
     Some (cx\<lparr>cx_dym := dym, cx_arg := None, cx_curr := None, cx_group := None, cx_key_type := KR_TYPE_UNKNOWN,
       cx_key := None, cx_reclist := None, cx_rec := None\<rparr>)
   }"

end
