(* ===== verification/KR_Item.thy ===== *)
theory KR_Item
  imports KR_Context
begin

text \<open>
  \<open>krdata/kr_ddi*.c\<close> and \<open>krdata/kr_sdi*.c\<close>: the values of dynamic and static data items. An item is
  computed from the records that share a key with the current record, newest first, and at most once
  per current record; its filter is a calculator, which may ask for other items through the callbacks
  \<open>env\<close>. A dynamic item aggregates a field over the records that pass, a static item takes the field of
  the record at a location. The location counters of the dynamic walk are never read and left out.
\<close>

section \<open>Access\<close>

definition the_sdi :: "int \<Rightarrow> 'd T_KRContext \<Rightarrow> T_KRSDI option" where
  "the_sdi sid cx = kr_sdi_lookup (dy_sdis (cx_dym cx)) sid"

definition the_ddi :: "int \<Rightarrow> 'd T_KRContext \<Rightarrow> T_KRDDI option" where
  "the_ddi did cx = kr_ddi_lookup (dy_ddis (cx_dym cx)) did"

definition the_hdi :: "int \<Rightarrow> 'd T_KRContext \<Rightarrow> T_KRHDI option" where
  "the_hdi hid cx = kr_hdi_lookup (dy_hdis (cx_dym cx)) hid"

text \<open>A write through the pointer to an item.\<close>

definition put_item :: "int \<Rightarrow> 'a \<Rightarrow> 'a item_table \<Rightarrow> 'a item_table" where
  "put_item i x t = t\<lparr>it_items := map (\<lambda>e. if fst e = i then (i, x) else e) (it_items t)\<rparr>"

definition put_sdi :: "int \<Rightarrow> T_KRSDI \<Rightarrow> 'd T_KRContext \<Rightarrow> 'd T_KRContext" where
  "put_sdi i x cx = cx\<lparr>cx_dym := (cx_dym cx)\<lparr>dy_sdis := put_item i x (dy_sdis (cx_dym cx))\<rparr>\<rparr>"

definition put_ddi :: "int \<Rightarrow> T_KRDDI \<Rightarrow> 'd T_KRContext \<Rightarrow> 'd T_KRContext" where
  "put_ddi i x cx = cx\<lparr>cx_dym := (cx_dym cx)\<lparr>dy_ddis := put_item i x (dy_ddis (cx_dym cx))\<rparr>\<rparr>"

definition put_hdi :: "int \<Rightarrow> T_KRHDI \<Rightarrow> 'd T_KRContext \<Rightarrow> 'd T_KRContext" where
  "put_hdi i x cx = cx\<lparr>cx_dym := (cx_dym cx)\<lparr>dy_hdis := put_item i x (dy_hdis (cx_dym cx))\<rparr>\<rparr>"

text \<open>The object behind a pointer, as a value of the calculator.\<close>

fun obj_value :: "E_KRType \<Rightarrow> kr_key \<Rightarrow> calc_value" where
  "obj_value ty (KInt w) = (if ty = KR_TYPE_BOOL then V_b w else V_i w)"
| "obj_value ty (KLong w) = V_l w"
| "obj_value ty (KDouble d) = V_d d"
| "obj_value ty (KStr s) = V_s (Some s)"
| "obj_value ty (KPtr p) = V_p (Some (P_other (unat p)))"

text \<open>\<open>kr_get_value(&item->uValue, item->eValueType)\<close>\<close>

definition item_value :: "calc_value \<Rightarrow> E_KRType \<Rightarrow> calc_value option option" where
  "item_value v ty = map_option (map_option (obj_value ty)) (kr_get_value (\<lambda>_. 0) v ty)"

definition field_object :: "'d T_KRDB \<Rightarrow> rec_ptr \<Rightarrow> int \<Rightarrow> kr_key option" where
  "field_object db r fld = do { p \<leftarrow> kr_get_field_value db r fld; Some (key_obj db p) }"

text \<open>\<open>KR_FIELDNO_TRANSTIME\<close> is 1; the field is read as a \<open>long\<close>.\<close>

definition kr_get_transtime :: "'d T_KRDB \<Rightarrow> rec_ptr \<Rightarrow> int option" where
  "kr_get_transtime db r = do {
     k \<leftarrow> field_object db r 1;
     (case k of KLong w \<Rightarrow> Some (sint w) | _ \<Rightarrow> None)
   }"

text \<open>\<open>((T_KRTable *)krrecord->ptTable)\<close> and its id.\<close>

definition rec_table :: "'d T_KRDB \<Rightarrow> rec_ptr \<Rightarrow> (nat \<times> 'd T_KRTable) option" where
  "rec_table db r = do { rc \<leftarrow> get_rec db r; t \<leftarrow> rc_table rc; tb \<leftarrow> db_tables db t; Some (t, tb) }"

text \<open>
  The outcome of a filter: \<^term>\<open>Inl ()\<close> when the calculation failed or is not boolean, otherwise
  whether the record passes. A NULL calculator is dereferenced.
\<close>

definition filter_outcome :: "int \<Rightarrow> T_KRCalc \<Rightarrow> (unit + bool) option" where
  "filter_outcome ret kc =
     (if ret \<noteq> 0 then Some (Inl ())
      else do {
        ty \<leftarrow> kr_calc_type kc;
        if ty \<noteq> KR_TYPE_BOOL then Some (Inl ())
        else do {
          ind \<leftarrow> kr_calc_ind kc;
          if ind \<noteq> KR_VALUE_SETED then Some (Inr False)
          else do { v \<leftarrow> kr_calc_value kc; b \<leftarrow> get_b v; Some (Inr (b \<noteq> 0)) }
        }
      })"

section \<open>Dynamic items: kr_ddi_func.c\<close>

text \<open>The value of the record's field, by the field's type; other types are an error.\<close>

definition stat_value :: "E_KRType \<Rightarrow> kr_key \<Rightarrow> calc_value option option" where
  "stat_value ty k = (case (ty, k) of
       (KR_TYPE_INT, KInt w) \<Rightarrow> Some (Some (V_i w))
     | (KR_TYPE_LONG, KLong w) \<Rightarrow> Some (Some (V_l w))
     | (KR_TYPE_DOUBLE, KDouble d) \<Rightarrow> Some (Some (V_d d))
     | (KR_TYPE_STRING, KStr s) \<Rightarrow> Some (Some (V_s (Some s)))
     | (KR_TYPE_INT, _) \<Rightarrow> None
     | (KR_TYPE_LONG, _) \<Rightarrow> None
     | (KR_TYPE_DOUBLE, _) \<Rightarrow> None
     | (KR_TYPE_STRING, _) \<Rightarrow> None
     | _ \<Rightarrow> Some None)"

text \<open>
  The update of the item's value by its type and the three functions of the method; a value of
  another type is read through a member of the union it was not stored in.
\<close>

definition by_type ::
  "E_KRType \<Rightarrow> calc_value \<Rightarrow> calc_value \<Rightarrow> (int \<Rightarrow> int \<Rightarrow> int) \<Rightarrow> (kr_double \<Rightarrow> kr_double \<Rightarrow> kr_double) \<Rightarrow>
   calc_value option option" where
  "by_type ty u s fi fd = (case ty of
       KR_TYPE_INT \<Rightarrow> do {
         a \<leftarrow> get_i u; b \<leftarrow> get_i s; n \<leftarrow> chk_int (fi (sint a) (sint b)); Some (Some (V_i (word_of_int n))) }
     | KR_TYPE_LONG \<Rightarrow> do {
         a \<leftarrow> get_l u; b \<leftarrow> get_l s; n \<leftarrow> chk_long (fi (sint a) (sint b)); Some (Some (V_l (word_of_int n))) }
     | KR_TYPE_DOUBLE \<Rightarrow> do { a \<leftarrow> get_d u; b \<leftarrow> get_d s; Some (Some (V_d (fd a b))) }
     | _ \<Rightarrow> Some None)"

definition d_min :: "kr_double \<Rightarrow> kr_double \<Rightarrow> kr_double" where
  "d_min a b = (if d_lt a b then a else b)"

definition d_max :: "kr_double \<Rightarrow> kr_double \<Rightarrow> kr_double" where
  "d_max a b = (if d_lt b a then a else b)"

text \<open>Counting adds one of the item's own type.\<close>

definition one_of :: "E_KRType \<Rightarrow> calc_value" where
  "one_of ty = (case ty of KR_TYPE_INT \<Rightarrow> V_i 1 | KR_TYPE_LONG \<Rightarrow> V_l 1 | _ \<Rightarrow> V_d (Fin 1))"

text \<open>The methods: \<open>None\<close> inside is an error; the last three are not implemented and do nothing.\<close>

definition ddi_method :: "char \<Rightarrow> E_KRType \<Rightarrow> calc_value \<Rightarrow> calc_value \<Rightarrow> calc_value option option" where
  "ddi_method m ty u s =
     (if m = CHR ''0'' then by_type ty u s (+) d_add
      else if m = CHR ''1'' then by_type ty u s min d_min
      else if m = CHR ''2'' then by_type ty u s max d_max
      else if m = CHR ''3'' then by_type ty u (one_of ty) (+) d_add
      else if m \<in> {CHR ''4'', CHR ''5'', CHR ''6''} then Some (Some u)
      else Some None)"

text \<open>
  The three tests before the filter: the current record may be excluded, the record must come from the
  item's table and must not be older than the window; \<^term>\<open>False\<close> goes on with the next record.
\<close>

definition ddi_window :: "'d T_KRContext \<Rightarrow> T_KRShmDDIDef \<Rightarrow> rec_ptr \<Rightarrow> bool option" where
  "ddi_window cx def r =
     (if dd_stat_type def = CHR ''E'' \<and> cx_curr cx = Some r then Some False
      else do {
        (t, tb) \<leftarrow> rec_table (cx_db cx) r;
        if tb_id tb \<noteq> dd_datasrc def then Some False
        else do {
          c \<leftarrow> cx_curr cx;
          t1 \<leftarrow> kr_get_transtime (cx_db cx) c;
          t2 \<leftarrow> kr_get_transtime (cx_db cx) r;
          dt \<leftarrow> chk_long (t1 - t2);
          Some (\<not> (dt > dd_stat_value def))
        }
      })"

text \<open>
  The update of the item from the record \<open>krcontext->ptRecord\<close> points to, once the filter let it pass;
  \<^term>\<open>False\<close> is the return of \<open>-1\<close>.
\<close>

definition ddi_update :: "int \<Rightarrow> 'd T_KRContext \<Rightarrow> (bool \<times> 'd T_KRContext) option" where
  "ddi_update did cx = do {
     di \<leftarrow> the_ddi did cx;
     let def = di_def di;
     q \<leftarrow> cx_rec cx;
     ty \<leftarrow> kr_get_field_type (cx_db cx) q (long_to_int (dd_field def));
     k \<leftarrow> field_object (cx_db cx) q (long_to_int (dd_field def));
     sv \<leftarrow> stat_value ty k;
     (case sv of
        None \<Rightarrow> Some (False, cx)
      | Some s \<Rightarrow> do {
          uv \<leftarrow> ddi_method (dd_method def) (di_type di) (di_value di) s;
          Some (case uv of
             None \<Rightarrow> (False, cx)
           | Some u \<Rightarrow> (True, put_ddi did (di\<lparr>di_value := u, di_related := insert q (di_related di)\<rparr>) cx))
        })
   }"

text \<open>One record of the list.\<close>

definition ddi_record ::
  "'d T_KRContext calc_env \<Rightarrow> int \<Rightarrow> rec_ptr \<Rightarrow> 'd T_KRContext \<Rightarrow> (bool \<times> 'd T_KRContext) option" where
  "ddi_record env did r cx0 = do {
     let cx = cx0\<lparr>cx_rec := Some r\<rparr>;
     di \<leftarrow> the_ddi did cx;
     w \<leftarrow> ddi_window cx (di_def di) r;
     if \<not> w then Some (True, cx)
     else do {
       kc \<leftarrow> di_calc di;
       (ret, kc1, cx1) \<leftarrow> kr_calc_eval env kc cx;
       di1 \<leftarrow> the_ddi did cx1;
       let cx2 = put_ddi did (di1\<lparr>di_calc := Some kc1\<rparr>) cx1;
       out \<leftarrow> filter_outcome ret kc1;
       (case out of
          Inl _ \<Rightarrow> Some (False, cx2)
        | Inr pass \<Rightarrow> if \<not> pass then Some (True, cx2) else ddi_update did cx2)
     }
   }"

text \<open>The walk from the tail of the list, whose nodes stay where they are.\<close>

partial_function (option) ddi_walk ::
  "'d T_KRContext calc_env \<Rightarrow> int \<Rightarrow> nat \<Rightarrow> nat option \<Rightarrow> 'd T_KRContext \<Rightarrow> (int \<times> 'd T_KRContext) option" where
  "ddi_walk env did la node cx = (case node of
       None \<Rightarrow> Some (0, cx)
     | Some a \<Rightarrow> do {
         l \<leftarrow> db_lists (cx_db cx) la;
         nd \<leftarrow> l_mem l a;
         x \<leftarrow> ddi_record env did (nd_value nd) cx;
         if fst x then ddi_walk env did la (nd_prev nd) (snd x) else Some (- 1, snd x)
       })"

definition kr_ddi_aggr_func ::
  "'d T_KRContext calc_env \<Rightarrow> int \<Rightarrow> 'd T_KRContext \<Rightarrow> (int \<times> 'd T_KRContext) option" where
  "kr_ddi_aggr_func env did cx = do {
     la \<leftarrow> cx_reclist cx;
     l \<leftarrow> db_lists (cx_db cx) la;
     (ret, cx1) \<leftarrow> ddi_walk env did la (l_tail l) cx;
     if ret \<noteq> 0 then Some (- 1, cx1)
     else do {
       di \<leftarrow> the_ddi did cx1;
       Some (0, put_ddi did (di\<lparr>di_ind := KR_VALUE_SETED\<rparr>) cx1)
     }
   }"

section \<open>Dynamic items: kr_ddi.c\<close>

text \<open>
  What the three kinds of items do first: find the index of the current record's table and the list
  of the records with its key. The result says whether there is such an index.
\<close>

definition gather :: "int \<Rightarrow> 'd T_KRContext \<Rightarrow> (bool \<times> 'd T_KRContext) option" where
  "gather index cx = do {
     c \<leftarrow> cx_curr cx;
     (t, tb) \<leftarrow> rec_table (cx_db cx) c;
     ixr \<leftarrow> kr_get_table_index (cx_db cx) t (long_to_int index);
     (case ixr of
        None \<Rightarrow> Some (False, cx)
      | Some ix \<Rightarrow> do {
          ty \<leftarrow> kr_get_field_type (cx_db cx) c (ix_field ix);
          p \<leftarrow> kr_get_field_value (cx_db cx) c (ix_field ix);
          rl \<leftarrow> kr_get_record_list ix p (cx_db cx);
          Some (True, cx\<lparr>cx_key_type := ty, cx_key := Some p, cx_reclist := rl\<rparr>)
        })
   }"

definition kr_ddi_compute ::
  "'d data_params \<Rightarrow> 'd T_KRContext calc_env \<Rightarrow> int \<Rightarrow> 'd T_KRContext \<Rightarrow> (int \<times> 'd T_KRContext) option" where
  "kr_ddi_compute pm env did cx0 = do {
     di0 \<leftarrow> the_ddi did cx0;
     di \<leftarrow> kr_ddi_init di0;
     (found, cx1) \<leftarrow> gather (dd_index (di_def di)) (put_ddi did di cx0);
     if \<not> found then Some (0, cx1)
     else do {
       let aggr = (if di_aggr di = Aggr_null then Aggr_default else di_aggr di);
       let cx2 = put_ddi did (di\<lparr>di_aggr := aggr\<rparr>) cx1;
       (ret, cx3) \<leftarrow> (case aggr of
           Aggr_symbol name \<Rightarrow> pm_ddi_plugin pm name did cx2
         | _ \<Rightarrow> kr_ddi_aggr_func env did cx2);
       Some (if ret \<noteq> 0 then - 1 else 0, cx3)
     }
   }"

definition kr_ddi_get_type :: "int \<Rightarrow> 'd T_KRContext \<Rightarrow> E_KRType" where
  "kr_ddi_get_type did cx = (case the_ddi did cx of None \<Rightarrow> KR_TYPE_UNKNOWN | Some di \<Rightarrow> di_type di)"

definition kr_ddi_get_value ::
  "'d data_params \<Rightarrow> 'd T_KRContext calc_env \<Rightarrow> int \<Rightarrow> 'd T_KRContext \<Rightarrow> (calc_value option \<times> 'd T_KRContext) option" where
  "kr_ddi_get_value pm env did cx = (case the_ddi did cx of
       None \<Rightarrow> Some (None, cx)
     | Some di0 \<Rightarrow>
         if di_curr di0 \<noteq> cx_curr cx then do {
           (ret, cx1) \<leftarrow> kr_ddi_compute pm env did cx;
           di \<leftarrow> the_ddi did cx1;
           if di_ind di \<noteq> KR_VALUE_SETED then Some (None, cx1)
           else do {
             v \<leftarrow> item_value (di_value di) (di_type di);
             Some (v, put_ddi did (di\<lparr>di_curr := cx_curr cx1\<rparr>) cx1)
           }
         }
         else if di_ind di0 = KR_VALUE_SETED then do {
           v \<leftarrow> item_value (di_value di0) (di_type di0);
           Some (v, cx)
         }
         else Some (None, cx))"

section \<open>Static items: kr_sdi_func.c, kr_sdi.c\<close>

text \<open>The record's field, read as the type of the item.\<close>

definition sdi_field :: "E_KRType \<Rightarrow> kr_key \<Rightarrow> calc_value option option" where
  "sdi_field ty k = (case (ty, k) of
       (KR_TYPE_INT, KInt w) \<Rightarrow> Some (Some (V_i w))
     | (KR_TYPE_LONG, KLong w) \<Rightarrow> Some (Some (V_l w))
     | (KR_TYPE_DOUBLE, KDouble d) \<Rightarrow> Some (Some (V_d d))
     | (KR_TYPE_STRING, KStr s) \<Rightarrow> Some (Some (V_s (Some s)))
     | (KR_TYPE_INT, _) \<Rightarrow> None
     | (KR_TYPE_LONG, _) \<Rightarrow> None
     | (KR_TYPE_DOUBLE, _) \<Rightarrow> None
     | (KR_TYPE_STRING, _) \<Rightarrow> None
     | _ \<Rightarrow> Some None)"

text \<open>
  The tests before the filter, at the absolute location: \<^term>\<open>False\<close> goes on with the next record.
\<close>

definition sdi_window :: "'d T_KRContext \<Rightarrow> T_KRShmSDIDef \<Rightarrow> int \<Rightarrow> rec_ptr \<Rightarrow> bool option" where
  "sdi_window cx def abs_loc r =
     (if sd_loc_prop def = CHR ''0'' \<and> sd_location def \<noteq> abs_loc then Some False
      else do {
        (t, tb) \<leftarrow> rec_table (cx_db cx) r;
        Some (tb_id tb = sd_datasrc def)
      })"

text \<open>The item takes its value from the record \<open>krcontext->ptRecord\<close> points to.\<close>

definition sdi_update :: "int \<Rightarrow> 'd T_KRContext \<Rightarrow> (int \<times> 'd T_KRContext) option" where
  "sdi_update sid cx = do {
     si \<leftarrow> the_sdi sid cx;
     q \<leftarrow> cx_rec cx;
     k \<leftarrow> field_object (cx_db cx) q (long_to_int (sd_field (si_def si)));
     sv \<leftarrow> sdi_field (si_type si) k;
     Some (case sv of
        None \<Rightarrow> (- 1, cx)
      | Some v \<Rightarrow> (0, put_sdi sid (si\<lparr>si_value := v, si_related := insert q (si_related si),
          si_ind := KR_VALUE_SETED\<rparr>) cx))
   }"

text \<open>
  One record; the counters are the absolute location (after the increment) and the relative one
  (before it). The result is \<^term>\<open>Inl ret\<close> when the walk ends, otherwise the new relative location.
\<close>

definition sdi_record ::
  "'d T_KRContext calc_env \<Rightarrow> int \<Rightarrow> rec_ptr \<Rightarrow> int \<Rightarrow> int \<Rightarrow> 'd T_KRContext \<Rightarrow>
   ((int + int) \<times> 'd T_KRContext) option" where
  "sdi_record env sid r abs_loc rel_loc cx0 = do {
     let cx = cx0\<lparr>cx_rec := Some r\<rparr>;
     si \<leftarrow> the_sdi sid cx;
     w \<leftarrow> sdi_window cx (si_def si) abs_loc r;
     if \<not> w then Some (Inr rel_loc, cx)
     else do {
       kc \<leftarrow> si_calc si;
       (ret, kc1, cx1) \<leftarrow> kr_calc_eval env kc cx;
       si1 \<leftarrow> the_sdi sid cx1;
       let cx2 = put_sdi sid (si1\<lparr>si_calc := Some kc1\<rparr>) cx1;
       out \<leftarrow> filter_outcome ret kc1;
       (case out of
          Inl _ \<Rightarrow> Some (Inl (- 1), cx2)
        | Inr pass \<Rightarrow>
            if \<not> pass then Some (Inr rel_loc, cx2)
            else do {
              rel \<leftarrow> chk_int (rel_loc + 1);
              if sd_loc_prop (si_def si) = CHR ''1'' \<and> sd_location (si_def si) \<noteq> rel then Some (Inr rel, cx2)
              else do { (r, cx3) \<leftarrow> sdi_update sid cx2; Some (Inl r, cx3) }
            })
     }
   }"

partial_function (option) sdi_walk ::
  "'d T_KRContext calc_env \<Rightarrow> int \<Rightarrow> nat \<Rightarrow> nat option \<Rightarrow> int \<Rightarrow> int \<Rightarrow> 'd T_KRContext \<Rightarrow>
   (int \<times> 'd T_KRContext) option" where
  "sdi_walk env sid la node abs_loc rel_loc cx = (case node of
       None \<Rightarrow> Some (0, cx)
     | Some a \<Rightarrow> do {
         l \<leftarrow> db_lists (cx_db cx) la;
         nd \<leftarrow> l_mem l a;
         loc \<leftarrow> chk_int (abs_loc + 1);
         x \<leftarrow> sdi_record env sid (nd_value nd) loc rel_loc cx;
         (case fst x of
            Inl ret \<Rightarrow> Some (ret, snd x)
          | Inr rel \<Rightarrow> sdi_walk env sid la (nd_prev nd) loc rel (snd x))
       })"

definition kr_sdi_aggr_func ::
  "'d T_KRContext calc_env \<Rightarrow> int \<Rightarrow> 'd T_KRContext \<Rightarrow> (int \<times> 'd T_KRContext) option" where
  "kr_sdi_aggr_func env sid cx = do {
     la \<leftarrow> cx_reclist cx;
     l \<leftarrow> db_lists (cx_db cx) la;
     sdi_walk env sid la (l_tail l) (- 1) (- 1) cx
   }"

definition kr_sdi_compute ::
  "'d data_params \<Rightarrow> 'd T_KRContext calc_env \<Rightarrow> int \<Rightarrow> 'd T_KRContext \<Rightarrow> (int \<times> 'd T_KRContext) option" where
  "kr_sdi_compute pm env sid cx0 = do {
     si0 \<leftarrow> the_sdi sid cx0;
     si \<leftarrow> kr_sdi_init si0;
     (found, cx1) \<leftarrow> gather (sd_index (si_def si)) (put_sdi sid si cx0);
     if \<not> found then Some (0, cx1)
     else do {
       let aggr = (if si_aggr si = Aggr_null then Aggr_default else si_aggr si);
       let cx2 = put_sdi sid (si\<lparr>si_aggr := aggr\<rparr>) cx1;
       (ret, cx3) \<leftarrow> (case aggr of
           Aggr_symbol name \<Rightarrow> pm_sdi_plugin pm name sid cx2
         | _ \<Rightarrow> kr_sdi_aggr_func env sid cx2);
       Some (if ret \<noteq> 0 then - 1 else 0, cx3)
     }
   }"

definition kr_sdi_get_type :: "int \<Rightarrow> 'd T_KRContext \<Rightarrow> E_KRType" where
  "kr_sdi_get_type sid cx = (case the_sdi sid cx of None \<Rightarrow> KR_TYPE_UNKNOWN | Some si \<Rightarrow> si_type si)"

definition kr_sdi_get_value ::
  "'d data_params \<Rightarrow> 'd T_KRContext calc_env \<Rightarrow> int \<Rightarrow> 'd T_KRContext \<Rightarrow> (calc_value option \<times> 'd T_KRContext) option" where
  "kr_sdi_get_value pm env sid cx = (case the_sdi sid cx of
       None \<Rightarrow> Some (None, cx)
     | Some si0 \<Rightarrow>
         if si_curr si0 \<noteq> cx_curr cx then do {
           (ret, cx1) \<leftarrow> kr_sdi_compute pm env sid cx;
           si \<leftarrow> the_sdi sid cx1;
           if si_ind si \<noteq> KR_VALUE_SETED then Some (None, cx1)
           else do {
             v \<leftarrow> item_value (si_value si) (si_type si);
             Some (v, put_sdi sid (si\<lparr>si_curr := cx_curr cx1\<rparr>) cx1)
           }
         }
         else if si_ind si0 = KR_VALUE_SETED then do {
           v \<leftarrow> item_value (si_value si0) (si_type si0);
           Some (v, cx)
         }
         else Some (None, cx))"

end
