(* ===== verification/KR_HDI.thy ===== *)
theory KR_HDI
  imports KR_Item
begin

text \<open>
  \<open>krdata/kr_hdi*.c\<close>: history data items, whose values come from the statistics in the program's
  database, and the cache in front of them, a cache from the key of the current record to a table of
  values by item id. A node of the cache is a table in the memory \<open>hc_nodes\<close>.
\<close>

section \<open>Dates\<close>

definition kr_ttime_to_date :: "'d data_params \<Rightarrow> int \<Rightarrow> string" where
  "kr_ttime_to_date pm t = (case pm_localtime pm t of (y, m, d) \<Rightarrow> pad0 4 y @ pad0 2 m @ pad0 2 d)"

section \<open>Aggregation: kr_hdi_func.c\<close>

text \<open>
  The object of the statistics, cut to 30 characters. The switch on the type reads the object behind
  the key as that type.
\<close>

definition data_object :: "'d data_params \<Rightarrow> E_KRType \<Rightarrow> kr_key \<Rightarrow> string option option" where
  "data_object pm ty k = (case (ty, k) of
       (KR_TYPE_INT, KInt w) \<Rightarrow> Some (Some (take 30 (fmt_int (sint w))))
     | (KR_TYPE_LONG, KLong w) \<Rightarrow> Some (Some (take 30 (fmt_int (sint w))))
     | (KR_TYPE_DOUBLE, KDouble d) \<Rightarrow> Some (Some (take 30 (pm_fmt_double pm d)))
     | (KR_TYPE_STRING, KStr s) \<Rightarrow> Some (Some (take 30 s))
     | (KR_TYPE_INT, _) \<Rightarrow> None
     | (KR_TYPE_LONG, _) \<Rightarrow> None
     | (KR_TYPE_DOUBLE, _) \<Rightarrow> None
     | (KR_TYPE_STRING, _) \<Rightarrow> None
     | _ \<Rightarrow> Some None)"

text \<open>
  The switch over the method is commented out in both functions of a period, so \<open>dValue\<close> is always
  zero.
\<close>

definition zero_of :: "E_KRType \<Rightarrow> calc_value option" where
  "zero_of ty = (case ty of
       KR_TYPE_INT \<Rightarrow> Some (V_i 0) | KR_TYPE_LONG \<Rightarrow> Some (V_l 0) | KR_TYPE_DOUBLE \<Rightarrow> Some (V_d (Fin 0))
     | _ \<Rightarrow> None)"

definition put_hdi_value :: "int \<Rightarrow> calc_value option \<Rightarrow> 'd T_KRContext \<Rightarrow> (int \<times> 'd T_KRContext) option" where
  "put_hdi_value hid v cx = (case v of
       None \<Rightarrow> Some (- 1, cx)
     | Some u \<Rightarrow> do {
         hi \<leftarrow> the_hdi hid cx;
         Some (0, put_hdi hid (hi\<lparr>hi_value := u, hi_ind := KR_VALUE_SETED\<rparr>) cx)
       })"

definition kr_hdi_aggr_day ::
  "'d data_params \<Rightarrow> int \<Rightarrow> string \<Rightarrow> 'd T_KRContext \<Rightarrow> (int \<times> 'd T_KRContext) option" where
  "kr_hdi_aggr_day pm hid obj cx = do {
     hi \<leftarrow> the_hdi hid cx;
     c \<leftarrow> cx_curr cx;
     end_time \<leftarrow> kr_get_transtime (cx_db cx) c;
     begin_time \<leftarrow> chk_long (end_time - hd_stat_value (hi_def hi));
     let code = pm_day_sel pm obj (hi_id hi) (kr_ttime_to_date pm begin_time) (kr_ttime_to_date pm end_time);
     if code \<noteq> DB_ok \<and> code \<noteq> DB_not_found then Some (- 1, cx)
     else put_hdi_value hid (zero_of (hi_type hi)) cx
   }"

definition kr_hdi_aggr_mon ::
  "'d data_params \<Rightarrow> int \<Rightarrow> string \<Rightarrow> 'd T_KRContext \<Rightarrow> (int \<times> 'd T_KRContext) option" where
  "kr_hdi_aggr_mon pm hid obj cx = do {
     hi \<leftarrow> the_hdi hid cx;
     c \<leftarrow> cx_curr cx;
     end_time \<leftarrow> kr_get_transtime (cx_db cx) c;
     begin_time \<leftarrow> chk_long (end_time - hd_stat_value (hi_def hi));
     let code = pm_mon_sel pm obj (hi_id hi) (take 6 (kr_ttime_to_date pm begin_time))
       (take 6 (kr_ttime_to_date pm end_time));
     if code \<noteq> DB_ok \<and> code \<noteq> DB_not_found then Some (- 1, cx)
     else put_hdi_value hid (zero_of (hi_type hi)) cx
   }"

definition flag_value :: "E_KRType \<Rightarrow> string \<Rightarrow> calc_value option option" where
  "flag_value ty s = (case ty of
       KR_TYPE_INT \<Rightarrow> map_option (\<lambda>n. Some (V_i (word_of_int n))) (c_atoi s)
     | KR_TYPE_LONG \<Rightarrow> map_option (\<lambda>n. Some (V_l (word_of_int n))) (c_atol s)
     | KR_TYPE_DOUBLE \<Rightarrow> Some (Some (V_d (c_atof s)))
     | KR_TYPE_STRING \<Rightarrow> Some (Some (V_s (Some s)))
     | _ \<Rightarrow> Some None)"

definition kr_hdi_aggr_flag ::
  "'d data_params \<Rightarrow> int \<Rightarrow> string \<Rightarrow> 'd T_KRContext \<Rightarrow> (int \<times> 'd T_KRContext) option" where
  "kr_hdi_aggr_flag pm hid obj cx = do {
     hi \<leftarrow> the_hdi hid cx;
     let (code, flag) = pm_flag_sel pm obj (hi_id hi);
     if code \<noteq> DB_ok \<and> code \<noteq> DB_not_found then Some (- 1, cx)
     else do { v \<leftarrow> flag_value (hi_type hi) flag; put_hdi_value hid v cx }
   }"

text \<open>The result of the three functions is only logged.\<close>

definition kr_hdi_aggr_func ::
  "'d data_params \<Rightarrow> int \<Rightarrow> 'd T_KRContext \<Rightarrow> (int \<times> 'd T_KRContext) option" where
  "kr_hdi_aggr_func pm hid cx = do {
     p \<leftarrow> cx_key cx;
     obj0 \<leftarrow> data_object pm (cx_key_type cx) (key_obj (cx_db cx) p);
     (case obj0 of
        None \<Rightarrow> Some (- 1, cx)
      | Some obj \<Rightarrow> do {
          hi \<leftarrow> the_hdi hid cx;
          let k = hd_stat_type (hi_def hi);
          if k = CHR ''0'' then map_option (\<lambda>(_, cx1). (0, cx1)) (kr_hdi_aggr_day pm hid obj cx)
          else if k = CHR ''1'' then map_option (\<lambda>(_, cx1). (0, cx1)) (kr_hdi_aggr_mon pm hid obj cx)
          else if k = CHR ''2'' then map_option (\<lambda>(_, cx1). (0, cx1)) (kr_hdi_aggr_flag pm hid obj cx)
          else Some (- 1, cx)
        })
   }"

section \<open>The cache: kr_hdi_cache.c\<close>

definition kr_hdi_cache_value_new :: "int \<Rightarrow> T_KRHDICacheValue" where
  "kr_hdi_cache_value_new hid = \<lparr>hv_id = hid, hv_type = KR_TYPE_UNKNOWN, hv_date = '''', hv_ind = KR_VALUE_UNSET,
     hv_value = V_zero\<rparr>"

definition kr_hdi_cache_create :: "(string \<Rightarrow> u32) \<Rightarrow> u32 \<Rightarrow> hdi_cache option option" where
  "kr_hdi_cache_create pointer_hash cache_size = do {
     r \<leftarrow> kr_cache_new cache_size pointer_hash kr_string_hash kr_string_equal (Some (\<lambda>s. s)) None;
     Some (map_option (\<lambda>c. \<lparr>hc_cache = c, hc_nodes = (\<lambda>_. None), hc_fresh = 0\<rparr>) r)
   }"

text \<open>The result is the node that holds the value of the id. The key is read as a string.\<close>

definition kr_hdi_cache_get :: "int \<Rightarrow> hdi_cache \<Rightarrow> string \<Rightarrow> int \<Rightarrow> (nat \<times> hdi_cache) option" where
  "kr_hdi_cache_get now hc k hid = do {
     (found, c1) \<leftarrow> kr_cache_get now (hc_cache hc) k;
     (node, hc1) \<leftarrow> (case found of
         Some node \<Rightarrow> Some (node, hc\<lparr>hc_cache := c1\<rparr>)
       | None \<Rightarrow> do {
           let node = hc_fresh hc;
           c2 \<leftarrow> kr_cache_set c1 k node;
           Some (node, hc\<lparr>hc_cache := c2, hc_nodes := (hc_nodes hc)(node \<mapsto> (\<lambda>_. None)), hc_fresh := node + 1\<rparr>)
         });
     tab \<leftarrow> hc_nodes hc1 node;
     Some (node, (case tab hid of
         Some _ \<Rightarrow> hc1
       | None \<Rightarrow> hc1\<lparr>hc_nodes := (hc_nodes hc1)(node \<mapsto> tab(hid \<mapsto> kr_hdi_cache_value_new hid))\<rparr>))
   }"

definition cached :: "hdi_cache \<Rightarrow> nat \<Rightarrow> int \<Rightarrow> T_KRHDICacheValue option" where
  "cached hc node hid = do { tab \<leftarrow> hc_nodes hc node; tab hid }"

definition put_cached :: "nat \<Rightarrow> int \<Rightarrow> T_KRHDICacheValue \<Rightarrow> hdi_cache \<Rightarrow> hdi_cache option" where
  "put_cached node hid v hc = do {
     tab \<leftarrow> hc_nodes hc node;
     Some (hc\<lparr>hc_nodes := (hc_nodes hc)(node \<mapsto> tab(hid \<mapsto> v))\<rparr>)
   }"

section \<open>Values: kr_hdi.c\<close>

definition kr_hdi_compute :: "'d data_params \<Rightarrow> int \<Rightarrow> 'd T_KRContext \<Rightarrow> (int \<times> 'd T_KRContext) option" where
  "kr_hdi_compute pm hid cx0 = do {
     hi0 \<leftarrow> the_hdi hid cx0;
     hi \<leftarrow> kr_hdi_init hi0;
     (found, cx1) \<leftarrow> gather (hd_index (hi_def hi)) (put_hdi hid hi cx0);
     if \<not> found then Some (0, cx1)
     else do {
       let aggr = (if hi_aggr hi = Aggr_null then Aggr_default else hi_aggr hi);
       let cx2 = put_hdi hid (hi\<lparr>hi_aggr := aggr\<rparr>) cx1;
       (ret, cx3) \<leftarrow> (case aggr of
           Aggr_symbol name \<Rightarrow> pm_hdi_plugin pm name hid cx2
         | _ \<Rightarrow> kr_hdi_aggr_func pm hid cx2);
       Some (if ret \<noteq> 0 then - 1 else 0, cx3)
     }
   }"

definition kr_hdi_get_type :: "int \<Rightarrow> 'd T_KRContext \<Rightarrow> E_KRType" where
  "kr_hdi_get_type hid cx = (case the_hdi hid cx of None \<Rightarrow> KR_TYPE_UNKNOWN | Some hi \<Rightarrow> hi_type hi)"

text \<open>The copy of a value between an item and its cached value, by the item's type; strings are duplicated.\<close>

definition copy_value :: "E_KRType \<Rightarrow> calc_value \<Rightarrow> calc_value \<Rightarrow> calc_value option" where
  "copy_value ty src old = (case ty of
       KR_TYPE_INT \<Rightarrow> map_option V_i (get_i src)
     | KR_TYPE_LONG \<Rightarrow> map_option V_l (get_l src)
     | KR_TYPE_DOUBLE \<Rightarrow> map_option V_d (get_d src)
     | KR_TYPE_STRING \<Rightarrow> do { s \<leftarrow> get_s src; t \<leftarrow> s; Some (V_s (Some t)) }
     | _ \<Rightarrow> Some old)"

text \<open>
  \<open>krcontext->pKeyValue\<close> is read before \<open>kr_hdi_compute\<close> sets it: it is the key of the item computed
  before, or NULL.
\<close>

definition kr_hdi_get_value_from_cache ::
  "'d data_params \<Rightarrow> int \<Rightarrow> hdi_cache \<Rightarrow> 'd T_KRContext \<Rightarrow> 'd T_KRContext option" where
  "kr_hdi_get_value_from_cache pm hid hc cx = do {
     hi \<leftarrow> the_hdi hid cx;
     p \<leftarrow> cx_key cx;
     k \<leftarrow> (case key_obj (cx_db cx) p of KStr s \<Rightarrow> Some s | _ \<Rightarrow> None);
     (node, hc1) \<leftarrow> kr_hdi_cache_get (pm_now pm) hc k (hi_id hi);
     let cx1 = cx\<lparr>cx_hdi_cache := Some hc1\<rparr>;
     cv \<leftarrow> cached hc1 node (hi_id hi);
     if hv_ind cv = KR_VALUE_SETED \<and> 0 \<le> c_strcmp (hv_date cv) ''00000000'' then do {
       v \<leftarrow> copy_value (hi_type hi) (hv_value cv) (hi_value hi);
       Some (put_hdi hid (hi\<lparr>hi_value := v, hi_ind := KR_VALUE_SETED\<rparr>) cx1)
     }
     else do {
       (ret, cx2) \<leftarrow> kr_hdi_compute pm hid cx1;
       hi2 \<leftarrow> the_hdi hid cx2;
       if hi_ind hi2 \<noteq> KR_VALUE_SETED then Some cx2
       else do {
         c \<leftarrow> cx_curr cx2;
         t \<leftarrow> kr_get_transtime (cx_db cx2) c;
         hc2 \<leftarrow> cx_hdi_cache cx2;
         cv2 \<leftarrow> cached hc2 node (hi_id hi);
         v \<leftarrow> copy_value (hi_type hi2) (hi_value hi2) (hv_value cv2);
         hc3 \<leftarrow> put_cached node (hi_id hi) (cv2\<lparr>hv_type := hi_type hi2, hv_date := kr_ttime_to_date pm t,
           hv_value := v, hv_ind := KR_VALUE_SETED\<rparr>) hc2;
         Some (cx2\<lparr>cx_hdi_cache := Some hc3\<rparr>)
       }
     }
   }"

definition kr_hdi_get_value ::
  "'d data_params \<Rightarrow> int \<Rightarrow> 'd T_KRContext \<Rightarrow> (calc_value option \<times> 'd T_KRContext) option" where
  "kr_hdi_get_value pm hid cx =
     (let finish = (\<lambda>cx1. do {
            hi \<leftarrow> the_hdi hid cx1;
            if hi_ind hi = KR_VALUE_SETED
            then do { v \<leftarrow> item_value (hi_value hi) (hi_type hi); Some (v, cx1) }
            else Some (None, cx1)
          });
          stamp = (\<lambda>cx1. do {
            hi \<leftarrow> the_hdi hid cx1;
            finish (put_hdi hid (hi\<lparr>hi_curr := cx_curr cx1\<rparr>) cx1)
          })
      in case the_hdi hid cx of
           None \<Rightarrow> Some (None, cx)
         | Some hi \<Rightarrow>
             if hi_curr hi \<noteq> cx_curr cx then
               (case cx_hdi_cache cx of
                  Some hc \<Rightarrow> do { cx1 \<leftarrow> kr_hdi_get_value_from_cache pm hid hc cx; stamp cx1 }
                | None \<Rightarrow> do {
                    (ret, cx1) \<leftarrow> kr_hdi_compute pm hid cx;
                    if ret \<noteq> 0 then Some (None, cx1) else stamp cx1
                  })
             else finish cx)"

end
