(* ===== verification/KR_Data.thy ===== *)
theory KR_Data
  imports KR_HDI
begin

text \<open>
  \<open>krdata/kr_data.c\<close> and \<open>krdata/kr_set.c\<close>: the two callbacks of every calculator of a context. They
  compute items by evaluating calculators, which call them again; \<open>data_env n\<close> allows \<open>n\<close> levels of
  nesting and is undefined below, so that an item that depends on itself has no value for any \<open>n\<close>.
\<close>

definition kr_set_get_type :: "int \<Rightarrow> 'd T_KRContext \<Rightarrow> E_KRType" where
  "kr_set_get_type aid cx =
     (case kr_set_lookup (dy_sets (cx_dym cx)) aid of None \<Rightarrow> KR_TYPE_UNKNOWN | Some z \<Rightarrow> zs_type z)"

definition kr_set_get_value :: "int \<Rightarrow> 'd T_KRContext \<Rightarrow> calc_value option" where
  "kr_set_get_value aid cx =
     map_option (\<lambda>z. V_p (Some (P_set (zs_set z)))) (kr_set_lookup (dy_sets (cx_dym cx)) aid)"

text \<open>The field functions dereference the record pointer.\<close>

definition kr_data_get_type :: "E_KRCalcKind \<Rightarrow> int \<Rightarrow> 'd T_KRContext \<Rightarrow> E_KRType option" where
  "kr_data_get_type kind i cx = (case kind of
       KR_CALCKIND_CID \<Rightarrow> do { r \<leftarrow> cx_curr cx; kr_get_field_type (cx_db cx) r i }
     | KR_CALCKIND_FID \<Rightarrow> do { r \<leftarrow> cx_rec cx; kr_get_field_type (cx_db cx) r i }
     | KR_CALCKIND_SET \<Rightarrow> Some (kr_set_get_type i cx)
     | KR_CALCKIND_SID \<Rightarrow> Some (kr_sdi_get_type i cx)
     | KR_CALCKIND_DID \<Rightarrow> Some (kr_ddi_get_type i cx)
     | KR_CALCKIND_HID \<Rightarrow> Some (kr_hdi_get_type i cx)
     | _ \<Rightarrow> Some KR_TYPE_UNKNOWN)"

definition field_value :: "'d T_KRDB \<Rightarrow> rec_ptr \<Rightarrow> int \<Rightarrow> calc_value option" where
  "field_value db r fld = do {
     ty \<leftarrow> kr_get_field_type db r fld;
     k \<leftarrow> field_object db r fld;
     Some (obj_value ty k)
   }"

definition kr_data_get_value ::
  "'d data_params \<Rightarrow> 'd T_KRContext calc_env \<Rightarrow> E_KRCalcKind \<Rightarrow> int \<Rightarrow> 'd T_KRContext \<Rightarrow>
   (calc_value option \<times> 'd T_KRContext) option" where
  "kr_data_get_value pm env kind i cx = (case kind of
       KR_CALCKIND_CID \<Rightarrow> do { r \<leftarrow> cx_curr cx; v \<leftarrow> field_value (cx_db cx) r i; Some (Some v, cx) }
     | KR_CALCKIND_FID \<Rightarrow> do { r \<leftarrow> cx_rec cx; v \<leftarrow> field_value (cx_db cx) r i; Some (Some v, cx) }
     | KR_CALCKIND_SET \<Rightarrow> Some (kr_set_get_value i cx, cx)
     | KR_CALCKIND_SID \<Rightarrow> kr_sdi_get_value pm env i cx
     | KR_CALCKIND_DID \<Rightarrow> kr_ddi_get_value pm env i cx
     | KR_CALCKIND_HID \<Rightarrow> kr_hdi_get_value pm i cx
     | _ \<Rightarrow> Some (None, cx))"

primrec data_env :: "'d data_params \<Rightarrow> nat \<Rightarrow> 'd T_KRContext calc_env" where
  "data_env pm 0 =
     \<lparr>get_type_cb = kr_data_get_type, get_value_cb = (\<lambda>_ _ _. None), regexec_fn = pm_regexec pm\<rparr>"
| "data_env pm (Suc n) =
     \<lparr>get_type_cb = kr_data_get_type, get_value_cb = kr_data_get_value pm (data_env pm n),
      regexec_fn = pm_regexec pm\<rparr>"

end
