(* ===== verification/KR_Data_Eval.thy ===== *)
theory KR_Data_Eval
  imports KR_Data
begin

text \<open>
  Evaluation in a fixed state: a calculator whose identifiers are fields of the current record, fields
  of the record under examination and sets neither reads nor changes anything else of the context, so
  the reference semantics of \<open>KR_Calc_Sem\<close> over the values of these fields describes it. The walks of
  the data items are reduced to a fold over the records that pass.
\<close>

section \<open>Evaluation depends on the identifiers of the tree only\<close>

fun ext_nodes :: "T_KRCalcTree \<Rightarrow> (E_KRCalcKind \<times> int) set" where
  "ext_nodes (CalcTree cs k op i ty d v) =
     (if is_extern_kind k then {(k, i)} else {}) \<union> \<Union> (set (map ext_nodes cs))"

fun exts :: "cexp \<Rightarrow> (E_KRCalcKind \<times> int) set" where
  "exts (CE_const x) = {}"
| "exts (CE_ext k i) = {(k, i)}"
| "exts (CE_arith op ty a b) = exts a \<union> exts b"
| "exts (CE_logic op a b) = exts a \<union> exts b"
| "exts (CE_rel op es) = \<Union> (set (map exts es))"

definition lift :: "'s \<Rightarrow> (int \<times> 't \<times> T_KRCalc \<times> unit) option \<Rightarrow> (int \<times> 't \<times> T_KRCalc \<times> 's) option" where
  "lift s r = map_option (\<lambda>(c, t, kc, _). (c, t, kc, s)) r"

lemma lift_simps [simp]:
  "lift s None = None" "lift s (Some (c, t, kc, u)) = Some (c, t, kc, s)"
  by (simp_all add: lift_def)

definition agrees :: "'s calc_env \<Rightarrow> unit calc_env \<Rightarrow> 's \<Rightarrow> (E_KRCalcKind \<times> int) set \<Rightarrow> bool" where
  "agrees env env0 s N \<longleftrightarrow> regexec_fn env = regexec_fn env0 \<and>
     (\<forall>k i. (k, i) \<in> N \<longrightarrow> get_type_cb env k i s = get_type_cb env0 k i () \<and>
        get_value_cb env k i s = map_option (\<lambda>(v, _). (v, s)) (get_value_cb env0 k i ()))"

lemma agrees_subset: "agrees env env0 s N \<Longrightarrow> N' \<subseteq> N \<Longrightarrow> agrees env env0 s N'"
  by (auto simp: agrees_def)

text \<open>Pushing \<open>lift\<close> to the results of a node's evaluation.\<close>

lemma lift_bind: "lift s (x \<bind> f) = x \<bind> (\<lambda>y. lift s (f y))"
  by (cases x) simp_all

lemma lift_fail: "lift s (eval_fail msg t (kc, u)) = eval_fail msg t (kc, s)"
  by (simp add: eval_fail_def)

lemma lift_if: "lift s (if c then x else y) = (if c then lift s x else lift s y)"
  by simp

lemma lift_option: "lift s (case r of None \<Rightarrow> x | Some y \<Rightarrow> f y) = (case r of None \<Rightarrow> lift s x | Some y \<Rightarrow> lift s (f y))"
  by (cases r) simp_all

lemma lift_sum: "lift s (case r of Inl y \<Rightarrow> g y | Inr y \<Rightarrow> f y) = (case r of Inl y \<Rightarrow> lift s (g y) | Inr y \<Rightarrow> lift s (f y))"
  by (cases r) simp_all

lemma lift_prod: "lift s (case r of (x, y) \<Rightarrow> f x y) = (case r of (x, y) \<Rightarrow> lift s (f x y))"
  by (cases r) simp_all

lemmas lift_push = lift_bind lift_fail lift_if lift_option lift_sum lift_prod lift_simps

lemma rel_lift: "calc_tree_eval_rel t (kc, s) = lift s (calc_tree_eval_rel t (kc, ()))"
  by (simp only: calc_tree_eval_rel_def Let_def lift_push E_KRCalcOp.case_distrib [where h = "lift s"])

lemma arith_lift: "calc_tree_eval_arith t (kc, s) = lift s (calc_tree_eval_arith t (kc, ()))"
  by (simp only: calc_tree_eval_arith_def Let_def lift_push)

lemma logic_op_env:
  assumes "regexec_fn env = regexec_fn env0"
  shows "logic_op env = logic_op env0"
  unfolding logic_op_def assms ..

lemma logic_lift:
  assumes "regexec_fn env = regexec_fn env0"
  shows "calc_tree_eval_logic env t (kc, s) = lift s (calc_tree_eval_logic env0 t (kc, ()))"
  by (simp only: calc_tree_eval_logic_def Let_def lift_push logic_op_env [OF assms])

lemma extern_lift:
  assumes a: "agrees env env0 s N" and n: "(ct_kind t, ct_id t) \<in> N"
  shows "calc_tree_eval_extern env t (kc, s) = lift s (calc_tree_eval_extern env0 t (kc, ()))"
proof -
  from a n have ty: "get_type_cb env (ct_kind t) (ct_id t) s = get_type_cb env0 (ct_kind t) (ct_id t) ()"
    and val: "get_value_cb env (ct_kind t) (ct_id t) s =
      map_option (\<lambda>(v, _). (v, s)) (get_value_cb env0 (ct_kind t) (ct_id t) ())"
    by (auto simp: agrees_def)
  have kind: "ct_kind (set_ind d t) = ct_kind t" "ct_id (set_ind d t) = ct_id t" "ct_type (set_ind d t) = ct_type t"
    "ct_kind (set_type y t) = ct_kind t" "ct_id (set_type y t) = ct_id t" for d y t
    by (cases t; simp)+
  define t1 where "t1 = set_ind KR_VALUE_UNSET t"
  have t1: "ct_kind t1 = ct_kind t" "ct_id t1 = ct_id t" by (simp_all add: t1_def kind)
  define tt where "tt = (if ct_type t1 = KR_TYPE_UNKNOWN
      then map_option (\<lambda>ty. set_type ty t1) (get_type_cb env0 (ct_kind t1) (ct_id t1) ()) else Some t1)"
  have keep: "ct_kind t2 = ct_kind t" "ct_id t2 = ct_id t" if "tt = Some t2" for t2
    using that t1 by (auto simp: tt_def kind split: if_splits)
  have pick: "(if ct_type t1 = KR_TYPE_UNKNOWN
      then map_option (\<lambda>ty. set_type ty t1) (get_type_cb env (ct_kind t1) (ct_id t1) s) else Some t1) = tt"
    by (simp add: tt_def t1 ty)
  show ?thesis
    unfolding calc_tree_eval_extern_def Let_def t1_def [symmetric] snd_conv fst_conv pick tt_def [symmetric] lift_bind
  proof (rule Option.bind_cong [OF refl])
    fix t2 assume "tt = Some t2"
    note k = keep [OF this]
    show "(if ct_type t2 = KR_TYPE_UNKNOWN then eval_fail (Msg_type_unknown (ct_kind t2) (ct_id t2)) t2 (kc, s)
        else get_value_cb env (ct_kind t2) (ct_id t2) s \<bind> (\<lambda>(val, s1). case val of
          None \<Rightarrow> Some (0, t2, kc, s1)
        | Some v \<Rightarrow> if ct_kind t2 = KR_CALCKIND_SET then get_p v \<bind> (\<lambda>p.
              Some (0, set_ind KR_VALUE_SETED (set_value (V_p p) (set_type KR_TYPE_POINTER t2)), kc, s1))
            else read_extern (ct_type t2) v \<bind> (\<lambda>r. case r of
              None \<Rightarrow> eval_fail (Msg_unsupport_type (ct_type t2)) t2 (kc, s1)
            | Some w \<Rightarrow> Some (0, set_ind KR_VALUE_SETED (set_value w t2), kc, s1)))) =
      lift s (if ct_type t2 = KR_TYPE_UNKNOWN then eval_fail (Msg_type_unknown (ct_kind t2) (ct_id t2)) t2 (kc, ())
        else get_value_cb env0 (ct_kind t2) (ct_id t2) () \<bind> (\<lambda>(val, s1). case val of
          None \<Rightarrow> Some (0, t2, kc, s1)
        | Some v \<Rightarrow> if ct_kind t2 = KR_CALCKIND_SET then get_p v \<bind> (\<lambda>p.
              Some (0, set_ind KR_VALUE_SETED (set_value (V_p p) (set_type KR_TYPE_POINTER t2)), kc, s1))
            else read_extern (ct_type t2) v \<bind> (\<lambda>r. case r of
              None \<Rightarrow> eval_fail (Msg_unsupport_type (ct_type t2)) t2 (kc, s1)
            | Some w \<Rightarrow> Some (0, set_ind KR_VALUE_SETED (set_value w t2), kc, s1))))"
      unfolding k val
      by (cases "get_value_cb env0 (ct_kind t) (ct_id t) ()") (simp_all only: lift_push option.map bind.simps prod.case split_beta fst_conv snd_conv)
  qed
qed

lemma node_lift:
  assumes a: "agrees env env0 s N" and n: "is_extern_kind (ct_kind t) \<Longrightarrow> (ct_kind t, ct_id t) \<in> N"
  shows "calc_tree_eval_node env t (kc, s) = lift s (calc_tree_eval_node env0 t (kc, ()))"
  using a n extern_lift [OF a] logic_lift [of env env0 t kc s] rel_lift [of t kc s] arith_lift [of t kc s]
  by (auto simp: calc_tree_eval_node_def agrees_def)

lemma traverse_lift:
  "agrees env env0 s (ext_nodes t) \<Longrightarrow>
   kr_calc_tree_traverse (calc_tree_eval_node env) t (kc, s) =
   lift s (kr_calc_tree_traverse (calc_tree_eval_node env0) t (kc, ()))"
proof (induction t arbitrary: kc)
  case (CalcTree cs k op i ty d v)
  have sub: "agrees env env0 s (ext_nodes c)" if "c \<in> set cs" for c
    using that by (intro agrees_subset [OF CalcTree.prems]) auto
  have children: "set cs' \<subseteq> set cs \<Longrightarrow> traverse_children (calc_tree_eval_node env) cs' (kc, s) =
      lift s (traverse_children (calc_tree_eval_node env0) cs' (kc, ()))" for cs' kc
  proof (induction cs' arbitrary: kc)
    case Nil
    then show ?case by simp
  next
    case (Cons c cs')
    have c: "kr_calc_tree_traverse (calc_tree_eval_node env) c (kc, s) =
        lift s (kr_calc_tree_traverse (calc_tree_eval_node env0) c (kc, ()))" for kc
      using Cons.prems CalcTree.IH sub by simp
    have cs': "traverse_children (calc_tree_eval_node env) cs' (kc, s) =
        lift s (traverse_children (calc_tree_eval_node env0) cs' (kc, ()))" for kc
      using Cons.prems Cons.IH by simp
    show ?case
    proof (cases "kr_calc_tree_traverse (calc_tree_eval_node env0) c (kc, ())")
      case None
      then show ?thesis by (simp add: c)
    next
      case (Some x)
      then show ?thesis
        by (cases x; cases "traverse_children (calc_tree_eval_node env0) cs' (fst (snd (snd x)), ())") (auto simp: c cs')
    qed
  qed
  have node: "calc_tree_eval_node env (CalcTree cs' k op i ty d v) (kc, s) =
      lift s (calc_tree_eval_node env0 (CalcTree cs' k op i ty d v) (kc, ()))" for cs' kc
    by (rule node_lift [OF CalcTree.prems]) simp
  show ?case
  proof (cases "traverse_children (calc_tree_eval_node env0) cs (kc, ())")
    case None
    then show ?thesis by (simp add: children)
  next
    case (Some x)
    then show ?thesis
      by (cases x; cases "calc_tree_eval_node env0 (CalcTree (fst (snd x)) k op i ty d v) (fst (snd (snd x)), ())")
        (auto simp: children node Let_def)
  qed
qed

lemma eval_lift:
  assumes "calc_tree kc = Some t" and "agrees env env0 s (ext_nodes t)"
  shows "kr_calc_eval env kc s = map_option (\<lambda>(c, k, _). (c, k, s)) (kr_calc_eval env0 kc ())"
  using assms(1)
  by (cases "kr_calc_tree_traverse (calc_tree_eval_node env0) t (kc, ())")
    (auto simp: kr_calc_eval_def kr_calc_tree_eval_def traverse_lift [OF assms(2)])

lemma reps_ext_nodes: "reps se e t \<Longrightarrow> ext_nodes t = exts e"
proof (induction e arbitrary: t)
  case (CE_const x)
  then show ?case by (cases t; cases x) (auto simp: is_extern_kind_def)
next
  case (CE_ext k i)
  then show ?case by (cases t) auto
next
  case (CE_arith op ty a b)
  then show ?case by (cases t) (auto simp: is_extern_kind_def split: list.splits)
next
  case (CE_logic op a b)
  then show ?case by (cases t) (auto simp: is_extern_kind_def split: list.splits)
next
  case (CE_rel op es)
  obtain cs k p i ty d v where t: "t = CalcTree cs k p i ty d v" by (cases t)
  with CE_rel.prems have "k = KR_CALCKIND_REL" and l: "list_all2 (reps se) es cs" by auto
  moreover have "map ext_nodes cs = map exts es"
    using l CE_rel.IH by (intro nth_equalityI) (auto simp: list_all2_conv_all_nth)
  ultimately show ?case using t by (simp add: is_extern_kind_def del: set_map)
qed

section \<open>Pure environments\<close>

definition pure_cbs :: "unit spec_env \<Rightarrow> unit calc_env" where
  "pure_cbs se = \<lparr>get_type_cb = (\<lambda>k i _. Some (tyof se k i)),
     get_value_cb = (\<lambda>k i _. Some (map_option val_of (fst (lookup se k i ())), ())), regexec_fn = rematch se\<rparr>"

definition typed_lookup :: "unit spec_env \<Rightarrow> bool" where
  "typed_lookup se \<longleftrightarrow> (\<forall>k i x. fst (lookup se k i ()) = Some x \<longrightarrow>
     (if k = KR_CALCKIND_SET then \<exists>h. x = CSet h else type_of x = tyof se k i \<and> tyof se k i \<noteq> KR_TYPE_POINTER))"

lemma pure_rep: "typed_lookup se \<Longrightarrow> env_rep se (pure_cbs se)"
  by (simp add: env_rep_def pure_cbs_def typed_lookup_def)

text \<open>A condition: the root has the type of a truth value whatever happens.\<close>

definition is_cond :: "cexp \<Rightarrow> bool" where
  "is_cond e \<longleftrightarrow> (case e of CE_logic _ _ _ \<Rightarrow> True | CE_rel _ _ \<Rightarrow> True | _ \<Rightarrow> False)"

definition cond_holds :: "unit spec_env \<Rightarrow> cexp \<Rightarrow> bool option" where
  "cond_holds se e = (case den se e () of Some (D_val (CBool w), _) \<Rightarrow> Some (w \<noteq> 0) | _ \<Rightarrow> None)"

text \<open>Evaluating the calculator of a condition leaves the state, and its outcome is the condition's.\<close>

lemma cond_eval:
  assumes "typed_lookup se" and "calc_tree kc = Some t" and "reps se e t"
    and "agrees env (pure_cbs se) s (exts e)" and "cond_holds se e = Some b"
  shows "\<exists>kc' t'. kr_calc_eval env kc s = Some (0, kc', s) \<and> calc_tree kc' = Some t' \<and> reps se e t' \<and>
    filter_outcome 0 kc' = Some (Inr b)"
proof -
  from assms(5) obtain w u where d: "den se e () = Some (D_val (CBool w), u)" "b = (w \<noteq> 0)"
    by (auto simp: cond_holds_def split: option.splits dres.splits cval.splits)
  have l: "kr_calc_eval env kc s = map_option (\<lambda>(c, k, _). (c, k, s)) (kr_calc_eval (pure_cbs se) kc ())"
    by (rule eval_lift [OF assms(2)]) (simp add: reps_ext_nodes [OF assms(3)] assms(4))
  show ?thesis
  proof (cases rule: calc_eval_cases [OF pure_rep [OF assms(1)] assms(2,3), of "()", case_names undef fails returns])
    case undef
    with d show ?thesis by simp
  next
    case (fails kc' s' t')
    with d show ?thesis by simp
  next
    case (returns r kc' s' t')
    with d l show ?thesis
      by (simp add: filter_outcome_def kr_calc_type_def kr_calc_ind_def kr_calc_value_def node_res_def)
  qed
qed

section \<open>The identifiers of a filter\<close>

fun key_cval :: "kr_key \<Rightarrow> cval option" where
  "key_cval (KInt w) = Some (CInt w)"
| "key_cval (KLong w) = Some (CLong w)"
| "key_cval (KDouble d) = Some (CDbl d)"
| "key_cval (KStr s) = Some (CStr s)"
| "key_cval (KPtr p) = None"

text \<open>The type of a field by its table, and the value of a field of a record of the table \<open>t\<close>.\<close>

definition tab_type :: "'d T_KRDB \<Rightarrow> nat \<Rightarrow> int \<Rightarrow> E_KRType" where
  "tab_type db t i = (case db_tables db t of
       None \<Rightarrow> KR_TYPE_UNKNOWN
     | Some tb \<Rightarrow> if 0 \<le> i \<and> nat i < length (tb_fields tb) then fd_type (tb_fields tb ! nat i) else KR_TYPE_UNKNOWN)"

definition field_cval :: "'d T_KRDB \<Rightarrow> nat \<Rightarrow> rec_ptr \<Rightarrow> int \<Rightarrow> cval option" where
  "field_cval db t r i = do {
     k \<leftarrow> field_object db r i;
     x \<leftarrow> key_cval k;
     if type_of x = tab_type db t i then Some x else None
   }"

definition has_field :: "'d T_KRDB \<Rightarrow> nat \<Rightarrow> rec_ptr \<Rightarrow> int \<Rightarrow> bool" where
  "has_field db t r i \<longleftrightarrow> kr_get_field_type db r i = Some (tab_type db t i) \<and> field_cval db t r i \<noteq> None"

text \<open>
  The environment of a filter for the record \<open>r\<close>: the fields of the current record, of \<open>r\<close>, whose table
  is \<open>ts\<close>, and the sets.
\<close>

definition rec_spec :: "'d data_params \<Rightarrow> 'd T_KRContext \<Rightarrow> nat \<Rightarrow> rec_ptr \<Rightarrow> unit spec_env" where
  "rec_spec pm cx ts r = \<lparr>
     tyof = (\<lambda>k i. case k of
         KR_CALCKIND_CID \<Rightarrow> (case cx_curr cx of Some c \<Rightarrow> tab_type (cx_db cx) (fst c) i | None \<Rightarrow> KR_TYPE_UNKNOWN)
       | KR_CALCKIND_FID \<Rightarrow> tab_type (cx_db cx) ts i
       | KR_CALCKIND_SET \<Rightarrow> kr_set_get_type i cx
       | _ \<Rightarrow> KR_TYPE_UNKNOWN),
     lookup = (\<lambda>k i _. (case k of
         KR_CALCKIND_CID \<Rightarrow> (case cx_curr cx of Some c \<Rightarrow> field_cval (cx_db cx) (fst c) c i | None \<Rightarrow> None)
       | KR_CALCKIND_FID \<Rightarrow> field_cval (cx_db cx) ts r i
       | KR_CALCKIND_SET \<Rightarrow> map_option (\<lambda>z. CSet (zs_set z)) (kr_set_lookup (dy_sets (cx_dym cx)) i)
       | _ \<Rightarrow> None, ())),
     rematch = pm_regexec pm\<rparr>"

definition flat_ok :: "'d T_KRContext \<Rightarrow> nat \<Rightarrow> rec_ptr \<Rightarrow> (E_KRCalcKind \<times> int) set \<Rightarrow> bool" where
  "flat_ok cx ts r N \<longleftrightarrow> (\<forall>k i. (k, i) \<in> N \<longrightarrow> (case k of
       KR_CALCKIND_CID \<Rightarrow> (case cx_curr cx of Some c \<Rightarrow> has_field (cx_db cx) (fst c) c i | None \<Rightarrow> False)
     | KR_CALCKIND_FID \<Rightarrow> has_field (cx_db cx) ts r i
     | KR_CALCKIND_SET \<Rightarrow> True
     | _ \<Rightarrow> False))"

lemma field_cval_type: "field_cval db t r i = Some x \<Longrightarrow> type_of x = tab_type db t i \<and> tab_type db t i \<noteq> KR_TYPE_POINTER"
proof -
  assume f: "field_cval db t r i = Some x"
  then obtain k where "key_cval k = Some x" "type_of x = tab_type db t i"
    by (auto simp: field_cval_def bind_eq_Some_conv split: if_splits)
  then show ?thesis by (cases k) auto
qed

lemma rec_typed: "typed_lookup (rec_spec pm cx ts r)"
  by (auto simp: typed_lookup_def rec_spec_def split: E_KRCalcKind.splits option.splits dest: field_cval_type)

lemma field_value_cval:
  assumes "has_field db t r i" and "field_cval db t r i = Some x"
  shows "field_value db r i = Some (val_of x)"
proof -
  from assms obtain k where k: "field_object db r i = Some k" "key_cval k = Some x" "type_of x = tab_type db t i"
    by (auto simp: field_cval_def bind_eq_Some_conv split: if_splits)
  with assms(1) show ?thesis by (cases k) (auto simp: field_value_def has_field_def)
qed

definition same_view :: "'d T_KRContext \<Rightarrow> 'd T_KRContext \<Rightarrow> bool" where
  "same_view cx cx' \<longleftrightarrow> cx_db cx' = cx_db cx \<and> cx_curr cx' = cx_curr cx \<and> dy_sets (cx_dym cx') = dy_sets (cx_dym cx)"

lemma rec_agrees:
  assumes "same_view cx cx'" and "cx_rec cx' = Some r" and "flat_ok cx ts r N"
  shows "agrees (data_env pm (Suc n)) (pure_cbs (rec_spec pm cx ts r)) cx' N"
  unfolding agrees_def
proof (intro conjI allI impI)
  fix k i assume "(k, i) \<in> N"
  with assms(3) have f: "case k of
       KR_CALCKIND_CID \<Rightarrow> (case cx_curr cx of Some c \<Rightarrow> has_field (cx_db cx) (fst c) c i | None \<Rightarrow> False)
     | KR_CALCKIND_FID \<Rightarrow> has_field (cx_db cx) ts r i
     | KR_CALCKIND_SET \<Rightarrow> True
     | _ \<Rightarrow> False"
    by (auto simp: flat_ok_def)
  have v: "cx_db cx' = cx_db cx" "cx_curr cx' = cx_curr cx" "dy_sets (cx_dym cx') = dy_sets (cx_dym cx)"
    using assms(1) by (simp_all add: same_view_def)
  note d = v assms(2) rec_spec_def pure_cbs_def kr_data_get_type_def kr_data_get_value_def kr_set_get_type_def kr_set_get_value_def
  show "get_type_cb (data_env pm (Suc n)) k i cx' = get_type_cb (pure_cbs (rec_spec pm cx ts r)) k i ()"
    using f by (cases k) (auto simp: d has_field_def split: option.splits)
  show "get_value_cb (data_env pm (Suc n)) k i cx' =
      map_option (\<lambda>(v, _). (v, cx')) (get_value_cb (pure_cbs (rec_spec pm cx ts r)) k i ())"
  proof (cases k)
    case KR_CALCKIND_CID
    with f obtain c where c: "cx_curr cx = Some c" "has_field (cx_db cx) (fst c) c i" by (auto split: option.splits)
    then obtain x where "field_cval (cx_db cx) (fst c) c i = Some x" by (auto simp: has_field_def)
    with c field_value_cval [OF c(2) this] KR_CALCKIND_CID show ?thesis by (simp add: d)
  next
    case KR_CALCKIND_FID
    with f have h: "has_field (cx_db cx) ts r i" by simp
    then obtain x where "field_cval (cx_db cx) ts r i = Some x" by (auto simp: has_field_def)
    with field_value_cval [OF h this] KR_CALCKIND_FID show ?thesis by (simp add: d)
  next
    case KR_CALCKIND_SET
    then show ?thesis by (simp add: d option.map_comp comp_def)
  qed (use f in auto)
qed (simp add: pure_cbs_def rec_spec_def)

lemma view_spec:
  assumes "same_view cx cx'"
  shows "rec_spec pm cx' ts r = rec_spec pm cx ts r"
proof -
  have v: "cx_db cx' = cx_db cx" "cx_curr cx' = cx_curr cx" "dy_sets (cx_dym cx') = dy_sets (cx_dym cx)"
    using assms by (simp_all add: same_view_def)
  show ?thesis unfolding rec_spec_def kr_set_get_type_def v ..
qed

text \<open>Which trees stand for an expression does not depend on the record.\<close>

lemma reps_types: "tyof se = tyof se' \<Longrightarrow> reps se e t \<Longrightarrow> reps se' e t"
proof (induction e arbitrary: t)
  case (CE_rel op es)
  obtain cs k p i ty d v where t: "t = CalcTree cs k p i ty d v" by (cases t)
  with CE_rel.prems have "list_all2 (reps se) es cs" by simp
  then have "list_all2 (reps se') es cs" using CE_rel by (auto intro: list.rel_mono_strong)
  with t CE_rel.prems show ?case by simp
next
  case (CE_ext k i)
  then show ?case by (cases t) simp
next
  case (CE_const x)
  then show ?case by (cases t) simp
next
  case (CE_arith op ty a b)
  then show ?case by (cases t) (auto split: list.splits)
next
  case (CE_logic op a b)
  then show ?case by (cases t) (auto split: list.splits)
qed

lemma reps_rec: "reps (rec_spec pm cx ts r) e t \<Longrightarrow> reps (rec_spec pm cx ts r') e t"
  by (rule reps_types) (simp_all add: rec_spec_def)

end
