(* ===== verification/KR_Data_Walk.thy ===== *)
theory KR_Data_Walk
  imports KR_Data_Eval
begin

text \<open>
  The walks of dynamic and static items over the records of a list, newest first, as a fold over the
  records that the item's definition picks.
\<close>

section \<open>Writing an item\<close>

lemma map_of_put: "map_of (it_items (put_item i x t)) i = (if map_of (it_items t) i = None then None else Some x)"
proof -
  have "map_of (map (\<lambda>e. if fst e = i then (i, x) else e) es) i = (if map_of es i = None then None else Some x)" for es
    by (induction es) auto
  then show ?thesis by (simp add: put_item_def)
qed

lemma put_item_twice: "put_item i y (put_item i x t) = put_item i y t"
  by (simp add: put_item_def comp_def)

lemma the_put_ddi [simp]: "the_ddi did cx \<noteq> None \<Longrightarrow> the_ddi did (put_ddi did d cx) = Some d"
  by (simp add: the_ddi_def kr_ddi_lookup_def put_ddi_def map_of_put)

lemma put_put_ddi [simp]: "put_ddi did e (put_ddi did d cx) = put_ddi did e cx"
  by (simp add: put_ddi_def put_item_twice)

lemma put_ddi_fields [simp]:
  "cx_db (put_ddi did d cx) = cx_db cx" "cx_curr (put_ddi did d cx) = cx_curr cx" "cx_rec (put_ddi did d cx) = cx_rec cx"
  "dy_sets (cx_dym (put_ddi did d cx)) = dy_sets (cx_dym cx)" "cx_reclist (put_ddi did d cx) = cx_reclist cx"
  "(put_ddi did d cx)\<lparr>cx_rec := q\<rparr> = put_ddi did d (cx\<lparr>cx_rec := q\<rparr>)"
  by (simp_all add: put_ddi_def)

lemma the_ddi_rec [simp]: "the_ddi did (cx\<lparr>cx_rec := q\<rparr>) = the_ddi did cx"
  by (simp add: the_ddi_def)

section \<open>What a dynamic item picks\<close>

text \<open>
  The specification of the item, in its own terms. The records in the window: not the current one, if the item
  excludes it, from the item's table, and not older than the window before the current transaction.
\<close>

definition comes_from :: "'d T_KRDB \<Rightarrow> rec_ptr \<Rightarrow> int \<Rightarrow> bool" where
  "comes_from db r src \<longleftrightarrow> (\<exists>rc t tb. get_rec db r = Some rc \<and> rc_table rc = Some t \<and> db_tables db t = Some tb \<and> tb_id tb = src)"

definition ddi_in_window :: "'d T_KRContext \<Rightarrow> T_KRShmDDIDef \<Rightarrow> rec_ptr \<Rightarrow> bool" where
  "ddi_in_window cx def r \<longleftrightarrow>
     (dd_stat_type def = CHR ''E'' \<longrightarrow> cx_curr cx \<noteq> Some r) \<and>
     comes_from (cx_db cx) r (dd_datasrc def) \<and>
     (\<exists>c t1 t2. cx_curr cx = Some c \<and> kr_get_transtime (cx_db cx) c = Some t1 \<and> kr_get_transtime (cx_db cx) r = Some t2 \<and>
        t1 \<le> t2 + dd_stat_value def)"

text \<open>The times that are compared exist, and their difference is a \<open>long\<close>.\<close>

definition ddi_readable :: "'d T_KRContext \<Rightarrow> T_KRShmDDIDef \<Rightarrow> rec_ptr \<Rightarrow> bool" where
  "ddi_readable cx def r \<longleftrightarrow>
     dd_stat_type def = CHR ''E'' \<and> cx_curr cx = Some r \<or>
     (\<exists>src. comes_from (cx_db cx) r src) \<and>
     (comes_from (cx_db cx) r (dd_datasrc def) \<longrightarrow>
        (\<exists>c t1 t2. cx_curr cx = Some c \<and> kr_get_transtime (cx_db cx) c = Some t1 \<and> kr_get_transtime (cx_db cx) r = Some t2 \<and>
           - (2 ^ 63) \<le> t1 - t2 \<and> t1 - t2 < 2 ^ 63))"

lemma ddi_window_spec:
  "ddi_window cx def r = Some b \<longleftrightarrow> ddi_readable cx def r \<and> b = ddi_in_window cx def r"
proof (cases "rec_table (cx_db cx) r")
  case None
  then have "\<not> comes_from (cx_db cx) r src" for src
    by (auto simp: rec_table_def comes_from_def)
  with None show ?thesis by (auto simp: ddi_window_def ddi_readable_def ddi_in_window_def)
next
  case (Some x)
  then have cf: "comes_from (cx_db cx) r src \<longleftrightarrow> tb_id (snd x) = src" for src
    by (auto simp: rec_table_def comes_from_def bind_eq_Some_conv)
  obtain t tb where x: "x = (t, tb)" by (cases x)
  show ?thesis
    by (cases "cx_curr cx"; cases "kr_get_transtime (cx_db cx) r"; cases "kr_get_transtime (cx_db cx) (the (cx_curr cx))")
       (use Some cf in \<open>auto simp: x ddi_window_def ddi_readable_def ddi_in_window_def chk_long_def\<close>)
qed

definition ddi_picks :: "'d data_params \<Rightarrow> 'd T_KRContext \<Rightarrow> nat \<Rightarrow> T_KRShmDDIDef \<Rightarrow> cexp \<Rightarrow> rec_ptr \<Rightarrow> bool option" where
  "ddi_picks pm cx ts def e r = (if ddi_in_window cx def r then cond_holds (rec_spec pm cx ts r) e else Some False)"

lemma ddi_window_view:
  assumes "same_view cx cx'"
  shows "ddi_window cx' = ddi_window cx" "ddi_in_window cx' = ddi_in_window cx" "ddi_readable cx' = ddi_readable cx"
proof -
  have v: "cx_db cx' = cx_db cx" "cx_curr cx' = cx_curr cx" using assms by (simp_all add: same_view_def)
  show "ddi_window cx' = ddi_window cx" by (intro ext, unfold ddi_window_def v) (rule refl)
  show "ddi_in_window cx' = ddi_in_window cx" by (intro ext, unfold ddi_in_window_def v) (rule refl)
  show "ddi_readable cx' = ddi_readable cx" by (intro ext, unfold ddi_readable_def v) (rule refl)
qed

text \<open>The value a picked record contributes: its field, in the member of the union the field's type has.\<close>

fun key_value :: "E_KRType \<Rightarrow> kr_key \<Rightarrow> calc_value option" where
  "key_value KR_TYPE_INT (KInt w) = Some (V_i w)"
| "key_value KR_TYPE_LONG (KLong w) = Some (V_l w)"
| "key_value KR_TYPE_DOUBLE (KDouble x) = Some (V_d x)"
| "key_value KR_TYPE_STRING (KStr s) = Some (V_s (Some s))"
| "key_value _ _ = None"

lemma stat_value_eq: "stat_value ty k = Some (Some v) \<longleftrightarrow> key_value ty k = Some v"
  by (cases ty; cases k) (auto simp: stat_value_def)

definition ddi_operand :: "'d T_KRDB \<Rightarrow> T_KRShmDDIDef \<Rightarrow> rec_ptr \<Rightarrow> calc_value option" where
  "ddi_operand db def r = do {
     ty \<leftarrow> kr_get_field_type db r (long_to_int (dd_field def));
     k \<leftarrow> field_object db r (long_to_int (dd_field def));
     key_value ty k
   }"

text \<open>
  The methods on numbers: the sum, the smaller, the larger and the number of the values, in an arithmetic of the item's type
  whose results must exist.
\<close>

definition number_step :: "char \<Rightarrow> ('n \<Rightarrow> 'n \<Rightarrow> 'n) \<Rightarrow> ('n \<Rightarrow> 'n \<Rightarrow> bool) \<Rightarrow> 'n \<Rightarrow> 'n \<Rightarrow> 'n option \<Rightarrow> 'n option" where
  "number_step m add2 lt unit1 a b =
     (if m = CHR ''0'' then map_option (add2 a) b
      else if m = CHR ''1'' then map_option (\<lambda>x. if lt a x then a else x) b
      else if m = CHR ''2'' then map_option (\<lambda>x. if lt x a then a else x) b
      else if m = CHR ''3'' then Some (add2 a unit1)
      else None)"

definition ddi_step :: "char \<Rightarrow> E_KRType \<Rightarrow> calc_value \<Rightarrow> calc_value \<Rightarrow> calc_value option" where
  "ddi_step m ty u v =
     (if m \<in> {CHR ''4'', CHR ''5'', CHR ''6''} then Some u
      else case ty of
        KR_TYPE_INT \<Rightarrow> do {
          a \<leftarrow> get_i u;
          n \<leftarrow> number_step m (+) (<) 1 (sint a) (map_option sint (get_i v));
          if - (2 ^ 31) \<le> n \<and> n < 2 ^ 31 then Some (V_i (word_of_int n)) else None
        }
      | KR_TYPE_LONG \<Rightarrow> do {
          a \<leftarrow> get_l u;
          n \<leftarrow> number_step m (+) (<) 1 (sint a) (map_option sint (get_l v));
          if - (2 ^ 63) \<le> n \<and> n < 2 ^ 63 then Some (V_l (word_of_int n)) else None
        }
      | KR_TYPE_DOUBLE \<Rightarrow> do {
          a \<leftarrow> get_d u;
          x \<leftarrow> number_step m d_add d_lt (Fin 1) a (get_d v);
          Some (V_d x)
        }
      | _ \<Rightarrow> None)"

lemma min_max_if: "min a b = (if a < b then a else b)" "max a b = (if b < a then a else b)" for a b :: int
  by simp_all

lemma by_type_step:
  assumes "m = CHR ''0'' \<and> fi = (+) \<and> fd = d_add \<or> m = CHR ''1'' \<and> fi = min \<and> fd = d_min \<or> m = CHR ''2'' \<and> fi = max \<and> fd = d_max"
  shows "by_type ty u v fi fd = Some (Some u') \<longleftrightarrow> ddi_step m ty u v = Some u'"
proof (cases ty)
  case KR_TYPE_INT
  with assms show ?thesis
    by (elim disjE; cases "get_i u"; cases "get_i v")
       (simp_all add: by_type_def ddi_step_def number_step_def min_max_if chk_int_def)
next
  case KR_TYPE_LONG
  with assms show ?thesis
    by (elim disjE; cases "get_l u"; cases "get_l v")
       (simp_all add: by_type_def ddi_step_def number_step_def min_max_if chk_long_def)
next
  case KR_TYPE_DOUBLE
  with assms show ?thesis
    by (elim disjE; cases "get_d u"; cases "get_d v")
       (simp_all add: by_type_def ddi_step_def number_step_def d_min_def d_max_def)
qed (use assms in \<open>auto simp: by_type_def ddi_step_def\<close>)

lemma ddi_method_step: "ddi_method m ty u v = Some (Some u') \<longleftrightarrow> ddi_step m ty u v = Some u'"
proof -
  consider "m \<in> {CHR ''0'', CHR ''1'', CHR ''2''}" | "m = CHR ''3''" | "m \<notin> {CHR ''0'', CHR ''1'', CHR ''2'', CHR ''3''}" by blast
  then show ?thesis
  proof cases
    case 1
    then show ?thesis by (auto simp: ddi_method_def by_type_step [of m])
  next
    case 2
    then show ?thesis
      by (cases ty; cases "get_i u"; cases "get_l u"; cases "get_d u")
         (simp_all add: ddi_method_def by_type_def one_of_def ddi_step_def number_step_def chk_int_def chk_long_def)
  next
    case 3
    then show ?thesis by (cases ty) (auto simp: ddi_method_def ddi_step_def number_step_def bind_eq_Some_conv)
  qed
qed

primrec ddi_agg :: "char \<Rightarrow> E_KRType \<Rightarrow> calc_value list \<Rightarrow> calc_value \<Rightarrow> calc_value option" where
  "ddi_agg m ty [] u = Some u"
| "ddi_agg m ty (v # vs) u = Option.bind (ddi_step m ty u v) (ddi_agg m ty vs)"

text \<open>What the walk needs of each record.\<close>

definition ddi_fine :: "'d data_params \<Rightarrow> 'd T_KRContext \<Rightarrow> nat \<Rightarrow> T_KRShmDDIDef \<Rightarrow> cexp \<Rightarrow> rec_ptr \<Rightarrow> bool" where
  "ddi_fine pm cx ts def e r \<longleftrightarrow> ddi_readable cx def r \<and> ddi_picks pm cx ts def e r \<noteq> None \<and>
     (ddi_in_window cx def r \<longrightarrow> flat_ok cx ts r (exts e)) \<and>
     (ddi_picks pm cx ts def e r = Some True \<longrightarrow> ddi_operand (cx_db cx) def r \<noteq> None)"

section \<open>One record\<close>

text \<open>The item keeps everything but its calculator, value and related records.\<close>

definition ddi_with :: "T_KRDDI \<Rightarrow> T_KRCalc \<Rightarrow> calc_value \<Rightarrow> rec_ptr set \<Rightarrow> T_KRDDI" where
  "ddi_with d kc u R = d\<lparr>di_calc := Some kc, di_value := u, di_related := R\<rparr>"

lemma ddi_with_simps [simp]:
  "di_def (ddi_with d kc u R) = di_def d" "di_type (ddi_with d kc u R) = di_type d" "di_calc (ddi_with d kc u R) = Some kc"
  "di_value (ddi_with d kc u R) = u" "di_related (ddi_with d kc u R) = R"
  "(ddi_with d kc u R)\<lparr>di_calc := Some kc'\<rparr> = ddi_with d kc' u R"
  "(ddi_with d kc u R)\<lparr>di_value := u', di_related := R'\<rparr> = ddi_with d kc u' R'"
  "di_ind (ddi_with d kc u R) = di_ind d" "di_curr (ddi_with d kc u R) = di_curr d"
  by (simp_all add: ddi_with_def)

lemma ddi_record_spec:
  fixes pm :: "'d data_params" and base :: "'d T_KRContext"
  assumes P_def: "P = ddi_picks pm base ts (di_def d) e" and mem: "the_ddi did base \<noteq> None" and tree: "calc_tree kc = Some t" "reps (rec_spec pm base ts r) e t"
    and fine: "ddi_fine pm base ts (di_def d) e r"
    and step: "P r = Some True \<Longrightarrow> ddi_step (dd_method (di_def d)) (di_type d) u (the (ddi_operand (cx_db base) (di_def d) r)) = Some u'"
    and skip: "P r \<noteq> Some True \<Longrightarrow> u' = u"
  shows "\<exists>kc' t'. ddi_record (data_env pm (Suc n)) did r (put_ddi did (ddi_with d kc u R) (base\<lparr>cx_rec := q\<rparr>)) =
      Some (True, put_ddi did (ddi_with d kc' u' (if P r = Some True then insert r R else R)) (base\<lparr>cx_rec := Some r\<rparr>)) \<and>
    calc_tree kc' = Some t' \<and> reps (rec_spec pm base ts r) e t'"
proof -
  let ?def = "di_def d"
  let ?cx = "put_ddi did (ddi_with d kc u R) (base\<lparr>cx_rec := Some r\<rparr>)"
  have view: "same_view base ?cx" by (simp add: same_view_def)
  have wcx: "ddi_window ?cx ?def r = ddi_window base ?def r" by (simp add: ddi_window_view(1) [OF view])
  define w where "w = ddi_in_window base ?def r"
  have w: "ddi_window base ?def r = Some w" using fine by (simp add: ddi_window_spec ddi_fine_def w_def)
  show ?thesis
  proof (cases w)
    case False
    have "P r = Some False" using False by (simp add: P_def ddi_picks_def w_def)
    moreover have "ddi_record (data_env pm (Suc n)) did r (put_ddi did (ddi_with d kc u R) (base\<lparr>cx_rec := q\<rparr>)) =
        Some (True, ?cx)"
      using w False mem wcx by (simp add: ddi_record_def)
    ultimately show ?thesis using skip tree by auto
  next
    case True
    have f: "flat_ok base ts r (exts e)" using fine True by (simp add: ddi_fine_def w_def)
    from fine True obtain b where b: "cond_holds (rec_spec pm base ts r) e = Some b" "P r = Some b"
      by (auto simp: ddi_fine_def ddi_picks_def P_def w_def)
    have "agrees (data_env pm (Suc n)) (pure_cbs (rec_spec pm base ts r)) ?cx (exts e)"
      by (rule rec_agrees [OF view _ f]) simp
    from cond_eval [OF rec_typed tree this b(1)] obtain kc' t' where ev: "kr_calc_eval (data_env pm (Suc n)) kc ?cx = Some (0, kc', ?cx)"
        "calc_tree kc' = Some t'" "reps (rec_spec pm base ts r) e t'" "filter_outcome 0 kc' = Some (Inr b)"
      by blast
    have run: "ddi_record (data_env pm (Suc n)) did r (put_ddi did (ddi_with d kc u R) (base\<lparr>cx_rec := q\<rparr>)) =
        (let cx2 = put_ddi did (ddi_with d kc' u R) (base\<lparr>cx_rec := Some r\<rparr>) in
         if \<not> b then Some (True, cx2) else ddi_update did cx2)"
      using w True mem ev(1,4) wcx by (simp add: ddi_record_def Let_def)
    show ?thesis
    proof (cases b)
      case False
      with run skip b ev(2,3) show ?thesis by (auto simp: Let_def)
    next
      case True
      with fine b(2) obtain v where v: "ddi_operand (cx_db base) ?def r = Some v" by (auto simp: ddi_fine_def P_def)
      with step b True have "ddi_method (dd_method ?def) (di_type d) u v = Some (Some u')" by (simp add: ddi_method_step)
      with run v True b ev(2,3) show ?thesis
        by (auto simp: Let_def ddi_operand_def ddi_update_def mem bind_eq_Some_conv simp flip: stat_value_eq)
    qed
  qed
qed

section \<open>The walk\<close>

definition ddi_picked :: "'d data_params \<Rightarrow> 'd T_KRContext \<Rightarrow> nat \<Rightarrow> T_KRShmDDIDef \<Rightarrow> cexp \<Rightarrow> rec_ptr list \<Rightarrow> rec_ptr list" where
  "ddi_picked pm cx ts def e rs = filter (\<lambda>r. ddi_picks pm cx ts def e r = Some True) rs"

definition ddi_operands :: "'d T_KRDB \<Rightarrow> T_KRShmDDIDef \<Rightarrow> rec_ptr list \<Rightarrow> calc_value list" where
  "ddi_operands db def rs = map (\<lambda>r. the (ddi_operand db def r)) rs"

lemma ddi_walk_spec:
  fixes pm :: "'d data_params" and base :: "'d T_KRContext"
  assumes mem: "the_ddi did base \<noteq> None" and l: "db_lists (cx_db base) la = Some l"
  shows "dll l (xs @ ys) \<Longrightarrow> calc_tree kc = Some t \<Longrightarrow> reps (rec_spec pm base ts r0) e t \<Longrightarrow>
    \<forall>r \<in> set (l_vals l xs). ddi_fine pm base ts (di_def d) e r \<Longrightarrow>
    ddi_agg (dd_method (di_def d)) (di_type d)
      (ddi_operands (cx_db base) (di_def d) (ddi_picked pm base ts (di_def d) e (rev (l_vals l xs)))) u = Some u' \<Longrightarrow>
    \<exists>kc' q'. ddi_walk (data_env pm (Suc n)) did la (last_of None xs) (put_ddi did (ddi_with d kc u R) (base\<lparr>cx_rec := q\<rparr>)) =
      Some (0, put_ddi did (ddi_with d kc' u' (R \<union> set (ddi_picked pm base ts (di_def d) e (l_vals l xs))))
        (base\<lparr>cx_rec := q'\<rparr>)) \<and>
      (\<exists>t'. calc_tree kc' = Some t' \<and> reps (rec_spec pm base ts r0) e t')"
proof (induction xs arbitrary: ys kc t u R q rule: rev_induct)
  case Nil
  have nil: "l_vals l [] = []" by (simp add: l_vals_def)
  from Nil show ?case
    by (intro exI [of _ kc] exI [of _ q]) (auto simp: nil ddi_walk.simps ddi_picked_def ddi_operands_def)
next
  case (snoc a xs)
  let ?P = "\<lambda>r. ddi_picks pm base ts (di_def d) e r"
  have l0: "dll l (xs @ a # ys)" using snoc.prems(1) by simp
  from dllD(2) [OF l0] obtain v where v: "l_mem l a = Some \<lparr>nd_prev = last_of None xs, nd_next = first_of ys None, nd_value = v\<rparr>"
    by (auto simp: seg_append)
  have vals: "l_vals l (xs @ [a]) = l_vals l xs @ [v]" by (simp add: l_vals_def val_at_def v)
  have fine: "ddi_fine pm base ts (di_def d) e v" using snoc.prems(4) vals by simp
  obtain u1 where u1: "?P v = Some True \<Longrightarrow> ddi_step (dd_method (di_def d)) (di_type d) u
        (the (ddi_operand (cx_db base) (di_def d) v)) = Some u1" "?P v \<noteq> Some True \<Longrightarrow> u1 = u"
      "ddi_agg (dd_method (di_def d)) (di_type d)
        (ddi_operands (cx_db base) (di_def d) (ddi_picked pm base ts (di_def d) e (rev (l_vals l xs)))) u1 = Some u'"
  proof (cases "?P v = Some True")
    case True
    with snoc.prems(5) vals that show thesis
      by (auto simp: ddi_picked_def ddi_operands_def bind_eq_Some_conv)
  next
    case False
    with snoc.prems(5) vals that [of u] show thesis by (auto simp: ddi_picked_def)
  qed
  have rv: "reps (rec_spec pm base ts v) e t" by (rule reps_rec [OF snoc.prems(3)])
  let ?R1 = "if ?P v = Some True then insert v R else R"
  from ddi_record_spec [OF refl mem snoc.prems(2) rv fine u1(1,2), of n R q] obtain kc1 t1 where s1:
      "ddi_record (data_env pm (Suc n)) did v (put_ddi did (ddi_with d kc u R) (base\<lparr>cx_rec := q\<rparr>)) =
        Some (True, put_ddi did (ddi_with d kc1 u1 ?R1) (base\<lparr>cx_rec := Some v\<rparr>))"
      "calc_tree kc1 = Some t1" "reps (rec_spec pm base ts v) e t1"
    by auto
  have "\<forall>r \<in> set (l_vals l xs). ddi_fine pm base ts (di_def d) e r" using snoc.prems(4) vals by simp
  from snoc.IH [OF l0 s1(2) reps_rec [OF s1(3)] this u1(3), of ?R1 "Some v"] obtain kc' q' where w:
      "ddi_walk (data_env pm (Suc n)) did la (last_of None xs) (put_ddi did (ddi_with d kc1 u1 ?R1) (base\<lparr>cx_rec := Some v\<rparr>)) =
        Some (0, put_ddi did (ddi_with d kc' u' (?R1 \<union> set (ddi_picked pm base ts (di_def d) e (l_vals l xs))))
          (base\<lparr>cx_rec := q'\<rparr>))" "\<exists>t'. calc_tree kc' = Some t' \<and> reps (rec_spec pm base ts r0) e t'"
    by blast
  have "?R1 \<union> set (ddi_picked pm base ts (di_def d) e (l_vals l xs)) =
      R \<union> set (ddi_picked pm base ts (di_def d) e (l_vals l (xs @ [a])))"
    using vals by (auto simp: ddi_picked_def)
  with w s1(1) v l show ?case
    by (subst ddi_walk.simps) auto
qed

section \<open>The records with the key of the current record\<close>

definition same_key :: "'d T_KRDB \<Rightarrow> T_KRIndex \<Rightarrow> rec_ptr list \<Rightarrow> rec_ptr \<Rightarrow> rec_ptr list" where
  "same_key db ix lg c = (case db_hts db (ix_hash ix) of
       None \<Rightarrow> []
     | Some (ty, ht) \<Rightarrow> bucket db (ix_hash ix) ty lg (FieldPtr c (nat (ix_field ix))))"

lemma gather_spec:
  assumes ok: "db_ok (cx_db cx) lg" and c: "cx_curr cx = Some c" "c \<in> set lg"
    and ix: "kr_get_table_index (cx_db cx) (fst c) (long_to_int i) = Some (Some ix)"
  shows "\<exists>la l ty. gather i cx = Some (True, cx\<lparr>cx_key_type := ty, cx_key := Some (FieldPtr c (nat (ix_field ix))),
      cx_reclist := Some la\<rparr>) \<and>
    db_lists (cx_db cx) la = Some l \<and> l_ok l \<and> l_seq l = same_key (cx_db cx) ix lg c \<and>
    kr_get_field_type (cx_db cx) c (ix_field ix) = Some ty"
proof -
  let ?db = "cx_db cx"
  from logged [OF ok c(2)] obtain tb rc where x: "db_tables ?db (fst c) = Some tb" "tb_ok ?db lg (fst c) tb"
      "get_rec ?db c = Some rc" "rc_table rc = Some (fst c)" "length (rc_fields rc) = length (tb_fields tb)"
    by blast
  have iok: "indexes_ok ?db (fst c) tb" by (rule tb_okD(1) [OF x(2)])
  have "find (\<lambda>ix. ix_id ix = long_to_int i) (idxs ?db (fst c)) = Some ix"
    using ix get_table_index_spec [OF x(1) iok] by simp
  then have mem: "ix \<in> set (idxs ?db (fst c))" by (auto simp: find_Some_iff)
  with iok have io: "index_ok ?db tb ix" by (simp add: indexes_ok_def)
  then obtain ty ht where h: "db_hts ?db (ix_hash ix) = Some (ty, ht)" "ty = fd_type (tb_fields tb ! nat (ix_field ix))"
    by (auto simp: index_ok_def)
  have fv: "kr_get_field_value ?db c (ix_field ix) = Some (FieldPtr c (nat (ix_field ix)))"
    by (rule index_field_value [OF x(3,4,1) io])
  have ft: "kr_get_field_type ?db c (ix_field ix) = Some ty"
    using x(1,3,4) io h(2) by (simp add: kr_get_field_type_def rec_field_def_def index_ok_def)
  let ?p = "FieldPtr c (nat (ix_field ix))"
  let ?b = "bucket ?db (ix_hash ix) ty lg ?p"
  from db_okD(7) [OF ok] h(1) obtain own where st: "ht_state ?db own (ix_hash ix) lg ty ht" unfolding idx_inv_def by blast
  have hk: "hkey ?db (ix_hash ix) c = Some ?p" by (rule index_hkey [OF iok mem])
  then have "peq ?db ty ?p ?p" using st c(2) by (auto simp: ht_state_def)
  with hk c(2) have "c \<in> set ?b" by (auto simp: set_bucket)
  then have "?b \<noteq> []" by auto
  then obtain la where la: "ht_map (ht_bind ?db ty ht) ?p = Some (Some la)" "rec_list ?db own (ix_hash ix) ?b la"
    using st unfolding ht_state_def by metis
  then obtain l where l: "db_lists ?db la = Some l" "l_ok l" "l_seq l = ?b" by (auto simp: rec_list_def)
  have "kr_get_record_list ix ?p ?db = Some (Some la)"
    using h(1) lookup_state [OF st] la(1) by (simp add: kr_get_record_list_def null_if_absent_def)
  then show ?thesis
    using c x ix fv ft l h(1) by (auto simp: gather_def rec_table_def same_key_def)
qed

section \<open>Computing a dynamic item\<close>

lemma view_ddi:
  assumes "same_view cx cx'"
  shows "ddi_picks pm cx' = ddi_picks pm cx" "ddi_fine pm cx' = ddi_fine pm cx" "ddi_picked pm cx' = ddi_picked pm cx"
proof -
  have v: "cx_db cx' = cx_db cx" "cx_curr cx' = cx_curr cx" using assms by (simp_all add: same_view_def)
  show p: "ddi_picks pm cx' = ddi_picks pm cx"
    by (intro ext, unfold ddi_picks_def ddi_window_view(2) [OF assms] view_spec [OF assms]) (rule refl)
  have "flat_ok cx' = flat_ok cx" by (intro ext, unfold flat_ok_def v) (rule refl)
  then show "ddi_fine pm cx' = ddi_fine pm cx"
    by (intro ext) (simp only: ddi_fine_def p ddi_window_view [OF assms] v)
  show "ddi_picked pm cx' = ddi_picked pm cx" by (intro ext) (simp only: ddi_picked_def p)
qed

text \<open>What the computation of an item needs, and what it leaves.\<close>

definition ddi_ready :: "T_KRDDI \<Rightarrow> bool" where
  "ddi_ready di \<longleftrightarrow> free_value (di_type di) (di_value di) \<noteq> None \<and> (\<forall>name. di_aggr di \<noteq> Aggr_symbol name)"

definition ddi_result :: "'d data_params \<Rightarrow> 'd T_KRContext \<Rightarrow> nat \<Rightarrow> T_KRShmDDIDef \<Rightarrow> E_KRType \<Rightarrow> cexp \<Rightarrow> rec_ptr list \<Rightarrow> calc_value option" where
  "ddi_result pm cx ts def ty e rs =
     ddi_agg (dd_method def) ty (ddi_operands (cx_db cx) def (ddi_picked pm cx ts def e (rev rs))) V_zero"

text \<open>The rest of the context: the groups and the other dynamic items.\<close>

definition rest_kept :: "int \<Rightarrow> 'd T_KRContext \<Rightarrow> 'd T_KRContext \<Rightarrow> bool" where
  "rest_kept did cx cx' \<longleftrightarrow> dy_groups (cx_dym cx') = dy_groups (cx_dym cx) \<and> cx_group cx' = cx_group cx \<and>
     (\<forall>i. i \<noteq> did \<longrightarrow> the_ddi i cx' = the_ddi i cx)"

lemma map_of_put_other: "i \<noteq> j \<Longrightarrow> map_of (it_items (put_item j x t)) i = map_of (it_items t) i"
proof -
  assume "i \<noteq> j"
  then have "map_of (map (\<lambda>e. if fst e = j then (j, x) else e) es) i = map_of es i" for es
    by (induction es) auto
  then show ?thesis by (simp add: put_item_def)
qed

lemma rest_kept_put: "rest_kept did cx (put_ddi did d cx)"
  by (simp add: rest_kept_def put_ddi_def the_ddi_def kr_ddi_lookup_def map_of_put_other)

lemma rest_kept_trans: "rest_kept did cx cx' \<Longrightarrow> rest_kept did cx' cx'' \<Longrightarrow> rest_kept did cx cx''"
  by (simp add: rest_kept_def)

lemma ddi_compute_spec:
  fixes pm :: "'d data_params" and cx :: "'d T_KRContext"
  assumes ok: "db_ok (cx_db cx) lg" and c: "cx_curr cx = Some c" "c \<in> set lg"
    and di: "the_ddi did cx = Some di" "ddi_ready di" "di_calc di = Some kc" "calc_tree kc = Some t"
      "reps (rec_spec pm cx ts c) e t"
    and ix: "kr_get_table_index (cx_db cx) (fst c) (long_to_int (dd_index (di_def di))) = Some (Some ix)"
    and fine: "\<forall>r \<in> set (same_key (cx_db cx) ix lg c). ddi_fine pm cx ts (di_def di) e r"
    and res: "ddi_result pm cx ts (di_def di) (di_type di) e (same_key (cx_db cx) ix lg c) = Some u"
  shows "\<exists>cx' di'. kr_ddi_compute pm (data_env pm (Suc n)) did cx = Some (0, cx') \<and> same_view cx cx' \<and>
    the_ddi did cx' = Some di' \<and> di_ind di' = KR_VALUE_SETED \<and> di_value di' = u \<and> di_type di' = di_type di \<and>
    di_related di' = set (ddi_picked pm cx ts (di_def di) e (same_key (cx_db cx) ix lg c)) \<and> rest_kept did cx cx'"
proof -
  let ?rs = "same_key (cx_db cx) ix lg c"
  let ?di1 = "di\<lparr>di_ind := KR_VALUE_UNSET, di_related := {}, di_value := V_zero\<rparr>"
  have init: "kr_ddi_init di = Some ?di1" using di(2) by (auto simp: kr_ddi_init_def ddi_ready_def)
  let ?cx0 = "put_ddi did ?di1 cx"
  have g0: "db_ok (cx_db ?cx0) lg" "cx_curr ?cx0 = Some c"
    "kr_get_table_index (cx_db ?cx0) (fst c) (long_to_int (dd_index (di_def di))) = Some (Some ix)"
    using ok c ix by simp_all
  from gather_spec [OF g0(1,2) c(2) g0(3)] obtain la l ty where g: "gather (dd_index (di_def di)) ?cx0 =
      Some (True, ?cx0\<lparr>cx_key_type := ty, cx_key := Some (FieldPtr c (nat (ix_field ix))), cx_reclist := Some la\<rparr>)"
      "db_lists (cx_db cx) la = Some l" "l_ok l" "l_seq l = ?rs"
    by auto
  define base where "base = ?cx0\<lparr>cx_key_type := ty, cx_key := Some (FieldPtr c (nat (ix_field ix))), cx_reclist := Some la\<rparr>"
  define d where "d = ?di1\<lparr>di_aggr := Aggr_default\<rparr>"
  have view: "same_view cx base" by (simp add: same_view_def base_def)
  have b: "cx_db base = cx_db cx" "cx_reclist base = Some la" "base\<lparr>cx_rec := cx_rec base\<rparr> = base"
    by (simp_all add: base_def)
  have mem: "the_ddi did base \<noteq> None"
    using di(1) by (simp add: base_def the_ddi_def) (simp add: the_ddi_def [symmetric])
  have aggr: "(if di_aggr ?di1 = Aggr_null then Aggr_default else di_aggr ?di1) = Aggr_default"
    using di(2) by (cases "di_aggr di") (auto simp: ddi_ready_def)
  have d: "ddi_with d kc V_zero {} = d" "di_def d = di_def di" "di_type d = di_type di"
    using di(3) by (simp_all add: ddi_with_def d_def)
  obtain as where as: "dll l (as @ [])" "l_seq l = l_vals l as" using g(3) by (auto elim: l_okE)
  have f: "\<forall>r \<in> set (l_vals l as). ddi_fine pm base ts (di_def d) e r"
    using fine g(4) as(2) by (simp add: view_ddi [OF view] d)
  have a: "ddi_agg (dd_method (di_def d)) (di_type d) (ddi_operands (cx_db base) (di_def d)
      (ddi_picked pm base ts (di_def d) e (rev (l_vals l as)))) V_zero = Some u"
    using res g(4) as(2) by (simp add: view_ddi [OF view] ddi_result_def d b)
  have r: "reps (rec_spec pm base ts c) e t" using di(5) by (simp add: view_spec [OF view])
  have l: "db_lists (cx_db base) la = Some l" using g(2) by (simp add: b)
  define S where "S = set (ddi_picked pm base ts (di_def d) e (l_vals l as))"
  from ddi_walk_spec [OF mem l as(1) di(4) r f a, of n "{}" "cx_rec base"] obtain kc' q' where
      w: "ddi_walk (data_env pm (Suc n)) did la (last_of None as) (put_ddi did d base) =
        Some (0, put_ddi did (ddi_with d kc' u S) (base\<lparr>cx_rec := q'\<rparr>))"
    unfolding b(3) d(1) S_def by auto
  have tail: "l_tail l = last_of None as" using dllD(4) [OF as(1)] by simp
  let ?e = "(ddi_with d kc' u S)\<lparr>di_ind := KR_VALUE_SETED\<rparr>"
  let ?cx' = "put_ddi did ?e (base\<lparr>cx_rec := q'\<rparr>)"
  have "kr_ddi_aggr_func (data_env pm (Suc n)) did (put_ddi did d base) = Some (0, ?cx')"
    using w l tail mem b by (simp add: kr_ddi_aggr_func_def)
  then have "kr_ddi_compute pm (data_env pm (Suc n)) did cx = Some (0, ?cx')"
    using di(1) init g(1) [folded base_def] aggr
    by (simp add: kr_ddi_compute_def Let_def base_def d_def)
  moreover have "same_view cx ?cx'" using view by (simp add: same_view_def)
  moreover have "the_ddi did ?cx' = Some ?e" using mem by simp
  moreover have "rest_kept did cx ?cx'"
  proof -
    have "rest_kept did cx (base\<lparr>cx_rec := q'\<rparr>)"
      using rest_kept_put [of did cx ?di1] by (simp add: base_def rest_kept_def the_ddi_def)
    then show ?thesis by (rule rest_kept_trans [OF _ rest_kept_put])
  qed
  moreover have "S = set (ddi_picked pm cx ts (di_def di) e ?rs)"
    using g(4) as(2) by (simp add: S_def view_ddi [OF view] d)
  ultimately show ?thesis
    by (intro exI [of _ ?cx'] exI [of _ ?e]) (simp add: d)
qed

text \<open>Asking for an item that was not computed for the current record.\<close>

lemma ddi_get_value_spec:
  fixes pm :: "'d data_params" and cx :: "'d T_KRContext"
  assumes ok: "db_ok (cx_db cx) lg" and c: "cx_curr cx = Some c" "c \<in> set lg"
    and di: "the_ddi did cx = Some di" "ddi_ready di" "di_curr di \<noteq> Some c" "di_calc di = Some kc" "calc_tree kc = Some t"
      "reps (rec_spec pm cx ts c) e t"
    and ix: "kr_get_table_index (cx_db cx) (fst c) (long_to_int (dd_index (di_def di))) = Some (Some ix)"
    and fine: "\<forall>r \<in> set (same_key (cx_db cx) ix lg c). ddi_fine pm cx ts (di_def di) e r"
    and res: "ddi_result pm cx ts (di_def di) (di_type di) e (same_key (cx_db cx) ix lg c) = Some u"
    and val: "item_value u (di_type di) = Some v"
  shows "\<exists>cx' di'. kr_ddi_get_value pm (data_env pm (Suc n)) did cx = Some (v, cx') \<and> same_view cx cx' \<and> rest_kept did cx cx' \<and>
    the_ddi did cx' = Some di' \<and> di_curr di' = Some c \<and> di_ind di' = KR_VALUE_SETED \<and> di_value di' = u \<and> di_type di' = di_type di \<and>
    di_related di' = set (ddi_picked pm cx ts (di_def di) e (same_key (cx_db cx) ix lg c))"
proof -
  from ddi_compute_spec [OF ok c di(1,2,4-6) ix fine res, of n] obtain cx' di' where
      r: "kr_ddi_compute pm (data_env pm (Suc n)) did cx = Some (0, cx')" "same_view cx cx'" "the_ddi did cx' = Some di'"
        "di_ind di' = KR_VALUE_SETED" "di_value di' = u" "di_type di' = di_type di"
        "di_related di' = set (ddi_picked pm cx ts (di_def di) e (same_key (cx_db cx) ix lg c))" "rest_kept did cx cx'"
    by blast
  have cur: "cx_curr cx' = Some c" using r(2) c(1) by (simp add: same_view_def)
  let ?di = "di'\<lparr>di_curr := Some c\<rparr>"
  let ?cx'' = "put_ddi did ?di cx'"
  have "kr_ddi_get_value pm (data_env pm (Suc n)) did cx = Some (v, ?cx'')"
    using di(1,3) c(1) r val cur by (simp add: kr_ddi_get_value_def)
  moreover have "same_view cx ?cx''" using r(2) by (simp add: same_view_def)
  moreover have "rest_kept did cx ?cx''" by (rule rest_kept_trans [OF r(8) rest_kept_put])
  moreover have "the_ddi did ?cx'' = Some ?di" using r(3) by simp
  ultimately show ?thesis using r(4-7) by (intro exI [of _ ?cx''] exI [of _ ?di]) simp
qed

text \<open>Asking again for the same record.\<close>

lemma ddi_get_value_again:
  assumes "the_ddi did cx = Some di" and "di_curr di = cx_curr cx" and "di_ind di = KR_VALUE_SETED"
    and "item_value (di_value di) (di_type di) = Some v"
  shows "kr_ddi_get_value pm env did cx = Some (v, cx)"
  using assms by (simp add: kr_ddi_get_value_def)

end
