(* ===== verification/KR_Data_Static.thy ===== *)
theory KR_Data_Static
  imports KR_Data_Walk
begin

text \<open>The walk of a static item, as the search for the record at its location.\<close>

lemma the_put_sdi [simp]: "the_sdi sid cx \<noteq> None \<Longrightarrow> the_sdi sid (put_sdi sid d cx) = Some d"
  by (simp add: the_sdi_def kr_sdi_lookup_def put_sdi_def map_of_put)

lemma put_put_sdi [simp]: "put_sdi sid e (put_sdi sid d cx) = put_sdi sid e cx"
  by (simp add: put_sdi_def put_item_twice)

lemma put_sdi_fields [simp]:
  "cx_db (put_sdi sid d cx) = cx_db cx" "cx_curr (put_sdi sid d cx) = cx_curr cx" "cx_rec (put_sdi sid d cx) = cx_rec cx"
  "dy_sets (cx_dym (put_sdi sid d cx)) = dy_sets (cx_dym cx)" "cx_reclist (put_sdi sid d cx) = cx_reclist cx"
  "(put_sdi sid d cx)\<lparr>cx_rec := q\<rparr> = put_sdi sid d (cx\<lparr>cx_rec := q\<rparr>)"
  by (simp_all add: put_sdi_def)

lemma the_sdi_rec [simp]: "the_sdi sid (cx\<lparr>cx_rec := q\<rparr>) = the_sdi sid cx"
  by (simp add: the_sdi_def)

section \<open>The record a static item takes\<close>

definition sdi_picks :: "'d data_params \<Rightarrow> 'd T_KRContext \<Rightarrow> nat \<Rightarrow> T_KRShmSDIDef \<Rightarrow> cexp \<Rightarrow> rec_ptr \<Rightarrow> bool option" where
  "sdi_picks pm cx ts def e r = do {
     (t, tb) \<leftarrow> rec_table (cx_db cx) r;
     if tb_id tb = sd_datasrc def then cond_holds (rec_spec pm cx ts r) e else Some False
   }"

primrec sdi_find :: "T_KRShmSDIDef \<Rightarrow> (rec_ptr \<Rightarrow> bool) \<Rightarrow> int \<Rightarrow> int \<Rightarrow> rec_ptr list \<Rightarrow> rec_ptr option" where
  "sdi_find def P abs_loc rel [] = None"
| "sdi_find def P abs_loc rel (r # rs) =
     (if sd_loc_prop def = CHR ''0'' \<and> sd_location def \<noteq> abs_loc + 1 then sdi_find def P (abs_loc + 1) rel rs
      else if \<not> P r then sdi_find def P (abs_loc + 1) rel rs
      else if sd_loc_prop def = CHR ''1'' \<and> sd_location def \<noteq> rel + 1 then sdi_find def P (abs_loc + 1) (rel + 1) rs
      else Some r)"

text \<open>The records, newest first: the one at the location, or the one at the location among those that pass.\<close>

definition at_location :: "int \<Rightarrow> 'a list \<Rightarrow> 'a option" where
  "at_location i xs = (if 0 \<le> i \<and> nat i < length xs then Some (xs ! nat i) else None)"

definition sdi_target :: "T_KRShmSDIDef \<Rightarrow> (rec_ptr \<Rightarrow> bool) \<Rightarrow> rec_ptr list \<Rightarrow> rec_ptr option" where
  "sdi_target def P rs =
     (if sd_loc_prop def = CHR ''0'' then
        (case at_location (sd_location def) rs of Some r \<Rightarrow> if P r then Some r else None | None \<Rightarrow> None)
      else if sd_loc_prop def = CHR ''1'' then at_location (sd_location def) (filter P rs)
      else find P rs)"

lemma at_location_Cons: "at_location i (x # xs) = (if i = 0 then Some x else at_location (i - 1) xs)"
proof (cases "0 < i")
  case True
  then have "nat i = Suc (nat (i - 1))" by simp
  with True show ?thesis by (simp add: at_location_def)
qed (auto simp: at_location_def)

lemma find_absolute:
  assumes "sd_loc_prop def = CHR ''0''"
  shows "sdi_find def P a r rs = (case at_location (sd_location def - (a + 1)) rs of
    Some q \<Rightarrow> if P q then Some q else None | None \<Rightarrow> None)"
proof (induction rs arbitrary: a r)
  case Nil
  then show ?case by (simp add: at_location_def)
next
  case (Cons x rs)
  have past: "sdi_find def P a r ys = None" if "sd_location def \<le> a" for a ys r
    using that assms by (induction ys arbitrary: a) auto
  have e: "sd_location def - (a + 1) - 1 = sd_location def - (a + 1 + 1)" by simp
  show ?case
    using assms Cons.IH [of "a + 1" r] past [of "a + 1" r rs]
    by (cases "sd_location def = a + 1") (simp_all add: at_location_Cons e)
qed

lemma find_relative:
  assumes "sd_loc_prop def = CHR ''1''"
  shows "sdi_find def P a r rs = at_location (sd_location def - (r + 1)) (filter P rs)"
proof (induction rs arbitrary: a r)
  case Nil
  then show ?case by (simp add: at_location_def)
next
  case (Cons x rs)
  have e: "sd_location def - (r + 1) - 1 = sd_location def - (r + 1 + 1)" by simp
  show ?case using assms Cons.IH [of "a + 1" r] Cons.IH [of "a + 1" "r + 1"]
    by (auto simp: at_location_Cons e)
qed

lemma find_first:
  assumes "sd_loc_prop def \<noteq> CHR ''0''" and "sd_loc_prop def \<noteq> CHR ''1''"
  shows "sdi_find def P a r rs = find P rs"
  using assms by (induction rs arbitrary: a) simp_all

lemma sdi_find_target: "sdi_find def P (- 1) (- 1) rs = sdi_target def P rs"
  using find_absolute [of def P "- 1" "- 1" rs] find_relative [of def P "- 1" "- 1" rs] find_first [of def P "- 1" "- 1" rs]
  by (simp add: sdi_target_def)

lemma at_location_mem: "at_location i xs = Some x \<Longrightarrow> x \<in> set xs"
  by (auto simp: at_location_def split: if_splits)

lemma sdi_target_mem: "sdi_target def P rs = Some r \<Longrightarrow> r \<in> set rs \<and> P r"
  by (auto simp: sdi_target_def find_Some_iff split: if_splits option.splits dest: at_location_mem)

section \<open>One record and the walk\<close>

definition sdi_operand :: "'d T_KRDB \<Rightarrow> T_KRShmSDIDef \<Rightarrow> E_KRType \<Rightarrow> rec_ptr \<Rightarrow> calc_value option" where
  "sdi_operand db def ty r = do {
     k \<leftarrow> field_object db r (long_to_int (sd_field def));
     v \<leftarrow> sdi_field ty k;
     v
   }"

definition sdi_fine :: "'d data_params \<Rightarrow> 'd T_KRContext \<Rightarrow> nat \<Rightarrow> T_KRShmSDIDef \<Rightarrow> E_KRType \<Rightarrow> cexp \<Rightarrow> rec_ptr \<Rightarrow> bool" where
  "sdi_fine pm cx ts def ty e r \<longleftrightarrow> sdi_picks pm cx ts def e r \<noteq> None \<and>
     (\<forall>t tb. rec_table (cx_db cx) r = Some (t, tb) \<and> tb_id tb = sd_datasrc def \<longrightarrow> flat_ok cx ts r (exts e)) \<and>
     (sdi_picks pm cx ts def e r = Some True \<longrightarrow> sdi_operand (cx_db cx) def ty r \<noteq> None)"

lemma sdi_window_view:
  assumes "same_view cx cx'"
  shows "sdi_window cx' = sdi_window cx"
proof -
  have v: "cx_db cx' = cx_db cx" using assms by (simp add: same_view_def)
  show ?thesis by (intro ext, unfold sdi_window_def v) (rule refl)
qed

lemma with_calc [simp]: "si_def (d\<lparr>si_calc := x\<rparr>) = si_def d" "si_type (d\<lparr>si_calc := x\<rparr>) = si_type d"
  by simp_all

text \<open>The item after the walk.\<close>

definition sdi_done :: "'d T_KRDB \<Rightarrow> T_KRSDI \<Rightarrow> T_KRCalc \<Rightarrow> rec_ptr option \<Rightarrow> T_KRSDI" where
  "sdi_done db d kc found = (case found of
       None \<Rightarrow> d\<lparr>si_calc := Some kc\<rparr>
     | Some r \<Rightarrow> d\<lparr>si_calc := Some kc, si_value := the (sdi_operand db (si_def d) (si_type d) r),
         si_related := insert r (si_related d), si_ind := KR_VALUE_SETED\<rparr>)"

text \<open>The record at the location ends the walk with the item set from it; the others only count.\<close>

lemma sdi_record_spec:
  fixes pm :: "'d data_params" and base :: "'d T_KRContext"
  assumes mem: "the_sdi sid base \<noteq> None" and tree: "calc_tree kc = Some t" "reps (rec_spec pm base ts r) e t"
    and fine: "sdi_fine pm base ts (si_def d) (si_type d) e r" and loc: "- 1 \<le> rel" "rel + 1 < 2 ^ 31"
  shows "\<exists>kc' t'. sdi_record (data_env pm (Suc n)) sid r a rel (put_sdi sid (d\<lparr>si_calc := Some kc\<rparr>) (base\<lparr>cx_rec := q\<rparr>)) =
      Some (if sd_loc_prop (si_def d) = CHR ''0'' \<and> sd_location (si_def d) \<noteq> a \<or>
            sdi_picks pm base ts (si_def d) e r \<noteq> Some True
          then (Inr rel, put_sdi sid (d\<lparr>si_calc := Some kc'\<rparr>) (base\<lparr>cx_rec := Some r\<rparr>))
          else if sd_loc_prop (si_def d) = CHR ''1'' \<and> sd_location (si_def d) \<noteq> rel + 1
          then (Inr (rel + 1), put_sdi sid (d\<lparr>si_calc := Some kc'\<rparr>) (base\<lparr>cx_rec := Some r\<rparr>))
          else (Inl 0, put_sdi sid (sdi_done (cx_db base) d kc' (Some r)) (base\<lparr>cx_rec := Some r\<rparr>))) \<and>
    calc_tree kc' = Some t' \<and> reps (rec_spec pm base ts r) e t'"
proof -
  let ?def = "si_def d"
  let ?cx = "put_sdi sid (d\<lparr>si_calc := Some kc\<rparr>) (base\<lparr>cx_rec := Some r\<rparr>)"
  let ?P = "sdi_picks pm base ts ?def e r = Some True"
  have view: "same_view base ?cx" by (simp add: same_view_def)
  from fine obtain t0 tb where tb: "rec_table (cx_db base) r = Some (t0, tb)"
    by (cases "rec_table (cx_db base) r") (auto simp: sdi_fine_def sdi_picks_def)
  define w where "w = (\<not> (sd_loc_prop ?def = CHR ''0'' \<and> sd_location ?def \<noteq> a) \<and> tb_id tb = sd_datasrc ?def)"
  have wcx: "sdi_window ?cx ?def a r = Some w"
    by (simp add: sdi_window_view [OF view]) (simp add: sdi_window_def tb w_def)
  show ?thesis
  proof (cases w)
    case False
    then have "sd_loc_prop ?def = CHR ''0'' \<and> sd_location ?def \<noteq> a \<or> \<not> ?P" using tb by (auto simp: w_def sdi_picks_def)
    moreover have "sdi_record (data_env pm (Suc n)) sid r a rel (put_sdi sid (d\<lparr>si_calc := Some kc\<rparr>) (base\<lparr>cx_rec := q\<rparr>)) =
        Some (Inr rel, ?cx)"
      using False mem wcx by (simp add: sdi_record_def)
    ultimately show ?thesis using tree by (intro exI [of _ kc] exI [of _ t]) simp
  next
    case True
    then have f: "flat_ok base ts r (exts e)" using fine tb by (auto simp: sdi_fine_def w_def)
    from fine tb True obtain b where b: "cond_holds (rec_spec pm base ts r) e = Some b" "?P = b"
      by (auto simp: sdi_fine_def sdi_picks_def w_def)
    have "agrees (data_env pm (Suc n)) (pure_cbs (rec_spec pm base ts r)) ?cx (exts e)"
      by (rule rec_agrees [OF view _ f]) simp
    from cond_eval [OF rec_typed tree this b(1)] obtain kc' t' where ev: "kr_calc_eval (data_env pm (Suc n)) kc ?cx = Some (0, kc', ?cx)"
        "calc_tree kc' = Some t'" "reps (rec_spec pm base ts r) e t'" "filter_outcome 0 kc' = Some (Inr b)"
      by blast
    let ?cx2 = "put_sdi sid (d\<lparr>si_calc := Some kc'\<rparr>) (base\<lparr>cx_rec := Some r\<rparr>)"
    have run: "sdi_record (data_env pm (Suc n)) sid r a rel (put_sdi sid (d\<lparr>si_calc := Some kc\<rparr>) (base\<lparr>cx_rec := q\<rparr>)) =
        (if \<not> b then Some (Inr rel, ?cx2)
         else if sd_loc_prop ?def = CHR ''1'' \<and> sd_location ?def \<noteq> rel + 1 then Some (Inr (rel + 1), ?cx2)
         else do { (r, cx3) \<leftarrow> sdi_update sid ?cx2; Some (Inl r, cx3) })"
      using True mem ev(1,4) wcx loc by (simp add: sdi_record_def Let_def)
    have upd: "sdi_update sid ?cx2 = Some (0, put_sdi sid (d\<lparr>si_calc := Some kc',
        si_value := the (sdi_operand (cx_db base) ?def (si_type d) r), si_related := insert r (si_related d),
        si_ind := KR_VALUE_SETED\<rparr>) (base\<lparr>cx_rec := Some r\<rparr>))" if b
    proof -
      from that b(2) fine obtain v where "sdi_operand (cx_db base) ?def (si_type d) r = Some v" by (auto simp: sdi_fine_def)
      then show ?thesis using mem by (auto simp: sdi_update_def sdi_operand_def bind_eq_Some_conv)
    qed
    show ?thesis
      using run upd b(2) ev(2,3) True by (intro exI [of _ kc'] exI [of _ t']) (auto simp: sdi_done_def w_def)
  qed
qed

lemma sdi_walk_spec:
  fixes pm :: "'d data_params" and base :: "'d T_KRContext"
  assumes mem: "the_sdi sid base \<noteq> None" and l: "db_lists (cx_db base) la = Some l"
  shows "dll l (xs @ ys) \<Longrightarrow> calc_tree kc = Some t \<Longrightarrow> reps (rec_spec pm base ts r0) e t \<Longrightarrow>
    \<forall>r \<in> set (l_vals l xs). sdi_fine pm base ts (si_def d) (si_type d) e r \<Longrightarrow>
    - 1 \<le> a \<Longrightarrow> a + int (length xs) < 2 ^ 30 \<Longrightarrow> - 1 \<le> rel \<Longrightarrow> rel \<le> a \<Longrightarrow>
    \<exists>kc' q'. sdi_walk (data_env pm (Suc n)) sid la (last_of None xs) a rel (put_sdi sid (d\<lparr>si_calc := Some kc\<rparr>) (base\<lparr>cx_rec := q\<rparr>)) =
      Some (0, put_sdi sid (sdi_done (cx_db base) d kc' (sdi_find (si_def d) (\<lambda>r. sdi_picks pm base ts (si_def d) e r = Some True)
        a rel (rev (l_vals l xs)))) (base\<lparr>cx_rec := q'\<rparr>))"
proof (induction xs arbitrary: ys kc t a rel q rule: rev_induct)
  case Nil
  have nil: "l_vals l [] = []" by (simp add: l_vals_def)
  show ?case by (intro exI [of _ kc] exI [of _ q]) (simp add: nil sdi_walk.simps sdi_done_def)
next
  case (snoc x xs)
  let ?P = "\<lambda>r. sdi_picks pm base ts (si_def d) e r = Some True"
  have l0: "dll l (xs @ x # ys)" using snoc.prems(1) by simp
  from dllD(2) [OF l0] obtain v where v: "l_mem l x = Some \<lparr>nd_prev = last_of None xs, nd_next = first_of ys None, nd_value = v\<rparr>"
    by (auto simp: seg_append)
  have vals: "l_vals l (xs @ [x]) = l_vals l xs @ [v]" by (simp add: l_vals_def val_at_def v)
  have fine: "sdi_fine pm base ts (si_def d) (si_type d) e v" using snoc.prems(4) vals by simp
  have rv: "reps (rec_spec pm base ts v) e t" by (rule reps_rec [OF snoc.prems(3)])
  have loc: "rel + 1 < 2 ^ 31" using snoc.prems(6,8) by simp
  from sdi_record_spec [OF mem snoc.prems(2) rv fine snoc.prems(7) loc, of n "a + 1" q] obtain kc1 t1 where s1:
      "sdi_record (data_env pm (Suc n)) sid v (a + 1) rel (put_sdi sid (d\<lparr>si_calc := Some kc\<rparr>) (base\<lparr>cx_rec := q\<rparr>)) =
      Some (if sd_loc_prop (si_def d) = CHR ''0'' \<and> sd_location (si_def d) \<noteq> a + 1 \<or>
            sdi_picks pm base ts (si_def d) e v \<noteq> Some True
          then (Inr rel, put_sdi sid (d\<lparr>si_calc := Some kc1\<rparr>) (base\<lparr>cx_rec := Some v\<rparr>))
          else if sd_loc_prop (si_def d) = CHR ''1'' \<and> sd_location (si_def d) \<noteq> rel + 1
          then (Inr (rel + 1), put_sdi sid (d\<lparr>si_calc := Some kc1\<rparr>) (base\<lparr>cx_rec := Some v\<rparr>))
          else (Inl 0, put_sdi sid (sdi_done (cx_db base) d kc1 (Some v)) (base\<lparr>cx_rec := Some v\<rparr>)))"
      "calc_tree kc1 = Some t1" "reps (rec_spec pm base ts v) e t1"
    by blast
  have f: "\<forall>r \<in> set (l_vals l xs). sdi_fine pm base ts (si_def d) (si_type d) e r" using snoc.prems(4) vals by simp
  have chk: "chk_int (a + 1) = Some (a + 1)" using snoc.prems(5,6) by simp
  have rest: "\<exists>kc' q'. sdi_walk (data_env pm (Suc n)) sid la (last_of None xs) (a + 1) rel'
        (put_sdi sid (d\<lparr>si_calc := Some kc1\<rparr>) (base\<lparr>cx_rec := Some v\<rparr>)) =
      Some (0, put_sdi sid (sdi_done (cx_db base) d kc' (sdi_find (si_def d) ?P (a + 1) rel' (rev (l_vals l xs)))) (base\<lparr>cx_rec := q'\<rparr>))"
    if "rel' = rel \<or> rel' = rel + 1" for rel'
    using snoc.prems(5-8) that by (intro snoc.IH [OF l0 s1(2) reps_rec [OF s1(3)] f]) auto
  show ?case
    using rest [of rel] rest [of "rel + 1"] s1(1) v l chk vals
    by (subst sdi_walk.simps) auto
qed

section \<open>Computing a static item\<close>

lemma view_sdi:
  assumes "same_view cx cx'"
  shows "sdi_picks pm cx' = sdi_picks pm cx" "sdi_fine pm cx' = sdi_fine pm cx"
proof -
  have v: "cx_db cx' = cx_db cx" "cx_curr cx' = cx_curr cx" using assms by (simp_all add: same_view_def)
  show p: "sdi_picks pm cx' = sdi_picks pm cx"
    by (intro ext, unfold sdi_picks_def v view_spec [OF assms]) (rule refl)
  have "flat_ok cx' = flat_ok cx" by (intro ext, unfold flat_ok_def v) (rule refl)
  then show "sdi_fine pm cx' = sdi_fine pm cx"
    by (intro ext) (simp only: sdi_fine_def p v)
qed

definition sdi_ready :: "T_KRSDI \<Rightarrow> bool" where
  "sdi_ready si \<longleftrightarrow> free_value (si_type si) (si_value si) \<noteq> None \<and> (\<forall>name. si_aggr si \<noteq> Aggr_symbol name)"

lemma sdi_compute_spec:
  fixes pm :: "'d data_params" and cx :: "'d T_KRContext"
  assumes ok: "db_ok (cx_db cx) lg" and c: "cx_curr cx = Some c" "c \<in> set lg"
    and si: "the_sdi sid cx = Some si" "sdi_ready si" "si_calc si = Some kc" "calc_tree kc = Some t"
      "reps (rec_spec pm cx ts c) e t"
    and ix: "kr_get_table_index (cx_db cx) (fst c) (long_to_int (sd_index (si_def si))) = Some (Some ix)"
    and fine: "\<forall>r \<in> set (same_key (cx_db cx) ix lg c). sdi_fine pm cx ts (si_def si) (si_type si) e r"
  shows "\<exists>cx' si'. kr_sdi_compute pm (data_env pm (Suc n)) sid cx = Some (0, cx') \<and> same_view cx cx' \<and>
    the_sdi sid cx' = Some si' \<and> si_type si' = si_type si \<and>
    (case sdi_target (si_def si) (\<lambda>r. sdi_picks pm cx ts (si_def si) e r = Some True) (rev (same_key (cx_db cx) ix lg c)) of
       None \<Rightarrow> si_ind si' = KR_VALUE_UNSET \<and> si_related si' = {}
     | Some r \<Rightarrow> si_ind si' = KR_VALUE_SETED \<and> si_related si' = {r} \<and>
         Some (si_value si') = sdi_operand (cx_db cx) (si_def si) (si_type si) r)"
proof -
  let ?rs = "same_key (cx_db cx) ix lg c"
  let ?P = "\<lambda>r. sdi_picks pm cx ts (si_def si) e r = Some True"
  let ?si1 = "si\<lparr>si_ind := KR_VALUE_UNSET, si_related := {}, si_value := V_zero\<rparr>"
  have init: "kr_sdi_init si = Some ?si1" using si(2) by (auto simp: kr_sdi_init_def sdi_ready_def)
  let ?cx0 = "put_sdi sid ?si1 cx"
  have g0: "db_ok (cx_db ?cx0) lg" "cx_curr ?cx0 = Some c"
    "kr_get_table_index (cx_db ?cx0) (fst c) (long_to_int (sd_index (si_def si))) = Some (Some ix)"
    using ok c ix by simp_all
  from gather_spec [OF g0(1,2) c(2) g0(3)] obtain la l ty where g: "gather (sd_index (si_def si)) ?cx0 =
      Some (True, ?cx0\<lparr>cx_key_type := ty, cx_key := Some (FieldPtr c (nat (ix_field ix))), cx_reclist := Some la\<rparr>)"
      "db_lists (cx_db cx) la = Some l" "l_ok l" "l_seq l = ?rs"
    by auto
  define base where "base = ?cx0\<lparr>cx_key_type := ty, cx_key := Some (FieldPtr c (nat (ix_field ix))), cx_reclist := Some la\<rparr>"
  define d where "d = ?si1\<lparr>si_aggr := Aggr_default\<rparr>"
  have view: "same_view cx base" by (simp add: same_view_def base_def)
  have b: "cx_db base = cx_db cx" "cx_reclist base = Some la" "base\<lparr>cx_rec := cx_rec base\<rparr> = base"
    by (simp_all add: base_def)
  have mem: "the_sdi sid base \<noteq> None"
    using si(1) by (simp add: base_def the_sdi_def) (simp add: the_sdi_def [symmetric])
  have aggr: "(if si_aggr ?si1 = Aggr_null then Aggr_default else si_aggr ?si1) = Aggr_default"
    using si(2) by (cases "si_aggr si") (auto simp: sdi_ready_def)
  have d: "d\<lparr>si_calc := Some kc\<rparr> = d" "si_def d = si_def si" "si_type d = si_type si" "si_related d = {}" "si_ind d = KR_VALUE_UNSET"
    using si(3) by (simp_all add: d_def)
  obtain as where as: "dll l (as @ [])" "l_seq l = l_vals l as" "length as = length (l_seq l)" using g(3) by (auto elim: l_okE)
  have f: "\<forall>r \<in> set (l_vals l as). sdi_fine pm base ts (si_def d) (si_type d) e r"
    using fine g(4) as(2) by (simp add: view_sdi [OF view] d)
  have r: "reps (rec_spec pm base ts c) e t" using si(5) by (simp add: view_spec [OF view])
  have l: "db_lists (cx_db base) la = Some l" using g(2) by (simp add: b)
  have "length ?rs \<le> length lg" by (simp add: same_key_def bucket_def split: option.split)
  then have len: "- 1 + int (length as) < 2 ^ 30" using as(3) g(4) db_ok_length [OF ok] by simp
  from sdi_walk_spec [OF mem l as(1) si(4) r f _ len, of "- 1" n "cx_rec base"] obtain kc' q' where
      w: "sdi_walk (data_env pm (Suc n)) sid la (last_of None as) (- 1) (- 1) (put_sdi sid d base) =
        Some (0, put_sdi sid (sdi_done (cx_db base) d kc' (sdi_target (si_def d) ?P (rev (l_vals l as)))) (base\<lparr>cx_rec := q'\<rparr>))"
    unfolding b(3) d(1) sdi_find_target view_sdi [OF view] d(2) by auto
  have tail: "l_tail l = last_of None as" using dllD(4) [OF as(1)] by simp
  let ?e = "sdi_done (cx_db base) d kc' (sdi_target (si_def d) ?P (rev (l_vals l as)))"
  let ?cx' = "put_sdi sid ?e (base\<lparr>cx_rec := q'\<rparr>)"
  have "kr_sdi_aggr_func (data_env pm (Suc n)) sid (put_sdi sid d base) = Some (0, ?cx')"
    using w l tail b by (simp add: kr_sdi_aggr_func_def)
  then have "kr_sdi_compute pm (data_env pm (Suc n)) sid cx = Some (0, ?cx')"
    using si(1) init g(1) [folded base_def] aggr
    by (simp add: kr_sdi_compute_def Let_def base_def d_def)
  moreover have "same_view cx ?cx'" using view by (simp add: same_view_def)
  moreover have "the_sdi sid ?cx' = Some ?e" using mem by simp
  moreover have "case sdi_target (si_def si) ?P (rev ?rs) of
       None \<Rightarrow> si_ind ?e = KR_VALUE_UNSET \<and> si_related ?e = {}
     | Some r \<Rightarrow> si_ind ?e = KR_VALUE_SETED \<and> si_related ?e = {r} \<and>
         Some (si_value ?e) = sdi_operand (cx_db cx) (si_def si) (si_type si) r"
  proof (cases "sdi_target (si_def si) ?P (rev ?rs)")
    case None
    with g(4) as(2) show ?thesis by (simp add: sdi_done_def d)
  next
    case (Some r)
    then have "r \<in> set ?rs" "?P r" using sdi_target_mem [OF Some] by simp_all
    then have "sdi_operand (cx_db cx) (si_def si) (si_type si) r \<noteq> None" using fine by (auto simp: sdi_fine_def)
    with Some g(4) as(2) show ?thesis by (auto simp: sdi_done_def d b)
  qed
  moreover have "si_type ?e = si_type si" by (simp add: sdi_done_def d split: option.split)
  ultimately show ?thesis by blast
qed

end
