(* ===== verification/KR_Data_Demo.thy ===== *)
theory KR_Data_Demo
  imports KR_Data_Static
begin

text \<open>
  An example for the witnesses of the data items: a database with one table of transactions (card,
  time, amount) indexed by the card, with two transactions of the same card, and a context over it.
\<close>

section \<open>The database\<close>

definition item_fds :: "T_KRFieldDef list" where
  "item_fds = [\<lparr>fd_id = 0, fd_name = ''card'', fd_type = KR_TYPE_INT, fd_length = 4, fd_offset = 0\<rparr>,
               \<lparr>fd_id = 1, fd_name = ''time'', fd_type = KR_TYPE_LONG, fd_length = 8, fd_offset = 4\<rparr>,
               \<lparr>fd_id = 2, fd_name = ''amount'', fd_type = KR_TYPE_INT, fd_length = 4, fd_offset = 12\<rparr>]"

type_synonym payment = "i32 \<times> i64 \<times> i32"

definition item_func :: "nat \<Rightarrow> int \<Rightarrow> payment \<Rightarrow> kr_key" where
  "item_func n len m = (if n = 0 then KInt (fst m) else if n = 1 then KLong (fst (snd m)) else KInt (snd (snd m)))"

lemma item_row: "map_row None item_func item_fds (a, b, c) = [KInt a, KLong b, KInt c]"
  by (simp add: map_row_def item_fds_def item_func_def upt_rec)

lemma item_facts: "length item_fds = 3" "16 + sum_list (map field_size item_fds) = 32" "item_fds ! 0 = hd item_fds"
  "fd_type (hd item_fds) = KR_TYPE_INT" "list_all2 fits item_fds [KInt a, KLong b, KInt c]"
  by (simp_all add: item_fds_def field_size_def fits_def)

text \<open>The database with the transactions \<open>r1\<close> (card 5, time 100, amount 40) and \<open>r2\<close> (card 5, time 130, amount 2).\<close>

definition payments :: "payment T_KRDB \<Rightarrow> payment T_KRTable \<Rightarrow> T_KRIndex \<Rightarrow> rec_ptr \<Rightarrow> rec_ptr \<Rightarrow> bool" where
  "payments db tb ix r1 r2 \<longleftrightarrow> db_ok db [r1, r2] \<and> r1 \<noteq> r2 \<and> fst r2 = fst r1 \<and>
     db_tables db (fst r1) = Some tb \<and> tb_fields tb = item_fds \<and>
     (\<exists>rc. get_rec db r1 = Some rc \<and> rc_table rc = Some (fst r1) \<and> rc_fields rc = [KInt 5, KLong 100, KInt 40]) \<and>
     (\<exists>rc. get_rec db r2 = Some rc \<and> rc_table rc = Some (fst r1) \<and> rc_fields rc = [KInt 5, KLong 130, KInt 2]) \<and>
     idxs db (fst r1) = [ix] \<and> ix_field ix = 0 \<and> kr_get_table_index db (fst r1) 10 = Some (Some ix) \<and>
     (\<exists>ht. db_hts db (ix_hash ix) = Some (KR_TYPE_INT, ht))"

lemma payments_exist: "\<exists>db tb ix r1 r2. payments db tb ix r1 r2"
proof -
  from set_up_spec [where cnt = 3 and load = "\<lambda>_ _. Some item_fds" and tid = 1 and fds = item_fds and keep = 4
      and fld = 0 and sortfld = "- 1" and kind = KR_INDEXTYPE_DB and pre = None and func = item_func and iid = 10 and addr = "\<lambda>_. 0"]
  obtain db0 t tb0 ix where s: "set_up db0 t tb0 ix 1 4 item_fds None item_func 10 0"
    by (simp add: item_facts KR_MEMALIGN_def) blast
  from set_up_inserts [OF s, of "[(5, 100, 40), (5, 130, 2)]"] obtain db where d:
      "db_view db [(t, [KInt 5, KLong 100, KInt 40]), (t, [KInt 5, KLong 130, KInt 2])]"
      "kr_get_table_index db t 10 = Some (Some ix)" "idxs db t = [ix]"
      "map_option fst (db_hts db (ix_hash ix)) = Some KR_TYPE_INT" "same_schema db0 db"
    by (fastforce simp: item_row item_facts)
  from s have t0: "db_tables db0 t = Some tb0" "tb_fields tb0 = item_fds" by (simp_all add: set_up_def)
  from schema_tables [OF d(5) t0(1)] t0(2) obtain tb where tb: "db_tables db t = Some tb" "tb_fields tb = item_fds" by auto
  from d(1) obtain r1 r2 where ok: "db_ok db [r1, r2]" and v: "row_of db r1 = (t, [KInt 5, KLong 100, KInt 40])"
      "row_of db r2 = (t, [KInt 5, KLong 130, KInt 2])"
    by (auto simp: db_view_def Cons_eq_map_conv map_eq_Cons_conv)
  have f: "fst r1 = t" "fst r2 = t" using v by (simp_all add: row_of_def)
  have rc: "\<exists>rc. get_rec db r = Some rc \<and> rc_table rc = Some t \<and> rc_fields rc = x" if "row_of db r = (t, x)" "r \<in> {r1, r2}" for r x
  proof -
    from that(2) have "r \<in> set [r1, r2]" by simp
    with ok obtain rc where "get_rec db r = Some rc" "rc_table rc = Some (fst r)" by (rule logged)
    with that f show ?thesis by (auto simp: row_of_def)
  qed
  have "r1 \<noteq> r2" using db_okD(5) [OF ok] by simp
  moreover have "ix_field ix = 0" using s by (simp add: set_up_def)
  ultimately have "payments db tb ix r1 r2"
    using ok f tb d(2-4) rc [OF v(1)] rc [OF v(2)] by (auto simp: payments_def)
  then show ?thesis by blast
qed

lemma payments_fields:
  assumes "payments db tb ix r1 r2"
  shows "kr_get_field_type db r1 2 = Some KR_TYPE_INT" "kr_get_field_type db r2 2 = Some KR_TYPE_INT"
    "field_object db r1 2 = Some (KInt 40)" "field_object db r2 2 = Some (KInt 2)"
    "kr_get_transtime db r1 = Some 100" "kr_get_transtime db r2 = Some 130"
    "tab_type db (fst r1) 2 = KR_TYPE_INT" "rec_table db r1 = Some (fst r1, tb)" "rec_table db r2 = Some (fst r1, tb)"
  using assms
  by (auto simp: payments_def kr_get_field_type_def kr_get_field_value_def rec_field_def_def field_object_def key_obj_def
      kr_get_transtime_def tab_type_def rec_table_def item_fds_def nth_opt_def)

lemma payments_same_key:
  assumes "payments db tb ix r1 r2"
  shows "same_key db ix [r1, r2] r2 = [r1, r2]"
proof -
  have h: "hkey db (ix_hash ix) r = Some (FieldPtr r 0)" if "fst r = fst r1" for r
    using assms that by (simp add: payments_def hkey_def)
  have "key_obj db (FieldPtr r 0) = KInt 5" if "r = r1 \<or> r = r2" for r
    using assms that by (auto simp: payments_def key_obj_def nth_opt_def)
  then have "peq db KR_TYPE_INT (FieldPtr r1 0) (FieldPtr r2 0)" "peq db KR_TYPE_INT (FieldPtr r2 0) (FieldPtr r2 0)"
    by (simp_all add: peq_def key_equal_def key_seen_def)
  moreover have "fst r2 = fst r1" "ix_field ix = 0" "\<exists>ht. db_hts db (ix_hash ix) = Some (KR_TYPE_INT, ht)"
    using assms by (simp_all add: payments_def)
  moreover note h [of r1] h [of r2]
  ultimately show ?thesis by (auto simp: same_key_def bucket_def has_key_def)
qed

section \<open>The context\<close>

text \<open>The filter \<open>F_2 > n\<close>: the amount is over \<open>n\<close>.\<close>

definition amount_exp :: "int \<Rightarrow> cexp" where
  "amount_exp n = CE_logic KR_CALCOP_GT (CE_ext KR_CALCKIND_FID 2) (CE_const (CInt (word_of_int n)))"

definition amount_tree :: "int \<Rightarrow> T_KRCalcTree" where
  "amount_tree n = logic_tree KR_CALCOP_GT (fid_leaf 2) (int_leaf n)"

lemma amount_reps: "reps se (amount_exp n) (amount_tree n)"
  by (simp add: amount_exp_def amount_tree_def logic_tree_def fid_leaf_def int_leaf_def is_extern_kind_def)

text \<open>
  Item 7 adds up the amounts over 1 of the last 60 seconds; item 8 is the first amount over \<open>n\<close>,
  counted from the newest.
\<close>

definition shop_ddi :: "payment T_KRTable \<Rightarrow> T_KRDDI" where
  "shop_ddi tb = \<lparr>di_def = \<lparr>dd_id = 7, dd_value_type = KR_TYPE_INT, dd_aggr = [], dd_datasrc = tb_id tb, dd_index = 10,
       dd_field = 2, dd_stat_type = CHR ''I'', dd_stat_value = 60, dd_method = CHR ''0'', dd_format = KR_CALCFORMAT_FLEX,
       dd_filter = []\<rparr>,
     di_id = 7, di_calc = Some (calc_of (amount_tree 1)), di_type = KR_TYPE_INT, di_aggr = Aggr_null, di_curr = None,
     di_ind = KR_VALUE_UNSET, di_value = V_zero, di_related = {}\<rparr>"

definition shop_sdi :: "payment T_KRTable \<Rightarrow> int \<Rightarrow> T_KRSDI" where
  "shop_sdi tb n = \<lparr>si_def = \<lparr>sd_id = 8, sd_value_type = KR_TYPE_INT, sd_aggr = [], sd_datasrc = tb_id tb, sd_index = 10,
       sd_field = 2, sd_location = 0, sd_loc_prop = CHR ''1'', sd_format = KR_CALCFORMAT_FLEX, sd_filter = []\<rparr>,
     si_id = 8, si_calc = Some (calc_of (amount_tree n)), si_type = KR_TYPE_INT, si_aggr = Aggr_null, si_curr = None,
     si_ind = KR_VALUE_UNSET, si_value = V_zero, si_related = {}\<rparr>"

definition shop_pm :: "'d data_params" where
  "shop_pm = \<lparr>pm_parse = (\<lambda>_ kc. Some (- 1, kc)), pm_symbol = (\<lambda>_. False), pm_sdi_plugin = (\<lambda>_ _ _. None),
     pm_ddi_plugin = (\<lambda>_ _ _. None), pm_hdi_plugin = (\<lambda>_ _ _. None), pm_regexec = (\<lambda>_ _. False), pm_now = 0,
     pm_localtime = (\<lambda>_. (2013, 1, 1)), pm_fmt_double = (\<lambda>_. []), pm_day_sel = (\<lambda>_ _ _ _. DB_not_found),
     pm_mon_sel = (\<lambda>_ _ _ _. DB_not_found), pm_flag_sel = (\<lambda>_ _. (DB_not_found, [])), pm_set_open = (\<lambda>_. DB_ok),
     pm_set_rows = (\<lambda>_. []), pm_set_close = (\<lambda>_. DB_ok)\<rparr>"

definition no_area :: "'a shm_area" where
  "no_area = \<lparr>sa_cnt = 0, sa_defs = [], sa_time = 0\<rparr>"

definition shop :: "payment T_KRDB \<Rightarrow> payment T_KRTable \<Rightarrow> int \<Rightarrow> T_KRGroupList \<Rightarrow> rec_ptr option \<Rightarrow> payment T_KRContext" where
  "shop db tb n gl c = \<lparr>cx_db = db,
     cx_shm = \<lparr>sm_sec = 0, sm_set = (\<lambda>_. no_area), sm_sdi = (\<lambda>_. no_area), sm_ddi = (\<lambda>_. no_area),
       sm_hdi = (\<lambda>_. no_area), sm_group = (\<lambda>_. no_area)\<rparr>,
     cx_hdi_cache = None,
     cx_dym = \<lparr>dy_sets = \<lparr>it_cnt = 0, it_items = [], it_time = 0\<rparr>,
       dy_sdis = \<lparr>it_cnt = 1, it_items = [(8, shop_sdi tb n)], it_time = 0\<rparr>,
       dy_ddis = \<lparr>it_cnt = 1, it_items = [(7, shop_ddi tb)], it_time = 0\<rparr>,
       dy_hdis = \<lparr>it_cnt = 0, it_items = [], it_time = 0\<rparr>,
       dy_groups = gl\<rparr>,
     cx_arg = None, cx_curr = c, cx_group = None, cx_key_type = KR_TYPE_UNKNOWN, cx_key = None, cx_reclist = None,
     cx_rec = None\<rparr>"

lemma shop_simps:
  "cx_db (shop db tb n gl c) = db" "cx_curr (shop db tb n gl c) = c" "the_ddi 7 (shop db tb n gl c) = Some (shop_ddi tb)"
  "the_sdi 8 (shop db tb n gl c) = Some (shop_sdi tb n)" "dy_groups (cx_dym (shop db tb n gl c)) = gl"
  by (simp_all add: shop_def the_ddi_def kr_ddi_lookup_def the_sdi_def kr_sdi_lookup_def)

lemma shop_cond:
  assumes p: "payments db tb ix r1 r2" and c: "c = Some r2"
    and n: "\<bar>n\<bar> < 2 ^ 31"
  shows "cond_holds (rec_spec shop_pm (shop db tb k gl c) (fst r1) r1) (amount_exp n) = Some (n < 40)"
    "cond_holds (rec_spec shop_pm (shop db tb k gl c) (fst r1) r2) (amount_exp n) = Some (n < 2)"
    "flat_ok (shop db tb k gl c) (fst r1) r1 (exts (amount_exp n))"
    "flat_ok (shop db tb k gl c) (fst r1) r2 (exts (amount_exp n))"
proof -
  note f = payments_fields [OF p]
  have s: "sint (word_of_int n :: 32 word) = n" using n by (intro sint_small) auto
  have lt: "d_lt (d_of_int n) (d_of_int 40) = (n < 40)" "d_lt (d_of_int n) (d_of_int 2) = (n < 2)"
    using n by (simp_all add: d_cmp_small_int(1))
  have w: "sint (40 :: 32 word) = 40" "sint (2 :: 32 word) = 2" by simp_all
  note d = cond_holds_def amount_exp_def den_ext_def rec_spec_def field_cval_def shop_simps f den_logic_def den_cmp_def
    int_res_def c_bool_def s lt w
  show "cond_holds (rec_spec shop_pm (shop db tb k gl c) (fst r1) r1) (amount_exp n) = Some (n < 40)"
    "cond_holds (rec_spec shop_pm (shop db tb k gl c) (fst r1) r2) (amount_exp n) = Some (n < 2)"
    by (simp_all add: d)
  show "flat_ok (shop db tb k gl c) (fst r1) r1 (exts (amount_exp n))"
    "flat_ok (shop db tb k gl c) (fst r1) r2 (exts (amount_exp n))"
    by (simp_all add: flat_ok_def amount_exp_def has_field_def field_cval_def shop_simps f)
qed

text \<open>Item 7 for the transaction \<open>r2\<close>: both transactions count.\<close>

lemma shop_ddi_facts: "ddi_ready (shop_ddi tb)" "di_curr (shop_ddi tb) \<noteq> Some r2"
    "di_calc (shop_ddi tb) = Some (calc_of (amount_tree 1))" "di_type (shop_ddi tb) = KR_TYPE_INT"
  by (simp_all add: ddi_ready_def shop_ddi_def free_value_def)

lemma shop_ddi_sum:
  assumes p: "payments db tb ix r1 r2" and cx: "cx = shop db tb n gl (Some r2)" and df: "df = di_def (shop_ddi tb)"
  shows "\<forall>r \<in> set [r1, r2]. ddi_fine shop_pm cx (fst r1) df (amount_exp 1) r"
    "ddi_result shop_pm cx (fst r1) df KR_TYPE_INT (amount_exp 1) [r1, r2] = Some (V_i 42)"
    "ddi_picked shop_pm cx (fst r1) df (amount_exp 1) [r1, r2] = [r1, r2]"
    "same_key (cx_db cx) ix [r1, r2] r2 = [r1, r2]" "db_ok (cx_db cx) [r1, r2]"
    "kr_get_table_index (cx_db cx) (fst r2) (long_to_int (dd_index df)) = Some (Some ix)"
proof -
  note f = payments_fields [OF p]
  have df: "dd_field df = 2" "dd_method df = CHR ''0''" "dd_stat_type df = CHR ''I''" "dd_stat_value df = 60"
    "dd_datasrc df = tb_id tb" "dd_index df = 10"
    by (simp_all add: df shop_ddi_def)
  have cx': "cx_db cx = db" "cx_curr cx = Some r2" by (simp_all add: cx shop_simps)
  have c: "cond_holds (rec_spec shop_pm cx (fst r1) r1) (amount_exp 1) = Some True"
    "cond_holds (rec_spec shop_pm cx (fst r1) r2) (amount_exp 1) = Some True"
    "flat_ok cx (fst r1) r1 (exts (amount_exp 1))" "flat_ok cx (fst r1) r2 (exts (amount_exp 1))"
    using shop_cond [OF p refl, of 1 n gl] by (simp_all add: cx)
  have "ddi_window cx df r1 = Some True" "ddi_window cx df r2 = Some True"
    by (simp_all add: ddi_window_def df cx' f chk_long_def)
  then have w: "ddi_in_window cx df r1" "ddi_in_window cx df r2" "ddi_readable cx df r1" "ddi_readable cx df r2"
    by (simp_all add: ddi_window_spec)
  have pk: "ddi_picks shop_pm cx (fst r1) df (amount_exp 1) r1 = Some True"
    "ddi_picks shop_pm cx (fst r1) df (amount_exp 1) r2 = Some True"
    using w c by (simp_all add: ddi_picks_def)
  have op: "ddi_operand db df r1 = Some (V_i 40)" "ddi_operand db df r2 = Some (V_i 2)"
    by (simp_all add: ddi_operand_def df f)
  show "same_key (cx_db cx) ix [r1, r2] r2 = [r1, r2]" using payments_same_key [OF p] by (simp add: cx')
  show "ddi_picked shop_pm cx (fst r1) df (amount_exp 1) [r1, r2] = [r1, r2]" using pk by (simp add: ddi_picked_def)
  have "ddi_picked shop_pm cx (fst r1) df (amount_exp 1) [r2, r1] = [r2, r1]" using pk by (simp add: ddi_picked_def)
  then show "ddi_result shop_pm cx (fst r1) df KR_TYPE_INT (amount_exp 1) [r1, r2] = Some (V_i 42)"
    by (simp add: ddi_result_def ddi_operands_def cx' op df) (simp add: ddi_step_def number_step_def)
  show "\<forall>r \<in> set [r1, r2]. ddi_fine shop_pm cx (fst r1) df (amount_exp 1) r"
    using pk w c op by (auto simp: ddi_fine_def cx')
  show "db_ok (cx_db cx) [r1, r2]" "kr_get_table_index (cx_db cx) (fst r2) (long_to_int (dd_index df)) = Some (Some ix)"
    using p by (simp_all add: payments_def cx' df)
qed

end
