(* ===== verification/KR_Data_Props.thy ===== *)
theory KR_Data_Props
  imports KR_Data_Demo
begin

text \<open>
  The properties of the data items: what a dynamic and a static item are, over the log of the
  database's records; closed forms of the aggregation methods; reloading; and the places where cached
  values, history items and the cache in front of them go wrong.
\<close>

section \<open>Dynamic items\<close>

text \<open>
  C16. The value of a dynamic item that has not been computed for the current record, with a filter over
  fields and sets: for every database in a state of the invariant, it is the aggregation (by the
  item's method, from zero) of the field of exactly those records that have the current record's key
  in the index, come from the item's table, are inside the time window (and are not the current
  record, if that is excluded) and satisfy the filter, newest first. These records are noted as related.
  Window, method and filter are those of the specification (\<open>ddi_in_window\<close>, \<open>ddi_step\<close>, \<open>cond_holds\<close>), which the code refines.
  Asking again for the same record returns the same value without any change.
\<close>

theorem ddi_value_aggregates:
  fixes pm :: "'d data_params" and cx :: "'d T_KRContext"
  assumes ok: "db_ok (cx_db cx) lg" and c: "cx_curr cx = Some c" "c \<in> set lg"
    and di: "the_ddi did cx = Some di" "ddi_ready di" "di_curr di \<noteq> Some c" "di_calc di = Some kc" "calc_tree kc = Some t"
      "reps (rec_spec pm cx ts c) e t"
    and ix: "kr_get_table_index (cx_db cx) (fst c) (long_to_int (dd_index (di_def di))) = Some (Some ix)"
    and fine: "\<forall>r \<in> set (same_key (cx_db cx) ix lg c). ddi_fine pm cx ts (di_def di) e r"
    and res: "ddi_result pm cx ts (di_def di) (di_type di) e (same_key (cx_db cx) ix lg c) = Some u"
    and val: "item_value u (di_type di) = Some v"
  shows "\<exists>cx' di'. kr_data_get_value pm (data_env pm (Suc n)) KR_CALCKIND_DID did cx = Some (v, cx') \<and>
    the_ddi did cx' = Some di' \<and>
    di_related di' = set (ddi_picked pm cx ts (di_def di) e (same_key (cx_db cx) ix lg c)) \<and>
    kr_data_get_value pm (data_env pm m) KR_CALCKIND_DID did cx' = Some (v, cx')"
proof -
  from ddi_get_value_spec [OF ok c di ix fine res val, of n] obtain cx' di' where
      r: "kr_ddi_get_value pm (data_env pm (Suc n)) did cx = Some (v, cx')" "same_view cx cx'" "the_ddi did cx' = Some di'"
        "di_curr di' = Some c" "di_ind di' = KR_VALUE_SETED" "di_value di' = u" "di_type di' = di_type di"
        "di_related di' = set (ddi_picked pm cx ts (di_def di) e (same_key (cx_db cx) ix lg c))"
    by blast
  have "di_curr di' = cx_curr cx'" using r(2,4) c(1) by (simp add: same_view_def)
  from ddi_get_value_again [OF r(3) this r(5)] r(6,7) val
  have "kr_ddi_get_value pm (data_env pm m) did cx' = Some (v, cx')" by simp
  with r(1,3,8) show ?thesis by (simp add: kr_data_get_value_def)
qed

theorem ddi_value_aggregates_witness:
  "\<exists>(cx :: payment T_KRContext) cx' di'. kr_data_get_value shop_pm (data_env shop_pm 1) KR_CALCKIND_DID 7 cx = Some (Some (V_i 42), cx') \<and>
     the_ddi 7 cx' = Some di' \<and> card (di_related di') = 2 \<and>
     kr_data_get_value shop_pm (data_env shop_pm 0) KR_CALCKIND_DID 7 cx' = Some (Some (V_i 42), cx')"
proof -
  from payments_exist obtain db tb ix r1 r2 where p: "payments db tb ix r1 r2" by blast
  let ?gl = "\<lparr>gl_cnt = 0, gl_groups = [], gl_time = 0\<rparr>"
  define cx where "cx = shop db tb 1 ?gl (Some r2)"
  have cx: "cx_curr cx = Some r2" "the_ddi 7 cx = Some (shop_ddi tb)" by (simp_all add: cx_def shop_simps)
  note f = shop_ddi_sum [OF p cx_def refl] shop_ddi_facts
  note sk = f(4) and pkd = f(3)
  have pp: "r1 \<noteq> r2" using p by (simp add: payments_def)
  have "\<exists>cx' di'. kr_data_get_value shop_pm (data_env shop_pm (Suc 0)) KR_CALCKIND_DID 7 cx = Some (Some (V_i 42), cx') \<and>
    the_ddi 7 cx' = Some di' \<and> di_related di' = set (ddi_picked shop_pm cx (fst r1) (di_def (shop_ddi tb)) (amount_exp 1) (same_key (cx_db cx) ix [r1, r2] r2)) \<and>
    kr_data_get_value shop_pm (data_env shop_pm 0) KR_CALCKIND_DID 7 cx' = Some (Some (V_i 42), cx')"
  proof (rule ddi_value_aggregates [where c = r2 and lg = "[r1, r2]" and ts = "fst r1" and e = "amount_exp 1" and ix = ix and u = "V_i 42" and kc = "calc_of (amount_tree 1)" and t = "amount_tree 1" and di = "shop_ddi tb"])
    show "reps (rec_spec shop_pm cx (fst r1) r2) (amount_exp 1) (amount_tree 1)" by (rule amount_reps)
    show "\<forall>r \<in> set (same_key (cx_db cx) ix [r1, r2] r2). ddi_fine shop_pm cx (fst r1) (di_def (shop_ddi tb)) (amount_exp 1) r"
      "ddi_result shop_pm cx (fst r1) (di_def (shop_ddi tb)) (di_type (shop_ddi tb)) (amount_exp 1) (same_key (cx_db cx) ix [r1, r2] r2) =
        Some (V_i 42)"
      unfolding sk f(10) by (fact f(1), fact f(2))
  qed (use cx f in \<open>simp_all add: calc_of_def item_value_def kr_get_value_def\<close>)
  then obtain cx' di' where g: "kr_data_get_value shop_pm (data_env shop_pm (Suc 0)) KR_CALCKIND_DID 7 cx = Some (Some (V_i 42), cx')"
    "the_ddi 7 cx' = Some di'" "di_related di' = {r1, r2}"
    "kr_data_get_value shop_pm (data_env shop_pm 0) KR_CALCKIND_DID 7 cx' = Some (Some (V_i 42), cx')"
    unfolding sk pkd by auto
  have "card (di_related di') = 2" using g(3) pp by simp
  with g(1,2,4) show ?thesis unfolding One_nat_def by blast
qed

section \<open>The methods\<close>

text \<open>Results stay in range while the sums of the prefixes do.\<close>

definition sums_fit :: "int list \<Rightarrow> bool" where
  "sums_fit xs \<longleftrightarrow> (\<forall>i \<le> length xs. - (2 ^ 31) \<le> sum_list (take i xs) \<and> sum_list (take i xs) < 2 ^ 31)"

lemma item_value_int: "item_value u KR_TYPE_INT = map_option (\<lambda>w. Some (V_i w)) (get_i u)"
  by (cases "get_i u") (simp_all add: item_value_def kr_get_value_def)

lemma sint_range: "- (2 ^ 31) \<le> sint (w :: i32)" "sint (w :: i32) < 2 ^ 31"
  using sint_greater_eq [of w] sint_less [of w] by simp_all

lemma agg_count:
  "get_i u = Some a \<Longrightarrow> 0 \<le> sint a \<Longrightarrow> sint a + int (length vs) < 2 ^ 31 \<Longrightarrow>
   \<exists>u'. ddi_agg (CHR ''3'') KR_TYPE_INT vs u = Some u' \<and> get_i u' = Some (word_of_int (sint a + int (length vs)))"
proof (induction vs arbitrary: u a)
  case Nil
  then show ?case by simp
next
  case (Cons v vs)
  let ?b = "word_of_int (sint a + 1) :: i32"
  have b: "sint ?b = sint a + 1" using Cons.prems by (intro sint_small) auto
  have "ddi_step (CHR ''3'') KR_TYPE_INT u v = Some (V_i ?b)"
    using Cons.prems by (simp add: ddi_step_def number_step_def)
  moreover have "\<exists>u'. ddi_agg (CHR ''3'') KR_TYPE_INT vs (V_i ?b) = Some u' \<and>
      get_i u' = Some (word_of_int (sint ?b + int (length vs)))"
    using Cons.prems b by (intro Cons.IH) auto
  ultimately show ?case by (simp add: b add.assoc)
qed

lemma sums_fit_Cons: "sums_fit (x # xs) \<Longrightarrow> - (2 ^ 31) \<le> x \<and> x < 2 ^ 31"
  by (auto simp: sums_fit_def dest: spec [of _ 1])

lemma agg_sum:
  "get_i u = Some a \<Longrightarrow>
   \<forall>i \<le> length ws. - (2 ^ 31) \<le> sint a + sum_list (take i (map sint ws)) \<and> sint a + sum_list (take i (map sint ws)) < 2 ^ 31 \<Longrightarrow>
   \<exists>u'. ddi_agg (CHR ''0'') KR_TYPE_INT (map V_i ws) u = Some u' \<and>
     get_i u' = Some (word_of_int (sint a + sum_list (map sint ws)))"
proof (induction ws arbitrary: u a)
  case Nil
  then show ?case by simp
next
  case (Cons w ws)
  define b :: i32 where "b = word_of_int (sint a + sint w)"
  have r: "- (2 ^ 31) \<le> sint a + sint w" "sint a + sint w < 2 ^ 31" using Cons.prems(2) by (auto dest: spec [of _ 1])
  have b: "sint b = sint a + sint w" unfolding b_def by (rule sint_small [OF r])
  have "ddi_step (CHR ''0'') KR_TYPE_INT u (V_i w) = Some (V_i b)"
    using Cons.prems(1) r by (simp add: ddi_step_def number_step_def b_def)
  moreover have "\<exists>u'. ddi_agg (CHR ''0'') KR_TYPE_INT (map V_i ws) (V_i b) = Some u' \<and>
      get_i u' = Some (word_of_int (sint b + sum_list (map sint ws)))"
  proof (rule Cons.IH)
    show "\<forall>i \<le> length ws. - (2 ^ 31) \<le> sint b + sum_list (take i (map sint ws)) \<and>
        sint b + sum_list (take i (map sint ws)) < 2 ^ 31"
    proof (intro allI impI)
      fix i assume "i \<le> length ws"
      with Cons.prems(2) [rule_format, of "Suc i"] show "- (2 ^ 31) \<le> sint b + sum_list (take i (map sint ws)) \<and>
        sint b + sum_list (take i (map sint ws)) < 2 ^ 31" by (simp add: b add.assoc)
    qed
  qed simp
  ultimately show ?case by (simp add: b add.assoc)
qed

lemma agg_extremum:
  assumes m: "\<And>u a w. get_i u = Some a \<Longrightarrow> ddi_step m KR_TYPE_INT u (V_i w) = Some (V_i (word_of_int (f (sint a) (sint w))))"
    and f: "\<And>a b. f a b = a \<or> f a b = b"
  shows "get_i u = Some a \<Longrightarrow> \<exists>u'. ddi_agg m KR_TYPE_INT (map V_i ws) u = Some u' \<and>
    get_i u' = Some (word_of_int (foldl f (sint a) (map sint ws)))"
proof (induction ws arbitrary: u a)
  case Nil
  then show ?case by simp
next
  case (Cons w ws)
  let ?b = "word_of_int (f (sint a) (sint w)) :: i32"
  have b: "sint ?b = f (sint a) (sint w)"
    using f [of "sint a" "sint w"] by (elim disjE) simp_all
  from Cons.IH [of "V_i ?b" ?b] m [OF Cons.prems, of w] show ?case by (simp add: b)
qed

lemma foldl_extremum:
  "foldl min a xs = Min (insert a (set xs))" "foldl max a xs = Max (insert a (set xs))" for a :: int
proof -
  have "foldl min a xs = fold min xs a" "foldl max a xs = fold max xs a"
    by (induction xs arbitrary: a) (simp_all add: min.commute max.commute)
  then show "foldl min a xs = Min (insert a (set xs))" "foldl max a xs = Max (insert a (set xs))"
    using Min.set_eq_fold [of a xs] Max.set_eq_fold [of a xs] by simp_all
qed

text \<open>Counting and adding up \<open>int\<close> fields give the number of the operands and their sum, as long as the
  number and every partial sum is in the range of \<open>int\<close>; beyond it the addition is undefined.
\<close>

theorem ddi_count_and_sum:
  assumes "length ws < 2 ^ 31" and "sums_fit (map sint ws)"
  shows "\<exists>u s. ddi_agg (CHR ''3'') KR_TYPE_INT (map V_i ws) V_zero = Some u \<and>
    item_value u KR_TYPE_INT = Some (Some (V_i (of_nat (length ws)))) \<and>
    ddi_agg (CHR ''0'') KR_TYPE_INT (map V_i ws) V_zero = Some s \<and>
    item_value s KR_TYPE_INT = Some (Some (V_i (word_of_int (sum_list (map sint ws)))))"
proof -
  have z: "get_i V_zero = Some (0 :: i32)" by simp
  have "\<forall>i \<le> length ws. - (2 ^ 31) \<le> sint (0 :: i32) + sum_list (take i (map sint ws)) \<and>
      sint (0 :: i32) + sum_list (take i (map sint ws)) < 2 ^ 31"
    using assms(2) by (simp add: sums_fit_def)
  with agg_count [OF z, of "map V_i ws"] agg_sum [OF z, of ws] assms(1) show ?thesis
    by (auto simp: item_value_int)
qed

theorem ddi_count_and_sum_witness:
  "\<exists>u s. ddi_agg (CHR ''3'') KR_TYPE_INT [V_i 5, V_i (- 2), V_i 4] V_zero = Some u \<and>
    item_value u KR_TYPE_INT = Some (Some (V_i 3)) \<and>
    ddi_agg (CHR ''0'') KR_TYPE_INT [V_i 5, V_i (- 2), V_i 4] V_zero = Some s \<and>
    item_value s KR_TYPE_INT = Some (Some (V_i 7))"
  using ddi_count_and_sum [of "[5, - 2, 4]"] by (simp add: sums_fit_def le_Suc_eq numeral_3_eq_3)

text \<open>
  The minimum and the maximum of \<open>int\<close> fields start from the zeroed union, so they are the minimum
  and the maximum of the operands and zero: a minimum is never positive, a maximum never negative.
\<close>

theorem ddi_extrema_include_zero:
  "\<exists>u s. ddi_agg (CHR ''1'') KR_TYPE_INT (map V_i ws) V_zero = Some u \<and>
    item_value u KR_TYPE_INT = Some (Some (V_i (word_of_int (Min (insert 0 (sint ` set ws)))))) \<and>
    ddi_agg (CHR ''2'') KR_TYPE_INT (map V_i ws) V_zero = Some s \<and>
    item_value s KR_TYPE_INT = Some (Some (V_i (word_of_int (Max (insert 0 (sint ` set ws))))))"
proof -
  have z: "get_i V_zero = Some (0 :: i32)" by simp
  have mn: "ddi_step (CHR ''1'') KR_TYPE_INT u (V_i w) = Some (V_i (word_of_int (min (sint a) (sint w))))"
    and mx: "ddi_step (CHR ''2'') KR_TYPE_INT u (V_i w) = Some (V_i (word_of_int (max (sint a) (sint w))))"
    if "get_i u = Some a" for u a w
    using that sint_range [of a] sint_range [of w] by (simp_all add: ddi_step_def number_step_def min_max_if)
  have two: "min a b = a \<or> min a b = b" "max a b = a \<or> max a b = b" for a b :: int by (simp_all add: min_def max_def)
  from agg_extremum [of "CHR ''1''" min, OF mn two(1) z, of ws] agg_extremum [of "CHR ''2''" max, OF mx two(2) z, of ws]
  show ?thesis by (auto simp: item_value_int foldl_extremum)
qed

section \<open>Static items\<close>

text \<open>A value read from a field as the item's type is returned as it is.\<close>

lemma item_value_operand:
  assumes "sdi_operand db def ty r = Some u"
  shows "item_value u ty = Some (Some u)"
proof -
  from assms obtain k where "sdi_field ty k = Some (Some u)" by (auto simp: sdi_operand_def bind_eq_Some_conv)
  then show ?thesis
    by (cases ty; cases k) (auto simp: sdi_field_def item_value_def kr_get_value_def)
qed

text \<open>
  C17. The value of a static item that has not been computed for the current record, with a filter over
  fields and sets: among the records with the current record's key in the index, newest first, it
  is the field of the one at the item's location (absolute location: if it comes from the item's table and passes the
  filter; relative location: at that place among those from the table that pass; otherwise the first of these),
  and no value when there is no such record.
\<close>

theorem sdi_value_at_location:
  fixes pm :: "'d data_params" and cx :: "'d T_KRContext"
  assumes ok: "db_ok (cx_db cx) lg" and c: "cx_curr cx = Some c" "c \<in> set lg"
    and si: "the_sdi sid cx = Some si" "sdi_ready si" "si_curr si \<noteq> Some c" "si_calc si = Some kc" "calc_tree kc = Some t"
      "reps (rec_spec pm cx ts c) e t"
    and ix: "kr_get_table_index (cx_db cx) (fst c) (long_to_int (sd_index (si_def si))) = Some (Some ix)"
    and fine: "\<forall>r \<in> set (same_key (cx_db cx) ix lg c). sdi_fine pm cx ts (si_def si) (si_type si) e r"
  shows "\<exists>cx'. kr_data_get_value pm (data_env pm (Suc n)) KR_CALCKIND_SID sid cx =
    Some (case sdi_target (si_def si) (\<lambda>r. sdi_picks pm cx ts (si_def si) e r = Some True) (rev (same_key (cx_db cx) ix lg c)) of
        None \<Rightarrow> None | Some r \<Rightarrow> sdi_operand (cx_db cx) (si_def si) (si_type si) r, cx')"
proof -
  let ?t = "sdi_target (si_def si) (\<lambda>r. sdi_picks pm cx ts (si_def si) e r = Some True) (rev (same_key (cx_db cx) ix lg c))"
  from sdi_compute_spec [OF ok c si(1,2,4-6) ix fine, of n] obtain cx' si' where
      r: "kr_sdi_compute pm (data_env pm (Suc n)) sid cx = Some (0, cx')" "the_sdi sid cx' = Some si'" "si_type si' = si_type si"
        "case ?t of None \<Rightarrow> si_ind si' = KR_VALUE_UNSET \<and> si_related si' = {}
         | Some r \<Rightarrow> si_ind si' = KR_VALUE_SETED \<and> si_related si' = {r} \<and>
             Some (si_value si') = sdi_operand (cx_db cx) (si_def si) (si_type si) r"
    by blast
  show ?thesis
  proof (cases ?t)
    case None
    with r si(1,3) c(1) show ?thesis by (simp add: kr_data_get_value_def kr_sdi_get_value_def)
  next
    case (Some q)
    with r(4) have v: "si_ind si' = KR_VALUE_SETED" "sdi_operand (cx_db cx) (si_def si) (si_type si) q = Some (si_value si')"
      by simp_all
    from item_value_operand [OF v(2)] Some v r(1-3) si(1,3) c(1) show ?thesis
      by (simp add: kr_data_get_value_def kr_sdi_get_value_def)
  qed
qed

theorem sdi_value_at_location_witness:
  "\<exists>(cx :: payment T_KRContext) cx'. kr_data_get_value shop_pm (data_env shop_pm 1) KR_CALCKIND_SID 8 cx = Some (Some (V_i 40), cx')"
proof -
  from payments_exist obtain db tb ix r1 r2 where p: "payments db tb ix r1 r2" by blast
  let ?gl = "\<lparr>gl_cnt = 0, gl_groups = [], gl_time = 0\<rparr>"
  define cx where "cx = shop db tb 10 ?gl (Some r2)"
  note f = payments_fields [OF p]
  define df where "df = si_def (shop_sdi tb 10)"
  have df: "sd_field df = 2" "sd_location df = 0" "sd_loc_prop df = CHR ''1''" "sd_datasrc df = tb_id tb" "sd_index df = 10"
    by (simp_all add: df_def shop_sdi_def)
  have cx: "cx_db cx = db" "cx_curr cx = Some r2" "the_sdi 8 cx = Some (shop_sdi tb 10)"
    by (simp_all add: cx_def shop_simps)
  have c: "cond_holds (rec_spec shop_pm cx (fst r1) r1) (amount_exp 10) = Some True" "cond_holds (rec_spec shop_pm cx (fst r1) r2) (amount_exp 10) = Some False"
    "flat_ok cx (fst r1) r1 (exts (amount_exp 10))" "flat_ok cx (fst r1) r2 (exts (amount_exp 10))"
    using shop_cond [OF p refl, of 10 10 ?gl] by (simp_all add: cx_def)
  have pk: "sdi_picks shop_pm cx (fst r1) df (amount_exp 10) r1 = Some True"
    "sdi_picks shop_pm cx (fst r1) df (amount_exp 10) r2 = Some False"
    using c by (simp_all add: sdi_picks_def df cx f)
  have op: "sdi_operand db df KR_TYPE_INT r1 = Some (V_i 40)" by (simp add: sdi_operand_def df f sdi_field_def)
  have sk: "same_key (cx_db cx) ix [r1, r2] r2 = [r1, r2]" using payments_same_key [OF p] by (simp add: cx)
  have tg: "sdi_target df (\<lambda>r. sdi_picks shop_pm cx (fst r1) df (amount_exp 10) r = Some True) (rev [r1, r2]) = Some r1"
    by (simp add: sdi_target_def df at_location_def pk)
  have fine: "\<forall>r \<in> set [r1, r2]. sdi_fine shop_pm cx (fst r1) df KR_TYPE_INT (amount_exp 10) r"
    using pk c op by (auto simp: sdi_fine_def cx)
  have si: "sdi_ready (shop_sdi tb 10)" "si_curr (shop_sdi tb 10) \<noteq> Some r2" "si_calc (shop_sdi tb 10) = Some (calc_of (amount_tree 10))"
    "si_type (shop_sdi tb 10) = KR_TYPE_INT"
    by (simp_all add: sdi_ready_def shop_sdi_def free_value_def)
  have "\<exists>cx'. kr_data_get_value shop_pm (data_env shop_pm (Suc 0)) KR_CALCKIND_SID 8 cx =
    Some (case sdi_target df (\<lambda>r. sdi_picks shop_pm cx (fst r1) df (amount_exp 10) r = Some True)
        (rev (same_key (cx_db cx) ix [r1, r2] r2)) of
        None \<Rightarrow> None | Some r \<Rightarrow> sdi_operand (cx_db cx) df (si_type (shop_sdi tb 10)) r, cx')"
    unfolding df_def
  proof (rule sdi_value_at_location [where c = r2 and lg = "[r1, r2]" and kc = "calc_of (amount_tree 10)" and t = "amount_tree 10"])
    show "db_ok (cx_db cx) [r1, r2]" "kr_get_table_index (cx_db cx) (fst r2) (long_to_int (sd_index (si_def (shop_sdi tb 10)))) = Some (Some ix)"
      using p df by (simp_all add: payments_def cx flip: df_def)
    show "\<forall>r \<in> set (same_key (cx_db cx) ix [r1, r2] r2). sdi_fine shop_pm cx (fst r1) (si_def (shop_sdi tb 10)) (si_type (shop_sdi tb 10)) (amount_exp 10) r"
      using fine unfolding sk si(4) df_def [symmetric] .
    show "reps (rec_spec shop_pm cx (fst r1) r2) (amount_exp 10) (amount_tree 10)" by (rule amount_reps)
  qed (use cx si in \<open>simp_all add: calc_of_def\<close>)
  then have "\<exists>cx'. kr_data_get_value shop_pm (data_env shop_pm (Suc 0)) KR_CALCKIND_SID 8 cx = Some (Some (V_i 40), cx')"
    unfolding sk tg si(4) by (simp only: option.case cx op)
  then show ?thesis unfolding One_nat_def by blast
qed

end
