(* ===== verification/KR_Context_Props.thy ===== *)
theory KR_Context_Props
  imports KR_Data_Demo
begin

text \<open>
  The properties of the context between two messages: what its tables of items hold, how they follow
  the shared memory, and what cleaning the context leaves behind.
\<close>

section \<open>Tables of items\<close>

lemma build_items_ConsE:
  assumes "build_items mk key (d # ds) tab = Some (Some tab')"
  obtains x where "mk d = Some (Some x)" "map_of tab (key x) = None" "build_items mk key ds (tab @ [(key x, x)]) = Some (Some tab')"
  using assms by (auto simp: bind_eq_Some_conv assert_c_def split: option.splits if_splits)

lemma build_items_keeps:
  "build_items mk key ds tab = Some (Some tab') \<Longrightarrow> map_of tab i = Some y \<Longrightarrow> map_of tab' i = Some y"
proof (induction ds arbitrary: tab)
  case (Cons d ds)
  from build_items_ConsE [OF Cons.prems(1)] obtain x where x: "mk d = Some (Some x)" "map_of tab (key x) = None"
      "build_items mk key ds (tab @ [(key x, x)]) = Some (Some tab')"
    by blast
  from Cons.prems(2) have "map_of (tab @ [(key x, x)]) i = Some y" by (simp add: map_add_def)
  then show ?case by (rule Cons.IH [OF x(3)])
qed simp

text \<open>Every definition's item can be found, and nothing else.\<close>

lemma build_items_finds:
  "build_items mk key ds tab = Some (Some tab') \<Longrightarrow>
   (\<forall>d \<in> set ds. \<exists>x. mk d = Some (Some x) \<and> map_of tab' (key x) = Some x) \<and>
   (\<forall>i x. map_of tab' i = Some x \<longrightarrow> map_of tab i = Some x \<or> i = key x \<and> (\<exists>d \<in> set ds. mk d = Some (Some x)))"
proof (induction ds arbitrary: tab)
  case (Cons d ds)
  from build_items_ConsE [OF Cons.prems(1)] obtain x where x: "mk d = Some (Some x)" "map_of tab (key x) = None"
      "build_items mk key ds (tab @ [(key x, x)]) = Some (Some tab')"
    by blast
  have e: "map_of (tab @ [(key x, x)]) i = (if map_of tab i = None \<and> i = key x then Some x else map_of tab i)" for i
    using x(2) by (simp add: map_add_def split: option.split)
  have "map_of tab' (key x) = Some x" by (rule build_items_keeps [OF x(3)]) (use x(2) e in simp)
  with Cons.IH [OF x(3)] x(1) e show ?case by (fastforce split: if_splits)
qed simp

text \<open>
  A table of dynamic items that could be built holds, for every definition of the area, the item
  constructed from it under the definition's id, and no item under any other id; the ids are pairwise
  different (a second definition of the same id would free the first item, under whose id it is stored).
\<close>

theorem ddi_table_lookup:
  assumes "kr_ddi_table_construct pm area = Some (Some tab)" and "area_defs area = Some defs"
  shows "(\<forall>d \<in> set defs. \<exists>x. kr_ddi_construct pm d = Some (Some x) \<and> kr_ddi_lookup tab (dd_id d) = Some x) \<and>
    (\<forall>i. i \<notin> dd_id ` set defs \<longrightarrow> kr_ddi_lookup tab i = None)"
proof -
  from assms obtain items where b: "build_items (kr_ddi_construct pm) di_id defs [] = Some (Some items)" "it_items tab = items"
    by (auto simp: kr_ddi_table_construct_def bind_eq_Some_conv split: option.splits)
  have id: "di_id x = dd_id d" if "kr_ddi_construct pm d = Some (Some x)" for d x
    using that by (auto simp: kr_ddi_construct_def bind_eq_Some_conv)
  note f = build_items_finds [OF b(1)]
  show ?thesis unfolding kr_ddi_lookup_def b(2)
  proof (intro conjI ballI allI impI)
    fix d assume "d \<in> set defs"
    with f obtain x where "kr_ddi_construct pm d = Some (Some x)" "map_of items (di_id x) = Some x" by blast
    with id [of d x] show "\<exists>x. kr_ddi_construct pm d = Some (Some x) \<and> map_of items (dd_id d) = Some x" by auto
  next
    fix i assume i: "i \<notin> dd_id ` set defs"
    show "map_of items i = None"
    proof (rule ccontr)
      assume "map_of items i \<noteq> None"
      then obtain x where "map_of items i = Some x" by auto
      with f have "i = di_id x \<and> (\<exists>d \<in> set defs. kr_ddi_construct pm d = Some (Some x))" by simp
      then obtain d where "i = di_id x" "d \<in> set defs" "kr_ddi_construct pm d = Some (Some x)" by blast
      with id i show False by auto
    qed
  qed
qed

definition two_defs :: "T_KRShmDDIDef shm_area" where
  "two_defs = (let d = \<lparr>dd_id = 7, dd_value_type = KR_TYPE_INT, dd_aggr = [], dd_datasrc = 1, dd_index = 10, dd_field = 2,
       dd_stat_type = CHR ''I'', dd_stat_value = 60, dd_method = CHR ''0'', dd_format = KR_CALCFORMAT_FLEX, dd_filter = []\<rparr>
     in \<lparr>sa_cnt = 2, sa_defs = [d, d\<lparr>dd_id := 9\<rparr>], sa_time = 5\<rparr>)"

lemma two_defs_table: "\<exists>tab. kr_ddi_table_construct (shop_pm :: payment data_params) two_defs = Some (Some tab)"
  by (simp add: kr_ddi_table_construct_def two_defs_def Let_def area_defs_def kr_ddi_construct_def item_aggr_def
      kr_calc_construct_def shop_pm_def numeral_2_eq_2)

theorem ddi_table_lookup_witness:
  "\<exists>tab x. kr_ddi_table_construct (shop_pm :: payment data_params) two_defs = Some (Some tab) \<and> kr_ddi_lookup tab 9 = Some x \<and>
     kr_ddi_lookup tab 8 = None"
proof -
  from two_defs_table obtain tab where t: "kr_ddi_table_construct (shop_pm :: payment data_params) two_defs = Some (Some tab)" by blast
  have a: "area_defs two_defs = Some (sa_defs two_defs)" by (simp add: area_defs_def two_defs_def Let_def)
  have ids: "dd_id ` set (sa_defs two_defs) = {7, 9}" by (simp add: two_defs_def Let_def)
  then obtain d where d: "d \<in> set (sa_defs two_defs)" "dd_id d = 9" by (metis imageE insertCI)
  from ddi_table_lookup [OF t a] ids d have "kr_ddi_lookup tab 8 = None" "\<exists>x. kr_ddi_lookup tab 9 = Some x" by fastforce+
  with t show ?thesis by blast
qed

section \<open>Following the shared memory\<close>

lemma renew_ok:
  assumes "renew stale made put dym cont = Some (0, d)"
  obtains "\<not> stale" "cont dym = Some (0, d)" | x where "stale" "made = Some (Some x)" "cont (put x) = Some (0, d)"
  using assms by (auto simp: renew_def bind_eq_Some_conv split: if_splits option.splits)

text \<open>What a table is after the check: the old one, or one built from the area.\<close>

definition follows :: "bool \<Rightarrow> 'a option option \<Rightarrow> 'a \<Rightarrow> 'a \<Rightarrow> bool" where
  "follows stale made old new \<longleftrightarrow> (if stale then made = Some (Some new) else new = old)"

lemma table_times:
  "kr_set_table_construct pm za = Some (Some zt) \<Longrightarrow> it_time zt = sa_time za"
  "kr_sdi_table_construct pm sa = Some (Some st) \<Longrightarrow> it_time st = sa_time sa"
  "kr_ddi_table_construct pm da = Some (Some dt) \<Longrightarrow> it_time dt = sa_time da"
  "kr_hdi_table_construct pm ha = Some (Some ht) \<Longrightarrow> it_time ht = sa_time ha"
  "kr_group_list_construct pm ga = Some (Some gl) \<Longrightarrow> gl_time gl = sa_time ga"
  by (auto simp: kr_set_table_construct_def kr_sdi_table_construct_def kr_ddi_table_construct_def kr_hdi_table_construct_def
      kr_group_list_construct_def bind_eq_Some_conv split: if_splits)

text \<open>
  C15. A message starts with tables that follow the shared memory: when \<open>kr_context_set\<close> returns 0,
  every table of the context has the time of the current section's area; a table that had it before is
  the same object as before, any other one was built from the area. The rest of the context is
  unchanged, but for the argument.
\<close>

theorem context_set_follows_shm:
  assumes "kr_context_set pm arg cx = Some (0, cx')"
  shows "let sec = sm_sec (cx_shm cx); shm = cx_shm cx; old = cx_dym cx; new = cx_dym cx' in
    it_time (dy_sets new) = sa_time (sm_set shm sec) \<and> it_time (dy_sdis new) = sa_time (sm_sdi shm sec) \<and>
    it_time (dy_ddis new) = sa_time (sm_ddi shm sec) \<and> it_time (dy_hdis new) = sa_time (sm_hdi shm sec) \<and>
    gl_time (dy_groups new) = sa_time (sm_group shm sec) \<and>
    follows (it_time (dy_sets old) \<noteq> sa_time (sm_set shm sec)) (kr_set_table_construct pm (sm_set shm sec)) (dy_sets old) (dy_sets new) \<and>
    follows (it_time (dy_sdis old) \<noteq> sa_time (sm_sdi shm sec)) (kr_sdi_table_construct pm (sm_sdi shm sec)) (dy_sdis old) (dy_sdis new) \<and>
    follows (it_time (dy_ddis old) \<noteq> sa_time (sm_ddi shm sec)) (kr_ddi_table_construct pm (sm_ddi shm sec)) (dy_ddis old) (dy_ddis new) \<and>
    follows (it_time (dy_hdis old) \<noteq> sa_time (sm_hdi shm sec)) (kr_hdi_table_construct pm (sm_hdi shm sec)) (dy_hdis old) (dy_hdis new) \<and>
    follows (gl_time (dy_groups old) \<noteq> sa_time (sm_group shm sec)) (kr_group_list_construct pm (sm_group shm sec)) (dy_groups old) (dy_groups new) \<and>
    cx' = cx\<lparr>cx_dym := new, cx_arg := arg\<rparr>"
proof -
  let ?sec = "sm_sec (cx_shm cx)"
  let ?shm = "cx_shm cx"
  from assms obtain d where d: "kr_dym_check pm ?shm (cx_dym cx) = Some (0, d)" "cx' = cx\<lparr>cx_dym := d, cx_arg := arg\<rparr>"
    by (auto simp: kr_context_set_def bind_eq_Some_conv split: if_splits)
  have "follows (it_time (dy_sets (cx_dym cx)) \<noteq> sa_time (sm_set ?shm ?sec)) (kr_set_table_construct pm (sm_set ?shm ?sec)) (dy_sets (cx_dym cx)) (dy_sets d) \<and>
    follows (it_time (dy_sdis (cx_dym cx)) \<noteq> sa_time (sm_sdi ?shm ?sec)) (kr_sdi_table_construct pm (sm_sdi ?shm ?sec)) (dy_sdis (cx_dym cx)) (dy_sdis d) \<and>
    follows (it_time (dy_ddis (cx_dym cx)) \<noteq> sa_time (sm_ddi ?shm ?sec)) (kr_ddi_table_construct pm (sm_ddi ?shm ?sec)) (dy_ddis (cx_dym cx)) (dy_ddis d) \<and>
    follows (it_time (dy_hdis (cx_dym cx)) \<noteq> sa_time (sm_hdi ?shm ?sec)) (kr_hdi_table_construct pm (sm_hdi ?shm ?sec)) (dy_hdis (cx_dym cx)) (dy_hdis d) \<and>
    follows (gl_time (dy_groups (cx_dym cx)) \<noteq> sa_time (sm_group ?shm ?sec)) (kr_group_list_construct pm (sm_group ?shm ?sec)) (dy_groups (cx_dym cx)) (dy_groups d)"
    using d(1) unfolding kr_dym_check_def Let_def
    by (elim renew_ok) (auto simp: follows_def)
  moreover from this have "it_time (dy_sets d) = sa_time (sm_set ?shm ?sec)" "it_time (dy_sdis d) = sa_time (sm_sdi ?shm ?sec)"
    "it_time (dy_ddis d) = sa_time (sm_ddi ?shm ?sec)" "it_time (dy_hdis d) = sa_time (sm_hdi ?shm ?sec)"
    "gl_time (dy_groups d) = sa_time (sm_group ?shm ?sec)"
    by (auto simp: follows_def dest: table_times split: if_splits)
  ultimately show ?thesis using d(2) by (simp add: Let_def)
qed

theorem context_set_follows_shm_witness:
  "\<exists>(cx :: payment T_KRContext) cx'. kr_context_set shop_pm (Some 3) cx = Some (0, cx') \<and>
     it_time (dy_ddis (cx_dym cx)) = 0 \<and> it_time (dy_ddis (cx_dym cx')) = 5 \<and> dy_sdis (cx_dym cx') = dy_sdis (cx_dym cx)"
proof -
  define cx0 :: "payment T_KRContext" where
    "cx0 = shop (kr_create_db ''db'' (\<lambda>_. 0)) undefined 1 \<lparr>gl_cnt = 0, gl_groups = [], gl_time = 0\<rparr> None"
  define cx where "cx = cx0\<lparr>cx_shm := (cx_shm cx0)\<lparr>sm_ddi := (\<lambda>_. two_defs)\<rparr>\<rparr>"
  from two_defs_table obtain tab where t: "kr_ddi_table_construct (shop_pm :: payment data_params) two_defs = Some (Some tab)" by blast
  have five: "sa_time two_defs = 5" by (simp add: two_defs_def Let_def)
  have tm: "sa_time (sm_set (cx_shm cx) k) = 0" "sa_time (sm_sdi (cx_shm cx) k) = 0" "sm_ddi (cx_shm cx) k = two_defs"
    "sa_time (sm_hdi (cx_shm cx) k) = 0" "sa_time (sm_group (cx_shm cx) k) = 0" "it_time (dy_sets (cx_dym cx)) = 0"
    "it_time (dy_sdis (cx_dym cx)) = 0" "it_time (dy_ddis (cx_dym cx)) = 0" "it_time (dy_hdis (cx_dym cx)) = 0"
    "gl_time (dy_groups (cx_dym cx)) = 0" for k
    by (simp_all add: cx_def cx0_def shop_def no_area_def)
  have "kr_dym_check (shop_pm :: payment data_params) (cx_shm cx) (cx_dym cx) = Some (0, (cx_dym cx)\<lparr>dy_ddis := tab\<rparr>)"
    by (simp add: kr_dym_check_def renew_def Let_def tm t five)
  then have "\<exists>cx'. kr_context_set shop_pm (Some 3) cx = Some (0, cx')"
    by (simp add: kr_context_set_def)
  then obtain cx' where c: "kr_context_set shop_pm (Some 3) cx = Some (0, cx')" by blast
  note f = context_set_follows_shm [OF c]
  have "it_time (dy_ddis (cx_dym cx')) = 5"
    using f by (simp add: Let_def tm five)
  moreover have "dy_sdis (cx_dym cx') = dy_sdis (cx_dym cx)"
    using f by (simp add: Let_def follows_def tm)
  ultimately show ?thesis using c tm(8) by blast
qed

section \<open>Cleaning\<close>

lemma init_all_finds:
  "init_all f es = Some es' \<Longrightarrow> map_of es i = Some x \<Longrightarrow> \<exists>y. f x = Some y \<and> map_of es' i = Some y"
  by (induction es arbitrary: es') (auto simp: bind_eq_Some_conv split: if_splits)

lemma init_items_finds:
  assumes "init_items f t = Some t'" and "map_of (it_items t) i = Some x"
  shows "\<exists>y. f x = Some y \<and> map_of (it_items t') i = Some y"
  using assms init_all_finds [of f "it_items t"] by (auto simp: init_items_def)

lemma clean_items:
  assumes "kr_context_clean cx = Some cx'"
  shows "init_items kr_ddi_init (dy_ddis (cx_dym cx)) = Some (dy_ddis (cx_dym cx'))"
    "init_items kr_hdi_init (dy_hdis (cx_dym cx)) = Some (dy_hdis (cx_dym cx'))"
    "cx_hdi_cache cx' = cx_hdi_cache cx" "cx_key cx' = None"
  using assms by (auto simp: kr_context_clean_def kr_dym_init_def bind_eq_Some_conv)

text \<open>
  C18. Cleaning a context leaves in every dynamic item the record it was computed for, but not its value.
  When the buffer of the table then reuses the slot of that record for the record of a later message,
  the item counts as computed and has no value for it, whatever the database and the filter say.
\<close>

theorem ddi_lost_when_slot_reused:
  assumes "kr_context_clean cx = Some cx'" and "the_ddi did cx = Some di" and "di_curr di = Some c"
  shows "kr_data_get_value pm env KR_CALCKIND_DID did (cx'\<lparr>cx_db := db, cx_curr := Some c\<rparr>) =
    Some (None, cx'\<lparr>cx_db := db, cx_curr := Some c\<rparr>)"
proof -
  from init_items_finds [OF clean_items(1) [OF assms(1)]] assms(2) obtain di' where di': "kr_ddi_init di = Some di'"
      "map_of (it_items (dy_ddis (cx_dym cx'))) did = Some di'"
    by (auto simp: the_ddi_def kr_ddi_lookup_def)
  then have "di_ind di' = KR_VALUE_UNSET" "di_curr di' = Some c" using assms(3) by (auto simp: kr_ddi_init_def bind_eq_Some_conv)
  with di'(2) show ?thesis
    by (simp add: kr_data_get_value_def kr_ddi_get_value_def the_ddi_def kr_ddi_lookup_def)
qed

theorem ddi_lost_when_slot_reused_witness:
  "\<exists>(cx :: payment T_KRContext) cx' v. kr_data_get_value shop_pm (data_env shop_pm 1) KR_CALCKIND_DID 7 cx = Some (Some v, cx) \<and>
     kr_context_clean cx = Some cx' \<and>
     kr_data_get_value shop_pm (data_env shop_pm 1) KR_CALCKIND_DID 7 (cx'\<lparr>cx_db := cx_db cx, cx_curr := cx_curr cx\<rparr>) =
       Some (None, cx'\<lparr>cx_db := cx_db cx, cx_curr := cx_curr cx\<rparr>)"
proof -
  define cx0 :: "payment T_KRContext" where
    "cx0 = shop (kr_create_db ''db'' (\<lambda>_. 0)) undefined 1 \<lparr>gl_cnt = 0, gl_groups = [], gl_time = 0\<rparr> (Some (0, 0))"
  define di where "di = (shop_ddi undefined)\<lparr>di_curr := Some (0, 0), di_ind := KR_VALUE_SETED, di_value := V_i 42\<rparr>"
  define cx where "cx = put_ddi 7 di cx0"
  have t: "the_ddi 7 cx = Some di" "cx_curr cx = Some (0, 0)" "di_curr di = Some (0, 0)"
    by (simp_all add: cx_def cx0_def shop_simps di_def)
  have v: "kr_data_get_value shop_pm (data_env shop_pm 1) KR_CALCKIND_DID 7 cx = Some (Some (V_i 42), cx)"
    using t by (simp add: kr_data_get_value_def kr_ddi_get_value_def) (simp add: di_def shop_ddi_def item_value_def kr_get_value_def)
  have "\<exists>cx'. kr_context_clean cx = Some cx'"
    by (simp add: kr_context_clean_def kr_dym_init_def init_items_def cx_def cx0_def shop_def put_ddi_def put_item_def
        kr_sdi_init_def kr_ddi_init_def shop_sdi_def di_def shop_ddi_def free_value_def)
  then obtain cx' where c: "kr_context_clean cx = Some cx'" by blast
  from ddi_lost_when_slot_reused [OF c t(1,3)] v c t(2) show ?thesis by auto
qed

section \<open>History items\<close>

text \<open>With the cache of history items on, the first history item a message asks for is read from it
  through the key of the current record before that key is determined: cleaning has set it to NULL.
\<close>

theorem hdi_cache_reads_null_key:
  assumes "kr_context_clean cx = Some cx'" and "cx_hdi_cache cx = Some hc" and "the_hdi hid cx = Some hi" and "hi_curr hi \<noteq> Some c"
  shows "kr_data_get_value pm env KR_CALCKIND_HID hid (cx'\<lparr>cx_db := db, cx_curr := Some c\<rparr>) = None"
proof -
  from init_items_finds [OF clean_items(2) [OF assms(1)]] assms(3) obtain hi' where hi': "kr_hdi_init hi = Some hi'"
      "map_of (it_items (dy_hdis (cx_dym cx'))) hid = Some hi'"
    by (auto simp: the_hdi_def kr_hdi_lookup_def)
  then have "hi_curr hi' \<noteq> Some c" using assms(4) by (auto simp: kr_hdi_init_def bind_eq_Some_conv)
  with hi'(2) clean_items(3,4) [OF assms(1)] assms(2) show ?thesis
    by (simp add: kr_data_get_value_def kr_hdi_get_value_def the_hdi_def kr_hdi_lookup_def kr_hdi_get_value_from_cache_def)
qed

definition example_hdi :: T_KRHDI where
  "example_hdi = \<lparr>hi_def = \<lparr>hd_id = 4, hd_value_type = KR_TYPE_INT, hd_aggr = [], hd_index = 10, hd_stat_type = CHR ''0'',
       hd_stat_value = 100, hd_method = CHR ''0''\<rparr>,
     hi_id = 4, hi_type = KR_TYPE_INT, hi_aggr = Aggr_null, hi_curr = None, hi_ind = KR_VALUE_UNSET, hi_value = V_zero\<rparr>"

definition hdi_shop :: "payment T_KRDB \<Rightarrow> payment T_KRTable \<Rightarrow> hdi_cache option \<Rightarrow> rec_ptr option \<Rightarrow> payment T_KRContext" where
  "hdi_shop db tb hc c = (let cx = shop db tb 1 \<lparr>gl_cnt = 0, gl_groups = [], gl_time = 0\<rparr> c in
     cx\<lparr>cx_hdi_cache := hc, cx_dym := (cx_dym cx)\<lparr>dy_hdis := \<lparr>it_cnt = 1, it_items = [(4, example_hdi)], it_time = 0\<rparr>\<rparr>\<rparr>)"

lemma hdi_shop_simps:
  "cx_db (hdi_shop db tb hc c) = db" "cx_curr (hdi_shop db tb hc c) = c" "the_hdi 4 (hdi_shop db tb hc c) = Some example_hdi"
  "cx_hdi_cache (hdi_shop db tb hc c) = hc"
  by (simp_all add: hdi_shop_def shop_def Let_def the_hdi_def kr_hdi_lookup_def)

lemma example_hdi_cache: "\<exists>hc. kr_hdi_cache_create kr_string_hash 4 = Some (Some hc)"
proof -
  obtain t :: "(string, nat) T_KRHashTable" where
      "kr_hashtable_new_full kr_string_hash (Some kr_string_hash) (Some kr_string_equal) False False = Some t"
    by (rule new_table [of kr_string_hash kr_string_hash kr_string_equal False False])
  then show ?thesis by (simp add: kr_hdi_cache_create_def kr_cache_new_def kr_hashtable_new_def)
qed

theorem hdi_cache_reads_null_key_witness:
  "\<exists>(cx :: payment T_KRContext) cx' hc. kr_hdi_cache_create kr_string_hash 4 = Some (Some hc) \<and> cx_hdi_cache cx = Some hc \<and>
     kr_context_clean cx = Some cx' \<and>
     kr_data_get_value shop_pm (data_env shop_pm 1) KR_CALCKIND_HID 4 (cx'\<lparr>cx_db := cx_db cx, cx_curr := Some (0, 0)\<rparr>) = None"
proof -
  from example_hdi_cache obtain hc where hc: "kr_hdi_cache_create kr_string_hash 4 = Some (Some hc)" by blast
  define cx where "cx = hdi_shop (kr_create_db ''db'' (\<lambda>_. 0)) undefined (Some hc) None"
  have c: "\<exists>cx'. kr_context_clean cx = Some cx'"
    by (simp add: kr_context_clean_def kr_dym_init_def init_items_def cx_def hdi_shop_def shop_def Let_def example_hdi_def
        kr_sdi_init_def kr_ddi_init_def kr_hdi_init_def shop_sdi_def shop_ddi_def free_value_def)
  then obtain cx' where c: "kr_context_clean cx = Some cx'" by blast
  have "cx_hdi_cache cx = Some hc" "the_hdi 4 cx = Some example_hdi" "hi_curr example_hdi \<noteq> Some (0, 0)"
    by (simp_all add: cx_def hdi_shop_simps example_hdi_def)
  from hdi_cache_reads_null_key [OF c this] c this(1) hc show ?thesis by blast
qed

lemma gather_dym: "gather i cx = Some (b, cx1) \<Longrightarrow> cx_dym cx1 = cx_dym cx \<and> cx_hdi_cache cx1 = cx_hdi_cache cx"
  by (auto simp: gather_def bind_eq_Some_conv split: option.splits)

lemma the_put_hdi [simp]: "the_hdi hid cx \<noteq> None \<Longrightarrow> the_hdi hid (put_hdi hid d cx) = Some d"
  by (simp add: the_hdi_def kr_hdi_lookup_def put_hdi_def map_of_put)

lemma put_zero:
  assumes "put_hdi_value hid (zero_of ty) cx = Some (r, cx')" and "the_hdi hid cx = Some hi" and "hi_ind hi = KR_VALUE_UNSET"
  shows "\<exists>hi'. the_hdi hid cx' = Some hi' \<and> hi_type hi' = hi_type hi \<and>
    (hi_ind hi' = KR_VALUE_SETED \<longrightarrow> zero_of ty = Some (hi_value hi'))"
  using assms by (auto simp: put_hdi_value_def split: option.splits)

lemma aggr_zero:
  assumes "kr_hdi_aggr_func pm hid cx = Some (r, cx')" and "the_hdi hid cx = Some hi" and "hi_ind hi = KR_VALUE_UNSET"
    and "hd_stat_type (hi_def hi) \<in> {CHR ''0'', CHR ''1''}"
  shows "\<exists>hi'. the_hdi hid cx' = Some hi' \<and> hi_type hi' = hi_type hi \<and>
    (hi_ind hi' = KR_VALUE_SETED \<longrightarrow> zero_of (hi_type hi) = Some (hi_value hi'))"
proof -
  from assms(1,2,4) consider (failed) "cx' = cx"
    | (days) obj r1 where "kr_hdi_aggr_day pm hid obj cx = Some (r1, cx')"
    | (months) obj r1 where "kr_hdi_aggr_mon pm hid obj cx = Some (r1, cx')"
    by (auto simp: kr_hdi_aggr_func_def bind_eq_Some_conv Let_def split: option.splits if_splits)
  then show ?thesis
  proof cases
    case failed
    with assms(2,3) show ?thesis by simp
  next
    case days
    then have "cx' = cx \<or> (\<exists>r. put_hdi_value hid (zero_of (hi_type hi)) cx = Some (r, cx'))"
      using assms(2) by (auto simp: kr_hdi_aggr_day_def bind_eq_Some_conv Let_def split: if_splits)
    with put_zero [OF _ assms(2,3)] assms(2,3) show ?thesis by auto
  next
    case months
    then have "cx' = cx \<or> (\<exists>r. put_hdi_value hid (zero_of (hi_type hi)) cx = Some (r, cx'))"
      using assms(2) by (auto simp: kr_hdi_aggr_mon_def bind_eq_Some_conv Let_def split: if_splits)
    with put_zero [OF _ assms(2,3)] assms(2,3) show ?thesis by auto
  qed
qed

text \<open>
  The value of a history item over days or months is always zero, whatever the statistics in the
  program's database are and whichever method the item has: without the cache, if there is a value
  at all, it is the zero of the item's type.
\<close>

theorem hdi_period_value_is_zero:
  assumes "cx_hdi_cache cx = None" and "the_hdi hid cx = Some hi" and "hi_curr hi \<noteq> cx_curr cx"
    and "hd_stat_type (hi_def hi) \<in> {CHR ''0'', CHR ''1''}" and "\<forall>name. hi_aggr hi \<noteq> Aggr_symbol name"
    and "kr_data_get_value pm env KR_CALCKIND_HID hid cx = Some (Some v, cx')"
  shows "zero_of (hi_type hi) = Some v"
proof -
  from assms obtain ret cx1 where c: "kr_hdi_compute pm hid cx = Some (ret, cx1)" "ret = 0"
    by (auto simp: kr_data_get_value_def kr_hdi_get_value_def Let_def bind_eq_Some_conv split: if_splits)
  from c(1) assms(2) obtain hi1 b cx0 where g: "kr_hdi_init hi = Some hi1"
      "gather (hd_index (hi_def hi1)) (put_hdi hid hi1 cx) = Some (b, cx0)"
    by (auto simp: kr_hdi_compute_def bind_eq_Some_conv)
  have h1: "hi_ind hi1 = KR_VALUE_UNSET" "hi_type hi1 = hi_type hi" "hi_def hi1 = hi_def hi" "hi_aggr hi1 = hi_aggr hi"
    using g(1) by (auto simp: kr_hdi_init_def bind_eq_Some_conv)
  have t0: "the_hdi hid cx0 = Some hi1"
    using gather_dym [OF g(2)] assms(2) the_put_hdi [of hid cx hi1] by (simp add: the_hdi_def)
  have "\<exists>hi'. the_hdi hid cx1 = Some hi' \<and> hi_type hi' = hi_type hi \<and>
    (hi_ind hi' = KR_VALUE_SETED \<longrightarrow> zero_of (hi_type hi) = Some (hi_value hi'))"
  proof (cases b)
    case False
    with c(1) g assms(2) t0 h1 show ?thesis by (auto simp: kr_hdi_compute_def)
  next
    case True
    let ?hi2 = "hi1\<lparr>hi_aggr := Aggr_default\<rparr>"
    have ag: "(if hi_aggr hi1 = Aggr_null then Aggr_default else hi_aggr hi1) = Aggr_default"
      using assms(5) h1(4) by (cases "hi_aggr hi") auto
    from c(1) g assms(2) True obtain r where a: "kr_hdi_aggr_func pm hid (put_hdi hid ?hi2 cx0) = Some (r, cx1)"
      by (auto simp: kr_hdi_compute_def Let_def ag bind_eq_Some_conv)
    from aggr_zero [OF a, of ?hi2] t0 h1 assms(4) show ?thesis by simp
  qed
  then obtain hi' where h: "the_hdi hid cx1 = Some hi'" "hi_type hi' = hi_type hi"
      "hi_ind hi' = KR_VALUE_SETED \<longrightarrow> zero_of (hi_type hi) = Some (hi_value hi')"
    by blast
  from assms c h(1) have "hi_ind hi' = KR_VALUE_SETED \<and> item_value (hi_value hi') (hi_type hi') = Some (Some v)"
    by (auto simp: kr_data_get_value_def kr_hdi_get_value_def Let_def bind_eq_Some_conv split: if_splits)
  with h show ?thesis
    by (cases "hi_type hi"; cases "hi_value hi'") (auto simp: zero_of_def item_value_def kr_get_value_def)
qed

theorem hdi_period_value_is_zero_witness:
  "\<exists>(cx :: payment T_KRContext) cx'. kr_data_get_value shop_pm (data_env shop_pm 1) KR_CALCKIND_HID 4 cx = Some (Some (V_i 0), cx') \<and>
     zero_of KR_TYPE_INT = Some (V_i 0)"
proof -
  from payments_exist obtain db tb ix r1 r2 where p: "payments db tb ix r1 r2" by blast
  define cx where "cx = hdi_shop db tb None (Some r2)"
  have cx: "cx_db cx = db" "cx_curr cx = Some r2" "the_hdi 4 cx = Some example_hdi" "cx_hdi_cache cx = None"
    by (simp_all add: cx_def hdi_shop_simps)
  have ex: "hi_curr example_hdi = None" "hi_aggr example_hdi = Aggr_null" "hd_index (hi_def example_hdi) = 10"
    "hd_stat_type (hi_def example_hdi) = CHR ''0''" "hi_type example_hdi = KR_TYPE_INT" "hd_stat_value (hi_def example_hdi) = 100"
    by (simp_all add: example_hdi_def)
  define cx0 where "cx0 = put_hdi 4 (example_hdi\<lparr>hi_ind := KR_VALUE_UNSET, hi_value := V_zero\<rparr>) cx"
  have init: "kr_hdi_init example_hdi = Some (example_hdi\<lparr>hi_ind := KR_VALUE_UNSET, hi_value := V_zero\<rparr>)"
    by (simp add: kr_hdi_init_def free_value_def example_hdi_def)
  have pp: "db_ok db [r1, r2]" "ix_field ix = 0" "kr_get_table_index db (fst r2) 10 = Some (Some ix)"
    using p by (simp_all add: payments_def)
  have c0: "cx_db cx0 = db" "cx_curr cx0 = Some r2" "the_hdi 4 cx0 = Some (example_hdi\<lparr>hi_ind := KR_VALUE_UNSET, hi_value := V_zero\<rparr>)"
    using the_put_hdi [of 4 cx] by (simp_all add: cx0_def cx) (simp_all add: put_hdi_def cx)
  from gather_spec [of cx0 "[r1, r2]" r2 10 ix] obtain la ty where g: "gather 10 cx0 =
      Some (True, cx0\<lparr>cx_key_type := ty, cx_key := Some (FieldPtr r2 0), cx_reclist := Some la\<rparr>)" "kr_get_field_type db r2 0 = Some ty"
    using pp c0 by auto
  define cx2 where "cx2 = put_hdi 4 (example_hdi\<lparr>hi_ind := KR_VALUE_UNSET, hi_value := V_zero, hi_aggr := Aggr_default\<rparr>)
    (cx0\<lparr>cx_key_type := ty, cx_key := Some (FieldPtr r2 0), cx_reclist := Some la\<rparr>)"
  have ty: "ty = KR_TYPE_INT" "key_obj db (FieldPtr r2 0) = KInt 5"
    using g(2) p by (auto simp: payments_def kr_get_field_type_def rec_field_def_def key_obj_def item_fds_def nth_opt_def)
  have c2: "cx_db cx2 = db" "cx_curr cx2 = Some r2" "cx_key cx2 = Some (FieldPtr r2 0)" "cx_key_type cx2 = KR_TYPE_INT"
    by (simp_all add: cx2_def put_hdi_def c0 ty)
  have h2: "the_hdi 4 cx2 = Some (example_hdi\<lparr>hi_ind := KR_VALUE_UNSET, hi_value := V_zero, hi_aggr := Aggr_default\<rparr>)"
    unfolding cx2_def by (rule the_put_hdi) (use c0(3) in \<open>simp add: the_hdi_def\<close>)
  have "\<exists>cx3. kr_hdi_aggr_func shop_pm 4 cx2 = Some (0, cx3) \<and> cx_curr cx3 = Some r2 \<and> the_hdi 4 cx3 =
      Some (example_hdi\<lparr>hi_ind := KR_VALUE_SETED, hi_value := V_i 0, hi_aggr := Aggr_default\<rparr>)"
    using c2 h2 ex payments_fields(6) [OF p]
    by (simp add: kr_hdi_aggr_func_def data_object_def ty Let_def kr_hdi_aggr_day_def shop_pm_def put_hdi_value_def zero_of_def)
      (simp add: put_hdi_def)
  then obtain cx3 where a: "kr_hdi_aggr_func shop_pm 4 cx2 = Some (0, cx3)" "cx_curr cx3 = Some r2" "the_hdi 4 cx3 =
      Some (example_hdi\<lparr>hi_ind := KR_VALUE_SETED, hi_value := V_i 0, hi_aggr := Aggr_default\<rparr>)"
    by blast
  have cmp: "kr_hdi_compute shop_pm 4 cx = Some (0, cx3)"
    using a(1) cx(3) init g(1) ex by (simp add: kr_hdi_compute_def Let_def cx0_def [symmetric] cx2_def [symmetric])
  have "\<exists>cx'. kr_data_get_value shop_pm (data_env shop_pm 1) KR_CALCKIND_HID 4 cx = Some (Some (V_i 0), cx')"
    using cx cmp a ex by (simp add: kr_data_get_value_def kr_hdi_get_value_def Let_def item_value_def kr_get_value_def)
  then obtain cx' where v: "kr_data_get_value shop_pm (data_env shop_pm 1) KR_CALCKIND_HID 4 cx = Some (Some (V_i 0), cx')" by blast
  from hdi_period_value_is_zero [OF cx(4,3) _ _ _ v] ex cx(2) have "zero_of KR_TYPE_INT = Some (V_i 0)" by simp
  with v show ?thesis by blast
qed

end
