(* ===== verification/KR_Engine.thy ===== *)
theory KR_Engine
  imports KR_Data_Props
begin

text \<open>
  \<open>krengine/\<close>: the detection of an event (\<open>kr_engine_detect.c\<close>) and the handling of a message by a
  context (\<open>kr_engine_handle\<close> of \<open>kr_engine.c\<close>, the handles of \<open>kr_engine_handle.c\<close> that insert and
  detect an event). The pointer to a group is its position in the list of groups, the pointer to a
  rule its position in the list of rules of its group; neither list changes while it is walked.
\<close>

section \<open>Access\<close>

definition the_group :: "nat \<Rightarrow> 'd T_KRContext \<Rightarrow> T_KRGroup option" where
  "the_group g cx = nth_opt (gl_groups (dy_groups (cx_dym cx))) g"

definition put_group :: "nat \<Rightarrow> T_KRGroup \<Rightarrow> 'd T_KRContext \<Rightarrow> 'd T_KRContext" where
  "put_group g x cx = (let gl = dy_groups (cx_dym cx) in
     cx\<lparr>cx_dym := (cx_dym cx)\<lparr>dy_groups := gl\<lparr>gl_groups := (gl_groups gl)[g := x]\<rparr>\<rparr>\<rparr>)"

definition the_rule :: "nat \<Rightarrow> nat \<Rightarrow> 'd T_KRContext \<Rightarrow> T_KRRule option" where
  "the_rule g j cx = do { x \<leftarrow> the_group g cx; nth_opt (rl_rules (gr_rules x)) j }"

definition put_rule :: "nat \<Rightarrow> nat \<Rightarrow> T_KRRule \<Rightarrow> 'd T_KRContext \<Rightarrow> 'd T_KRContext option" where
  "put_rule g j r cx = do {
     x \<leftarrow> the_group g cx;
     let rl = gr_rules x;
     Some (put_group g (x\<lparr>gr_rules := rl\<lparr>rl_rules := (rl_rules rl)[j := r]\<rparr>\<rparr>) cx)
   }"

section \<open>Detection\<close>

text \<open>
  The test both calculators end with: the value is set, boolean and true.
\<close>

definition calc_fires :: "T_KRCalc \<Rightarrow> bool option" where
  "calc_fires kc = do {
     ind \<leftarrow> kr_calc_ind kc;
     if ind \<noteq> KR_VALUE_SETED then Some False
     else do {
       ty \<leftarrow> kr_calc_type kc;
       if ty \<noteq> KR_TYPE_BOOL then Some False
       else do { v \<leftarrow> kr_calc_value kc; b \<leftarrow> get_b v; Some (b \<noteq> 0) }
     }
   }"

definition kr_rule_detect ::
  "'d T_KRContext calc_env \<Rightarrow> nat \<Rightarrow> nat \<Rightarrow> 'd T_KRContext \<Rightarrow> (int \<times> 'd T_KRContext) option" where
  "kr_rule_detect env g j cx0 = do {
     r0 \<leftarrow> the_rule g j cx0;
     let r = kr_rule_init r0;
     cx \<leftarrow> put_rule g j r cx0;
     c \<leftarrow> cx_curr cx;
     (t, tb) \<leftarrow> rec_table (cx_db cx) c;
     if tb_id tb \<noteq> rd_datasrc (ru_def r) then Some (0, cx)
     else do {
       kc \<leftarrow> ru_calc r;
       (ret, kc1, cx1) \<leftarrow> kr_calc_eval env kc cx;
       r1 \<leftarrow> the_rule g j cx1;
       cx2 \<leftarrow> put_rule g j (r1\<lparr>ru_calc := Some kc1\<rparr>) cx1;
       if ret \<noteq> 0 then Some (- 1, cx2)
       else do {
         fires \<leftarrow> calc_fires kc1;
         if fires then do {
           cx3 \<leftarrow> put_rule g j (r1\<lparr>ru_calc := Some kc1, ru_violated := True\<rparr>) cx1;
           Some (1, cx3)
         }
         else Some (0, cx2)
       }
     }
   }"

text \<open>The counters of the list after a rule that fired.\<close>

definition count_fired :: "nat \<Rightarrow> nat \<Rightarrow> 'd T_KRContext \<Rightarrow> 'd T_KRContext option" where
  "count_fired g j cx = do {
     x \<leftarrow> the_group g cx;
     r \<leftarrow> the_rule g j cx;
     n \<leftarrow> chk_long (rl_fired (gr_rules x) + 1);
     w \<leftarrow> chk_long (rl_weights (gr_rules x) + ru_weight r);
     Some (put_group g (x\<lparr>gr_rules := (gr_rules x)\<lparr>rl_fired := n, rl_weights := w\<rparr>\<rparr>) cx)
   }"

primrec rule_walk ::
  "'d T_KRContext calc_env \<Rightarrow> nat \<Rightarrow> nat list \<Rightarrow> 'd T_KRContext \<Rightarrow> (int \<times> 'd T_KRContext) option" where
  "rule_walk env g [] cx = Some (0, cx)"
| "rule_walk env g (j # js) cx = do {
     (ret, cx1) \<leftarrow> kr_rule_detect env g j cx;
     if ret = 1 then do { cx2 \<leftarrow> count_fired g j cx1; rule_walk env g js cx2 }
     else if ret \<noteq> 0 then Some (- 1, cx1)
     else rule_walk env g js cx1
   }"

definition kr_rule_list_detect ::
  "'d T_KRContext calc_env \<Rightarrow> nat \<Rightarrow> 'd T_KRContext \<Rightarrow> (int \<times> 'd T_KRContext) option" where
  "kr_rule_list_detect env g cx0 = do {
     x \<leftarrow> the_group g cx0;
     let cx = put_group g (x\<lparr>gr_rules := kr_rule_list_init (gr_rules x)\<rparr>) cx0;
     if rl_cnt (gr_rules x) = 0 then Some (0, cx)
     else if cx_curr cx = None then Some (- 1, cx)
     else rule_walk env g [0..<length (rl_rules (gr_rules x))] cx
   }"

definition kr_group_match ::
  "'d T_KRContext calc_env \<Rightarrow> nat \<Rightarrow> 'd T_KRContext \<Rightarrow> (int \<times> 'd T_KRContext) option" where
  "kr_group_match env g cx = do {
     x \<leftarrow> the_group g cx;
     kc \<leftarrow> gr_calc x;
     (ret, kc1, cx1) \<leftarrow> kr_calc_eval env kc cx;
     x1 \<leftarrow> the_group g cx1;
     let cx2 = put_group g (x1\<lparr>gr_calc := Some kc1\<rparr>) cx1;
     if ret \<noteq> 0 then Some (- 1, cx2)
     else do { fires \<leftarrow> calc_fires kc1; Some (if fires then 1 else 0, cx2) }
   }"

text \<open>The walk over the groups ends at the first one that matches.\<close>

primrec group_walk ::
  "'d T_KRContext calc_env \<Rightarrow> nat list \<Rightarrow> 'd T_KRContext \<Rightarrow> (int \<times> 'd T_KRContext) option" where
  "group_walk env [] cx = Some (0, cx)"
| "group_walk env (g # gs) cx = do {
     (ret, cx1) \<leftarrow> kr_group_match env g cx;
     if ret = 1 then do {
       (ret2, cx2) \<leftarrow> kr_rule_list_detect env g (cx1\<lparr>cx_group := Some g\<rparr>);
       Some (if ret2 \<noteq> 0 then - 1 else 0, cx2)
     }
     else if ret \<noteq> 0 then Some (- 1, cx1)
     else group_walk env gs cx1
   }"

definition kr_engine_detect :: "'d T_KRContext calc_env \<Rightarrow> 'd T_KRContext \<Rightarrow> (int \<times> 'd T_KRContext) option" where
  "kr_engine_detect env cx =
     (if cx_curr cx = None then Some (- 1, cx)
      else if gl_cnt (dy_groups (cx_dym cx)) = 0 then Some (0, cx)
      else group_walk env [0..<length (gl_groups (dy_groups (cx_dym cx)))] cx)"

section \<open>The alert: kr_context_dump_json\<close>

text \<open>
  A JSON document; the number behind a pointer is the address, which is not modelled. The items and
  related records are listed in the order of their hash tables, a parameter. The value indicators are
  numbers of characters, but for an item that was never initialised, which has the zero of \<open>kr_calloc\<close>;
  \<open>do_unset\<close> is the number of an indicator that is not set.
\<close>

datatype json = J_number kr_double | J_address | J_string string | J_array "json list" | J_object "(string \<times> json) list"

record dump_order =
  do_ids :: "int list \<Rightarrow> int list"
  do_recs :: "rec_ptr set \<Rightarrow> rec_ptr list"
  do_unset :: int

definition set_cjson_field :: "E_KRType \<Rightarrow> string \<Rightarrow> calc_value \<Rightarrow> (string \<times> json) list \<Rightarrow> (string \<times> json) list option" where
  "set_cjson_field ty name v obj = (case ty of
       KR_TYPE_INT \<Rightarrow> do { w \<leftarrow> get_i v; Some (obj @ [(name, J_number (d_of_int (sint w)))]) }
     | KR_TYPE_LONG \<Rightarrow> do { w \<leftarrow> get_l v; Some (obj @ [(name, J_number (d_of_int (sint w)))]) }
     | KR_TYPE_DOUBLE \<Rightarrow> do { d \<leftarrow> get_d v; Some (obj @ [(name, J_number d)]) }
     | KR_TYPE_POINTER \<Rightarrow> Some (obj @ [(name, J_address)])
     | KR_TYPE_STRING \<Rightarrow> do { s \<leftarrow> get_s v; Some (obj @ [(name, J_string (case s of Some x \<Rightarrow> x | None \<Rightarrow> '' ''))]) }
     | _ \<Rightarrow> Some obj)"

text \<open>The field of a record, read by its type; for the other types nothing is added.\<close>

definition field_json :: "'d T_KRDB \<Rightarrow> rec_ptr \<Rightarrow> int \<Rightarrow> (string \<times> json) list \<Rightarrow> (string \<times> json) list option" where
  "field_json db r i obj = do {
     fd \<leftarrow> rec_field_def db r i;
     k \<leftarrow> field_object db r i;
     (if fd_type fd = KR_TYPE_POINTER then Some (obj @ [(fd_name fd, J_address)])
      else if fd_type fd \<in> {KR_TYPE_INT, KR_TYPE_LONG, KR_TYPE_DOUBLE, KR_TYPE_STRING}
      then set_cjson_field (fd_type fd) (fd_name fd) (obj_value (fd_type fd) k) obj
      else Some obj)
   }"

primrec fields_json :: "'d T_KRDB \<Rightarrow> rec_ptr \<Rightarrow> nat list \<Rightarrow> (string \<times> json) list \<Rightarrow> (string \<times> json) list option" where
  "fields_json db r [] obj = Some obj"
| "fields_json db r (i # is) obj = do { obj1 \<leftarrow> field_json db r (int i) obj; fields_json db r is obj1 }"

definition record_json :: "'d T_KRDB \<Rightarrow> rec_ptr \<Rightarrow> json option" where
  "record_json db r = do {
     (t, tb) \<leftarrow> rec_table db r;
     obj \<leftarrow> fields_json db r [0..<nat (tb_field_cnt tb)] [];
     Some (J_object obj)
   }"

primrec map_opt :: "('a \<Rightarrow> 'b option) \<Rightarrow> 'a list \<Rightarrow> 'b list option" where
  "map_opt f [] = Some []"
| "map_opt f (x # xs) = do { y \<leftarrow> f x; ys \<leftarrow> map_opt f xs; Some (y # ys) }"

definition j_int :: "int \<Rightarrow> json" where
  "j_int n = J_number (d_of_int n)"

definition ind_number :: "dump_order \<Rightarrow> E_KRValueInd \<Rightarrow> int" where
  "ind_number ord ind = (case ind of KR_VALUE_SETED \<Rightarrow> 49 | KR_VALUE_UNSET \<Rightarrow> do_unset ord)"

definition add_sdi :: "dump_order \<Rightarrow> 'd T_KRDB \<Rightarrow> T_KRSDI \<Rightarrow> json option" where
  "add_sdi ord db si = do {
     obj \<leftarrow> set_cjson_field (si_type si) ''value'' (si_value si)
       [(''id'', j_int (si_id si)), (''valueind'', j_int (ind_number ord (si_ind si)))];
     js \<leftarrow> map_opt (record_json db) (do_recs ord (si_related si));
     Some (J_object (obj @ [(''related'', J_array js)]))
   }"

definition add_ddi :: "dump_order \<Rightarrow> 'd T_KRDB \<Rightarrow> T_KRDDI \<Rightarrow> json option" where
  "add_ddi ord db di = do {
     obj \<leftarrow> set_cjson_field (di_type di) ''value'' (di_value di)
       [(''id'', j_int (di_id di)), (''valueind'', j_int (ind_number ord (di_ind di)))];
     js \<leftarrow> map_opt (record_json db) (do_recs ord (di_related di));
     Some (J_object (obj @ [(''related'', J_array js)]))
   }"

definition add_hdi :: "dump_order \<Rightarrow> T_KRHDI \<Rightarrow> json option" where
  "add_hdi ord hi = map_option J_object (set_cjson_field (hi_type hi) ''value'' (hi_value hi)
     [(''id'', j_int (hi_id hi)), (''valueind'', j_int (ind_number ord (hi_ind hi)))])"

text \<open>The calculator of a rule is dereferenced, whether it was evaluated or not.\<close>

definition add_rule :: "T_KRRule \<Rightarrow> json option" where
  "add_rule r = do {
     kc \<leftarrow> ru_calc r;
     v \<leftarrow> kr_calc_value kc;
     b \<leftarrow> get_b v;
     Some (J_object [(''id'', j_int (ru_id r)), (''name'', J_string (rd_name (ru_def r))), (''result'', j_int (sint b))])
   }"

text \<open>The items of a table in the order of its hash table.\<close>

definition in_order :: "dump_order \<Rightarrow> 'a item_table \<Rightarrow> 'a list option" where
  "in_order ord t = map_opt (map_of (it_items t)) (do_ids ord (map fst (it_items t)))"

definition kr_context_dump_json :: "dump_order \<Rightarrow> 'd T_KRContext \<Rightarrow> json option" where
  "kr_context_dump_json ord cx = do {
     g \<leftarrow> cx_group cx;
     x \<leftarrow> the_group g cx;
     c \<leftarrow> cx_curr cx;
     rec \<leftarrow> record_json (cx_db cx) c;
     rules \<leftarrow> map_opt add_rule (rl_rules (gr_rules x));
     sdis \<leftarrow> in_order ord (dy_sdis (cx_dym cx));
     js \<leftarrow> map_opt (add_sdi ord (cx_db cx)) sdis;
     ddis \<leftarrow> in_order ord (dy_ddis (cx_dym cx));
     jd \<leftarrow> map_opt (add_ddi ord (cx_db cx)) ddis;
     hdis \<leftarrow> in_order ord (dy_hdis (cx_dym cx));
     jh \<leftarrow> map_opt (add_hdi ord) hdis;
     Some (J_object [(''groupid'', j_int (gr_id x)), (''currec'', rec), (''rules'', J_array rules),
       (''datas'', J_object [(''sdis'', J_array js), (''ddis'', J_array jd), (''hdis'', J_array jh)])])
   }"

section \<open>Messages\<close>

datatype E_KRMsgType = KR_MSGTYPE_SUCCESS | KR_MSGTYPE_ERROR

text \<open>The body of a request is what the mapping functions of the tables read; that of a reply is the document before it is printed.\<close>

record 'd T_KRMessage =
  mg_type :: E_KRMsgType
  mg_method :: string
  mg_datasrc :: int
  mg_data :: 'd

record T_KRReply =
  re_type :: E_KRMsgType
  re_body :: "json option"

definition kr_engine_insert_event ::
  "'d T_KRMessage \<Rightarrow> T_KRReply \<Rightarrow> 'd T_KRContext \<Rightarrow> (T_KRReply \<times> 'd T_KRContext) option" where
  "kr_engine_insert_event apply_msg reply cx = do {
     (r, db) \<leftarrow> kr_db_insert (mg_datasrc apply_msg) (mg_data apply_msg) (cx_db cx);
     let cx1 = cx\<lparr>cx_db := db, cx_curr := r\<rparr>;
     if r = None then Some (reply\<lparr>re_type := KR_MSGTYPE_ERROR\<rparr>, cx1)
     else Some (reply\<lparr>re_type := KR_MSGTYPE_SUCCESS\<rparr>, cx1)
   }"

definition kr_engine_detect_event ::
  "'d T_KRContext calc_env \<Rightarrow> dump_order \<Rightarrow> 'd T_KRMessage \<Rightarrow> T_KRReply \<Rightarrow> 'd T_KRContext \<Rightarrow> (T_KRReply \<times> 'd T_KRContext) option" where
  "kr_engine_detect_event env ord apply_msg reply cx = do {
     (r, db) \<leftarrow> kr_db_insert (mg_datasrc apply_msg) (mg_data apply_msg) (cx_db cx);
     let cx1 = cx\<lparr>cx_db := db, cx_curr := r\<rparr>;
     if r = None then Some (reply\<lparr>re_type := KR_MSGTYPE_ERROR\<rparr>, cx1)
     else do {
       (ret, cx2) \<leftarrow> kr_engine_detect env cx1;
       if ret \<noteq> 0 then Some (reply\<lparr>re_type := KR_MSGTYPE_ERROR\<rparr>, cx2)
       else do {
         body \<leftarrow> kr_context_dump_json ord cx2;
         Some (reply\<lparr>re_type := KR_MSGTYPE_SUCCESS, re_body := Some body\<rparr>, cx2)
       }
     }
   }"

text \<open>
  The handles of the function table: the two above, and any other function, of which \<open>other\<close> says what
  it does. \<open>kr_engine_register_default\<close> registers these names.
\<close>

datatype kr_handle = H_detect_event | H_insert_event | H_other string

primrec kr_engine_register ::
  "(string \<times> kr_handle) list \<Rightarrow> kr_handle T_KRFuncTable \<Rightarrow> kr_handle T_KRFuncTable option" where
  "kr_engine_register [] ft = Some ft"
| "kr_engine_register (e # es) ft = do {
     (r, ft1) \<leftarrow> kr_functable_register ft (fst e) (Some (snd e));
     kr_engine_register es ft1
   }"

definition default_handles :: "(string \<times> kr_handle) list" where
  "default_handles = (''detect_event'', H_detect_event) # (''insert_event'', H_insert_event) #
     map (\<lambda>m. (m, H_other m)) [''info_engine'', ''info_log'', ''set_logpath'', ''set_logname'', ''set_loglevel'',
       ''info_krdb'', ''info_table'', ''info_index'', ''list_index_key'', ''reload_param'', ''info_param'', ''info_group'',
       ''info_rule'', ''info_set'', ''info_sdi'', ''info_ddi'', ''info_hdi'']"

definition kr_engine_register_default :: "kr_handle T_KRFuncTable \<Rightarrow> kr_handle T_KRFuncTable option" where
  "kr_engine_register_default ft = kr_engine_register default_handles ft"

type_synonym 'd other_handles =
  "string \<Rightarrow> 'd T_KRMessage \<Rightarrow> T_KRReply \<Rightarrow> 'd T_KRContext \<Rightarrow> (T_KRReply \<times> 'd T_KRContext) option"

definition run_handle ::
  "'d T_KRContext calc_env \<Rightarrow> dump_order \<Rightarrow> 'd other_handles \<Rightarrow> kr_handle \<Rightarrow> 'd T_KRMessage \<Rightarrow> T_KRReply \<Rightarrow>
   'd T_KRContext \<Rightarrow> (T_KRReply \<times> 'd T_KRContext) option" where
  "run_handle env ord other h apply_msg reply cx = (case h of
       H_detect_event \<Rightarrow> kr_engine_detect_event env ord apply_msg reply cx
     | H_insert_event \<Rightarrow> kr_engine_insert_event apply_msg reply cx
     | H_other m \<Rightarrow> other m apply_msg reply cx)"

text \<open>
  The reply that the callback gets and the context afterwards. An unusable context or an unknown
  method leaves the reply as the caller made it.
\<close>

definition kr_engine_handle ::
  "'d data_params \<Rightarrow> nat \<Rightarrow> dump_order \<Rightarrow> 'd other_handles \<Rightarrow> kr_handle T_KRFuncTable \<Rightarrow> nat \<Rightarrow> 'd T_KRMessage \<Rightarrow>
   T_KRReply \<Rightarrow> 'd T_KRContext \<Rightarrow> (T_KRReply \<times> 'd T_KRContext) option" where
  "kr_engine_handle pm n ord other ft arg apply_msg reply cx = do {
     (ret, cx1) \<leftarrow> kr_context_set pm (Some arg) cx;
     (reply1, cx2) \<leftarrow>
       (if ret \<noteq> 0 then Some (reply, cx1)
        else do {
          h \<leftarrow> kr_functable_search ft (mg_method apply_msg);
          (case h of
             None \<Rightarrow> Some (reply, cx1)
           | Some f \<Rightarrow> run_handle (data_env pm n) ord other f apply_msg reply cx1)
        });
     cx3 \<leftarrow> kr_context_clean cx2;
     Some (reply1, cx3)
   }"

end
