(* ===== verification/KR_Eval_Stable.thy ===== *)
theory KR_Eval_Stable
  imports KR_Data_Eval
begin

text \<open>
  Evaluation over callbacks that change the state, but not what the identifiers of the calculator
  mean: when an invariant fixes their types and values and every callback keeps it, the evaluation gives
  what it gives over the fixed values, and keeps the invariant.
\<close>

definition serves :: "'s calc_env \<Rightarrow> unit spec_env \<Rightarrow> ('s \<Rightarrow> bool) \<Rightarrow> (E_KRCalcKind \<times> int) set \<Rightarrow> bool" where
  "serves env se I N \<longleftrightarrow> regexec_fn env = rematch se \<and>
     (\<forall>k i s. (k, i) \<in> N \<and> I s \<longrightarrow> get_type_cb env k i s = Some (tyof se k i) \<and>
        (\<exists>s'. get_value_cb env k i s = Some (map_option val_of (fst (lookup se k i ())), s') \<and> I s'))"

lemma serves_subset: "serves env se I N \<Longrightarrow> N' \<subseteq> N \<Longrightarrow> serves env se I N'"
  unfolding serves_def by blast

lemma extern_stable:
  assumes a: "serves env se I N" and n: "(ct_kind t, ct_id t) \<in> N" and I: "I s"
  shows "\<exists>s'. I s' \<and> calc_tree_eval_extern env t (kc, s) = lift s' (calc_tree_eval_extern (pure_cbs se) t (kc, ()))"
proof -
  from a n I obtain s1 where ty: "get_type_cb env (ct_kind t) (ct_id t) s = Some (tyof se (ct_kind t) (ct_id t))"
    and val: "get_value_cb env (ct_kind t) (ct_id t) s = Some (map_option val_of (fst (lookup se (ct_kind t) (ct_id t) ())), s1)"
      "I s1"
    unfolding serves_def by blast
  have kind: "ct_kind (set_ind d t) = ct_kind t" "ct_id (set_ind d t) = ct_id t"
    "ct_kind (set_type y t) = ct_kind t" "ct_id (set_type y t) = ct_id t" for d y t
    by (cases t; simp)+
  define t1 where "t1 = set_ind KR_VALUE_UNSET t"
  have t1: "ct_kind t1 = ct_kind t" "ct_id t1 = ct_id t" by (simp_all add: t1_def kind)
  define t2 where "t2 = (if ct_type t1 = KR_TYPE_UNKNOWN then set_type (tyof se (ct_kind t) (ct_id t)) t1 else t1)"
  have t2: "ct_kind t2 = ct_kind t" "ct_id t2 = ct_id t" by (simp_all add: t2_def t1 kind)
  have pick: "(if ct_type t1 = KR_TYPE_UNKNOWN
      then map_option (\<lambda>ty. set_type ty t1) (get_type_cb env (ct_kind t1) (ct_id t1) s) else Some t1) = Some t2"
    "(if ct_type t1 = KR_TYPE_UNKNOWN
      then map_option (\<lambda>ty. set_type ty t1) (get_type_cb (pure_cbs se) (ct_kind t1) (ct_id t1) ()) else Some t1) = Some t2"
    by (simp_all add: t2_def t1 ty pure_cbs_def)
  have pv: "get_value_cb (pure_cbs se) (ct_kind t) (ct_id t) () =
      Some (map_option val_of (fst (lookup se (ct_kind t) (ct_id t) ())), ())"
    by (simp add: pure_cbs_def)
  define s' where "s' = (if ct_type t2 = KR_TYPE_UNKNOWN then s else s1)"
  have "calc_tree_eval_extern env t (kc, s) = lift s' (calc_tree_eval_extern (pure_cbs se) t (kc, ()))"
    unfolding calc_tree_eval_extern_def Let_def t1_def [symmetric] snd_conv fst_conv pick bind.bind_lunit t2 val(1) pv prod.case
    by (cases "ct_type t2 = KR_TYPE_UNKNOWN")
      (simp_all only: s'_def simp_thms if_True if_False lift_push)
  moreover have "I s'" using I val(2) by (simp add: s'_def)
  ultimately show ?thesis by blast
qed

lemma node_stable:
  assumes a: "serves env se I N" and n: "is_extern_kind (ct_kind t) \<Longrightarrow> (ct_kind t, ct_id t) \<in> N" and I: "I s"
  shows "\<exists>s'. I s' \<and> calc_tree_eval_node env t (kc, s) = lift s' (calc_tree_eval_node (pure_cbs se) t (kc, ()))"
proof (cases "is_extern_kind (ct_kind t)")
  case True
  from extern_stable [OF a n [OF True] I] True show ?thesis
    by (auto simp: calc_tree_eval_node_def is_extern_kind_def)
next
  case False
  have "regexec_fn env = regexec_fn (pure_cbs se)" using a by (simp add: serves_def pure_cbs_def)
  with False logic_lift [of env "pure_cbs se" t kc s] rel_lift [of t kc s] arith_lift [of t kc s] I
  show ?thesis by (intro exI [of _ s]) (auto simp: calc_tree_eval_node_def)
qed

lemma traverse_stable:
  "serves env se I (ext_nodes t) \<Longrightarrow> I s \<Longrightarrow>
   \<exists>s'. I s' \<and> kr_calc_tree_traverse (calc_tree_eval_node env) t (kc, s) =
     lift s' (kr_calc_tree_traverse (calc_tree_eval_node (pure_cbs se)) t (kc, ()))"
proof (induction t arbitrary: kc s)
  case (CalcTree cs k op i ty d v)
  have sub: "serves env se I (ext_nodes c)" if "c \<in> set cs" for c
    using that by (intro serves_subset [OF CalcTree.prems(1)]) auto
  have children: "set cs' \<subseteq> set cs \<Longrightarrow> I s \<Longrightarrow> \<exists>s'. I s' \<and> traverse_children (calc_tree_eval_node env) cs' (kc, s) =
      lift s' (traverse_children (calc_tree_eval_node (pure_cbs se)) cs' (kc, ()))" for cs' kc s
  proof (induction cs' arbitrary: kc s)
    case Nil
    then show ?case by auto
  next
    case (Cons c cs')
    have "c \<in> set cs" using Cons.prems by simp
    from CalcTree.IH [OF this sub [OF this] Cons.prems(2)] obtain s1 where s1: "I s1"
        "kr_calc_tree_traverse (calc_tree_eval_node env) c (kc, s) =
          lift s1 (kr_calc_tree_traverse (calc_tree_eval_node (pure_cbs se)) c (kc, ()))"
      by blast
    show ?case
    proof (cases "kr_calc_tree_traverse (calc_tree_eval_node (pure_cbs se)) c (kc, ())")
      case None
      with s1 show ?thesis by auto
    next
      case (Some x)
      obtain r c' kc' where x: "x = (r, c', kc', ())" by (metis prod.exhaust unit.exhaust)
      have "set cs' \<subseteq> set cs" using Cons.prems by simp
      from Cons.IH [OF this s1(1), of kc'] obtain s2 where s2: "I s2"
          "traverse_children (calc_tree_eval_node env) cs' (kc', s1) =
            lift s2 (traverse_children (calc_tree_eval_node (pure_cbs se)) cs' (kc', ()))"
        by blast
      show ?thesis
      proof (cases "r = 0")
        case True
        with Some x s1 s2 show ?thesis
          by (intro exI [of _ s2], cases "traverse_children (calc_tree_eval_node (pure_cbs se)) cs' (kc', ())") auto
      next
        case False
        with Some x s1 show ?thesis by (intro exI [of _ s1]) auto
      qed
    qed
  qed
  from children [OF order_refl CalcTree.prems(2), of kc] obtain s1 where s1: "I s1"
      "traverse_children (calc_tree_eval_node env) cs (kc, s) =
        lift s1 (traverse_children (calc_tree_eval_node (pure_cbs se)) cs (kc, ()))"
    by blast
  show ?case
  proof (cases "traverse_children (calc_tree_eval_node (pure_cbs se)) cs (kc, ())")
    case None
    with s1 show ?thesis by auto
  next
    case (Some x)
    obtain r cs' kc' where x: "x = (r, cs', kc', ())" by (metis prod.exhaust unit.exhaust)
    have "is_extern_kind (ct_kind (CalcTree cs' k op i ty d v)) \<Longrightarrow>
        (ct_kind (CalcTree cs' k op i ty d v), ct_id (CalcTree cs' k op i ty d v)) \<in> ext_nodes (CalcTree cs k op i ty d v)"
      by simp
    from node_stable [OF CalcTree.prems(1) this s1(1), of kc'] obtain s2 where s2: "I s2"
        "calc_tree_eval_node env (CalcTree cs' k op i ty d v) (kc', s1) =
          lift s2 (calc_tree_eval_node (pure_cbs se) (CalcTree cs' k op i ty d v) (kc', ()))"
      by blast
    show ?thesis
    proof (cases "r = 0")
      case True
      with Some x s1 s2 show ?thesis
        by (intro exI [of _ s2], cases "calc_tree_eval_node (pure_cbs se) (CalcTree cs' k op i ty d v) (kc', ())") (auto simp: Let_def)
    next
      case False
      with Some x s1 show ?thesis by (intro exI [of _ s1]) (auto simp: Let_def)
    qed
  qed
qed

text \<open>A condition over such callbacks.\<close>

lemma cond_eval_stable:
  assumes "typed_lookup se" and "calc_tree kc = Some t" and "reps se e t"
    and "serves env se I (exts e)" and "I s" and "cond_holds se e = Some b"
  shows "\<exists>kc' t' s'. kr_calc_eval env kc s = Some (0, kc', s') \<and> I s' \<and> calc_tree kc' = Some t' \<and> reps se e t' \<and>
    filter_outcome 0 kc' = Some (Inr b) \<and>
    kr_calc_type kc' = Some KR_TYPE_BOOL \<and> kr_calc_ind kc' = Some KR_VALUE_SETED \<and>
    (\<exists>w. kr_calc_value kc' = Some (V_b w) \<and> b = (w \<noteq> 0))"
proof -
  from assms(6) obtain w u where d: "den se e () = Some (D_val (CBool w), u)" "b = (w \<noteq> 0)"
    by (auto simp: cond_holds_def split: option.splits dres.splits cval.splits)
  have "serves env se I (ext_nodes t)" using assms(4) by (simp add: reps_ext_nodes [OF assms(3)])
  from traverse_stable [OF this assms(5), of kc] obtain s' where s': "I s'" "kr_calc_tree_traverse (calc_tree_eval_node env) t (kc, s) =
      lift s' (kr_calc_tree_traverse (calc_tree_eval_node (pure_cbs se)) t (kc, ()))"
    by blast
  then have l: "kr_calc_eval env kc s = map_option (\<lambda>(c, k, _). (c, k, s')) (kr_calc_eval (pure_cbs se) kc ())"
    using assms(2) by (cases "kr_calc_tree_traverse (calc_tree_eval_node (pure_cbs se)) t (kc, ())")
      (auto simp: kr_calc_eval_def kr_calc_tree_eval_def)
  show ?thesis
  proof (cases rule: calc_eval_cases [OF pure_rep [OF assms(1)] assms(2,3), of "()", case_names undef fails returns])
    case undef
    with d show ?thesis by simp
  next
    case (fails kc' s'' t')
    with d show ?thesis by simp
  next
    case (returns r kc' s'' t')
    with d l s'(1) show ?thesis
      by (simp add: filter_outcome_def kr_calc_type_def kr_calc_ind_def kr_calc_value_def node_res_def)
  qed
qed

end
