(* ===== verification/KR_Engine_Spec.thy ===== *)
theory KR_Engine_Spec
  imports KR_Engine KR_Eval_Stable
begin

text \<open>
  Detection over callbacks under which the identifiers keep their meaning: the group routed to is the
  first one whose condition holds, and its rules are judged by their conditions.
\<close>

section \<open>Writing groups and rules\<close>

definition set_groups :: "T_KRGroupList \<Rightarrow> nat option \<Rightarrow> 'd T_KRContext \<Rightarrow> 'd T_KRContext" where
  "set_groups gl g cx = cx\<lparr>cx_dym := (cx_dym cx)\<lparr>dy_groups := gl\<rparr>, cx_group := g\<rparr>"

definition groups_of :: "'d T_KRContext \<Rightarrow> T_KRGroup list" where
  "groups_of cx = gl_groups (dy_groups (cx_dym cx))"

lemma set_groups_simps [simp]:
  "cx_db (set_groups gl g cx) = cx_db cx" "cx_curr (set_groups gl g cx) = cx_curr cx" "cx_group (set_groups gl g cx) = g"
  "dy_groups (cx_dym (set_groups gl g cx)) = gl" "set_groups gl g (set_groups gl' g' cx) = set_groups gl g cx"
  "set_groups (dy_groups (cx_dym cx)) (cx_group cx) cx = cx" "groups_of (set_groups gl g cx) = gl_groups gl"
  by (simp_all add: set_groups_def groups_of_def)

text \<open>A context whose groups are \<open>gs\<close>, with the group pointer \<open>g\<close>.\<close>

definition with_groups :: "T_KRGroup list \<Rightarrow> nat option \<Rightarrow> 'd T_KRContext \<Rightarrow> 'd T_KRContext" where
  "with_groups gs g cx = set_groups ((dy_groups (cx_dym cx))\<lparr>gl_groups := gs\<rparr>) g cx"

lemma with_groups_simps [simp]:
  "cx_db (with_groups gs g cx) = cx_db cx" "cx_curr (with_groups gs g cx) = cx_curr cx" "cx_group (with_groups gs g cx) = g"
  "groups_of (with_groups gs g cx) = gs" "with_groups gs g (with_groups gs' g' cx) = with_groups gs g cx"
  "with_groups (groups_of cx) (cx_group cx) cx = cx" "(with_groups gs g cx)\<lparr>cx_group := g'\<rparr> = with_groups gs g' cx"
  by (simp_all add: with_groups_def set_groups_def groups_of_def)

lemma the_group_with [simp]: "the_group i (with_groups gs g cx) = nth_opt gs i"
  by (simp add: the_group_def with_groups_def set_groups_def)

lemma put_group_with [simp]: "put_group i x (with_groups gs g cx) = with_groups (gs[i := x]) g cx"
  by (simp add: put_group_def with_groups_def set_groups_def Let_def)

lemma the_rule_with: "the_rule i j (with_groups gs g cx) = do { x \<leftarrow> nth_opt gs i; nth_opt (rl_rules (gr_rules x)) j }"
  by (simp add: the_rule_def)

definition set_rule :: "nat \<Rightarrow> T_KRRule \<Rightarrow> T_KRGroup \<Rightarrow> T_KRGroup" where
  "set_rule j r x = x\<lparr>gr_rules := (gr_rules x)\<lparr>rl_rules := (rl_rules (gr_rules x))[j := r]\<rparr>\<rparr>"

lemma put_rule_with:
  "put_rule i j r (with_groups gs g cx) = do { x \<leftarrow> nth_opt gs i; Some (with_groups (gs[i := set_rule j r x]) g cx) }"
  by (simp add: put_rule_def set_rule_def Let_def)

section \<open>Steady callbacks\<close>

text \<open>
  The callbacks mean \<open>se\<close> as long as \<open>I\<close> holds, and touch neither the groups nor the routed group; \<open>I\<close> does not
  depend on these. The current record is \<open>c\<close>, of the table \<open>tb\<close>.
\<close>

definition steady ::
  "'d T_KRContext calc_env \<Rightarrow> unit spec_env \<Rightarrow> ('d T_KRContext \<Rightarrow> bool) \<Rightarrow> (E_KRCalcKind \<times> int) set \<Rightarrow> rec_ptr \<Rightarrow> int \<Rightarrow> bool" where
  "steady env se I N c tid \<longleftrightarrow> typed_lookup se \<and>
     (\<forall>gl g. serves env se (\<lambda>s. I s \<and> dy_groups (cx_dym s) = gl \<and> cx_group s = g) N) \<and>
     (\<forall>s gl g. I s \<longrightarrow> I (set_groups gl g s)) \<and>
     (\<forall>s. I s \<longrightarrow> cx_curr s = Some c \<and> (\<exists>t tb. rec_table (cx_db s) c = Some (t, tb) \<and> tb_id tb = tid))"

lemma steady_with: "steady env se I N c tid \<Longrightarrow> I s \<Longrightarrow> I (with_groups gs g s)"
  by (simp add: steady_def with_groups_def)

text \<open>The calculator stands for the condition, which has an outcome.\<close>

definition calc_for :: "unit spec_env \<Rightarrow> (E_KRCalcKind \<times> int) set \<Rightarrow> T_KRCalc option \<Rightarrow> cexp \<Rightarrow> bool" where
  "calc_for se N kc e \<longleftrightarrow> (\<exists>k t. kc = Some k \<and> calc_tree k = Some t \<and> reps se e t) \<and> exts e \<subseteq> N \<and> cond_holds se e \<noteq> None"

definition holds :: "unit spec_env \<Rightarrow> cexp \<Rightarrow> bool" where
  "holds se e \<longleftrightarrow> cond_holds se e = Some True"

lemma steady_eval:
  assumes s: "steady env se I N c tid" and I: "I s" and k: "calc_for se N (Some k) e"
  shows "\<exists>k' s'. kr_calc_eval env k (with_groups gs g s) = Some (0, k', with_groups gs g s') \<and> I s' \<and>
    calc_for se N (Some k') e \<and> calc_fires k' = Some (holds se e)"
proof -
  let ?s = "with_groups gs g s"
  let ?J = "\<lambda>x. I x \<and> dy_groups (cx_dym x) = dy_groups (cx_dym ?s) \<and> cx_group x = cx_group ?s"
  from k obtain t b where t: "calc_tree k = Some t" "reps se e t" "exts e \<subseteq> N" "cond_holds se e = Some b"
    by (auto simp: calc_for_def)
  have "serves env se ?J N" using s unfolding steady_def by blast
  then have sv: "serves env se ?J (exts e)" by (rule serves_subset [OF _ t(3)])
  have J: "?J ?s" using steady_with [OF s I] by simp
  have ty: "typed_lookup se" using s by (simp add: steady_def)
  from cond_eval_stable [OF ty t(1,2) sv J t(4)] obtain k' t' s' w where e: "kr_calc_eval env k ?s = Some (0, k', s')" "?J s'"
      "calc_tree k' = Some t'" "reps se e t'" "kr_calc_type k' = Some KR_TYPE_BOOL" "kr_calc_ind k' = Some KR_VALUE_SETED"
      "kr_calc_value k' = Some (V_b w)" "b = (w \<noteq> 0)"
    by blast
  have "dy_groups (cx_dym s')\<lparr>gl_groups := gs\<rparr> = dy_groups (cx_dym s')" using e(2) by (simp add: with_groups_def)
  then have s': "with_groups gs g s' = s'" using e(2) by (simp add: with_groups_def set_groups_def)
  have "calc_fires k' = Some (holds se e)"
    using e(5-8) t(4) by (simp add: calc_fires_def holds_def)
  with e t s' show ?thesis by (intro exI [of _ k'] exI [of _ s']) (simp add: calc_for_def)
qed

section \<open>Rules\<close>

definition judged :: "unit spec_env \<Rightarrow> int \<Rightarrow> T_KRRule \<Rightarrow> cexp \<Rightarrow> bool" where
  "judged se tid r e \<longleftrightarrow> rd_datasrc (ru_def r) = tid \<and> holds se e"

text \<open>The same rule, with the outcome.\<close>

definition outcome_of :: "unit spec_env \<Rightarrow> (E_KRCalcKind \<times> int) set \<Rightarrow> bool \<Rightarrow> cexp \<Rightarrow> T_KRRule \<Rightarrow> T_KRRule \<Rightarrow> bool" where
  "outcome_of se N b e r r' \<longleftrightarrow> ru_def r' = ru_def r \<and> ru_id r' = ru_id r \<and> ru_weight r' = ru_weight r \<and>
     ru_violated r' = b \<and> ru_related r' = {} \<and> calc_for se N (ru_calc r') e"

lemma rule_detect_spec:
  assumes s: "steady env se I N c tid" and I: "I s" and g: "i < length gs" "j < length (rl_rules (gr_rules (gs ! i)))"
    and r: "r = rl_rules (gr_rules (gs ! i)) ! j" and k: "calc_for se N (ru_calc r) e"
  shows "\<exists>s' r'. kr_rule_detect env i j (with_groups gs p s) =
      Some (if judged se tid r e then 1 else 0, with_groups (gs[i := set_rule j r' (gs ! i)]) p s') \<and> I s' \<and>
    outcome_of se N (judged se tid r e) e r r'"
proof -
  define r0 where "r0 = kr_rule_init r"
  define gs0 where "gs0 = gs[i := set_rule j r0 (gs ! i)]"
  have r0: "ru_def r0 = ru_def r" "ru_id r0 = ru_id r" "ru_weight r0 = ru_weight r" "ru_violated r0 = False" "ru_related r0 = {}"
    "ru_calc r0 = ru_calc r"
    by (simp_all add: r0_def kr_rule_init_def)
  have n: "nth_opt gs i = Some (gs ! i)" "nth_opt (rl_rules (gr_rules (gs ! i))) j = Some r"
    using g r by (simp_all add: nth_opt_def)
  from s I obtain t tb where c: "cx_curr s = Some c" "rec_table (cx_db s) c = Some (t, tb)" "tb_id tb = tid"
    by (auto simp: steady_def)
  have n0: "nth_opt gs0 i = Some (set_rule j r0 (gs ! i))" "nth_opt (rl_rules (gr_rules (set_rule j r0 (gs ! i)))) j = Some r0"
    using g by (simp_all add: nth_opt_def gs0_def set_rule_def)
  have twice: "gs0[i := set_rule j r' (set_rule j r0 (gs ! i))] = gs[i := set_rule j r' (gs ! i)]" for r'
    by (simp add: gs0_def set_rule_def)
  show ?thesis
  proof (cases "tid = rd_datasrc (ru_def r)")
    case False
    then have "kr_rule_detect env i j (with_groups gs p s) = Some (0, with_groups gs0 p s)"
      using n c by (simp add: kr_rule_detect_def the_rule_with put_rule_with r0_def [symmetric] r0(1) gs0_def [symmetric])
    with False I r0 k show ?thesis
      by (intro exI [of _ s] exI [of _ r0]) (simp add: judged_def outcome_of_def gs0_def)
  next
    case True
    from k obtain kc where kc: "ru_calc r = Some kc" by (auto simp: calc_for_def)
    from steady_eval [OF s I, of kc e gs0 p] k kc obtain k' s' where e:
        "kr_calc_eval env kc (with_groups gs0 p s) = Some (0, k', with_groups gs0 p s')" "I s'" "calc_for se N (Some k') e"
        "calc_fires k' = Some (holds se e)"
      by auto
    let ?r1 = "r0\<lparr>ru_calc := Some k', ru_violated := holds se e\<rparr>"
    have still: "r0\<lparr>ru_calc := Some k', ru_violated := False\<rparr> = r0\<lparr>ru_calc := Some k'\<rparr>" using r0(4) by (cases r0) simp
    have "kr_rule_detect env i j (with_groups gs p s) =
        Some (if holds se e then 1 else 0, with_groups (gs[i := set_rule j ?r1 (gs ! i)]) p s')"
      using n n0 c True e kc
      by (cases "holds se e")
        (simp_all add: kr_rule_detect_def the_rule_with put_rule_with r0_def [symmetric] r0 gs0_def [symmetric] twice still)
    moreover have "outcome_of se N (judged se tid r e) e r ?r1" using r0 e(3) True by (simp add: outcome_of_def judged_def)
    ultimately show ?thesis using e(2) True by (intro exI [of _ s'] exI [of _ ?r1]) (simp add: judged_def)
  qed
qed

text \<open>The rules that fire, with their conditions.\<close>

definition fired :: "unit spec_env \<Rightarrow> int \<Rightarrow> (T_KRRule \<times> cexp) list \<Rightarrow> T_KRRule list" where
  "fired se tid rs = map fst (filter (\<lambda>(r, e). judged se tid r e) rs)"

lemma fired_simps [simp]:
  "fired se tid [] = []"
  "fired se tid ((r, e) # rs) = (if judged se tid r e then r # fired se tid rs else fired se tid rs)"
  by (simp_all add: fired_def)

definition weights :: "T_KRRule list \<Rightarrow> int" where
  "weights rs = sum_list (map ru_weight rs)"

definition counted :: "T_KRRule list \<Rightarrow> int \<Rightarrow> int \<Rightarrow> T_KRGroup \<Rightarrow> T_KRGroup" where
  "counted rs n w x = x\<lparr>gr_rules := (gr_rules x)\<lparr>rl_rules := rs, rl_fired := n, rl_weights := w\<rparr>\<rparr>"

lemma counted_simps [simp]:
  "gr_rules (counted rs n w x) = (gr_rules x)\<lparr>rl_rules := rs, rl_fired := n, rl_weights := w\<rparr>"
  "counted rs n w (counted rs' n' w' x) = counted rs n w x" "gr_calc (counted rs n w x) = gr_calc x" "gr_id (counted rs n w x) = gr_id x"
  by (simp_all add: counted_def)

definition sized :: "int \<Rightarrow> int \<Rightarrow> T_KRRule list \<Rightarrow> bool" where
  "sized n w rs \<longleftrightarrow> \<bar>n\<bar> + int (length rs) < 2 ^ 63 \<and> \<bar>w\<bar> + sum_list (map (\<lambda>r. \<bar>ru_weight r\<bar>) rs) < 2 ^ 63"

lemma sized_Cons:
  assumes "sized n w (r # rs)"
  shows "chk_long (n + 1) = Some (n + 1)" "chk_long (w + ru_weight r) = Some (w + ru_weight r)"
    "sized n w rs" "sized (n + 1) (w + ru_weight r) rs"
proof -
  have "0 \<le> sum_list (map (\<lambda>r. \<bar>ru_weight r\<bar>) rs)" by (intro sum_list_nonneg) auto
  with assms show "chk_long (n + 1) = Some (n + 1)" "chk_long (w + ru_weight r) = Some (w + ru_weight r)"
    "sized n w rs" "sized (n + 1) (w + ru_weight r) rs"
    by (auto simp: sized_def chk_long_def)
qed

lemma rule_walk_spec:
  assumes s: "steady env se I N c tid"
  shows "I s \<Longrightarrow> i < length gs \<Longrightarrow> list_all2 (\<lambda>r e. calc_for se N (ru_calc r) e) rs es \<Longrightarrow> sized n w rs \<Longrightarrow>
    \<exists>s' rs'. rule_walk env i [length rs0..<length rs0 + length rs] (with_groups (gs[i := counted (rs0 @ rs) n w x]) p s) =
      Some (0, with_groups (gs[i := counted (rs0 @ rs') (n + int (length (fired se tid (zip rs es))))
        (w + weights (fired se tid (zip rs es))) x]) p s') \<and> I s' \<and>
    list_all2 (\<lambda>(r, e) r'. outcome_of se N (judged se tid r e) e r r') (zip rs es) rs'"
proof (induction rs arbitrary: es rs0 n w s)
  case Nil
  then show ?case by (intro exI [of _ s] exI [of _ "[]"]) (simp add: weights_def)
next
  case (Cons r rs)
  from Cons.prems(3) obtain e es' where es: "es = e # es'" "calc_for se N (ru_calc r) e"
      "list_all2 (\<lambda>r e. calc_for se N (ru_calc r) e) rs es'"
    by (cases es) auto
  note z = sized_Cons [OF Cons.prems(4)]
  let ?gs = "gs[i := counted (rs0 @ r # rs) n w x]"
  have nth: "?gs ! i = counted (rs0 @ r # rs) n w x" using Cons.prems(2) by simp
  have "i < length ?gs" "length rs0 < length (rl_rules (gr_rules (?gs ! i)))" "r = rl_rules (gr_rules (?gs ! i)) ! length rs0"
    using Cons.prems(2) by (simp_all add: nth)
  from rule_detect_spec [OF s Cons.prems(1) this es(2), of p] obtain s1 r1 where
      d: "kr_rule_detect env i (length rs0) (with_groups ?gs p s) =
        Some (if judged se tid r e then 1 else 0, with_groups (?gs[i := set_rule (length rs0) r1 (?gs ! i)]) p s1)" "I s1"
      "outcome_of se N (judged se tid r e) e r r1"
    by blast
  have g1: "?gs[i := set_rule (length rs0) r1 (?gs ! i)] = gs[i := counted ((rs0 @ [r1]) @ rs) n w x]"
    unfolding nth by (cases "gr_rules x") (simp add: set_rule_def counted_def)
  have wt: "ru_weight r1 = ru_weight r" using d(3) by (simp add: outcome_of_def)
  have upt: "[length rs0..<length rs0 + length (r # rs)] = length rs0 # [length (rs0 @ [r1])..<length (rs0 @ [r1]) + length rs]"
    by (simp add: upt_rec)
  show ?case
  proof (cases "judged se tid r e")
    case False
    from Cons.IH [OF d(2) Cons.prems(2) es(3) z(3), of "rs0 @ [r1]"] obtain s' rs' where ih:
        "rule_walk env i [length (rs0 @ [r1])..<length (rs0 @ [r1]) + length rs] (with_groups (gs[i := counted ((rs0 @ [r1]) @ rs) n w x]) p s1) =
          Some (0, with_groups (gs[i := counted ((rs0 @ [r1]) @ rs') (n + int (length (fired se tid (zip rs es'))))
            (w + weights (fired se tid (zip rs es'))) x]) p s')" "I s'"
        "list_all2 (\<lambda>(r, e) r'. outcome_of se N (judged se tid r e) e r r') (zip rs es') rs'"
      by blast
    have "rule_walk env i [length rs0..<length rs0 + length (r # rs)] (with_groups ?gs p s) =
        Some (0, with_groups (gs[i := counted ((rs0 @ [r1]) @ rs') (n + int (length (fired se tid (zip rs es'))))
            (w + weights (fired se tid (zip rs es'))) x]) p s')"
      unfolding upt rule_walk.simps d(1) g1 using ih(1) False by simp
    then show ?thesis using False ih(2,3) d(3) es(1)
      by (intro exI [of _ s'] exI [of _ "r1 # rs'"]) simp
  next
    case True
    from Cons.IH [OF d(2) Cons.prems(2) es(3) z(4), of "rs0 @ [r1]"] obtain s' rs' where ih:
        "rule_walk env i [length (rs0 @ [r1])..<length (rs0 @ [r1]) + length rs]
          (with_groups (gs[i := counted ((rs0 @ [r1]) @ rs) (n + 1) (w + ru_weight r) x]) p s1) =
          Some (0, with_groups (gs[i := counted ((rs0 @ [r1]) @ rs') (n + 1 + int (length (fired se tid (zip rs es'))))
            (w + ru_weight r + weights (fired se tid (zip rs es'))) x]) p s')" "I s'"
        "list_all2 (\<lambda>(r, e) r'. outcome_of se N (judged se tid r e) e r r') (zip rs es') rs'"
      by blast
    have cf: "count_fired i (length rs0) (with_groups (gs[i := counted ((rs0 @ [r1]) @ rs) n w x]) p s1) =
        Some (with_groups (gs[i := counted ((rs0 @ [r1]) @ rs) (n + 1) (w + ru_weight r) x]) p s1)"
      using Cons.prems(2) z(1,2) wt by (simp add: count_fired_def the_rule_with nth_opt_def, cases "gr_rules x") (simp add: counted_def)
    have "rule_walk env i [length rs0..<length rs0 + length (r # rs)] (with_groups ?gs p s) =
        Some (0, with_groups (gs[i := counted ((rs0 @ [r1]) @ rs') (n + 1 + int (length (fired se tid (zip rs es'))))
            (w + ru_weight r + weights (fired se tid (zip rs es'))) x]) p s')"
      unfolding upt rule_walk.simps d(1) g1 using ih(1) True cf by simp
    then show ?thesis using True ih(2,3) d(3) es(1)
      by (intro exI [of _ s'] exI [of _ "r1 # rs'"]) (simp add: weights_def algebra_simps)
  qed
qed

section \<open>Groups\<close>

text \<open>The groups stand for their conditions: that of the group, and those of its rules.\<close>

definition group_for :: "unit spec_env \<Rightarrow> (E_KRCalcKind \<times> int) set \<Rightarrow> T_KRGroup \<Rightarrow> cexp \<times> cexp list \<Rightarrow> bool" where
  "group_for se N x e \<longleftrightarrow> calc_for se N (gr_calc x) (fst e) \<and>
     list_all2 (\<lambda>r e. calc_for se N (ru_calc r) e) (rl_rules (gr_rules x)) (snd e) \<and> rl_cnt (gr_rules x) \<noteq> 0 \<and>
     sized 0 0 (rl_rules (gr_rules x))"

text \<open>The group routed to, after its rules were judged.\<close>

definition group_done :: "unit spec_env \<Rightarrow> (E_KRCalcKind \<times> int) set \<Rightarrow> int \<Rightarrow> cexp list \<Rightarrow> T_KRGroup \<Rightarrow> T_KRGroup \<Rightarrow> bool" where
  "group_done se N tid es x x' \<longleftrightarrow> (let rs = zip (rl_rules (gr_rules x)) es; f = fired se tid rs in
     gr_def x' = gr_def x \<and> gr_id x' = gr_id x \<and> rl_fired (gr_rules x') = int (length f) \<and> rl_weights (gr_rules x') = weights f \<and>
     list_all2 (\<lambda>(r, e) r'. outcome_of se N (judged se tid r e) e r r') rs (rl_rules (gr_rules x')))"

lemma init_facts:
  "judged se tid (kr_rule_init r) e = judged se tid r e" "outcome_of se N b e (kr_rule_init r) r' = outcome_of se N b e r r'"
  "ru_calc (kr_rule_init r) = ru_calc r" "ru_weight (kr_rule_init r) = ru_weight r"
  by (simp_all add: kr_rule_init_def judged_def outcome_of_def)

lemma fired_init:
  "fired se tid (zip (map kr_rule_init rs) es) = map kr_rule_init (fired se tid (zip rs es))"
  by (induction rs es rule: list_induct2') (simp_all add: init_facts)

lemma rule_list_detect_spec:
  assumes s: "steady env se I N c tid" and I: "I s" and i: "i < length gs" and g: "group_for se N (gs ! i) (e, es)"
  shows "\<exists>s' x'. kr_rule_list_detect env i (with_groups gs p s) = Some (0, with_groups (gs[i := x']) p s') \<and> I s' \<and>
    group_done se N tid es (gs ! i) x'"
proof -
  let ?x = "gs ! i"
  let ?rs = "rl_rules (gr_rules ?x)"
  have init: "?x\<lparr>gr_rules := kr_rule_list_init (gr_rules ?x)\<rparr> = counted (map kr_rule_init ?rs) 0 0 ?x"
    by (cases "gr_rules ?x") (simp add: counted_def kr_rule_list_init_def)
  have l: "list_all2 (\<lambda>r e. calc_for se N (ru_calc r) e) (map kr_rule_init ?rs) es"
    using g by (simp add: group_for_def list_all2_map1 init_facts)
  have z: "sized 0 0 (map kr_rule_init ?rs)" using g by (simp add: group_for_def sized_def init_facts comp_def)
  from rule_walk_spec [OF s I i l z, of "[]" ?x p] obtain s' rs' where w:
      "rule_walk env i [0..<length ?rs] (with_groups (gs[i := counted (map kr_rule_init ?rs) 0 0 ?x]) p s) =
        Some (0, with_groups (gs[i := counted rs' (int (length (fired se tid (zip ?rs es)))) (weights (fired se tid (zip ?rs es))) ?x]) p s')"
      "I s'" "list_all2 (\<lambda>(r, e) r'. outcome_of se N (judged se tid r e) e r r') (zip (map kr_rule_init ?rs) es) rs'"
    by (auto simp: fired_init weights_def comp_def init_facts)
  have "cx_curr s \<noteq> None" using s I by (auto simp: steady_def)
  then have "kr_rule_list_detect env i (with_groups gs p s) =
      Some (0, with_groups (gs[i := counted rs' (int (length (fired se tid (zip ?rs es)))) (weights (fired se tid (zip ?rs es))) ?x]) p s')"
    using i g w(1) init by (simp add: kr_rule_list_detect_def nth_opt_def group_for_def Let_def)
  moreover have "zip (map kr_rule_init ?rs) es = map (\<lambda>(r, e). (kr_rule_init r, e)) (zip ?rs es)"
    by (simp add: zip_map1)
  with w(3) have "list_all2 (\<lambda>(r, e) r'. outcome_of se N (judged se tid r e) e r r') (zip ?rs es) rs'"
    by (simp add: list_all2_map1 split_def init_facts)
  then have "group_done se N tid es ?x (counted rs' (int (length (fired se tid (zip ?rs es)))) (weights (fired se tid (zip ?rs es))) ?x)"
    by (simp add: group_done_def Let_def) (simp add: counted_def)
  ultimately show ?thesis using w(2) by blast
qed

lemma group_match_spec:
  assumes s: "steady env se I N c tid" and I: "I s" and i: "i < length gs" and g: "group_for se N (gs ! i) (e, es)"
  shows "\<exists>s' k'. kr_group_match env i (with_groups gs p s) =
      Some (if holds se e then 1 else 0, with_groups (gs[i := (gs ! i)\<lparr>gr_calc := Some k'\<rparr>]) p s') \<and> I s' \<and>
    calc_for se N (Some k') e"
proof -
  from g obtain k where k: "gr_calc (gs ! i) = Some k" "calc_for se N (Some k) e"
    by (cases "gr_calc (gs ! i)") (auto simp: group_for_def calc_for_def)
  from steady_eval [OF s I k(2), of gs p] obtain k' s' where "kr_calc_eval env k (with_groups gs p s) = Some (0, k', with_groups gs p s')"
      "I s'" "calc_for se N (Some k') e" "calc_fires k' = Some (holds se e)"
    by blast
  with i k(1) show ?thesis
    by (intro exI [of _ s'] exI [of _ k']) (simp add: kr_group_match_def nth_opt_def Let_def)
qed

text \<open>What the walk leaves of the groups: only calculators change but for the group routed to.\<close>

definition walked ::
  "unit spec_env \<Rightarrow> (E_KRCalcKind \<times> int) set \<Rightarrow> int \<Rightarrow> (cexp \<times> cexp list) list \<Rightarrow> nat option \<Rightarrow> T_KRGroup list \<Rightarrow> T_KRGroup list \<Rightarrow> bool" where
  "walked se N tid es m gs gs' \<longleftrightarrow> length gs' = length gs \<and>
     (\<forall>k < length gs. if m = Some k then group_done se N tid (snd (es ! k)) (gs ! k) (gs' ! k)
                     else gr_rules (gs' ! k) = gr_rules (gs ! k) \<and> gr_def (gs' ! k) = gr_def (gs ! k) \<and> gr_id (gs' ! k) = gr_id (gs ! k))"

lemma walked_after_match:
  assumes "walked se N tid es m (gs[i := (gs ! i)\<lparr>gr_calc := kc\<rparr>]) gs'"
  shows "walked se N tid es m gs gs'"
  unfolding walked_def
proof (intro conjI allI impI)
  show "length gs' = length gs" using assms by (simp add: walked_def)
  fix k assume k: "k < length gs"
  have e: "gr_rules (gs[i := (gs ! i)\<lparr>gr_calc := kc\<rparr>] ! k) = gr_rules (gs ! k)" "gr_def (gs[i := (gs ! i)\<lparr>gr_calc := kc\<rparr>] ! k) = gr_def (gs ! k)"
    "gr_id (gs[i := (gs ! i)\<lparr>gr_calc := kc\<rparr>] ! k) = gr_id (gs ! k)"
    by (cases "i = k"; simp add: k)+
  from assms k have "if m = Some k then group_done se N tid (snd (es ! k)) (gs[i := (gs ! i)\<lparr>gr_calc := kc\<rparr>] ! k) (gs' ! k)
      else gr_rules (gs' ! k) = gr_rules (gs[i := (gs ! i)\<lparr>gr_calc := kc\<rparr>] ! k) \<and> gr_def (gs' ! k) = gr_def (gs[i := (gs ! i)\<lparr>gr_calc := kc\<rparr>] ! k) \<and>
        gr_id (gs' ! k) = gr_id (gs[i := (gs ! i)\<lparr>gr_calc := kc\<rparr>] ! k)"
    by (simp add: walked_def)
  then show "if m = Some k then group_done se N tid (snd (es ! k)) (gs ! k) (gs' ! k)
      else gr_rules (gs' ! k) = gr_rules (gs ! k) \<and> gr_def (gs' ! k) = gr_def (gs ! k) \<and> gr_id (gs' ! k) = gr_id (gs ! k)"
    unfolding group_done_def e .
qed

lemma group_walk_spec:
  assumes s: "steady env se I N c tid"
  shows "I s \<Longrightarrow> list_all2 (group_for se N) gs es \<Longrightarrow> \<forall>i \<in> set is. i < length gs \<Longrightarrow>
    \<exists>s' gs'. group_walk env is (with_groups gs p s) =
      Some (0, with_groups gs' (case find (\<lambda>i. holds se (fst (es ! i))) is of None \<Rightarrow> p | Some k \<Rightarrow> Some k) s') \<and> I s' \<and>
    walked se N tid es (find (\<lambda>i. holds se (fst (es ! i))) is) gs gs'"
proof (induction "is" arbitrary: gs s)
  case Nil
  then show ?case by (intro exI [of _ s] exI [of _ gs]) (simp add: walked_def)
next
  case (Cons i js)
  have i: "i < length gs" using Cons.prems(3) by simp
  have gi: "group_for se N (gs ! i) (fst (es ! i), snd (es ! i))" using Cons.prems(2) i by (simp add: list_all2_nthD)
  from group_match_spec [OF s Cons.prems(1) i gi, of p] obtain s1 k' where m:
      "kr_group_match env i (with_groups gs p s) =
        Some (if holds se (fst (es ! i)) then 1 else 0, with_groups (gs[i := (gs ! i)\<lparr>gr_calc := Some k'\<rparr>]) p s1)" "I s1"
      "calc_for se N (Some k') (fst (es ! i))"
    by blast
  let ?gs = "gs[i := (gs ! i)\<lparr>gr_calc := Some k'\<rparr>]"
  have g1: "group_for se N (?gs ! i) (fst (es ! i), snd (es ! i))" using gi m(3) i by (simp add: group_for_def)
  have all: "list_all2 (group_for se N) ?gs es"
    using Cons.prems(2) g1 i by (auto simp: list_all2_conv_all_nth nth_list_update)
  show ?case
  proof (cases "holds se (fst (es ! i))")
    case True
    have i': "i < length ?gs" using i by simp
    from rule_list_detect_spec [OF s m(2) i' g1, of "Some i"] obtain s' x' where d:
        "kr_rule_list_detect env i (with_groups ?gs (Some i) s1) = Some (0, with_groups (?gs[i := x']) (Some i) s')" "I s'"
        "group_done se N tid (snd (es ! i)) (?gs ! i) x'"
      by blast
    have "walked se N tid es (Some i) ?gs (?gs[i := x'])"
      using d(3) i by (simp add: walked_def nth_list_update)
    then have "walked se N tid es (Some i) gs (?gs[i := x'])" by (rule walked_after_match)
    with True m(1) d(1,2) show ?thesis
      by (intro exI [of _ s'] exI [of _ "?gs[i := x']"]) simp
  next
    case False
    have "\<forall>i \<in> set js. i < length ?gs" using Cons.prems(3) by simp
    from Cons.IH [OF m(2) all this] obtain s' gs' where w:
        "group_walk env js (with_groups ?gs p s1) =
          Some (0, with_groups gs' (case find (\<lambda>i. holds se (fst (es ! i))) js of None \<Rightarrow> p | Some k \<Rightarrow> Some k) s')" "I s'"
        "walked se N tid es (find (\<lambda>i. holds se (fst (es ! i))) js) ?gs gs'"
      by blast
    with False m(1) walked_after_match [OF w(3)] show ?thesis
      by (intro exI [of _ s'] exI [of _ gs']) simp
  qed
qed

text \<open>Detection as a whole.\<close>

definition routed :: "unit spec_env \<Rightarrow> (cexp \<times> cexp list) list \<Rightarrow> nat option" where
  "routed se es = find (\<lambda>i. holds se (fst (es ! i))) [0..<length es]"

lemma engine_detect_spec:
  assumes s: "steady env se I N c tid" and I: "I cx" and g: "list_all2 (group_for se N) (groups_of cx) es"
    and n: "gl_cnt (dy_groups (cx_dym cx)) \<noteq> 0"
  shows "\<exists>cx'. kr_engine_detect env cx = Some (0, cx') \<and> I cx' \<and>
    cx_group cx' = (case routed se es of None \<Rightarrow> cx_group cx | Some k \<Rightarrow> Some k) \<and>
    walked se N tid es (routed se es) (groups_of cx) (groups_of cx')"
proof -
  have len: "length es = length (groups_of cx)" using g by (simp add: list_all2_lengthD)
  have "\<forall>i \<in> set [0..<length (groups_of cx)]. i < length (groups_of cx)" by simp
  from group_walk_spec [OF s I g this, of "cx_group cx"] obtain s' gs' where w:
      "group_walk env [0..<length (groups_of cx)] cx = Some (0, with_groups gs' (case routed se es of None \<Rightarrow> cx_group cx | Some k \<Rightarrow> Some k) s')"
      "I s'" "walked se N tid es (routed se es) (groups_of cx) gs'"
    by (auto simp: routed_def len)
  have "cx_curr cx \<noteq> None" using s I by (auto simp: steady_def)
  with w n steady_with [OF s w(2)] show ?thesis
    by (intro exI [of _ "with_groups gs' (case routed se es of None \<Rightarrow> cx_group cx | Some k \<Rightarrow> Some k) s'"])
      (simp add: kr_engine_detect_def groups_of_def [of cx, symmetric])
qed

end
