(* ===== verification/KR_Engine_Items.thy ===== *)
theory KR_Engine_Items
  imports KR_Engine_Spec
begin

text \<open>
  The identifiers of the conditions of groups and rules: fields of the current record, sets, and
  dynamic items, which are computed when they are first asked for and keep their value afterwards.
\<close>

section \<open>The value of an item for the current record\<close>

text \<open>
  Asking for the item \<open>did\<close> gives \<open>x\<close>: it was not computed for the current record \<open>c\<close>, and what its
  definition picks of the log \<open>lg\<close> aggregates to \<open>x\<close>.
\<close>

definition ddi_gives :: "'d data_params \<Rightarrow> 'd T_KRContext \<Rightarrow> rec_ptr list \<Rightarrow> rec_ptr \<Rightarrow> int \<Rightarrow> cval \<Rightarrow> bool" where
  "ddi_gives pm cx lg c did x \<longleftrightarrow> (\<exists>di kc t e ix ts u.
     the_ddi did cx = Some di \<and> ddi_ready di \<and> di_curr di \<noteq> Some c \<and> di_calc di = Some kc \<and> calc_tree kc = Some t \<and>
     reps (rec_spec pm cx ts c) e t \<and>
     kr_get_table_index (cx_db cx) (fst c) (long_to_int (dd_index (di_def di))) = Some (Some ix) \<and>
     (\<forall>r \<in> set (same_key (cx_db cx) ix lg c). ddi_fine pm cx ts (di_def di) e r) \<and>
     ddi_result pm cx ts (di_def di) (di_type di) e (same_key (cx_db cx) ix lg c) = Some u \<and>
     item_value u (di_type di) = Some (Some (val_of x)) \<and> type_of x = di_type di \<and> type_of x \<noteq> KR_TYPE_POINTER)"

lemma ddi_gives_view:
  assumes g: "ddi_gives pm cx lg c did x" and v: "same_view cx s" and d: "the_ddi did s = the_ddi did cx"
  shows "ddi_gives pm s lg c did x"
proof -
  have db: "cx_db s = cx_db cx" using v by (simp add: same_view_def)
  have r: "ddi_result pm s = ddi_result pm cx"
    by (intro ext, unfold ddi_result_def view_ddi [OF v] db) (rule refl)
  from g show ?thesis unfolding ddi_gives_def d db r view_ddi(2) [OF v] view_spec [OF v] .
qed

text \<open>The item holds its value.\<close>

definition ddi_holds :: "'d T_KRContext \<Rightarrow> rec_ptr \<Rightarrow> int \<Rightarrow> cval \<Rightarrow> bool" where
  "ddi_holds s c did x \<longleftrightarrow> (\<exists>di. the_ddi did s = Some di \<and> di_curr di = Some c \<and> di_ind di = KR_VALUE_SETED \<and>
     di_type di = type_of x \<and> item_value (di_value di) (di_type di) = Some (Some (val_of x)))"

lemma ddi_gives_value:
  fixes pm :: "'d data_params"
  assumes ok: "db_ok (cx_db s) lg" and c: "cx_curr s = Some c" "c \<in> set lg" and g: "ddi_gives pm s lg c did x"
  shows "\<exists>s'. kr_ddi_get_value pm (data_env pm (Suc n)) did s = Some (Some (val_of x), s') \<and> same_view s s' \<and>
    rest_kept did s s' \<and> ddi_holds s' c did x"
proof -
  from g obtain di kc t e ix ts u where h: "the_ddi did s = Some di" "ddi_ready di" "di_curr di \<noteq> Some c" "di_calc di = Some kc"
      "calc_tree kc = Some t" "reps (rec_spec pm s ts c) e t"
      and ix: "kr_get_table_index (cx_db s) (fst c) (long_to_int (dd_index (di_def di))) = Some (Some ix)"
      and fine: "\<forall>r \<in> set (same_key (cx_db s) ix lg c). ddi_fine pm s ts (di_def di) e r"
      and res: "ddi_result pm s ts (di_def di) (di_type di) e (same_key (cx_db s) ix lg c) = Some u"
      and val: "item_value u (di_type di) = Some (Some (val_of x))" and ty: "type_of x = di_type di"
    unfolding ddi_gives_def by blast
  from ddi_get_value_spec [OF ok c h ix fine res val, of n] obtain s' di' where
      r: "kr_ddi_get_value pm (data_env pm (Suc n)) did s = Some (Some (val_of x), s')" "same_view s s'" "rest_kept did s s'"
        "the_ddi did s' = Some di'" "di_curr di' = Some c" "di_ind di' = KR_VALUE_SETED" "di_value di' = u" "di_type di' = di_type di"
    by blast
  have "ddi_holds s' c did x" using r(4-8) val ty by (simp add: ddi_holds_def)
  with r(1-3) show ?thesis by blast
qed

section \<open>Conditions\<close>

text \<open>The meaning of the identifiers of a condition, \<open>D\<close> being the values of the dynamic items.\<close>

definition det_spec :: "'d data_params \<Rightarrow> 'd T_KRContext \<Rightarrow> rec_ptr \<Rightarrow> (int \<Rightarrow> cval option) \<Rightarrow> unit spec_env" where
  "det_spec pm cx c D = \<lparr>
     tyof = (\<lambda>k i. case k of
         KR_CALCKIND_CID \<Rightarrow> tab_type (cx_db cx) (fst c) i
       | KR_CALCKIND_SET \<Rightarrow> kr_set_get_type i cx
       | KR_CALCKIND_DID \<Rightarrow> (case D i of Some x \<Rightarrow> type_of x | None \<Rightarrow> KR_TYPE_UNKNOWN)
       | _ \<Rightarrow> KR_TYPE_UNKNOWN),
     lookup = (\<lambda>k i _. (case k of
         KR_CALCKIND_CID \<Rightarrow> field_cval (cx_db cx) (fst c) c i
       | KR_CALCKIND_SET \<Rightarrow> map_option (\<lambda>z. CSet (zs_set z)) (kr_set_lookup (dy_sets (cx_dym cx)) i)
       | KR_CALCKIND_DID \<Rightarrow> D i
       | _ \<Rightarrow> None, ())),
     rematch = pm_regexec pm\<rparr>"

definition det_idents :: "'d T_KRContext \<Rightarrow> rec_ptr \<Rightarrow> (int \<Rightarrow> cval option) \<Rightarrow> (E_KRCalcKind \<times> int) set" where
  "det_idents cx c D = {(k, i). case k of
       KR_CALCKIND_CID \<Rightarrow> has_field (cx_db cx) (fst c) c i
     | KR_CALCKIND_SET \<Rightarrow> True
     | KR_CALCKIND_DID \<Rightarrow> D i \<noteq> None
     | _ \<Rightarrow> False}"

text \<open>Every item is as it was or holds its value; nothing else that conditions see has changed.\<close>

definition det_inv :: "'d T_KRContext \<Rightarrow> rec_ptr \<Rightarrow> (int \<Rightarrow> cval option) \<Rightarrow> 'd T_KRContext \<Rightarrow> bool" where
  "det_inv cx c D s \<longleftrightarrow> same_view cx s \<and>
     (\<forall>i x. D i = Some x \<longrightarrow> the_ddi i s = the_ddi i cx \<or> ddi_holds s c i x)"

lemma det_typed:
  assumes "\<And>i x. D i = Some x \<Longrightarrow> ddi_gives pm cx lg c i x"
  shows "typed_lookup (det_spec pm cx c D)"
proof -
  have "type_of x \<noteq> KR_TYPE_POINTER" if "D i = Some x" for i x
    using assms [OF that] unfolding ddi_gives_def by blast
  then show ?thesis
    by (auto simp: typed_lookup_def det_spec_def split: E_KRCalcKind.splits option.splits dest: field_cval_type)
qed

lemma det_serves:
  fixes pm :: "'d data_params" and cx :: "'d T_KRContext"
  assumes ok: "db_ok (cx_db cx) lg" and c: "cx_curr cx = Some c" "c \<in> set lg"
    and D: "\<And>i x. D i = Some x \<Longrightarrow> ddi_gives pm cx lg c i x"
  shows "serves (data_env pm (Suc (Suc n))) (det_spec pm cx c D)
    (\<lambda>s. det_inv cx c D s \<and> dy_groups (cx_dym s) = gl \<and> cx_group s = g) (det_idents cx c D)"
  unfolding serves_def
proof (intro conjI allI impI)
  show "regexec_fn (data_env pm (Suc (Suc n))) = rematch (det_spec pm cx c D)" by (simp add: det_spec_def)
next
  fix k i s
  assume "(k, i) \<in> det_idents cx c D \<and> det_inv cx c D s \<and> dy_groups (cx_dym s) = gl \<and> cx_group s = g"
  then have n: "(k, i) \<in> det_idents cx c D" and I: "det_inv cx c D s" and gs: "dy_groups (cx_dym s) = gl" "cx_group s = g"
    by auto
  from I have v: "same_view cx s" by (simp add: det_inv_def)
  then have s: "cx_db s = cx_db cx" "cx_curr s = Some c" "dy_sets (cx_dym s) = dy_sets (cx_dym cx)"
    using c(1) by (simp_all add: same_view_def)
  note d = s det_spec_def kr_data_get_type_def kr_data_get_value_def kr_set_get_type_def kr_set_get_value_def
  let ?ok = "get_type_cb (data_env pm (Suc (Suc n))) k i s = Some (tyof (det_spec pm cx c D) k i)"
  let ?val = "\<exists>s'. get_value_cb (data_env pm (Suc (Suc n))) k i s =
      Some (map_option val_of (fst (lookup (det_spec pm cx c D) k i ())), s') \<and>
      det_inv cx c D s' \<and> dy_groups (cx_dym s') = gl \<and> cx_group s' = g"
  have "?ok \<and> ?val"
  proof (cases k)
    case KR_CALCKIND_CID
    with n have h: "has_field (cx_db cx) (fst c) c i" by (simp add: det_idents_def)
    then obtain x where x: "field_cval (cx_db cx) (fst c) c i = Some x" by (auto simp: has_field_def)
    have ty: "kr_get_field_type (cx_db cx) c i = Some (tab_type (cx_db cx) (fst c) i)" using h by (simp add: has_field_def)
    from field_value_cval [OF h x] x KR_CALCKIND_CID I gs ty show ?thesis by (simp add: d)
  next
    case KR_CALCKIND_SET
    with I gs show ?thesis by (simp add: d option.map_comp comp_def)
  next
    case KR_CALCKIND_DID
    with n obtain x where x: "D i = Some x" by (auto simp: det_idents_def)
    show ?thesis
    proof (cases "ddi_holds s c i x")
      case True
      then obtain di where di: "the_ddi i s = Some di" "di_curr di = Some c" "di_ind di = KR_VALUE_SETED" "di_type di = type_of x"
          "item_value (di_value di) (di_type di) = Some (Some (val_of x))"
        by (auto simp: ddi_holds_def)
      have "di_curr di = cx_curr s" using di(2) s(2) by simp
      note again = ddi_get_value_again [OF di(1) this di(3,5), of pm "data_env pm (Suc n)"]
      show ?thesis using again KR_CALCKIND_DID x di(1,4) I gs by (simp add: d kr_ddi_get_type_def)
    next
      case False
      with I x have u: "the_ddi i s = the_ddi i cx" by (auto simp: det_inv_def)
      have gv: "ddi_gives pm s lg c i x" by (rule ddi_gives_view [OF D [OF x] v u])
      then obtain di where di: "the_ddi i s = Some di" "di_type di = type_of x" unfolding ddi_gives_def by auto
      have "db_ok (cx_db s) lg" using ok s(1) by simp
      from ddi_gives_value [OF this s(2) c(2) gv, of n] obtain s' where r:
          "kr_ddi_get_value pm (data_env pm (Suc n)) i s = Some (Some (val_of x), s')" "same_view s s'" "rest_kept i s s'"
          "ddi_holds s' c i x"
        by blast
      have "same_view cx s'" using v r(2) by (simp add: same_view_def)
      moreover have "the_ddi j s' = the_ddi j cx \<or> ddi_holds s' c j y" if "D j = Some y" for j y
      proof (cases "j = i")
        case True
        with x r(4) that show ?thesis by simp
      next
        case False
        then have "the_ddi j s' = the_ddi j s" using r(3) by (simp add: rest_kept_def)
        moreover have "the_ddi j s = the_ddi j cx \<or> ddi_holds s c j y" using I that by (simp add: det_inv_def)
        ultimately show ?thesis by (simp add: ddi_holds_def)
      qed
      ultimately have "det_inv cx c D s'" by (simp add: det_inv_def)
      with r(1,3) gs KR_CALCKIND_DID x di show ?thesis
        by (simp add: d kr_ddi_get_type_def rest_kept_def)
    qed
  qed (use n in \<open>simp_all add: det_idents_def\<close>)
  then show ?ok ?val by simp_all
qed

lemma det_steady:
  fixes pm :: "'d data_params" and cx :: "'d T_KRContext"
  assumes ok: "db_ok (cx_db cx) lg" and c: "cx_curr cx = Some c" "c \<in> set lg"
    and tb: "rec_table (cx_db cx) c = Some (t, tb)"
    and D: "\<And>i x. D i = Some x \<Longrightarrow> ddi_gives pm cx lg c i x"
  shows "steady (data_env pm (Suc (Suc n))) (det_spec pm cx c D) (det_inv cx c D) (det_idents cx c D) c (tb_id tb)"
  unfolding steady_def
proof (intro conjI allI impI)
  show "typed_lookup (det_spec pm cx c D)" using D by (rule det_typed)
  show "serves (data_env pm (Suc (Suc n))) (det_spec pm cx c D)
      (\<lambda>s. det_inv cx c D s \<and> dy_groups (cx_dym s) = gl \<and> cx_group s = g) (det_idents cx c D)" for gl g
    by (rule det_serves [OF ok c D])
next
  fix s gl g assume I: "det_inv cx c D s"
  have "the_ddi i (set_groups gl g s) = the_ddi i s" for i by (simp add: set_groups_def the_ddi_def)
  moreover have "same_view cx (set_groups gl g s) = same_view cx s" by (simp add: same_view_def set_groups_def)
  ultimately show "det_inv cx c D (set_groups gl g s)" using I by (simp add: det_inv_def ddi_holds_def)
next
  fix s assume "det_inv cx c D s"
  then have v: "cx_db s = cx_db cx" "cx_curr s = cx_curr cx" by (simp_all add: det_inv_def same_view_def)
  show "cx_curr s = Some c" using v c by simp
  show "\<exists>t tb'. rec_table (cx_db s) c = Some (t, tb') \<and> tb_id tb' = tb_id tb" using v tb by auto
qed

lemma det_inv_self: "det_inv cx c D cx"
  by (simp add: det_inv_def same_view_def)

end
