(* ===== verification/KR_Engine_Demo.thy ===== *)
theory KR_Engine_Demo
  imports KR_Engine_Items
begin

text \<open>Examples for the witnesses of the engine: groups of rules over the context of \<open>KR_Data_Demo\<close>, and an insertion.\<close>

section \<open>Groups\<close>

text \<open>The condition \<open>x > n\<close>, for a field of the current record or a dynamic item.\<close>

definition over_exp :: "E_KRCalcKind \<Rightarrow> int \<Rightarrow> int \<Rightarrow> cexp" where
  "over_exp k i n = CE_logic KR_CALCOP_GT (CE_ext k i) (CE_const (CInt (word_of_int n)))"

definition over_tree :: "E_KRCalcKind \<Rightarrow> int \<Rightarrow> int \<Rightarrow> T_KRCalcTree" where
  "over_tree k i n = logic_tree KR_CALCOP_GT (CalcTree [] k None i KR_TYPE_UNKNOWN KR_VALUE_UNSET V_zero) (int_leaf n)"

lemma over_reps: "is_extern_kind k \<Longrightarrow> reps se (over_exp k i n) (over_tree k i n)"
  by (simp add: over_exp_def over_tree_def logic_tree_def int_leaf_def)

lemma over_exts: "exts (over_exp k i n) = {(k, i)}"
  by (simp add: over_exp_def)

text \<open>An identifier whose value is a small integer.\<close>

lemma over_holds:
  assumes "tyof se k i = KR_TYPE_INT" and "fst (lookup se k i ()) = Some (CInt (word_of_int m))"
    and "\<bar>m\<bar> < 2 ^ 31" and "\<bar>n\<bar> < 2 ^ 31"
  shows "cond_holds se (over_exp k i n) = Some (n < m)"
proof -
  have s: "sint (word_of_int n :: 32 word) = n" "sint (word_of_int m :: 32 word) = m"
    using assms(3,4) by (auto intro: sint_small)
  have lt: "d_lt (d_of_int n) (d_of_int m) = (n < m)" using assms(3,4) by (simp add: d_cmp_small_int(1))
  show ?thesis
    using assms(1,2)
    by (auto simp: cond_holds_def over_exp_def den_ext_def den_logic_def den_cmp_def int_res_def c_bool_def s lt split: prod.split)
qed

text \<open>A rule with this condition, for the records of the table \<open>tid\<close>.\<close>

definition over_rule :: "int \<Rightarrow> E_KRCalcKind \<Rightarrow> int \<Rightarrow> int \<Rightarrow> T_KRRule" where
  "over_rule tid k i n = \<lparr>ru_def = \<lparr>rd_id = 1, rd_name = ''over'', rd_datasrc = tid, rd_format = KR_CALCFORMAT_FLEX,
       rd_string = [], rd_weight = 3\<rparr>,
     ru_id = 1, ru_weight = 3, ru_calc = Some (calc_of (over_tree k i n)), ru_violated = False, ru_related = {}\<rparr>"

text \<open>A group for current records whose amount is over \<open>n\<close>.\<close>

definition over_group :: "int \<Rightarrow> int \<Rightarrow> T_KRRule list \<Rightarrow> T_KRGroup" where
  "over_group i n rs = \<lparr>gr_def = \<lparr>gd_id = i, gd_name = ''over'', gd_format = KR_CALCFORMAT_FLEX, gd_string = [],
       gd_rules = no_area\<rparr>,
     gr_id = i, gr_calc = Some (calc_of (over_tree KR_CALCKIND_CID 2 n)),
     gr_rules = \<lparr>rl_cnt = int (length rs), rl_rules = rs, rl_time = 0, rl_fired = 0, rl_weights = 0\<rparr>\<rparr>"

lemma over_group_for:
  assumes "calc_for se N (Some (calc_of (over_tree KR_CALCKIND_CID 2 n))) (over_exp KR_CALCKIND_CID 2 n)"
    and "\<forall>m \<in> set ks. calc_for se N (Some (calc_of (over_tree k j m))) (over_exp k j m)"
    and "ks \<noteq> []" and "length ks < 1000"
  shows "group_for se N (over_group i n (map (over_rule tid k j) ks)) (over_exp KR_CALCKIND_CID 2 n, map (over_exp k j) ks)"
proof -
  have "sum_list (map (\<lambda>r. \<bar>ru_weight r\<bar>) (map (over_rule tid k j) ks)) = 3 * int (length ks)"
    by (induction ks) (simp_all add: over_rule_def)
  with assms show ?thesis
    by (simp add: group_for_def over_group_def sized_def list_all2_map1 list_all2_map2 list_all2_same) (simp add: over_rule_def)
qed

lemma over_calc_for:
  assumes "is_extern_kind k" and "(k, i) \<in> N" and "cond_holds se (over_exp k i n) = Some b"
  shows "calc_for se N (Some (calc_of (over_tree k i n))) (over_exp k i n)"
  using assms over_reps [OF assms(1)] by (auto simp: calc_for_def over_exts calc_of_def)

section \<open>The conditions over the example context\<close>

text \<open>Item 7 is 42 for the transaction \<open>r2\<close>.\<close>

definition sum_42 :: "int \<Rightarrow> cval option" where
  "sum_42 = [7 \<mapsto> CInt 42]"

lemma shop_gives:
  assumes p: "payments db tb ix r1 r2" and cx: "cx = shop db tb n gl (Some r2)" and x: "sum_42 i = Some x"
  shows "ddi_gives shop_pm cx [r1, r2] r2 i x"
proof -
  note f = shop_ddi_sum [OF p cx refl]
  have i: "i = 7" "x = CInt 42" using x by (auto simp: sum_42_def split: if_splits)
  have "the_ddi 7 cx = Some (shop_ddi tb)" by (simp add: cx shop_simps)
  moreover have "calc_tree (calc_of (amount_tree 1)) = Some (amount_tree 1)" by (simp add: calc_of_def)
  moreover have "\<forall>r \<in> set (same_key (cx_db cx) ix [r1, r2] r2). ddi_fine shop_pm cx (fst r1) (di_def (shop_ddi tb)) (amount_exp 1) r"
    using f(1) unfolding f(4) .
  moreover have "ddi_result shop_pm cx (fst r1) (di_def (shop_ddi tb)) (di_type (shop_ddi tb)) (amount_exp 1)
      (same_key (cx_db cx) ix [r1, r2] r2) = Some (V_i 42)"
    using f(2) unfolding f(4) shop_ddi_facts .
  moreover have "item_value (V_i 42) (di_type (shop_ddi tb)) = Some (Some (val_of x))" "type_of x = di_type (shop_ddi tb)"
    "type_of x \<noteq> KR_TYPE_POINTER"
    using i by (simp_all add: shop_ddi_facts item_value_def kr_get_value_def)
  moreover have "reps (rec_spec shop_pm cx (fst r1) r2) (amount_exp 1) (amount_tree 1)" by (rule amount_reps)
  ultimately show ?thesis unfolding ddi_gives_def i(1)
    using f(6) by (intro exI conjI) (assumption | rule shop_ddi_facts)+
qed

lemma shop_det:
  assumes p: "payments db tb ix r1 r2" and cx: "cx = shop db tb k gl (Some r2)" and n: "\<bar>n\<bar> < 2 ^ 31"
  shows "cond_holds (det_spec shop_pm cx r2 sum_42) (over_exp KR_CALCKIND_CID 2 n) = Some (n < 2)"
    "cond_holds (det_spec shop_pm cx r2 sum_42) (over_exp KR_CALCKIND_DID 7 n) = Some (n < 42)"
    "(KR_CALCKIND_CID, 2) \<in> det_idents cx r2 sum_42" "(KR_CALCKIND_DID, 7) \<in> det_idents cx r2 sum_42"
proof -
  note f = payments_fields [OF p]
  have r: "fst r2 = fst r1" using p by (simp add: payments_def)
  have v: "field_cval (cx_db cx) (fst r2) r2 2 = Some (CInt 2)" by (simp add: cx shop_simps field_cval_def f r)
  show "(KR_CALCKIND_CID, 2) \<in> det_idents cx r2 sum_42" "(KR_CALCKIND_DID, 7) \<in> det_idents cx r2 sum_42"
    using v by (simp_all add: det_idents_def has_field_def sum_42_def) (simp add: cx shop_simps f r)
  have c: "tyof (det_spec shop_pm cx r2 sum_42) KR_CALCKIND_CID 2 = KR_TYPE_INT"
    "fst (lookup (det_spec shop_pm cx r2 sum_42) KR_CALCKIND_CID 2 ()) = Some (CInt (word_of_int 2))"
    using v by (simp_all add: det_spec_def) (simp add: cx shop_simps f r)
  show "cond_holds (det_spec shop_pm cx r2 sum_42) (over_exp KR_CALCKIND_CID 2 n) = Some (n < 2)"
    using over_holds [OF c _ n] by simp
  have d: "tyof (det_spec shop_pm cx r2 sum_42) KR_CALCKIND_DID 7 = KR_TYPE_INT"
    "fst (lookup (det_spec shop_pm cx r2 sum_42) KR_CALCKIND_DID 7 ()) = Some (CInt (word_of_int 42))"
    by (simp_all add: det_spec_def sum_42_def)
  show "cond_holds (det_spec shop_pm cx r2 sum_42) (over_exp KR_CALCKIND_DID 7 n) = Some (n < 42)"
    using over_holds [OF d _ n] by simp
qed

section \<open>An insertion\<close>

text \<open>The first transaction (card 5, time 100, amount 40) of a new database.\<close>

definition first_payment :: "payment T_KRDB \<Rightarrow> nat \<Rightarrow> payment T_KRTable \<Rightarrow> rec_ptr \<Rightarrow> payment T_KRDB \<Rightarrow> bool" where
  "first_payment db t tb r db' \<longleftrightarrow> db_view db [] \<and> kr_get_table db 1 = Some (Some t) \<and> db_tables db t = Some tb \<and>
     length (tb_buff tb) = 4 \<and> mapped tb (5, 100, 40) = [KInt 5, KLong 100, KInt 40] \<and>
     list_all2 fits (tb_fields tb) [KInt 5, KLong 100, KInt 40] \<and> (\<exists>ix. idxs db t = [ix] \<and> ix_field ix = 0) \<and>
     kr_db_insert 1 (5, 100, 40) db = Some (Some r, db') \<and> db_ok db' [r] \<and>
     (\<exists>tb'. rec_table db' r = Some (t, tb')) \<and> has_field db' (fst r) r 2 \<and> tab_type db' (fst r) 2 = KR_TYPE_INT \<and>
     field_cval db' (fst r) r 2 = Some (CInt 40)"

lemma first_payment_exists: "\<exists>db t tb r db'. first_payment db t tb r db'"
proof -
  from set_up_spec [where cnt = 3 and load = "\<lambda>_ _. Some item_fds" and tid = 1 and fds = item_fds and keep = 4
      and fld = 0 and sortfld = "- 1" and kind = KR_INDEXTYPE_DB and pre = None and func = item_func and iid = 10 and addr = "\<lambda>_. 0"]
  obtain db t tb ix where s: "set_up db t tb ix 1 4 item_fds None item_func 10 0"
    by (simp add: item_facts KR_MEMALIGN_def) blast
  have d: "built db" "kr_get_table db 1 = Some (Some t)" "db_tables db t = Some tb" "idxs db t = [ix]" "length (tb_buff tb) = 4"
      "mapped tb (5, 100, 40) = [KInt 5, KLong 100, KInt 40]" "tb_fields tb = item_fds" "ix_field ix = 0"
    using s by (simp_all add: set_up_def mapped_row item_row)
  have fit: "all_fit tb (5, 100, 40)" "indexable db t tb (5, 100, 40)"
    using d by (simp_all add: all_fit_def indexable_def item_facts)
  from insert_view [OF built_view [OF d(1)] d(2,3) fit] obtain r db' where i: "kr_db_insert 1 (5, 100, 40) db = Some (Some r, db')"
      "row_of db' r = (t, [KInt 5, KLong 100, KInt 40])" "same_schema db db'"
    unfolding d(6) by blast
  have "db_ok db []" using d(1) by (simp add: built_def)
  from db_insert_spec [OF this d(2,3) fit] i(1) have ok: "db_ok db' [r]" by (auto simp: evicted_def)
  from schema_tables [OF i(3) d(3)] obtain tb' where tb': "db_tables db' t = Some tb'" "tb_fields tb' = item_fds" using d(7) by auto
  have r: "fst r = t" using i(2) by (simp add: row_of_def)
  have "r \<in> set [r]" by simp
  with ok obtain rc where rc: "get_rec db' r = Some rc" "rc_table rc = Some (fst r)" by (rule logged)
  then have fl: "rc_fields rc = [KInt 5, KLong 100, KInt 40]" using i(2) by (simp add: row_of_def)
  have f: "field_object db' r 2 = Some (KInt 40)" "kr_get_field_type db' r 2 = Some KR_TYPE_INT" "tab_type db' (fst r) 2 = KR_TYPE_INT"
    using rc fl r tb'
    by (auto simp: kr_get_field_type_def kr_get_field_value_def rec_field_def_def field_object_def key_obj_def tab_type_def item_fds_def nth_opt_def)
  then have v: "field_cval db' (fst r) r 2 = Some (CInt 40)" by (simp add: field_cval_def)
  have "rec_table db' r = Some (t, tb')" using rc r tb' by (simp add: rec_table_def)
  moreover have "has_field db' (fst r) r 2" using f v by (simp add: has_field_def)
  ultimately have "first_payment db t tb r db'"
    unfolding first_payment_def using built_view [OF d(1)] d i(1) ok f(3) v by (simp add: item_facts)
  then show ?thesis by blast
qed

end
