(* ===== verification/KR_Engine_Props.thy ===== *)
theory KR_Engine_Props
  imports KR_Engine_Demo KR_Context_Props
begin

text \<open>
  The properties of the engine: the registry of handles, the detection of an event over the groups, the
  items and the database, and the handling of messages.
\<close>

section \<open>The registry\<close>

lemma register_ins_all:
  "kr_engine_register es ft = functable.ins_all (map (\<lambda>e. (fst e, Some (snd e))) es) ft"
proof (induction es arbitrary: ft)
  case (Cons e es)
  then show ?case by (cases "kr_functable_register ft (fst e) (Some (snd e))") auto
qed simp

lemma string_equal_name: "c_string s \<Longrightarrow> kr_string_equal s x \<longleftrightarrow> s = cstr_of x"
  by (simp add: kr_string_equal_def kr_string_compare_def c_strcmp_0_cstr cstr_of_id)

lemma upd_all_map_of:
  "distinct (map fst es) \<Longrightarrow> \<forall>e \<in> set es. c_string (fst e) \<Longrightarrow>
    functable.upd_all (map (\<lambda>e. (fst e, Some (snd e))) es) m x =
    (case map_of es (cstr_of x) of None \<Rightarrow> m x | Some h \<Rightarrow> Some (Some h))"
proof (induction es arbitrary: m)
  case (Cons e es)
  then have "map_of es (fst e) = None" by (simp add: map_of_eq_None_iff)
  with Cons show ?case
    by (cases "cstr_of x = fst e") (simp_all add: string_equal_name)
qed simp

lemma default_names: "distinct (map fst default_handles)" "\<forall>e \<in> set default_handles. c_string (fst e)"
  by (simp_all add: default_handles_def c_string_def)

lemma register_default_spec:
  "\<exists>ft. kr_functable_create ph nm \<bind> kr_engine_register_default = Some ft \<and>
     (\<forall>m. kr_functable_search ft m = Some (map_of default_handles (cstr_of m)))"
proof -
  from functable_create_spec [of ph nm] obtain ft0 :: "kr_handle T_KRFuncTable" where
      f0: "kr_functable_create ph nm = Some ft0" "ft_ok ft0" "ft_map ft0 = (\<lambda>_. None)" "ft_count ft0 = 0"
    by blast
  have "ft_count ft0 + int (length (map (\<lambda>e. (fst e, Some (snd e))) default_handles)) < 2 ^ 29"
    using f0(4) by (simp add: default_handles_def)
  from functable.ins_all_law [OF f0(2) this] obtain ft where ft: "kr_engine_register default_handles ft0 = Some ft" "ft_ok ft"
      "ft_map ft = functable.upd_all (map (\<lambda>e. (fst e, Some (snd e))) default_handles) (ft_map ft0)"
    by (auto simp: register_ins_all)
  have "kr_functable_search ft m = Some (map_of default_handles (cstr_of m))" for m
    using functable.lkp_law [OF ft(2), of m] upd_all_map_of [OF default_names, of "\<lambda>_. None" m]
    by (simp add: ft(3) f0(3) null_if_absent_def split: option.split)
  with f0(1) ft(1) show ?thesis by (simp add: kr_engine_register_default_def)
qed

text \<open>\<open>kr_engine_register_default\<close> on a new function table succeeds; afterwards the search finds the
  handle registered under every one of the names, and NULL under every other name.
\<close>

theorem default_handles_found:
  "\<exists>ft. kr_functable_create ph nm \<bind> kr_engine_register_default = Some ft \<and>
     kr_functable_search ft ''detect_event'' = Some (Some H_detect_event) \<and>
     kr_functable_search ft ''insert_event'' = Some (Some H_insert_event) \<and>
     (\<forall>m. kr_functable_search ft m = Some (map_of default_handles (cstr_of m)))"
proof -
  have "map_of default_handles ''detect_event'' = Some H_detect_event" "map_of default_handles ''insert_event'' = Some H_insert_event"
    by (simp_all add: default_handles_def)
  moreover have "cstr_of ''detect_event'' = ''detect_event''" "cstr_of ''insert_event'' = ''insert_event''"
    by (simp_all add: cstr_of_def)
  ultimately show ?thesis using register_default_spec [of ph nm] by auto
qed

section \<open>Detection\<close>

lemma routed_cases:
  "routed se es = None \<Longrightarrow> i < length es \<Longrightarrow> \<not> holds se (fst (es ! i))"
  "routed se es = Some k \<Longrightarrow> k < length es \<and> holds se (fst (es ! k)) \<and> (\<forall>j < k. \<not> holds se (fst (es ! j)))"
  by (auto simp: routed_def find_None_iff find_Some_iff)

lemma outcomes:
  "list_all2 (\<lambda>(r, e) r'. outcome_of se N (judged se tid r e) e r r') rs rs' \<Longrightarrow>
   map ru_id rs' = map (ru_id \<circ> fst) rs \<and> map ru_violated rs' = map (\<lambda>(r, e). judged se tid r e) rs"
  by (induction rs rs' rule: list_all2_induct) (auto simp: outcome_of_def)

lemma fired_counts:
  "length (fired se tid rs) = length (filter id (map (\<lambda>(r, e). judged se tid r e) rs))"
  "weights (fired se tid rs) = sum_list (map (\<lambda>(r, h). if h then ru_weight r else 0) (zip (map fst rs) (map (\<lambda>(r, e). judged se tid r e) rs)))"
  by (induction rs) (auto simp: fired_def weights_def)

text \<open>
  C19. Detection of the current record, for every database in a state of the invariant and every
  parameter set whose dynamic items have values: the calculators of the groups and rules stand for conditions
  over fields of the current record, sets and dynamic items, whatever these cost to compute (one item
  may be used by several conditions, and is computed when it is first asked for). Then detection
  succeeds, leaves the database as it is, routes the record to the first group whose condition holds
  (to none if there is none), and in that group, and in no other, exactly those rules are
  violated that are for the record's table and whose condition holds; the group's counters are their number and the sum of their
  weights.
\<close>

theorem engine_detect_first_match:
  fixes pm :: "'d data_params" and cx :: "'d T_KRContext"
  assumes ok: "db_ok (cx_db cx) lg" and c: "cx_curr cx = Some c" "c \<in> set lg"
    and tb: "rec_table (cx_db cx) c = Some (t, tb)"
    and items: "\<And>i x. D i = Some x \<Longrightarrow> ddi_gives pm cx lg c i x"
    and groups: "list_all2 (group_for (det_spec pm cx c D) (det_idents cx c D)) (groups_of cx) es"
      "gl_cnt (dy_groups (cx_dym cx)) \<noteq> 0"
  shows "\<exists>cx'. kr_engine_detect (data_env pm (Suc (Suc n))) cx = Some (0, cx') \<and> cx_db cx' = cx_db cx \<and>
    (case routed (det_spec pm cx c D) es of
       None \<Rightarrow> cx_group cx' = cx_group cx \<and> length (groups_of cx') = length (groups_of cx) \<and>
         map gr_rules (groups_of cx') = map gr_rules (groups_of cx)
     | Some k \<Rightarrow> cx_group cx' = Some k \<and> k < length (groups_of cx') \<and> holds (det_spec pm cx c D) (fst (es ! k)) \<and>
         (\<forall>j < k. \<not> holds (det_spec pm cx c D) (fst (es ! j))) \<and>
         (\<forall>j < length (groups_of cx). j \<noteq> k \<longrightarrow> gr_rules (groups_of cx' ! j) = gr_rules (groups_of cx ! j)) \<and>
         (let rs = rl_rules (gr_rules (groups_of cx ! k)); new = gr_rules (groups_of cx' ! k);
              hit = map (\<lambda>(r, e). rd_datasrc (ru_def r) = tb_id tb \<and> holds (det_spec pm cx c D) e) (zip rs (snd (es ! k)))
          in map ru_id (rl_rules new) = map ru_id rs \<and> map ru_violated (rl_rules new) = hit \<and>
             rl_fired new = int (length (filter id hit)) \<and>
             rl_weights new = sum_list (map (\<lambda>(r, h). if h then ru_weight r else 0) (zip rs hit))))"
proof -
  let ?se = "det_spec pm cx c D"
  let ?N = "det_idents cx c D"
  from det_steady [OF ok c tb items] have s: "steady (data_env pm (Suc (Suc n))) ?se (det_inv cx c D) ?N c (tb_id tb)" .
  from engine_detect_spec [OF s det_inv_self groups] obtain cx' where d:
      "kr_engine_detect (data_env pm (Suc (Suc n))) cx = Some (0, cx')" "det_inv cx c D cx'"
      "cx_group cx' = (case routed ?se es of None \<Rightarrow> cx_group cx | Some k \<Rightarrow> Some k)"
      "walked ?se ?N (tb_id tb) es (routed ?se es) (groups_of cx) (groups_of cx')"
    by blast
  have db: "cx_db cx' = cx_db cx" using d(2) by (simp add: det_inv_def same_view_def)
  have len: "length (groups_of cx') = length (groups_of cx)" "length es = length (groups_of cx)"
    using d(4) groups(1) by (simp_all add: walked_def list_all2_lengthD)
  show ?thesis
  proof (cases "routed ?se es")
    case None
    have "map gr_rules (groups_of cx') = map gr_rules (groups_of cx)"
      using d(4) len(1) by (intro nth_equalityI) (simp_all add: walked_def None)
    with None d(1,3) db len show ?thesis by (intro exI [of _ cx']) simp
  next
    case (Some k)
    note k = routed_cases(2) [OF Some]
    have kg: "k < length (groups_of cx)" using k len by simp
    have other: "\<forall>j < length (groups_of cx). j \<noteq> k \<longrightarrow> gr_rules (groups_of cx' ! j) = gr_rules (groups_of cx ! j)"
      using d(4) by (simp add: walked_def Some)
    let ?rs = "rl_rules (gr_rules (groups_of cx ! k))"
    let ?new = "gr_rules (groups_of cx' ! k)"
    let ?z = "zip ?rs (snd (es ! k))"
    let ?hit = "map (\<lambda>(r, e). judged ?se (tb_id tb) r e) ?z"
    have gd: "group_done ?se ?N (tb_id tb) (snd (es ! k)) (groups_of cx ! k) (groups_of cx' ! k)"
      using d(4) kg by (simp add: walked_def Some)
    have "group_for ?se ?N (groups_of cx ! k) (es ! k)" using groups(1) kg by (simp add: list_all2_nthD)
    then have "length ?rs = length (snd (es ! k))" by (auto simp: group_for_def dest: list_all2_lengthD)
    then have z: "map fst ?z = ?rs" by simp
    have o: "list_all2 (\<lambda>(r, e) r'. outcome_of ?se ?N (judged ?se (tb_id tb) r e) e r r') ?z (rl_rules ?new)"
      and f: "rl_fired ?new = int (length (fired ?se (tb_id tb) ?z))" "rl_weights ?new = weights (fired ?se (tb_id tb) ?z)"
      using gd by (simp_all add: group_done_def Let_def)
    have ids: "map ru_id (rl_rules ?new) = map ru_id ?rs" "map ru_violated (rl_rules ?new) = ?hit"
      using outcomes [OF o] arg_cong [OF z, of "map ru_id"] by simp_all
    have cnt: "rl_fired ?new = int (length (filter id ?hit))"
      "rl_weights ?new = sum_list (map (\<lambda>(r, h). if h then ru_weight r else 0) (zip ?rs ?hit))"
      using f fired_counts [of ?se "tb_id tb" ?z] unfolding z by simp_all
    have "cx_group cx' = Some k" using d(3) Some by simp
    with d(1) db k kg len other ids cnt Some show ?thesis
      unfolding judged_def by (intro exI [of _ cx']) (simp add: Let_def)
  qed
qed

text \<open>
  The example: the amount of the current transaction is 2, the sum 42. The first group asks for more than 5,
  the second for more than 1; its rules are a sum over 41 and a sum over 42.
\<close>

theorem engine_detect_first_match_witness:
  "\<exists>(cx :: payment T_KRContext) cx'. kr_engine_detect (data_env shop_pm 2) cx = Some (0, cx') \<and> cx_group cx' = Some 1 \<and>
     map ru_violated (rl_rules (gr_rules (groups_of cx' ! 1))) = [True, False] \<and> rl_weights (gr_rules (groups_of cx' ! 1)) = 3"
proof -
  from payments_exist obtain db tb ix r1 r2 where p: "payments db tb ix r1 r2" by blast
  define gl where "gl = \<lparr>gl_cnt = 2, gl_groups = [over_group 1 5 (map (over_rule (tb_id tb) KR_CALCKIND_DID 7) [41]),
    over_group 2 1 (map (over_rule (tb_id tb) KR_CALCKIND_DID 7) [41, 42])], gl_time = 0\<rparr>"
  define cx where "cx = shop db tb 1 gl (Some r2)"
  define se where "se = det_spec shop_pm cx r2 sum_42"
  define es where "es = [(over_exp KR_CALCKIND_CID 2 5, map (over_exp KR_CALCKIND_DID 7) [41]),
    (over_exp KR_CALCKIND_CID 2 1, map (over_exp KR_CALCKIND_DID 7) [41, 42])]"
  note det = shop_det [OF p cx_def, folded se_def]
  have h: "\<not> holds se (over_exp KR_CALCKIND_CID 2 5)" "holds se (over_exp KR_CALCKIND_CID 2 1)"
    "holds se (over_exp KR_CALCKIND_DID 7 41)" "\<not> holds se (over_exp KR_CALCKIND_DID 7 42)"
    using det [of 5] det [of 1] det [of 41] det [of 42] by (simp_all add: holds_def)
  have N: "(KR_CALCKIND_CID, 2) \<in> det_idents cx r2 sum_42" "(KR_CALCKIND_DID, 7) \<in> det_idents cx r2 sum_42"
    using det(3,4) [of 0] by simp_all
  have cid: "calc_for se (det_idents cx r2 sum_42) (Some (calc_of (over_tree KR_CALCKIND_CID 2 n))) (over_exp KR_CALCKIND_CID 2 n)"
    if "\<bar>n\<bar> < 2 ^ 31" for n
    by (rule over_calc_for [OF _ N(1) det(1) [OF that]]) (simp_all add: is_extern_kind_def)
  have did: "calc_for se (det_idents cx r2 sum_42) (Some (calc_of (over_tree KR_CALCKIND_DID 7 n))) (over_exp KR_CALCKIND_DID 7 n)"
    if "\<bar>n\<bar> < 2 ^ 31" for n
    by (rule over_calc_for [OF _ N(2) det(2) [OF that]]) (simp_all add: is_extern_kind_def)
  have g: "groups_of cx = gl_groups gl" "gl_cnt (dy_groups (cx_dym cx)) \<noteq> 0"
    by (simp_all add: cx_def groups_of_def shop_simps gl_def)
  have gs: "list_all2 (group_for se (det_idents cx r2 sum_42)) (groups_of cx) es"
    unfolding g(1) gl_def es_def by (simp del: list.map) (intro conjI over_group_for; simp add: cid did)
  have route: "routed se es = Some 1" by (simp add: routed_def es_def h upt_rec)
  have c: "cx_curr cx = Some r2" "r2 \<in> set [r1, r2]" "db_ok (cx_db cx) [r1, r2]" "rec_table (cx_db cx) r2 = Some (fst r1, tb)"
    using p payments_fields [OF p] by (simp_all add: cx_def shop_simps payments_def)
  have z: "snd (es ! 1) = [over_exp KR_CALCKIND_DID 7 41, over_exp KR_CALCKIND_DID 7 42]"
    "rl_rules (gr_rules (groups_of cx ! 1)) = [over_rule (tb_id tb) KR_CALCKIND_DID 7 41, over_rule (tb_id tb) KR_CALCKIND_DID 7 42]"
    by (simp_all add: g(1) gl_def es_def over_group_def)
  have src: "rd_datasrc (ru_def (over_rule (tb_id tb) KR_CALCKIND_DID 7 n)) = tb_id tb" "ru_weight (over_rule (tb_id tb) KR_CALCKIND_DID 7 n) = 3" for n
    by (simp_all add: over_rule_def)
  from engine_detect_first_match [OF c(3,1,2,4) shop_gives [OF p cx_def] gs [unfolded se_def] g(2), of 0]
  obtain cx' where "kr_engine_detect (data_env shop_pm (Suc (Suc 0))) cx = Some (0, cx')" "cx_group cx' = Some 1"
      "map ru_violated (rl_rules (gr_rules (groups_of cx' ! 1))) = [True, False]" "rl_weights (gr_rules (groups_of cx' ! 1)) = 3"
    unfolding se_def [symmetric] route option.case Let_def z by (auto simp: src h)
  then show ?thesis by (metis One_nat_def Suc_1)
qed

section \<open>Events\<close>

text \<open>
  C21. An event that no group is for is never answered: if, after the insertion of the event, no group's
  condition holds for its record, the detection succeeds without a group, and the reply is made from the
  group pointer of the context, which is NULL in a context that was cleaned: \<open>kr_context_dump_json\<close>
  dereferences it.
\<close>

theorem detect_event_without_group:
  fixes pm :: "'d data_params" and cx :: "'d T_KRContext"
  assumes ins: "kr_db_insert (mg_datasrc msg) (mg_data msg) (cx_db cx) = Some (Some c, db')"
    and cx1: "cx1 = cx\<lparr>cx_db := db', cx_curr := Some c\<rparr>" and clean: "cx_group cx = None"
    and ok: "db_ok db' lg" "c \<in> set lg" "rec_table db' c = Some (t, tb)"
    and items: "\<And>i x. D i = Some x \<Longrightarrow> ddi_gives pm cx1 lg c i x"
    and groups: "list_all2 (group_for (det_spec pm cx1 c D) (det_idents cx1 c D)) (groups_of cx1) es"
      "gl_cnt (dy_groups (cx_dym cx)) \<noteq> 0"
    and none: "\<forall>e \<in> set es. cond_holds (det_spec pm cx1 c D) (fst e) = Some False"
  shows "\<exists>cx2. kr_engine_detect (data_env pm (Suc (Suc n))) cx1 = Some (0, cx2) \<and> cx_group cx2 = None \<and>
    kr_engine_detect_event (data_env pm (Suc (Suc n))) ord msg reply cx = None"
proof -
  have v: "cx_db cx1 = db'" "cx_curr cx1 = Some c" "gl_cnt (dy_groups (cx_dym cx1)) \<noteq> 0" "cx_group cx1 = None"
    using groups(2) clean by (simp_all add: cx1)
  have "db_ok (cx_db cx1) lg" "rec_table (cx_db cx1) c = Some (t, tb)" using ok v by simp_all
  from det_steady [OF this(1) v(2) ok(2) this(2) items] have s:
      "steady (data_env pm (Suc (Suc n))) (det_spec pm cx1 c D) (det_inv cx1 c D) (det_idents cx1 c D) c (tb_id tb)" .
  have "routed (det_spec pm cx1 c D) es = None" using none by (simp add: routed_def find_None_iff holds_def)
  with engine_detect_spec [OF s det_inv_self groups(1) v(3)] v(4) obtain cx2 where d:
      "kr_engine_detect (data_env pm (Suc (Suc n))) cx1 = Some (0, cx2)" "cx_group cx2 = None"
    by auto
  then have "kr_engine_detect_event (data_env pm (Suc (Suc n))) ord msg reply cx = None"
    using ins by (simp add: kr_engine_detect_event_def kr_context_dump_json_def Let_def cx1)
  with d show ?thesis by blast
qed

theorem detect_event_without_group_witness:
  "\<forall>ord reply. \<exists>(cx :: payment T_KRContext) msg. kr_engine_detect_event (data_env shop_pm 2) ord msg reply cx = None \<and> mg_data msg = (5, 100, 40)"
proof (intro allI)
  fix ord and reply :: T_KRReply
  from first_payment_exists obtain db t tb r db' where p: "first_payment db t tb r db'" by blast
  define gl where "gl = \<lparr>gl_cnt = 1, gl_groups = [over_group 1 100 (map (over_rule 1 KR_CALCKIND_CID 2) [41])], gl_time = 0\<rparr>"
  define cx where "cx = shop db tb 1 gl None"
  define msg where "msg = \<lparr>mg_type = KR_MSGTYPE_SUCCESS, mg_method = ''detect_event'', mg_datasrc = 1, mg_data = (5 :: i32, 100 :: i64, 40 :: i32)\<rparr>"
  define cx1 where "cx1 = cx\<lparr>cx_db := db', cx_curr := Some r\<rparr>"
  define se where "se = det_spec shop_pm cx1 r Map.empty"
  have m: "mg_datasrc msg = 1" "mg_data msg = (5, 100, 40)" by (simp_all add: msg_def)
  have f: "kr_db_insert 1 (5, 100, 40) db = Some (Some r, db')" "db_ok db' [r]" "\<exists>tb'. rec_table db' r = Some (t, tb')"
    "has_field db' (fst r) r 2" "tab_type db' (fst r) 2 = KR_TYPE_INT" "field_cval db' (fst r) r 2 = Some (CInt (word_of_int 40))"
    using p by (simp_all add: first_payment_def)
  have v: "cx_db cx = db" "cx_group cx = None" "gl_cnt (dy_groups (cx_dym cx)) \<noteq> 0" "cx_db cx1 = db'" "groups_of cx1 = gl_groups gl"
    by (simp_all add: cx1_def cx_def shop_simps gl_def groups_of_def) (simp add: shop_def)
  have c: "tyof se KR_CALCKIND_CID 2 = KR_TYPE_INT" "fst (lookup se KR_CALCKIND_CID 2 ()) = Some (CInt (word_of_int 40))"
    using f by (simp_all add: se_def det_spec_def v)
  have h: "cond_holds se (over_exp KR_CALCKIND_CID 2 n) = Some (n < 40)" if "\<bar>n\<bar> < 2 ^ 31" for n
    using over_holds [OF c _ that] by simp
  have "(KR_CALCKIND_CID, 2) \<in> det_idents cx1 r Map.empty" using f(4) by (simp add: det_idents_def v)
  then have k: "calc_for se (det_idents cx1 r Map.empty) (Some (calc_of (over_tree KR_CALCKIND_CID 2 n))) (over_exp KR_CALCKIND_CID 2 n)"
    if "\<bar>n\<bar> < 2 ^ 31" for n
    by (intro over_calc_for [OF _ _ h [OF that]]) (simp_all add: is_extern_kind_def)
  let ?es = "[(over_exp KR_CALCKIND_CID 2 100, map (over_exp KR_CALCKIND_CID 2) [41])]"
  have gs: "list_all2 (group_for se (det_idents cx1 r Map.empty)) (groups_of cx1) ?es"
    unfolding v gl_def by (simp del: list.map) (rule over_group_for; simp add: k)
  have none: "\<forall>e \<in> set ?es. cond_holds se (fst e) = Some False" by (simp add: h)
  from f(3) obtain tb' where tb': "rec_table db' r = Some (t, tb')" by blast
  have ins: "kr_db_insert (mg_datasrc msg) (mg_data msg) (cx_db cx) = Some (Some r, db')" using f(1) m v(1) by simp
  have r: "r \<in> set [r]" "\<And>i x. Map.empty i = Some x \<Longrightarrow> ddi_gives shop_pm cx1 [r] r i x" by simp_all
  from detect_event_without_group [OF ins cx1_def v(2) f(2) r(1) tb' r(2) gs [unfolded se_def] v(3) none [unfolded se_def], of 0 ord reply]
  have "kr_engine_detect_event (data_env shop_pm (Suc (Suc 0))) ord msg reply cx = None" by blast
  then show "\<exists>(cx :: payment T_KRContext) msg. kr_engine_detect_event (data_env shop_pm 2) ord msg reply cx = None \<and> mg_data msg = (5, 100, 40)"
    using m(2) by (metis One_nat_def Suc_1)
qed

text \<open>
  C20. The message \<open>insert_event\<close>, from the registry through the context down to the database: on an engine whose handles are the default
  ones and a context that follows its shared memory, \<open>kr_engine_handle\<close> answers \<open>KR_MSGTYPE_SUCCESS\<close>
  and leaves the body of the reply alone. On the way its handle, which runs on the context set for the message, makes the record
  it inserted, which holds the message's fields, the current one; in the end the database holds the event's row after the old
  ones (without the oldest row of the table if that was full), and the context is clean for the next message.
\<close>

theorem insert_event_pushes:
  assumes reg: "kr_functable_create ph nm \<bind> kr_engine_register_default = Some ft"
    and set: "kr_context_set pm (Some arg) cx = Some (0, cx1)" "kr_dym_init (cx_dym cx1) \<noteq> None"
    and msg: "mg_method msg = ''insert_event''"
    and view: "db_view (cx_db cx) xs" "kr_get_table (cx_db cx) (mg_datasrc msg) = Some (Some t)" "db_tables (cx_db cx) t = Some tb"
    and fit: "list_all2 fits (tb_fields tb) (mapped tb (mg_data msg))"
      "\<forall>ix \<in> set (idxs (cx_db cx) t). mapped tb (mg_data msg) ! nat (ix_field ix) \<noteq> KDouble NaN"
  shows "\<exists>cx'. kr_engine_handle pm n ord other ft arg msg reply cx = Some (reply\<lparr>re_type := KR_MSGTYPE_SUCCESS\<rparr>, cx') \<and>
    db_view (cx_db cx') (push (length (tb_buff tb)) t (mapped tb (mg_data msg)) xs) \<and> cx_curr cx' = None \<and> cx_group cx' = None \<and>
    (\<exists>cx2 r. kr_engine_insert_event msg reply cx1 = Some (reply\<lparr>re_type := KR_MSGTYPE_SUCCESS\<rparr>, cx2) \<and>
       cx_curr cx2 = Some r \<and> row_of (cx_db cx2) r = (t, mapped tb (mg_data msg)) \<and> cx_db cx' = cx_db cx2)"
proof -
  have db: "cx_db cx1 = cx_db cx" using set(1) by (auto simp: kr_context_set_def bind_eq_Some_conv split: if_splits)
  have ok: "all_fit tb (mg_data msg)" "indexable (cx_db cx) t tb (mg_data msg)" using fit by (auto simp: all_fit_def indexable_def)
  from insert_view [OF view ok] obtain r db' where i: "kr_db_insert (mg_datasrc msg) (mg_data msg) (cx_db cx) = Some (Some r, db')"
      "db_view db' (push (length (tb_buff tb)) t (mapped tb (mg_data msg)) xs)" "row_of db' r = (t, mapped tb (mg_data msg))"
    by blast
  have "map_of default_handles (cstr_of ''insert_event'') = Some H_insert_event" by (simp add: default_handles_def cstr_of_def)
  with register_default_spec [of ph nm] reg have h: "kr_functable_search ft (mg_method msg) = Some (Some H_insert_event)"
    by (simp add: msg)
  from set(2) obtain dym where "kr_dym_init (cx_dym cx1) = Some dym" by blast
  with set(1) h i db show ?thesis
    by (cases r) (simp add: kr_engine_handle_def run_handle_def kr_engine_insert_event_def kr_context_clean_def Let_def)
qed

theorem insert_event_pushes_witness:
  "\<forall>ord other reply. \<exists>ft (cx :: payment T_KRContext) msg cx' t. kr_engine_handle shop_pm 0 ord other ft 3 msg reply cx =
      Some (reply\<lparr>re_type := KR_MSGTYPE_SUCCESS\<rparr>, cx') \<and> mg_data msg = (5, 100, 40) \<and>
    db_view (cx_db cx') [(t, [KInt 5, KLong 100, KInt 40])]"
proof (intro allI)
  fix ord other and reply :: T_KRReply
  from first_payment_exists obtain db t tb r db' where p: "first_payment db t tb r db'" by blast
  define cx where "cx = shop db tb 1 \<lparr>gl_cnt = 0, gl_groups = [], gl_time = 0\<rparr> None"
  define msg where "msg = \<lparr>mg_type = KR_MSGTYPE_SUCCESS, mg_method = ''insert_event'', mg_datasrc = 1, mg_data = (5 :: i32, 100 :: i64, 40 :: i32)\<rparr>"
  have m: "mg_method msg = ''insert_event''" "mg_datasrc msg = 1" "mg_data msg = (5, 100, 40)" by (simp_all add: msg_def)
  have db: "cx_db cx = db" by (simp add: cx_def shop_simps)
  from register_default_spec [of "\<lambda>_. 0" "''engine''"] obtain ft where
      reg: "kr_functable_create (\<lambda>_. 0) ''engine'' \<bind> kr_engine_register_default = Some ft"
    by blast
  have set: "kr_context_set shop_pm (Some 3) cx = Some (0, cx\<lparr>cx_arg := Some 3\<rparr>)"
    by (simp add: cx_def shop_def kr_context_set_def kr_dym_check_def renew_def no_area_def Let_def)
  have init: "kr_dym_init (cx_dym (cx\<lparr>cx_arg := Some 3\<rparr>)) \<noteq> None"
    by (simp add: cx_def shop_def kr_dym_init_def init_items_def kr_sdi_init_def kr_ddi_init_def shop_sdi_def shop_ddi_def free_value_def)
  have f: "db_view (cx_db cx) []" "kr_get_table (cx_db cx) (mg_datasrc msg) = Some (Some t)" "db_tables (cx_db cx) t = Some tb"
    "list_all2 fits (tb_fields tb) (mapped tb (mg_data msg))"
    "\<forall>ix \<in> set (idxs (cx_db cx) t). mapped tb (mg_data msg) ! nat (ix_field ix) \<noteq> KDouble NaN"
    "push (length (tb_buff tb)) t (mapped tb (mg_data msg)) [] = [(t, [KInt 5, KLong 100, KInt 40])]"
    using p by (auto simp: first_payment_def db m push_def table_rows_def)
  from insert_event_pushes [OF reg set init m(1) f(1-5), of 0 ord other reply] f(6) m(3)
  show "\<exists>ft (cx :: payment T_KRContext) msg cx' t. kr_engine_handle shop_pm 0 ord other ft 3 msg reply cx =
      Some (reply\<lparr>re_type := KR_MSGTYPE_SUCCESS\<rparr>, cx') \<and> mg_data msg = (5, 100, 40) \<and>
    db_view (cx_db cx') [(t, [KInt 5, KLong 100, KInt 40])]" by metis
qed

end
