(* ===== verification/KR_Data_Loop.thy ===== *)
theory KR_Data_Loop
  imports KR_Data_Props
begin

text \<open>An item whose filter asks for the item itself: the recursion through the callbacks does not end.\<close>

section \<open>The first identifier of a calculator\<close>

fun leftmost :: "T_KRCalcTree \<Rightarrow> T_KRCalcTree" where
  "leftmost (CalcTree [] k op i ty d v) = CalcTree [] k op i ty d v"
| "leftmost (CalcTree (c # cs) k op i ty d v) = leftmost c"

text \<open>The tree begins with the dynamic item \<open>did\<close>.\<close>

definition begins_with :: "int \<Rightarrow> T_KRCalcTree \<Rightarrow> bool" where
  "begins_with did t \<longleftrightarrow> ct_kind (leftmost t) = KR_CALCKIND_DID \<and> ct_id (leftmost t) = did"

lemma traverse_undefined:
  assumes "get_value_cb env KR_CALCKIND_DID did s = None" and "get_type_cb env KR_CALCKIND_DID did s = Some ty" "ty \<noteq> KR_TYPE_UNKNOWN"
  shows "begins_with did t \<Longrightarrow> kr_calc_tree_traverse (calc_tree_eval_node env) t (kc, s) = None"
proof (induction t rule: leftmost.induct)
  case (1 k op i ty0 d v)
  then have k: "k = KR_CALCKIND_DID" "i = did" by (simp_all add: begins_with_def)
  have "calc_tree_eval_extern env (CalcTree [] k op i ty0 d v) (kc, s) = None"
    using assms by (cases "ty0 = KR_TYPE_UNKNOWN") (simp_all add: calc_tree_eval_extern_def k)
  then show ?case by (simp add: calc_tree_eval_node_def k is_extern_kind_def)
next
  case (2 c cs k op i ty0 d v)
  then have "kr_calc_tree_traverse (calc_tree_eval_node env) c (kc, s) = None" by (simp add: begins_with_def)
  then show ?case by simp
qed

section \<open>The loop\<close>

text \<open>What does not change while the item asks for itself.\<close>

definition loops :: "'d T_KRContext \<Rightarrow> int \<Rightarrow> T_KRDDI \<Rightarrow> 'd T_KRContext \<Rightarrow> bool" where
  "loops cx did di s \<longleftrightarrow> same_view cx s \<and> (\<exists>d. the_ddi did s = Some d \<and> di_def d = di_def di \<and> di_calc d = di_calc di \<and>
     di_type d = di_type di \<and> di_curr d = di_curr di \<and> ddi_ready d)"

lemma loop_value:
  fixes pm :: "'d data_params" and cx :: "'d T_KRContext"
  assumes ok: "db_ok (cx_db cx) lg" and c: "cx_curr cx = Some c" "c \<in> set lg"
    and di: "di_curr di \<noteq> Some c" "di_calc di = Some kc" "calc_tree kc = Some t" "begins_with did t" "di_type di \<noteq> KR_TYPE_UNKNOWN"
    and ix: "kr_get_table_index (cx_db cx) (fst c) (long_to_int (dd_index (di_def di))) = Some (Some ix)"
    and new: "same_key (cx_db cx) ix lg c = rs @ [r]" "ddi_window cx (di_def di) r = Some True"
  shows "loops cx did di s \<Longrightarrow> kr_ddi_get_value pm (data_env pm n) did s = None"
proof (induction n arbitrary: s rule: less_induct)
  case (less n)
  from less.prems obtain d where v: "same_view cx s" and d: "the_ddi did s = Some d" "di_def d = di_def di" "di_calc d = di_calc di"
      "di_type d = di_type di" "di_curr d = di_curr di" "ddi_ready d"
    by (auto simp: loops_def)
  let ?d1 = "d\<lparr>di_ind := KR_VALUE_UNSET, di_related := {}, di_value := V_zero\<rparr>"
  let ?s0 = "put_ddi did ?d1 s"
  have s: "cx_db s = cx_db cx" "cx_curr s = Some c" using v c(1) by (simp_all add: same_view_def)
  have init: "kr_ddi_init d = Some ?d1" using d(6) by (auto simp: kr_ddi_init_def ddi_ready_def)
  have g0: "db_ok (cx_db ?s0) lg" "cx_curr ?s0 = Some c"
    "kr_get_table_index (cx_db ?s0) (fst c) (long_to_int (dd_index (di_def d))) = Some (Some ix)"
    using ok ix d s by simp_all
  from gather_spec [OF g0(1,2) c(2) g0(3)] obtain la l ty where g: "gather (dd_index (di_def d)) ?s0 =
      Some (True, ?s0\<lparr>cx_key_type := ty, cx_key := Some (FieldPtr c (nat (ix_field ix))), cx_reclist := Some la\<rparr>)"
      "db_lists (cx_db s) la = Some l" "l_ok l" "l_seq l = rs @ [r]"
    using new(1) s by auto
  define d2 where "d2 = ?d1\<lparr>di_aggr := Aggr_default\<rparr>"
  define s2 where "s2 = put_ddi did d2 (?s0\<lparr>cx_key_type := ty, cx_key := Some (FieldPtr c (nat (ix_field ix))), cx_reclist := Some la\<rparr>)"
  define s3 where "s3 = s2\<lparr>cx_rec := Some r\<rparr>"
  have mem: "the_ddi did (?s0\<lparr>cx_key_type := ty, cx_key := Some (FieldPtr c (nat (ix_field ix))), cx_reclist := Some la\<rparr>) \<noteq> None"
    using d(1) by (simp add: the_ddi_def) (simp add: the_ddi_def [symmetric])
  have v3: "same_view cx s3" using v by (simp add: s3_def s2_def same_view_def)
  have d3: "the_ddi did s3 = Some d2" using mem by (simp add: s3_def s2_def)
  have "ddi_ready d2" using d(6) by (auto simp: d2_def ddi_ready_def free_value_def)
  then have "loops cx did di s3" using v3 d3 d by (auto simp: loops_def d2_def)
  then have again: "kr_ddi_get_value pm (data_env pm m) did s3 = None" if "m < n" for m by (rule less.IH [OF that])
  have "get_value_cb (data_env pm n) KR_CALCKIND_DID did s3 = None"
    using again by (cases n) (simp_all add: kr_data_get_value_def)
  note gv = this
  have gt: "get_type_cb (data_env pm n) KR_CALCKIND_DID did s3 = Some (di_type di)"
    using d3 d(4) by (cases n) (simp_all add: kr_data_get_type_def kr_ddi_get_type_def d2_def)
  have "kr_calc_tree_traverse (calc_tree_eval_node (data_env pm n)) t (kc, s3) = None"
    by (rule traverse_undefined [OF gv gt di(5,4)])
  then have ev: "kr_calc_eval (data_env pm n) kc s3 = None" using di(3) by (simp add: kr_calc_eval_def kr_calc_tree_eval_def)
  have w: "ddi_window s3 (di_def d2) r = Some True"
    using new(2) d(2) by (simp add: ddi_window_view(1) [OF v3]) (simp add: d2_def)
  have calc: "di_calc d2 = Some kc" using d(3) di(2) by (simp add: d2_def)
  have rec: "ddi_record (data_env pm n) did r s2 = None"
    using d3 w ev calc unfolding s3_def by (simp add: ddi_record_def)
  obtain as where as: "dll l (as @ [])" "l_seq l = l_vals l as" using g(3) by (auto elim: l_okE)
  then obtain a as' where a: "as = as' @ [a]" using g(4) by (cases as rule: rev_cases) (simp_all add: l_vals_def)
  with as(1) have dl: "dll l (as' @ a # [])" by simp
  from dllD(2) [OF dl] obtain x where x: "l_mem l a = Some \<lparr>nd_prev = last_of None as', nd_next = None, nd_value = x\<rparr>"
    by (auto simp: seg_append)
  have "l_vals l as = l_vals l as' @ [x]" by (simp add: a l_vals_def val_at_def x)
  then have xr: "x = r" using as(2) g(4) by simp
  have tail: "l_tail l = Some a" using dllD(4) [OF dl] by simp
  have s2: "cx_reclist s2 = Some la" "cx_db s2 = cx_db s" by (simp_all add: s2_def)
  have "kr_ddi_aggr_func (data_env pm n) did s2 = None"
    using g(2) x xr tail rec s2 by (simp add: kr_ddi_aggr_func_def) (subst ddi_walk.simps, simp)
  moreover have aggr: "(if di_aggr ?d1 = Aggr_null then Aggr_default else di_aggr ?d1) = Aggr_default"
    using d(6) by (cases "di_aggr d") (auto simp: ddi_ready_def)
  ultimately have "kr_ddi_compute pm (data_env pm n) did s = None"
    using d(1) init g(1) by (simp add: kr_ddi_compute_def Let_def s2_def d2_def)
  then show ?case using d(1,5) di(1) s(2) by (simp add: kr_ddi_get_value_def)
qed

text \<open>
  C22. An item whose filter begins with the item itself has no value, however deep the recursion may
  go: for every record the item is asked for, as soon as the newest record with its key is one the
  filter is evaluated for, the evaluation asks for the item, which is not yet marked as computed for
  the record, and starts the same computation again. (On the machine the stack overflows.)
\<close>

theorem ddi_self_reference_diverges:
  fixes pm :: "'d data_params" and cx :: "'d T_KRContext"
  assumes "db_ok (cx_db cx) lg" and "cx_curr cx = Some c" and "c \<in> set lg"
    and "the_ddi did cx = Some di" and "ddi_ready di" and "di_curr di \<noteq> Some c"
    and "di_calc di = Some kc" and "calc_tree kc = Some t" and "begins_with did t" and "di_type di \<noteq> KR_TYPE_UNKNOWN"
    and "kr_get_table_index (cx_db cx) (fst c) (long_to_int (dd_index (di_def di))) = Some (Some ix)"
    and "same_key (cx_db cx) ix lg c = rs @ [r]" and "ddi_window cx (di_def di) r = Some True"
  shows "kr_data_get_value pm (data_env pm n) KR_CALCKIND_DID did cx = None"
proof -
  have "loops cx did di cx" using assms(4,5) by (simp add: loops_def same_view_def)
  from loop_value [OF assms(1-3,6-13) this] show ?thesis by (simp add: kr_data_get_value_def)
qed

text \<open>Item 7 of the example, with the filter \<open>D_7 > 1\<close>.\<close>

theorem ddi_self_reference_diverges_witness:
  "\<exists>(cx :: payment T_KRContext). \<forall>n. kr_data_get_value shop_pm (data_env shop_pm n) KR_CALCKIND_DID 7 cx = None"
proof -
  from payments_exist obtain db tb ix r1 r2 where p: "payments db tb ix r1 r2" by blast
  let ?gl = "\<lparr>gl_cnt = 0, gl_groups = [], gl_time = 0\<rparr>"
  define t where "t = logic_tree KR_CALCOP_GT (CalcTree [] KR_CALCKIND_DID None 7 KR_TYPE_UNKNOWN KR_VALUE_UNSET V_zero) (int_leaf 1)"
  define di where "di = (shop_ddi tb)\<lparr>di_calc := Some (calc_of t)\<rparr>"
  define cx0 where "cx0 = shop db tb 1 ?gl (Some r2)"
  define cx where "cx = put_ddi 7 di cx0"
  have m: "the_ddi 7 cx0 \<noteq> None" by (simp add: cx0_def shop_simps)
  have cx: "cx_db cx = db" "cx_curr cx = Some r2" "the_ddi 7 cx = Some di" using m by (simp_all add: cx_def) (simp_all add: cx0_def shop_simps)
  note f = payments_fields [OF p]
  note pk = payments_same_key [OF p]
  have df: "dd_stat_type (di_def di) = CHR ''I''" "dd_stat_value (di_def di) = 60" "dd_datasrc (di_def di) = tb_id tb" "dd_index (di_def di) = 10"
    by (simp_all add: di_def shop_ddi_def)
  have w: "ddi_window cx (di_def di) r2 = Some True" by (simp add: ddi_window_def df cx f chk_long_def)
  have d: "ddi_ready di" "di_curr di \<noteq> Some r2" "di_calc di = Some (calc_of t)" "calc_tree (calc_of t) = Some t"
    "begins_with 7 t" "di_type di \<noteq> KR_TYPE_UNKNOWN"
    by (simp_all add: di_def shop_ddi_def ddi_ready_def free_value_def calc_of_def t_def begins_with_def logic_tree_def)
  have k: "db_ok (cx_db cx) [r1, r2]" "kr_get_table_index (cx_db cx) (fst r2) (long_to_int (dd_index (di_def di))) = Some (Some ix)"
    "same_key (cx_db cx) ix [r1, r2] r2 = [r1] @ [r2]" "r2 \<in> set [r1, r2]"
    using p pk by (simp_all add: payments_def cx df)
  from ddi_self_reference_diverges [OF k(1) cx(2) k(4) cx(3) d k(2,3) w] show ?thesis by blast
qed

end
