(* ===== verification/KR_Json.thy ===== *)
theory KR_Json
  imports KR_CLib
begin

text \<open>
  \<open>krutils/kr_json.c\<close>: JSON documents as trees of nodes, their parser and their printer. A node's
  children are its list of children (the \<open>next\<close> and \<open>prev\<close> links); references and user supplied
  allocators, which the program does not use, are left out, and an allocation does not fail. A text is what is left of the input, so
  the end of the list is the terminating NUL, and reading past it is undefined (\<^term>\<open>None\<close>). The
  result of a parsing function is \<^term>\<open>Some None\<close> when it returns NULL.

  \<open>json_lib\<close> is what the code takes from the C library: \<open>pow(10.0, x)\<close> and the formats \<open>%.0f\<close>, \<open>%e\<close>
  and \<open>%f\<close> of \<open>printf\<close>.
\<close>

section \<open>Nodes\<close>

datatype cjson_type = cJSON_False | cJSON_True | cJSON_NULL | cJSON_Number | cJSON_String | cJSON_Array | cJSON_Object

datatype cJSON = CJSON
  (cj_child: "cJSON list") (cj_type: cjson_type) (cj_valuestring: "string option") (cj_valueint: int)
  (cj_valuedouble: kr_double) (cj_string: "string option")

record json_lib =
  jl_pow10 :: "kr_double \<Rightarrow> kr_double"
  jl_fmt0f :: "kr_double \<Rightarrow> string"
  jl_fmte :: "kr_double \<Rightarrow> string"
  jl_fmtf :: "kr_double \<Rightarrow> string"

definition cJSON_New_Item :: cJSON where
  "cJSON_New_Item = CJSON [] cJSON_False None 0 (Fin 0) None"

fun cj_set_type :: "cjson_type \<Rightarrow> cJSON \<Rightarrow> cJSON" where
  "cj_set_type ty (CJSON cs _ vs vi vd nm) = CJSON cs ty vs vi vd nm"

fun cj_set_string :: "string option \<Rightarrow> cJSON \<Rightarrow> cJSON" where
  "cj_set_string nm (CJSON cs ty vs vi vd _) = CJSON cs ty vs vi vd nm"

fun cj_set_valuestring :: "string option \<Rightarrow> cJSON \<Rightarrow> cJSON" where
  "cj_set_valuestring vs (CJSON cs ty _ vi vd nm) = CJSON cs ty vs vi vd nm"

fun cj_set_valueint :: "int \<Rightarrow> cJSON \<Rightarrow> cJSON" where
  "cj_set_valueint vi (CJSON cs ty vs _ vd nm) = CJSON cs ty vs vi vd nm"

fun cj_set_child :: "cJSON list \<Rightarrow> cJSON \<Rightarrow> cJSON" where
  "cj_set_child cs (CJSON _ ty vs vi vd nm) = CJSON cs ty vs vi vd nm"

section \<open>Making and reading nodes\<close>

text \<open>The conversion of a double that does not fit an \<open>int\<close> is undefined.\<close>

definition cJSON_CreateNumber :: "kr_double \<Rightarrow> cJSON option" where
  "cJSON_CreateNumber num = do { i \<leftarrow> d_to_i32 num; Some (CJSON [] cJSON_Number None i num None) }"

definition cJSON_CreateString :: "string \<Rightarrow> cJSON" where
  "cJSON_CreateString s = CJSON [] cJSON_String (Some s) 0 (Fin 0) None"

definition cJSON_CreateArray :: cJSON where
  "cJSON_CreateArray = cj_set_type cJSON_Array cJSON_New_Item"

definition cJSON_CreateObject :: cJSON where
  "cJSON_CreateObject = cj_set_type cJSON_Object cJSON_New_Item"

definition cJSON_CreateNull :: cJSON where
  "cJSON_CreateNull = cj_set_type cJSON_NULL cJSON_New_Item"

definition cJSON_CreateBool :: "bool \<Rightarrow> cJSON" where
  "cJSON_CreateBool b = cj_set_type (if b then cJSON_True else cJSON_False) cJSON_New_Item"

text \<open>A NULL item is not added.\<close>

fun cJSON_AddItemToArray :: "cJSON \<Rightarrow> cJSON option \<Rightarrow> cJSON" where
  "cJSON_AddItemToArray (CJSON cs ty vs vi vd nm) item =
     (case item of None \<Rightarrow> CJSON cs ty vs vi vd nm | Some x \<Rightarrow> CJSON (cs @ [x]) ty vs vi vd nm)"

definition cJSON_AddItemToObject :: "cJSON \<Rightarrow> string \<Rightarrow> cJSON option \<Rightarrow> cJSON" where
  "cJSON_AddItemToObject obj name item = cJSON_AddItemToArray obj (map_option (cj_set_string (Some name)) item)"

definition cJSON_AddNumberToObject :: "cJSON \<Rightarrow> string \<Rightarrow> kr_double \<Rightarrow> cJSON option" where
  "cJSON_AddNumberToObject obj name n = do {
     x \<leftarrow> cJSON_CreateNumber n;
     Some (cJSON_AddItemToObject obj name (Some x))
   }"

definition cJSON_AddStringToObject :: "cJSON \<Rightarrow> string \<Rightarrow> string \<Rightarrow> cJSON" where
  "cJSON_AddStringToObject obj name s = cJSON_AddItemToObject obj name (Some (cJSON_CreateString s))"

definition cJSON_GetArraySize :: "cJSON \<Rightarrow> nat" where
  "cJSON_GetArraySize a = length (cj_child a)"

definition cJSON_GetArrayItem :: "cJSON \<Rightarrow> int \<Rightarrow> cJSON option" where
  "cJSON_GetArrayItem a item = (if nat item < length (cj_child a) then Some (cj_child a ! nat item) else None)"

text \<open>
  The comparison of names in lower case: \<open>tolower\<close> of a \<open>char\<close> below \<open>EOF\<close> is undefined. The first
  character of a text is 0 at its end.
\<close>

definition first_char :: "string \<Rightarrow> char" where
  "first_char s = (case s of [] \<Rightarrow> CHR 0x00 | c # _ \<Rightarrow> c)"

fun strcasecmp_loop :: "string \<Rightarrow> string \<Rightarrow> int option" where
  "strcasecmp_loop s t = do {
     x \<leftarrow> c_tolower (schar (first_char s));
     y \<leftarrow> c_tolower (schar (first_char t));
     if x = y then (case s of [] \<Rightarrow> Some 0 | c # s' \<Rightarrow> strcasecmp_loop s' (tl t))
     else do {
       u \<leftarrow> c_tolower (int (uchar (first_char s)));
       v \<leftarrow> c_tolower (int (uchar (first_char t)));
       Some (u - v)
     }
   }"

declare strcasecmp_loop.simps [simp del]

definition cJSON_strcasecmp :: "string option \<Rightarrow> string option \<Rightarrow> int option" where
  "cJSON_strcasecmp s1 s2 = (case (s1, s2) of
       (None, None) \<Rightarrow> Some 0
     | (None, Some _) \<Rightarrow> Some 1
     | (Some _, None) \<Rightarrow> Some 1
     | (Some a, Some b) \<Rightarrow> strcasecmp_loop a b)"

primrec find_name :: "string \<Rightarrow> cJSON list \<Rightarrow> cJSON option option" where
  "find_name name [] = Some None"
| "find_name name (c # cs) = do {
     r \<leftarrow> cJSON_strcasecmp (cj_string c) (Some name);
     if r = 0 then Some (Some c) else find_name name cs
   }"

definition cJSON_GetObjectItem :: "cJSON \<Rightarrow> string \<Rightarrow> cJSON option option" where
  "cJSON_GetObjectItem obj name = find_name name (cj_child obj)"

definition cJSON_GetNumber :: "cJSON \<Rightarrow> string \<Rightarrow> kr_double option" where
  "cJSON_GetNumber obj name = map_option (\<lambda>node. case node of None \<Rightarrow> Fin 0 | Some x \<Rightarrow> cj_valuedouble x) (cJSON_GetObjectItem obj name)"

definition cJSON_GetString :: "cJSON \<Rightarrow> string \<Rightarrow> string option option" where
  "cJSON_GetString obj name = map_option (\<lambda>node. case node of None \<Rightarrow> None | Some x \<Rightarrow> cj_valuestring x) (cJSON_GetObjectItem obj name)"

section \<open>Numbers\<close>

definition d_abs :: "kr_double \<Rightarrow> kr_double" where
  "d_abs d = (if d_sign d then d_neg d else d)"

definition d_floor :: "kr_double \<Rightarrow> kr_double" where
  "d_floor d = (case d of Fin q \<Rightarrow> Fin (of_int \<lfloor>q\<rfloor>) | _ \<Rightarrow> d)"

definition dbl_epsilon :: kr_double where
  "dbl_epsilon = Fin (1 / 2 ^ 52)"

text \<open>The loop over the digits before and after the point; \<open>scale\<close> counts the latter down.\<close>

fun number_digits :: "kr_double \<Rightarrow> string \<Rightarrow> kr_double \<times> string" where
  "number_digits n [] = (n, [])"
| "number_digits n (c # s) =
     (if c_isdigit c then number_digits (d_add (d_mul n (Fin 10)) (d_of_int (int (digit_val c)))) s else (n, c # s))"

fun fraction_digits :: "kr_double \<Rightarrow> kr_double \<Rightarrow> string \<Rightarrow> kr_double \<times> kr_double \<times> string" where
  "fraction_digits n scale [] = (n, scale, [])"
| "fraction_digits n scale (c # s) =
     (if c_isdigit c then fraction_digits (d_add (d_mul n (Fin 10)) (d_of_int (int (digit_val c)))) (d_sub scale (Fin 1)) s
      else (n, scale, c # s))"

fun exponent_digits :: "int \<Rightarrow> string \<Rightarrow> (int \<times> string) option" where
  "exponent_digits e [] = Some (e, [])"
| "exponent_digits e (c # s) =
     (if c_isdigit c then do { e1 \<leftarrow> chk_int (e * 10 + int (digit_val c)); exponent_digits e1 s } else Some (e, c # s))"

definition skip_sign :: "string \<Rightarrow> int \<times> string" where
  "skip_sign s = (if first_char s = CHR ''+'' then (1, tl s) else if first_char s = CHR ''-'' then (- 1, tl s) else (1, s))"

definition parse_number :: "json_lib \<Rightarrow> cJSON \<Rightarrow> string \<Rightarrow> (cJSON \<times> string) option" where
  "parse_number lib item num = (
     let (sign, s1) = (if first_char num = CHR ''-'' then (Fin (- 1), tl num) else (Fin 1, num));
         s2 = (if first_char s1 = CHR ''0'' then tl s1 else s1);
         (n1, s3) = (if c_isdigit (first_char s2) \<and> first_char s2 \<noteq> CHR ''0'' then number_digits (Fin 0) s2 else (Fin 0, s2));
         (n2, scale, s4) = (if first_char s3 = CHR ''.'' \<and> c_isdigit (first_char (tl s3)) then fraction_digits n1 (Fin 0) (tl s3)
                            else (n1, Fin 0, s3))
     in do {
       (e, s5) \<leftarrow>
         (if first_char s4 = CHR ''e'' \<or> first_char s4 = CHR ''E'' then
            (let (signsubscale, s) = skip_sign (tl s4)
             in do { (sub, r) \<leftarrow> exponent_digits 0 s; Some (sub * signsubscale, r) })
          else Some (0, s4));
       let d = d_mul (d_mul sign n2) (jl_pow10 lib (d_add scale (d_of_int e)));
       i \<leftarrow> d_to_i32 d;
       Some (CJSON (cj_child item) cJSON_Number (cj_valuestring item) i d (cj_string item), s5)
     })"

definition print_number :: "json_lib \<Rightarrow> cJSON \<Rightarrow> string" where
  "print_number lib item = (let d = cj_valuedouble item; i = cj_valueint item in
     if d_le (d_abs (d_sub (d_of_int i) d)) dbl_epsilon \<and> d_le d (Fin (2 ^ 31 - 1)) \<and> d_le (Fin (- (2 ^ 31))) d then fmt_int i
     else if d_le (d_abs (d_sub (d_floor d) d)) dbl_epsilon \<and> d_lt (d_abs d) (round_double (10 ^ 60)) then jl_fmt0f lib d
     else if d_lt (d_abs d) (round_double (1 / 10 ^ 6)) \<or> d_lt (Fin (10 ^ 9)) (d_abs d) then jl_fmte lib d
     else jl_fmtf lib d)"

section \<open>Strings\<close>

text \<open>The first pass over a string's text: its length as the code counts it. A backslash at the end of the input makes it read on.\<close>

fun string_length :: "string \<Rightarrow> nat option" where
  "string_length [] = Some 0"
| "string_length (c # s) =
     (if c = CHR 0x22 then Some 0
      else if c = CHR 0x5C then (case s of [] \<Rightarrow> None | _ # s' \<Rightarrow> map_option Suc (string_length s'))
      else map_option Suc (string_length s))"

text \<open>\<open>sscanf(s, "%4x", &uc)\<close>: \<^term>\<open>None\<close> when nothing matches and \<open>uc\<close> stays as it is.\<close>

definition scan_hex4 :: "string \<Rightarrow> nat option" where
  "scan_hex4 s = (let f = take 4 (dropWhile c_isspace s);
     neg = (first_char f = CHR ''-'');
     g = (if neg \<or> first_char f = CHR ''+'' then tl f else f);
     h = (if lower (take 2 g) = ''0x'' then drop 2 g else g);
     ds = takeWhile is_hex_digit h; n = digits_val 16 (map hex_val ds)
   in if ds = [] then None else Some (if neg then (2 ^ 32 - n) mod 2 ^ 32 else n))"

text \<open>The bytes of a code point, and what the shifts leave of it.\<close>

definition utf8_tail :: "nat \<Rightarrow> char" where
  "utf8_tail uc = char_of (128 + uc mod 64)"

definition utf8_bytes :: "nat \<Rightarrow> string \<times> nat" where
  "utf8_bytes uc =
     (if uc < 0x80 then ([char_of uc], uc)
      else if uc < 0x800 then ([char_of (0xC0 + uc div 64), utf8_tail uc], uc div 64)
      else if uc < 0x10000 then ([char_of (0xE0 + uc div 4096), utf8_tail (uc div 64), utf8_tail uc], uc div 4096)
      else ([char_of (0xF0 + uc div 262144 mod 16), utf8_tail (uc div 4096), utf8_tail (uc div 64), utf8_tail uc], uc div 262144))"

text \<open>
  The second pass, after the opening quote: the characters written and the rest of the input, which
  begins with the closing quote or is at its end. \<open>uc\<close> and \<open>uc2\<close> are the variables of the code,
  \<^term>\<open>None\<close> while they are uninitialised. The escape with \<open>u\<close> skips four characters whatever they are, and may skip the end of the input.
\<close>

definition escaped_char :: "char \<Rightarrow> char" where
  "escaped_char c =
     (if c = CHR ''b'' then CHR 0x08 else if c = CHR ''f'' then CHR 0x0C else if c = CHR ''n'' then CHR 0x0A
      else if c = CHR ''r'' then CHR 0x0D else if c = CHR ''t'' then CHR 0x09 else c)"

definition push_out :: "string \<Rightarrow> (string \<times> string) option \<Rightarrow> (string \<times> string) option" where
  "push_out cs r = map_option (\<lambda>(out, rest). (cs @ out, rest)) r"

definition scan_into :: "nat option \<Rightarrow> string \<Rightarrow> nat option" where
  "scan_into uc s = (case scan_hex4 s of None \<Rightarrow> uc | Some n \<Rightarrow> Some n)"

fun string_chars :: "nat option \<Rightarrow> nat option \<Rightarrow> string \<Rightarrow> (string \<times> string) option" where
  "string_chars uc uc2 [] = Some ([], [])"
| "string_chars uc uc2 (c # s) =
     (if c = CHR 0x22 then Some ([], c # s)
      else if c \<noteq> CHR 0x5C then push_out [c] (string_chars uc uc2 s)
      else (case s of
          [] \<Rightarrow> None
        | e # r \<Rightarrow>
            if e \<noteq> CHR ''u'' then push_out [escaped_char e] (string_chars uc uc2 r)
            else (case scan_into uc r of
                None \<Rightarrow> None
              | Some n \<Rightarrow>
                  if length r < 4 then None
                  else if 0xDC00 \<le> n \<and> n \<le> 0xDFFF \<or> n = 0 then string_chars (Some n) uc2 (drop 4 r)
                  else if 0xD800 \<le> n \<and> n \<le> 0xDBFF then
                    (if take 2 (drop 4 r) \<noteq> [CHR 0x5C, CHR ''u''] then string_chars (Some n) uc2 (drop 4 r)
                     else (case scan_into uc2 (drop 6 r) of
                         None \<Rightarrow> None
                       | Some m \<Rightarrow>
                           if length (drop 6 r) < 4 then None
                           else if m < 0xDC00 \<or> m > 0xDFFF then string_chars (Some n) (Some m) (drop 10 r)
                           else let (bs, n') = utf8_bytes (0x10000 + n mod 1024 * 1024 + m mod 1024)
                                in push_out bs (string_chars (Some n') (Some m) (drop 10 r))))
                  else let (bs, n') = utf8_bytes n in push_out bs (string_chars (Some n') uc2 (drop 4 r)))))"

text \<open>The output has room for the length the first pass counted.\<close>

definition parse_string :: "cJSON \<Rightarrow> string \<Rightarrow> (cJSON \<times> string) option option" where
  "parse_string item str =
     (if first_char str \<noteq> CHR 0x22 then Some None
      else do {
        len \<leftarrow> string_length (tl str);
        (out, rest) \<leftarrow> string_chars None None (tl str);
        assert_c (length out \<le> len);
        Some (Some (cj_set_type cJSON_String (cj_set_valuestring (Some out) item), tl rest))
      })"

definition hex_digit :: "nat \<Rightarrow> char" where
  "hex_digit n = (if n < 10 then char_of (48 + n) else char_of (87 + n))"

definition print_char :: "char \<Rightarrow> string" where
  "print_char c =
     (if 31 < uchar c \<and> c \<noteq> CHR 0x22 \<and> c \<noteq> CHR 0x5C then [c]
      else CHR 0x5C #
        (if c = CHR 0x5C \<or> c = CHR 0x22 then [c]
         else if c = CHR 0x08 then ''b'' else if c = CHR 0x0C then ''f'' else if c = CHR 0x0A then ''n''
         else if c = CHR 0x0D then ''r'' else if c = CHR 0x09 then ''t''
         else ''u00'' @ [hex_digit (uchar c div 16), hex_digit (uchar c mod 16)]))"

definition print_string_ptr :: "string option \<Rightarrow> string" where
  "print_string_ptr str = (case str of None \<Rightarrow> [] | Some s \<Rightarrow> CHR 0x22 # concat (map print_char s) @ [CHR 0x22])"

section \<open>The parser\<close>

definition skip_ws :: "string \<Rightarrow> string" where
  "skip_ws s = dropWhile (\<lambda>c. uchar c \<le> 32) s"

text \<open>
  \<open>parse_value\<close>, \<open>parse_array\<close> and \<open>parse_object\<close> call each other on ever shorter texts; the fuel
  bounds the calls. \<open>parse_elements\<close> is the loop of \<open>parse_array\<close> from an element on, \<open>parse_members\<close>
  that of \<open>parse_object\<close> from a name on; both stop at the first character that is no comma.
\<close>

fun parse_value :: "json_lib \<Rightarrow> nat \<Rightarrow> cJSON \<Rightarrow> string \<Rightarrow> (cJSON \<times> string) option option"
  and parse_elements :: "json_lib \<Rightarrow> nat \<Rightarrow> string \<Rightarrow> (cJSON list \<times> string) option option"
  and parse_members :: "json_lib \<Rightarrow> nat \<Rightarrow> string \<Rightarrow> (cJSON list \<times> string) option option" where
  "parse_value lib 0 item s = None"
| "parse_value lib (Suc n) item s =
     (if take 4 s = ''null'' then Some (Some (cj_set_type cJSON_NULL item, drop 4 s))
      else if take 5 s = ''false'' then Some (Some (cj_set_type cJSON_False item, drop 5 s))
      else if take 4 s = ''true'' then Some (Some (cj_set_valueint 1 (cj_set_type cJSON_True item), drop 4 s))
      else if first_char s = CHR 0x22 then parse_string item s
      else if first_char s = CHR ''-'' \<or> c_isdigit (first_char s) then map_option Some (parse_number lib item s)
      else if first_char s = CHR ''['' then
        (let s1 = skip_ws (tl s) in
         if first_char s1 = CHR '']'' then Some (Some (cj_set_type cJSON_Array item, tl s1))
         else do {
           r \<leftarrow> parse_elements lib n s1;
           (case r of
              None \<Rightarrow> Some None
            | Some (cs, s2) \<Rightarrow>
                if first_char s2 = CHR '']'' then Some (Some (cj_set_child cs (cj_set_type cJSON_Array item), tl s2))
                else Some None)
         })
      else if first_char s = CHR ''{'' then
        (let s1 = skip_ws (tl s) in
         if first_char s1 = CHR ''}'' then Some (Some (cj_set_type cJSON_Object item, tl s1))
         else do {
           r \<leftarrow> parse_members lib n s1;
           (case r of
              None \<Rightarrow> Some None
            | Some (cs, s2) \<Rightarrow>
                if first_char s2 = CHR ''}'' then Some (Some (cj_set_child cs (cj_set_type cJSON_Object item), tl s2))
                else Some None)
         })
      else Some None)"
| "parse_elements lib 0 s = None"
| "parse_elements lib (Suc n) s = do {
     r \<leftarrow> parse_value lib n cJSON_New_Item (skip_ws s);
     (case r of
        None \<Rightarrow> Some None
      | Some (c, s1) \<Rightarrow>
          let s2 = skip_ws s1 in
          if first_char s2 \<noteq> CHR '','' then Some (Some ([c], s2))
          else do { q \<leftarrow> parse_elements lib n (tl s2); Some (map_option (\<lambda>(cs, r). (c # cs, r)) q) })
   }"
| "parse_members lib 0 s = None"
| "parse_members lib (Suc n) s = do {
     r \<leftarrow> parse_string cJSON_New_Item (skip_ws s);
     (case r of
        None \<Rightarrow> Some None
      | Some (k, s1) \<Rightarrow>
          let s2 = skip_ws s1; item = cj_set_valuestring None (cj_set_string (cj_valuestring k) k) in
          if first_char s2 \<noteq> CHR '':'' then Some None
          else do {
            p \<leftarrow> parse_value lib n item (skip_ws (tl s2));
            (case p of
               None \<Rightarrow> Some None
             | Some (c, s3) \<Rightarrow>
                 let s4 = skip_ws s3 in
                 if first_char s4 \<noteq> CHR '','' then Some (Some ([c], s4))
                 else do { q \<leftarrow> parse_members lib n (tl s4); Some (map_option (\<lambda>(cs, r). (c # cs, r)) q) })
          })
   }"

text \<open>Every call takes at least one character from the text, or is the call of the first element after one.\<close>

definition parse_fuel :: "string \<Rightarrow> nat" where
  "parse_fuel s = 2 * length s + 2"

definition cJSON_ParseWithOpts :: "json_lib \<Rightarrow> string \<Rightarrow> bool \<Rightarrow> (cJSON \<times> string) option option" where
  "cJSON_ParseWithOpts lib value require_null_terminated = do {
     r \<leftarrow> parse_value lib (parse_fuel value) cJSON_New_Item (skip_ws value);
     Some (case r of
        None \<Rightarrow> None
      | Some (c, end_) \<Rightarrow> if require_null_terminated \<and> skip_ws end_ \<noteq> [] then None
                         else Some (c, if require_null_terminated then skip_ws end_ else end_))
   }"

definition cJSON_Parse :: "json_lib \<Rightarrow> string \<Rightarrow> cJSON option option" where
  "cJSON_Parse lib value = map_option (map_option fst) (cJSON_ParseWithOpts lib value False)"

section \<open>The printer\<close>

text \<open>
  \<^term>\<open>None\<close> when \<open>print_object\<close> writes past its buffer, which for the empty object at depth 0 with formatting is one byte too short.
\<close>

definition tabs :: "nat \<Rightarrow> string" where
  "tabs n = replicate n (CHR 0x09)"

fun print_value :: "json_lib \<Rightarrow> bool \<Rightarrow> nat \<Rightarrow> cJSON \<Rightarrow> string option"
  and print_elements :: "json_lib \<Rightarrow> bool \<Rightarrow> nat \<Rightarrow> cJSON list \<Rightarrow> string option"
  and print_members :: "json_lib \<Rightarrow> bool \<Rightarrow> nat \<Rightarrow> cJSON list \<Rightarrow> string option" where
  "print_value lib fmt depth (CJSON cs ty vs vi vd nm) = (case ty of
       cJSON_NULL \<Rightarrow> Some ''null''
     | cJSON_False \<Rightarrow> Some ''false''
     | cJSON_True \<Rightarrow> Some ''true''
     | cJSON_Number \<Rightarrow> Some (print_number lib (CJSON cs ty vs vi vd nm))
     | cJSON_String \<Rightarrow> Some (print_string_ptr vs)
     | cJSON_Array \<Rightarrow>
         if cs = [] then Some ''[]''
         else do { t \<leftarrow> print_elements lib fmt (Suc depth) cs; Some (''['' @ t @ '']'') }
     | cJSON_Object \<Rightarrow>
         if cs = [] then
           (if fmt \<and> depth = 0 then None
            else Some (''{'' @ (if fmt then CHR 0x0A # tabs (depth - 1) else []) @ ''}''))
         else do {
           t \<leftarrow> print_members lib fmt (Suc depth) cs;
           Some (''{'' @ (if fmt then [CHR 0x0A] else []) @ t @ (if fmt then tabs depth else []) @ ''}'')
         })"
| "print_elements lib fmt depth [] = Some []"
| "print_elements lib fmt depth (c # cs) = do {
     t \<leftarrow> print_value lib fmt depth c;
     ts \<leftarrow> print_elements lib fmt depth cs;
     Some (t @ (if cs = [] then [] else if fmt then '', '' else '','') @ ts)
   }"
| "print_members lib fmt depth [] = Some []"
| "print_members lib fmt depth (c # cs) = do {
     t \<leftarrow> print_value lib fmt depth c;
     ts \<leftarrow> print_members lib fmt depth cs;
     Some ((if fmt then tabs depth else []) @ print_string_ptr (cj_string c) @ '':'' @ (if fmt then [CHR 0x09] else []) @
       t @ (if cs = [] then [] else '','') @ (if fmt then [CHR 0x0A] else []) @ ts)
   }"

definition cJSON_Print :: "json_lib \<Rightarrow> cJSON \<Rightarrow> string option" where
  "cJSON_Print lib item = print_value lib True 0 item"

definition cJSON_PrintUnformatted :: "json_lib \<Rightarrow> cJSON \<Rightarrow> string option" where
  "cJSON_PrintUnformatted lib item = print_value lib False 0 item"

end
