(* ===== verification/KR_Json_Text.thy ===== *)
theory KR_Json_Text
  imports KR_Json
begin

text \<open>The texts of numbers and strings: what the printer writes, the parser reads back.\<close>

lemma uchar_char_of: "uchar (char_of n) = n mod 256"
  by (simp add: uchar_def)

lemma uchar_chars:
  "uchar (CHR ''0'') = 48" "uchar (CHR ''-'') = 45" "uchar (CHR ''.'') = 46" "uchar (CHR ''e'') = 101" "uchar (CHR ''E'') = 69"
  by (simp_all add: uchar_def)

lemma char_neqI: "uchar a \<noteq> uchar b \<Longrightarrow> a \<noteq> b"
  by auto

section \<open>Numbers\<close>

lemma round_int: "\<bar>n\<bar> < 2 ^ 53 \<Longrightarrow> round_double (of_int n) = Fin (of_int n)"
  using d_of_int_exact [of n] by (simp add: d_of_int_def)

lemma mul_ints:
  assumes "\<bar>a\<bar> < 2 ^ 53" and "\<bar>b\<bar> < 2 ^ 53" and "\<bar>a * b\<bar> < 2 ^ 53" and "a * b \<noteq> 0 \<or> (0 \<le> a \<and> 0 \<le> b)"
  shows "d_mul (d_of_int a) (d_of_int b) = d_of_int (a * b)"
proof (cases "a * b = 0")
  case True
  with assms show ?thesis by (auto simp: d_of_int_exact d_mul_def Let_def zero_signed_def)
next
  case False
  have "rat_of_int a * rat_of_int b \<noteq> 0" using False by simp
  with assms show ?thesis
    using round_int [OF assms(3)] by (simp add: d_of_int_exact d_mul_def Let_def del: of_int_mult flip: of_int_mult)
qed

lemma add_ints:
  assumes "\<bar>a\<bar> < 2 ^ 53" and "\<bar>b\<bar> < 2 ^ 53" and "\<bar>a + b\<bar> < 2 ^ 53"
  shows "d_add (d_of_int a) (d_of_int b) = d_of_int (a + b)"
  using assms round_int [OF assms(3)] by (simp add: d_of_int_exact del: of_int_add flip: of_int_add)

lemma step_digit:
  assumes "10 * n + d < 2 ^ 53" and "d < 10"
  shows "d_add (d_mul (d_of_int (int n)) (Fin 10)) (d_of_int (int d)) = d_of_int (int (10 * n + d))"
proof -
  have ten: "Fin 10 = d_of_int 10" by (simp add: d_of_int_exact)
  have "d_mul (d_of_int (int n)) (d_of_int 10) = d_of_int (int n * 10)" using assms by (intro mul_ints) auto
  moreover have "d_add (d_of_int (int n * 10)) (d_of_int (int d)) = d_of_int (int n * 10 + int d)"
    using assms by (intro add_ints) auto
  ultimately show ?thesis by (simp add: ten algebra_simps)
qed

lemma foldl_digits_mono: "n \<le> foldl (\<lambda>n d. 10 * n + d) n (ds :: nat list)"
proof (induction ds arbitrary: n)
  case (Cons d ds)
  have "n \<le> 10 * n + d" by simp
  also have "\<dots> \<le> foldl (\<lambda>n d. 10 * n + d) (10 * n + d) ds" by (rule Cons.IH)
  finally show ?case by simp
qed simp

lemma number_digits_read:
  "\<forall>c \<in> set ds. c_isdigit c \<Longrightarrow> \<not> c_isdigit (first_char rest) \<Longrightarrow>
   foldl (\<lambda>n d. 10 * n + d) n (map digit_val ds) < 2 ^ 53 \<Longrightarrow>
   number_digits (d_of_int (int n)) (ds @ rest) = (d_of_int (int (foldl (\<lambda>n d. 10 * n + d) n (map digit_val ds))), rest)"
proof (induction ds arbitrary: n)
  case Nil
  then show ?case by (cases rest) (simp_all add: first_char_def)
next
  case (Cons d ds)
  have d: "digit_val d < 10" using Cons.prems(1) by (auto simp: digit_val_def c_isdigit_def)
  have "10 * n + digit_val d < 2 ^ 53"
    using Cons.prems(3) foldl_digits_mono [of "10 * n + digit_val d" "map digit_val ds"] by simp
  note st = step_digit [OF this d]
  have "number_digits (d_of_int (int (10 * n + digit_val d))) (ds @ rest) =
      (d_of_int (int (foldl (\<lambda>n d. 10 * n + d) (10 * n + digit_val d) (map digit_val ds))), rest)"
    using Cons.prems by (intro Cons.IH) auto
  with Cons.prems(1) show ?case unfolding append_Cons number_digits.simps st by simp
qed

text \<open>What may follow a number.\<close>

definition after_number :: "string \<Rightarrow> bool" where
  "after_number s \<longleftrightarrow> \<not> c_isdigit (first_char s) \<and> first_char s \<noteq> CHR ''.'' \<and> first_char s \<noteq> CHR ''e'' \<and> first_char s \<noteq> CHR ''E''"

lemma dec_digits_first: "n \<noteq> 0 \<Longrightarrow> first_char (dec_digits n @ s) \<noteq> CHR ''0''"
proof (induction n arbitrary: s rule: dec_digits.induct)
  case (1 n)
  show ?case
  proof (cases "n < 10")
    case True
    then have "uchar (char_of (48 + n)) \<noteq> uchar (CHR ''0'')" using 1(2) by (simp add: uchar_char_of uchar_chars)
    then have "char_of (48 + n) \<noteq> CHR ''0''" by (rule char_neqI)
    with True show ?thesis by (subst dec_digits.simps) (simp add: first_char_def)
  next
    case False
    then have "n div 10 \<noteq> 0" by simp
    from 1(1) [OF False this, of "[char_of (48 + n mod 10)] @ s"] False show ?thesis
      by (subst dec_digits.simps) simp
  qed
qed

lemma first_dec: "first_char (dec_digits n @ s) = hd (dec_digits n)" "first_char (dec_digits n @ s) \<in> set (dec_digits n)"
  by (cases "dec_digits n"; simp add: first_char_def)+

text \<open>After the sign.\<close>

lemma digits_part:
  assumes n: "n < 2 ^ 32" and r: "after_number rest"
  defines "s2 \<equiv> (if first_char (dec_digits n @ rest) = CHR ''0'' then tl (dec_digits n @ rest) else dec_digits n @ rest)"
  shows "(if c_isdigit (first_char s2) \<and> first_char s2 \<noteq> CHR ''0'' then number_digits (Fin 0) s2 else (Fin 0, s2)) =
    (d_of_int (int n), rest)"
proof (cases "n = 0")
  case True
  have "uchar (char_of (48 :: nat)) = uchar (CHR ''0'')" by (subst uchar_char_of, subst uchar_chars) simp
  then have "char_of (48 :: nat) = CHR ''0''" by simp
  then have "dec_digits 0 = ''0''" by (subst dec_digits.simps) simp
  with True r show ?thesis by (simp add: s2_def after_number_def first_char_def d_of_int_exact)
next
  case False
  note f = dec_digits_first [OF False, of rest]
  have d: "c_isdigit (first_char (dec_digits n @ rest))" using first_dec(2) dec_digits_isdigit by blast
  have v: "foldl (\<lambda>n d. 10 * n + d) 0 (map digit_val (dec_digits n)) = n"
    using dec_digits_val [of n] by (simp add: digits_val_def)
  have "number_digits (d_of_int (int 0)) (dec_digits n @ rest) = (d_of_int (int n), rest)"
    using number_digits_read [of "dec_digits n" rest 0] dec_digits_isdigit r n by (simp add: v after_number_def)
  with f d show ?thesis by (simp add: s2_def d_of_int_exact)
qed

lemma parse_int:
  assumes i: "- (2 ^ 31) \<le> i" "i < 2 ^ 31" and r: "after_number rest" and p: "jl_pow10 lib (Fin 0) = Fin 1"
  shows "parse_number lib item (fmt_int i @ rest) =
    Some (CJSON (cj_child item) cJSON_Number (cj_valuestring item) i (d_of_int i) (cj_string item), rest)"
proof -
  define n where "n = nat \<bar>i\<bar>"
  have n: "n < 2 ^ 32" using i by (simp add: n_def)
  define sg where "sg = (if i < 0 then - 1 else 1 :: int)"
  have sn: "sg * int n = i" using i by (auto simp: sg_def n_def)
  have nd: "first_char (dec_digits n @ rest) \<noteq> CHR ''-''"
  proof
    assume "first_char (dec_digits n @ rest) = CHR ''-''"
    with first_dec(2) [of n rest] dec_digits_isdigit [of "CHR ''-''" n] show False by (simp add: c_isdigit_def uchar_chars)
  qed
  have s1: "(if first_char (fmt_int i @ rest) = CHR ''-'' then (Fin (- 1), tl (fmt_int i @ rest)) else (Fin 1, fmt_int i @ rest)) =
      (d_of_int sg, dec_digits n @ rest)"
    using nd by (auto simp: fmt_int_def n_def sg_def first_char_def d_of_int_exact)
  have rest: "\<not> (first_char rest = CHR ''.'' \<and> c_isdigit (first_char (tl rest)))" "\<not> (first_char rest = CHR ''e'' \<or> first_char rest = CHR ''E'')"
    using r by (simp_all add: after_number_def)
  have "d_mul (d_of_int sg) (d_of_int (int n)) = d_of_int i"
    using i mul_ints [of sg "int n"] sn by (auto simp: sg_def n_def)
  moreover have "d_mul (d_of_int i) (d_of_int 1) = d_of_int (i * 1)" using i by (intro mul_ints) auto
  moreover have "d_add (Fin 0) (d_of_int 0) = Fin 0" using add_ints [of 0 0] by (simp add: d_of_int_exact)
  moreover have "d_to_i32 (Fin (of_int i)) = Some i" using d_to_i32_of_int [of i] i by (simp add: d_of_int_exact)
  ultimately show ?thesis
    using i p unfolding parse_number_def s1 Let_def prod.case digits_part [OF n r, unfolded Let_def] if_not_P [OF rest(1)] if_not_P [OF rest(2)] bind.bind_lunit
    by (simp add: d_to_i32_of_int d_of_int_exact)
qed

lemma print_int:
  assumes "- (2 ^ 31) \<le> i" and "i < 2 ^ 31"
  shows "print_number lib (CJSON cs cJSON_Number vs i (d_of_int i) nm) = fmt_int i"
proof -
  have "d_sub (d_of_int i) (d_of_int i) = Fin 0"
    using assms round_int [of 0] by (simp add: d_sub_def d_of_int_exact)
  moreover have "d_le (d_abs (Fin 0)) dbl_epsilon" by (simp add: d_abs_def dbl_epsilon_def d_le_def)
  moreover have "d_le (d_of_int i) (Fin (2 ^ 31 - 1))" "d_le (Fin (- (2 ^ 31))) (d_of_int i)"
    using assms d_cmp_small_int(3) [of i "2 ^ 31 - 1"] d_cmp_small_int(3) [of "- (2 ^ 31)" i]
    by (simp_all add: d_of_int_exact)
  ultimately show ?thesis by (simp add: print_number_def)
qed

section \<open>Strings\<close>

lemma hex_digit_facts:
  assumes "n < 16"
  shows "is_hex_digit (hex_digit n)" "hex_val (hex_digit n) = n" "\<not> c_isspace (hex_digit n)"
  using assms by (auto simp: hex_digit_def is_hex_digit_def hex_val_def c_isdigit_def c_isspace_def digit_val_def uchar_char_of)

lemma zero_char_facts:
  "is_hex_digit (CHR ''0'')" "hex_val (CHR ''0'') = 0" "\<not> c_isspace (CHR ''0'')" "CHR ''0'' \<noteq> CHR ''-''" "CHR ''0'' \<noteq> CHR ''+''"
  by (simp_all add: is_hex_digit_def hex_val_def c_isdigit_def c_isspace_def digit_val_def uchar_def)

lemma scan_control:
  assumes "n < 32"
  shows "scan_hex4 (''00'' @ [hex_digit (n div 16), hex_digit (n mod 16)] @ s) = Some n"
proof -
  have d: "n div 16 < 16" "n mod 16 < 16" using assms by simp_all
  note z = zero_char_facts hex_digit_facts [OF d(1)] hex_digit_facts [OF d(2)]
  have "lower ''00'' \<noteq> ''0x''" by (simp add: lower_def uchar_def)
  moreover have "digits_val 16 [0, 0, n div 16, n mod 16] = n" by (simp add: digits_val_def)
  ultimately show ?thesis by (simp add: scan_hex4_def Let_def z first_char_def)
qed

text \<open>One character.\<close>

definition plain_char :: "char \<Rightarrow> bool" where
  "plain_char c \<longleftrightarrow> 31 < uchar c \<and> c \<noteq> CHR 0x22 \<and> c \<noteq> CHR 0x5C"

lemma short_escape:
  "c \<in> {CHR 0x5C, CHR 0x22, CHR 0x08, CHR 0x0C, CHR 0x0A, CHR 0x0D, CHR 0x09} \<Longrightarrow>
   \<exists>e. print_char c = [CHR 0x5C, e] \<and> escaped_char e = c \<and> e \<noteq> CHR ''u''"
  by (auto simp: print_char_def escaped_char_def uchar_def)

lemma print_char_cases:
  obtains "plain_char c" "print_char c = [c]"
  | e where "print_char c = [CHR 0x5C, e]" "escaped_char e = c" "e \<noteq> CHR ''u''"
  | "uchar c < 32" "print_char c = [CHR 0x5C, CHR ''u''] @ ''00'' @ [hex_digit (uchar c div 16), hex_digit (uchar c mod 16)]"
proof (cases "c \<in> {CHR 0x5C, CHR 0x22, CHR 0x08, CHR 0x0C, CHR 0x0A, CHR 0x0D, CHR 0x09}")
  case True
  with that(2) short_escape [OF True] show thesis by blast
next
  case False
  with that(1,3) show thesis by (cases "31 < uchar c") (auto simp: print_char_def plain_char_def)
qed

lemma string_length_char: "\<exists>k. string_length (print_char c @ s) = map_option (\<lambda>n. k + n) (string_length s) \<and> 1 \<le> k"
proof (cases c rule: print_char_cases)
  case 1
  then show ?thesis by (intro exI [of _ 1]) (simp add: plain_char_def)
next
  case (2 e)
  then show ?thesis by (intro exI [of _ 1]) simp
next
  case 3
  have h: "hex_digit n \<noteq> CHR 0x22" "hex_digit n \<noteq> CHR 0x5C" if "n < 16" for n
    using hex_digit_facts(1) [OF that] by (auto simp: is_hex_digit_def c_isdigit_def uchar_def)
  have d: "uchar c div 16 < 16" "uchar c mod 16 < 16" using 3(1) by simp_all
  show ?thesis
    by (intro exI [of _ 5], cases "string_length s") (simp_all add: 3(2) h d)
qed

lemma string_length_read:
  "\<exists>k. string_length (concat (map print_char s) @ CHR 0x22 # rest) = Some k \<and> length s \<le> k"
proof (induction s)
  case (Cons c s)
  then obtain k where k: "string_length (concat (map print_char s) @ CHR 0x22 # rest) = Some k" "length s \<le> k" by blast
  from string_length_char [of c "concat (map print_char s) @ CHR 0x22 # rest"] k show ?case by auto
qed simp

lemma string_chars_char:
  assumes "c \<noteq> CHR 0x00"
  shows "\<exists>uc'. string_chars uc uc2 (print_char c @ s) = push_out [c] (string_chars uc' uc2 s)"
proof (cases c rule: print_char_cases)
  case 1
  then show ?thesis by (intro exI [of _ uc]) (simp add: plain_char_def)
next
  case (2 e)
  then show ?thesis by (intro exI [of _ uc]) simp
next
  case 3
  let ?n = "uchar c"
  have n: "?n \<noteq> 0" using assms by simp
  have sc: "scan_into uc (''00'' @ [hex_digit (?n div 16), hex_digit (?n mod 16)] @ s) = Some ?n"
    using scan_control [OF 3(1), of s] by (simp add: scan_into_def)
  have u: "utf8_bytes ?n = ([c], ?n)" using 3(1) by (simp add: utf8_bytes_def) (simp add: uchar_def)
  show ?thesis
    using sc 3(1) n u by (intro exI [of _ "Some ?n"]) (simp add: 3(2))
qed

lemma string_chars_read:
  "c_string s \<Longrightarrow> string_chars uc uc2 (concat (map print_char s) @ CHR 0x22 # rest) = Some (s, CHR 0x22 # rest)"
proof (induction s arbitrary: uc)
  case (Cons c s)
  then have "c \<noteq> CHR 0x00" by simp
  from string_chars_char [OF this, of uc uc2 "concat (map print_char s) @ CHR 0x22 # rest"] Cons show ?case
    by (auto simp: push_out_def)
qed simp

lemma parse_string_read:
  assumes "c_string s"
  shows "parse_string item (print_string_ptr (Some s) @ rest) =
    Some (Some (cj_set_type cJSON_String (cj_set_valuestring (Some s) item), rest))"
proof -
  from string_length_read obtain k where k: "string_length (concat (map print_char s) @ CHR 0x22 # rest) = Some k" "length s \<le> k" by blast
  with string_chars_read [OF assms, of None None rest] show ?thesis
    by (simp add: parse_string_def print_string_ptr_def first_char_def)
qed

end
