(* ===== verification/KR_Json_Tree.thy ===== *)
theory KR_Json_Tree
  imports KR_Json_Text "HOL-Library.Sublist"
begin

text \<open>The texts of documents: the fuel is enough, and what the printer writes is parsed back.\<close>

section \<open>The fuel\<close>

lemma skip_ws_suffix: "suffix (skip_ws s) s"
  by (simp add: skip_ws_def suffix_dropWhile)

lemma skip_ws_length: "length (skip_ws s) \<le> length s"
  by (rule suffix_length_le [OF skip_ws_suffix])

lemma suffix_tl_of: "suffix r s \<Longrightarrow> suffix (tl r) s"
  by (meson suffix_order.trans suffix_tl)

lemma tl_less: "first_char s = c \<Longrightarrow> c \<noteq> CHR 0x00 \<Longrightarrow> length (tl s) < length s"
  by (cases s) (auto simp: first_char_def)

lemma number_digits_suffix: "number_digits n s = (m, r) \<Longrightarrow> suffix r s"
  by (induction n s rule: number_digits.induct) (auto split: if_splits intro: suffix_ConsI)

lemma fraction_digits_suffix: "fraction_digits n k s = (m, l, r) \<Longrightarrow> suffix r s"
  by (induction n k s rule: fraction_digits.induct) (auto split: if_splits intro: suffix_ConsI)

lemma exponent_digits_suffix: "exponent_digits e s = Some (m, r) \<Longrightarrow> suffix r s"
  by (induction e s rule: exponent_digits.induct) (auto simp: bind_eq_Some_conv split: if_splits intro: suffix_ConsI)

lemma push_out_Some: "push_out cs x = Some (out, r) \<longleftrightarrow> (\<exists>out'. x = Some (out', r) \<and> out = cs @ out')"
  by (cases x) (auto simp: push_out_def)

lemma string_chars_length: "string_chars uc uc2 s = Some (out, r) \<Longrightarrow> length r \<le> length s"
proof (induction "length s" arbitrary: uc uc2 s out rule: less_induct)
  case less
  have IH: "length r \<le> length s" if "string_chars u u2 x = Some (o', r)" "length x < length s" for u u2 x o'
    using less.hyps [OF that(2,1)] that(2) by simp
  show ?case
  proof (cases s)
    case Nil
    with less.prems show ?thesis by simp
  next
    case (Cons c t)
    show ?thesis
      using less.prems
      by (auto simp: Cons push_out_Some Let_def split_beta split: if_splits list.splits option.splits
          dest!: IH [simplified Cons])
  qed
qed

lemma parse_string_shorter:
  assumes "parse_string item s = Some (Some (c, r))"
  shows "length r < length s"
proof -
  from assms obtain out rest where q: "first_char s = CHR 0x22" "string_chars None None (tl s) = Some (out, rest)" "r = tl rest"
    by (auto simp: parse_string_def bind_eq_Some_conv split: if_splits)
  have "length (tl s) < length s" by (rule tl_less [OF q(1)]) simp
  with string_chars_length [OF q(2)] q(3) show ?thesis by (cases rest) auto
qed

text \<open>The texts after the sign, the first zero, the digits and the fraction of a number.\<close>

lemma parse_number_parts:
  assumes "parse_number lib item s = Some (c, r)"
  obtains s1 s2 s3 s4 where "s1 = (if first_char s = CHR ''-'' then tl s else s)" "s2 = (if first_char s1 = CHR ''0'' then tl s1 else s1)"
    "suffix s3 s2" "c_isdigit (first_char s2) \<Longrightarrow> first_char s2 \<noteq> CHR ''0'' \<Longrightarrow> length s3 < length s2" "suffix s4 s3" "suffix r s4"
proof -
  define s1 where "s1 = (if first_char s = CHR ''-'' then tl s else s)"
  define s2 where "s2 = (if first_char s1 = CHR ''0'' then tl s1 else s1)"
  define q3 where "q3 = (if c_isdigit (first_char s2) \<and> first_char s2 \<noteq> CHR ''0'' then number_digits (Fin 0) s2 else (Fin 0, s2))"
  define q4 where "q4 = (if first_char (snd q3) = CHR ''.'' \<and> c_isdigit (first_char (tl (snd q3))) then fraction_digits (fst q3) (Fin 0) (tl (snd q3))
      else (fst q3, Fin 0, snd q3))"
  define s4 where "s4 = snd (snd q4)"
  have d0: "\<not> c_isdigit (CHR 0x00)" by (simp add: c_isdigit_def uchar_def)
  have l3: "suffix (snd q3) s2"
    using number_digits_suffix [of "Fin 0" s2] by (cases "number_digits (Fin 0) s2") (auto simp: q3_def)
  have l3': "length (snd q3) < length s2" if dg: "c_isdigit (first_char s2)" "first_char s2 \<noteq> CHR ''0''"
  proof -
    from dg d0 obtain c t where t: "s2 = c # t" by (cases s2) (auto simp: first_char_def)
    with dg have "c_isdigit c" by (simp add: first_char_def)
    with dg t show ?thesis
      by (cases "number_digits (d_add (d_mul (Fin 0) (Fin 10)) (d_of_int (int (digit_val c)))) t")
        (auto simp: q3_def dest!: number_digits_suffix suffix_length_le)
  qed
  have l4: "suffix s4 (snd q3)"
    using fraction_digits_suffix [of "fst q3" "Fin 0" "tl (snd q3)"]
    by (cases "fraction_digits (fst q3) (Fin 0) (tl (snd q3))") (auto simp: s4_def q4_def intro: suffix_order.trans suffix_tl)
  have "suffix r s4"
  proof -
    have sg: "suffix (snd (skip_sign t)) t" for t by (simp add: skip_sign_def suffix_tl)
    from assms have "r = s4 \<or> (\<exists>e m. exponent_digits e (snd (skip_sign (tl s4))) = Some (m, r))"
      unfolding parse_number_def Let_def split_beta q3_def q4_def s2_def s1_def s4_def
      by (auto simp: bind_eq_Some_conv split_beta split: if_splits)
    then show ?thesis
    proof
      assume "\<exists>e m. exponent_digits e (snd (skip_sign (tl s4))) = Some (m, r)"
      then have "suffix r (snd (skip_sign (tl s4)))" using exponent_digits_suffix by blast
      with sg [of "tl s4"] show ?thesis by (meson suffix_order.trans suffix_tl)
    qed simp
  qed
  from that [OF s1_def s2_def l3 l3' l4 this] show thesis .
qed

lemma parse_number_suffix:
  assumes "parse_number lib item s = Some (c, r)"
  shows "suffix r s"
  using assms
proof (rule parse_number_parts)
  fix s1 s2 s3 s4
  assume "s1 = (if first_char s = CHR ''-'' then tl s else s)" and "s2 = (if first_char s1 = CHR ''0'' then tl s1 else s1)"
    and c: "suffix s3 s2" "suffix s4 s3" "suffix r s4"
  then have "suffix s2 s" by (simp add: suffix_tl suffix_tl_of)
  with c show ?thesis by (meson suffix_order.trans)
qed

lemma parse_number_shorter:
  assumes "parse_number lib item s = Some (c, r)" and d: "first_char s = CHR ''-'' \<or> c_isdigit (first_char s)"
  shows "length r < length s"
  using assms(1)
proof (rule parse_number_parts)
  fix s1 s2 s3 s4
  assume s1: "s1 = (if first_char s = CHR ''-'' then tl s else s)" and s2: "s2 = (if first_char s1 = CHR ''0'' then tl s1 else s1)"
    and c: "suffix s3 s2" "suffix s4 s3" "suffix r s4"
    and l: "c_isdigit (first_char s2) \<Longrightarrow> first_char s2 \<noteq> CHR ''0'' \<Longrightarrow> length s3 < length s2"
  have l1: "length s1 \<le> length s" "first_char s = CHR ''-'' \<Longrightarrow> length s1 < length s"
    using tl_less [of s "CHR ''-''"] by (auto simp: s1)
  have l2: "length s2 \<le> length s1" "first_char s1 = CHR ''0'' \<Longrightarrow> length s2 < length s1"
    using tl_less [of s1 "CHR ''0''"] by (auto simp: s2)
  have l3: "length s3 \<le> length s2" by (rule suffix_length_le [OF c(1)])
  have "length s3 < length s"
  proof (cases "first_char s = CHR ''-'' \<or> first_char s1 = CHR ''0''")
    case True
    with l1 l2 l3 show ?thesis by linarith
  next
    case False
    then have "s1 = s" by (simp add: s1)
    moreover from False have "s2 = s1" by (simp add: s2)
    ultimately show ?thesis using False d l by simp
  qed
  with suffix_length_le [OF c(2)] suffix_length_le [OF c(3)] show ?thesis by simp
qed

lemma take_drop_less: "take k s = u \<Longrightarrow> u \<noteq> [] \<Longrightarrow> length u = k \<Longrightarrow> length (drop k s) < length s"
  by (metis append_take_drop_id length_append length_greater_0_conv less_add_same_cancel2)

lemma literal_less:
  "take 4 s = ''null'' \<Longrightarrow> length s - 4 < length s" "take 5 s = ''false'' \<Longrightarrow> length s - 5 < length s"
  "take 4 s = ''true'' \<Longrightarrow> length s - 4 < length s"
  using take_drop_less [of 4 s "''null''"] take_drop_less [of 5 s "''false''"] take_drop_less [of 4 s "''true''"] by simp_all

lemma after_open: "first_char s = c \<Longrightarrow> c \<noteq> CHR 0x00 \<Longrightarrow> length (skip_ws (tl s)) < length s"
  using skip_ws_length [of "tl s"] tl_less [of s c] by simp

lemma parse_shorter:
  "parse_value lib n item s = Some (Some (c, r)) \<Longrightarrow> length r < length s"
  "parse_elements lib n s = Some (Some (cs, r)) \<Longrightarrow> length r < length s"
  "parse_members lib n s = Some (Some (cs, r)) \<Longrightarrow> length r < length s"
proof (induction lib n item s and lib n s and lib n s arbitrary: c r and cs r and cs r
    rule: parse_value_parse_elements_parse_members.induct)
  case (2 lib n item s)
  note lit = literal_less [of s]
  show ?case
  proof (cases "first_char s = CHR ''['' \<or> first_char s = CHR ''{''")
    case False
    with 2(3) lit show ?thesis
      by (auto simp: Let_def split: if_splits dest: parse_string_shorter parse_number_shorter)
  next
    case True
    have sh: "length (skip_ws (tl s)) < length s" using True after_open [of s] by auto
    have nolit: "take 4 s \<noteq> ''null''" "take 5 s \<noteq> ''false''" "take 4 s \<noteq> ''true''" "first_char s \<noteq> CHR 0x22"
      "\<not> (first_char s = CHR ''-'' \<or> c_isdigit (first_char s))"
      using True by (cases s; auto simp: first_char_def c_isdigit_def uchar_def)+
    show ?thesis
    proof (cases "first_char s = CHR ''[''")
      case arr: True
      with 2(3) nolit consider "r = tl (skip_ws (tl s))"
        | cs s2 where "first_char (skip_ws (tl s)) \<noteq> CHR '']''" "parse_elements lib n (skip_ws (tl s)) = Some (Some (cs, s2))" "r = tl s2"
        by (auto simp: Let_def bind_eq_Some_conv split: if_splits option.splits)
      then show ?thesis
      proof cases
        case 1
        with sh show ?thesis by simp
      next
        case (2 cs s2)
        with "2.IH"(1) [OF nolit arr refl] have "length s2 < length (skip_ws (tl s))" by blast
        with sh 2 show ?thesis by simp
      qed
    next
      case arr: False
      with True have obj: "first_char s = CHR ''{''" by simp
      with 2(3) nolit arr consider "r = tl (skip_ws (tl s))"
        | cs s2 where "first_char (skip_ws (tl s)) \<noteq> CHR ''}''" "parse_members lib n (skip_ws (tl s)) = Some (Some (cs, s2))" "r = tl s2"
        by (auto simp: Let_def bind_eq_Some_conv split: if_splits option.splits)
      then show ?thesis
      proof cases
        case 1
        with sh show ?thesis by simp
      next
        case (2 cs s2)
        with "2.IH"(2) [OF nolit arr obj refl] have "length s2 < length (skip_ws (tl s))" by blast
        with sh 2 show ?thesis by simp
      qed
    qed
  qed
next
  case (4 lib n s)
  from 4(3) obtain c0 s1 where v: "parse_value lib n cJSON_New_Item (skip_ws s) = Some (Some (c0, s1))"
    by (auto simp: bind_eq_Some_conv split: option.splits)
  from "4.IH"(1) [OF v] skip_ws_length [of s] skip_ws_length [of s1] have l: "length (skip_ws s1) < length s" by simp
  from 4(3) v consider "r = skip_ws s1" | cs' where "first_char (skip_ws s1) = CHR '',''" "parse_elements lib n (tl (skip_ws s1)) = Some (Some (cs', r))"
    by (auto simp: Let_def bind_eq_Some_conv split: if_splits)
  then show ?case
  proof cases
    case 1
    with l show ?thesis by simp
  next
    case (2 cs')
    then have "length r < length (tl (skip_ws s1))" using "4.IH"(2) [OF v] by blast
    with l show ?thesis by simp
  qed
next
  case (6 lib n s)
  from 6(3) obtain k s1 where v: "parse_string cJSON_New_Item (skip_ws s) = Some (Some (k, s1))"
    by (auto simp: bind_eq_Some_conv split: option.splits)
  let ?s2 = "skip_ws s1" and ?it = "cj_set_valuestring None (cj_set_string (cj_valuestring k) k)"
  have l1: "length ?s2 < length s"
    using parse_string_shorter [OF v] skip_ws_length [of s] skip_ws_length [of s1] by simp
  from 6(3) v have colon: "first_char ?s2 = CHR '':''" by (auto simp: Let_def split: if_splits)
  have l2: "length (skip_ws (tl ?s2)) < length s" using after_open [OF colon] l1 by simp
  from 6(3) v colon obtain c0 s3 where p: "parse_value lib n ?it (skip_ws (tl ?s2)) = Some (Some (c0, s3))"
    by (auto simp: Let_def bind_eq_Some_conv split: option.splits)
  have "length s3 < length (skip_ws (tl ?s2))" using colon by (intro "6.IH"(1) [OF v refl refl refl refl _ p]) simp
  with l2 skip_ws_length [of s3] have l: "length (skip_ws s3) < length s" by simp
  from 6(3) v colon p consider "r = skip_ws s3"
    | cs' where "first_char (skip_ws s3) = CHR '',''" "parse_members lib n (tl (skip_ws s3)) = Some (Some (cs', r))"
    by (auto simp: Let_def bind_eq_Some_conv split: if_splits)
  then show ?case
  proof cases
    case 1
    with l show ?thesis by simp
  next
    case (2 cs')
    have "length r < length (tl (skip_ws s3))"
      using colon 2(1) by (intro "6.IH"(2) [OF v refl refl refl refl _ p refl refl refl _ 2(2)]) simp_all
    with l show ?thesis by simp
  qed
qed simp_all

declare parse_value.simps(2) [simp del] parse_elements.simps(2) [simp del] parse_members.simps(2) [simp del]

text \<open>With this much fuel more of it does not change the result.\<close>

lemma parse_more_fuel:
  "(\<forall>item s. 2 * length s + 1 \<le> n \<longrightarrow> parse_value lib (Suc n) item s = parse_value lib n item s) \<and>
   (\<forall>s. 2 * length s + 2 \<le> n \<longrightarrow> parse_elements lib (Suc n) s = parse_elements lib n s) \<and>
   (\<forall>s. 2 * length s + 2 \<le> n \<longrightarrow> parse_members lib (Suc n) s = parse_members lib n s)"
proof (induction n)
  case (Suc n)
  have V: "parse_value lib (Suc n) item s = parse_value lib n item s" if "2 * length s + 1 \<le> n" for item s
    using Suc that by blast
  have E: "parse_elements lib (Suc n) s = parse_elements lib n s" if "2 * length s + 2 \<le> n" for s
    using Suc that by blast
  have M: "parse_members lib (Suc n) s = parse_members lib n s" if "2 * length s + 2 \<le> n" for s
    using Suc that by blast
  note unf = parse_value.simps(2) parse_elements.simps(2) parse_members.simps(2)
  have "parse_value lib (Suc (Suc n)) item s = parse_value lib (Suc n) item s" if "2 * length s + 1 \<le> Suc n" for item s
  proof -
    have "length (skip_ws (tl s)) < length s" if "first_char s = CHR ''['' \<or> first_char s = CHR ''{''"
      using that after_open [of s] by auto
    with that have "first_char s = CHR ''['' \<or> first_char s = CHR ''{'' \<Longrightarrow>
        parse_elements lib (Suc n) (skip_ws (tl s)) = parse_elements lib n (skip_ws (tl s)) \<and>
        parse_members lib (Suc n) (skip_ws (tl s)) = parse_members lib n (skip_ws (tl s))"
      by (intro conjI E M) auto
    then show ?thesis by (simp add: unf(1) Let_def)
  qed
  moreover have "parse_elements lib (Suc (Suc n)) s = parse_elements lib (Suc n) s" if l: "2 * length s + 2 \<le> Suc n" for s
  proof -
    have v: "parse_value lib (Suc n) cJSON_New_Item (skip_ws s) = parse_value lib n cJSON_New_Item (skip_ws s)"
      using l skip_ws_length [of s] by (intro V) simp
    have "parse_elements lib (Suc n) (tl (skip_ws s1)) = parse_elements lib n (tl (skip_ws s1))"
      if "parse_value lib n cJSON_New_Item (skip_ws s) = Some (Some (c, s1))" for c s1
      using l skip_ws_length [of s] skip_ws_length [of s1] parse_shorter(1) [OF that] by (intro E) simp
    then show ?thesis
      unfolding unf(2) [of lib "Suc n" s] unf(2) [of lib n s] v
      by (auto simp: Let_def intro!: Option.bind_cong split: option.splits)
  qed
  moreover have "parse_members lib (Suc (Suc n)) s = parse_members lib (Suc n) s" if l: "2 * length s + 2 \<le> Suc n" for s
  proof -
    have less: "length (tl (skip_ws s1)) + 2 \<le> length s"
      if "parse_string cJSON_New_Item (skip_ws s) = Some (Some (k, s1))" "first_char (skip_ws s1) = CHR '':''" for k s1
      using skip_ws_length [of s] skip_ws_length [of s1] parse_string_shorter [OF that(1)] tl_less [OF that(2)] by simp
    have v: "parse_value lib (Suc n) item (skip_ws (tl (skip_ws s1))) = parse_value lib n item (skip_ws (tl (skip_ws s1)))"
      if "parse_string cJSON_New_Item (skip_ws s) = Some (Some (k, s1))" "first_char (skip_ws s1) = CHR '':''" for k s1 item
      using l less [OF that] skip_ws_length [of "tl (skip_ws s1)"] by (intro V) simp
    have m: "parse_members lib (Suc n) (tl (skip_ws s3)) = parse_members lib n (tl (skip_ws s3))"
      if "parse_string cJSON_New_Item (skip_ws s) = Some (Some (k, s1))" "first_char (skip_ws s1) = CHR '':''"
        "parse_value lib n item (skip_ws (tl (skip_ws s1))) = Some (Some (c, s3))" for k s1 item c s3
      using l less [OF that(1,2)] skip_ws_length [of "tl (skip_ws s1)"] skip_ws_length [of s3] parse_shorter(1) [OF that(3)]
      by (intro M) simp
    show ?thesis
    proof (cases "\<exists>k s1. parse_string cJSON_New_Item (skip_ws s) = Some (Some (k, s1)) \<and> first_char (skip_ws s1) = CHR '':''")
      case False
      then show ?thesis
        by (cases "parse_string cJSON_New_Item (skip_ws s)") (auto simp: unf(3) Let_def split: option.splits)
    next
      case True
      then obtain k s1 where q: "parse_string cJSON_New_Item (skip_ws s) = Some (Some (k, s1))" "first_char (skip_ws s1) = CHR '':''"
        by blast
      let ?p = "parse_value lib n (cj_set_valuestring None (cj_set_string (cj_valuestring k) k)) (skip_ws (tl (skip_ws s1)))"
      show ?thesis
        unfolding unf(3) [of lib "Suc n" s] unf(3) [of lib n s]
        using m [OF q] by (cases ?p) (auto simp: q v [OF q] Let_def split: option.split)
    qed
  qed
  ultimately show ?case by blast
qed simp

lemma parse_value_fuel: "2 * length s + 1 \<le> n \<Longrightarrow> parse_value lib (n + k) item s = parse_value lib n item s"
proof (induction k)
  case (Suc k)
  with parse_more_fuel [of "n + k" lib] show ?case by simp
qed simp

end
