(* ===== verification/KR_Json_Props.thy ===== *)
theory KR_Json_Props
  imports KR_Json_Tree
begin

text \<open>The round trip of documents, the fuel of the parser and the texts it is undefined on.\<close>

section \<open>Documents that are read back as they are\<close>

text \<open>
  A document as the constructors of \<open>kr_json.c\<close> make it: numbers are ints, strings and names are
  proper C strings, the elements of an array have no name.
\<close>

fun canon :: "cJSON \<Rightarrow> bool" where
  "canon (CJSON cs ty vs vi vd nm) = (case ty of
       cJSON_Number \<Rightarrow> cs = [] \<and> vs = None \<and> - (2 ^ 31) \<le> vi \<and> vi < 2 ^ 31 \<and> vd = d_of_int vi
     | cJSON_String \<Rightarrow> cs = [] \<and> vi = 0 \<and> vd = Fin 0 \<and> (case vs of None \<Rightarrow> False | Some s \<Rightarrow> c_string s)
     | cJSON_True \<Rightarrow> cs = [] \<and> vs = None \<and> vi = 1 \<and> vd = Fin 0
     | cJSON_Array \<Rightarrow> vs = None \<and> vi = 0 \<and> vd = Fin 0 \<and> list_all (\<lambda>c. cj_string c = None \<and> canon c) cs
     | cJSON_Object \<Rightarrow> vs = None \<and> vi = 0 \<and> vd = Fin 0 \<and> list_all (\<lambda>c. (case cj_string c of None \<Rightarrow> False | Some k \<Rightarrow> c_string k) \<and> canon c) cs
     | _ \<Rightarrow> cs = [] \<and> vs = None \<and> vi = 0 \<and> vd = Fin 0)"

lemma skip_ws_at: "32 < uchar (first_char s) \<Longrightarrow> skip_ws s = s"
  by (cases s) (simp_all add: skip_ws_def first_char_def)

lemma skip_ws_over: "\<forall>c \<in> set ws. uchar c \<le> 32 \<Longrightarrow> skip_ws (ws @ s) = skip_ws s"
  by (simp add: skip_ws_def)

lemma tabs_blank: "\<forall>c \<in> set (tabs n). uchar c \<le> 32"
  by (simp add: tabs_def uchar_def)

lemma number_dispatch:
  assumes "first_char s = CHR ''-'' \<or> c_isdigit (first_char s)"
  shows "parse_value lib (Suc n) item s = map_option Some (parse_number lib item s)"
proof -
  have "first_char s \<noteq> CHR ''n''" "first_char s \<noteq> CHR ''f''" "first_char s \<noteq> CHR ''t''" "first_char s \<noteq> CHR 0x22"
    using assms by (auto simp: c_isdigit_def uchar_def)
  then have "take 4 s \<noteq> ''null''" "take 5 s \<noteq> ''false''" "take 4 s \<noteq> ''true''" "first_char s \<noteq> CHR 0x22"
    by (cases s; auto simp: first_char_def)+
  with assms show ?thesis by (simp add: parse_value.simps(2))
qed

lemma open_dispatch:
  "parse_value lib (Suc n) item (CHR ''['' # s) = (let s1 = skip_ws s in
     if first_char s1 = CHR '']'' then Some (Some (cj_set_type cJSON_Array item, tl s1))
     else do {
       r \<leftarrow> parse_elements lib n s1;
       (case r of None \<Rightarrow> Some None
        | Some (cs, s2) \<Rightarrow> if first_char s2 = CHR '']'' then Some (Some (cj_set_child cs (cj_set_type cJSON_Array item), tl s2)) else Some None)
     })"
  "parse_value lib (Suc n) item (CHR ''{'' # s) = (let s1 = skip_ws s in
     if first_char s1 = CHR ''}'' then Some (Some (cj_set_type cJSON_Object item, tl s1))
     else do {
       r \<leftarrow> parse_members lib n s1;
       (case r of None \<Rightarrow> Some None
        | Some (cs, s2) \<Rightarrow> if first_char s2 = CHR ''}'' then Some (Some (cj_set_child cs (cj_set_type cJSON_Object item), tl s2)) else Some None)
     })"
  by (simp_all add: parse_value.simps(2) first_char_def c_isdigit_def uchar_def)

lemma fmt_int_first: "first_char (fmt_int i @ s) = CHR ''-'' \<or> c_isdigit (first_char (fmt_int i @ s))"
  using first_dec(2) [of "nat \<bar>i\<bar>" s] dec_digits_isdigit by (auto simp: fmt_int_def first_char_def)

lemma print_first:
  assumes "canon j" and "print_value lib fmt d j = Some t"
  shows "32 < uchar (first_char (t @ s))" "first_char (t @ s) \<noteq> CHR '']''"
proof -
  obtain cs ty vs vi vd nm where j: "j = CJSON cs ty vs vi vd nm" by (cases j)
  have num: "32 < uchar (first_char (fmt_int vi @ s)) \<and> first_char (fmt_int vi @ s) \<noteq> CHR '']''"
    using fmt_int_first [of vi s] by (auto simp: c_isdigit_def uchar_def)
  have "32 < uchar (first_char (t @ s)) \<and> first_char (t @ s) \<noteq> CHR '']''"
    using assms num
    by (cases ty) (auto simp: j print_int bind_eq_Some_conv print_string_ptr_def first_char_def uchar_chars uchar_def split: if_splits option.splits)
  then show "32 < uchar (first_char (t @ s))" "first_char (t @ s) \<noteq> CHR '']''" by simp_all
qed

section \<open>The round trip\<close>

lemma after_number_facts: "after_number (CHR '','' # s)" "after_number (CHR '']'' # s)" "after_number (CHR ''}'' # s)"
  "after_number (CHR 0x0A # s)" "after_number (CHR 0x09 # s)" "after_number []"
  by (simp_all add: after_number_def first_char_def c_isdigit_def uchar_def)

lemma print_nonempty: "canon j \<Longrightarrow> print_value lib fmt d j = Some t \<Longrightarrow> t \<noteq> []"
  using print_first(1) [of j lib fmt d t "[]"] by (auto simp: first_char_def uchar_def)

definition named_ok :: "cJSON \<Rightarrow> bool" where
  "named_ok c \<longleftrightarrow> (case cj_string c of None \<Rightarrow> False | Some k \<Rightarrow> c_string k) \<and> canon c"

definition element_ok :: "cJSON \<Rightarrow> bool" where
  "element_ok c \<longleftrightarrow> cj_string c = None \<and> canon c"

lemma elements_first:
  assumes "list_all element_ok cs" and "cs \<noteq> []" and "print_elements lib fmt d cs = Some t"
  shows "32 < uchar (first_char (t @ s))" "first_char (t @ s) \<noteq> CHR '']''"
proof -
  from assms(2) obtain c cs' where cs: "cs = c # cs'" by (cases cs) auto
  with assms(3) obtain u v where u: "print_value lib fmt d c = Some u" "t = u @ v" by (auto simp: bind_eq_Some_conv)
  from assms(1) cs have "canon c" by (simp add: element_ok_def)
  from print_first [OF this u(1), of "v @ s"] u(2) show "32 < uchar (first_char (t @ s))" "first_char (t @ s) \<noteq> CHR '']''"
    by simp_all
qed

lemma members_first:
  assumes "list_all named_ok cs" and "cs \<noteq> []" and "print_members lib fmt d cs = Some t"
  shows "first_char (skip_ws (t @ s)) = CHR 0x22"
proof -
  from assms(2) obtain c cs' where cs: "cs = c # cs'" by (cases cs) auto
  define w where "w = (if fmt then tabs d else [])"
  from assms(1) cs obtain k where k: "cj_string c = Some k" by (auto simp: named_ok_def split: option.splits)
  from assms(3) cs k obtain v where "t = w @ CHR 0x22 # v" by (auto simp: bind_eq_Some_conv w_def print_string_ptr_def)
  moreover have "skip_ws (w @ CHR 0x22 # v @ s) = CHR 0x22 # v @ s"
    using tabs_blank by (subst skip_ws_over) (auto simp: w_def skip_ws_at first_char_def uchar_def)
  ultimately show ?thesis by (simp add: first_char_def)
qed

lemma skip_ws_twice: "skip_ws (skip_ws s) = skip_ws s"
  by (simp add: skip_ws_def)

lemma parse_elements_skip: "parse_elements lib n (skip_ws s) = parse_elements lib n s"
  by (cases n) (simp_all add: parse_elements.simps(2) skip_ws_twice)

lemma parse_members_skip: "parse_members lib n (skip_ws s) = parse_members lib n s"
  by (cases n) (simp_all add: parse_members.simps(2) skip_ws_twice)

lemma print_parse:
  "jl_pow10 lib (Fin 0) = Fin 1 \<Longrightarrow> print_value lib fmt d j = Some t \<Longrightarrow> canon j \<Longrightarrow> after_number rest \<Longrightarrow> 2 * length (t @ rest) + 1 \<le> n \<Longrightarrow>
   parse_value lib n (CJSON [] ty0 None 0 (Fin 0) nm) (t @ rest) = Some (Some (cj_set_string nm j, rest))"
  "jl_pow10 lib (Fin 0) = Fin 1 \<Longrightarrow> print_elements lib fmt d cs = Some t \<Longrightarrow> list_all element_ok cs \<Longrightarrow> cs \<noteq> [] \<Longrightarrow> 2 * length (t @ CHR '']'' # rest) + 2 \<le> n \<Longrightarrow>
   parse_elements lib n (t @ CHR '']'' # rest) = Some (Some (cs, CHR '']'' # rest))"
  "jl_pow10 lib (Fin 0) = Fin 1 \<Longrightarrow> print_members lib fmt d cs = Some t \<Longrightarrow> list_all named_ok cs \<Longrightarrow> cs \<noteq> [] \<Longrightarrow> \<forall>c \<in> set ws. uchar c \<le> 32 \<Longrightarrow> after_number (ws @ CHR ''}'' # rest) \<Longrightarrow>
   2 * length (t @ ws @ CHR ''}'' # rest) + 2 \<le> n \<Longrightarrow>
   parse_members lib n (t @ ws @ CHR ''}'' # rest) = Some (Some (cs, CHR ''}'' # rest))"
proof (induction lib fmt d j and lib fmt d cs and lib fmt d cs arbitrary: t rest n ty0 nm and t rest n and t rest n ws
    rule: print_value_print_elements_print_members.induct)
  case (1 lib fmt d cs ty vs vi vd nm0)
  let ?j = "CJSON cs ty vs vi vd nm0"
  from "1.prems"(5) obtain m where n: "n = Suc m" by (cases n) auto
  show ?case
  proof (cases ty)
    case cJSON_Number
    with "1.prems"(3) have i: "- (2 ^ 31) \<le> vi" "vi < 2 ^ 31" "vd = d_of_int vi" "cs = []" "vs = None" by simp_all
    with "1.prems"(2) cJSON_Number have "t = fmt_int vi" by (simp add: print_int)
    with i cJSON_Number show ?thesis
      using number_dispatch [OF fmt_int_first, of lib m _ vi rest] parse_int [OF i(1,2) "1.prems"(4) "1.prems"(1)] by (simp add: n)
  next
    case cJSON_String
    with "1.prems"(3) obtain s where s: "vs = Some s" "c_string s" "cs = []" "vi = 0" "vd = Fin 0" by (auto split: option.splits)
    with "1.prems"(2) cJSON_String have t: "t = print_string_ptr (Some s)" by simp
    then have "first_char (t @ rest) = CHR 0x22" "take 4 (t @ rest) \<noteq> ''null''" "take 5 (t @ rest) \<noteq> ''false''" "take 4 (t @ rest) \<noteq> ''true''"
      by (simp_all add: print_string_ptr_def first_char_def)
    with s t cJSON_String show ?thesis by (simp add: n parse_value.simps(2) parse_string_read)
  next
    case cJSON_Array
    show ?thesis
    proof (cases "cs = []")
      case True
      with cJSON_Array "1.prems"(2,3) show ?thesis by (auto simp: n open_dispatch skip_ws_def first_char_def uchar_def)
    next
      case False
      with cJSON_Array "1.prems"(2) obtain u where u: "print_elements lib fmt (Suc d) cs = Some u" "t = ''['' @ u @ '']''"
        by (auto simp: bind_eq_Some_conv)
      from cJSON_Array "1.prems"(3) have ok: "list_all element_ok cs" by (simp add: element_ok_def [abs_def])
      have "parse_elements lib m (u @ CHR '']'' # rest) = Some (Some (cs, CHR '']'' # rest))"
        using "1.prems"(5) by (intro "1.IH"(1) [OF cJSON_Array False "1.prems"(1) u(1) ok False]) (simp add: n u(2))
      moreover have "skip_ws (u @ CHR '']'' # rest) = u @ CHR '']'' # rest" "first_char (u @ CHR '']'' # rest) \<noteq> CHR '']''"
        using elements_first [OF ok False u(1)] by (simp_all add: skip_ws_at)
      ultimately show ?thesis using cJSON_Array "1.prems"(3) by (simp add: n u(2) open_dispatch first_char_def)
    qed
  next
    case cJSON_Object
    show ?thesis
    proof (cases "cs = []")
      case True
      define w where "w = (if fmt then CHR 0x0A # tabs (d - 1) else [])"
      have "t = ''{'' @ w @ ''}''" using True cJSON_Object "1.prems"(2) by (auto simp: w_def split: if_splits)
      moreover have "skip_ws (w @ CHR ''}'' # rest) = CHR ''}'' # rest"
        using tabs_blank [of "d - 1"] by (subst skip_ws_over) (auto simp: w_def skip_ws_at first_char_def uchar_def)
      ultimately show ?thesis using True cJSON_Object "1.prems"(3) by (simp add: n open_dispatch first_char_def)
    next
      case False
      define w where "w = (if fmt then [CHR 0x0A] else [])"
      define w2 where "w2 = (if fmt then tabs d else [])"
      from False cJSON_Object "1.prems"(2) obtain u where
        u: "print_members lib fmt (Suc d) cs = Some u" "t = ''{'' @ w @ u @ w2 @ ''}''"
        by (auto simp: bind_eq_Some_conv w_def w2_def)
      let ?r = "CHR ''}'' # rest"
      from cJSON_Object "1.prems"(3) have ok: "list_all named_ok cs" by (simp add: named_ok_def [abs_def])
      have w2: "\<forall>c \<in> set w2. uchar c \<le> 32" using tabs_blank by (auto simp: w2_def)
      have "after_number (w2 @ ?r)" by (cases d) (simp_all add: w2_def tabs_def after_number_facts)
      then have "parse_members lib m (u @ w2 @ ?r) = Some (Some (cs, ?r))"
        using "1.prems"(5) by (intro "1.IH"(2) [OF cJSON_Object False "1.prems"(1) u(1) ok False w2]) (simp_all add: n u(2))
      moreover have "skip_ws (w @ u @ w2 @ ?r) = skip_ws (u @ w2 @ ?r)"
        by (rule skip_ws_over) (simp add: w_def uchar_def)
      ultimately show ?thesis
        using members_first [OF ok False u(1), of "w2 @ ?r"] parse_members_skip [of lib m "u @ w2 @ ?r"] cJSON_Object "1.prems"(3)
        by (simp add: n u(2) open_dispatch first_char_def)
    qed
  qed (use "1.prems" in \<open>auto simp: n parse_value.simps(2)\<close>)
next
  case (3 lib fmt d c cs)
  let ?r = "CHR '']'' # rest"
  from "3.prems"(5) obtain m where n: "n = Suc m" by (cases n) auto
  from "3.prems"(2) obtain u v where u: "print_value lib fmt d c = Some u" and v: "print_elements lib fmt d cs = Some v"
    and t: "t = u @ (if cs = [] then [] else if fmt then '', '' else '','') @ v"
    by (auto simp: bind_eq_Some_conv)
  define z where "z = (if cs = [] then [] else if fmt then '', '' else '','') @ v @ ?r"
  have tz: "t @ ?r = u @ z" by (simp add: t z_def)
  from "3.prems"(3) have c: "canon c" "cj_string c = None" by (simp_all add: element_ok_def)
  have z: "after_number z" "skip_ws z = z" using v by (auto simp: z_def after_number_facts skip_ws_at first_char_def uchar_def)
  have len: "2 * length (u @ z) + 1 \<le> m" using "3.prems"(5) by (simp add: n tz)
  have "parse_value lib m cJSON_New_Item (u @ z) = Some (Some (c, z))"
    using "3.IH"(1) [OF "3.prems"(1) u c(1) z(1) len, of cJSON_False None] c(2)
    by (cases c) (simp add: cJSON_New_Item_def)
  moreover have "skip_ws (u @ z) = u @ z" by (rule skip_ws_at [OF print_first(1) [OF c(1) u]])
  moreover have "parse_elements lib m (tl z) = Some (Some (cs, ?r))" if "cs \<noteq> []"
  proof -
    define w where "w = (if fmt then '' '' else [])"
    have "tl z = w @ v @ ?r" using that by (simp add: z_def w_def)
    moreover have "parse_elements lib m (v @ ?r) = Some (Some (cs, ?r))"
      using that len "3.prems"(3) by (intro "3.IH"(2) [OF u "3.prems"(1) v]) (simp_all add: z_def split: if_splits)
    moreover have "skip_ws (w @ v @ ?r) = skip_ws (v @ ?r)" by (rule skip_ws_over) (simp add: w_def uchar_def)
    ultimately show ?thesis using parse_elements_skip [of lib m "w @ v @ ?r"] parse_elements_skip [of lib m "v @ ?r"] by simp
  qed
  moreover have "first_char z = (if cs = [] then CHR '']'' else CHR '','')"
    using v by (auto simp: z_def first_char_def)
  ultimately show ?case using v z(2) by (auto simp: n tz parse_elements.simps(2) Let_def z_def)
next
  case (5 lib fmt d c cs)
  let ?r = "ws @ CHR ''}'' # rest"
  from "5.prems"(7) obtain m where n: "n = Suc m" by (cases n) auto
  define w where "w = (if fmt then tabs d else [])"
  define w1 where "w1 = (if fmt then [CHR 0x09] else [])"
  define w2 where "w2 = (if fmt then [CHR 0x0A] else [])"
  from "5.prems"(3) obtain k where k: "cj_string c = Some k" "c_string k" and c: "canon c"
    by (auto simp: named_ok_def split: option.splits)
  from "5.prems"(2) k(1) obtain u v where u: "print_value lib fmt d c = Some u" and v: "print_members lib fmt d cs = Some v"
    and t: "t = w @ print_string_ptr (Some k) @ '':'' @ w1 @ u @ (if cs = [] then [] else '','') @ w2 @ v"
    by (auto simp: bind_eq_Some_conv w_def w1_def w2_def)
  define z where "z = (if cs = [] then [] else '','') @ w2 @ v @ ?r"
  let ?y = "CHR '':'' # w1 @ u @ z"
  have tz: "t @ ?r = w @ print_string_ptr (Some k) @ ?y" by (simp add: t z_def)
  have blank: "\<forall>c \<in> set w. uchar c \<le> 32" "\<forall>c \<in> set w1. uchar c \<le> 32" "\<forall>c \<in> set w2. uchar c \<le> 32"
    using tabs_blank by (auto simp: w_def w1_def w2_def uchar_def)
  have z: "after_number z"
    using "5.prems"(6) v by (auto simp: z_def w2_def after_number_facts)
  have len: "2 * length (u @ z) + 1 \<le> m" using "5.prems"(7) unfolding n tz by simp
  have "skip_ws (t @ ?r) = print_string_ptr (Some k) @ ?y"
    unfolding tz skip_ws_over [OF blank(1)] by (rule skip_ws_at) (simp add: print_string_ptr_def first_char_def uchar_def)
  moreover have "skip_ws ?y = ?y" "first_char ?y = CHR '':''" by (simp_all add: skip_ws_at first_char_def uchar_def)
  moreover have "skip_ws (w1 @ u @ z) = u @ z"
    unfolding skip_ws_over [OF blank(2)] by (rule skip_ws_at [OF print_first(1) [OF c u]])
  moreover have "parse_value lib m (CJSON [] cJSON_String None 0 (Fin 0) (Some k)) (u @ z) = Some (Some (c, z))"
    using "5.IH"(1) [OF "5.prems"(1) u c z len, of cJSON_String "Some k"] k(1) by (cases c) simp
  moreover have "skip_ws z = CHR '','' # w2 @ v @ ?r" if "cs \<noteq> []" using that by (simp add: z_def skip_ws_at first_char_def uchar_def)
  moreover have "skip_ws z = CHR ''}'' # rest" if "cs = []"
    using that v blank(3) "5.prems"(5) by (simp add: z_def skip_ws_over) (simp add: skip_ws_at first_char_def uchar_def)
  moreover have "parse_members lib m (w2 @ v @ ?r) = Some (Some (cs, CHR ''}'' # rest))" if "cs \<noteq> []"
  proof -
    have "parse_members lib m (v @ ?r) = Some (Some (cs, CHR ''}'' # rest))"
      using that len "5.prems"(3,5,6) by (intro "5.IH"(2) [OF u "5.prems"(1) v]) (simp_all add: z_def)
    then show ?thesis
      using parse_members_skip [of lib m "w2 @ v @ ?r"] parse_members_skip [of lib m "v @ ?r"] skip_ws_over [OF blank(3), of "v @ ?r"] by simp
  qed
  ultimately show ?case
    by (cases "cs = []") (simp_all add: n parse_members.simps(2) parse_string_read [OF k(2)] cJSON_New_Item_def first_char_def)
qed simp_all

section \<open>Texts on which the parser is defined\<close>

text \<open>
  At no position of the text does a number or a string begin whose reading is undefined: a number has no more digits than the code can
  count with, and a string has no escape that makes it read or write outside of its bounds.
\<close>

definition tame :: "json_lib \<Rightarrow> string \<Rightarrow> bool" where
  "tame lib s \<longleftrightarrow> list_all (\<lambda>t.
     ((first_char t = CHR ''-'' \<or> c_isdigit (first_char t)) \<longrightarrow> parse_number lib cJSON_New_Item t \<noteq> None) \<and>
     (first_char t = CHR 0x22 \<longrightarrow> parse_string cJSON_New_Item t \<noteq> None)) (suffixes s)"

lemma tame_suffix: "suffix r s \<Longrightarrow> tame lib s \<Longrightarrow> tame lib r"
  by (auto simp: tame_def list_all_iff dest: suffix_order.trans)

text \<open>The item a value is stored in does not matter.\<close>

lemma parse_number_item: "parse_number lib item s = None \<longleftrightarrow> parse_number lib cJSON_New_Item s = None"
  unfolding parse_number_def Let_def by (simp add: split_beta bind_eq_None_conv split del: if_split)

lemma parse_string_item: "parse_string item s = None \<longleftrightarrow> parse_string cJSON_New_Item s = None"
  by (cases "string_length (tl s)"; cases "string_chars None None (tl s)") (auto simp: parse_string_def assert_c_def)

lemma tame_number:
  assumes "tame lib s" and "first_char s = CHR ''-'' \<or> c_isdigit (first_char s)"
  shows "parse_number lib item s \<noteq> None"
proof -
  have "s \<in> set (suffixes s)" by simp
  with assms show ?thesis unfolding tame_def list_all_iff parse_number_item [of lib item s] by blast
qed

lemma plain_text:
  assumes "CHR 0x5C \<notin> set s"
  shows "string_length s = Some (length (takeWhile (\<lambda>c. c \<noteq> CHR 0x22) s))"
    and "string_chars uc uc2 s = Some (takeWhile (\<lambda>c. c \<noteq> CHR 0x22) s, dropWhile (\<lambda>c. c \<noteq> CHR 0x22) s)"
  using assms by (induction s) (auto simp: push_out_def)

text \<open>A text without escapes whose numbers can be read.\<close>

lemma plain_tame:
  assumes "CHR 0x5C \<notin> set s" and "\<And>t. suffix t s \<Longrightarrow> first_char t = CHR ''-'' \<or> c_isdigit (first_char t) \<Longrightarrow> parse_number lib cJSON_New_Item t \<noteq> None"
  shows "tame lib s"
proof -
  have "parse_string cJSON_New_Item t \<noteq> None" if "suffix t s" for t
  proof -
    have "CHR 0x5C \<notin> set (tl t)" using that assms(1) set_mono_suffix [OF suffix_order.trans [OF suffix_tl that]] by blast
    from plain_text [OF this] show ?thesis by (simp add: parse_string_def)
  qed
  with assms(2) show ?thesis by (auto simp: tame_def list_all_iff)
qed

text \<open>The parsing function returns, NULL or a rest of the text it got.\<close>

definition returns :: "('a \<times> string) option option \<Rightarrow> string \<Rightarrow> bool" where
  "returns x s \<longleftrightarrow> (\<exists>y. x = Some y \<and> (\<forall>c r. y = Some (c, r) \<longrightarrow> suffix r s))"

lemma returnsE:
  assumes "returns x s"
  obtains "x = Some None" | c r where "x = Some (Some (c, r))" "suffix r s"
  using assms unfolding returns_def by (metis option.exhaust surj_pair)

lemma returns_simps [simp]: "returns (Some None) s" "returns (Some (Some (c, r))) s \<longleftrightarrow> suffix r s"
  by (auto simp: returns_def)

lemma string_chars_suffix: "string_chars uc uc2 s = Some (out, r) \<Longrightarrow> suffix r s"
proof (induction "length s" arbitrary: uc uc2 s out rule: less_induct)
  case less
  show ?case
  proof (cases s)
    case Nil
    with less.prems show ?thesis by simp
  next
    case (Cons c t)
    have IH: "suffix r y" if "string_chars u u2 x = Some (o', r)" "suffix x y" "length x < length s" for u u2 x o' y
      using less.hyps [OF that(3,1)] that(2) by (rule suffix_order.trans)
    show ?thesis
      using less.prems
      by (auto simp: Cons push_out_Some Let_def split_beta split: if_splits list.splits option.splits)
        (erule IH; auto simp: Cons intro: suffix_ConsI suffix_drop)+
  qed
qed

lemma parse_string_returns:
  assumes "tame lib s"
  shows "returns (parse_string item s) s"
proof (cases "first_char s = CHR 0x22")
  case True
  have "s \<in> set (suffixes s)" by simp
  with assms True have "parse_string cJSON_New_Item s \<noteq> None" unfolding tame_def list_all_iff by blast
  then have "parse_string item s \<noteq> None" by (simp add: parse_string_item [of item s])
  then obtain y where y: "parse_string item s = Some y" by auto
  have "suffix r s" if "y = Some (c, r)" for c r
  proof -
    from y that True obtain out rest where "string_chars None None (tl s) = Some (out, rest)" "r = tl rest"
      by (auto simp: parse_string_def bind_eq_Some_conv)
    then show ?thesis using string_chars_suffix by (metis suffix_order.trans suffix_tl)
  qed
  with y show ?thesis by (simp add: returns_def)
qed (simp add: parse_string_def)

lemma suffix_skip: "suffix r s \<Longrightarrow> suffix (skip_ws r) s" "suffix r s \<Longrightarrow> suffix (skip_ws (tl r)) s"
  by (meson skip_ws_suffix suffix_order.trans suffix_tl)+

lemma parse_value_step:
  assumes t: "tame lib s" and l: "2 * length s + 1 \<le> Suc n"
    and E: "\<And>s. tame lib s \<Longrightarrow> 2 * length s + 2 \<le> n \<Longrightarrow> returns (parse_elements lib n s) s"
    and M: "\<And>s. tame lib s \<Longrightarrow> 2 * length s + 2 \<le> n \<Longrightarrow> returns (parse_members lib n s) s"
  shows "returns (parse_value lib (Suc n) item s) s"
proof (cases "first_char s = CHR ''['' \<or> first_char s = CHR ''{''")
  case True
  let ?s1 = "skip_ws (tl s)"
  have nolit: "take 4 s \<noteq> ''null''" "take 5 s \<noteq> ''false''" "take 4 s \<noteq> ''true''" "first_char s \<noteq> CHR 0x22"
    "\<not> (first_char s = CHR ''-'' \<or> c_isdigit (first_char s))"
    using True by (cases s; auto simp: first_char_def c_isdigit_def uchar_def)+
  have sf: "suffix ?s1 s" by (simp add: suffix_skip)
  have lt: "2 * length ?s1 + 2 \<le> n" using True after_open [of s] l by auto
  note tt = tame_suffix [OF sf t]
  have *: "suffix (tl r) s" if "suffix r ?s1" for r using that sf by (meson suffix_order.trans suffix_tl)
  show ?thesis
    using E [OF tt lt] M [OF tt lt] nolit True
    by (auto simp: parse_value.simps(2) Let_def elim!: returnsE intro: * suffix_tl_of sf)
next
  case False
  have num: "returns (map_option Some (parse_number lib item s)) s" if c: "first_char s = CHR ''-'' \<or> c_isdigit (first_char s)"
  proof -
    from tame_number [OF t c, of item] obtain d r where "parse_number lib item s = Some (d, r)" by auto
    with parse_number_suffix [OF this] show ?thesis by simp
  qed
  have "returns (parse_string item s) s" using t by (rule parse_string_returns)
  with False num show ?thesis by (auto simp: parse_value.simps(2) suffix_drop)
qed

lemma parse_elements_step:
  assumes t: "tame lib s" and l: "2 * length s + 2 \<le> Suc n"
    and V: "\<And>item s. tame lib s \<Longrightarrow> 2 * length s + 1 \<le> n \<Longrightarrow> returns (parse_value lib n item s) s"
    and E: "\<And>s. tame lib s \<Longrightarrow> 2 * length s + 2 \<le> n \<Longrightarrow> returns (parse_elements lib n s) s"
  shows "returns (parse_elements lib (Suc n) s) s"
proof -
  have "2 * length (skip_ws s) + 1 \<le> n" using l skip_ws_length [of s] by simp
  from V [OF tame_suffix [OF skip_ws_suffix t] this] have "returns (parse_value lib n cJSON_New_Item (skip_ws s)) (skip_ws s)" .
  then show ?thesis
  proof (cases rule: returnsE)
    case 1
    then show ?thesis by (simp add: parse_elements.simps(2))
  next
    case (2 c r)
    have sf: "suffix (skip_ws r) s" using 2(2) skip_ws_suffix [of s] by (meson suffix_skip(1) suffix_order.trans)
    note sf2 = suffix_tl_of [OF sf]
    have "2 * length (tl (skip_ws r)) + 2 \<le> n"
      using l skip_ws_length [of s] skip_ws_length [of r] parse_shorter(1) [OF 2(1)] by simp
    from E [OF tame_suffix [OF sf2 t] this] 2(1) sf show ?thesis
      by (auto simp: parse_elements.simps(2) Let_def elim!: returnsE intro: suffix_order.trans [OF _ sf2])
  qed
qed

lemma parse_members_step:
  assumes t: "tame lib s" and l: "2 * length s + 2 \<le> Suc n"
    and V: "\<And>item s. tame lib s \<Longrightarrow> 2 * length s + 1 \<le> n \<Longrightarrow> returns (parse_value lib n item s) s"
    and M: "\<And>s. tame lib s \<Longrightarrow> 2 * length s + 2 \<le> n \<Longrightarrow> returns (parse_members lib n s) s"
  shows "returns (parse_members lib (Suc n) s) s"
proof -
  from parse_string_returns [OF tame_suffix [OF skip_ws_suffix t], of cJSON_New_Item] show ?thesis
  proof (cases rule: returnsE)
    case 1
    then show ?thesis by (simp add: parse_members.simps(2))
  next
    case (2 k s1)
    let ?s2 = "skip_ws s1" and ?it = "cj_set_valuestring None (cj_set_string (cj_valuestring k) k)"
    show ?thesis
    proof (cases "first_char ?s2 = CHR '':''")
      case False
      with 2(1) show ?thesis by (simp add: parse_members.simps(2) Let_def)
    next
      case True
      have sf: "suffix (skip_ws (tl ?s2)) s" using 2(2) skip_ws_suffix [of s] by (meson suffix_skip suffix_order.trans)
      have len: "length (skip_ws (tl ?s2)) + 2 \<le> length s"
        using after_open [OF True] skip_ws_length [of s] skip_ws_length [of s1] parse_string_shorter [OF 2(1)] by simp
      then have "2 * length (skip_ws (tl ?s2)) + 1 \<le> n" using l by simp
      from V [OF tame_suffix [OF sf t] this, of ?it] show ?thesis
      proof (cases rule: returnsE)
        case 1
        with 2(1) True show ?thesis by (simp add: parse_members.simps(2) Let_def)
      next
        case (2 c s3)
        note v = 2
        have sf3: "suffix (skip_ws s3) s" using v(2) sf by (meson suffix_skip(1) suffix_order.trans)
        note sf4 = suffix_tl_of [OF sf3]
        have "2 * length (tl (skip_ws s3)) + 2 \<le> n"
          using l len skip_ws_length [of s3] parse_shorter(1) [OF v(1)] by simp
        from M [OF tame_suffix [OF sf4 t] this] v(1) \<open>parse_string cJSON_New_Item (skip_ws s) = Some (Some (k, s1))\<close> True sf3 show ?thesis
          by (auto simp: parse_members.simps(2) Let_def elim!: returnsE intro: suffix_order.trans [OF _ sf4])
      qed
    qed
  qed
qed

lemma parse_total:
  "(\<forall>item s. tame lib s \<and> 2 * length s + 1 \<le> n \<longrightarrow> returns (parse_value lib n item s) s) \<and>
   (\<forall>s. tame lib s \<and> 2 * length s + 2 \<le> n \<longrightarrow> returns (parse_elements lib n s) s) \<and>
   (\<forall>s. tame lib s \<and> 2 * length s + 2 \<le> n \<longrightarrow> returns (parse_members lib n s) s)"
proof (induction n)
  case (Suc n)
  then have V: "\<And>item s. tame lib s \<Longrightarrow> 2 * length s + 1 \<le> n \<Longrightarrow> returns (parse_value lib n item s) s"
    and E: "\<And>s. tame lib s \<Longrightarrow> 2 * length s + 2 \<le> n \<Longrightarrow> returns (parse_elements lib n s) s"
    and M: "\<And>s. tame lib s \<Longrightarrow> 2 * length s + 2 \<le> n \<Longrightarrow> returns (parse_members lib n s) s"
    by blast+
  show ?case
    by (intro conjI allI impI; elim conjE; (rule parse_value_step | rule parse_elements_step | rule parse_members_step); (assumption | rule V | rule E | rule M))
qed simp

section \<open>Properties\<close>

text \<open>C24. The recursion of the parser ends on every text. Either there is a result, NULL or a document, which every sufficient bound on the
  depth of the calls gives, or at some position of the text a number or a string begins whose reading alone is undefined (a
  number beyond the range of the code's counters, an escape that is cut off). So on a text without such a position the parser returns.\<close>

theorem json_parse_ends:
  "(\<exists>r. cJSON_Parse lib s = Some (map_option fst r) \<and> (\<forall>n \<ge> parse_fuel s. parse_value lib n cJSON_New_Item (skip_ws s) = Some r)) \<or>
   (\<exists>t. suffix t s \<and>
     ((first_char t = CHR ''-'' \<or> c_isdigit (first_char t)) \<and> parse_number lib cJSON_New_Item t = None \<or>
      first_char t = CHR 0x22 \<and> parse_string cJSON_New_Item t = None))"
proof (cases "tame lib s")
  case False
  then have "\<exists>t. suffix t s \<and>
     ((first_char t = CHR ''-'' \<or> c_isdigit (first_char t)) \<and> parse_number lib cJSON_New_Item t = None \<or>
      first_char t = CHR 0x22 \<and> parse_string cJSON_New_Item t = None)"
    unfolding tame_def list_all_iff set_suffixes_eq Ball_def mem_Collect_eq by meson
  then show ?thesis ..
next
  case True
  then have t: "tame lib (skip_ws s)" by (rule tame_suffix [OF skip_ws_suffix])
  have "2 * length (skip_ws s) + 1 \<le> parse_fuel s" using skip_ws_length [of s] by (simp add: parse_fuel_def)
  with parse_total [of lib "parse_fuel s"] t
  have "returns (parse_value lib (parse_fuel s) cJSON_New_Item (skip_ws s)) (skip_ws s)" by blast
  then obtain r where r: "parse_value lib (parse_fuel s) cJSON_New_Item (skip_ws s) = Some r" by (auto simp: returns_def)
  have "parse_value lib n cJSON_New_Item (skip_ws s) = Some r" if "parse_fuel s \<le> n" for n
  proof -
    from that obtain k where "n = parse_fuel s + k" using le_Suc_ex by blast
    with parse_value_fuel [of "skip_ws s" "parse_fuel s"] skip_ws_length [of s] r show ?thesis by (simp add: parse_fuel_def)
  qed
  moreover have "cJSON_Parse lib s = Some (map_option fst r)"
    using r by (cases r) (auto simp: cJSON_Parse_def cJSON_ParseWithOpts_def)
  ultimately show ?thesis by blast
qed

lemma parse_printed:
  assumes p: "print_value lib fmt 0 j = Some t" and c: "canon j" and nm: "cj_string j = None" and lib: "jl_pow10 lib (Fin 0) = Fin 1"
  shows "cJSON_Parse lib t = Some (Some j)"
proof -
  have "skip_ws t = t" using print_first(1) [OF c p, of "[]"] by (simp add: skip_ws_at)
  moreover have "parse_value lib (parse_fuel t) (CJSON [] cJSON_False None 0 (Fin 0) None) (t @ []) = Some (Some (cj_set_string None j, []))"
    using print_parse(1) [OF lib p c after_number_facts(6)] by (simp add: parse_fuel_def)
  moreover have "cj_set_string None j = j" using nm by (cases j) simp
  ultimately show ?thesis by (simp add: cJSON_Parse_def cJSON_ParseWithOpts_def cJSON_New_Item_def)
qed

text \<open>Without formatting the printer writes every document.\<close>

lemma print_unformatted:
  "print_value lib False d j \<noteq> None" "print_elements lib False d cs \<noteq> None" "print_members lib False d cs \<noteq> None"
  by (induction lib False d j and lib False d cs and lib False d cs rule: print_value_print_elements_print_members.induct)
    (auto split: cjson_type.split)


text \<open>A C library for the examples: powers of ten with integer exponents, and numbers printed without their fraction.\<close>

definition demo_lib :: json_lib where
  "demo_lib = \<lparr>
     jl_pow10 = (\<lambda>d. case d of Fin q \<Rightarrow> round_double (if 0 \<le> q then 10 ^ nat \<lfloor>q\<rfloor> else 1 / 10 ^ nat \<lfloor>- q\<rfloor>) | _ \<Rightarrow> d),
     jl_fmt0f = (\<lambda>d. case d of Fin q \<Rightarrow> fmt_int \<lfloor>q\<rfloor> | _ \<Rightarrow> ''nan''),
     jl_fmte = (\<lambda>d. case d of Fin q \<Rightarrow> fmt_int \<lfloor>q\<rfloor> | _ \<Rightarrow> ''nan''),
     jl_fmtf = (\<lambda>d. case d of Fin q \<Rightarrow> fmt_int \<lfloor>q\<rfloor> | _ \<Rightarrow> ''nan'') \<rparr>"

lemma demo_pow: "jl_pow10 demo_lib (Fin 0) = Fin 1"
  using round_int [of 1] by (simp add: demo_lib_def)

definition demo_doc :: cJSON where
  "demo_doc = CJSON
     [CJSON [] cJSON_Number None (- 42) (d_of_int (- 42)) (Some ''id''),
      CJSON [CJSON [] cJSON_String (Some [CHR 0x22, CHR 0x0A]) 0 (Fin 0) None, CJSON [] cJSON_True None 1 (Fin 0) None]
        cJSON_Array None 0 (Fin 0) (Some ''tags''),
      CJSON [] cJSON_Object None 0 (Fin 0) (Some [])]
     cJSON_Object None 0 (Fin 0) None"

definition demo_text :: string where
  "demo_text = ''{'' @ [CHR 0x22] @ ''id'' @ [CHR 0x22] @ '':-42,'' @ [CHR 0x22] @ ''tags'' @ [CHR 0x22] @ '':['' @
     [CHR 0x22, CHR 0x5C, CHR 0x22, CHR 0x5C, CHR ''n'', CHR 0x22] @ '',true],'' @ [CHR 0x22, CHR 0x22] @ '':{}}''"

lemma demo_canon: "canon demo_doc" "cj_string demo_doc = None"
  by (simp_all add: demo_doc_def)

lemma print_plain: "plain_char c \<Longrightarrow> print_char c = [c]"
  by (simp add: plain_char_def print_char_def)

lemma demo_printed: "cJSON_PrintUnformatted demo_lib demo_doc = Some demo_text"
proof -
  have "fmt_int (- 42) = ''-42''" by code_simp
  moreover have "list_all plain_char ''idtags''" by (simp add: plain_char_def uchar_def)
  moreover have "print_char (CHR 0x22) = [CHR 0x5C, CHR 0x22]" "print_char (CHR 0x0A) = [CHR 0x5C, CHR ''n'']"
    by (simp_all add: print_char_def uchar_def)
  ultimately show ?thesis
    by (simp add: cJSON_PrintUnformatted_def demo_doc_def demo_text_def print_int print_string_ptr_def print_plain)
qed


definition demo_lines :: string where
  "demo_lines = [CHR 0x0A] @ ''[1, {'' @ [CHR 0x22] @ ''a'' @ [CHR 0x22] @ '':null}]''"

lemma demo_numbers:
  assumes "suffix t demo_lines" and "first_char t = CHR ''-'' \<or> c_isdigit (first_char t)"
  shows "parse_number demo_lib cJSON_New_Item t \<noteq> None"
proof -
  have "fmt_int 1 = ''1''" by code_simp
  then have "parse_number demo_lib cJSON_New_Item (CHR ''1'' # CHR '','' # s) \<noteq> None" for s
    using parse_int [of 1 "CHR '','' # s" demo_lib cJSON_New_Item, OF _ _ after_number_facts(1) demo_pow] by simp
  moreover from assms have "\<exists>s. t = CHR ''1'' # CHR '','' # s"
    by (auto simp: demo_lines_def suffix_Cons first_char_def c_isdigit_def uchar_def)
  ultimately show ?thesis by auto
qed

lemma demo_tame: "tame demo_lib demo_lines"
  by (rule plain_tame [OF _ demo_numbers]) (auto simp: demo_lines_def)

theorem json_parse_ends_witness:
  "\<exists>r. cJSON_Parse demo_lib demo_lines = Some (map_option fst r) \<and>
     (\<forall>n \<ge> parse_fuel demo_lines. parse_value demo_lib n cJSON_New_Item (skip_ws demo_lines) = Some r)"
proof -
  have "parse_string cJSON_New_Item t \<noteq> None" if "suffix t demo_lines" "first_char t = CHR 0x22" for t
    using demo_tame that unfolding tame_def list_all_iff set_suffixes_eq mem_Collect_eq by blast
  with json_parse_ends [of demo_lib demo_lines] demo_numbers show ?thesis by blast
qed

text \<open>C25. A \<open>u\<close> escape with three digits makes the second pass over a string jump over the closing
  quote: it goes on copying what follows the string into a buffer that the first pass sized for the
  string alone, and overflows it as soon as more than two characters come before the next quote.\<close>

theorem json_short_escape_overflows:
  assumes "CHR 0x5C \<notin> set w" and "2 < length (takeWhile (\<lambda>c. c \<noteq> CHR 0x22) w)"
  shows "cJSON_Parse lib ([CHR 0x22, CHR 0x5C] @ ''u123'' @ [CHR 0x22] @ w) = None"
proof -
  let ?s = "[CHR 0x5C] @ ''u123'' @ [CHR 0x22] @ w"
  have len: "string_length ?s = Some 4" by simp
  have "scan_hex4 (''123'' @ [CHR 0x22] @ w) = Some 291"
    by (simp add: scan_hex4_def Let_def c_isspace_def is_hex_digit_def hex_val_def c_isdigit_def digit_val_def lower_def
        first_char_def digits_val_def uchar_def)
  then have "scan_into None (''123'' @ [CHR 0x22] @ w) = Some 291" by (simp add: scan_into_def)
  then obtain out rest where out: "string_chars None None ?s = Some (out, rest)" "length out = 2 + length (takeWhile (\<lambda>c. c \<noteq> CHR 0x22) w)"
    using plain_text(2) [OF assms(1), of "Some (291 div 64)" None] by (simp add: utf8_bytes_def push_out_def)
  have "parse_string cJSON_New_Item (CHR 0x22 # ?s) = None"
    unfolding parse_string_def list.sel(3) out(1) len using out(2) assms(2) by (simp add: first_char_def assert_c_def)
  then show ?thesis
    by (simp add: cJSON_Parse_def cJSON_ParseWithOpts_def parse_fuel_def parse_value.simps(2) skip_ws_at first_char_def uchar_def)
qed

theorem json_short_escape_overflows_witness:
  "cJSON_Parse demo_lib ([CHR 0x22, CHR 0x5C] @ ''u123'' @ [CHR 0x22] @ ''    '') = None"
  by (rule json_short_escape_overflows) simp_all

end
