(* ===== verification/KR_Calc_Json.thy ===== *)
theory KR_Calc_Json
  imports KR_Calc KR_Json
begin

text \<open>
  \<open>krcalc/kr_calc_parser_json.c\<close>, \<open>kr_calc_dumper_json.c\<close>, \<open>kr_calc_dumper_flex.c\<close> and the dispatch
  of \<open>kr_calc_parser.c\<close> and \<open>kr_calc_dumper.c\<close>: calculators from and to text. The result of a parsing function is the
  tree (NULL is \<^term>\<open>None\<close>) with the calculator, whose status and message it sets; the generated parser of
  the other format is a parameter.

  \<open>calc_lib\<close> is what the code takes from the C library, with \<open>cl_uninit\<close>: the loops of both dumpers over the
  children of a node never initialise their index, and \<open>cl_uninit\<close> is the number found in it.
\<close>

record calc_lib =
  cl_json :: json_lib
  cl_regcomp :: "string \<Rightarrow> int"
  cl_fmtg :: "kr_double \<Rightarrow> string"
  cl_uninit :: "T_KRCalcTree \<Rightarrow> int"

section \<open>The numbers of kinds and operators\<close>

definition all_kinds :: "E_KRCalcKind list" where
  "all_kinds = [KR_CALCKIND_REL, KR_CALCKIND_ARITH, KR_CALCKIND_LOGIC, KR_CALCKIND_INT, KR_CALCKIND_FLOAT, KR_CALCKIND_STRING,
     KR_CALCKIND_MINT, KR_CALCKIND_MFLOAT, KR_CALCKIND_MSTRING, KR_CALCKIND_REGEX, KR_CALCKIND_SET, KR_CALCKIND_CID,
     KR_CALCKIND_FID, KR_CALCKIND_SID, KR_CALCKIND_DID, KR_CALCKIND_HID]"

definition all_ops :: "E_KRCalcOp list" where
  "all_ops = [KR_CALCOP_PLUS, KR_CALCOP_SUB, KR_CALCOP_MUT, KR_CALCOP_DIV, KR_CALCOP_MOD, KR_CALCOP_LT, KR_CALCOP_LE,
     KR_CALCOP_GT, KR_CALCOP_GE, KR_CALCOP_EQ, KR_CALCOP_NEQ, KR_CALCOP_BL, KR_CALCOP_NBL, KR_CALCOP_MATCH, KR_CALCOP_NOT,
     KR_CALCOP_AND, KR_CALCOP_OR]"

definition kind_of_code :: "int \<Rightarrow> E_KRCalcKind option" where
  "kind_of_code n = (if 0 \<le> n \<and> n < 16 then Some (all_kinds ! nat n) else None)"

definition op_of_code :: "int \<Rightarrow> E_KRCalcOp option" where
  "op_of_code n = (if 1 \<le> n \<and> n < 18 then Some (all_ops ! nat (n - 1)) else None)"

fun kind_code :: "E_KRCalcKind \<Rightarrow> int" where
  "kind_code KR_CALCKIND_REL = 0" | "kind_code KR_CALCKIND_ARITH = 1" | "kind_code KR_CALCKIND_LOGIC = 2"
| "kind_code KR_CALCKIND_INT = 3" | "kind_code KR_CALCKIND_FLOAT = 4" | "kind_code KR_CALCKIND_STRING = 5"
| "kind_code KR_CALCKIND_MINT = 6" | "kind_code KR_CALCKIND_MFLOAT = 7" | "kind_code KR_CALCKIND_MSTRING = 8"
| "kind_code KR_CALCKIND_REGEX = 9" | "kind_code KR_CALCKIND_SET = 10" | "kind_code KR_CALCKIND_CID = 11"
| "kind_code KR_CALCKIND_FID = 12" | "kind_code KR_CALCKIND_SID = 13" | "kind_code KR_CALCKIND_DID = 14"
| "kind_code KR_CALCKIND_HID = 15"

fun op_code :: "E_KRCalcOp option \<Rightarrow> int" where
  "op_code None = 0"
| "op_code (Some KR_CALCOP_PLUS) = 1" | "op_code (Some KR_CALCOP_SUB) = 2" | "op_code (Some KR_CALCOP_MUT) = 3"
| "op_code (Some KR_CALCOP_DIV) = 4" | "op_code (Some KR_CALCOP_MOD) = 5" | "op_code (Some KR_CALCOP_LT) = 6"
| "op_code (Some KR_CALCOP_LE) = 7" | "op_code (Some KR_CALCOP_GT) = 8" | "op_code (Some KR_CALCOP_GE) = 9"
| "op_code (Some KR_CALCOP_EQ) = 10" | "op_code (Some KR_CALCOP_NEQ) = 11" | "op_code (Some KR_CALCOP_BL) = 12"
| "op_code (Some KR_CALCOP_NBL) = 13" | "op_code (Some KR_CALCOP_MATCH) = 14" | "op_code (Some KR_CALCOP_NOT) = 15"
| "op_code (Some KR_CALCOP_AND) = 16" | "op_code (Some KR_CALCOP_OR) = 17"

section \<open>From JSON\<close>

definition kr_calcjson_getint :: "cJSON \<Rightarrow> int option" where
  "kr_calcjson_getint j = d_to_i32 (cj_valuedouble j)"

text \<open>A node of a kind with a type and a value, and one with an identifier.\<close>

definition value_node :: "E_KRCalcKind \<Rightarrow> E_KRType \<Rightarrow> calc_value \<Rightarrow> T_KRCalcTree" where
  "value_node kind ty v = set_ind KR_VALUE_SETED (set_value v (set_type ty (kr_calc_tree_new kind)))"

definition id_node :: "E_KRCalcKind \<Rightarrow> int \<Rightarrow> T_KRCalcTree" where
  "id_node kind i = CalcTree [] kind None i KR_TYPE_UNKNOWN KR_VALUE_UNSET V_zero"

text \<open>
  An element. A missing value fails the assertion; the string of a value that has none is NULL, which
  \<open>kr_strdup\<close>, \<open>kr_hashset_make\<close> and \<open>regcomp\<close> read; a pattern that does not compile gives a node without one.
\<close>

definition kr_calc_parse_ele :: "calc_lib \<Rightarrow> T_KRCalc \<Rightarrow> int \<Rightarrow> cJSON option \<Rightarrow> (T_KRCalcTree option \<times> T_KRCalc) option" where
  "kr_calc_parse_ele lib kc kind json = do {
     j \<leftarrow> json;
     let set_node = (\<lambda>k ty. do {
           s \<leftarrow> cj_valuestring j;
           h \<leftarrow> kr_hashset_make ty s;
           Some (Some (value_node k KR_TYPE_POINTER (V_p (Some (P_set h)))), kc)
         });
     (case kind_of_code kind of
        Some KR_CALCKIND_INT \<Rightarrow> do {
          i \<leftarrow> kr_calcjson_getint j;
          Some (Some (value_node KR_CALCKIND_INT KR_TYPE_INT (V_i (word_of_int i))), kc)
        }
      | Some KR_CALCKIND_FLOAT \<Rightarrow> Some (Some (value_node KR_CALCKIND_FLOAT KR_TYPE_DOUBLE (V_d (cj_valuedouble j))), kc)
      | Some KR_CALCKIND_STRING \<Rightarrow> do {
          s \<leftarrow> cj_valuestring j;
          Some (Some (value_node KR_CALCKIND_STRING KR_TYPE_STRING (V_s (Some s))), kc)
        }
      | Some KR_CALCKIND_MINT \<Rightarrow> set_node KR_CALCKIND_MINT KR_TYPE_INT
      | Some KR_CALCKIND_MFLOAT \<Rightarrow> set_node KR_CALCKIND_MFLOAT KR_TYPE_DOUBLE
      | Some KR_CALCKIND_MSTRING \<Rightarrow> set_node KR_CALCKIND_MSTRING KR_TYPE_STRING
      | Some KR_CALCKIND_REGEX \<Rightarrow> do {
          s \<leftarrow> cj_valuestring j;
          Some (Some (value_node KR_CALCKIND_REGEX KR_TYPE_POINTER (V_p (map_option P_regex (kr_regex_compile (cl_regcomp lib) s)))), kc)
        }
      | Some k \<Rightarrow>
          (if k \<in> {KR_CALCKIND_SET, KR_CALCKIND_CID, KR_CALCKIND_FID, KR_CALCKIND_SID, KR_CALCKIND_DID, KR_CALCKIND_HID}
           then do { i \<leftarrow> kr_calcjson_getint j; Some (Some (id_node k i), kc) }
           else Some (None, kc\<lparr>calc_errmsg := Msg_parse (''unknown kind ['' @ fmt_int kind @ '']!'' @ [CHR 0x0A])\<rparr>))
      | None \<Rightarrow> Some (None, kc\<lparr>calc_errmsg := Msg_parse (''unknown kind ['' @ fmt_int kind @ '']!'' @ [CHR 0x0A])\<rparr>))
   }"

text \<open>The node of an operator, before it has children.\<close>

definition op_node :: "E_KRCalcOp \<Rightarrow> T_KRCalcTree" where
  "op_node p =
     (if p \<in> {KR_CALCOP_PLUS, KR_CALCOP_SUB, KR_CALCOP_MUT, KR_CALCOP_DIV, KR_CALCOP_MOD}
      then CalcTree [] KR_CALCKIND_ARITH (Some p) 0 KR_TYPE_DOUBLE KR_VALUE_UNSET V_zero
      else if p \<in> {KR_CALCOP_NOT, KR_CALCOP_AND, KR_CALCOP_OR}
      then CalcTree [] KR_CALCKIND_REL (Some p) 0 KR_TYPE_BOOL KR_VALUE_UNSET V_zero
      else CalcTree [] KR_CALCKIND_LOGIC (Some p) 0 KR_TYPE_BOOL KR_VALUE_UNSET V_zero)"

lemma find_name_size: "find_name name cs = Some (Some c) \<Longrightarrow> size c < Suc (size_list size cs)"
  by (induction cs) (auto simp: bind_eq_Some_conv split: if_splits)

lemma GetObjectItem_size: "cJSON_GetObjectItem j name = Some (Some c) \<Longrightarrow> size c < size j"
  using find_name_size [of name "cj_child j" c] by (cases j) (simp add: cJSON_GetObjectItem_def)

text \<open>
  \<open>_kr_calc_parse_json\<close>, \<open>kr_calc_parse_exp\<close> and its loop over the children, of which \<open>i\<close> have been read.
  Without an array of children the loop reads the size of NULL.
\<close>

function (sequential) calc_parse_json_node :: "calc_lib \<Rightarrow> T_KRCalc \<Rightarrow> cJSON \<Rightarrow> (T_KRCalcTree option \<times> T_KRCalc) option"
  and kr_calc_parse_exp :: "calc_lib \<Rightarrow> T_KRCalc \<Rightarrow> int \<Rightarrow> cJSON \<Rightarrow> (T_KRCalcTree option \<times> T_KRCalc) option"
  and parse_exp_children :: "calc_lib \<Rightarrow> T_KRCalc \<Rightarrow> nat \<Rightarrow> T_KRCalcTree \<Rightarrow> cJSON list \<Rightarrow> (T_KRCalcTree option \<times> T_KRCalc) option"
where
  "calc_parse_json_node lib kc j = do {
     x \<leftarrow> cJSON_GetObjectItem j ''op'';
     (case x of
        Some o1 \<Rightarrow> do { p \<leftarrow> kr_calcjson_getint o1; kr_calc_parse_exp lib kc p j }
      | None \<Rightarrow> do {
          y \<leftarrow> cJSON_GetObjectItem j ''kind'';
          (case y of
             Some k1 \<Rightarrow> do {
               k \<leftarrow> kr_calcjson_getint k1;
               v \<leftarrow> cJSON_GetObjectItem j ''value'';
               kr_calc_parse_ele lib kc k v
             }
           | None \<Rightarrow> Some (None, kc))
        })
   }"
| "kr_calc_parse_exp lib kc p j =
     (case op_of_code p of
        None \<Rightarrow> Some (None, kc\<lparr>calc_status := - 1, calc_errmsg := Msg_parse (''unknown op ['' @ fmt_int p @ '']!'' @ [CHR 0x0A])\<rparr>)
      | Some q \<Rightarrow>
          (case cJSON_GetObjectItem j ''child'' of
             Some (Some a) \<Rightarrow> parse_exp_children lib kc 0 (op_node q) (cj_child a)
           | _ \<Rightarrow> None))"
| "parse_exp_children lib kc i t [] = Some (Some t, kc)"
| "parse_exp_children lib kc i t (c # cs) =
     (case calc_parse_json_node lib kc c of
        None \<Rightarrow> None
      | Some (None, kc1) \<Rightarrow>
          Some (None, kc1\<lparr>calc_status := - 1, calc_errmsg := Msg_parse (''_kr_calc_parse_json child'' @ fmt_int (int i) @ '' failed!'')\<rparr>)
      | Some (Some n, kc1) \<Rightarrow> parse_exp_children lib kc1 (Suc i) (kr_calc_tree_append t n) cs)"
  by pat_completeness auto

termination
proof (relation "measure (\<lambda>x. case x of Inl (lib, kc, j) \<Rightarrow> 3 * size j + 2 | Inr (Inl (lib, kc, p, j)) \<Rightarrow> 3 * size j + 1
    | Inr (Inr (lib, kc, i, t, cs)) \<Rightarrow> 3 * size_list size cs)")
  fix lib kc p j q x a assume "cJSON_GetObjectItem j ''child'' = Some x" "x = Some a"
  then have "size a < size j" using GetObjectItem_size by blast
  moreover have "size_list size (cj_child a) \<le> size a" by (cases a) simp
  ultimately show "(Inr (Inr (lib, kc, 0, op_node q, cj_child a)), Inr (Inl (lib, kc, p, j))) \<in>
      measure (\<lambda>x. case x of Inl (lib, kc, j) \<Rightarrow> 3 * size j + 2 | Inr (Inl (lib, kc, p, j)) \<Rightarrow> 3 * size j + 1
        | Inr (Inr (lib, kc, i, t, cs)) \<Rightarrow> 3 * size_list size cs)"
    by simp
qed simp_all

text \<open>The message about an unreadable text is written into 1024 characters, together with that text.\<close>

definition kr_calc_parse_json :: "calc_lib \<Rightarrow> T_KRCalc \<Rightarrow> (int \<times> T_KRCalc) option" where
  "kr_calc_parse_json lib kc = do {
     x \<leftarrow> cJSON_Parse (cl_json lib) (calc_string kc);
     (case x of
        None \<Rightarrow> do {
          assert_c (length (calc_string kc) + 19 < 1024);
          Some (- 1, kc\<lparr>calc_status := - 1, calc_errmsg := Msg_parse (''cJSON_Parse '' @ calc_string kc @ '' failed'')\<rparr>)
        }
      | Some j \<Rightarrow> do {
          (t, kc1) \<leftarrow> calc_parse_json_node lib kc j;
          (case t of
             None \<Rightarrow> Some (- 1, kc1\<lparr>calc_tree := None, calc_status := - 1, calc_errmsg := Msg_parse ''_kr_calc_parse_json failed''\<rparr>)
           | Some tr \<Rightarrow> Some (0, kc1\<lparr>calc_tree := Some tr\<rparr>))
        })
   }"

definition kr_calc_parse :: "(T_KRCalc \<Rightarrow> (int \<times> T_KRCalc) option) \<Rightarrow> calc_lib \<Rightarrow> T_KRCalc \<Rightarrow> (int \<times> T_KRCalc) option" where
  "kr_calc_parse parse_flex lib kc = (case calc_format kc of
       KR_CALCFORMAT_FLEX \<Rightarrow> parse_flex kc
     | KR_CALCFORMAT_JSON \<Rightarrow> kr_calc_parse_json lib kc)"

section \<open>To JSON\<close>

definition dump_element :: "E_KRCalcKind \<Rightarrow> (cJSON \<Rightarrow> cJSON option) \<Rightarrow> cJSON option" where
  "dump_element k put = do {
     j \<leftarrow> cJSON_AddNumberToObject cJSON_CreateObject ''kind'' (d_of_int (kind_code k));
     put j
   }"

definition put_string :: "string option \<Rightarrow> cJSON \<Rightarrow> cJSON option" where
  "put_string s j = map_option (cJSON_AddStringToObject j ''value'') s"

fun calc_dump_json_node :: "calc_lib \<Rightarrow> T_KRCalcTree \<Rightarrow> cJSON option"
  and dump_json_children :: "calc_lib \<Rightarrow> nat \<Rightarrow> T_KRCalcTree list \<Rightarrow> cJSON \<Rightarrow> cJSON option"
where
  "calc_dump_json_node lib (CalcTree cs k p i ty d v) =
     (if k \<in> {KR_CALCKIND_REL, KR_CALCKIND_ARITH, KR_CALCKIND_LOGIC} then do {
        j \<leftarrow> cJSON_AddNumberToObject cJSON_CreateObject ''op'' (d_of_int (op_code p));
        assert_c (0 \<le> cl_uninit lib (CalcTree cs k p i ty d v));
        childs \<leftarrow> dump_json_children lib (nat (cl_uninit lib (CalcTree cs k p i ty d v))) cs cJSON_CreateArray;
        Some (cJSON_AddItemToObject j ''child'' (Some childs))
      }
      else dump_element k (\<lambda>j.
        (case k of
           KR_CALCKIND_INT \<Rightarrow> do { w \<leftarrow> get_i v; cJSON_AddNumberToObject j ''value'' (d_of_int (sint w)) }
         | KR_CALCKIND_FLOAT \<Rightarrow> do { x \<leftarrow> get_d v; cJSON_AddNumberToObject j ''value'' x }
         | KR_CALCKIND_STRING \<Rightarrow> do { s \<leftarrow> get_s v; put_string s j }
         | KR_CALCKIND_REGEX \<Rightarrow> (case get_p v of Some (Some (P_regex r)) \<Rightarrow> put_string (Some (re_pattern r)) j | _ \<Rightarrow> None)
         | _ \<Rightarrow> (if k \<in> {KR_CALCKIND_MINT, KR_CALCKIND_MFLOAT, KR_CALCKIND_MSTRING}
               then (case get_p v of Some (Some (P_set h)) \<Rightarrow> put_string (Some (hs_name h)) j | _ \<Rightarrow> None)
               else cJSON_AddNumberToObject j ''value'' (d_of_int i)))))"
| "dump_json_children lib n [] a = Some a"
| "dump_json_children lib 0 (c # cs) a = do {
     x \<leftarrow> calc_dump_json_node lib c;
     dump_json_children lib 0 cs (cJSON_AddItemToArray a (Some x))
   }"
| "dump_json_children lib (Suc n) (c # cs) a = dump_json_children lib n cs a"

text \<open>A calculator without a tree makes the dumper read through NULL.\<close>

definition kr_calc_dump_json :: "calc_lib \<Rightarrow> T_KRCalc \<Rightarrow> string option" where
  "kr_calc_dump_json lib kc = do {
     t \<leftarrow> calc_tree kc;
     j \<leftarrow> calc_dump_json_node lib t;
     cJSON_PrintUnformatted (cl_json lib) j
   }"

section \<open>To the other format\<close>

text \<open>
  The text a node appends. An operator that is none returns NULL, into which the next \<open>sprintf\<close> writes;
  there is no text for an operator with a single operand.
\<close>

definition calc_dump_op :: "E_KRCalcOp option \<Rightarrow> string option" where
  "calc_dump_op p = (case p of
       None \<Rightarrow> None
     | Some q \<Rightarrow> Some (case q of
           KR_CALCOP_AND \<Rightarrow> '' && '' | KR_CALCOP_OR \<Rightarrow> '' || '' | KR_CALCOP_NOT \<Rightarrow> '' ! ''
         | KR_CALCOP_PLUS \<Rightarrow> '' + '' | KR_CALCOP_SUB \<Rightarrow> '' - '' | KR_CALCOP_MUT \<Rightarrow> '' * ''
         | KR_CALCOP_DIV \<Rightarrow> '' / '' | KR_CALCOP_MOD \<Rightarrow> '' % ''
         | KR_CALCOP_LT \<Rightarrow> '' < '' | KR_CALCOP_LE \<Rightarrow> '' <= '' | KR_CALCOP_GT \<Rightarrow> '' > '' | KR_CALCOP_GE \<Rightarrow> '' >= ''
         | KR_CALCOP_EQ \<Rightarrow> '' == '' | KR_CALCOP_NEQ \<Rightarrow> '' != '' | KR_CALCOP_BL \<Rightarrow> '' @@ '' | KR_CALCOP_NBL \<Rightarrow> '' !@ ''
         | KR_CALCOP_MATCH \<Rightarrow> '' ## ''))"

fun calc_dump_flex_node :: "calc_lib \<Rightarrow> T_KRCalcTree \<Rightarrow> string option"
  and dump_flex_children :: "calc_lib \<Rightarrow> nat \<Rightarrow> E_KRCalcOp option \<Rightarrow> T_KRCalcTree list \<Rightarrow> string option"
where
  "calc_dump_flex_node lib (CalcTree cs k p i ty d v) = (case k of
       KR_CALCKIND_INT \<Rightarrow> do { w \<leftarrow> get_i v; Some (fmt_int (sint w)) }
     | KR_CALCKIND_FLOAT \<Rightarrow> do { x \<leftarrow> get_d v; Some (cl_fmtg lib x) }
     | KR_CALCKIND_STRING \<Rightarrow> do { s \<leftarrow> get_s v; s }
     | KR_CALCKIND_REGEX \<Rightarrow> (case get_p v of Some (Some (P_regex r)) \<Rightarrow> Some (''['' @ re_pattern r @ '']'') | _ \<Rightarrow> None)
     | KR_CALCKIND_SET \<Rightarrow> Some (''A_'' @ fmt_int i)
     | KR_CALCKIND_CID \<Rightarrow> Some (''C_'' @ fmt_int i)
     | KR_CALCKIND_FID \<Rightarrow> Some (''F_'' @ fmt_int i)
     | KR_CALCKIND_SID \<Rightarrow> Some (''S_'' @ fmt_int i)
     | KR_CALCKIND_DID \<Rightarrow> Some (''D_'' @ fmt_int i)
     | KR_CALCKIND_HID \<Rightarrow> Some (''H_'' @ fmt_int i)
     | _ \<Rightarrow>
         (if k \<in> {KR_CALCKIND_MINT, KR_CALCKIND_MFLOAT, KR_CALCKIND_MSTRING}
          then (case get_p v of Some (Some (P_set h)) \<Rightarrow> Some (''{'' @ hs_name h @ ''}'') | _ \<Rightarrow> None)
          else do {
            assert_c (0 \<le> cl_uninit lib (CalcTree cs k p i ty d v));
            u \<leftarrow> dump_flex_children lib (nat (cl_uninit lib (CalcTree cs k p i ty d v))) p cs;
            Some (''('' @ u @ '')'')
          }))"
| "dump_flex_children lib n p [] = Some []"
| "dump_flex_children lib 0 p (c # cs) = do {
     u \<leftarrow> calc_dump_flex_node lib c;
     w \<leftarrow> (if cs = [] then Some [] else calc_dump_op p);
     us \<leftarrow> dump_flex_children lib 0 p cs;
     Some (u @ w @ us)
   }"
| "dump_flex_children lib (Suc n) p (c # cs) = dump_flex_children lib n p cs"

text \<open>The text with its terminator is written into 4096 characters.\<close>

definition kr_calc_dump_flex :: "calc_lib \<Rightarrow> T_KRCalc \<Rightarrow> string option" where
  "kr_calc_dump_flex lib kc = do {
     t \<leftarrow> calc_tree kc;
     u \<leftarrow> calc_dump_flex_node lib t;
     assert_c (length u + 2 \<le> 4096);
     Some (u @ '';'')
   }"

definition kr_calc_dump :: "calc_lib \<Rightarrow> T_KRCalc \<Rightarrow> E_KRCalcFormat \<Rightarrow> string option" where
  "kr_calc_dump lib kc fmt = (case fmt of
       KR_CALCFORMAT_FLEX \<Rightarrow> kr_calc_dump_flex lib kc
     | KR_CALCFORMAT_JSON \<Rightarrow> kr_calc_dump_json lib kc)"

end
