(* ===== verification/KR_Calc_Json_Props.thy ===== *)
theory KR_Calc_Json_Props
  imports KR_Calc_Json KR_Json_Props
begin

text \<open>Calculators written as JSON and read back.\<close>

section \<open>Trees the parser can build\<close>

text \<open>
  The trees as the parser leaves them, before an evaluation; a floating point literal is a whole number, which
  the printer writes without loss, and the texts are proper C strings.
\<close>

definition op_group :: "E_KRCalcOp \<Rightarrow> E_KRCalcKind \<times> E_KRType" where
  "op_group p = (ct_kind (op_node p), ct_type (op_node p))"

fun readable :: "calc_lib \<Rightarrow> T_KRCalcTree \<Rightarrow> bool" where
  "readable lib (CalcTree cs k p i ty d v) =
     (if k \<in> {KR_CALCKIND_REL, KR_CALCKIND_ARITH, KR_CALCKIND_LOGIC}
      then (case p of None \<Rightarrow> False | Some q \<Rightarrow> set_children cs (op_node q) = CalcTree cs k p i ty d v) \<and> list_all (readable lib) cs
      else cs = [] \<and> p = None \<and>
        (case k of
           KR_CALCKIND_INT \<Rightarrow> i = 0 \<and> ty = KR_TYPE_INT \<and> d = KR_VALUE_SETED \<and> (case v of V_i w \<Rightarrow> True | _ \<Rightarrow> False)
         | KR_CALCKIND_FLOAT \<Rightarrow> i = 0 \<and> ty = KR_TYPE_DOUBLE \<and> d = KR_VALUE_SETED \<and>
             (case v of V_d x \<Rightarrow> (case d_to_i32 x of Some n \<Rightarrow> x = d_of_int n | None \<Rightarrow> False) | _ \<Rightarrow> False)
         | KR_CALCKIND_STRING \<Rightarrow> i = 0 \<and> ty = KR_TYPE_STRING \<and> d = KR_VALUE_SETED \<and> (case v of V_s (Some s) \<Rightarrow> c_string s | _ \<Rightarrow> False)
         | KR_CALCKIND_REGEX \<Rightarrow> i = 0 \<and> ty = KR_TYPE_POINTER \<and> d = KR_VALUE_SETED \<and>
             (case v of V_p (Some (P_regex r)) \<Rightarrow> c_string (re_pattern r) \<and> kr_regex_compile (cl_regcomp lib) (re_pattern r) = Some r | _ \<Rightarrow> False)
         | _ \<Rightarrow>
             (if k \<in> {KR_CALCKIND_MINT, KR_CALCKIND_MFLOAT, KR_CALCKIND_MSTRING}
              then i = 0 \<and> ty = KR_TYPE_POINTER \<and> d = KR_VALUE_SETED \<and>
                (case v of
                   V_p (Some (P_set h)) \<Rightarrow> c_string (hs_name h) \<and>
                     kr_hashset_make (if k = KR_CALCKIND_MINT then KR_TYPE_INT else if k = KR_CALCKIND_MFLOAT then KR_TYPE_DOUBLE else KR_TYPE_STRING)
                       (hs_name h) = Some h
                 | _ \<Rightarrow> False)
              else - (2 ^ 31) \<le> i \<and> i < 2 ^ 31 \<and> ty = KR_TYPE_UNKNOWN \<and> d = KR_VALUE_UNSET \<and> v = V_zero)))"

section \<open>Access to the written objects\<close>

text \<open>A number as the constructors make it.\<close>

definition num :: "int \<Rightarrow> string \<Rightarrow> cJSON" where
  "num n name = CJSON [] cJSON_Number None n (d_of_int n) (Some name)"

definition obj :: "cJSON list \<Rightarrow> cJSON" where
  "obj cs = CJSON cs cJSON_Object None 0 (Fin 0) None"

definition arr :: "cJSON list \<Rightarrow> string option \<Rightarrow> cJSON" where
  "arr cs nm = CJSON cs cJSON_Array None 0 (Fin 0) nm"

definition str :: "string \<Rightarrow> string \<Rightarrow> cJSON" where
  "str s name = CJSON [] cJSON_String (Some s) 0 (Fin 0) (Some name)"

lemma add_num:
  "- (2 ^ 31) \<le> n \<Longrightarrow> n < 2 ^ 31 \<Longrightarrow> cJSON_AddNumberToObject (obj cs) name (d_of_int n) = Some (obj (cs @ [num n name]))"
  by (simp add: cJSON_AddNumberToObject_def cJSON_CreateNumber_def cJSON_AddItemToObject_def d_to_i32_of_int obj_def num_def)

lemma add_str: "cJSON_AddStringToObject (obj cs) name s = obj (cs @ [str s name])"
  by (simp add: cJSON_AddStringToObject_def cJSON_CreateString_def cJSON_AddItemToObject_def obj_def str_def)

lemma add_arr: "cJSON_AddItemToObject (obj cs) name (Some (arr xs nm)) = obj (cs @ [arr xs (Some name)])"
  by (simp add: cJSON_AddItemToObject_def obj_def arr_def)

lemma new_obj: "cJSON_CreateObject = obj []" "cJSON_CreateArray = arr [] None"
  by (simp_all add: cJSON_CreateObject_def cJSON_CreateArray_def cJSON_New_Item_def obj_def arr_def)

lemma push_arr: "cJSON_AddItemToArray (arr xs nm) (Some x) = arr (xs @ [x]) nm"
  by (simp add: arr_def)

lemma names:
  "cJSON_strcasecmp (Some ''op'') (Some ''op'') = Some 0" "cJSON_strcasecmp (Some ''kind'') (Some ''kind'') = Some 0"
  "cJSON_strcasecmp (Some ''value'') (Some ''value'') = Some 0" "cJSON_strcasecmp (Some ''child'') (Some ''child'') = Some 0"
  "cJSON_strcasecmp (Some ''kind'') (Some ''op'') = Some (- 4)" "cJSON_strcasecmp (Some ''value'') (Some ''op'') = Some (7)"
  "cJSON_strcasecmp (Some ''kind'') (Some ''value'') = Some (- 11)" "cJSON_strcasecmp (Some ''op'') (Some ''child'') = Some (12)"
  by code_simp+

lemma get_items:
  "cj_string x = Some ''value'' \<Longrightarrow> cJSON_GetObjectItem (obj [num k ''kind'', x]) ''op'' = Some None"
  "cJSON_GetObjectItem (obj [num k ''kind'', x]) ''kind'' = Some (Some (num k ''kind''))"
  "cj_string x = Some ''value'' \<Longrightarrow> cJSON_GetObjectItem (obj [num k ''kind'', x]) ''value'' = Some (Some x)"
  "cJSON_GetObjectItem (obj (num p ''op'' # ys)) ''op'' = Some (Some (num p ''op''))"
  "cJSON_GetObjectItem (obj [num p ''op'', arr xs (Some ''child'')]) ''child'' = Some (Some (arr xs (Some ''child'')))"
  by (simp_all add: cJSON_GetObjectItem_def obj_def num_def arr_def names)

lemma get_num: "- (2 ^ 31) \<le> n \<Longrightarrow> n < 2 ^ 31 \<Longrightarrow> kr_calcjson_getint (num n name) = Some n"
  by (simp add: kr_calcjson_getint_def num_def d_to_i32_of_int)

lemma kind_code_facts: "0 \<le> kind_code k" "kind_code k < 16" "kind_of_code (kind_code k) = Some k"
  by (cases k; simp add: kind_of_code_def all_kinds_def)+

lemma op_code_facts: "0 < op_code (Some p)" "op_code (Some p) < 18" "op_of_code (op_code (Some p)) = Some p"
  by (cases p; simp add: op_of_code_def all_ops_def)+

lemma parse_element:
  assumes "cj_string x = Some ''value''"
  shows "calc_parse_json_node lib kc (obj [num (kind_code k) ''kind'', x]) = kr_calc_parse_ele lib kc (kind_code k) (Some x)"
  using assms get_num [of "kind_code k" "''kind''"] kind_code_facts(1,2) [of k]
  by (simp add: get_items)

lemma dump_element_obj:
  "dump_element k put = put (obj [num (kind_code k) ''kind''])"
  using add_num [of "kind_code k" "[]" "''kind''"] kind_code_facts(1,2) [of k] by (simp add: dump_element_def new_obj)

section \<open>The round trip\<close>

lemma set_children_append: "kr_calc_tree_append (set_children cs t) c = set_children (cs @ [c]) t"
  by (cases t) simp

text \<open>What is written for a tree: a proper document, from which the tree is read.\<close>

definition written :: "calc_lib \<Rightarrow> T_KRCalcTree \<Rightarrow> cJSON \<Rightarrow> bool" where
  "written lib t j \<longleftrightarrow> canon j \<and> cj_string j = None \<and> (\<forall>kc. calc_parse_json_node lib kc j = Some (Some t, kc))"

lemma dump_children:
  "\<forall>t \<in> set ts. \<exists>j. calc_dump_json_node lib t = Some j \<and> written lib t j \<Longrightarrow>
   \<exists>js. dump_json_children lib 0 ts (arr ys nm) = Some (arr (ys @ js) nm) \<and> list_all2 (written lib) ts js"
proof (induction ts arbitrary: ys)
  case (Cons t ts)
  then obtain j where j: "calc_dump_json_node lib t = Some j" "written lib t j" by auto
  from Cons.prems Cons.IH [of "ys @ [j]"] obtain js where
    "dump_json_children lib 0 ts (arr (ys @ [j]) nm) = Some (arr ((ys @ [j]) @ js) nm)" "list_all2 (written lib) ts js"
    by auto
  with j show ?case by (intro exI [of _ "j # js"]) (simp add: push_arr)
qed simp

lemma parse_children:
  "list_all2 (written lib) ts js \<Longrightarrow> parse_exp_children lib kc i (set_children us t0) js = Some (Some (set_children (us @ ts) t0), kc)"
proof (induction js arbitrary: i us ts)
  case (Cons j js)
  then obtain t ts' where t: "ts = t # ts'" "written lib t j" "list_all2 (written lib) ts' js" by (auto simp: list_all2_Cons2)
  then show ?case using Cons.IH [OF t(3), of "Suc i" "us @ [t]"] by (simp add: written_def set_children_append)
qed simp

lemma set_children_none [simp]: "set_children [] (op_node q) = op_node q"
  by (simp add: op_node_def)

lemma canon_children: "list_all2 (written lib) ts js \<Longrightarrow> list_all (\<lambda>c. cj_string c = None \<and> canon c) js"
  by (induction rule: list_all2_induct) (simp_all add: written_def)

lemma dump_written_op:
  assumes "cl_uninit lib (CalcTree cs k (Some q) i ty d v) = 0" and "k \<in> {KR_CALCKIND_REL, KR_CALCKIND_ARITH, KR_CALCKIND_LOGIC}"
    and "set_children cs (op_node q) = CalcTree cs k (Some q) i ty d v"
    and "\<forall>t \<in> set cs. \<exists>j. calc_dump_json_node lib t = Some j \<and> written lib t j"
  shows "\<exists>j. calc_dump_json_node lib (CalcTree cs k (Some q) i ty d v) = Some j \<and> written lib (CalcTree cs k (Some q) i ty d v) j"
proof -
  from dump_children [OF assms(4), of "[]" None] obtain js where
    js: "dump_json_children lib 0 cs (arr [] None) = Some (arr js None)" "list_all2 (written lib) cs js" by auto
  let ?j = "obj [num (op_code (Some q)) ''op'', arr js (Some ''child'')]"
  have rng: "- (2 ^ 31) \<le> op_code (Some q)" "op_code (Some q) < 2 ^ 31" using op_code_facts(1,2) [of q] by simp_all
  have "calc_dump_json_node lib (CalcTree cs k (Some q) i ty d v) = Some ?j"
    using assms(1,2) add_num [OF rng, of "[]" "''op''"] js(1) by (simp add: new_obj add_arr assert_c_def)
  moreover have "calc_parse_json_node lib kc ?j = Some (Some (CalcTree cs k (Some q) i ty d v), kc)" for kc
    using parse_children [OF js(2), of kc 0 "[]" "op_node q"] assms(3)
    by (simp add: get_items get_num [OF rng] op_code_facts(3)) (simp add: arr_def)
  moreover have "canon ?j" "cj_string ?j = None"
    using canon_children [OF js(2)] rng by (simp_all add: obj_def num_def arr_def)
  ultimately show ?thesis unfolding written_def by blast
qed

lemma written_element:
  assumes "calc_dump_json_node lib t = Some (obj [num (kind_code k) ''kind'', x])" and "cj_string x = Some ''value''" and "canon x"
    and "\<And>kc. kr_calc_parse_ele lib kc (kind_code k) (Some x) = Some (Some t, kc)"
  shows "\<exists>j. calc_dump_json_node lib t = Some j \<and> written lib t j"
proof (intro exI conjI, rule assms(1))
  have "canon (num (kind_code k) ''kind'')" using kind_code_facts(1,2) [of k] by (simp add: num_def)
  with assms(2,3) have "canon (obj [num (kind_code k) ''kind'', x])" by (simp add: obj_def num_def)
  then show "written lib t (obj [num (kind_code k) ''kind'', x])"
    using parse_element [OF assms(2), of lib _ k] assms(4) unfolding written_def by (simp add: obj_def)
qed

text \<open>The text that stands for the value of an element.\<close>

definition value_text :: "E_KRCalcKind \<Rightarrow> calc_value \<Rightarrow> string option" where
  "value_text k v = (case v of
       V_s s \<Rightarrow> (if k = KR_CALCKIND_STRING then s else None)
     | V_p (Some (P_regex r)) \<Rightarrow> (if k = KR_CALCKIND_REGEX then Some (re_pattern r) else None)
     | V_p (Some (P_set h)) \<Rightarrow> (if k \<in> {KR_CALCKIND_MINT, KR_CALCKIND_MFLOAT, KR_CALCKIND_MSTRING} then Some (hs_name h) else None)
     | _ \<Rightarrow> None)"

lemma dump_text:
  "value_text k v = Some s \<Longrightarrow> calc_dump_json_node lib (CalcTree cs k p i ty d v) = Some (obj [num (kind_code k) ''kind'', str s ''value''])"
  by (cases k) (auto simp: value_text_def dump_element_obj put_string_def add_str split: U_KRValue.splits option.splits calc_ptr.splits if_splits)

lemma dump_written_text:
  assumes "value_text k v = Some s" and "c_string s"
    and "\<And>kc. kr_calc_parse_ele lib kc (kind_code k) (Some (str s ''value'')) = Some (Some (CalcTree cs k p i ty d v), kc)"
  shows "\<exists>j. calc_dump_json_node lib (CalcTree cs k p i ty d v) = Some j \<and> written lib (CalcTree cs k p i ty d v) j"
  using assms(2) by (intro written_element [OF dump_text [OF assms(1)] _ _ assms(3)]) (simp_all add: str_def)

lemma dump_written_element:
  assumes r: "readable lib (CalcTree cs k p i ty d v)" and k: "k \<notin> {KR_CALCKIND_REL, KR_CALCKIND_ARITH, KR_CALCKIND_LOGIC}"
  shows "\<exists>j. calc_dump_json_node lib (CalcTree cs k p i ty d v) = Some j \<and> written lib (CalcTree cs k p i ty d v) j"
proof (cases "k \<in> {KR_CALCKIND_INT, KR_CALCKIND_FLOAT, KR_CALCKIND_STRING, KR_CALCKIND_REGEX, KR_CALCKIND_MINT, KR_CALCKIND_MFLOAT, KR_CALCKIND_MSTRING}")
  case False
  then have i: "- (2 ^ 31) \<le> i" "i < 2 ^ 31" and t: "CalcTree cs k p i ty d v = id_node k i"
    using r k by (cases k; simp add: id_node_def)+
  show ?thesis
  proof (rule written_element [of _ _ k "num i ''value''"])
    show "calc_dump_json_node lib (CalcTree cs k p i ty d v) = Some (obj [num (kind_code k) ''kind'', num i ''value''])"
      using k False add_num [OF i] by (cases k) (simp_all add: dump_element_obj)
    show "kr_calc_parse_ele lib kc (kind_code k) (Some (num i ''value'')) = Some (Some (CalcTree cs k p i ty d v), kc)" for kc
      unfolding t kr_calc_parse_ele_def kind_code_facts(3) using k False by (cases k) (simp_all add: get_num [OF i])
  qed (use i in \<open>simp_all add: num_def\<close>)
next
  case True
  note parse = kr_calc_parse_ele_def kind_code_facts(3)
  show ?thesis
  proof (cases "k = KR_CALCKIND_INT \<or> k = KR_CALCKIND_FLOAT")
    case num: True
    then obtain n where n: "- (2 ^ 31) \<le> n" "n < 2 ^ 31"
      and dump: "calc_dump_json_node lib (CalcTree cs k p i ty d v) = Some (obj [num (kind_code k) ''kind'', num n ''value''])"
      and p: "\<And>kc. kr_calc_parse_ele lib kc (kind_code k) (Some (num n ''value'')) = Some (Some (CalcTree cs k p i ty d v), kc)"
    proof
      assume k: "k = KR_CALCKIND_INT"
      with r obtain w where w: "v = V_i w" "cs = []" "p = None" "i = 0" "ty = KR_TYPE_INT" "d = KR_VALUE_SETED" by (auto split: U_KRValue.splits)
      have rng: "- (2 ^ 31) \<le> sint w" "sint w < 2 ^ 31" using sint_ge [of w] sint_lt [of w] by simp_all
      show thesis
      proof (rule that [OF rng])
        show "calc_dump_json_node lib (CalcTree cs k p i ty d v) = Some (obj [num (kind_code k) ''kind'', num (sint w) ''value''])"
          using add_num [OF rng] by (simp add: k w dump_element_obj)
        show "kr_calc_parse_ele lib kc (kind_code k) (Some (num (sint w) ''value'')) = Some (Some (CalcTree cs k p i ty d v), kc)" for kc
          unfolding parse k w by (simp add: get_num [OF rng] value_node_def kr_calc_tree_new_def)
      qed
    next
      assume k: "k = KR_CALCKIND_FLOAT"
      with r obtain n where w: "v = V_d (d_of_int n)" "d_to_i32 (d_of_int n) = Some n" "cs = []" "p = None" "i = 0" "ty = KR_TYPE_DOUBLE" "d = KR_VALUE_SETED"
        by (auto split: U_KRValue.splits option.splits)
      have rng: "- (2 ^ 31) \<le> n" "n < 2 ^ 31" using w(2) by (auto simp: d_to_i32_def d_to_int_def d_of_int_def split: kr_double.splits if_splits option.splits)
      show thesis
      proof (rule that [OF rng])
        show "calc_dump_json_node lib (CalcTree cs k p i ty d v) = Some (obj [num (kind_code k) ''kind'', num n ''value''])"
          using add_num [OF rng] by (simp add: k w dump_element_obj)
        show "kr_calc_parse_ele lib kc (kind_code k) (Some (num n ''value'')) = Some (Some (CalcTree cs k p i ty d v), kc)" for kc
          unfolding parse k w by (simp add: num_def value_node_def kr_calc_tree_new_def)
      qed
    qed
    show ?thesis by (rule written_element [OF dump _ _ p]) (use n in \<open>simp_all add: num_def\<close>)
  next
    case tx: False
    with r True obtain s where s: "value_text k v = Some s" "c_string s" "cs = []" "p = None" "i = 0" "d = KR_VALUE_SETED"
      by (auto simp: value_text_def split: U_KRValue.splits option.splits calc_ptr.splits)
    show ?thesis
    proof (rule dump_written_text [OF s(1,2)])
      show "kr_calc_parse_ele lib kc (kind_code k) (Some (str s ''value'')) = Some (Some (CalcTree cs k p i ty d v), kc)" for kc
        unfolding parse using r True tx s
        by (auto simp: str_def value_node_def kr_calc_tree_new_def value_text_def split: U_KRValue.splits option.splits calc_ptr.splits)
    qed
  qed
qed

lemma dump_written:
  assumes "\<And>u. cl_uninit lib u = 0"
  shows "readable lib t \<Longrightarrow> \<exists>j. calc_dump_json_node lib t = Some j \<and> written lib t j"
proof (induction t)
  case (CalcTree cs k p i ty d v)
  show ?case
  proof (cases "k \<in> {KR_CALCKIND_REL, KR_CALCKIND_ARITH, KR_CALCKIND_LOGIC}")
    case True
    with CalcTree.prems obtain q where q: "p = Some q" "set_children cs (op_node q) = CalcTree cs k (Some q) i ty d v" "list_all (readable lib) cs"
      by (auto split: option.splits)
    then have "\<forall>t \<in> set cs. \<exists>j. calc_dump_json_node lib t = Some j \<and> written lib t j"
      using CalcTree.IH by (simp add: list_all_iff)
    from dump_written_op [OF assms True q(2) this] q(1) show ?thesis by simp
  qed (rule dump_written_element [OF CalcTree.prems])
qed

text \<open>C26. A calculator that is written as JSON and constructed again from the text has the tree it had, whatever its shape and operators, when
  the tree is one the parser makes and that can be written without loss: it has not been evaluated, its floating point literals are whole numbers
  in the range of \<open>int\<close>, its strings, set texts and patterns are C strings, its identifiers are ints; and provided that the
  uninitialised loop indices of the dumper happen to be zero. (Other floating point literals are written with six digits after the point.)\<close>

theorem calc_json_round_trip:
  assumes "calc_tree kc = Some t" and "readable lib t" and "\<forall>u. cl_uninit lib u = 0" and "jl_pow10 (cl_json lib) (Fin 0) = Fin 1"
  shows "\<exists>txt. kr_calc_dump lib kc KR_CALCFORMAT_JSON = Some txt \<and>
    kr_calc_construct (kr_calc_parse flex lib) KR_CALCFORMAT_JSON txt =
      Some (Some \<lparr>calc_format = KR_CALCFORMAT_JSON, calc_string = txt, calc_tree = Some t, calc_status = 0, calc_errmsg = Msg_none\<rparr>)"
proof -
  from dump_written [OF assms(3) [rule_format] assms(2)] obtain j where j: "calc_dump_json_node lib t = Some j" "written lib t j" by blast
  have c: "canon j" "cj_string j = None" using j(2) by (simp_all add: written_def)
  obtain out where out: "cJSON_PrintUnformatted (cl_json lib) j = Some out"
    using print_unformatted(1) [of "cl_json lib" 0 j] unfolding cJSON_PrintUnformatted_def by blast
  then have "cJSON_Parse (cl_json lib) out = Some (Some j)"
    unfolding cJSON_PrintUnformatted_def by (rule parse_printed [OF _ c assms(4)])
  with j out assms(1) show ?thesis
    by (intro exI [of _ out])
      (simp add: kr_calc_dump_def kr_calc_dump_json_def kr_calc_construct_def kr_calc_parse_def kr_calc_parse_json_def written_def)
qed

text \<open>A rule: \<open>C_2 > 40 || F_1 == "ab" || D_7 ## a+\<close>, with a whole floating point number.\<close>

definition demo_calc_lib :: calc_lib where
  "demo_calc_lib = \<lparr>cl_json = demo_lib, cl_regcomp = (\<lambda>_. 0), cl_fmtg = (\<lambda>_. ''1''), cl_uninit = (\<lambda>_. 0)\<rparr>"

definition demo_rule_tree :: T_KRCalcTree where
  "demo_rule_tree = set_children
     [set_children [id_node KR_CALCKIND_CID 2, value_node KR_CALCKIND_FLOAT KR_TYPE_DOUBLE (V_d (d_of_int 40))] (op_node KR_CALCOP_GT),
      set_children [id_node KR_CALCKIND_FID 1, value_node KR_CALCKIND_STRING KR_TYPE_STRING (V_s (Some ''ab''))] (op_node KR_CALCOP_EQ),
      set_children [id_node KR_CALCKIND_DID 7, value_node KR_CALCKIND_REGEX KR_TYPE_POINTER (V_p (Some (P_regex \<lparr>re_pattern = ''a+''\<rparr>)))] (op_node KR_CALCOP_MATCH)]
     (op_node KR_CALCOP_OR)"

definition demo_rule_calc :: T_KRCalc where
  "demo_rule_calc = \<lparr>calc_format = KR_CALCFORMAT_FLEX, calc_string = [], calc_tree = Some demo_rule_tree, calc_status = 0, calc_errmsg = Msg_none\<rparr>"

lemma demo_rule_readable: "readable demo_calc_lib demo_rule_tree"
  by (simp add: demo_rule_tree_def demo_calc_lib_def op_node_def id_node_def value_node_def kr_calc_tree_new_def kr_regex_compile_def
      d_to_i32_of_int)

theorem calc_json_round_trip_witness:
  "\<forall>flex. \<exists>out kc. kr_calc_dump demo_calc_lib demo_rule_calc KR_CALCFORMAT_JSON = Some out \<and>
     kr_calc_construct (kr_calc_parse flex demo_calc_lib) KR_CALCFORMAT_JSON out = Some (Some kc) \<and> calc_tree kc = Some demo_rule_tree"
proof (intro allI)
  fix flex
  have "calc_tree demo_rule_calc = Some demo_rule_tree" "\<forall>u. cl_uninit demo_calc_lib u = 0" "jl_pow10 (cl_json demo_calc_lib) (Fin 0) = Fin 1"
    using demo_pow by (simp_all add: demo_rule_calc_def demo_calc_lib_def)
  from calc_json_round_trip [OF this(1) demo_rule_readable this(2,3), of flex]
  show "\<exists>out kc. kr_calc_dump demo_calc_lib demo_rule_calc KR_CALCFORMAT_JSON = Some out \<and>
     kr_calc_construct (kr_calc_parse flex demo_calc_lib) KR_CALCFORMAT_JSON out = Some (Some kc) \<and> calc_tree kc = Some demo_rule_tree"
    by auto
qed

section \<open>What goes wrong\<close>

lemma dump_json_past_end: "length cs \<le> n \<Longrightarrow> dump_json_children lib n cs a = Some a"
proof (induction cs arbitrary: n)
  case (Cons c cs)
  then show ?case by (cases n) simp_all
qed simp

text \<open>The loop over the operands in the dumper starts at whatever its uninitialised index holds. When that is
  not below the number of operands, none is written, and the calculator read from the text is a bare operator.\<close>

theorem calc_json_dump_loses_operands:
  assumes "calc_tree kc = Some t" and "readable lib t" and "ct_kind t \<in> {KR_CALCKIND_REL, KR_CALCKIND_ARITH, KR_CALCKIND_LOGIC}"
    and "int (length (ct_children t)) \<le> cl_uninit lib t" and "jl_pow10 (cl_json lib) (Fin 0) = Fin 1"
  shows "\<exists>txt kc'. kr_calc_dump lib kc KR_CALCFORMAT_JSON = Some txt \<and>
    kr_calc_construct (kr_calc_parse flex lib) KR_CALCFORMAT_JSON txt = Some (Some kc') \<and> calc_tree kc' = Some (set_children [] t)"
proof -
  obtain cs k p i ty d v where t: "t = CalcTree cs k p i ty d v" by (cases t)
  with assms(2,3) obtain q where q: "p = Some q" "set_children cs (op_node q) = t" by (auto split: option.splits)
  have t0: "set_children [] t = op_node q" using q(2) by (cases "op_node q") (auto simp: op_node_def split: if_splits)
  have rng: "- (2 ^ 31) \<le> op_code (Some q)" "op_code (Some q) < 2 ^ 31" using op_code_facts(1,2) [of q] by simp_all
  let ?j = "obj [num (op_code (Some q)) ''op'', arr [] (Some ''child'')]"
  have n: "length cs \<le> nat (cl_uninit lib (CalcTree cs k p i ty d v))" "0 \<le> cl_uninit lib (CalcTree cs k p i ty d v)"
    using assms(4) by (simp_all add: t)
  have j: "calc_dump_json_node lib t = Some ?j"
    using assms(3) n add_num [OF rng, of "[]" "''op''"] q(1)
    by (simp add: t dump_json_past_end new_obj add_arr assert_c_def)
  have c: "canon ?j" "cj_string ?j = None" using rng by (simp_all add: obj_def num_def arr_def)
  have r: "calc_parse_json_node lib kc0 ?j = Some (Some (set_children [] t), kc0)" for kc0
    by (simp add: get_items get_num [OF rng] op_code_facts(3) t0) (simp add: arr_def)
  obtain out where out: "cJSON_PrintUnformatted (cl_json lib) ?j = Some out"
    using print_unformatted(1) [of "cl_json lib" 0 ?j] unfolding cJSON_PrintUnformatted_def by blast
  then have "cJSON_Parse (cl_json lib) out = Some (Some ?j)"
    unfolding cJSON_PrintUnformatted_def by (rule parse_printed [OF _ c assms(5)])
  with j r out assms(1) show ?thesis
    by (intro exI [of _ out])
      (simp add: kr_calc_dump_def kr_calc_dump_json_def kr_calc_construct_def kr_calc_parse_def kr_calc_parse_json_def)
qed

theorem calc_json_dump_loses_operands_witness:
  "\<forall>flex. \<exists>out kc. kr_calc_dump (demo_calc_lib\<lparr>cl_uninit := \<lambda>_. 32767\<rparr>) demo_rule_calc KR_CALCFORMAT_JSON = Some out \<and>
     kr_calc_construct (kr_calc_parse flex (demo_calc_lib\<lparr>cl_uninit := \<lambda>_. 32767\<rparr>)) KR_CALCFORMAT_JSON out = Some (Some kc) \<and>
     calc_tree kc = Some (op_node KR_CALCOP_OR)"
proof (intro allI)
  fix flex
  let ?lib = "demo_calc_lib\<lparr>cl_uninit := \<lambda>_. 32767\<rparr>"
  have "calc_tree demo_rule_calc = Some demo_rule_tree" "readable ?lib demo_rule_tree"
    "ct_kind demo_rule_tree \<in> {KR_CALCKIND_REL, KR_CALCKIND_ARITH, KR_CALCKIND_LOGIC}"
    "int (length (ct_children demo_rule_tree)) \<le> cl_uninit ?lib demo_rule_tree" "jl_pow10 (cl_json ?lib) (Fin 0) = Fin 1"
    "set_children [] demo_rule_tree = op_node KR_CALCOP_OR"
    using demo_pow
    by (simp_all add: demo_rule_calc_def demo_calc_lib_def demo_rule_tree_def op_node_def id_node_def value_node_def
        kr_calc_tree_new_def kr_regex_compile_def d_to_i32_of_int)
  from calc_json_dump_loses_operands [OF this(1-5), of flex] this(6)
  show "\<exists>out kc. kr_calc_dump ?lib demo_rule_calc KR_CALCFORMAT_JSON = Some out \<and>
     kr_calc_construct (kr_calc_parse flex ?lib) KR_CALCFORMAT_JSON out = Some (Some kc) \<and> calc_tree kc = Some (op_node KR_CALCOP_OR)"
    by auto
qed

text \<open>An expression without an array of children reads the size of NULL.\<close>

lemma calc_json_missing_child:
  assumes "cJSON_GetObjectItem j ''op'' = Some (Some x)" and "kr_calcjson_getint x = Some (op_code (Some q))"
    and "cJSON_GetObjectItem j ''child'' = Some None"
  shows "calc_parse_json_node lib kc j = None"
  using assms by (simp add: op_code_facts(3))

text \<open>The other format writes the same text for the negation of an operand and for the operand alone in any operator.\<close>

lemma calc_flex_drops_not:
  assumes "\<forall>u. cl_uninit lib u = 0"
  shows "calc_dump_flex_node lib (set_children [c] (op_node KR_CALCOP_NOT)) = calc_dump_flex_node lib (set_children [c] (op_node KR_CALCOP_AND))"
  using assms by (simp add: op_node_def assert_c_def)

end
