(* ===== verification/KR_Server.thy ===== *)
theory KR_Server
  imports KR_Prelude
begin

unbundle bit_operations_syntax

text \<open>
  \<open>krserver/kr_server_protocol.c\<close> and the reading side of \<open>kr_server_network.c\<close>: messages as bytes and the buffer of
  a client, which is filled by what the socket gives and emptied message by message. A buffer is the list of its first \<open>size\<close>
  bytes, the others are never read. The engine is called without a thread pool: it
  answers before the next message is taken, and its answer is what \<open>kr_server_write_resp\<close> is called with.
\<close>

section \<open>Messages\<close>

definition KR_MSGID_LEN :: nat where "KR_MSGID_LEN = 16"
definition KR_METHOD_LEN :: nat where "KR_METHOD_LEN = 20"
definition KR_MSGHEADER_LEN :: nat where "KR_MSGHEADER_LEN = 44"
definition KR_BUFFER_MAX_LEN :: nat where "KR_BUFFER_MAX_LEN = 16 * 1024"

text \<open>The two character arrays have 31 and 21 elements; the body is NULL in a new message.\<close>

record T_KRMessage =
  ms_type :: int
  ms_id :: "u8 list"
  ms_method :: "u8 list"
  ms_datasrc :: i32
  ms_len :: nat
  ms_buf :: "u8 list option"

definition kr_get_u32 :: "u8 list \<Rightarrow> u32 option" where
  "kr_get_u32 buf = (case buf of
       a # b # c # d # _ \<Rightarrow> Some (push_bit 24 (ucast a) OR push_bit 16 (ucast b) OR push_bit 8 (ucast c) OR ucast d)
     | _ \<Rightarrow> None)"

definition kr_put_u32 :: "u32 \<Rightarrow> u8 list" where
  "kr_put_u32 val = [ucast (drop_bit 24 val AND 0xff), ucast (drop_bit 16 val AND 0xff), ucast (drop_bit 8 val AND 0xff), ucast (val AND 0xff)]"

definition kr_message_alloc :: T_KRMessage where
  "kr_message_alloc = \<lparr>ms_type = 0, ms_id = replicate 31 0, ms_method = replicate 21 0, ms_datasrc = 0, ms_len = 0, ms_buf = None\<rparr>"

text \<open>\<open>memcpy\<close> of \<open>n\<close> bytes to the beginning of an array: both must have them.\<close>

definition memcpy :: "u8 list \<Rightarrow> u8 list \<Rightarrow> nat \<Rightarrow> u8 list option" where
  "memcpy dst src n = do {
     assert_c (n \<le> length src \<and> n \<le> length dst);
     Some (take n src @ drop n dst)
   }"

text \<open>The result, what is left in the buffer, and the message. The test for a negative length is never true of a \<open>size_t\<close>.\<close>

definition kr_message_parse :: "u8 list \<Rightarrow> T_KRMessage \<Rightarrow> (int \<times> u8 list \<times> T_KRMessage) option" where
  "kr_message_parse krbuf krmsg =
     (if length krbuf < KR_MSGHEADER_LEN then Some (1, krbuf, krmsg)
      else do {
        w \<leftarrow> kr_get_u32 (drop (KR_MSGHEADER_LEN - 4) krbuf);
        let msglen = unat w;
        if length krbuf < KR_MSGHEADER_LEN + msglen then Some (2, krbuf, krmsg)
        else do {
          id \<leftarrow> memcpy (ms_id krmsg) krbuf KR_MSGID_LEN;
          let p1 = drop KR_MSGID_LEN krbuf;
          method \<leftarrow> memcpy (ms_method krmsg) p1 KR_METHOD_LEN;
          let p2 = drop KR_METHOD_LEN p1;
          datasrc \<leftarrow> kr_get_u32 p2;
          let p3 = drop 4 p2;
          len \<leftarrow> kr_get_u32 p3;
          let p4 = drop 4 p3;
          body \<leftarrow> memcpy (replicate (unat len) 0) p4 (unat len);
          Some (0, drop (unat len) p4,
            krmsg\<lparr>ms_id := id, ms_method := method, ms_datasrc := datasrc, ms_len := unat len, ms_buf := Some body\<rparr>)
        }
      })"

text \<open>The buffer it writes has \<open>KR_BUFFER_MAX_LEN\<close> bytes.\<close>

definition kr_message_dump :: "T_KRMessage \<Rightarrow> u8 list option" where
  "kr_message_dump krmsg = do {
     id \<leftarrow> memcpy (replicate KR_MSGID_LEN 0) (ms_id krmsg) KR_MSGID_LEN;
     method \<leftarrow> memcpy (replicate KR_METHOD_LEN 0) (ms_method krmsg) KR_METHOD_LEN;
     let body = (case ms_buf krmsg of None \<Rightarrow> [] | Some b \<Rightarrow> b);
     assert_c (ms_len krmsg \<le> length body);
     assert_c (KR_MSGHEADER_LEN + ms_len krmsg \<le> KR_BUFFER_MAX_LEN);
     Some (id @ method @ kr_put_u32 (ms_datasrc krmsg) @ kr_put_u32 (word_of_nat (ms_len krmsg)) @ take (ms_len krmsg) body)
   }"

section \<open>Clients\<close>

text \<open>A client, with the bytes written to its socket; it is closed when it has been freed.\<close>

record T_KRClient =
  cl_inbuf :: "u8 list"
  cl_inmsg :: "T_KRMessage option"
  cl_written :: "u8 list"
  cl_closed :: bool

definition kr_client_alloc :: T_KRClient where
  "kr_client_alloc = \<lparr>cl_inbuf = [], cl_inmsg = None, cl_written = [], cl_closed = False\<rparr>"

definition kr_client_free :: "T_KRClient \<Rightarrow> T_KRClient" where
  "kr_client_free cl = cl\<lparr>cl_closed := True\<rparr>"

text \<open>The engine: from a request and a fresh reply the reply it calls back with.\<close>

type_synonym 'e engine = "T_KRMessage \<Rightarrow> T_KRMessage \<Rightarrow> 'e \<Rightarrow> (T_KRMessage \<times> 'e) option"

definition kr_server_write_resp :: "T_KRMessage \<Rightarrow> T_KRClient \<Rightarrow> T_KRClient option" where
  "kr_server_write_resp outmsg cl = do {
     outbuf \<leftarrow> kr_message_dump outmsg;
     Some (cl\<lparr>cl_written := cl_written cl @ outbuf\<rparr>)
   }"

definition kr_server_process_input_message ::
  "'e engine \<Rightarrow> T_KRMessage \<Rightarrow> T_KRClient \<Rightarrow> 'e \<Rightarrow> (T_KRClient \<times> 'e) option" where
  "kr_server_process_input_message engine inmsg cl e = do {
     (reply, e1) \<leftarrow> engine inmsg kr_message_alloc e;
     cl1 \<leftarrow> kr_server_write_resp reply cl;
     Some (cl1, e1)
   }"

lemma memcpy_Some: "memcpy dst src n = Some x \<longleftrightarrow> n \<le> length src \<and> n \<le> length dst \<and> x = take n src @ drop n dst"
  by (auto simp: memcpy_def assert_c_def)

lemma parse_shrinks: "kr_message_parse buf m = Some (0, buf', m') \<Longrightarrow> length buf' < length buf"
  by (auto simp: kr_message_parse_def bind_eq_Some_conv Let_def KR_MSGHEADER_LEN_def split: if_splits)

lemma input_message_inbuf: "kr_server_process_input_message engine m cl e = Some (cl1, e1) \<Longrightarrow> cl_inbuf cl1 = cl_inbuf cl"
  by (auto simp: kr_server_process_input_message_def kr_server_write_resp_def bind_eq_Some_conv)

text \<open>The loop over the buffer. A client that the parser rejects is freed; the engine leaves the client's buffer alone.\<close>

function kr_server_process_input_buffer :: "'e engine \<Rightarrow> T_KRClient \<Rightarrow> 'e \<Rightarrow> (T_KRClient \<times> 'e) option" where
  "kr_server_process_input_buffer engine cl e =
     (if cl_inbuf cl = [] then Some (cl, e)
      else
        (case kr_message_parse (cl_inbuf cl) (case cl_inmsg cl of None \<Rightarrow> kr_message_alloc | Some m \<Rightarrow> m) of
           None \<Rightarrow> None
         | Some (ret, buf, m) \<Rightarrow>
             if ret < 0 then Some (kr_client_free (cl\<lparr>cl_inmsg := Some m\<rparr>), e)
             else if 0 < ret then Some (cl\<lparr>cl_inmsg := Some m\<rparr>, e)
             else
               (case kr_server_process_input_message engine m (cl\<lparr>cl_inbuf := buf, cl_inmsg := Some m\<rparr>) e of
                  None \<Rightarrow> None
                | Some (cl1, e1) \<Rightarrow> kr_server_process_input_buffer engine (cl1\<lparr>cl_inmsg := None\<rparr>) e1)))"
  by pat_completeness auto

termination
  by (relation "measure (\<lambda>(engine, cl, e). length (cl_inbuf cl))")
    (auto dest!: parse_shrinks input_message_inbuf)

declare kr_server_process_input_buffer.simps [simp del]

section \<open>The socket\<close>

text \<open>
  \<open>read\<close> with room for \<open>count\<close> bytes when \<open>pending\<close> has arrived: between one and \<open>count\<close> bytes, as many as the kernel
  chooses (\<open>k\<close>). A count of zero reads nothing.
\<close>

datatype read_result = Read_data "u8 list" | Read_zero | Read_again | Read_error

definition socket_read :: "nat \<Rightarrow> nat \<Rightarrow> u8 list \<Rightarrow> read_result \<times> u8 list" where
  "socket_read k count pending =
     (if count = 0 then (Read_zero, pending)
      else if pending = [] then (Read_again, [])
      else let n = min (max 1 k) count in (Read_data (take n pending), drop n pending))"

definition kr_server_on_read :: "'e engine \<Rightarrow> read_result \<Rightarrow> T_KRClient \<Rightarrow> 'e \<Rightarrow> (T_KRClient \<times> 'e) option" where
  "kr_server_on_read engine r cl e = (case r of
       Read_error \<Rightarrow> Some (kr_client_free cl, e)
     | Read_zero \<Rightarrow> Some (kr_client_free cl, e)
     | Read_again \<Rightarrow> Some (cl, e)
     | Read_data bs \<Rightarrow> kr_server_process_input_buffer engine (cl\<lparr>cl_inbuf := cl_inbuf cl @ bs\<rparr>) e)"

text \<open>The event loop calls \<open>kr_server_on_read\<close> while the client is open; the list holds the choices of the kernel.\<close>

fun serve :: "'e engine \<Rightarrow> nat list \<Rightarrow> T_KRClient \<Rightarrow> u8 list \<Rightarrow> 'e \<Rightarrow> (T_KRClient \<times> u8 list \<times> 'e) option" where
  "serve engine [] cl pending e = Some (cl, pending, e)"
| "serve engine (k # ks) cl pending e =
     (if cl_closed cl then Some (cl, pending, e)
      else do {
        let (r, rest) = socket_read k (KR_BUFFER_MAX_LEN - length (cl_inbuf cl)) pending;
        (cl1, e1) \<leftarrow> kr_server_on_read engine r cl e;
        serve engine ks cl1 rest e1
      })"

end
