(* ===== verification/KR_Server_Props.thy ===== *)
theory KR_Server_Props
  imports KR_Server
begin

text \<open>A client's requests are answered one by one and in order, however the bytes arrive.\<close>

section \<open>Numbers\<close>

lemma get_put_u32: "kr_get_u32 (kr_put_u32 v @ r) = Some v"
proof -
  have ff: "(0xff :: u32) = mask 8" by (simp add: mask_eq_exp_minus_1)
  have "push_bit 24 (ucast (ucast (drop_bit 24 v AND 0xff) :: u8)) OR push_bit 16 (ucast (ucast (drop_bit 16 v AND 0xff) :: u8)) OR
      push_bit 8 (ucast (ucast (drop_bit 8 v AND 0xff) :: u8)) OR ucast (ucast (v AND 0xff) :: u8) = v"
    (is "?l = v")
  proof (rule bit_word_eqI)
    fix n assume "n < LENGTH(32)"
    then have "n < 32" by simp
    then consider "n < 8" | "8 \<le> n" "n < 16" | "16 \<le> n" "n < 24" | "24 \<le> n" "n < 32" by linarith
    then show "bit ?l n = bit v n"
      unfolding ff by cases (auto simp: bit_simps)
  qed
  then show ?thesis by (simp add: kr_get_u32_def kr_put_u32_def)
qed

lemma put_u32_length [simp]: "length (kr_put_u32 v) = 4"
  by (simp add: kr_put_u32_def)

section \<open>One message\<close>

text \<open>A message that fits the wire format and the buffers, its bytes, and how the receiver sees it.\<close>

definition sendable :: "T_KRMessage \<Rightarrow> bool" where
  "sendable m \<longleftrightarrow> KR_MSGID_LEN \<le> length (ms_id m) \<and> KR_METHOD_LEN \<le> length (ms_method m) \<and>
     ms_len m = length (case ms_buf m of None \<Rightarrow> [] | Some b \<Rightarrow> b) \<and> KR_MSGHEADER_LEN + ms_len m \<le> KR_BUFFER_MAX_LEN"

definition wire :: "T_KRMessage \<Rightarrow> u8 list" where
  "wire m = take 16 (ms_id m) @ take 20 (ms_method m) @ kr_put_u32 (ms_datasrc m) @ kr_put_u32 (word_of_nat (ms_len m)) @
     (case ms_buf m of None \<Rightarrow> [] | Some b \<Rightarrow> b)"

definition received :: "T_KRMessage \<Rightarrow> T_KRMessage" where
  "received m = \<lparr>ms_type = 0, ms_id = take 16 (ms_id m) @ replicate 15 0, ms_method = take 20 (ms_method m) @ [0],
     ms_datasrc = ms_datasrc m, ms_len = ms_len m, ms_buf = Some (case ms_buf m of None \<Rightarrow> [] | Some b \<Rightarrow> b)\<rparr>"

lemmas wire_sizes = KR_MSGID_LEN_def KR_METHOD_LEN_def KR_MSGHEADER_LEN_def KR_BUFFER_MAX_LEN_def

lemma wire_length: "sendable m \<Longrightarrow> length (wire m) = 44 + ms_len m"
  by (simp add: sendable_def wire_def wire_sizes split: option.splits)

lemma wire_nonempty: "sendable m \<Longrightarrow> wire m \<noteq> []"
  using wire_length [of m] by auto

lemma dump_wire: "sendable m \<Longrightarrow> kr_message_dump m = Some (wire m)"
  by (auto simp: kr_message_dump_def sendable_def wire_def memcpy_def wire_sizes split: option.splits)

text \<open>The head of a sendable message, in pieces.\<close>

lemma wire_split:
  assumes "sendable m"
  obtains i me b where "length i = 16" "length me = 20" "length b = ms_len m" "b = (case ms_buf m of None \<Rightarrow> [] | Some b \<Rightarrow> b)"
    "i = take 16 (ms_id m)" "me = take 20 (ms_method m)" "ms_len m < 2 ^ 14"
    "wire m = i @ me @ kr_put_u32 (ms_datasrc m) @ kr_put_u32 (word_of_nat (ms_len m)) @ b"
  using assms by (intro that [of "take 16 (ms_id m)" "take 20 (ms_method m)" "case ms_buf m of None \<Rightarrow> [] | Some b \<Rightarrow> b"])
    (simp_all add: sendable_def wire_def wire_sizes)

lemma parse_wire:
  assumes "sendable m"
  shows "kr_message_parse (wire m @ rest) kr_message_alloc = Some (0, rest, received m)"
proof -
  obtain i me b where w: "length i = 16" "length me = 20" "length b = ms_len m" "b = (case ms_buf m of None \<Rightarrow> [] | Some b \<Rightarrow> b)"
    "i = take 16 (ms_id m)" "me = take 20 (ms_method m)" "ms_len m < 2 ^ 14"
    "wire m = i @ me @ kr_put_u32 (ms_datasrc m) @ kr_put_u32 (word_of_nat (ms_len m)) @ b"
    using wire_split [OF assms] by metis
  have n: "unat (word_of_nat (ms_len m) :: u32) = ms_len m" using w(7) by (simp add: unat_of_nat)
  have len: "drop 40 (wire m @ rest) = kr_put_u32 (word_of_nat (ms_len m)) @ b @ rest" using w(1,2,8) by simp
  show ?thesis
    unfolding kr_message_parse_def
    using w(1,2,3) len n
    by (simp add: get_put_u32 memcpy_def wire_sizes Let_def w(8) kr_message_alloc_def received_def w(4) [symmetric] w(5) [symmetric] w(6) [symmetric])
qed

text \<open>As long as a message has not arrived completely nothing changes.\<close>

lemma parse_part:
  assumes "sendable m" and "buf @ later = wire m @ rest" and "length buf < length (wire m)"
  shows "\<exists>ret. kr_message_parse buf msg = Some (ret, buf, msg) \<and> 0 < ret"
proof (cases "length buf < 44")
  case True
  then show ?thesis by (simp add: kr_message_parse_def wire_sizes)
next
  case False
  obtain i me b where w: "length i = 16" "length me = 20" "length b = ms_len m" "ms_len m < 2 ^ 14"
    "wire m = i @ me @ kr_put_u32 (ms_datasrc m) @ kr_put_u32 (word_of_nat (ms_len m)) @ b"
    using wire_split [OF assms(1)] by metis
  have n: "unat (word_of_nat (ms_len m) :: u32) = ms_len m" using w(4) by (simp add: unat_of_nat)
  have "buf = take (length buf) (wire m @ rest)" using assms(2) by (metis append_eq_conv_conj)
  moreover have "length (wire m) = 44 + ms_len m" by (rule wire_length [OF assms(1)])
  ultimately have "drop 40 buf = take (length buf - 40) (drop 40 (wire m @ rest))" by (metis drop_take)
  also have "drop 40 (wire m @ rest) = kr_put_u32 (word_of_nat (ms_len m)) @ b @ rest" using w(1,2,5) by simp
  finally have "kr_get_u32 (drop 40 buf) = Some (word_of_nat (ms_len m))"
    using get_put_u32 [of "word_of_nat (ms_len m)" "take (length buf - 44) (b @ rest)"] False by simp
  with False assms(3) n wire_length [OF assms(1)] show ?thesis
    by (simp add: kr_message_parse_def wire_sizes)
qed

section \<open>The buffer\<close>

text \<open>The answers to a sequence of requests, the engine being asked one after the other.\<close>

fun replies :: "'e engine \<Rightarrow> T_KRMessage list \<Rightarrow> 'e \<Rightarrow> (u8 list \<times> 'e) option" where
  "replies engine [] e = Some ([], e)"
| "replies engine (m # ms) e = do {
     (r, e1) \<leftarrow> engine (received m) kr_message_alloc e;
     out \<leftarrow> kr_message_dump r;
     (outs, e2) \<leftarrow> replies engine ms e1;
     Some (out @ outs, e2)
   }"

text \<open>
  The client still has \<open>ms\<close> to receive, the bytes of which are partly in its buffer: what it wrote and the answers
  to these make \<open>outs\<close>.
\<close>

definition awaits :: "'e engine \<Rightarrow> u8 list \<Rightarrow> 'e \<Rightarrow> T_KRMessage list \<Rightarrow> T_KRClient \<Rightarrow> u8 list \<Rightarrow> 'e \<Rightarrow> bool" where
  "awaits engine outs e' ms cl pending e \<longleftrightarrow> list_all sendable ms \<and> cl_inbuf cl @ pending = concat (map wire ms) \<and>
     (\<exists>outs2. replies engine ms e = Some (outs2, e') \<and> outs = cl_written cl @ outs2) \<and>
     (cl_inmsg cl = None \<or> cl_inmsg cl = Some kr_message_alloc) \<and> \<not> cl_closed cl"

text \<open>After the loop over the buffer not even the first of them is complete.\<close>

definition settled :: "T_KRMessage list \<Rightarrow> T_KRClient \<Rightarrow> bool" where
  "settled ms cl \<longleftrightarrow> (case ms of [] \<Rightarrow> cl_inbuf cl = [] | m # _ \<Rightarrow> length (cl_inbuf cl) < length (wire m))"

lemma process_input:
  "awaits engine outs e' ms cl pending e \<Longrightarrow>
   \<exists>cl1 e1 ms1. kr_server_process_input_buffer engine cl e = Some (cl1, e1) \<and> awaits engine outs e' ms1 cl1 pending e1 \<and> settled ms1 cl1"
proof (induction ms arbitrary: cl e)
  case Nil
  then have "cl_inbuf cl = []" by (simp add: awaits_def)
  with Nil show ?case by (intro exI [of _ cl] exI [of _ e] exI [of _ "[]"]) (simp add: kr_server_process_input_buffer.simps [of engine cl] settled_def)
next
  case (Cons m ms)
  let ?buf = "cl_inbuf cl"
  from Cons.prems have m: "sendable m" and ms: "list_all sendable ms" and b: "?buf @ pending = wire m @ concat (map wire ms)"
    by (simp_all add: awaits_def)
  have msg: "(case cl_inmsg cl of None \<Rightarrow> kr_message_alloc | Some m \<Rightarrow> m) = kr_message_alloc"
    using Cons.prems by (auto simp: awaits_def)
  show ?case
  proof (cases "length ?buf < length (wire m)")
    case True
    from parse_part [OF m b True, of kr_message_alloc] obtain ret where
      p: "kr_message_parse ?buf kr_message_alloc = Some (ret, ?buf, kr_message_alloc)" "0 < ret" by blast
    let ?cl = "if ?buf = [] then cl else cl\<lparr>cl_inmsg := Some kr_message_alloc\<rparr>"
    have "kr_server_process_input_buffer engine cl e = Some (?cl, e)"
      using p by (subst kr_server_process_input_buffer.simps) (simp add: msg)
    moreover have "awaits engine outs e' (m # ms) ?cl pending e" using Cons.prems by (auto simp: awaits_def)
    moreover have "settled (m # ms) ?cl" using True wire_nonempty [OF m] by (simp add: settled_def)
    ultimately show ?thesis by blast
  next
    case False
    then obtain rest where rest: "?buf = wire m @ rest" "rest @ pending = concat (map wire ms)"
      using b by (metis (no_types, lifting) append_eq_append_conv_if append_eq_conv_conj append_take_drop_id linorder_not_le order.order_iff_strict)
    from Cons.prems obtain outs2 where o2: "replies engine (m # ms) e = Some (outs2, e')" "outs = cl_written cl @ outs2"
      by (auto simp: awaits_def)
    then obtain r e1 out outs3 where r: "engine (received m) kr_message_alloc e = Some (r, e1)" "kr_message_dump r = Some out"
      "replies engine ms e1 = Some (outs3, e')" "outs2 = out @ outs3"
      by (auto simp: bind_eq_Some_conv)
    let ?cl = "cl\<lparr>cl_inbuf := rest, cl_written := cl_written cl @ out, cl_inmsg := None\<rparr>"
    have step: "kr_server_process_input_buffer engine cl e = kr_server_process_input_buffer engine ?cl e1"
      using parse_wire [OF m, of rest] wire_nonempty [OF m] r(1,2)
      by (subst kr_server_process_input_buffer.simps)
        (simp add: msg rest(1) kr_server_process_input_message_def kr_server_write_resp_def)
    have "awaits engine outs e' ms ?cl pending e1"
      using Cons.prems ms rest(2) r(3,4) o2(2) by (simp add: awaits_def)
    from Cons.IH [OF this] step show ?thesis by simp
  qed
qed

section \<open>The stream\<close>

lemma room:
  assumes "awaits engine outs e' ms cl pending e" and "settled ms cl"
  shows "length (cl_inbuf cl) < KR_BUFFER_MAX_LEN"
  using assms wire_length [of "hd ms"]
  by (cases ms) (auto simp: settled_def awaits_def sendable_def wire_sizes)

lemma serve_stream:
  assumes "length pending \<le> length ks" and "awaits engine outs e' ms cl pending e" and "settled ms cl"
  shows "\<exists>cl1 e1 ms1. serve engine ks cl pending e = Some (cl1, [], e1) \<and> awaits engine outs e' ms1 cl1 [] e1 \<and> settled ms1 cl1"
  using assms
proof (induction ks arbitrary: cl pending e ms)
  case (Cons k ks)
  have opn: "\<not> cl_closed cl" using Cons.prems(2) by (simp add: awaits_def)
  let ?count = "KR_BUFFER_MAX_LEN - length (cl_inbuf cl)"
  have count: "?count \<noteq> 0" using room [OF Cons.prems(2,3)] by simp
  show ?case
  proof (cases "pending = []")
    case True
    with count opn have "serve engine (k # ks) cl pending e = serve engine ks cl pending e"
      by (simp add: socket_read_def kr_server_on_read_def)
    with Cons.IH [OF _ Cons.prems(2,3)] True show ?thesis by simp
  next
    case False
    define n where "n = min (max 1 k) ?count"
    have n: "0 < n" using count by (simp add: n_def)
    let ?cl = "cl\<lparr>cl_inbuf := cl_inbuf cl @ take n pending\<rparr>"
    have "awaits engine outs e' ms ?cl (drop n pending) e" using Cons.prems(2) by (simp add: awaits_def)
    from process_input [OF this] obtain cl1 e1 ms1 where
      p: "kr_server_process_input_buffer engine ?cl e = Some (cl1, e1)" "awaits engine outs e' ms1 cl1 (drop n pending) e1" "settled ms1 cl1"
      by blast
    have "serve engine (k # ks) cl pending e = serve engine ks cl1 (drop n pending) e1"
      using count False opn p(1) by (simp add: socket_read_def kr_server_on_read_def n_def Let_def)
    moreover have "length (drop n pending) \<le> length ks" using Cons.prems(1) n False by (cases pending) simp_all
    ultimately show ?thesis using Cons.IH [OF _ p(2,3)] by simp
  qed
qed auto

text \<open>C27. The server answers the requests of a client one by one and in their order, and answers them all, whatever
  pieces their bytes arrive in: the buffer always has room for the rest of the message it holds the beginning of, every read makes
  progress, and when the stream has been read nothing is left.\<close>

theorem server_answers_in_order:
  assumes "list_all sendable ms" and "replies engine ms e = Some (outs, e')" and "length (concat (map wire ms)) \<le> length ks"
  shows "\<exists>cl. serve engine ks kr_client_alloc (concat (map wire ms)) e = Some (cl, [], e') \<and> cl_written cl = outs \<and>
    cl_inbuf cl = [] \<and> \<not> cl_closed cl"
proof -
  have a: "awaits engine outs e' ms kr_client_alloc (concat (map wire ms)) e"
    using assms(1,2) by (simp add: awaits_def kr_client_alloc_def)
  have "settled ms kr_client_alloc"
    using assms(1) wire_nonempty by (cases ms) (auto simp: settled_def kr_client_alloc_def)
  from serve_stream [OF assms(3) a this] obtain cl e1 ms1 where
    s: "serve engine ks kr_client_alloc (concat (map wire ms)) e = Some (cl, [], e1)" "awaits engine outs e' ms1 cl [] e1" "settled ms1 cl"
    by blast
  have "ms1 = []" using s(2,3) by (cases ms1) (auto simp: awaits_def settled_def)
  with s(2) have "cl_written cl = outs" "e1 = e'" "cl_inbuf cl = []" "\<not> cl_closed cl" by (auto simp: awaits_def)
  with s(1) show ?thesis by blast
qed

text \<open>An engine that answers with the body of the request and counts, and two requests.\<close>

definition echo :: "nat engine" where
  "echo inmsg outmsg n = Some (outmsg\<lparr>ms_len := ms_len inmsg, ms_buf := ms_buf inmsg\<rparr>, Suc n)"

definition request :: "u8 list \<Rightarrow> T_KRMessage" where
  "request b = \<lparr>ms_type = 0, ms_id = replicate 31 1, ms_method = replicate 21 2, ms_datasrc = 7, ms_len = length b, ms_buf = Some b\<rparr>"

theorem server_answers_in_order_witness:
  "\<exists>cl. serve echo (replicate 100 1) kr_client_alloc (wire (request [1, 2, 3]) @ wire (request [])) 0 = Some (cl, [], 2) \<and>
     cl_written cl = wire (kr_message_alloc\<lparr>ms_len := 3, ms_buf := Some [1, 2, 3]\<rparr>) @ wire (kr_message_alloc\<lparr>ms_len := 0, ms_buf := Some []\<rparr>)"
proof -
  have s: "sendable (request b)" "sendable (kr_message_alloc\<lparr>ms_len := length b, ms_buf := Some b\<rparr>)" if "length b \<le> 3" for b
    using that by (simp_all add: sendable_def request_def kr_message_alloc_def wire_sizes)
  have r: "ms_len (received (request b)) = length b" "ms_buf (received (request b)) = Some b" for b
    by (simp_all add: received_def request_def)
  have "list_all sendable [request [1, 2, 3], request []]" using s(1) by simp
  moreover have "replies echo [request [1, 2, 3], request []] 0 =
      Some (wire (kr_message_alloc\<lparr>ms_len := 3, ms_buf := Some [1, 2, 3]\<rparr>) @ wire (kr_message_alloc\<lparr>ms_len := 0, ms_buf := Some []\<rparr>), 2)"
    using dump_wire [OF s(2) [of "[1, 2, 3]"]] dump_wire [OF s(2) [of "[]"]] by (simp add: echo_def r numeral_3_eq_3)
  moreover have "length (concat (map wire [request [1, 2, 3], request []])) \<le> length (replicate 100 (1 :: nat))"
    using wire_length [OF s(1) [of "[1, 2, 3]"]] wire_length [OF s(1) [of "[]"]] by (simp add: request_def)
  ultimately show ?thesis using server_answers_in_order by fastforce
qed

section \<open>Messages that do not fit\<close>

lemma get_u32_append: "4 \<le> length b \<Longrightarrow> kr_get_u32 (b @ r) = kr_get_u32 b"
  by (auto simp: kr_get_u32_def split: list.split)

lemma parse_oversized:
  assumes "buf @ later = s" and "length buf \<le> KR_BUFFER_MAX_LEN" and "kr_get_u32 (drop 40 s) = Some w" and "KR_BUFFER_MAX_LEN < KR_MSGHEADER_LEN + unat w"
  shows "\<exists>ret. kr_message_parse buf m = Some (ret, buf, m) \<and> 0 < ret"
proof (cases "length buf < 44")
  case True
  then show ?thesis by (simp add: kr_message_parse_def wire_sizes)
next
  case False
  then have "drop 40 s = drop 40 buf @ later" using assms(1) by auto
  with False assms(3) get_u32_append [of "drop 40 buf" later] have "kr_get_u32 (drop 40 buf) = Some w" by simp
  with False assms(2,4) show ?thesis by (simp add: kr_message_parse_def wire_sizes)
qed

lemma serve_oversized:
  assumes "cl_inbuf cl @ pending = s" and "length (cl_inbuf cl) \<le> KR_BUFFER_MAX_LEN" and "KR_BUFFER_MAX_LEN \<le> length s"
    and "kr_get_u32 (drop 40 s) = Some w" and "KR_BUFFER_MAX_LEN < KR_MSGHEADER_LEN + unat w"
    and "KR_BUFFER_MAX_LEN - length (cl_inbuf cl) < length ks" and "\<not> cl_closed cl"
  shows "\<exists>cl1 rest. serve engine ks cl pending e = Some (cl1, rest, e) \<and> cl_closed cl1 \<and> cl_written cl1 = cl_written cl"
  using assms
proof (induction ks arbitrary: cl pending)
  case (Cons k ks)
  let ?count = "KR_BUFFER_MAX_LEN - length (cl_inbuf cl)"
  show ?case
  proof (cases "?count = 0")
    case True
    then have "serve engine (k # ks) cl pending e = serve engine ks (kr_client_free cl) pending e"
      using Cons.prems(7) by (simp add: socket_read_def kr_server_on_read_def)
    then show ?thesis by (cases ks) (simp_all add: kr_client_free_def)
  next
    case False
    have p: "pending \<noteq> []" using False Cons.prems(1,3) by (metis append.right_neutral diff_is_0_eq)
    define n where "n = min (max 1 k) ?count"
    have n: "0 < n" "n \<le> ?count" using False by (simp_all add: n_def)
    let ?buf = "cl_inbuf cl @ take n pending" and ?msg = "case cl_inmsg cl of None \<Rightarrow> kr_message_alloc | Some m \<Rightarrow> m"
    have b: "?buf @ drop n pending = s" "length ?buf \<le> KR_BUFFER_MAX_LEN" using Cons.prems(1,2) n(2) by auto
    from parse_oversized [OF b Cons.prems(4,5), of ?msg] obtain ret where
      r: "kr_message_parse ?buf ?msg = Some (ret, ?buf, ?msg)" "0 < ret" by blast
    let ?cl = "cl\<lparr>cl_inbuf := ?buf, cl_inmsg := Some ?msg\<rparr>"
    have "kr_server_process_input_buffer engine (cl\<lparr>cl_inbuf := ?buf\<rparr>) e = Some (?cl, e)"
      using r p n(1) by (subst kr_server_process_input_buffer.simps) simp
    then have "serve engine (k # ks) cl pending e = serve engine ks ?cl (drop n pending) e"
      using False p Cons.prems(7) by (simp add: socket_read_def kr_server_on_read_def n_def Let_def)
    moreover have "\<exists>cl1 rest. serve engine ks ?cl (drop n pending) e = Some (cl1, rest, e) \<and> cl_closed cl1 \<and> cl_written cl1 = cl_written ?cl"
      using b Cons.prems n p by (intro Cons.IH) (cases pending; simp)+
    ultimately show ?thesis by simp
  qed
qed simp

text \<open>C28. A client whose message is announced with more bytes than its buffer has is disconnected without an answer when the
  buffer is full: the read with no room left returns zero, which the server takes for the end of the connection.\<close>

theorem server_drops_oversized:
  assumes "KR_BUFFER_MAX_LEN \<le> length s" and "kr_get_u32 (drop 40 s) = Some w" and "KR_BUFFER_MAX_LEN < KR_MSGHEADER_LEN + unat w"
    and "KR_BUFFER_MAX_LEN < length ks"
  shows "\<exists>cl rest. serve engine ks kr_client_alloc s e = Some (cl, rest, e) \<and> cl_closed cl \<and> cl_written cl = []"
  using serve_oversized [of kr_client_alloc s s w ks engine e] assms by (simp add: kr_client_alloc_def)

theorem server_drops_oversized_witness:
  "\<exists>cl rest. serve echo (replicate 16385 4096) kr_client_alloc (replicate 40 0 @ kr_put_u32 20000 @ replicate 20000 9) 0 = Some (cl, rest, 0) \<and>
     cl_closed cl \<and> cl_written cl = []"
proof (rule server_drops_oversized [where w = 20000])
  show "kr_get_u32 (drop 40 (replicate 40 0 @ kr_put_u32 20000 @ replicate 20000 9)) = Some 20000"
    by (simp add: get_put_u32)
qed (simp_all add: wire_sizes)

end
