(* ===== verification/KR_ThreadPool.thy ===== *)
theory KR_ThreadPool
  imports KR_List
begin

text \<open>
  \<open>krutils/kr_threadpool.c\<close>: the threads that add tasks (callers) and the threads that run them (workers) as a step
  relation. A thread is where it is in its function, between two operations on what is shared: the mutex, the
  condition and the queue. \<open>pthread_cond_wait\<close> releases the mutex and sleeps in one step; a signal wakes one sleeper, if
  there is one, a broadcast all of them, and a sleeper may also wake up without either. A woken thread
  needs the mutex before it goes on. Copies of a task are the task, running one is a step, and threads are never cancelled.
\<close>

section \<open>Threads\<close>

text \<open>
  \<open>thread_func\<close> and \<open>kr_threadpool_get_task\<close>: about to lock, with the mutex at the test of the loop, asleep in \<open>pthread_cond_wait\<close>,
  woken and about to lock again, with the task and the mutex, running the task.
\<close>

datatype 'k worker = W_lock | W_check | W_wait | W_woken | W_got 'k | W_run 'k

text \<open>
  \<open>kr_threadpool_add_task\<close> and (\<^term>\<open>True\<close>) \<open>kr_threadpool_broadcast_task\<close>: at the busy wait, about to lock, pushing (for a broadcast with the
  number of copies to come), about to signal or broadcast, about to unlock and return a result.
\<close>

datatype 'k caller = C_idle | C_spin bool 'k | C_lock bool 'k | C_push 'k | C_bpush nat 'k | C_signal | C_broadcast | C_unlock int

datatype thread = Worker nat | Caller nat

text \<open>The last four fields are history: the tasks pushed, taken and run so far, and whether a broadcast has run out of room.\<close>

record 'k T_KRThreadPool =
  tp_queue :: "'k kr_queue_t"
  tp_mutex :: "thread option"
  tp_workers :: "'k worker list"
  tp_callers :: "'k caller list"
  tp_pushed :: "'k list"
  tp_taken :: "'k list"
  tp_done :: "'k list"
  tp_short :: bool

section \<open>Steps\<close>

text \<open>\<open>kr_threadpool_create\<close> and \<open>kr_threadpool_run\<close>, for \<open>m\<close> threads that will add tasks. The assertions demand positive numbers.\<close>

definition kr_threadpool_create :: "nat \<Rightarrow> nat \<Rightarrow> u32 \<Rightarrow> 'k T_KRThreadPool option" where
  "kr_threadpool_create m nthreads hwm = do {
     assert_c (0 < nthreads);
     assert_c (0 < hwm);
     Some \<lparr>tp_queue = kr_queue_init hwm, tp_mutex = None, tp_workers = replicate nthreads W_lock,
       tp_callers = replicate m C_idle, tp_pushed = [], tp_taken = [], tp_done = [], tp_short = False\<rparr>
   }"

text \<open>New calls and spurious wake-ups come from outside; all other steps the pool goes by itself.\<close>

datatype action = Call | Spurious | Go

definition caller_at :: "nat \<Rightarrow> 'k caller \<Rightarrow> 'k T_KRThreadPool \<Rightarrow> bool" where
  "caller_at i c s \<longleftrightarrow> i < length (tp_callers s) \<and> tp_callers s ! i = c"

definition worker_at :: "nat \<Rightarrow> 'k worker \<Rightarrow> 'k T_KRThreadPool \<Rightarrow> bool" where
  "worker_at j w s \<longleftrightarrow> j < length (tp_workers s) \<and> tp_workers s ! j = w"

definition put_caller :: "nat \<Rightarrow> 'k caller \<Rightarrow> 'k T_KRThreadPool \<Rightarrow> 'k T_KRThreadPool" where
  "put_caller i c s = s\<lparr>tp_callers := (tp_callers s)[i := c]\<rparr>"

definition put_worker :: "nat \<Rightarrow> 'k worker \<Rightarrow> 'k T_KRThreadPool \<Rightarrow> 'k T_KRThreadPool" where
  "put_worker j w s = s\<lparr>tp_workers := (tp_workers s)[j := w]\<rparr>"

definition push_task :: "'k \<Rightarrow> 'k kr_queue_t \<Rightarrow> 'k T_KRThreadPool \<Rightarrow> 'k T_KRThreadPool" where
  "push_task k q s = s\<lparr>tp_queue := q, tp_pushed := tp_pushed s @ [k]\<rparr>"

definition wake :: "'k worker \<Rightarrow> 'k worker" where
  "wake w = (case w of W_wait \<Rightarrow> W_woken | _ \<Rightarrow> w)"

inductive pool_step :: "action \<Rightarrow> 'k T_KRThreadPool \<Rightarrow> 'k T_KRThreadPool \<Rightarrow> bool" where
  call: "caller_at i C_idle s \<Longrightarrow> pool_step Call s (put_caller i (C_spin b k) s)"
| pass: "caller_at i (C_spin b k) s \<Longrightarrow> kr_queue_length (tp_queue s) < q_hwm (tp_queue s) \<Longrightarrow>
    pool_step Go s (put_caller i (C_lock b k) s)"
| lock: "caller_at i (C_lock b k) s \<Longrightarrow> tp_mutex s = None \<Longrightarrow>
    pool_step Go s (put_caller i (if b then C_bpush (length (tp_workers s)) k else C_push k) (s\<lparr>tp_mutex := Some (Caller i)\<rparr>))"
| push: "caller_at i (C_push k) s \<Longrightarrow> kr_queue_push (tp_queue s) k = Some (0, q) \<Longrightarrow>
    pool_step Go s (put_caller i C_signal (push_task k q s))"
| push_full: "caller_at i (C_push k) s \<Longrightarrow> kr_queue_push (tp_queue s) k = Some (r, q) \<Longrightarrow> r \<noteq> 0 \<Longrightarrow>
    pool_step Go s (put_caller i (C_unlock (- 1)) s)"
| bpush: "caller_at i (C_bpush (Suc l) k) s \<Longrightarrow> kr_queue_push (tp_queue s) k = Some (0, q) \<Longrightarrow>
    pool_step Go s (put_caller i (C_bpush l k) (push_task k q s))"
| bpush_full: "caller_at i (C_bpush (Suc l) k) s \<Longrightarrow> kr_queue_push (tp_queue s) k = Some (r, q) \<Longrightarrow> r \<noteq> 0 \<Longrightarrow>
    pool_step Go s (put_caller i (C_unlock (- 1)) (s\<lparr>tp_short := True\<rparr>))"
| bpush_end: "caller_at i (C_bpush 0 k) s \<Longrightarrow> pool_step Go s (put_caller i C_broadcast s)"
| signal: "caller_at i C_signal s \<Longrightarrow> worker_at j W_wait s \<Longrightarrow>
    pool_step Go s (put_caller i (C_unlock 0) (put_worker j W_woken s))"
| signal_none: "caller_at i C_signal s \<Longrightarrow> W_wait \<notin> set (tp_workers s) \<Longrightarrow> pool_step Go s (put_caller i (C_unlock 0) s)"
| broadcast: "caller_at i C_broadcast s \<Longrightarrow>
    pool_step Go s (put_caller i (C_unlock 0) (s\<lparr>tp_workers := map wake (tp_workers s)\<rparr>))"
| unlock: "caller_at i (C_unlock r) s \<Longrightarrow> pool_step Go s (put_caller i C_idle (s\<lparr>tp_mutex := None\<rparr>))"
| wlock: "worker_at j w s \<Longrightarrow> w = W_lock \<or> w = W_woken \<Longrightarrow> tp_mutex s = None \<Longrightarrow>
    pool_step Go s (put_worker j W_check (s\<lparr>tp_mutex := Some (Worker j)\<rparr>))"
| wwait: "worker_at j W_check s \<Longrightarrow> kr_queue_length (tp_queue s) = 0 \<Longrightarrow>
    pool_step Go s (put_worker j W_wait (s\<lparr>tp_mutex := None\<rparr>))"
| wpop: "worker_at j W_check s \<Longrightarrow> kr_queue_length (tp_queue s) \<noteq> 0 \<Longrightarrow> kr_queue_pop (tp_queue s) = Some (Some k, q) \<Longrightarrow>
    pool_step Go s (put_worker j (W_got k) (s\<lparr>tp_queue := q, tp_taken := tp_taken s @ [k]\<rparr>))"
| wunlock: "worker_at j (W_got k) s \<Longrightarrow> pool_step Go s (put_worker j (W_run k) (s\<lparr>tp_mutex := None\<rparr>))"
| wrun: "worker_at j (W_run k) s \<Longrightarrow> pool_step Go s (put_worker j W_lock (s\<lparr>tp_done := tp_done s @ [k]\<rparr>))"
| spurious: "worker_at j W_wait s \<Longrightarrow> pool_step Spurious s (put_worker j W_woken s)"

inductive_cases pool_goE: "pool_step Go s s'"
lemmas pool_go_cases = pool_goE [consumes 1, case_names pass lock push push_full bpush bpush_full bpush_end signal signal_none
  broadcast unlock wlock wwait wpop wunlock wrun]
inductive_cases pool_callE: "pool_step Call s s'"
inductive_cases pool_spuriousE: "pool_step Spurious s s'"

text \<open>The states a pool can be in.\<close>

inductive pool_reach :: "nat \<Rightarrow> nat \<Rightarrow> u32 \<Rightarrow> 'k T_KRThreadPool \<Rightarrow> bool" for m nthreads hwm where
  start: "kr_threadpool_create m nthreads hwm = Some s \<Longrightarrow> pool_reach m nthreads hwm s"
| step: "pool_reach m nthreads hwm s \<Longrightarrow> pool_step a s s' \<Longrightarrow> pool_reach m nthreads hwm s'"

end
