(* ===== verification/KR_ThreadPool_Inv.thy ===== *)
theory KR_ThreadPool_Inv
  imports KR_ThreadPool KR_List_Props "HOL-Library.Multiset"
begin

text \<open>What holds in every state of the pool.\<close>

section \<open>Sums over threads\<close>

lemma sum_update:
  fixes f :: "'a \<Rightarrow> 'b :: comm_monoid_add"
  shows "i < length xs \<Longrightarrow> sum_list (map f (xs[i := v])) + f (xs ! i) = sum_list (map f xs) + f v"
proof (induction xs arbitrary: i)
  case (Cons x xs)
  show ?case
  proof (cases i)
    case (Suc j)
    with Cons have "sum_list (map f (xs[j := v])) + f (xs ! j) = sum_list (map f xs) + f v" by simp
    with Suc show ?thesis by (simp add: add.assoc)
  qed (simp add: add.commute add.left_commute)
qed simp

text \<open>With the updated element known.\<close>

lemma sum_update_nat:
  fixes f :: "'a \<Rightarrow> nat"
  assumes "i < length xs" and "xs ! i = x"
  shows "sum_list (map f (xs[i := v])) = sum_list (map f xs) + f v - f x" and "f x \<le> sum_list (map f xs)"
proof -
  show "f x \<le> sum_list (map f xs)" using assms by (auto intro: member_le_sum_list)
  then show "sum_list (map f (xs[i := v])) = sum_list (map f xs) + f v - f x" using sum_update [OF assms(1), of f v] assms(2) by simp
qed

section \<open>The queue\<close>

lemma queue_length: "q_ok q \<Longrightarrow> unat (kr_queue_length q) = length (q_seq q)"
  by (simp add: kr_queue_length_def q_ok_def q_seq_def l_ok_length)

lemma queue_length_0: "q_ok q \<Longrightarrow> kr_queue_length q = 0 \<longleftrightarrow> q_seq q = []"
  using queue_length [of q] by (metis length_0_conv unat_eq_zero)

lemma queue_length_less: "q_ok q \<Longrightarrow> kr_queue_length q < q_hwm q \<longleftrightarrow> length (q_seq q) < q_cap q"
  by (simp add: word_less_nat_alt queue_length q_cap_def)

lemma push_result:
  assumes "q_ok q" and "kr_queue_push q k = Some (r, q')"
  shows "r = 0 \<longleftrightarrow> length (q_seq q) < q_cap q" and "r = 0 \<Longrightarrow> q_ok q'" and "r = 0 \<Longrightarrow> q_cap q' = q_cap q"
    and "r = 0 \<Longrightarrow> q_seq q' = q_seq q @ [k]"
  using queue_push_spec [OF assms(1), of k] assms(2) by (auto split: if_splits)

lemma pop_result:
  assumes "q_ok q" and "kr_queue_pop q = Some (Some k, q')"
  shows "q_ok q'" and "q_cap q' = q_cap q" and "q_seq q = k # q_seq q'"
  using queue_pop_spec [OF assms(1)] assms(2) by (auto split: list.splits)

section \<open>Invariants\<close>

definition queue_inv :: "'k T_KRThreadPool \<Rightarrow> bool" where
  "queue_inv s \<longleftrightarrow> q_ok (tp_queue s) \<and> 0 < q_cap (tp_queue s) \<and> length (q_seq (tp_queue s)) \<le> q_cap (tp_queue s) \<and>
     tp_pushed s = tp_taken s @ q_seq (tp_queue s) \<and> tp_workers s \<noteq> []"

text \<open>The thread that has the mutex is the one that is between lock and unlock.\<close>

definition c_holds :: "'k caller \<Rightarrow> bool" where
  "c_holds c = (case c of C_idle \<Rightarrow> False | C_spin _ _ \<Rightarrow> False | C_lock _ _ \<Rightarrow> False | _ \<Rightarrow> True)"

definition w_holds :: "'k worker \<Rightarrow> bool" where
  "w_holds w = (case w of W_check \<Rightarrow> True | W_got _ \<Rightarrow> True | _ \<Rightarrow> False)"

definition mutex_inv :: "'k T_KRThreadPool \<Rightarrow> bool" where
  "mutex_inv s \<longleftrightarrow> (\<forall>i < length (tp_callers s). c_holds (tp_callers s ! i) \<longleftrightarrow> tp_mutex s = Some (Caller i)) \<and>
     (\<forall>j < length (tp_workers s). w_holds (tp_workers s ! j) \<longleftrightarrow> tp_mutex s = Some (Worker j)) \<and>
     (case tp_mutex s of None \<Rightarrow> True | Some (Caller i) \<Rightarrow> i < length (tp_callers s) | Some (Worker j) \<Rightarrow> j < length (tp_workers s))"

text \<open>The task a worker has taken and not finished.\<close>

definition in_hand :: "'k worker \<Rightarrow> 'k multiset" where
  "in_hand w = (case w of W_got k \<Rightarrow> {#k#} | W_run k \<Rightarrow> {#k#} | _ \<Rightarrow> {#})"

definition task_inv :: "'k T_KRThreadPool \<Rightarrow> bool" where
  "task_inv s \<longleftrightarrow> mset (tp_taken s) = mset (tp_done s) + sum_list (map in_hand (tp_workers s))"

text \<open>The workers that will look at the queue before they sleep, and the signals that are still to come.\<close>

definition getting :: "'k worker \<Rightarrow> nat" where
  "getting w = (case w of W_lock \<Rightarrow> 1 | W_check \<Rightarrow> 1 | W_woken \<Rightarrow> 1 | _ \<Rightarrow> 0)"

definition signalling :: "'k caller \<Rightarrow> nat" where
  "signalling c = (case c of C_signal \<Rightarrow> 1 | _ \<Rightarrow> 0)"

definition broadcasting :: "'k caller \<Rightarrow> bool" where
  "broadcasting c = (case c of C_bpush _ _ \<Rightarrow> True | C_broadcast \<Rightarrow> True | _ \<Rightarrow> False)"

text \<open>No wake-up is lost, unless a broadcast has run out of room.\<close>

definition wake_inv :: "'k T_KRThreadPool \<Rightarrow> bool" where
  "wake_inv s \<longleftrightarrow> tp_short s \<or> W_wait \<notin> set (tp_workers s) \<or> (\<exists>c \<in> set (tp_callers s). broadcasting c) \<or>
     length (q_seq (tp_queue s)) \<le> sum_list (map getting (tp_workers s)) + sum_list (map signalling (tp_callers s))"

lemmas pool_defs = caller_at_def worker_at_def put_caller_def put_worker_def push_task_def

lemma queue_inv_step: "pool_step a s s' \<Longrightarrow> queue_inv s \<Longrightarrow> queue_inv s'"
proof (induction rule: pool_step.induct)
  case (push i k s q)
  with push_result [of "tp_queue s" k 0 q] show ?case by (simp add: queue_inv_def pool_defs)
next
  case (bpush i l k s q)
  with push_result [of "tp_queue s" k 0 q] show ?case by (simp add: queue_inv_def pool_defs)
next
  case (wpop j s k q)
  with pop_result [of "tp_queue s" k q] show ?case by (simp add: queue_inv_def pool_defs)
qed (simp_all add: queue_inv_def pool_defs)

lemma task_inv_step: "pool_step a s s' \<Longrightarrow> task_inv s \<Longrightarrow> task_inv s'"
proof (induction rule: pool_step.induct)
  case (broadcast i s)
  have "in_hand (wake w) = in_hand w" for w :: "'a worker" by (cases w) (simp_all add: wake_def in_hand_def)
  with broadcast show ?case by (simp add: task_inv_def pool_defs o_def)
next
  case (wlock j w s)
  with sum_update [of j "tp_workers s" in_hand W_check] show ?case by (auto simp: task_inv_def pool_defs in_hand_def)
next
  case (wwait j s)
  with sum_update [of j "tp_workers s" in_hand W_wait] show ?case by (simp add: task_inv_def pool_defs in_hand_def)
next
  case (wpop j s k q)
  with sum_update [of j "tp_workers s" in_hand "W_got k"] show ?case by (simp add: task_inv_def pool_defs in_hand_def)
next
  case (wunlock j k s)
  with sum_update [of j "tp_workers s" in_hand "W_run k"] show ?case by (simp add: task_inv_def pool_defs in_hand_def)
next
  case (wrun j k s)
  with sum_update [of j "tp_workers s" in_hand W_lock] show ?case by (simp add: task_inv_def pool_defs in_hand_def)
next
  case (signal i s j)
  with sum_update [of j "tp_workers s" in_hand W_woken] show ?case by (simp add: task_inv_def pool_defs in_hand_def)
next
  case (spurious j s)
  with sum_update [of j "tp_workers s" in_hand W_woken] show ?case by (simp add: task_inv_def pool_defs in_hand_def)
qed (simp_all add: task_inv_def pool_defs)

lemma mutex_inv_step: "pool_step a s s' \<Longrightarrow> mutex_inv s \<Longrightarrow> mutex_inv s'"
proof (induction rule: pool_step.induct)
  case (broadcast i s)
  have "w_holds (wake w) = w_holds w" for w :: "'a worker" by (cases w) (simp_all add: wake_def w_holds_def)
  with broadcast show ?case by (auto simp: mutex_inv_def pool_defs c_holds_def nth_list_update split: option.splits thread.splits)
qed (auto simp: mutex_inv_def pool_defs c_holds_def w_holds_def nth_list_update split: option.splits thread.splits)

text \<open>A step of a thread that takes no part in a broadcast keeps the broadcasts, and one that does not fall asleep wakes nobody's sleep.\<close>

lemma broadcasting_keep:
  assumes "\<not> broadcasting (xs ! i)" and "\<exists>c \<in> set xs. broadcasting c"
  shows "\<exists>c \<in> set (xs[i := v]). broadcasting c"
proof -
  from assms(2) obtain j where j: "j < length xs" "broadcasting (xs ! j)" by (auto simp: in_set_conv_nth)
  with assms(1) have "i \<noteq> j" by auto
  with j have "xs[i := v] ! j = xs ! j" "j < length (xs[i := v])" by simp_all
  with j(2) show ?thesis by (metis nth_mem)
qed

lemma no_sleeper_keep: "W_wait \<notin> set xs \<Longrightarrow> v \<noteq> W_wait \<Longrightarrow> W_wait \<notin> set (xs[j := v])"
  using set_update_subset_insert [of xs j v] by auto

text \<open>The sums after a step of one thread.\<close>

lemma getting_update:
  "j < length ws \<Longrightarrow> ws ! j = w \<Longrightarrow> sum_list (map getting (ws[j := v])) + getting w = sum_list (map getting ws) + getting v"
  using sum_update [of j ws getting v] by simp

lemma signalling_update:
  "i < length cs \<Longrightarrow> cs ! i = c \<Longrightarrow> sum_list (map signalling (cs[i := v])) + signalling c = sum_list (map signalling cs) + signalling v"
  using sum_update [of i cs signalling v] by simp

text \<open>A step of a caller that is not broadcasting, and one of a worker.\<close>

lemma wake_inv_caller:
  assumes "wake_inv s" and "i < length (tp_callers s)" and "tp_callers s ! i = c" and "\<not> broadcasting c"
    and "tp_short s' = tp_short s" and "tp_workers s' = tp_workers s" and "tp_callers s' = (tp_callers s)[i := v]"
    and "length (q_seq (tp_queue s')) + signalling c \<le> length (q_seq (tp_queue s)) + signalling v"
  shows "wake_inv s'"
  using assms broadcasting_keep [of "tp_callers s" i v] signalling_update [OF assms(2,3), of v] unfolding wake_inv_def
  by (elim disjE) auto

lemma wake_inv_worker:
  assumes "wake_inv s" and "j < length (tp_workers s)" and "tp_workers s ! j = w" and "v \<noteq> W_wait"
    and "tp_short s' = tp_short s" and "tp_workers s' = (tp_workers s)[j := v]" and "tp_callers s' = tp_callers s"
    and "length (q_seq (tp_queue s')) + getting w \<le> length (q_seq (tp_queue s)) + getting v"
  shows "wake_inv s'"
  using assms no_sleeper_keep [of "tp_workers s" v j] getting_update [OF assms(2,3), of v] unfolding wake_inv_def
  by (elim disjE) auto

lemma wake_inv_step: "pool_step a s s' \<Longrightarrow> queue_inv s \<Longrightarrow> wake_inv s \<Longrightarrow> wake_inv s'"
proof (induction rule: pool_step.induct)
  case (call i s b k)
  show ?case by (rule wake_inv_caller [of s i C_idle _ "C_spin b k"]) (use call in \<open>simp_all add: pool_defs broadcasting_def signalling_def\<close>)
next
  case (pass i b k s)
  show ?case by (rule wake_inv_caller [of s i "C_spin b k" _ "C_lock b k"]) (use pass in \<open>simp_all add: pool_defs broadcasting_def signalling_def\<close>)
next
  case (lock i b k s)
  show ?case
    by (rule wake_inv_caller [of s i "C_lock b k" _ "if b then C_bpush (length (tp_workers s)) k else C_push k"])
      (use lock in \<open>simp_all add: pool_defs broadcasting_def signalling_def\<close>)
next
  case (push i k s q)
  then have q: "q_seq q = q_seq (tp_queue s) @ [k]" using push_result(4) [of "tp_queue s" k 0 q] by (simp add: queue_inv_def)
  show ?case by (rule wake_inv_caller [of s i "C_push k" _ C_signal]) (use push q in \<open>simp_all add: pool_defs broadcasting_def signalling_def\<close>)
next
  case (push_full i k s r q)
  show ?case by (rule wake_inv_caller [of s i "C_push k" _ "C_unlock (- 1)"]) (use push_full in \<open>simp_all add: pool_defs broadcasting_def signalling_def\<close>)
next
  case (bpush i l k s q)
  then have "C_bpush l k \<in> set ((tp_callers s)[i := C_bpush l k])" by (simp add: pool_defs set_update_memI)
  moreover have "broadcasting (C_bpush l k)" by (simp add: broadcasting_def)
  ultimately have "\<exists>c \<in> set ((tp_callers s)[i := C_bpush l k]). broadcasting c" by blast
  then show ?case by (simp add: wake_inv_def pool_defs)
next
  case (bpush_full i l k s r q)
  then show ?case by (simp add: wake_inv_def pool_defs)
next
  case (bpush_end i k s)
  then have "C_broadcast \<in> set ((tp_callers s)[i := C_broadcast])" by (simp add: pool_defs set_update_memI)
  moreover have "broadcasting (C_broadcast)" by (simp add: broadcasting_def)
  ultimately have "\<exists>c \<in> set ((tp_callers s)[i := C_broadcast]). broadcasting c" by blast
  then show ?case by (simp add: wake_inv_def pool_defs)
next
  case (signal i s j)
  then have "i < length (tp_callers s)" "tp_callers s ! i = C_signal" "j < length (tp_workers s)" "tp_workers s ! j = W_wait"
    by (simp_all add: pool_defs)
  with getting_update [OF this(3,4), of W_woken] signalling_update [OF this(1,2), of "C_unlock 0"]
    broadcasting_keep [of "tp_callers s" i "C_unlock 0"] no_sleeper_keep [of "tp_workers s" W_woken j] signal(3,4)
  show ?case unfolding wake_inv_def
    by (elim disjE) (simp_all add: pool_defs broadcasting_def signalling_def getting_def)
next
  case (signal_none i s)
  then show ?case by (simp add: wake_inv_def pool_defs)
next
  case (broadcast i s)
  have "W_wait \<notin> set (map wake (tp_workers s))" by (auto simp: wake_def split: worker.splits)
  then show ?case by (simp add: wake_inv_def pool_defs)
next
  case (unlock i r s)
  show ?case by (rule wake_inv_caller [of s i "C_unlock r" _ C_idle]) (use unlock in \<open>simp_all add: pool_defs broadcasting_def signalling_def\<close>)
next
  case (wlock j w s)
  show ?case by (rule wake_inv_worker [of s j w W_check]) (use wlock in \<open>auto simp: pool_defs getting_def\<close>)
next
  case (wwait j s)
  then have "q_seq (tp_queue s) = []" by (simp add: queue_inv_def queue_length_0)
  then show ?case by (simp add: wake_inv_def pool_defs)
next
  case (wpop j s k q)
  then have q: "q_seq (tp_queue s) = k # q_seq q" using pop_result(3) [of "tp_queue s" k q] by (simp add: queue_inv_def)
  show ?case by (rule wake_inv_worker [of s j W_check "W_got k"]) (use wpop q in \<open>simp_all add: pool_defs getting_def\<close>)
next
  case (wunlock j k s)
  show ?case by (rule wake_inv_worker [of s j "W_got k" "W_run k"]) (use wunlock in \<open>simp_all add: pool_defs getting_def\<close>)
next
  case (wrun j k s)
  show ?case by (rule wake_inv_worker [of s j "W_run k" W_lock]) (use wrun in \<open>simp_all add: pool_defs getting_def\<close>)
next
  case (spurious j s)
  show ?case by (rule wake_inv_worker [of s j W_wait W_woken]) (use spurious in \<open>simp_all add: pool_defs getting_def\<close>)
qed

section \<open>Reachable states\<close>

definition pool_inv :: "'k T_KRThreadPool \<Rightarrow> bool" where
  "pool_inv s \<longleftrightarrow> queue_inv s \<and> mutex_inv s \<and> task_inv s \<and> wake_inv s"

lemma pool_inv_step: "pool_step a s s' \<Longrightarrow> pool_inv s \<Longrightarrow> pool_inv s'"
  using queue_inv_step mutex_inv_step task_inv_step wake_inv_step unfolding pool_inv_def by blast

lemma sum_list_zeros: "sum_list (replicate n (0 :: 'b :: comm_monoid_add)) = 0"
  by (induction n) simp_all

lemma pool_inv_create: "kr_threadpool_create m nthreads hwm = Some s \<Longrightarrow> pool_inv s"
  by (auto simp: kr_threadpool_create_def bind_eq_Some_conv pool_inv_def queue_inv_def mutex_inv_def task_inv_def wake_inv_def
      q_ok_init c_holds_def w_holds_def in_hand_def sum_list_zeros unat_gt_0 assert_c_def split: if_splits)

lemma pool_reach_inv: "pool_reach m nthreads hwm s \<Longrightarrow> pool_inv s"
  by (induction rule: pool_reach.induct) (blast intro: pool_inv_create pool_inv_step)+

lemma pool_reach_cap:
  "pool_reach m nthreads hwm s \<Longrightarrow> q_cap (tp_queue s) = unat hwm"
proof (induction rule: pool_reach.induct)
  case (start s)
  then show ?case by (auto simp: kr_threadpool_create_def bind_eq_Some_conv q_ok_init)
next
  case (step s a s')
  have q: "q_ok (tp_queue s)" using pool_reach_inv [OF step.hyps(1)] by (simp add: pool_inv_def queue_inv_def)
  from step.hyps(2) step.IH q show ?case
    by (induction rule: pool_step.induct) (simp_all add: pool_defs push_result(3) pop_result(2))
qed

end
