(* ===== verification/KR_ThreadPool_Props.thy ===== *)
theory KR_ThreadPool_Props
  imports KR_ThreadPool_Inv
begin

text \<open>The thread pool: no task is lost or run twice, and the pool does not stop before all are run, but for broadcasts.\<close>

section \<open>Every run of the pool ends\<close>

text \<open>How far a thread can go before it waits for something from outside, with \<open>n\<close> workers.\<close>

fun c_rank :: "nat \<Rightarrow> 'k caller \<Rightarrow> nat" where
  "c_rank n C_idle = 0"
| "c_rank n (C_spin b k) = 2 + (if b then 3 + 7 * n else 9)"
| "c_rank n (C_lock b k) = 1 + (if b then 3 + 7 * n else 9)"
| "c_rank n (C_push k) = 9"
| "c_rank n (C_bpush l k) = 3 + 2 * n + 5 * l"
| "c_rank n C_signal = 4"
| "c_rank n C_broadcast = 2 + 2 * n"
| "c_rank n (C_unlock r) = 1"

fun w_rank :: "'k worker \<Rightarrow> nat" where
  "w_rank W_wait = 0" | "w_rank W_check = 1" | "w_rank W_lock = 2" | "w_rank W_woken = 2" | "w_rank (W_run k) = 3" | "w_rank (W_got k) = 4"

definition pool_rank :: "'k T_KRThreadPool \<Rightarrow> nat" where
  "pool_rank s = 4 * length (q_seq (tp_queue s)) + sum_list (map w_rank (tp_workers s)) +
     sum_list (map (c_rank (length (tp_workers s))) (tp_callers s))"

lemma wake_rank: "sum_list (map w_rank (map wake ws)) \<le> sum_list (map w_rank ws) + 2 * length ws"
proof (induction ws)
  case (Cons w ws)
  have "w_rank (wake w) \<le> w_rank w + 2" by (cases w) (simp_all add: wake_def)
  with Cons show ?case by simp
qed simp

lemma rank_caller:
  assumes "i < length (tp_callers s)" and "tp_callers s ! i = c" and "tp_callers s' = (tp_callers s)[i := v]"
    and "length (tp_workers s') = length (tp_workers s)"
    and "4 * length (q_seq (tp_queue s')) + sum_list (map w_rank (tp_workers s')) + c_rank (length (tp_workers s)) v
       < 4 * length (q_seq (tp_queue s)) + sum_list (map w_rank (tp_workers s)) + c_rank (length (tp_workers s)) c"
  shows "pool_rank s' < pool_rank s"
  using sum_update [OF assms(1), of "c_rank (length (tp_workers s))" v] assms(2-) by (simp add: pool_rank_def)

lemma rank_worker:
  assumes "j < length (tp_workers s)" and "tp_workers s ! j = w" and "tp_workers s' = (tp_workers s)[j := v]" and "tp_callers s' = tp_callers s"
    and "4 * length (q_seq (tp_queue s')) + w_rank v < 4 * length (q_seq (tp_queue s)) + w_rank w"
  shows "pool_rank s' < pool_rank s"
  using sum_update [OF assms(1), of w_rank v] assms(2-) by (simp add: pool_rank_def)

lemma go_decreases:
  assumes "pool_step Go s s'" and "queue_inv s"
  shows "pool_rank s' < pool_rank s"
  using assms(1)
proof (cases rule: pool_go_cases)
  case (pass i b k)
  show ?thesis by (rule rank_caller [of i s "C_spin b k" _ "C_lock b k"]) (use pass in \<open>simp_all add: pool_defs\<close>)
next
  case (lock i b k)
  show ?thesis by (rule rank_caller [of i s "C_lock b k" _ "if b then C_bpush (length (tp_workers s)) k else C_push k"]) (use lock in \<open>simp_all add: pool_defs\<close>)
next
  case (push i k q)
  have q: "q_seq q = q_seq (tp_queue s) @ [k]" using push_result(4) [of "tp_queue s" k 0 q] push assms(2) by (simp add: queue_inv_def)
  show ?thesis by (rule rank_caller [of i s "C_push k" _ C_signal]) (use push q in \<open>simp_all add: pool_defs\<close>)
next
  case (push_full i k r q)
  show ?thesis by (rule rank_caller [of i s "C_push k" _ "C_unlock (- 1)"]) (use push_full in \<open>simp_all add: pool_defs\<close>)
next
  case (bpush i l k q)
  have q: "q_seq q = q_seq (tp_queue s) @ [k]" using push_result(4) [of "tp_queue s" k 0 q] bpush assms(2) by (simp add: queue_inv_def)
  show ?thesis by (rule rank_caller [of i s "C_bpush (Suc l) k" _ "C_bpush l k"]) (use bpush q in \<open>simp_all add: pool_defs\<close>)
next
  case (bpush_full i l k r q)
  show ?thesis by (rule rank_caller [of i s "C_bpush (Suc l) k" _ "C_unlock (- 1)"]) (use bpush_full in \<open>simp_all add: pool_defs\<close>)
next
  case (bpush_end i k)
  show ?thesis by (rule rank_caller [of i s "C_bpush 0 k" _ C_broadcast]) (use bpush_end in \<open>simp_all add: pool_defs\<close>)
next
  case (signal i j)
  have "j < length (tp_workers s)" "tp_workers s ! j = W_wait" using signal by (simp_all add: pool_defs)
  with sum_update [OF this(1), of w_rank W_woken] have "sum_list (map w_rank ((tp_workers s)[j := W_woken])) = sum_list (map w_rank (tp_workers s)) + 2"
    by simp
  then show ?thesis by - (rule rank_caller [of i s C_signal _ "C_unlock 0"], use signal in \<open>simp_all add: pool_defs\<close>)
next
  case (signal_none i)
  show ?thesis by (rule rank_caller [of i s C_signal _ "C_unlock 0"]) (use signal_none in \<open>simp_all add: pool_defs\<close>)
next
  case (broadcast i)
  show ?thesis
    by (rule rank_caller [of i s C_broadcast _ "C_unlock 0"]) (use broadcast wake_rank [of "tp_workers s"] in \<open>simp_all add: pool_defs\<close>)
next
  case (unlock i r)
  show ?thesis by (rule rank_caller [of i s "C_unlock r" _ C_idle]) (use unlock in \<open>simp_all add: pool_defs\<close>)
next
  case (wlock j w)
  show ?thesis by (rule rank_worker [of j s w _ W_check]) (use wlock in \<open>auto simp: pool_defs\<close>)
next
  case (wwait j)
  show ?thesis by (rule rank_worker [of j s W_check _ W_wait]) (use wwait in \<open>simp_all add: pool_defs\<close>)
next
  case (wpop j k q)
  have q: "q_seq (tp_queue s) = k # q_seq q" using pop_result(3) [of "tp_queue s" k q] wpop assms(2) by (simp add: queue_inv_def)
  show ?thesis by (rule rank_worker [of j s W_check _ "W_got k"]) (use wpop q in \<open>simp_all add: pool_defs\<close>)
next
  case (wunlock j k)
  show ?thesis by (rule rank_worker [of j s "W_got k" _ "W_run k"]) (use wunlock in \<open>simp_all add: pool_defs\<close>)
next
  case (wrun j k)
  show ?thesis by (rule rank_worker [of j s "W_run k" _ W_lock]) (use wrun in \<open>simp_all add: pool_defs\<close>)
qed

lemma go_ends:
  assumes "queue_inv s"
  shows "\<not> (\<exists>f. f 0 = s \<and> (\<forall>i. pool_step Go (f i) (f (Suc i))))"
proof
  assume "\<exists>f. f 0 = s \<and> (\<forall>i. pool_step Go (f i) (f (Suc i)))"
  then obtain f where f: "f 0 = s" "\<And>i. pool_step Go (f i) (f (Suc i))" by blast
  have inv: "queue_inv (f i)" for i
    by (induction i) (use f assms queue_inv_step in auto)
  have "pool_rank (f i) + i \<le> pool_rank s" for i
  proof (induction i)
    case (Suc i)
    with go_decreases [OF f(2) inv, of i] show ?case by simp
  qed (simp add: f(1))
  from this [of "Suc (pool_rank s)"] show False by simp
qed

section \<open>Where it ends\<close>

lemma holder_steps:
  assumes "pool_inv s" and "tp_mutex s \<noteq> None"
  shows "\<exists>s'. pool_step Go s s'"
proof -
  from assms have q: "q_ok (tp_queue s)" and m: "mutex_inv s" by (simp_all add: pool_inv_def queue_inv_def)
  from assms(2) obtain t where t: "tp_mutex s = Some t" by blast
  show ?thesis
  proof (cases t)
    case (Worker j)
    with m t have j: "j < length (tp_workers s)" "w_holds (tp_workers s ! j)" by (auto simp: mutex_inv_def)
    show ?thesis
    proof (cases "tp_workers s ! j")
      case W_check
      with j(1) have at: "worker_at j W_check s" by (simp add: worker_at_def)
      show ?thesis
      proof (cases "q_seq (tp_queue s)")
        case Nil
        with wwait [OF at] queue_length_0 [OF q] show ?thesis by blast
      next
        case (Cons k ks)
        with queue_pop_spec [OF q] obtain q' where "kr_queue_pop (tp_queue s) = Some (Some k, q')" by auto
        moreover have "kr_queue_length (tp_queue s) \<noteq> 0" using Cons queue_length_0 [OF q] by simp
        ultimately show ?thesis using wpop [OF at] by blast
      qed
    next
      case (W_got k)
      with j(1) wunlock [of j k s] show ?thesis by (auto simp: worker_at_def)
    qed (use j in \<open>simp_all add: w_holds_def\<close>)
  next
    case (Caller i)
    with m t have i: "i < length (tp_callers s)" "c_holds (tp_callers s ! i)" by (auto simp: mutex_inv_def)
    have push: "\<exists>r q'. kr_queue_push (tp_queue s) k = Some (r, q')" for k using queue_push_spec [OF q, of k] by auto
    show ?thesis
    proof (cases "tp_callers s ! i")
      case (C_push k)
      with i(1) have at: "caller_at i (C_push k) s" by (simp add: caller_at_def)
      from push [of k] pool_step.push [OF at] push_full [OF at] show ?thesis by metis
    next
      case (C_bpush l k)
      with i(1) have at: "caller_at i (C_bpush l k) s" by (simp add: caller_at_def)
      show ?thesis
      proof (cases l)
        case 0
        with at bpush_end [of i k s] show ?thesis by blast
      next
        case (Suc l')
        with at push [of k] pool_step.bpush [of i l' k s] bpush_full [of i l' k s] show ?thesis by metis
      qed
    next
      case C_signal
      with i(1) have at: "caller_at i C_signal s" by (simp add: caller_at_def)
      show ?thesis
      proof (cases "W_wait \<in> set (tp_workers s)")
        case True
        then obtain j where "worker_at j W_wait s" by (auto simp: worker_at_def in_set_conv_nth)
        with signal [OF at] show ?thesis by blast
      next
        case False
        with signal_none [OF at] show ?thesis by blast
      qed
    next
      case C_broadcast
      with i(1) broadcast [of i s] show ?thesis by (auto simp: caller_at_def)
    next
      case (C_unlock r)
      with i(1) unlock [of i r s] show ?thesis by (auto simp: caller_at_def)
    qed (use i in \<open>simp_all add: c_holds_def\<close>)
  qed
qed

lemma stuck_drained:
  assumes inv: "pool_inv s" and short: "\<not> tp_short s" and stuck: "\<forall>s'. \<not> pool_step Go s s'"
  shows "q_seq (tp_queue s) = []" and "set (tp_callers s) \<subseteq> {C_idle}" and "set (tp_workers s) \<subseteq> {W_wait}"
proof -
  from inv have q: "q_ok (tp_queue s)" "0 < q_cap (tp_queue s)" "tp_workers s \<noteq> []" and m: "mutex_inv s" and wk: "wake_inv s"
    by (simp_all add: pool_inv_def queue_inv_def)
  have free: "tp_mutex s = None" using holder_steps [OF inv] stuck by blast
  have workers: "tp_workers s ! j = W_wait" if "j < length (tp_workers s)" for j
  proof (cases "tp_workers s ! j")
    case (W_run k)
    with that wrun [of j k s] stuck show ?thesis by (auto simp: worker_at_def)
  qed (use that m free wlock [of j _ s] stuck in \<open>auto simp: worker_at_def mutex_inv_def w_holds_def\<close>)
  then show w: "set (tp_workers s) \<subseteq> {W_wait}" by (auto simp: in_set_conv_nth)
  have callers: "tp_callers s ! i = C_idle \<or> (\<exists>b k. tp_callers s ! i = C_spin b k)" if i: "i < length (tp_callers s)" for i
  proof -
    from i m free have "\<not> c_holds (tp_callers s ! i)" by (simp add: mutex_inv_def)
    moreover have "tp_callers s ! i \<noteq> C_lock b k" for b k using i free lock [of i b k s] stuck by (auto simp: caller_at_def)
    ultimately show ?thesis by (cases "tp_callers s ! i") (auto simp: c_holds_def)
  qed
  have "\<not> (\<exists>c \<in> set (tp_callers s). broadcasting c)" "W_wait \<in> set (tp_workers s)"
    using callers w q(3) by (fastforce simp: in_set_conv_nth broadcasting_def, cases "tp_workers s") auto
  with wk short have "length (q_seq (tp_queue s)) \<le> sum_list (map getting (tp_workers s)) + sum_list (map signalling (tp_callers s))"
    by (auto simp: wake_inv_def)
  also have "sum_list (map getting (tp_workers s)) = 0" using w by (auto simp: getting_def sum_list_eq_0_iff)
  also have "sum_list (map signalling (tp_callers s)) = 0"
    using callers by (fastforce simp: in_set_conv_nth signalling_def sum_list_eq_0_iff)
  finally show e: "q_seq (tp_queue s) = []" by simp
  have "kr_queue_length (tp_queue s) < q_hwm (tp_queue s)" using q e by (simp add: queue_length_less)
  with pass [of _ _ _ s] stuck have "tp_callers s ! i \<noteq> C_spin b k" if "i < length (tp_callers s)" for i b k
    using that by (auto simp: caller_at_def)
  with callers show "set (tp_callers s) \<subseteq> {C_idle}" by (fastforce simp: in_set_conv_nth)
qed

lemma idle_hands: "set ws \<subseteq> {W_wait} \<Longrightarrow> sum_list (map in_hand ws) = {#}"
  by (induction ws) (auto simp: in_hand_def)

section \<open>Properties\<close>

text \<open>C29. In every state of a pool, whatever the callers and the scheduler have done, the tasks pushed are, in this order, those the
  workers have taken and those in the queue: none is lost and none taken twice. Every task taken has been run once or is in the hand
  of one worker, and the queue never holds more than its high water mark.\<close>

theorem pool_keeps_tasks:
  assumes "pool_reach m nthreads hwm s"
  shows "tp_pushed s = tp_taken s @ q_seq (tp_queue s) \<and>
    mset (tp_taken s) = mset (tp_done s) + sum_list (map in_hand (tp_workers s)) \<and> length (q_seq (tp_queue s)) \<le> unat hwm"
  using pool_reach_inv [OF assms] pool_reach_cap [OF assms] by (auto simp: pool_inv_def queue_inv_def task_inv_def)

text \<open>C30. A pool that gets no more calls comes to rest after finitely many steps, however it is scheduled, and when it is at rest every task
  that was pushed has been run, all calls have returned and all workers sleep: no wake-up is lost and there is no deadlock. The
  exception is a broadcast that ran out of room.\<close>

theorem pool_runs_all:
  assumes "pool_reach m nthreads hwm s" and "\<not> tp_short s"
  shows "\<not> (\<exists>f. f 0 = s \<and> (\<forall>i. pool_step Go (f i) (f (Suc i)))) \<and>
    ((\<forall>s'. \<not> pool_step Go s s') \<longrightarrow> mset (tp_done s) = mset (tp_pushed s) \<and> q_seq (tp_queue s) = [] \<and>
       set (tp_callers s) \<subseteq> {C_idle} \<and> set (tp_workers s) \<subseteq> {W_wait})"
proof (intro conjI impI)
  have inv: "pool_inv s" by (rule pool_reach_inv [OF assms(1)])
  then show "\<not> (\<exists>f. f 0 = s \<and> (\<forall>i. pool_step Go (f i) (f (Suc i))))" by (intro go_ends) (simp add: pool_inv_def)
  assume stuck: "\<forall>s'. \<not> pool_step Go s s'"
  note d = stuck_drained [OF inv assms(2) stuck]
  show "q_seq (tp_queue s) = []" "set (tp_callers s) \<subseteq> {C_idle}" "set (tp_workers s) \<subseteq> {W_wait}" by (rule d)+
  have "sum_list (map in_hand (tp_workers s)) = {#}" by (rule idle_hands [OF d(3)])
  with d(1) inv show "mset (tp_done s) = mset (tp_pushed s)" by (simp add: pool_inv_def queue_inv_def task_inv_def)
qed

section \<open>Example runs\<close>

text \<open>A pool with one caller.\<close>

definition pool1 :: "'k kr_queue_t \<Rightarrow> thread option \<Rightarrow> 'k worker list \<Rightarrow> 'k caller \<Rightarrow> 'k list \<Rightarrow> 'k list \<Rightarrow> 'k list \<Rightarrow> bool \<Rightarrow> 'k T_KRThreadPool" where
  "pool1 q mu ws c ps ts ds sh = \<lparr>tp_queue = q, tp_mutex = mu, tp_workers = ws, tp_callers = [c], tp_pushed = ps, tp_taken = ts,
     tp_done = ds, tp_short = sh\<rparr>"

lemma pool1_simps:
  "tp_queue (pool1 q mu ws c ps ts ds sh) = q" "tp_mutex (pool1 q mu ws c ps ts ds sh) = mu"
  "tp_workers (pool1 q mu ws c ps ts ds sh) = ws" "tp_callers (pool1 q mu ws c ps ts ds sh) = [c]"
  "tp_pushed (pool1 q mu ws c ps ts ds sh) = ps" "tp_done (pool1 q mu ws c ps ts ds sh) = ds" "tp_short (pool1 q mu ws c ps ts ds sh) = sh"
  "caller_at 0 c' (pool1 q mu ws c ps ts ds sh) \<longleftrightarrow> c = c'" "worker_at j w (pool1 q mu ws c ps ts ds sh) \<longleftrightarrow> j < length ws \<and> ws ! j = w"
  by (auto simp: pool1_def pool_defs)

lemma pool1_updates:
  "put_caller 0 c' (pool1 q mu ws c ps ts ds sh) = pool1 q mu ws c' ps ts ds sh"
  "put_worker j w (pool1 q mu ws c ps ts ds sh) = pool1 q mu (ws[j := w]) c ps ts ds sh"
  "push_task k q' (pool1 q mu ws c ps ts ds sh) = pool1 q' mu ws c (ps @ [k]) ts ds sh"
  "(pool1 q mu ws c ps ts ds sh)\<lparr>tp_mutex := mu'\<rparr> = pool1 q mu' ws c ps ts ds sh"
  "(pool1 q mu ws c ps ts ds sh)\<lparr>tp_short := sh'\<rparr> = pool1 q mu ws c ps ts ds sh'"
  "(pool1 q mu ws c ps ts ds sh)\<lparr>tp_queue := q', tp_taken := tp_taken (pool1 q mu ws c ps ts ds sh) @ [k]\<rparr> = pool1 q' mu ws c ps (ts @ [k]) ds sh"
  "(pool1 q mu ws c ps ts ds sh)\<lparr>tp_done := ds'\<rparr> = pool1 q mu ws c ps ts ds' sh"
  by (simp_all add: pool1_def pool_defs)

lemmas pool1_all = pool1_simps pool1_updates

text \<open>A free caller and sleeping workers are at rest.\<close>

lemma pool1_rest:
  assumes "set ws \<subseteq> {W_wait}"
  shows "\<not> pool_step Go (pool1 q mu ws C_idle ps ts ds sh) s'"
proof
  assume "pool_step Go (pool1 q mu ws C_idle ps ts ds sh) s'"
  moreover have "worker_at j w (pool1 q mu ws C_idle ps ts ds sh) \<Longrightarrow> w = W_wait" for j w
    using assms nth_mem [of j ws] by (auto simp: pool1_simps simp del: nth_mem)
  moreover have "caller_at i c (pool1 q mu ws C_idle ps ts ds sh) \<Longrightarrow> c = C_idle" for i c
    by (auto simp: pool_defs pool1_def)
  ultimately show False by (cases rule: pool_goE) fastforce+
qed

text \<open>The workers fall asleep.\<close>

lemma pool1_asleep:
  assumes "0 < n" and "0 < hwm"
  shows "j \<le> n \<Longrightarrow> pool_reach 1 n hwm (pool1 (kr_queue_init hwm :: 'k kr_queue_t) None (replicate j W_wait @ replicate (n - j) W_lock) C_idle [] [] [] False)"
proof (induction j)
  case 0
  show ?case using assms by (intro pool_reach.start) (simp add: kr_threadpool_create_def pool1_def)
next
  case (Suc j)
  let ?s = "\<lambda>mu w. pool1 (kr_queue_init hwm :: 'k kr_queue_t) mu (replicate j W_wait @ w # replicate (n - Suc j) W_lock) C_idle [] [] [] False"
  have nth: "(replicate j W_wait @ w # replicate (n - Suc j) W_lock) ! j = w" for w :: "'k worker"
    using nth_append_length [of "replicate j W_wait"] by simp
  have "n - j = Suc (n - Suc j)" using Suc.prems by simp
  with Suc have r: "pool_reach 1 n hwm (?s None W_lock)" by simp
  have "pool_step Go (?s None W_lock) (?s (Some (Worker j)) W_check)"
    using wlock [of j W_lock "?s None W_lock"] by (simp add: pool1_all list_update_append nth)
  moreover have "pool_step Go (?s (Some (Worker j)) W_check) (?s None W_wait)"
    using wwait [of j "?s (Some (Worker j)) W_check"] by (simp add: pool1_all list_update_append nth queue_length_0 q_ok_init)
  ultimately have "pool_reach 1 n hwm (?s None W_wait)" using r by (blast intro: pool_reach.step)
  then show ?case by (simp add: replicate_app_Cons_same)
qed

text \<open>A call up to the point where the caller has the mutex.\<close>

lemma pool1_enter:
  assumes "pool_reach 1 n hwm (pool1 (kr_queue_init hwm) None ws C_idle [] [] [] False)" and "0 < hwm"
  shows "pool_reach 1 n hwm (pool1 (kr_queue_init hwm) (Some (Caller 0)) ws (if b then C_bpush (length ws) k else C_push k) [] [] [] False)"
proof -
  let ?s = "\<lambda>c. pool1 (kr_queue_init hwm) None ws c [] [] [] False"
  have "pool_step Call (?s C_idle) (?s (C_spin b k))" using call [of 0 "?s C_idle" b k] by (simp add: pool1_all)
  moreover have "pool_step Go (?s (C_spin b k)) (?s (C_lock b k))"
    using pass [of 0 b k "?s (C_spin b k)"] assms(2) by (simp add: pool1_all queue_length_less q_ok_init unat_gt_0)
  moreover have "pool_step Go (?s (C_lock b k))
      (pool1 (kr_queue_init hwm) (Some (Caller 0)) ws (if b then C_bpush (length ws) k else C_push k) [] [] [] False)"
    using lock [of 0 b k "?s (C_lock b k)"] by (cases b) (simp_all add: pool1_all)
  ultimately show ?thesis using assms(1) by (blast intro: pool_reach.step)
qed

text \<open>One worker, one task: pushed, signalled, taken and run.\<close>

lemma pool1_run:
  "\<exists>q. pool_reach 1 1 4 (pool1 q None [W_wait] C_idle [k] [k] [k] False) \<and> q_seq q = []"
proof -
  let ?q0 = "kr_queue_init 4 :: 'a kr_queue_t"
  have "(0 :: u32) < 4" by simp
  with pool1_asleep [of 1 4 1] pool1_enter [of 1 4 "[W_wait]" False k]
  have r: "pool_reach 1 1 4 (pool1 ?q0 (Some (Caller 0)) [W_wait] (C_push k) [] [] [] False)" by simp
  obtain q where q: "kr_queue_push ?q0 k = Some (0, q)" "q_ok q" "q_seq q = [k]"
    using queue_push_spec [OF q_ok_init(1) [of 4], of k] by (auto simp: q_ok_init)
  obtain q' where q': "kr_queue_pop q = Some (Some k, q')" "q_ok q'" "q_seq q' = []"
    using queue_pop_spec [OF q(2)] q(3) by auto
  let ?s = "\<lambda>mu w c. pool1 q mu [w] c [k] [] [] False" and ?t = "\<lambda>mu w ds. pool1 q' mu [w] C_idle [k] [k] ds False"
  have "pool_step Go (pool1 ?q0 (Some (Caller 0)) [W_wait] (C_push k) [] [] [] False) (?s (Some (Caller 0)) W_wait C_signal)"
    using push [of 0 k "pool1 ?q0 (Some (Caller 0)) [W_wait] (C_push k) [] [] [] False" q] q(1) by (simp add: pool1_all)
  moreover have "pool_step Go (?s (Some (Caller 0)) W_wait C_signal) (?s (Some (Caller 0)) W_woken (C_unlock 0))"
    using signal [of 0 "?s (Some (Caller 0)) W_wait C_signal" 0] by (simp add: pool1_all)
  moreover have "pool_step Go (?s (Some (Caller 0)) W_woken (C_unlock 0)) (?s None W_woken C_idle)"
    using unlock [of 0 0 "?s (Some (Caller 0)) W_woken (C_unlock 0)"] by (simp add: pool1_all)
  moreover have "pool_step Go (?s None W_woken C_idle) (?s (Some (Worker 0)) W_check C_idle)"
    using wlock [of 0 W_woken "?s None W_woken C_idle"] by (simp add: pool1_all)
  moreover have "pool_step Go (?s (Some (Worker 0)) W_check C_idle) (?t (Some (Worker 0)) (W_got k) [])"
    using wpop [of 0 "?s (Some (Worker 0)) W_check C_idle" k q'] q'(1) queue_length_0 [OF q(2)] q(3) by (simp add: pool1_all)
  moreover have "pool_step Go (?t (Some (Worker 0)) (W_got k) []) (?t None (W_run k) [])"
    using wunlock [of 0 k "?t (Some (Worker 0)) (W_got k) []"] by (simp add: pool1_all)
  moreover have "pool_step Go (?t None (W_run k) []) (?t None W_lock [k])"
    using wrun [of 0 k "?t None (W_run k) []"] by (simp add: pool1_all)
  moreover have "pool_step Go (?t None W_lock [k]) (?t (Some (Worker 0)) W_check [k])"
    using wlock [of 0 W_lock "?t None W_lock [k]"] by (simp add: pool1_all)
  moreover have "pool_step Go (?t (Some (Worker 0)) W_check [k]) (?t None W_wait [k])"
    using wwait [of 0 "?t (Some (Worker 0)) W_check [k]"] queue_length_0 [OF q'(2)] q'(3) by (simp add: pool1_all)
  ultimately have "pool_reach 1 1 4 (?t None W_wait [k])" using r by (meson pool_reach.step)
  with q'(3) show ?thesis by blast
qed

theorem pool_keeps_tasks_witness:
  "\<exists>s. pool_reach 1 1 4 s \<and> tp_pushed s = [7 :: nat] \<and> mset (tp_taken s) = mset (tp_done s) + sum_list (map in_hand (tp_workers s)) \<and>
     tp_pushed s = tp_taken s @ q_seq (tp_queue s)"
proof -
  obtain q where q: "pool_reach 1 1 4 (pool1 q None [W_wait] C_idle [7 :: nat] [7] [7] False)" using pool1_run [of "7 :: nat"] by (elim exE conjE)
  note k = pool_keeps_tasks [OF q]
  show ?thesis by (rule exI, rule conjI [OF q], rule conjI [OF pool1_simps(5)]) (use k in blast)
qed

theorem pool_runs_all_witness:
  "\<exists>s. pool_reach 1 1 4 s \<and> tp_pushed s = [7 :: nat] \<and> (\<forall>s'. \<not> pool_step Go s s') \<and> mset (tp_done s) = mset (tp_pushed s) \<and> q_seq (tp_queue s) = []"
proof -
  obtain q where q: "pool_reach 1 1 4 (pool1 q None [W_wait] C_idle [7 :: nat] [7] [7] False)" using pool1_run [of "7 :: nat"] by (elim exE conjE)
  have short: "\<not> tp_short (pool1 q None [W_wait] C_idle [7 :: nat] [7] [7] False)" by (simp add: pool1_simps)
  have rest: "\<forall>s'. \<not> pool_step Go (pool1 q None [W_wait] C_idle [7 :: nat] [7] [7] False) s'" by (intro allI pool1_rest) simp
  note k = pool_runs_all [OF q short]
  show ?thesis by (rule exI, rule conjI [OF q], rule conjI [OF pool1_simps(5)], rule conjI [OF rest]) (use k rest in blast)
qed

section \<open>Broadcasts\<close>

text \<open>The copies of a broadcast, pushed while there is room.\<close>

lemma pool1_copies:
  assumes "pool_reach 1 n hwm (pool1 (kr_queue_init hwm) (Some (Caller 0)) ws (C_bpush n k) [] [] [] False)"
  shows "l \<le> unat hwm \<Longrightarrow> l \<le> n \<Longrightarrow> \<exists>q. pool_reach 1 n hwm (pool1 q (Some (Caller 0)) ws (C_bpush (n - l) k) (replicate l k) [] [] False) \<and>
    q_ok q \<and> q_cap q = unat hwm \<and> q_seq q = replicate l k"
proof (induction l)
  case 0
  then show ?case using assms q_ok_init [of hwm] by auto
next
  case (Suc l)
  then obtain q where q: "pool_reach 1 n hwm (pool1 q (Some (Caller 0)) ws (C_bpush (n - l) k) (replicate l k) [] [] False)"
    "q_ok q" "q_cap q = unat hwm" "q_seq q = replicate l k" by auto
  have n: "n - l = Suc (n - Suc l)" using Suc.prems by simp
  from queue_push_spec [OF q(2), of k] q(3,4) Suc.prems obtain q' where
    q': "kr_queue_push q k = Some (0, q')" "q_ok q'" "q_cap q' = unat hwm" "q_seq q' = replicate l k @ [k]" by auto
  let ?s = "pool1 q (Some (Caller 0)) ws (C_bpush (Suc (n - Suc l)) k) (replicate l k) [] [] False"
  have "pool_step Go ?s (pool1 q' (Some (Caller 0)) ws (C_bpush (n - Suc l) k) (replicate l k @ [k]) [] [] False)"
    using bpush [of 0 "n - Suc l" k ?s q'] q'(1) by (simp add: pool1_all)
  with q(1) n have "pool_reach 1 n hwm (pool1 q' (Some (Caller 0)) ws (C_bpush (n - Suc l) k) (replicate l k @ [k]) [] [] False)"
    by (metis pool_reach.step)
  with q'(2-4) show ?case by (intro exI [of _ q']) (simp add: replicate_append_same)
qed

text \<open>C31. A broadcast to more workers than the high water mark allows tasks returns an error after it has filled the queue, without waking
  anybody. If the workers sleep, the pool is then at rest with a full queue, and none of the tasks is run.\<close>

theorem pool_broadcast_stalls:
  assumes "0 < hwm" and "unat hwm < nthreads"
  shows "\<exists>s. pool_reach 1 nthreads hwm s \<and> (\<forall>s'. \<not> pool_step Go s s') \<and> tp_callers s = [C_idle] \<and>
    q_seq (tp_queue s) = replicate (unat hwm) k \<and> tp_done s = []"
proof -
  let ?ws = "replicate nthreads W_wait"
  have n: "0 < nthreads" using assms(2) by simp
  have "pool_reach 1 nthreads hwm (pool1 (kr_queue_init hwm) None ?ws C_idle [] [] [] False)"
    using pool1_asleep [OF n assms(1), of nthreads] by simp
  from pool1_enter [OF this assms(1), of True k]
  have "pool_reach 1 nthreads hwm (pool1 (kr_queue_init hwm) (Some (Caller 0)) ?ws (C_bpush nthreads k) [] [] [] False)" by simp
  from pool1_copies [OF this, of "unat hwm"] assms(2) obtain q where
    q: "pool_reach 1 nthreads hwm (pool1 q (Some (Caller 0)) ?ws (C_bpush (nthreads - unat hwm) k) (replicate (unat hwm) k) [] [] False)"
    "q_ok q" "q_cap q = unat hwm" "q_seq q = replicate (unat hwm) k" by auto
  obtain l where l: "nthreads - unat hwm = Suc l" using assms(2) by (metis Suc_diff_Suc)
  from queue_push_spec [OF q(2), of k] q(3,4) obtain q' where p: "kr_queue_push q k = Some (- 1, q')" by auto
  let ?s = "\<lambda>mu c sh. pool1 q mu ?ws c (replicate (unat hwm) k) [] [] sh"
  have "pool_step Go (?s (Some (Caller 0)) (C_bpush (Suc l) k) False) (?s (Some (Caller 0)) (C_unlock (- 1)) True)"
    using bpush_full [of 0 l k "?s (Some (Caller 0)) (C_bpush (Suc l) k) False" "- 1" q'] p by (simp add: pool1_all)
  moreover have "pool_step Go (?s (Some (Caller 0)) (C_unlock (- 1)) True) (?s None C_idle True)"
    using unlock [of 0 "- 1" "?s (Some (Caller 0)) (C_unlock (- 1)) True"] by (simp add: pool1_all)
  ultimately have "pool_reach 1 nthreads hwm (?s None C_idle True)" using q(1) unfolding l by (meson pool_reach.step)
  moreover have "\<forall>s'. \<not> pool_step Go (?s None C_idle True) s'" by (intro allI pool1_rest) auto
  ultimately show ?thesis using q(4) by (intro exI [of _ "?s None C_idle True"]) (simp add: pool1_simps)
qed

theorem pool_broadcast_stalls_witness:
  "\<exists>s. pool_reach 1 3 2 s \<and> (\<forall>s'. \<not> pool_step Go s s') \<and> q_seq (tp_queue s) = [7 :: nat, 7]"
proof -
  have "0 < (2 :: u32)" "unat (2 :: u32) < 3" by simp_all
  note k = pool_broadcast_stalls [OF this, of "7 :: nat"]
  have "unat (2 :: u32) = Suc (Suc 0)" by simp
  then have "replicate (unat (2 :: u32)) (7 :: nat) = [7, 7]" by (simp only: replicate.simps)
  with k show ?thesis by metis
qed

end
