(* ===== verification/KR_SkipList.thy ===== *)
theory KR_SkipList
  imports KR_Prelude
begin

text \<open>
  \<open>krutils/kr_skiplist.c\<close>: a sorted list whose nodes carry several forward pointers, one per level up to the height the node
  was given at random. The nodes are in an explicit memory, from which a freed node is missing; the array of a node has one
  pointer per level of it (the code allocates more, which it never uses). Values are pointers other than NULL;
  the compare function may read through them, so it can fail. What \<open>random\<close> delivers is a parameter.
\<close>

section \<open>Data\<close>

definition ZSKIPLIST_MAXLEVEL :: nat where "ZSKIPLIST_MAXLEVEL = 12"
definition ZSKIPLIST_BRANCHING :: nat where "ZSKIPLIST_BRANCHING = 4"

record 'v T_KRSkipListNode =
  sn_key :: u32
  sn_value :: "'v option"
  sn_forward :: "nat option list"

type_synonym 'v skip_mem = "nat \<Rightarrow> 'v T_KRSkipListNode option"
type_synonym 'v compare = "'v \<Rightarrow> 'v \<Rightarrow> int option"

record 'v T_KRSkipList =
  sl_header :: nat
  sl_length :: u32
  sl_level :: nat
  sl_mem :: "'v skip_mem"
  sl_fresh :: nat

definition forward :: "'v skip_mem \<Rightarrow> nat \<Rightarrow> nat \<Rightarrow> nat option option" where
  "forward mem x i = do { n \<leftarrow> mem x; nth_opt (sn_forward n) i }"

definition set_forward :: "'v skip_mem \<Rightarrow> nat \<Rightarrow> nat \<Rightarrow> nat option \<Rightarrow> 'v skip_mem option" where
  "set_forward mem x i y = do {
     n \<leftarrow> mem x;
     fs \<leftarrow> upd_opt (sn_forward n) i y;
     Some (mem(x \<mapsto> n\<lparr>sn_forward := fs\<rparr>))
   }"

section \<open>Operations\<close>

definition kr_skiplist_create_node :: "nat \<Rightarrow> u32 \<Rightarrow> 'v option \<Rightarrow> 'v T_KRSkipListNode" where
  "kr_skiplist_create_node level key value = \<lparr>sn_key = key, sn_value = value, sn_forward = replicate level None\<rparr>"

definition kr_skiplist_create :: "'v T_KRSkipList" where
  "kr_skiplist_create = \<lparr>sl_header = 0, sl_length = 0, sl_level = 1,
     sl_mem = [0 \<mapsto> kr_skiplist_create_node ZSKIPLIST_MAXLEVEL 0 None], sl_fresh = 1\<rparr>"

text \<open>\<open>r\<close> are the random numbers that are drawn after the seed has been set.\<close>

function random_level_loop :: "(nat \<Rightarrow> nat) \<Rightarrow> nat \<Rightarrow> nat" where
  "random_level_loop r level =
     (if level < ZSKIPLIST_MAXLEVEL \<and> r (level - 1) mod ZSKIPLIST_BRANCHING = 0 then random_level_loop r (level + 1) else level)"
  by pat_completeness auto
termination
  by (relation "measure (\<lambda>(r, level). ZSKIPLIST_MAXLEVEL - level)") auto

declare random_level_loop.simps [simp del]

definition kr_skiplist_random_level :: "(nat \<Rightarrow> nat) \<Rightarrow> nat" where
  "kr_skiplist_random_level r = random_level_loop r 1"

text \<open>One level of a search: from \<open>x\<close> along the pointers of level \<open>i\<close> as long as the next node is before the place looked for.\<close>

partial_function (option) walk :: "('v T_KRSkipListNode \<Rightarrow> bool option) \<Rightarrow> 'v skip_mem \<Rightarrow> nat \<Rightarrow> nat \<Rightarrow> nat option" where
  "walk before mem i x = do {
     nxt \<leftarrow> forward mem x i;
     (case nxt of
        None \<Rightarrow> Some x
      | Some y \<Rightarrow> do {
          n \<leftarrow> mem y;
          b \<leftarrow> before n;
          if b then walk before mem i y else Some x
        })
   }"

text \<open>The loop over the levels below \<open>n\<close>, from above; the second component is the array \<open>update\<close>.\<close>

primrec search_levels :: "('v T_KRSkipListNode \<Rightarrow> bool option) \<Rightarrow> 'v skip_mem \<Rightarrow> nat \<Rightarrow> nat \<Rightarrow> (nat \<times> nat list) option" where
  "search_levels before mem 0 x = Some (x, [])"
| "search_levels before mem (Suc i) x = do {
     y \<leftarrow> walk before mem i x;
     (z, update) \<leftarrow> search_levels before mem i y;
     Some (z, update @ [y])
   }"

definition entry_before :: "'v compare \<Rightarrow> u32 \<Rightarrow> 'v \<Rightarrow> 'v T_KRSkipListNode \<Rightarrow> bool option" where
  "entry_before cmp key value n =
     (if sn_key n < key then Some True
      else if sn_key n = key then do { v \<leftarrow> sn_value n; c \<leftarrow> cmp v value; Some (c < 0) }
      else Some False)"

definition kr_skiplist_lookup_internal :: "'v compare \<Rightarrow> 'v T_KRSkipList \<Rightarrow> u32 \<Rightarrow> 'v \<Rightarrow> (nat list \<times> nat option) option" where
  "kr_skiplist_lookup_internal cmp sl key value = do {
     (x, update) \<leftarrow> search_levels (entry_before cmp key value) (sl_mem sl) (sl_level sl) (sl_header sl);
     r \<leftarrow> forward (sl_mem sl) x 0;
     Some (update, r)
   }"

text \<open>The test that the search has found the entry: the node, if it has.\<close>

definition entry_found :: "'v compare \<Rightarrow> 'v skip_mem \<Rightarrow> u32 \<Rightarrow> 'v \<Rightarrow> nat option \<Rightarrow> nat option option" where
  "entry_found cmp mem key value r = (case r of
       None \<Rightarrow> Some None
     | Some x \<Rightarrow> do {
         n \<leftarrow> mem x;
         if key = sn_key n then do { v \<leftarrow> sn_value n; c \<leftarrow> cmp v value; Some (if c = 0 then Some x else None) }
         else Some None
       })"

text \<open>The loops over the levels of an insertion and of a deletion.\<close>

primrec link_loop :: "nat \<Rightarrow> nat list \<Rightarrow> nat list \<Rightarrow> 'v skip_mem \<Rightarrow> 'v skip_mem option" where
  "link_loop x update [] mem = Some mem"
| "link_loop x update (i # is) mem = do {
     u \<leftarrow> nth_opt update i;
     nxt \<leftarrow> forward mem u i;
     mem1 \<leftarrow> set_forward mem x i nxt;
     mem2 \<leftarrow> set_forward mem1 u i (Some x);
     link_loop x update is mem2
   }"

primrec unlink_loop :: "nat \<Rightarrow> nat list \<Rightarrow> nat list \<Rightarrow> 'v skip_mem \<Rightarrow> 'v skip_mem option" where
  "unlink_loop x update [] mem = Some mem"
| "unlink_loop x update (i # is) mem = do {
     u \<leftarrow> nth_opt update i;
     nxt \<leftarrow> forward mem u i;
     mem1 \<leftarrow> (if nxt = Some x then do { nxt1 \<leftarrow> forward mem x i; set_forward mem u i nxt1 } else Some mem);
     unlink_loop x update is mem1
   }"

definition kr_skiplist_insert :: "'v compare \<Rightarrow> (nat \<Rightarrow> nat) \<Rightarrow> 'v T_KRSkipList \<Rightarrow> u32 \<Rightarrow> 'v \<Rightarrow> ('v T_KRSkipList \<times> nat) option" where
  "kr_skiplist_insert cmp r sl key value = do {
     (update, y) \<leftarrow> kr_skiplist_lookup_internal cmp sl key value;
     fd \<leftarrow> entry_found cmp (sl_mem sl) key value y;
     (case fd of
        Some x \<Rightarrow> do { n \<leftarrow> sl_mem sl x; Some (sl\<lparr>sl_mem := (sl_mem sl)(x \<mapsto> n\<lparr>sn_value := Some value\<rparr>)\<rparr>, x) }
      | None \<Rightarrow> do {
          let level = kr_skiplist_random_level r;
          let update1 = update @ replicate (level - sl_level sl) (sl_header sl);
          let x = sl_fresh sl;
          mem \<leftarrow> link_loop x update1 [0..<level] ((sl_mem sl)(x \<mapsto> kr_skiplist_create_node level key (Some value)));
          Some (sl\<lparr>sl_level := max level (sl_level sl), sl_mem := mem, sl_fresh := x + 1, sl_length := sl_length sl + 1\<rparr>, x)
        })
   }"

text \<open>The highest levels are given up while they are empty.\<close>

fun shrink_level :: "'v skip_mem \<Rightarrow> nat \<Rightarrow> nat \<Rightarrow> nat option" where
  "shrink_level mem header (Suc (Suc l)) = do {
     nxt \<leftarrow> forward mem header (Suc l);
     if nxt = None then shrink_level mem header (Suc l) else Some (Suc (Suc l))
   }"
| "shrink_level mem header level = Some level"

definition kr_skiplist_delete :: "'v compare \<Rightarrow> 'v T_KRSkipList \<Rightarrow> u32 \<Rightarrow> 'v \<Rightarrow> ('v T_KRSkipList \<times> int) option" where
  "kr_skiplist_delete cmp sl key value = do {
     (update, y) \<leftarrow> kr_skiplist_lookup_internal cmp sl key value;
     fd \<leftarrow> entry_found cmp (sl_mem sl) key value y;
     (case fd of
        Some x \<Rightarrow> do {
          mem \<leftarrow> unlink_loop x update [0..<sl_level sl] (sl_mem sl);
          let mem1 = mem(x := None);
          level \<leftarrow> shrink_level mem1 (sl_header sl) (sl_level sl);
          Some (sl\<lparr>sl_level := level, sl_mem := mem1, sl_length := sl_length sl - 1\<rparr>, 0)
        }
      | None \<Rightarrow> Some (sl, - 1))
   }"

definition kr_skiplist_lookup :: "'v compare \<Rightarrow> 'v T_KRSkipList \<Rightarrow> u32 \<Rightarrow> 'v \<Rightarrow> 'v option option" where
  "kr_skiplist_lookup cmp sl key value = do {
     (update, y) \<leftarrow> kr_skiplist_lookup_internal cmp sl key value;
     fd \<leftarrow> entry_found cmp (sl_mem sl) key value y;
     (case fd of None \<Rightarrow> Some None | Some x \<Rightarrow> do { n \<leftarrow> sl_mem sl x; Some (sn_value n) })
   }"

text \<open>The values a walk over the lowest level passes to the callback.\<close>

partial_function (option) foreach_loop :: "'v skip_mem \<Rightarrow> nat option \<Rightarrow> 'v list option" where
  "foreach_loop mem node = (case node of
       None \<Rightarrow> Some []
     | Some x \<Rightarrow> do {
         n \<leftarrow> mem x;
         nxt \<leftarrow> forward mem x 0;
         v \<leftarrow> sn_value n;
         vs \<leftarrow> foreach_loop mem nxt;
         Some (v # vs)
       })"

definition kr_skiplist_foreach :: "'v T_KRSkipList \<Rightarrow> 'v list option" where
  "kr_skiplist_foreach sl = do { a \<leftarrow> forward (sl_mem sl) (sl_header sl) 0; foreach_loop (sl_mem sl) a }"

text \<open>The value of the first entry whose key is not below the given one or, if there is none, of the first entry at all.\<close>

definition kr_skiplist_lookup_cycle :: "'v T_KRSkipList \<Rightarrow> u32 \<Rightarrow> 'v option option" where
  "kr_skiplist_lookup_cycle sl key = do {
     (x, _) \<leftarrow> search_levels (\<lambda>n. Some (sn_key n < key)) (sl_mem sl) (sl_level sl) (sl_header sl);
     y \<leftarrow> forward (sl_mem sl) x 0;
     (case y of
        Some a \<Rightarrow> do { n \<leftarrow> sl_mem sl a; Some (sn_value n) }
      | None \<Rightarrow> do {
          z \<leftarrow> forward (sl_mem sl) (sl_header sl) 0;
          (case z of Some a \<Rightarrow> do { n \<leftarrow> sl_mem sl a; Some (sn_value n) } | None \<Rightarrow> Some None)
        })
   }"

end
