(* ===== verification/KR_ConHash.thy ===== *)
theory KR_ConHash
  imports KR_SkipList KR_CLib
begin

unbundle bit_operations_syntax

text \<open>
  \<open>krutils/kr_conhash.c\<close>: consistent hashing. A node is put on a ring at as many places as its weight says, an object belongs to the
  node at the first place from its own hash value on. The places are the entries of a skip list, a second skip list
  holds the nodes. Nodes live in an explicit memory; pointers to the virtual nodes are pairs of the address of the node
  and the index in its array. The results of \<open>random\<close> that the insertions into the skip lists use are a parameter.
\<close>

section \<open>The default hash function\<close>

definition crc16tab :: "u16 list" where
  "crc16tab =
    [0x0000, 0x1021, 0x2042, 0x3063, 0x4084, 0x50a5, 0x60c6, 0x70e7,
     0x8108, 0x9129, 0xa14a, 0xb16b, 0xc18c, 0xd1ad, 0xe1ce, 0xf1ef,
     0x1231, 0x0210, 0x3273, 0x2252, 0x52b5, 0x4294, 0x72f7, 0x62d6,
     0x9339, 0x8318, 0xb37b, 0xa35a, 0xd3bd, 0xc39c, 0xf3ff, 0xe3de,
     0x2462, 0x3443, 0x0420, 0x1401, 0x64e6, 0x74c7, 0x44a4, 0x5485,
     0xa56a, 0xb54b, 0x8528, 0x9509, 0xe5ee, 0xf5cf, 0xc5ac, 0xd58d,
     0x3653, 0x2672, 0x1611, 0x0630, 0x76d7, 0x66f6, 0x5695, 0x46b4,
     0xb75b, 0xa77a, 0x9719, 0x8738, 0xf7df, 0xe7fe, 0xd79d, 0xc7bc,
     0x48c4, 0x58e5, 0x6886, 0x78a7, 0x0840, 0x1861, 0x2802, 0x3823,
     0xc9cc, 0xd9ed, 0xe98e, 0xf9af, 0x8948, 0x9969, 0xa90a, 0xb92b,
     0x5af5, 0x4ad4, 0x7ab7, 0x6a96, 0x1a71, 0x0a50, 0x3a33, 0x2a12,
     0xdbfd, 0xcbdc, 0xfbbf, 0xeb9e, 0x9b79, 0x8b58, 0xbb3b, 0xab1a,
     0x6ca6, 0x7c87, 0x4ce4, 0x5cc5, 0x2c22, 0x3c03, 0x0c60, 0x1c41,
     0xedae, 0xfd8f, 0xcdec, 0xddcd, 0xad2a, 0xbd0b, 0x8d68, 0x9d49,
     0x7e97, 0x6eb6, 0x5ed5, 0x4ef4, 0x3e13, 0x2e32, 0x1e51, 0x0e70,
     0xff9f, 0xefbe, 0xdfdd, 0xcffc, 0xbf1b, 0xaf3a, 0x9f59, 0x8f78,
     0x9188, 0x81a9, 0xb1ca, 0xa1eb, 0xd10c, 0xc12d, 0xf14e, 0xe16f,
     0x1080, 0x00a1, 0x30c2, 0x20e3, 0x5004, 0x4025, 0x7046, 0x6067,
     0x83b9, 0x9398, 0xa3fb, 0xb3da, 0xc33d, 0xd31c, 0xe37f, 0xf35e,
     0x02b1, 0x1290, 0x22f3, 0x32d2, 0x4235, 0x5214, 0x6277, 0x7256,
     0xb5ea, 0xa5cb, 0x95a8, 0x8589, 0xf56e, 0xe54f, 0xd52c, 0xc50d,
     0x34e2, 0x24c3, 0x14a0, 0x0481, 0x7466, 0x6447, 0x5424, 0x4405,
     0xa7db, 0xb7fa, 0x8799, 0x97b8, 0xe75f, 0xf77e, 0xc71d, 0xd73c,
     0x26d3, 0x36f2, 0x0691, 0x16b0, 0x6657, 0x7676, 0x4615, 0x5634,
     0xd94c, 0xc96d, 0xf90e, 0xe92f, 0x99c8, 0x89e9, 0xb98a, 0xa9ab,
     0x5844, 0x4865, 0x7806, 0x6827, 0x18c0, 0x08e1, 0x3882, 0x28a3,
     0xcb7d, 0xdb5c, 0xeb3f, 0xfb1e, 0x8bf9, 0x9bd8, 0xabbb, 0xbb9a,
     0x4a75, 0x5a54, 0x6a37, 0x7a16, 0x0af1, 0x1ad0, 0x2ab3, 0x3a92,
     0xfd2e, 0xed0f, 0xdd6c, 0xcd4d, 0xbdaa, 0xad8b, 0x9de8, 0x8dc9,
     0x7c26, 0x6c07, 0x5c64, 0x4c45, 0x3ca2, 0x2c83, 0x1ce0, 0x0cc1,
     0xef1f, 0xff3e, 0xcf5d, 0xdf7c, 0xaf9b, 0xbfba, 0x8fd9, 0x9ff8,
     0x6e17, 0x7e36, 0x4e55, 0x5e74, 0x2e93, 0x3eb2, 0x0ed1, 0x1ef0]"

definition crc16_step :: "u16 \<Rightarrow> char \<Rightarrow> u16" where
  "crc16_step crc c = push_bit 8 crc XOR crc16tab ! unat ((drop_bit 8 crc XOR word_of_int (schar c)) AND 0x00FF)"

definition kr_crc16_hash :: "string \<Rightarrow> u32" where
  "kr_crc16_hash str = ucast (foldl crc16_step 0 str)"

section \<open>Nodes\<close>

datatype E_KRNodeStatus = KR_NODE_STATUS_CREATED | KR_NODE_STATUS_INSERTED | KR_NODE_STATUS_DELETED

record T_KRVirtualNode =
  vn_hash :: u32
  vn_vid :: string
  vn_node :: "nat option"

record 'p T_KRActualNode =
  an_hash :: u32
  an_id :: string
  an_weights :: u32
  an_kicks :: u32
  an_vnodes :: "T_KRVirtualNode list"
  an_priv :: 'p
  an_status :: E_KRNodeStatus

type_synonym 'p nodes = "nat \<Rightarrow> 'p T_KRActualNode option"

text \<open>The identifier has room for 100 characters; \<open>strncpy\<close> does not end it when it fills them, and then it cannot be read as a string.\<close>

definition node_id :: "'p T_KRActualNode \<Rightarrow> string option" where
  "node_id n = do { assert_c (length (an_id n) < 100); Some (an_id n) }"

definition kr_node_compare :: "'p nodes \<Rightarrow> nat compare" where
  "kr_node_compare nodes v1 v2 = do {
     node1 \<leftarrow> nodes v1;
     node2 \<leftarrow> nodes v2;
     nid1 \<leftarrow> node_id node1;
     nid2 \<leftarrow> node_id node2;
     Some (c_strcmp nid1 nid2)
   }"

definition kr_vnode_compare :: "'p nodes \<Rightarrow> (nat \<times> nat) compare" where
  "kr_vnode_compare nodes v1 v2 = do {
     n1 \<leftarrow> nodes (fst v1);
     vnode1 \<leftarrow> nth_opt (an_vnodes n1) (snd v1);
     n2 \<leftarrow> nodes (fst v2);
     vnode2 \<leftarrow> nth_opt (an_vnodes n2) (snd v2);
     Some (c_strcmp (vn_vid vnode1) (vn_vid vnode2))
   }"

text \<open>\<open>ch_freed\<close> lists what the free function has been called on.\<close>

record 'p T_KRConHash =
  ch_hash_func :: "string \<Rightarrow> u32"
  ch_free_func :: bool
  ch_vnode_list :: "(nat \<times> nat) T_KRSkipList"
  ch_node_list :: "nat T_KRSkipList"
  ch_nodes :: "'p nodes"
  ch_fresh :: nat
  ch_freed :: "'p list"

definition kr_conhash_construct :: "(string \<Rightarrow> u32) option \<Rightarrow> bool \<Rightarrow> 'p T_KRConHash" where
  "kr_conhash_construct hash_func free_func = \<lparr>ch_hash_func = (case hash_func of Some f \<Rightarrow> f | None \<Rightarrow> kr_crc16_hash),
     ch_free_func = free_func, ch_vnode_list = kr_skiplist_create, ch_node_list = kr_skiplist_create,
     ch_nodes = (\<lambda>_. None), ch_fresh = 0, ch_freed = []\<rparr>"

definition kr_conhash_create_node :: "string \<Rightarrow> u32 \<Rightarrow> 'p \<Rightarrow> 'p T_KRActualNode" where
  "kr_conhash_create_node nid weights priv = \<lparr>an_hash = 0, an_id = take 100 nid, an_weights = weights, an_kicks = 0,
     an_vnodes = replicate (unat weights) \<lparr>vn_hash = 0, vn_vid = [], vn_node = None\<rparr>, an_priv = priv, an_status = KR_NODE_STATUS_CREATED\<rparr>"

definition kr_conhash_free_node :: "nat \<Rightarrow> 'p T_KRConHash \<Rightarrow> 'p T_KRConHash option" where
  "kr_conhash_free_node node krch = do {
     n \<leftarrow> ch_nodes krch node;
     Some (krch\<lparr>ch_nodes := (ch_nodes krch)(node := None),
       ch_freed := (if ch_free_func krch then ch_freed krch @ [an_priv n] else ch_freed krch)\<rparr>)
   }"

section \<open>Insertion and deletion\<close>

definition vnode_id :: "string \<Rightarrow> nat \<Rightarrow> string" where
  "vnode_id nid i = take 127 (nid @ ''-'' @ pad0 3 i)"

text \<open>The loops over the virtual nodes; the index is an \<open>int\<close>.\<close>

primrec insert_vnodes :: "(nat \<Rightarrow> nat \<Rightarrow> nat) \<Rightarrow> nat \<Rightarrow> nat list \<Rightarrow> 'p T_KRConHash \<Rightarrow> 'p T_KRConHash option" where
  "insert_vnodes r node [] krch = Some krch"
| "insert_vnodes r node (i # is) krch = do {
     n \<leftarrow> ch_nodes krch node;
     nid \<leftarrow> node_id n;
     let vid = vnode_id nid i;
     let hash = ch_hash_func krch vid;
     vnodes \<leftarrow> upd_opt (an_vnodes n) i \<lparr>vn_hash = hash, vn_vid = vid, vn_node = Some node\<rparr>;
     let nodes = (ch_nodes krch)(node \<mapsto> n\<lparr>an_vnodes := vnodes\<rparr>);
     (sl, _) \<leftarrow> kr_skiplist_insert (kr_vnode_compare nodes) (r i) (ch_vnode_list krch) hash (node, i);
     _ \<leftarrow> chk_int (int i + 1);
     insert_vnodes r node is (krch\<lparr>ch_nodes := nodes, ch_vnode_list := sl\<rparr>)
   }"

definition kr_conhash_insert_node :: "(nat \<Rightarrow> nat \<Rightarrow> nat) \<Rightarrow> nat \<Rightarrow> 'p T_KRConHash \<Rightarrow> 'p T_KRConHash option" where
  "kr_conhash_insert_node r node krch = do {
     n \<leftarrow> ch_nodes krch node;
     krch1 \<leftarrow> insert_vnodes r node [0..<unat (an_weights n)] krch;
     n1 \<leftarrow> ch_nodes krch1 node;
     nid \<leftarrow> node_id n1;
     let hash = ch_hash_func krch1 nid;
     let nodes = (ch_nodes krch1)(node \<mapsto> n1\<lparr>an_hash := hash\<rparr>);
     (sl, _) \<leftarrow> kr_skiplist_insert (kr_node_compare nodes) (r (unat (an_weights n))) (ch_node_list krch1) hash node;
     Some (krch1\<lparr>ch_nodes := nodes(node \<mapsto> n1\<lparr>an_hash := hash, an_status := KR_NODE_STATUS_INSERTED\<rparr>), ch_node_list := sl\<rparr>)
   }"

primrec delete_vnodes :: "nat \<Rightarrow> nat list \<Rightarrow> 'p T_KRConHash \<Rightarrow> 'p T_KRConHash option" where
  "delete_vnodes node [] krch = Some krch"
| "delete_vnodes node (i # is) krch = do {
     n \<leftarrow> ch_nodes krch node;
     vnode \<leftarrow> nth_opt (an_vnodes n) i;
     (sl, _) \<leftarrow> kr_skiplist_delete (kr_vnode_compare (ch_nodes krch)) (ch_vnode_list krch) (vn_hash vnode) (node, i);
     _ \<leftarrow> chk_int (int i + 1);
     delete_vnodes node is (krch\<lparr>ch_vnode_list := sl\<rparr>)
   }"

definition kr_conhash_delete_node :: "nat \<Rightarrow> 'p T_KRConHash \<Rightarrow> 'p T_KRConHash option" where
  "kr_conhash_delete_node node krch = do {
     n \<leftarrow> ch_nodes krch node;
     krch1 \<leftarrow> delete_vnodes node [0..<unat (an_weights n)] krch;
     (sl, _) \<leftarrow> kr_skiplist_delete (kr_node_compare (ch_nodes krch1)) (ch_node_list krch1) (an_hash n) node;
     Some (krch1\<lparr>ch_nodes := (ch_nodes krch1)(node \<mapsto> n\<lparr>an_status := KR_NODE_STATUS_DELETED\<rparr>), ch_node_list := sl\<rparr>)
   }"

section \<open>The interface\<close>

text \<open>The key of a lookup is a node on the stack, here at the address that is allocated next; it is zero but for hash value and identifier.\<close>

definition kr_conhash_lookup :: "'p \<Rightarrow> 'p T_KRConHash \<Rightarrow> string \<Rightarrow> nat option option" where
  "kr_conhash_lookup null krch nid = do {
     let node = \<lparr>an_hash = ch_hash_func krch nid, an_id = take 100 nid, an_weights = 0, an_kicks = 0, an_vnodes = [], an_priv = null,
       an_status = KR_NODE_STATUS_CREATED\<rparr>;
     kr_skiplist_lookup (kr_node_compare ((ch_nodes krch)(ch_fresh krch \<mapsto> node))) (ch_node_list krch) (an_hash node) (ch_fresh krch)
   }"

definition kr_conhash_add :: "(nat \<Rightarrow> nat \<Rightarrow> nat) \<Rightarrow> 'p T_KRConHash \<Rightarrow> string \<Rightarrow> u32 \<Rightarrow> 'p \<Rightarrow> ('p T_KRConHash \<times> int) option" where
  "kr_conhash_add r krch nid weights priv = do {
     let node = ch_fresh krch;
     krch1 \<leftarrow> kr_conhash_insert_node r node
       (krch\<lparr>ch_nodes := (ch_nodes krch)(node \<mapsto> kr_conhash_create_node nid weights priv), ch_fresh := node + 1\<rparr>);
     Some (krch1, 0)
   }"

definition kr_conhash_remove :: "'p \<Rightarrow> 'p T_KRConHash \<Rightarrow> string \<Rightarrow> ('p T_KRConHash \<times> int) option" where
  "kr_conhash_remove null krch nid = do {
     node \<leftarrow> kr_conhash_lookup null krch nid;
     (case node of
        None \<Rightarrow> Some (krch, - 1)
      | Some a \<Rightarrow> do {
          krch1 \<leftarrow> kr_conhash_delete_node a krch;
          krch2 \<leftarrow> kr_conhash_free_node a krch1;
          Some (krch2, 0)
        })
   }"

definition kr_conhash_adjust_weights :: "(nat \<Rightarrow> nat \<Rightarrow> nat) \<Rightarrow> 'p \<Rightarrow> 'p T_KRConHash \<Rightarrow> string \<Rightarrow> u32 \<Rightarrow> ('p T_KRConHash \<times> int) option" where
  "kr_conhash_adjust_weights r null krch nid weights = do {
     del_node \<leftarrow> kr_conhash_lookup null krch nid;
     (case del_node of
        None \<Rightarrow> Some (krch, - 1)
      | Some a \<Rightarrow> do {
          n \<leftarrow> ch_nodes krch a;
          let add_node = ch_fresh krch;
          krch1 \<leftarrow> kr_conhash_delete_node a
            (krch\<lparr>ch_nodes := (ch_nodes krch)(add_node \<mapsto> kr_conhash_create_node nid weights (an_priv n)), ch_fresh := add_node + 1\<rparr>);
          krch2 \<leftarrow> kr_conhash_free_node a krch1;
          krch3 \<leftarrow> kr_conhash_insert_node r add_node krch2;
          Some (krch3, 0)
        })
   }"

text \<open>The node an object belongs to; the counter is meant to be increased by one.\<close>

definition kr_conhash_locate :: "'p T_KRConHash \<Rightarrow> string \<Rightarrow> ('p T_KRConHash \<times> nat option) option" where
  "kr_conhash_locate krch object = do {
     vnode \<leftarrow> kr_skiplist_lookup_cycle (ch_vnode_list krch) (ch_hash_func krch object);
     (case vnode of
        None \<Rightarrow> Some (krch, None)
      | Some (p, i) \<Rightarrow> do {
          n \<leftarrow> ch_nodes krch p;
          v \<leftarrow> nth_opt (an_vnodes n) i;
          node \<leftarrow> vn_node v;
          n1 \<leftarrow> ch_nodes krch node;
          Some (krch\<lparr>ch_nodes := (ch_nodes krch)(node \<mapsto> n1\<lparr>an_kicks := (an_kicks n1 + 1) mod 0xFFFFFFFF\<rparr>)\<rparr>, Some node)
        })
   }"

definition kr_conhash_foreach_node :: "'p T_KRConHash \<Rightarrow> nat list option" where
  "kr_conhash_foreach_node krch = kr_skiplist_foreach (ch_node_list krch)"

text \<open>\<open>kr_conhash_destruct\<close>: the private data the free function has been called on in the end. A node is read before it is freed.\<close>

primrec destruct_loop :: "nat list \<Rightarrow> 'p T_KRConHash \<Rightarrow> 'p T_KRConHash option" where
  "destruct_loop [] krch = Some krch"
| "destruct_loop (a # as) krch = do { krch1 \<leftarrow> kr_conhash_free_node a krch; destruct_loop as krch1 }"

definition kr_conhash_destruct :: "'p T_KRConHash \<Rightarrow> 'p list option" where
  "kr_conhash_destruct krch = do {
     as \<leftarrow> kr_skiplist_foreach (ch_node_list krch);
     krch1 \<leftarrow> destruct_loop as krch;
     Some (ch_freed krch1)
   }"

end
