(* ===== verification/KR_SkipList_Inv.thy ===== *)
theory KR_SkipList_Inv
  imports KR_SkipList
begin

text \<open>The chains of a skip list: the pointer of a node at a level is the next node that is high enough.\<close>

section \<open>Chains\<close>

definition height :: "'v skip_mem \<Rightarrow> nat \<Rightarrow> nat" where
  "height mem a = (case mem a of None \<Rightarrow> 0 | Some n \<Rightarrow> length (sn_forward n))"

definition next_at :: "'v skip_mem \<Rightarrow> nat \<Rightarrow> nat list \<Rightarrow> nat option" where
  "next_at mem i cs = find (\<lambda>b. i < height mem b) cs"

definition chained :: "'v skip_mem \<Rightarrow> nat list \<Rightarrow> bool" where
  "chained mem zs \<longleftrightarrow> (\<forall>as a cs. zs = as @ a # cs \<longrightarrow> mem a \<noteq> None \<and> (\<forall>i < height mem a. forward mem a i = Some (next_at mem i cs)))"

lemma chainedD:
  assumes "chained mem (as @ a # cs)"
  shows "mem a \<noteq> None" and "i < height mem a \<Longrightarrow> forward mem a i = Some (next_at mem i cs)"
  using assms by (auto simp: chained_def)

lemma next_at_append: "next_at mem i (as @ bs) = (case next_at mem i as of None \<Rightarrow> next_at mem i bs | Some a \<Rightarrow> Some a)"
  by (induction as) (auto simp: next_at_def)

lemma next_at_Cons: "next_at mem i (a # as) = (if i < height mem a then Some a else next_at mem i as)"
  by (simp add: next_at_def)

lemma next_at_Nil: "next_at mem i [] = None"
  by (simp add: next_at_def)

lemmas next_at_simps = next_at_append next_at_Cons next_at_Nil

lemma next_at_None: "next_at mem i cs = None \<longleftrightarrow> (\<forall>b \<in> set cs. height mem b \<le> i)"
  by (auto simp: next_at_def find_None_iff)

lemma next_at_Some: "next_at mem i cs = Some y \<Longrightarrow> \<exists>c1 c2. cs = c1 @ y # c2 \<and> next_at mem i c1 = None \<and> i < height mem y"
proof (induction cs)
  case (Cons c cs)
  show ?case
  proof (cases "i < height mem c")
    case True
    with Cons.prems have "c = y" by (simp add: next_at_Cons)
    with True show ?thesis by (intro exI [of _ "[]"] exI [of _ cs]) (simp add: next_at_Nil)
  next
    case False
    with Cons obtain c1 c2 where "cs = c1 @ y # c2" "next_at mem i c1 = None" "i < height mem y" by (auto simp: next_at_Cons)
    with False show ?thesis by (intro exI [of _ "c # c1"] exI [of _ c2]) (simp add: next_at_Cons)
  qed
qed (simp add: next_at_Nil)

lemma split_append:
  "zs @ ws = as @ a # cs \<longleftrightarrow> (\<exists>cs1. zs = as @ a # cs1 \<and> cs = cs1 @ ws) \<or> (\<exists>as2. ws = as2 @ a # cs \<and> as = zs @ as2)"
  by (auto simp: append_eq_append_conv2 append_eq_Cons_conv Cons_eq_append_conv)

text \<open>The last node of level \<open>i\<close> in a list of nodes that has one.\<close>

definition last_at :: "'v skip_mem \<Rightarrow> nat \<Rightarrow> nat list \<Rightarrow> nat" where
  "last_at mem i zs = last (filter (\<lambda>b. i < height mem b) zs)"

lemma last_at_split:
  assumes "i < height mem a"
  shows "last_at mem i (as @ a # cs) = (if next_at mem i cs = None then a else last_at mem i cs)"
proof -
  have "filter (\<lambda>b. i < height mem b) cs = [] \<longleftrightarrow> next_at mem i cs = None" by (auto simp: next_at_None filter_empty_conv)
  with assms show ?thesis by (auto simp: last_at_def)
qed

lemma last_at_mem:
  assumes "b \<in> set zs" and "i < height mem b"
  shows "last_at mem i zs \<in> set zs" and "i < height mem (last_at mem i zs)"
proof -
  have "filter (\<lambda>b. i < height mem b) zs \<noteq> []" using assms by (auto simp: filter_empty_conv)
  from last_in_set [OF this] show "last_at mem i zs \<in> set zs" "i < height mem (last_at mem i zs)" by (auto simp: last_at_def)
qed

lemma last_at_rest:
  assumes "b \<in> set zs" and "i < height mem b"
  shows "\<exists>as cs. zs = as @ last_at mem i zs # cs \<and> next_at mem i cs = None"
  using assms
proof (induction zs rule: rev_induct)
  case (snoc z zs)
  show ?case
  proof (cases "i < height mem z")
    case True
    then have "last_at mem i (zs @ [z]) = z" by (simp add: last_at_def)
    then show ?thesis by (intro exI [of _ zs] exI [of _ "[]"]) (simp add: next_at_Nil)
  next
    case False
    with snoc.prems have "b \<in> set zs" by auto
    from snoc.IH [OF this snoc.prems(2)] obtain as cs where "zs = as @ last_at mem i zs # cs" "next_at mem i cs = None" by auto
    with False have "zs @ [z] = as @ last_at mem i (zs @ [z]) # (cs @ [z])" "next_at mem i (cs @ [z]) = None"
      by (simp_all add: last_at_def next_at_simps)
    then show ?thesis by blast
  qed
qed simp

section \<open>Searching\<close>

text \<open>\<open>before\<close> holds of the nodes of \<open>xs\<close> and of none after them.\<close>

definition cut :: "('v T_KRSkipListNode \<Rightarrow> bool option) \<Rightarrow> 'v skip_mem \<Rightarrow> nat list \<Rightarrow> nat list \<Rightarrow> bool" where
  "cut before mem xs ys \<longleftrightarrow> (\<forall>x \<in> set xs. \<exists>n. mem x = Some n \<and> before n = Some True) \<and> (\<forall>y \<in> set ys. \<exists>n. mem y = Some n \<and> before n = Some False)"

lemma walk_last:
  assumes "cut before mem xs ys" and "chained mem (hd0 # xs @ ys)"
  shows "hd0 # xs = as @ x # cs \<Longrightarrow> i < height mem x \<Longrightarrow> walk before mem i x = Some (last_at mem i (hd0 # xs))"
proof (induction "length cs" arbitrary: as x cs rule: less_induct)
  case less
  have "hd0 # xs @ ys = as @ x # (cs @ ys)" using less.prems(1) by (metis append_Cons append_assoc)
  with assms(2) have f: "forward mem x i = Some (next_at mem i (cs @ ys))" using chainedD(2) less.prems(2) by metis
  have last: "last_at mem i (hd0 # xs) = (if next_at mem i cs = None then x else last_at mem i cs)"
    unfolding less.prems(1) by (rule last_at_split [OF less.prems(2)])
  show ?case
  proof (cases "next_at mem i cs")
    case None
    show ?thesis
    proof (cases "next_at mem i ys")
      case None': None
      with None f last show ?thesis by (subst walk.simps) (simp add: next_at_append)
    next
      case (Some y)
      then have "y \<in> set ys" using next_at_Some by fastforce
      with assms(1) obtain n where "mem y = Some n" "before n = Some False" by (auto simp: cut_def)
      with Some None f last show ?thesis by (subst walk.simps) (simp add: next_at_append)
    qed
  next
    case (Some y)
    from next_at_Some [OF Some] obtain c1 c2 where c: "cs = c1 @ y # c2" "i < height mem y" by auto
    have *: "hd0 # xs = (as @ x # c1) @ y # c2" using less.prems(1) c(1) by simp
    have "y \<in> set xs" using less.prems(1) c(1) by (cases as) auto
    with assms(1) obtain n where n: "mem y = Some n" "before n = Some True" by (auto simp: cut_def)
    have "walk before mem i y = Some (last_at mem i (hd0 # xs))"
      by (rule less.hyps [of c2 "as @ x # c1" y]) (use c * in simp_all)
    with n f Some show ?thesis by (subst walk.simps) (simp add: next_at_append)
  qed
qed

lemma search_levels_last:
  assumes "cut before mem xs ys" and "chained mem (hd0 # xs @ ys)"
  shows "n \<le> height mem hd0 \<Longrightarrow> x \<in> set (hd0 # xs) \<Longrightarrow> n \<le> height mem x \<Longrightarrow>
    search_levels before mem n x = Some (if n = 0 then x else last_at mem 0 (hd0 # xs), map (\<lambda>i. last_at mem i (hd0 # xs)) [0..<n])"
proof (induction n arbitrary: x)
  case (Suc i)
  let ?y = "last_at mem i (hd0 # xs)"
  from Suc.prems obtain as cs where "hd0 # xs = as @ x # cs" by (meson split_list)
  then have w: "walk before mem i x = Some ?y" using Suc.prems by (intro walk_last [OF assms]) auto
  have y: "?y \<in> set (hd0 # xs)" "i < height mem ?y" by (rule last_at_mem [of x]; use Suc.prems in \<open>simp add: Suc_le_eq\<close>)+
  from Suc.IH [of ?y] y Suc.prems(1)
  have "search_levels before mem i ?y = Some (if i = 0 then ?y else last_at mem 0 (hd0 # xs), map (\<lambda>i. last_at mem i (hd0 # xs)) [0..<i])" by simp
  with w show ?case by auto
qed simp

lemma forward_last:
  assumes "chained mem (zs @ ys)" and "b \<in> set zs" and "i < height mem b"
  shows "forward mem (last_at mem i zs) i = Some (next_at mem i ys)"
proof -
  obtain as cs where s: "zs = as @ last_at mem i zs # cs" "next_at mem i cs = None" using last_at_rest [OF assms(2,3)] by blast
  have "zs @ ys = as @ last_at mem i zs # (cs @ ys)" using s(1) by (metis append_Cons append_assoc)
  with assms(1) have "forward mem (last_at mem i zs) i = Some (next_at mem i (cs @ ys))"
    using last_at_mem(2) [OF assms(2,3)] chainedD(2) by metis
  with s(2) show ?thesis by (simp add: next_at_append)
qed

section \<open>Linking and unlinking a node\<close>

text \<open>Two memories that differ at most in the pointers.\<close>

definition same_nodes :: "'v skip_mem \<Rightarrow> 'v skip_mem \<Rightarrow> bool" where
  "same_nodes mem mem' \<longleftrightarrow> (\<forall>a. height mem' a = height mem a \<and> (mem' a = None \<longleftrightarrow> mem a = None) \<and>
     map_option sn_key (mem' a) = map_option sn_key (mem a) \<and> map_option sn_value (mem' a) = map_option sn_value (mem a))"

lemma same_nodes_refl: "same_nodes mem mem"
  by (simp add: same_nodes_def)

lemma same_nodes_trans: "same_nodes mem mem' \<Longrightarrow> same_nodes mem' mem'' \<Longrightarrow> same_nodes mem mem''"
  by (simp add: same_nodes_def)

lemma same_nodes_next: "same_nodes mem mem' \<Longrightarrow> next_at mem' i cs = next_at mem i cs"
  by (simp add: same_nodes_def next_at_def)

lemma forward_Some: "i < height mem a \<Longrightarrow> \<exists>p. forward mem a i = Some p"
  by (auto simp: forward_def height_def split: option.splits)

lemma set_forward_spec:
  assumes "i < height mem a"
  shows "\<exists>mem'. set_forward mem a i y = Some mem' \<and> same_nodes mem mem' \<and>
    (\<forall>b j. forward mem' b j = (if b = a \<and> j = i then Some y else forward mem b j))"
  using assms by (auto simp: set_forward_def forward_def height_def same_nodes_def nth_opt_def split: option.splits)

text \<open>What the two loops do to the pointers.\<close>

lemma link_loop_spec:
  assumes "n \<le> height mem x" and "\<And>i. i < n \<Longrightarrow> i < height mem (us ! i) \<and> us ! i \<noteq> x" and "n \<le> length us"
  shows "\<exists>mem'. link_loop x us [m..<n] mem = Some mem' \<and> same_nodes mem mem' \<and>
    (\<forall>b j. forward mem' b j = (if m \<le> j \<and> j < n then if b = x then forward mem (us ! j) j else if b = us ! j then Some (Some x) else forward mem b j
       else forward mem b j))"
  using assms
proof (induction "n - m" arbitrary: m mem)
  case 0
  then have "[m..<n] = []" by simp
  with 0 show ?case using same_nodes_refl by auto
next
  case (Suc k)
  then have mn: "m < n" and l: "[m..<n] = m # [Suc m..<n]" by (simp_all add: upt_conv_Cons)
  let ?u = "us ! m"
  have u: "m < height mem ?u" "?u \<noteq> x" "nth_opt us m = Some ?u" using Suc.prems mn by auto
  from forward_Some [OF u(1)] obtain p where p: "forward mem ?u m = Some p" by blast
  have "m < height mem x" using Suc.prems(1) mn by simp
  from set_forward_spec [OF this] obtain mem1 where mem1: "set_forward mem x m p = Some mem1" "same_nodes mem mem1"
    "\<And>b j. forward mem1 b j = (if b = x \<and> j = m then Some p else forward mem b j)" by metis
  have "m < height mem1 ?u" using u(1) mem1(2) by (simp add: same_nodes_def)
  from set_forward_spec [OF this] obtain mem2 where mem2: "set_forward mem1 ?u m (Some x) = Some mem2" "same_nodes mem1 mem2"
    "\<And>b j. forward mem2 b j = (if b = ?u \<and> j = m then Some (Some x) else forward mem1 b j)" by metis
  have s: "same_nodes mem mem2" using same_nodes_trans mem1(2) mem2(2) by blast
  then have h: "height mem2 a = height mem a" for a by (simp add: same_nodes_def)
  have "k = n - Suc m" using Suc.hyps(2) by simp
  from Suc.hyps(1) [OF this, of mem2] Suc.prems obtain mem' where
    m': "link_loop x us [Suc m..<n] mem2 = Some mem'" "same_nodes mem2 mem'" and
    f: "\<And>b j. forward mem' b j = (if Suc m \<le> j \<and> j < n then if b = x then forward mem2 (us ! j) j else if b = us ! j then Some (Some x) else forward mem2 b j
       else forward mem2 b j)" by (auto simp: h)
  show ?case
  proof (intro exI conjI allI)
    show "link_loop x us [m..<n] mem = Some mem'" using u(3) p mem1(1) mem2(1) m'(1) by (simp add: l)
    show "same_nodes mem mem'" using same_nodes_trans s m'(2) by blast
    show "forward mem' b j = (if m \<le> j \<and> j < n then if b = x then forward mem (us ! j) j else if b = us ! j then Some (Some x) else forward mem b j
       else forward mem b j)" for b j
      using f [of b j] mn u(2) p by (auto simp: mem1(3) mem2(3) not_less_eq_eq le_antisym)
  qed
qed

lemma unlink_loop_spec:
  assumes "\<And>i. i < n \<Longrightarrow> i < height mem (us ! i) \<and> us ! i \<noteq> x \<and> (forward mem (us ! i) i = Some (Some x) \<longrightarrow> i < height mem x)" and "n \<le> length us"
  shows "\<exists>mem'. unlink_loop x us [m..<n] mem = Some mem' \<and> same_nodes mem mem' \<and>
    (\<forall>b j. forward mem' b j = (if m \<le> j \<and> j < n \<and> b = us ! j \<and> forward mem b j = Some (Some x) then forward mem x j else forward mem b j))"
  using assms
proof (induction "n - m" arbitrary: m mem)
  case 0
  then have "[m..<n] = []" by simp
  with 0 show ?case using same_nodes_refl by auto
next
  case (Suc k)
  then have mn: "m < n" and l: "[m..<n] = m # [Suc m..<n]" by (simp_all add: upt_conv_Cons)
  let ?u = "us ! m"
  have u: "m < height mem ?u" "?u \<noteq> x" "nth_opt us m = Some ?u" using Suc.prems mn by auto
  from forward_Some [OF u(1)] obtain p where p: "forward mem ?u m = Some p" by blast
  obtain mem1 where mem1: "(if p = Some x then do { nxt1 \<leftarrow> forward mem x m; set_forward mem ?u m nxt1 } else Some mem) = Some mem1"
    "same_nodes mem mem1" "\<And>b j. forward mem1 b j = (if b = ?u \<and> j = m \<and> p = Some x then forward mem x m else forward mem b j)"
  proof (cases "p = Some x")
    case True
    with Suc.prems(1) [OF mn] p have "m < height mem x" by simp
    then obtain q where q: "forward mem x m = Some q" using forward_Some by blast
    from set_forward_spec [OF u(1), of q] True q that show ?thesis by auto
  next
    case False
    with that [of mem] show ?thesis by (simp add: same_nodes_refl)
  qed
  have h: "height mem1 a = height mem a" for a using mem1(2) by (simp add: same_nodes_def)
  have k: "k = n - Suc m" using Suc.hyps(2) by simp
  have "i < height mem1 (us ! i) \<and> us ! i \<noteq> x \<and> (forward mem1 (us ! i) i = Some (Some x) \<longrightarrow> i < height mem1 x)" if "i < n" for i
    using Suc.prems(1) [OF that] Suc.prems(1) [OF mn] p by (auto simp: h mem1(3) split: if_splits)
  note ih = Suc.hyps(1) [OF k this Suc.prems(2)]
  from ih obtain mem' where m': "unlink_loop x us [Suc m..<n] mem1 = Some mem'" "same_nodes mem1 mem'" and
    f: "\<And>b j. forward mem' b j = (if Suc m \<le> j \<and> j < n \<and> b = us ! j \<and> forward mem1 b j = Some (Some x) then forward mem1 x j else forward mem1 b j)"
    by blast
  show ?case
  proof (intro exI conjI allI)
    show "unlink_loop x us [m..<n] mem = Some mem'" using u(3) p mem1(1) m'(1) by (simp add: l)
    show "same_nodes mem mem'" using same_nodes_trans mem1(2) m'(2) by blast
    show "forward mem' b j = (if m \<le> j \<and> j < n \<and> b = us ! j \<and> forward mem b j = Some (Some x) then forward mem x j else forward mem b j)" for b j
      using f [of b j] mn u(2) p by (auto simp: mem1(3) not_less_eq_eq le_antisym)
  qed
qed

section \<open>The chains after an insertion and a deletion\<close>

lemma chained_cong:
  assumes "chained mem zs" and "\<And>a. a \<in> set zs \<Longrightarrow> mem' a = mem a"
  shows "chained mem' zs"
  unfolding chained_def
proof (intro allI impI)
  fix as a cs assume z: "zs = as @ a # cs"
  then have e: "mem' a = mem a" "\<And>b. b \<in> set cs \<Longrightarrow> mem' b = mem b" using assms(2) by auto
  then have "next_at mem' i cs = next_at mem i cs" for i
    by (induction cs) (simp_all add: next_at_simps height_def)
  with e(1) assms(1) z show "mem' a \<noteq> None \<and> (\<forall>i < height mem' a. forward mem' a i = Some (next_at mem' i cs))"
    using chainedD [of mem as a cs] by (simp add: height_def forward_def)
qed

lemma next_at_mem: "next_at mem i cs = Some y \<Longrightarrow> y \<in> set cs"
  using next_at_Some by fastforce

lemma chained_link:
  assumes ch: "chained mem (hd0 # xs @ ys)" and d: "distinct (hd0 # xs @ ys)" and x: "x \<notin> set (hd0 # xs @ ys)" "mem x \<noteq> None" "height mem x = n"
    and n: "n \<le> height mem hd0" and us: "\<And>i. i < n \<Longrightarrow> us ! i = last_at mem i (hd0 # xs)" and s: "same_nodes mem mem'"
    and f: "\<And>b j. forward mem' b j = (if j < n then if b = x then forward mem (us ! j) j else if b = us ! j then Some (Some x) else forward mem b j
       else forward mem b j)"
  shows "chained mem' (hd0 # xs @ x # ys)"
  unfolding chained_def
proof (intro allI impI conjI)
  fix as a cs assume z: "hd0 # xs @ x # ys = as @ a # cs"
  have h: "height mem' b = height mem b" "mem' b = None \<longleftrightarrow> mem b = None" for b using s by (simp_all add: same_nodes_def)
  have us_in: "us ! i \<in> set (hd0 # xs)" if "i < n" for i using us [OF that] last_at_mem(1) [of hd0 "hd0 # xs" i mem] n that by simp
  from z have "(\<exists>cs1. hd0 # xs = as @ a # cs1 \<and> cs = cs1 @ x # ys) \<or> (\<exists>as2. x # ys = as2 @ a # cs)"
    using split_append [of "hd0 # xs" "x # ys" as a cs] by auto
  then consider (left) cs1 where "hd0 # xs = as @ a # cs1" "cs = cs1 @ x # ys" | (new) "a = x" "cs = ys" | (right) as3 where "ys = as3 @ a # cs"
    by (auto simp: Cons_eq_append_conv)
  then have "mem' a \<noteq> None \<and> (\<forall>i < height mem' a. forward mem' a i = Some (next_at mem' i cs))"
  proof cases
    case left
    have z1: "hd0 # xs @ ys = as @ a # (cs1 @ ys)" using left(1) by (metis append_Cons append_assoc)
    have a: "a \<noteq> x" using left(1) x(1) by (metis Un_iff append_Cons in_set_conv_decomp set_append)
    have da: "a \<notin> set cs1" using d z1 by simp
    have "forward mem' a i = Some (next_at mem i cs)" if i: "i < height mem a" for i
    proof -
      have l: "last_at mem i (hd0 # xs) = (if next_at mem i cs1 = None then a else last_at mem i cs1)"
        unfolding left(1) by (rule last_at_split [OF i])
      have o: "forward mem a i = Some (next_at mem i (cs1 @ ys))" using chainedD(2) [OF ch [unfolded z1] i] .
      show ?thesis
      proof (cases "next_at mem i cs1")
        case None
        with l o us [of i] f [of a i] a show ?thesis by (simp add: left(2) next_at_simps x(3))
      next
        case (Some y)
        then have "last_at mem i cs1 \<in> set cs1" using next_at_mem [OF Some] next_at_Some [OF Some] by (blast intro: last_at_mem(1))
        with da have "i < n \<Longrightarrow> us ! i \<noteq> a" using l Some us [of i] by auto
        with Some o f [of a i] a show ?thesis by (auto simp: left(2) next_at_simps)
      qed
    qed
    moreover have "mem a \<noteq> None" using chainedD(1) [OF ch [unfolded z1]] .
    ultimately show ?thesis by (simp add: h same_nodes_next [OF s])
  next
    case new
    have "forward mem' x i = Some (next_at mem i ys)" if i: "i < n" for i
      using f [of x i] i us [OF i] forward_last [of mem "hd0 # xs" ys hd0 i] ch n by simp
    with new x(2,3) show ?thesis by (simp add: h same_nodes_next [OF s])
  next
    case right
    have z1: "hd0 # xs @ ys = (hd0 # xs @ as3) @ a # cs" using right by simp
    have "a \<notin> set (hd0 # xs)" "a \<noteq> x" using right d x(1) by auto
    with us_in have "forward mem' a i = forward mem a i" for i using f [of a i] by metis
    with chainedD [OF ch [unfolded z1]] show ?thesis by (simp add: h same_nodes_next [OF s])
  qed
  then show "mem' a \<noteq> None" "\<And>i. i < height mem' a \<Longrightarrow> forward mem' a i = Some (next_at mem' i cs)" by blast+
qed

lemma chained_unlink:
  assumes ch: "chained mem (hd0 # xs @ x # ys)" and d: "distinct (hd0 # xs @ x # ys)" and n: "n \<le> height mem hd0" "height mem x \<le> n"
    and us: "\<And>i. i < n \<Longrightarrow> us ! i = last_at mem i (hd0 # xs)" and s: "same_nodes mem mem'"
    and f: "\<And>b j. forward mem' b j = (if j < n \<and> b = us ! j \<and> forward mem b j = Some (Some x) then forward mem x j else forward mem b j)"
  shows "chained mem' (hd0 # xs @ ys)"
  unfolding chained_def
proof (intro allI impI conjI)
  fix as a cs assume z: "hd0 # xs @ ys = as @ a # cs"
  have h: "height mem' b = height mem b" "mem' b = None \<longleftrightarrow> mem b = None" for b using s by (simp_all add: same_nodes_def)
  have us_in: "us ! i \<in> set (hd0 # xs)" if "i < n" for i using us [OF that] last_at_mem(1) [of hd0 "hd0 # xs" i mem] n that by simp
  have fx: "forward mem x i = Some (next_at mem i ys)" if "i < height mem x" for i
    using chainedD(2) [of mem "hd0 # xs" x ys i] ch that by simp
  from z have "(\<exists>cs1. hd0 # xs = as @ a # cs1 \<and> cs = cs1 @ ys) \<or> (\<exists>as2. ys = as2 @ a # cs)"
    using split_append [of "hd0 # xs" ys as a cs] by auto
  then consider (left) cs1 where "hd0 # xs = as @ a # cs1" "cs = cs1 @ ys" | (right) as3 where "ys = as3 @ a # cs" by blast
  then have "mem' a \<noteq> None \<and> (\<forall>i < height mem' a. forward mem' a i = Some (next_at mem' i cs))"
  proof cases
    case left
    have z1: "hd0 # xs @ x # ys = as @ a # (cs1 @ x # ys)" using left(1) by (metis append_Cons append_assoc)
    have da: "a \<notin> set cs1" "x \<notin> set cs1" "x \<notin> set ys" using d z1 by auto
    have "forward mem' a i = Some (next_at mem i cs)" if i: "i < height mem a" for i
    proof -
      have l: "last_at mem i (hd0 # xs) = (if next_at mem i cs1 = None then a else last_at mem i cs1)"
        unfolding left(1) by (rule last_at_split [OF i])
      have o: "forward mem a i = Some (next_at mem i (cs1 @ x # ys))" using chainedD(2) [OF ch [unfolded z1] i] .
      show ?thesis
      proof (cases "next_at mem i cs1")
        case None
        have "next_at mem i ys \<noteq> Some x" using next_at_mem da(3) by metis
        with None l o us [of i] f [of a i] n(2) fx [of i] show ?thesis by (auto simp: left(2) next_at_simps)
      next
        case (Some y)
        then have "y \<noteq> x" using next_at_mem da(2) by metis
        with Some o f [of a i] show ?thesis by (simp add: left(2) next_at_simps)
      qed
    qed
    moreover have "mem a \<noteq> None" using chainedD(1) [OF ch [unfolded z1]] .
    ultimately show ?thesis by (simp add: h same_nodes_next [OF s])
  next
    case right
    have z1: "hd0 # xs @ x # ys = (hd0 # xs @ x # as3) @ a # cs" using right by simp
    have "a \<notin> set (hd0 # xs)" using right d by auto
    with us_in have "forward mem' a i = forward mem a i" for i using f [of a i] by metis
    with chainedD [OF ch [unfolded z1]] show ?thesis by (simp add: h same_nodes_next [OF s])
  qed
  then show "mem' a \<noteq> None" "\<And>i. i < height mem' a \<Longrightarrow> forward mem' a i = Some (next_at mem' i cs)" by blast+
qed

end
