(* ===== verification/KR_SkipList_Map.thy ===== *)
theory KR_SkipList_Map
  imports KR_SkipList_Inv "HOL-Library.Product_Lexorder"
begin

text \<open>What the operations do to the entries of a skip list, and to the map they stand for.\<close>

section \<open>The invariant and the search\<close>

definition skip_inv :: "'v T_KRSkipList \<Rightarrow> nat list \<Rightarrow> bool" where
  "skip_inv sl ps \<longleftrightarrow> chained (sl_mem sl) (sl_header sl # ps) \<and> distinct (sl_header sl # ps) \<and>
     height (sl_mem sl) (sl_header sl) = ZSKIPLIST_MAXLEVEL \<and> 1 \<le> sl_level sl \<and> sl_level sl \<le> ZSKIPLIST_MAXLEVEL \<and>
     (\<forall>a \<in> set ps. 1 \<le> height (sl_mem sl) a \<and> height (sl_mem sl) a \<le> sl_level sl \<and> sn_value (the (sl_mem sl a)) \<noteq> None) \<and>
     sl_length sl = word_of_nat (length ps) \<and> (\<forall>a. sl_mem sl a \<noteq> None \<longrightarrow> a < sl_fresh sl)"

definition entry :: "'v skip_mem \<Rightarrow> nat \<Rightarrow> u32 \<times> 'v" where
  "entry mem a = (sn_key (the (mem a)), the (sn_value (the (mem a))))"

lemma height_mem: "0 < height mem a \<Longrightarrow> mem a \<noteq> None"
  by (auto simp: height_def split: option.splits)

lemma skip_inv_node:
  assumes "skip_inv sl ps" and "a \<in> set ps"
  shows "\<exists>n. sl_mem sl a = Some n \<and> sn_key n = fst (entry (sl_mem sl) a) \<and> sn_value n = Some (snd (entry (sl_mem sl) a))"
proof -
  have "0 < height (sl_mem sl) a" "sn_value (the (sl_mem sl a)) \<noteq> None" using assms by (auto simp: skip_inv_def)
  with height_mem [of "sl_mem sl" a] have "sl_mem sl a \<noteq> None" "sn_value (the (sl_mem sl a)) \<noteq> None" by blast+
  then show ?thesis by (auto simp: entry_def)
qed

lemma skip_inv_next0:
  assumes "skip_inv sl ps" and "set ys \<subseteq> set ps"
  shows "next_at (sl_mem sl) 0 ys = (case ys of [] \<Rightarrow> None | y # _ \<Rightarrow> Some y)"
  using assms by (cases ys) (auto simp: skip_inv_def next_at_simps Suc_le_eq)

lemma search_cut:
  assumes "skip_inv sl (xs @ ys)" and "cut before (sl_mem sl) xs ys"
  shows "\<exists>x. search_levels before (sl_mem sl) (sl_level sl) (sl_header sl) =
      Some (x, map (\<lambda>i. last_at (sl_mem sl) i (sl_header sl # xs)) [0..<sl_level sl]) \<and>
    forward (sl_mem sl) x 0 = Some (case ys of [] \<Rightarrow> None | y # _ \<Rightarrow> Some y)"
proof -
  have ch: "chained (sl_mem sl) (sl_header sl # xs @ ys)" and l: "1 \<le> sl_level sl" "sl_level sl \<le> height (sl_mem sl) (sl_header sl)"
    using assms(1) by (simp_all add: skip_inv_def)
  have "search_levels before (sl_mem sl) (sl_level sl) (sl_header sl) =
      Some (last_at (sl_mem sl) 0 (sl_header sl # xs), map (\<lambda>i. last_at (sl_mem sl) i (sl_header sl # xs)) [0..<sl_level sl])"
    using search_levels_last [OF assms(2) ch l(2) _ l(2)] l(1) by simp
  moreover have "forward (sl_mem sl) (last_at (sl_mem sl) 0 (sl_header sl # xs)) 0 = Some (next_at (sl_mem sl) 0 ys)"
    using forward_last [of "sl_mem sl" "sl_header sl # xs" ys "sl_header sl" 0] ch l by simp
  ultimately show ?thesis using skip_inv_next0 [OF assms(1), of ys] by simp
qed

lemma shrink_level_spec:
  assumes "skip_inv sl ps" and "l \<le> ZSKIPLIST_MAXLEVEL" and "1 \<le> l" and "\<And>a. a \<in> set ps \<Longrightarrow> height (sl_mem sl) a \<le> l"
  shows "\<exists>l'. shrink_level (sl_mem sl) (sl_header sl) l = Some l' \<and> 1 \<le> l' \<and> l' \<le> l \<and> (\<forall>a \<in> set ps. height (sl_mem sl) a \<le> l')"
  using assms(2-4)
proof (induction "sl_mem sl" "sl_header sl" l rule: shrink_level.induct)
  case (1 l)
  have "forward (sl_mem sl) (sl_header sl) (Suc l) = Some (next_at (sl_mem sl) (Suc l) ps)"
    using chainedD(2) [of "sl_mem sl" "[]" "sl_header sl" ps "Suc l"] assms(1) 1(2) by (simp add: skip_inv_def)
  then show ?case
  proof (cases "next_at (sl_mem sl) (Suc l) ps")
    case None
    then have "\<And>a. a \<in> set ps \<Longrightarrow> height (sl_mem sl) a \<le> Suc l" by (simp add: next_at_None)
    from 1(1) [OF _ _ _ _ this] \<open>forward _ _ _ = _\<close> None 1(2) show ?thesis by fastforce
  next
    case (Some y)
    with \<open>forward _ _ _ = _\<close> 1 show ?thesis by auto
  qed
qed auto

lemma random_level_bounds: "level \<le> ZSKIPLIST_MAXLEVEL \<Longrightarrow> level \<le> random_level_loop r level \<and> random_level_loop r level \<le> ZSKIPLIST_MAXLEVEL"
proof (induction r level rule: random_level_loop.induct)
  case (1 r level)
  show ?case
  proof (cases "level < ZSKIPLIST_MAXLEVEL \<and> r (level - 1) mod ZSKIPLIST_BRANCHING = 0")
    case True
    then have "random_level_loop r level = random_level_loop r (level + 1)" by (subst random_level_loop.simps) simp
    with 1(1) [OF True] True show ?thesis by simp
  next
    case False
    then have "random_level_loop r level = level" by (subst random_level_loop.simps) (simp only: if_False)
    with 1(2) show ?thesis by simp
  qed
qed

lemma same_nodes_entry: "same_nodes mem mem' \<Longrightarrow> mem a \<noteq> None \<Longrightarrow> entry mem' a = entry mem a"
  by (cases "mem a"; cases "mem' a") (auto simp: same_nodes_def entry_def dest!: spec [of _ a])

lemma same_nodes_value: "same_nodes mem mem' \<Longrightarrow> mem a \<noteq> None \<Longrightarrow> sn_value (the (mem' a)) = sn_value (the (mem a))"
  by (cases "mem a"; cases "mem' a") (auto simp: same_nodes_def dest!: spec [of _ a])

text \<open>A node is put in, taken out, or gets a new value.\<close>

lemma skip_inv_insert:
  assumes inv: "skip_inv sl (xs @ ys)" and r: "1 \<le> level" "level \<le> ZSKIPLIST_MAXLEVEL"
  defines "x \<equiv> sl_fresh sl" and "us \<equiv> map (\<lambda>i. last_at (sl_mem sl) i (sl_header sl # xs)) [0..<sl_level sl] @ replicate (level - sl_level sl) (sl_header sl)"
  shows "\<exists>mem. link_loop x us [0..<level] ((sl_mem sl)(x \<mapsto> kr_skiplist_create_node level key (Some v))) = Some mem \<and>
    skip_inv (sl\<lparr>sl_level := max level (sl_level sl), sl_mem := mem, sl_fresh := x + 1, sl_length := sl_length sl + 1\<rparr>) (xs @ x # ys) \<and>
    map (entry mem) (xs @ x # ys) = map (entry (sl_mem sl)) xs @ (key, v) # map (entry (sl_mem sl)) ys"
proof -
  let ?hd = "sl_header sl" and ?mem = "sl_mem sl" and ?node = "kr_skiplist_create_node level key (Some v)"
  let ?new = "?mem(x \<mapsto> ?node)"
  note i = inv [unfolded skip_inv_def]
  have nodes: "?mem a \<noteq> None" "a \<noteq> x" if "a \<in> set (?hd # xs @ ys)" for a
  proof -
    from i that have "0 < height ?mem a" by (auto simp: ZSKIPLIST_MAXLEVEL_def Suc_le_eq)
    with height_mem show "?mem a \<noteq> None" by metis
    with i show "a \<noteq> x" unfolding x_def by blast
  qed
  have h0: "height ?new a = (if a = x then level else height ?mem a)" for a
    by (simp add: height_def kr_skiplist_create_node_def)
  have last0: "last_at ?new k (?hd # xs) = last_at ?mem k (?hd # xs)" for k
    unfolding last_at_def by (rule arg_cong [where f = last], rule filter_cong) (use nodes(2) in \<open>auto simp: h0\<close>)
  have us: "us ! k = last_at ?new k (?hd # xs)" if "k < level" for k
  proof (cases "k < sl_level sl")
    case False
    have "height ?mem b \<le> k" if "b \<in> set xs" for b
    proof -
      have "height ?mem b \<le> sl_level sl" using i that by simp
      with False show ?thesis by simp
    qed
    then have "filter (\<lambda>b. k < height ?mem b) xs = []" by (auto simp: filter_empty_conv not_less)
    with False that i r show ?thesis unfolding last0 us_def by (simp add: nth_append last_at_def)
  qed (simp add: us_def nth_append last0)
  have ch0: "chained ?new (?hd # xs @ ys)" by (rule chained_cong [of ?mem]) (use i nodes(2) in auto)
  have hd0: "level \<le> height ?new ?hd" using i r nodes(2) [of ?hd] by (simp add: h0)
  have us_ok: "k < height ?new (us ! k) \<and> us ! k \<noteq> x" if "k < level" for k
    using us [OF that] last_at_mem [of ?hd "?hd # xs" k ?new] that hd0 nodes(2) by auto
  obtain mem where l: "link_loop x us [0..<level] ?new = Some mem" and sn: "same_nodes ?new mem" and
    f: "\<And>b j. forward mem b j = (if j < level then if b = x then forward ?new (us ! j) j else if b = us ! j then Some (Some x) else forward ?new b j
       else forward ?new b j)"
  proof -
    have "level \<le> height ?new x" "level \<le> length us" by (simp_all add: h0 us_def)
    from link_loop_spec [of level ?new x us 0, OF this(1) us_ok this(2)] obtain mem where
      "link_loop x us [0..<level] ?new = Some mem \<and> same_nodes ?new mem \<and> (\<forall>b j. forward mem b j =
        (if 0 \<le> j \<and> j < level then if b = x then forward ?new (us ! j) j else if b = us ! j then Some (Some x) else forward ?new b j
         else forward ?new b j))" by blast
    then show thesis by (intro that [of mem]) (simp_all only: le0 simp_thms)
  qed
  have ch: "chained mem (?hd # xs @ x # ys)"
    by (rule chained_link [OF ch0 _ _ _ _ hd0 us sn f]) (use i nodes(2) in \<open>auto simp: h0\<close>)
  have h: "height mem a = (if a = x then level else height ?mem a)" and N: "mem a = None \<longleftrightarrow> ?new a = None" for a
    using sn by (simp_all add: same_nodes_def h0)
  have e: "entry mem a = entry ?mem a" "sn_value (the (mem a)) = sn_value (the (?mem a))" if "a \<in> set (?hd # xs @ ys)" for a
    using same_nodes_entry [OF sn, of a] same_nodes_value [OF sn, of a] nodes [OF that] by (simp_all add: entry_def)
  have ex: "entry mem x = (key, v)" "sn_value (the (mem x)) = Some v"
    using same_nodes_entry [OF sn, of x] same_nodes_value [OF sn, of x] by (simp_all add: entry_def kr_skiplist_create_node_def)
  show ?thesis
  proof (intro exI conjI)
    show "link_loop x us [0..<level] ?new = Some mem" by (rule l)
    have "\<forall>a. mem a \<noteq> None \<longrightarrow> a < x + 1" using i unfolding N x_def by (auto intro: less_SucI)
    moreover have "x \<notin> set (xs @ ys)" "x \<noteq> ?hd" using nodes(2) by auto
    ultimately show "skip_inv (sl\<lparr>sl_level := max level (sl_level sl), sl_mem := mem, sl_fresh := x + 1, sl_length := sl_length sl + 1\<rparr>) (xs @ x # ys)"
      using i ch r e(2) ex(2) by (auto simp: skip_inv_def h le_max_iff_disj)
    show "map (entry mem) (xs @ x # ys) = map (entry ?mem) xs @ (key, v) # map (entry ?mem) ys" using e(1) ex(1) by simp
  qed
qed

lemma skip_inv_delete:
  assumes inv: "skip_inv sl (xs @ x # ys)"
  defines "us \<equiv> map (\<lambda>i. last_at (sl_mem sl) i (sl_header sl # xs)) [0..<sl_level sl]"
  shows "\<exists>mem level. unlink_loop x us [0..<sl_level sl] (sl_mem sl) = Some mem \<and>
    shrink_level (mem(x := None)) (sl_header sl) (sl_level sl) = Some level \<and>
    skip_inv (sl\<lparr>sl_level := level, sl_mem := mem(x := None), sl_length := sl_length sl - 1\<rparr>) (xs @ ys) \<and>
    map (entry (mem(x := None))) (xs @ ys) = map (entry (sl_mem sl)) (xs @ ys)"
proof -
  let ?hd = "sl_header sl" and ?mem = "sl_mem sl" and ?n = "sl_level sl"
  note i = inv [unfolded skip_inv_def]
  have us: "us ! k = last_at ?mem k (?hd # xs)" if "k < ?n" for k using that by (simp add: us_def)
  have us_ok: "k < height ?mem (us ! k) \<and> us ! k \<noteq> x \<and> (forward ?mem (us ! k) k = Some (Some x) \<longrightarrow> k < height ?mem x)" if k: "k < ?n" for k
  proof -
    have hd1: "?hd \<in> set (?hd # xs)" "k < height ?mem ?hd" using i k by auto
    have "forward ?mem (us ! k) k = Some (next_at ?mem k (x # ys))"
      using forward_last [of ?mem "?hd # xs" "x # ys", OF _ hd1] i us [OF k] by simp
    moreover have "next_at ?mem k ys \<noteq> Some x" using next_at_mem [of ?mem k ys x] i by auto
    ultimately have "forward ?mem (us ! k) k = Some (Some x) \<longrightarrow> k < height ?mem x" by (simp add: next_at_Cons)
    moreover have "us ! k \<in> set (?hd # xs)" "k < height ?mem (us ! k)" using last_at_mem [OF hd1] us [OF k] by simp_all
    moreover have "x \<notin> set (?hd # xs)" using i by auto
    ultimately show ?thesis by metis
  qed
  obtain mem where l: "unlink_loop x us [0..<?n] ?mem = Some mem" and sn: "same_nodes ?mem mem" and
    f: "\<And>b j. forward mem b j = (if j < ?n \<and> b = us ! j \<and> forward ?mem b j = Some (Some x) then forward ?mem x j else forward ?mem b j)"
  proof -
    have "?n \<le> length us" by (simp add: us_def)
    from unlink_loop_spec [of ?n ?mem us x 0, OF us_ok this] obtain mem where
      "unlink_loop x us [0..<?n] ?mem = Some mem \<and> same_nodes ?mem mem \<and> (\<forall>b j. forward mem b j =
        (if 0 \<le> j \<and> j < ?n \<and> b = us ! j \<and> forward ?mem b j = Some (Some x) then forward ?mem x j else forward ?mem b j))" by blast
    then show thesis by (intro that [of mem]) (simp_all only: le0 simp_thms)
  qed
  let ?del = "mem(x := None)"
  have "chained mem (?hd # xs @ ys)"
    by (rule chained_unlink [OF _ _ _ _ us sn f]) (use i in auto)
  moreover have nx: "a \<noteq> x" if "a \<in> set (?hd # xs @ ys)" for a using that i by auto
  ultimately have ch: "chained ?del (?hd # xs @ ys)" using chained_cong [of mem "?hd # xs @ ys" ?del] by simp
  have h: "height ?del a = height ?mem a" "entry ?del a = entry ?mem a" "sn_value (the (?del a)) = sn_value (the (?mem a))" if a: "a \<in> set (?hd # xs @ ys)" for a
  proof -
    have "0 < height ?mem a" using a i by (auto simp: ZSKIPLIST_MAXLEVEL_def Suc_le_eq)
    with height_mem have "?mem a \<noteq> None" by metis
    with same_nodes_entry [OF sn] same_nodes_value [OF sn] nx [OF a] sn
    show "height ?del a = height ?mem a" "entry ?del a = entry ?mem a" "sn_value (the (?del a)) = sn_value (the (?mem a))"
      by (simp_all add: entry_def same_nodes_def height_def)
  qed
  have len: "sl_length sl - 1 = word_of_nat (length (xs @ ys))" using i by simp
  have fresh: "\<forall>a. ?del a \<noteq> None \<longrightarrow> a < sl_fresh sl"
  proof -
    have "mem a \<noteq> None \<longleftrightarrow> ?mem a \<noteq> None" for a using sn by (simp add: same_nodes_def)
    with i show ?thesis by simp
  qed
  define sl1 where "sl1 = sl\<lparr>sl_mem := ?del, sl_length := sl_length sl - 1\<rparr>"
  have inv1: "skip_inv sl1 (xs @ ys)"
    unfolding skip_inv_def sl1_def using i ch h len fresh by auto
  have "height ?del a \<le> ?n" if "a \<in> set (xs @ ys)" for a using i h that by auto
  then obtain level where level: "shrink_level ?del ?hd ?n = Some level" "1 \<le> level" "level \<le> ?n" "\<forall>a \<in> set (xs @ ys). height ?del a \<le> level"
    using shrink_level_spec [OF inv1, of ?n] i by (auto simp: sl1_def)
  show ?thesis
  proof (intro exI conjI)
    show "unlink_loop x us [0..<?n] ?mem = Some mem" by (rule l)
    show "shrink_level ?del ?hd ?n = Some level" by (rule level)
    show "skip_inv (sl\<lparr>sl_level := level, sl_mem := ?del, sl_length := sl_length sl - 1\<rparr>) (xs @ ys)"
      using inv1 level(2-4) unfolding skip_inv_def sl1_def by simp
    show "map (entry ?del) (xs @ ys) = map (entry ?mem) (xs @ ys)" using h(2) by auto
  qed
qed

lemma skip_inv_replace:
  fixes v :: 'v
  assumes inv: "skip_inv sl (xs @ x # ys)" and n: "sl_mem sl x = Some n"
  defines "mem \<equiv> (sl_mem sl)(x \<mapsto> n\<lparr>sn_value := Some v\<rparr>)"
  shows "skip_inv (sl\<lparr>sl_mem := mem\<rparr>) (xs @ x # ys)" and "map (entry mem) (xs @ x # ys) = map (entry (sl_mem sl)) xs @ (sn_key n, v) # map (entry (sl_mem sl)) ys"
proof -
  note i = inv [unfolded skip_inv_def]
  have f: "forward mem a k = forward (sl_mem sl) a k" "height mem a = height (sl_mem sl) a" "mem a = None \<longleftrightarrow> sl_mem sl a = None" for a k
    using n by (auto simp: mem_def forward_def height_def)
  then have "next_at mem k cs = next_at (sl_mem sl) k cs" for k cs by (simp add: next_at_def)
  with f i have "chained mem (sl_header sl # xs @ x # ys)" by (simp add: chained_def)
  moreover have v: "sn_value (the (mem a)) = (if a = x then Some v else sn_value (the (sl_mem sl a)))" for a by (simp add: mem_def)
  ultimately show "skip_inv (sl\<lparr>sl_mem := mem\<rparr>) (xs @ x # ys)" using i by (simp add: skip_inv_def f)
  have "x \<notin> set (xs @ ys)" using i by auto
  moreover have "entry mem a = entry (sl_mem sl) a" if "a \<noteq> x" for a using that by (simp add: entry_def mem_def)
  ultimately show "map (entry mem) (xs @ x # ys) = map (entry (sl_mem sl)) xs @ (sn_key n, v) # map (entry (sl_mem sl)) ys"
    by (auto simp: entry_def mem_def)
qed

section \<open>Entries\<close>

locale skip_compare =
  fixes cmp :: "'v compare" and lab :: "'v \<Rightarrow> 'l :: linorder" and valid :: "'v \<Rightarrow> bool"
  assumes cmp_spec: "valid v \<Longrightarrow> valid w \<Longrightarrow> \<exists>c. cmp v w = Some c \<and> (c < 0 \<longleftrightarrow> lab v < lab w) \<and> (c = 0 \<longleftrightarrow> lab v = lab w)"
begin

definition ekey :: "u32 \<times> 'v \<Rightarrow> u32 \<times> 'l" where
  "ekey e = (fst e, lab (snd e))"

definition skip_rep :: "'v T_KRSkipList \<Rightarrow> (u32 \<times> 'v) list \<Rightarrow> bool" where
  "skip_rep sl es \<longleftrightarrow> (\<exists>ps. skip_inv sl ps \<and> map (entry (sl_mem sl)) ps = es) \<and> sorted_wrt (\<lambda>e f. ekey e < ekey f) es \<and> (\<forall>e \<in> set es. valid (snd e))"

lemma entry_before_spec:
  assumes "sn_key n = fst e" and "sn_value n = Some (snd e)" and "valid (snd e)" and "valid v"
  shows "entry_before cmp key v n = Some (ekey e < (key, lab v))"
  using assms cmp_spec [OF assms(3,4)] by (auto simp: entry_before_def ekey_def less_prod_simp)

lemma split_entries:
  assumes "map f ps = es1 @ es2"
  shows "\<exists>xs ys. ps = xs @ ys \<and> map f xs = es1 \<and> map f ys = es2"
  using assms by (metis append_eq_map_conv)

lemma lookup_internal_spec:
  assumes inv: "skip_inv sl (xs @ ys)" and val: "\<forall>a \<in> set (xs @ ys). valid (snd (entry (sl_mem sl) a))" and v: "valid v"
    and xs: "\<forall>a \<in> set xs. ekey (entry (sl_mem sl) a) < (key, lab v)" and ys: "\<forall>a \<in> set ys. \<not> ekey (entry (sl_mem sl) a) < (key, lab v)"
  shows "kr_skiplist_lookup_internal cmp sl key v =
      Some (map (\<lambda>i. last_at (sl_mem sl) i (sl_header sl # xs)) [0..<sl_level sl], case ys of [] \<Rightarrow> None | y # _ \<Rightarrow> Some y)"
proof -
  have "\<exists>n. sl_mem sl a = Some n \<and> entry_before cmp key v n = Some (ekey (entry (sl_mem sl) a) < (key, lab v))" if "a \<in> set (xs @ ys)" for a
    using skip_inv_node [OF inv that] entry_before_spec [of _ "entry (sl_mem sl) a" v key] val v that by auto
  then have "cut (entry_before cmp key v) (sl_mem sl) xs ys" using xs ys by (fastforce simp: cut_def)
  from search_cut [OF inv this] show ?thesis by (auto simp: kr_skiplist_lookup_internal_def)
qed

lemma entry_found_spec:
  assumes inv: "skip_inv sl (xs @ ys)" and val: "\<forall>a \<in> set (xs @ ys). valid (snd (entry (sl_mem sl) a))" and v: "valid v"
  shows "entry_found cmp (sl_mem sl) key v (case ys of [] \<Rightarrow> None | y # _ \<Rightarrow> Some y) =
    Some (case ys of [] \<Rightarrow> None | y # _ \<Rightarrow> if ekey (entry (sl_mem sl) y) = (key, lab v) then Some y else None)"
proof (cases ys)
  case (Cons y ys')
  then have y: "y \<in> set (xs @ ys)" by simp
  from skip_inv_node [OF inv y] cmp_spec [of "snd (entry (sl_mem sl) y)" v] val v y show ?thesis
    by (auto simp: entry_found_def ekey_def Cons)
qed (simp add: entry_found_def)

text \<open>An entry splits a sorted list of entries.\<close>

definition before :: "u32 \<times> 'l \<Rightarrow> (u32 \<times> 'v) list \<Rightarrow> (u32 \<times> 'v) list" where
  "before k es = takeWhile (\<lambda>f. ekey f < k) es"

definition behind :: "u32 \<times> 'l \<Rightarrow> (u32 \<times> 'v) list \<Rightarrow> (u32 \<times> 'v) list" where
  "behind k es = dropWhile (\<lambda>f. ekey f < k) es"

lemma before_behind: "before k es @ behind k es = es"
  by (simp add: before_def behind_def)

lemma before_less: "e \<in> set (before k es) \<Longrightarrow> ekey e < k"
  by (auto simp: before_def dest: set_takeWhileD)

lemma behind_not_less:
  assumes "sorted_wrt (\<lambda>e f. ekey e < ekey f) es" and "e \<in> set (behind k es)"
  shows "\<not> ekey e < k"
  using assms
proof (induction es)
  case (Cons f es)
  then show ?case by (fastforce simp: behind_def split: if_splits)
qed (simp add: behind_def)

text \<open>A search in a list of entries: the nodes before the place and those behind it.\<close>

lemma rep_search:
  assumes rep: "skip_rep sl es" and v: "valid v"
  obtains xs ys where "skip_inv sl (xs @ ys)" and "map (entry (sl_mem sl)) xs = before (key, lab v) es" and "map (entry (sl_mem sl)) ys = behind (key, lab v) es"
    and "kr_skiplist_lookup_internal cmp sl key v = Some (map (\<lambda>i. last_at (sl_mem sl) i (sl_header sl # xs)) [0..<sl_level sl], case ys of [] \<Rightarrow> None | y # _ \<Rightarrow> Some y)"
    and "entry_found cmp (sl_mem sl) key v (case ys of [] \<Rightarrow> None | y # _ \<Rightarrow> Some y) =
      Some (case ys of [] \<Rightarrow> None | y # _ \<Rightarrow> if ekey (entry (sl_mem sl) y) = (key, lab v) then Some y else None)"
proof -
  from rep obtain ps where ps: "skip_inv sl ps" "map (entry (sl_mem sl)) ps = es" and
    s: "sorted_wrt (\<lambda>e f. ekey e < ekey f) es" "\<forall>e \<in> set es. valid (snd e)" by (auto simp: skip_rep_def)
  have "map (entry (sl_mem sl)) ps = before (key, lab v) es @ behind (key, lab v) es" by (simp only: ps(2) before_behind)
  from split_entries [OF this] obtain xs ys where e: "ps = xs @ ys" "map (entry (sl_mem sl)) xs = before (key, lab v) es"
    "map (entry (sl_mem sl)) ys = behind (key, lab v) es" by blast
  have val: "\<forall>a \<in> set (xs @ ys). valid (snd (entry (sl_mem sl) a))" using s(2) ps(2) e(1) by auto
  have xs: "\<forall>a \<in> set xs. ekey (entry (sl_mem sl) a) < (key, lab v)" using before_less [of _ "(key, lab v)" es] unfolding e(2) [symmetric] by simp
  have ys: "\<forall>a \<in> set ys. \<not> ekey (entry (sl_mem sl) a) < (key, lab v)" using behind_not_less [OF s(1), of _ "(key, lab v)"] unfolding e(3) [symmetric] by simp
  note inv = ps(1) [unfolded e(1)]
  show thesis by (rule that [OF inv e(2,3) lookup_internal_spec [OF inv val v xs ys] entry_found_spec [OF inv val v]])
qed

text \<open>The operations on lists of entries.\<close>

definition others :: "u32 \<times> 'l \<Rightarrow> (u32 \<times> 'v) list \<Rightarrow> (u32 \<times> 'v) list" where
  "others k es = (case behind k es of [] \<Rightarrow> [] | f # fs \<Rightarrow> if ekey f = k then fs else f # fs)"

definition ins_entry :: "u32 \<times> 'v \<Rightarrow> (u32 \<times> 'v) list \<Rightarrow> (u32 \<times> 'v) list" where
  "ins_entry e es = before (ekey e) es @ e # others (ekey e) es"

definition del_entry :: "u32 \<times> 'l \<Rightarrow> (u32 \<times> 'v) list \<Rightarrow> (u32 \<times> 'v) list" where
  "del_entry k es = before k es @ others k es"

definition get_entry :: "u32 \<times> 'l \<Rightarrow> (u32 \<times> 'v) list \<Rightarrow> 'v option" where
  "get_entry k es = (case behind k es of [] \<Rightarrow> None | f # _ \<Rightarrow> if ekey f = k then Some (snd f) else None)"

abbreviation esorted :: "(u32 \<times> 'v) list \<Rightarrow> bool" where
  "esorted es \<equiv> sorted_wrt (\<lambda>e f. ekey e < ekey f) es"

lemma others_behind: "e \<in> set (others k es) \<Longrightarrow> e \<in> set (behind k es)"
  by (cases "behind k es") (auto simp: others_def split: if_splits)

lemma parts_sorted:
  assumes "esorted es"
  shows "esorted (before k es)" and "esorted (others k es)" and "e \<in> set (before k es) \<Longrightarrow> ekey e < k" and "e \<in> set (others k es) \<Longrightarrow> k < ekey e"
    and "set (before k es) \<union> set (others k es) \<subseteq> set es"
proof -
  have s: "esorted (before k es @ behind k es)" using assms by (simp add: before_behind)
  then show "esorted (before k es)" by (simp add: sorted_wrt_append)
  from s show "esorted (others k es)" by (auto simp: others_def sorted_wrt_append split: list.split)
  show "e \<in> set (before k es) \<Longrightarrow> ekey e < k" by (rule before_less)
  show "k < ekey e" if e: "e \<in> set (others k es)"
  proof -
    have "e \<in> set (behind k es)" by (rule others_behind [OF e])
    from behind_not_less [OF assms this] have "k \<le> ekey e" by simp
    moreover have "ekey e \<noteq> k"
    proof
      assume k: "ekey e = k"
      obtain f fs where b: "behind k es = f # fs" using e by (cases "behind k es") (simp_all add: others_def)
      have "\<not> ekey f < k" using behind_not_less [OF assms, of f k] b by simp
      with k e b s show False by (auto simp: others_def sorted_wrt_append split: if_splits)
    qed
    ultimately show ?thesis by simp
  qed
  have "set (others k es) \<subseteq> set (behind k es)" using others_behind by blast
  moreover have "set (before k es @ behind k es) = set es" by (simp only: before_behind)
  ultimately show "set (before k es) \<union> set (others k es) \<subseteq> set es" by auto
qed

lemma parts_apart:
  assumes "esorted es" and "a \<in> set (before k es)" and "b \<in> set (others k es)"
  shows "ekey a < ekey b"
  using parts_sorted(3) [OF assms(1,2)] parts_sorted(4) [OF assms(1,3)] by (rule less_trans)

lemma ins_sorted: "esorted es \<Longrightarrow> esorted (ins_entry e es)"
  using parts_sorted(1,2) [of es "ekey e"] parts_sorted(3) [of es _ "ekey e"] parts_sorted(4) [of es _ "ekey e"] parts_apart [of es _ "ekey e"] by (auto simp: ins_entry_def sorted_wrt_append)

lemma del_sorted: "esorted es \<Longrightarrow> esorted (del_entry k es)"
  using parts_sorted(1,2) [of es k] parts_apart [of es _ k] by (auto simp: del_entry_def sorted_wrt_append)

lemma insert_entry:
  assumes rep: "skip_rep sl es" and v: "valid v"
  shows "\<exists>sl' x. kr_skiplist_insert cmp r sl key v = Some (sl', x) \<and> skip_rep sl' (ins_entry (key, v) es)"
proof -
  let ?k = "(key, lab v)"
  from rep_search [OF rep v, of key] obtain xs ys where inv: "skip_inv sl (xs @ ys)" and xs: "map (entry (sl_mem sl)) xs = before ?k es"
    and ys: "map (entry (sl_mem sl)) ys = behind ?k es"
    and l: "kr_skiplist_lookup_internal cmp sl key v = Some (map (\<lambda>i. last_at (sl_mem sl) i (sl_header sl # xs)) [0..<sl_level sl], case ys of [] \<Rightarrow> None | y # _ \<Rightarrow> Some y)"
    and fd: "entry_found cmp (sl_mem sl) key v (case ys of [] \<Rightarrow> None | y # _ \<Rightarrow> Some y) =
      Some (case ys of [] \<Rightarrow> None | y # _ \<Rightarrow> if ekey (entry (sl_mem sl) y) = ?k then Some y else None)" by blast
  have ek: "ekey (key, v) = ?k" by (simp add: ekey_def)
  have s: "esorted (ins_entry (key, v) es)" "\<forall>e \<in> set (ins_entry (key, v) es). valid (snd e)"
    using rep v parts_sorted(5) [of es ?k] by (auto simp: skip_rep_def ins_entry_def ek intro!: ins_sorted [unfolded ins_entry_def, of _ "(key, v)", unfolded ek])
  show ?thesis
  proof (cases "\<exists>y ys'. ys = y # ys' \<and> ekey (entry (sl_mem sl) y) = ?k")
    case True
    then obtain y ys' where y: "ys = y # ys'" "ekey (entry (sl_mem sl) y) = ?k" by blast
    obtain n where n: "sl_mem sl y = Some n" "sn_key n = fst (entry (sl_mem sl) y)" using skip_inv_node [OF inv, of y] y(1) by auto
    with y(2) have "sn_key n = key" by (simp add: ekey_def)
    with skip_inv_replace [OF inv [unfolded y(1)] n(1), of v] have
      i: "skip_inv (sl\<lparr>sl_mem := (sl_mem sl)(y \<mapsto> n\<lparr>sn_value := Some v\<rparr>)\<rparr>) (xs @ y # ys')" and
      e: "map (entry ((sl_mem sl)(y \<mapsto> n\<lparr>sn_value := Some v\<rparr>))) (xs @ y # ys') = map (entry (sl_mem sl)) xs @ (key, v) # map (entry (sl_mem sl)) ys'" by simp_all
    have b: "behind ?k es = entry (sl_mem sl) y # map (entry (sl_mem sl)) ys'" using ys y(1) by simp
    have "map (entry ((sl_mem sl)(y \<mapsto> n\<lparr>sn_value := Some v\<rparr>))) (xs @ y # ys') = ins_entry (key, v) es"
      unfolding e xs by (simp add: ins_entry_def others_def ek b y(2))
    with i s have "skip_rep (sl\<lparr>sl_mem := (sl_mem sl)(y \<mapsto> n\<lparr>sn_value := Some v\<rparr>)\<rparr>) (ins_entry (key, v) es)"
      unfolding skip_rep_def by (intro conjI exI [of _ "xs @ y # ys'"]) simp_all
    with l fd y n(1) show ?thesis by (simp add: kr_skiplist_insert_def)
  next
    case False
    have nf: "(case ys of [] \<Rightarrow> None | y # _ \<Rightarrow> if ekey (entry (sl_mem sl) y) = ?k then Some y else None) = None" using False by (auto split: list.split)
    let ?level = "kr_skiplist_random_level r"
    have "1 \<le> ?level" "?level \<le> ZSKIPLIST_MAXLEVEL"
      using random_level_bounds [of 1 r] by (simp_all add: kr_skiplist_random_level_def ZSKIPLIST_MAXLEVEL_def)
    from skip_inv_insert [OF inv this, of key v] obtain mem where mem:
      "link_loop (sl_fresh sl) (map (\<lambda>i. last_at (sl_mem sl) i (sl_header sl # xs)) [0..<sl_level sl] @ replicate (?level - sl_level sl) (sl_header sl)) [0..<?level]
        ((sl_mem sl)(sl_fresh sl \<mapsto> kr_skiplist_create_node ?level key (Some v))) = Some mem"
      "skip_inv (sl\<lparr>sl_level := max ?level (sl_level sl), sl_mem := mem, sl_fresh := sl_fresh sl + 1, sl_length := sl_length sl + 1\<rparr>) (xs @ sl_fresh sl # ys)"
      "map (entry mem) (xs @ sl_fresh sl # ys) = map (entry (sl_mem sl)) xs @ (key, v) # map (entry (sl_mem sl)) ys" by blast
    have "others ?k es = behind ?k es" using False unfolding others_def ys [symmetric] by (auto split: list.split)
    then have "map (entry mem) (xs @ sl_fresh sl # ys) = ins_entry (key, v) es" unfolding mem(3) xs ys by (simp add: ins_entry_def ek)
    with mem(2) s have "skip_rep (sl\<lparr>sl_level := max ?level (sl_level sl), sl_mem := mem, sl_fresh := sl_fresh sl + 1, sl_length := sl_length sl + 1\<rparr>) (ins_entry (key, v) es)"
      unfolding skip_rep_def by (intro conjI exI [of _ "xs @ sl_fresh sl # ys"]) simp_all
    moreover have "kr_skiplist_insert cmp r sl key v =
        Some (sl\<lparr>sl_level := max ?level (sl_level sl), sl_mem := mem, sl_fresh := sl_fresh sl + 1, sl_length := sl_length sl + 1\<rparr>, sl_fresh sl)"
      using l fd mem(1) unfolding nf by (simp add: kr_skiplist_insert_def Let_def)
    ultimately show ?thesis by blast
  qed
qed

lemma delete_entry:
  assumes rep: "skip_rep sl es" and v: "valid v"
  shows "\<exists>sl'. kr_skiplist_delete cmp sl key v = Some (sl', if get_entry (key, lab v) es = None then - 1 else 0) \<and> skip_rep sl' (del_entry (key, lab v) es)"
proof -
  let ?k = "(key, lab v)"
  from rep_search [OF rep v, of key] obtain xs ys where inv: "skip_inv sl (xs @ ys)" and xs: "map (entry (sl_mem sl)) xs = before ?k es"
    and ys: "map (entry (sl_mem sl)) ys = behind ?k es"
    and l: "kr_skiplist_lookup_internal cmp sl key v = Some (map (\<lambda>i. last_at (sl_mem sl) i (sl_header sl # xs)) [0..<sl_level sl], case ys of [] \<Rightarrow> None | y # _ \<Rightarrow> Some y)"
    and fd: "entry_found cmp (sl_mem sl) key v (case ys of [] \<Rightarrow> None | y # _ \<Rightarrow> Some y) =
      Some (case ys of [] \<Rightarrow> None | y # _ \<Rightarrow> if ekey (entry (sl_mem sl) y) = ?k then Some y else None)" by blast
  have s: "esorted (del_entry ?k es)" "\<forall>e \<in> set (del_entry ?k es). valid (snd e)"
    using rep parts_sorted(5) [of es ?k] del_sorted [of es ?k] by (auto simp: skip_rep_def del_entry_def)
  show ?thesis
  proof (cases "\<exists>y ys'. ys = y # ys' \<and> ekey (entry (sl_mem sl) y) = ?k")
    case True
    then obtain y ys' where y: "ys = y # ys'" "ekey (entry (sl_mem sl) y) = ?k" by blast
    have b: "behind ?k es = entry (sl_mem sl) y # map (entry (sl_mem sl)) ys'" using ys y(1) by simp
    from skip_inv_delete [OF inv [unfolded y(1)]] obtain mem level where m:
      "unlink_loop y (map (\<lambda>i. last_at (sl_mem sl) i (sl_header sl # xs)) [0..<sl_level sl]) [0..<sl_level sl] (sl_mem sl) = Some mem"
      "shrink_level (mem(y := None)) (sl_header sl) (sl_level sl) = Some level"
      "skip_inv (sl\<lparr>sl_level := level, sl_mem := mem(y := None), sl_length := sl_length sl - 1\<rparr>) (xs @ ys')"
      "map (entry (mem(y := None))) (xs @ ys') = map (entry (sl_mem sl)) (xs @ ys')" by blast
    have "map (entry (mem(y := None))) (xs @ ys') = del_entry ?k es"
      using m(4) xs by (simp only: map_append del_entry_def others_def b y(2) list.case if_True simp_thms)
    with m(3) s have "skip_rep (sl\<lparr>sl_level := level, sl_mem := mem(y := None), sl_length := sl_length sl - 1\<rparr>) (del_entry ?k es)"
      unfolding skip_rep_def by (intro conjI exI [of _ "xs @ ys'"]) simp_all
    moreover have "get_entry ?k es \<noteq> None" by (simp add: get_entry_def b y(2))
    ultimately show ?thesis using l fd y m(1,2) by (simp add: kr_skiplist_delete_def Let_def)
  next
    case False
    have nf: "(case ys of [] \<Rightarrow> None | y # _ \<Rightarrow> if ekey (entry (sl_mem sl) y) = ?k then Some y else None) = None" using False by (auto split: list.split)
    have "del_entry ?k es = before ?k es @ behind ?k es" using False unfolding del_entry_def others_def ys [symmetric] by (auto split: list.split)
    then have "del_entry ?k es = es" by (simp add: before_behind)
    moreover have "get_entry ?k es = None" using False unfolding get_entry_def ys [symmetric] by (auto split: list.split)
    moreover have "kr_skiplist_delete cmp sl key v = Some (sl, - 1)" using l fd unfolding nf by (simp add: kr_skiplist_delete_def)
    ultimately show ?thesis using rep by simp
  qed
qed

lemma lookup_entry:
  assumes rep: "skip_rep sl es" and v: "valid v"
  shows "kr_skiplist_lookup cmp sl key v = Some (get_entry (key, lab v) es)"
proof -
  let ?k = "(key, lab v)"
  from rep_search [OF rep v, of key] obtain xs ys where inv: "skip_inv sl (xs @ ys)" and ys: "map (entry (sl_mem sl)) ys = behind ?k es"
    and l: "kr_skiplist_lookup_internal cmp sl key v = Some (map (\<lambda>i. last_at (sl_mem sl) i (sl_header sl # xs)) [0..<sl_level sl], case ys of [] \<Rightarrow> None | y # _ \<Rightarrow> Some y)"
    and fd: "entry_found cmp (sl_mem sl) key v (case ys of [] \<Rightarrow> None | y # _ \<Rightarrow> Some y) =
      Some (case ys of [] \<Rightarrow> None | y # _ \<Rightarrow> if ekey (entry (sl_mem sl) y) = ?k then Some y else None)" by blast
  show ?thesis
  proof (cases ys)
    case (Cons y ys')
    with skip_inv_node [OF inv, of y] obtain n where "sl_mem sl y = Some n" "sn_value n = Some (snd (entry (sl_mem sl) y))" by auto
    with l fd Cons ys show ?thesis by (auto simp: kr_skiplist_lookup_def get_entry_def simp flip: ys)
  qed (use l fd ys in \<open>simp add: kr_skiplist_lookup_def get_entry_def\<close>)
qed

lemma foreach_chain:
  assumes "skip_inv sl (xs @ ys)"
  shows "foreach_loop (sl_mem sl) (case ys of [] \<Rightarrow> None | y # _ \<Rightarrow> Some y) = Some (map (\<lambda>a. snd (entry (sl_mem sl) a)) ys)"
  using assms
proof (induction ys arbitrary: xs)
  case Nil
  show ?case by (subst foreach_loop.simps) simp
next
  case (Cons y ys)
  from skip_inv_node [OF Cons.prems, of y] obtain n where n: "sl_mem sl y = Some n" "sn_value n = Some (snd (entry (sl_mem sl) y))" by auto
  have "forward (sl_mem sl) y 0 = Some (next_at (sl_mem sl) 0 ys)"
    using chainedD(2) [of "sl_mem sl" "sl_header sl # xs" y ys 0] Cons.prems by (auto simp: skip_inv_def)
  then have f: "forward (sl_mem sl) y 0 = Some (case ys of [] \<Rightarrow> None | y # _ \<Rightarrow> Some y)"
    using skip_inv_next0 [OF Cons.prems, of ys] by auto
  from Cons.IH [of "xs @ [y]"] Cons.prems have "foreach_loop (sl_mem sl) (case ys of [] \<Rightarrow> None | y # _ \<Rightarrow> Some y) = Some (map (\<lambda>a. snd (entry (sl_mem sl) a)) ys)" by simp
  with n f show ?case by (subst foreach_loop.simps) simp
qed

lemma header_next:
  assumes "skip_inv sl ps"
  shows "forward (sl_mem sl) (sl_header sl) 0 = Some (case ps of [] \<Rightarrow> None | y # _ \<Rightarrow> Some y)"
proof -
  have "forward (sl_mem sl) (sl_header sl) 0 = Some (next_at (sl_mem sl) 0 ps)"
    using chainedD(2) [of "sl_mem sl" "[]" "sl_header sl" ps 0] assms by (simp add: skip_inv_def ZSKIPLIST_MAXLEVEL_def)
  with skip_inv_next0 [OF assms, of ps] show ?thesis by simp
qed

lemma foreach_entries:
  assumes "skip_rep sl es"
  shows "kr_skiplist_foreach sl = Some (map snd es)"
proof -
  from assms obtain ps where ps: "skip_inv sl ps" "map (entry (sl_mem sl)) ps = es" by (auto simp: skip_rep_def)
  have "map (\<lambda>a. snd (entry (sl_mem sl) a)) ps = map snd es" by (simp add: comp_def flip: ps(2))
  with foreach_chain [of sl "[]" ps] header_next [OF ps(1)] ps(1) show ?thesis by (simp add: kr_skiplist_foreach_def)
qed

text \<open>The entry found by \<open>kr_skiplist_lookup_cycle\<close>.\<close>

definition cycle_entry :: "u32 \<Rightarrow> (u32 \<times> 'v) list \<Rightarrow> 'v option" where
  "cycle_entry key es = (case dropWhile (\<lambda>e. fst e < key) es of f # _ \<Rightarrow> Some (snd f) | [] \<Rightarrow> (case es of [] \<Rightarrow> None | f # _ \<Rightarrow> Some (snd f)))"

lemma drop_keys:
  assumes "esorted es" and "e \<in> set (dropWhile (\<lambda>e. fst e < key) es)"
  shows "\<not> fst e < key"
  using assms
proof (induction es)
  case (Cons f es)
  show ?case
  proof (cases "fst f < key")
    case False
    have "e = f \<or> ekey f < ekey e" using Cons.prems False by auto
    then have "fst f \<le> fst e" by (auto simp: ekey_def less_prod_simp)
    with False show ?thesis by simp
  qed (use Cons in auto)
qed simp

lemma lookup_cycle_entry:
  assumes rep: "skip_rep sl es"
  shows "kr_skiplist_lookup_cycle sl key = Some (cycle_entry key es)"
proof -
  from rep obtain ps where ps: "skip_inv sl ps" "map (entry (sl_mem sl)) ps = es" and s: "esorted es" by (auto simp: skip_rep_def)
  let ?B = "\<lambda>e :: u32 \<times> 'v. fst e < key"
  have "map (entry (sl_mem sl)) ps = takeWhile ?B es @ dropWhile ?B es" by (simp add: ps(2))
  from split_entries [OF this] obtain xs ys where e: "ps = xs @ ys" "map (entry (sl_mem sl)) xs = takeWhile ?B es"
    "map (entry (sl_mem sl)) ys = dropWhile ?B es" by blast
  note inv = ps(1) [unfolded e(1)]
  have xs: "\<forall>a \<in> set xs. fst (entry (sl_mem sl) a) < key" using set_takeWhileD [of _ ?B es] unfolding e(2) [symmetric] by auto
  have ys: "\<forall>a \<in> set ys. \<not> fst (entry (sl_mem sl) a) < key" using drop_keys [OF s, of _ key] unfolding e(3) [symmetric] by auto
  have "\<exists>n. sl_mem sl a = Some n \<and> sn_key n = fst (entry (sl_mem sl) a)" if "a \<in> set (xs @ ys)" for a
    using skip_inv_node [OF inv that] by auto
  then have "cut (\<lambda>n. Some (sn_key n < key)) (sl_mem sl) xs ys" using xs ys by (fastforce simp: cut_def)
  from search_cut [OF inv this] obtain x where x: "search_levels (\<lambda>n. Some (sn_key n < key)) (sl_mem sl) (sl_level sl) (sl_header sl) =
      Some (x, map (\<lambda>i. last_at (sl_mem sl) i (sl_header sl # xs)) [0..<sl_level sl])" "forward (sl_mem sl) x 0 = Some (case ys of [] \<Rightarrow> None | y # _ \<Rightarrow> Some y)" by blast
  have v: "\<exists>n. sl_mem sl a = Some n \<and> sn_value n = Some (snd (entry (sl_mem sl) a))" if "a \<in> set (xs @ ys)" for a
    using skip_inv_node [OF inv that] by auto
  show ?thesis
  proof (cases ys)
    case (Cons y ys')
    have "dropWhile ?B es = entry (sl_mem sl) y # map (entry (sl_mem sl)) ys'" using e(3) Cons by simp
    with x v [of y] Cons show ?thesis by (auto simp: kr_skiplist_lookup_cycle_def cycle_entry_def)
  next
    case Nil
    have d: "dropWhile ?B es = []" using e(3) Nil by simp
    have h: "forward (sl_mem sl) (sl_header sl) 0 = Some (case xs of [] \<Rightarrow> None | y # _ \<Rightarrow> Some y)" using header_next [OF inv] Nil by simp
    show ?thesis
    proof (cases xs)
      case (Cons z xs')
      have "es = entry (sl_mem sl) z # map (entry (sl_mem sl)) xs'" using ps(2) e(1) Nil Cons by simp
      with x v [of z] Nil Cons h d show ?thesis by (auto simp: kr_skiplist_lookup_cycle_def cycle_entry_def)
    next
      case n: Nil
      have "es = []" using ps(2) e(1) Nil n by simp
      with x Nil n h show ?thesis by (simp add: kr_skiplist_lookup_cycle_def cycle_entry_def)
    qed
  qed
qed

lemma create_rep: "skip_rep kr_skiplist_create []"
proof -
  have "chained (sl_mem kr_skiplist_create) [sl_header (kr_skiplist_create :: 'v T_KRSkipList)]"
    by (auto simp: chained_def kr_skiplist_create_def kr_skiplist_create_node_def forward_def height_def next_at_Nil Cons_eq_append_conv)
  then have "skip_inv (kr_skiplist_create :: 'v T_KRSkipList) []"
    by (simp add: skip_inv_def kr_skiplist_create_def kr_skiplist_create_node_def height_def ZSKIPLIST_MAXLEVEL_def)
  then show ?thesis by (auto simp: skip_rep_def)
qed

section \<open>The map of the entries\<close>

definition emap :: "(u32 \<times> 'v) list \<Rightarrow> u32 \<times> 'l \<Rightarrow> 'v option" where
  "emap es = map_of (map (\<lambda>e. (ekey e, snd e)) es)"

lemma emap_simps: "emap [] k = None" "emap (e # es) k = (if ekey e = k then Some (snd e) else emap es k)"
  "emap (es @ fs) k = (case emap es k of None \<Rightarrow> emap fs k | Some v \<Rightarrow> Some v)"
  by (auto simp: emap_def map_add_def split: option.split)

lemma dom_emap: "dom (emap es) = ekey ` set es"
  by (simp add: emap_def dom_map_of_conv_image_fst image_image)

lemma emap_None: "emap es k = None \<longleftrightarrow> k \<notin> ekey ` set es"
  by (metis dom_emap domIff)

lemma emap_parts:
  assumes "esorted es"
  shows "emap es k' = (case emap (before k es) k' of Some v \<Rightarrow> Some v | None \<Rightarrow> if k' = k then get_entry k es else emap (others k es) k')"
    and "emap (before k es) k = None" and "emap (others k es) k = None"
proof -
  show n: "emap (before k es) k = None" "emap (others k es) k = None"
    using parts_sorted(3) [OF assms, of _ k] parts_sorted(4) [OF assms, of _ k] by (auto simp: emap_None)
  have "emap es k' = emap (before k es @ behind k es) k'" by (simp add: before_behind)
  with n show "emap es k' = (case emap (before k es) k' of Some v \<Rightarrow> Some v | None \<Rightarrow> if k' = k then get_entry k es else emap (others k es) k')"
    by (cases "behind k es") (auto simp: emap_simps others_def get_entry_def split: option.split if_splits)
qed

lemma emap_ins: "esorted es \<Longrightarrow> emap (ins_entry e es) = (emap es)(ekey e \<mapsto> snd e)"
  using emap_parts(1) [of es _ "ekey e"] emap_parts(2,3) [of es "ekey e"] by (auto simp: ins_entry_def emap_simps split: option.split)

lemma emap_del: "esorted es \<Longrightarrow> emap (del_entry k es) = (emap es)(k := None)"
  using emap_parts(1) [of es _ k] emap_parts(2,3) [of es k] by (auto simp: del_entry_def emap_simps split: option.split)

lemma emap_get: "esorted es \<Longrightarrow> get_entry k es = emap es k"
  using emap_parts(1) [of es k k] emap_parts(2) [of es k] by simp

lemma emap_Cons_sorted:
  assumes "esorted (e # es)" and "f \<in> set es"
  shows "emap (e # es) (ekey f) = emap es (ekey f)"
  using assms by (auto simp: emap_simps)

lemma emap_values:
  assumes "esorted es"
  shows "map snd es = map (\<lambda>k. the (emap es k)) (sorted_list_of_set (dom (emap es)))"
proof -
  have "sorted_wrt (<) (map ekey es)" using assms by (simp add: sorted_wrt_map)
  then have "sorted_list_of_set (set (map ekey es)) = map ekey es"
    by (simp only: strict_sorted_iff sorted_list_of_set.idem_if_sorted_distinct)
  then have "sorted_list_of_set (dom (emap es)) = map ekey es" by (simp add: dom_emap)
  moreover have "map snd es = map (\<lambda>k. the (emap es k)) (map ekey es)" using assms
  proof (induction es)
    case (Cons e es)
    then have "map (\<lambda>k. the (emap (e # es) k)) (map ekey es) = map (\<lambda>k. the (emap es k)) (map ekey es)"
      using emap_Cons_sorted [OF Cons.prems] by simp
    with Cons show ?case by (simp add: emap_simps)
  qed simp
  ultimately show ?thesis by simp
qed

definition cycle_map :: "u32 \<Rightarrow> (u32 \<times> 'l \<Rightarrow> 'v option) \<Rightarrow> 'v option" where
  "cycle_map key m = (let D = {k \<in> dom m. key \<le> fst k} in if D \<noteq> {} then m (Min D) else if dom m \<noteq> {} then m (Min (dom m)) else None)"

lemma emap_first:
  assumes "esorted (es @ f # fs)" and "ekey ` set (f # fs) = D"
  shows "emap (es @ f # fs) (Min D) = Some (snd f)"
proof -
  have "Min D = ekey f" unfolding assms(2) [symmetric] using assms(1) by (intro Min_eqI) (auto simp: sorted_wrt_append intro: less_imp_le)
  moreover have "emap es (ekey f) = None" using assms(1) by (fastforce simp: emap_None sorted_wrt_append)
  ultimately show ?thesis by (simp add: emap_simps)
qed

lemma emap_cycle:
  assumes "esorted es"
  shows "cycle_entry key es = cycle_map key (emap es)"
proof -
  let ?B = "\<lambda>e :: u32 \<times> 'v. fst e < key"
  have split: "takeWhile ?B es @ dropWhile ?B es = es" by simp
  have D: "{k \<in> dom (emap es). key \<le> fst k} = ekey ` set (dropWhile ?B es)"
  proof -
    have "ekey ` set es = ekey ` set (takeWhile ?B es) \<union> ekey ` set (dropWhile ?B es)" using arg_cong [OF split, of set] by (metis image_Un set_append)
    moreover have "\<forall>k \<in> ekey ` set (takeWhile ?B es). \<not> key \<le> fst k"
    proof (intro ballI)
      fix k assume "k \<in> ekey ` set (takeWhile ?B es)"
      then obtain e where "k = ekey e" "e \<in> set (takeWhile ?B es)" by (rule imageE)
      with set_takeWhileD [of e ?B es] show "\<not> key \<le> fst k" by (simp add: ekey_def not_le)
    qed
    moreover have "\<forall>k \<in> ekey ` set (dropWhile ?B es). key \<le> fst k"
    proof (intro ballI)
      fix k assume "k \<in> ekey ` set (dropWhile ?B es)"
      then obtain e where "k = ekey e" "e \<in> set (dropWhile ?B es)" by (rule imageE)
      with drop_keys [OF assms, of e key] show "key \<le> fst k" by (simp add: ekey_def not_less)
    qed
    ultimately show ?thesis unfolding dom_emap by blast
  qed
  show ?thesis
  proof (cases "dropWhile ?B es")
    case (Cons f fs)
    with split have s: "es = takeWhile ?B es @ f # fs" by simp
    have "emap es (Min (ekey ` set (f # fs))) = Some (snd f)" using emap_first [of "takeWhile ?B es" f fs] assms s by metis
    with Cons D show ?thesis by (simp add: cycle_entry_def cycle_map_def)
  next
    case Nil
    show ?thesis
    proof (cases es)
      case (Cons f fs)
      have "emap es (Min (ekey ` set (f # fs))) = Some (snd f)" using emap_first [of "[]" f fs] assms Cons by simp
      with Nil D Cons show ?thesis by (simp add: cycle_entry_def cycle_map_def dom_emap)
    qed (simp add: cycle_entry_def cycle_map_def dom_emap)
  qed
qed

text \<open>A skip list that stands for a map.\<close>

definition skip_map :: "'v T_KRSkipList \<Rightarrow> (u32 \<times> 'l \<Rightarrow> 'v option) \<Rightarrow> bool" where
  "skip_map sl m \<longleftrightarrow> (\<exists>es. skip_rep sl es \<and> m = emap es)"

lemma rep_sorted: "skip_rep sl es \<Longrightarrow> esorted es"
  by (simp add: skip_rep_def)

lemma map_create: "skip_map kr_skiplist_create Map.empty"
  unfolding skip_map_def using create_rep by (intro exI [of _ "[]"]) (auto simp: emap_def)

lemma map_insert: "skip_map sl m \<Longrightarrow> valid v \<Longrightarrow>
    \<exists>sl' x. kr_skiplist_insert cmp r sl key v = Some (sl', x) \<and> skip_map sl' (m((key, lab v) \<mapsto> v))"
  unfolding skip_map_def using insert_entry [of sl _ v r key] emap_ins [OF rep_sorted, of sl _ "(key, v)"] by (fastforce simp: ekey_def)

lemma map_delete: "skip_map sl m \<Longrightarrow> valid v \<Longrightarrow>
    \<exists>sl'. kr_skiplist_delete cmp sl key v = Some (sl', if m (key, lab v) = None then - 1 else 0) \<and> skip_map sl' (m((key, lab v) := None))"
  unfolding skip_map_def using delete_entry [of sl _ v key] emap_del [OF rep_sorted, of sl _ "(key, lab v)"] emap_get [OF rep_sorted, of sl] by metis

lemma map_lookup: "skip_map sl m \<Longrightarrow> valid v \<Longrightarrow> kr_skiplist_lookup cmp sl key v = Some (m (key, lab v))"
  unfolding skip_map_def using lookup_entry emap_get [OF rep_sorted] by metis

lemma map_foreach: "skip_map sl m \<Longrightarrow> kr_skiplist_foreach sl = Some (map (\<lambda>k. the (m k)) (sorted_list_of_set (dom m)))"
  unfolding skip_map_def using foreach_entries emap_values [OF rep_sorted] by metis

lemma map_lookup_cycle: "skip_map sl m \<Longrightarrow> kr_skiplist_lookup_cycle sl key = Some (cycle_map key m)"
  unfolding skip_map_def using lookup_cycle_entry emap_cycle [OF rep_sorted] by metis

lemma map_finite: "skip_map sl m \<Longrightarrow> finite (dom m) \<and> sl_length sl = word_of_nat (card (dom m)) \<and> (\<forall>k v. m k = Some v \<longrightarrow> valid v \<and> lab v = snd k)"
proof (unfold skip_map_def, elim exE conjE)
  fix es assume r: "skip_rep sl es" and m: "m = emap es"
  have "inj_on ekey (set es)" "distinct es" using rep_sorted [OF r]
    by (induction es) (fastforce simp: inj_on_def)+
  then have "card (dom m) = length es" by (simp add: m dom_emap card_image distinct_card)
  moreover from r have "sl_length sl = word_of_nat (length es)" by (auto simp: skip_rep_def skip_inv_def)
  moreover have "valid v \<and> lab v = snd k" if "m k = Some v" for k v
    using that r map_of_SomeD [of "map (\<lambda>e. (ekey e, snd e)) es" k v] by (auto simp: m emap_def skip_rep_def ekey_def)
  ultimately show ?thesis by (auto simp: m dom_emap)
qed

end

end
