(* ===== verification/KR_ConHash_Ring.thy ===== *)
theory KR_ConHash_Ring
  imports KR_ConHash KR_SkipList_Map "HOL-Library.List_Lexorder" "HOL-Library.Char_ord"
begin

text \<open>The two skip lists of a ring as maps, and what the operations of \<open>kr_conhash.c\<close> do to them.\<close>

section \<open>Identifiers\<close>

lemma c_strcmp_less: "c_string s \<Longrightarrow> c_string t \<Longrightarrow> c_strcmp s t < 0 \<longleftrightarrow> s < t"
proof (induction s t rule: c_strcmp.induct)
  case (2 b bs)
  then have "0 < uchar b" by (metis c_string_Cons neq0_conv uchar_0_iff)
  then show ?case by simp
next
  case (4 a as b bs)
  then show ?case by (simp add: uchar_def less_char_def)
qed simp_all

definition nid_ok :: "string \<Rightarrow> bool" where
  "nid_ok nid \<longleftrightarrow> c_string nid \<and> length nid < 100"

lemma length_dec_digits: "0 < k \<Longrightarrow> n < 10 ^ k \<Longrightarrow> length (dec_digits n) \<le> k"
proof (induction k arbitrary: n)
  case (Suc k)
  show ?case
  proof (cases "n < 10")
    case True
    then show ?thesis by (subst dec_digits.simps) simp
  next
    case False
    with Suc.prems have k: "0 < k" by (cases k) auto
    have "n div 10 < 10 ^ k" using Suc.prems(2) by (simp add: less_mult_imp_div_less mult.commute)
    with Suc.IH [OF k this] False show ?thesis by (subst dec_digits.simps) simp
  qed
qed simp

lemma pad0_digits: "c \<in> set (pad0 w n) \<Longrightarrow> c_isdigit c"
  using dec_digits_isdigit by (auto simp: pad0_def c_isdigit_def uchar_def)

lemma digits_val_zeros: "digits_val 10 (replicate k 0 @ ds) = digits_val 10 ds"
  by (simp add: digits_val_def) (induction k, simp_all)

lemma pad0_inj: "pad0 w m = pad0 w n \<Longrightarrow> m = n"
proof -
  assume e: "pad0 w m = pad0 w n"
  have "digits_val 10 (map digit_val (pad0 w k)) = k" for k
  proof -
    have "digit_val (CHR ''0'') = 0" by (simp add: digit_val_def uchar_def)
    then show ?thesis by (simp only: pad0_def map_append map_replicate digits_val_zeros dec_digits_val)
  qed
  with e show "m = n" by metis
qed

lemma vnode_id_eq:
  assumes "nid_ok nid" and "i < 2 ^ 32"
  shows "vnode_id nid i = nid @ CHR ''-'' # pad0 3 i"
proof -
  have "i < 10 ^ 10" using assms(2) by simp
  then have "length (dec_digits i) \<le> 10" by (intro length_dec_digits) simp_all
  then have "length (pad0 3 i) \<le> 10" by (simp add: pad0_def)
  moreover have "length nid < 100" using assms(1) by (simp add: nid_ok_def)
  ultimately have "length (nid @ ''-'' @ pad0 3 i) \<le> 127" by simp
  then show ?thesis by (simp only: vnode_id_def take_all) simp
qed

lemma c_string_vnode_id: "nid_ok nid \<Longrightarrow> c_string (vnode_id nid i)"
proof -
  assume ok: "nid_ok nid"
  have "\<not> c_isdigit (CHR 0x00)" by (simp add: c_isdigit_def uchar_def)
  with pad0_digits [of _ 3 i] have "CHR 0x00 \<notin> set (pad0 3 i)" by blast
  moreover have "CHR 0x00 \<notin> set nid" using ok by (auto simp: nid_ok_def c_string_def)
  ultimately have "CHR 0x00 \<notin> set (nid @ ''-'' @ pad0 3 i)" by simp
  then show ?thesis unfolding vnode_id_def c_string_def by (metis in_set_takeD)
qed

lemma split_at_first: "xs @ x # ys = xs' @ x # ys' \<Longrightarrow> x \<notin> set xs \<Longrightarrow> x \<notin> set xs' \<Longrightarrow> xs = xs' \<and> ys = ys'"
proof (induction xs arbitrary: xs')
  case Nil
  then show ?case by (cases xs') auto
next
  case (Cons z xs)
  then show ?case by (cases xs') auto
qed

lemma vnode_id_inj:
  assumes "vnode_id nid i = vnode_id nid' i'" and "nid_ok nid" "nid_ok nid'" "i < 2 ^ 32" "i' < 2 ^ 32"
  shows "nid = nid' \<and> i = i'"
proof -
  have d: "CHR ''-'' \<notin> set (pad0 3 k)" for k using pad0_digits [of "CHR ''-''" 3 k] by (auto simp: c_isdigit_def uchar_def)
  have "nid @ CHR ''-'' # pad0 3 i = nid' @ CHR ''-'' # pad0 3 i'"
    using assms(1) by (simp only: vnode_id_eq [OF assms(2,4)] vnode_id_eq [OF assms(3,5)])
  from arg_cong [OF this, of rev] have "rev (pad0 3 i) @ CHR ''-'' # rev nid = rev (pad0 3 i') @ CHR ''-'' # rev nid'"
    by (simp only: rev_append rev.simps append_assoc append.simps)
  from split_at_first [OF this] d have "rev (pad0 3 i) = rev (pad0 3 i') \<and> rev nid = rev nid'" by (simp only: set_rev not_False_eq_True simp_thms)
  then show ?thesis using pad0_inj by auto
qed

section \<open>The compare functions\<close>

definition vnode_label :: "'p nodes \<Rightarrow> nat \<times> nat \<Rightarrow> string" where
  "vnode_label nodes v = vn_vid (an_vnodes (the (nodes (fst v))) ! snd v)"

definition vnode_valid :: "'p nodes \<Rightarrow> nat \<times> nat \<Rightarrow> bool" where
  "vnode_valid nodes v \<longleftrightarrow> (\<exists>n. nodes (fst v) = Some n \<and> snd v < length (an_vnodes n) \<and> c_string (vn_vid (an_vnodes n ! snd v)))"

definition node_label :: "'p nodes \<Rightarrow> nat \<Rightarrow> string" where
  "node_label nodes v = an_id (the (nodes v))"

definition node_valid :: "'p nodes \<Rightarrow> nat \<Rightarrow> bool" where
  "node_valid nodes v \<longleftrightarrow> (\<exists>n. nodes v = Some n \<and> nid_ok (an_id n))"

interpretation vn: skip_compare "kr_vnode_compare nodes" "vnode_label nodes" "vnode_valid nodes" for nodes :: "'p nodes"
  by unfold_locales (auto simp: kr_vnode_compare_def vnode_valid_def vnode_label_def c_strcmp_less c_strcmp_0_iff)

interpretation nn: skip_compare "kr_node_compare nodes" "node_label nodes" "node_valid nodes" for nodes :: "'p nodes"
  by unfold_locales (auto simp: kr_node_compare_def node_id_def node_valid_def node_label_def nid_ok_def c_strcmp_less c_strcmp_0_iff)

abbreviation vskip :: "'p nodes \<Rightarrow> (nat \<times> nat) T_KRSkipList \<Rightarrow> (u32 \<times> string \<Rightarrow> (nat \<times> nat) option) \<Rightarrow> bool" where
  "vskip nodes \<equiv> skip_compare.skip_map (vnode_label nodes) (vnode_valid nodes)"

abbreviation nskip :: "'p nodes \<Rightarrow> nat T_KRSkipList \<Rightarrow> (u32 \<times> string \<Rightarrow> nat option) \<Rightarrow> bool" where
  "nskip nodes \<equiv> skip_compare.skip_map (node_label nodes) (node_valid nodes)"

text \<open>A skip list stands for the same map when the labels of its values do not change.\<close>

lemma skip_map_cong:
  assumes l: "skip_compare cmp lab valid" and l': "skip_compare cmp' lab' valid'" and "skip_compare.skip_map lab valid sl m" and "\<And>k v. m k = Some v \<Longrightarrow> valid' v \<and> lab' v = lab v"
  shows "skip_compare.skip_map lab' valid' sl m"
proof -
  note defs = skip_compare.skip_map_def [OF l] skip_compare.skip_rep_def [OF l] skip_compare.emap_def [OF l] skip_compare.ekey_def [OF l]
  note defs' = skip_compare.skip_map_def [OF l'] skip_compare.skip_rep_def [OF l'] skip_compare.emap_def [OF l'] skip_compare.ekey_def [OF l']
  from assms(3) obtain es ps where es: "skip_inv sl ps" "map (entry (sl_mem sl)) ps = es" "sorted_wrt (\<lambda>e f. (fst e, lab (snd e)) < (fst f, lab (snd f))) es"
    "\<forall>e \<in> set es. valid (snd e)" "m = map_of (map (\<lambda>e. ((fst e, lab (snd e)), snd e)) es)" unfolding defs by blast
  have "m (fst e, lab (snd e)) = Some (snd e)" if "e \<in> set es" for e
    using es(3) that unfolding es(5)
  proof (induction es)
    case (Cons f es)
    then show ?case by (auto simp: less_prod_simp)
  qed simp
  with assms(4) have v: "valid' (snd e) \<and> lab' (snd e) = lab (snd e)" if "e \<in> set es" for e using that by blast
  then have "map (\<lambda>e. ((fst e, lab' (snd e)), snd e)) es = map (\<lambda>e. ((fst e, lab (snd e)), snd e)) es" by auto
  then have "m = map_of (map (\<lambda>e. ((fst e, lab' (snd e)), snd e)) es)" by (simp only: es(5))
  moreover from es(3) have "sorted_wrt (\<lambda>e f. (fst e, lab' (snd e)) < (fst f, lab' (snd f))) es"
    by (rule sorted_wrt_mono_rel [rotated]) (simp add: v)
  ultimately show ?thesis using es(1,2) v unfolding defs' by (intro exI [of _ es] conjI exI [of _ ps]) simp_all
qed


lemma vn_cong:
  assumes "vskip nodes sl m"
    and "\<And>k b i. m k = Some (b, i) \<Longrightarrow> \<exists>n n'. nodes b = Some n \<and> nodes' b = Some n' \<and> i < length (an_vnodes n') \<and> vn_vid (an_vnodes n' ! i) = vn_vid (an_vnodes n ! i)"
  shows "vskip nodes' sl m"
proof (rule skip_map_cong [OF vn.skip_compare_axioms vn.skip_compare_axioms assms(1)])
  fix k v assume m: "m k = Some v"
  obtain b i where v: "v = (b, i)" by (cases v)
  have "vnode_valid nodes v" using vn.map_finite [OF assms(1)] m by blast
  with assms(2) [of k b i] m v show "vnode_valid nodes' v \<and> vnode_label nodes' v = vnode_label nodes v"
    by (auto simp: vnode_valid_def vnode_label_def)
qed

lemma nn_cong:
  assumes "nskip nodes sl m" and "\<And>k a. m k = Some a \<Longrightarrow> \<exists>n n'. nodes a = Some n \<and> nodes' a = Some n' \<and> an_id n' = an_id n"
  shows "nskip nodes' sl m"
proof (rule skip_map_cong [OF nn.skip_compare_axioms nn.skip_compare_axioms assms(1)])
  fix k a assume m: "m k = Some a"
  have "node_valid nodes a" using nn.map_finite [OF assms(1)] m by blast
  with assms(2) [OF m] show "node_valid nodes' a \<and> node_label nodes' a = node_label nodes a"
    by (auto simp: node_valid_def node_label_def)
qed

section \<open>The loops over the virtual nodes\<close>

definition keyv :: "(string \<Rightarrow> u32) \<Rightarrow> string \<Rightarrow> nat \<Rightarrow> u32 \<times> string" where
  "keyv H nid i = (H (vnode_id nid i), vnode_id nid i)"

definition place :: "(string \<Rightarrow> u32) \<Rightarrow> string \<Rightarrow> nat \<Rightarrow> nat \<Rightarrow> T_KRVirtualNode" where
  "place H nid a i = \<lparr>vn_hash = H (vnode_id nid i), vn_vid = vnode_id nid i, vn_node = Some a\<rparr>"

primrec newmap :: "(string \<Rightarrow> u32) \<Rightarrow> string \<Rightarrow> nat \<Rightarrow> nat \<Rightarrow> (u32 \<times> string \<Rightarrow> (nat \<times> nat) option) \<Rightarrow> u32 \<times> string \<Rightarrow> (nat \<times> nat) option" where
  "newmap H nid a 0 m = m"
| "newmap H nid a (Suc j) m = (newmap H nid a j m)(keyv H nid j \<mapsto> (a, j))"

lemma newmap_Some: "newmap H nid a j m k = Some v \<Longrightarrow> m k = Some v \<or> (\<exists>i < j. k = keyv H nid i \<and> v = (a, i))"
  by (induction j) (auto split: if_splits simp: less_Suc_eq)

lemma newmap_other: "(\<And>i. i < j \<Longrightarrow> k \<noteq> keyv H nid i) \<Longrightarrow> newmap H nid a j m k = m k"
  by (induction j) auto

lemma newmap_new:
  assumes "nid_ok nid" and "j \<le> 2 ^ 32"
  shows "i < j \<Longrightarrow> newmap H nid a j m (keyv H nid i) = Some (a, i)"
  using assms(2)
proof (induction j)
  case (Suc j)
  show ?case
  proof (cases "i = j")
    case False
    then have "keyv H nid i \<noteq> keyv H nid j" using vnode_id_inj [of nid i nid j] assms(1) Suc.prems by (auto simp: keyv_def)
    with False Suc show ?thesis by simp
  qed simp
qed simp

lemma insert_vnodes_spec:
  assumes "ch_nodes krch a = Some n" and "an_id n = nid" and nid: "nid_ok nid" and "length (an_vnodes n) = W" and W: "W < 2 ^ 31" and "j \<le> W"
    and "\<And>i. i < j \<Longrightarrow> an_vnodes n ! i = place (ch_hash_func krch) nid a i" and "vskip (ch_nodes krch) (ch_vnode_list krch) (newmap (ch_hash_func krch) nid a j m)"
    and m: "\<And>k b i. m k = Some (b, i) \<Longrightarrow> b \<noteq> a"
  shows "\<exists>sl. insert_vnodes r a [j..<W] krch = Some (krch\<lparr>ch_nodes := (ch_nodes krch)(a \<mapsto> n\<lparr>an_vnodes := map (place (ch_hash_func krch) nid a) [0..<W]\<rparr>), ch_vnode_list := sl\<rparr>) \<and>
    vskip ((ch_nodes krch)(a \<mapsto> n\<lparr>an_vnodes := map (place (ch_hash_func krch) nid a) [0..<W]\<rparr>)) sl (newmap (ch_hash_func krch) nid a W m)"
  using assms(1,2,4,6-8)
proof (induction "W - j" arbitrary: j krch n)
  case 0
  then have j: "j = W" by simp
  have "an_vnodes n = map (place (ch_hash_func krch) nid a) [0..<W]" using 0 j by (intro nth_equalityI) auto
  then have "n\<lparr>an_vnodes := map (place (ch_hash_func krch) nid a) [0..<W]\<rparr> = n" by simp
  with 0 j show ?case by (intro exI [of _ "ch_vnode_list krch"]) (simp add: fun_upd_idem)
next
  case (Suc l)
  let ?H = "ch_hash_func krch" and ?v = "place (ch_hash_func krch) nid a j"
  have jW: "j < W" and l: "[j..<W] = j # [Suc j..<W]" using Suc.hyps(2) by (simp_all add: upt_conv_Cons)
  let ?n = "n\<lparr>an_vnodes := (an_vnodes n)[j := ?v]\<rparr>"
  let ?nodes = "(ch_nodes krch)(a \<mapsto> ?n)"
  have sm: "vskip ?nodes (ch_vnode_list krch) (newmap ?H nid a j m)"
  proof (rule vn_cong [OF Suc.prems(6)])
    fix k b i assume k: "newmap ?H nid a j m k = Some (b, i)"
    have val: "vnode_valid (ch_nodes krch) (b, i)" using vn.map_finite [OF Suc.prems(6)] k by blast
    have "b = a \<Longrightarrow> i < j" using newmap_Some [OF k] m [of k b i] by auto
    with val Suc.prems(1) show "\<exists>n n'. ch_nodes krch b = Some n \<and> ?nodes b = Some n' \<and> i < length (an_vnodes n') \<and> vn_vid (an_vnodes n' ! i) = vn_vid (an_vnodes n ! i)"
      by (auto simp: vnode_valid_def)
  qed
  have val: "vnode_valid ?nodes (a, j)" and lab: "vnode_label ?nodes (a, j) = vnode_id nid j"
    using jW Suc.prems(3) c_string_vnode_id [OF nid, of j] by (simp_all add: vnode_valid_def vnode_label_def place_def)
  from vn.map_insert [OF sm val, of "r j" "?H (vnode_id nid j)"] obtain sl x where
    ins: "kr_skiplist_insert (kr_vnode_compare ?nodes) (r j) (ch_vnode_list krch) (?H (vnode_id nid j)) (a, j) = Some (sl, x)"
    and sl: "vskip ?nodes sl (newmap ?H nid a (Suc j) m)" by (auto simp: lab keyv_def)
  define krch1 where "krch1 = krch\<lparr>ch_nodes := ?nodes, ch_vnode_list := sl\<rparr>"
  have h: "ch_hash_func krch1 = ?H" "ch_nodes krch1 = ?nodes" by (simp_all add: krch1_def)
  have "l = W - Suc j" using Suc.hyps(2) by simp
  moreover have "an_vnodes ?n ! i = place (ch_hash_func krch1) nid a i" if "i < Suc j" for i
    using that Suc.prems(3,5) jW by (auto simp: h nth_list_update less_Suc_eq)
  ultimately obtain sl' where
    i: "insert_vnodes r a [Suc j..<W] krch1 = Some (krch1\<lparr>ch_nodes := ?nodes(a \<mapsto> ?n\<lparr>an_vnodes := map (place ?H nid a) [0..<W]\<rparr>), ch_vnode_list := sl'\<rparr>)"
    "vskip (?nodes(a \<mapsto> ?n\<lparr>an_vnodes := map (place ?H nid a) [0..<W]\<rparr>)) sl' (newmap ?H nid a W m)"
    using Suc.hyps(1) [of "Suc j" krch1 ?n] Suc.prems(2,3) jW sl by (auto simp: krch1_def)
  have "chk_int (int j + 1) = Some (int j + 1)" using jW W by (intro chk_int_ok) simp_all
  moreover have "node_id n = Some nid" using Suc.prems(2) nid by (simp add: node_id_def nid_ok_def)
  ultimately have "insert_vnodes r a [j..<W] krch = insert_vnodes r a [Suc j..<W] krch1"
    using Suc.prems(1,3) jW ins unfolding l by (simp add: krch1_def place_def Let_def)
  with i show ?case by (intro exI [of _ sl']) (simp add: krch1_def)
qed

lemma delete_vnodes_spec:
  assumes n: "ch_nodes krch a = Some n" "an_vnodes n = map (place H nid a) [0..<W]" and nid: "nid_ok nid" and W: "W < 2 ^ 31"
    and "vskip (ch_nodes krch) (ch_vnode_list krch) m" and "j \<le> W"
  shows "\<exists>sl. delete_vnodes a [j..<W] krch = Some (krch\<lparr>ch_vnode_list := sl\<rparr>) \<and> vskip (ch_nodes krch) sl (m |` (- keyv H nid ` {j..<W}))"
  using assms(1,5,6)
proof (induction "W - j" arbitrary: j krch m)
  case 0
  then have "j = W" by simp
  with 0 show ?case by (intro exI [of _ "ch_vnode_list krch"]) (simp add: restrict_map_def)
next
  case (Suc l)
  have jW: "j < W" and l: "[j..<W] = j # [Suc j..<W]" using Suc.hyps(2) by (simp_all add: upt_conv_Cons)
  have v: "nth_opt (an_vnodes n) j = Some (place H nid a j)" using jW n(2) by simp
  have val: "vnode_valid (ch_nodes krch) (a, j)" and lab: "vnode_label (ch_nodes krch) (a, j) = vnode_id nid j"
    using jW n(2) Suc.prems(1) c_string_vnode_id [OF nid, of j] by (simp_all add: vnode_valid_def vnode_label_def place_def)
  from vn.map_delete [OF Suc.prems(2) val, of "H (vnode_id nid j)"] obtain sl x where
    del: "kr_skiplist_delete (kr_vnode_compare (ch_nodes krch)) (ch_vnode_list krch) (H (vnode_id nid j)) (a, j) = Some (sl, x)"
    and sl: "vskip (ch_nodes krch) sl (m(keyv H nid j := None))" by (auto simp: lab keyv_def)
  have "chk_int (int j + 1) = Some (int j + 1)" using jW W by (intro chk_int_ok) simp_all
  with v del Suc.prems(1) have e: "delete_vnodes a [j..<W] krch = delete_vnodes a [Suc j..<W] (krch\<lparr>ch_vnode_list := sl\<rparr>)"
    unfolding l by (simp add: place_def)
  have "l = W - Suc j" using Suc.hyps(2) by simp
  from Suc.hyps(1) [OF this, of "krch\<lparr>ch_vnode_list := sl\<rparr>" "m(keyv H nid j := None)"] Suc.prems(1) sl jW obtain sl' where
    d: "delete_vnodes a [Suc j..<W] (krch\<lparr>ch_vnode_list := sl\<rparr>) = Some (krch\<lparr>ch_vnode_list := sl'\<rparr>)"
    "vskip (ch_nodes krch) sl' ((m(keyv H nid j := None)) |` (- keyv H nid ` {Suc j..<W}))" by auto
  have "{j..<W} = insert j {Suc j..<W}" using jW by auto
  then have "(m(keyv H nid j := None)) |` (- keyv H nid ` {Suc j..<W}) = m |` (- keyv H nid ` {j..<W})"
    by (auto simp: restrict_map_def fun_eq_iff)
  with d e show ?case by auto
qed

section \<open>The ring\<close>

definition is_node :: "(string \<Rightarrow> u32) \<Rightarrow> string \<Rightarrow> u32 \<Rightarrow> 'p \<Rightarrow> nat \<Rightarrow> 'p T_KRActualNode \<Rightarrow> bool" where
  "is_node H nid w p a n \<longleftrightarrow> an_id n = nid \<and> an_weights n = w \<and> an_priv n = p \<and> an_hash n = H nid \<and> an_vnodes n = map (place H nid a) [0..<unat w]"

text \<open>\<open>R\<close> gives the weight and the private data of a node by its identifier, \<open>addr\<close> its address; \<open>mV\<close> and \<open>mN\<close> are the maps of the skip lists.\<close>

type_synonym 'p members = "string \<Rightarrow> (u32 \<times> 'p) option"

definition member :: "'p members \<Rightarrow> string \<Rightarrow> nat \<Rightarrow> bool" where
  "member R nid i \<longleftrightarrow> (\<exists>w p. R nid = Some (w, p) \<and> i < unat w)"

definition ring_ok :: "'p T_KRConHash \<Rightarrow> 'p members \<Rightarrow> (string \<Rightarrow> nat) \<Rightarrow> (u32 \<times> string \<Rightarrow> (nat \<times> nat) option) \<Rightarrow> (u32 \<times> string \<Rightarrow> nat option) \<Rightarrow> bool" where
  "ring_ok krch R addr mV mN \<longleftrightarrow>
     (\<forall>nid w p. R nid = Some (w, p) \<longrightarrow> nid_ok nid \<and> unat w < 2 ^ 31 \<and> addr nid < ch_fresh krch \<and>
        (\<exists>n. ch_nodes krch (addr nid) = Some n \<and> is_node (ch_hash_func krch) nid w p (addr nid) n)) \<and>
     vskip (ch_nodes krch) (ch_vnode_list krch) mV \<and> nskip (ch_nodes krch) (ch_node_list krch) mN \<and>
     (\<forall>k a i. mV k = Some (a, i) \<longleftrightarrow> (\<exists>nid. member R nid i \<and> a = addr nid \<and> k = keyv (ch_hash_func krch) nid i)) \<and>
     (\<forall>k a. mN k = Some a \<longleftrightarrow> (\<exists>nid. R nid \<noteq> None \<and> a = addr nid \<and> k = (ch_hash_func krch nid, nid)))"

lemma ring_node:
  assumes "ring_ok krch R addr mV mN" and "R nid = Some (w, p)"
  obtains n where "nid_ok nid" "unat w < 2 ^ 31" "addr nid < ch_fresh krch" "ch_nodes krch (addr nid) = Some n" "is_node (ch_hash_func krch) nid w p (addr nid) n"
  using assms unfolding ring_ok_def by blast

lemma ring_maps:
  assumes "ring_ok krch R addr mV mN"
  shows "mV k = Some (a, i) \<longleftrightarrow> (\<exists>nid. member R nid i \<and> a = addr nid \<and> k = keyv (ch_hash_func krch) nid i)"
    and "mN k = Some a \<longleftrightarrow> (\<exists>nid. R nid \<noteq> None \<and> a = addr nid \<and> k = (ch_hash_func krch nid, nid))"
  using assms unfolding ring_ok_def by blast+

lemma ring_addr:
  assumes "ring_ok krch R addr mV mN" and "R nid \<noteq> None" and "R nid' \<noteq> None" and "addr nid = addr nid'"
  shows "nid = nid'"
proof -
  obtain w p w' p' where "R nid = Some (w, p)" "R nid' = Some (w', p')" using assms(2,3) by auto
  with assms show ?thesis by (metis is_node_def option.inject ring_node)
qed

lemma ring_values:
  assumes "ring_ok krch R addr mV mN"
  shows "mV k = Some (a, i) \<Longrightarrow> \<exists>nid n. member R nid i \<and> a = addr nid \<and> k = keyv (ch_hash_func krch) nid i \<and> ch_nodes krch a = Some n \<and>
      an_vnodes n ! i = place (ch_hash_func krch) nid a i \<and> i < length (an_vnodes n)"
    and "mN k = Some a \<Longrightarrow> \<exists>nid n. R nid \<noteq> None \<and> a = addr nid \<and> k = (ch_hash_func krch nid, nid) \<and> ch_nodes krch a = Some n \<and> an_id n = nid"
proof -
  assume "mV k = Some (a, i)"
  then obtain nid w p where m: "R nid = Some (w, p)" "i < unat w" "a = addr nid" "k = keyv (ch_hash_func krch) nid i"
    unfolding ring_maps(1) [OF assms] member_def by blast
  from ring_node [OF assms m(1)] obtain n where "ch_nodes krch (addr nid) = Some n" "is_node (ch_hash_func krch) nid w p (addr nid) n" by metis
  with m show "\<exists>nid n. member R nid i \<and> a = addr nid \<and> k = keyv (ch_hash_func krch) nid i \<and> ch_nodes krch a = Some n \<and>
      an_vnodes n ! i = place (ch_hash_func krch) nid a i \<and> i < length (an_vnodes n)"
    by (intro exI [of _ nid] exI [of _ n]) (auto simp: member_def is_node_def)
next
  assume "mN k = Some a"
  then obtain nid w p where m: "R nid = Some (w, p)" "a = addr nid" "k = (ch_hash_func krch nid, nid)"
    unfolding ring_maps(2) [OF assms] by auto
  from ring_node [OF assms m(1)] obtain n where "ch_nodes krch (addr nid) = Some n" "is_node (ch_hash_func krch) nid w p (addr nid) n" by metis
  with m show "\<exists>nid n. R nid \<noteq> None \<and> a = addr nid \<and> k = (ch_hash_func krch nid, nid) \<and> ch_nodes krch a = Some n \<and> an_id n = nid"
    by (intro exI [of _ nid] exI [of _ n]) (auto simp: is_node_def)
qed

text \<open>Memory the ring does not refer to may change.\<close>

lemma ring_frame:
  assumes r: "ring_ok krch R addr mV mN" and s: "ch_hash_func krch' = ch_hash_func krch" "ch_vnode_list krch' = ch_vnode_list krch" "ch_node_list krch' = ch_node_list krch"
    "ch_fresh krch \<le> ch_fresh krch'"
    and m: "\<And>nid n. R nid \<noteq> None \<Longrightarrow> ch_nodes krch (addr nid) = Some n \<Longrightarrow>
      \<exists>n'. ch_nodes krch' (addr nid) = Some n' \<and> an_id n' = an_id n \<and> an_weights n' = an_weights n \<and> an_priv n' = an_priv n \<and> an_hash n' = an_hash n \<and> an_vnodes n' = an_vnodes n"
  shows "ring_ok krch' R addr mV mN"
proof -
  have "vskip (ch_nodes krch') (ch_vnode_list krch) mV"
  proof (rule vn_cong)
    show "vskip (ch_nodes krch) (ch_vnode_list krch) mV" using r by (simp add: ring_ok_def)
    fix k b i assume "mV k = Some (b, i)"
    from ring_values(1) [OF r this] m show "\<exists>n n'. ch_nodes krch b = Some n \<and> ch_nodes krch' b = Some n' \<and> i < length (an_vnodes n') \<and> vn_vid (an_vnodes n' ! i) = vn_vid (an_vnodes n ! i)"
      unfolding member_def by (metis option.distinct(1))
  qed
  moreover have "nskip (ch_nodes krch') (ch_node_list krch) mN"
  proof (rule nn_cong)
    show "nskip (ch_nodes krch) (ch_node_list krch) mN" using r by (simp add: ring_ok_def)
    fix k b assume "mN k = Some b"
    from ring_values(2) [OF r this] m show "\<exists>n n'. ch_nodes krch b = Some n \<and> ch_nodes krch' b = Some n' \<and> an_id n' = an_id n" by metis
  qed
  moreover have "\<exists>n. ch_nodes krch' (addr nid) = Some n \<and> is_node (ch_hash_func krch) nid w p (addr nid) n" if R: "R nid = Some (w, p)" for nid w p
    using ring_node [OF r R] m [of nid] R unfolding is_node_def by (metis option.distinct(1))
  moreover have "nid_ok nid \<and> unat w < 2 ^ 31 \<and> addr nid < ch_fresh krch'" if "R nid = Some (w, p)" for nid w p
    using ring_node [OF r that] s(4) by (metis less_le_trans)
  ultimately show ?thesis using ring_maps [OF r] unfolding ring_ok_def s(1-3) by blast
qed

lemma insert_node_spec:
  assumes r: "ring_ok krch R addr mV mN" and n: "ch_nodes krch a = Some (kr_conhash_create_node nid w p)" and a: "\<And>nid. R nid \<noteq> None \<Longrightarrow> addr nid \<noteq> a" "a < ch_fresh krch"
    and nid: "nid_ok nid" "R nid = None" and w: "unat w < 2 ^ 31"
  shows "\<exists>krch' mV' mN'. kr_conhash_insert_node rnd a krch = Some krch' \<and> ring_ok krch' (R(nid \<mapsto> (w, p))) (addr(nid := a)) mV' mN' \<and>
    ch_hash_func krch' = ch_hash_func krch \<and> ch_free_func krch' = ch_free_func krch \<and> ch_freed krch' = ch_freed krch \<and> ch_fresh krch' = ch_fresh krch"
proof -
  let ?H = "ch_hash_func krch" and ?n = "kr_conhash_create_node nid w p" and ?W = "unat w"
  have id: "an_id ?n = nid" "an_weights ?n = w" "length (an_vnodes ?n) = ?W" "an_priv ?n = p" using nid(1) by (simp_all add: kr_conhash_create_node_def nid_ok_def)
  have noa: "b \<noteq> a" if "mV k = Some (b, i)" for k b i using ring_values(1) [OF r that] a(1) by (auto simp: member_def)
  have noa': "b \<noteq> a" if "mN k = Some b" for k b using ring_values(2) [OF r that] a(1) by auto
  let ?n1 = "?n\<lparr>an_vnodes := map (place ?H nid a) [0..<?W]\<rparr>"
  let ?nodes1 = "(ch_nodes krch)(a \<mapsto> ?n1)"
  have v: "vskip (ch_nodes krch) (ch_vnode_list krch) (newmap ?H nid a 0 mV)" and nl: "nskip (ch_nodes krch) (ch_node_list krch) mN" using r by (simp_all add: ring_ok_def)
  obtain sl where ins: "insert_vnodes rnd a [0..<?W] krch = Some (krch\<lparr>ch_nodes := ?nodes1, ch_vnode_list := sl\<rparr>)" and
    sl: "vskip ?nodes1 sl (newmap ?H nid a ?W mV)"
  proof -
    have "\<exists>sl. insert_vnodes rnd a [0..<?W] krch = Some (krch\<lparr>ch_nodes := ?nodes1, ch_vnode_list := sl\<rparr>) \<and> vskip ?nodes1 sl (newmap ?H nid a ?W mV)"
      by (rule insert_vnodes_spec [OF n id(1) nid(1) id(3) w le0 _ v]) (use noa in auto)
    with that show thesis by blast
  qed
  let ?n2 = "?n1\<lparr>an_hash := ?H nid\<rparr>" and ?n3 = "?n1\<lparr>an_hash := ?H nid, an_status := KR_NODE_STATUS_INSERTED\<rparr>"
  let ?nodes2 = "(ch_nodes krch)(a \<mapsto> ?n2)" and ?nodes3 = "(ch_nodes krch)(a \<mapsto> ?n3)"
  have "nskip ?nodes2 (ch_node_list krch) mN"
    by (rule nn_cong [OF nl]) (use ring_values(2) [OF r] noa' in fastforce)
  moreover have "node_valid ?nodes2 a" and lab: "node_label ?nodes2 a = nid" using nid(1) id(1) by (simp_all add: node_valid_def node_label_def)
  ultimately obtain sl2 x where ins2: "kr_skiplist_insert (kr_node_compare ?nodes2) (rnd ?W) (ch_node_list krch) (?H nid) a = Some (sl2, x)" and
    sl2: "nskip ?nodes2 sl2 (mN((?H nid, nid) \<mapsto> a))" using nn.map_insert [of ?nodes2 "ch_node_list krch" mN a "rnd ?W" "?H nid"] by auto
  let ?krch' = "krch\<lparr>ch_nodes := ?nodes3, ch_vnode_list := sl, ch_node_list := sl2\<rparr>"
  have "node_id ?n1 = Some nid" using id(1) nid(1) by (simp add: node_id_def nid_ok_def)
  with ins ins2 n id(2) have run: "kr_conhash_insert_node rnd a krch = Some ?krch'"
    by (simp add: kr_conhash_insert_node_def Let_def)
  have W32: "?W \<le> 2 ^ 32" using w by simp
  have v3: "vskip ?nodes3 sl (newmap ?H nid a ?W mV)"
  proof (rule vn_cong [OF sl])
    fix k b i assume "newmap ?H nid a ?W mV k = Some (b, i)"
    then have "vnode_valid ?nodes1 (b, i)" using vn.map_finite [OF sl] by blast
    then show "\<exists>n n'. ?nodes1 b = Some n \<and> ?nodes3 b = Some n' \<and> i < length (an_vnodes n') \<and> vn_vid (an_vnodes n' ! i) = vn_vid (an_vnodes n ! i)"
      by (auto simp: vnode_valid_def split: if_splits)
  qed
  have n3: "nskip ?nodes3 sl2 (mN((?H nid, nid) \<mapsto> a))"
  proof (rule nn_cong [OF sl2])
    fix k b assume "(mN((?H nid, nid) \<mapsto> a)) k = Some b"
    then have "node_valid ?nodes2 b" using nn.map_finite [OF sl2] by blast
    then show "\<exists>n n'. ?nodes2 b = Some n \<and> ?nodes3 b = Some n' \<and> an_id n' = an_id n" by (auto simp: node_valid_def split: if_splits)
  qed
  have gV: "newmap ?H nid a ?W mV k = Some (b, i) \<longleftrightarrow> (\<exists>nid'. member (R(nid \<mapsto> (w, p))) nid' i \<and> b = (addr(nid := a)) nid' \<and> k = keyv ?H nid' i)" for k b i
  proof
    assume "newmap ?H nid a ?W mV k = Some (b, i)"
    from newmap_Some [OF this] show "\<exists>nid'. member (R(nid \<mapsto> (w, p))) nid' i \<and> b = (addr(nid := a)) nid' \<and> k = keyv ?H nid' i"
    proof
      assume "mV k = Some (b, i)"
      then obtain nid' where "member R nid' i" "b = addr nid'" "k = keyv ?H nid' i" using ring_maps(1) [OF r] by blast
      with nid(2) show ?thesis by (intro exI [of _ nid']) (auto simp: member_def)
    next
      assume "\<exists>i' < ?W. k = keyv ?H nid i' \<and> (b, i) = (a, i')"
      then show ?thesis by (intro exI [of _ nid]) (auto simp: member_def)
    qed
  next
    assume "\<exists>nid'. member (R(nid \<mapsto> (w, p))) nid' i \<and> b = (addr(nid := a)) nid' \<and> k = keyv ?H nid' i"
    then obtain nid' where nid': "member (R(nid \<mapsto> (w, p))) nid' i" "b = (addr(nid := a)) nid'" "k = keyv ?H nid' i" by blast
    show "newmap ?H nid a ?W mV k = Some (b, i)"
    proof (cases "nid' = nid")
      case True
      with nid' show ?thesis using newmap_new [OF nid(1) W32] by (simp add: member_def)
    next
      case False
      then obtain w' p' where m: "R nid' = Some (w', p')" "i < unat w'" using nid'(1) by (auto simp: member_def)
      from ring_node [OF r m(1)] have ok: "nid_ok nid'" "unat w' < 2 ^ 31" by metis+
      have "k \<noteq> keyv ?H nid i'" if "i' < ?W" for i'
        using vnode_id_inj [of nid' i nid i'] ok m(2) nid(1) nid'(3) False w that by (auto simp: keyv_def)
      then have "newmap ?H nid a ?W mV k = mV k" by (rule newmap_other)
      with m nid' False show ?thesis by (auto simp: ring_maps(1) [OF r] member_def)
    qed
  qed
  have gN: "(mN((?H nid, nid) \<mapsto> a)) k = Some b \<longleftrightarrow> (\<exists>nid'. (R(nid \<mapsto> (w, p))) nid' \<noteq> None \<and> b = (addr(nid := a)) nid' \<and> k = (?H nid', nid'))" for k b
    using nid(2) ring_maps(2) [OF r, of k b] by auto
  have "is_node ?H nid w p a ?n3" using id by (simp add: is_node_def)
  then have nodes: "nid_ok nid' \<and> unat w' < 2 ^ 31 \<and> (addr(nid := a)) nid' < ch_fresh krch \<and> (\<exists>n. ?nodes3 ((addr(nid := a)) nid') = Some n \<and> is_node ?H nid' w' p' ((addr(nid := a)) nid') n)"
    if m: "(R(nid \<mapsto> (w, p))) nid' = Some (w', p')" for nid' w' p'
  proof (cases "nid' = nid")
    case False
    with m have R: "R nid' = Some (w', p')" by simp
    with a(1) [of nid'] have "addr nid' \<noteq> a" by simp
    with ring_node [OF r R] False show ?thesis by (metis fun_upd_other)
  qed (use m nid w a(2) in simp)
  have h: "ch_hash_func ?krch' = ?H" "ch_nodes ?krch' = ?nodes3" "ch_vnode_list ?krch' = sl" "ch_node_list ?krch' = sl2" "ch_fresh ?krch' = ch_fresh krch" by simp_all
  have "ring_ok ?krch' (R(nid \<mapsto> (w, p))) (addr(nid := a)) (newmap ?H nid a ?W mV) (mN((?H nid, nid) \<mapsto> a))"
    unfolding ring_ok_def h
    by (intro conjI allI impI) (use nodes v3 n3 gV gN in \<open>blast+\<close>)
  with run show ?thesis by (intro exI [of _ ?krch']) auto
qed

lemma fresh_addr: "ring_ok krch R addr mV mN \<Longrightarrow> R nid \<noteq> None \<Longrightarrow> addr nid \<noteq> ch_fresh krch"
  by (metis less_irrefl not_None_eq ring_node surj_pair)

text \<open>A node is allocated, deleted, found.\<close>

lemma ring_alloc:
  assumes "ring_ok krch R addr mV mN"
  shows "ring_ok (krch\<lparr>ch_nodes := (ch_nodes krch)(ch_fresh krch \<mapsto> n), ch_fresh := ch_fresh krch + 1\<rparr>) R addr mV mN"
  by (rule ring_frame [OF assms]) (use fresh_addr [OF assms] in auto)

lemma delete_node_spec:
  assumes r: "ring_ok krch R addr mV mN" and R: "R nid = Some (w, p)"
  shows "\<exists>krch1 krch2 mV' mN'. kr_conhash_delete_node (addr nid) krch = Some krch1 \<and> kr_conhash_free_node (addr nid) krch1 = Some krch2 \<and>
    ring_ok krch2 (R(nid := None)) addr mV' mN' \<and> ch_nodes krch2 = (ch_nodes krch)(addr nid := None) \<and> ch_hash_func krch2 = ch_hash_func krch \<and>
    ch_free_func krch2 = ch_free_func krch \<and> ch_fresh krch2 = ch_fresh krch \<and> ch_freed krch2 = (if ch_free_func krch then ch_freed krch @ [p] else ch_freed krch)"
proof -
  let ?H = "ch_hash_func krch" and ?a = "addr nid" and ?W = "unat w"
  obtain n where nid: "nid_ok nid" "?W < 2 ^ 31" and n: "ch_nodes krch ?a = Some n" "is_node ?H nid w p ?a n" by (rule ring_node [OF r R])
  note nf = n(2) [unfolded is_node_def]
  have v: "vskip (ch_nodes krch) (ch_vnode_list krch) mV" and nl: "nskip (ch_nodes krch) (ch_node_list krch) mN" using r unfolding ring_ok_def by blast+
  let ?mV = "mV |` (- keyv ?H nid ` {0..<?W})" and ?mN = "mN((?H nid, nid) := None)"
  obtain sl where d1: "delete_vnodes ?a [0..<?W] krch = Some (krch\<lparr>ch_vnode_list := sl\<rparr>)" and sl: "vskip (ch_nodes krch) sl ?mV"
    using delete_vnodes_spec [OF n(1) _ nid v le0] nf by blast
  have "node_valid (ch_nodes krch) ?a" "node_label (ch_nodes krch) ?a = nid" using n(1) nf nid(1) by (simp_all add: node_valid_def node_label_def)
  then obtain sl2 x where d2: "kr_skiplist_delete (kr_node_compare (ch_nodes krch)) (ch_node_list krch) (?H nid) ?a = Some (sl2, x)"
    and sl2: "nskip (ch_nodes krch) sl2 ?mN" using nn.map_delete [OF nl, of ?a "?H nid"] by auto
  let ?krch1 = "krch\<lparr>ch_nodes := (ch_nodes krch)(?a \<mapsto> n\<lparr>an_status := KR_NODE_STATUS_DELETED\<rparr>), ch_vnode_list := sl, ch_node_list := sl2\<rparr>"
  have run1: "kr_conhash_delete_node ?a krch = Some ?krch1" using n(1) nf d1 d2 by (simp add: kr_conhash_delete_node_def)
  let ?krch2 = "krch\<lparr>ch_nodes := (ch_nodes krch)(?a := None), ch_vnode_list := sl, ch_node_list := sl2,
     ch_freed := (if ch_free_func krch then ch_freed krch @ [p] else ch_freed krch)\<rparr>"
  have run2: "kr_conhash_free_node ?a ?krch1 = Some ?krch2" using nf by (simp add: kr_conhash_free_node_def)
  have gV: "?mV k = Some (b, i) \<longleftrightarrow> (\<exists>nid'. member (R(nid := None)) nid' i \<and> b = addr nid' \<and> k = keyv ?H nid' i)" for k b i
  proof
    assume a: "?mV k = Some (b, i)"
    then have k: "k \<notin> keyv ?H nid ` {0..<?W}" and "mV k = Some (b, i)" by (auto simp: restrict_map_def split: if_splits)
    then obtain nid' where m: "member R nid' i" "b = addr nid'" "k = keyv ?H nid' i" using ring_maps(1) [OF r] by blast
    with k R have "nid' \<noteq> nid" by (auto simp: member_def)
    with m show "\<exists>nid'. member (R(nid := None)) nid' i \<and> b = addr nid' \<and> k = keyv ?H nid' i" by (intro exI [of _ nid']) (simp add: member_def)
  next
    assume "\<exists>nid'. member (R(nid := None)) nid' i \<and> b = addr nid' \<and> k = keyv ?H nid' i"
    then obtain nid' w' p' where m: "nid' \<noteq> nid" "R nid' = Some (w', p')" "i < unat w'" "b = addr nid'" "k = keyv ?H nid' i" by (auto simp: member_def split: if_splits)
    from ring_node [OF r m(2)] have ok: "nid_ok nid'" "unat w' < 2 ^ 31" by metis+
    have "k \<noteq> keyv ?H nid i'" if "i' < ?W" for i'
      using vnode_id_inj [of nid' i nid i'] ok m(1,3,5) nid that by (auto simp: keyv_def)
    then have "k \<notin> keyv ?H nid ` {0..<?W}" by (metis atLeastLessThan_iff imageE)
    then have "?mV k = mV k" by (simp add: restrict_map_def)
    also have "mV k = Some (b, i)" using ring_maps(1) [OF r] m unfolding member_def by blast
    finally show "?mV k = Some (b, i)" .
  qed
  have gN: "?mN k = Some b \<longleftrightarrow> (\<exists>nid'. (R(nid := None)) nid' \<noteq> None \<and> b = addr nid' \<and> k = (?H nid', nid'))" for k b
    using ring_maps(2) [OF r, of k b] by auto
  have na: "addr nid' \<noteq> ?a" if "(R(nid := None)) nid' \<noteq> None" for nid'
  proof -
    from that have m: "nid' \<noteq> nid" "R nid' \<noteq> None" by (auto split: if_splits)
    have "R nid \<noteq> None" using R by simp
    with ring_addr [OF r m(2)] m(1) show ?thesis by blast
  qed
  let ?nodes = "(ch_nodes krch)(?a := None)"
  have v2: "vskip ?nodes sl ?mV"
  proof (rule vn_cong [OF sl])
    fix k b i assume k: "?mV k = Some (b, i)"
    then have "vnode_valid (ch_nodes krch) (b, i)" using vn.map_finite [OF sl] by blast
    moreover have "b \<noteq> ?a" using k na unfolding gV member_def by (metis option.distinct(1))
    ultimately show "\<exists>n n'. ch_nodes krch b = Some n \<and> ?nodes b = Some n' \<and> i < length (an_vnodes n') \<and> vn_vid (an_vnodes n' ! i) = vn_vid (an_vnodes n ! i)"
      by (auto simp: vnode_valid_def)
  qed
  have n2: "nskip ?nodes sl2 ?mN"
  proof (rule nn_cong [OF sl2])
    fix k b assume k: "?mN k = Some b"
    then have "node_valid (ch_nodes krch) b" using nn.map_finite [OF sl2] by blast
    moreover have "b \<noteq> ?a" using k na unfolding gN by metis
    ultimately show "\<exists>n n'. ch_nodes krch b = Some n \<and> ?nodes b = Some n' \<and> an_id n' = an_id n" by (auto simp: node_valid_def)
  qed
  have nodes: "nid_ok nid' \<and> unat w' < 2 ^ 31 \<and> addr nid' < ch_fresh krch \<and> (\<exists>n. ?nodes (addr nid') = Some n \<and> is_node ?H nid' w' p' (addr nid') n)"
    if m: "(R(nid := None)) nid' = Some (w', p')" for nid' w' p'
  proof -
    have "addr nid' \<noteq> ?a" using na [of nid'] m by simp
    moreover from m have "R nid' = Some (w', p')" by (simp split: if_splits)
    ultimately show ?thesis using ring_node [OF r] by (metis fun_upd_other)
  qed
  have h: "ch_hash_func ?krch2 = ?H" "ch_nodes ?krch2 = ?nodes" "ch_vnode_list ?krch2 = sl" "ch_node_list ?krch2 = sl2" "ch_fresh ?krch2 = ch_fresh krch" by simp_all
  have "ring_ok ?krch2 (R(nid := None)) addr ?mV ?mN"
    unfolding ring_ok_def h
    by (intro conjI allI impI) (use nodes v2 n2 gV gN in \<open>blast+\<close>)
  with run1 run2 show ?thesis by (intro exI [of _ ?krch1] exI [of _ ?krch2] exI [of _ ?mV] exI [of _ ?mN]) simp
qed

lemma ring_lookup_spec:
  assumes r: "ring_ok krch R addr mV mN" and nid: "nid_ok nid"
  shows "kr_conhash_lookup null krch nid = Some (if R nid = None then None else Some (addr nid))"
proof -
  let ?H = "ch_hash_func krch" and ?f = "ch_fresh krch"
  let ?node = "\<lparr>an_hash = ?H nid, an_id = take 100 nid, an_weights = 0, an_kicks = 0, an_vnodes = [], an_priv = null, an_status = KR_NODE_STATUS_CREATED\<rparr>"
  let ?nodes = "(ch_nodes krch)(?f \<mapsto> ?node)"
  have "nskip ?nodes (ch_node_list krch) mN"
  proof (rule nn_cong)
    show "nskip (ch_nodes krch) (ch_node_list krch) mN" using r unfolding ring_ok_def by blast
    fix k a assume "mN k = Some a"
    from ring_values(2) [OF r this] fresh_addr [OF r] show "\<exists>n n'. ch_nodes krch a = Some n \<and> ?nodes a = Some n' \<and> an_id n' = an_id n" by auto
  qed
  moreover have "node_valid ?nodes ?f" "node_label ?nodes ?f = nid" using nid by (simp_all add: node_valid_def node_label_def nid_ok_def)
  ultimately have "kr_skiplist_lookup (kr_node_compare ?nodes) (ch_node_list krch) (?H nid) ?f = Some (mN (?H nid, nid))"
    using nn.map_lookup [of ?nodes "ch_node_list krch" mN ?f "?H nid"] by simp
  moreover have "mN (?H nid, nid) = (if R nid = None then None else Some (addr nid))"
    using ring_maps(2) [OF r, of "(?H nid, nid)"] by (cases "mN (?H nid, nid)") auto
  ultimately show ?thesis by (simp add: kr_conhash_lookup_def Let_def)
qed

lemma ring_add_spec:
  assumes r: "ring_ok krch R addr mV mN" and nid: "nid_ok nid" "R nid = None" and w: "unat w < 2 ^ 31"
  shows "\<exists>krch' addr' mV' mN'. kr_conhash_add rnd krch nid w p = Some (krch', 0) \<and> ring_ok krch' (R(nid \<mapsto> (w, p))) addr' mV' mN' \<and>
    ch_hash_func krch' = ch_hash_func krch \<and> ch_free_func krch' = ch_free_func krch \<and> ch_freed krch' = ch_freed krch"
proof -
  let ?a = "ch_fresh krch" and ?n = "kr_conhash_create_node nid w p"
  let ?krch1 = "krch\<lparr>ch_nodes := (ch_nodes krch)(?a \<mapsto> ?n), ch_fresh := ?a + 1\<rparr>"
  have a: "ch_nodes ?krch1 ?a = Some ?n" "?a < ch_fresh ?krch1" by simp_all
  from insert_node_spec [OF ring_alloc [OF r] a(1) fresh_addr [OF r] a(2) nid w, of rnd] obtain krch' mV' mN' where
    k: "kr_conhash_insert_node rnd ?a ?krch1 = Some krch'" "ring_ok krch' (R(nid \<mapsto> (w, p))) (addr(nid := ?a)) mV' mN'"
    "ch_hash_func krch' = ch_hash_func krch" "ch_free_func krch' = ch_free_func krch" "ch_freed krch' = ch_freed krch" by auto
  from k(1) have "kr_conhash_add rnd krch nid w p = Some (krch', 0)" by (simp add: kr_conhash_add_def Let_def)
  with k(2-5) show ?thesis by blast
qed

lemma ring_remove_spec:
  assumes r: "ring_ok krch R addr mV mN" and nid: "nid_ok nid"
  shows "\<exists>krch' mV' mN'. kr_conhash_remove null krch nid = Some (krch', if R nid = None then - 1 else 0) \<and> ring_ok krch' (R(nid := None)) addr mV' mN' \<and>
    ch_hash_func krch' = ch_hash_func krch \<and> ch_free_func krch' = ch_free_func krch"
proof (cases "R nid")
  case None
  then have "R(nid := None) = R" by auto
  with r ring_lookup_spec [OF r nid, of null] None show ?thesis by (auto simp: kr_conhash_remove_def)
next
  case (Some wp)
  obtain w p where "wp = (w, p)" by (cases wp)
  with Some have R: "R nid = Some (w, p)" by simp
  from delete_node_spec [OF r R] ring_lookup_spec [OF r nid, of null] R show ?thesis by (fastforce simp: kr_conhash_remove_def)
qed

lemma ring_adjust_spec:
  assumes r: "ring_ok krch R addr mV mN" and nid: "nid_ok nid" and R: "R nid = Some (w, p)" and w': "unat w' < 2 ^ 31"
  shows "\<exists>krch' addr' mV' mN'. kr_conhash_adjust_weights rnd null krch nid w' = Some (krch', 0) \<and> ring_ok krch' (R(nid \<mapsto> (w', p))) addr' mV' mN' \<and>
    ch_hash_func krch' = ch_hash_func krch \<and> ch_free_func krch' = ch_free_func krch \<and> ch_freed krch' = (if ch_free_func krch then ch_freed krch @ [p] else ch_freed krch)"
proof -
  let ?a = "ch_fresh krch" and ?n = "kr_conhash_create_node nid w' p"
  let ?krch1 = "krch\<lparr>ch_nodes := (ch_nodes krch)(?a \<mapsto> ?n), ch_fresh := ?a + 1\<rparr>"
  from delete_node_spec [OF ring_alloc [OF r] R, of ?n] obtain krch2 krch3 mV' mN' where
    d: "kr_conhash_delete_node (addr nid) ?krch1 = Some krch2" "kr_conhash_free_node (addr nid) krch2 = Some krch3"
    and r3: "ring_ok krch3 (R(nid := None)) addr mV' mN'" and n3: "ch_nodes krch3 = (ch_nodes ?krch1)(addr nid := None)" and
    s3: "ch_hash_func krch3 = ch_hash_func krch" "ch_free_func krch3 = ch_free_func krch" "ch_fresh krch3 = ch_fresh ?krch1"
    "ch_freed krch3 = (if ch_free_func krch then ch_freed krch @ [p] else ch_freed krch)" by auto
  have na: "addr nid' \<noteq> ?a" if "(R(nid := None)) nid' \<noteq> None" for nid' using that fresh_addr [OF r, of nid'] by (simp split: if_splits)
  have "addr nid \<noteq> ?a" using fresh_addr [OF r, of nid] R by simp
  then have a: "ch_nodes krch3 ?a = Some ?n" "?a < ch_fresh krch3" by (simp_all add: n3 s3(3))
  have "(R(nid := None)) nid = None" by simp
  from insert_node_spec [OF r3 a(1) na a(2) nid this w', of rnd, unfolded fun_upd_upd] obtain krch' mV'' mN'' where
    k: "kr_conhash_insert_node rnd ?a krch3 = Some krch'" "ring_ok krch' (R(nid \<mapsto> (w', p))) (addr(nid := ?a)) mV'' mN''"
    "ch_hash_func krch' = ch_hash_func krch3" "ch_free_func krch' = ch_free_func krch3" "ch_freed krch' = ch_freed krch3" by blast
  obtain n where "ch_nodes krch (addr nid) = Some n" "an_priv n = p" using ring_node [OF r R] unfolding is_node_def by metis
  with ring_lookup_spec [OF r nid, of null] R d k(1) have "kr_conhash_adjust_weights rnd null krch nid w' = Some (krch', 0)"
    by (simp add: kr_conhash_adjust_weights_def Let_def)
  with k(2-5) s3 show ?thesis by (intro exI [of _ krch'] exI [of _ "addr(nid := ?a)"] exI [of _ mV''] exI [of _ mN'']) simp
qed

section \<open>Locating objects\<close>

definition points :: "(string \<Rightarrow> u32) \<Rightarrow> 'p members \<Rightarrow> (u32 \<times> string) set" where
  "points H R = {k. \<exists>nid i. member R nid i \<and> k = keyv H nid i}"

text \<open>The first place on the ring from the hash value \<open>h\<close> on.\<close>

definition first_place :: "(u32 \<times> string) set \<Rightarrow> u32 \<Rightarrow> u32 \<times> string \<Rightarrow> bool" where
  "first_place P h k \<longleftrightarrow> k \<in> P \<and> (if \<exists>k' \<in> P. h \<le> fst k' then h \<le> fst k \<and> (\<forall>k' \<in> P. h \<le> fst k' \<longrightarrow> k \<le> k') else (\<forall>k' \<in> P. k \<le> k'))"

definition owner :: "(string \<Rightarrow> u32) \<Rightarrow> 'p members \<Rightarrow> u32 \<Rightarrow> string \<Rightarrow> bool" where
  "owner H R h nid \<longleftrightarrow> (\<exists>i. member R nid i \<and> first_place (points H R) h (keyv H nid i))"

lemma first_place_unique: "first_place P h k \<Longrightarrow> first_place P h k' \<Longrightarrow> k = k'"
  unfolding first_place_def by (metis antisym)

lemma first_place_subset: "first_place P' h k \<Longrightarrow> P \<subseteq> P' \<Longrightarrow> k \<in> P \<Longrightarrow> first_place P h k"
  unfolding first_place_def by (smt (verit) subset_iff)

lemma cycle_first_place:
  assumes "finite (dom m)"
  shows "(case vn.cycle_map h m of None \<Rightarrow> dom m = {} | Some v \<Rightarrow> \<exists>k. first_place (dom m) h k \<and> m k = Some v)"
proof -
  let ?D = "{k \<in> dom m. h \<le> fst k}"
  consider (behind) "?D \<noteq> {}" | (around) "?D = {}" "dom m \<noteq> {}" | (none) "dom m = {}" by blast
  then show ?thesis
  proof cases
    case behind
    have f: "finite ?D" using assms by simp
    then have k: "Min ?D \<in> ?D" using behind by (rule Min_in)
    then have "first_place (dom m) h (Min ?D)" using f unfolding first_place_def by auto
    moreover obtain v where v: "m (Min ?D) = Some v" using k by auto
    moreover have "vn.cycle_map h m = Some v" using behind v unfolding vn.cycle_map_def Let_def by simp
    ultimately show ?thesis by (simp only: option.case) blast
  next
    case around
    have k: "Min (dom m) \<in> dom m" using assms around(2) by (rule Min_in)
    have "\<not> (\<exists>k' \<in> dom m. h \<le> fst k')" using around(1) by blast
    with k have "first_place (dom m) h (Min (dom m))"
      by (simp only: first_place_def if_False simp_thms) (use assms Min_le in blast)
    moreover obtain v where v: "m (Min (dom m)) = Some v" using k by auto
    moreover have "vn.cycle_map h m = Some v" using around v unfolding vn.cycle_map_def Let_def by simp
    ultimately show ?thesis by (simp only: option.case) blast
  next
    case none
    then have "vn.cycle_map h m = None" unfolding vn.cycle_map_def Let_def by simp
    with none show ?thesis by simp
  qed
qed

lemma ring_dom: "ring_ok krch R addr mV mN \<Longrightarrow> dom mV = points (ch_hash_func krch) R"
proof (rule set_eqI)
  fix k assume r: "ring_ok krch R addr mV mN"
  have "k \<in> dom mV \<longleftrightarrow> (\<exists>a i. mV k = Some (a, i))" by auto
  also have "\<dots> \<longleftrightarrow> k \<in> points (ch_hash_func krch) R" unfolding ring_maps(1) [OF r] points_def by blast
  finally show "k \<in> dom mV \<longleftrightarrow> k \<in> points (ch_hash_func krch) R" .
qed

lemma ring_locate_spec:
  assumes r: "ring_ok krch R addr mV mN"
  shows "points (ch_hash_func krch) R = {} \<Longrightarrow> kr_conhash_locate krch obj = Some (krch, None)"
    and "points (ch_hash_func krch) R \<noteq> {} \<Longrightarrow> \<exists>nid krch' n. owner (ch_hash_func krch) R (ch_hash_func krch obj) nid \<and> kr_conhash_locate krch obj = Some (krch', Some (addr nid)) \<and>
      ring_ok krch' R addr mV mN \<and> ch_hash_func krch' = ch_hash_func krch \<and> ch_free_func krch' = ch_free_func krch \<and> ch_nodes krch' (addr nid) = Some n \<and> an_id n = nid"
proof -
  let ?H = "ch_hash_func krch" and ?h = "ch_hash_func krch obj"
  have v: "vskip (ch_nodes krch) (ch_vnode_list krch) mV" using r unfolding ring_ok_def by blast
  have l: "kr_skiplist_lookup_cycle (ch_vnode_list krch) ?h = Some (vn.cycle_map ?h mV)" by (rule vn.map_lookup_cycle [OF v])
  have f: "finite (dom mV)" using vn.map_finite [OF v] by blast
  note c = cycle_first_place [OF f, of ?h, unfolded ring_dom [OF r]]
  show "kr_conhash_locate krch obj = Some (krch, None)" if p: "points ?H R = {}"
  proof -
    have "vn.cycle_map ?h mV = None" using c p unfolding first_place_def by (cases "vn.cycle_map ?h mV") auto
    with l show ?thesis by (simp add: kr_conhash_locate_def)
  qed
  assume "points ?H R \<noteq> {}"
  with c obtain a i k where k: "vn.cycle_map ?h mV = Some (a, i)" "first_place (points ?H R) ?h k" "mV k = Some (a, i)" by (cases "vn.cycle_map ?h mV") auto
  from ring_values(1) [OF r k(3)] obtain nid n where n: "member R nid i" "a = addr nid" "k = keyv ?H nid i" "ch_nodes krch a = Some n"
    "an_vnodes n ! i = place ?H nid a i" "i < length (an_vnodes n)" by blast
  let ?n = "n\<lparr>an_kicks := (an_kicks n + 1) mod 0xFFFFFFFF\<rparr>"
  let ?krch' = "krch\<lparr>ch_nodes := (ch_nodes krch)(a \<mapsto> ?n)\<rparr>"
  have o: "owner ?H R ?h nid" using n(1,3) k(2) unfolding owner_def by blast
  have run: "kr_conhash_locate krch obj = Some (?krch', Some (addr nid))"
    using l k(1) n(2,4-6) by (simp add: kr_conhash_locate_def place_def)
  have r': "ring_ok ?krch' R addr mV mN" by (rule ring_frame [OF r]) (use n(4) in auto)
  obtain w p where "R nid = Some (w, p)" using n(1) by (auto simp: member_def)
  from ring_node [OF r this] n(2,4) have "an_id ?n = nid" by (metis T_KRActualNode.select_convs(2) T_KRActualNode.surjective T_KRActualNode.update_convs(4) is_node_def option.inject)
  with o run r' n(2) show "\<exists>nid krch' n. owner ?H R ?h nid \<and> kr_conhash_locate krch obj = Some (krch', Some (addr nid)) \<and>
      ring_ok krch' R addr mV mN \<and> ch_hash_func krch' = ?H \<and> ch_free_func krch' = ch_free_func krch \<and> ch_nodes krch' (addr nid) = Some n \<and> an_id n = nid"
    by (intro exI [of _ nid] exI [of _ ?krch'] exI [of _ ?n]) simp
qed

end
