(* ===== verification/KR_ConHash_Crc.thy ===== *)
theory KR_ConHash_Crc
  imports KR_ConHash
begin

unbundle bit_operations_syntax

text \<open>The table of the hash function against the division by the generator, bit by bit.\<close>

definition crc_bit :: "u16 \<Rightarrow> u16" where
  "crc_bit w = (if bit w 15 then push_bit 1 w XOR 0x1021 else push_bit 1 w)"

text \<open>The register of a CRC with the generator \<open>x^16 + x^12 + x^5 + 1\<close> after a character.\<close>

definition crc_char :: "u16 \<Rightarrow> char \<Rightarrow> u16" where
  "crc_char w c = (crc_bit ^^ 8) (w XOR push_bit 8 (word_of_nat (uchar c)))"

lemma crc_bit_xor: "crc_bit (v XOR w) = crc_bit v XOR crc_bit w"
  by (auto simp: crc_bit_def bit_xor_iff push_bit_xor ac_simps simp del: push_bit_Suc push_bit_numeral One_nat_def push_bit_of_1)

lemma crc_bits_xor: "(crc_bit ^^ n) (v XOR w) = (crc_bit ^^ n) v XOR (crc_bit ^^ n) w"
  by (induction n) (simp_all add: crc_bit_xor)

lemma crc_bit_low: "\<not> bit w 15 \<Longrightarrow> crc_bit w = push_bit 1 w"
  by (simp add: crc_bit_def)

lemma crc_bits_low: "n \<le> 8 \<Longrightarrow> (crc_bit ^^ n) (take_bit 8 w) = push_bit n (take_bit 8 w)"
proof (induction n)
  case (Suc n)
  then have "\<not> 15 - n < 8" by linarith
  then have "\<not> bit (push_bit n (take_bit 8 w)) 15" by (simp only: bit_push_bit_iff bit_take_bit_iff simp_thms not_False_eq_True)
  with Suc show ?case by (simp add: crc_bit_low push_bit_push_bit)
qed simp

text \<open>An entry of the table from the entry for half the index.\<close>

definition crc_pair :: "u16 \<Rightarrow> u16 list" where
  "crc_pair w = [crc_bit w, crc_bit w XOR 0x1021]"

lemma crc16tab_pairs: "concat (map crc_pair (take 128 crc16tab)) = crc16tab"
  by code_simp

lemma nth_pairs: "h < length ws \<Longrightarrow> concat (map crc_pair ws) ! (2 * h) = crc_bit (ws ! h) \<and> concat (map crc_pair ws) ! (2 * h + 1) = crc_bit (ws ! h) XOR 0x1021"
proof (induction ws arbitrary: h)
  case (Cons w ws)
  then show ?case by (cases h) (simp_all add: crc_pair_def)
qed simp

lemma length_crc16tab: "length crc16tab = 256"
  by (simp add: crc16tab_def)

lemma crc16tab_next:
  assumes "h < 128"
  shows "crc16tab ! (2 * h) = crc_bit (crc16tab ! h)" and "crc16tab ! (2 * h + 1) = crc_bit (crc16tab ! h) XOR 0x1021"
proof -
  have "h < length (take 128 crc16tab)" using assms by (simp add: length_crc16tab)
  from nth_pairs [OF this] assms show "crc16tab ! (2 * h) = crc_bit (crc16tab ! h)" "crc16tab ! (2 * h + 1) = crc_bit (crc16tab ! h) XOR 0x1021"
    unfolding crc16tab_pairs by simp_all
qed

lemma crc16tab_bits: "h < 256 \<Longrightarrow> crc16tab ! h = (crc_bit ^^ 8) (push_bit 8 (word_of_nat h))"
proof (induction h rule: less_induct)
  case (less h)
  show ?case
  proof (cases "h = 0")
    case True
    have "(crc_bit ^^ n) 0 = 0" for n by (induction n) (simp_all add: crc_bit_def)
    with True show ?thesis by (simp add: crc16tab_def)
  next
    case False
    define k where "k = h div 2"
    have k: "k < 128" "k < h" using less.prems False by (auto simp: k_def)
    let ?w = "push_bit 8 (word_of_nat k) :: u16"
    have "k < 2 ^ 7" using k(1) by simp
    then have "\<not> bit k 7" using bit_nat_iff [of 7 k] by (metis bit_iff_odd div_less even_zero)
    then have "crc_bit ?w = push_bit 1 ?w" by (intro crc_bit_low) (simp add: bit_push_bit_iff bit_of_nat_iff)
    also have "\<dots> = push_bit 8 (word_of_nat (2 * k))" by (simp add: push_bit_eq_mult)
    finally have "crc_bit ?w = push_bit 8 (word_of_nat (2 * k))" .
    have even: "crc16tab ! (2 * k) = (crc_bit ^^ 8) (push_bit 8 (word_of_nat (2 * k)))"
    proof -
      have "k < 256" using k(1) by simp
      from less.IH [OF k(2) this] have "crc16tab ! (2 * k) = crc_bit ((crc_bit ^^ 8) ?w)" by (simp only: crc16tab_next(1) [OF k(1)])
      also have "\<dots> = (crc_bit ^^ 8) (crc_bit ?w)" by (rule funpow_swap1)
      finally show ?thesis by (simp only: \<open>crc_bit ?w = push_bit 8 (word_of_nat (2 * k))\<close>)
    qed
    show ?thesis
    proof (cases "even h")
      case True
      then have "h = 2 * k" by (simp add: k_def)
      with even show ?thesis by simp
    next
      case False
      then have h: "h = 2 * k + 1" by (simp add: k_def)
      have one: "(crc_bit ^^ 8) 0x100 = 0x1021" by code_simp
      have "(word_of_nat (2 * k + 1) :: u16) = word_of_nat (2 * k) XOR 1"
        by (simp add: xor_one_eq)
      then have "(push_bit 8 (word_of_nat h) :: u16) = push_bit 8 (word_of_nat (2 * k)) XOR 0x100"
        unfolding h by (simp only: push_bit_xor) (simp add: push_bit_eq_mult)
      then have "(crc_bit ^^ 8) (push_bit 8 (word_of_nat h)) = crc16tab ! (2 * k) XOR 0x1021"
        by (simp only: crc_bits_xor even one)
      then show ?thesis using crc16tab_next [OF k(1)] h by simp
    qed
  qed
qed

lemma crc16_index: "(drop_bit 8 w XOR word_of_int (schar c)) AND 0x00FF = (drop_bit 8 w XOR word_of_nat (uchar c) :: u16)"
proof -
  have m: "(0x00FF :: u16) = mask 8" by (simp add: mask_eq_exp_minus_1)
  have "bit (word_of_int (schar c) :: u16) n = bit (uchar c) n" if "n < 8" for n
  proof -
    have "schar c mod 2 ^ 8 = int (uchar c)" using uchar_less [of c] by (simp add: schar_def Let_def)
    then have "take_bit 8 (schar c) = int (uchar c)" by (simp add: take_bit_eq_mod)
    then have "bit (schar c) n = bit (int (uchar c)) n" using that by (metis bit_take_bit_iff)
    then show ?thesis using that by (simp add: bit_word_of_int_iff bit_of_nat_iff)
  qed
  moreover have "\<not> bit (uchar c) n" if "8 \<le> n" for n
  proof -
    have "uchar c < 2 ^ n" using uchar_less [of c] power_increasing [OF that, of "2 :: nat"] by simp
    then show ?thesis by (simp add: bit_iff_odd)
  qed
  moreover have "bit (drop_bit 8 w) n \<Longrightarrow> n < 8" for n using bit_imp_le_length [of w "8 + n"] by (simp add: bit_drop_bit_eq)
  ultimately show ?thesis unfolding m
  proof (intro bit_word_eqI)
    fix n assume n: "n < LENGTH(16)"
    assume f: "\<And>n. n < 8 \<Longrightarrow> bit (word_of_int (schar c) :: u16) n = bit (uchar c) n" "\<And>n. 8 \<le> n \<Longrightarrow> \<not> bit (uchar c) n" "\<And>n. bit (drop_bit 8 w) n \<Longrightarrow> n < 8"
    show "bit ((drop_bit 8 w XOR word_of_int (schar c)) AND mask 8) n = bit (drop_bit 8 w XOR word_of_nat (uchar c)) n"
    proof (cases "n < 8")
      case True
      with f(1) [OF True] n show ?thesis by (simp add: bit_and_iff bit_xor_iff bit_mask_iff bit_of_nat_iff)
    next
      case False
      with f(2,3) [of n] n show ?thesis by (auto simp: bit_and_iff bit_xor_iff bit_mask_iff bit_of_nat_iff)
    qed
  qed
qed

lemma crc16_step_bits: "crc16_step w c = crc_char w c"
proof -
  let ?b = "word_of_nat (uchar c) :: u16"
  let ?h = "unat (drop_bit 8 w XOR ?b)"
  have "?h < 256"
  proof -
    have "drop_bit 8 w XOR ?b = (drop_bit 8 w XOR word_of_int (schar c)) AND mask 8" by (simp add: mask_eq_exp_minus_1 flip: crc16_index)
    also have "unat \<dots> < 2 ^ 8" by (simp only: take_bit_eq_mask [symmetric] unsigned_take_bit_eq take_bit_nat_less_exp)
    finally show ?thesis by simp
  qed
  from crc16tab_bits [OF this] have t: "crc16tab ! ?h = (crc_bit ^^ 8) (push_bit 8 (drop_bit 8 w XOR ?b))" by simp
  have "push_bit 8 (drop_bit 8 w) XOR take_bit 8 w = w" by (rule bit_word_eqI) (auto simp: bit_simps)
  then have "(push_bit 8 (drop_bit 8 w) XOR take_bit 8 w) XOR push_bit 8 ?b = w XOR push_bit 8 ?b" by (simp only:)
  then have "w XOR push_bit 8 ?b = push_bit 8 (drop_bit 8 w XOR ?b) XOR take_bit 8 w" 
    by (simp only: push_bit_xor xor.assoc xor.commute [of "take_bit 8 w"])
  then have "crc_char w c = (crc_bit ^^ 8) (push_bit 8 (drop_bit 8 w XOR ?b) XOR take_bit 8 w)" by (simp only: crc_char_def)
  also have "\<dots> = crc16tab ! ?h XOR (crc_bit ^^ 8) (take_bit 8 w)" unfolding t by (rule crc_bits_xor)
  also have "\<dots> = crc16tab ! ?h XOR push_bit 8 (take_bit 8 w)" by (simp only: crc_bits_low [OF order.refl])
  finally have "crc_char w c = crc16tab ! ?h XOR push_bit 8 (take_bit 8 w)" .
  moreover have "push_bit 8 (take_bit 8 w) = push_bit 8 w" by (rule bit_word_eqI) (auto simp: bit_simps)
  ultimately have "crc_char w c = crc16tab ! ?h XOR push_bit 8 w" by (simp only:)
  also have "\<dots> = push_bit 8 w XOR crc16tab ! ?h" by (rule xor.commute)
  finally show ?thesis by (simp only: crc16_step_def crc16_index)
qed

end
