(* ===== verification/KR_ConHash_Props.thy ===== *)
theory KR_ConHash_Props
  imports KR_ConHash_Ring KR_ConHash_Crc
begin

text \<open>The skip list is a sorted map, the hash function a CRC, the ring a consistent hash.\<close>

section \<open>Histories of a skip list\<close>

datatype 'v skip_op = Sk_insert "nat \<Rightarrow> nat" u32 'v | Sk_delete u32 'v | Sk_lookup u32 'v | Sk_cycle u32 | Sk_foreach

datatype 'v skip_out = Sk_unit | Sk_ret int | Sk_value "'v option" | Sk_values "'v list"

fun skip_step :: "'v compare \<Rightarrow> 'v skip_op \<Rightarrow> 'v T_KRSkipList \<Rightarrow> ('v T_KRSkipList \<times> 'v skip_out) option" where
  "skip_step cmp (Sk_insert r key v) sl = do { (sl', x) \<leftarrow> kr_skiplist_insert cmp r sl key v; Some (sl', Sk_unit) }"
| "skip_step cmp (Sk_delete key v) sl = do { (sl', ret) \<leftarrow> kr_skiplist_delete cmp sl key v; Some (sl', Sk_ret ret) }"
| "skip_step cmp (Sk_lookup key v) sl = do { x \<leftarrow> kr_skiplist_lookup cmp sl key v; Some (sl, Sk_value x) }"
| "skip_step cmp (Sk_cycle key) sl = do { x \<leftarrow> kr_skiplist_lookup_cycle sl key; Some (sl, Sk_value x) }"
| "skip_step cmp Sk_foreach sl = do { xs \<leftarrow> kr_skiplist_foreach sl; Some (sl, Sk_values xs) }"

fun skip_run :: "'v compare \<Rightarrow> 'v skip_op list \<Rightarrow> 'v T_KRSkipList \<Rightarrow> ('v T_KRSkipList \<times> 'v skip_out list) option" where
  "skip_run cmp [] sl = Some (sl, [])"
| "skip_run cmp (op # ops) sl = do {
     (sl1, out) \<leftarrow> skip_step cmp op sl;
     (sl2, outs) \<leftarrow> skip_run cmp ops sl1;
     Some (sl2, out # outs)
   }"

text \<open>The same on a map from key and label to value.\<close>

definition least :: "('k :: linorder \<Rightarrow> 'v option) \<Rightarrow> 'k set \<Rightarrow> 'v option" where
  "least m D = m (Min D)"

fun map_step :: "('v \<Rightarrow> 'l :: linorder) \<Rightarrow> 'v skip_op \<Rightarrow> (u32 \<times> 'l \<Rightarrow> 'v option) \<Rightarrow> (u32 \<times> 'l \<Rightarrow> 'v option) \<times> 'v skip_out" where
  "map_step lab (Sk_insert r key v) m = (m((key, lab v) \<mapsto> v), Sk_unit)"
| "map_step lab (Sk_delete key v) m = (m((key, lab v) := None), Sk_ret (if m (key, lab v) = None then - 1 else 0))"
| "map_step lab (Sk_lookup key v) m = (m, Sk_value (m (key, lab v)))"
| "map_step lab (Sk_cycle key) m = (m, Sk_value (
     if \<exists>k \<in> dom m. key \<le> fst k then least m {k \<in> dom m. key \<le> fst k} else if dom m \<noteq> {} then least m (dom m) else None))"
| "map_step lab Sk_foreach m = (m, Sk_values (map (\<lambda>k. the (m k)) (sorted_list_of_set (dom m))))"

fun map_run :: "('v \<Rightarrow> 'l :: linorder) \<Rightarrow> 'v skip_op list \<Rightarrow> (u32 \<times> 'l \<Rightarrow> 'v option) \<Rightarrow> (u32 \<times> 'l \<Rightarrow> 'v option) \<times> 'v skip_out list" where
  "map_run lab [] m = (m, [])"
| "map_run lab (op # ops) m = (let (m1, out) = map_step lab op m; (m2, outs) = map_run lab ops m1 in (m2, out # outs))"

fun skip_arg :: "'v skip_op \<Rightarrow> 'v set" where
  "skip_arg (Sk_insert r key v) = {v}"
| "skip_arg (Sk_delete key v) = {v}"
| "skip_arg (Sk_lookup key v) = {v}"
| "skip_arg _ = {}"

context skip_compare
begin

lemma step_refines:
  assumes "skip_map sl m" and "\<forall>v \<in> skip_arg op. valid v"
  shows "\<exists>sl'. skip_step cmp op sl = Some (sl', snd (map_step lab op m)) \<and> skip_map sl' (fst (map_step lab op m))"
proof (cases op)
  case (Sk_insert r key v)
  with map_insert [OF assms(1), of v r key] assms(2) show ?thesis by auto
next
  case (Sk_delete key v)
  with map_delete [OF assms(1), of v key] assms(2) show ?thesis by auto
next
  case (Sk_lookup key v)
  with map_lookup [OF assms(1), of v key] assms show ?thesis by auto
next
  case (Sk_cycle key)
  have "{k \<in> dom m. key \<le> fst k} \<noteq> {} \<longleftrightarrow> (\<exists>k \<in> dom m. key \<le> fst k)" by blast
  then have "cycle_map key m = (if \<exists>k \<in> dom m. key \<le> fst k then least m {k \<in> dom m. key \<le> fst k} else if dom m \<noteq> {} then least m (dom m) else None)"
    unfolding cycle_map_def least_def Let_def by (simp only:)
  with Sk_cycle map_lookup_cycle [OF assms(1), of key] assms(1) show ?thesis by (simp only: skip_step.simps map_step.simps) simp
next
  case Sk_foreach
  with map_foreach [OF assms(1)] assms(1) show ?thesis by simp
qed

lemma run_refines:
  assumes "skip_map sl m" and "\<forall>op \<in> set ops. \<forall>v \<in> skip_arg op. valid v"
  shows "\<exists>sl'. skip_run cmp ops sl = Some (sl', snd (map_run lab ops m)) \<and> skip_map sl' (fst (map_run lab ops m))"
  using assms
proof (induction ops arbitrary: sl m)
  case (Cons op ops)
  have "\<forall>v \<in> skip_arg op. valid v" using Cons.prems(2) by simp
  from step_refines [OF Cons.prems(1) this] obtain sl1 where
    s: "skip_step cmp op sl = Some (sl1, snd (map_step lab op m))" "skip_map sl1 (fst (map_step lab op m))" by blast
  from Cons.IH [OF s(2)] Cons.prems(2) obtain sl2 where
    "skip_run cmp ops sl1 = Some (sl2, snd (map_run lab ops (fst (map_step lab op m))))" "skip_map sl2 (fst (map_run lab ops (fst (map_step lab op m))))" by auto
  with s(1) show ?case by (simp add: Let_def split_beta)
qed simp

end

text \<open>Strings, compared with \<open>strcmp\<close>.\<close>

definition strcmp_c :: "string compare" where
  "strcmp_c s t = Some (c_strcmp s t)"

interpretation str: skip_compare strcmp_c "\<lambda>s. s" c_string
  by unfold_locales (simp add: strcmp_c_def c_strcmp_less c_strcmp_0_iff)

section \<open>Histories of a ring\<close>

datatype 'p ring_op = R_add "nat \<Rightarrow> nat \<Rightarrow> nat" string u32 'p | R_remove string | R_adjust "nat \<Rightarrow> nat \<Rightarrow> nat" string u32 | R_locate string

fun ring_step :: "'p \<Rightarrow> 'p ring_op \<Rightarrow> 'p T_KRConHash \<Rightarrow> 'p T_KRConHash option" where
  "ring_step null (R_add r nid w p) krch = map_option fst (kr_conhash_add r krch nid w p)"
| "ring_step null (R_remove nid) krch = map_option fst (kr_conhash_remove null krch nid)"
| "ring_step null (R_adjust r nid w) krch = map_option fst (kr_conhash_adjust_weights r null krch nid w)"
| "ring_step null (R_locate obj) krch = map_option fst (kr_conhash_locate krch obj)"

fun ring_run :: "'p \<Rightarrow> 'p ring_op list \<Rightarrow> 'p T_KRConHash \<Rightarrow> 'p T_KRConHash option" where
  "ring_run null [] krch = Some krch"
| "ring_run null (op # ops) krch = do { krch1 \<leftarrow> ring_step null op krch; ring_run null ops krch1 }"

text \<open>The nodes that are on the ring, with weights and private data.\<close>

fun members_step :: "'p ring_op \<Rightarrow> 'p members \<Rightarrow> 'p members" where
  "members_step (R_add r nid w p) R = R(nid \<mapsto> (w, p))"
| "members_step (R_remove nid) R = R(nid := None)"
| "members_step (R_adjust r nid w) R = (case R nid of None \<Rightarrow> R | Some (_, p) \<Rightarrow> R(nid \<mapsto> (w, p)))"
| "members_step (R_locate obj) R = R"

definition members :: "'p ring_op list \<Rightarrow> 'p members \<Rightarrow> 'p members" where
  "members ops R = foldl (\<lambda>R op. members_step op R) R ops"

text \<open>Identifiers are short strings, a node is not added twice, and an \<open>int\<close> can count the weights.\<close>

fun ring_op_ok :: "'p ring_op \<Rightarrow> 'p members \<Rightarrow> bool" where
  "ring_op_ok (R_add r nid w p) R \<longleftrightarrow> nid_ok nid \<and> R nid = None \<and> unat w < 2 ^ 31"
| "ring_op_ok (R_remove nid) R \<longleftrightarrow> nid_ok nid"
| "ring_op_ok (R_adjust r nid w) R \<longleftrightarrow> nid_ok nid \<and> unat w < 2 ^ 31"
| "ring_op_ok (R_locate obj) R \<longleftrightarrow> True"

fun ring_ops_ok :: "'p ring_op list \<Rightarrow> 'p members \<Rightarrow> bool" where
  "ring_ops_ok [] R \<longleftrightarrow> True"
| "ring_ops_ok (op # ops) R \<longleftrightarrow> ring_op_ok op R \<and> ring_ops_ok ops (members_step op R)"

definition ring_state :: "(string \<Rightarrow> u32) \<Rightarrow> bool \<Rightarrow> 'p T_KRConHash \<Rightarrow> 'p members \<Rightarrow> bool" where
  "ring_state H ff krch R \<longleftrightarrow> ch_hash_func krch = H \<and> ch_free_func krch = ff \<and> (\<exists>addr mV mN. ring_ok krch R addr mV mN)"

lemma construct_state: "ring_state (case hf of Some f \<Rightarrow> f | None \<Rightarrow> kr_crc16_hash) ff (kr_conhash_construct hf ff) Map.empty"
  using vn.map_create nn.map_create
  by (auto simp: ring_state_def ring_ok_def kr_conhash_construct_def member_def intro!: exI [of _ "\<lambda>_. 0"] exI [of _ Map.empty])

lemma step_state:
  assumes "ring_state H ff krch R" and "ring_op_ok op R"
  shows "\<exists>krch'. ring_step null op krch = Some krch' \<and> ring_state H ff krch' (members_step op R)"
proof -
  from assms(1) obtain addr mV mN where H: "ch_hash_func krch = H" "ch_free_func krch = ff" and r: "ring_ok krch R addr mV mN" by (auto simp: ring_state_def)
  show ?thesis
  proof (cases op)
    case (R_add rnd nid w p)
    with ring_add_spec [OF r, of nid w rnd p] assms(2) H show ?thesis by (fastforce simp: ring_state_def)
  next
    case (R_remove nid)
    with ring_remove_spec [OF r, of nid null] assms(2) H show ?thesis by (fastforce simp: ring_state_def)
  next
    case (R_adjust rnd nid w)
    show ?thesis
    proof (cases "R nid")
      case None
      with R_adjust assms(2) ring_lookup_spec [OF r, of nid null] show ?thesis using assms(1) by (simp add: kr_conhash_adjust_weights_def)
    next
      case (Some wp)
      then obtain w0 p where "R nid = Some (w0, p)" by (cases wp) simp
      with ring_adjust_spec [OF r _ this, of w rnd null] R_adjust assms(2) H show ?thesis by (fastforce simp: ring_state_def)
    qed
  next
    case (R_locate obj)
    show ?thesis
    proof (cases "points H R = {}")
      case True
      with ring_locate_spec(1) [OF r, of obj] H R_locate assms(1) show ?thesis by simp
    next
      case False
      with ring_locate_spec(2) [OF r, of obj] H R_locate show ?thesis by (fastforce simp: ring_state_def)
    qed
  qed
qed

lemma run_state:
  assumes "ring_state H ff krch R" and "ring_ops_ok ops R"
  shows "\<exists>krch'. ring_run null ops krch = Some krch' \<and> ring_state H ff krch' (members ops R)"
  using assms
proof (induction ops arbitrary: krch R)
  case (Cons op ops)
  from step_state [OF Cons.prems(1), of op null] Cons.prems(2) obtain krch1 where
    "ring_step null op krch = Some krch1" "ring_state H ff krch1 (members_step op R)" by auto
  with Cons.IH [of krch1 "members_step op R"] Cons.prems(2) show ?case by (auto simp: members_def)
qed (simp add: members_def)

text \<open>The identifier of the node an object is located at.\<close>

definition located :: "'p T_KRConHash \<Rightarrow> string \<Rightarrow> string option option" where
  "located krch obj = do {
     (krch1, a) \<leftarrow> kr_conhash_locate krch obj;
     (case a of None \<Rightarrow> Some None | Some a \<Rightarrow> do { n \<leftarrow> ch_nodes krch1 a; Some (Some (an_id n)) })
   }"

lemma located_spec:
  assumes "ring_state H ff krch R"
  shows "points H R = {} \<Longrightarrow> located krch obj = Some None" and "points H R \<noteq> {} \<Longrightarrow> \<exists>nid. located krch obj = Some (Some nid) \<and> owner H R (H obj) nid"
proof -
  from assms obtain addr mV mN where H: "ch_hash_func krch = H" and r: "ring_ok krch R addr mV mN" by (auto simp: ring_state_def)
  show "points H R = {} \<Longrightarrow> located krch obj = Some None" using ring_locate_spec(1) [OF r, of obj] H by (simp add: located_def)
  show "points H R \<noteq> {} \<Longrightarrow> \<exists>nid. located krch obj = Some (Some nid) \<and> owner H R (H obj) nid" using ring_locate_spec(2) [OF r, of obj] H by (fastforce simp: located_def)
qed

definition ring_ids_ok :: "'p members \<Rightarrow> bool" where
  "ring_ids_ok R \<longleftrightarrow> (\<forall>nid w p. R nid = Some (w, p) \<longrightarrow> nid_ok nid \<and> unat w < 2 ^ 31)"

lemma state_ids: "ring_state H ff krch R \<Longrightarrow> ring_ids_ok R"
  unfolding ring_state_def ring_ids_ok_def by (metis ring_node)

lemma owner_unique:
  assumes "ring_ids_ok R" and "owner H R h x" and "owner H R h y"
  shows "x = y"
proof -
  from assms(2,3) obtain i j where m: "member R x i" "member R y j" "first_place (points H R) h (keyv H x i)" "first_place (points H R) h (keyv H y j)"
    by (auto simp: owner_def)
  have "vnode_id x i = vnode_id y j" using first_place_unique [OF m(3,4)] by (simp add: keyv_def)
  moreover have "nid_ok x" "i < 2 ^ 32" "nid_ok y" "j < 2 ^ 32" using assms(1) m(1,2) by (fastforce simp: ring_ids_ok_def member_def)+
  ultimately show ?thesis using vnode_id_inj by blast
qed

text \<open>A node more takes objects from the others, but moves none between them.\<close>

lemma owner_without:
  assumes "owner H R h x" and "x \<noteq> nid"
  shows "owner H (R(nid := None)) h x"
proof -
  from assms(1) obtain i where m: "member R x i" "first_place (points H R) h (keyv H x i)" by (auto simp: owner_def)
  have "member (R(nid := None)) x i" using m(1) assms(2) by (simp add: member_def)
  moreover have "points H (R(nid := None)) \<subseteq> points H R" by (auto simp: points_def member_def split: if_splits)
  ultimately have "first_place (points H (R(nid := None))) h (keyv H x i)" using first_place_subset [OF m(2)] by (auto simp: points_def)
  with \<open>member (R(nid := None)) x i\<close> show ?thesis unfolding owner_def by blast
qed

lemma located_without:
  assumes s: "ring_state H ff krch R" "ring_state H ff krch' (R(nid := None))"
  shows "\<exists>x y. located krch obj = Some x \<and> located krch' obj = Some y \<and> (x = y \<or> x = Some nid)"
proof (cases "points H R = {}")
  case True
  then have "points H (R(nid := None)) = {}" by (auto simp: points_def member_def split: if_splits)
  with True located_spec(1) [OF s(1)] located_spec(1) [OF s(2)] show ?thesis by simp
next
  case False
  from located_spec(2) [OF s(1) this, of obj] obtain x where x: "located krch obj = Some (Some x)" "owner H R (H obj) x" by blast
  show ?thesis
  proof (cases "x = nid")
    case True
    with x(1) located_spec [OF s(2), of obj] show ?thesis by (cases "points H (R(nid := None)) = {}") auto
  next
    case False
    note o = owner_without [OF x(2) False]
    then have "points H (R(nid := None)) \<noteq> {}" by (auto simp: owner_def first_place_def)
    from located_spec(2) [OF s(2) this, of obj] obtain y where y: "located krch' obj = Some (Some y)" "owner H (R(nid := None)) (H obj) y" by blast
    have "y = x" using owner_unique [OF state_ids [OF s(2)] y(2) o] .
    with x(1) y(1) show ?thesis by simp
  qed
qed

section \<open>Properties\<close>

text \<open>C32. A skip list is a sorted map: every history of insertions, deletions and searches on a new list, with whatever heights the random
  numbers give the nodes, ends without touching freed memory and returns what the same history returns on a map from key and label (the
  part of a value the compare function looks at) to value. A search around the cycle returns the value at the least key not below
  the given one or else at the least key of all, and the values are visited in the order of key and label. The compare function has
  to order the values by their labels.\<close>

theorem skiplist_refines_map:
  fixes lab :: "'v \<Rightarrow> 'l :: linorder"
  assumes "\<And>v w. valid v \<Longrightarrow> valid w \<Longrightarrow> \<exists>c. cmp v w = Some c \<and> (c < 0 \<longleftrightarrow> lab v < lab w) \<and> (c = 0 \<longleftrightarrow> lab v = lab w)"
    and "\<forall>op \<in> set ops. \<forall>v \<in> skip_arg op. valid v"
  shows "\<exists>sl. skip_run cmp ops kr_skiplist_create = Some (sl, snd (map_run lab ops Map.empty)) \<and>
    sl_length sl = word_of_nat (card (dom (fst (map_run lab ops Map.empty))))"
proof -
  have l: "skip_compare cmp lab valid" using assms(1) by unfold_locales
  from skip_compare.run_refines [OF l skip_compare.map_create [OF l] assms(2)] skip_compare.map_finite [OF l] show ?thesis by blast
qed

theorem skiplist_refines_map_witness:
  "\<exists>sl. skip_run strcmp_c [Sk_insert (\<lambda>i. i) 5 ''b'', Sk_insert (\<lambda>i. 0) 5 ''a'', Sk_lookup 5 ''a'', Sk_delete 5 ''b'', Sk_lookup 5 ''b''] kr_skiplist_create =
    Some (sl, [Sk_unit, Sk_unit, Sk_value (Some ''a''), Sk_ret 0, Sk_value None]) \<and> sl_length sl = 1"
proof -
  have "\<exists>c. strcmp_c v w = Some c \<and> (c < 0 \<longleftrightarrow> v < w) \<and> (c = 0 \<longleftrightarrow> v = w)" if "c_string v" "c_string w" for v w
    using str.cmp_spec that by blast
  from skiplist_refines_map [where lab = "\<lambda>s. s" and valid = c_string, OF this, of "[Sk_insert (\<lambda>i. i) 5 ''b'', Sk_insert (\<lambda>i. 0) 5 ''a'', Sk_lookup 5 ''a'', Sk_delete 5 ''b'', Sk_lookup 5 ''b'']"]
  show ?thesis by simp
qed

text \<open>C33. The default hash function is the CRC of the string with the generator \<open>x^16 + x^12 + x^5 + 1\<close> and the start value zero: the
  table gives for every register and every character what eight steps of the division, one per bit, give.\<close>

theorem crc16_is_crc: "kr_crc16_hash str = ucast (foldl crc_char 0 str)"
proof -
  have "foldl crc16_step w str = foldl crc_char w str" for w
    by (induction str arbitrary: w) (simp_all add: crc16_step_bits)
  then show ?thesis by (simp add: kr_crc16_hash_def)
qed



text \<open>C35. The hash is consistent. On the ring any history of calls has built: if a node that is not a member is added, every object stays
  where it was or moves to the new node; if a member is removed, whichever it is, only the objects that were located at it move; and removing
  a node that is no member answers -1 and moves no object.\<close>

theorem conhash_is_consistent:
  assumes "ring_ops_ok ops Map.empty" and "ring_run null ops (kr_conhash_construct (Some H) ff) = Some krch" and "nid_ok nid" and "unat w < 2 ^ 31"
  shows "(members ops Map.empty nid = None \<longrightarrow>
      (\<exists>krch'. kr_conhash_add r krch nid w p = Some (krch', 0) \<and>
        (\<forall>obj. \<exists>x y. located krch obj = Some x \<and> located krch' obj = Some y \<and> (y = x \<or> y = Some nid)))) \<and>
    (members ops Map.empty nid \<noteq> None \<longrightarrow>
      (\<exists>krch'. kr_conhash_remove null krch nid = Some (krch', 0) \<and>
        (\<forall>obj. \<exists>x y. located krch obj = Some x \<and> located krch' obj = Some y \<and> y \<noteq> Some nid \<and> (y = x \<or> x = Some nid)))) \<and>
    (members ops Map.empty nid = None \<longrightarrow>
      (\<exists>krch'. kr_conhash_remove null krch nid = Some (krch', - 1) \<and>
        (\<forall>obj. \<exists>x. located krch obj = Some x \<and> located krch' obj = Some x)))"
proof -
  let ?R = "members ops Map.empty"
  from run_state [OF construct_state assms(1), of null "Some H" ff] assms(2) have s: "ring_state H ff krch ?R" by auto
  then obtain addr mV mN where H: "ch_hash_func krch = H" "ch_free_func krch = ff" and rk: "ring_ok krch ?R addr mV mN" by (auto simp: ring_state_def)
  have add: "\<exists>krch'. kr_conhash_add r krch nid w p = Some (krch', 0) \<and>
      (\<forall>obj. \<exists>x y. located krch obj = Some x \<and> located krch' obj = Some y \<and> (y = x \<or> y = Some nid))" if R: "?R nid = None"
  proof -
    have RR: "?R(nid \<mapsto> (w, p), nid := None) = ?R" using R by auto
    from ring_add_spec [OF rk assms(3) R assms(4), of r p] H obtain krch' where
      a: "kr_conhash_add r krch nid w p = Some (krch', 0)" "ring_state H ff krch' (?R(nid \<mapsto> (w, p)))" by (fastforce simp: ring_state_def)
    with located_without [OF a(2), where nid = nid, unfolded RR, OF s] show ?thesis by metis
  qed
  from ring_remove_spec [OF rk assms(3), of null] H obtain krch' where
    d: "kr_conhash_remove null krch nid = Some (krch', if ?R nid = None then - 1 else 0)" "ring_state H ff krch' (?R(nid := None))"
    by (fastforce simp: ring_state_def)
  note moved = located_without [OF s d(2)]
  have gone: "located krch' obj \<noteq> Some (Some nid)" for obj
    using located_spec [OF d(2), of obj] by (cases "points H (?R(nid := None)) = {}") (auto simp: owner_def member_def)
  have "\<exists>x. located krch obj = Some x \<and> located krch' obj = Some x" if "?R nid = None" for obj
  proof -
    from that have "?R(nid := None) = ?R" by auto
    with d(2) have s': "ring_state H ff krch' ?R" by simp
    show ?thesis
    proof (cases "points H ?R = {}")
      case True
      with located_spec(1) [OF s] located_spec(1) [OF s'] show ?thesis by blast
    next
      case False
      from located_spec(2) [OF s this] located_spec(2) [OF s' this] owner_unique [OF state_ids [OF s]] show ?thesis by metis
    qed
  qed
  note same = this
  have left: "\<forall>obj. \<exists>x y. located krch obj = Some x \<and> located krch' obj = Some y \<and> y \<noteq> Some nid \<and> (y = x \<or> x = Some nid)"
    using moved gone by metis
  show ?thesis
  proof (intro conjI impI)
    assume "?R nid \<noteq> None"
    with d(1) left show "\<exists>krch'. kr_conhash_remove null krch nid = Some (krch', 0) \<and>
        (\<forall>obj. \<exists>x y. located krch obj = Some x \<and> located krch' obj = Some y \<and> y \<noteq> Some nid \<and> (y = x \<or> x = Some nid))"
      by auto
  next
    assume "?R nid = None"
    with d(1) same show "\<exists>krch'. kr_conhash_remove null krch nid = Some (krch', - 1) \<and>
        (\<forall>obj. \<exists>x. located krch obj = Some x \<and> located krch' obj = Some x)"
      by auto
  qed (rule add)
qed

text \<open>Of two members, the first is removed, and a third is added.\<close>

theorem conhash_is_consistent_witness:
  "\<exists>krch krch' krch''. ring_run 0 [R_add (\<lambda>i j. i) ''a'' 2 (7 :: nat), R_add (\<lambda>i j. j) ''c'' 1 9] (kr_conhash_construct (Some kr_crc16_hash) True) = Some krch \<and>
    kr_conhash_add (\<lambda>i j. j) krch ''b'' 3 8 = Some (krch', 0) \<and>
    (\<forall>obj. \<exists>x y. located krch obj = Some x \<and> located krch' obj = Some y \<and> (y = x \<or> y = Some ''b'')) \<and>
    kr_conhash_remove 0 krch ''a'' = Some (krch'', 0) \<and>
    (\<forall>obj. \<exists>x y. located krch obj = Some x \<and> located krch'' obj = Some y \<and> y \<noteq> Some ''a'' \<and> (y = x \<or> x = Some ''a''))"
proof -
  let ?ops = "[R_add (\<lambda>i j. i) ''a'' 2 (7 :: nat), R_add (\<lambda>i j. j) ''c'' 1 9]"
  have ok: "ring_ops_ok ?ops Map.empty" "nid_ok ''b''" "nid_ok ''a''" "unat (3 :: u32) < 2 ^ 31" by (simp_all add: nid_ok_def)
  have R: "members ?ops Map.empty ''b'' = None" "members ?ops Map.empty ''a'' \<noteq> None" by (simp_all add: members_def)
  from run_state [OF construct_state ok(1), of 0 "Some kr_crc16_hash" True] obtain krch where
    k: "ring_run 0 ?ops (kr_conhash_construct (Some kr_crc16_hash) True) = Some krch" by auto
  from conhash_is_consistent [OF ok(1) k ok(2,4), of "\<lambda>i j. j" 8] conhash_is_consistent [OF ok(1) k ok(3,4)] R k show ?thesis by blast
qed

text \<open>C36. Changing the weight of a node frees its private data although the node that takes its place goes on using it: after the call
  the node is found under its identifier, with the private data that the free function has been called on.\<close>

theorem conhash_adjust_frees_private:
  assumes "ring_ops_ok ops Map.empty" and "ring_run null ops (kr_conhash_construct (Some H) True) = Some krch"
    and "members ops Map.empty nid = Some (w, p)" and "nid_ok nid" and "unat w' < 2 ^ 31"
  shows "\<exists>krch' a n. kr_conhash_adjust_weights r null krch nid w' = Some (krch', 0) \<and> kr_conhash_lookup null krch' nid = Some (Some a) \<and>
    ch_nodes krch' a = Some n \<and> an_weights n = w' \<and> an_priv n = p \<and> p \<in> set (ch_freed krch')"
proof -
  let ?R = "members ops Map.empty"
  from run_state [OF construct_state assms(1), of null "Some H" True] assms(2) obtain addr mV mN where
    f: "ch_free_func krch" and rk: "ring_ok krch ?R addr mV mN" by (auto simp: ring_state_def)
  from ring_adjust_spec [OF rk assms(4,3,5), of r null] f obtain krch' addr' mV' mN' where
    a: "kr_conhash_adjust_weights r null krch nid w' = Some (krch', 0)" "ring_ok krch' (?R(nid \<mapsto> (w', p))) addr' mV' mN'" "ch_freed krch' = ch_freed krch @ [p]" by auto
  have R: "(?R(nid \<mapsto> (w', p))) nid = Some (w', p)" by simp
  obtain n where n: "ch_nodes krch' (addr' nid) = Some n" "an_weights n = w'" "an_priv n = p"
    using ring_node [OF a(2) R] unfolding is_node_def by metis
  from ring_lookup_spec [OF a(2) assms(4), of null] R have "kr_conhash_lookup null krch' nid = Some (Some (addr' nid))" by simp
  with a(1,3) n show ?thesis by (intro exI [of _ krch'] exI [of _ "addr' nid"] exI [of _ n]) simp
qed

theorem conhash_adjust_frees_private_witness:
  "\<exists>krch krch' a n. ring_run 0 [R_add (\<lambda>i j. i) ''a'' 2 (7 :: nat)] (kr_conhash_construct (Some kr_crc16_hash) True) = Some krch \<and>
    kr_conhash_adjust_weights (\<lambda>i j. j) 0 krch ''a'' 3 = Some (krch', 0) \<and> kr_conhash_lookup 0 krch' ''a'' = Some (Some a) \<and>
    ch_nodes krch' a = Some n \<and> an_priv n = 7 \<and> 7 \<in> set (ch_freed krch')"
proof -
  let ?ops = "[R_add (\<lambda>i j. i) ''a'' 2 (7 :: nat)]"
  have ok: "ring_ops_ok ?ops Map.empty" "nid_ok ''a''" "unat (3 :: u32) < 2 ^ 31" by (simp_all add: nid_ok_def)
  have R: "members ?ops Map.empty ''a'' = Some (2, 7)" by (simp add: members_def)
  from run_state [OF construct_state ok(1), of 0 "Some kr_crc16_hash" True] obtain krch where
    k: "ring_run 0 ?ops (kr_conhash_construct (Some kr_crc16_hash) True) = Some krch" by auto
  from conhash_adjust_frees_private [OF ok(1) k R ok(2,3), of "\<lambda>i j. j"] k show ?thesis by blast
qed

end
