(* ===== verification/KR_Event.thy ===== *)
theory KR_Event
  imports KR_Prelude
begin

unbundle bit_operations_syntax

text \<open>
  \<open>krutils/kr_event.c\<close> over \<open>kr_event_epoll.c\<close>: the loop that waits for descriptors and timers and calls their handlers. The
  kernel's table of interests is part of the state. Handlers may use the loop and change the world (\<open>'e\<close>); they, the
  clock and what \<open>epoll_wait\<close> reports are parameters. A time event is identified by its number, which no two of a loop
  share: it has been freed when its number is not in the list any more. Times are integers, descriptors not negative.
\<close>

section \<open>Data\<close>

definition KR_EVENT_NONE :: u32 where "KR_EVENT_NONE = 0"
definition KR_EVENT_READABLE :: u32 where "KR_EVENT_READABLE = 1"
definition KR_EVENT_WRITABLE :: u32 where "KR_EVENT_WRITABLE = 2"
definition KR_EVENT_FILE_EVENTS :: u32 where "KR_EVENT_FILE_EVENTS = 1"
definition KR_EVENT_TIME_EVENTS :: u32 where "KR_EVENT_TIME_EVENTS = 2"
definition KR_EVENT_ALL_EVENTS :: u32 where "KR_EVENT_ALL_EVENTS = KR_EVENT_FILE_EVENTS OR KR_EVENT_TIME_EVENTS"
definition KR_EVENT_DONT_WAIT :: u32 where "KR_EVENT_DONT_WAIT = 4"
definition KR_EVENT_NOMORE :: int where "KR_EVENT_NOMORE = - 1"

definition has :: "u32 \<Rightarrow> u32 \<Rightarrow> bool" where
  "has msk bits \<longleftrightarrow> msk AND bits \<noteq> 0"

text \<open>Only the mask of a new entry is set; what has not been set is \<^term>\<open>None\<close>.\<close>

record ('f, 'd) T_KRFileEvent =
  fe_mask :: u32
  fe_rfile :: "'f option"
  fe_wfile :: "'f option"
  fe_data :: "'d option"

record ('t, 'd) T_KRTimeEvent =
  te_id :: int
  te_sec :: int
  te_ms :: int
  te_proc :: 't
  te_final :: "'t option"
  te_data :: 'd

record ('f, 't, 'd) T_KREventLoop =
  el_maxfd :: int
  el_setsize :: nat
  el_next :: int
  el_events :: "('f, 'd) T_KRFileEvent list"
  el_time :: "('t, 'd) T_KRTimeEvent list"
  el_stop :: bool
  el_beforesleep :: "'t option"
  el_epoll :: "nat \<Rightarrow> u32 option"

definition kr_event_loop_create :: "nat \<Rightarrow> ('f, 't, 'd) T_KREventLoop" where
  "kr_event_loop_create setsize = \<lparr>el_maxfd = - 1, el_setsize = setsize, el_next = 0,
     el_events = replicate setsize \<lparr>fe_mask = KR_EVENT_NONE, fe_rfile = None, fe_wfile = None, fe_data = None\<rparr>,
     el_time = [], el_stop = False, el_beforesleep = None, el_epoll = (\<lambda>_. None)\<rparr>"

definition kr_event_loop_stop :: "('f, 't, 'd) T_KREventLoop \<Rightarrow> ('f, 't, 'd) T_KREventLoop" where
  "kr_event_loop_stop el = el\<lparr>el_stop := True\<rparr>"

definition kr_event_set_before_sleep_proc :: "('f, 't, 'd) T_KREventLoop \<Rightarrow> 't option \<Rightarrow> ('f, 't, 'd) T_KREventLoop" where
  "kr_event_set_before_sleep_proc el beforesleep = el\<lparr>el_beforesleep := beforesleep\<rparr>"

section \<open>epoll\<close>

definition EPOLLIN :: u32 where "EPOLLIN = 1"
definition EPOLLOUT :: u32 where "EPOLLOUT = 4"

datatype epoll_op = EPOLL_CTL_ADD | EPOLL_CTL_MOD | EPOLL_CTL_DEL

text \<open>Adding demands that the descriptor is not in the table, changing and deleting that it is; the kernel may refuse for other reasons (\<open>no\<close>).\<close>

definition epoll_ctl :: "bool \<Rightarrow> epoll_op \<Rightarrow> nat \<Rightarrow> u32 \<Rightarrow> (nat \<Rightarrow> u32 option) \<Rightarrow> (nat \<Rightarrow> u32 option) option" where
  "epoll_ctl no op fd events ep = (case op of
       EPOLL_CTL_ADD \<Rightarrow> if no \<or> ep fd \<noteq> None then None else Some (ep(fd \<mapsto> events))
     | EPOLL_CTL_MOD \<Rightarrow> if no \<or> ep fd = None then None else Some (ep(fd \<mapsto> events))
     | EPOLL_CTL_DEL \<Rightarrow> if no \<or> ep fd = None then None else Some (ep(fd := None)))"

text \<open>A mask as epoll has it, and back.\<close>

definition epoll_bits :: "u32 \<Rightarrow> u32" where
  "epoll_bits msk = (if has msk KR_EVENT_READABLE then EPOLLIN else 0) OR (if has msk KR_EVENT_WRITABLE then EPOLLOUT else 0)"

definition event_bits :: "u32 \<Rightarrow> u32" where
  "event_bits events = (if has events EPOLLIN then KR_EVENT_READABLE else 0) OR (if has events EPOLLOUT then KR_EVENT_WRITABLE else 0)"

definition kr_event_api_add :: "bool \<Rightarrow> ('f, 't, 'd) T_KREventLoop \<Rightarrow> nat \<Rightarrow> u32 \<Rightarrow> (('f, 't, 'd) T_KREventLoop \<times> int) option" where
  "kr_event_api_add no el fd msk = do {
     fe \<leftarrow> nth_opt (el_events el) fd;
     let op = (if fe_mask fe = KR_EVENT_NONE then EPOLL_CTL_ADD else EPOLL_CTL_MOD);
     (case epoll_ctl no op fd (epoll_bits (msk OR fe_mask fe)) (el_epoll el) of
        None \<Rightarrow> Some (el, - 1)
      | Some ep \<Rightarrow> Some (el\<lparr>el_epoll := ep\<rparr>, 0))
   }"

definition kr_event_api_del :: "('f, 't, 'd) T_KREventLoop \<Rightarrow> nat \<Rightarrow> u32 \<Rightarrow> ('f, 't, 'd) T_KREventLoop option" where
  "kr_event_api_del el fd delmask = do {
     fe \<leftarrow> nth_opt (el_events el) fd;
     let msk = fe_mask fe AND NOT delmask;
     let op = (if msk \<noteq> KR_EVENT_NONE then EPOLL_CTL_MOD else EPOLL_CTL_DEL);
     (case epoll_ctl False op fd (epoll_bits msk) (el_epoll el) of
        None \<Rightarrow> Some el
      | Some ep \<Rightarrow> Some (el\<lparr>el_epoll := ep\<rparr>))
   }"

section \<open>Descriptors\<close>

definition kr_event_file_create ::
  "bool \<Rightarrow> ('f, 't, 'd) T_KREventLoop \<Rightarrow> nat \<Rightarrow> u32 \<Rightarrow> 'f \<Rightarrow> 'd \<Rightarrow> (('f, 't, 'd) T_KREventLoop \<times> int) option" where
  "kr_event_file_create no el fd msk proc data =
     (if el_setsize el \<le> fd then Some (el, - 1)
      else do {
        (el1, ret) \<leftarrow> kr_event_api_add no el fd msk;
        if ret = - 1 then Some (el1, - 1)
        else do {
          fe \<leftarrow> nth_opt (el_events el1) fd;
          let fe1 = fe\<lparr>fe_mask := fe_mask fe OR msk,
            fe_rfile := (if has msk KR_EVENT_READABLE then Some proc else fe_rfile fe),
            fe_wfile := (if has msk KR_EVENT_WRITABLE then Some proc else fe_wfile fe), fe_data := Some data\<rparr>;
          Some (el1\<lparr>el_events := (el_events el1)[fd := fe1], el_maxfd := max (int fd) (el_maxfd el1)\<rparr>, 0)
        }
      })"

text \<open>The loop that looks for the next lower descriptor with events: \<open>n\<close> entries are left.\<close>

primrec maxfd_loop :: "('f, 'd) T_KRFileEvent list \<Rightarrow> nat \<Rightarrow> int option" where
  "maxfd_loop evs 0 = Some (- 1)"
| "maxfd_loop evs (Suc j) = do {
     fe \<leftarrow> nth_opt evs j;
     if fe_mask fe \<noteq> KR_EVENT_NONE then Some (int j) else maxfd_loop evs j
   }"

definition kr_event_file_delete :: "('f, 't, 'd) T_KREventLoop \<Rightarrow> nat \<Rightarrow> u32 \<Rightarrow> ('f, 't, 'd) T_KREventLoop option" where
  "kr_event_file_delete el fd msk =
     (if el_setsize el \<le> fd then Some el
      else do {
        fe \<leftarrow> nth_opt (el_events el) fd;
        if fe_mask fe = KR_EVENT_NONE then Some el
        else do {
          let fe1 = fe\<lparr>fe_mask := fe_mask fe AND NOT msk\<rparr>;
          let el1 = el\<lparr>el_events := (el_events el)[fd := fe1]\<rparr>;
          el2 \<leftarrow> (if int fd = el_maxfd el1 \<and> fe_mask fe1 = KR_EVENT_NONE
                  then do { j \<leftarrow> maxfd_loop (el_events el1) (nat (el_maxfd el1)); Some (el1\<lparr>el_maxfd := j\<rparr>) }
                  else Some el1);
          kr_event_api_del el2 fd msk
        }
      })"

definition kr_event_file_get :: "('f, 't, 'd) T_KREventLoop \<Rightarrow> nat \<Rightarrow> u32 option" where
  "kr_event_file_get el fd = (if el_setsize el \<le> fd then Some 0 else map_option fe_mask (nth_opt (el_events el) fd))"

section \<open>Timers\<close>

text \<open>\<open>now\<close> is what \<open>aeGetTime\<close> delivers: seconds and milliseconds.\<close>

definition aeAddMillisecondsToNow :: "int \<times> int \<Rightarrow> int \<Rightarrow> int \<times> int" where
  "aeAddMillisecondsToNow now milliseconds =
     (let when_sec = fst now + tdiv milliseconds 1000; when_ms = snd now + tmod milliseconds 1000
      in if 1000 \<le> when_ms then (when_sec + 1, when_ms - 1000) else (when_sec, when_ms))"

definition kr_event_time_create ::
  "int \<times> int \<Rightarrow> ('f, 't, 'd) T_KREventLoop \<Rightarrow> int \<Rightarrow> 't \<Rightarrow> 'd \<Rightarrow> 't option \<Rightarrow> ('f, 't, 'd) T_KREventLoop \<times> int" where
  "kr_event_time_create now el milliseconds proc data final =
     (let tm = aeAddMillisecondsToNow now milliseconds;
          te = \<lparr>te_id = el_next el, te_sec = fst tm, te_ms = snd tm, te_proc = proc, te_final = final, te_data = data\<rparr>
      in (el\<lparr>el_next := el_next el + 1, el_time := te # el_time el\<rparr>, el_next el))"

text \<open>
  What the world does: the handlers of descriptors and timers (with their result), the finalizers, what runs before the loop
  sleeps, the clock, and \<open>epoll_wait\<close> with its timeout, the table and the most events to report (none after an error).
\<close>

record ('f, 't, 'd, 'e) world =
  w_file :: "'f \<Rightarrow> nat \<Rightarrow> 'd \<Rightarrow> u32 \<Rightarrow> ('f, 't, 'd) T_KREventLoop \<Rightarrow> 'e \<Rightarrow> (('f, 't, 'd) T_KREventLoop \<times> 'e) option"
  w_time :: "'t \<Rightarrow> int \<Rightarrow> 'd \<Rightarrow> ('f, 't, 'd) T_KREventLoop \<Rightarrow> 'e \<Rightarrow> (int \<times> ('f, 't, 'd) T_KREventLoop \<times> 'e) option"
  w_final :: "'t \<Rightarrow> 'd \<Rightarrow> ('f, 't, 'd) T_KREventLoop \<Rightarrow> 'e \<Rightarrow> (('f, 't, 'd) T_KREventLoop \<times> 'e) option"
  w_sleep :: "'t \<Rightarrow> ('f, 't, 'd) T_KREventLoop \<Rightarrow> 'e \<Rightarrow> (('f, 't, 'd) T_KREventLoop \<times> 'e) option"
  w_clock :: "'e \<Rightarrow> (int \<times> int) \<times> 'e"
  w_wait :: "int \<Rightarrow> (nat \<Rightarrow> u32 option) \<Rightarrow> nat \<Rightarrow> 'e \<Rightarrow> (nat \<times> u32) list \<times> 'e"

text \<open>The first event with the number is taken out of the list before its finalizer runs.\<close>

primrec unlink_time :: "int \<Rightarrow> ('t, 'd) T_KRTimeEvent list \<Rightarrow> (('t, 'd) T_KRTimeEvent \<times> ('t, 'd) T_KRTimeEvent list) option" where
  "unlink_time nid [] = None"
| "unlink_time nid (te # tes) =
     (if te_id te = nid then Some (te, tes) else map_option (\<lambda>(t, rest). (t, te # rest)) (unlink_time nid tes))"

definition kr_event_time_delete ::
  "('f, 't, 'd, 'e) world \<Rightarrow> ('f, 't, 'd) T_KREventLoop \<Rightarrow> int \<Rightarrow> 'e \<Rightarrow> (int \<times> ('f, 't, 'd) T_KREventLoop \<times> 'e) option" where
  "kr_event_time_delete W el nid e = (case unlink_time nid (el_time el) of
       None \<Rightarrow> Some (- 1, el, e)
     | Some (te, rest) \<Rightarrow> do {
         let el1 = el\<lparr>el_time := rest\<rparr>;
         (el2, e1) \<leftarrow> (case te_final te of None \<Rightarrow> Some (el1, e) | Some f \<Rightarrow> w_final W f (te_data te) el1 e);
         Some (0, el2, e1)
       })"

text \<open>The nearest timer, the first of several at the same time.\<close>

fun aeSearchNearestTimer_loop :: "('t, 'd) T_KRTimeEvent option \<Rightarrow> ('t, 'd) T_KRTimeEvent list \<Rightarrow> ('t, 'd) T_KRTimeEvent option" where
  "aeSearchNearestTimer_loop nearest [] = nearest"
| "aeSearchNearestTimer_loop nearest (te # tes) =
     aeSearchNearestTimer_loop
       (case nearest of
          None \<Rightarrow> Some te
        | Some n \<Rightarrow> if te_sec te < te_sec n \<or> (te_sec te = te_sec n \<and> te_ms te < te_ms n) then Some te else Some n) tes"

definition aeSearchNearestTimer :: "('f, 't, 'd) T_KREventLoop \<Rightarrow> ('t, 'd) T_KRTimeEvent option" where
  "aeSearchNearestTimer el = aeSearchNearestTimer_loop None (el_time el)"

definition due :: "int \<times> int \<Rightarrow> ('t, 'd) T_KRTimeEvent \<Rightarrow> bool" where
  "due now te \<longleftrightarrow> te_sec te < fst now \<or> (fst now = te_sec te \<and> te_ms te \<le> snd now)"

text \<open>Calling the handler of a timer. It is armed again through the pointer the walk holds, so it must still be there.\<close>

definition time_fire ::
  "('f, 't, 'd, 'e) world \<Rightarrow> ('t, 'd) T_KRTimeEvent \<Rightarrow> ('f, 't, 'd) T_KREventLoop \<Rightarrow> 'e \<Rightarrow> (('f, 't, 'd) T_KREventLoop \<times> 'e) option" where
  "time_fire W te el e = do {
     (retval, el1, e1) \<leftarrow> w_time W (te_proc te) (te_id te) (te_data te) el e;
     if retval \<noteq> KR_EVENT_NOMORE
     then (case w_clock W e1 of
       (now, e2) \<Rightarrow> do {
         assert_c (te_id te \<in> te_id ` set (el_time el1));
         let tm = aeAddMillisecondsToNow now retval;
         Some (el1\<lparr>el_time := map (\<lambda>t. if te_id t = te_id te then t\<lparr>te_sec := fst tm, te_ms := snd tm\<rparr> else t) (el_time el1)\<rparr>, e2)
       })
     else do { (r, el2, e2) \<leftarrow> kr_event_time_delete W el1 (te_id te) e1; Some (el2, e2) }
   }"

text \<open>A pass over the timers; \<open>tes\<close> is the rest of the list. After a handler the walk starts again at the head.\<close>

partial_function (option) time_loop ::
  "('f, 't, 'd, 'e) world \<Rightarrow> int \<Rightarrow> ('t, 'd) T_KRTimeEvent list \<Rightarrow> int \<Rightarrow> ('f, 't, 'd) T_KREventLoop \<Rightarrow> 'e \<Rightarrow>
   (int \<times> ('f, 't, 'd) T_KREventLoop \<times> 'e) option" where
  "time_loop W maxid tes processed el e = (case tes of
       [] \<Rightarrow> Some (processed, el, e)
     | te # rest \<Rightarrow>
         if maxid < te_id te then time_loop W maxid rest processed el e
         else (case w_clock W e of
           (now, e1) \<Rightarrow>
             if due now te then do { (el2, e2) \<leftarrow> time_fire W te el e1; time_loop W maxid (el_time el2) (processed + 1) el2 e2 }
             else time_loop W maxid rest processed el e1))"

definition processTimeEvents :: "('f, 't, 'd, 'e) world \<Rightarrow> ('f, 't, 'd) T_KREventLoop \<Rightarrow> 'e \<Rightarrow> (int \<times> ('f, 't, 'd) T_KREventLoop \<times> 'e) option" where
  "processTimeEvents W el e = time_loop W (el_next el - 1) (el_time el) 0 el e"

section \<open>A round of the loop\<close>

text \<open>The time to wait for a timer, in seconds and microseconds, and for \<open>epoll_wait\<close> in milliseconds, as an \<open>int\<close>.\<close>

definition wait_time :: "int \<times> int \<Rightarrow> ('t, 'd) T_KRTimeEvent \<Rightarrow> int \<times> int" where
  "wait_time now shortest =
     (let sec = te_sec shortest - fst now;
          (sec1, usec) = (if te_ms shortest < snd now then (sec - 1, (te_ms shortest + 1000 - snd now) * 1000) else (sec, (te_ms shortest - snd now) * 1000))
      in (if sec1 < 0 then 0 else sec1, if usec < 0 then 0 else usec))"

definition epoll_timeout :: "(int \<times> int) option \<Rightarrow> int" where
  "epoll_timeout tvp = (case tvp of None \<Rightarrow> - 1 | Some (sec, usec) \<Rightarrow> sint (word_of_int (sec * 1000 + tdiv usec 1000) :: i32))"

definition kr_event_api_poll :: "('f, 't, 'd, 'e) world \<Rightarrow> ('f, 't, 'd) T_KREventLoop \<Rightarrow> (int \<times> int) option \<Rightarrow> 'e \<Rightarrow> (nat \<times> u32) list \<times> 'e" where
  "kr_event_api_poll W el tvp e =
     (case w_wait W (epoll_timeout tvp) (el_epoll el) (el_setsize el) e of (events, e1) \<Rightarrow> (map (\<lambda>(fd, ev). (fd, event_bits ev)) events, e1))"

text \<open>The handlers of the descriptors that are ready, as far as they are registered when their turn comes.\<close>

primrec file_loop ::
  "('f, 't, 'd, 'e) world \<Rightarrow> (nat \<times> u32) list \<Rightarrow> ('f, 't, 'd) T_KREventLoop \<Rightarrow> 'e \<Rightarrow> (('f, 't, 'd) T_KREventLoop \<times> 'e) option" where
  "file_loop W [] el e = Some (el, e)"
| "file_loop W (x # xs) el e = (case x of (fd, msk) \<Rightarrow> do {
     fe \<leftarrow> nth_opt (el_events el) fd;
     let rfired = has (fe_mask fe AND msk) KR_EVENT_READABLE;
     (el1, e1) \<leftarrow> (if rfired then do { f \<leftarrow> fe_rfile fe; d \<leftarrow> fe_data fe; w_file W f fd d msk el e } else Some (el, e));
     fe1 \<leftarrow> nth_opt (el_events el1) fd;
     (el2, e2) \<leftarrow> (if has (fe_mask fe1 AND msk) KR_EVENT_WRITABLE \<and> (\<not> rfired \<or> fe_wfile fe1 \<noteq> fe_rfile fe1)
                   then do { f \<leftarrow> fe_wfile fe1; d \<leftarrow> fe_data fe1; w_file W f fd d msk el1 e1 } else Some (el1, e1));
     file_loop W xs el2 e2
   })"

definition kr_event_process ::
  "('f, 't, 'd, 'e) world \<Rightarrow> ('f, 't, 'd) T_KREventLoop \<Rightarrow> u32 \<Rightarrow> 'e \<Rightarrow> (int \<times> ('f, 't, 'd) T_KREventLoop \<times> 'e) option" where
  "kr_event_process W el flags e =
     (if \<not> has flags KR_EVENT_TIME_EVENTS \<and> \<not> has flags KR_EVENT_FILE_EVENTS then Some (0, el, e)
      else do {
        (n1, el1, e1) \<leftarrow>
          (if el_maxfd el \<noteq> - 1 \<or> has flags KR_EVENT_TIME_EVENTS \<and> \<not> has flags KR_EVENT_DONT_WAIT
           then (let shortest = (if has flags KR_EVENT_TIME_EVENTS \<and> \<not> has flags KR_EVENT_DONT_WAIT then aeSearchNearestTimer el else None);
                     (tvp, e0) = (case shortest of
                        Some te \<Rightarrow> (let (now, e') = w_clock W e in (Some (wait_time now te), e'))
                      | None \<Rightarrow> (if has flags KR_EVENT_DONT_WAIT then Some (0, 0) else None, e));
                     (fired, e1) = kr_event_api_poll W el tvp e0
                 in do { (el1, e2) \<leftarrow> file_loop W fired el e1; Some (int (length fired), el1, e2) })
           else Some (0, el, e));
        if has flags KR_EVENT_TIME_EVENTS
        then do { (n2, el2, e2) \<leftarrow> processTimeEvents W el1 e1; Some (n1 + n2, el2, e2) }
        else Some (n1, el1, e1)
      })"

text \<open>The loop until it is stopped. It may go on forever.\<close>

partial_function (option) run_loop :: "('f, 't, 'd, 'e) world \<Rightarrow> ('f, 't, 'd) T_KREventLoop \<Rightarrow> 'e \<Rightarrow> (('f, 't, 'd) T_KREventLoop \<times> 'e) option" where
  "run_loop W el e =
     (if el_stop el then Some (el, e)
      else do {
        (el1, e1) \<leftarrow> (case el_beforesleep el of None \<Rightarrow> Some (el, e) | Some f \<Rightarrow> w_sleep W f el e);
        (n, el2, e2) \<leftarrow> kr_event_process W el1 KR_EVENT_ALL_EVENTS e1;
        run_loop W el2 e2
      })"

definition kr_event_loop_run :: "('f, 't, 'd, 'e) world \<Rightarrow> ('f, 't, 'd) T_KREventLoop \<Rightarrow> 'e \<Rightarrow> (('f, 't, 'd) T_KREventLoop \<times> 'e) option" where
  "kr_event_loop_run W el e = run_loop W (el\<lparr>el_stop := False\<rparr>) e"

text \<open>Waiting for one descriptor with \<open>poll\<close>, whose bits have the values of epoll's; \<open>poll\<close> returns its result and what it reports.\<close>

definition kr_event_wait :: "(u32 \<Rightarrow> int \<Rightarrow> int \<times> u32) \<Rightarrow> u32 \<Rightarrow> int \<Rightarrow> int" where
  "kr_event_wait poll msk milliseconds =
     (case poll (epoll_bits msk) (sint (word_of_int milliseconds :: i32)) of
        (retval, revents) \<Rightarrow> if retval = 1 then uint (event_bits revents) else retval)"

end
