(* ===== verification/KR_Event_Props.thy ===== *)
theory KR_Event_Props
  imports KR_Event
begin

unbundle bit_operations_syntax

text \<open>
  The event loop: the interests and the kernel's table agree over every history, what a pass over the timers does, which
  timers keep it from ending, how long a round sleeps, and what a whole round does.
\<close>

section \<open>Interests\<close>

datatype ('f, 'd) interest_op = Interest bool nat u32 'f 'd | Forget nat u32

primrec interest_step :: "('f, 'd) interest_op \<Rightarrow> ('f, 't, 'd) T_KREventLoop \<Rightarrow> (('f, 't, 'd) T_KREventLoop \<times> int) option" where
  "interest_step (Interest no fd msk proc data) el = kr_event_file_create no el fd msk proc data"
| "interest_step (Forget fd msk) el = map_option (\<lambda>el. (el, 0)) (kr_event_file_delete el fd msk)"

primrec interest_run :: "('f, 'd) interest_op list \<Rightarrow> ('f, 't, 'd) T_KREventLoop \<Rightarrow> (('f, 't, 'd) T_KREventLoop \<times> int list) option" where
  "interest_run [] el = Some (el, [])"
| "interest_run (op # ops) el = do { (el1, r) \<leftarrow> interest_step op el; (el2, rs) \<leftarrow> interest_run ops el1; Some (el2, r # rs) }"

text \<open>The specification: a mask for every descriptor.\<close>

primrec mask_step :: "nat \<Rightarrow> ('f, 'd) interest_op \<Rightarrow> (nat \<Rightarrow> u32) \<Rightarrow> (nat \<Rightarrow> u32) \<times> int" where
  "mask_step n (Interest no fd msk proc data) m = (if n \<le> fd \<or> no then (m, - 1) else (m(fd := m fd OR msk), 0))"
| "mask_step n (Forget fd msk) m = (m(fd := m fd AND NOT msk), 0)"

primrec mask_run :: "nat \<Rightarrow> ('f, 'd) interest_op list \<Rightarrow> (nat \<Rightarrow> u32) \<Rightarrow> (nat \<Rightarrow> u32) \<times> int list" where
  "mask_run n [] m = (m, [])"
| "mask_run n (op # ops) m = (let (m1, r) = mask_step n op m; (m2, rs) = mask_run n ops m1 in (m2, r # rs))"

primrec op_mask :: "('f, 'd) interest_op \<Rightarrow> u32 option" where
  "op_mask (Interest no fd msk proc data) = Some msk"
| "op_mask (Forget fd msk) = None"

definition highest :: "(nat \<Rightarrow> u32) \<Rightarrow> int \<Rightarrow> bool" where
  "highest m h \<longleftrightarrow> (h = - 1 \<or> 0 \<le> h \<and> m (nat h) \<noteq> 0) \<and> (\<forall>fd. m fd \<noteq> 0 \<longrightarrow> int fd \<le> h)"

definition entry_ok :: "('f, 'd) T_KRFileEvent \<Rightarrow> bool" where
  "entry_ok fe \<longleftrightarrow> (has (fe_mask fe) KR_EVENT_READABLE \<longrightarrow> fe_rfile fe \<noteq> None \<and> fe_data fe \<noteq> None) \<and>
     (has (fe_mask fe) KR_EVENT_WRITABLE \<longrightarrow> fe_wfile fe \<noteq> None \<and> fe_data fe \<noteq> None)"

definition interests :: "nat \<Rightarrow> (nat \<Rightarrow> u32) \<Rightarrow> ('f, 't, 'd) T_KREventLoop \<Rightarrow> bool" where
  "interests n m el \<longleftrightarrow> el_setsize el = n \<and> length (el_events el) = n \<and> (\<forall>fd < n. fe_mask (el_events el ! fd) = m fd \<and> entry_ok (el_events el ! fd)) \<and>
     (\<forall>fd. n \<le> fd \<longrightarrow> m fd = 0) \<and> (\<forall>fd. el_epoll el fd = (if m fd = 0 then None else Some (epoll_bits (m fd)))) \<and> highest m (el_maxfd el)"

lemma has_bit: "has m KR_EVENT_READABLE \<longleftrightarrow> bit m 0" "has m KR_EVENT_WRITABLE \<longleftrightarrow> bit m 1"
  using bit_iff_and_push_bit_not_eq_0 [of m 0] bit_iff_and_push_bit_not_eq_0 [of m 1] by (simp_all add: has_def KR_EVENT_READABLE_def KR_EVENT_WRITABLE_def)

lemma has_or [simp]: "has (a OR b) KR_EVENT_READABLE \<longleftrightarrow> has a KR_EVENT_READABLE \<or> has b KR_EVENT_READABLE"
  "has (a OR b) KR_EVENT_WRITABLE \<longleftrightarrow> has a KR_EVENT_WRITABLE \<or> has b KR_EVENT_WRITABLE"
  by (simp_all add: has_bit bit_or_iff)

lemma has_and [simp]: "has (a AND b) KR_EVENT_READABLE \<longleftrightarrow> has a KR_EVENT_READABLE \<and> has b KR_EVENT_READABLE"
  "has (a AND b) KR_EVENT_WRITABLE \<longleftrightarrow> has a KR_EVENT_WRITABLE \<and> has b KR_EVENT_WRITABLE"
  by (simp_all add: has_bit bit_and_iff)

lemma has_none [simp]: "\<not> has KR_EVENT_NONE b" "\<not> has 0 b"
  by (simp_all add: has_def KR_EVENT_NONE_def)

lemma or_zero: "a OR b = (0 :: 'a :: len word) \<longleftrightarrow> a = 0 \<and> b = 0"
  by (auto simp: bit_eq_iff bit_or_iff)

lemma interests_create: "interests n (\<lambda>_. 0) (kr_event_loop_create n)"
  by (simp add: interests_def kr_event_loop_create_def entry_ok_def highest_def KR_EVENT_NONE_def)

lemma maxfd_loop_spec:
  assumes "j \<le> length evs" "\<And>fd. fd < j \<Longrightarrow> fe_mask (evs ! fd) = m fd" "\<And>fd. j \<le> fd \<Longrightarrow> m fd = 0"
  shows "\<exists>h. maxfd_loop evs j = Some h \<and> highest m h"
  using assms
proof (induction j)
  case (Suc j)
  show ?case
  proof (cases "m j = 0")
    case True
    from Suc.prems(3) True have "m fd = 0" if "j \<le> fd" for fd using that by (cases "fd = j") auto
    with Suc True show ?thesis by (simp add: KR_EVENT_NONE_def)
  next
    case False
    have "int fd \<le> int j" if "m fd \<noteq> 0" for fd using Suc.prems(3) [of fd] that by force
    with False Suc.prems show ?thesis by (simp add: KR_EVENT_NONE_def highest_def)
  qed
qed (simp add: highest_def)

lemma highest_add:
  assumes "highest m h" "a \<noteq> 0"
  shows "highest (m(fd := a)) (max (int fd) h)"
  using assms by (auto simp: highest_def max_def)

lemma interest_create_step:
  assumes "interests n m el" "msk \<noteq> 0"
  shows "\<exists>el'. kr_event_file_create no el fd msk proc data = Some (el', snd (mask_step n (Interest no fd msk proc data) m)) \<and>
     interests n (fst (mask_step n (Interest no fd msk proc data) m)) el' \<and> el_time el' = el_time el \<and> el_next el' = el_next el"
proof (cases "n \<le> fd \<or> no")
  case True
  with assms(1) show ?thesis
    by (auto simp: kr_event_file_create_def interests_def kr_event_api_add_def epoll_ctl_def KR_EVENT_NONE_def split: if_splits)
next
  case False
  let ?fe = "el_events el ! fd" and ?m = "m(fd := m fd OR msk)"
  from False assms(1) have f: "fd < length (el_events el)" "fe_mask ?fe = m fd" "entry_ok ?fe" "\<not> no" "el_setsize el = n" "fd < n" by (auto simp: interests_def)
  have api: "kr_event_api_add no el fd msk = Some (el\<lparr>el_epoll := (el_epoll el)(fd \<mapsto> epoll_bits (m fd OR msk))\<rparr>, 0)"
    using f assms(1) by (simp add: kr_event_api_add_def interests_def epoll_ctl_def KR_EVENT_NONE_def or.commute)
  have h: "highest ?m (max (int fd) (el_maxfd el))" using assms by (intro highest_add) (auto simp: interests_def or_zero)
  have nz: "m fd OR msk \<noteq> 0" using assms(2) by (simp add: or_zero)
  let ?fe' = "?fe\<lparr>fe_mask := m fd OR msk, fe_rfile := (if has msk KR_EVENT_READABLE then Some proc else fe_rfile ?fe),
    fe_wfile := (if has msk KR_EVENT_WRITABLE then Some proc else fe_wfile ?fe), fe_data := Some data\<rparr>"
  let ?el = "el\<lparr>el_epoll := (el_epoll el)(fd \<mapsto> epoll_bits (m fd OR msk)), el_events := (el_events el)[fd := ?fe'], el_maxfd := max (int fd) (el_maxfd el)\<rparr>"
  have "kr_event_file_create no el fd msk proc data = Some (?el, 0)" unfolding kr_event_file_create_def api using f by (simp add: Let_def)
  moreover have "entry_ok ?fe'" using f(2,3) by (auto simp: entry_ok_def)
  then have "interests n ?m ?el" using f(5,6) assms(1) h nz by (auto simp: interests_def nth_list_update)
  ultimately show ?thesis using f(4,6) by simp
qed

lemma interest_delete_step:
  assumes "interests n m el"
  shows "\<exists>el'. kr_event_file_delete el fd msk = Some el' \<and> interests n (m(fd := m fd AND NOT msk)) el' \<and> el_time el' = el_time el \<and> el_next el' = el_next el"
proof (cases "n \<le> fd \<or> m fd = 0")
  case True
  then have "m(fd := m fd AND NOT msk) = m" using assms by (auto simp: interests_def fun_eq_iff)
  moreover have "kr_event_file_delete el fd msk = Some el" using True assms by (auto simp: kr_event_file_delete_def interests_def KR_EVENT_NONE_def nth_opt_def)
  ultimately show ?thesis using assms by simp
next
  case False
  let ?fe = "el_events el ! fd" and ?a = "m fd AND NOT msk"
  let ?evs = "(el_events el)[fd := ?fe\<lparr>fe_mask := ?a\<rparr>]" and ?m = "m(fd := ?a)"
  from False assms have f: "fd < length (el_events el)" "fe_mask ?fe = m fd" "entry_ok ?fe" "el_setsize el = n" "fd < n" "m fd \<noteq> 0" by (auto simp: interests_def)
  have "\<exists>h. (if int fd = el_maxfd el \<and> ?a = 0 then maxfd_loop ?evs (nat (el_maxfd el)) else Some (el_maxfd el)) = Some h \<and> highest ?m h"
  proof (cases "int fd = el_maxfd el \<and> ?a = 0")
    case True
    then have "\<exists>h. maxfd_loop ?evs fd = Some h \<and> highest ?m h"
    proof (intro maxfd_loop_spec)
      show "?m x = 0" if "fd \<le> x" for x using True assms that by (auto simp: interests_def highest_def)
    qed (use f assms in \<open>auto simp: interests_def nth_list_update\<close>)
    moreover from True have "nat (el_maxfd el) = fd" by (metis nat_int)
    ultimately show ?thesis using True by simp
  next
    case False
    with assms f have "highest ?m (el_maxfd el)" by (auto simp: interests_def highest_def)
    with False show ?thesis by auto
  qed
  then obtain h where h: "(if int fd = el_maxfd el \<and> ?a = 0 then maxfd_loop ?evs (nat (el_maxfd el)) else Some (el_maxfd el)) = Some h" "highest ?m h" by blast
  let ?el = "el\<lparr>el_events := ?evs, el_maxfd := h\<rparr>"
  have aa: "?a AND NOT msk = ?a" by (rule bit_eqI) (auto simp: bit_and_iff)
  have api: "kr_event_api_del ?el fd msk = Some (?el\<lparr>el_epoll := (el_epoll el)(fd := if ?a = 0 then None else Some (epoll_bits ?a))\<rparr>)"
    using f assms by (auto simp: kr_event_api_del_def interests_def epoll_ctl_def KR_EVENT_NONE_def aa Let_def)
  have "kr_event_file_delete el fd msk = kr_event_api_del ?el fd msk"
    using f h(1) by (auto simp: kr_event_file_delete_def KR_EVENT_NONE_def split: if_splits)
  with api have "kr_event_file_delete el fd msk = Some (?el\<lparr>el_epoll := (el_epoll el)(fd := if ?a = 0 then None else Some (epoll_bits ?a))\<rparr>)" by simp
  moreover have "interests n ?m (?el\<lparr>el_epoll := (el_epoll el)(fd := if ?a = 0 then None else Some (epoll_bits ?a))\<rparr>)"
    using f assms h(2) by (auto simp: interests_def entry_ok_def nth_list_update)
  ultimately show ?thesis by simp
qed

lemma interest_run_spec:
  assumes "interests n m el" "\<forall>op \<in> set ops. op_mask op \<noteq> Some 0"
  shows "\<exists>el'. interest_run ops el = Some (el', snd (mask_run n ops m)) \<and> interests n (fst (mask_run n ops m)) el' \<and> el_time el' = el_time el \<and> el_next el' = el_next el"
  using assms
proof (induction ops arbitrary: m el)
  case (Cons op ops)
  have "\<exists>el1. interest_step op el = Some (el1, snd (mask_step n op m)) \<and> interests n (fst (mask_step n op m)) el1 \<and> el_time el1 = el_time el \<and> el_next el1 = el_next el"
  proof (cases op)
    case (Interest no fd msk proc data)
    with Cons.prems interest_create_step [of n m el msk no fd proc data] show ?thesis by simp
  next
    case (Forget fd msk)
    with interest_delete_step [OF Cons.prems(1), of fd msk] show ?thesis by auto
  qed
  then obtain el1 where 1: "interest_step op el = Some (el1, snd (mask_step n op m))" "interests n (fst (mask_step n op m)) el1" "el_time el1 = el_time el" "el_next el1 = el_next el" by blast
  from Cons.IH [OF 1(2)] Cons.prems(2) 1 show ?case by (auto simp: split_beta Let_def)
qed simp

section \<open>Timers\<close>

definition timers_ok :: "('f, 't, 'd) T_KREventLoop \<Rightarrow> bool" where
  "timers_ok el \<longleftrightarrow> distinct (map te_id (el_time el)) \<and> (\<forall>te \<in> set (el_time el). te_id te < el_next el)"

text \<open>Handlers that leave the loop alone, under a clock that stands still: \<open>h\<close> is what a timer's handler returns, \<open>act\<close> and \<open>fin\<close> what handlers and finalizers do to the world.\<close>

definition standing ::
  "('f, 't, 'd, 'e) world \<Rightarrow> int \<times> int \<Rightarrow> ('t \<Rightarrow> int \<Rightarrow> 'd \<Rightarrow> int) \<Rightarrow> ('t \<Rightarrow> int \<Rightarrow> 'd \<Rightarrow> 'e \<Rightarrow> 'e) \<Rightarrow> ('t \<Rightarrow> 'd \<Rightarrow> 'e \<Rightarrow> 'e) \<Rightarrow> bool" where
  "standing W now h act fin \<longleftrightarrow> (\<forall>e. w_clock W e = (now, e)) \<and> (\<forall>p i d el e. w_time W p i d el e = Some (h p i d, el, act p i d e)) \<and>
     (\<forall>f d el e. w_final W f d el e = Some (el, fin f d e)) \<and> 0 \<le> snd now \<and> snd now < 1000"

definition result :: "('t \<Rightarrow> int \<Rightarrow> 'd \<Rightarrow> int) \<Rightarrow> ('t, 'd) T_KRTimeEvent \<Rightarrow> int" where
  "result h te = h (te_proc te) (te_id te) (te_data te)"

definition rearmed :: "int \<times> int \<Rightarrow> ('t \<Rightarrow> int \<Rightarrow> 'd \<Rightarrow> int) \<Rightarrow> ('t, 'd) T_KRTimeEvent \<Rightarrow> ('t, 'd) T_KRTimeEvent" where
  "rearmed now h te = te\<lparr>te_sec := fst (aeAddMillisecondsToNow now (result h te)), te_ms := snd (aeAddMillisecondsToNow now (result h te))\<rparr>"

definition passed :: "int \<times> int \<Rightarrow> ('t \<Rightarrow> int \<Rightarrow> 'd \<Rightarrow> int) \<Rightarrow> ('t, 'd) T_KRTimeEvent \<Rightarrow> ('t, 'd) T_KRTimeEvent list" where
  "passed now h te = (if \<not> due now te then [te] else if result h te = - 1 then [] else [rearmed now h te])"

definition fire :: "('t \<Rightarrow> int \<Rightarrow> 'd \<Rightarrow> int) \<Rightarrow> ('t \<Rightarrow> int \<Rightarrow> 'd \<Rightarrow> 'e \<Rightarrow> 'e) \<Rightarrow> ('t \<Rightarrow> 'd \<Rightarrow> 'e \<Rightarrow> 'e) \<Rightarrow> ('t, 'd) T_KRTimeEvent \<Rightarrow> 'e \<Rightarrow> 'e" where
  "fire h act fin te e = (let e1 = act (te_proc te) (te_id te) (te_data te) e
     in if result h te = - 1 then (case te_final te of None \<Rightarrow> e1 | Some f \<Rightarrow> fin f (te_data te) e1) else e1)"

lemma tdiv_neg: "a \<le> 0 \<Longrightarrow> tdiv a 1000 = - ((- a) div 1000)"
  by (cases "a = 0") (simp_all add: tdiv_def sgn_if)

lemma rearmed_due:
  assumes "0 \<le> snd now" "snd now < 1000"
  shows "due now (rearmed now h te) \<longleftrightarrow> result h te \<le> 0"
proof (cases "0 \<le> result h te")
  case True
  then show ?thesis using assms by (auto simp: due_def rearmed_def aeAddMillisecondsToNow_def tdiv_nonneg tmod_def Let_def)
next
  case False
  then show ?thesis using assms by (auto simp: due_def rearmed_def aeAddMillisecondsToNow_def tdiv_neg tmod_def Let_def)
qed

lemma rearmed_fields [simp]: "te_id (rearmed now h te) = te_id te" "te_proc (rearmed now h te) = te_proc te" "te_data (rearmed now h te) = te_data te"
  "result h (rearmed now h te) = result h te"
  by (simp_all add: rearmed_def result_def)

lemma unlink_time_mid:
  assumes "nid \<notin> te_id ` set xs" "te_id te = nid"
  shows "unlink_time nid (xs @ te # ys) = Some (te, xs @ ys)"
  using assms by (induction xs) auto

lemma time_fire_spec:
  assumes W: "standing W now h act fin" and d: "due now te"
    and t: "el_time el = xs @ te # ys" and dist: "distinct (map te_id (el_time el))"
  shows "time_fire W te el e = Some (el\<lparr>el_time := xs @ passed now h te @ ys\<rparr>, fire h act fin te e)"
proof -
  from t dist have n: "te_id te \<notin> te_id ` set xs" "te_id te \<notin> te_id ` set ys" by auto
  then have n': "te_id x \<noteq> te_id te" if "x \<in> set xs \<or> x \<in> set ys" for x using that by (metis image_eqI)
  have m: "map (\<lambda>t. if te_id t = te_id te then t\<lparr>te_sec := a, te_ms := b\<rparr> else t) (xs @ te # ys) = xs @ te\<lparr>te_sec := a, te_ms := b\<rparr> # ys" for a b
    using n' by (auto intro!: map_idI)
  from W have w: "w_clock W e = (now, e)" "w_time W p j dd el e = Some (h p j dd, el, act p j dd e)" "w_final W f dd el e = Some (el, fin f dd e)"
    for p j dd f el e by (simp_all add: standing_def)
  show ?thesis
  proof (cases "result h te = - 1")
    case True
    have k: "kr_event_time_delete W el (te_id te) e1 = Some (0, el\<lparr>el_time := xs @ ys\<rparr>, case te_final te of None \<Rightarrow> e1 | Some f \<Rightarrow> fin f (te_data te) e1)" for e1
      using n by (simp add: kr_event_time_delete_def t unlink_time_mid w split: option.split)
    from True d show ?thesis by (simp add: time_fire_def w k passed_def fire_def result_def KR_EVENT_NOMORE_def Let_def)
  next
    case False
    with d t show ?thesis
      by (simp add: time_fire_def w passed_def fire_def result_def KR_EVENT_NOMORE_def Let_def m rearmed_def del: map_append list.map)
  qed
qed

lemma time_loop_fire:
  assumes "standing W now h act fin" "due now te" "te_id te \<le> maxid" "el_time el = xs @ te # ys" "distinct (map te_id (el_time el))"
  shows "time_loop W maxid (te # rest) n el e =
     time_loop W maxid (xs @ passed now h te @ ys) (n + 1) (el\<lparr>el_time := xs @ passed now h te @ ys\<rparr>) (fire h act fin te e)"
  using assms(1-3) time_fire_spec [OF assms(1,2,4,5), of e] by (subst time_loop.simps) (simp add: standing_def)

lemma time_loop_skip:
  assumes "standing W now h act fin" "\<not> due now te"
  shows "time_loop W maxid (te # rest) n el e = time_loop W maxid rest n el e"
  using assms by (subst time_loop.simps) (simp add: standing_def)

lemma passed_not_due: "standing W now h act fin \<Longrightarrow> result h te = - 1 \<or> 0 < result h te \<Longrightarrow> t \<in> set (passed now h te) \<Longrightarrow> \<not> due now t"
  by (auto simp: passed_def standing_def rearmed_due split: if_splits)

lemma passed_id: "\<not> due now te \<Longrightarrow> passed now h te = [te]"
  by (simp add: passed_def)

lemma passed_all_id: "\<forall>te \<in> set tes. \<not> due now te \<Longrightarrow> concat (map (passed now h) tes) = tes"
  by (induction tes) (simp_all add: passed_id)

lemma time_loop_pass:
  assumes W: "standing W now h act fin"
    and "el_time el = xs @ tes" "\<forall>te \<in> set xs. \<not> due now te" "distinct (map te_id (el_time el))"
    and "\<forall>te \<in> set (el_time el). te_id te \<le> maxid \<and> (result h te = - 1 \<or> 0 < result h te)"
  shows "time_loop W maxid tes n el e = Some (n + int (length (filter (due now) tes)),
     el\<lparr>el_time := xs @ concat (map (passed now h) tes)\<rparr>, fold (fire h act fin) (filter (due now) tes) e)"
  using assms(2-)
proof (induction "length (filter (due now) tes)" arbitrary: xs tes n el e)
  case 0
  then have nd: "\<forall>te \<in> set tes. \<not> due now te" by (simp add: filter_empty_conv)
  then have "time_loop W maxid tes n el e = Some (n, el, e)"
  proof (induction tes)
    case Nil
    show ?case by (subst time_loop.simps) simp
  qed (simp add: time_loop_skip [OF W])
  with nd 0 show ?case by (simp add: passed_all_id filter_empty_conv)
next
  case (Suc k)
  from Suc(2) have "filter (due now) tes \<noteq> []" by auto
  then obtain us te vs where s: "tes = us @ te # vs" "\<forall>u \<in> set us. \<not> due now u" "due now te"
    by (metis filter_eq_ConsD list.exhaust filter_cong)
  have skip: "time_loop W maxid (us @ te # vs) n el e = time_loop W maxid (te # vs) n el e"
    using s(2) by (induction us) (simp_all add: time_loop_skip [OF W])
  let ?tes = "(xs @ us) @ passed now h te @ vs" and ?el = "el\<lparr>el_time := (xs @ us) @ passed now h te @ vs\<rparr>"
  from Suc.prems s have r: "te_id te \<le> maxid" "result h te = - 1 \<or> 0 < result h te" by auto
  have p: "\<forall>t \<in> set (passed now h te). \<not> due now t \<and> te_id t = te_id te \<and> result h t = result h te"
    using passed_not_due [OF W r(2)] s(3) by (auto simp: passed_def split: if_splits)
  have ids: "map te_id (passed now h te) = [] \<or> map te_id (passed now h te) = [te_id te]" by (simp add: passed_def)
  have f: "filter (due now) ?tes = filter (due now) vs" using Suc.prems(2) s(2) p by simp
  have 1: "time_loop W maxid tes n el e = time_loop W maxid ?tes (n + 1) ?el (fire h act fin te e)"
    unfolding s(1) skip using time_loop_fire [OF W s(3) r(1), of el "xs @ us" vs] Suc.prems s(1) by (simp add: Let_def)
  have "distinct (map te_id ?tes)" using Suc.prems(1,3) s(1) ids by (elim disjE) (simp_all add: disjoint_iff)
  then have 2: "time_loop W maxid ?tes (n + 1) ?el (fire h act fin te e) = Some (n + 1 + int (length (filter (due now) ?tes)),
     ?el\<lparr>el_time := [] @ concat (map (passed now h) ?tes)\<rparr>, fold (fire h act fin) (filter (due now) ?tes) (fire h act fin te e))"
    using Suc.prems s p f Suc(2) r by (intro Suc(1)) auto
  have c: "concat (map (passed now h) ?tes) = xs @ us @ passed now h te @ concat (map (passed now h) vs)"
    using passed_all_id [of xs now h] passed_all_id [of us now h] passed_all_id [of "passed now h te" now h] Suc.prems(2) s(2) p by simp
  show ?case unfolding 1 2 f c using s passed_all_id [of us now h] by simp
qed

lemma processTimeEvents_pass:
  assumes "standing W now h act fin" "timers_ok el" "\<forall>te \<in> set (el_time el). result h te = - 1 \<or> 0 < result h te"
  shows "processTimeEvents W el e = Some (int (length (filter (due now) (el_time el))),
     el\<lparr>el_time := concat (map (passed now h) (el_time el))\<rparr>, fold (fire h act fin) (filter (due now) (el_time el)) e)"
  using time_loop_pass [OF assms(1), of el "[]" "el_time el" "el_next el - 1" 0 e] assms(2,3) by (force simp: processTimeEvents_def timers_ok_def)

text \<open>A due timer whose handler returns zero, or less and not \<open>KR_EVENT_NOMORE\<close>, is due again at once.\<close>

definition stuck :: "int \<times> int \<Rightarrow> ('t \<Rightarrow> int \<Rightarrow> 'd \<Rightarrow> int) \<Rightarrow> int \<Rightarrow> ('t, 'd) T_KRTimeEvent \<Rightarrow> bool" where
  "stuck now h maxid te \<longleftrightarrow> te_id te \<le> maxid \<and> due now te \<and> result h te \<le> 0 \<and> result h te \<noteq> - 1"

lemma passed_stuck:
  assumes "standing W now h act fin" "stuck now h maxid te"
  shows "\<exists>t \<in> set (passed now h te). stuck now h maxid t"
  using assms by (simp add: stuck_def passed_def standing_def rearmed_due)

lemma time_loop_stuck:
  assumes "time_loop W maxid tes n el e = Some r" "standing W now h act fin" "distinct (map te_id (el_time el))" "el_time el = xs @ tes"
  shows "\<not> (\<exists>te \<in> set tes. stuck now h maxid te)"
  using assms
proof (induction W maxid tes n el e r arbitrary: xs rule: time_loop.raw_induct [rotated, consumes 1, case_names 1])
  case (1 time_loop W maxid tes n el e r)
  show ?case
  proof (cases tes)
    case Nil
    then show ?thesis by simp
  next
    case (Cons te rest)
    from 1(3) have w: "w_clock W e = (now, e)" "w_time W p j dd el e = Some (h p j dd, el, act p j dd e)" "w_final W f dd el e = Some (el, fin f dd e)"
      for p j dd f el e by (simp_all add: standing_def)
    show ?thesis
    proof (cases "due now te \<and> te_id te \<le> maxid")
      case True
      obtain r' where "time_loop W maxid (xs @ passed now h te @ rest) (n + 1) (el\<lparr>el_time := xs @ passed now h te @ rest\<rparr>) (fire h act fin te e) = Some r'"
        using 1(2) True Cons w(1) time_fire_spec [OF 1(3), of te el xs rest e] 1(4,5) by auto
      moreover have "distinct (map te_id (xs @ passed now h te @ rest))" using 1(4,5) Cons by (auto simp: passed_def)
      ultimately have "\<not> (\<exists>t \<in> set (xs @ passed now h te @ rest). stuck now h maxid t)"
        by (intro 1(1) [OF _ 1(3), of _ _ _ _ _ _ "[]"]) auto
      with passed_stuck [OF 1(3), of maxid te] Cons show ?thesis by auto
    next
      case False
      with 1(2) Cons w(1) have "time_loop W maxid rest n el e = Some r" by (auto split: if_splits)
      from 1(1) [OF this 1(3,4), of "xs @ [te]"] 1(5) Cons False show ?thesis by (auto simp: stuck_def)
    qed
  qed
qed

section \<open>A round\<close>

definition clock :: "int \<times> int \<Rightarrow> int" where
  "clock t = fst t * 1000 + snd t"

abbreviation te_at :: "('t, 'd) T_KRTimeEvent \<Rightarrow> int" where
  "te_at te \<equiv> clock (te_sec te, te_ms te)"

lemma nearest_loop:
  assumes "\<forall>t \<in> set tes \<union> set_option n. 0 \<le> te_ms t \<and> te_ms t < 1000" "tes \<noteq> [] \<or> n \<noteq> None"
  shows "\<exists>te \<in> set tes \<union> set_option n. aeSearchNearestTimer_loop n tes = Some te \<and> (\<forall>t \<in> set tes \<union> set_option n. te_at te \<le> te_at t)"
  using assms
proof (induction tes arbitrary: n)
  case Nil
  then show ?case by auto
next
  case (Cons t tes)
  let ?n = "case n of None \<Rightarrow> t | Some n \<Rightarrow> if te_sec t < te_sec n \<or> (te_sec t = te_sec n \<and> te_ms t < te_ms n) then t else n"
  have s: "aeSearchNearestTimer_loop n (t # tes) = aeSearchNearestTimer_loop (Some ?n) tes" by (simp split: option.split)
  have m: "?n \<in> set (t # tes) \<union> set_option n" "\<forall>x \<in> {t} \<union> set_option n. te_at ?n \<le> te_at x"
    using Cons.prems(1) by (auto simp: clock_def split: option.split)
  have "\<forall>x \<in> set tes \<union> set_option (Some ?n). 0 \<le> te_ms x \<and> te_ms x < 1000" using m(1) Cons.prems(1) by (auto simp del: option.set_intros)
  from Cons.IH [OF this] obtain te where te: "te \<in> set tes \<union> {?n}" "aeSearchNearestTimer_loop (Some ?n) tes = Some te"
    "\<forall>x \<in> set tes \<union> {?n}. te_at te \<le> te_at x" by auto
  have "te \<in> set (t # tes) \<union> set_option n" using te(1) m(1) by auto
  moreover have "\<forall>x \<in> set (t # tes) \<union> set_option n. te_at te \<le> te_at x" using te(3) m(2) by force
  ultimately show ?case using s te(2) by auto
qed

lemma timeout_wait_time:
  assumes "0 \<le> te_ms te" "te_ms te < 1000" "0 \<le> snd now" "snd now < 1000" "te_at te - clock now < 2147483648"
  shows "epoll_timeout (Some (wait_time now te)) = (if clock now \<le> te_at te then te_at te - clock now else (te_at te - clock now) mod 1000)"
proof -
  define a where "a = te_sec te - fst now"
  define d where "d = te_ms te - snd now"
  define v where "v = (if clock now \<le> te_at te then te_at te - clock now else (te_at te - clock now) mod 1000)"
  have c: "te_at te - clock now = 1000 * a + d" "- 1000 < d" "d < 1000" using assms by (simp_all add: clock_def a_def d_def)
  then have c2: "clock now \<le> te_at te \<longleftrightarrow> 0 \<le> 1000 * a + d" by linarith
  have w: "wait_time now te = (max 0 (if d < 0 then a - 1 else a), 1000 * (if d < 0 then d + 1000 else d))"
    using c(2,3) unfolding wait_time_def Let_def by (cases "d < 0") (simp_all add: a_def d_def max_def)
  have "d mod 1000 = (d + 1000) mod 1000" by simp
  moreover have "(d + 1000) mod 1000 = d + 1000" if "d < 0" using that c(2) by (intro mod_pos_pos_trivial) auto
  ultimately have m: "(1000 * a + d) mod 1000 = (if d < 0 then d + 1000 else d)" using c(3) by (simp add: mod_pos_pos_trivial)
  have "case wait_time now te of (sec, usec) \<Rightarrow> 0 \<le> usec \<and> sec * 1000 + usec div 1000 = v"
    unfolding w v_def c(1) c2 m using c(2,3) by (cases "d < 0"; cases "a \<le> 0"; cases "a < 0") simp_all
  moreover have "0 \<le> v" "v < 2147483648" using assms(5) by (auto simp: v_def intro: order_less_trans [OF pos_mod_bound])
  then have "sint (word_of_int v :: i32) = v" by (simp add: signed_take_bit_int_eq_self sint_sbintrunc')
  moreover have "epoll_timeout (Some (sec, usec)) = sint (word_of_int (sec * 1000 + usec div 1000) :: i32)" if "0 \<le> usec" for sec usec
    using that by (simp add: epoll_timeout_def tdiv_nonneg del: wi_hom_syms)
  ultimately show ?thesis unfolding v_def [symmetric] by (auto split: prod.splits simp del: wi_hom_syms)
qed

text \<open>Handlers of descriptors that leave the loop alone (\<open>fct\<close> is what they do to the world).\<close>

definition dispatch :: "('f \<Rightarrow> nat \<Rightarrow> 'd \<Rightarrow> u32 \<Rightarrow> 'e \<Rightarrow> 'e) \<Rightarrow> ('f, 't, 'd) T_KREventLoop \<Rightarrow> nat \<times> u32 \<Rightarrow> 'e \<Rightarrow> 'e" where
  "dispatch fct el x e = (case x of (fd, msk) \<Rightarrow>
     (let fe = el_events el ! fd; r = has (fe_mask fe AND msk) KR_EVENT_READABLE; w = has (fe_mask fe AND msk) KR_EVENT_WRITABLE;
          e1 = (if r then fct (the (fe_rfile fe)) fd (the (fe_data fe)) msk e else e)
      in if w \<and> \<not> (r \<and> fe_wfile fe = fe_rfile fe) then fct (the (fe_wfile fe)) fd (the (fe_data fe)) msk e1 else e1))"

lemma file_loop_dispatch:
  assumes "interests n m el" "\<And>f fd d msk el e. w_file W f fd d msk el e = Some (el, fct f fd d msk e)" "\<forall>(fd, msk) \<in> set fired. fd < n"
  shows "file_loop W fired el e = Some (el, fold (dispatch fct el) fired e)"
  using assms(3)
proof (induction fired arbitrary: e)
  case (Cons x xs)
  obtain fd msk where x: "x = (fd, msk)" by (cases x)
  with Cons.prems assms(1) have f: "fd < length (el_events el)" "entry_ok (el_events el ! fd)" by (auto simp: interests_def)
  from f(2) Cons.IH Cons.prems show ?case
    by (auto simp: x f(1) assms(2) dispatch_def Let_def entry_ok_def)
qed simp

section \<open>Histories\<close>

lemma timers_created: "timers_ok (kr_event_loop_create n)"
  by (simp add: timers_ok_def kr_event_loop_create_def)

lemma timers_added: "timers_ok el \<Longrightarrow> timers_ok (fst (kr_event_time_create now el milliseconds proc data final))"
  by (auto simp: timers_ok_def kr_event_time_create_def Let_def)

lemma interests_time: "interests n m (el\<lparr>el_time := tes\<rparr>) = interests n m el" "interests n m (el\<lparr>el_next := i\<rparr>) = interests n m el"
  by (simp_all add: interests_def)

lemma interests_added: "interests n m el \<Longrightarrow> interests n m (fst (kr_event_time_create now el milliseconds proc data final))"
  by (simp add: kr_event_time_create_def Let_def interests_time)

lemma passed_ids: "te_id ` set (passed now h te) \<subseteq> {te_id te}" "distinct (map te_id (passed now h te))"
  by (auto simp: passed_def)

lemma distinct_concat_keys:
  assumes "\<And>x. distinct (g x) \<and> set (g x) \<subseteq> {k x}" "distinct (map k xs)"
  shows "distinct (concat (map g xs)) \<and> set (concat (map g xs)) \<subseteq> k ` set xs"
  using assms(2)
proof (induction xs)
  case (Cons x xs)
  then have IH: "distinct (concat (map g xs))" "set (concat (map g xs)) \<subseteq> k ` set xs" and "k x \<notin> k ` set xs" by simp_all
  with assms(1) [of x] have "set (g x) \<inter> set (concat (map g xs)) = {}" by blast
  moreover have "set (g x) \<union> set (concat (map g xs)) \<subseteq> k ` set (x # xs)" using IH(2) assms(1) [of x] by auto
  ultimately show ?case using IH(1) assms(1) [of x] by simp
qed simp

lemma timers_passed:
  assumes "timers_ok el"
  shows "timers_ok (el\<lparr>el_time := concat (map (passed now h) (el_time el))\<rparr>)"
proof -
  have "distinct (map te_id (el_time el))" using assms by (simp add: timers_ok_def)
  moreover have "distinct (map te_id (passed now h te)) \<and> set (map te_id (passed now h te)) \<subseteq> {te_id te}" for te
    using passed_ids [of now h te] by simp
  ultimately have "distinct (concat (map (\<lambda>te. map te_id (passed now h te)) (el_time el)))" using distinct_concat_keys [of "\<lambda>te. map te_id (passed now h te)" te_id "el_time el"] by blast
  moreover have "te_id te < el_next el" if "t \<in> set (el_time el)" "te \<in> set (passed now h t)" for te t
    using assms passed_ids(1) [of now h t] that by (auto simp: timers_ok_def)
  ultimately show ?thesis by (auto simp: timers_ok_def map_concat comp_def)
qed

section \<open>Properties\<close>

text \<open>C37. Registering and forgetting descriptors on a new loop, in any order and with masks that are not empty: every operation ends and
  returns what the specification (a mask for every descriptor) says, \<open>kr_event_file_get\<close> returns the masks, the kernel's table holds
  exactly the descriptors with a mask and watches what it says, and \<open>maxfd\<close> is the highest of them or -1. A descriptor the kernel
  refuses or that lies outside the loop leaves everything as it was.\<close>

theorem event_interests_agree:
  assumes "\<forall>op \<in> set ops. op_mask op \<noteq> Some 0"
  shows "\<exists>el :: ('f, 't, 'd) T_KREventLoop. interest_run ops (kr_event_loop_create n) = Some (el, snd (mask_run n ops (\<lambda>_. 0))) \<and>
    (\<forall>fd. kr_event_file_get el fd = Some (fst (mask_run n ops (\<lambda>_. 0)) fd) \<and>
       el_epoll el fd = (if fst (mask_run n ops (\<lambda>_. 0)) fd = 0 then None else Some (epoll_bits (fst (mask_run n ops (\<lambda>_. 0)) fd)))) \<and>
    highest (fst (mask_run n ops (\<lambda>_. 0))) (el_maxfd el)"
proof -
  let ?m = "fst (mask_run n ops (\<lambda>_. 0))"
  from interest_run_spec [OF interests_create assms, of n] obtain el :: "('f, 't, 'd) T_KREventLoop" where
    el: "interest_run ops (kr_event_loop_create n) = Some (el, snd (mask_run n ops (\<lambda>_. 0)))" "interests n ?m el" by blast
  have "kr_event_file_get el fd = Some (?m fd)" for fd
    using el(2) by (cases "fd < n") (simp_all add: interests_def kr_event_file_get_def)
  with el show ?thesis by (auto simp: interests_def)
qed

lemma event_interests_agree_witness:
  "\<exists>el :: (nat, nat, nat) T_KREventLoop.
     interest_run [Interest False 3 1 10 7, Interest False 5 3 11 8, Interest True 6 1 11 8, Interest False 9 1 11 8, Forget 5 1, Forget 5 2]
       (kr_event_loop_create 8) = Some (el, [0, 0, - 1, - 1, 0, 0]) \<and> kr_event_file_get el 3 = Some 1 \<and> kr_event_file_get el 5 = Some 0 \<and> el_maxfd el = 3"
proof -
  let ?ops = "[Interest False 3 1 10 7, Interest False 5 3 11 8, Interest True 6 1 11 8, Interest False 9 1 11 8, Forget 5 1, Forget 5 2] :: (nat, nat) interest_op list"
  from event_interests_agree [of ?ops 8] obtain el :: "(nat, nat, nat) T_KREventLoop" where
    el: "interest_run ?ops (kr_event_loop_create 8) = Some (el, snd (mask_run 8 ?ops (\<lambda>_. 0)))"
    "\<forall>fd. kr_event_file_get el fd = Some (fst (mask_run 8 ?ops (\<lambda>_. 0)) fd)" "highest (fst (mask_run 8 ?ops (\<lambda>_. 0))) (el_maxfd el)" by auto
  have "mask_run 8 ?ops (\<lambda>_. 0) = ((\<lambda>_. 0)(3 := 1), [0, 0, - 1, - 1, 0, 0])" by (auto simp: fun_eq_iff)
  with el(3) have "el_maxfd el = 3" by (auto simp: highest_def split: if_splits)
  with el \<open>mask_run 8 ?ops (\<lambda>_. 0) = _\<close> show ?thesis by auto
qed

text \<open>C38. A round of the loop whose handlers leave the loop alone and whose timers answer -1 or a positive pause, under a clock that stands still: the kernel is asked to wait for the
  nearest timer; then the handlers of the descriptors it reports run, in its order, for what they are registered for, and one that serves
  both reading and writing runs once for a descriptor; then every timer that is due fires exactly once, in the order of the list, with
  its finalizer if it ends; a timer that ends is gone, one that goes on is armed for as many milliseconds as its handler said, and the
  others stay. The result counts the reports and the timers. The loop stays well-formed for the next round.\<close>

theorem event_round:
  assumes "interests n m el" "timers_ok el" "standing W now h act fin"
    and "\<And>f fd d msk el e. w_file W f fd d msk el e = Some (el, fct f fd d msk e)"
    and "\<And>t ep k e. fst ` set (fst (w_wait W t ep k e)) \<subseteq> dom ep"
    and "\<forall>te \<in> set (el_time el). result h te = - 1 \<or> 0 < result h te"
  shows "kr_event_process W el KR_EVENT_ALL_EVENTS e =
      (case kr_event_api_poll W el (map_option (wait_time now) (aeSearchNearestTimer el)) e of
         (fired, e1) \<Rightarrow> Some (int (length fired) + int (length (filter (due now) (el_time el))),
           el\<lparr>el_time := concat (map (passed now h) (el_time el))\<rparr>,
           fold (fire h act fin) (filter (due now) (el_time el)) (fold (dispatch fct el) fired e1))) \<and>
    interests n m (el\<lparr>el_time := concat (map (passed now h) (el_time el))\<rparr>) \<and>
    timers_ok (el\<lparr>el_time := concat (map (passed now h) (el_time el))\<rparr>)"
proof -
  obtain fired e1 where p: "kr_event_api_poll W el (map_option (wait_time now) (aeSearchNearestTimer el)) e = (fired, e1)" by force
  then have "fst ` set fired \<subseteq> dom (el_epoll el)"
    using assms(5) [of "epoll_timeout (map_option (wait_time now) (aeSearchNearestTimer el))" "el_epoll el" "el_setsize el" e]
    by (force simp: kr_event_api_poll_def split: prod.splits)
  moreover have "fd < n" if "fd \<in> dom (el_epoll el)" for fd using assms(1) that by (force simp: interests_def not_less [symmetric] split: if_splits)
  ultimately have "\<forall>(fd, msk) \<in> set fired. fd < n" by fastforce
  from file_loop_dispatch [of n m el W fct fired e1, OF assms(1,4) this] have f: "file_loop W fired el e1 = Some (el, fold (dispatch fct el) fired e1)" .
  have w: "w_clock W e = (now, e)" using assms(3) by (simp add: standing_def)
  have fl: "has KR_EVENT_ALL_EVENTS KR_EVENT_TIME_EVENTS" "has KR_EVENT_ALL_EVENTS KR_EVENT_FILE_EVENTS" "\<not> has KR_EVENT_ALL_EVENTS KR_EVENT_DONT_WAIT"
    by (simp_all add: has_def KR_EVENT_ALL_EVENTS_def KR_EVENT_TIME_EVENTS_def KR_EVENT_FILE_EVENTS_def KR_EVENT_DONT_WAIT_def)
  have "kr_event_process W el KR_EVENT_ALL_EVENTS e = Some (int (length fired) + int (length (filter (due now) (el_time el))),
      el\<lparr>el_time := concat (map (passed now h) (el_time el))\<rparr>, fold (fire h act fin) (filter (due now) (el_time el)) (fold (dispatch fct el) fired e1))"
    using p by (cases "aeSearchNearestTimer el") (simp_all add: kr_event_process_def fl w f processTimeEvents_pass [OF assms(3,2,6)])
  with p assms(1) timers_passed [OF assms(2)] show ?thesis by (simp add: interests_time)
qed

text \<open>The loop and the world of the examples: handlers write their calls down.\<close>

definition demo_world :: "(nat, nat, nat, nat list) world" where
  "demo_world = \<lparr>w_file = (\<lambda>f fd d msk el e. Some (el, e @ [f, fd])), w_time = (\<lambda>p i d el e. Some (int d - 1, el, e @ [p])),
     w_final = (\<lambda>f d el e. Some (el, e @ [f])), w_sleep = (\<lambda>f el e. Some (el, e)), w_clock = (\<lambda>e. ((100, 500), e)),
     w_wait = (\<lambda>t ep k e. if ep 3 \<noteq> None then ([(3, 5)], e @ [nat t]) else ([], e @ [nat t]))\<rparr>"

definition demo_loop :: "(nat, nat, nat) T_KREventLoop" where
  "demo_loop = (kr_event_loop_create 4)\<lparr>el_time := [\<lparr>te_id = 2, te_sec = 99, te_ms = 0, te_proc = 22, te_final = Some 72, te_data = 0\<rparr>,
      \<lparr>te_id = 1, te_sec = 100, te_ms = 600, te_proc = 21, te_final = None, te_data = 0\<rparr>,
      \<lparr>te_id = 0, te_sec = 100, te_ms = 500, te_proc = 20, te_final = None, te_data = 701\<rparr>], el_next := 3\<rparr>"

lemma demo_standing: "standing demo_world (100, 500) (\<lambda>p i d. int d - 1) (\<lambda>p i d e. e @ [p]) (\<lambda>f d e. e @ [f])"
  by (simp add: standing_def demo_world_def)

lemma event_round_witness:
  "\<exists>el. kr_event_file_create False demo_loop 3 3 31 7 = Some (el, 0) \<and>
     (\<exists>el'. kr_event_process demo_world el KR_EVENT_ALL_EVENTS [] = Some (3, el', [500, 31, 3, 22, 72, 20]) \<and>
        map (\<lambda>te. (te_id te, te_sec te, te_ms te)) (el_time el') = [(1, 100, 600), (0, 101, 200)])"
proof -
  have "interests 4 (\<lambda>_. 0) demo_loop" using interests_create [of 4] by (simp add: demo_loop_def interests_time)
  from interest_create_step [OF this, of 3 False 3 31 7] obtain el where
    el: "kr_event_file_create False demo_loop 3 3 31 7 = Some (el, 0)" "interests 4 ((\<lambda>_. 0)(3 := 3)) el" "el_time el = el_time demo_loop" "el_next el = el_next demo_loop" by auto
  have t: "timers_ok el" by (simp add: timers_ok_def el(3,4) demo_loop_def)
  have x: "el = demo_loop\<lparr>el_epoll := [3 \<mapsto> 5], el_events := (el_events demo_loop)[3 := \<lparr>fe_mask = 3, fe_rfile = Some 31, fe_wfile = Some 31, fe_data = Some 7\<rparr>],
      el_maxfd := 3\<rparr>" using el(1)
    by (simp add: kr_event_file_create_def demo_loop_def kr_event_loop_create_def kr_event_api_add_def epoll_ctl_def KR_EVENT_NONE_def nth_opt_def Let_def
      has_def KR_EVENT_READABLE_def KR_EVENT_WRITABLE_def epoll_bits_def EPOLLIN_def EPOLLOUT_def)
  have hs: "\<forall>te \<in> set (el_time el). result (\<lambda>p i d. int d - 1) te = - 1 \<or> 0 < result (\<lambda>p i d. int d - 1) te"
    by (simp add: el(3) demo_loop_def result_def)
  have ws: "fst ` set (fst (w_wait demo_world t ep k e)) \<subseteq> dom ep" "w_file demo_world f fd d msk lp e = Some (lp, e @ [f, fd])" for t ep k e f fd d msk lp
    by (auto simp: demo_world_def)
  note r = event_round [OF el(2) t demo_standing ws(2,1) hs, of "[]", THEN conjunct1]
  have "kr_event_api_poll demo_world el (map_option (wait_time (100, 500)) (aeSearchNearestTimer el)) [] = ([(3, 3)], [500])"
    by (simp add: x kr_event_api_poll_def demo_world_def demo_loop_def aeSearchNearestTimer_def wait_time_def epoll_timeout_def tdiv_nonneg event_bits_def
      has_def EPOLLIN_def EPOLLOUT_def KR_EVENT_READABLE_def KR_EVENT_WRITABLE_def)
  with r have "kr_event_process demo_world el KR_EVENT_ALL_EVENTS [] = Some (3,
     el\<lparr>el_time := concat (map (passed (100, 500) (\<lambda>p i d. int d - 1)) (el_time el))\<rparr>, [500, 31, 3, 22, 72, 20])"
    by (simp add: x demo_loop_def due_def dispatch_def fire_def result_def has_def KR_EVENT_READABLE_def KR_EVENT_WRITABLE_def kr_event_loop_create_def Let_def)
  moreover have "map (\<lambda>te. (te_id te, te_sec te, te_ms te)) (concat (map (passed (100, 500) (\<lambda>p i d. int d - 1)) (el_time el))) = [(1, 100, 600), (0, 101, 200)]"
    by (simp add: el(3) demo_loop_def passed_def due_def rearmed_def result_def aeAddMillisecondsToNow_def tdiv_nonneg tmod_def)
  ultimately show ?thesis using el(1) by simp
qed

text \<open>C39. A due timer whose handler returns 0 (or less, but not \<open>KR_EVENT_NOMORE\<close>) is due again at once: while the clock stands still,
  the pass over the timers does not end, whatever the other timers do. (Only handlers that leave the loop alone are looked at, so that nothing is
  freed under the walk.)\<close>

theorem timer_without_pause_hangs:
  assumes "timers_ok el" "standing W now h act fin" "te \<in> set (el_time el)" "due now te" "result h te \<le> 0" "result h te \<noteq> KR_EVENT_NOMORE"
  shows "processTimeEvents W el e = None"
proof (rule ccontr)
  assume "processTimeEvents W el e \<noteq> None"
  then obtain r where "time_loop W (el_next el - 1) (el_time el) 0 el e = Some r" by (auto simp: processTimeEvents_def)
  from time_loop_stuck [OF this assms(2), of "[]"] assms(1,3-) show False by (force simp: timers_ok_def stuck_def KR_EVENT_NOMORE_def)
qed

lemma timer_without_pause_hangs_witness:
  "processTimeEvents demo_world (demo_loop\<lparr>el_time := [\<lparr>te_id = 2, te_sec = 100, te_ms = 0, te_proc = 22, te_final = None, te_data = 1\<rparr>]\<rparr>) [] = None"
  by (rule timer_without_pause_hangs [OF _ demo_standing]) (auto simp: timers_ok_def demo_loop_def due_def result_def KR_EVENT_NOMORE_def)

text \<open>C40. How long a round sleeps when there are timers: the timer that is looked at is one of the loop's and none is due before it; when it is
  due in the future or now, the timeout is exactly the time up to it (up to the range of an \<open>int\<close> in milliseconds); when it is overdue, the
  round does not return at once, but sleeps for the difference of the milliseconds modulo 1000, almost a second for a timer that is one
  millisecond late.\<close>

theorem sleeps_until_nearest_timer:
  assumes "el_time el \<noteq> []" "\<forall>te \<in> set (el_time el). 0 \<le> te_ms te \<and> te_ms te < 1000" "0 \<le> snd now" "snd now < 1000"
  shows "\<exists>te \<in> set (el_time el). aeSearchNearestTimer el = Some te \<and> (\<forall>t \<in> set (el_time el). te_at te \<le> te_at t) \<and>
     (te_at te - clock now < 2147483648 \<longrightarrow>
        epoll_timeout (Some (wait_time now te)) = (if clock now \<le> te_at te then te_at te - clock now else (te_at te - clock now) mod 1000))"
proof -
  from nearest_loop [of "el_time el" None] assms(1,2) obtain te where te: "te \<in> set (el_time el)" "aeSearchNearestTimer el = Some te"
    "\<forall>t \<in> set (el_time el). te_at te \<le> te_at t" by (auto simp: aeSearchNearestTimer_def)
  with timeout_wait_time [of te now] assms(2-) show ?thesis by blast
qed

lemma sleeps_until_nearest_timer_witness:
  "epoll_timeout (map_option (wait_time (100, 501)) (aeSearchNearestTimer (demo_loop\<lparr>el_time := tl (el_time demo_loop)\<rparr>))) = 999"
proof -
  let ?el = "demo_loop\<lparr>el_time := tl (el_time demo_loop)\<rparr>"
  have "el_time ?el \<noteq> []" "\<forall>te \<in> set (el_time ?el). 0 \<le> te_ms te \<and> te_ms te < 1000" by (simp_all add: demo_loop_def)
  from sleeps_until_nearest_timer [OF this, of "(100, 501)"] obtain te where te: "te \<in> set (el_time ?el)" "aeSearchNearestTimer ?el = Some te"
    "\<forall>t \<in> set (el_time ?el). te_at te \<le> te_at t"
    "te_at te - clock (100, 501) < 2147483648 \<longrightarrow> epoll_timeout (Some (wait_time (100, 501) te)) =
       (if clock (100, 501) \<le> te_at te then te_at te - clock (100, 501) else (te_at te - clock (100, 501)) mod 1000)"
    by (simp only: fst_conv snd_conv) force
  from te(1,3) have "te_at te = 100500" by (auto simp: demo_loop_def clock_def)
  with te(2,4) show ?thesis by (simp add: clock_def)
qed

end
