(* ===== verification/KR_Admin.thy ===== *)
theory KR_Admin
  imports KR_Json KR_Engine
begin

text \<open>
  The handles of \<open>krengine/kr_engine_handle.c\<close> that describe and configure the engine, what they call of \<open>krutils/kr_log.c\<close>
  and the descriptions \<open>kr_*_info\<close> of \<open>krdb/kr_db_api.c\<close>, \<open>krparam/kr_shm*.c\<close> and \<open>krparam/kr_dym*.c\<close>; and the reloading of the
  parameters, \<open>kr_shm_load\<close>, into the section of the shared memory that is not in use.
\<close>

section \<open>Log settings\<close>

text \<open>The two names are arrays of \<open>KR_LOGFILE_LEN\<close> characters that \<open>strcpy\<close> fills: a longer text is written beyond the array.\<close>

definition KR_LOGFILE_LEN :: nat where "KR_LOGFILE_LEN = 1024"
definition KR_LOGFATAL :: int where "KR_LOGFATAL = 1"
definition KR_LOGWARNING :: int where "KR_LOGWARNING = 3"
definition KR_LOGDEBUG :: int where "KR_LOGDEBUG = 5"

record T_KRLog =
  lg_path :: string
  lg_name :: string
  lg_level :: int

definition gstKRLog :: T_KRLog where
  "gstKRLog = \<lparr>lg_path = ''.'', lg_name = ''trace'', lg_level = KR_LOGWARNING\<rparr>"

definition strcpy_array :: "nat \<Rightarrow> string \<Rightarrow> string option" where
  "strcpy_array n s = (if length s < n then Some s else None)"

definition kr_log_set_path :: "string \<Rightarrow> T_KRLog \<Rightarrow> T_KRLog option" where
  "kr_log_set_path path lg = map_option (\<lambda>s. lg\<lparr>lg_path := s\<rparr>) (strcpy_array KR_LOGFILE_LEN path)"

definition kr_log_set_name :: "string \<Rightarrow> T_KRLog \<Rightarrow> T_KRLog option" where
  "kr_log_set_name name lg = map_option (\<lambda>s. lg\<lparr>lg_name := s\<rparr>) (strcpy_array KR_LOGFILE_LEN name)"

definition kr_log_set_level :: "int \<Rightarrow> T_KRLog \<Rightarrow> T_KRLog" where
  "kr_log_set_level level lg = lg\<lparr>lg_level := level\<rparr>"

section \<open>Descriptions\<close>

text \<open>A series of calls that add members to an object.\<close>

datatype member = M_num string int | M_str string string | M_item string "cJSON option"

fun add_members :: "cJSON \<Rightarrow> member list \<Rightarrow> cJSON option" where
  "add_members obj [] = Some obj"
| "add_members obj (M_num name v # ms) = do { obj1 \<leftarrow> cJSON_AddNumberToObject obj name (d_of_int v); add_members obj1 ms }"
| "add_members obj (M_str name s # ms) = add_members (cJSON_AddStringToObject obj name s) ms"
| "add_members obj (M_item name x # ms) = add_members (cJSON_AddItemToObject obj name x) ms"

definition described :: "member list \<Rightarrow> cJSON option" where
  "described ms = add_members cJSON_CreateObject ms"

definition kr_log_dump_json :: "T_KRLog \<Rightarrow> cJSON option" where
  "kr_log_dump_json lg = described [M_str ''path'' (lg_path lg), M_str ''name'' (lg_name lg), M_num ''level'' (lg_level lg)]"

text \<open>The enumerations are characters.\<close>

fun type_number :: "E_KRType \<Rightarrow> int" where
  "type_number KR_TYPE_BOOL = 66"
| "type_number KR_TYPE_CHAR = 67"
| "type_number KR_TYPE_INT = 73"
| "type_number KR_TYPE_LONG = 76"
| "type_number KR_TYPE_DOUBLE = 68"
| "type_number KR_TYPE_STRING = 83"
| "type_number KR_TYPE_POINTER = 80"
| "type_number KR_TYPE_UNKNOWN = 85"

fun index_type_number :: "E_KRIndexType \<Rightarrow> int" where
  "index_type_number KR_INDEXTYPE_TABLE = 83"
| "index_type_number KR_INDEXTYPE_DB = 77"
| "index_type_number (KR_INDEXTYPE_OTHER c) = schar c"

fun keep_mode_number :: "E_KRSizeKeepMode \<Rightarrow> int" where
  "keep_mode_number KR_SIZEKEEPMODE_RECORD = 48"
| "keep_mode_number KR_SIZEKEEPMODE_TIME = 49"

definition kr_db_info :: "'d T_KRDB \<Rightarrow> cJSON option" where
  "kr_db_info db = described [M_str ''name'' (db_name db), M_num ''table_number'' (uint (l_len (db_table_list db))),
     M_num ''index_number'' (uint (l_len (db_index_list db)))]"

definition field_info :: "T_KRFieldDef \<Rightarrow> cJSON option" where
  "field_info fd = described [M_num ''id'' (fd_id fd), M_str ''name'' (fd_name fd), M_num ''type'' (type_number (fd_type fd)), M_num ''length'' (fd_length fd)]"

primrec fields_info :: "T_KRFieldDef list \<Rightarrow> nat list \<Rightarrow> cJSON \<Rightarrow> cJSON option" where
  "fields_info fds [] arr = Some arr"
| "fields_info fds (i # is) arr = do {
     fd \<leftarrow> nth_opt fds i;
     field \<leftarrow> field_info fd;
     fields_info fds is (cJSON_AddItemToArray arr (Some field))
   }"

definition kr_db_table_info :: "'d T_KRTable \<Rightarrow> cJSON option" where
  "kr_db_table_info tb = do {
     table \<leftarrow> described [M_num ''id'' (tb_id tb), M_str ''name'' (tb_name tb), M_num ''size_keep_mode'' (keep_mode_number (tb_keep_mode tb)),
       M_num ''size_keep_value'' (tb_keep_value tb), M_num ''field_count'' (tb_field_cnt tb), M_num ''record_size'' (tb_record_size tb),
       M_num ''record_number'' (uint (tb_num tb)), M_num ''record_location'' (uint (tb_loc tb))];
     fields \<leftarrow> fields_info (tb_fields tb) [0..<nat (tb_field_cnt tb)] cJSON_CreateArray;
     Some (cJSON_AddItemToObject table ''fields'' (Some fields))
   }"

definition kr_db_index_info :: "T_KRIndex \<Rightarrow> cJSON option" where
  "kr_db_index_info ix = described [M_num ''id'' (ix_id ix), M_str ''name'' (ix_name ix), M_num ''type'' (index_type_number (ix_type ix)),
     M_num ''index_field_id'' (ix_field ix), M_num ''sort_field_id'' (ix_sort ix)]"

text \<open>The members of a definition that nothing but its description reads, and its characters as texts.\<close>

record def_text =
  tx_name :: string
  tx_desc :: string
  tx_usage :: string
  tx_type :: string
  tx_value_type :: string
  tx_prop :: string
  tx_method :: string
  tx_format :: string
  tx_func :: string
  tx_datasrc :: int
  tx_length :: int
  tx_count :: int

record param_texts =
  pt_set :: "int \<Rightarrow> def_text"
  pt_sdi :: "int \<Rightarrow> def_text"
  pt_ddi :: "int \<Rightarrow> def_text"
  pt_hdi :: "int \<Rightarrow> def_text"
  pt_group :: "int \<Rightarrow> def_text"
  pt_rule :: "int \<Rightarrow> int \<Rightarrow> def_text"

definition kr_shm_set_info :: "param_texts \<Rightarrow> T_KRShmSetDef \<Rightarrow> cJSON option" where
  "kr_shm_set_info pt d = (let tx = pt_set pt (zd_id d) in described
     [M_num ''id'' (zd_id d), M_str ''name'' (zd_name d), M_str ''desc'' (tx_desc tx), M_str ''usage'' (tx_usage tx), M_str ''type'' (tx_type tx),
      M_str ''ele_type'' (tx_value_type tx), M_num ''ele_length'' (tx_length tx)])"

definition kr_shm_sdi_info :: "param_texts \<Rightarrow> T_KRShmSDIDef \<Rightarrow> cJSON option" where
  "kr_shm_sdi_info pt d = (let tx = pt_sdi pt (sd_id d) in described
     [M_num ''id'' (sd_id d), M_str ''name'' (tx_name tx), M_str ''desc'' (tx_desc tx), M_str ''type'' (tx_type tx), M_str ''value_type'' (tx_value_type tx),
      M_str ''aggr_func'' (sd_aggr d), M_num ''datasrc'' (sd_datasrc d), M_num ''index'' (sd_index d), M_num ''field'' (sd_field d),
      M_num ''location'' (sd_location d), M_str ''location_property'' (tx_prop tx), M_str ''filter_format'' (tx_format tx), M_str ''filter_string'' (sd_filter d)])"

definition kr_shm_ddi_info :: "param_texts \<Rightarrow> T_KRShmDDIDef \<Rightarrow> cJSON option" where
  "kr_shm_ddi_info pt d = (let tx = pt_ddi pt (dd_id d) in described
     [M_num ''id'' (dd_id d), M_str ''name'' (tx_name tx), M_str ''desc'' (tx_desc tx), M_str ''type'' (tx_type tx), M_str ''value_type'' (tx_value_type tx),
      M_str ''aggr_func'' (dd_aggr d), M_num ''datasrc'' (dd_datasrc d), M_num ''index'' (dd_index d), M_num ''field'' (dd_field d),
      M_str ''statictics_type'' (tx_prop tx), M_num ''statictics_value'' (dd_stat_value d), M_num ''statictics_count'' (tx_count tx),
      M_str ''statictics_method'' (tx_method tx), M_str ''filter_format'' (tx_format tx), M_str ''filter_string'' (dd_filter d)])"

definition kr_shm_hdi_info :: "param_texts \<Rightarrow> T_KRShmHDIDef \<Rightarrow> cJSON option" where
  "kr_shm_hdi_info pt d = (let tx = pt_hdi pt (hd_id d) in described
     [M_num ''id'' (hd_id d), M_str ''name'' (tx_name tx), M_str ''desc'' (tx_desc tx), M_str ''type'' (tx_type tx), M_str ''value_type'' (tx_value_type tx),
      M_str ''aggr_func'' (hd_aggr d), M_num ''datasrc'' (tx_datasrc tx), M_num ''index'' (hd_index d),
      M_str ''statictics_type'' (tx_prop tx), M_num ''statictics_value'' (hd_stat_value d), M_str ''statictics_method'' (tx_method tx)])"

definition kr_shm_group_info :: "param_texts \<Rightarrow> T_KRShmGroupDef \<Rightarrow> cJSON option" where
  "kr_shm_group_info pt d = (let tx = pt_group pt (gd_id d) in described
     [M_num ''id'' (gd_id d), M_str ''name'' (gd_name d), M_str ''desc'' (tx_desc tx), M_str ''func'' (tx_func tx), M_str ''calc_format'' (tx_format tx),
      M_str ''calc_string'' (gd_string d)])"

definition kr_shm_rule_info :: "param_texts \<Rightarrow> int \<Rightarrow> T_KRShmRuleDef \<Rightarrow> cJSON option" where
  "kr_shm_rule_info pt gid d = (let tx = pt_rule pt gid (rd_id d) in described
     [M_num ''id'' (rd_id d), M_str ''name'' (rd_name d), M_str ''desc'' (tx_desc tx), M_num ''datasrc'' (rd_datasrc d), M_str ''type'' (tx_type tx),
      M_str ''func'' (tx_func tx), M_num ''weight'' (rd_weight d), M_str ''calc_format'' (tx_format tx), M_str ''calc_string'' (rd_string d)])"

text \<open>The descriptions of the objects of a context hold that of the definition.\<close>

definition def_info :: "cJSON option \<Rightarrow> cJSON option" where
  "def_info d = do { x \<leftarrow> d; described [M_item ''def'' (Some x)] }"

definition kr_set_info :: "param_texts \<Rightarrow> T_KRShmSetDef \<Rightarrow> cJSON option" where
  "kr_set_info pt d = def_info (kr_shm_set_info pt d)"

definition kr_sdi_info :: "param_texts \<Rightarrow> T_KRSDI \<Rightarrow> cJSON option" where
  "kr_sdi_info pt si = def_info (kr_shm_sdi_info pt (si_def si))"

definition kr_ddi_info :: "param_texts \<Rightarrow> T_KRDDI \<Rightarrow> cJSON option" where
  "kr_ddi_info pt di = def_info (kr_shm_ddi_info pt (di_def di))"

definition kr_hdi_info :: "param_texts \<Rightarrow> T_KRHDI \<Rightarrow> cJSON option" where
  "kr_hdi_info pt hi = def_info (kr_shm_hdi_info pt (hi_def hi))"

definition kr_rule_info :: "param_texts \<Rightarrow> int \<Rightarrow> T_KRRule \<Rightarrow> cJSON option" where
  "kr_rule_info pt gid r = def_info (kr_shm_rule_info pt gid (ru_def r))"

primrec rules_info :: "param_texts \<Rightarrow> int \<Rightarrow> T_KRRule list \<Rightarrow> cJSON \<Rightarrow> cJSON option" where
  "rules_info pt gid [] arr = Some arr"
| "rules_info pt gid (r # rs) arr = do { x \<leftarrow> kr_rule_info pt gid r; rules_info pt gid rs (cJSON_AddItemToArray arr (Some x)) }"

definition kr_group_info :: "param_texts \<Rightarrow> T_KRGroup \<Rightarrow> cJSON option" where
  "kr_group_info pt g = do {
     def \<leftarrow> kr_shm_group_info pt (gr_def g);
     rules \<leftarrow> rules_info pt (gd_id (gr_def g)) (rl_rules (gr_rules g)) cJSON_CreateArray;
     described [M_item ''def'' (Some def), M_item ''rules'' (Some rules)]
   }"

definition kr_shm_info :: "T_KRShareMem \<Rightarrow> cJSON option" where
  "kr_shm_info shm = (let sec = sm_sec shm in described
     [M_num ''current_secid'' (int sec), M_num ''set_load_time'' (sa_time (sm_set shm sec)), M_num ''sdi_load_time'' (sa_time (sm_sdi shm sec)),
      M_num ''ddi_load_time'' (sa_time (sm_ddi shm sec)), M_num ''hdi_load_time'' (sa_time (sm_hdi shm sec)), M_num ''group_load_time'' (sa_time (sm_group shm sec))])"

definition kr_dym_info :: "T_KRDynamicMem \<Rightarrow> cJSON option" where
  "kr_dym_info d = described [M_num ''set_construct_time'' (it_time (dy_sets d)), M_num ''sdi_construct_time'' (it_time (dy_sdis d)),
     M_num ''ddi_construct_time'' (it_time (dy_ddis d)), M_num ''hdi_construct_time'' (it_time (dy_hdis d)), M_num ''group_construct_time'' (gl_time (dy_groups d))]"

section \<open>Reloading the parameters\<close>

text \<open>
  What the loaders do, which read the parameter database: the result (0 for success) and the area as they leave it. The areas
  are loaded into the section that is not in use, and the first that fails ends the load.
\<close>

record shm_loader =
  ld_set :: "int \<times> T_KRShmSetDef shm_area"
  ld_sdi :: "int \<times> T_KRShmSDIDef shm_area"
  ld_ddi :: "int \<times> T_KRShmDDIDef shm_area"
  ld_hdi :: "int \<times> T_KRShmHDIDef shm_area"
  ld_group :: "int \<times> T_KRShmGroupDef shm_area"

definition N_MAX_SEC :: nat where "N_MAX_SEC = 2"

definition kr_shm_switch :: "T_KRShareMem \<Rightarrow> T_KRShareMem \<times> int" where
  "kr_shm_switch shm = (let sec = (sm_sec shm + 1) mod N_MAX_SEC in (shm\<lparr>sm_sec := sec\<rparr>, int sec))"

definition kr_shm_load :: "shm_loader \<Rightarrow> T_KRShareMem \<Rightarrow> T_KRShareMem \<times> int" where
  "kr_shm_load ld shm =
     (let back = (sm_sec shm + 1) mod N_MAX_SEC;
          shm1 = shm\<lparr>sm_set := (sm_set shm)(back := snd (ld_set ld))\<rparr>
      in if fst (ld_set ld) \<noteq> 0 then (shm1, - 1)
      else let shm2 = shm1\<lparr>sm_sdi := (sm_sdi shm1)(back := snd (ld_sdi ld))\<rparr>
      in if fst (ld_sdi ld) \<noteq> 0 then (shm2, - 1)
      else let shm3 = shm2\<lparr>sm_ddi := (sm_ddi shm2)(back := snd (ld_ddi ld))\<rparr>
      in if fst (ld_ddi ld) \<noteq> 0 then (shm3, - 1)
      else let shm4 = shm3\<lparr>sm_hdi := (sm_hdi shm3)(back := snd (ld_hdi ld))\<rparr>
      in if fst (ld_hdi ld) \<noteq> 0 then (shm4, - 1)
      else let shm5 = shm4\<lparr>sm_group := (sm_group shm4)(back := snd (ld_group ld))\<rparr>
      in if fst (ld_group ld) \<noteq> 0 then (shm5, - 1)
      else kr_shm_switch shm5)"

definition zero_area :: "'a shm_area" where
  "zero_area = \<lparr>sa_cnt = 0, sa_defs = [], sa_time = 0\<rparr>"

definition kr_shm_create :: "shm_loader \<Rightarrow> T_KRShareMem option" where
  "kr_shm_create ld =
     (let r = kr_shm_load ld \<lparr>sm_sec = 0, sm_set = (\<lambda>_. zero_area), sm_sdi = (\<lambda>_. zero_area), sm_ddi = (\<lambda>_. zero_area), sm_hdi = (\<lambda>_. zero_area),
        sm_group = (\<lambda>_. zero_area)\<rparr>
      in if snd r < 0 then None else Some (fst r))"

section \<open>Handles\<close>

text \<open>
  A handle gets the data source and the text of the request and writes the type, the text and the length of the answer; the log
  settings are global. The description of the package, \<open>access\<close>, the loaders, the texts of the
  parameters and the definition a set was built from are parameters.
\<close>

record admin_env =
  ae_json :: json_lib
  ae_access :: "string \<Rightarrow> bool"
  ae_loader :: shm_loader
  ae_texts :: param_texts
  ae_set_def :: "int \<Rightarrow> T_KRShmSetDef"
  ae_version :: string
  ae_package :: string
  ae_package_version :: string
  ae_package_bugreport :: string
  ae_package_url :: string

record admin_request =
  rq_datasrc :: int
  rq_buf :: string

record admin_reply =
  rp_type :: E_KRMsgType
  rp_buf :: "string option"
  rp_len :: nat

record 'd admin_state =
  as_log :: T_KRLog
  as_cx :: "'d T_KRContext"
  as_reply :: admin_reply

definition set_error :: "'d admin_state \<Rightarrow> 'd admin_state" where
  "set_error st = st\<lparr>as_reply := (as_reply st)\<lparr>rp_type := KR_MSGTYPE_ERROR\<rparr>\<rparr>"

definition set_answer :: "admin_env \<Rightarrow> cJSON option \<Rightarrow> 'd admin_state \<Rightarrow> 'd admin_state option" where
  "set_answer ae json st = do {
     j \<leftarrow> json;
     buf \<leftarrow> cJSON_PrintUnformatted (ae_json ae) j;
     Some (st\<lparr>as_reply := \<lparr>rp_type = KR_MSGTYPE_SUCCESS, rp_buf = Some buf, rp_len = length buf + 1\<rparr>\<rparr>)
   }"

text \<open>The start that the handles with a document in the request share.\<close>

definition with_json :: "admin_env \<Rightarrow> admin_request \<Rightarrow> (cJSON \<Rightarrow> 'd admin_state option) \<Rightarrow> 'd admin_state \<Rightarrow> 'd admin_state option" where
  "with_json ae rq k st = do {
     parsed \<leftarrow> cJSON_Parse (ae_json ae) (rq_buf rq);
     (case parsed of None \<Rightarrow> Some (set_error st) | Some j \<Rightarrow> k j)
   }"

definition get_int :: "cJSON \<Rightarrow> string \<Rightarrow> int option" where
  "get_int j name = do { d \<leftarrow> cJSON_GetNumber j name; d_to_i32 d }"

definition kr_engine_info :: "admin_env \<Rightarrow> 'd admin_state \<Rightarrow> 'd admin_state option" where
  "kr_engine_info ae st = set_answer ae (described [M_str ''version'' (ae_version ae), M_str ''package'' (ae_package ae),
     M_str ''package_version'' (ae_package_version ae), M_str ''package_bugreport'' (ae_package_bugreport ae), M_str ''package_url'' (ae_package_url ae)]) st"

definition kr_engine_info_log :: "admin_env \<Rightarrow> 'd admin_state \<Rightarrow> 'd admin_state option" where
  "kr_engine_info_log ae st = set_answer ae (kr_log_dump_json (as_log st)) st"

definition kr_engine_set_logpath :: "admin_env \<Rightarrow> admin_request \<Rightarrow> 'd admin_state \<Rightarrow> 'd admin_state option" where
  "kr_engine_set_logpath ae rq st = with_json ae rq (\<lambda>j. do {
     logpath \<leftarrow> cJSON_GetString j ''log_path'';
     (case logpath of
        None \<Rightarrow> Some (set_error st)
      | Some path \<Rightarrow> if \<not> ae_access ae path then Some (set_error st)
          else do { lg \<leftarrow> kr_log_set_path path (as_log st); set_answer ae (kr_log_dump_json lg) (st\<lparr>as_log := lg\<rparr>) })
   }) st"

definition kr_engine_set_logname :: "admin_env \<Rightarrow> admin_request \<Rightarrow> 'd admin_state \<Rightarrow> 'd admin_state option" where
  "kr_engine_set_logname ae rq st = with_json ae rq (\<lambda>j. do {
     logname \<leftarrow> cJSON_GetString j ''log_name'';
     (case logname of
        None \<Rightarrow> Some (set_error st)
      | Some name \<Rightarrow> do { lg \<leftarrow> kr_log_set_name name (as_log st); set_answer ae (kr_log_dump_json lg) (st\<lparr>as_log := lg\<rparr>) })
   }) st"

definition kr_engine_set_loglevel :: "admin_env \<Rightarrow> admin_request \<Rightarrow> 'd admin_state \<Rightarrow> 'd admin_state option" where
  "kr_engine_set_loglevel ae rq st = with_json ae rq (\<lambda>j. do {
     loglevel \<leftarrow> get_int j ''log_level'';
     if loglevel < KR_LOGFATAL \<or> loglevel > KR_LOGDEBUG then Some (set_error st)
     else let lg = kr_log_set_level loglevel (as_log st) in set_answer ae (kr_log_dump_json lg) (st\<lparr>as_log := lg\<rparr>)
   }) st"

definition kr_engine_info_krdb :: "admin_env \<Rightarrow> 'd admin_state \<Rightarrow> 'd admin_state option" where
  "kr_engine_info_krdb ae st = set_answer ae (kr_db_info (cx_db (as_cx st))) st"

definition kr_engine_info_table :: "admin_env \<Rightarrow> admin_request \<Rightarrow> 'd admin_state \<Rightarrow> 'd admin_state option" where
  "kr_engine_info_table ae rq st = do {
     found \<leftarrow> kr_get_table (cx_db (as_cx st)) (rq_datasrc rq);
     (case found of
        None \<Rightarrow> Some (set_error st)
      | Some t \<Rightarrow> do { tb \<leftarrow> db_tables (cx_db (as_cx st)) t; set_answer ae (kr_db_table_info tb) st })
   }"

definition kr_engine_info_index :: "admin_env \<Rightarrow> admin_request \<Rightarrow> 'd admin_state \<Rightarrow> 'd admin_state option" where
  "kr_engine_info_index ae rq st = with_json ae rq (\<lambda>j. do {
     index_id \<leftarrow> get_int j ''index_id'';
     found \<leftarrow> kr_get_table (cx_db (as_cx st)) (rq_datasrc rq);
     (case found of
        None \<Rightarrow> Some (set_error st)
      | Some t \<Rightarrow> do {
          ixr \<leftarrow> kr_get_table_index (cx_db (as_cx st)) t index_id;
          (case ixr of None \<Rightarrow> Some (set_error st) | Some ix \<Rightarrow> set_answer ae (kr_db_index_info ix) st)
        })
   }) st"

definition kr_engine_list_index_key :: "'d admin_state \<Rightarrow> 'd admin_state" where
  "kr_engine_list_index_key st =
     (let buf = ''list index key!'' in st\<lparr>as_reply := \<lparr>rp_type = KR_MSGTYPE_SUCCESS, rp_buf = Some buf, rp_len = length buf + 1\<rparr>\<rparr>)"

definition kr_engine_info_param :: "admin_env \<Rightarrow> 'd admin_state \<Rightarrow> 'd admin_state option" where
  "kr_engine_info_param ae st = set_answer ae (do {
     shm \<leftarrow> kr_shm_info (cx_shm (as_cx st));
     dym \<leftarrow> kr_dym_info (cx_dym (as_cx st));
     described [M_item ''shm'' (Some shm), M_item ''dym'' (Some dym)]
   }) st"

text \<open>The answer of a reload is that of \<open>kr_engine_info_param\<close>.\<close>

definition kr_engine_reload_param :: "admin_env \<Rightarrow> 'd admin_state \<Rightarrow> 'd admin_state option" where
  "kr_engine_reload_param ae st =
     (case kr_shm_load (ae_loader ae) (cx_shm (as_cx st)) of
        (shm, ret) \<Rightarrow> let st1 = st\<lparr>as_cx := (as_cx st)\<lparr>cx_shm := shm\<rparr>\<rparr>
          in if ret < 0 then Some (set_error st1) else kr_engine_info_param ae st1)"

text \<open>The handles that look an object up by the number in the request.\<close>

definition answer_found :: "admin_env \<Rightarrow> ('a \<Rightarrow> cJSON option) \<Rightarrow> 'a option \<Rightarrow> 'd admin_state \<Rightarrow> 'd admin_state option" where
  "answer_found ae info found st = (case found of None \<Rightarrow> Some (set_error st) | Some x \<Rightarrow> set_answer ae (info x) st)"

definition kr_engine_info_group :: "admin_env \<Rightarrow> admin_request \<Rightarrow> 'd admin_state \<Rightarrow> 'd admin_state option" where
  "kr_engine_info_group ae rq st = with_json ae rq (\<lambda>j. do {
     gid \<leftarrow> get_int j ''group_id'';
     answer_found ae (kr_group_info (ae_texts ae)) (kr_group_lookup (dy_groups (cx_dym (as_cx st))) gid) st
   }) st"

definition kr_engine_info_rule :: "admin_env \<Rightarrow> admin_request \<Rightarrow> 'd admin_state \<Rightarrow> 'd admin_state option" where
  "kr_engine_info_rule ae rq st = with_json ae rq (\<lambda>j. do {
     group_id \<leftarrow> get_int j ''group_id'';
     (case kr_group_lookup (dy_groups (cx_dym (as_cx st))) group_id of
        None \<Rightarrow> Some (set_error st)
      | Some g \<Rightarrow> do {
          rule_id \<leftarrow> get_int j ''rule_id'';
          answer_found ae (kr_rule_info (ae_texts ae) (gd_id (gr_def g))) (kr_rule_lookup (gr_rules g) rule_id) st
        })
   }) st"

definition kr_engine_info_set :: "admin_env \<Rightarrow> admin_request \<Rightarrow> 'd admin_state \<Rightarrow> 'd admin_state option" where
  "kr_engine_info_set ae rq st = with_json ae rq (\<lambda>j. do {
     sid \<leftarrow> get_int j ''set_id'';
     answer_found ae (\<lambda>z. kr_set_info (ae_texts ae) (ae_set_def ae (zs_id z))) (kr_set_lookup (dy_sets (cx_dym (as_cx st))) sid) st
   }) st"

definition kr_engine_info_sdi :: "admin_env \<Rightarrow> admin_request \<Rightarrow> 'd admin_state \<Rightarrow> 'd admin_state option" where
  "kr_engine_info_sdi ae rq st = with_json ae rq (\<lambda>j. do {
     sid \<leftarrow> get_int j ''sdi_id'';
     answer_found ae (kr_sdi_info (ae_texts ae)) (kr_sdi_lookup (dy_sdis (cx_dym (as_cx st))) sid) st
   }) st"

definition kr_engine_info_ddi :: "admin_env \<Rightarrow> admin_request \<Rightarrow> 'd admin_state \<Rightarrow> 'd admin_state option" where
  "kr_engine_info_ddi ae rq st = with_json ae rq (\<lambda>j. do {
     did \<leftarrow> get_int j ''ddi_id'';
     answer_found ae (kr_ddi_info (ae_texts ae)) (kr_ddi_lookup (dy_ddis (cx_dym (as_cx st))) did) st
   }) st"

definition kr_engine_info_hdi :: "admin_env \<Rightarrow> admin_request \<Rightarrow> 'd admin_state \<Rightarrow> 'd admin_state option" where
  "kr_engine_info_hdi ae rq st = with_json ae rq (\<lambda>j. do {
     hid \<leftarrow> get_int j ''hdi_id'';
     answer_found ae (kr_hdi_info (ae_texts ae)) (kr_hdi_lookup (dy_hdis (cx_dym (as_cx st))) hid) st
   }) st"

end
