(* ===== verification/KR_Admin_Props.thy ===== *)
theory KR_Admin_Props
  imports KR_Admin KR_Calc_Json_Props KR_Context_Props
begin

text \<open>What the administrative handles answer, and what reloading the parameters changes.\<close>

section \<open>Documents of descriptions\<close>

fun member_json :: "member \<Rightarrow> cJSON list" where
  "member_json (M_num name v) = [num v name]"
| "member_json (M_str name s) = [str s name]"
| "member_json (M_item name x) = (case x of None \<Rightarrow> [] | Some j \<Rightarrow> [cj_set_string (Some name) j])"

definition int32 :: "int \<Rightarrow> bool" where
  "int32 n \<longleftrightarrow> - (2 ^ 31) \<le> n \<and> n < 2 ^ 31"

fun member_ok :: "member \<Rightarrow> bool" where
  "member_ok (M_num name v) \<longleftrightarrow> c_string name \<and> int32 v"
| "member_ok (M_str name s) \<longleftrightarrow> c_string name \<and> c_string s"
| "member_ok (M_item name x) \<longleftrightarrow> c_string name \<and> (case x of None \<Rightarrow> True | Some j \<Rightarrow> canon j)"

lemma add_item: "cJSON_AddItemToObject (obj cs) name x = obj (cs @ member_json (M_item name x))"
  by (cases x) (simp_all add: cJSON_AddItemToObject_def obj_def)

lemma add_members_obj:
  "\<forall>m \<in> set ms. member_ok m \<Longrightarrow> add_members (obj cs) ms = Some (obj (cs @ concat (map member_json ms)))"
proof (induction ms arbitrary: cs)
  case (Cons m ms)
  then show ?case by (cases m) (simp_all add: add_num add_str add_item int32_def)
qed simp

lemma described_obj: "\<forall>m \<in> set ms. member_ok m \<Longrightarrow> described ms = Some (obj (concat (map member_json ms)))"
  using add_members_obj [of ms "[]"] by (simp add: described_def new_obj)

lemma canon_named: "canon (cj_set_string nm j) = canon j" "cj_string (cj_set_string nm j) = nm"
  by (cases j; simp)+

lemma canon_members: "member_ok m \<Longrightarrow> list_all (\<lambda>c. (case cj_string c of None \<Rightarrow> False | Some k \<Rightarrow> c_string k) \<and> canon c) (member_json m)"
  by (cases m) (auto simp: num_def str_def int32_def canon_named split: option.splits)

lemma canon_described: "\<forall>m \<in> set ms. member_ok m \<Longrightarrow> canon (obj (concat (map member_json ms)))"
proof -
  assume a: "\<forall>m \<in> set ms. member_ok m"
  have "list_all (\<lambda>c. (case cj_string c of None \<Rightarrow> False | Some k \<Rightarrow> c_string k) \<and> canon c) (concat (map member_json ms))"
    using a by (induction ms) (simp_all add: canon_members)
  then show ?thesis by (simp add: obj_def)
qed

lemma canon_arr: "\<forall>x \<in> set xs. cj_string x = None \<and> canon x \<Longrightarrow> canon (arr xs nm)"
  by (simp add: arr_def list_all_iff)

text \<open>The handle succeeds, and a client that parses the text of the answer gets the document; nothing else has changed.\<close>

definition answers :: "admin_env \<Rightarrow> 'd admin_state option \<Rightarrow> 'd admin_state \<Rightarrow> cJSON \<Rightarrow> bool" where
  "answers ae r st j \<longleftrightarrow> (\<exists>buf. r = Some (st\<lparr>as_reply := \<lparr>rp_type = KR_MSGTYPE_SUCCESS, rp_buf = Some buf, rp_len = length buf + 1\<rparr>\<rparr>) \<and>
     cJSON_Parse (ae_json ae) buf = Some (Some j))"

lemma set_answer_answers:
  assumes "jl_pow10 (ae_json ae) (Fin 0) = Fin 1" "canon j" "cj_string j = None"
  shows "answers ae (set_answer ae (Some j) st) st j"
proof -
  obtain buf where b: "print_value (ae_json ae) False 0 j = Some buf" using print_unformatted(1) [of "ae_json ae" 0 j] by blast
  from parse_printed [OF b assms(2,3,1)] b show ?thesis by (auto simp: answers_def set_answer_def cJSON_PrintUnformatted_def)
qed

lemma described_answers:
  assumes "jl_pow10 (ae_json ae) (Fin 0) = Fin 1" "\<forall>m \<in> set ms. member_ok m"
  shows "answers ae (set_answer ae (described ms) st) st (obj (concat (map member_json ms)))"
  unfolding described_obj [OF assms(2)] using set_answer_answers [OF assms(1) canon_described [OF assms(2)]] by (simp add: obj_def)

section \<open>Log settings\<close>

definition log_ok :: "T_KRLog \<Rightarrow> bool" where
  "log_ok lg \<longleftrightarrow> length (lg_path lg) < KR_LOGFILE_LEN \<and> c_string (lg_path lg) \<and> length (lg_name lg) < KR_LOGFILE_LEN \<and> c_string (lg_name lg) \<and>
     KR_LOGFATAL \<le> lg_level lg \<and> lg_level lg \<le> KR_LOGDEBUG"

definition log_doc :: "T_KRLog \<Rightarrow> cJSON" where
  "log_doc lg = obj [str (lg_path lg) ''path'', str (lg_name lg) ''name'', num (lg_level lg) ''level'']"

lemma log_answers:
  assumes "jl_pow10 (ae_json ae) (Fin 0) = Fin 1" "log_ok lg"
  shows "answers ae (set_answer ae (kr_log_dump_json lg) st) st (log_doc lg)"
  using described_answers [OF assms(1), of "[M_str ''path'' (lg_path lg), M_str ''name'' (lg_name lg), M_num ''level'' (lg_level lg)]" st] assms(2)
  by (simp add: kr_log_dump_json_def log_doc_def log_ok_def int32_def KR_LOGFATAL_def KR_LOGDEBUG_def)

section \<open>Descriptions of groups\<close>

definition group_members :: "param_texts \<Rightarrow> T_KRShmGroupDef \<Rightarrow> member list" where
  "group_members pt d = (let tx = pt_group pt (gd_id d) in
     [M_num ''id'' (gd_id d), M_str ''name'' (gd_name d), M_str ''desc'' (tx_desc tx), M_str ''func'' (tx_func tx), M_str ''calc_format'' (tx_format tx),
      M_str ''calc_string'' (gd_string d)])"

definition rule_members :: "param_texts \<Rightarrow> int \<Rightarrow> T_KRShmRuleDef \<Rightarrow> member list" where
  "rule_members pt gid d = (let tx = pt_rule pt gid (rd_id d) in
     [M_num ''id'' (rd_id d), M_str ''name'' (rd_name d), M_str ''desc'' (tx_desc tx), M_num ''datasrc'' (rd_datasrc d), M_str ''type'' (tx_type tx),
      M_str ''func'' (tx_func tx), M_num ''weight'' (rd_weight d), M_str ''calc_format'' (tx_format tx), M_str ''calc_string'' (rd_string d)])"

definition doc :: "member list \<Rightarrow> cJSON" where
  "doc ms = obj (concat (map member_json ms))"

definition rule_doc :: "param_texts \<Rightarrow> int \<Rightarrow> T_KRRule \<Rightarrow> cJSON" where
  "rule_doc pt gid r = doc [M_item ''def'' (Some (doc (rule_members pt gid (ru_def r))))]"

definition group_doc :: "param_texts \<Rightarrow> T_KRGroup \<Rightarrow> cJSON" where
  "group_doc pt g = doc [M_item ''def'' (Some (doc (group_members pt (gr_def g)))),
     M_item ''rules'' (Some (arr (map (rule_doc pt (gd_id (gr_def g))) (rl_rules (gr_rules g))) None))]"

text \<open>The numbers of a group and of its rules fit an \<open>int\<close>, the texts are terminated.\<close>

definition group_ok :: "param_texts \<Rightarrow> T_KRGroup \<Rightarrow> bool" where
  "group_ok pt g \<longleftrightarrow> (\<forall>m \<in> set (group_members pt (gr_def g)). member_ok m) \<and>
     (\<forall>r \<in> set (rl_rules (gr_rules g)). \<forall>m \<in> set (rule_members pt (gd_id (gr_def g)) (ru_def r)). member_ok m)"

lemma doc_described: "\<forall>m \<in> set ms. member_ok m \<Longrightarrow> described ms = Some (doc ms) \<and> canon (doc ms) \<and> cj_string (doc ms) = None"
  using described_obj canon_described by (simp add: doc_def) (simp add: obj_def)

lemma rule_info_doc:
  assumes "\<forall>m \<in> set (rule_members pt gid (ru_def r)). member_ok m"
  shows "kr_rule_info pt gid r = Some (rule_doc pt gid r) \<and> canon (rule_doc pt gid r) \<and> cj_string (rule_doc pt gid r) = None"
proof -
  have "kr_shm_rule_info pt gid (ru_def r) = described (rule_members pt gid (ru_def r))" by (simp add: kr_shm_rule_info_def rule_members_def Let_def)
  with doc_described [OF assms] doc_described [of "[M_item ''def'' (Some (doc (rule_members pt gid (ru_def r))))]"]
  show ?thesis by (simp add: kr_rule_info_def def_info_def rule_doc_def)
qed

lemma rules_info_doc:
  "\<forall>r \<in> set rs. \<forall>m \<in> set (rule_members pt gid (ru_def r)). member_ok m \<Longrightarrow>
   rules_info pt gid rs (arr xs None) = Some (arr (xs @ map (rule_doc pt gid) rs) None)"
  by (induction rs arbitrary: xs) (simp_all add: rule_info_doc push_arr)

lemma group_info_doc:
  assumes "group_ok pt g"
  shows "kr_group_info pt g = Some (group_doc pt g) \<and> canon (group_doc pt g) \<and> cj_string (group_doc pt g) = None"
proof -
  have "kr_shm_group_info pt (gr_def g) = described (group_members pt (gr_def g))" by (simp add: kr_shm_group_info_def group_members_def Let_def)
  moreover from assms have d: "described (group_members pt (gr_def g)) = Some (doc (group_members pt (gr_def g)))" "canon (doc (group_members pt (gr_def g)))"
    using doc_described [of "group_members pt (gr_def g)"] by (auto simp: group_ok_def)
  moreover have "rules_info pt (gd_id (gr_def g)) (rl_rules (gr_rules g)) cJSON_CreateArray = Some (arr (map (rule_doc pt (gd_id (gr_def g))) (rl_rules (gr_rules g))) None)"
    using rules_info_doc [of "rl_rules (gr_rules g)" pt "gd_id (gr_def g)" "[]"] assms by (simp add: group_ok_def new_obj)
  moreover have "canon (arr (map (rule_doc pt (gd_id (gr_def g))) (rl_rules (gr_rules g))) None)"
    using assms rule_info_doc by (intro canon_arr) (auto simp: group_ok_def)
  ultimately show ?thesis
    using doc_described [of "[M_item ''def'' (Some (doc (group_members pt (gr_def g)))),
     M_item ''rules'' (Some (arr (map (rule_doc pt (gd_id (gr_def g))) (rl_rules (gr_rules g))) None))]"]
    by (simp add: kr_group_info_def group_doc_def)
qed

section \<open>Reloading\<close>

definition load_ok :: "shm_loader \<Rightarrow> bool" where
  "load_ok ld \<longleftrightarrow> fst (ld_set ld) = 0 \<and> fst (ld_sdi ld) = 0 \<and> fst (ld_ddi ld) = 0 \<and> fst (ld_hdi ld) = 0 \<and> fst (ld_group ld) = 0"

text \<open>Two states of the shared memory with the same current section.\<close>

definition same_section :: "T_KRShareMem \<Rightarrow> T_KRShareMem \<Rightarrow> bool" where
  "same_section s t \<longleftrightarrow> sm_sec s = sm_sec t \<and> sm_set s (sm_sec s) = sm_set t (sm_sec s) \<and> sm_sdi s (sm_sec s) = sm_sdi t (sm_sec s) \<and>
     sm_ddi s (sm_sec s) = sm_ddi t (sm_sec s) \<and> sm_hdi s (sm_sec s) = sm_hdi t (sm_sec s) \<and> sm_group s (sm_sec s) = sm_group t (sm_sec s)"

lemma back_section: "n < 2 \<Longrightarrow> (n + 1) mod N_MAX_SEC \<noteq> n"
  by (simp add: N_MAX_SEC_def) presburger

lemma load_failed: "\<not> load_ok ld \<Longrightarrow> sm_sec shm < 2 \<Longrightarrow> \<exists>shm'. kr_shm_load ld shm = (shm', - 1) \<and> same_section shm shm'"
  using back_section [of "sm_sec shm"] by (auto simp: kr_shm_load_def load_ok_def same_section_def Let_def)

lemma load_done:
  assumes "load_ok ld" "sm_sec shm < 2"
  shows "\<exists>shm'. kr_shm_load ld shm = (shm', int (sm_sec shm')) \<and> sm_sec shm' = 1 - sm_sec shm \<and>
     sm_set shm' (sm_sec shm') = snd (ld_set ld) \<and> sm_sdi shm' (sm_sec shm') = snd (ld_sdi ld) \<and> sm_ddi shm' (sm_sec shm') = snd (ld_ddi ld) \<and>
     sm_hdi shm' (sm_sec shm') = snd (ld_hdi ld) \<and> sm_group shm' (sm_sec shm') = snd (ld_group ld) \<and>
     same_section shm (shm'\<lparr>sm_sec := sm_sec shm\<rparr>)"
  using assms back_section [OF assms(2)]
  by (auto simp: kr_shm_load_def load_ok_def same_section_def Let_def kr_shm_switch_def N_MAX_SEC_def less_2_cases_iff)

lemma set_times:
  assumes "kr_context_set pm arg cx = Some (0, cx')"
  shows "it_time (dy_sets (cx_dym cx')) = sa_time (sm_set (cx_shm cx) (sm_sec (cx_shm cx))) \<and> it_time (dy_sdis (cx_dym cx')) = sa_time (sm_sdi (cx_shm cx) (sm_sec (cx_shm cx))) \<and>
    it_time (dy_ddis (cx_dym cx')) = sa_time (sm_ddi (cx_shm cx) (sm_sec (cx_shm cx))) \<and> it_time (dy_hdis (cx_dym cx')) = sa_time (sm_hdi (cx_shm cx) (sm_sec (cx_shm cx))) \<and>
    gl_time (dy_groups (cx_dym cx')) = sa_time (sm_group (cx_shm cx) (sm_sec (cx_shm cx)))"
proof -
  from assms obtain d where d: "kr_dym_check pm (cx_shm cx) (cx_dym cx) = Some (0, d)" "cx' = cx\<lparr>cx_dym := d, cx_arg := arg\<rparr>"
    by (auto simp: kr_context_set_def bind_eq_Some_conv split: if_splits)
  from d(1) show ?thesis unfolding kr_dym_check_def Let_def d(2) by (elim renew_ok) (auto dest: table_times)
qed

lemma check_same_section:
  assumes "same_section s t"
  shows "kr_dym_check pm s d = kr_dym_check pm t d"
proof -
  define k where "k = sm_sec s"
  have "sm_sec t = k" "sm_set s k = sm_set t k" "sm_sdi s k = sm_sdi t k" "sm_ddi s k = sm_ddi t k" "sm_hdi s k = sm_hdi t k" "sm_group s k = sm_group t k"
    using assms by (auto simp: same_section_def k_def)
  then show ?thesis by (simp add: kr_dym_check_def Let_def k_def [symmetric])
qed

lemma set_same_section:
  "same_section (cx_shm cx) t \<Longrightarrow> kr_context_set pm arg (cx\<lparr>cx_shm := t\<rparr>) = map_option (\<lambda>(r, cx'). (r, cx'\<lparr>cx_shm := t\<rparr>)) (kr_context_set pm arg cx)"
  using check_same_section [of "cx_shm cx" t pm "cx_dym cx"]
  by (cases "kr_dym_check pm t (cx_dym cx)") (auto simp: kr_context_set_def)

lemma info_param_some:
  assumes "\<forall>n \<in> {int (sm_sec (cx_shm (as_cx st))), sa_time (sm_set (cx_shm (as_cx st)) (sm_sec (cx_shm (as_cx st)))), sa_time (sm_sdi (cx_shm (as_cx st)) (sm_sec (cx_shm (as_cx st)))),
      sa_time (sm_ddi (cx_shm (as_cx st)) (sm_sec (cx_shm (as_cx st)))), sa_time (sm_hdi (cx_shm (as_cx st)) (sm_sec (cx_shm (as_cx st)))),
      sa_time (sm_group (cx_shm (as_cx st)) (sm_sec (cx_shm (as_cx st)))), it_time (dy_sets (cx_dym (as_cx st))), it_time (dy_sdis (cx_dym (as_cx st))),
      it_time (dy_ddis (cx_dym (as_cx st))), it_time (dy_hdis (cx_dym (as_cx st))), gl_time (dy_groups (cx_dym (as_cx st)))}. int32 n"
  shows "\<exists>st'. kr_engine_info_param ae st = Some st'"
proof -
  obtain shm dym where i: "kr_shm_info (cx_shm (as_cx st)) = Some shm" "canon shm" "kr_dym_info (cx_dym (as_cx st)) = Some dym" "canon dym"
    using assms by (simp add: kr_shm_info_def kr_dym_info_def Let_def doc_described)
  then obtain j where "described [M_item ''shm'' (Some shm), M_item ''dym'' (Some dym)] = Some j"
    using doc_described [of "[M_item ''shm'' (Some shm), M_item ''dym'' (Some dym)]"] by simp
  moreover obtain buf where "cJSON_PrintUnformatted (ae_json ae) j = Some buf"
    using print_unformatted(1) [of "ae_json ae" 0 j] by (auto simp: cJSON_PrintUnformatted_def)
  ultimately show ?thesis using i by (simp add: kr_engine_info_param_def set_answer_def)
qed

section \<open>Properties\<close>

text \<open>An engine for the examples, with one group of one rule.\<close>

definition small_group :: T_KRGroup where
  "small_group = \<lparr>gr_def = \<lparr>gd_id = 4, gd_name = ''cards'', gd_format = KR_CALCFORMAT_FLEX, gd_string = ''true'', gd_rules = no_area\<rparr>, gr_id = 4, gr_calc = None,
     gr_rules = \<lparr>rl_cnt = 1, rl_rules = [\<lparr>ru_def = \<lparr>rd_id = 6, rd_name = ''many'', rd_datasrc = 1, rd_format = KR_CALCFORMAT_FLEX, rd_string = ''3 < 5'', rd_weight = 2\<rparr>,
       ru_id = 6, ru_weight = 2, ru_calc = None, ru_violated = False, ru_related = {}\<rparr>], rl_time = 0, rl_fired = 0, rl_weights = 0\<rparr>\<rparr>"

definition small_text :: "string \<Rightarrow> def_text" where
  "small_text nm = \<lparr>tx_name = nm, tx_desc = ''demo'', tx_usage = [], tx_type = [], tx_value_type = ''I'', tx_prop = [], tx_method = [], tx_format = ''0'', tx_func = [],
     tx_datasrc = 1, tx_length = 0, tx_count = 0\<rparr>"

definition small_env :: "int \<Rightarrow> admin_env" where
  "small_env ret = \<lparr>ae_json = demo_lib, ae_access = (\<lambda>path. path = ''/tmp''),
     ae_loader = \<lparr>ld_set = (0, no_area), ld_sdi = (0, no_area), ld_ddi = (0, two_defs\<lparr>sa_time := 0\<rparr>), ld_hdi = (ret, no_area), ld_group = (0, no_area)\<rparr>,
     ae_texts = \<lparr>pt_set = (\<lambda>_. small_text ''set''), pt_sdi = (\<lambda>_. small_text ''sdi''), pt_ddi = (\<lambda>_. small_text ''ddi''), pt_hdi = (\<lambda>_. small_text ''hdi''),
       pt_group = (\<lambda>_. small_text ''group''), pt_rule = (\<lambda>_ _. small_text ''rule'')\<rparr>,
     ae_set_def = (\<lambda>n. \<lparr>zd_id = n, zd_name = ''set'', zd_type = KR_TYPE_INT\<rparr>),
     ae_version = ''1.0'', ae_package = ''krproject'', ae_package_version = ''1.0'', ae_package_bugreport = [], ae_package_url = []\<rparr>"

definition small_state :: "payment admin_state" where
  "small_state = \<lparr>as_log = gstKRLog,
     as_cx = shop (kr_create_db ''db'' (\<lambda>_. 0)) undefined 1 \<lparr>gl_cnt = 1, gl_groups = [small_group], gl_time = 0\<rparr> None,
     as_reply = \<lparr>rp_type = KR_MSGTYPE_ERROR, rp_buf = None, rp_len = 0\<rparr>\<rparr>"

lemma small_request:
  assumes "canon j" "cj_string j = None"
  obtains rq :: admin_request where "cJSON_Parse (ae_json (small_env ret)) (rq_buf rq) = Some (Some j)"
proof -
  obtain b where b: "print_value demo_lib False 0 j = Some b" using print_unformatted(1) [of demo_lib 0 j] by blast
  show thesis using that [of "\<lparr>rq_datasrc = 1, rq_buf = b\<rparr>"] parse_printed [OF b assms demo_pow] by (simp add: small_env_def)
qed

lemma small_log: "jl_pow10 (ae_json (small_env ret)) (Fin 0) = Fin 1" "log_ok (as_log small_state)"
  using demo_pow by (simp_all add: small_env_def small_state_def gstKRLog_def log_ok_def KR_LOGFILE_LEN_def KR_LOGFATAL_def KR_LOGWARNING_def KR_LOGDEBUG_def)

text \<open>Requests that change the log settings: a new level, path (of a directory that can be read) or name is stored, nothing else
  changes, and the text of the answer, parsed again, is the settings as they are now. A level outside the enumeration, a path that
  cannot be read or a request without the member is answered with an error and changes nothing. A name or path of 1024 characters or
  more is not refused: it is copied beyond the end of the static array (the execution is undefined).\<close>

theorem log_settings_requests:
  assumes "jl_pow10 (ae_json ae) (Fin 0) = Fin 1" "log_ok (as_log st)" "cJSON_Parse (ae_json ae) (rq_buf rq) = Some (Some j)"
  shows "(get_int j ''log_level'' = Some n \<longrightarrow>
       (if KR_LOGFATAL \<le> n \<and> n \<le> KR_LOGDEBUG
        then answers ae (kr_engine_set_loglevel ae rq st) (st\<lparr>as_log := (as_log st)\<lparr>lg_level := n\<rparr>\<rparr>) (log_doc ((as_log st)\<lparr>lg_level := n\<rparr>))
        else kr_engine_set_loglevel ae rq st = Some (set_error st))) \<and>
    (cJSON_GetString j ''log_name'' = Some (Some name) \<and> c_string name \<longrightarrow>
       (if length name < 1024
        then answers ae (kr_engine_set_logname ae rq st) (st\<lparr>as_log := (as_log st)\<lparr>lg_name := name\<rparr>\<rparr>) (log_doc ((as_log st)\<lparr>lg_name := name\<rparr>))
        else kr_engine_set_logname ae rq st = None)) \<and>
    (cJSON_GetString j ''log_name'' = Some None \<longrightarrow> kr_engine_set_logname ae rq st = Some (set_error st)) \<and>
    (cJSON_GetString j ''log_path'' = Some (Some path) \<and> c_string path \<longrightarrow>
       (if \<not> ae_access ae path then kr_engine_set_logpath ae rq st = Some (set_error st)
        else if length path < 1024
        then answers ae (kr_engine_set_logpath ae rq st) (st\<lparr>as_log := (as_log st)\<lparr>lg_path := path\<rparr>\<rparr>) (log_doc ((as_log st)\<lparr>lg_path := path\<rparr>))
        else kr_engine_set_logpath ae rq st = None)) \<and>
    (cJSON_GetString j ''log_path'' = Some None \<longrightarrow> kr_engine_set_logpath ae rq st = Some (set_error st))"
proof -
  have a: "answers ae (set_answer ae (kr_log_dump_json lg) st') st' (log_doc lg)" if "log_ok lg" for lg and st' :: "'a admin_state"
    using log_answers [OF assms(1) that] .
  have l: "log_ok ((as_log st)\<lparr>lg_level := n\<rparr>)" if "KR_LOGFATAL \<le> n" "n \<le> KR_LOGDEBUG" using assms(2) that by (simp add: log_ok_def)
  have n: "log_ok ((as_log st)\<lparr>lg_name := name\<rparr>)" if "length name < 1024" "c_string name" using assms(2) that by (simp add: log_ok_def KR_LOGFILE_LEN_def)
  have p: "log_ok ((as_log st)\<lparr>lg_path := path\<rparr>)" if "length path < 1024" "c_string path" using assms(2) that by (simp add: log_ok_def KR_LOGFILE_LEN_def)
  note defs = with_json_def kr_log_set_level_def kr_log_set_name_def kr_log_set_path_def strcpy_array_def KR_LOGFILE_LEN_def assms(3) Let_def
  have "get_int j ''log_level'' = Some n \<longrightarrow>
       (if KR_LOGFATAL \<le> n \<and> n \<le> KR_LOGDEBUG
        then answers ae (kr_engine_set_loglevel ae rq st) (st\<lparr>as_log := (as_log st)\<lparr>lg_level := n\<rparr>\<rparr>) (log_doc ((as_log st)\<lparr>lg_level := n\<rparr>))
        else kr_engine_set_loglevel ae rq st = Some (set_error st))"
    using a [OF l] by (auto simp: kr_engine_set_loglevel_def defs)
  moreover have "cJSON_GetString j ''log_name'' = Some (Some name) \<and> c_string name \<longrightarrow>
       (if length name < 1024
        then answers ae (kr_engine_set_logname ae rq st) (st\<lparr>as_log := (as_log st)\<lparr>lg_name := name\<rparr>\<rparr>) (log_doc ((as_log st)\<lparr>lg_name := name\<rparr>))
        else kr_engine_set_logname ae rq st = None)"
    using a [OF n] by (simp add: kr_engine_set_logname_def defs)
  moreover have "cJSON_GetString j ''log_path'' = Some (Some path) \<and> c_string path \<longrightarrow>
       (if \<not> ae_access ae path then kr_engine_set_logpath ae rq st = Some (set_error st)
        else if length path < 1024
        then answers ae (kr_engine_set_logpath ae rq st) (st\<lparr>as_log := (as_log st)\<lparr>lg_path := path\<rparr>\<rparr>) (log_doc ((as_log st)\<lparr>lg_path := path\<rparr>))
        else kr_engine_set_logpath ae rq st = None)"
    using a [OF p] by (simp add: kr_engine_set_logpath_def defs)
  ultimately show ?thesis by (simp add: kr_engine_set_logname_def kr_engine_set_logpath_def defs)
qed

lemma log_settings_requests_witness:
  "\<exists>rq. cJSON_Parse demo_lib (rq_buf rq) = Some (Some (obj [str ''engine'' ''log_name''])) \<and>
     answers (small_env 0) (kr_engine_set_logname (small_env 0) rq small_state) (small_state\<lparr>as_log := gstKRLog\<lparr>lg_name := ''engine''\<rparr>\<rparr>)
       (obj [str ''.'' ''path'', str ''engine'' ''name'', num 3 ''level''])"
proof -
  let ?j = "obj [str ''engine'' ''log_name'']"
  have "canon ?j" "cj_string ?j = None" by (simp_all add: obj_def str_def)
  then obtain rq :: admin_request where rq: "cJSON_Parse (ae_json (small_env 0)) (rq_buf rq) = Some (Some ?j)" by (rule small_request [where ret = 0])
  have "cJSON_strcasecmp (Some ''log_name'') (Some ''log_name'') = Some 0" by code_simp
  then have "cJSON_GetString ?j ''log_name'' = Some (Some ''engine'')" by (simp add: cJSON_GetString_def cJSON_GetObjectItem_def obj_def str_def)
  with log_settings_requests [OF small_log rq, of 0 "''engine''" "[]"]
  have "answers (small_env 0) (kr_engine_set_logname (small_env 0) rq small_state) (small_state\<lparr>as_log := (as_log small_state)\<lparr>lg_name := ''engine''\<rparr>\<rparr>)
      (log_doc ((as_log small_state)\<lparr>lg_name := ''engine''\<rparr>))" by simp
  with rq show ?thesis by (intro exI [of _ rq]) (simp add: small_state_def log_doc_def gstKRLog_def KR_LOGWARNING_def small_env_def)
qed

text \<open>What a client reads from the answer to a request for a group: if there is a group with the number, the parsed text of the answer
  is the document with the group's definition and the definitions of its rules, in the order in which they are evaluated; if not,
  the answer is an error. Either way the state of the engine is as before. The numbers have to fit an \<open>int\<close>.\<close>

theorem info_group_describes:
  assumes "jl_pow10 (ae_json ae) (Fin 0) = Fin 1" "cJSON_Parse (ae_json ae) (rq_buf rq) = Some (Some j)" "get_int j ''group_id'' = Some gid"
  shows "case kr_group_lookup (dy_groups (cx_dym (as_cx st))) gid of
       None \<Rightarrow> kr_engine_info_group ae rq st = Some (set_error st)
     | Some g \<Rightarrow> group_ok (ae_texts ae) g \<longrightarrow> answers ae (kr_engine_info_group ae rq st) st (group_doc (ae_texts ae) g)"
proof (cases "kr_group_lookup (dy_groups (cx_dym (as_cx st))) gid")
  case None
  with assms(2,3) show ?thesis by (simp add: kr_engine_info_group_def with_json_def answer_found_def)
next
  case (Some g)
  have "answers ae (set_answer ae (kr_group_info (ae_texts ae) g) st) st (group_doc (ae_texts ae) g)" if "group_ok (ae_texts ae) g"
    using set_answer_answers [OF assms(1), of "group_doc (ae_texts ae) g" st] group_info_doc [OF that] by simp
  with Some assms(2,3) show ?thesis by (simp add: kr_engine_info_group_def with_json_def answer_found_def)
qed

lemma info_group_describes_witness:
  "\<exists>rq. cJSON_Parse demo_lib (rq_buf rq) = Some (Some (obj [num 4 ''group_id''])) \<and>
     answers (small_env 0) (kr_engine_info_group (small_env 0) rq small_state) small_state (group_doc (ae_texts (small_env 0)) small_group) \<and>
     (\<exists>rules. cj_child (group_doc (ae_texts (small_env 0)) small_group) =
        [cj_set_string (Some ''def'') (obj [num 4 ''id'', str ''cards'' ''name'', str ''demo'' ''desc'', str [] ''func'', str ''0'' ''calc_format'', str ''true'' ''calc_string'']), rules])"
proof -
  let ?j = "obj [num 4 ''group_id'']"
  have "canon ?j" "cj_string ?j = None" by (simp_all add: obj_def num_def)
  then obtain rq :: admin_request where rq: "cJSON_Parse (ae_json (small_env 0)) (rq_buf rq) = Some (Some ?j)" by (rule small_request [where ret = 0])
  have "cJSON_strcasecmp (Some ''group_id'') (Some ''group_id'') = Some 0" by code_simp
  then have g: "get_int ?j ''group_id'' = Some 4" by (simp add: get_int_def cJSON_GetNumber_def cJSON_GetObjectItem_def obj_def num_def d_to_i32_of_int)
  have l: "kr_group_lookup (dy_groups (cx_dym (as_cx small_state))) 4 = Some small_group"
    by (simp add: small_state_def shop_def kr_group_lookup_def) (simp add: small_group_def)
  have ok: "group_ok (ae_texts (small_env 0)) small_group"
    by (simp add: group_ok_def group_members_def rule_members_def small_group_def small_env_def small_text_def Let_def int32_def)
  from info_group_describes [OF small_log(1) rq g, of small_state] l ok
  have "answers (small_env 0) (kr_engine_info_group (small_env 0) rq small_state) small_state (group_doc (ae_texts (small_env 0)) small_group)" by simp
  moreover have "\<exists>rules. cj_child (group_doc (ae_texts (small_env 0)) small_group) =
        [cj_set_string (Some ''def'') (obj [num 4 ''id'', str ''cards'' ''name'', str ''demo'' ''desc'', str [] ''func'', str ''0'' ''calc_format'', str ''true'' ''calc_string'']), rules]"
    by (simp add: group_doc_def doc_def group_members_def small_group_def small_env_def small_text_def Let_def obj_def)
  ultimately show ?thesis using rq by (intro exI [of _ rq]) (simp add: small_env_def)
qed



text \<open>Areas are compared by the second in which they were loaded. When a reload ends in the second in which the tables of a context
  had been loaded, the context goes on with its tables, whatever has been loaded, although the reload was answered with success.\<close>

theorem reload_same_second_ignored:
  assumes "sm_sec (cx_shm (as_cx st)) < 2" "load_ok (ae_loader ae)" "cx_dym (as_cx st) = d"
    and "sa_time (snd (ld_set (ae_loader ae))) = it_time (dy_sets d)" "sa_time (snd (ld_sdi (ae_loader ae))) = it_time (dy_sdis d)"
    and "sa_time (snd (ld_ddi (ae_loader ae))) = it_time (dy_ddis d)" "sa_time (snd (ld_hdi (ae_loader ae))) = it_time (dy_hdis d)"
    and "sa_time (snd (ld_group (ae_loader ae))) = gl_time (dy_groups d)"
    and "kr_engine_reload_param ae st = Some st'"
  shows "rp_type (as_reply st') = KR_MSGTYPE_SUCCESS \<and> sm_ddi (cx_shm (as_cx st')) (sm_sec (cx_shm (as_cx st'))) = snd (ld_ddi (ae_loader ae)) \<and>
     kr_context_set pm arg (as_cx st') = Some (0, (as_cx st')\<lparr>cx_arg := arg\<rparr>) \<and> cx_dym (as_cx st') = d"
proof -
  from load_done [OF assms(2,1)] obtain shm where s: "kr_shm_load (ae_loader ae) (cx_shm (as_cx st)) = (shm, int (sm_sec shm))"
    "sm_set shm (sm_sec shm) = snd (ld_set (ae_loader ae))" "sm_sdi shm (sm_sec shm) = snd (ld_sdi (ae_loader ae))" "sm_ddi shm (sm_sec shm) = snd (ld_ddi (ae_loader ae))"
    "sm_hdi shm (sm_sec shm) = snd (ld_hdi (ae_loader ae))" "sm_group shm (sm_sec shm) = snd (ld_group (ae_loader ae))" by blast
  let ?cx = "(as_cx st)\<lparr>cx_shm := shm\<rparr>"
  from assms(9) s(1) have st': "as_cx st' = ?cx" "rp_type (as_reply st') = KR_MSGTYPE_SUCCESS"
    by (auto simp: kr_engine_reload_param_def Let_def kr_engine_info_param_def set_answer_def bind_eq_Some_conv)
  have "kr_dym_check pm shm d = Some (0, d)" using s assms(4-8) by (simp add: kr_dym_check_def renew_def Let_def)
  with st' s(4) assms(3) show ?thesis by (simp add: kr_context_set_def)
qed

lemma reload_same_second_ignored_witness:
  "\<exists>st'. kr_engine_reload_param (small_env 0) small_state = Some st' \<and> sa_cnt (sm_ddi (cx_shm (as_cx st')) (sm_sec (cx_shm (as_cx st')))) = 2 \<and>
     kr_context_set shop_pm (Some 1) (as_cx st') = Some (0, (as_cx st')\<lparr>cx_arg := Some 1\<rparr>) \<and> cx_dym (as_cx st') = cx_dym (as_cx small_state)"
proof -
  let ?ld = "ae_loader (small_env 0)" and ?d = "cx_dym (as_cx small_state)"
  have ok: "sm_sec (cx_shm (as_cx small_state)) < 2" "load_ok ?ld" by (simp_all add: small_state_def shop_def load_ok_def small_env_def)
  have t: "sa_time (snd (ld_set ?ld)) = it_time (dy_sets ?d)" "sa_time (snd (ld_sdi ?ld)) = it_time (dy_sdis ?d)" "sa_time (snd (ld_ddi ?ld)) = it_time (dy_ddis ?d)"
    "sa_time (snd (ld_hdi ?ld)) = it_time (dy_hdis ?d)" "sa_time (snd (ld_group ?ld)) = gl_time (dy_groups ?d)"
    by (simp_all add: small_env_def small_state_def shop_def no_area_def)
  from load_done [OF ok(2,1)] obtain shm where s: "kr_shm_load ?ld (cx_shm (as_cx small_state)) = (shm, int (sm_sec shm))" "sm_sec shm = 1 - sm_sec (cx_shm (as_cx small_state))"
    "sm_set shm (sm_sec shm) = snd (ld_set ?ld)" "sm_sdi shm (sm_sec shm) = snd (ld_sdi ?ld)" "sm_ddi shm (sm_sec shm) = snd (ld_ddi ?ld)"
    "sm_hdi shm (sm_sec shm) = snd (ld_hdi ?ld)" "sm_group shm (sm_sec shm) = snd (ld_group ?ld)" by blast
  have sec: "sm_sec shm < 2" using s(2) by (simp add: small_state_def shop_def)
  have z: "it_time (dy_sets ?d) = 0" "it_time (dy_sdis ?d) = 0" "it_time (dy_ddis ?d) = 0" "it_time (dy_hdis ?d) = 0" "gl_time (dy_groups ?d) = 0"
    by (simp_all add: small_state_def shop_def)
  have "\<exists>st'. kr_engine_info_param (small_env 0) (small_state\<lparr>as_cx := (as_cx small_state)\<lparr>cx_shm := shm\<rparr>\<rparr>) = Some st'"
    using sec by (intro info_param_some) (simp add: s(3-) t z int32_def)
  then obtain st' where st': "kr_engine_reload_param (small_env 0) small_state = Some st'" using s(1) by (auto simp: kr_engine_reload_param_def Let_def)
  from reload_same_second_ignored [OF ok refl t st', of shop_pm "Some 1"] st' show ?thesis
    by (auto simp: small_env_def two_defs_def Let_def)
qed

end
