(* ===== verification/Spec2Isabelle.thy ===== *)
theory Spec2Isabelle
  imports KR_HashTable_Props KR_List_Props KR_Calc_Props KR_DB_Props KR_Cache_Props KR_Data_Props KR_Context_Props
    KR_Engine_Props KR_Data_Loop KR_Json_Props KR_Calc_Json_Props KR_Server_Props KR_ThreadPool_Props KR_ConHash_Props KR_Event_Props
    KR_Admin_Props
begin

text \<open>
  \<^bold>\<open>krproject: a rule engine over a database of recent records\<close>

  krproject decides, for a stream of events, which rules fire. An event is mapped to a record and pushed
  into a table that keeps the last so many records, with indexes by field value (\<open>src/krdb\<close>). Rules,
  groups of rules and data items are parameters in shared memory; a context builds its own objects from
  them (\<open>src/krparam\<close>). Their texts are expressions, parsed into trees and evaluated with callbacks for the
  identifiers (\<open>src/krcalc\<close>); an identifier is a field of the current record or a data item, the value of which is an aggregation
  over the records with the key of the current one, filtered by an expression that may itself use data items
  (\<open>src/krdata\<close>). The engine (\<open>src/krengine\<close>) receives a message, inserts its event, finds the first group
  whose expression holds, evaluates the group's rules and replies with a JSON document. All of this rests on the
  containers of \<open>src/krutils\<close>.

  \<^bold>\<open>Conventions.\<close> A C function is a HOL function that returns an option, \<^term>\<open>None\<close> for an execution that C
  leaves undefined or that crashes: a read through NULL or of freed memory, a signed overflow, a failed
  assertion. NULL and error codes are values. Heap objects that are shared (list nodes, tables, records) live in maps
  from addresses; integers that wrap are words, other \<open>int\<close> and \<open>long\<close> computations are checked; a \<open>double\<close> is a
  rational, rounded to 53 bits, an infinity, a NaN or a negative zero. Allocation does not fail, and logging is left out.

  \<^bold>\<open>Theories and sources.\<close>
    \<^item> \<open>KR_Prelude\<close>, \<open>KR_CLib\<close>, \<open>KR_Double\<close>: options and lists; the functions of the C library that the code uses
      on characters and texts; binary64 numbers.
    \<^item> \<open>KR_HashTable\<close> is \<open>krutils/kr_hashtable.c\<close>, open addressing with quadratic probing and tombstones. \<open>KR_Probing\<close> shows
      that the probe sequence visits every slot, \<open>KR_HashTable_Map\<close> and \<open>KR_HashTable_Ops\<close> that every operation
      keeps the invariant and acts on the abstract map; \<open>KR_HashTable_Keys\<close> does the same for keys that are compared through
      the records they point into. The locales for key equality and hashing are interpreted there and in \<open>KR_HashSet\<close>.
    \<^item> \<open>KR_Types\<close>, \<open>KR_String\<close>, \<open>KR_HashSet\<close> are \<open>kr_types.h\<close>, \<open>kr_string.c\<close>, \<open>kr_hashset.c\<close> and \<open>kr_functable.c\<close>.
    \<^item> \<open>KR_List\<close> is \<open>kr_list.c\<close> and \<open>kr_queue.c\<close> over a memory of nodes; \<open>KR_List_Seq\<close> relates it to sequences.
    \<^item> \<open>KR_Cache\<close> is \<open>kr_cache.c\<close>, a list and a hash table kept in step; it refines a least-recently-used cache.
    \<^item> \<open>KR_Calc\<close> is \<open>krcalc/kr_calc_tree.c\<close> and \<open>kr_calc.c\<close>. \<open>KR_Calc_Sem\<close> is a reference semantics of expressions
      without stored results, \<open>KR_Calc_Eval\<close> the equivalence with it.
    \<^item> \<open>KR_Json\<close> is \<open>kr_json.c\<close>; \<open>KR_Json_Text\<close> and \<open>KR_Json_Tree\<close> hold the lemmas on texts. \<open>KR_Calc_Json\<close> is the
      parser and the dumpers of calculators.
    \<^item> \<open>KR_DB\<close> is \<open>krdb/kr_db_kernel.c\<close> and the operations of \<open>kr_db.c\<close>. \<open>KR_DB_Index\<close>, \<open>KR_DB_Inv\<close>, \<open>KR_DB_Insert\<close>, \<open>KR_DB_View\<close> and \<open>KR_DB_Build\<close>
      hold the invariant that ties the ring buffer, the record lists and the indexes together, its preservation, the
      abstract view (a list of rows) and the construction of databases from nothing.
    \<^item> \<open>KR_Context\<close> is \<open>krparam/kr_dym*.c\<close> and \<open>krdata/kr_context.c\<close>; \<open>KR_Item\<close>, \<open>KR_HDI\<close> and \<open>KR_Data\<close> are the items of
      \<open>krdata\<close>. Items and expressions evaluate each other; \<open>KR_Data\<close> ties the knot with the fuel of \<open>data_env\<close>. \<open>KR_Data_Eval\<close>,
      \<open>KR_Data_Walk\<close>, \<open>KR_Data_Static\<close> and \<open>KR_Eval_Stable\<close> hold the specifications of one evaluation, \<open>KR_Data_Demo\<close> a
      database of payments for the examples.
    \<^item> \<open>KR_SkipList\<close> is \<open>kr_skiplist.c\<close>; \<open>KR_SkipList_Inv\<close> describes the chains of pointers, \<open>KR_SkipList_Map\<close> the operations as
      operations of a sorted map, in a locale for the compare function. \<open>KR_ConHash\<close> is \<open>kr_conhash.c\<close>; \<open>KR_ConHash_Crc\<close> is about its
      hash function, \<open>KR_ConHash_Ring\<close> interprets the locale for the two skip lists of a ring and relates them to its members.
    \<^item> \<open>KR_Server\<close> is \<open>krserver/kr_server_protocol.c\<close> and the reading side of \<open>kr_server_network.c\<close>: bytes from a socket of any
      fragmentation to messages and answers.
    \<^item> \<open>KR_ThreadPool\<close> is \<open>krutils/kr_threadpool.c\<close> as a step relation between its threads; \<open>KR_ThreadPool_Inv\<close> holds the
      invariant: who has the mutex, that the queue and the history of tasks agree, and that a sleeping worker will be woken. A busy wait whose test
      fails is no step, and the unlocked reading of the queue length is atomic.
    \<^item> \<open>KR_Event\<close> is \<open>krutils/kr_event.c\<close> over \<open>kr_event_epoll.c\<close>, with the kernel's table of descriptors in the state; a pass over the
      timers may not end, and is a partial function.
    \<^item> \<open>KR_Engine\<close> is \<open>krengine/kr_engine_detect.c\<close> and the handling of events in \<open>kr_engine.c\<close> and \<open>kr_engine_handle.c\<close>;
      \<open>KR_Engine_Spec\<close> specifies a detection, \<open>KR_Engine_Items\<close> the events whose expressions use data items.
    \<^item> \<open>KR_Admin\<close> is the rest of \<open>kr_engine_handle.c\<close>, the handles that describe and configure the engine, with the settings of
      \<open>kr_log.c\<close>, the descriptions \<open>kr_*_info\<close> of \<open>kr_db_api.c\<close>, \<open>krparam/kr_shm*.c\<close> and \<open>krparam/kr_dym*.c\<close>, and the double buffering of
      \<open>kr_shm.c\<close>; what the loaders read from the parameter database is a parameter.

  The properties are in the theories named \<open>_Props\<close> and in \<open>KR_Data_Loop\<close>. They say, bottom up: the hash table is a
  map, the list a sequence, the queue first-in first-out, the cache least-recently-used; the evaluation of an
  expression is its denotation, and of the type its check gives; the database returns for a key exactly the
  recent rows with it; the tables of a context follow the shared memory; the value of an item is the aggregation
  it is defined to be; a detection runs the rules of the first matching group and counts those that fire; what
  is printed as JSON is read back; a server answers the requests of a client in their order; a thread pool runs every task once;
  a skip list is a sorted map, and the ring built on it a consistent hash; a round of the event loop runs what is ready and due, once; a reload
  of the parameters is all or nothing. Each is stated for every history or every input, with an example
  that shows its hypotheses can hold. The remaining properties state where the code does not do that: freed
  nodes read, keys lost, cached values taken for those of another record, buffers overflowed, recursion without end.

  \<^bold>\<open>Bounds and fuel.\<close> The loops of the containers are recursive functions with a bound that the invariants make sufficient (the number
  of slots for a probe sequence, the number of nodes for a list walk), and the properties show that they return. \<open>data_env n\<close>
  allows a nesting of \<open>n\<close> items; the properties need one more than the depth the items have, and
  \<open>ddi_self_reference_diverges\<close> shows an item for which no \<open>n\<close> is enough. The parser of JSON has fuel for two calls per
  character; \<open>json_parse_ends\<close> shows that there is a result, which more fuel does not change, on every text at no position of which a number or a
  string begins whose reading alone is undefined.

  \<^bold>\<open>Parameters.\<close> The mapping functions that fill a record from an event, the functions \<open>regcomp\<close> and \<open>regexec\<close>, \<open>pow\<close> and the
  formats of \<open>printf\<close> for doubles, the selections from the parameter database, the generated parser of
  expressions, hash functions of strings and addresses, and what an uninitialised variable holds.

  \<^bold>\<open>Not modelled.\<close> The generated lexer and parser (\<open>kr_calc_parser_flex.c\<close>, \<open>kr_calc_parser_bison.c\<close>); the ODBC access and the copying of its rows
  into the shared memory (\<open>src/dbs\<close>, the loaders of \<open>krparam/kr_shm_*.c\<close>); sockets (an answer is taken to be written in full), the event loops for systems without epoll, the writing of the log, and modules (\<open>kr_net.c\<close>, \<open>kr_event_select.c\<close>, \<open>kr_event_kqueue.c\<close>, \<open>kr_log.c\<close>, \<open>kr_module.c\<close>) with the programs built on them (the rest of \<open>krserver\<close>, \<open>krcoordi\<close>, \<open>kriface\<close>,
  \<open>krshell\<close>, \<open>krweb\<close>, the bindings); the n-ary tree
  (\<open>kr_ntree.c\<close>), which no modelled part uses; release functions whose only effect is \<open>free\<close>.
\<close>

end
